(* ===== verification/Prelude.thy ===== *)
theory Prelude
  imports Main "HOL-Library.Word" "HOL-Library.List_Lexorder" "HOL-Library.Product_Lexorder"
begin

text \<open>
  Shared ground of the development: the machine integers of the Go sources and the
  arithmetic facts about them, the error-and-state monad in which every state machine
  operation is written, a success-only Hoare logic for it, and the sorted key-value
  tables that stand for the prefix groups of the node's store.

  A Go function \<open>func (s *StateMachine) F(x) (r, err)\<close> mutates the receiver and may
  leave it half changed when it returns an error. The monad keeps that: a computation
  maps a state to an error or a result, together with the state it leaves behind in
  either case.
\<close>

section \<open>Collections of facts\<close>

named_theorems go_simps \<open>equations of the monad and its loops\<close>
named_theorems hoare_rules \<open>introduction rules of the Hoare logic\<close>
named_theorems table_simps \<open>laws of the key-value tables\<close>
named_theorems keeps_rules \<open>introduction rules for frames\<close>

section \<open>Machine integers\<close>

type_synonym u64 = "64 word"
type_synonym byte = "8 word"
type_synonym bytes = "byte list"

text \<open>\<open>math.MaxUint64\<close>\<close>

definition MaxUint64 :: u64 where
  "MaxUint64 = -1"

lemma unat_MaxUint64 [simp]: "unat MaxUint64 = 2 ^ 64 - 1"
  by (simp add: MaxUint64_def unsigned_minus_1_eq_mask mask_eq_exp_minus_1)

lemma u64_bound: "unat (x :: u64) < 2 ^ 64"
  using unsigned_less [of x, where ?'a = nat] by simp

text \<open>
  The overflow guard of the sources, \<open>if x > math.MaxUint64-y { return err }\<close>: it is exact,
  and past it the machine addition is the mathematical one.
\<close>

lemma add_guard_iff: "MaxUint64 - y < x \<longleftrightarrow> 2 ^ 64 \<le> unat x + unat (y :: u64)"
proof -
  have "unat (MaxUint64 - y) = 2 ^ 64 - 1 - unat y"
    using unat_MaxUint64 by (subst unat_sub) (simp_all add: MaxUint64_def)
  then show ?thesis
    using u64_bound [of y] by (auto simp: word_less_nat_alt)
qed

lemma unat_add_exact: "unat x + unat y < 2 ^ 64 \<Longrightarrow> unat (x + y :: u64) = unat x + unat y"
  by (simp add: unat_word_ariths)

lemma unat_add_guarded: "\<not> MaxUint64 - y < x \<Longrightarrow> unat (x + y) = unat x + unat y"
  by (simp add: add_guard_iff unat_add_exact)

lemma unat_sub_guarded: "\<not> x < y \<Longrightarrow> unat (x - y :: u64) = unat x - unat y"
  by (simp add: unat_sub linorder_not_less)

lemma unat_le_iff: "(x :: u64) \<le> y \<longleftrightarrow> unat x \<le> unat y"
  by (rule word_le_nat_alt)

lemma unat_less_iff: "(x :: u64) < y \<longleftrightarrow> unat x < unat y"
  by (rule word_less_nat_alt)

lemma unat_of_nat_small: "n < 2 ^ 64 \<Longrightarrow> unat (of_nat n :: u64) = n"
  by (simp add: unat_of_nat)

lemma unat_u64_eq_0 [simp]: "unat (x :: u64) = 0 \<longleftrightarrow> x = 0"
  by (simp add: unat_eq_zero)

section \<open>The error-and-state monad\<close>

type_synonym ('s, 'e, 'a) sm = "'s \<Rightarrow> ('e + 'a) \<times> 's"

definition ret :: "'a \<Rightarrow> ('s, 'e, 'a) sm" where
  "ret x = (\<lambda>s. (Inr x, s))"

definition err :: "'e \<Rightarrow> ('s, 'e, 'a) sm" where
  "err e = (\<lambda>s. (Inl e, s))"

definition bnd :: "('s, 'e, 'a) sm \<Rightarrow> ('a \<Rightarrow> ('s, 'e, 'b) sm) \<Rightarrow> ('s, 'e, 'b) sm" where
  "bnd m f = (\<lambda>s. case m s of (Inl e, t) \<Rightarrow> (Inl e, t) | (Inr x, t) \<Rightarrow> f x t)"

text \<open>Reading from and writing to the receiver.\<close>

definition gets :: "('s \<Rightarrow> 'a) \<Rightarrow> ('s, 'e, 'a) sm" where
  "gets f = (\<lambda>s. (Inr (f s), s))"

definition modify :: "('s \<Rightarrow> 's) \<Rightarrow> ('s, 'e, unit) sm" where
  "modify f = (\<lambda>s. (Inr (), f s))"

text \<open>\<open>if c { return e }\<close>\<close>

definition fail_if :: "bool \<Rightarrow> 'e \<Rightarrow> ('s, 'e, unit) sm" where
  "fail_if c e = (if c then err e else ret ())"

text \<open>A sequence of calls, each followed by \<open>if err != nil { return err }\<close>.\<close>

primrec seqm :: "('s, 'e, unit) sm list \<Rightarrow> ('s, 'e, unit) sm" where
  "seqm [] = ret ()"
| "seqm (m # ms) = bnd m (\<lambda>_. seqm ms)"

text \<open>\<open>for _, x := range xs { if err := f(x); err != nil { return err } }\<close>\<close>

primrec for_each :: "'x list \<Rightarrow> ('x \<Rightarrow> ('s, 'e, unit) sm) \<Rightarrow> ('s, 'e, unit) sm" where
  "for_each [] f = ret ()"
| "for_each (x # xs) f = bnd (f x) (\<lambda>_. for_each xs f)"

text \<open>A loop that threads local variables \<open>a\<close> through its iterations.\<close>

primrec fold_m :: "('x \<Rightarrow> 'a \<Rightarrow> ('s, 'e, 'a) sm) \<Rightarrow> 'x list \<Rightarrow> 'a \<Rightarrow> ('s, 'e, 'a) sm" where
  "fold_m f [] a = ret a"
| "fold_m f (x # xs) a = bnd (f x a) (fold_m f xs)"

text \<open>\<open>if err := m(); err != nil { log; continue }\<close>: the error is dropped, the state is kept.\<close>

definition ignore_err :: "('s, 'e, 'a) sm \<Rightarrow> ('s, 'e, unit) sm" where
  "ignore_err m = (\<lambda>s. (Inr (), snd (m s)))"

text \<open>\<open>v, err := m(); if err != nil { h } else { f(v) }\<close>: the error is inspected.\<close>

definition catch :: "('s, 'e, 'a) sm \<Rightarrow> ('e \<Rightarrow> ('s, 'e, 'b) sm) \<Rightarrow> ('a \<Rightarrow> ('s, 'e, 'b) sm) \<Rightarrow> ('s, 'e, 'b) sm" where
  "catch m h f = (\<lambda>s. case m s of (Inl e, t) \<Rightarrow> h e t | (Inr x, t) \<Rightarrow> f x t)"

definition when_m :: "bool \<Rightarrow> ('s, 'e, unit) sm \<Rightarrow> ('s, 'e, unit) sm" where
  "when_m c m = (if c then m else ret ())"

lemma ret_run [go_simps]: "ret x s = (Inr x, s)"
  by (simp add: ret_def)

lemma err_run [go_simps]: "err e s = (Inl e, s)"
  by (simp add: err_def)

lemma gets_run [go_simps]: "gets f s = (Inr (f s), s)"
  by (simp add: gets_def)

lemma modify_run [go_simps]: "modify f s = (Inr (), f s)"
  by (simp add: modify_def)

lemma bnd_run [go_simps]:
  "bnd m f s = (case fst (m s) of Inl e \<Rightarrow> (Inl e, snd (m s)) | Inr x \<Rightarrow> f x (snd (m s)))"
  by (simp add: bnd_def split: prod.splits sum.splits)

lemma catch_run [go_simps]:
  "catch m h f s = (case fst (m s) of Inl e \<Rightarrow> h e (snd (m s)) | Inr x \<Rightarrow> f x (snd (m s)))"
  by (simp add: catch_def split: prod.splits sum.splits)

lemma ignore_err_run [go_simps]: "ignore_err m s = (Inr (), snd (m s))"
  by (simp add: ignore_err_def)

lemma fail_if_run [go_simps]: "fail_if c e s = (if c then (Inl e, s) else (Inr (), s))"
  by (simp add: fail_if_def go_simps)

lemma when_m_run [go_simps]: "when_m c m s = (if c then m s else (Inr (), s))"
  by (simp add: when_m_def go_simps)

lemma bnd_Inr: "bnd m f s = (Inr r, u) \<longleftrightarrow> (\<exists>x t. m s = (Inr x, t) \<and> f x t = (Inr r, u))"
  by (auto simp: bnd_def split: prod.splits sum.splits)

lemma bnd_assoc: "bnd (bnd m f) g = bnd m (\<lambda>x. bnd (f x) g)"
  by (auto simp: bnd_def fun_eq_iff split: prod.splits sum.splits)

lemma seqm_append: "seqm (xs @ ys) = bnd (seqm xs) (\<lambda>_. seqm ys)"
  by (induction xs) (simp_all add: bnd_assoc, simp add: bnd_def ret_def)

lemma for_each_append: "for_each (xs @ ys) f = bnd (for_each xs f) (\<lambda>_. for_each ys f)"
  by (induction xs) (simp_all add: bnd_assoc, simp add: bnd_def ret_def)

section \<open>Hoare logic for successful runs\<close>

text \<open>
  \<open>hoare P m Q\<close>: from a state with \<open>P\<close>, if \<open>m\<close> succeeds, its result and final state
  satisfy \<open>Q\<close>. A failing operation is rolled back by its caller, which is a theorem about
  the transaction layer and not a reading of this triple.
\<close>

definition hoare :: "('s \<Rightarrow> bool) \<Rightarrow> ('s, 'e, 'a) sm \<Rightarrow> ('a \<Rightarrow> 's \<Rightarrow> bool) \<Rightarrow> bool" where
  "hoare P m Q \<longleftrightarrow> (\<forall>s r t. P s \<longrightarrow> m s = (Inr r, t) \<longrightarrow> Q r t)"

lemma hoareI: "(\<And>s r t. P s \<Longrightarrow> m s = (Inr r, t) \<Longrightarrow> Q r t) \<Longrightarrow> hoare P m Q"
  by (simp add: hoare_def)

lemma hoareD: "hoare P m Q \<Longrightarrow> P s \<Longrightarrow> m s = (Inr r, t) \<Longrightarrow> Q r t"
  by (simp add: hoare_def)

lemma hoare_weaken:
  "hoare P m Q \<Longrightarrow> (\<And>s. P' s \<Longrightarrow> P s) \<Longrightarrow> (\<And>r s. Q r s \<Longrightarrow> Q' r s) \<Longrightarrow> hoare P' m Q'"
  unfolding hoare_def by blast

lemma hoare_pre: "hoare P m Q \<Longrightarrow> (\<And>s. P' s \<Longrightarrow> P s) \<Longrightarrow> hoare P' m Q"
  by (auto simp: hoare_def)

lemma hoare_ret [hoare_rules]: "(\<And>s. P s \<Longrightarrow> Q x s) \<Longrightarrow> hoare P (ret x) Q"
  by (auto simp: hoare_def ret_def)

lemma hoare_err [hoare_rules]: "hoare P (err e) Q"
  by (simp add: hoare_def err_def)

lemma hoare_gets [hoare_rules]: "(\<And>s. P s \<Longrightarrow> Q (f s) s) \<Longrightarrow> hoare P (gets f) Q"
  by (auto simp: hoare_def gets_def)

lemma hoare_modify [hoare_rules]: "(\<And>s. P s \<Longrightarrow> Q () (f s)) \<Longrightarrow> hoare P (modify f) Q"
  by (auto simp: hoare_def modify_def)

lemma hoare_bnd [hoare_rules]: "hoare P m R \<Longrightarrow> (\<And>x. hoare (R x) (f x) Q) \<Longrightarrow> hoare P (bnd m f) Q"
  unfolding hoare_def bnd_Inr by blast

lemma hoare_fail_if [hoare_rules]: "(\<And>s. P s \<Longrightarrow> \<not> c \<Longrightarrow> Q () s) \<Longrightarrow> hoare P (fail_if c e) Q"
  by (auto simp: hoare_def fail_if_def err_def ret_def)

lemma hoare_if [hoare_rules]:
  "(c \<Longrightarrow> hoare P m Q) \<Longrightarrow> (\<not> c \<Longrightarrow> hoare P n Q) \<Longrightarrow> hoare P (if c then m else n) Q"
  by simp

lemma hoare_when [hoare_rules]:
  "(c \<Longrightarrow> hoare P m Q) \<Longrightarrow> (\<And>s. \<not> c \<Longrightarrow> P s \<Longrightarrow> Q () s) \<Longrightarrow> hoare P (when_m c m) Q"
  by (auto simp: when_m_def hoare_def ret_def)

lemma hoare_option [hoare_rules]:
  "(x = None \<Longrightarrow> hoare P m Q) \<Longrightarrow> (\<And>y. x = Some y \<Longrightarrow> hoare P (f y) Q) \<Longrightarrow>
   hoare P (case x of None \<Rightarrow> m | Some y \<Rightarrow> f y) Q"
  by (cases x) auto

lemma hoare_seqm_Nil [hoare_rules]: "(\<And>s. P s \<Longrightarrow> Q () s) \<Longrightarrow> hoare P (seqm []) Q"
  by (simp add: hoare_ret)

lemma hoare_seqm_Cons [hoare_rules]:
  "hoare P m (\<lambda>_. R) \<Longrightarrow> hoare R (seqm ms) Q \<Longrightarrow> hoare P (seqm (m # ms)) Q"
  by (simp add: hoare_bnd)

lemma hoare_for_each:
  "(\<And>x. x \<in> set xs \<Longrightarrow> hoare I (f x) (\<lambda>_. I)) \<Longrightarrow> hoare I (for_each xs f) (\<lambda>_. I)"
proof (induction xs)
  case Nil
  then show ?case by (simp add: hoare_ret)
next
  case (Cons x xs)
  have "hoare I (f x) (\<lambda>_. I)" using Cons.prems by simp
  moreover have "hoare I (for_each xs f) (\<lambda>_. I)" using Cons.prems by (intro Cons.IH) simp
  ultimately show ?case by (simp add: hoare_bnd)
qed

lemma hoare_fold_m:
  "(\<And>x a. x \<in> set xs \<Longrightarrow> hoare (I a) (f x a) I) \<Longrightarrow> hoare (I a) (fold_m f xs a) I"
proof (induction xs arbitrary: a)
  case Nil
  then show ?case by (simp add: hoare_ret)
next
  case (Cons x xs)
  have "hoare (I a) (f x a) I" using Cons.prems by simp
  moreover have "hoare (I b) (fold_m f xs b) I" for b using Cons.prems by (intro Cons.IH) simp
  ultimately show ?case by (simp add: hoare_bnd)
qed

lemma hoare_ignore_err:
  "(\<And>s. P s \<Longrightarrow> Q () (snd (m s))) \<Longrightarrow> hoare P (ignore_err m) Q"
  by (auto simp: hoare_def go_simps)

lemma hoare_Let [hoare_rules]: "(\<And>x. x = v \<Longrightarrow> hoare P (g x) Q) \<Longrightarrow> hoare P (Let v g) Q"
  by (simp add: Let_def)

lemma hoare_conj:
  "hoare P m Q \<Longrightarrow> hoare P' m Q' \<Longrightarrow> hoare (\<lambda>s. P s \<and> P' s) m (\<lambda>r s. Q r s \<and> Q' r s)"
  by (auto simp: hoare_def)

section \<open>Frames\<close>

text \<open>\<open>keeps f m\<close>: whatever \<open>m\<close> does, the part \<open>f\<close> of the state is left alone, also when it fails.\<close>

definition keeps :: "('s \<Rightarrow> 'b) \<Rightarrow> ('s, 'e, 'a) sm \<Rightarrow> bool" where
  "keeps f m \<longleftrightarrow> (\<forall>s. f (snd (m s)) = f s)"

lemma keepsD: "keeps f m \<Longrightarrow> m s = (r, t) \<Longrightarrow> f t = f s"
  by (metis keeps_def snd_conv)

lemma keeps_simple [keeps_rules]:
  "keeps f (ret x)" "keeps f (err e)" "keeps f (gets g)" "keeps f (fail_if c e)"
  by (simp_all add: keeps_def go_simps)

lemma keeps_modify [keeps_rules]: "(\<And>s. f (g s) = f s) \<Longrightarrow> keeps f (modify g)"
  by (simp add: keeps_def go_simps)

lemma keeps_bnd [keeps_rules]: "keeps f m \<Longrightarrow> (\<And>x. keeps f (g x)) \<Longrightarrow> keeps f (bnd m g)"
  by (simp add: keeps_def go_simps split: sum.splits)

lemma keeps_catch [keeps_rules]:
  "keeps f m \<Longrightarrow> (\<And>e. keeps f (h e)) \<Longrightarrow> (\<And>x. keeps f (g x)) \<Longrightarrow> keeps f (catch m h g)"
  by (simp add: keeps_def go_simps split: sum.splits)

lemma keeps_ignore_err [keeps_rules]: "keeps f m \<Longrightarrow> keeps f (ignore_err m)"
  by (simp add: keeps_def go_simps)

lemma keeps_if [keeps_rules]: "keeps f m \<Longrightarrow> keeps f n \<Longrightarrow> keeps f (if c then m else n)"
  by simp

lemma keeps_when [keeps_rules]: "keeps f m \<Longrightarrow> keeps f (when_m c m)"
  by (simp add: when_m_def keeps_simple)

lemma keeps_option [keeps_rules]:
  "keeps f m \<Longrightarrow> (\<And>y. keeps f (g y)) \<Longrightarrow> keeps f (case x of None \<Rightarrow> m | Some y \<Rightarrow> g y)"
  by (cases x) auto

lemma keeps_sum [keeps_rules]:
  "(\<And>e. keeps f (h e)) \<Longrightarrow> (\<And>y. keeps f (g y)) \<Longrightarrow> keeps f (case x of Inl e \<Rightarrow> h e | Inr y \<Rightarrow> g y)"
  by (cases x) auto

lemma keeps_prod [keeps_rules]:
  "(\<And>a b. keeps f (g a b)) \<Longrightarrow> keeps f (case p of (a, b) \<Rightarrow> g a b)"
  by (cases p) auto

lemma keeps_Let [keeps_rules]: "(\<And>x. keeps f (g x)) \<Longrightarrow> keeps f (Let v g)"
  by (simp add: Let_def)

lemma keeps_seqm_Nil [keeps_rules]: "keeps f (seqm [])"
  by (simp add: keeps_simple)

lemma keeps_seqm_Cons [keeps_rules]: "keeps f m \<Longrightarrow> keeps f (seqm ms) \<Longrightarrow> keeps f (seqm (m # ms))"
  by (simp add: keeps_bnd)

lemma keeps_for_each [keeps_rules]: "(\<And>x. keeps f (g x)) \<Longrightarrow> keeps f (for_each xs g)"
  by (induction xs) (simp_all add: keeps_simple keeps_bnd)

lemma keeps_fold_m [keeps_rules]: "(\<And>x a. keeps f (g x a)) \<Longrightarrow> keeps f (fold_m g xs a)"
  by (induction xs arbitrary: a) (simp_all add: keeps_simple keeps_bnd)

text \<open>A triple extended by what the computation leaves alone.\<close>

lemma hoare_frame:
  "keeps f m \<Longrightarrow> hoare P m Q \<Longrightarrow> hoare (\<lambda>s. P s \<and> R (f s)) m (\<lambda>r s. Q r s \<and> R (f s))"
  by (auto simp: hoare_def dest: keepsD)

lemma hoare_keeps: "keeps f m \<Longrightarrow> hoare (\<lambda>s. R (f s)) m (\<lambda>r s. R (f s))"
  by (auto simp: hoare_def dest: keepsD)

section \<open>Key-value tables\<close>

text \<open>
  A prefix group of the node's ordered key-value store, as an association list sorted by
  key: \<open>Get\<close>, \<open>Set\<close>, \<open>Delete\<close> and iteration in key order.
\<close>

type_synonym ('k, 'v) table = "('k \<times> 'v) list"

definition tget :: "('k, 'v) table \<Rightarrow> 'k \<Rightarrow> 'v option" where
  "tget t k = map_of t k"

fun tset :: "'k :: linorder \<Rightarrow> 'v \<Rightarrow> ('k, 'v) table \<Rightarrow> ('k, 'v) table" where
  "tset k v [] = [(k, v)]"
| "tset k v ((j, w) # t) =
     (if k < j then (k, v) # (j, w) # t else if k = j then (k, v) # t else (j, w) # tset k v t)"

definition tdel :: "'k \<Rightarrow> ('k, 'v) table \<Rightarrow> ('k, 'v) table" where
  "tdel k t = filter (\<lambda>(j, _). j \<noteq> k) t"

definition tok :: "('k :: linorder, 'v) table \<Rightarrow> bool" where
  "tok t \<longleftrightarrow> sorted_wrt (<) (map fst t)"

text \<open>The sum of a measure over the values of a table.\<close>

definition tsum :: "('v \<Rightarrow> nat) \<Rightarrow> ('k, 'v) table \<Rightarrow> nat" where
  "tsum f t = sum_list (map (f \<circ> snd) t)"

lemma tget_Nil [simp]: "tget [] k = None"
  by (simp add: tget_def)

lemma tget_Cons [simp]: "tget ((j, v) # t) k = (if k = j then Some v else tget t k)"
  by (simp add: tget_def)

lemma tok_Nil [simp]: "tok []"
  by (simp add: tok_def)

lemma tok_Cons: "tok ((k, v) # t) \<longleftrightarrow> (\<forall>j \<in> fst ` set t. k < j) \<and> tok t"
  by (auto simp: tok_def)

lemma tsum_Nil [simp]: "tsum f [] = 0"
  by (simp add: tsum_def)

lemma tsum_Cons [simp]: "tsum f ((k, v) # t) = f v + tsum f t"
  by (simp add: tsum_def)

lemma tget_None_iff: "tget t k = None \<longleftrightarrow> k \<notin> fst ` set t"
  by (simp add: tget_def map_of_eq_None_iff)

lemma tget_in: "tget t k = Some v \<Longrightarrow> (k, v) \<in> set t"
  by (simp add: tget_def map_of_SomeD)

lemma tok_distinct: "tok t \<Longrightarrow> distinct (map fst t)"
  by (induction t) (auto simp: tok_def)

lemma in_tget: "tok t \<Longrightarrow> (k, v) \<in> set t \<Longrightarrow> tget t k = Some v"
  by (simp add: tget_def tok_distinct)

lemma tget_tset [table_simps]: "tget (tset k v t) j = (if j = k then Some v else tget t j)"
  by (induction k v t rule: tset.induct) auto

lemma keys_tset: "fst ` set (tset k v t) = insert k (fst ` set t)"
  by (induction k v t rule: tset.induct) auto

lemma tset_tset: "tset k v (tset k w t) = tset k v t"
  by (induction k w t rule: tset.induct) auto

lemma tok_tset [table_simps]: "tok t \<Longrightarrow> tok (tset k v t)"
  by (induction k v t rule: tset.induct) (auto simp: tok_Cons keys_tset)

lemma tget_tdel [table_simps]: "tget (tdel k t) j = (if j = k then None else tget t j)"
  by (induction t) (auto simp: tdel_def)

lemma tok_tdel [table_simps]: "tok t \<Longrightarrow> tok (tdel k t)"
  by (induction t) (auto simp: tdel_def tok_Cons)

lemma tdel_absent: "tget t k = None \<Longrightarrow> tdel k t = t"
  by (induction t) (auto simp: tdel_def split: if_splits)

lemma tsum_tset:
  "tok t \<Longrightarrow> tsum f (tset k v t) + (case tget t k of None \<Rightarrow> 0 | Some w \<Rightarrow> f w) = tsum f t + f v"
proof (induction k v t rule: tset.induct)
  case (1 k v)
  then show ?case by simp
next
  case (2 k v j w t)
  have "k < j \<Longrightarrow> tget t k = None"
    using 2 by (force simp: tget_None_iff tok_Cons)
  with 2 show ?case by (auto simp: tok_Cons)
qed

lemma tsum_tdel:
  "tok t \<Longrightarrow> tsum f (tdel k t) + (case tget t k of None \<Rightarrow> 0 | Some w \<Rightarrow> f w) = tsum f t"
proof (induction t)
  case Nil
  then show ?case by (simp add: tdel_def)
next
  case (Cons e t)
  obtain j w where e: "e = (j, w)" by (cases e)
  have "tget t j = None"
    using Cons.prems by (force simp: tget_None_iff tok_Cons e)
  then have "tdel j t = t" by (rule tdel_absent)
  with Cons e show ?case by (auto simp: tok_Cons tdel_def)
qed

lemma tsum_ge: "tget t k = Some v \<Longrightarrow> f v \<le> tsum f t"
  by (induction t) (auto split: if_splits)

section \<open>The interface of a key-value store\<close>

text \<open>What every client of the store relies on, and what follows from it alone.\<close>

locale kv_store =
  fixes get :: "'m \<Rightarrow> 'k \<Rightarrow> 'v option"
    and set_kv :: "'k \<Rightarrow> 'v \<Rightarrow> 'm \<Rightarrow> 'm"
    and del :: "'k \<Rightarrow> 'm \<Rightarrow> 'm"
    and ok :: "'m \<Rightarrow> bool"
  assumes get_set: "ok m \<Longrightarrow> get (set_kv k v m) j = (if j = k then Some v else get m j)"
    and get_del: "ok m \<Longrightarrow> get (del k m) j = (if j = k then None else get m j)"
    and ok_set: "ok m \<Longrightarrow> ok (set_kv k v m)"
    and ok_del: "ok m \<Longrightarrow> ok (del k m)"
begin

lemma set_twice: "ok m \<Longrightarrow> get (set_kv k v (set_kv k w m)) = get (set_kv k v m)"
  by (rule ext) (simp add: get_set ok_set)

lemma set_commute:
  "ok m \<Longrightarrow> k \<noteq> j \<Longrightarrow> get (set_kv k v (set_kv j w m)) = get (set_kv j w (set_kv k v m))"
  by (rule ext) (simp add: get_set ok_set)

lemma del_set: "ok m \<Longrightarrow> get (del k (set_kv k v m)) = get (del k m)"
  by (rule ext) (simp add: get_set get_del ok_set)

lemma fold_del:
  "ok m \<Longrightarrow> ok (fold del ks m) \<and> get (fold del ks m) j = (if j \<in> set ks then None else get m j)"
proof (induction ks arbitrary: m)
  case Nil
  then show ?case by simp
next
  case (Cons k ks)
  then show ?case by (simp add: get_del ok_del)
qed

end

interpretation tbl: kv_store tget tset tdel tok
  by unfold_locales (simp_all add: table_simps)

end
