(* ===== verification/State.thy ===== *)
theory State
  imports Prelude
begin

text \<open>
  The data of the state machine (\<open>fsm/\<close>): the protobuf messages kept in the store as
  records, the errors its operations return, and the state machine itself with one table
  per key prefix of \<open>fsm/key.go\<close>.

  A table holds decoded messages: the protobuf codec (a library outside the repository) is
  assumed to return what was stored, so \<open>Marshal\<close> and \<open>Unmarshal\<close> do not appear. An empty
  byte string and Go's \<open>nil\<close> slice are the same value, as they are after a round trip
  through the codec. I/O errors of the store are outside the model.
\<close>

section \<open>Addresses\<close>

datatype address = Addr (addr_bytes: bytes)

text \<open>
  Keys are length prefixed (\<open>lib.JoinLenPrefix\<close>), so the store orders addresses by length
  first and then lexicographically.
\<close>

instantiation address :: linorder
begin

definition less_address :: "address \<Rightarrow> address \<Rightarrow> bool" where
  "a < b \<longleftrightarrow> (length (addr_bytes a), addr_bytes a) < (length (addr_bytes b), addr_bytes b)"

definition less_eq_address :: "address \<Rightarrow> address \<Rightarrow> bool" where
  "a \<le> b \<longleftrightarrow> (length (addr_bytes a), addr_bytes a) \<le> (length (addr_bytes b), addr_bytes b)"

instance
proof
  fix a b c :: address
  show "a < b \<longleftrightarrow> a \<le> b \<and> \<not> b \<le> a"
    unfolding less_address_def less_eq_address_def by (rule less_le_not_le)
  show "a \<le> a"
    by (simp add: less_eq_address_def)
  show "a \<le> b \<Longrightarrow> b \<le> c \<Longrightarrow> a \<le> c"
    unfolding less_eq_address_def by (rule order_trans)
  show "a \<le> b \<Longrightarrow> b \<le> a \<Longrightarrow> a = b"
    unfolding less_eq_address_def by (metis address.expand order_antisym prod.inject)
  show "a \<le> b \<or> b \<le> a"
    unfolding less_eq_address_def by (rule linear)
qed

end

section \<open>Errors\<close>

text \<open>The error values of \<open>fsm/error.go\<close> and \<open>lib/error.go\<close>, named after their constructors.\<close>

datatype error = Error string

abbreviation ErrInvalidAmount :: error where
  "ErrInvalidAmount \<equiv> Error ''InvalidAmount''"

abbreviation ErrInsufficientFunds :: error where
  "ErrInsufficientFunds \<equiv> Error ''InsufficientFunds''"

abbreviation ErrInsufficientSupply :: error where
  "ErrInsufficientSupply \<equiv> Error ''InsufficientSupply''"

abbreviation ErrIncompatibleVesting :: error where
  "ErrIncompatibleVesting \<equiv> Error ''IncompatibleVesting''"

abbreviation ErrInvalidAddress :: error where
  "ErrInvalidAddress \<equiv> Error ''InvalidAddress''"

abbreviation ErrAddressSize :: error where
  "ErrAddressSize \<equiv> Error ''AddressSize''"

abbreviation ErrPointHolderNotFound :: error where
  "ErrPointHolderNotFound \<equiv> Error ''PointHolderNotFound''"

abbreviation ErrZeroLiquidityPool :: error where
  "ErrZeroLiquidityPool \<equiv> Error ''ZeroLiquidityPool''"

abbreviation ErrInvalidLiquidityPool :: error where
  "ErrInvalidLiquidityPool \<equiv> Error ''InvalidLiquidityPool''"

abbreviation ErrValidatorNotExists :: error where
  "ErrValidatorNotExists \<equiv> Error ''ValidatorNotExists''"

abbreviation ErrValidatorExists :: error where
  "ErrValidatorExists \<equiv> Error ''ValidatorExists''"

abbreviation ErrValidatorUnstaking :: error where
  "ErrValidatorUnstaking \<equiv> Error ''ValidatorUnstaking''"

abbreviation ErrValidatorPaused :: error where
  "ErrValidatorPaused \<equiv> Error ''ValidatorPaused''"

abbreviation ErrValidatorNotPaused :: error where
  "ErrValidatorNotPaused \<equiv> Error ''ValidatorNotPaused''"

abbreviation ErrValidatorIsADelegate :: error where
  "ErrValidatorIsADelegate \<equiv> Error ''ValidatorIsADelegate''"

abbreviation ErrStakeBelowMininum :: error where
  "ErrStakeBelowMininum \<equiv> Error ''StakeBelowMininum''"

abbreviation ErrInvalidPublicKey :: error where
  "ErrInvalidPublicKey \<equiv> Error ''InvalidPublicKey''"

abbreviation ErrInvalidNetAddress :: error where
  "ErrInvalidNetAddress \<equiv> Error ''InvalidNetAddress''"

abbreviation ErrUnauthorizedTx :: error where
  "ErrUnauthorizedTx \<equiv> Error ''UnauthorizedTx''"

abbreviation ErrRejectProposal :: error where
  "ErrRejectProposal \<equiv> Error ''RejectProposal''"

abbreviation ErrNonSubsidizedCommittee :: error where
  "ErrNonSubsidizedCommittee \<equiv> Error ''NonSubsidizedCommittee''"

abbreviation ErrInvalidArgument :: error where
  "ErrInvalidArgument \<equiv> Error ''InvalidArgument''"

abbreviation ErrNoSubsidizedCommittees :: error where
  "ErrNoSubsidizedCommittees \<equiv> Error ''NoSubsidizedCommittees''"

abbreviation ErrInvalidQCCommitteeHeight :: error where
  "ErrInvalidQCCommitteeHeight \<equiv> Error ''InvalidQCCommitteeHeight''"

abbreviation ErrInvalidQCRootChainHeight :: error where
  "ErrInvalidQCRootChainHeight \<equiv> Error ''InvalidQCRootChainHeight''"

abbreviation ErrInvalidPercentAllocation :: error where
  "ErrInvalidPercentAllocation \<equiv> Error ''InvalidPercentAllocation''"

abbreviation ErrMinimumOrderSize :: error where
  "ErrMinimumOrderSize \<equiv> Error ''MinimumOrderSize''"

abbreviation ErrOrderLocked :: error where
  "ErrOrderLocked \<equiv> Error ''OrderLocked''"

abbreviation ErrOrderNotFound :: error where
  "ErrOrderNotFound \<equiv> Error ''OrderNotFound''"

abbreviation ErrInvalidLockOrder :: error where
  "ErrInvalidLockOrder \<equiv> Error ''InvalidLockOrder''"

abbreviation ErrMaxDexBatchSize :: error where
  "ErrMaxDexBatchSize \<equiv> Error ''MaxDexBatchSize''"

abbreviation ErrMismatchDexBatchReceipt :: error where
  "ErrMismatchDexBatchReceipt \<equiv> Error ''MismatchDexBatchReceipt''"

abbreviation ErrInvalidDexBatch :: error where
  "ErrInvalidDexBatch \<equiv> Error ''InvalidDexBatch''"

abbreviation ErrInvalidProtocolVersion :: error where
  "ErrInvalidProtocolVersion \<equiv> Error ''InvalidProtocolVersion''"

abbreviation ErrInvalidCheckpoint :: error where
  "ErrInvalidCheckpoint \<equiv> Error ''InvalidCheckpoint''"

abbreviation ErrNilCertResults :: error where
  "ErrNilCertResults \<equiv> Error ''NilCertResults''"

abbreviation ErrEmptyView :: error where
  "ErrEmptyView \<equiv> Error ''EmptyView''"

abbreviation ErrNilRewardRecipients :: error where
  "ErrNilRewardRecipients \<equiv> Error ''NilRewardRecipients''"

abbreviation ErrEmptyDoubleSigner :: error where
  "ErrEmptyDoubleSigner \<equiv> Error ''EmptyDoubleSigner''"

abbreviation ErrInvalidDoubleSignHeights :: error where
  "ErrInvalidDoubleSignHeights \<equiv> Error ''InvalidDoubleSignHeights''"

abbreviation ErrInvalidDoubleSigner :: error where
  "ErrInvalidDoubleSigner \<equiv> Error ''InvalidDoubleSigner''"

abbreviation ErrPubKeyFromBytes :: error where
  "ErrPubKeyFromBytes \<equiv> Error ''PubKeyFromBytes''"

abbreviation ErrInvalidBLSSignature :: error where
  "ErrInvalidBLSSignature \<equiv> Error ''InvalidBLSSignature''"

abbreviation ErrUnknownMessage :: error where
  "ErrUnknownMessage \<equiv> Error ''UnknownMessage''"

abbreviation ErrUnknownParam :: error where
  "ErrUnknownParam \<equiv> Error ''UnknownParam''"

abbreviation ErrPanic :: error where
  "ErrPanic \<equiv> Error ''Panic''"

abbreviation ErrInvalidParam :: error where
  "ErrInvalidParam \<equiv> Error ''InvalidParam''"

abbreviation ErrEmptyConsParams :: error where
  "ErrEmptyConsParams \<equiv> Error ''EmptyConsParams''"

abbreviation ErrUnknownParamSpace :: error where
  "ErrUnknownParamSpace \<equiv> Error ''UnknownParamSpace''"

abbreviation ErrUnknownParamType :: error where
  "ErrUnknownParamType \<equiv> Error ''UnknownParamType''"

abbreviation ErrInvalidCertificateResults :: error where
  "ErrInvalidCertificateResults \<equiv> Error ''InvalidCertificateResults''"

abbreviation ErrNoMaj23 :: error where
  "ErrNoMaj23 \<equiv> Error ''NoMaj23''"

abbreviation ErrWrongNetworkID :: error where
  "ErrWrongNetworkID \<equiv> Error ''WrongNetworkID''"

abbreviation ErrWrongChainId :: error where
  "ErrWrongChainId \<equiv> Error ''WrongChainId''"

abbreviation ErrDuplicateTx :: error where
  "ErrDuplicateTx \<equiv> Error ''DuplicateTx''"

abbreviation ErrInvalidTxHeight :: error where
  "ErrInvalidTxHeight \<equiv> Error ''InvalidTxHeight''"

abbreviation ErrTxFeeBelowStateLimit :: error where
  "ErrTxFeeBelowStateLimit \<equiv> Error ''TxFeeBelowStateLimit''"

abbreviation ErrInvalidSignature :: error where
  "ErrInvalidSignature \<equiv> Error ''InvalidSignature''"

abbreviation ErrEmptySignature :: error where
  "ErrEmptySignature \<equiv> Error ''EmptySignature''"

abbreviation ErrMaxBlockSize :: error where
  "ErrMaxBlockSize \<equiv> Error ''MaxBlockSize''"

abbreviation ErrNilBlock :: error where
  "ErrNilBlock \<equiv> Error ''NilBlock''"

abbreviation ErrRemotePoolSizeDebit :: error where
  "ErrRemotePoolSizeDebit \<equiv> Error ''RemotePoolSizeDebit''"

abbreviation ErrPaidMoreThanDistribution :: error where
  "ErrPaidMoreThanDistribution \<equiv> Error ''PaidMoreThanDistribution''"

section \<open>Stored messages\<close>

record account =
  acAddress :: address
  acAmount :: u64
  acVestingAmount :: u64
  acVestingStartHeight :: u64
  acVestingCliffHeight :: u64
  acVestingEndHeight :: u64

record poolPoints =
  ppAddress :: address
  ppPoints :: u64

record pool =
  pId :: u64
  pAmount :: u64
  pPoints :: "poolPoints list"
  pTotalPoolPoints :: u64

record Supply =
  sTotal :: u64
  sStaked :: u64
  sDelegatedOnly :: u64
  sCommitteeStaked :: "pool list"
  sCommitteeDelegatedOnly :: "pool list"

record validator =
  vAddress :: address
  vPublicKey :: bytes
  vNetAddress :: string
  vStakedAmount :: u64
  vCommittees :: "u64 list"
  vMaxPausedHeight :: u64
  vUnstakingHeight :: u64
  vOutput :: address
  vDelegate :: bool
  vCompound :: bool

record nonSigner =
  nsCounter :: u64
  nsChainCounters :: "(u64 \<times> u64) list"

record paymentPercents =
  ppcAddress :: address
  ppcPercent :: u64
  ppcChainId :: u64

record committeeData =
  cdChainId :: u64
  cdLastRootHeightUpdated :: u64
  cdLastChainHeightUpdated :: u64
  cdPaymentPercents :: "paymentPercents list"
  cdNumberOfSamples :: u64

record sellOrder =
  oId :: bytes
  oCommittee :: u64
  oData :: bytes
  oAmountForSale :: u64
  oRequestedAmount :: u64
  oSellerReceiveAddress :: bytes
  oBuyerSendAddress :: bytes
  oBuyerReceiveAddress :: bytes
  oBuyerChainDeadline :: u64
  oSellersSendAddress :: bytes

record dexLimitOrder =
  dlAmountForSale :: u64
  dlRequestedAmount :: u64
  dlAddress :: address
  dlOrderId :: bytes

record dexLiquidityDeposit =
  ddAddress :: address
  ddAmount :: u64
  ddOrderId :: bytes

record dexLiquidityWithdraw =
  dwAddress :: address
  dwPercent :: u64
  dwOrderId :: bytes

record dexBatch =
  dbCommittee :: u64
  dbReceiptHash :: bytes
  dbOrders :: "dexLimitOrder list"
  dbDeposits :: "dexLiquidityDeposit list"
  dbWithdrawals :: "dexLiquidityWithdraw list"
  dbPoolSize :: u64
  dbCounterPoolSize :: u64
  dbPoolPoints :: "poolPoints list"
  dbTotalPoolPoints :: u64
  dbReceipts :: "u64 list"
  dbLockedHeight :: u64
  dbLivenessFallback :: bool

record consensusParams =
  cpBlockSize :: u64
  cpProtocolVersion :: string
  cpRootChainId :: u64
  cpRetired :: u64
  cpResetCommittee :: u64

record validatorParams =
  vpUnstakingBlocks :: u64
  vpMaxPauseBlocks :: u64
  vpDoubleSignSlashPercentage :: u64
  vpNonSignSlashPercentage :: u64
  vpMaxNonSign :: u64
  vpNonSignWindow :: u64
  vpMaxCommittees :: u64
  vpMaxCommitteeSize :: u64
  vpEarlyWithdrawalPenalty :: u64
  vpDelegateUnstakingBlocks :: u64
  vpMinimumOrderSize :: u64
  vpStakePercentForSubsidizedCommittee :: u64
  vpMaxSlashPerCommittee :: u64
  vpDelegateRewardPercentage :: u64
  vpBuyDeadlineBlocks :: u64
  vpLockOrderFeeMultiplier :: u64
  vpMinimumStakeForValidators :: u64
  vpMinimumStakeForDelegates :: u64
  vpMaximumDelegatesPerCommittee :: u64

record feeParams =
  fpSendFee :: u64
  fpStakeFee :: u64
  fpEditStakeFee :: u64
  fpUnstakeFee :: u64
  fpPauseFee :: u64
  fpUnpauseFee :: u64
  fpChangeParameterFee :: u64
  fpDaoTransferFee :: u64
  fpCertificateResultsFee :: u64
  fpSubsidyFee :: u64
  fpCreateOrderFee :: u64
  fpEditOrderFee :: u64
  fpDeleteOrderFee :: u64
  fpDexLimitOrderFee :: u64
  fpDexLiquidityDepositFee :: u64
  fpDexLiquidityWithdrawFee :: u64

section \<open>Events\<close>

datatype event_msg =
    EvReward u64
  | EvSlash u64
  | EvAutoPause
  | EvAutoBeginUnstaking
  | EvFinishUnstaking
  | EvOrderBookSwap u64 u64 bytes bytes bytes bytes bytes
  | EvOrderBookLock bytes bytes bytes u64
  | EvOrderBookReset bytes
  | EvDexSwap u64 u64 bool bool bytes
  | EvDexLiquidityDeposit u64 bool bytes u64
  | EvDexLiquidityWithdrawal u64 u64 bytes u64

record event =
  evMsg :: event_msg
  evHeight :: u64
  evReference :: string
  evAddress :: bytes
  evChainId :: u64

section \<open>The state machine\<close>

record config =
  cfgChainId :: u64
  cfgBlocksPerHalvening :: u64
  cfgInitialTokensPerBlock :: u64
  cfgFaucetAddress :: string

text \<open>How the node votes on governance proposals.\<close>

datatype GovProposalVoteConfig = AcceptAllProposals | ProposalApproveList | RejectAllProposals

text \<open>
  Beside the tables, the state has what the machine reads from outside the state store: the
  configuration, the \<open>proposals.json\<close> file of the operator (\<open>None\<close> when it cannot be read),
  the hash of the previous block and the hashes of the indexed transactions, and the root
  chain's dex batch cached by the controller.
\<close>

record state =
  cfg :: config
  ProtocolVersion :: u64
  NetworkID :: u64
  height :: u64
  proposeVoteConfig :: GovProposalVoteConfig
  proposalsFile :: "(string \<times> bool) list option"
  prevBlockHash :: "bytes option"
  indexedTxs :: "string list"
  rootDexBatch :: "dexBatch option"
  slashTracker :: "(address \<times> u64, u64) table"
  accounts :: "(address, account) table"
  pools :: "(u64, pool) table"
  supplyTracker :: Supply
  validators :: "(address, validator) table"
  committeeIndex :: "(u64 \<times> u64 \<times> address, unit) table"
  delegateIndex :: "(u64 \<times> u64 \<times> address, unit) table"
  unstaking :: "(u64 \<times> address, unit) table"
  paused :: "(u64 \<times> address, unit) table"
  paramsCons :: consensusParams
  paramsVal :: validatorParams
  paramsFee :: feeParams
  daoRewardPercentage :: u64
  nonSigners :: "(address, nonSigner) table"
  lastProposers :: "bytes list"
  committeesData :: "committeeData list"
  orderBook :: "(u64 \<times> bytes, sellOrder) table"
  retiredCommittees :: "(u64, unit) table"
  lockedBatches :: "(u64, dexBatch) table"
  nextBatches :: "(u64, dexBatch) table"
  doubleSigners :: "(address \<times> u64, unit) table"
  checkpoints :: "(u64, u64 \<times> bytes) table"
  eventReference :: string
  events :: "event list"

type_synonym 'a fsm = "(state, error, 'a) sm"

section \<open>Emitting events (\<open>fsm/event.go\<close>)\<close>

definition addEvent :: "event_msg \<Rightarrow> bytes \<Rightarrow> u64 \<Rightarrow> unit fsm" where
  "addEvent msg addr chainId =
     modify (\<lambda>s. s\<lparr>events := events s @ [\<lparr>evMsg = msg, evHeight = height s,
       evReference = eventReference s, evAddress = addr, evChainId = chainId\<rparr>]\<rparr>)"

definition EventReward :: "address \<Rightarrow> u64 \<Rightarrow> u64 \<Rightarrow> unit fsm" where
  "EventReward a amount chainId = addEvent (EvReward amount) (addr_bytes a) chainId"

definition EventSlash :: "address \<Rightarrow> u64 \<Rightarrow> unit fsm" where
  "EventSlash a amount = addEvent (EvSlash amount) (addr_bytes a) 0"

definition EventAutoPause :: "address \<Rightarrow> unit fsm" where
  "EventAutoPause a = addEvent EvAutoPause (addr_bytes a) 0"

definition EventAutoBeginUnstaking :: "address \<Rightarrow> unit fsm" where
  "EventAutoBeginUnstaking a = addEvent EvAutoBeginUnstaking (addr_bytes a) 0"

definition EventFinishUnstaking :: "address \<Rightarrow> unit fsm" where
  "EventFinishUnstaking a = addEvent EvFinishUnstaking (addr_bytes a) 0"

definition EventOrderBookSwap :: "sellOrder \<Rightarrow> unit fsm" where
  "EventOrderBookSwap order = addEvent
     (EvOrderBookSwap (oAmountForSale order) (oRequestedAmount order) (oData order)
       (oSellerReceiveAddress order) (oBuyerSendAddress order) (oSellersSendAddress order) (oId order))
     (oBuyerReceiveAddress order) (oCommittee order)"

definition EventOrderBookLock :: "sellOrder \<Rightarrow> unit fsm" where
  "EventOrderBookLock order = addEvent
     (EvOrderBookLock (oId order) (oBuyerReceiveAddress order) (oBuyerSendAddress order)
       (oBuyerChainDeadline order)) (oBuyerReceiveAddress order) (oCommittee order)"

definition EventOrderBookReset :: "sellOrder \<Rightarrow> unit fsm" where
  "EventOrderBookReset order =
     addEvent (EvOrderBookReset (oId order)) (oSellersSendAddress order) (oCommittee order)"

definition EventDexSwap ::
    "address \<Rightarrow> bytes \<Rightarrow> u64 \<Rightarrow> u64 \<Rightarrow> u64 \<Rightarrow> bool \<Rightarrow> bool \<Rightarrow> unit fsm" where
  "EventDexSwap a orderId soldAmount boughtAmount chainId localOrigin success =
     addEvent (EvDexSwap soldAmount boughtAmount localOrigin success orderId) (addr_bytes a) chainId"

definition EventDexLiquidityDeposit ::
    "address \<Rightarrow> bytes \<Rightarrow> u64 \<Rightarrow> u64 \<Rightarrow> u64 \<Rightarrow> bool \<Rightarrow> unit fsm" where
  "EventDexLiquidityDeposit a orderId amount pointsAdded chainId localOrigin =
     addEvent (EvDexLiquidityDeposit amount localOrigin orderId pointsAdded) (addr_bytes a) chainId"

definition EventDexLiquidityWithdraw ::
    "address \<Rightarrow> bytes \<Rightarrow> u64 \<Rightarrow> u64 \<Rightarrow> u64 \<Rightarrow> u64 \<Rightarrow> unit fsm" where
  "EventDexLiquidityWithdraw a orderId localAmount remoteAmount pointsBurned chainId =
     addEvent (EvDexLiquidityWithdrawal localAmount remoteAmount orderId pointsBurned)
       (addr_bytes a) chainId"

lemmas event_defs = EventReward_def EventSlash_def EventAutoPause_def EventAutoBeginUnstaking_def
  EventFinishUnstaking_def EventOrderBookSwap_def EventOrderBookLock_def EventOrderBookReset_def
  EventDexSwap_def EventDexLiquidityDeposit_def EventDexLiquidityWithdraw_def

text \<open>\<open>addPluginEvents\<close>: the metadata a plugin left empty is filled in.\<close>

definition addPluginEvents :: "event list \<Rightarrow> unit fsm" where
  "addPluginEvents es = for_each es (\<lambda>e. modify (\<lambda>s. s\<lparr>events := events s @ [e\<lparr>
       evHeight := (if evHeight e = 0 then height s else evHeight e),
       evReference := (if evReference e = [] then eventReference s else evReference e),
       evChainId := (if evChainId e = 0 then cfgChainId (cfg s) else evChainId e)\<rparr>]\<rparr>))"

text \<open>Emitting events is all a computation did to the state.\<close>

definition eventsOnly :: "state \<Rightarrow> state \<Rightarrow> bool" where
  "eventsOnly s t \<longleftrightarrow> (\<exists>E. t = s\<lparr>events := E\<rparr>)"

lemma addEvent_run: "addEvent m a c s = (Inr r, t) \<Longrightarrow> eventsOnly s t"
  by (auto simp: addEvent_def go_simps eventsOnly_def)

lemma eventsOnly_refl: "eventsOnly s s"
  unfolding eventsOnly_def by (rule exI [of _ "events s"]) simp

lemma eventsOnly_trans: "eventsOnly s t \<Longrightarrow> eventsOnly t u \<Longrightarrow> eventsOnly s u"
  unfolding eventsOnly_def by (elim exE) (rule exI, simp)

end
