(* ===== verification/Keys.thy ===== *)
theory Keys
  imports State "HOL-Library.Sublist"
begin

text \<open>
  The byte keys of the store (\<open>fsm/key.go\<close>, \<open>lib.JoinLenPrefix\<close>,
  \<open>lib.DecodeLengthPrefixed\<close>). The state record keeps one table per key prefix; this theory
  is what justifies it: the encoding is injective over all groups at once, and a prefix scan
  of the byte store visits exactly the entries of one table.
\<close>

unbundle bit_operations_syntax

section \<open>Length prefixed segments\<close>

text \<open>A \<open>nil\<close> segment is skipped, an empty one is not. The length byte is \<open>byte(len(item))\<close>.\<close>

definition JoinLenPrefix :: "bytes option list \<Rightarrow> bytes" where
  "JoinLenPrefix toAppend = concat (map (\<lambda>item. case item of
       None \<Rightarrow> []
     | Some b \<Rightarrow> word_of_nat (length b) # b) toAppend)"

text \<open>\<open>None\<close> is the panic on a corrupt key.\<close>

function DecodeLengthPrefixed :: "bytes \<Rightarrow> bytes list option" where
  "DecodeLengthPrefixed [] = Some []"
| "DecodeLengthPrefixed (n # rest) =
     (let length0 = unat n in
      if length0 > length rest then None
      else map_option ((#) (take length0 rest)) (DecodeLengthPrefixed (drop length0 rest)))"
  by pat_completeness auto
termination
  by (relation "measure length") auto

definition formatUint64 :: "u64 \<Rightarrow> bytes" where
  "formatUint64 u = map (\<lambda>i. ucast (drop_bit (8 * i) u)) [7, 6, 5, 4, 3, 2, 1, 0]"

section \<open>The keys of the state machine\<close>

definition accountPrefix :: bytes where "accountPrefix = [1]"
definition poolPrefix :: bytes where "poolPrefix = [2]"
definition validatorPrefix :: bytes where "validatorPrefix = [3]"
definition committeePrefix :: bytes where "committeePrefix = [4]"
definition unstakePrefix :: bytes where "unstakePrefix = [5]"
definition pausedPrefix :: bytes where "pausedPrefix = [6]"
definition paramsPrefix :: bytes where "paramsPrefix = [7]"
definition nonSignerPrefix :: bytes where "nonSignerPrefix = [8]"
definition lastProposersPrefix :: bytes where "lastProposersPrefix = [9]"
definition supplyPrefix :: bytes where "supplyPrefix = [10]"
definition delegatePrefix :: bytes where "delegatePrefix = [11]"
definition committeesDataPrefix :: bytes where "committeesDataPrefix = [12]"
definition orderBookPrefix :: bytes where "orderBookPrefix = [13]"
definition retiredCommitteePrefix :: bytes where "retiredCommitteePrefix = [14]"
definition dexPrefix :: bytes where "dexPrefix = [15]"
definition lockedBatchSegment :: bytes where "lockedBatchSegment = [1]"
definition nextBatchSement :: bytes where "nextBatchSement = [2]"

lemmas prefix_defs = accountPrefix_def poolPrefix_def validatorPrefix_def committeePrefix_def
  unstakePrefix_def pausedPrefix_def paramsPrefix_def nonSignerPrefix_def lastProposersPrefix_def
  supplyPrefix_def delegatePrefix_def committeesDataPrefix_def orderBookPrefix_def
  retiredCommitteePrefix_def dexPrefix_def lockedBatchSegment_def nextBatchSement_def

definition AccountPrefix :: bytes where "AccountPrefix = JoinLenPrefix [Some accountPrefix]"
definition PoolPrefix :: bytes where "PoolPrefix = JoinLenPrefix [Some poolPrefix]"
definition SupplyPrefix :: bytes where "SupplyPrefix = JoinLenPrefix [Some supplyPrefix]"
definition ValidatorPrefix :: bytes where "ValidatorPrefix = JoinLenPrefix [Some validatorPrefix]"
definition NonSignerPrefix :: bytes where "NonSignerPrefix = JoinLenPrefix [Some nonSignerPrefix]"
definition LastProposersPrefix :: bytes where
  "LastProposersPrefix = JoinLenPrefix [Some lastProposersPrefix]"
definition CommitteesDataPrefix :: bytes where
  "CommitteesDataPrefix = JoinLenPrefix [Some committeesDataPrefix]"
definition RetiredCommitteesPrefix :: bytes where
  "RetiredCommitteesPrefix = JoinLenPrefix [Some retiredCommitteePrefix]"

definition UnstakingPrefix :: "u64 \<Rightarrow> bytes" where
  "UnstakingPrefix h = JoinLenPrefix [Some unstakePrefix, Some (formatUint64 h)]"
definition PausedPrefix :: "u64 \<Rightarrow> bytes" where
  "PausedPrefix h = JoinLenPrefix [Some pausedPrefix, Some (formatUint64 h)]"
definition CommitteePrefix :: "u64 \<Rightarrow> bytes" where
  "CommitteePrefix i = JoinLenPrefix [Some committeePrefix, Some (formatUint64 i)]"
definition DelegatePrefix :: "u64 \<Rightarrow> bytes" where
  "DelegatePrefix i = JoinLenPrefix [Some delegatePrefix, Some (formatUint64 i)]"
definition OrderBookPrefix :: "u64 \<Rightarrow> bytes" where
  "OrderBookPrefix c = JoinLenPrefix [Some orderBookPrefix, Some (formatUint64 c)]"

text \<open>One constructor per kind of entry, one encoder per \<open>KeyFor...\<close> function.\<close>

datatype skey =
    KAccount address
  | KPool u64
  | KValidator address
  | KCommittee u64 u64 address
  | KDelegate u64 u64 address
  | KUnstaking u64 address
  | KPaused u64 address
  | KParams bytes
  | KNonSigner address
  | KLastProposers
  | KSupply
  | KCommitteesData
  | KOrder u64 bytes
  | KRetired u64
  | KLockedBatch u64
  | KNextBatch u64

fun KeyFor :: "skey \<Rightarrow> bytes" where
  "KeyFor (KAccount a) = JoinLenPrefix [Some accountPrefix, Some (addr_bytes a)]"
| "KeyFor (KPool n) = JoinLenPrefix [Some poolPrefix, Some (formatUint64 n)]"
| "KeyFor (KValidator a) = JoinLenPrefix [Some validatorPrefix, Some (addr_bytes a)]"
| "KeyFor (KCommittee c stake a) =
     CommitteePrefix c @ JoinLenPrefix [Some (formatUint64 stake), Some (addr_bytes a)]"
| "KeyFor (KDelegate c stake a) =
     DelegatePrefix c @ JoinLenPrefix [Some (formatUint64 stake), Some (addr_bytes a)]"
| "KeyFor (KUnstaking h a) = UnstakingPrefix h @ JoinLenPrefix [Some (addr_bytes a)]"
| "KeyFor (KPaused h a) = PausedPrefix h @ JoinLenPrefix [Some (addr_bytes a)]"
| "KeyFor (KParams space) = JoinLenPrefix [Some paramsPrefix, Some space]"
| "KeyFor (KNonSigner a) = JoinLenPrefix [Some nonSignerPrefix, Some (addr_bytes a)]"
| "KeyFor KLastProposers = LastProposersPrefix"
| "KeyFor KSupply = SupplyPrefix"
| "KeyFor KCommitteesData = CommitteesDataPrefix"
| "KeyFor (KOrder c orderId) = OrderBookPrefix c @ JoinLenPrefix [Some orderId]"
| "KeyFor (KRetired c) = JoinLenPrefix [Some retiredCommitteePrefix, Some (formatUint64 c)]"
| "KeyFor (KLockedBatch c) =
     JoinLenPrefix [Some dexPrefix, Some lockedBatchSegment, Some (formatUint64 c)]"
| "KeyFor (KNextBatch c) =
     JoinLenPrefix [Some dexPrefix, Some nextBatchSement, Some (formatUint64 c)]"

text \<open>\<open>AddressFromKey\<close> and \<open>IdFromKey\<close> read a segment back; a corrupt key is an error.\<close>

definition AddressFromKey :: "bytes \<Rightarrow> error + address" where
  "AddressFromKey k = (case DecodeLengthPrefixed k of
       None \<Rightarrow> Inl (Error ''InvalidKey'')
     | Some segments \<Rightarrow> if segments = [] then Inl (Error ''InvalidKey'') else Inr (Addr (last segments)))"

definition Uint64 :: "bytes \<Rightarrow> u64" where
  "Uint64 bs = foldl (\<lambda>acc b. push_bit 8 acc OR ucast b) 0 bs"

definition IdFromKey :: "bytes \<Rightarrow> error + u64" where
  "IdFromKey k = (case DecodeLengthPrefixed k of
       None \<Rightarrow> Inl (Error ''InvalidKey'')
     | Some segments \<Rightarrow>
         if length segments < 2 \<or> length (segments ! 1) \<noteq> 8 then Inl (Error ''InvalidKey'')
         else Inr (Uint64 (segments ! 1)))"

section \<open>Segments decode back\<close>

lemma JoinLenPrefix_Nil [simp]: "JoinLenPrefix [] = []"
  by (simp add: JoinLenPrefix_def)

lemma JoinLenPrefix_Cons [simp]:
  "JoinLenPrefix (Some b # xs) = word_of_nat (length b) # b @ JoinLenPrefix xs"
  by (simp add: JoinLenPrefix_def)

lemma JoinLenPrefix_append: "JoinLenPrefix xs @ JoinLenPrefix ys = JoinLenPrefix (xs @ ys)"
  by (simp add: JoinLenPrefix_def)

lemma unat_len_byte: "length b < 256 \<Longrightarrow> unat (word_of_nat (length b) :: byte) = length b"
  by (simp add: unat_of_nat)

lemma Decode_Join:
  "\<forall>b \<in> set segs. length b < 256 \<Longrightarrow> DecodeLengthPrefixed (JoinLenPrefix (map Some segs)) = Some segs"
  by (induction segs) (simp_all add: unat_len_byte)

lemma Decode_Join_append:
  "\<forall>b \<in> set segs. length b < 256 \<Longrightarrow>
   DecodeLengthPrefixed (JoinLenPrefix (map Some segs) @ rest) =
     map_option ((@) segs) (DecodeLengthPrefixed rest)"
proof (induction segs)
  case Nil
  then show ?case by (simp add: option.map_ident_strong)
next
  case (Cons b segs)
  then show ?case by (simp add: unat_len_byte option.map_comp comp_def)
qed

lemma length_formatUint64 [simp]: "length (formatUint64 u) = 8"
  by (simp add: formatUint64_def)

text \<open>Big-endian bytes read back to the integer they were written from.\<close>

lemma byte_step:
  "push_bit 8 (drop_bit (k + 8) u) OR ucast (ucast (drop_bit k u) :: byte) = drop_bit k (u :: u64)"
proof (rule bit_word_eqI)
  fix n assume "n < LENGTH(64)"
  moreover have "8 \<le> n \<Longrightarrow> k + 8 + (n - 8) = k + n" by simp
  ultimately show "bit (push_bit 8 (drop_bit (k + 8) u) OR ucast (ucast (drop_bit k u) :: byte)) n
      = bit (drop_bit k u) n"
    by (cases "8 \<le> n") (simp_all add: bit_simps)
qed

lemma Uint64_formatUint64: "Uint64 (formatUint64 u) = u"
proof -
  have "drop_bit 64 u = 0"
    by (rule bit_word_eqI) (auto simp: bit_simps dest: bit_imp_le_length)
  then have top: "push_bit 8 0 OR ucast (ucast (drop_bit 56 u) :: byte) = drop_bit 56 u"
    using byte_step [of 56 u] by simp
  show ?thesis
    unfolding Uint64_def formatUint64_def
    using top byte_step [of 48 u] byte_step [of 40 u] byte_step [of 32 u] byte_step [of 24 u]
      byte_step [of 16 u] byte_step [of 8 u] byte_step [of 0 u]
    by simp
qed

lemma formatUint64_inject [simp]: "formatUint64 u = formatUint64 v \<longleftrightarrow> u = v"
  by (metis Uint64_formatUint64)

section \<open>The segments of a key\<close>

fun segments :: "skey \<Rightarrow> bytes list" where
  "segments (KAccount a) = [accountPrefix, addr_bytes a]"
| "segments (KPool n) = [poolPrefix, formatUint64 n]"
| "segments (KValidator a) = [validatorPrefix, addr_bytes a]"
| "segments (KCommittee c stake a) = [committeePrefix, formatUint64 c, formatUint64 stake, addr_bytes a]"
| "segments (KDelegate c stake a) = [delegatePrefix, formatUint64 c, formatUint64 stake, addr_bytes a]"
| "segments (KUnstaking h a) = [unstakePrefix, formatUint64 h, addr_bytes a]"
| "segments (KPaused h a) = [pausedPrefix, formatUint64 h, addr_bytes a]"
| "segments (KParams space) = [paramsPrefix, space]"
| "segments (KNonSigner a) = [nonSignerPrefix, addr_bytes a]"
| "segments KLastProposers = [lastProposersPrefix]"
| "segments KSupply = [supplyPrefix]"
| "segments KCommitteesData = [committeesDataPrefix]"
| "segments (KOrder c orderId) = [orderBookPrefix, formatUint64 c, orderId]"
| "segments (KRetired c) = [retiredCommitteePrefix, formatUint64 c]"
| "segments (KLockedBatch c) = [dexPrefix, lockedBatchSegment, formatUint64 c]"
| "segments (KNextBatch c) = [dexPrefix, nextBatchSement, formatUint64 c]"

text \<open>The length byte holds every segment length: the only condition on a key.\<close>

definition key_ok :: "skey \<Rightarrow> bool" where
  "key_ok k \<longleftrightarrow> (\<forall>b \<in> set (segments k). length b < 256)"

lemma KeyFor_segments: "KeyFor k = JoinLenPrefix (map Some (segments k))"
  by (cases k) (simp_all add: CommitteePrefix_def DelegatePrefix_def UnstakingPrefix_def
      PausedPrefix_def LastProposersPrefix_def SupplyPrefix_def CommitteesDataPrefix_def
      OrderBookPrefix_def)

lemma Decode_KeyFor: "key_ok k \<Longrightarrow> DecodeLengthPrefixed (KeyFor k) = Some (segments k)"
  unfolding KeyFor_segments key_ok_def by (rule Decode_Join)

lemma segments_inject: "segments j = segments k \<Longrightarrow> j = k"
  by (cases j; cases k) (simp_all add: prefix_defs address.expand)

lemma prefix_Join:
  assumes p: "\<forall>b \<in> set p. length b < 256" and s: "\<forall>b \<in> set s. length b < 256"
  shows "prefix (JoinLenPrefix (map Some p)) (JoinLenPrefix (map Some s)) \<longleftrightarrow> prefix p s"
proof
  assume "prefix (JoinLenPrefix (map Some p)) (JoinLenPrefix (map Some s))"
  then obtain rest where "JoinLenPrefix (map Some s) = JoinLenPrefix (map Some p) @ rest"
    by (auto simp: prefix_def)
  then have "Some s = map_option ((@) p) (DecodeLengthPrefixed rest)"
    using Decode_Join [OF s] Decode_Join_append [OF p] by metis
  then show "prefix p s"
    by (cases "DecodeLengthPrefixed rest") (auto simp: prefix_def)
next
  assume "prefix p s"
  then show "prefix (JoinLenPrefix (map Some p)) (JoinLenPrefix (map Some s))"
    by (auto simp: prefix_def JoinLenPrefix_append [symmetric])
qed

lemma prefix_KeyFor:
  "key_ok k \<Longrightarrow> \<forall>b \<in> set p. length b < 256 \<Longrightarrow>
   prefix (JoinLenPrefix (map Some p)) (KeyFor k) \<longleftrightarrow> prefix p (segments k)"
  unfolding KeyFor_segments key_ok_def by (rule prefix_Join)

section \<open>Typed tables over a byte store\<close>

text \<open>
  An injective key encoding turns the byte store into a typed map: reads and writes through
  the encoded key behave like reads and writes of the typed key.
\<close>

locale key_space =
  fixes enc :: "'k \<Rightarrow> bytes" and valid :: "'k \<Rightarrow> bool"
  assumes enc_inj: "valid j \<Longrightarrow> valid k \<Longrightarrow> enc j = enc k \<Longrightarrow> j = k"
begin

definition view :: "(bytes, 'v) table \<Rightarrow> 'k \<Rightarrow> 'v option" where
  "view m k = tget m (enc k)"

lemma view_set: "valid j \<Longrightarrow> valid k \<Longrightarrow> view (tset (enc j) v m) k = (if k = j then Some v else view m k)"
  using enc_inj by (auto simp: view_def tget_tset)

lemma view_del: "valid j \<Longrightarrow> valid k \<Longrightarrow> view (tdel (enc j) m) k = (if k = j then None else view m k)"
  using enc_inj by (auto simp: view_def tget_tdel)

end

interpretation fsm_keys: key_space KeyFor key_ok
proof
  fix j k
  assume "key_ok j" "key_ok k" "KeyFor j = KeyFor k"
  then have "segments j = segments k" using Decode_KeyFor by (metis option.inject)
  then show "j = k" by (rule segments_inject)
qed

section \<open>Properties\<close>

text \<open>
  C38: The byte store implements the typed tables: no two keys of the state machine share an
  encoding, within a group or across groups, so a write through one \<open>KeyFor\<close> function is read
  back under exactly that key and leaves every other entry alone; and a key decodes to the
  segments it was built from.
\<close>

theorem store_keys_refine_tables:
  assumes "key_ok j" and "key_ok k"
  shows "(KeyFor j = KeyFor k \<longleftrightarrow> j = k) \<and>
    tget (tset (KeyFor j) v m) (KeyFor k) = (if k = j then Some v else tget m (KeyFor k)) \<and>
    tget (tdel (KeyFor j) m) (KeyFor k) = (if k = j then None else tget m (KeyFor k)) \<and>
    DecodeLengthPrefixed (KeyFor k) = Some (segments k)"
  using assms fsm_keys.enc_inj [OF assms] fsm_keys.view_set [OF assms, of v m]
    fsm_keys.view_del [OF assms, of m] Decode_KeyFor [OF assms(2)]
  unfolding fsm_keys.view_def by auto

theorem store_keys_refine_tables_witness:
  "key_ok (KUnstaking 7 (Addr [1, 2])) \<and> key_ok (KPaused 7 (Addr [1, 2])) \<and>
   KeyFor (KUnstaking 7 (Addr [1, 2])) \<noteq> KeyFor (KPaused 7 (Addr [1, 2]))"
proof -
  have a: "key_ok (KUnstaking 7 (Addr [1, 2]))" and b: "key_ok (KPaused 7 (Addr [1, 2]))"
    by (simp_all add: key_ok_def prefix_defs)
  show ?thesis using a b store_keys_refine_tables [OF a b, of "0 :: nat" "[]"] by simp
qed

text \<open>
  A prefix scan visits exactly one table. The scans of \<open>ForceUnstakeMaxPaused\<close>,
  \<open>DeleteFinishedUnstaking\<close>, \<open>GetOrderBook\<close> and of the account, validator and non-signer
  iterations meet a key of the state machine only if it belongs to their group and carries the
  scanned height or committee, and the address is recovered from the key.
\<close>

theorem prefix_scan_exact:
  assumes "key_ok k"
  shows "(prefix (PausedPrefix h) (KeyFor k) \<longleftrightarrow> (\<exists>a. k = KPaused h a)) \<and>
    (prefix (UnstakingPrefix h) (KeyFor k) \<longleftrightarrow> (\<exists>a. k = KUnstaking h a)) \<and>
    (prefix (OrderBookPrefix c) (KeyFor k) \<longleftrightarrow> (\<exists>i. k = KOrder c i)) \<and>
    (prefix AccountPrefix (KeyFor k) \<longleftrightarrow> (\<exists>a. k = KAccount a)) \<and>
    (prefix ValidatorPrefix (KeyFor k) \<longleftrightarrow> (\<exists>a. k = KValidator a)) \<and>
    (prefix NonSignerPrefix (KeyFor k) \<longleftrightarrow> (\<exists>a. k = KNonSigner a)) \<and>
    (k = KPaused h a \<or> k = KUnstaking h a \<or> k = KNonSigner a \<longrightarrow> AddressFromKey (KeyFor k) = Inr a)"
proof -
  have scan: "prefix (JoinLenPrefix (map Some p)) (KeyFor k) \<longleftrightarrow> prefix p (segments k)"
    if "\<forall>b \<in> set p. length b < 256" for p
    by (rule prefix_KeyFor [OF assms that])
  have "prefix (PausedPrefix h) (KeyFor k) \<longleftrightarrow> (\<exists>a. k = KPaused h a)"
    using scan [of "[pausedPrefix, formatUint64 h]"]
    by (cases k) (auto simp: PausedPrefix_def prefix_defs)
  moreover have "prefix (UnstakingPrefix h) (KeyFor k) \<longleftrightarrow> (\<exists>a. k = KUnstaking h a)"
    using scan [of "[unstakePrefix, formatUint64 h]"]
    by (cases k) (auto simp: UnstakingPrefix_def prefix_defs)
  moreover have "prefix (OrderBookPrefix c) (KeyFor k) \<longleftrightarrow> (\<exists>i. k = KOrder c i)"
    using scan [of "[orderBookPrefix, formatUint64 c]"]
    by (cases k) (auto simp: OrderBookPrefix_def prefix_defs)
  moreover have "prefix AccountPrefix (KeyFor k) \<longleftrightarrow> (\<exists>a. k = KAccount a)"
    using scan [of "[accountPrefix]"] by (cases k) (simp_all add: AccountPrefix_def prefix_defs)
  moreover have "prefix ValidatorPrefix (KeyFor k) \<longleftrightarrow> (\<exists>a. k = KValidator a)"
    using scan [of "[validatorPrefix]"] by (cases k) (simp_all add: ValidatorPrefix_def prefix_defs)
  moreover have "prefix NonSignerPrefix (KeyFor k) \<longleftrightarrow> (\<exists>a. k = KNonSigner a)"
    using scan [of "[nonSignerPrefix]"] by (cases k) (simp_all add: NonSignerPrefix_def prefix_defs)
  moreover have "AddressFromKey (KeyFor k) = Inr a"
    if "k = KPaused h a \<or> k = KUnstaking h a \<or> k = KNonSigner a"
    unfolding AddressFromKey_def Decode_KeyFor [OF assms] using that by auto
  ultimately show ?thesis by blast
qed

theorem prefix_scan_exact_witness:
  "\<not> prefix (PausedPrefix 3) (KeyFor (KUnstaking 3 (Addr [9]))) \<and>
   AddressFromKey (KeyFor (KUnstaking 3 (Addr [9]))) = Inr (Addr [9])"
proof -
  have "key_ok (KUnstaking 3 (Addr [9]))" by (simp add: key_ok_def prefix_defs)
  from prefix_scan_exact [OF this, of 3 0 "Addr [9]"] show ?thesis by simp
qed

text \<open>
  The store iterates accounts, validators and the entries of one unstaking height in the
  order of their addresses (shorter first, then lexicographic), which is the order of the tables.
\<close>

theorem key_order_is_address_order:
  assumes "length (addr_bytes a) < 256" and "length (addr_bytes b) < 256"
  shows "(KeyFor (KAccount a) < KeyFor (KAccount b) \<longleftrightarrow> a < b) \<and>
    (KeyFor (KValidator a) < KeyFor (KValidator b) \<longleftrightarrow> a < b) \<and>
    (KeyFor (KUnstaking h a) < KeyFor (KUnstaking h b) \<longleftrightarrow> a < b)"
proof -
  have len: "(word_of_nat (length (addr_bytes a)) :: byte) < word_of_nat (length (addr_bytes b))
        \<longleftrightarrow> length (addr_bytes a) < length (addr_bytes b)"
    using assms by (simp add: word_less_nat_alt unat_len_byte)
  have eq: "(word_of_nat (length (addr_bytes a)) :: byte) = word_of_nat (length (addr_bytes b))
        \<longleftrightarrow> length (addr_bytes a) = length (addr_bytes b)"
    using assms by (metis unat_len_byte)
  have pre: "(xs @ ys :: bytes) < xs @ zs \<longleftrightarrow> ys < zs" for xs ys zs
    by (induction xs) simp_all
  have "(word_of_nat (length (addr_bytes a)) :: byte) # addr_bytes a <
      word_of_nat (length (addr_bytes b)) # addr_bytes b \<longleftrightarrow> a < b"
    by (auto simp: less_address_def less_prod_def len eq)
  then show ?thesis by (simp add: pre)
qed

theorem key_order_is_address_order_witness:
  "KeyFor (KAccount (Addr [1, 2])) < KeyFor (KAccount (Addr [1, 3]))"
  using key_order_is_address_order [of "Addr [1, 2]" "Addr [1, 3]" 0]
  by (simp add: less_address_def less_prod_def)

end
