(* ===== verification/Util.thy ===== *)
theory Util
  imports Prelude
begin

text \<open>
  The arithmetic helpers of \<open>lib/util.go\<close>: percentages of 64-bit amounts, products and
  square roots. \<open>math/big\<close> integers are HOL naturals; a division by zero of machine integers
  is a run-time panic, \<open>None\<close>.
\<close>

section \<open>Percentages\<close>

definition Uint64PercentageDiv :: "u64 \<Rightarrow> u64 \<Rightarrow> u64" where
  "Uint64PercentageDiv dividend divisor =
     (if dividend = 0 \<or> divisor = 0 then 0
      else (let percent = (dividend * 100) div divisor in if percent > 100 then 100 else percent))"

definition Uint64Percentage :: "u64 \<Rightarrow> u64 \<Rightarrow> u64" where
  "Uint64Percentage amount percentage =
     (if percentage = 0 \<or> amount = 0 then 0
      else if percentage \<ge> 100 then amount else (amount * percentage) div 100)"

definition Uint64ReducePercentage :: "u64 \<Rightarrow> u64 \<Rightarrow> u64" where
  "Uint64ReducePercentage fullAmount percentage =
     (if percentage \<ge> 100 \<or> fullAmount = 0 then 0
      else if percentage = 0 then fullAmount
      else (fullAmount * (100 - percentage)) div 100)"

text \<open>\<open>big.Int.Uint64()\<close> keeps the low 64 bits.\<close>

definition SafeMulDiv :: "u64 \<Rightarrow> u64 \<Rightarrow> u64 \<Rightarrow> u64" where
  "SafeMulDiv a b c = (if c = 0 then 0 else of_nat (unat a * unat b div unat c))"

definition AddUint64 :: "u64 \<Rightarrow> u64 \<Rightarrow> u64 \<times> bool" where
  "AddUint64 a b = (a + b, 2 ^ 64 \<le> unat a + unat b)"

lemma SafeMulDiv_le:
  assumes "b \<le> c"
  shows "unat (SafeMulDiv a b c) = unat a * unat b div unat c" and "SafeMulDiv a b c \<le> a"
proof -
  have le: "unat a * unat b div unat c \<le> unat a"
  proof (cases "unat c = 0")
    case False
    have "unat a * unat b div unat c \<le> unat a * unat c div unat c"
      using assms by (intro div_le_mono mult_le_mono2) (simp add: unat_le_iff)
    with False show ?thesis by simp
  qed simp
  then have "unat a * unat b div unat c < 2 ^ 64"
    using u64_bound [of a] by linarith
  then show eq: "unat (SafeMulDiv a b c) = unat a * unat b div unat c"
    by (simp add: SafeMulDiv_def unat_of_nat_small)
  show "SafeMulDiv a b c \<le> a"
    using le by (simp add: unat_le_iff eq)
qed

lemma SafeMulDiv_exact:
  "unat a * unat b div unat c < 2 ^ 64 \<Longrightarrow> unat (SafeMulDiv a b c) = unat a * unat b div unat c"
  by (simp add: SafeMulDiv_def unat_of_nat_small)

lemma ReducePercentage_exact:
  assumes "unat x * 100 < 2 ^ 64"
  shows "unat (Uint64ReducePercentage x p) = unat x * (100 - unat p) div 100"
proof (cases "p \<ge> 100 \<or> x = 0 \<or> p = 0")
  case True
  then show ?thesis
    by (auto simp: Uint64ReducePercentage_def unat_le_iff)
next
  case False
  then have sub: "unat (100 - p) = 100 - unat p"
    by (subst unat_sub) auto
  have "unat x * (100 - unat p) \<le> unat x * 100" by simp
  with assms have "unat x * (100 - unat p) < 2 ^ 64" by linarith
  then have "unat (x * (100 - p)) = unat x * (100 - unat p)"
    by (simp add: unat_word_ariths sub)
  with False show ?thesis
    by (auto simp: Uint64ReducePercentage_def unat_div)
qed

lemma div_add_div_le: "m div k + n div k \<le> (m + n) div (k :: nat)"
proof (cases "k = 0")
  case False
  have "k * (m div k) \<le> m" "k * (n div k) \<le> n" by simp_all
  then have "(m div k + n div k) * k \<le> m + n" by (metis add_mono add_mult_distrib2 mult.commute)
  with False show ?thesis by (simp add: less_eq_div_iff_mult_less_eq)
qed simp

section \<open>Square roots\<close>

text \<open>\<open>big.Int.Sqrt\<close>: the integer square root, two bits of the argument at a time.\<close>

fun bigSqrt :: "nat \<Rightarrow> nat" where
  "bigSqrt n = (if n = 0 then 0
     else (let r = 2 * bigSqrt (n div 4) in if (r + 1) * (r + 1) \<le> n then r + 1 else r))"

declare bigSqrt.simps [simp del]

definition SqrtProductUint64 :: "u64 \<Rightarrow> u64 \<Rightarrow> u64" where
  "SqrtProductUint64 x y = of_nat (bigSqrt (unat x * unat y))"

lemma bigSqrt_spec: "bigSqrt n * bigSqrt n \<le> n \<and> n < (bigSqrt n + 1) * (bigSqrt n + 1)"
proof (induction n rule: bigSqrt.induct)
  case (1 n)
  show ?case
  proof (cases "n = 0")
    case True
    then show ?thesis by (simp add: bigSqrt.simps)
  next
    case False
    let ?q = "bigSqrt (n div 4)"
    from "1.IH" [OF False] have lo: "?q * ?q \<le> n div 4" and hi: "n div 4 < (?q + 1) * (?q + 1)"
      by auto
    have "4 * (?q * ?q) \<le> n" using lo by linarith
    moreover have "n < 4 * ((?q + 1) * (?q + 1))" using hi by linarith
    ultimately show ?thesis using False
      by (auto simp: bigSqrt.simps [of n] Let_def algebra_simps)
  qed
qed

text \<open>The product of two 64-bit values has a square root that fits 64 bits.\<close>

lemma SqrtProduct_spec:
  "unat (SqrtProductUint64 x y) * unat (SqrtProductUint64 x y) \<le> unat x * unat y \<and>
   unat x * unat y < (unat (SqrtProductUint64 x y) + 1) * (unat (SqrtProductUint64 x y) + 1)"
proof -
  let ?r = "bigSqrt (unat x * unat y)"
  have "?r < 2 ^ 64"
  proof (rule ccontr)
    assume "\<not> ?r < 2 ^ 64"
    then have "2 ^ 64 * 2 ^ 64 \<le> ?r * ?r" by (intro mult_le_mono) simp_all
    also have "\<dots> \<le> unat x * unat y" using bigSqrt_spec by blast
    also have "\<dots> < 2 ^ 64 * 2 ^ 64"
      by (rule mult_strict_mono') (use u64_bound in auto)
    finally show False by simp
  qed
  then show ?thesis
    using bigSqrt_spec [of "unat x * unat y"] by (simp add: SqrtProductUint64_def unat_of_nat_small)
qed

subsection \<open>Newton's iteration\<close>

text \<open>The loop of \<open>IntSqrt\<close>; \<open>n/x\<close> with \<open>x = 0\<close> panics.\<close>

function IntSqrt_loop :: "u64 \<Rightarrow> u64 \<Rightarrow> u64 \<Rightarrow> u64 option" where
  "IntSqrt_loop n x y =
     (if y < x then (if y = 0 then None else IntSqrt_loop n y ((y + n div y) div 2)) else Some x)"
  by pat_completeness auto
termination
  by (relation "measure (\<lambda>(n, x, y). unat x)") (auto simp: unat_less_iff)

declare IntSqrt_loop.simps [simp del]

definition IntSqrt :: "u64 \<Rightarrow> u64 option" where
  "IntSqrt n = (if n = 0 then Some 0 else IntSqrt_loop n n ((n + 1) div 2))"

lemma newton_upper:
  fixes n x :: nat
  assumes "0 < x"
  shows "n < ((x + n div x) div 2 + 1) * ((x + n div x) div 2 + 1)"
proof -
  let ?q = "n div x" and ?m = "(x + n div x) div 2"
  have "n < x * (?q + 1)"
    using assms by (metis Suc_eq_plus1 dividend_less_times_div mult_Suc_right add.commute)
  moreover have "4 * (x * (?q + 1)) \<le> (x + (?q + 1)) * (x + (?q + 1))"
  proof -
    have "int 4 * (int x * (int ?q + 1)) \<le> (int x + (int ?q + 1)) * (int x + (int ?q + 1))"
      using zero_le_square [of "int x - (int ?q + 1)"] by (simp add: algebra_simps)
    then have "int (4 * (x * (?q + 1))) \<le> int ((x + (?q + 1)) * (x + (?q + 1)))"
      by (simp add: algebra_simps)
    then show ?thesis by linarith
  qed
  moreover have "a + 1 \<le> 2 * (a div 2 + 1)" for a :: nat by presburger
  from this [of "x + ?q"] have "x + (?q + 1) \<le> 2 * (?m + 1)" by simp
  then have "(x + (?q + 1)) * (x + (?q + 1)) \<le> (2 * (?m + 1)) * (2 * (?m + 1))"
    by (intro mult_le_mono)
  ultimately have "4 * n < (2 * (?m + 1)) * (2 * (?m + 1))" by linarith
  also have "\<dots> = 4 * ((?m + 1) * (?m + 1))" by (simp add: algebra_simps)
  finally show ?thesis by linarith
qed

lemma sum_quotient_le:
  fixes n y :: nat
  assumes "1 \<le> y" and "y \<le> n"
  shows "y + n div y \<le> n + 1"
proof -
  have "1 \<le> n div y" using assms by (simp add: Suc_le_eq div_greater_zero_iff)
  then obtain p where p: "n div y = p + 1" using le_Suc_ex by (metis add.commute)
  obtain z where z: "y = z + 1" using assms(1) le_Suc_ex by (metis add.commute)
  have "y * (n div y) \<le> n" by simp
  moreover have "y * (n div y) = y + n div y - 1 + z * p"
    by (simp only: p) (simp add: z algebra_simps)
  moreover have "1 \<le> y + n div y" using assms(1) by simp
  ultimately show ?thesis by linarith
qed

lemma IntSqrt_loop_correct:
  assumes "n \<noteq> 0" and "unat n + 1 < 2 ^ 64" and "x \<noteq> 0" and "x \<le> n"
    and "unat n < (unat x + 1) * (unat x + 1)" and "unat y = (unat x + unat n div unat x) div 2"
  shows "\<exists>r. IntSqrt_loop n x y = Some r \<and> unat r * unat r \<le> unat n \<and>
    unat n < (unat r + 1) * (unat r + 1)"
  using assms
proof (induction n x y rule: IntSqrt_loop.induct)
  case (1 n x y)
  have x0: "0 < unat x" and xn: "unat x \<le> unat n"
    using "1.prems" by (simp_all add: unat_le_iff unat_gt_0)
  show ?case
  proof (cases "y < x")
    case True
    have "1 \<le> unat n div unat x" using x0 xn by (simp add: Suc_le_eq div_greater_zero_iff)
    then have ypos: "y \<noteq> 0" using "1.prems"(6) x0 by (cases "y = 0") auto
    have yn: "unat y \<le> unat n" using True xn by (simp add: unat_less_iff)
    have y1: "1 \<le> unat y" using ypos by (metis One_nat_def Suc_leI unat_gt_0)
    have "unat y + unat n div unat y < 2 ^ 64"
      using sum_quotient_le [OF y1 yn] "1.prems"(2) by linarith
    then have next_y: "unat ((y + n div y) div 2) = (unat y + unat n div unat y) div 2"
      by (simp add: unat_div unat_word_ariths)
    have "unat n < (unat y + 1) * (unat y + 1)"
      using newton_upper [OF x0, of "unat n"] "1.prems"(6) by simp
    from "1.IH" [OF True ypos] "1.prems" this next_y ypos yn True
    show ?thesis by (simp add: IntSqrt_loop.simps [of n x y] unat_le_iff)
  next
    case False
    then have "unat x \<le> (unat x + unat n div unat x) div 2"
      using "1.prems"(6) by (simp add: unat_less_iff)
    then have "unat x \<le> unat n div unat x" by linarith
    then have "unat x * unat x \<le> unat x * (unat n div unat x)" by simp
    also have "\<dots> \<le> unat n" by simp
    finally show ?thesis using False "1.prems"(5) by (simp add: IntSqrt_loop.simps [of n x y])
  qed
qed

section \<open>What the helpers promise\<close>

text \<open>
  C40: \<open>IntSqrt\<close> terminates and returns the truncated square root of every 64-bit value but the
  largest one; on \<open>math.MaxUint64\<close> the initial \<open>x + 1\<close> wraps to zero and the loop divides by zero.
\<close>

theorem IntSqrt_correct:
  "(unat n < 2 ^ 64 - 1 \<longrightarrow> (\<exists>r. IntSqrt n = Some r \<and> unat r * unat r \<le> unat n \<and>
      unat n < (unat r + 1) * (unat r + 1))) \<and> IntSqrt MaxUint64 = None"
proof (intro conjI impI)
  assume n: "unat n < 2 ^ 64 - 1"
  show "\<exists>r. IntSqrt n = Some r \<and> unat r * unat r \<le> unat n \<and> unat n < (unat r + 1) * (unat r + 1)"
  proof (cases "n = 0")
    case False
    have "unat ((n + 1) div 2) = (unat n + unat n div unat n) div 2"
      using n False by (simp add: unat_div unat_add_exact)
    moreover have "unat n < (unat n + 1) * (unat n + 1)" by (simp add: algebra_simps)
    ultimately show ?thesis
      using False n IntSqrt_loop_correct [of n n "(n + 1) div 2"] by (simp add: IntSqrt_def)
  qed (simp add: IntSqrt_def)
next
  show "IntSqrt MaxUint64 = None"
    by (simp add: IntSqrt_def IntSqrt_loop.simps MaxUint64_def word_neq_0_conv [symmetric])
qed

theorem IntSqrt_correct_witness:
  "unat (99 :: u64) < 2 ^ 64 - 1 \<and> (\<exists>r. IntSqrt 99 = Some r \<and> unat r * unat r \<le> 99 \<and>
     99 < (unat r + 1) * (unat r + 1))"
  using IntSqrt_correct [of 99] by simp

text \<open>
  The big-integer helpers do not lose bits where the state machine uses them: a share
  \<open>a * b / c\<close> with \<open>b \<le> c\<close> is exact and never exceeds \<open>a\<close>, shares of parts that add up to at most the whole
  never exceed it together, and the root of a product is the exact integer root.
\<close>

theorem share_arithmetic_exact:
  assumes "b \<le> c" and "unat b + unat b' \<le> unat c"
  shows "unat (SafeMulDiv a b c) = unat a * unat b div unat c \<and> SafeMulDiv a b c \<le> a \<and>
    unat (SafeMulDiv a b c) + unat (SafeMulDiv a b' c) \<le> unat a \<and>
    unat (SqrtProductUint64 a b) * unat (SqrtProductUint64 a b) \<le> unat a * unat b \<and>
    unat a * unat b < (unat (SqrtProductUint64 a b) + 1) * (unat (SqrtProductUint64 a b) + 1)"
proof (intro conjI)
  have b': "b' \<le> c" using assms(2) by (simp add: unat_le_iff)
  show "unat (SafeMulDiv a b c) + unat (SafeMulDiv a b' c) \<le> unat a"
  proof (cases "c = 0")
    case False
    have "unat a * unat b div unat c + unat a * unat b' div unat c
        \<le> (unat a * unat b + unat a * unat b') div unat c" by (rule div_add_div_le)
    also have "\<dots> \<le> unat a * unat c div unat c"
      using assms(2) by (intro div_le_mono) (simp add: add_mult_distrib2 [symmetric])
    finally show ?thesis
      using False SafeMulDiv_le(1) [OF assms(1), of a] SafeMulDiv_le(1) [OF b', of a] by simp
  qed (simp add: SafeMulDiv_def)
qed (use SafeMulDiv_le [OF assms(1), of a] SqrtProduct_spec [of a b] in blast)+

theorem share_arithmetic_exact_witness:
  "unat (SafeMulDiv MaxUint64 30 100) + unat (SafeMulDiv MaxUint64 70 100) \<le> 2 ^ 64 - 1"
  using share_arithmetic_exact [of 30 100 70 MaxUint64] by simp

end
