(* ===== verification/Accounts.thy ===== *)
theory Accounts
  imports State "HOL-Library.Multiset"
begin

text \<open>
  Accounts, pools and the supply tracker (\<open>fsm/account.go\<close>): vesting, deposits and
  withdrawals, pool balances, liquidity points, and the per-committee supply pools.
  The second half shows what the ledger promises: tokens are conserved, the locked part
  of a vesting account cannot be withdrawn, and the supply pools are a faithful map from
  committee to stake.
\<close>

section \<open>Accounts\<close>

definition emptyAccount :: "address \<Rightarrow> account" where
  "emptyAccount a = \<lparr>acAddress = a, acAmount = 0, acVestingAmount = 0,
     acVestingStartHeight = 0, acVestingCliffHeight = 0, acVestingEndHeight = 0\<rparr>"

definition accountAt :: "state \<Rightarrow> address \<Rightarrow> account" where
  "accountAt s a = (case tget (accounts s) a of
       None \<Rightarrow> emptyAccount a
     | Some acc \<Rightarrow> acc\<lparr>acAddress := a\<rparr>)"

definition GetAccount :: "address \<Rightarrow> account fsm" where
  "GetAccount a = gets (\<lambda>s. accountAt s a)"

definition GetAccounts :: "account list fsm" where
  "GetAccounts = gets (\<lambda>s. map snd (accounts s))"

definition GetAccountBalance :: "address \<Rightarrow> u64 fsm" where
  "GetAccountBalance a = bnd (GetAccount a) (\<lambda>account. ret (acAmount account))"

text \<open>The receiver enters the vesting arithmetic only through its height \<open>h\<close>.\<close>

definition AccountVestedAmount :: "u64 \<Rightarrow> account \<Rightarrow> u64" where
  "AccountVestedAmount h account =
     (if h < acVestingStartHeight account \<or> h < acVestingCliffHeight account then 0
      else if h \<ge> acVestingEndHeight account then acVestingAmount account
      else (let elapsed = h - acVestingStartHeight account;
                duration = acVestingEndHeight account - acVestingStartHeight account
            in acVestingAmount account * elapsed div duration))"

definition AccountLockedAmount :: "u64 \<Rightarrow> account \<Rightarrow> u64" where
  "AccountLockedAmount h account =
     (if acVestingAmount account = 0 then 0
      else (let vested = AccountVestedAmount h account
            in if vested \<ge> acVestingAmount account then 0 else acVestingAmount account - vested))"

definition AccountSpendableAmount :: "u64 \<Rightarrow> account \<Rightarrow> u64" where
  "AccountSpendableAmount h account =
     (let locked = AccountLockedAmount h account
      in if locked \<ge> acAmount account then 0 else acAmount account - locked)"

definition GetAccountSpendableBalance :: "address \<Rightarrow> u64 fsm" where
  "GetAccountSpendableBalance a =
     bnd (GetAccount a) (\<lambda>account. gets (\<lambda>s. AccountSpendableAmount (height s) account))"

definition clearAccountVestingIfFullyVested :: "u64 \<Rightarrow> account \<Rightarrow> account" where
  "clearAccountVestingIfFullyVested h account =
     (if acVestingAmount account = 0 then account
      else if AccountLockedAmount h account \<noteq> 0 then account
      else account\<lparr>acVestingAmount := 0, acVestingStartHeight := 0,
                   acVestingCliffHeight := 0, acVestingEndHeight := 0\<rparr>)"

definition SetAccount :: "account \<Rightarrow> unit fsm" where
  "SetAccount account0 =
     bnd (gets height) (\<lambda>h.
     let account = clearAccountVestingIfFullyVested h account0 in
     if acAmount account = 0
     then modify (\<lambda>s. s\<lparr>accounts := tdel (acAddress account) (accounts s)\<rparr>)
     else modify (\<lambda>s. s\<lparr>accounts := tset (acAddress account) account (accounts s)\<rparr>))"

definition AccountAdd :: "address \<Rightarrow> u64 \<Rightarrow> unit fsm" where
  "AccountAdd address amountToAdd =
     (if amountToAdd = 0 then ret ()
      else bnd (GetAccount address) (\<lambda>account.
        if acAmount account > MaxUint64 - amountToAdd then err ErrInvalidAmount
        else SetAccount (account\<lparr>acAmount := acAmount account + amountToAdd\<rparr>)))"

definition AccountSub :: "address \<Rightarrow> u64 \<Rightarrow> unit fsm" where
  "AccountSub address amountToSub =
     (if amountToSub = 0 then ret ()
      else bnd (GetAccount address) (\<lambda>account.
        bnd (gets (\<lambda>s. AccountSpendableAmount (height s) account)) (\<lambda>spendable.
        if spendable < amountToSub then err ErrInsufficientFunds
        else SetAccount (account\<lparr>acAmount := acAmount account - amountToSub\<rparr>))))"

text \<open>The vesting schedule of a \<open>MessageSend\<close>.\<close>

record messageSend =
  msFromAddress :: address
  msToAddress :: address
  msAmount :: u64
  msVestingStartHeight :: u64
  msVestingCliffHeight :: u64
  msVestingEndHeight :: u64

definition ValidateAccountAddWithVesting :: "messageSend \<Rightarrow> unit fsm" where
  "ValidateAccountAddWithVesting msg =
     bnd (GetAccount (msToAddress msg)) (\<lambda>acc.
     bnd (gets (\<lambda>s. AccountLockedAmount (height s) acc)) (\<lambda>locked.
     if acVestingAmount acc \<noteq> 0 \<and> locked \<noteq> 0 \<and>
        (acVestingStartHeight acc \<noteq> msVestingStartHeight msg \<or>
         acVestingCliffHeight acc \<noteq> msVestingCliffHeight msg \<or>
         acVestingEndHeight acc \<noteq> msVestingEndHeight msg)
     then err ErrIncompatibleVesting else ret ()))"

definition AccountAddWithVesting :: "messageSend \<Rightarrow> unit fsm" where
  "AccountAddWithVesting msg =
     bnd (GetAccount (msToAddress msg)) (\<lambda>acc0.
     if acAmount acc0 > MaxUint64 - msAmount msg \<or> acVestingAmount acc0 > MaxUint64 - msAmount msg
     then err ErrInvalidAmount
     else bnd (ValidateAccountAddWithVesting msg) (\<lambda>_.
       let acc = acc0\<lparr>acAmount := acAmount acc0 + msAmount msg\<rparr> in
       bnd (gets (\<lambda>s. AccountLockedAmount (height s) acc)) (\<lambda>locked.
       if acVestingAmount acc = 0 \<or> locked = 0
       then SetAccount (acc\<lparr>acVestingAmount := msAmount msg,
              acVestingStartHeight := msVestingStartHeight msg,
              acVestingCliffHeight := msVestingCliffHeight msg,
              acVestingEndHeight := msVestingEndHeight msg\<rparr>)
       else SetAccount (acc\<lparr>acVestingAmount := acVestingAmount acc + msAmount msg\<rparr>))))"

section \<open>Pools\<close>

definition poolAt :: "state \<Rightarrow> u64 \<Rightarrow> pool" where
  "poolAt s i = (case tget (pools s) i of
       None \<Rightarrow> \<lparr>pId = i, pAmount = 0, pPoints = [], pTotalPoolPoints = 0\<rparr>
     | Some p \<Rightarrow> p\<lparr>pId := i\<rparr>)"

definition GetPool :: "u64 \<Rightarrow> pool fsm" where
  "GetPool i = gets (\<lambda>s. poolAt s i)"

definition GetPools :: "pool list fsm" where
  "GetPools = gets (\<lambda>s. map snd (pools s))"

definition GetPoolBalance :: "u64 \<Rightarrow> u64 fsm" where
  "GetPoolBalance i = bnd (GetPool i) (\<lambda>pool. ret (pAmount pool))"

definition SetPool :: "pool \<Rightarrow> unit fsm" where
  "SetPool pool =
     (if pAmount pool = 0
      then modify (\<lambda>s. s\<lparr>pools := tdel (pId pool) (pools s)\<rparr>)
      else modify (\<lambda>s. s\<lparr>pools := tset (pId pool) pool (pools s)\<rparr>))"

definition PoolAdd :: "u64 \<Rightarrow> u64 \<Rightarrow> unit fsm" where
  "PoolAdd i amountToAdd =
     bnd (GetPool i) (\<lambda>pool. SetPool (pool\<lparr>pAmount := pAmount pool + amountToAdd\<rparr>))"

definition PoolSub :: "u64 \<Rightarrow> u64 \<Rightarrow> unit fsm" where
  "PoolSub i amountToSub =
     bnd (GetPool i) (\<lambda>pool.
     if pAmount pool < amountToSub then err ErrInsufficientFunds
     else SetPool (pool\<lparr>pAmount := pAmount pool - amountToSub\<rparr>))"

definition SetPoolPoints :: "u64 \<Rightarrow> poolPoints list \<Rightarrow> u64 \<Rightarrow> unit fsm" where
  "SetPoolPoints chainId points totalPoolPoints =
     bnd (GetPool chainId) (\<lambda>lPool.
     SetPool (lPool\<lparr>pPoints := points, pTotalPoolPoints := totalPoolPoints\<rparr>))"

text \<open>\<open>AccountDeductFees\<close>: fees go to the reward pool of the own chain.\<close>

definition AccountDeductFees :: "address \<Rightarrow> u64 \<Rightarrow> unit fsm" where
  "AccountDeductFees address fee =
     bnd (gets (\<lambda>s. cfgChainId (cfg s))) (\<lambda>chainId.
     seqm [AccountSub address fee, PoolAdd chainId fee])"

section \<open>The supply tracker\<close>

definition GetSupply :: "Supply fsm" where
  "GetSupply = gets supplyTracker"

definition SetSupply :: "Supply \<Rightarrow> unit fsm" where
  "SetSupply sp = modify (\<lambda>s. s\<lparr>supplyTracker := sp\<rparr>)"

definition AddToTotalSupply :: "u64 \<Rightarrow> unit fsm" where
  "AddToTotalSupply amount =
     bnd GetSupply (\<lambda>sp. SetSupply (sp\<lparr>sTotal := sTotal sp + amount\<rparr>))"

definition AddToStakedSupply :: "u64 \<Rightarrow> unit fsm" where
  "AddToStakedSupply amount =
     bnd GetSupply (\<lambda>sp.
     if sStaked sp > MaxUint64 - amount then err ErrInvalidAmount
     else SetSupply (sp\<lparr>sStaked := sStaked sp + amount\<rparr>))"

definition AddToDelegateSupply :: "u64 \<Rightarrow> unit fsm" where
  "AddToDelegateSupply amount =
     bnd GetSupply (\<lambda>sp.
     if sDelegatedOnly sp > MaxUint64 - amount then err ErrInvalidAmount
     else SetSupply (sp\<lparr>sDelegatedOnly := sDelegatedOnly sp + amount\<rparr>))"

definition SubFromTotalSupply :: "u64 \<Rightarrow> unit fsm" where
  "SubFromTotalSupply amount =
     bnd GetSupply (\<lambda>sp.
     if sTotal sp < amount then err ErrInsufficientSupply
     else SetSupply (sp\<lparr>sTotal := sTotal sp - amount\<rparr>))"

definition SubFromStakedSupply :: "u64 \<Rightarrow> unit fsm" where
  "SubFromStakedSupply amount =
     bnd GetSupply (\<lambda>sp.
     if sStaked sp < amount then err ErrInsufficientSupply
     else SetSupply (sp\<lparr>sStaked := sStaked sp - amount\<rparr>))"

definition SubFromDelegateSupply :: "u64 \<Rightarrow> unit fsm" where
  "SubFromDelegateSupply amount =
     bnd GetSupply (\<lambda>sp.
     if sDelegatedOnly sp < amount then err ErrInsufficientSupply
     else SetSupply (sp\<lparr>sDelegatedOnly := sDelegatedOnly sp - amount\<rparr>))"

definition MintToPool :: "u64 \<Rightarrow> u64 \<Rightarrow> unit fsm" where
  "MintToPool i amount = seqm [AddToTotalSupply amount, PoolAdd i amount]"

definition MintToAccount :: "address \<Rightarrow> u64 \<Rightarrow> unit fsm" where
  "MintToAccount address amount =
     (if amount = 0 then ret ()
      else seqm [AddToTotalSupply amount, AccountAdd address amount])"

subsection \<open>Supply pools per committee\<close>

datatype SupplyPoolType = CommitteesWithDelegations | DelegationsOnly

fun findOrCreateSupplyPool :: "pool list \<Rightarrow> u64 \<Rightarrow> pool list \<times> nat" where
  "findOrCreateSupplyPool [] chainId =
     ([\<lparr>pId = chainId, pAmount = 0, pPoints = [], pTotalPoolPoints = 0\<rparr>], 0)"
| "findOrCreateSupplyPool (p # ps) chainId =
     (if pId p = chainId then (p # ps, 0)
      else (let (ps', i) = findOrCreateSupplyPool ps chainId in (p # ps', Suc i)))"

definition FilterAndSortPool :: "pool list \<Rightarrow> pool list" where
  "FilterAndSortPool x =
     sort_key (\<lambda>p. (MaxUint64 - pAmount p, pId p)) (filter (\<lambda>p. pAmount p \<noteq> 0) x)"

definition getSupplyPools :: "SupplyPoolType \<Rightarrow> (pool list \<times> Supply) fsm" where
  "getSupplyPools targetType =
     bnd GetSupply (\<lambda>sp. ret (case targetType of
         CommitteesWithDelegations \<Rightarrow> (sCommitteeStaked sp, sp)
       | DelegationsOnly \<Rightarrow> (sCommitteeDelegatedOnly sp, sp)))"

definition setSupplyPools :: "SupplyPoolType \<Rightarrow> pool list \<Rightarrow> Supply \<Rightarrow> Supply" where
  "setSupplyPools targetType arr sp = (case targetType of
       CommitteesWithDelegations \<Rightarrow> sp\<lparr>sCommitteeStaked := arr\<rparr>
     | DelegationsOnly \<Rightarrow> sp\<lparr>sCommitteeDelegatedOnly := arr\<rparr>)"

definition executeOnSupplyPool ::
    "u64 \<Rightarrow> SupplyPoolType \<Rightarrow> (pool \<Rightarrow> error + pool) \<Rightarrow> unit fsm" where
  "executeOnSupplyPool chainId targetType callback =
     bnd (getSupplyPools targetType) (\<lambda>(arr0, sp).
     let (arr, i) = findOrCreateSupplyPool arr0 chainId in
     case callback (arr ! i) of
       Inl e \<Rightarrow> err e
     | Inr p \<Rightarrow> SetSupply (setSupplyPools targetType (FilterAndSortPool (arr[i := p])) sp))"

definition addToSupplyPool :: "u64 \<Rightarrow> u64 \<Rightarrow> SupplyPoolType \<Rightarrow> unit fsm" where
  "addToSupplyPool chainId amount targetType =
     executeOnSupplyPool chainId targetType (\<lambda>p.
       if pAmount p > MaxUint64 - amount then Inl ErrInvalidAmount
       else Inr (p\<lparr>pAmount := pAmount p + amount\<rparr>))"

definition subFromSupplyPool :: "u64 \<Rightarrow> u64 \<Rightarrow> SupplyPoolType \<Rightarrow> unit fsm" where
  "subFromSupplyPool chainId amount targetType =
     executeOnSupplyPool chainId targetType (\<lambda>p.
       if pAmount p < amount then Inl ErrInsufficientSupply
       else Inr (p\<lparr>pAmount := pAmount p - amount\<rparr>))"

definition getSupplyPool :: "u64 \<Rightarrow> SupplyPoolType \<Rightarrow> pool fsm" where
  "getSupplyPool chainId targetType =
     bnd (getSupplyPools targetType) (\<lambda>(arr0, sp).
     let (arr, i) = findOrCreateSupplyPool arr0 chainId in ret (arr ! i))"

definition AddToCommitteeSupplyForChain :: "u64 \<Rightarrow> u64 \<Rightarrow> unit fsm" where
  "AddToCommitteeSupplyForChain chainId amount = addToSupplyPool chainId amount CommitteesWithDelegations"

definition AddToDelegateSupplyForChain :: "u64 \<Rightarrow> u64 \<Rightarrow> unit fsm" where
  "AddToDelegateSupplyForChain chainId amount = addToSupplyPool chainId amount DelegationsOnly"

definition SubFromCommitteeStakedSupplyForChain :: "u64 \<Rightarrow> u64 \<Rightarrow> unit fsm" where
  "SubFromCommitteeStakedSupplyForChain chainId amount =
     subFromSupplyPool chainId amount CommitteesWithDelegations"

definition SubFromDelegateStakedSupplyForChain :: "u64 \<Rightarrow> u64 \<Rightarrow> unit fsm" where
  "SubFromDelegateStakedSupplyForChain chainId amount = subFromSupplyPool chainId amount DelegationsOnly"

definition GetCommitteeStakedSupplyForChain :: "u64 \<Rightarrow> pool fsm" where
  "GetCommitteeStakedSupplyForChain chainId = getSupplyPool chainId CommitteesWithDelegations"

definition GetDelegateStakedSupplyForChain :: "u64 \<Rightarrow> pool fsm" where
  "GetDelegateStakedSupplyForChain chainId = getSupplyPool chainId DelegationsOnly"

section \<open>Bulk upserts at genesis\<close>

text \<open>The supply object is a local variable of genesis that the loop accumulates into.\<close>

definition SetAccounts :: "account list \<Rightarrow> Supply \<Rightarrow> Supply fsm" where
  "SetAccounts accs sp0 = fold_m (\<lambda>acc sp.
       if sTotal sp > MaxUint64 - acAmount acc then err ErrInvalidAmount
       else bnd (SetAccount acc) (\<lambda>_. ret (sp\<lparr>sTotal := sTotal sp + acAmount acc\<rparr>))) accs sp0"

definition SetPools :: "pool list \<Rightarrow> Supply \<Rightarrow> Supply fsm" where
  "SetPools ps sp0 = fold_m (\<lambda>pool sp.
       if sTotal sp > MaxUint64 - pAmount pool then err ErrInvalidAmount
       else bnd (SetPool pool) (\<lambda>_. ret (sp\<lparr>sTotal := sTotal sp + pAmount pool\<rparr>))) ps sp0"

section \<open>Liquidity points of a pool\<close>

text \<open>Methods of \<open>*Pool\<close>: the receiver is the pool.\<close>

fun lpIndex :: "poolPoints list \<Rightarrow> address \<Rightarrow> nat option" where
  "lpIndex [] a = None"
| "lpIndex (lp # lps) a = (if ppAddress lp = a then Some 0 else map_option Suc (lpIndex lps a))"

definition GetPointsFor :: "pool \<Rightarrow> address \<Rightarrow> error + u64" where
  "GetPointsFor x address = (case lpIndex (pPoints x) address of
       Some i \<Rightarrow> Inr (ppPoints (pPoints x ! i))
     | None \<Rightarrow> Inl ErrPointHolderNotFound)"

text \<open>\<open>lib.MaxLiquidityProviders\<close>\<close>

definition MaxLiquidityProviders :: nat where
  "MaxLiquidityProviders = 50000"

definition AddPoints :: "address \<Rightarrow> u64 \<Rightarrow> (pool, error, unit) sm" where
  "AddPoints address points =
     (if points = 0 then ret ()
      else bnd (gets id) (\<lambda>x. case lpIndex (pPoints x) address of
        Some i \<Rightarrow>
          let lp = pPoints x ! i in
          if pTotalPoolPoints x > MaxUint64 - points then err ErrInvalidAmount
          else if ppPoints lp > MaxUint64 - points then err ErrInvalidAmount
          else modify (\<lambda>x. x\<lparr>pTotalPoolPoints := pTotalPoolPoints x + points,
                 pPoints := (pPoints x)[i := lp\<lparr>ppPoints := ppPoints lp + points\<rparr>]\<rparr>)
      | None \<Rightarrow>
          if pTotalPoolPoints x > MaxUint64 - points then err ErrInvalidAmount
          else if length (pPoints x) \<ge> MaxLiquidityProviders then err ErrInvalidLiquidityPool
          else modify (\<lambda>x. x\<lparr>pTotalPoolPoints := pTotalPoolPoints x + points,
                 pPoints := pPoints x @ [\<lparr>ppAddress = address, ppPoints = points\<rparr>]\<rparr>)))"

definition RemovePoints :: "address \<Rightarrow> u64 \<Rightarrow> (pool, error, unit) sm" where
  "RemovePoints address points =
     bnd (gets id) (\<lambda>x. case lpIndex (pPoints x) address of
       Some i \<Rightarrow>
         let lp = pPoints x ! i;
             left = ppPoints lp - points in
         bnd (modify (\<lambda>x. x\<lparr>pTotalPoolPoints := pTotalPoolPoints x - points,
                pPoints := (if left = 0 then take i (pPoints x) @ drop (Suc i) (pPoints x)
                            else (pPoints x)[i := lp\<lparr>ppPoints := left\<rparr>])\<rparr>)) (\<lambda>_.
         bnd (gets pTotalPoolPoints) (\<lambda>total.
         fail_if (total = 0) ErrZeroLiquidityPool))
     | None \<Rightarrow> err ErrPointHolderNotFound)"

section \<open>Token conservation\<close>

text \<open>
  The tokens the state holds: account balances, pool balances and staked amounts. The
  supply tracker must agree with them. While an operation moves tokens, some are in flight:
  \<open>inflight d s\<close> says that exactly \<open>d\<close> tokens of the tracked total supply are held
  nowhere in \<open>s\<close>.
\<close>

definition accTokens :: "state \<Rightarrow> nat" where
  "accTokens s = tsum (unat \<circ> acAmount) (accounts s)"

definition poolTokens :: "state \<Rightarrow> nat" where
  "poolTokens s = tsum (unat \<circ> pAmount) (pools s)"

definition stakeTokens :: "state \<Rightarrow> nat" where
  "stakeTokens s = tsum (unat \<circ> vStakedAmount) (validators s)"

definition tokens :: "state \<Rightarrow> nat" where
  "tokens s = accTokens s + poolTokens s + stakeTokens s"

definition wf :: "state \<Rightarrow> bool" where
  "wf s \<longleftrightarrow> tok (accounts s) \<and> tok (pools s) \<and> tok (validators s)"

definition inflight :: "nat \<Rightarrow> state \<Rightarrow> bool" where
  "inflight d s \<longleftrightarrow> wf s \<and> tokens s + d = unat (sTotal (supplyTracker s))"

abbreviation conserved :: "state \<Rightarrow> bool" where
  "conserved \<equiv> inflight 0"

lemmas token_defs = tokens_def accTokens_def poolTokens_def stakeTokens_def

lemma inflight_bound: "inflight d s \<Longrightarrow> tokens s + d < 2 ^ 64"
  unfolding inflight_def by (metis u64_bound)

subsection \<open>Account moves\<close>

lemma clear_simps [simp]:
  "acAmount (clearAccountVestingIfFullyVested h a) = acAmount a"
  "acAddress (clearAccountVestingIfFullyVested h a) = acAddress a"
  by (simp_all add: clearAccountVestingIfFullyVested_def)

definition putAccount :: "u64 \<Rightarrow> account \<Rightarrow> (address, account) table \<Rightarrow> (address, account) table" where
  "putAccount h acc t = (if acAmount acc = 0 then tdel (acAddress acc) t
     else tset (acAddress acc) (clearAccountVestingIfFullyVested h acc) t)"

lemma SetAccount_run: "SetAccount acc s = (Inr (), s\<lparr>accounts := putAccount (height s) acc (accounts s)\<rparr>)"
  by (simp add: SetAccount_def putAccount_def go_simps Let_def)

lemma tok_putAccount [simp]: "tok t \<Longrightarrow> tok (putAccount h acc t)"
  by (simp add: putAccount_def table_simps)

lemma accountAt_address [simp]: "acAddress (accountAt s a) = a"
  by (simp add: accountAt_def emptyAccount_def split: option.splits)

lemma tget_putAccount:
  "tget (putAccount h acc t) b =
     (if b = acAddress acc
      then (if acAmount acc = 0 then None else Some (clearAccountVestingIfFullyVested h acc))
      else tget t b)"
  by (simp add: putAccount_def table_simps)

lemma amount_putAccount:
  "acAmount (accountAt (s\<lparr>accounts := putAccount h acc (accounts s)\<rparr>) b) =
     (if b = acAddress acc then acAmount acc else acAmount (accountAt s b))"
  by (simp add: accountAt_def tget_putAccount emptyAccount_def)

lemma accountAt_amount: "unat (acAmount (accountAt s a)) =
    (case tget (accounts s) a of None \<Rightarrow> 0 | Some acc \<Rightarrow> unat (acAmount acc))"
  by (simp add: accountAt_def emptyAccount_def split: option.splits)

lemma accTokens_put:
  assumes "tok (accounts s)"
  shows "tsum (unat \<circ> acAmount) (putAccount h acc (accounts s))
           + unat (acAmount (accountAt s (acAddress acc))) = accTokens s + unat (acAmount acc)"
  using tsum_tset [OF assms, of "unat \<circ> acAmount" "acAddress acc" "clearAccountVestingIfFullyVested h acc"]
    tsum_tdel [OF assms, of "unat \<circ> acAmount" "acAddress acc"]
  by (simp add: putAccount_def accTokens_def accountAt_amount split: option.splits)

lemma account_le_tokens: "unat (acAmount (accountAt s a)) \<le> tokens s"
  using tsum_ge [of "accounts s" a _ "unat \<circ> acAmount"]
  by (force simp: accountAt_amount token_defs split: option.splits)

lemma AccountAdd_run:
  "AccountAdd a x s =
     (if x = 0 then (Inr (), s)
      else if 2 ^ 64 \<le> unat (acAmount (accountAt s a)) + unat x then (Inl ErrInvalidAmount, s)
      else (Inr (), s\<lparr>accounts := putAccount (height s)
              ((accountAt s a)\<lparr>acAmount := acAmount (accountAt s a) + x\<rparr>) (accounts s)\<rparr>))"
  by (simp add: AccountAdd_def GetAccount_def go_simps SetAccount_run add_guard_iff)

lemma AccountSub_run:
  "AccountSub a x s =
     (if x = 0 then (Inr (), s)
      else if AccountSpendableAmount (height s) (accountAt s a) < x then (Inl ErrInsufficientFunds, s)
      else (Inr (), s\<lparr>accounts := putAccount (height s)
              ((accountAt s a)\<lparr>acAmount := acAmount (accountAt s a) - x\<rparr>) (accounts s)\<rparr>))"
  by (simp add: AccountSub_def GetAccount_def go_simps SetAccount_run)

lemma spendable_le: "unat (AccountSpendableAmount h acc) \<le> unat (acAmount acc)"
  by (auto simp: AccountSpendableAmount_def Let_def unat_sub_guarded linorder_not_le
      intro: word_sub_le word_le_nat_alt [THEN iffD1])

lemma AccountAdd_inflight: "hoare (inflight (d + unat x)) (AccountAdd a x) (\<lambda>_. inflight d)"
proof (rule hoareI)
  fix s r t
  assume pre: "inflight (d + unat x) s" and run: "AccountAdd a x s = (Inr r, t)"
  show "inflight d t"
  proof (cases "x = 0")
    case True
    with pre run show ?thesis by (simp add: AccountAdd_run)
  next
    case False
    let ?acc = "(accountAt s a)\<lparr>acAmount := acAmount (accountAt s a) + x\<rparr>"
    from False run have small: "unat (acAmount (accountAt s a)) + unat x < 2 ^ 64"
      and t: "t = s\<lparr>accounts := putAccount (height s) ?acc (accounts s)\<rparr>"
      by (auto simp: AccountAdd_run split: if_splits)
    have "tok (accounts s)" using pre by (simp add: inflight_def wf_def)
    from accTokens_put [OF this, of "height s" ?acc]
    have "tokens t = tokens s + unat x"
      by (simp add: t token_defs unat_add_exact [OF small])
    with pre show ?thesis by (simp add: inflight_def wf_def t)
  qed
qed

lemma AccountSub_inflight: "hoare (inflight d) (AccountSub a x) (\<lambda>_. inflight (d + unat x))"
proof (rule hoareI)
  fix s r t
  assume pre: "inflight d s" and run: "AccountSub a x s = (Inr r, t)"
  show "inflight (d + unat x) t"
  proof (cases "x = 0")
    case True
    with pre run show ?thesis by (simp add: AccountSub_run)
  next
    case False
    let ?acc = "(accountAt s a)\<lparr>acAmount := acAmount (accountAt s a) - x\<rparr>"
    from False run have le: "x \<le> AccountSpendableAmount (height s) (accountAt s a)"
      and t: "t = s\<lparr>accounts := putAccount (height s) ?acc (accounts s)\<rparr>"
      by (auto simp: AccountSub_run split: if_splits)
    have le': "unat x \<le> unat (acAmount (accountAt s a))"
      using le spendable_le [of "height s" "accountAt s a"] by (simp add: unat_le_iff)
    then have sub: "unat (acAmount (accountAt s a) - x) = unat (acAmount (accountAt s a)) - unat x"
      by (simp add: unat_sub unat_le_iff)
    have "tok (accounts s)" using pre by (simp add: inflight_def wf_def)
    from accTokens_put [OF this, of "height s" ?acc] sub le'
    have "tokens t + unat x = tokens s"
      by (simp add: t token_defs)
    with pre show ?thesis by (simp add: inflight_def wf_def t)
  qed
qed

subsection \<open>Pool moves\<close>

definition putPool :: "pool \<Rightarrow> (u64, pool) table \<Rightarrow> (u64, pool) table" where
  "putPool p t = (if pAmount p = 0 then tdel (pId p) t else tset (pId p) p t)"

lemma SetPool_run: "SetPool p s = (Inr (), s\<lparr>pools := putPool p (pools s)\<rparr>)"
  by (simp add: SetPool_def putPool_def go_simps)

lemma tok_putPool [simp]: "tok t \<Longrightarrow> tok (putPool p t)"
  by (simp add: putPool_def table_simps)

lemma tget_putPool:
  "tget (putPool p t) j = (if j = pId p then (if pAmount p = 0 then None else Some p) else tget t j)"
  by (simp add: putPool_def table_simps)

lemma poolAt_id [simp]: "pId (poolAt s i) = i"
  by (simp add: poolAt_def split: option.splits)

lemma amount_putPool:
  "pAmount (poolAt (s\<lparr>pools := putPool p (pools s)\<rparr>) j) =
     (if j = pId p then pAmount p else pAmount (poolAt s j))"
  by (simp add: poolAt_def tget_putPool)

lemma poolAt_amount: "unat (pAmount (poolAt s i)) =
    (case tget (pools s) i of None \<Rightarrow> 0 | Some p \<Rightarrow> unat (pAmount p))"
  by (simp add: poolAt_def split: option.splits)

lemma poolTokens_put:
  assumes "tok (pools s)"
  shows "tsum (unat \<circ> pAmount) (putPool p (pools s)) + unat (pAmount (poolAt s (pId p)))
           = poolTokens s + unat (pAmount p)"
  using tsum_tset [OF assms, of "unat \<circ> pAmount" "pId p" p]
    tsum_tdel [OF assms, of "unat \<circ> pAmount" "pId p"]
  by (simp add: putPool_def poolTokens_def poolAt_amount split: option.splits)

lemma pool_le_tokens: "unat (pAmount (poolAt s i)) \<le> tokens s"
  using tsum_ge [of "pools s" i _ "unat \<circ> pAmount"]
  by (force simp: poolAt_amount token_defs split: option.splits)

lemma PoolAdd_run:
  "PoolAdd i x s =
     (Inr (), s\<lparr>pools := putPool ((poolAt s i)\<lparr>pAmount := pAmount (poolAt s i) + x\<rparr>) (pools s)\<rparr>)"
  by (simp add: PoolAdd_def GetPool_def go_simps SetPool_run)

lemma PoolSub_run:
  "PoolSub i x s =
     (if pAmount (poolAt s i) < x then (Inl ErrInsufficientFunds, s)
      else (Inr (), s\<lparr>pools := putPool ((poolAt s i)\<lparr>pAmount := pAmount (poolAt s i) - x\<rparr>) (pools s)\<rparr>))"
  by (simp add: PoolSub_def GetPool_def go_simps SetPool_run)

text \<open>
  \<open>PoolAdd\<close> has no overflow guard. It needs none: the tokens it credits are in flight, so
  the credited pool stays below the tracked total supply.
\<close>

lemma PoolAdd_exact:
  assumes "inflight (d + unat x) s"
  shows "unat (pAmount (poolAt s i) + x) = unat (pAmount (poolAt s i)) + unat x"
  using inflight_bound [OF assms] pool_le_tokens [of s i] by (intro unat_add_exact) simp

lemma PoolAdd_inflight: "hoare (inflight (d + unat x)) (PoolAdd i x) (\<lambda>_. inflight d)"
proof (rule hoareI)
  fix s r t
  assume pre: "inflight (d + unat x) s" and run: "PoolAdd i x s = (Inr r, t)"
  let ?p = "(poolAt s i)\<lparr>pAmount := pAmount (poolAt s i) + x\<rparr>"
  have t: "t = s\<lparr>pools := putPool ?p (pools s)\<rparr>" using run by (simp add: PoolAdd_run)
  have "tok (pools s)" using pre by (simp add: inflight_def wf_def)
  from poolTokens_put [OF this, of ?p] have "tokens t = tokens s + unat x"
    by (simp add: t token_defs PoolAdd_exact [OF pre])
  with pre show "inflight d t" by (simp add: inflight_def wf_def t)
qed

lemma PoolSub_inflight: "hoare (inflight d) (PoolSub i x) (\<lambda>_. inflight (d + unat x))"
proof (rule hoareI)
  fix s r t
  assume pre: "inflight d s" and run: "PoolSub i x s = (Inr r, t)"
  let ?p = "(poolAt s i)\<lparr>pAmount := pAmount (poolAt s i) - x\<rparr>"
  have le: "\<not> pAmount (poolAt s i) < x" and t: "t = s\<lparr>pools := putPool ?p (pools s)\<rparr>"
    using run by (auto simp: PoolSub_run split: if_splits)
  have "tok (pools s)" using pre by (simp add: inflight_def wf_def)
  from poolTokens_put [OF this, of ?p] le have "tokens t + unat x = tokens s"
    by (simp add: t token_defs unat_sub_guarded unat_less_iff)
  with pre show "inflight (d + unat x) t" by (simp add: inflight_def wf_def t)
qed

subsection \<open>Supply moves\<close>

lemmas supply_run_defs =
  AddToTotalSupply_def SubFromTotalSupply_def AddToStakedSupply_def SubFromStakedSupply_def
  AddToDelegateSupply_def SubFromDelegateSupply_def GetSupply_def SetSupply_def go_simps

text \<open>\<open>AddToTotalSupply\<close> is unguarded: the mint must not carry the total past \<open>2 ^ 64\<close>.\<close>

lemma AddToTotalSupply_inflight:
  "hoare (\<lambda>s. inflight d s \<and> unat (sTotal (supplyTracker s)) + unat x < 2 ^ 64)
     (AddToTotalSupply x) (\<lambda>_. inflight (d + unat x))"
  by (auto simp: hoare_def supply_run_defs inflight_def wf_def token_defs unat_add_exact)

lemma SubFromTotalSupply_inflight:
  "hoare (inflight (d + unat x)) (SubFromTotalSupply x) (\<lambda>_. inflight d)"
  by (auto simp: hoare_def supply_run_defs inflight_def wf_def token_defs unat_sub_guarded
      split: if_splits)

text \<open>An operation that leaves balances, stakes and the total supply alone.\<close>

definition token_neutral :: "'a fsm \<Rightarrow> bool" where
  "token_neutral m \<longleftrightarrow> (\<forall>s. accounts (snd (m s)) = accounts s \<and> pools (snd (m s)) = pools s \<and>
     validators (snd (m s)) = validators s \<and>
     sTotal (supplyTracker (snd (m s))) = sTotal (supplyTracker s))"

lemma neutral_inflight: "token_neutral m \<Longrightarrow> hoare (inflight d) m (\<lambda>_. inflight d)"
proof (rule hoareI)
  fix s r t
  assume "token_neutral m" and "inflight d s" and "m s = (Inr r, t)"
  then show "inflight d t"
    by (auto simp: token_neutral_def inflight_def wf_def token_defs dest: spec [of _ s])
qed

lemma neutral_bnd: "token_neutral m \<Longrightarrow> (\<And>x. token_neutral (f x)) \<Longrightarrow> token_neutral (bnd m f)"
  by (simp add: token_neutral_def go_simps split: sum.splits)

lemma neutral_simple:
  "token_neutral (ret x)" "token_neutral (err e)" "token_neutral (gets f)" "token_neutral (fail_if c e)"
  by (simp_all add: token_neutral_def go_simps)

lemma neutral_for_each: "(\<And>x. token_neutral (f x)) \<Longrightarrow> token_neutral (for_each xs f)"
  by (induction xs) (simp_all add: neutral_simple neutral_bnd)

lemma neutral_seqm: "list_all token_neutral ms \<Longrightarrow> token_neutral (seqm ms)"
  by (induction ms) (simp_all add: neutral_simple neutral_bnd)

lemma neutral_if: "token_neutral m \<Longrightarrow> token_neutral n \<Longrightarrow> token_neutral (if c then m else n)"
  by simp

lemma neutral_modify:
  "(\<And>s. accounts (f s) = accounts s \<and> pools (f s) = pools s \<and> validators (f s) = validators s \<and>
     supplyTracker (f s) = supplyTracker s) \<Longrightarrow> token_neutral (modify f)"
  by (simp add: token_neutral_def go_simps)

lemma neutral_option:
  "token_neutral m \<Longrightarrow> (\<And>y. token_neutral (f y)) \<Longrightarrow>
   token_neutral (case x of None \<Rightarrow> m | Some y \<Rightarrow> f y)"
  by (cases x) auto

lemma neutral_when: "token_neutral m \<Longrightarrow> token_neutral (when_m c m)"
  by (simp add: when_m_def neutral_simple)

lemma neutral_addEvent: "token_neutral (addEvent m a c)"
  by (simp add: addEvent_def neutral_modify)

lemma neutral_events:
  "token_neutral (EventReward a x c)" "token_neutral (EventSlash a x)"
  "token_neutral (EventAutoPause a)" "token_neutral (EventAutoBeginUnstaking a)"
  "token_neutral (EventFinishUnstaking a)" "token_neutral (EventOrderBookSwap o1)"
  "token_neutral (EventOrderBookLock o1)" "token_neutral (EventOrderBookReset o1)"
  "token_neutral (EventDexSwap a i x y c l b)"
  "token_neutral (EventDexLiquidityDeposit a i x y c l)"
  "token_neutral (EventDexLiquidityWithdraw a i x y z c)"
  by (simp_all add: event_defs neutral_addEvent)

lemma neutral_supply:
  "token_neutral (AddToStakedSupply x)" "token_neutral (SubFromStakedSupply x)"
  "token_neutral (AddToDelegateSupply x)" "token_neutral (SubFromDelegateSupply x)"
  by (simp_all add: token_neutral_def supply_run_defs)

lemma neutral_executeOnSupplyPool: "token_neutral (executeOnSupplyPool c ty f)"
  by (simp add: token_neutral_def executeOnSupplyPool_def getSupplyPools_def supply_run_defs
      setSupplyPools_def split: prod.splits sum.splits SupplyPoolType.splits)

lemma neutral_supplyPool:
  "token_neutral (AddToCommitteeSupplyForChain c x)"
  "token_neutral (AddToDelegateSupplyForChain c x)"
  "token_neutral (SubFromCommitteeStakedSupplyForChain c x)"
  "token_neutral (SubFromDelegateStakedSupplyForChain c x)"
  by (simp_all add: AddToCommitteeSupplyForChain_def AddToDelegateSupplyForChain_def
      SubFromCommitteeStakedSupplyForChain_def SubFromDelegateStakedSupplyForChain_def
      addToSupplyPool_def subFromSupplyPool_def neutral_executeOnSupplyPool)

lemmas neutral_rules = neutral_simple neutral_bnd neutral_for_each neutral_seqm neutral_if
  neutral_option neutral_when neutral_events neutral_supply neutral_supplyPool

subsection \<open>Moving tokens between holders\<close>

text \<open>
  The contract every holder of tokens offers: a debit puts tokens in flight, a credit takes
  them out. Whoever satisfies it can be moved between without creating or losing tokens.
\<close>

locale token_move =
  fixes debit :: "u64 \<Rightarrow> unit fsm" and credit :: "u64 \<Rightarrow> unit fsm"
  assumes debit_inflight: "hoare (inflight d) (debit x) (\<lambda>_. inflight (d + unat x))"
    and credit_inflight: "hoare (inflight (d + unat x)) (credit x) (\<lambda>_. inflight d)"
begin

lemma transfer: "hoare (inflight d) (seqm [debit x, credit x]) (\<lambda>_. inflight d)"
  by (intro hoare_rules, rule debit_inflight, rule credit_inflight, simp)

lemma transfer_then:
  assumes "token_neutral m"
  shows "hoare (inflight d) (seqm [debit x, credit x, m]) (\<lambda>_. inflight d)"
  by (intro hoare_rules, rule debit_inflight, rule credit_inflight,
      rule neutral_inflight [OF assms], simp)

end

interpretation acc_acc: token_move "AccountSub a" "AccountAdd b" for a b
  by unfold_locales (rule AccountSub_inflight, rule AccountAdd_inflight)

interpretation acc_pool: token_move "AccountSub a" "PoolAdd i" for a i
  by unfold_locales (rule AccountSub_inflight, rule PoolAdd_inflight)

interpretation pool_acc: token_move "PoolSub i" "AccountAdd a" for i a
  by unfold_locales (rule PoolSub_inflight, rule AccountAdd_inflight)

interpretation pool_pool: token_move "PoolSub i" "PoolAdd j" for i j
  by unfold_locales (rule PoolSub_inflight, rule PoolAdd_inflight)

lemma AccountDeductFees_inflight: "hoare (inflight d) (AccountDeductFees a fee) (\<lambda>_. inflight d)"
  unfolding AccountDeductFees_def
  by (rule hoare_bnd [OF hoare_gets acc_pool.transfer])

lemma MintToPool_inflight:
  "hoare (\<lambda>s. inflight d s \<and> unat (sTotal (supplyTracker s)) + unat x < 2 ^ 64)
     (MintToPool i x) (\<lambda>_. inflight d)"
  unfolding MintToPool_def
  by (intro hoare_rules, rule AddToTotalSupply_inflight, rule PoolAdd_inflight, simp)

lemma MintToAccount_inflight:
  "hoare (\<lambda>s. inflight d s \<and> unat (sTotal (supplyTracker s)) + unat x < 2 ^ 64)
     (MintToAccount a x) (\<lambda>_. inflight d)"
  unfolding MintToAccount_def
  by (intro hoare_rules, simp, rule AddToTotalSupply_inflight, rule AccountAdd_inflight, simp)

section \<open>Vesting\<close>

text \<open>The product in \<open>AccountVestedAmount\<close> stays below \<open>2 ^ 64\<close> over the whole schedule.\<close>

definition vesting_safe :: "account \<Rightarrow> bool" where
  "vesting_safe acc \<longleftrightarrow>
     unat (acVestingAmount acc) *
       (unat (acVestingEndHeight acc) - unat (acVestingStartHeight acc)) < 2 ^ 64"

lemma vested_before:
  "h < acVestingStartHeight acc \<or> h < acVestingCliffHeight acc \<Longrightarrow> AccountVestedAmount h acc = 0"
  by (auto simp: AccountVestedAmount_def)

lemma vested_during:
  assumes safe: "vesting_safe acc"
    and h: "acVestingStartHeight acc \<le> h" "acVestingCliffHeight acc \<le> h" "h < acVestingEndHeight acc"
  shows "unat (AccountVestedAmount h acc) =
    unat (acVestingAmount acc) * (unat h - unat (acVestingStartHeight acc)) div
      (unat (acVestingEndHeight acc) - unat (acVestingStartHeight acc))"
proof -
  let ?V = "acVestingAmount acc" and ?b = "acVestingStartHeight acc" and ?e = "acVestingEndHeight acc"
  have el: "unat (h - ?b) = unat h - unat ?b" and du: "unat (?e - ?b) = unat ?e - unat ?b"
    using h by (simp_all add: unat_sub)
  have "unat ?V * (unat h - unat ?b) \<le> unat ?V * (unat ?e - unat ?b)"
    using h by (intro mult_le_mono2 diff_le_mono) (simp add: unat_less_iff)
  also have "\<dots> < 2 ^ 64"
    using safe by (simp add: vesting_safe_def)
  finally have "unat ?V * unat (h - ?b) < 2 ^ 64"
    by (simp add: el)
  then have "unat (?V * (h - ?b)) = unat ?V * unat (h - ?b)"
    by (simp add: unat_word_ariths)
  then show ?thesis
    using h by (auto simp: AccountVestedAmount_def Let_def unat_div el du)
qed

lemma vested_after:
  "\<not> h < acVestingStartHeight acc \<Longrightarrow> \<not> h < acVestingCliffHeight acc \<Longrightarrow>
   acVestingEndHeight acc \<le> h \<Longrightarrow> AccountVestedAmount h acc = acVestingAmount acc"
  by (simp add: AccountVestedAmount_def)

lemma vested_le:
  assumes "vesting_safe acc"
  shows "AccountVestedAmount h acc \<le> acVestingAmount acc"
proof (cases "acVestingStartHeight acc \<le> h \<and> acVestingCliffHeight acc \<le> h \<and> h < acVestingEndHeight acc")
  case True
  let ?b = "unat (acVestingStartHeight acc)" and ?e = "unat (acVestingEndHeight acc)"
  have "?b \<le> unat h" "unat h < ?e"
    using True by (simp_all add: unat_le_iff unat_less_iff)
  then have "unat (acVestingAmount acc) * (unat h - ?b) div (?e - ?b)
      \<le> unat (acVestingAmount acc) * (?e - ?b) div (?e - ?b)"
    by (intro div_le_mono mult_le_mono2) simp
  with \<open>?b \<le> unat h\<close> \<open>unat h < ?e\<close> show ?thesis
    using vested_during [OF assms] True by (simp add: unat_le_iff)
next
  case False
  then show ?thesis by (auto simp: AccountVestedAmount_def not_le)
qed

lemma vested_mono:
  assumes safe: "vesting_safe acc" and le: "h \<le> h'"
  shows "AccountVestedAmount h acc \<le> AccountVestedAmount h' acc"
proof (cases "h < acVestingStartHeight acc \<or> h < acVestingCliffHeight acc")
  case True
  then show ?thesis by (auto simp: vested_before)
next
  case False
  then have started: "\<not> h' < acVestingStartHeight acc" "\<not> h' < acVestingCliffHeight acc"
    using le by auto
  show ?thesis
  proof (cases "h' < acVestingEndHeight acc")
    case True
    then have "h < acVestingEndHeight acc" using le by simp
    with True False started le show ?thesis
      by (simp add: unat_le_iff vested_during [OF safe] not_less div_le_mono diff_le_mono)
  next
    case False
    then have "AccountVestedAmount h' acc = acVestingAmount acc"
      using started by (simp add: vested_after)
    then show ?thesis using vested_le [OF safe] by simp
  qed
qed

lemma spendable_mono:
  assumes "vesting_safe acc" and "h \<le> h'"
  shows "AccountSpendableAmount h acc \<le> AccountSpendableAmount h' acc"
proof -
  have "unat (AccountVestedAmount h acc) \<le> unat (AccountVestedAmount h' acc)"
    "unat (AccountVestedAmount h' acc) \<le> unat (acVestingAmount acc)"
    using vested_mono [OF assms] vested_le [OF assms(1)] by (simp_all add: unat_le_iff)
  then have "unat (AccountLockedAmount h' acc) \<le> unat (AccountLockedAmount h acc)"
    by (auto simp: AccountLockedAmount_def Let_def unat_sub unat_le_iff not_le)
  then show ?thesis
    by (auto simp: AccountSpendableAmount_def Let_def unat_sub unat_le_iff not_le)
qed

lemma spendable_locked:
  "\<not> AccountSpendableAmount h acc < x \<Longrightarrow> x \<noteq> 0 \<Longrightarrow>
   unat (AccountLockedAmount h acc) + unat x \<le> unat (acAmount acc)"
  by (auto simp: AccountSpendableAmount_def Let_def unat_sub unat_le_iff unat_less_iff not_le
      split: if_splits)

section \<open>Supply pools as a map from committee to stake\<close>

definition spAmount :: "pool list \<Rightarrow> u64 \<Rightarrow> nat" where
  "spAmount l i = sum_list (map (unat \<circ> pAmount) (filter (\<lambda>p. pId p = i) l))"

definition supplyPools :: "SupplyPoolType \<Rightarrow> Supply \<Rightarrow> pool list" where
  "supplyPools ty sp = (case ty of CommitteesWithDelegations \<Rightarrow> sCommitteeStaked sp
     | DelegationsOnly \<Rightarrow> sCommitteeDelegatedOnly sp)"

text \<open>What the supply pools promise: a stake per committee.\<close>

definition committeeStake :: "SupplyPoolType \<Rightarrow> state \<Rightarrow> u64 \<Rightarrow> nat" where
  "committeeStake ty s = spAmount (supplyPools ty (supplyTracker s))"

lemma spAmount_mset: "mset l = mset l' \<Longrightarrow> spAmount l i = spAmount l' i"
proof -
  assume "mset l = mset l'"
  then have "mset (map (unat \<circ> pAmount) (filter (\<lambda>p. pId p = i) l))
      = mset (map (unat \<circ> pAmount) (filter (\<lambda>p. pId p = i) l'))"
    by simp
  then show ?thesis
    unfolding spAmount_def sum_mset_sum_list [symmetric] by (rule arg_cong)
qed

lemma spAmount_filter: "spAmount (filter (\<lambda>p. pAmount p \<noteq> 0) l) i = spAmount l i"
  by (induction l) (auto simp: spAmount_def)

lemma spAmount_FilterAndSortPool [simp]: "spAmount (FilterAndSortPool l) i = spAmount l i"
proof -
  have "spAmount (FilterAndSortPool l) i = spAmount (filter (\<lambda>p. pAmount p \<noteq> 0) l) i"
    by (rule spAmount_mset) (simp add: FilterAndSortPool_def)
  then show ?thesis by (simp add: spAmount_filter)
qed

lemma spAmount_update:
  "k < length l \<Longrightarrow> spAmount (l[k := p]) i + (if pId (l ! k) = i then unat (pAmount (l ! k)) else 0)
     = spAmount l i + (if pId p = i then unat (pAmount p) else 0)"
proof (induction l arbitrary: k)
  case Nil
  then show ?case by simp
next
  case (Cons q l)
  show ?case
  proof (cases k)
    case 0
    then show ?thesis by (simp add: spAmount_def)
  next
    case (Suc m)
    with Cons.prems have "m < length l" by simp
    from Cons.IH [OF this] show ?thesis by (simp add: Suc spAmount_def split: if_splits)
  qed
qed

lemma findOrCreate_spec:
  "findOrCreateSupplyPool l c = (arr, k) \<Longrightarrow>
     k < length arr \<and> pId (arr ! k) = c \<and> (\<forall>i. spAmount arr i = spAmount l i) \<and>
     (distinct (map pId l) \<longrightarrow> distinct (map pId arr)) \<and>
     set (map pId arr) = insert c (set (map pId l))"
proof (induction l arbitrary: arr k)
  case Nil
  then show ?case by (auto simp: spAmount_def)
next
  case (Cons p l)
  show ?case
  proof (cases "pId p = c")
    case True
    with Cons.prems show ?thesis by auto
  next
    case False
    obtain arr' k' where rec: "findOrCreateSupplyPool l c = (arr', k')"
      by (cases "findOrCreateSupplyPool l c")
    with Cons.prems False have "arr = p # arr'" "k = Suc k'" by auto
    with Cons.IH [OF rec] False show ?thesis by (auto simp: spAmount_def)
  qed
qed

lemma executeOnSupplyPool_run:
  assumes "findOrCreateSupplyPool (supplyPools ty (supplyTracker s)) c = (arr, k)"
  shows "executeOnSupplyPool c ty f s =
    (case f (arr ! k) of Inl e \<Rightarrow> (Inl e, s)
     | Inr p \<Rightarrow> (Inr (), s\<lparr>supplyTracker :=
         setSupplyPools ty (FilterAndSortPool (arr[k := p])) (supplyTracker s)\<rparr>))"
  using assms by (cases ty)
    (simp_all add: executeOnSupplyPool_def getSupplyPools_def GetSupply_def SetSupply_def go_simps
      supplyPools_def split: sum.splits)

lemma supplyPools_set [simp]:
  "supplyPools ty (setSupplyPools ty l sp) = l"
  "ty \<noteq> ty' \<Longrightarrow> supplyPools ty' (setSupplyPools ty l sp) = supplyPools ty' sp"
  by (cases ty; cases ty'; simp add: supplyPools_def setSupplyPools_def)+

text \<open>A successful update of the first pool with id \<open>c\<close> from amount \<open>a\<close> to amount \<open>b\<close>.\<close>

lemma executeOnSupplyPool_amount:
  assumes run: "executeOnSupplyPool c ty f s = (Inr r, t)"
    and f: "\<And>p q. f p = Inr q \<Longrightarrow> pId q = pId p"
  obtains p q where "f p = Inr q" "pId p = c"
    "\<And>i. committeeStake ty t i + (if i = c then unat (pAmount p) else 0)
        = committeeStake ty s i + (if i = c then unat (pAmount q) else 0)"
    "\<And>ty'. ty' \<noteq> ty \<Longrightarrow> committeeStake ty' t = committeeStake ty' s"
    "unat (pAmount p) \<le> committeeStake ty s c"
proof -
  obtain arr k where fc: "findOrCreateSupplyPool (supplyPools ty (supplyTracker s)) c = (arr, k)"
    by (cases "findOrCreateSupplyPool (supplyPools ty (supplyTracker s)) c")
  note spec = findOrCreate_spec [OF fc]
  obtain q where q: "f (arr ! k) = Inr q"
    and t: "t = s\<lparr>supplyTracker :=
         setSupplyPools ty (FilterAndSortPool (arr[k := q])) (supplyTracker s)\<rparr>"
    using run by (auto simp: executeOnSupplyPool_run [OF fc] split: sum.splits)
  have idq: "pId q = c" using f [OF q] spec by simp
  have upd: "committeeStake ty t i + (if i = c then unat (pAmount (arr ! k)) else 0)
      = committeeStake ty s i + (if i = c then unat (pAmount q) else 0)" for i
    using spAmount_update [of k arr q i] spec idq by (auto simp: committeeStake_def t)
  have "arr ! k \<in> set (filter (\<lambda>p. pId p = c) arr)" using spec by simp
  then have "unat (pAmount (arr ! k)) \<le> spAmount arr c"
    unfolding spAmount_def by (intro member_le_sum_list) (simp_all del: set_filter add: image_iff, blast)
  with spec have le: "unat (pAmount (arr ! k)) \<le> committeeStake ty s c"
    by (simp add: committeeStake_def)
  have other: "ty' \<noteq> ty \<Longrightarrow> committeeStake ty' t = committeeStake ty' s" for ty'
    by (simp add: committeeStake_def t)
  from that [OF q _ upd other le] spec show ?thesis by simp
qed

section \<open>Liquidity points\<close>

text \<open>
  The bookkeeping of a liquidity pool: every provider is listed once and with points, and
  the total is the sum of the points.
\<close>

definition points_sum :: "poolPoints list \<Rightarrow> nat" where
  "points_sum l = sum_list (map (unat \<circ> ppPoints) l)"

definition points_ok :: "pool \<Rightarrow> bool" where
  "points_ok p \<longleftrightarrow> distinct (map ppAddress (pPoints p)) \<and> (\<forall>lp \<in> set (pPoints p). ppPoints lp \<noteq> 0)
     \<and> points_sum (pPoints p) = unat (pTotalPoolPoints p)"

lemma lpIndex_Some: "lpIndex l a = Some i \<Longrightarrow> i < length l \<and> ppAddress (l ! i) = a"
  by (induction l arbitrary: i) (auto split: if_splits)

lemma lpIndex_None: "lpIndex l a = None \<longleftrightarrow> a \<notin> ppAddress ` set l"
  by (induction l) auto

lemma lpIndex_append_new: "lpIndex l a = None \<Longrightarrow> lpIndex (l @ [lp]) a =
    (if ppAddress lp = a then Some (length l) else None)"
  by (induction l) (auto split: if_splits)

lemma lpIndex_update:
  "lpIndex l a = Some i \<Longrightarrow> lpIndex (l[i := (l ! i)\<lparr>ppPoints := x\<rparr>]) a = Some i"
  by (induction l arbitrary: i) (auto split: if_splits)

lemma points_sum_update:
  "i < length l \<Longrightarrow> points_sum (l[i := (l ! i)\<lparr>ppPoints := x\<rparr>]) + unat (ppPoints (l ! i))
     = points_sum l + unat x"
proof (induction l arbitrary: i)
  case Nil
  then show ?case by simp
next
  case (Cons lp l)
  then show ?case by (cases i) (auto simp: points_sum_def)
qed

lemma points_sum_remove:
  assumes "i < length l"
  shows "points_sum (take i l @ drop (Suc i) l) + unat (ppPoints (l ! i)) = points_sum l"
proof -
  have "points_sum l = points_sum (take i l @ l ! i # drop (Suc i) l)"
    by (subst id_take_nth_drop [OF assms]) (rule refl)
  then show ?thesis by (simp add: points_sum_def)
qed

lemma addresses_remove:
  assumes "i < length l" and "distinct (map ppAddress l)"
  shows "distinct (map ppAddress (take i l @ drop (Suc i) l))"
proof -
  have "distinct (map ppAddress (take i l @ l ! i # drop (Suc i) l))"
    using assms by (subst id_take_nth_drop [OF assms(1), symmetric])
  then show ?thesis by simp
qed

lemma points_sum_ge: "i < length l \<Longrightarrow> unat (ppPoints (l ! i)) \<le> points_sum l"
  using points_sum_remove [of i l] by linarith

lemma addresses_update: "map ppAddress (l[i := (l ! i)\<lparr>ppPoints := x\<rparr>]) = map ppAddress l"
  by (induction l arbitrary: i) (auto split: nat.splits)

lemma AddPoints_ok:
  assumes "points_ok p" and run: "AddPoints a x p = (Inr r, q)"
  shows "points_ok q"
proof (cases "x = 0")
  case True
  with assms show ?thesis by (simp add: AddPoints_def go_simps)
next
  case False
  show ?thesis
  proof (cases "lpIndex (pPoints p) a")
    case None
    with False run have g: "\<not> MaxUint64 - x < pTotalPoolPoints p"
      and q: "q = p\<lparr>pTotalPoolPoints := pTotalPoolPoints p + x,
                    pPoints := pPoints p @ [\<lparr>ppAddress = a, ppPoints = x\<rparr>]\<rparr>"
      by (auto simp: AddPoints_def go_simps split: if_splits)
    show ?thesis using assms(1) None False
      by (auto simp: points_ok_def q points_sum_def unat_add_guarded [OF g] lpIndex_None)
  next
    case (Some i)
    let ?lp = "pPoints p ! i"
    from Some False run have g: "\<not> MaxUint64 - x < pTotalPoolPoints p" "\<not> MaxUint64 - x < ppPoints ?lp"
      and q: "q = p\<lparr>pTotalPoolPoints := pTotalPoolPoints p + x,
                    pPoints := (pPoints p)[i := ?lp\<lparr>ppPoints := ppPoints ?lp + x\<rparr>]\<rparr>"
      by (auto simp: AddPoints_def go_simps Let_def split: if_splits)
    have i: "i < length (pPoints p)" using lpIndex_Some [OF Some] by simp
    have nz: "ppPoints ?lp + x \<noteq> 0"
      using unat_add_guarded [OF g(2)] False by (metis add_is_0 unat_u64_eq_0)
    have "points_sum (pPoints q) = points_sum (pPoints p) + unat x"
      using points_sum_update [OF i, of "ppPoints ?lp + x"] by (simp add: q unat_add_guarded [OF g(2)])
    moreover have "\<forall>lp \<in> set (pPoints q). ppPoints lp \<noteq> 0"
      using assms(1) nz set_update_subset_insert [of "pPoints p" i] by (fastforce simp: points_ok_def q)
    ultimately show ?thesis using assms(1) unat_add_guarded [OF g(1)]
      by (simp add: points_ok_def q addresses_update)
  qed
qed

text \<open>
  \<open>RemovePoints\<close> subtracts without a guard: its callers must not ask for more points than the
  provider has. It reports an emptied pool as an error, after the change.
\<close>

lemma RemovePoints_run:
  assumes "lpIndex (pPoints p) a = Some i"
  shows "RemovePoints a x p =
    (let left = ppPoints (pPoints p ! i) - x;
         q = p\<lparr>pTotalPoolPoints := pTotalPoolPoints p - x,
               pPoints := (if left = 0 then take i (pPoints p) @ drop (Suc i) (pPoints p)
                 else (pPoints p)[i := (pPoints p ! i)\<lparr>ppPoints := left\<rparr>])\<rparr>
     in (if pTotalPoolPoints p - x = 0 then Inl ErrZeroLiquidityPool else Inr (), q))"
  using assms by (simp add: RemovePoints_def go_simps Let_def)

lemma RemovePoints_ok:
  assumes ok: "points_ok p" and pts: "GetPointsFor p a = Inr y" and le: "x \<le> y"
  shows "points_ok (snd (RemovePoints a x p))"
proof -
  obtain i where i: "lpIndex (pPoints p) a = Some i" and y: "y = ppPoints (pPoints p ! i)"
    using pts by (auto simp: GetPointsFor_def split: option.splits)
  have il: "i < length (pPoints p)" using lpIndex_Some [OF i] by simp
  have "unat x \<le> unat (pTotalPoolPoints p)"
    using ok points_sum_ge [OF il] le by (simp add: points_ok_def unat_le_iff y)
  then have tot: "unat (pTotalPoolPoints p - x) = unat (pTotalPoolPoints p) - unat x"
    by (simp add: unat_sub unat_le_iff)
  have left: "unat (y - x) = unat y - unat x" using le by (simp add: unat_sub)
  have le': "unat x \<le> unat y" using le by (simp add: unat_le_iff)
  show ?thesis
  proof (cases "y - x = 0")
    case True
    with le have "x = y" by simp
    with ok points_sum_remove [OF il] addresses_remove [OF il] tot show ?thesis
      by (auto simp: RemovePoints_run [OF i] y [symmetric] Let_def points_ok_def
          dest: in_set_takeD in_set_dropD)
  next
    case False
    then show ?thesis
      using ok points_sum_update [OF il, of "y - x"] tot left le'
        set_update_subset_insert [of "pPoints p" i "(pPoints p ! i)\<lparr>ppPoints := y - x\<rparr>"]
      by (auto simp: RemovePoints_run [OF i] y [symmetric] Let_def points_ok_def addresses_update)
  qed
qed

section \<open>Properties\<close>

lemma addToSupplyPool_stake:
  assumes "addToSupplyPool c x ty s = (Inr r, t)"
  shows "committeeStake ty t i = committeeStake ty s i + (if i = c then unat x else 0)"
    and "ty' \<noteq> ty \<Longrightarrow> committeeStake ty' t = committeeStake ty' s"
proof -
  let ?f = "\<lambda>p. if pAmount p > MaxUint64 - x then Inl ErrInvalidAmount
                 else Inr (p\<lparr>pAmount := pAmount p + x\<rparr>) :: error + pool"
  obtain p q where f: "?f p = Inr q"
    and st: "\<And>i. committeeStake ty t i + (if i = c then unat (pAmount p) else 0)
        = committeeStake ty s i + (if i = c then unat (pAmount q) else 0)"
    and other: "\<And>ty'. ty' \<noteq> ty \<Longrightarrow> committeeStake ty' t = committeeStake ty' s"
    by (rule executeOnSupplyPool_amount [OF assms [unfolded addToSupplyPool_def]])
      (auto split: if_splits)
  from f have "unat (pAmount q) = unat (pAmount p) + unat x"
    by (auto simp: unat_add_guarded split: if_splits)
  with st [of i] show "committeeStake ty t i = committeeStake ty s i + (if i = c then unat x else 0)"
    by (simp split: if_splits)
  show "ty' \<noteq> ty \<Longrightarrow> committeeStake ty' t = committeeStake ty' s" by (rule other)
qed

lemma subFromSupplyPool_stake:
  assumes "subFromSupplyPool c x ty s = (Inr r, t)"
  shows "committeeStake ty t i + (if i = c then unat x else 0) = committeeStake ty s i"
    and "ty' \<noteq> ty \<Longrightarrow> committeeStake ty' t = committeeStake ty' s"
proof -
  let ?f = "\<lambda>p. if pAmount p < x then Inl ErrInsufficientSupply
                 else Inr (p\<lparr>pAmount := pAmount p - x\<rparr>) :: error + pool"
  obtain p q where f: "?f p = Inr q"
    and st: "\<And>i. committeeStake ty t i + (if i = c then unat (pAmount p) else 0)
        = committeeStake ty s i + (if i = c then unat (pAmount q) else 0)"
    and other: "\<And>ty'. ty' \<noteq> ty \<Longrightarrow> committeeStake ty' t = committeeStake ty' s"
    and le: "unat (pAmount p) \<le> committeeStake ty s c"
    by (rule executeOnSupplyPool_amount [OF assms [unfolded subFromSupplyPool_def]])
      (auto split: if_splits)
  from f have "unat x \<le> unat (pAmount p)" "unat (pAmount q) = unat (pAmount p) - unat x"
    by (auto simp: unat_sub_guarded unat_less_iff split: if_splits)
  with st [of i] le show "committeeStake ty t i + (if i = c then unat x else 0) = committeeStake ty s i"
    by (simp split: if_splits)
  show "ty' \<noteq> ty \<Longrightarrow> committeeStake ty' t = committeeStake ty' s" by (rule other)
qed

text \<open>
  The committee supply pools, kept as a filtered and sorted list of pools, implement a map
  from committee to stake: adding to a committee's pool raises exactly that committee's stake,
  subtracting the same amount afterwards restores the map, the other kind of pool never moves,
  and a failed update leaves the state alone.
\<close>

theorem supply_pools_implement_map:
  "(\<forall>t. addToSupplyPool c x ty s = (Inr (), t) \<longrightarrow>
      committeeStake ty t = (committeeStake ty s)(c := committeeStake ty s c + unat x) \<and>
      (\<forall>ty'. ty' \<noteq> ty \<longrightarrow> committeeStake ty' t = committeeStake ty' s) \<and>
      (\<forall>u. subFromSupplyPool c x ty t = (Inr (), u) \<longrightarrow> committeeStake ty u = committeeStake ty s)) \<and>
   (\<forall>e t. addToSupplyPool c x ty s = (Inl e, t) \<or> subFromSupplyPool c x ty s = (Inl e, t) \<longrightarrow> t = s)"
proof (intro conjI allI impI)
  fix t assume add: "addToSupplyPool c x ty s = (Inr (), t)"
  show "committeeStake ty t = (committeeStake ty s)(c := committeeStake ty s c + unat x)"
    using addToSupplyPool_stake(1) [OF add] by auto
  show "committeeStake ty' t = committeeStake ty' s" if "ty' \<noteq> ty" for ty'
    using addToSupplyPool_stake(2) [OF add that] .
  show "committeeStake ty u = committeeStake ty s" if "subFromSupplyPool c x ty t = (Inr (), u)" for u
    using addToSupplyPool_stake(1) [OF add] subFromSupplyPool_stake(1) [OF that] by (auto simp: fun_eq_iff)
next
  fix e t
  assume fl: "addToSupplyPool c x ty s = (Inl e, t) \<or> subFromSupplyPool c x ty s = (Inl e, t)"
  obtain arr k where "findOrCreateSupplyPool (supplyPools ty (supplyTracker s)) c = (arr, k)"
    by (cases "findOrCreateSupplyPool (supplyPools ty (supplyTracker s)) c")
  with fl show "t = s"
    by (auto simp: addToSupplyPool_def subFromSupplyPool_def executeOnSupplyPool_run split: if_splits)
qed

definition exampleSupply :: Supply where
  "exampleSupply = \<lparr>sTotal = 100, sStaked = 30, sDelegatedOnly = 0,
     sCommitteeStaked = [\<lparr>pId = 1, pAmount = 30, pPoints = [], pTotalPoolPoints = 0\<rparr>],
     sCommitteeDelegatedOnly = []\<rparr>"

definition exampleValParams :: validatorParams where
  "exampleValParams = \<lparr>vpUnstakingBlocks = 2, vpMaxPauseBlocks = 10,
     vpDoubleSignSlashPercentage = 10, vpNonSignSlashPercentage = 1, vpMaxNonSign = 4,
     vpNonSignWindow = 10, vpMaxCommittees = 15, vpMaxCommitteeSize = 100,
     vpEarlyWithdrawalPenalty = 20, vpDelegateUnstakingBlocks = 2, vpMinimumOrderSize = 1,
     vpStakePercentForSubsidizedCommittee = 33, vpMaxSlashPerCommittee = 100,
     vpDelegateRewardPercentage = 10, vpBuyDeadlineBlocks = 15, vpLockOrderFeeMultiplier = 2,
     vpMinimumStakeForValidators = 0, vpMinimumStakeForDelegates = 0,
     vpMaximumDelegatesPerCommittee = 0\<rparr>"

definition exampleFeeParams :: feeParams where
  "exampleFeeParams = \<lparr>fpSendFee = 1, fpStakeFee = 1, fpEditStakeFee = 1, fpUnstakeFee = 1,
     fpPauseFee = 1, fpUnpauseFee = 1, fpChangeParameterFee = 1, fpDaoTransferFee = 1,
     fpCertificateResultsFee = 1, fpSubsidyFee = 1, fpCreateOrderFee = 1, fpEditOrderFee = 1,
     fpDeleteOrderFee = 1, fpDexLimitOrderFee = 1, fpDexLiquidityDepositFee = 1,
     fpDexLiquidityWithdrawFee = 1\<rparr>"

text \<open>A small state used by the witnesses: 60 tokens in an account, 10 in a pool, 30 staked.\<close>

definition exampleState :: state where
  "exampleState = \<lparr>cfg = \<lparr>cfgChainId = 1, cfgBlocksPerHalvening = 100, cfgInitialTokensPerBlock = 50,
       cfgFaucetAddress = []\<rparr>,
     ProtocolVersion = 1, NetworkID = 1, height = 5, proposeVoteConfig = AcceptAllProposals,
     proposalsFile = None, prevBlockHash = Some [9], indexedTxs = [], rootDexBatch = None,
     slashTracker = [],
     accounts = [(Addr [1], (emptyAccount (Addr [1]))\<lparr>acAmount := 60\<rparr>)],
     pools = [(1, \<lparr>pId = 1, pAmount = 10, pPoints = [], pTotalPoolPoints = 0\<rparr>)],
     supplyTracker = exampleSupply,
     validators = [(Addr [7], \<lparr>vAddress = Addr [7], vPublicKey = [7, 7], vNetAddress = ''tcp://a'',
       vStakedAmount = 30, vCommittees = [1], vMaxPausedHeight = 0, vUnstakingHeight = 0,
       vOutput = Addr [1], vDelegate = False, vCompound = False\<rparr>)],
     committeeIndex = [((1, 30, Addr [7]), ())], delegateIndex = [], unstaking = [], paused = [],
     paramsCons = \<lparr>cpBlockSize = 1000000, cpProtocolVersion = ''1/0'', cpRootChainId = 1, cpRetired = 0,
       cpResetCommittee = 0\<rparr>,
     paramsVal = exampleValParams, paramsFee = exampleFeeParams, daoRewardPercentage = 5,
     nonSigners = [], lastProposers = [], committeesData = [], orderBook = [],
     retiredCommittees = [], lockedBatches = [], nextBatches = [], doubleSigners = [],
     checkpoints = [], eventReference = [], events = []\<rparr>"

theorem supply_pools_implement_map_witness:
  "\<exists>t. addToSupplyPool 1 12 CommitteesWithDelegations exampleState = (Inr (), t) \<and>
     committeeStake CommitteesWithDelegations t =
       (committeeStake CommitteesWithDelegations exampleState)(1 := 42)"
proof -
  let ?m = "addToSupplyPool 1 12 CommitteesWithDelegations exampleState"
  have run: "?m = (Inr (), snd ?m)"
    by (simp add: addToSupplyPool_def executeOnSupplyPool_def getSupplyPools_def GetSupply_def
        SetSupply_def go_simps exampleState_def exampleSupply_def MaxUint64_def)
  have "committeeStake CommitteesWithDelegations exampleState 1 = 30"
    by (simp add: committeeStake_def supplyPools_def spAmount_def exampleState_def exampleSupply_def)
  then have "committeeStake CommitteesWithDelegations (snd ?m) =
       (committeeStake CommitteesWithDelegations exampleState)(1 := 42)"
    using supply_pools_implement_map [of 1 12 CommitteesWithDelegations exampleState] run
    by auto
  with run show ?thesis by blast
qed

text \<open>
  The locked part of a vesting account cannot be withdrawn. When \<open>AccountSub\<close> takes tokens,
  the balance falls by exactly that amount and what remains still covers everything that is
  locked at this height.
\<close>

theorem locked_tokens_stay:
  assumes "AccountSub a x s = (Inr (), t)" and "x \<noteq> 0"
  shows "unat (acAmount (accountAt t a)) + unat x = unat (acAmount (accountAt s a)) \<and>
    unat (AccountLockedAmount (height s) (accountAt s a)) \<le> unat (acAmount (accountAt t a))"
proof -
  from assms have g: "\<not> AccountSpendableAmount (height s) (accountAt s a) < x"
    and t: "t = s\<lparr>accounts := putAccount (height s)
              ((accountAt s a)\<lparr>acAmount := acAmount (accountAt s a) - x\<rparr>) (accounts s)\<rparr>"
    by (auto simp: AccountSub_run split: if_splits)
  note cover = spendable_locked [OF g assms(2)]
  then have sub: "unat (acAmount (accountAt s a) - x) = unat (acAmount (accountAt s a)) - unat x"
    by (simp add: unat_sub unat_le_iff)
  have "unat (acAmount (accountAt t a)) = unat (acAmount (accountAt s a)) - unat x"
    using sub by (simp add: t amount_putAccount)
  with cover show ?thesis by linarith
qed

definition vestingState :: state where
  "vestingState = exampleState\<lparr>accounts := [(Addr [1], \<lparr>acAddress = Addr [1], acAmount = 60,
     acVestingAmount = 40, acVestingStartHeight = 1, acVestingCliffHeight = 1,
     acVestingEndHeight = 9\<rparr>)]\<rparr>"

theorem locked_tokens_stay_witness:
  "\<exists>t. AccountSub (Addr [1]) 15 vestingState = (Inr (), t) \<and>
     unat (acAmount (accountAt t (Addr [1]))) + 15 = 60"
proof -
  let ?m = "AccountSub (Addr [1]) 15 vestingState"
  have acc: "accountAt vestingState (Addr [1]) = \<lparr>acAddress = Addr [1], acAmount = 60,
     acVestingAmount = 40, acVestingStartHeight = 1, acVestingCliffHeight = 1, acVestingEndHeight = 9\<rparr>"
    by (simp add: accountAt_def vestingState_def)
  have h: "height vestingState = 5" by (simp add: vestingState_def exampleState_def)
  have run: "?m = (Inr (), snd ?m)"
    by (simp add: AccountSub_run acc h AccountSpendableAmount_def AccountLockedAmount_def
        AccountVestedAmount_def)
  from locked_tokens_stay [OF run] show ?thesis using run by (auto simp: acc)
qed

text \<open>
  As long as the vesting product fits 64 bits, vesting is the linear schedule it is meant to
  be: nothing before the start or the cliff, the full tranche from the end on, the exact
  proportion in between, and the spendable amount never falls as the chain grows.
\<close>

theorem vesting_schedule:
  assumes "vesting_safe acc" and "h \<le> h'"
  shows "AccountSpendableAmount h acc \<le> AccountSpendableAmount h' acc \<and>
    AccountVestedAmount h acc \<le> acVestingAmount acc \<and>
    (acVestingStartHeight acc \<le> h \<and> acVestingCliffHeight acc \<le> h \<and> h < acVestingEndHeight acc \<longrightarrow>
      unat (AccountVestedAmount h acc) =
        unat (acVestingAmount acc) * (unat h - unat (acVestingStartHeight acc)) div
          (unat (acVestingEndHeight acc) - unat (acVestingStartHeight acc)))"
  using spendable_mono [OF assms] vested_le [OF assms(1)] vested_during [OF assms(1)] by blast

theorem vesting_schedule_witness:
  "let acc = accountAt vestingState (Addr [1]) in
   vesting_safe acc \<and> AccountSpendableAmount 3 acc \<le> AccountSpendableAmount 5 acc \<and>
   unat (AccountVestedAmount 5 acc) = 20"
proof -
  let ?acc = "\<lparr>acAddress = Addr [1], acAmount = 60, acVestingAmount = 40,
     acVestingStartHeight = 1, acVestingCliffHeight = 1, acVestingEndHeight = 9\<rparr>"
  have acc: "accountAt vestingState (Addr [1]) = ?acc"
    by (simp add: accountAt_def vestingState_def)
  have safe: "vesting_safe ?acc" by (simp add: vesting_safe_def)
  show ?thesis
    using safe vesting_schedule [OF safe, of 3 5] vesting_schedule [OF safe, of 5 5]
    by (simp add: acc Let_def)
qed

text \<open>
  The product in \<open>AccountVestedAmount\<close> is a plain 64-bit multiplication, so a large tranche
  over a long schedule wraps: here a quarter of the tranche is vested at one height and nothing
  at all one block later, although the schedule is linear.
\<close>

theorem vesting_wraps:
  "\<exists>acc h. acVestingStartHeight acc \<le> h \<and> acVestingCliffHeight acc \<le> h \<and>
     h + 1 < acVestingEndHeight acc \<and>
     AccountVestedAmount h acc = 2 ^ 61 \<and> AccountVestedAmount (h + 1) acc = 0 \<and>
     AccountSpendableAmount (h + 1) acc < AccountSpendableAmount h acc"
  by (rule exI [of _ "\<lparr>acAddress = Addr [], acAmount = 2 ^ 63, acVestingAmount = 2 ^ 63,
        acVestingStartHeight = 10, acVestingCliffHeight = 10, acVestingEndHeight = 14\<rparr>"],
      rule exI [of _ 11])
    (simp add: AccountVestedAmount_def AccountSpendableAmount_def AccountLockedAmount_def)

text \<open>
  Liquidity points are kept consistently: whoever adds points, and whoever removes no more
  than it holds, leaves a pool whose providers are listed once, with points, and whose total is
  the sum of the points; an addition that succeeded is undone by the removal of the same points.
\<close>

theorem liquidity_points_consistent:
  assumes "points_ok p"
  shows "(AddPoints a x p = (Inr (), q) \<longrightarrow> points_ok q) \<and>
    (GetPointsFor p a = Inr y \<and> x \<le> y \<longrightarrow> points_ok (snd (RemovePoints a x p))) \<and>
    (AddPoints a x p = (Inr (), q) \<and> x \<noteq> 0 \<longrightarrow> snd (RemovePoints a x q) = p)"
proof (intro conjI impI)
  show "points_ok q" if "AddPoints a x p = (Inr (), q)"
    using AddPoints_ok [OF assms that] .
  show "points_ok (snd (RemovePoints a x p))" if "GetPointsFor p a = Inr y \<and> x \<le> y"
    using RemovePoints_ok [OF assms] that by blast
  assume add: "AddPoints a x p = (Inr (), q) \<and> x \<noteq> 0"
  show "snd (RemovePoints a x q) = p"
  proof (cases "lpIndex (pPoints p) a")
    case None
    with add have q: "q = p\<lparr>pTotalPoolPoints := pTotalPoolPoints p + x,
                    pPoints := pPoints p @ [\<lparr>ppAddress = a, ppPoints = x\<rparr>]\<rparr>"
      by (auto simp: AddPoints_def go_simps split: if_splits)
    have "lpIndex (pPoints q) a = Some (length (pPoints p))"
      using None by (simp add: q lpIndex_append_new)
    then show ?thesis by (simp add: RemovePoints_run q Let_def nth_append)
  next
    case (Some i)
    let ?lp = "pPoints p ! i"
    from Some add have q: "q = p\<lparr>pTotalPoolPoints := pTotalPoolPoints p + x,
                    pPoints := (pPoints p)[i := ?lp\<lparr>ppPoints := ppPoints ?lp + x\<rparr>]\<rparr>"
      by (auto simp: AddPoints_def go_simps Let_def split: if_splits)
    have i: "i < length (pPoints p)" using lpIndex_Some [OF Some] by simp
    then have "ppPoints ?lp \<noteq> 0" using assms by (simp add: points_ok_def)
    moreover have "lpIndex (pPoints q) a = Some i"
      using lpIndex_update [OF Some] by (simp add: q)
    ultimately show ?thesis using i by (simp add: RemovePoints_run q Let_def)
  qed
qed

theorem liquidity_points_consistent_witness:
  "let p = \<lparr>pId = 9, pAmount = 50, pPoints = [\<lparr>ppAddress = Addr [1], ppPoints = 7\<rparr>],
            pTotalPoolPoints = 7\<rparr>;
       q = p\<lparr>pPoints := [\<lparr>ppAddress = Addr [1], ppPoints = 7\<rparr>, \<lparr>ppAddress = Addr [2], ppPoints = 5\<rparr>],
             pTotalPoolPoints := 12\<rparr>
   in points_ok p \<and> points_ok q \<and> snd (RemovePoints (Addr [2]) 5 q) = p"
proof -
  let ?p = "\<lparr>pId = 9, pAmount = 50, pPoints = [\<lparr>ppAddress = Addr [1], ppPoints = 7\<rparr>],
            pTotalPoolPoints = 7\<rparr>"
  let ?q = "?p\<lparr>pPoints := [\<lparr>ppAddress = Addr [1], ppPoints = 7\<rparr>, \<lparr>ppAddress = Addr [2], ppPoints = 5\<rparr>],
             pTotalPoolPoints := 12\<rparr>"
  have ok: "points_ok ?p" by (simp add: points_ok_def points_sum_def)
  have "AddPoints (Addr [2]) 5 ?p = (Inr (), ?q)"
    by (simp add: AddPoints_def go_simps MaxUint64_def MaxLiquidityProviders_def)
  with liquidity_points_consistent [OF ok, of "Addr [2]" 5 ?q] ok show ?thesis
    by (simp add: Let_def)
qed

end
