(* ===== verification/Params.thy ===== *)
theory Params
  imports State
begin

text \<open>
  Governance parameters (\<open>fsm/gov_params.go\<close>): the protocol version string, the checks of the
  four parameter spaces and the update of one parameter by name.
\<close>

section \<open>Strings of digits\<close>

text \<open>\<open>strings.Split\<close> with a one character separator, \<open>strconv.ParseUint(s, 10, 64)\<close> and \<open>%d\<close>.\<close>

fun Split :: "char \<Rightarrow> string \<Rightarrow> string list" where
  "Split c [] = [[]]"
| "Split c (x # xs) =
     (if x = c then [] # Split c xs
      else (case Split c xs of [] \<Rightarrow> [[x]] | w # ws \<Rightarrow> (x # w) # ws))"

definition digitOf :: "char \<Rightarrow> nat option" where
  "digitOf c = (let n = of_char c :: nat in if 48 \<le> n \<and> n \<le> 57 then Some (n - 48) else None)"

fun parseDigits :: "nat \<Rightarrow> string \<Rightarrow> nat option" where
  "parseDigits acc [] = Some acc"
| "parseDigits acc (c # cs) = (case digitOf c of
       None \<Rightarrow> None
     | Some d \<Rightarrow> parseDigits (10 * acc + d) cs)"

definition ParseUint :: "string \<Rightarrow> u64 option" where
  "ParseUint v = (if v = [] then None
     else (case parseDigits 0 v of
         None \<Rightarrow> None
       | Some n \<Rightarrow> if n < 2 ^ 64 then Some (of_nat n) else None))"

fun showNat :: "nat \<Rightarrow> string" where
  "showNat n = (if n < 10 then [char_of (48 + n)] else showNat (n div 10) @ [char_of (48 + n mod 10)])"

declare showNat.simps [simp del]

section \<open>The protocol version\<close>

record protocolVersion =
  pvHeight :: u64
  pvVersion :: u64

definition Delimiter :: char where
  "Delimiter = CHR ''/''"

definition checkProtocolVersion :: "string \<Rightarrow> error + protocolVersion" where
  "checkProtocolVersion v =
     (let arr = Split Delimiter v in
      if length arr \<noteq> 2 then Inl ErrInvalidProtocolVersion
      else (case ParseUint (arr ! 0) of
          None \<Rightarrow> Inl ErrInvalidProtocolVersion
        | Some version \<Rightarrow> (case ParseUint (arr ! 1) of
              None \<Rightarrow> Inl ErrInvalidProtocolVersion
            | Some h \<Rightarrow> Inr \<lparr>pvHeight = h, pvVersion = version\<rparr>)))"

definition NewProtocolVersion :: "u64 \<Rightarrow> u64 \<Rightarrow> string" where
  "NewProtocolVersion h version = showNat (unat version) @ [Delimiter] @ showNat (unat h)"

definition ParseProtocolVersion :: "consensusParams \<Rightarrow> error + protocolVersion" where
  "ParseProtocolVersion x = checkProtocolVersion (cpProtocolVersion x)"

section \<open>Checks of the parameter spaces\<close>

text \<open>\<open>lib.MaxBlockHeaderSize\<close>\<close>

definition MaxBlockHeaderSize :: u64 where
  "MaxBlockHeaderSize = 1652"

definition ConsensusParams_Check :: "consensusParams \<Rightarrow> error + unit" where
  "ConsensusParams_Check x =
     (if cpBlockSize x < MaxBlockHeaderSize then Inl ErrInvalidParam
      else (case ParseProtocolVersion x of Inl e \<Rightarrow> Inl e | Inr _ \<Rightarrow> Inr ()))"

definition ValidatorParams_Check :: "validatorParams \<Rightarrow> error + unit" where
  "ValidatorParams_Check x =
     (if vpUnstakingBlocks x = 0 then Inl ErrInvalidParam
      else if vpMaxPauseBlocks x = 0 then Inl ErrInvalidParam
      else if vpNonSignSlashPercentage x > 100 then Inl ErrInvalidParam
      else if vpNonSignWindow x = 0 then Inl ErrInvalidParam
      else if vpMaxNonSign x > vpNonSignWindow x then Inl ErrInvalidParam
      else if vpDoubleSignSlashPercentage x > 100 then Inl ErrInvalidParam
      else if vpMaxCommittees x > 100 then Inl ErrInvalidParam
      else if vpMaxCommitteeSize x = 0 then Inl ErrInvalidParam
      else if vpDelegateUnstakingBlocks x < 2 then Inl ErrInvalidParam
      else if vpEarlyWithdrawalPenalty x > 100 then Inl ErrInvalidParam
      else if vpStakePercentForSubsidizedCommittee x = 0 \<or>
              vpStakePercentForSubsidizedCommittee x > 100 then Inl ErrInvalidParam
      else if vpMaxSlashPerCommittee x = 0 \<or> vpMaxSlashPerCommittee x > 100 then Inl ErrInvalidParam
      else if vpDelegateRewardPercentage x > 100 then Inl ErrInvalidParam
      else if vpBuyDeadlineBlocks x = 0 then Inl ErrInvalidParam
      else if vpLockOrderFeeMultiplier x = 0 then Inl ErrInvalidParam
      else Inr ())"

definition FeeParams_Check :: "feeParams \<Rightarrow> error + unit" where
  "FeeParams_Check x = Inr ()"

definition GovernanceParams_Check :: "u64 \<Rightarrow> error + unit" where
  "GovernanceParams_Check x =
     (if x > 100 then Inl ErrInvalidParam else Inr ())"

record params =
  pmConsensus :: consensusParams
  pmValidator :: validatorParams
  pmFee :: feeParams
  pmGovernance :: u64

definition Params_Check :: "params \<Rightarrow> error + unit" where
  "Params_Check x = (case ConsensusParams_Check (pmConsensus x) of Inl e \<Rightarrow> Inl e
     | Inr _ \<Rightarrow> (case FeeParams_Check (pmFee x) of Inl e \<Rightarrow> Inl e
     | Inr _ \<Rightarrow> (case ValidatorParams_Check (pmValidator x) of Inl e \<Rightarrow> Inl e
     | Inr _ \<Rightarrow> GovernanceParams_Check (pmGovernance x))))"

section \<open>Updating one parameter\<close>

text \<open>
  The setters write into the receiver and then check it, so a rejected value has already been
  written; the result pairs the outcome of the check with the written structure.
\<close>

definition checked :: "('p \<Rightarrow> error + unit) \<Rightarrow> 'p option \<Rightarrow> 'p \<Rightarrow> (error + unit) \<times> 'p" where
  "checked check upd x = (case upd of None \<Rightarrow> (Inl ErrUnknownParam, x) | Some y \<Rightarrow> (check y, y))"

definition ConsensusParams_SetUint64 ::
    "string \<Rightarrow> u64 \<Rightarrow> consensusParams \<Rightarrow> (error + unit) \<times> consensusParams" where
  "ConsensusParams_SetUint64 name v x = checked ConsensusParams_Check
     (if name = ''blockSize'' then Some (x\<lparr>cpBlockSize := v\<rparr>)
      else if name = ''retired'' then Some (x\<lparr>cpRetired := v\<rparr>)
      else if name = ''rootChainID'' then Some (x\<lparr>cpRootChainId := v\<rparr>)
      else if name = ''resetCommittee'' then Some (x\<lparr>cpResetCommittee := v\<rparr>)
      else None) x"

definition ConsensusParams_SetString ::
    "string \<Rightarrow> string \<Rightarrow> consensusParams \<Rightarrow> (error + unit) \<times> consensusParams" where
  "ConsensusParams_SetString name v x =
     (if name = ''protocolVersion''
      then (case checkProtocolVersion v of
          Inl e \<Rightarrow> (Inl e, x)
        | Inr newVersion \<Rightarrow> (case checkProtocolVersion (cpProtocolVersion x) of
            Inl e \<Rightarrow> (Inl e, x)
          | Inr oldVersion \<Rightarrow>
              if pvVersion newVersion \<noteq> pvVersion oldVersion + 1 \<or>
                 pvHeight newVersion \<le> pvHeight oldVersion
              then (Inl ErrInvalidProtocolVersion, x)
              else (ConsensusParams_Check (x\<lparr>cpProtocolVersion := v\<rparr>), x\<lparr>cpProtocolVersion := v\<rparr>)))
      else (Inl ErrUnknownParam, x))"

definition ValidatorParams_SetUint64 ::
    "string \<Rightarrow> u64 \<Rightarrow> validatorParams \<Rightarrow> (error + unit) \<times> validatorParams" where
  "ValidatorParams_SetUint64 name v x = checked ValidatorParams_Check
     (if name = ''unstakingBlocks'' then Some (x\<lparr>vpUnstakingBlocks := v\<rparr>)
      else if name = ''maxPauseBlocks'' then Some (x\<lparr>vpMaxPauseBlocks := v\<rparr>)
      else if name = ''nonSignWindow'' then Some (x\<lparr>vpNonSignWindow := v\<rparr>)
      else if name = ''maxNonSign'' then Some (x\<lparr>vpMaxNonSign := v\<rparr>)
      else if name = ''nonSignSlashPercentage'' then Some (x\<lparr>vpNonSignSlashPercentage := v\<rparr>)
      else if name = ''doubleSignSlashPercentage'' then Some (x\<lparr>vpDoubleSignSlashPercentage := v\<rparr>)
      else if name = ''maxCommittees'' then Some (x\<lparr>vpMaxCommittees := v\<rparr>)
      else if name = ''maxCommitteeSize'' then Some (x\<lparr>vpMaxCommitteeSize := v\<rparr>)
      else if name = ''earlyWithdrawalPenalty'' then Some (x\<lparr>vpEarlyWithdrawalPenalty := v\<rparr>)
      else if name = ''delegateUnstakingBlocks'' then Some (x\<lparr>vpDelegateUnstakingBlocks := v\<rparr>)
      else if name = ''minimumOrderSize'' then Some (x\<lparr>vpMinimumOrderSize := v\<rparr>)
      else if name = ''stakePercentForSubsidizedCommittee''
        then Some (x\<lparr>vpStakePercentForSubsidizedCommittee := v\<rparr>)
      else if name = ''maxSlashPerCommittee'' then Some (x\<lparr>vpMaxSlashPerCommittee := v\<rparr>)
      else if name = ''delegateRewardPercentage'' then Some (x\<lparr>vpDelegateRewardPercentage := v\<rparr>)
      else if name = ''buyDeadlineBlocks'' then Some (x\<lparr>vpBuyDeadlineBlocks := v\<rparr>)
      else if name = ''lockOrderFeeMultiplier'' then Some (x\<lparr>vpLockOrderFeeMultiplier := v\<rparr>)
      else if name = ''minimumStakeForValidators'' then Some (x\<lparr>vpMinimumStakeForValidators := v\<rparr>)
      else if name = ''minimumStakeForDelegates'' then Some (x\<lparr>vpMinimumStakeForDelegates := v\<rparr>)
      else if name = ''maximumDelegatesPerCommittee''
        then Some (x\<lparr>vpMaximumDelegatesPerCommittee := v\<rparr>)
      else None) x"

definition FeeParams_SetUint64 :: "string \<Rightarrow> u64 \<Rightarrow> feeParams \<Rightarrow> (error + unit) \<times> feeParams" where
  "FeeParams_SetUint64 name v x = checked FeeParams_Check
     (if name = ''sendFee'' then Some (x\<lparr>fpSendFee := v\<rparr>)
      else if name = ''stakeFee'' then Some (x\<lparr>fpStakeFee := v\<rparr>)
      else if name = ''editStakeFee'' then Some (x\<lparr>fpEditStakeFee := v\<rparr>)
      else if name = ''unstakeFee'' then Some (x\<lparr>fpUnstakeFee := v\<rparr>)
      else if name = ''pauseFee'' then Some (x\<lparr>fpPauseFee := v\<rparr>)
      else if name = ''unpauseFee'' then Some (x\<lparr>fpUnpauseFee := v\<rparr>)
      else if name = ''changeParameterFee'' then Some (x\<lparr>fpChangeParameterFee := v\<rparr>)
      else if name = ''daoTransferFee'' then Some (x\<lparr>fpDaoTransferFee := v\<rparr>)
      else if name = ''certificateResultsFee'' then Some (x\<lparr>fpCertificateResultsFee := v\<rparr>)
      else if name = ''subsidyFee'' then Some (x\<lparr>fpSubsidyFee := v\<rparr>)
      else if name = ''createOrderFee'' then Some (x\<lparr>fpCreateOrderFee := v\<rparr>)
      else if name = ''deleteOrderFee'' then Some (x\<lparr>fpDeleteOrderFee := v\<rparr>)
      else if name = ''editOrderFee'' then Some (x\<lparr>fpEditOrderFee := v\<rparr>)
      else if name = ''dexLimitOrderFee'' then Some (x\<lparr>fpDexLimitOrderFee := v\<rparr>)
      else if name = ''dexLiquidityDepositFee'' then Some (x\<lparr>fpDexLiquidityDepositFee := v\<rparr>)
      else if name = ''dexLiquidityWithdrawFee'' then Some (x\<lparr>fpDexLiquidityWithdrawFee := v\<rparr>)
      else None) x"

definition GovernanceParams_SetUint64 :: "string \<Rightarrow> u64 \<Rightarrow> u64 \<Rightarrow> (error + unit) \<times> u64" where
  "GovernanceParams_SetUint64 name v x = checked GovernanceParams_Check
     (if name = ''daoRewardPercentage'' then Some v else None) x"

section \<open>Features by protocol version\<close>

definition GetParamsCons :: "consensusParams fsm" where
  "GetParamsCons = gets paramsCons"

definition GetParamsVal :: "validatorParams fsm" where
  "GetParamsVal = gets paramsVal"

definition GetParamsFee :: "feeParams fsm" where
  "GetParamsFee = gets paramsFee"

definition GetParamsGov :: "u64 fsm" where
  "GetParamsGov = gets daoRewardPercentage"

definition GetParams :: "params fsm" where
  "GetParams = gets (\<lambda>s. \<lparr>pmConsensus = paramsCons s, pmValidator = paramsVal s,
     pmFee = paramsFee s, pmGovernance = daoRewardPercentage s\<rparr>)"

definition SetParamsCons :: "consensusParams \<Rightarrow> unit fsm" where
  "SetParamsCons c = modify (\<lambda>s. s\<lparr>paramsCons := c\<rparr>)"

definition SetParamsVal :: "validatorParams \<Rightarrow> unit fsm" where
  "SetParamsVal v = modify (\<lambda>s. s\<lparr>paramsVal := v\<rparr>)"

definition SetParamsFee :: "feeParams \<Rightarrow> unit fsm" where
  "SetParamsFee f = modify (\<lambda>s. s\<lparr>paramsFee := f\<rparr>)"

definition SetParamsGov :: "u64 \<Rightarrow> unit fsm" where
  "SetParamsGov g = modify (\<lambda>s. s\<lparr>daoRewardPercentage := g\<rparr>)"

definition SetParams :: "params \<Rightarrow> unit fsm" where
  "SetParams p = seqm [SetParamsCons (pmConsensus p), SetParamsVal (pmValidator p),
     SetParamsFee (pmFee p), SetParamsGov (pmGovernance p)]"

definition IsFeatureEnabled :: "u64 \<Rightarrow> bool fsm" where
  "IsFeatureEnabled requiredVersion =
     gets (\<lambda>s. case ParseProtocolVersion (paramsCons s) of
         Inl _ \<Rightarrow> False
       | Inr currentProtocol \<Rightarrow>
           if height s < pvHeight currentProtocol
           then (if pvVersion currentProtocol = 0 then False
                 else pvVersion currentProtocol - 1 \<ge> requiredVersion)
           else pvVersion currentProtocol \<ge> requiredVersion)"

definition GetRootChainId :: "u64 fsm" where
  "GetRootChainId = bnd GetParamsCons (\<lambda>c. ret (cpRootChainId c))"

definition GetMaxValidators :: "u64 fsm" where
  "GetMaxValidators = bnd GetParamsVal (\<lambda>v. ret (vpMaxCommitteeSize v))"

definition GetMaxBlockSize :: "u64 fsm" where
  "GetMaxBlockSize = bnd GetParamsCons (\<lambda>c.
     if cpBlockSize c < MaxBlockHeaderSize then err ErrInvalidParam
     else ret (cpBlockSize c - MaxBlockHeaderSize))"

section \<open>What the parameters promise\<close>

lemma Split_one: "c \<notin> set xs \<Longrightarrow> Split c (xs @ c # ys) = xs # Split c ys"
  by (induction xs) auto

lemma Split_none: "c \<notin> set xs \<Longrightarrow> Split c xs = [xs]"
  by (induction xs) auto

lemma parseDigits_append:
  "parseDigits acc (xs @ ys) = (case parseDigits acc xs of None \<Rightarrow> None | Some n \<Rightarrow> parseDigits n ys)"
  by (induction xs arbitrary: acc) (auto split: option.splits)

lemma digitOf_char: "d < 10 \<Longrightarrow> digitOf (char_of (48 + d)) = Some d"
  by (simp add: digitOf_def Let_def)

lemma parse_show: "parseDigits 0 (showNat n) = Some n"
proof (induction n rule: showNat.induct)
  case (1 n)
  show ?case
  proof (cases "n < 10")
    case True
    then show ?thesis by (simp add: showNat.simps [of n] digitOf_char)
  next
    case False
    with 1 show ?thesis
      by (simp add: showNat.simps [of n] parseDigits_append digitOf_char)
  qed
qed

lemma showNat_nonempty: "showNat n \<noteq> []"
  by (simp add: showNat.simps [of n])

lemma showNat_digits: "c \<in> set (showNat n) \<Longrightarrow> digitOf c \<noteq> None"
proof (induction n rule: showNat.induct)
  case (1 n)
  then show ?case
    by (cases "n < 10") (auto simp: showNat.simps [of n] digitOf_char)
qed

lemma Delimiter_no_digit: "digitOf Delimiter = None"
  by (simp add: digitOf_def Delimiter_def)

lemma Delimiter_showNat: "Delimiter \<notin> set (showNat n)"
  using showNat_digits Delimiter_no_digit by blast

lemma ParseUint_show: "ParseUint (showNat (unat (u :: u64))) = Some u"
  using u64_bound [of u] by (simp add: ParseUint_def showNat_nonempty parse_show)


text \<open>
  A protocol version string written by \<open>NewProtocolVersion\<close> is read back by
  \<open>checkProtocolVersion\<close> as exactly the version and height it was made from.
\<close>

theorem protocol_version_roundtrip:
  "checkProtocolVersion (NewProtocolVersion h version) = Inr \<lparr>pvHeight = h, pvVersion = version\<rparr>"
  using ParseUint_show
  by (simp add: checkProtocolVersion_def NewProtocolVersion_def Split_one Split_none Delimiter_showNat)

text \<open>
  An accepted upgrade of the protocol version raises the version by exactly one and moves the
  activation height strictly forward, and a rejected one leaves the parameters alone.
\<close>

theorem protocol_upgrade_sequential:
  assumes "ConsensusParams_SetString name v x = (res, y)"
    and "checkProtocolVersion (cpProtocolVersion x) = Inr old"
  shows "(\<forall>u. res = Inr u \<longrightarrow> (\<exists>new. ParseProtocolVersion y = Inr new \<and>
        pvVersion new = pvVersion old + 1 \<and> pvHeight old < pvHeight new \<and>
        y = x\<lparr>cpProtocolVersion := v\<rparr>)) \<and>
     (\<forall>e. res = Inl e \<and> MaxBlockHeaderSize \<le> cpBlockSize x \<longrightarrow> y = x)"
  using assms
  by (auto simp: ConsensusParams_SetString_def ConsensusParams_Check_def ParseProtocolVersion_def
      split: if_splits sum.splits)

theorem protocol_upgrade_sequential_witness:
  "let x = \<lparr>cpBlockSize = 2000, cpProtocolVersion = ''1/0'', cpRootChainId = 1, cpRetired = 0,
            cpResetCommittee = 0\<rparr>
   in snd (ConsensusParams_SetString ''protocolVersion'' ''2/40'' x) = x\<lparr>cpProtocolVersion := ''2/40''\<rparr>"
proof -
  let ?x = "\<lparr>cpBlockSize = 2000, cpProtocolVersion = ''1/0'', cpRootChainId = 1, cpRetired = 0,
            cpResetCommittee = 0\<rparr>"
  note ev = checkProtocolVersion_def Delimiter_def ParseUint_def digitOf_def Let_def
  have old: "checkProtocolVersion (cpProtocolVersion ?x) = Inr \<lparr>pvHeight = 0, pvVersion = 1\<rparr>"
    by (simp add: ev)
  have new: "checkProtocolVersion ''2/40'' = Inr \<lparr>pvHeight = 40, pvVersion = 2\<rparr>"
    by (simp add: ev)
  let ?r = "ConsensusParams_SetString ''protocolVersion'' ''2/40'' ?x"
  have ok: "?r = (Inr (), snd ?r)"
    using old new by (simp add: ConsensusParams_SetString_def ConsensusParams_Check_def
        ParseProtocolVersion_def MaxBlockHeaderSize_def)
  from protocol_upgrade_sequential [OF ok old] show ?thesis
    unfolding Let_def by blast
qed

end
