(* ===== verification/Committees.thy ===== *)
theory Committees
  imports Accounts Params
begin

text \<open>
  Committees (\<open>fsm/committee.go\<close>, and \<open>CommitteeData\<close> of \<open>lib/certificate.go\<close>): membership and
  delegation indexes with their supply pools, the aggregated certificate results of every
  committee, and retired committees.
\<close>

section \<open>Pool identifiers\<close>

definition MaxChainId :: u64 where "MaxChainId = 16383"
definition HoldingPoolAddend :: u64 where "HoldingPoolAddend = 16383"
definition LiquidityPoolAddend :: u64 where "LiquidityPoolAddend = 32767"
definition EscrowPoolAddend :: u64 where "EscrowPoolAddend = 65535"
definition DAOPoolID :: u64 where "DAOPoolID = 131071"

lemmas pool_ids = MaxChainId_def HoldingPoolAddend_def LiquidityPoolAddend_def EscrowPoolAddend_def
  DAOPoolID_def

section \<open>Membership\<close>

definition SetCommitteeMember :: "address \<Rightarrow> u64 \<Rightarrow> u64 \<Rightarrow> unit fsm" where
  "SetCommitteeMember address chainId stakeForCommittee =
     bnd (IsFeatureEnabled 2) (\<lambda>enabled.
     if enabled then ret ()
     else modify (\<lambda>s. s\<lparr>committeeIndex := tset (chainId, stakeForCommittee, address) () (committeeIndex s)\<rparr>))"

definition DeleteCommitteeMember :: "address \<Rightarrow> u64 \<Rightarrow> u64 \<Rightarrow> unit fsm" where
  "DeleteCommitteeMember address chainId stakeForCommittee =
     bnd (IsFeatureEnabled 2) (\<lambda>enabled.
     if enabled then ret ()
     else modify (\<lambda>s. s\<lparr>committeeIndex := tdel (chainId, stakeForCommittee, address) (committeeIndex s)\<rparr>))"

definition SetCommittees :: "address \<Rightarrow> u64 \<Rightarrow> u64 list \<Rightarrow> unit fsm" where
  "SetCommittees address totalStake committees = for_each committees (\<lambda>committee.
     seqm [SetCommitteeMember address committee totalStake,
           AddToCommitteeSupplyForChain committee totalStake])"

definition DeleteCommittees :: "address \<Rightarrow> u64 \<Rightarrow> u64 list \<Rightarrow> unit fsm" where
  "DeleteCommittees address totalStake committees = for_each committees (\<lambda>committee.
     seqm [DeleteCommitteeMember address committee totalStake,
           SubFromCommitteeStakedSupplyForChain committee totalStake])"

definition UpdateCommittees :: "address \<Rightarrow> validator \<Rightarrow> u64 \<Rightarrow> u64 list \<Rightarrow> unit fsm" where
  "UpdateCommittees address oldValidator newStakedAmount newCommittees =
     seqm [DeleteCommittees address (vStakedAmount oldValidator) (vCommittees oldValidator),
           SetCommittees address newStakedAmount newCommittees]"

definition SetDelegate :: "address \<Rightarrow> u64 \<Rightarrow> u64 \<Rightarrow> unit fsm" where
  "SetDelegate address chainId stakeForCommittee =
     bnd (IsFeatureEnabled 2) (\<lambda>enabled.
     if enabled then ret ()
     else modify (\<lambda>s. s\<lparr>delegateIndex := tset (chainId, stakeForCommittee, address) () (delegateIndex s)\<rparr>))"

definition DeleteDelegate :: "address \<Rightarrow> u64 \<Rightarrow> u64 \<Rightarrow> unit fsm" where
  "DeleteDelegate address chainId stakeForCommittee =
     bnd (IsFeatureEnabled 2) (\<lambda>enabled.
     if enabled then ret ()
     else modify (\<lambda>s. s\<lparr>delegateIndex := tdel (chainId, stakeForCommittee, address) (delegateIndex s)\<rparr>))"

definition SetDelegations :: "address \<Rightarrow> u64 \<Rightarrow> u64 list \<Rightarrow> unit fsm" where
  "SetDelegations address totalStake committees = for_each committees (\<lambda>committee.
     seqm [SetDelegate address committee totalStake,
           AddToDelegateSupplyForChain committee totalStake,
           AddToCommitteeSupplyForChain committee totalStake])"

definition DeleteDelegations :: "address \<Rightarrow> u64 \<Rightarrow> u64 list \<Rightarrow> unit fsm" where
  "DeleteDelegations address totalStake committees = for_each committees (\<lambda>committee.
     seqm [DeleteDelegate address committee totalStake,
           SubFromDelegateStakedSupplyForChain committee totalStake,
           SubFromCommitteeStakedSupplyForChain committee totalStake])"

definition UpdateDelegations :: "address \<Rightarrow> validator \<Rightarrow> u64 \<Rightarrow> u64 list \<Rightarrow> unit fsm" where
  "UpdateDelegations address oldValidator newStakedAmount newCommittees =
     seqm [DeleteDelegations address (vStakedAmount oldValidator) (vCommittees oldValidator),
           SetDelegations address newStakedAmount newCommittees]"

section \<open>Committee data\<close>

text \<open>\<open>addPercents\<close> and \<open>Combine\<close> are methods of \<open>*CommitteeData\<close>.\<close>

fun addPercents_list :: "address \<Rightarrow> u64 \<Rightarrow> u64 \<Rightarrow> paymentPercents list \<Rightarrow> error + paymentPercents list" where
  "addPercents_list address percent chainId [] =
     Inr [\<lparr>ppcAddress = address, ppcPercent = percent, ppcChainId = chainId\<rparr>]"
| "addPercents_list address percent chainId (p # ps) =
     (if address = ppcAddress p
      then (if ppcPercent p > MaxUint64 - percent then Inl ErrInvalidPercentAllocation
            else Inr (p\<lparr>ppcPercent := ppcPercent p + percent\<rparr> # ps))
      else (case addPercents_list address percent chainId ps of
          Inl e \<Rightarrow> Inl e | Inr qs \<Rightarrow> Inr (p # qs)))"

definition addPercents :: "address \<Rightarrow> u64 \<Rightarrow> u64 \<Rightarrow> paymentPercents list \<Rightarrow> error + paymentPercents list" where
  "addPercents address percent chainId ps =
     (if percent = 0 then Inr ps else addPercents_list address percent chainId ps)"

fun combinePercents :: "u64 \<Rightarrow> paymentPercents list \<Rightarrow> paymentPercents list \<Rightarrow> error + paymentPercents list" where
  "combinePercents chainId [] acc = Inr acc"
| "combinePercents chainId (p # ps) acc =
     (if ppcChainId p = chainId
      then (case addPercents (ppcAddress p) (ppcPercent p) chainId acc of
          Inl e \<Rightarrow> Inl e | Inr acc' \<Rightarrow> combinePercents chainId ps acc')
      else combinePercents chainId ps acc)"

definition Combine :: "committeeData \<Rightarrow> u64 \<Rightarrow> committeeData \<Rightarrow> error + committeeData" where
  "Combine data chainId x =
     (case combinePercents chainId (cdPaymentPercents data) (cdPaymentPercents x) of
        Inl e \<Rightarrow> Inl e
      | Inr percents \<Rightarrow>
          if cdNumberOfSamples x = MaxUint64 then Inl ErrInvalidPercentAllocation
          else Inr \<lparr>cdChainId = cdChainId data,
            cdLastRootHeightUpdated = cdLastRootHeightUpdated data,
            cdLastChainHeightUpdated = cdLastChainHeightUpdated data,
            cdPaymentPercents = percents, cdNumberOfSamples = cdNumberOfSamples x + 1\<rparr>)"

definition GetCommitteesData :: "committeeData list fsm" where
  "GetCommitteesData = gets committeesData"

definition SetCommitteesData :: "committeeData list \<Rightarrow> unit fsm" where
  "SetCommitteesData l = modify (\<lambda>s. s\<lparr>committeesData := l\<rparr>)"

definition emptyCommitteeData :: "u64 \<Rightarrow> committeeData" where
  "emptyCommitteeData chainId = \<lparr>cdChainId = chainId, cdLastRootHeightUpdated = 0,
     cdLastChainHeightUpdated = 0, cdPaymentPercents = [], cdNumberOfSamples = 0\<rparr>"

fun findCommitteeData :: "u64 \<Rightarrow> committeeData list \<Rightarrow> committeeData list \<times> committeeData \<times> nat" where
  "findCommitteeData chainId [] = ([emptyCommitteeData chainId], emptyCommitteeData chainId, 0)"
| "findCommitteeData chainId (d # ds) =
     (if cdChainId d = chainId then (d # ds, d, 0)
      else (case findCommitteeData chainId ds of (l, t, i) \<Rightarrow> (d # l, t, Suc i)))"

definition getCommitteeDataAndList :: "u64 \<Rightarrow> (committeeData list \<times> committeeData \<times> nat) fsm" where
  "getCommitteeDataAndList targetChainId =
     bnd GetCommitteesData (\<lambda>l. ret (findCommitteeData targetChainId l))"

definition GetCommitteeData :: "u64 \<Rightarrow> committeeData fsm" where
  "GetCommitteeData targetChainId =
     bnd (getCommitteeDataAndList targetChainId) (\<lambda>(_, targetData, _). ret targetData)"

definition UpsertCommitteeData :: "committeeData \<Rightarrow> unit fsm" where
  "UpsertCommitteeData new =
     bnd (getCommitteeDataAndList (cdChainId new)) (\<lambda>(l, targetData, idx).
     if cdLastChainHeightUpdated new \<le> cdLastChainHeightUpdated targetData
     then err ErrInvalidQCCommitteeHeight
     else if cdLastRootHeightUpdated new < cdLastRootHeightUpdated targetData
     then err ErrInvalidQCRootChainHeight
     else bnd (gets (\<lambda>s. cfgChainId (cfg s))) (\<lambda>selfId.
       case Combine new selfId targetData of
         Inl e \<Rightarrow> err e
       | Inr combined \<Rightarrow> SetCommitteesData (l[idx := combined])))"

definition OverwriteCommitteeData :: "committeeData \<Rightarrow> unit fsm" where
  "OverwriteCommitteeData d =
     bnd (getCommitteeDataAndList (cdChainId d)) (\<lambda>(l, _, idx). SetCommitteesData (l[idx := d]))"

section \<open>Retired committees\<close>

definition RetireCommittee :: "u64 \<Rightarrow> unit fsm" where
  "RetireCommittee chainId =
     modify (\<lambda>s. s\<lparr>retiredCommittees := tset chainId () (retiredCommittees s)\<rparr>)"

definition CommitteeIsRetired :: "u64 \<Rightarrow> bool fsm" where
  "CommitteeIsRetired chainId = gets (\<lambda>s. tget (retiredCommittees s) chainId \<noteq> None)"

definition GetRetiredCommittees :: "u64 list fsm" where
  "GetRetiredCommittees = gets (\<lambda>s. map fst (retiredCommittees s))"

definition SetRetiredCommittees :: "u64 list \<Rightarrow> unit fsm" where
  "SetRetiredCommittees chainIds = for_each chainIds RetireCommittee"

section \<open>Membership moves no tokens\<close>

lemma neutral_members:
  "token_neutral (SetCommitteeMember a c x)" "token_neutral (DeleteCommitteeMember a c x)"
  "token_neutral (SetDelegate a c x)" "token_neutral (DeleteDelegate a c x)"
  unfolding SetCommitteeMember_def DeleteCommitteeMember_def SetDelegate_def DeleteDelegate_def
    IsFeatureEnabled_def
  by (intro neutral_rules neutral_modify; simp)+

lemma neutral_committees:
  "token_neutral (SetCommittees a x cs)" "token_neutral (DeleteCommittees a x cs)"
  "token_neutral (SetDelegations a x cs)" "token_neutral (DeleteDelegations a x cs)"
  unfolding SetCommittees_def DeleteCommittees_def SetDelegations_def DeleteDelegations_def
  by (intro neutral_rules; simp add: neutral_members neutral_supplyPool)+

lemma neutral_updates:
  "token_neutral (UpdateCommittees a v x cs)" "token_neutral (UpdateDelegations a v x cs)"
  unfolding UpdateCommittees_def UpdateDelegations_def
  by (intro neutral_rules; simp add: neutral_committees)+

lemma keeps_supplyPool:
  "(\<And>s sp. f (s\<lparr>supplyTracker := sp\<rparr>) = f s) \<Longrightarrow> keeps f (executeOnSupplyPool c ty g)"
  unfolding executeOnSupplyPool_def getSupplyPools_def GetSupply_def SetSupply_def
  by (intro keeps_rules) simp

lemma keeps_supplyForChain:
  assumes "\<And>s sp. f (s\<lparr>supplyTracker := sp\<rparr>) = f s"
  shows "keeps f (AddToCommitteeSupplyForChain c x)" "keeps f (AddToDelegateSupplyForChain c x)"
    "keeps f (SubFromCommitteeStakedSupplyForChain c x)"
    "keeps f (SubFromDelegateStakedSupplyForChain c x)"
  by (simp_all add: AddToCommitteeSupplyForChain_def AddToDelegateSupplyForChain_def
      SubFromCommitteeStakedSupplyForChain_def SubFromDelegateStakedSupplyForChain_def
      addToSupplyPool_def subFromSupplyPool_def keeps_supplyPool assms)

text \<open>Everything but the indexes and the supply tracker survives an update of the committees.\<close>

lemma keeps_committees:
  assumes "\<And>s sp. f (s\<lparr>supplyTracker := sp\<rparr>) = f s"
    and "\<And>s i. f (s\<lparr>committeeIndex := i\<rparr>) = f s" and "\<And>s i. f (s\<lparr>delegateIndex := i\<rparr>) = f s"
  shows "keeps f (SetCommittees a x cs)" "keeps f (DeleteCommittees a x cs)"
    "keeps f (SetDelegations a x cs)" "keeps f (DeleteDelegations a x cs)"
    "keeps f (UpdateCommittees a v x cs)" "keeps f (UpdateDelegations a v x cs)"
  unfolding SetCommittees_def DeleteCommittees_def SetDelegations_def DeleteDelegations_def
    UpdateCommittees_def UpdateDelegations_def
    SetCommitteeMember_def DeleteCommitteeMember_def SetDelegate_def DeleteDelegate_def IsFeatureEnabled_def
  by (intro keeps_rules keeps_supplyForChain assms)+

section \<open>Certificate results accumulate\<close>

text \<open>The data of one committee, with the default for a committee that has none yet.\<close>

definition committeeDataAt :: "state \<Rightarrow> u64 \<Rightarrow> committeeData" where
  "committeeDataAt s c = fst (snd (findCommitteeData c (committeesData s)))"

lemma findCommitteeData_spec:
  "findCommitteeData c l = (arr, d, i) \<Longrightarrow>
     i < length arr \<and> arr ! i = d \<and> cdChainId d = c \<and>
     (d = emptyCommitteeData c \<or> d \<in> set l) \<and>
     (distinct (map cdChainId l) \<longrightarrow> distinct (map cdChainId arr)) \<and>
     set (map cdChainId arr) = insert c (set (map cdChainId l))"
proof (induction l arbitrary: arr d i)
  case Nil
  then show ?case by (auto simp: emptyCommitteeData_def)
next
  case (Cons x l)
  show ?case
  proof (cases "cdChainId x = c")
    case True
    with Cons.prems show ?thesis by auto
  next
    case False
    obtain arr' d' i' where rec: "findCommitteeData c l = (arr', d', i')"
      by (metis prod_cases3)
    with Cons.prems False have "arr = x # arr'" "d = d'" "i = Suc i'" by auto
    with Cons.IH [OF rec] False show ?thesis by auto
  qed
qed

text \<open>Replacing the entry that was found changes the data of that committee only.\<close>

lemma find_update:
  "findCommitteeData c l = (arr, d, i) \<Longrightarrow> cdChainId e = c \<Longrightarrow>
   fst (snd (findCommitteeData c' (arr[i := e]))) =
     (if c' = c then e else fst (snd (findCommitteeData c' l)))"
proof (induction l arbitrary: arr d i)
  case Nil
  then show ?case by auto
next
  case (Cons x l)
  show ?case
  proof (cases "cdChainId x = c")
    case True
    with Cons.prems show ?thesis by (auto split: prod.splits)
  next
    case False
    obtain arr' d' i' where rec: "findCommitteeData c l = (arr', d', i')"
      by (metis prod_cases3)
    with Cons.prems False have "arr = x # arr'" "i = Suc i'" by auto
    with Cons.IH [OF rec] Cons.prems(2) False show ?thesis
      by (auto split: prod.splits)
  qed
qed

definition percentSum :: "paymentPercents list \<Rightarrow> nat" where
  "percentSum l = sum_list (map (unat \<circ> ppcPercent) l)"

text \<open>
  Each sample distributes at most 100 percent, so the accumulated percents stay within
  100 per sample. The reward distribution rests on this.
\<close>

definition percents_ok :: "committeeData \<Rightarrow> bool" where
  "percents_ok d \<longleftrightarrow> percentSum (cdPaymentPercents d) \<le> 100 * unat (cdNumberOfSamples d)"

lemma addPercents_list_sum:
  "addPercents_list a x c ps = Inr qs \<Longrightarrow> percentSum qs = percentSum ps + unat x"
  by (induction ps arbitrary: qs)
    (auto simp: percentSum_def unat_add_guarded split: if_splits sum.splits)

lemma addPercents_sum: "addPercents a x c ps = Inr qs \<Longrightarrow> percentSum qs = percentSum ps + unat x"
  by (auto simp: addPercents_def addPercents_list_sum split: if_splits)

lemma combinePercents_sum:
  "combinePercents c ps acc = Inr qs \<Longrightarrow>
   percentSum qs = percentSum acc + percentSum (filter (\<lambda>p. ppcChainId p = c) ps)"
proof (induction ps arbitrary: acc)
  case Nil
  then show ?case by (simp add: percentSum_def)
next
  case (Cons p ps)
  then show ?case
    by (auto simp: percentSum_def dest: addPercents_sum split: if_splits sum.splits)
qed

lemma Combine_ok:
  assumes run: "Combine data c x = Inr y" and ok: "percents_ok x"
    and new: "percentSum (filter (\<lambda>p. ppcChainId p = c) (cdPaymentPercents data)) \<le> 100"
  shows "percents_ok y"
proof -
  from run obtain qs where qs: "combinePercents c (cdPaymentPercents data) (cdPaymentPercents x) = Inr qs"
    and ne: "cdNumberOfSamples x \<noteq> MaxUint64"
    and y: "cdPaymentPercents y = qs" "cdNumberOfSamples y = cdNumberOfSamples x + 1"
    by (auto simp: Combine_def split: sum.splits if_splits)
  have "unat (cdNumberOfSamples x) \<noteq> 2 ^ 64 - 1"
    using ne by (metis unat_MaxUint64 word_unat_eq_iff)
  then have "unat (cdNumberOfSamples x + 1) = unat (cdNumberOfSamples x) + 1"
    using u64_bound [of "cdNumberOfSamples x"] by (subst unat_add_exact) auto
  with combinePercents_sum [OF qs] ok new show ?thesis
    by (simp add: percents_ok_def y)
qed

lemma Upsert_run:
  assumes "UpsertCommitteeData new s = (Inr r, t)"
  obtains arr d i e where
    "findCommitteeData (cdChainId new) (committeesData s) = (arr, d, i)"
    "cdLastChainHeightUpdated d < cdLastChainHeightUpdated new"
    "cdLastRootHeightUpdated d \<le> cdLastRootHeightUpdated new"
    "Combine new (cfgChainId (cfg s)) d = Inr e"
    "t = s\<lparr>committeesData := arr[i := e]\<rparr>"
proof -
  obtain arr d i where f: "findCommitteeData (cdChainId new) (committeesData s) = (arr, d, i)"
    by (metis prod_cases3)
  with assms that show ?thesis
    by (auto simp: UpsertCommitteeData_def getCommitteeDataAndList_def GetCommitteesData_def
        SetCommitteesData_def go_simps not_le not_less split: if_splits sum.splits)
qed

lemma Upsert_fails:
  assumes "cdLastChainHeightUpdated new \<le> cdLastChainHeightUpdated (committeeDataAt s (cdChainId new))"
  shows "UpsertCommitteeData new s = (Inl ErrInvalidQCCommitteeHeight, s)"
  using assms
  by (cases "findCommitteeData (cdChainId new) (committeesData s)")
    (simp add: UpsertCommitteeData_def getCommitteeDataAndList_def GetCommitteesData_def go_simps
      committeeDataAt_def)

lemma Combine_fields:
  "Combine new c d = Inr e \<Longrightarrow> cdChainId e = cdChainId new \<and>
     cdLastChainHeightUpdated e = cdLastChainHeightUpdated new \<and>
     cdLastRootHeightUpdated e = cdLastRootHeightUpdated new \<and>
     cdNumberOfSamples e = cdNumberOfSamples d + 1"
  by (auto simp: Combine_def split: sum.splits if_splits)

lemma committeeDataAt_update:
  assumes "findCommitteeData c (committeesData s) = (arr, d, i)" and "cdChainId e = c"
  shows "committeeDataAt (s\<lparr>committeesData := arr[i := e]\<rparr>) c' =
    (if c' = c then e else committeeDataAt s c')"
  using find_update [OF assms, of c'] by (simp add: committeeDataAt_def)

text \<open>
  Certificate results are accepted once and in order. An accepted result moves the chain
  height of its committee strictly forward and the root height never back, adds one sample,
  leaves every other committee alone, keeps the accumulated payment percents within 100 per
  sample, and the same result is rejected ever after.
\<close>

theorem certificate_results_in_order:
  assumes "UpsertCommitteeData new s = (Inr (), t)"
  shows "cdLastChainHeightUpdated (committeeDataAt s (cdChainId new)) <
           cdLastChainHeightUpdated (committeeDataAt t (cdChainId new)) \<and>
    cdLastRootHeightUpdated (committeeDataAt s (cdChainId new)) \<le>
      cdLastRootHeightUpdated (committeeDataAt t (cdChainId new)) \<and>
    cdNumberOfSamples (committeeDataAt t (cdChainId new)) =
      cdNumberOfSamples (committeeDataAt s (cdChainId new)) + 1 \<and>
    (\<forall>c. c \<noteq> cdChainId new \<longrightarrow> committeeDataAt t c = committeeDataAt s c) \<and>
    (percentSum (filter (\<lambda>p. ppcChainId p = cfgChainId (cfg s)) (cdPaymentPercents new)) \<le> 100 \<longrightarrow>
       percents_ok (committeeDataAt s (cdChainId new)) \<longrightarrow>
       percents_ok (committeeDataAt t (cdChainId new))) \<and>
    UpsertCommitteeData new t = (Inl ErrInvalidQCCommitteeHeight, t)"
proof -
  obtain arr d i e where f: "findCommitteeData (cdChainId new) (committeesData s) = (arr, d, i)"
    and lt: "cdLastChainHeightUpdated d < cdLastChainHeightUpdated new"
    and le: "cdLastRootHeightUpdated d \<le> cdLastRootHeightUpdated new"
    and comb: "Combine new (cfgChainId (cfg s)) d = Inr e"
    and t: "t = s\<lparr>committeesData := arr[i := e]\<rparr>"
    by (rule Upsert_run [OF assms])
  note fields = Combine_fields [OF comb]
  have at: "committeeDataAt t c = (if c = cdChainId new then e else committeeDataAt s c)" for c
    using committeeDataAt_update [OF f] fields by (simp add: t)
  have d: "committeeDataAt s (cdChainId new) = d" by (simp add: committeeDataAt_def f)
  have "UpsertCommitteeData new t = (Inl ErrInvalidQCCommitteeHeight, t)"
    by (rule Upsert_fails) (simp add: at fields)
  then show ?thesis
    using lt le fields by (simp add: at d Combine_ok [OF comb])
qed

theorem certificate_results_in_order_witness:
  "\<exists>t. UpsertCommitteeData \<lparr>cdChainId = 1, cdLastRootHeightUpdated = 3, cdLastChainHeightUpdated = 4,
      cdPaymentPercents = [\<lparr>ppcAddress = Addr [1], ppcPercent = 100, ppcChainId = 1\<rparr>],
      cdNumberOfSamples = 0\<rparr> exampleState = (Inr (), t) \<and>
    0 < cdLastChainHeightUpdated (committeeDataAt t 1)"
proof -
  let ?new = "\<lparr>cdChainId = 1, cdLastRootHeightUpdated = 3, cdLastChainHeightUpdated = 4,
      cdPaymentPercents = [\<lparr>ppcAddress = Addr [1], ppcPercent = 100, ppcChainId = 1\<rparr>],
      cdNumberOfSamples = 0\<rparr>"
  let ?m = "UpsertCommitteeData ?new exampleState"
  have run: "?m = (Inr (), snd ?m)"
    by (simp add: UpsertCommitteeData_def getCommitteeDataAndList_def GetCommitteesData_def
        SetCommitteesData_def go_simps exampleState_def emptyCommitteeData_def Combine_def
        addPercents_def MaxUint64_def)
  have "committeeDataAt exampleState 1 = emptyCommitteeData 1"
    by (simp add: committeeDataAt_def exampleState_def)
  with certificate_results_in_order [OF run]
  have "0 < cdLastChainHeightUpdated (committeeDataAt (snd ?m) 1)"
    by (simp add: emptyCommitteeData_def)
  with run show ?thesis by blast
qed

end
