(* ===== verification/Quorum.thy ===== *)
theory Quorum
  imports State Util Params
begin

text \<open>
  Validator sets, aggregate signatures, views and the stake weighted lottery
  (\<open>lib/consensus.go\<close>, the signer bitmap of \<open>lib/crypto/bls.go\<close>). The elliptic curve library
  and the hash function are parameters: \<open>pkOk\<close> says which bytes are public keys, \<open>maskOk n\<close>
  which bitmaps the mask of \<open>n\<close> keys accepts, \<open>verify\<close> whether an aggregate signature holds.
\<close>

unbundle bit_operations_syntax

section \<open>Validator sets\<close>

record consensusValidator =
  cvPublicKey :: bytes
  cvVotingPower :: u64
  cvNetAddress :: string

record validatorSet =
  vsValidators :: "consensusValidator list"
  vsTotalPower :: u64
  vsMinimumMaj23 :: u64
  vsNumValidators :: u64

abbreviation ErrNoValidators :: error where
  "ErrNoValidators \<equiv> Error ''NoValidators''"

abbreviation ErrInvalidSignerBitmap :: error where
  "ErrInvalidSignerBitmap \<equiv> Error ''InvalidSignerBitmap''"

abbreviation ErrInvalidAggrSignature :: error where
  "ErrInvalidAggrSignature \<equiv> Error ''InvalidAggrSignature''"

text \<open>
  \<open>pkOk\<close> stands for \<open>BytesToBLS12381Point\<close> (or \<open>NewPublicKeyFromBytes\<close> in a delegate set). The sum
  of the powers and the threshold are plain machine arithmetic.
\<close>

definition NewValidatorSet ::
    "(bytes \<Rightarrow> bool) \<Rightarrow> consensusValidator list \<Rightarrow> error + validatorSet" where
  "NewValidatorSet pkOk vals =
     (if \<not> list_all (\<lambda>v. pkOk (cvPublicKey v)) vals then Inl ErrPubKeyFromBytes
      else let totalPower = sum_list (map cvVotingPower vals) in
        if totalPower = 0 then Inl ErrNoValidators
        else Inr \<lparr>vsValidators = vals, vsTotalPower = totalPower,
               vsMinimumMaj23 = (2 * totalPower) div 3 + 1,
               vsNumValidators = of_nat (length vals)\<rparr>)"

fun GetValidatorAndIdx :: "consensusValidator list \<Rightarrow> bytes \<Rightarrow> (consensusValidator \<times> nat) option" where
  "GetValidatorAndIdx [] target = None"
| "GetValidatorAndIdx (v # vs) target =
     (if cvPublicKey v = target then Some (v, 0)
      else map_option (\<lambda>(w, i). (w, Suc i)) (GetValidatorAndIdx vs target))"

section \<open>Signer bitmaps\<close>

text \<open>An index past the keys is an error, a missing byte of the mask a panic; \<open>n\<close> is the number of keys.\<close>

definition SignerEnabledAt :: "nat \<Rightarrow> bytes \<Rightarrow> nat \<Rightarrow> error + bool" where
  "SignerEnabledAt n bitmap i =
     (if i > n then Inl ErrInvalidSignerBitmap
      else if i div 8 \<ge> length bitmap then Inl ErrPanic
      else Inr (bitmap ! (i div 8) AND push_bit (i mod 8) 1 \<noteq> 0))"

text \<open>The loop of \<open>getSigners\<close> from index \<open>i\<close> on.\<close>

fun getSigners_loop ::
    "nat \<Rightarrow> bytes \<Rightarrow> bool \<Rightarrow> nat \<Rightarrow> consensusValidator list \<Rightarrow> error + bytes list \<times> u64" where
  "getSigners_loop n bitmap wantNon i [] = Inr ([], 0)"
| "getSigners_loop n bitmap wantNon i (v # vs) =
     (case SignerEnabledAt n bitmap i of
        Inl e \<Rightarrow> Inl e
      | Inr didSign \<Rightarrow> (case getSigners_loop n bitmap wantNon (Suc i) vs of
            Inl e \<Rightarrow> Inl e
          | Inr (keys, pwr) \<Rightarrow>
              if didSign \<noteq> wantNon then Inr (cvPublicKey v # keys, cvVotingPower v + pwr)
              else Inr (keys, pwr)))"

definition getSigners ::
    "(nat \<Rightarrow> bytes \<Rightarrow> bool) \<Rightarrow> bytes \<Rightarrow> validatorSet \<Rightarrow> bool \<Rightarrow> error + bytes list \<times> u64" where
  "getSigners maskOk bitmap vs wantNon =
     (let n = length (vsValidators vs) in
      if \<not> maskOk n bitmap then Inl ErrInvalidSignerBitmap
      else getSigners_loop n bitmap wantNon 0 (vsValidators vs))"

definition GetSigners :: "(nat \<Rightarrow> bytes \<Rightarrow> bool) \<Rightarrow> bytes \<Rightarrow> validatorSet \<Rightarrow> error + bytes list \<times> u64" where
  "GetSigners maskOk bitmap vs = getSigners maskOk bitmap vs False"

definition GetNonSigners ::
    "(bytes \<Rightarrow> bool) \<Rightarrow> (nat \<Rightarrow> bytes \<Rightarrow> bool) \<Rightarrow> bytes \<Rightarrow> consensusValidator list
      \<Rightarrow> error + bytes list \<times> u64" where
  "GetNonSigners pkOk maskOk bitmap validatorList =
     (case NewValidatorSet pkOk validatorList of
        Inl e \<Rightarrow> Inl e
      | Inr vs \<Rightarrow> (case getSigners maskOk bitmap vs True of
            Inl e \<Rightarrow> Inl e
          | Inr (keys, pwr) \<Rightarrow> Inr (keys, Uint64PercentageDiv pwr (vsTotalPower vs))))"

fun GetDoubleSigners_loop ::
    "nat \<Rightarrow> bytes \<Rightarrow> bytes \<Rightarrow> nat \<Rightarrow> consensusValidator list \<Rightarrow> error + bytes list" where
  "GetDoubleSigners_loop n x y i [] = Inr []"
| "GetDoubleSigners_loop n x y i (v # vs) =
     (case SignerEnabledAt n x i of
        Inl e \<Rightarrow> Inl ErrInvalidSignerBitmap
      | Inr didSign \<Rightarrow>
          if didSign
          then (case SignerEnabledAt n y i of
              Inl e \<Rightarrow> Inl ErrInvalidSignerBitmap
            | Inr didSign2 \<Rightarrow> (case GetDoubleSigners_loop n x y (Suc i) vs of
                  Inl e \<Rightarrow> Inl e
                | Inr keys \<Rightarrow> Inr (if didSign2 then cvPublicKey v # keys else keys)))
          else GetDoubleSigners_loop n x y (Suc i) vs)"

definition GetDoubleSigners ::
    "(nat \<Rightarrow> bytes \<Rightarrow> bool) \<Rightarrow> bytes \<Rightarrow> bytes \<Rightarrow> validatorSet \<Rightarrow> error + bytes list" where
  "GetDoubleSigners maskOk x y vs =
     (let n = length (vsValidators vs) in
      if \<not> maskOk n x then Inl ErrInvalidSignerBitmap
      else if \<not> maskOk n y then Inl ErrInvalidSignerBitmap
      else GetDoubleSigners_loop n x y 0 (vsValidators vs))"

text \<open>\<open>lib.Signature\<close>: a public key and its signature of something.\<close>

record signature =
  sgPublicKey :: bytes
  sgSignature :: bytes

record aggregateSignature =
  asSignature :: bytes
  asBitmap :: bytes

text \<open>\<open>crypto.BLS12381SignatureSize\<close>\<close>

definition BLS12381SignatureSize :: nat where
  "BLS12381SignatureSize = 96"

definition AggregateSignature_CheckBasic :: "aggregateSignature \<Rightarrow> error + unit" where
  "AggregateSignature_CheckBasic x =
     (if length (asSignature x) \<noteq> BLS12381SignatureSize then Inl (Error ''InvalidAggrSignatureLength'')
      else if length (asBitmap x) = 0 then Inl (Error ''EmptySignerBitmap'')
      else Inr ())"

definition AggregateSignature_Check ::
    "(nat \<Rightarrow> bytes \<Rightarrow> bool) \<Rightarrow> (validatorSet \<Rightarrow> bytes \<Rightarrow> bytes \<Rightarrow> bytes \<Rightarrow> bool) \<Rightarrow> bytes \<Rightarrow> validatorSet
      \<Rightarrow> aggregateSignature \<Rightarrow> error + bool" where
  "AggregateSignature_Check maskOk verify signBytes vs x =
     (case AggregateSignature_CheckBasic x of
        Inl e \<Rightarrow> Inl e
      | Inr _ \<Rightarrow>
          if \<not> maskOk (length (vsValidators vs)) (asBitmap x) then Inl ErrInvalidSignerBitmap
          else if \<not> verify vs (asBitmap x) signBytes (asSignature x) then Inl ErrInvalidAggrSignature
          else (case GetSigners maskOk (asBitmap x) vs of
              Inl e \<Rightarrow> Inl e
            | Inr (_, totalSignedPower) \<Rightarrow> Inr (totalSignedPower < vsMinimumMaj23 vs)))"

section \<open>Views\<close>

record view =
  vwHeight :: u64
  vwRootHeight :: u64
  vwRound :: u64
  vwPhase :: u64
  vwNetworkId :: u64
  vwChainId :: u64

text \<open>A \<open>nil\<close> view is \<open>None\<close>.\<close>

definition View_Check :: "view \<Rightarrow> bool \<Rightarrow> view option \<Rightarrow> error + unit" where
  "View_Check vw enforceHeights x = (case x of
       None \<Rightarrow> Inl ErrEmptyView
     | Some x \<Rightarrow>
         if vwNetworkId vw \<noteq> vwNetworkId x then Inl ErrWrongNetworkID
         else if vwChainId vw \<noteq> vwChainId x then Inl ErrWrongChainId
         else if enforceHeights \<and> vwHeight x \<noteq> vwHeight vw then Inl (Error ''WrongViewHeight'')
         else if enforceHeights \<and> vwRootHeight x \<noteq> vwRootHeight vw then Inl (Error ''WrongRootHeight'')
         else Inr ())"

definition View_Equals :: "view option \<Rightarrow> view option \<Rightarrow> bool" where
  "View_Equals x v = (case (x, v) of
       (Some x, Some v) \<Rightarrow>
         if vwHeight x \<noteq> vwHeight v then False
         else if vwRootHeight x \<noteq> vwRootHeight v then False
         else if vwChainId x \<noteq> vwChainId v then False
         else if vwNetworkId x \<noteq> vwNetworkId v then False
         else if vwRound x \<noteq> vwRound v then False
         else if vwPhase x \<noteq> vwPhase v then False
         else True
     | _ \<Rightarrow> False)"

definition View_Less :: "view option \<Rightarrow> view option \<Rightarrow> bool" where
  "View_Less x v = (case v of
       None \<Rightarrow> False
     | Some v \<Rightarrow> (case x of
         None \<Rightarrow> True
       | Some x \<Rightarrow>
           if vwHeight x < vwHeight v then True
           else if vwHeight x > vwHeight v then False
           else if vwRootHeight x < vwRootHeight v then True
           else if vwRootHeight x > vwRootHeight v then False
           else if vwRound x < vwRound v then True
           else if vwRound x > vwRound v then False
           else if vwPhase x < vwPhase v then True
           else False))"

section \<open>The stake weighted lottery\<close>

definition hexDigit :: "nat \<Rightarrow> char" where
  "hexDigit n = (if n < 10 then char_of (48 + n) else char_of (87 + n))"

definition BytesToString :: "bytes \<Rightarrow> string" where
  "BytesToString b = concat (map (\<lambda>x. [hexDigit (unat x div 16), hexDigit (unat x mod 16)]) b)"

text \<open>The input of the hash; \<open>hash\<close> is \<open>crypto.Hash\<close>.\<close>

definition FormatInputIntoSeed :: "(string \<Rightarrow> bytes) \<Rightarrow> bytes list \<Rightarrow> u64 \<Rightarrow> u64 \<Rightarrow> u64 \<Rightarrow> bytes" where
  "FormatInputIntoSeed hash lastProposerAddresses rootHeight h rnd =
     hash (concat (map (\<lambda>a. BytesToString a @ ''/'') lastProposerAddresses) @
       showNat (unat rootHeight) @ ''/'' @ showNat (unat h) @ ''/'' @ showNat (unat rnd))"

fun pickWeighted :: "u64 \<Rightarrow> u64 \<Rightarrow> consensusValidator list \<Rightarrow> bytes option" where
  "pickWeighted powerIndex powerCount [] = None"
| "pickWeighted powerIndex powerCount (v # vs) =
     (let powerCount' = powerCount + cvVotingPower v in
      if powerCount' > powerIndex then Some (cvPublicKey v)
      else pickWeighted powerIndex powerCount' vs)"

text \<open>\<open>seedUint64\<close> are the first eight bytes of the seed. An empty set or no power is a panic.\<close>

definition WeightedPseudorandom :: "u64 \<Rightarrow> u64 \<Rightarrow> consensusValidator list \<Rightarrow> bytes option" where
  "WeightedPseudorandom seedUint64 totalPower vals =
     (if totalPower = 0 then None
      else let powerIndex = seedUint64 mod totalPower in
        case pickWeighted powerIndex 0 vals of
          Some pk \<Rightarrow> Some pk
        | None \<Rightarrow> if vals = [] then None else Some (cvPublicKey (last vals)))"

section \<open>Quorums\<close>

definition natPower :: "consensusValidator list \<Rightarrow> nat" where
  "natPower l = sum_list (map (unat \<circ> cvVotingPower) l)"

text \<open>The members of a list, indexed from \<open>i\<close>, whose index satisfies \<open>P\<close>.\<close>

fun membersAt :: "(nat \<Rightarrow> bool) \<Rightarrow> nat \<Rightarrow> consensusValidator list \<Rightarrow> consensusValidator list" where
  "membersAt P i [] = []"
| "membersAt P i (v # vs) = (if P i then v # membersAt P (Suc i) vs else membersAt P (Suc i) vs)"

definition signedAt :: "bytes \<Rightarrow> nat \<Rightarrow> bool" where
  "signedAt bitmap i \<longleftrightarrow> bitmap ! (i div 8) AND push_bit (i mod 8) 1 \<noteq> 0"

lemma natPower_simps [simp]: "natPower [] = 0" "natPower (v # vs) = unat (cvVotingPower v) + natPower vs"
  by (simp_all add: natPower_def)

lemma natPower_append [simp]: "natPower (xs @ ys) = natPower xs + natPower ys"
  by (simp add: natPower_def)

lemma power_exact: "natPower l < 2 ^ 64 \<Longrightarrow> unat (sum_list (map cvVotingPower l)) = natPower l"
  by (induction l) (simp_all add: unat_add_exact)

lemma membersAt_le: "natPower (membersAt P i vs) \<le> natPower vs"
  by (induction vs arbitrary: i) (auto simp: le_SucI trans_le_add2)

lemma membersAt_both:
  "natPower (membersAt P i vs) + natPower (membersAt Q i vs) =
   natPower (membersAt (\<lambda>j. P j \<or> Q j) i vs) + natPower (membersAt (\<lambda>j. P j \<and> Q j) i vs)"
proof (induction vs arbitrary: i)
  case Nil
  then show ?case by simp
next
  case (Cons v vs)
  from Cons.IH [of "Suc i"] show ?case by auto
qed

lemma SignerEnabledAt_Inr: "SignerEnabledAt n b i = Inr x \<Longrightarrow> x = signedAt b i"
  by (auto simp: SignerEnabledAt_def signedAt_def split: if_splits)

lemma getSigners_loop_spec:
  "getSigners_loop n b False i vs = Inr (keys, pwr) \<Longrightarrow>
     keys = map cvPublicKey (membersAt (signedAt b) i vs) \<and>
     pwr = sum_list (map cvVotingPower (membersAt (signedAt b) i vs))"
proof (induction vs arbitrary: i keys pwr)
  case Nil
  then show ?case by simp
next
  case (Cons v vs)
  then show ?case
    by (auto dest!: SignerEnabledAt_Inr split: sum.splits prod.splits if_splits)
qed

lemma getSigners_loop_enabled:
  "getSigners_loop n b False i vs = Inr r \<Longrightarrow> j < length vs \<Longrightarrow> \<exists>x. SignerEnabledAt n b (i + j) = Inr x"
proof (induction vs arbitrary: i j r)
  case Nil
  then show ?case by simp
next
  case (Cons v vs)
  obtain x r' where x: "SignerEnabledAt n b i = Inr x"
    and r': "getSigners_loop n b False (Suc i) vs = Inr r'"
    using Cons.prems(1) by (auto split: sum.splits)
  show ?case
  proof (cases j)
    case 0
    with x show ?thesis by simp
  next
    case (Suc k)
    with Cons.IH [OF r', of k] Cons.prems(2) show ?thesis by simp
  qed
qed

lemma GetDoubleSigners_loop_spec:
  assumes "\<And>j. j < length vs \<Longrightarrow> \<exists>x. SignerEnabledAt n a (i + j) = Inr x"
    and "\<And>j. j < length vs \<Longrightarrow> \<exists>x. SignerEnabledAt n b (i + j) = Inr x"
  shows "GetDoubleSigners_loop n a b i vs =
    Inr (map cvPublicKey (membersAt (\<lambda>j. signedAt a j \<and> signedAt b j) i vs))"
  using assms
proof (induction vs arbitrary: i)
  case Nil
  then show ?case by simp
next
  case (Cons v vs)
  from Cons.prems(1) [of 0] Cons.prems(2) [of 0]
  obtain xa xb where e: "SignerEnabledAt n a i = Inr xa" "SignerEnabledAt n b i = Inr xb" by auto
  have "GetDoubleSigners_loop n a b (Suc i) vs =
    Inr (map cvPublicKey (membersAt (\<lambda>j. signedAt a j \<and> signedAt b j) (Suc i) vs))"
  proof (rule Cons.IH)
    fix j assume "j < length vs"
    then show "\<exists>x. SignerEnabledAt n a (Suc i + j) = Inr x" "\<exists>x. SignerEnabledAt n b (Suc i + j) = Inr x"
      using Cons.prems(1) [of "Suc j"] Cons.prems(2) [of "Suc j"] by simp_all
  qed
  with e SignerEnabledAt_Inr [OF e(1)] SignerEnabledAt_Inr [OF e(2)] show ?case by simp
qed

lemma NewValidatorSet_Inr:
  assumes "NewValidatorSet pkOk vals = Inr vs"
  shows "vsValidators vs = vals" "vsTotalPower vs = sum_list (map cvVotingPower vals)"
    "vsMinimumMaj23 vs = (2 * vsTotalPower vs) div 3 + 1" "vsTotalPower vs \<noteq> 0"
  using assms by (auto simp: NewValidatorSet_def Let_def split: if_splits)

text \<open>The threshold as arithmetic, below half the range of the machine integer.\<close>

lemma maj23_value:
  assumes "NewValidatorSet pkOk vals = Inr vs" and "natPower vals < 2 ^ 63"
  shows "unat (vsMinimumMaj23 vs) = 2 * natPower vals div 3 + 1"
proof -
  note vs = NewValidatorSet_Inr [OF assms(1)]
  have T: "unat (vsTotalPower vs) = natPower vals"
    using vs(2) assms(2) power_exact [of vals] by simp
  have "unat (2 * vsTotalPower vs) = 2 * natPower vals"
    using T assms(2) by (simp add: unat_word_ariths)
  then have q: "unat ((2 * vsTotalPower vs) div 3) = 2 * natPower vals div 3"
    by (simp add: unat_div)
  have "2 * natPower vals div 3 \<le> 2 * natPower vals" by (rule div_le_dividend)
  then have "2 * natPower vals div 3 + 1 < 2 ^ 64" using assms(2) by simp
  with q show ?thesis unfolding vs(3) by (subst unat_add_exact) simp_all
qed

lemma GetSigners_power:
  assumes "NewValidatorSet pkOk vals = Inr vs" and "natPower vals < 2 ^ 64"
    and "GetSigners maskOk b vs = Inr (keys, pwr)"
  shows "unat pwr = natPower (membersAt (signedAt b) 0 vals)"
proof -
  have "getSigners_loop (length vals) b False 0 vals = Inr (keys, pwr)"
    using assms(3) NewValidatorSet_Inr(1) [OF assms(1)]
    by (simp add: GetSigners_def getSigners_def Let_def split: if_splits)
  from getSigners_loop_spec [OF this] show ?thesis
    using membersAt_le [of "signedAt b" 0 vals] assms(2) by (simp add: power_exact)
qed

lemma quorum_overlap:
  assumes vs: "NewValidatorSet pkOk vals = Inr vs" and small: "natPower vals < 2 ^ 63"
    and x: "GetSigners maskOk x vs = Inr (kx, px)" and y: "GetSigners maskOk y vs = Inr (ky, py)"
    and maj: "vsMinimumMaj23 vs \<le> px" "vsMinimumMaj23 vs \<le> py"
  shows "\<exists>both. GetDoubleSigners maskOk x y vs = Inr (map cvPublicKey both) \<and>
    both = membersAt (\<lambda>i. signedAt x i \<and> signedAt y i) 0 vals \<and>
    natPower vals < 3 * natPower both"
proof (intro exI conjI)
  let ?both = "membersAt (\<lambda>i. signedAt x i \<and> signedAt y i) 0 vals"
  note set = NewValidatorSet_Inr [OF vs]
  have loops: "maskOk (length vals) x" "getSigners_loop (length vals) x False 0 vals = Inr (kx, px)"
    "maskOk (length vals) y" "getSigners_loop (length vals) y False 0 vals = Inr (ky, py)"
    using x y set(1) by (simp_all add: GetSigners_def getSigners_def Let_def split: if_splits)
  have "GetDoubleSigners_loop (length vals) x y 0 vals = Inr (map cvPublicKey ?both)"
    using getSigners_loop_enabled [OF loops(2)] getSigners_loop_enabled [OF loops(4)]
    by (intro GetDoubleSigners_loop_spec) simp_all
  with loops set(1) show "GetDoubleSigners maskOk x y vs = Inr (map cvPublicKey ?both)"
    by (simp add: GetDoubleSigners_def Let_def)
  have pow: "unat px = natPower (membersAt (signedAt x) 0 vals)"
    "unat py = natPower (membersAt (signedAt y) 0 vals)"
    using GetSigners_power [OF vs _ x] GetSigners_power [OF vs _ y] small by simp_all
  have "2 * natPower vals div 3 + 1 \<le> unat px" "2 * natPower vals div 3 + 1 \<le> unat py"
    using maj maj23_value [OF vs small] by (simp_all add: unat_le_iff)
  moreover have "unat px + unat py \<le> natPower vals + natPower ?both"
    using membersAt_both [of "signedAt x" 0 vals "signedAt y"] pow
      membersAt_le [of "\<lambda>j. signedAt x j \<or> signedAt y j" 0 vals] by linarith
  ultimately show "natPower vals < 3 * natPower ?both" by linarith
qed (rule refl)

text \<open>
  C20: Any two aggregate signatures that reach the two thirds majority of the same validator set
  share signers with more than a third of the voting power, and \<open>GetDoubleSigners\<close> returns exactly
  them. It holds for a total power below \<open>2 ^ 63\<close>.
\<close>

theorem quorum_intersection:
  assumes "NewValidatorSet pkOk vals = Inr vs" and "natPower vals < 2 ^ 63"
    and "GetSigners maskOk x vs = Inr (kx, px)" and "GetSigners maskOk y vs = Inr (ky, py)"
    and "vsMinimumMaj23 vs \<le> px" "vsMinimumMaj23 vs \<le> py"
  shows "\<exists>both. GetDoubleSigners maskOk x y vs = Inr (map cvPublicKey both) \<and>
    both = membersAt (\<lambda>i. signedAt x i \<and> signedAt y i) 0 vals \<and>
    natPower vals < 3 * natPower both"
  using assms by (rule quorum_overlap)

definition exampleVals :: "consensusValidator list" where
  "exampleVals = [\<lparr>cvPublicKey = [1], cvVotingPower = 10, cvNetAddress = ''a''\<rparr>,
     \<lparr>cvPublicKey = [2], cvVotingPower = 10, cvNetAddress = ''b''\<rparr>,
     \<lparr>cvPublicKey = [3], cvVotingPower = 10, cvNetAddress = ''c''\<rparr>,
     \<lparr>cvPublicKey = [4], cvVotingPower = 10, cvNetAddress = ''d''\<rparr>]"

theorem quorum_intersection_witness:
  "\<exists>vs both. NewValidatorSet (\<lambda>_. True) exampleVals = Inr vs \<and>
     GetDoubleSigners (\<lambda>n b. length b = (n + 7) div 8) [7] [14] vs = Inr (map cvPublicKey both) \<and>
     40 < 3 * natPower both"
proof -
  let ?mask = "\<lambda>n b :: bytes. length b = (n + 7) div 8"
  obtain vs where vs: "NewValidatorSet (\<lambda>_. True) exampleVals = Inr vs"
    by (simp add: NewValidatorSet_def exampleVals_def)
  note set = NewValidatorSet_Inr [OF vs]
  have maj: "vsMinimumMaj23 vs = 27" by (simp add: set(2,3) exampleVals_def)
  have x: "GetSigners ?mask [7] vs = Inr ([[1], [2], [3]], 30)"
    and y: "GetSigners ?mask [14] vs = Inr ([[2], [3], [4]], 30)"
    by (simp_all add: GetSigners_def getSigners_def set(1) exampleVals_def SignerEnabledAt_def)
  have p: "natPower exampleVals = 40" by (simp add: exampleVals_def)
  from quorum_intersection [OF vs _ x y] vs show ?thesis
    by (simp add: p maj) blast
qed

text \<open>
  The threshold is computed as \<open>2 * totalPower\<close> in 64 bits, so from a total power of \<open>2 ^ 63\<close> on it
  wraps: in this set the signature of a validator with a single unit of power is a majority.
\<close>

theorem maj23_wraps:
  "\<exists>vs. NewValidatorSet (\<lambda>_. True) [\<lparr>cvPublicKey = [1], cvVotingPower = 2 ^ 63 - 1, cvNetAddress = []\<rparr>,
       \<lparr>cvPublicKey = [2], cvVotingPower = 1, cvNetAddress = []\<rparr>] = Inr vs \<and>
     vsTotalPower vs = 2 ^ 63 \<and>
     GetSigners (\<lambda>n b. length b = (n + 7) div 8) [2] vs = Inr ([[2]], 1) \<and> vsMinimumMaj23 vs \<le> 1"
  by (simp add: NewValidatorSet_def GetSigners_def getSigners_def SignerEnabledAt_def)

section \<open>The lottery\<close>

lemma pickWeighted_interval:
  "unat c + natPower vs < 2 ^ 64 \<Longrightarrow> i < length vs \<Longrightarrow>
   unat c + natPower (take i vs) \<le> unat k \<Longrightarrow> unat k < unat c + natPower (take (Suc i) vs) \<Longrightarrow>
   pickWeighted k c vs = Some (cvPublicKey (vs ! i))"
proof (induction vs arbitrary: c i)
  case Nil
  then show ?case by simp
next
  case (Cons v vs)
  have c': "unat (c + cvVotingPower v) = unat c + unat (cvVotingPower v)"
    using Cons.prems(1) by (intro unat_add_exact) simp
  show ?case
  proof (cases i)
    case 0
    with Cons.prems c' show ?thesis by (simp add: unat_less_iff)
  next
    case (Suc j)
    with Cons.prems c' have "pickWeighted k (c + cvVotingPower v) vs = Some (cvPublicKey (vs ! j))"
      by (intro Cons.IH) simp_all
    with Suc Cons.prems c' show ?thesis by (simp add: unat_less_iff)
  qed
qed

lemma power_position:
  "k < natPower vs \<Longrightarrow> \<exists>i < length vs. natPower (take i vs) \<le> k \<and> k < natPower (take (Suc i) vs)"
proof (induction vs arbitrary: k)
  case Nil
  then show ?case by simp
next
  case (Cons v vs)
  show ?case
  proof (cases "k < unat (cvVotingPower v)")
    case True
    then show ?thesis by (intro exI [of _ 0]) simp
  next
    case False
    then have "k - unat (cvVotingPower v) < natPower vs" using Cons.prems by simp
    with Cons.IH obtain i where
      "i < length vs" "natPower (take i vs) \<le> k - unat (cvVotingPower v)"
      "k - unat (cvVotingPower v) < natPower (take (Suc i) vs)" by blast
    with False show ?thesis by (intro exI [of _ "Suc i"]) (simp, linarith)
  qed
qed

text \<open>
  The lottery is weighted by stake. The tokens of the validators, laid end to end, partition the
  index range, the winner is the owner of the drawn token, and some validator with voting
  power always wins: the failsafe branch is never taken.
\<close>

theorem lottery_owner_of_token:
  assumes vs: "NewValidatorSet pkOk vals = Inr vs" and small: "natPower vals < 2 ^ 64"
  shows "\<exists>i < length vals. let k = unat seed mod natPower vals in
    natPower (take i vals) \<le> k \<and> k < natPower (take (Suc i) vals) \<and>
    WeightedPseudorandom seed (vsTotalPower vs) vals = Some (cvPublicKey (vals ! i))"
proof -
  note set = NewValidatorSet_Inr [OF vs]
  have T: "unat (vsTotalPower vs) = natPower vals"
    using set(2) power_exact [OF small] by simp
  have pos: "0 < natPower vals" using set(4) T by (metis unat_gt_0)
  let ?k = "seed mod vsTotalPower vs"
  have k: "unat ?k = unat seed mod natPower vals" by (simp add: unat_mod T)
  then have "unat ?k < natPower vals" using pos by simp
  then obtain i where i: "i < length vals" "natPower (take i vals) \<le> unat ?k"
    "unat ?k < natPower (take (Suc i) vals)" using power_position by blast
  have "pickWeighted ?k 0 vals = Some (cvPublicKey (vals ! i))"
    using i small by (intro pickWeighted_interval) simp_all
  then have "WeightedPseudorandom seed (vsTotalPower vs) vals = Some (cvPublicKey (vals ! i))"
    using set(4) by (simp add: WeightedPseudorandom_def Let_def)
  with i k show ?thesis by (intro exI [of _ i]) (simp add: Let_def)
qed

theorem lottery_owner_of_token_witness:
  "\<exists>vs. NewValidatorSet (\<lambda>_. True) exampleVals = Inr vs \<and>
     (\<exists>i < 4. WeightedPseudorandom 65 (vsTotalPower vs) exampleVals = Some (cvPublicKey (exampleVals ! i)))"
proof -
  obtain vs where vs: "NewValidatorSet (\<lambda>_. True) exampleVals = Inr vs"
    by (simp add: NewValidatorSet_def exampleVals_def)
  have "natPower exampleVals < 2 ^ 64" and len: "length exampleVals = 4"
    by (simp_all add: exampleVals_def)
  from lottery_owner_of_token [OF vs this(1), of 65] len vs show ?thesis
    by (auto simp: Let_def)
qed

section \<open>The order of views\<close>

definition viewKey :: "view \<Rightarrow> u64 \<times> u64 \<times> u64 \<times> u64" where
  "viewKey x = (vwHeight x, vwRootHeight x, vwRound x, vwPhase x)"

lemma View_Less_key: "View_Less (Some x) (Some v) \<longleftrightarrow> viewKey x < viewKey v"
  by (auto simp: View_Less_def viewKey_def less_prod_def)

lemma View_Equals_key:
  "View_Equals (Some x) (Some v) \<longleftrightarrow>
     viewKey x = viewKey v \<and> vwChainId x = vwChainId v \<and> vwNetworkId x = vwNetworkId v"
  by (auto simp: View_Equals_def viewKey_def)

text \<open>
  \<open>View.Less\<close> is a strict order, and within one chain and network any two views are equal in
  the sense of \<open>View.Equals\<close> or comparable, never both.
\<close>

theorem views_totally_ordered:
  "\<not> View_Less x x \<and>
   (View_Less x y \<and> View_Less y z \<longrightarrow> View_Less x z) \<and>
   (vwChainId v = vwChainId w \<and> vwNetworkId v = vwNetworkId w \<longrightarrow>
      (View_Less (Some v) (Some w) \<or> View_Less (Some w) (Some v)) \<noteq> View_Equals (Some v) (Some w))"
proof (intro conjI impI)
  show "\<not> View_Less x x"
    by (cases x) (simp_all add: View_Less_key, simp add: View_Less_def)
  show "View_Less x z" if "View_Less x y \<and> View_Less y z"
    using that by (cases x; cases y; cases z)
      (auto simp: View_Less_key, auto simp: View_Less_def)
  show "(View_Less (Some v) (Some w) \<or> View_Less (Some w) (Some v)) \<noteq> View_Equals (Some v) (Some w)"
    if "vwChainId v = vwChainId w \<and> vwNetworkId v = vwNetworkId w"
    using that by (auto simp: View_Less_key View_Equals_key)
qed

theorem views_totally_ordered_witness:
  "let v = \<lparr>vwHeight = 1, vwRootHeight = 2, vwRound = 0, vwPhase = 3, vwNetworkId = 1, vwChainId = 1\<rparr>;
       w = v\<lparr>vwRound := 1\<rparr>
   in (View_Less (Some v) (Some w) \<or> View_Less (Some w) (Some v)) \<noteq> View_Equals (Some v) (Some w)"
  using views_totally_ordered [of None None None
      "\<lparr>vwHeight = 1, vwRootHeight = 2, vwRound = 0, vwPhase = 3, vwNetworkId = 1, vwChainId = 1\<rparr>"
      "\<lparr>vwHeight = 1, vwRootHeight = 2, vwRound = 1, vwPhase = 3, vwNetworkId = 1, vwChainId = 1\<rparr>"]
  by (simp add: Let_def)

end
