(* ===== verification/Validators.thy ===== *)
theory Validators
  imports Committees Quorum
begin

text \<open>
  Validators and delegators (\<open>fsm/validator.go\<close>): staking, unstaking, pausing, and the committee
  that is derived from the validator records.
\<close>

section \<open>Reading and writing\<close>

definition GetValidator :: "address \<Rightarrow> validator fsm" where
  "GetValidator address = bnd (gets (\<lambda>s. tget (validators s) address)) (\<lambda>v. case v of
       None \<Rightarrow> err ErrValidatorNotExists
     | Some val \<Rightarrow> ret (val\<lparr>vAddress := address\<rparr>))"

definition GetValidatorExists :: "address \<Rightarrow> bool fsm" where
  "GetValidatorExists address = gets (\<lambda>s. tget (validators s) address \<noteq> None)"

definition GetValidators :: "validator list fsm" where
  "GetValidators = gets (\<lambda>s. map snd (validators s))"

definition SetValidator :: "validator \<Rightarrow> unit fsm" where
  "SetValidator validator = modify (\<lambda>s. s\<lparr>validators := tset (vAddress validator) validator (validators s)\<rparr>)"

definition UpdateValidatorStake :: "validator \<Rightarrow> u64 list \<Rightarrow> u64 \<Rightarrow> unit fsm" where
  "UpdateValidatorStake val newCommittees amountToAdd =
     (let address = vAddress val; newStakedAmount = vStakedAmount val + amountToAdd in
      seqm [AddToStakedSupply amountToAdd,
            if vDelegate val
            then seqm [AddToDelegateSupply amountToAdd,
                       UpdateDelegations address val newStakedAmount newCommittees]
            else UpdateCommittees address val newStakedAmount newCommittees,
            SetValidator (val\<lparr>vCommittees := newCommittees, vStakedAmount := newStakedAmount\<rparr>)])"

definition DeleteValidator :: "validator \<Rightarrow> unit fsm" where
  "DeleteValidator validator =
     (let addr = vAddress validator in
      seqm [SubFromStakedSupply (vStakedAmount validator),
            if vDelegate validator
            then seqm [SubFromDelegateSupply (vStakedAmount validator),
                       DeleteDelegations addr (vStakedAmount validator) (vCommittees validator)]
            else DeleteCommittees addr (vStakedAmount validator) (vCommittees validator),
            modify (\<lambda>s. s\<lparr>validators := tdel addr (validators s)\<rparr>)])"

section \<open>Pausing and unstaking\<close>

definition SetValidatorPaused :: "address \<Rightarrow> validator \<Rightarrow> u64 \<Rightarrow> unit fsm" where
  "SetValidatorPaused address validator maxPausedHeight =
     seqm [modify (\<lambda>s. s\<lparr>paused := tset (maxPausedHeight, address) () (paused s)\<rparr>),
           SetValidator (validator\<lparr>vMaxPausedHeight := maxPausedHeight\<rparr>)]"

definition SetValidatorUnpaused :: "address \<Rightarrow> validator \<Rightarrow> unit fsm" where
  "SetValidatorUnpaused address validator =
     seqm [modify (\<lambda>s. s\<lparr>paused := tdel (vMaxPausedHeight validator, address) (paused s)\<rparr>),
           SetValidator (validator\<lparr>vMaxPausedHeight := 0\<rparr>)]"

text \<open>The Go code mutates the validator it was given: unpausing clears its paused height too.\<close>

definition SetValidatorUnstaking :: "address \<Rightarrow> validator \<Rightarrow> u64 \<Rightarrow> unit fsm" where
  "SetValidatorUnstaking address validator finishUnstakingHeight =
     seqm [modify (\<lambda>s. s\<lparr>unstaking := tset (finishUnstakingHeight, address) () (unstaking s)\<rparr>),
           if vMaxPausedHeight validator \<noteq> 0 then SetValidatorUnpaused address validator else ret (),
           SetValidator (validator\<lparr>vMaxPausedHeight := 0, vUnstakingHeight := finishUnstakingHeight\<rparr>)]"

definition SetValidatorUnstakingIfBelowMinimum :: "validator \<Rightarrow> validatorParams \<Rightarrow> bool fsm" where
  "SetValidatorUnstakingIfBelowMinimum validator params =
     (if vUnstakingHeight validator \<noteq> 0 then ret False
      else
        let (unstakingBlocks, belowMinimum) =
          (if vDelegate validator
           then (if vStakedAmount validator < vpMinimumStakeForDelegates params
                 then (vpDelegateUnstakingBlocks params, True) else (0, False))
           else (if vStakedAmount validator < vpMinimumStakeForValidators params
                 then (vpUnstakingBlocks params, True) else (0, False)))
        in if belowMinimum
           then bnd (gets height) (\<lambda>h.
             bnd (SetValidatorUnstaking (vAddress validator) validator (h + unstakingBlocks))
               (\<lambda>_. ret True))
           else ret False)"

text \<open>The keys of the unstaking index at the current height.\<close>

definition unstakingAt :: "u64 \<Rightarrow> state \<Rightarrow> address list" where
  "unstakingAt h s = map (snd \<circ> fst) (filter (\<lambda>((g, _), _). g = h) (unstaking s))"

definition DeleteFinishedUnstaking :: "unit fsm" where
  "DeleteFinishedUnstaking =
     bnd (gets height) (\<lambda>h.
     bnd (gets (unstakingAt h)) (\<lambda>addrs.
     seqm [for_each addrs (\<lambda>addr.
             bnd (GetValidator addr) (\<lambda>validator.
             seqm [AccountAdd (vOutput validator) (vStakedAmount validator),
                   DeleteValidator validator,
                   EventFinishUnstaking addr])),
           for_each addrs (\<lambda>addr. modify (\<lambda>s. s\<lparr>unstaking := tdel (h, addr) (unstaking s)\<rparr>))]))"

section \<open>Genesis\<close>

text \<open>The supply object is the local variable genesis accumulates into.\<close>

definition setGenesisValidator :: "validator \<Rightarrow> Supply \<Rightarrow> Supply fsm" where
  "setGenesisValidator val sp =
     (if sTotal sp > MaxUint64 - vStakedAmount val \<or> sStaked sp > MaxUint64 - vStakedAmount val
      then err ErrInvalidAmount
      else if vDelegate val \<and> sDelegatedOnly sp > MaxUint64 - vStakedAmount val
      then err ErrInvalidAmount
      else
        let val' = (if vUnstakingHeight val \<noteq> 0 then val\<lparr>vMaxPausedHeight := 0\<rparr> else val) in
        bnd (if vUnstakingHeight val \<noteq> 0
             then SetValidatorUnstaking (vAddress val) val (vUnstakingHeight val)
             else if vMaxPausedHeight val \<noteq> 0
             then SetValidatorPaused (vAddress val) val (vMaxPausedHeight val)
             else ret ()) (\<lambda>_.
        bnd (SetValidator val') (\<lambda>_.
        if vDelegate val
        then bnd (SetDelegations (vAddress val) (vStakedAmount val) (vCommittees val))
          (\<lambda>_. ret (sp\<lparr>sTotal := sTotal sp + vStakedAmount val, sStaked := sStaked sp + vStakedAmount val,
                       sDelegatedOnly := sDelegatedOnly sp + vStakedAmount val\<rparr>))
        else bnd (SetCommittees (vAddress val) (vStakedAmount val) (vCommittees val))
          (\<lambda>_. ret (sp\<lparr>sTotal := sTotal sp + vStakedAmount val,
                       sStaked := sStaked sp + vStakedAmount val\<rparr>)))))"

definition SetValidators :: "validator list \<Rightarrow> Supply \<Rightarrow> Supply fsm" where
  "SetValidators vals sp0 =
     bnd (fold_m setGenesisValidator vals sp0) (\<lambda>sp.
     bnd GetSupply (\<lambda>supplyFromState.
     ret (sp\<lparr>sCommitteeStaked := sCommitteeStaked supplyFromState,
             sCommitteeDelegatedOnly := sCommitteeDelegatedOnly supplyFromState\<rparr>)))"

section \<open>Who may sign, who sits in a committee\<close>

definition GetAuthorizedSignersForValidator :: "address \<Rightarrow> address list fsm" where
  "GetAuthorizedSignersForValidator address =
     bnd (GetValidator address) (\<lambda>validator.
     ret (if vAddress validator = vOutput validator then [vAddress validator]
          else [vAddress validator, vOutput validator]))"

datatype FilterOption = FilterOption_Off | FilterOption_MustBe | FilterOption_Exclude

record validatorFilters =
  vfUnstaking :: FilterOption
  vfPaused :: FilterOption
  vfDelegate :: FilterOption
  vfCommittee :: u64

definition passes :: "FilterOption \<Rightarrow> bool \<Rightarrow> bool" where
  "passes f b = (case f of FilterOption_Off \<Rightarrow> True | FilterOption_MustBe \<Rightarrow> b
     | FilterOption_Exclude \<Rightarrow> \<not> b)"

definition PassesFilter :: "validatorFilters \<Rightarrow> validator \<Rightarrow> bool" where
  "PassesFilter f x =
     (if \<not> passes (vfUnstaking f) (vUnstakingHeight x \<noteq> 0) then False
      else if \<not> passes (vfPaused f) (vMaxPausedHeight x \<noteq> 0) then False
      else if \<not> passes (vfDelegate f) (vDelegate x) then False
      else if vfCommittee f \<noteq> 0 \<and> vfCommittee f \<notin> set (vCommittees x) then False
      else True)"

text \<open>
  Sorted by descending stake and then by descending address bytes (\<open>bytes.Compare\<close>). Addresses are
  distinct, so the unstable sort of the library has one possible result.
\<close>

definition stakeOrder :: "validator \<Rightarrow> u64 \<times> bytes" where
  "stakeOrder v = (vStakedAmount v, addr_bytes (vAddress v))"

definition committeeOf :: "u64 \<Rightarrow> bool \<Rightarrow> state \<Rightarrow> validator list" where
  "committeeOf chainId delegate s =
     (let p = paramsVal s;
          maxPerCommittee = (if delegate then vpMaximumDelegatesPerCommittee p else vpMaxCommitteeSize p);
          f = \<lparr>vfUnstaking = FilterOption_Exclude, vfPaused = FilterOption_Exclude,
               vfDelegate = (if delegate then FilterOption_MustBe else FilterOption_Exclude),
               vfCommittee = chainId\<rparr>;
          filtered = rev (sort_key stakeOrder (filter (PassesFilter f) (map snd (validators s))));
          limit = (if maxPerCommittee > 0 then min (length filtered) (unat maxPerCommittee)
                   else length filtered)
      in take limit filtered)"

definition toConsensusValidator :: "validator \<Rightarrow> consensusValidator" where
  "toConsensusValidator v = \<lparr>cvPublicKey = vPublicKey v, cvVotingPower = vStakedAmount v,
     cvNetAddress = vNetAddress v\<rparr>"

text \<open>\<open>pkOk\<close> of the validator set is asked per kind of set.\<close>

definition getValidatorSet :: "(bool \<Rightarrow> bytes \<Rightarrow> bool) \<Rightarrow> u64 \<Rightarrow> bool \<Rightarrow> validatorSet fsm" where
  "getValidatorSet pkOk chainId delegate =
     bnd (gets (committeeOf chainId delegate)) (\<lambda>members.
     case NewValidatorSet (pkOk delegate) (map toConsensusValidator members) of
       Inl e \<Rightarrow> err e
     | Inr vs \<Rightarrow> ret vs)"

definition GetCommitteeMembers :: "(bool \<Rightarrow> bytes \<Rightarrow> bool) \<Rightarrow> u64 \<Rightarrow> validatorSet fsm" where
  "GetCommitteeMembers pkOk chainId = getValidatorSet pkOk chainId False"

definition GetDelegates :: "(bool \<Rightarrow> bytes \<Rightarrow> bool) \<Rightarrow> u64 \<Rightarrow> validatorSet fsm" where
  "GetDelegates pkOk chainId = getValidatorSet pkOk chainId True"

section \<open>Stake and tokens\<close>

definition stakeAt :: "state \<Rightarrow> address \<Rightarrow> nat" where
  "stakeAt s a = (case tget (validators s) a of None \<Rightarrow> 0 | Some v \<Rightarrow> unat (vStakedAmount v))"

lemma stakeAt_le_tokens: "stakeAt s a \<le> tokens s"
  using tsum_ge [of "validators s" a _ "unat \<circ> vStakedAmount"]
  by (force simp: stakeAt_def token_defs split: option.splits)

lemma neutral_frame:
  assumes "token_neutral m"
  shows "hoare (\<lambda>s. inflight d s \<and> R (validators s)) m (\<lambda>_ s. inflight d s \<and> R (validators s))"
proof -
  have "keeps validators m" using assms by (simp add: token_neutral_def keeps_def)
  then show ?thesis by (rule hoare_frame) (rule neutral_inflight [OF assms])
qed

lemma SetValidator_run:
  "SetValidator v s = (Inr (), s\<lparr>validators := tset (vAddress v) v (validators s)\<rparr>)"
  by (simp add: SetValidator_def go_simps)

lemma SetValidator_inflight:
  "hoare (\<lambda>s. inflight d s \<and> d + stakeAt s (vAddress v) = d' + unat (vStakedAmount v))
     (SetValidator v) (\<lambda>_. inflight d')"
proof (rule hoareI)
  fix s r t
  assume pre: "inflight d s \<and> d + stakeAt s (vAddress v) = d' + unat (vStakedAmount v)"
    and run: "SetValidator v s = (Inr r, t)"
  have t: "t = s\<lparr>validators := tset (vAddress v) v (validators s)\<rparr>"
    using run by (simp add: SetValidator_run)
  have "tok (validators s)" using pre by (simp add: inflight_def wf_def)
  from tsum_tset [OF this, of "unat \<circ> vStakedAmount" "vAddress v" v]
  have "tokens t + stakeAt s (vAddress v) = tokens s + unat (vStakedAmount v)"
    by (simp add: t token_defs stakeAt_def split: option.splits)
  with pre show "inflight d' t" by (simp add: inflight_def wf_def t table_simps)
qed

lemma SetValidator_same_stake:
  assumes "tget (validators s) (vAddress v) = Some w" and "vStakedAmount w = vStakedAmount v"
    and "inflight d s"
  shows "inflight d (s\<lparr>validators := tset (vAddress v) v (validators s)\<rparr>)"
  using hoareD [OF SetValidator_inflight [of d v d], of s "()"] assms
  by (simp add: SetValidator_run stakeAt_def)

lemma UpdateValidatorStake_inflight:
  "hoare (\<lambda>s. inflight (d + unat x) s \<and> stakeAt s (vAddress val) = unat (vStakedAmount val))
     (UpdateValidatorStake val cs x) (\<lambda>_. inflight d)"
proof -
  let ?new = "val\<lparr>vCommittees := cs, vStakedAmount := vStakedAmount val + x\<rparr>"
  let ?J = "\<lambda>s. inflight (d + unat x) s \<and> stakeAt s (vAddress val) = unat (vStakedAmount val)"
  have keep: "hoare ?J m (\<lambda>_. ?J)" if "token_neutral m" for m :: "unit fsm"
    using neutral_frame [OF that, of "d + unat x" "\<lambda>V. (case tget V (vAddress val) of None \<Rightarrow> 0
        | Some v \<Rightarrow> unat (vStakedAmount v)) = unat (vStakedAmount val)"]
    by (simp add: stakeAt_def)
  have final: "hoare ?J (SetValidator ?new) (\<lambda>_. inflight d)"
  proof (rule hoare_pre [OF SetValidator_inflight])
    fix s assume J: "?J s"
    then have "unat (vStakedAmount val) + unat x < 2 ^ 64"
      using inflight_bound [of "d + unat x" s] stakeAt_le_tokens [of s "vAddress val"] by auto
    with J show "inflight (d + unat x) s \<and>
        d + unat x + stakeAt s (vAddress ?new) = d + unat (vStakedAmount ?new)"
      by (simp add: unat_add_exact)
  qed
  show ?thesis
    unfolding UpdateValidatorStake_def Let_def
    by (intro hoare_seqm_Cons [OF keep] hoare_seqm_Cons [OF final] hoare_seqm_Nil neutral_rules)
      (simp_all add: neutral_updates neutral_supply)
qed

lemma DeleteValidator_inflight:
  "hoare (\<lambda>s. inflight d s \<and> stakeAt s (vAddress val) = unat (vStakedAmount val))
     (DeleteValidator val) (\<lambda>_. inflight (d + unat (vStakedAmount val)))"
proof -
  let ?J = "\<lambda>s. inflight d s \<and> stakeAt s (vAddress val) = unat (vStakedAmount val)"
  have keep: "hoare ?J m (\<lambda>_. ?J)" if "token_neutral m" for m :: "unit fsm"
    using neutral_frame [OF that, of d "\<lambda>V. (case tget V (vAddress val) of None \<Rightarrow> 0
        | Some v \<Rightarrow> unat (vStakedAmount v)) = unat (vStakedAmount val)"]
    by (simp add: stakeAt_def)
  have final: "hoare ?J (modify (\<lambda>s. s\<lparr>validators := tdel (vAddress val) (validators s)\<rparr>))
      (\<lambda>_. inflight (d + unat (vStakedAmount val)))"
  proof (rule hoare_modify)
    fix s assume J: "?J s"
    then have "tok (validators s)" by (simp add: inflight_def wf_def)
    from tsum_tdel [OF this, of "unat \<circ> vStakedAmount" "vAddress val"] J
    show "inflight (d + unat (vStakedAmount val)) (s\<lparr>validators := tdel (vAddress val) (validators s)\<rparr>)"
      by (auto simp: inflight_def wf_def token_defs stakeAt_def table_simps split: option.splits)
  qed
  show ?thesis
    unfolding DeleteValidator_def Let_def
    by (intro hoare_seqm_Cons [OF keep] hoare_seqm_Cons [OF final] hoare_seqm_Nil neutral_rules)
      (simp_all add: neutral_committees neutral_supply)
qed

text \<open>
  Finished unstaking credits the output account before it removes the stake. The credit is
  guarded, so the books are off by exactly the stake in between and balance again after.
\<close>

lemma AccountAdd_tokens:
  assumes "AccountAdd a x s = (Inr r, t)" and "wf s"
  shows "tokens t = tokens s + unat x \<and> wf t \<and> validators t = validators s \<and>
    supplyTracker t = supplyTracker s"
proof (cases "x = 0")
  case True
  with assms show ?thesis by (simp add: AccountAdd_run)
next
  case False
  let ?acc = "(accountAt s a)\<lparr>acAmount := acAmount (accountAt s a) + x\<rparr>"
  from False assms have small: "unat (acAmount (accountAt s a)) + unat x < 2 ^ 64"
    and t: "t = s\<lparr>accounts := putAccount (height s) ?acc (accounts s)\<rparr>"
    by (auto simp: AccountAdd_run split: if_splits)
  have "tok (accounts s)" using assms(2) by (simp add: wf_def)
  from accTokens_put [OF this, of "height s" ?acc] assms(2) show ?thesis
    by (simp add: t token_defs wf_def unat_add_exact [OF small])
qed

lemma neutral_run:
  assumes "token_neutral m" and "m s = (r, t)"
  shows "tokens t = tokens s \<and> (wf s \<longrightarrow> wf t) \<and> validators t = validators s \<and>
    sTotal (supplyTracker t) = sTotal (supplyTracker s)"
  using assms by (auto simp: token_neutral_def token_defs wf_def dest!: spec [of _ s])

lemma DeleteValidator_tokens:
  assumes "DeleteValidator val s = (Inr r, t)" and "wf s"
    and "stakeAt s (vAddress val) = unat (vStakedAmount val)"
  shows "tokens t + unat (vStakedAmount val) = tokens s \<and> wf t \<and>
    sTotal (supplyTracker t) = sTotal (supplyTracker s) \<and>
    validators t = tdel (vAddress val) (validators s)"
proof -
  obtain u v where u: "SubFromStakedSupply (vStakedAmount val) s = (Inr (), u)"
    and v: "(if vDelegate val
            then seqm [SubFromDelegateSupply (vStakedAmount val),
                       DeleteDelegations (vAddress val) (vStakedAmount val) (vCommittees val)]
            else DeleteCommittees (vAddress val) (vStakedAmount val) (vCommittees val)) u = (Inr (), v)"
    and t: "t = v\<lparr>validators := tdel (vAddress val) (validators v)\<rparr>"
    using assms(1) by (auto simp: DeleteValidator_def Let_def bnd_Inr modify_run ret_run)
  have 1: "tokens u = tokens s \<and> (wf s \<longrightarrow> wf u) \<and> validators u = validators s \<and>
      sTotal (supplyTracker u) = sTotal (supplyTracker s)"
    by (rule neutral_run [OF neutral_supply(2) u])
  have "token_neutral (if vDelegate val
            then seqm [SubFromDelegateSupply (vStakedAmount val),
                       DeleteDelegations (vAddress val) (vStakedAmount val) (vCommittees val)]
            else DeleteCommittees (vAddress val) (vStakedAmount val) (vCommittees val))"
    by (intro neutral_rules) (simp_all add: neutral_committees neutral_supply)
  from neutral_run [OF this v] 1 assms(2) have v': "tokens v = tokens s" "wf v"
    "validators v = validators s" "sTotal (supplyTracker v) = sTotal (supplyTracker s)" by auto
  have "tok (validators v)" using v' by (simp add: wf_def)
  from tsum_tdel [OF this, of "unat \<circ> vStakedAmount" "vAddress val"] v' assms(3) show ?thesis
    by (auto simp: t token_defs wf_def stakeAt_def table_simps split: option.splits)
qed

lemma GetValidator_Inr:
  "GetValidator a s = (Inr v, t) \<longleftrightarrow> t = s \<and> (\<exists>w. tget (validators s) a = Some w \<and> v = w\<lparr>vAddress := a\<rparr>)"
  by (auto simp: GetValidator_def go_simps split: option.splits)

lemma DeleteFinishedUnstaking_inflight: "hoare (inflight d) DeleteFinishedUnstaking (\<lambda>_. inflight d)"
proof -
  have step: "hoare (inflight d) (bnd (GetValidator addr) (\<lambda>validator.
      seqm [AccountAdd (vOutput validator) (vStakedAmount validator),
            DeleteValidator validator, EventFinishUnstaking addr])) (\<lambda>_. inflight d)" for addr
  proof (rule hoareI)
    fix s r t
    assume pre: "inflight d s" and run: "bnd (GetValidator addr) (\<lambda>validator.
      seqm [AccountAdd (vOutput validator) (vStakedAmount validator),
            DeleteValidator validator, EventFinishUnstaking addr]) s = (Inr r, t)"
    from run obtain w val u v where w: "tget (validators s) addr = Some w" "val = w\<lparr>vAddress := addr\<rparr>"
      and u: "AccountAdd (vOutput val) (vStakedAmount val) s = (Inr (), u)"
      and v: "DeleteValidator val u = (Inr (), v)"
      and t: "EventFinishUnstaking addr v = (Inr (), t)"
      by (auto simp: bnd_Inr GetValidator_Inr ret_run)
    have wf: "wf s" using pre by (simp add: inflight_def)
    note add = AccountAdd_tokens [OF u wf]
    have stake: "stakeAt u (vAddress val) = unat (vStakedAmount val)"
      using add w by (simp add: stakeAt_def)
    note del = DeleteValidator_tokens [OF v _ stake]
    note ev = neutral_run [OF neutral_events(5) t]
    from add del ev pre show "inflight d t" by (auto simp: inflight_def)
  qed
  have del: "hoare (inflight d) (modify (\<lambda>s. s\<lparr>unstaking := tdel (h, a) (unstaking s)\<rparr>) :: unit fsm)
      (\<lambda>_. inflight d)" for h a by (rule neutral_inflight) (simp add: neutral_modify)
  show ?thesis
    unfolding DeleteFinishedUnstaking_def
    by (intro hoare_bnd [OF hoare_gets] hoare_seqm_Cons [OF hoare_for_each]
        hoare_seqm_Nil) (simp_all only: step del)
qed


section \<open>The stake ledger\<close>

text \<open>
  The supply tracker repeats what the validator records say: the total stake, the delegated
  stake, and for every committee the stake of its members and of its delegates. A validator that
  lists a committee twice counts twice.
\<close>

definition memberStake :: "u64 \<Rightarrow> validator \<Rightarrow> nat" where
  "memberStake c v = count_list (vCommittees v) c * unat (vStakedAmount v)"

definition delegateStake :: "u64 \<Rightarrow> validator \<Rightarrow> nat" where
  "delegateStake c v = (if vDelegate v then memberStake c v else 0)"

definition delegatedOnly :: "validator \<Rightarrow> nat" where
  "delegatedOnly v = (if vDelegate v then unat (vStakedAmount v) else 0)"

definition ledger :: "state \<Rightarrow> bool" where
  "ledger s \<longleftrightarrow> tok (validators s) \<and>
     unat (sStaked (supplyTracker s)) = tsum (unat \<circ> vStakedAmount) (validators s) \<and>
     unat (sDelegatedOnly (supplyTracker s)) = tsum delegatedOnly (validators s) \<and>
     (\<forall>c. committeeStake CommitteesWithDelegations s c = tsum (memberStake c) (validators s)) \<and>
     (\<forall>c. committeeStake DelegationsOnly s c = tsum (delegateStake c) (validators s))"

text \<open>What an update of the committees does to the supply: \<open>m\<close> and \<open>d\<close> are the two stakes per committee.\<close>

definition supplyMoved :: "state \<Rightarrow> state \<Rightarrow> (u64 \<Rightarrow> nat) \<Rightarrow> (u64 \<Rightarrow> nat) \<Rightarrow> (u64 \<Rightarrow> nat) \<Rightarrow> (u64 \<Rightarrow> nat) \<Rightarrow> bool" where
  "supplyMoved s t m d m' d' \<longleftrightarrow>
     (\<forall>c. committeeStake CommitteesWithDelegations t c + m c = committeeStake CommitteesWithDelegations s c + m' c) \<and>
     (\<forall>c. committeeStake DelegationsOnly t c + d c = committeeStake DelegationsOnly s c + d' c) \<and>
     sStaked (supplyTracker t) = sStaked (supplyTracker s) \<and>
     sDelegatedOnly (supplyTracker t) = sDelegatedOnly (supplyTracker s) \<and> validators t = validators s"

lemma supplyMoved_trans:
  "supplyMoved s t m d m' d' \<Longrightarrow> supplyMoved t u n e n' e' \<Longrightarrow>
   supplyMoved s u (\<lambda>c. m c + n c) (\<lambda>c. d c + e c) (\<lambda>c. m' c + n' c) (\<lambda>c. d' c + e' c)"
  unfolding supplyMoved_def by (intro conjI allI; simp) (metis add.assoc add.commute)+

lemma staked_executeOnSupplyPool:
  "executeOnSupplyPool c ty f s = (r, t) \<Longrightarrow>
     sStaked (supplyTracker t) = sStaked (supplyTracker s) \<and>
     sDelegatedOnly (supplyTracker t) = sDelegatedOnly (supplyTracker s) \<and> validators t = validators s"
  by (cases ty; cases "findOrCreateSupplyPool (supplyPools ty (supplyTracker s)) c")
    (auto simp: executeOnSupplyPool_run setSupplyPools_def split: sum.splits)

lemma index_moved:
  assumes "(SetCommitteeMember a c x s = (r, t) \<or> DeleteCommitteeMember a c x s = (r, t)) \<or>
           (SetDelegate a c x s = (r, t) \<or> DeleteDelegate a c x s = (r, t))"
  shows "supplyTracker t = supplyTracker s \<and> validators t = validators s"
  using assms
  by (auto simp: SetCommitteeMember_def DeleteCommitteeMember_def SetDelegate_def DeleteDelegate_def
      IsFeatureEnabled_def go_simps split: if_splits)

lemma committeeStake_cong: "supplyTracker t = supplyTracker s \<Longrightarrow> committeeStake ty t = committeeStake ty s"
  by (simp add: committeeStake_def)

lemma committeeSupply_moved:
  assumes "AddToCommitteeSupplyForChain c x s = (Inr r, t)"
  shows "supplyMoved s t (\<lambda>_. 0) (\<lambda>_. 0) (\<lambda>i. if i = c then unat x else 0) (\<lambda>_. 0)"
  using addToSupplyPool_stake [of c x CommitteesWithDelegations s r t]
    staked_executeOnSupplyPool [OF assms [unfolded AddToCommitteeSupplyForChain_def addToSupplyPool_def]]
    assms unfolding supplyMoved_def AddToCommitteeSupplyForChain_def by auto

lemma delegateSupply_moved:
  assumes "AddToDelegateSupplyForChain c x s = (Inr r, t)"
  shows "supplyMoved s t (\<lambda>_. 0) (\<lambda>_. 0) (\<lambda>_. 0) (\<lambda>i. if i = c then unat x else 0)"
  using addToSupplyPool_stake [of c x DelegationsOnly s r t]
    staked_executeOnSupplyPool [OF assms [unfolded AddToDelegateSupplyForChain_def addToSupplyPool_def]]
    assms unfolding supplyMoved_def AddToDelegateSupplyForChain_def by auto

lemma committeeSupply_back:
  assumes "SubFromCommitteeStakedSupplyForChain c x s = (Inr r, t)"
  shows "supplyMoved s t (\<lambda>i. if i = c then unat x else 0) (\<lambda>_. 0) (\<lambda>_. 0) (\<lambda>_. 0)"
  using subFromSupplyPool_stake [of c x CommitteesWithDelegations s r t]
    staked_executeOnSupplyPool [OF assms [unfolded SubFromCommitteeStakedSupplyForChain_def subFromSupplyPool_def]]
    assms unfolding supplyMoved_def SubFromCommitteeStakedSupplyForChain_def by auto

lemma delegateSupply_back:
  assumes "SubFromDelegateStakedSupplyForChain c x s = (Inr r, t)"
  shows "supplyMoved s t (\<lambda>_. 0) (\<lambda>i. if i = c then unat x else 0) (\<lambda>_. 0) (\<lambda>_. 0)"
  using subFromSupplyPool_stake [of c x DelegationsOnly s r t]
    staked_executeOnSupplyPool [OF assms [unfolded SubFromDelegateStakedSupplyForChain_def subFromSupplyPool_def]]
    assms unfolding supplyMoved_def SubFromDelegateStakedSupplyForChain_def by auto

lemma supplyMoved_start:
  "supplyTracker t = supplyTracker s \<and> validators t = validators s \<Longrightarrow>
   supplyMoved t u m d m' d' \<Longrightarrow> supplyMoved s u m d m' d'"
  using committeeStake_cong [of t s CommitteesWithDelegations] committeeStake_cong [of t s DelegationsOnly]
  by (simp add: supplyMoved_def)

lemma supplyMoved_eq:
  "supplyMoved s t m d m' d' \<Longrightarrow> m = n \<Longrightarrow> d = e \<Longrightarrow> m' = n' \<Longrightarrow> d' = e' \<Longrightarrow> supplyMoved s t n e n' e'"
  by simp

lemma supplyMoved_refl: "supplyMoved s s (\<lambda>_. 0) (\<lambda>_. 0) (\<lambda>_. 0) (\<lambda>_. 0)"
  by (simp add: supplyMoved_def)

lemma SetCommittees_moved:
  "SetCommittees a x cs s = (Inr r, t) \<Longrightarrow>
   supplyMoved s t (\<lambda>_. 0) (\<lambda>_. 0) (\<lambda>c. count_list cs c * unat x) (\<lambda>_. 0)"
proof (induction cs arbitrary: s)
  case Nil
  then show ?case by (simp add: SetCommittees_def ret_run supplyMoved_refl)
next
  case (Cons c cs)
  from Cons.prems obtain u v where u: "SetCommitteeMember a c x s = (Inr (), u)"
    and v: "AddToCommitteeSupplyForChain c x u = (Inr (), v)"
    and rest: "SetCommittees a x cs v = (Inr r, t)"
    by (auto simp: SetCommittees_def bnd_Inr ret_run)
  have "supplyMoved s v (\<lambda>_. 0) (\<lambda>_. 0) (\<lambda>i. if i = c then unat x else 0) (\<lambda>_. 0)"
    using index_moved [of a c x s "Inr ()" u] u
    by (intro supplyMoved_start [OF _ committeeSupply_moved [OF v]]) blast
  from supplyMoved_trans [OF this Cons.IH [OF rest]] show ?case
    by (rule supplyMoved_eq) (simp_all add: fun_eq_iff)
qed

lemma DeleteCommittees_moved:
  "DeleteCommittees a x cs s = (Inr r, t) \<Longrightarrow>
   supplyMoved s t (\<lambda>c. count_list cs c * unat x) (\<lambda>_. 0) (\<lambda>_. 0) (\<lambda>_. 0)"
proof (induction cs arbitrary: s)
  case Nil
  then show ?case by (simp add: DeleteCommittees_def ret_run supplyMoved_refl)
next
  case (Cons c cs)
  from Cons.prems obtain u v where u: "DeleteCommitteeMember a c x s = (Inr (), u)"
    and v: "SubFromCommitteeStakedSupplyForChain c x u = (Inr (), v)"
    and rest: "DeleteCommittees a x cs v = (Inr r, t)"
    by (auto simp: DeleteCommittees_def bnd_Inr ret_run)
  have "supplyMoved s v (\<lambda>i. if i = c then unat x else 0) (\<lambda>_. 0) (\<lambda>_. 0) (\<lambda>_. 0)"
    using index_moved [of a c x s "Inr ()" u] u
    by (intro supplyMoved_start [OF _ committeeSupply_back [OF v]]) blast
  from supplyMoved_trans [OF this Cons.IH [OF rest]] show ?case
    by (rule supplyMoved_eq) (simp_all add: fun_eq_iff)
qed

lemma SetDelegations_moved:
  "SetDelegations a x cs s = (Inr r, t) \<Longrightarrow>
   supplyMoved s t (\<lambda>_. 0) (\<lambda>_. 0) (\<lambda>c. count_list cs c * unat x) (\<lambda>c. count_list cs c * unat x)"
proof (induction cs arbitrary: s)
  case Nil
  then show ?case by (simp add: SetDelegations_def ret_run supplyMoved_refl)
next
  case (Cons c cs)
  from Cons.prems obtain u v w where u: "SetDelegate a c x s = (Inr (), u)"
    and v: "AddToDelegateSupplyForChain c x u = (Inr (), v)"
    and w: "AddToCommitteeSupplyForChain c x v = (Inr (), w)"
    and rest: "SetDelegations a x cs w = (Inr r, t)"
    by (auto simp: SetDelegations_def bnd_Inr ret_run)
  have "supplyMoved s v (\<lambda>_. 0) (\<lambda>_. 0) (\<lambda>_. 0) (\<lambda>i. if i = c then unat x else 0)"
    using index_moved [of a c x s "Inr ()" u] u
    by (intro supplyMoved_start [OF _ delegateSupply_moved [OF v]]) blast
  from supplyMoved_trans [OF supplyMoved_trans [OF this committeeSupply_moved [OF w]] Cons.IH [OF rest]]
  show ?case by (rule supplyMoved_eq) (simp_all add: fun_eq_iff)
qed

lemma DeleteDelegations_moved:
  "DeleteDelegations a x cs s = (Inr r, t) \<Longrightarrow>
   supplyMoved s t (\<lambda>c. count_list cs c * unat x) (\<lambda>c. count_list cs c * unat x) (\<lambda>_. 0) (\<lambda>_. 0)"
proof (induction cs arbitrary: s)
  case Nil
  then show ?case by (simp add: DeleteDelegations_def ret_run supplyMoved_refl)
next
  case (Cons c cs)
  from Cons.prems obtain u v w where u: "DeleteDelegate a c x s = (Inr (), u)"
    and v: "SubFromDelegateStakedSupplyForChain c x u = (Inr (), v)"
    and w: "SubFromCommitteeStakedSupplyForChain c x v = (Inr (), w)"
    and rest: "DeleteDelegations a x cs w = (Inr r, t)"
    by (auto simp: DeleteDelegations_def bnd_Inr ret_run)
  have "supplyMoved s v (\<lambda>_. 0) (\<lambda>i. if i = c then unat x else 0) (\<lambda>_. 0) (\<lambda>_. 0)"
    using index_moved [of a c x s "Inr ()" u] u
    by (intro supplyMoved_start [OF _ delegateSupply_back [OF v]]) blast
  from supplyMoved_trans [OF supplyMoved_trans [OF this committeeSupply_back [OF w]] Cons.IH [OF rest]]
  show ?case by (rule supplyMoved_eq) (simp_all add: fun_eq_iff)
qed


subsection \<open>Operations keep the ledger\<close>

lemma AddToStakedSupply_run:
  "AddToStakedSupply x s = (Inr r, t) \<Longrightarrow>
     t = s\<lparr>supplyTracker := (supplyTracker s)\<lparr>sStaked := sStaked (supplyTracker s) + x\<rparr>\<rparr> \<and>
     unat (sStaked (supplyTracker s) + x) = unat (sStaked (supplyTracker s)) + unat x"
  by (auto simp: supply_run_defs unat_add_guarded split: if_splits)

lemma AddToDelegateSupply_run:
  "AddToDelegateSupply x s = (Inr r, t) \<Longrightarrow>
     t = s\<lparr>supplyTracker := (supplyTracker s)\<lparr>sDelegatedOnly := sDelegatedOnly (supplyTracker s) + x\<rparr>\<rparr> \<and>
     unat (sDelegatedOnly (supplyTracker s) + x) = unat (sDelegatedOnly (supplyTracker s)) + unat x"
  by (auto simp: supply_run_defs unat_add_guarded split: if_splits)

lemma SubFromStakedSupply_run:
  "SubFromStakedSupply x s = (Inr r, t) \<Longrightarrow>
     t = s\<lparr>supplyTracker := (supplyTracker s)\<lparr>sStaked := sStaked (supplyTracker s) - x\<rparr>\<rparr> \<and>
     unat (sStaked (supplyTracker s) - x) + unat x = unat (sStaked (supplyTracker s))"
  by (auto simp: supply_run_defs unat_sub_guarded unat_less_iff split: if_splits)

lemma SubFromDelegateSupply_run:
  "SubFromDelegateSupply x s = (Inr r, t) \<Longrightarrow>
     t = s\<lparr>supplyTracker := (supplyTracker s)\<lparr>sDelegatedOnly := sDelegatedOnly (supplyTracker s) - x\<rparr>\<rparr> \<and>
     unat (sDelegatedOnly (supplyTracker s) - x) + unat x = unat (sDelegatedOnly (supplyTracker s))"
  by (auto simp: supply_run_defs unat_sub_guarded unat_less_iff split: if_splits)

lemma committeeStake_updates [simp]:
  "committeeStake ty (s\<lparr>supplyTracker := (supplyTracker s)\<lparr>sStaked := x\<rparr>\<rparr>) = committeeStake ty s"
  "committeeStake ty (s\<lparr>supplyTracker := (supplyTracker s)\<lparr>sDelegatedOnly := x\<rparr>\<rparr>) = committeeStake ty s"
  "committeeStake ty (s\<lparr>supplyTracker := (supplyTracker s)\<lparr>sStaked := x, sDelegatedOnly := y\<rparr>\<rparr>) =
     committeeStake ty s"
  "committeeStake ty (s\<lparr>validators := V\<rparr>) = committeeStake ty s"
  by (cases ty; simp add: committeeStake_def supplyPools_def)+

text \<open>The stake of a validator as it is now, zero when there is none.\<close>

definition noValidator :: "address \<Rightarrow> validator" where
  "noValidator a = \<lparr>vAddress = a, vPublicKey = [], vNetAddress = [], vStakedAmount = 0, vCommittees = [],
     vMaxPausedHeight = 0, vUnstakingHeight = 0, vOutput = a, vDelegate = False, vCompound = False\<rparr>"

definition validatorAt :: "state \<Rightarrow> address \<Rightarrow> validator" where
  "validatorAt s a = (case tget (validators s) a of None \<Rightarrow> noValidator a | Some v \<Rightarrow> v)"

text \<open>
  The general step: the supply has been moved from what \<open>old\<close> says to what \<open>new\<close> says, and then the
  record \<open>new\<close> is written over the entry with the weights of \<open>old\<close>.
\<close>

lemma ledger_replace:
  assumes led: "ledger s" and V: "validators t = tset a new (validators s)"
    and staked: "unat (sStaked (supplyTracker t)) + unat (vStakedAmount (validatorAt s a)) =
        unat (sStaked (supplyTracker s)) + unat (vStakedAmount new)"
    and deleg: "unat (sDelegatedOnly (supplyTracker t)) + delegatedOnly (validatorAt s a) =
        unat (sDelegatedOnly (supplyTracker s)) + delegatedOnly new"
    and member: "\<And>c. committeeStake CommitteesWithDelegations t c + memberStake c (validatorAt s a) =
        committeeStake CommitteesWithDelegations s c + memberStake c new"
    and dmember: "\<And>c. committeeStake DelegationsOnly t c + delegateStake c (validatorAt s a) =
        committeeStake DelegationsOnly s c + delegateStake c new"
  shows "ledger t"
proof -
  have ok: "tok (validators s)" using led by (simp add: ledger_def)
  have sum: "tsum f (validators t) + f (validatorAt s a) = tsum f (validators s) + f new"
    if "f (noValidator a) = 0" for f
    using tsum_tset [OF ok, of f a new] that by (simp add: V validatorAt_def split: option.splits)
  note z = noValidator_def memberStake_def delegateStake_def delegatedOnly_def
  have "tsum (unat \<circ> vStakedAmount) (validators t) + unat (vStakedAmount (validatorAt s a)) =
      tsum (unat \<circ> vStakedAmount) (validators s) + unat (vStakedAmount new)"
    using sum [of "unat \<circ> vStakedAmount"] by (simp add: z)
  moreover have "tsum delegatedOnly (validators t) + delegatedOnly (validatorAt s a) =
      tsum delegatedOnly (validators s) + delegatedOnly new"
    by (rule sum) (simp add: z)
  moreover have "tsum (memberStake c) (validators t) + memberStake c (validatorAt s a) =
      tsum (memberStake c) (validators s) + memberStake c new"
    "tsum (delegateStake c) (validators t) + delegateStake c (validatorAt s a) =
      tsum (delegateStake c) (validators s) + delegateStake c new" for c
    by (rule sum, simp add: z)+
  ultimately show ?thesis
    using led staked deleg member dmember unfolding ledger_def V
    by (metis add_right_cancel tok_tset)
qed

lemma UpdateCommittees_moved:
  assumes "UpdateCommittees a v x cs s = (Inr r, t)"
  shows "supplyMoved s t (\<lambda>c. memberStake c v) (\<lambda>_. 0) (\<lambda>c. count_list cs c * unat x) (\<lambda>_. 0)"
proof -
  obtain u where "DeleteCommittees a (vStakedAmount v) (vCommittees v) s = (Inr (), u)"
    "SetCommittees a x cs u = (Inr (), t)"
    using assms by (auto simp: UpdateCommittees_def bnd_Inr ret_run)
  from supplyMoved_trans [OF DeleteCommittees_moved SetCommittees_moved, OF this] show ?thesis
    by (rule supplyMoved_eq) (simp_all add: fun_eq_iff memberStake_def)
qed

lemma UpdateDelegations_moved:
  assumes "UpdateDelegations a v x cs s = (Inr r, t)"
  shows "supplyMoved s t (\<lambda>c. memberStake c v) (\<lambda>c. memberStake c v)
    (\<lambda>c. count_list cs c * unat x) (\<lambda>c. count_list cs c * unat x)"
proof -
  obtain u where "DeleteDelegations a (vStakedAmount v) (vCommittees v) s = (Inr (), u)"
    "SetDelegations a x cs u = (Inr (), t)"
    using assms by (auto simp: UpdateDelegations_def bnd_Inr ret_run)
  from supplyMoved_trans [OF DeleteDelegations_moved SetDelegations_moved, OF this] show ?thesis
    by (rule supplyMoved_eq) (simp_all add: fun_eq_iff memberStake_def)
qed

text \<open>Two validators with the same weights in the ledger.\<close>

definition sameStake :: "validator \<Rightarrow> validator \<Rightarrow> bool" where
  "sameStake v w \<longleftrightarrow> vStakedAmount v = vStakedAmount w \<and> vCommittees v = vCommittees w \<and> vDelegate v = vDelegate w"

lemma sameStake_weights:
  "sameStake v w \<Longrightarrow> memberStake c v = memberStake c w \<and> delegateStake c v = delegateStake c w \<and>
     delegatedOnly v = delegatedOnly w"
  by (simp add: sameStake_def memberStake_def delegateStake_def delegatedOnly_def)

lemma UpdateValidatorStake_ledger:
  assumes led: "ledger s" and same: "sameStake val (validatorAt s (vAddress val))"
    and run: "UpdateValidatorStake val cs x s = (Inr r, t)"
  shows "ledger t"
proof -
  let ?a = "vAddress val" and ?n = "vStakedAmount val + x"
  let ?new = "val\<lparr>vCommittees := cs, vStakedAmount := ?n\<rparr>"
  obtain u v where u: "AddToStakedSupply x s = (Inr (), u)"
    and v: "(if vDelegate val then seqm [AddToDelegateSupply x, UpdateDelegations ?a val ?n cs]
             else UpdateCommittees ?a val ?n cs) u = (Inr (), v)"
    and t: "t = v\<lparr>validators := tset ?a ?new (validators v)\<rparr>"
    using run by (auto simp: UpdateValidatorStake_def Let_def bnd_Inr SetValidator_run ret_run)
  note u' = AddToStakedSupply_run [OF u]
  have "unat (vStakedAmount val) \<le> unat (sStaked (supplyTracker s))"
    using led same tsum_ge [of "validators s" ?a _ "unat \<circ> vStakedAmount"]
    by (auto simp: ledger_def sameStake_def validatorAt_def noValidator_def split: option.splits)
  then have n: "unat ?n = unat (vStakedAmount val) + unat x"
    using u' u64_bound [of "sStaked (supplyTracker s) + x"] by (intro unat_add_exact) linarith
  note w = sameStake_weights [OF same] same [unfolded sameStake_def]
  show ?thesis
  proof (cases "vDelegate val")
    case False
    then have m: "supplyMoved u v (\<lambda>c. memberStake c val) (\<lambda>_. 0) (\<lambda>c. count_list cs c * unat ?n) (\<lambda>_. 0)"
      using v by (simp add: UpdateCommittees_moved)
    show ?thesis
      by (rule ledger_replace [OF led, where a = ?a and new = ?new])
        (use m u' n w False in \<open>auto simp: t supplyMoved_def delegatedOnly_def delegateStake_def memberStake_def\<close>)
  next
    case True
    then obtain z where z: "AddToDelegateSupply x u = (Inr (), z)"
      and v: "UpdateDelegations ?a val ?n cs z = (Inr (), v)"
      using v by (auto simp: bnd_Inr ret_run)
    note z' = AddToDelegateSupply_run [OF z]
    note m = UpdateDelegations_moved [OF v]
    show ?thesis
      by (rule ledger_replace [OF led, where a = ?a and new = ?new])
        (use m z' u' n w True in \<open>auto simp: t supplyMoved_def delegatedOnly_def delegateStake_def memberStake_def\<close>)
  qed
qed

lemma SetValidator_ledger:
  assumes "ledger s" and "sameStake v (validatorAt s (vAddress v))"
  shows "ledger (s\<lparr>validators := tset (vAddress v) v (validators s)\<rparr>)"
  by (rule ledger_replace [OF assms(1), where a = "vAddress v" and new = v])
    (use sameStake_weights [OF assms(2)] assms(2) in \<open>auto simp: sameStake_def\<close>)

lemma ledger_cong:
  "validators t = validators s \<Longrightarrow> supplyTracker t = supplyTracker s \<Longrightarrow> ledger t = ledger s"
  by (simp add: ledger_def committeeStake_def)

lemma DeleteValidator_ledger:
  assumes led: "ledger s" and val: "tget (validators s) (vAddress val) = Some w" "sameStake val w"
    and run: "DeleteValidator val s = (Inr r, t)"
  shows "ledger t"
proof -
  let ?a = "vAddress val" and ?x = "vStakedAmount val"
  obtain u v where u: "SubFromStakedSupply ?x s = (Inr (), u)"
    and v: "(if vDelegate val
             then seqm [SubFromDelegateSupply ?x, DeleteDelegations ?a ?x (vCommittees val)]
             else DeleteCommittees ?a ?x (vCommittees val)) u = (Inr (), v)"
    and t: "t = v\<lparr>validators := tdel ?a (validators v)\<rparr>"
    using run by (auto simp: DeleteValidator_def Let_def bnd_Inr modify_run ret_run)
  note u' = SubFromStakedSupply_run [OF u]
  note w = sameStake_weights [OF val(2)] val(2) [unfolded sameStake_def]
  have ok: "tok (validators s)" using led by (simp add: ledger_def)
  have sum: "tsum f (validators t) + f w = tsum f (validators s)"
    if "validators v = validators s" for f :: "validator \<Rightarrow> nat"
    using tsum_tdel [OF ok, of f ?a] val(1) by (simp add: t that)
  have V: "validators v = validators s \<and>
      unat (sStaked (supplyTracker v)) + unat ?x = unat (sStaked (supplyTracker s)) \<and>
      unat (sDelegatedOnly (supplyTracker v)) + delegatedOnly val = unat (sDelegatedOnly (supplyTracker s)) \<and>
      (\<forall>c. committeeStake CommitteesWithDelegations v c + memberStake c val =
        committeeStake CommitteesWithDelegations s c) \<and>
      (\<forall>c. committeeStake DelegationsOnly v c + delegateStake c val = committeeStake DelegationsOnly s c)"
  proof (cases "vDelegate val")
    case False
    then have "supplyMoved u v (\<lambda>c. memberStake c val) (\<lambda>_. 0) (\<lambda>_. 0) (\<lambda>_. 0)"
      using v DeleteCommittees_moved [of ?a ?x "vCommittees val" u "()" v] by (simp add: memberStake_def)
    with u' False show ?thesis by (auto simp: supplyMoved_def delegatedOnly_def delegateStake_def)
  next
    case True
    then obtain z where z: "SubFromDelegateSupply ?x u = (Inr (), z)"
      and v': "DeleteDelegations ?a ?x (vCommittees val) z = (Inr (), v)"
      using v by (auto simp: bnd_Inr ret_run)
    note z' = SubFromDelegateSupply_run [OF z]
    from DeleteDelegations_moved [OF v'] z' u' True show ?thesis
      by (auto simp: supplyMoved_def delegatedOnly_def delegateStake_def memberStake_def)
  qed
  then have "tok (validators t)" by (simp add: t table_simps ok)
  moreover have "tsum f (validators t) + f w = tsum f (validators s)" for f :: "validator \<Rightarrow> nat"
    using sum V by blast
  note sum' = this [of "unat \<circ> vStakedAmount"] this [of delegatedOnly] this [of "memberStake _"]
    this [of "delegateStake _"]
  ultimately show ?thesis
    using led V w sum' unfolding ledger_def by (simp add: t) (metis add_right_cancel)
qed


lemma validatorAt_same:
  "tget (validators s) a = Some w \<Longrightarrow> sameStake v w \<Longrightarrow> sameStake v (validatorAt s a)"
  by (simp add: validatorAt_def)

lemma sameStake_refl [simp]: "sameStake v v"
  by (simp add: sameStake_def)

lemma paused_keeps_ledger:
  assumes "ledger s" and "sameStake v (validatorAt s (vAddress v))"
  shows "SetValidatorPaused a v h s = (Inr r, t) \<Longrightarrow> ledger t"
    and "SetValidatorUnpaused a v s = (Inr r, t) \<Longrightarrow> ledger t"
proof -
  have step: "ledger (s\<lparr>paused := P, validators := tset (vAddress v) w (validators s)\<rparr>)"
    if "vAddress w = vAddress v" "sameStake w v" for P w
  proof -
    have "ledger (s\<lparr>validators := tset (vAddress w) w (validators s)\<rparr>)"
      using SetValidator_ledger [OF assms(1), of w] that assms(2) by (simp add: sameStake_def)
    then show ?thesis using that by (simp add: ledger_def committeeStake_def)
  qed
  show "SetValidatorPaused a v h s = (Inr r, t) \<Longrightarrow> ledger t"
    using step by (auto simp: SetValidatorPaused_def SetValidator_run go_simps sameStake_def)
  show "SetValidatorUnpaused a v s = (Inr r, t) \<Longrightarrow> ledger t"
    using step by (auto simp: SetValidatorUnpaused_def SetValidator_run go_simps sameStake_def)
qed

lemma unstaking_keeps_ledger:
  assumes "ledger s" and same: "sameStake v (validatorAt s (vAddress v))"
    and run: "SetValidatorUnstaking a v h s = (Inr r, t)"
  shows "ledger t"
proof -
  let ?s = "s\<lparr>unstaking := tset (h, a) () (unstaking s)\<rparr>"
  let ?w = "v\<lparr>vMaxPausedHeight := 0, vUnstakingHeight := h\<rparr>"
  obtain u where u: "(if vMaxPausedHeight v \<noteq> 0 then SetValidatorUnpaused a v else ret ()) ?s = (Inr (), u)"
    and t: "t = u\<lparr>validators := tset (vAddress v) ?w (validators u)\<rparr>"
    using run by (auto simp: SetValidatorUnstaking_def bnd_Inr modify_run SetValidator_run ret_run)
  have led: "ledger ?s" using assms(1) by (simp add: ledger_def committeeStake_def)
  have at: "validatorAt ?s = validatorAt s" by (simp add: validatorAt_def fun_eq_iff)
  have "ledger u \<and> sameStake v (validatorAt u (vAddress v))"
  proof (cases "vMaxPausedHeight v = 0")
    case True
    with u led same at show ?thesis by (simp add: ret_run)
  next
    case False
    then have r: "SetValidatorUnpaused a v ?s = (Inr (), u)" using u by simp
    have "ledger u" using paused_keeps_ledger(2) [OF led _ r] same at by simp
    moreover have "validatorAt u (vAddress v) = v\<lparr>vMaxPausedHeight := 0\<rparr>"
      using r by (auto simp: SetValidatorUnpaused_def SetValidator_run go_simps validatorAt_def table_simps)
    ultimately show ?thesis by (simp add: sameStake_def)
  qed
  then show ?thesis
    using SetValidator_ledger [of u ?w] by (simp add: t sameStake_def)
qed

lemma DeleteFinishedUnstaking_ledger: "hoare ledger DeleteFinishedUnstaking (\<lambda>_. ledger)"
proof -
  have step: "hoare ledger (bnd (GetValidator addr) (\<lambda>validator.
      seqm [AccountAdd (vOutput validator) (vStakedAmount validator),
            DeleteValidator validator, EventFinishUnstaking addr])) (\<lambda>_. ledger)" for addr
  proof (rule hoareI)
    fix s r t
    assume led: "ledger s" and run: "bnd (GetValidator addr) (\<lambda>validator.
      seqm [AccountAdd (vOutput validator) (vStakedAmount validator),
            DeleteValidator validator, EventFinishUnstaking addr]) s = (Inr r, t)"
    from run obtain w val u v where w: "tget (validators s) addr = Some w" "val = w\<lparr>vAddress := addr\<rparr>"
      and u: "AccountAdd (vOutput val) (vStakedAmount val) s = (Inr (), u)"
      and v: "DeleteValidator val u = (Inr (), v)"
      and t: "EventFinishUnstaking addr v = (Inr (), t)"
      by (auto simp: bnd_Inr GetValidator_Inr ret_run)
    have u': "validators u = validators s" "supplyTracker u = supplyTracker s"
      using u by (auto simp: AccountAdd_run split: if_splits)
    then have "ledger u" using led ledger_cong by blast
    from DeleteValidator_ledger [OF this _ _ v] w u' have "ledger v" by (simp add: sameStake_def)
    moreover have "validators t = validators v" "supplyTracker t = supplyTracker v"
      using t by (auto simp: event_defs addEvent_def go_simps)
    ultimately show "ledger t" using ledger_cong by blast
  qed
  have del: "hoare ledger (modify (\<lambda>s. s\<lparr>unstaking := tdel (h, a) (unstaking s)\<rparr>) :: unit fsm) (\<lambda>_. ledger)"
    for h a by (rule hoare_modify) (simp add: ledger_def committeeStake_def)
  show ?thesis
    unfolding DeleteFinishedUnstaking_def
    by (intro hoare_bnd [OF hoare_gets] hoare_seqm_Cons [OF hoare_for_each]
        hoare_seqm_Nil) (simp_all only: step del)
qed

section \<open>The committee\<close>

definition eligible :: "u64 \<Rightarrow> bool \<Rightarrow> validator \<Rightarrow> bool" where
  "eligible chainId delegate v \<longleftrightarrow> vUnstakingHeight v = 0 \<and> vMaxPausedHeight v = 0 \<and>
     vDelegate v = delegate \<and> (chainId = 0 \<or> chainId \<in> set (vCommittees v))"

lemma PassesFilter_eligible:
  "PassesFilter \<lparr>vfUnstaking = FilterOption_Exclude, vfPaused = FilterOption_Exclude,
     vfDelegate = (if delegate then FilterOption_MustBe else FilterOption_Exclude),
     vfCommittee = chainId\<rparr> v \<longleftrightarrow> eligible chainId delegate v"
  by (auto simp: PassesFilter_def passes_def eligible_def)

lemma sorted_take_drop:
  assumes "sorted_wrt R xs" and "x \<in> set (take n xs)" and "y \<in> set (drop n xs)"
  shows "R x y"
proof -
  have "sorted_wrt R (take n xs @ drop n xs)" using assms(1) by simp
  with assms(2,3) show ?thesis unfolding sorted_wrt_append by blast
qed




end
