(* ===== verification/Rewards.thy ===== *)
theory Rewards
  imports Validators
begin

text \<open>
  Minting and distributing rewards (\<open>fsm/committee.go\<close>): the halving schedule, the committees that
  are paid, the distribution of a reward pool by payment percents, and the lottery winner.
\<close>

section \<open>Minting\<close>

text \<open>
  Committees with enough of the total stake that are not retired, in the order of the supply
  pools, and always the own chain.
\<close>

definition GetSubsidizedCommittees :: "u64 list fsm" where
  "GetSubsidizedCommittees =
     bnd GetParamsVal (\<lambda>valParams.
     bnd GetSupply (\<lambda>sp.
     bnd (fold_m (\<lambda>committee paidIDs.
       if Uint64PercentageDiv (pAmount committee) (sStaked sp) \<ge> vpStakePercentForSubsidizedCommittee valParams
       then bnd (CommitteeIsRetired (pId committee)) (\<lambda>retired.
         ret (if retired then paidIDs else paidIDs @ [pId committee]))
       else ret paidIDs) (sCommitteeStaked sp) []) (\<lambda>paidIDs.
     bnd (gets (\<lambda>s. cfgChainId (cfg s))) (\<lambda>selfId.
     ret (if selfId \<in> set paidIDs then paidIDs else paidIDs @ [selfId])))))"

text \<open>The result is the list of chains, the DAO cut, the total mint and the mint per committee.\<close>

definition GetBlockMintStats :: "(u64 list \<times> u64 \<times> u64 \<times> u64) fsm" where
  "GetBlockMintStats =
     bnd (gets cfg) (\<lambda>config.
     if cfgBlocksPerHalvening config = 0 then err ErrInvalidArgument
     else bnd GetParamsGov (\<lambda>daoPercentage.
       bnd GetSubsidizedCommittees (\<lambda>subsidizedChainIds.
       bnd (gets height) (\<lambda>h.
       let halvenings = h div cfgBlocksPerHalvening config;
           totalMintAmount = drop_bit (unat halvenings) (cfgInitialTokensPerBlock config);
           subsidizedCount = of_nat (length subsidizedChainIds) :: u64 in
       if subsidizedCount = 0 \<or> totalMintAmount = 0 then err ErrNoSubsidizedCommittees
       else
         let mintAmountAfterDAOCut =
               (if daoPercentage \<ge> 100 \<or> totalMintAmount = 0 then 0
                else if daoPercentage = 0 then totalMintAmount
                else SafeMulDiv totalMintAmount (100 - daoPercentage) 100);
             daoCut = totalMintAmount - mintAmountAfterDAOCut;
             mintAmountPerCommittee = mintAmountAfterDAOCut div subsidizedCount
         in ret (subsidizedChainIds, daoCut, totalMintAmount, mintAmountPerCommittee)))))"

definition FundCommitteeRewardPools :: "unit fsm" where
  "FundCommitteeRewardPools =
     catch GetBlockMintStats
       (\<lambda>e. if e = ErrNoSubsidizedCommittees then ret () else err e)
       (\<lambda>(subsidizedChainIds, daoCut, _, mintAmountPerCommittee).
         bnd (MintToPool DAOPoolID daoCut) (\<lambda>_.
         for_each subsidizedChainIds (\<lambda>chainId. MintToPool chainId mintAmountPerCommittee)))"

section \<open>Distribution\<close>

definition fullRewardOf :: "u64 \<Rightarrow> u64 \<Rightarrow> u64 \<Rightarrow> u64" where
  "fullRewardOf percent rewardPoolAmount numberOfSamples =
     (if numberOfSamples \<noteq> 0
      then of_nat (unat percent * unat rewardPoolAmount div (unat numberOfSamples * 100)) else 0)"

definition earlyWithdrawalOf :: "u64 \<Rightarrow> u64 \<Rightarrow> u64" where
  "earlyWithdrawalOf penalty fullReward =
     (if penalty \<ge> 100 \<or> fullReward = 0 then 0
      else if penalty = 0 then fullReward
      else SafeMulDiv fullReward (100 - penalty) 100)"

definition DistributeCommitteeReward ::
    "paymentPercents \<Rightarrow> u64 \<Rightarrow> u64 \<Rightarrow> u64 \<Rightarrow> validatorParams \<Rightarrow> u64 fsm" where
  "DistributeCommitteeReward stub rewardPoolAmount numberOfSamples chainId valParams =
     (let address = ppcAddress stub;
          fullReward = fullRewardOf (ppcPercent stub) rewardPoolAmount numberOfSamples;
          earlyWithdrawalReward = earlyWithdrawalOf (vpEarlyWithdrawalPenalty valParams) fullReward in
      catch (GetValidator address)
        (\<lambda>_. bnd (AccountAdd address earlyWithdrawalReward) (\<lambda>_. ret earlyWithdrawalReward))
        (\<lambda>validator.
          if vCompound validator \<and> vUnstakingHeight validator = 0
          then bnd (UpdateValidatorStake validator (vCommittees validator) fullReward)
            (\<lambda>_. ret fullReward)
          else bnd (AccountAdd (vOutput validator) earlyWithdrawalReward)
            (\<lambda>_. ret earlyWithdrawalReward)))"

text \<open>One payment: the reward, its event, and the running total of the pool.\<close>

definition payStub :: "u64 \<Rightarrow> u64 \<Rightarrow> u64 \<Rightarrow> validatorParams \<Rightarrow> paymentPercents \<Rightarrow> u64 \<Rightarrow> u64 fsm" where
  "payStub rewardPoolAmount numberOfSamples chainId valParams stub totalDistributed =
     bnd (DistributeCommitteeReward stub rewardPoolAmount numberOfSamples chainId valParams) (\<lambda>distributed.
     if distributed > 0
     then bnd (EventReward (ppcAddress stub) distributed chainId) (\<lambda>_.
       if totalDistributed > MaxUint64 - distributed then err ErrInvalidAmount
       else ret (totalDistributed + distributed))
     else ret totalDistributed)"

definition distributeOne :: "validatorParams \<Rightarrow> committeeData \<Rightarrow> committeeData fsm" where
  "distributeOne valParams data =
     (if cdPaymentPercents data = [] then ret data
      else bnd (GetPool (cdChainId data)) (\<lambda>rewardPool.
        bnd (fold_m (payStub (pAmount rewardPool) (cdNumberOfSamples data) (cdChainId data) valParams)
               (cdPaymentPercents data) 0) (\<lambda>totalDistributed.
        bnd (SubFromTotalSupply (pAmount rewardPool - totalDistributed)) (\<lambda>_.
        bnd (SetPool (rewardPool\<lparr>pAmount := 0\<rparr>)) (\<lambda>_.
        ret (data\<lparr>cdPaymentPercents := [], cdNumberOfSamples := 0\<rparr>))))))"

definition DistributeCommitteeRewards :: "unit fsm" where
  "DistributeCommitteeRewards =
     bnd GetParamsVal (\<lambda>valParams.
     bnd GetCommitteesData (\<lambda>l.
     bnd (fold_m (\<lambda>data acc. bnd (distributeOne valParams data) (\<lambda>d. ret (acc @ [d]))) l []) (\<lambda>l'.
     SetCommitteesData l')))"

section \<open>The lottery winner\<close>

text \<open>
  \<open>pkOk\<close> and \<open>hash\<close> as in the validator sets and the seed; \<open>addressOf\<close> is the address of a public
  key. A committee that cannot be built is empty. The winner of an empty set is \<open>None\<close>.
\<close>

definition GetLastProposers :: "bytes list fsm" where
  "GetLastProposers = gets lastProposers"

definition seedUint64 :: "bytes \<Rightarrow> u64" where
  "seedUint64 seed = foldl (\<lambda>acc b. acc * 256 + ucast b) 0 (take 8 seed)"

definition LotteryWinner ::
    "(bool \<Rightarrow> bytes \<Rightarrow> bool) \<Rightarrow> (string \<Rightarrow> bytes) \<Rightarrow> (bytes \<Rightarrow> address) \<Rightarrow> u64 \<Rightarrow> bool
      \<Rightarrow> (address option \<times> u64) fsm" where
  "LotteryWinner pkOk hash addressOf i forValidators =
     bnd (gets (\<lambda>s. fst ((if forValidators then GetCommitteeMembers pkOk (cfgChainId (cfg s))
                          else GetDelegates pkOk i) s))) (\<lambda>p.
     bnd GetParamsVal (\<lambda>valParams.
     let winnerCut = vpDelegateRewardPercentage valParams in
     case p of
       Inl _ \<Rightarrow> ret (None, winnerCut)
     | Inr vs \<Rightarrow>
         if vsNumValidators vs = 0 \<or> vsTotalPower vs = 0 then ret (None, winnerCut)
         else bnd GetLastProposers (\<lambda>lp. bnd (gets height) (\<lambda>h.
           case WeightedPseudorandom (seedUint64 (FormatInputIntoSeed hash lp 0 h 0))
                  (vsTotalPower vs) (vsValidators vs) of
             None \<Rightarrow> err ErrPanic
           | Some pk \<Rightarrow> ret (Some (addressOf pk), winnerCut)))))"

section \<open>The mint follows the schedule\<close>

lemma bnd_ret: "bnd (ret x) f = f x"
  by (simp add: bnd_def ret_def fun_eq_iff)

lemma per_committee_bound:
  assumes "n = of_nat (length l)" and "n \<noteq> (0 :: u64)"
  shows "length l < 2 ^ 64 \<Longrightarrow> length l * unat (x div n) \<le> unat x"
proof -
  assume "length l < 2 ^ 64"
  then have "unat n = length l" by (simp add: assms(1) unat_of_nat_small)
  then show ?thesis by (simp add: unat_div)
qed

lemma afterDAO_le:
  "(if p \<ge> 100 \<or> x = 0 then 0 else if p = 0 then x else SafeMulDiv x (100 - p) 100) \<le> (x :: u64)"
proof -
  have "100 - p \<le> 100" if "\<not> p \<ge> 100" using that by (simp add: word_sub_le)
  then show ?thesis using SafeMulDiv_le(2) by auto
qed

definition qualifies :: "state \<Rightarrow> pool \<Rightarrow> bool" where
  "qualifies s p \<longleftrightarrow>
     vpStakePercentForSubsidizedCommittee (paramsVal s)
       \<le> Uint64PercentageDiv (pAmount p) (sStaked (supplyTracker s)) \<and>
     tget (retiredCommittees s) (pId p) = None"

definition subsidized :: "state \<Rightarrow> u64 list" where
  "subsidized s = (let l = map pId (filter (qualifies s) (sCommitteeStaked (supplyTracker s)))
     in if cfgChainId (cfg s) \<in> set l then l else l @ [cfgChainId (cfg s)])"

lemma GetSubsidizedCommittees_run: "GetSubsidizedCommittees s = (Inr (subsidized s), s)"
proof -
  have "fold_m (\<lambda>committee paidIDs.
       if Uint64PercentageDiv (pAmount committee) (sStaked (supplyTracker s))
            \<ge> vpStakePercentForSubsidizedCommittee (paramsVal s)
       then bnd (CommitteeIsRetired (pId committee)) (\<lambda>retired.
         ret (if retired then paidIDs else paidIDs @ [pId committee]))
       else ret paidIDs) l acc s = (Inr (acc @ map pId (filter (qualifies s) l)), s)" for l acc
    by (induction l arbitrary: acc) (simp_all add: go_simps CommitteeIsRetired_def qualifies_def)
  then show ?thesis
    by (simp add: GetSubsidizedCommittees_def GetParamsVal_def GetSupply_def go_simps subsidized_def Let_def)
qed

lemma GetBlockMintStats_Inr:
  assumes "GetBlockMintStats s = (Inr (ids, dao, tot, per), t)"
  shows "tot = drop_bit (unat (height s div cfgBlocksPerHalvening (cfg s))) (cfgInitialTokensPerBlock (cfg s))"
    and "\<exists>after. after \<le> tot \<and> dao = tot - after \<and> per = after div of_nat (length ids)"
    and "(of_nat (length ids) :: u64) \<noteq> 0" and "t = s"
proof -
  have c: "GetSubsidizedCommittees s = (Inr (subsidized s), s)" by (rule GetSubsidizedCommittees_run)
  from assms have r: "t = s"
    "tot = drop_bit (unat (height s div cfgBlocksPerHalvening (cfg s))) (cfgInitialTokensPerBlock (cfg s))"
    "dao = tot - (if daoRewardPercentage s \<ge> 100 \<or> tot = 0 then 0
                else if daoRewardPercentage s = 0 then tot
                else SafeMulDiv tot (100 - daoRewardPercentage s) 100)"
    "per = (if daoRewardPercentage s \<ge> 100 \<or> tot = 0 then 0
                else if daoRewardPercentage s = 0 then tot
                else SafeMulDiv tot (100 - daoRewardPercentage s) 100) div of_nat (length ids)"
    "(of_nat (length ids) :: u64) \<noteq> 0"
    by (auto simp: GetBlockMintStats_def GetParamsGov_def go_simps c Let_def split: if_splits)
  show "tot = drop_bit (unat (height s div cfgBlocksPerHalvening (cfg s))) (cfgInitialTokensPerBlock (cfg s))"
    "t = s" "(of_nat (length ids) :: u64) \<noteq> 0" using r by simp_all
  show "\<exists>after. after \<le> tot \<and> dao = tot - after \<and> per = after div of_nat (length ids)"
    using afterDAO_le [of "daoRewardPercentage s" tot] r(3,4) by blast
qed

lemma MintToPool_minted:
  assumes "MintToPool i x s = (Inr r, t)" and "conserved s"
    and "unat (sTotal (supplyTracker s)) + unat x < 2 ^ 64"
  shows "conserved t \<and> unat (sTotal (supplyTracker t)) = unat (sTotal (supplyTracker s)) + unat x \<and>
    cfg t = cfg s \<and> height t = height s"
proof -
  have "conserved t" using hoareD [OF MintToPool_inflight [of 0 x i] _ assms(1)] assms(2,3) by simp
  with assms(1) show ?thesis
    by (auto simp: MintToPool_def bnd_Inr ret_run supply_run_defs PoolAdd_run unat_add_exact [OF assms(3)])
qed

lemma mint_loop:
  "for_each ids (\<lambda>i. MintToPool i x) s = (Inr r, t) \<Longrightarrow> conserved s \<Longrightarrow>
   unat (sTotal (supplyTracker s)) + length ids * unat x < 2 ^ 64 \<Longrightarrow>
   conserved t \<and> unat (sTotal (supplyTracker t)) = unat (sTotal (supplyTracker s)) + length ids * unat x"
proof (induction ids arbitrary: s)
  case Nil
  then show ?case by (simp add: ret_run)
next
  case (Cons i ids)
  from Cons.prems obtain u where u: "MintToPool i x s = (Inr (), u)"
    and t: "for_each ids (\<lambda>i. MintToPool i x) u = (Inr r, t)" by (auto simp: bnd_Inr)
  have "unat (sTotal (supplyTracker s)) + unat x < 2 ^ 64"
    using Cons.prems(3) by (simp add: add.assoc [symmetric])
  note mint = MintToPool_minted [OF u Cons.prems(2) this]
  with Cons.IH [OF t] Cons.prems(3) show ?case by simp
qed

lemma GetBlockMintStats_state: "snd (GetBlockMintStats s) = s"
  by (simp add: GetBlockMintStats_def GetParamsGov_def go_simps GetSubsidizedCommittees_run Let_def)

lemma FundCommitteeRewardPools_minted:
  assumes run: "FundCommitteeRewardPools s = (Inr (), t)" and cons: "conserved s"
    and room: "unat (sTotal (supplyTracker s)) + unat (cfgInitialTokensPerBlock (cfg s)) < 2 ^ 64"
    and few: "length (subsidized s) < 2 ^ 64"
  shows "conserved t \<and> sTotal (supplyTracker s) \<le> sTotal (supplyTracker t) \<and>
    unat (sTotal (supplyTracker t)) - unat (sTotal (supplyTracker s)) \<le>
      unat (cfgInitialTokensPerBlock (cfg s)) div 2 ^ unat (height s div cfgBlocksPerHalvening (cfg s))"
proof (cases "fst (GetBlockMintStats s)")
  case (Inl e)
  with run GetBlockMintStats_state [of s] have "t = s"
    by (auto simp: FundCommitteeRewardPools_def go_simps split: if_splits)
  with cons show ?thesis by simp
next
  case (Inr q)
  obtain ids dao tot per where q: "q = (ids, dao, tot, per)" by (cases q)
  have stats: "GetBlockMintStats s = (Inr (ids, dao, tot, per), s)"
    using Inr q GetBlockMintStats_state [of s] by (metis prod.collapse)
  obtain u where u: "MintToPool DAOPoolID dao s = (Inr (), u)"
    and t: "for_each ids (\<lambda>i. MintToPool i per) u = (Inr (), t)"
    using run by (auto simp: FundCommitteeRewardPools_def catch_def stats bnd_Inr)
  note mint = GetBlockMintStats_Inr [OF stats]
  have ids: "ids = subsidized s"
    using stats by (auto simp: GetBlockMintStats_def GetParamsGov_def go_simps GetSubsidizedCommittees_run
        Let_def split: if_splits)
  obtain after where after: "after \<le> tot" "dao = tot - after" "per = after div of_nat (length ids)"
    using mint(2) by blast
  have n: "length ids * unat per \<le> unat after"
    unfolding after(3) by (rule per_committee_bound) (use mint(3) few ids in auto)
  have d: "unat dao + unat after = unat tot"
    using after(1,2) by (simp add: unat_sub unat_le_iff)
  have tot: "unat tot = unat (cfgInitialTokensPerBlock (cfg s)) div
      2 ^ unat (height s div cfgBlocksPerHalvening (cfg s))"
    unfolding mint(1) by (simp only: unat_drop_bit_eq) (simp add: drop_bit_eq_div)
  then have le: "unat tot \<le> unat (cfgInitialTokensPerBlock (cfg s))" by simp
  have "unat (sTotal (supplyTracker s)) + unat dao < 2 ^ 64" using room le d by linarith
  note first = MintToPool_minted [OF u cons this]
  have "unat (sTotal (supplyTracker u)) + length ids * unat per < 2 ^ 64"
    using first room le d n by linarith
  with mint_loop [OF t] first have
    "conserved t \<and> unat (sTotal (supplyTracker t)) =
      unat (sTotal (supplyTracker s)) + unat dao + length ids * unat per" by simp
  with d n tot show ?thesis by (simp add: unat_le_iff)
qed

text \<open>
  C31: Every block mints at most what the halving schedule allows at its height, the supply tracker
  records exactly what was minted, and the tokens of the state still add up to it.
\<close>

theorem mint_within_schedule:
  assumes run: "FundCommitteeRewardPools s = (Inr (), t)" and cons: "conserved s"
    and room: "unat (sTotal (supplyTracker s)) + unat (cfgInitialTokensPerBlock (cfg s)) < 2 ^ 64"
    and few: "length (subsidized s) < 2 ^ 64"
  shows "conserved t \<and> sTotal (supplyTracker s) \<le> sTotal (supplyTracker t) \<and>
    unat (sTotal (supplyTracker t)) - unat (sTotal (supplyTracker s)) \<le>
      unat (cfgInitialTokensPerBlock (cfg s)) div 2 ^ unat (height s div cfgBlocksPerHalvening (cfg s))"
  by (rule FundCommitteeRewardPools_minted [OF assms])

theorem mint_within_schedule_witness:
  "\<exists>t. FundCommitteeRewardPools exampleState = (Inr (), t) \<and> conserved t \<and>
     unat (sTotal (supplyTracker t)) - 100 \<le> 50"
proof -
  have sub: "subsidized exampleState = [1]"
    by (simp add: subsidized_def qualifies_def exampleState_def exampleSupply_def exampleValParams_def
        Uint64PercentageDiv_def)
  have facts: "height exampleState = 5" "daoRewardPercentage exampleState = 5"
    "cfg exampleState = \<lparr>cfgChainId = 1, cfgBlocksPerHalvening = 100, cfgInitialTokensPerBlock = 50,
       cfgFaucetAddress = []\<rparr>"
    "sTotal (supplyTracker exampleState) = 100"
    by (simp_all add: exampleState_def exampleSupply_def)
  have cons: "conserved exampleState"
    by (simp add: inflight_def wf_def token_defs exampleState_def exampleSupply_def tok_def)
  let ?m = "FundCommitteeRewardPools exampleState"
  have run: "?m = (Inr (), snd ?m)"
    by (simp add: FundCommitteeRewardPools_def GetBlockMintStats_def GetParamsGov_def go_simps facts
        GetSubsidizedCommittees_run sub SafeMulDiv_def MintToPool_def supply_run_defs PoolAdd_run)
  from mint_within_schedule [OF run cons] run show ?thesis
    by (intro exI [of _ "snd ?m"]) (simp add: facts sub)
qed

section \<open>Distribution neither creates nor loses tokens\<close>

lemma UpdateValidatorStake_tokens:
  assumes run: "UpdateValidatorStake val cs x s = (Inr r, t)" and wf: "wf s"
    and stake: "stakeAt s (vAddress val) = unat (vStakedAmount val)"
    and small: "unat (vStakedAmount val) + unat x < 2 ^ 64"
  shows "stakeTokens t = stakeTokens s + unat x \<and> tokens t = tokens s + unat x \<and> wf t \<and>
    pools t = pools s \<and> sTotal (supplyTracker t) = sTotal (supplyTracker s)"
proof -
  let ?a = "vAddress val" and ?n = "vStakedAmount val + x"
  let ?m = "seqm [AddToStakedSupply x,
     if vDelegate val then seqm [AddToDelegateSupply x, UpdateDelegations ?a val ?n cs]
     else UpdateCommittees ?a val ?n cs]"
  obtain u where u: "?m s = (Inr (), u)"
    and t: "t = u\<lparr>validators := tset ?a (val\<lparr>vCommittees := cs, vStakedAmount := ?n\<rparr>) (validators u)\<rparr>"
    using run by (auto simp: UpdateValidatorStake_def Let_def bnd_Inr SetValidator_run ret_run)
  have "token_neutral ?m"
    by (simp add: neutral_updates neutral_supply neutral_seqm neutral_if del: seqm.simps)
  then have u': "accounts u = accounts s" "pools u = pools s" "validators u = validators s"
    "sTotal (supplyTracker u) = sTotal (supplyTracker s)"
    using u by (auto simp: token_neutral_def dest!: spec [of _ s])
  have "tok (validators s)" using wf by (simp add: wf_def)
  from tsum_tset [OF this, of "unat \<circ> vStakedAmount" ?a "val\<lparr>vCommittees := cs, vStakedAmount := ?n\<rparr>"]
  have "stakeTokens t = stakeTokens s + unat x"
    using stake by (simp add: t u' stakeTokens_def stakeAt_def unat_add_exact [OF small] split: option.splits)
  with wf u' show ?thesis by (simp add: t token_defs wf_def table_simps)
qed

text \<open>What paying \<open>x\<close> tokens out of nowhere does to a state.\<close>

definition paid :: "nat \<Rightarrow> state \<Rightarrow> state \<Rightarrow> bool" where
  "paid x s t \<longleftrightarrow> tokens t = tokens s + x \<and> stakeTokens t \<le> stakeTokens s + x \<and> wf t \<and>
     pools t = pools s \<and> sTotal (supplyTracker t) = sTotal (supplyTracker s)"

lemma AccountAdd_paid: "AccountAdd a x s = (Inr r, t) \<Longrightarrow> wf s \<Longrightarrow> paid (unat x) s t"
  using AccountAdd_tokens [of a x s r t]
  by (auto simp: paid_def AccountAdd_run stakeTokens_def split: if_splits)

lemma fullReward_le:
  assumes "unat percent \<le> 100 * unat n"
  shows "unat (fullRewardOf percent A n) \<le> unat percent * unat A div (100 * unat n)"
proof (cases "n = 0")
  case True
  then show ?thesis by (simp add: fullRewardOf_def)
next
  case False
  then show ?thesis
    by (simp add: fullRewardOf_def unat_of_nat mult.commute [of "unat n"])
qed

lemma earlyWithdrawal_le: "unat (earlyWithdrawalOf p x) \<le> unat x"
  using afterDAO_le [of p x] by (simp add: earlyWithdrawalOf_def unat_le_iff)

lemma DistributeCommitteeReward_paid:
  assumes run: "DistributeCommitteeReward stub A n c vp s = (Inr d, t)" and wf: "wf s"
    and pct: "unat (ppcPercent stub) \<le> 100 * unat n"
    and room: "stakeTokens s + unat (ppcPercent stub) * unat A div (100 * unat n) < 2 ^ 64"
  shows "paid (unat d) s t \<and> unat d \<le> unat (ppcPercent stub) * unat A div (100 * unat n)"
proof -
  let ?full = "fullRewardOf (ppcPercent stub) A n"
  let ?early = "earlyWithdrawalOf (vpEarlyWithdrawalPenalty vp) ?full"
  note full = fullReward_le [OF pct, of A]
  have early: "unat ?early \<le> unat (ppcPercent stub) * unat A div (100 * unat n)"
    using earlyWithdrawal_le [of "vpEarlyWithdrawalPenalty vp" ?full] full by linarith
  show ?thesis
  proof (cases "tget (validators s) (ppcAddress stub)")
    case None
    then have "GetValidator (ppcAddress stub) s = (Inl ErrValidatorNotExists, s)"
      by (simp add: GetValidator_def go_simps)
    with run have "AccountAdd (ppcAddress stub) ?early s = (Inr (), t)" "d = ?early"
      by (auto simp: DistributeCommitteeReward_def Let_def catch_def bnd_Inr ret_run)
    with AccountAdd_paid wf early show ?thesis by blast
  next
    case (Some w)
    let ?v = "w\<lparr>vAddress := ppcAddress stub\<rparr>"
    have get: "GetValidator (ppcAddress stub) s = (Inr ?v, s)"
      using Some by (simp add: GetValidator_def go_simps)
    show ?thesis
    proof (cases "vCompound w \<and> vUnstakingHeight w = 0")
      case True
      with run get have upd: "UpdateValidatorStake ?v (vCommittees w) ?full s = (Inr (), t)" "d = ?full"
        by (auto simp: DistributeCommitteeReward_def Let_def catch_def bnd_Inr ret_run)
      have st: "stakeAt s (vAddress ?v) = unat (vStakedAmount ?v)" using Some by (simp add: stakeAt_def)
      have "unat (vStakedAmount w) \<le> stakeTokens s"
        using tsum_ge [OF Some, of "unat \<circ> vStakedAmount"] by (simp add: stakeTokens_def)
      then have "unat (vStakedAmount ?v) + unat ?full < 2 ^ 64" using room full by simp
      from UpdateValidatorStake_tokens [OF upd(1) wf st this] upd(2) full show ?thesis
        by (simp add: paid_def)
    next
      case False
      with run get have "AccountAdd (vOutput w) ?early s = (Inr (), t)" "d = ?early"
        by (auto simp: DistributeCommitteeReward_def Let_def catch_def bnd_Inr ret_run)
      with AccountAdd_paid wf early show ?thesis by blast
    qed
  qed
qed

lemma paid_trans: "paid x s t \<Longrightarrow> paid y t u \<Longrightarrow> paid (x + y) s u"
  by (simp add: paid_def)

lemma payStub_paid:
  assumes run: "payStub A n c vp stub k s = (Inr k', t)" and wf: "wf s"
    and pct: "unat (ppcPercent stub) \<le> 100 * unat n"
    and room: "stakeTokens s + unat (ppcPercent stub) * unat A div (100 * unat n) < 2 ^ 64"
  shows "\<exists>x. unat k' = unat k + x \<and> paid x s t \<and> x \<le> unat (ppcPercent stub) * unat A div (100 * unat n)"
proof -
  obtain d u where d: "DistributeCommitteeReward stub A n c vp s = (Inr d, u)"
    and rest: "(if d > 0
     then bnd (EventReward (ppcAddress stub) d c) (\<lambda>_.
       if k > MaxUint64 - d then err ErrInvalidAmount else ret (k + d))
     else ret k) u = (Inr k', t)"
    using run by (auto simp: payStub_def bnd_Inr)
  note step = DistributeCommitteeReward_paid [OF d wf pct room]
  show ?thesis
  proof (cases "d > 0")
    case True
    with rest have g: "\<not> MaxUint64 - d < k" and k': "k' = k + d"
      and t: "EventReward (ppcAddress stub) d c u = (Inr (), t)"
      by (auto simp: bnd_Inr ret_run err_run split: if_splits)
    have "paid 0 u t" using t step
      by (auto simp: paid_def event_defs addEvent_def go_simps token_defs wf_def)
    with paid_trans [of "unat d" s u 0 t] step k' unat_add_guarded [OF g] show ?thesis by auto
  next
    case False
    then have "d = 0" by (simp add: word_neq_0_conv [symmetric])
    with rest step show ?thesis by (auto simp: ret_run)
  qed
qed

lemma payStubs_paid:
  "fold_m (payStub A n c vp) stubs k s = (Inr k', t) \<Longrightarrow> wf s \<Longrightarrow>
   percentSum stubs \<le> 100 * unat n \<Longrightarrow>
   stakeTokens s + percentSum stubs * unat A div (100 * unat n) < 2 ^ 64 \<Longrightarrow>
   \<exists>x. unat k' = unat k + x \<and> paid x s t \<and> x \<le> percentSum stubs * unat A div (100 * unat n)"
proof (induction stubs arbitrary: k s)
  case Nil
  then show ?case by (auto simp: ret_run paid_def)
next
  case (Cons p ps)
  let ?q = "\<lambda>x. x * unat A div (100 * unat n)"
  let ?x = "unat (ppcPercent p)"
  have split: "percentSum (p # ps) = ?x + percentSum ps" by (simp add: percentSum_def)
  have add: "?q ?x + ?q (percentSum ps) \<le> ?q (percentSum (p # ps))"
    unfolding split add_mult_distrib by (rule div_add_div_le)
  from Cons.prems(1) obtain k1 u where u: "payStub A n c vp p k s = (Inr k1, u)"
    and t: "fold_m (payStub A n c vp) ps k1 u = (Inr k', t)" by (auto simp: bnd_Inr)
  obtain x where x: "unat k1 = unat k + x" "paid x s u" "x \<le> ?q ?x"
    using payStub_paid [OF u Cons.prems(2)] Cons.prems(3,4) add split by auto
  have "\<exists>y. unat k' = unat k1 + y \<and> paid y u t \<and> y \<le> ?q (percentSum ps)"
    by (rule Cons.IH [OF t]) (use Cons.prems(3,4) x add split in \<open>auto simp: paid_def\<close>)
  then obtain y where "unat k' = unat k1 + y" "paid y u t" "y \<le> ?q (percentSum ps)" by blast
  with x paid_trans [of x s u y t] add show ?case by (intro exI [of _ "x + y"]) auto
qed

lemma distributeOne_conserved:
  assumes run: "distributeOne vp data s = (Inr d', t)" and cons: "conserved s" and ok: "percents_ok data"
  shows "conserved t \<and> percents_ok d' \<and> sTotal (supplyTracker t) \<le> sTotal (supplyTracker s)"
proof (cases "cdPaymentPercents data = []")
  case True
  with run cons ok show ?thesis by (simp add: distributeOne_def ret_run)
next
  case False
  let ?p = "poolAt s (cdChainId data)" and ?n = "cdNumberOfSamples data"
  let ?ps = "cdPaymentPercents data"
  obtain k u v where u: "fold_m (payStub (pAmount ?p) ?n (cdChainId data) vp) ?ps 0 s = (Inr k, u)"
    and v: "SubFromTotalSupply (pAmount ?p - k) u = (Inr (), v)"
    and t: "t = v\<lparr>pools := putPool (?p\<lparr>pAmount := 0\<rparr>) (pools v)\<rparr>"
    and d': "d' = data\<lparr>cdPaymentPercents := [], cdNumberOfSamples := 0\<rparr>"
    using run False by (auto simp: distributeOne_def bnd_Inr GetPool_def gets_run SetPool_run ret_run)
  have wf: "wf s" using cons by (simp add: inflight_def)
  have sum: "percentSum ?ps \<le> 100 * unat ?n" using ok by (simp add: percents_ok_def)
  then have share: "percentSum ?ps * unat (pAmount ?p) div (100 * unat ?n) \<le> unat (pAmount ?p)"
  proof -
    have "percentSum ?ps * unat (pAmount ?p) div (100 * unat ?n)
        \<le> (100 * unat ?n) * unat (pAmount ?p) div (100 * unat ?n)"
      using sum by (intro div_le_mono mult_le_mono1)
    then show ?thesis by (cases "unat ?n = 0") auto
  qed
  have pool: "unat (pAmount ?p) \<le> poolTokens s"
    using tsum_ge [of "pools s" "cdChainId data" _ "unat \<circ> pAmount"]
    by (force simp: poolAt_amount poolTokens_def split: option.splits)
  have "stakeTokens s + unat (pAmount ?p) < 2 ^ 64"
    using pool inflight_bound [OF cons] by (simp add: tokens_def)
  then obtain x where x: "unat k = x" "paid x s u" "x \<le> unat (pAmount ?p)"
    using payStubs_paid [OF u wf sum] share by fastforce
  then have sub: "unat (pAmount ?p - k) = unat (pAmount ?p) - x"
    by (simp add: unat_sub unat_le_iff)
  have v': "v = u\<lparr>supplyTracker := (supplyTracker u)\<lparr>sTotal := sTotal (supplyTracker u) - (pAmount ?p - k)\<rparr>\<rparr>"
    and guard: "\<not> sTotal (supplyTracker u) < pAmount ?p - k"
    using v by (auto simp: supply_run_defs split: if_splits)
  have tot: "unat (sTotal (supplyTracker t)) + (unat (pAmount ?p) - x) = unat (sTotal (supplyTracker s))"
    using guard x sub by (simp add: t v' paid_def unat_sub_guarded unat_less_iff)
  have "tok (pools s)" using wf by (simp add: wf_def)
  from poolTokens_put [OF this, of "?p\<lparr>pAmount := 0\<rparr>"]
  have "tokens t + unat (pAmount ?p) = tokens s + x"
    using x(2) by (auto simp: t v' paid_def token_defs)
  moreover have "wf t" using x(2) wf by (auto simp: t v' paid_def wf_def)
  ultimately have "conserved t" using tot x cons by (simp add: inflight_def)
  moreover have "sTotal (supplyTracker t) \<le> sTotal (supplyTracker s)" using tot by (simp add: unat_le_iff)
  ultimately show ?thesis by (simp add: d' percents_ok_def percentSum_def)
qed

lemma distribute_loop:
  "fold_m (\<lambda>data acc. bnd (distributeOne vp data) (\<lambda>d. ret (acc @ [d]))) l acc s = (Inr l', t) \<Longrightarrow>
   conserved s \<Longrightarrow> \<forall>d \<in> set l. percents_ok d \<Longrightarrow> \<forall>d \<in> set acc. percents_ok d \<Longrightarrow>
   conserved t \<and> (\<forall>d \<in> set l'. percents_ok d) \<and> sTotal (supplyTracker t) \<le> sTotal (supplyTracker s)"
proof (induction l arbitrary: acc s)
  case Nil
  then show ?case by (auto simp: ret_run)
next
  case (Cons d l)
  from Cons.prems(1) obtain e u where e: "distributeOne vp d s = (Inr e, u)"
    and rest: "fold_m (\<lambda>data acc. bnd (distributeOne vp data) (\<lambda>d. ret (acc @ [d]))) l (acc @ [e]) u = (Inr l', t)"
    unfolding fold_m.simps bnd_assoc bnd_ret bnd_Inr by blast
  have one: "conserved u \<and> percents_ok e \<and> sTotal (supplyTracker u) \<le> sTotal (supplyTracker s)"
    using distributeOne_conserved [OF e Cons.prems(2)] Cons.prems(3) by simp
  have "conserved t \<and> (\<forall>d \<in> set l'. percents_ok d) \<and> sTotal (supplyTracker t) \<le> sTotal (supplyTracker u)"
    by (rule Cons.IH [OF rest]) (use one Cons.prems in auto)
  with one show ?case by auto
qed

lemma DistributeCommitteeRewards_conserved:
  assumes "DistributeCommitteeRewards s = (Inr r, t)" and "conserved s"
    and "\<forall>d \<in> set (committeesData s). percents_ok d"
  shows "conserved t \<and> (\<forall>d \<in> set (committeesData t). percents_ok d) \<and>
    sTotal (supplyTracker t) \<le> sTotal (supplyTracker s)"
proof -
  obtain l' u where u: "fold_m (\<lambda>data acc. bnd (distributeOne (paramsVal s) data) (\<lambda>d. ret (acc @ [d])))
      (committeesData s) [] s = (Inr l', u)" and t: "t = u\<lparr>committeesData := l'\<rparr>"
    using assms(1) by (auto simp: DistributeCommitteeRewards_def GetParamsVal_def GetCommitteesData_def
        SetCommitteesData_def bnd_Inr gets_run modify_run)
  from distribute_loop [OF u assms(2,3)] show ?thesis
    by (simp add: t inflight_def wf_def token_defs)
qed

text \<open>
  Reward distribution conserves tokens. As long as the payment percents of every committee stay
  within 100 per sample, what is paid out never exceeds the reward pool, the rest is burned from
  the tracked supply, and balances, pools and stakes still add up to it.
\<close>

theorem rewards_conserve_tokens:
  assumes "DistributeCommitteeRewards s = (Inr (), t)" and "conserved s"
    and "\<forall>d \<in> set (committeesData s). percents_ok d"
  shows "conserved t \<and> (\<forall>d \<in> set (committeesData t). percents_ok d) \<and>
    sTotal (supplyTracker t) \<le> sTotal (supplyTracker s)"
  using DistributeCommitteeRewards_conserved [OF assms] .

theorem rewards_conserve_tokens_witness:
  "\<exists>s t. committeesData s = [\<lparr>cdChainId = 1, cdLastRootHeightUpdated = 3, cdLastChainHeightUpdated = 4,
      cdPaymentPercents = [\<lparr>ppcAddress = Addr [7], ppcPercent = 60, ppcChainId = 1\<rparr>],
      cdNumberOfSamples = 1\<rparr>] \<and> DistributeCommitteeRewards s = (Inr (), t) \<and> conserved t"
proof -
  let ?d = "\<lparr>cdChainId = 1, cdLastRootHeightUpdated = 3, cdLastChainHeightUpdated = 4,
      cdPaymentPercents = [\<lparr>ppcAddress = Addr [7], ppcPercent = 60, ppcChainId = 1\<rparr>],
      cdNumberOfSamples = 1\<rparr>"
  let ?s = "exampleState\<lparr>committeesData := [?d]\<rparr>"
  let ?m = "DistributeCommitteeRewards ?s"
  have run: "?m = (Inr (), snd ?m)"
    by (simp add: DistributeCommitteeRewards_def distributeOne_def payStub_def
        DistributeCommitteeReward_def fullRewardOf_def earlyWithdrawalOf_def GetValidator_def
        GetParamsVal_def GetCommitteesData_def SetCommitteesData_def GetPool_def poolAt_def SetPool_run
        AccountAdd_run accountAt_def SafeMulDiv_def supply_run_defs event_defs addEvent_def
        exampleState_def exampleSupply_def exampleValParams_def MaxUint64_def Let_def)
  have cons: "conserved ?s"
    by (simp add: inflight_def wf_def token_defs exampleState_def exampleSupply_def tok_def)
  have ok: "\<forall>d \<in> set (committeesData ?s). percents_ok d"
    by (simp add: percents_ok_def percentSum_def)
  from rewards_conserve_tokens [OF run cons ok] run show ?thesis
    by (intro exI [of _ ?s] exI [of _ "snd ?m"]) simp
qed


end
