(* ===== verification/Certificates.thy ===== *)
theory Certificates
  imports Committees Quorum
begin

text \<open>
  Quorum certificates and certificate results (\<open>lib/certificate.go\<close>): the sanity checks every
  message with a certificate goes through and the equality tests of the consensus layer.

  Where the code tells \<open>nil\<close> from an empty slice or a missing message the field is an option.
  Elements of a repeated message field are never \<open>nil\<close> after decoding, so the tests of elements
  against \<open>nil\<close> have no counterpart. The protobuf codec and the hash function are the fields
  of a record the operations are given.
\<close>

section \<open>Messages\<close>

record lockOrder =
  loOrderId :: bytes
  loChainId :: u64
  loBuyerReceiveAddress :: bytes
  loBuyerSendAddress :: bytes
  loBuyerChainDeadline :: u64

record orders =
  orLockOrders :: "lockOrder list"
  orResetOrders :: "bytes list"
  orCloseOrders :: "bytes list"

record doubleSigner =
  dsId :: "bytes option"
  dsHeights :: "u64 list option"

record rewardRecipients =
  rrPaymentPercents :: "paymentPercents list"
  rrNumberOfSamples :: u64

record checkpoint =
  ckHeight :: u64
  ckBlockHash :: bytes

record certificateResult =
  crRewardRecipients :: "rewardRecipients option"
  crSlashRecipients :: "doubleSigner list option"
  crOrders :: "orders option"
  crCheckpoint :: "checkpoint option"
  crRetired :: bool
  crDexBatch :: "dexBatch option"
  crRootDexBatch :: "dexBatch option"

record quorumCertificate =
  qcHeader :: "view option"
  qcResults :: "certificateResult option"
  qcResultsHash :: "bytes option"
  qcBlock :: "bytes option"
  qcBlockHash :: bytes
  qcProposerKey :: "bytes option"
  qcSignature :: "aggregateSignature option"

text \<open>
  \<open>crypto.Hash\<close>, \<open>Marshal\<close> of results and of certificates, the header hash that
  \<open>BytesToBlockHash\<close> cuts out of the raw protobuf bytes, the transactions of a decoded block, and the unit
  \<open>units.MB\<close>.
\<close>

record codec =
  cHash :: "bytes \<Rightarrow> bytes"
  cMarshalResults :: "certificateResult \<Rightarrow> bytes"
  cMarshalQC :: "quorumCertificate \<Rightarrow> bytes"
  cBytesToBlockHash :: "bytes \<Rightarrow> error + bytes"
  cTransactions :: "bytes \<Rightarrow> error + bytes list"
  cMB :: nat

definition AddressSize :: nat where "AddressSize = 20"
definition HashSize :: nat where "HashSize = 32"
definition BLS12381PubKeySize :: nat where "BLS12381PubKeySize = 48"
definition GlobalMaxBlockSize :: "codec \<Rightarrow> nat" where "GlobalMaxBlockSize c = 256 * cMB c"
definition MaxDepositsPerDexBatch :: nat where "MaxDepositsPerDexBatch = 5000"
definition MaxWithdrawsPerDexBatch :: nat where "MaxWithdrawsPerDexBatch = 5000"
definition MaxOrdersPerDexBatch :: nat where "MaxOrdersPerDexBatch = 10000"
definition MaxReceipts :: nat where "MaxReceipts = MaxOrdersPerDexBatch"
definition Phase_ELECTION_VOTE :: u64 where "Phase_ELECTION_VOTE = 2"
definition Phase_PROPOSE_VOTE :: u64 where "Phase_PROPOSE_VOTE = 4"

section \<open>Sanity checks\<close>

text \<open>The loop over the payment percents; \<open>chainMap\<close> has the percents handed out per chain.\<close>

fun checkPercents :: "(u64 \<Rightarrow> u64) \<Rightarrow> paymentPercents list \<Rightarrow> error + unit" where
  "checkPercents chainMap [] = Inr ()"
| "checkPercents chainMap (pp # pps) =
     (if ppcChainId pp = 0 then Inl (Error ''EmptyChainId'')
      else if length (addr_bytes (ppcAddress pp)) \<noteq> AddressSize then Inl ErrInvalidAddress
      else if chainMap (ppcChainId pp) > MaxUint64 - ppcPercent pp then Inl ErrInvalidPercentAllocation
      else let m = chainMap(ppcChainId pp := chainMap (ppcChainId pp) + ppcPercent pp) in
        if m (ppcChainId pp) > 100 then Inl ErrInvalidPercentAllocation
        else checkPercents m pps)"

definition RewardRecipients_CheckBasic :: "rewardRecipients option \<Rightarrow> error + unit" where
  "RewardRecipients_CheckBasic x = (case x of
       None \<Rightarrow> Inl ErrNilRewardRecipients
     | Some x \<Rightarrow>
         let paymentRecipientCount = length (rrPaymentPercents x) in
         if paymentRecipientCount = 0 \<or> paymentRecipientCount > 100
         then Inl (Error ''PaymentRecipientsCount'')
         else checkPercents (\<lambda>_. 0) (rrPaymentPercents x))"

definition SlashRecipients_CheckBasic :: "doubleSigner list option \<Rightarrow> error + unit" where
  "SlashRecipients_CheckBasic x = (case x of
       None \<Rightarrow> Inr ()
     | Some ds \<Rightarrow>
         if list_ex (\<lambda>r. dsHeights r = None \<or> dsId r = None) ds then Inl ErrInvalidDoubleSigner
         else Inr ())"

fun checkLocks :: "lockOrder list \<Rightarrow> error + unit" where
  "checkLocks [] = Inr ()"
| "checkLocks (lock # locks) =
     (if length (loBuyerSendAddress lock) = 0 then Inl (Error ''InvalidBuyerSendAddress'')
      else if length (loBuyerReceiveAddress lock) \<noteq> AddressSize then Inl (Error ''InvalidBuyerReceiveAddress'')
      else if loBuyerChainDeadline lock = 0 then Inl (Error ''InvalidBuyerDeadline'')
      else checkLocks locks)"

text \<open>The de-duplicator: is some element found among those seen before it?\<close>

fun Found :: "'k list \<Rightarrow> 'k list \<Rightarrow> bool" where
  "Found seen [] \<longleftrightarrow> False"
| "Found seen (k # ks) \<longleftrightarrow> k \<in> set seen \<or> Found (k # seen) ks"

definition Orders_CheckBasic :: "orders option \<Rightarrow> error + unit" where
  "Orders_CheckBasic x = (case x of
       None \<Rightarrow> Inr ()
     | Some x \<Rightarrow>
         if length (orLockOrders x) > MaxOrdersPerDexBatch \<or> length (orResetOrders x) > MaxOrdersPerDexBatch
            \<or> length (orCloseOrders x) > MaxOrdersPerDexBatch then Inl (Error ''TooManyDexOrders'')
         else (case checkLocks (orLockOrders x) of
             Inl e \<Rightarrow> Inl e
           | Inr _ \<Rightarrow>
               if Found [] (map BytesToString (orResetOrders x)) then Inl (Error ''DuplicateResetOrder'')
               else if Found [] (map BytesToString (orCloseOrders x)) then Inl (Error ''DuplicateCloseOrder'')
               else Inr ()))"

definition DexBatch_CheckBasic :: "dexBatch option \<Rightarrow> error + unit" where
  "DexBatch_CheckBasic x = (case x of
       None \<Rightarrow> Inr ()
     | Some x \<Rightarrow>
         if length (dbDeposits x) > MaxDepositsPerDexBatch then Inl (Error ''TooManyDexDeposits'')
         else if length (dbWithdrawals x) > MaxWithdrawsPerDexBatch then Inl (Error ''TooManyDexWithdraws'')
         else if list_ex (\<lambda>w. dwPercent w = 0 \<or> dwPercent w > 100) (dbWithdrawals x)
         then Inl ErrInvalidPercentAllocation
         else if length (dbOrders x) > MaxOrdersPerDexBatch then Inl (Error ''TooManyDexOrders'')
         else if length (dbReceipts x) > MaxReceipts then Inl (Error ''TooManyDexReceipts'')
         else if length (dbPoolPoints x) > MaxLiquidityProviders then Inl (Error ''TooManyDexReceipts'')
         else if list_ex (\<lambda>p. length (addr_bytes (ppAddress p)) \<noteq> AddressSize) (dbPoolPoints x)
         then Inl ErrInvalidAddress
         else if length (dbReceiptHash x) > 100 then Inl (Error ''InvalidBlockHash'')
         else Inr ())"

definition Checkpoint_CheckBasic :: "checkpoint option \<Rightarrow> error + unit" where
  "Checkpoint_CheckBasic x = (case x of
       None \<Rightarrow> Inr ()
     | Some x \<Rightarrow> if length (ckBlockHash x) > 100 then Inl (Error ''InvalidBlockHash'') else Inr ())"

text \<open>A sequence of checks, the first error wins.\<close>

primrec checks :: "(error + unit) list \<Rightarrow> error + unit" where
  "checks [] = Inr ()"
| "checks (c # cs) = (case c of Inl e \<Rightarrow> Inl e | Inr _ \<Rightarrow> checks cs)"

definition check :: "bool \<Rightarrow> error \<Rightarrow> error + unit" where
  "check bad e = (if bad then Inl e else Inr ())"

definition CertificateResult_CheckBasic :: "certificateResult option \<Rightarrow> error + unit" where
  "CertificateResult_CheckBasic x = (case x of
       None \<Rightarrow> Inl ErrNilCertResults
     | Some x \<Rightarrow> checks
         [RewardRecipients_CheckBasic (crRewardRecipients x),
          SlashRecipients_CheckBasic (crSlashRecipients x),
          Orders_CheckBasic (crOrders x),
          DexBatch_CheckBasic (crDexBatch x),
          check (case crDexBatch x of None \<Rightarrow> False | Some b \<Rightarrow> dbPoolPoints b \<noteq> []) (Error ''NonNilPoolPoints''),
          DexBatch_CheckBasic (crRootDexBatch x),
          Checkpoint_CheckBasic (crCheckpoint x)])"

definition Hash_results :: "codec \<Rightarrow> certificateResult \<Rightarrow> bytes" where
  "Hash_results c x = cHash c (cMarshalResults c x)"

text \<open>The length of a possibly missing byte slice.\<close>

definition optLen :: "bytes option \<Rightarrow> nat" where
  "optLen b = (case b of None \<Rightarrow> 0 | Some bs \<Rightarrow> length bs)"

definition QuorumCertificate_CheckBasic :: "codec \<Rightarrow> quorumCertificate option \<Rightarrow> error + unit" where
  "QuorumCertificate_CheckBasic c x = (case x of
       None \<Rightarrow> Inl (Error ''EmptyQuorumCertificate'')
     | Some x \<Rightarrow> checks
         [check (qcResultsHash x = None \<and> qcProposerKey x = None) (Error ''EmptyQuorumCertificate''),
          check (qcHeader x = None) ErrEmptyView,
          (case qcResultsHash x of
             Some resultsHash \<Rightarrow> checks
               [check (length (qcBlockHash x) \<noteq> HashSize) (Error ''InvalidBlockHash''),
                check (length resultsHash \<noteq> HashSize) (Error ''InvalidResultsHash''),
                (case qcResults x of
                   None \<Rightarrow> Inr ()
                 | Some results \<Rightarrow> checks
                     [CertificateResult_CheckBasic (Some results),
                      check (resultsHash \<noteq> Hash_results c results) (Error ''MismatchResultsHash'')]),
                (case qcBlock x of
                   None \<Rightarrow> Inr ()
                 | Some block \<Rightarrow> (case cBytesToBlockHash c block of
                       Inl e \<Rightarrow> Inl e
                     | Inr h \<Rightarrow> checks
                         [check (qcBlockHash x \<noteq> h) (Error ''MismatchQCBlockHash''),
                          check (length block > GlobalMaxBlockSize c) (Error ''ExpectedMaxBlockSize'')]))]
           | None \<Rightarrow> checks
               [check (optLen (qcProposerKey x) \<noteq> BLS12381PubKeySize) (Error ''InvalidSigner''),
                check (qcResults x \<noteq> None) (Error ''MismatchResultsHash''),
                check (length (qcBlockHash x) \<noteq> 0 \<or> optLen (qcBlock x) \<noteq> 0) (Error ''NonNilBlock'')]),
          (case qcSignature x of
             None \<Rightarrow> Inl (Error ''EmptyAggregateSignature'')
           | Some sig \<Rightarrow> AggregateSignature_CheckBasic sig)])"

definition SignBytes :: "codec \<Rightarrow> quorumCertificate \<Rightarrow> bytes" where
  "SignBytes c x =
     (if case qcHeader x of None \<Rightarrow> False | Some h \<Rightarrow> vwPhase h = Phase_ELECTION_VOTE
      then cMarshalQC c \<lparr>qcHeader = qcHeader x, qcResults = None, qcResultsHash = None, qcBlock = None,
             qcBlockHash = [], qcProposerKey = qcProposerKey x, qcSignature = None\<rparr>
      else cMarshalQC c (x\<lparr>qcResults := None, qcBlock := None, qcSignature := None\<rparr>))"

text \<open>The result says whether the certificate is partial: a valid signature without a majority.\<close>

definition QuorumCertificate_Check ::
    "codec \<Rightarrow> (nat \<Rightarrow> bytes \<Rightarrow> bool) \<Rightarrow> (validatorSet \<Rightarrow> bytes \<Rightarrow> bytes \<Rightarrow> bytes \<Rightarrow> bool) \<Rightarrow> validatorSet
      \<Rightarrow> nat \<Rightarrow> view \<Rightarrow> bool \<Rightarrow> quorumCertificate option \<Rightarrow> error + bool" where
  "QuorumCertificate_Check c maskOk verify vs maxBlockSize vw enforceHeights x =
     (case QuorumCertificate_CheckBasic c x of
        Inl e \<Rightarrow> Inl e
      | Inr _ \<Rightarrow> (case View_Check vw enforceHeights (qcHeader (the x)) of
          Inl e \<Rightarrow> Inl e
        | Inr _ \<Rightarrow> (case cTransactions c (case qcBlock (the x) of None \<Rightarrow> [] | Some b \<Rightarrow> b) of
            Inl e \<Rightarrow> Inl e
          | Inr txs \<Rightarrow>
              if sum_list (map length txs) > maxBlockSize then Inl (Error ''ExpectedMaxBlockSize'')
              else AggregateSignature_Check maskOk verify (SignBytes c (the x)) vs (the (qcSignature (the x))))))"

definition CheckHighQC ::
    "codec \<Rightarrow> (nat \<Rightarrow> bytes \<Rightarrow> bool) \<Rightarrow> (validatorSet \<Rightarrow> bytes \<Rightarrow> bytes \<Rightarrow> bytes \<Rightarrow> bool) \<Rightarrow> nat
      \<Rightarrow> view \<Rightarrow> u64 \<Rightarrow> validatorSet \<Rightarrow> quorumCertificate option \<Rightarrow> error + unit" where
  "CheckHighQC c maskOk verify maxBlockSize vw lastRootHeightUpdated vs x =
     (case QuorumCertificate_Check c maskOk verify vs maxBlockSize vw False x of
        Inl e \<Rightarrow> Inl e
      | Inr isPartialQC \<Rightarrow>
          let header = the (qcHeader (the x)) in checks
            [check isPartialQC ErrNoMaj23,
             check (lastRootHeightUpdated > vwRootHeight header) (Error ''WrongHighQCRootHeight''),
             check (vwHeight header \<noteq> vwHeight vw) (Error ''WrongHighQCHeight''),
             check (vwPhase header \<noteq> Phase_PROPOSE_VOTE) (Error ''WrongPhase'')])"

text \<open>A \<open>nil\<close> header of the second certificate is dereferenced: \<open>None\<close> is the panic.\<close>

definition EqualPayloads :: "quorumCertificate option \<Rightarrow> quorumCertificate \<Rightarrow> bool option" where
  "EqualPayloads x compare = (case x of
       None \<Rightarrow> Some False
     | Some x \<Rightarrow> (case qcHeader x of
         None \<Rightarrow> Some False
       | Some h \<Rightarrow>
           if (case qcProposerKey x of None \<Rightarrow> [] | Some k \<Rightarrow> k)
                \<noteq> (case qcProposerKey compare of None \<Rightarrow> [] | Some k \<Rightarrow> k) then Some False
           else (case qcHeader compare of
             None \<Rightarrow> None
           | Some g \<Rightarrow> Some (vwHeight h = vwHeight g \<and> qcBlockHash x = qcBlockHash compare \<and>
               (case qcResultsHash x of None \<Rightarrow> [] | Some r \<Rightarrow> r)
                 = (case qcResultsHash compare of None \<Rightarrow> [] | Some r \<Rightarrow> r)))))"

section \<open>Equality tests\<close>

definition RewardRecipients_Equals :: "rewardRecipients option \<Rightarrow> rewardRecipients option \<Rightarrow> bool" where
  "RewardRecipients_Equals x y = (case (x, y) of
       (None, None) \<Rightarrow> True
     | (Some x, Some y) \<Rightarrow>
         list_all2 (\<lambda>a b. ppcChainId a = ppcChainId b \<and> ppcAddress a = ppcAddress b \<and> ppcPercent a = ppcPercent b)
           (rrPaymentPercents x) (rrPaymentPercents y) \<and> rrNumberOfSamples x = rrNumberOfSamples y
     | _ \<Rightarrow> False)"

text \<open>\<open>bytes.Equal\<close> and \<open>slices.Equal\<close> do not tell \<open>nil\<close> from an empty slice.\<close>

definition optList :: "'a list option \<Rightarrow> 'a list" where
  "optList x = (case x of None \<Rightarrow> [] | Some l \<Rightarrow> l)"

definition SlashRecipients_Equals :: "doubleSigner list option \<Rightarrow> doubleSigner list option \<Rightarrow> bool" where
  "SlashRecipients_Equals x y = (case (x, y) of
       (None, None) \<Rightarrow> True
     | (Some x, Some y) \<Rightarrow> list_all2 (\<lambda>a b. optList (dsId a) = optList (dsId b) \<and>
         optList (dsHeights a) = optList (dsHeights b)) x y
     | _ \<Rightarrow> False)"

definition LockOrder_Equals :: "lockOrder \<Rightarrow> lockOrder \<Rightarrow> bool" where
  "LockOrder_Equals x y \<longleftrightarrow> loBuyerReceiveAddress x = loBuyerReceiveAddress y \<and>
     loBuyerSendAddress x = loBuyerSendAddress y \<and> loChainId x = loChainId y \<and>
     loOrderId x = loOrderId y \<and> loBuyerChainDeadline x = loBuyerChainDeadline y"

definition Orders_Equals :: "orders option \<Rightarrow> orders option \<Rightarrow> bool" where
  "Orders_Equals x y = (case (x, y) of
       (None, None) \<Rightarrow> True
     | (Some x, Some y) \<Rightarrow> orCloseOrders x = orCloseOrders y \<and> orResetOrders x = orResetOrders y \<and>
         list_all2 LockOrder_Equals (orLockOrders x) (orLockOrders y)
     | _ \<Rightarrow> False)"

definition Checkpoint_Equals :: "checkpoint option \<Rightarrow> checkpoint option \<Rightarrow> bool" where
  "Checkpoint_Equals x y = (case (x, y) of
       (None, None) \<Rightarrow> True
     | (Some x, Some y) \<Rightarrow> ckBlockHash x = ckBlockHash y \<and> ckHeight x = ckHeight y
     | _ \<Rightarrow> False)"

definition DexBatch_Equals :: "dexBatch option \<Rightarrow> dexBatch option \<Rightarrow> bool" where
  "DexBatch_Equals x y = (case (x, y) of
       (None, None) \<Rightarrow> True
     | (Some x, Some y) \<Rightarrow> dbCommittee x = dbCommittee y \<and> dbLockedHeight x = dbLockedHeight y \<and>
         dbTotalPoolPoints x = dbTotalPoolPoints y \<and> dbCounterPoolSize x = dbCounterPoolSize y \<and>
         dbPoolSize x = dbPoolSize y \<and>
         list_all2 (\<lambda>a b. ddAmount a = ddAmount b \<and> ddAddress a = ddAddress b \<and> ddOrderId a = ddOrderId b)
           (dbDeposits x) (dbDeposits y) \<and>
         list_all2 (\<lambda>a b. dwPercent a = dwPercent b \<and> dwAddress a = dwAddress b \<and> dwOrderId a = dwOrderId b)
           (dbWithdrawals x) (dbWithdrawals y) \<and>
         list_all2 (\<lambda>a b. dlAmountForSale a = dlAmountForSale b \<and> dlRequestedAmount a = dlRequestedAmount b \<and>
             dlAddress a = dlAddress b \<and> dlOrderId a = dlOrderId b) (dbOrders x) (dbOrders y) \<and>
         dbReceipts x = dbReceipts y \<and>
         list_all2 (\<lambda>a b. ppPoints a = ppPoints b \<and> ppAddress a = ppAddress b) (dbPoolPoints x) (dbPoolPoints y) \<and>
         dbLivenessFallback x = dbLivenessFallback y
     | _ \<Rightarrow> False)"

definition CertificateResult_Equals :: "certificateResult option \<Rightarrow> certificateResult option \<Rightarrow> bool" where
  "CertificateResult_Equals x y = (case (x, y) of
       (Some x, Some y) \<Rightarrow>
         RewardRecipients_Equals (crRewardRecipients x) (crRewardRecipients y) \<and>
         SlashRecipients_Equals (crSlashRecipients x) (crSlashRecipients y) \<and>
         Orders_Equals (crOrders x) (crOrders y) \<and>
         Checkpoint_Equals (crCheckpoint x) (crCheckpoint y) \<and>
         DexBatch_Equals (crDexBatch x) (crDexBatch y) \<and>
         DexBatch_Equals (crRootDexBatch x) (crRootDexBatch y) \<and>
         crRetired x = crRetired y
     | _ \<Rightarrow> False)"

section \<open>What an accepted certificate guarantees\<close>

lemma checks_ok [simp]: "checks cs = Inr () \<longleftrightarrow> list_all (\<lambda>c. c = Inr ()) cs"
  by (induction cs) (auto split: sum.splits)

declare checks.simps [simp del]

lemma check_ok [simp]: "check bad e = Inr () \<longleftrightarrow> \<not> bad"
  by (simp add: check_def)

lemma percentSum_Cons [simp]: "percentSum (p # ps) = unat (ppcPercent p) + percentSum ps"
  by (simp add: percentSum_def)

lemma percentSum_Nil [simp]: "percentSum [] = 0"
  by (simp add: percentSum_def)

definition capped :: "(u64 \<Rightarrow> u64) \<Rightarrow> paymentPercents list \<Rightarrow> bool" where
  "capped m ps \<longleftrightarrow> (\<forall>c. unat (m c) + percentSum (filter (\<lambda>p. ppcChainId p = c) ps) \<le> 100)"

lemma capped_Cons:
  assumes "unat (m (ppcChainId p)) + unat (ppcPercent p) < 2 ^ 64"
  shows "capped m (p # ps) \<longleftrightarrow> capped (m(ppcChainId p := m (ppcChainId p) + ppcPercent p)) ps"
  using assms by (auto simp: capped_def unat_add_exact)

lemma checkPercents_ok:
  assumes "\<forall>c. unat (m c) \<le> 100"
  shows "checkPercents m ps = Inr () \<longleftrightarrow>
    list_all (\<lambda>p. ppcChainId p \<noteq> 0 \<and> length (addr_bytes (ppcAddress p)) = AddressSize) ps \<and> capped m ps"
  using assms
proof (induction ps arbitrary: m)
  case Nil
  then show ?case by (simp add: capped_def)
next
  case (Cons p ps)
  let ?c = "ppcChainId p" and ?m = "m(ppcChainId p := m (ppcChainId p) + ppcPercent p)"
  have g: "m ?c > MaxUint64 - ppcPercent p \<longleftrightarrow> \<not> unat (m ?c) + unat (ppcPercent p) < 2 ^ 64"
    by (simp add: add_guard_iff linorder_not_less)
  show ?case
  proof (cases "unat (m ?c) + unat (ppcPercent p) \<le> 100")
    case True
    then have e: "unat (m ?c + ppcPercent p) = unat (m ?c) + unat (ppcPercent p)"
      by (intro unat_add_exact) simp
    have "\<forall>c. unat (?m c) \<le> 100" using Cons.prems True e by simp
    note IH = Cons.IH [OF this]
    have "\<not> m ?c > MaxUint64 - ppcPercent p" and "\<not> m ?c + ppcPercent p > 100"
      and cap: "capped m (p # ps) \<longleftrightarrow> capped ?m ps"
      using True e g capped_Cons [of m p ps] by (simp_all add: unat_less_iff)
    then have "checkPercents m (p # ps) = Inr () \<longleftrightarrow>
        ?c \<noteq> 0 \<and> length (addr_bytes (ppcAddress p)) = AddressSize \<and> checkPercents ?m ps = Inr ()"
      by (simp add: Let_def)
    then show ?thesis unfolding IH cap list.pred_inject by blast
  next
    case False
    have "\<not> capped m (p # ps)"
      using False unfolding capped_def by (intro notI) (drule spec [of _ ?c], simp)
    moreover have "checkPercents m (p # ps) \<noteq> Inr ()"
    proof (cases "unat (m ?c) + unat (ppcPercent p) < 2 ^ 64")
      case True
      with False show ?thesis by (simp add: g Let_def unat_less_iff unat_add_exact)
    next
      case False
      with g show ?thesis by simp
    qed
    ultimately show ?thesis by blast
  qed
qed

text \<open>
  The sanity check of reward recipients accepts exactly the lists of one to one hundred
  recipients with 20 byte addresses and a chain id that hand out at most 100 percent per chain;
  no list of percents gets past the cap by overflowing.
\<close>

theorem reward_recipients_capped:
  "RewardRecipients_CheckBasic (Some r) = Inr () \<longleftrightarrow>
     0 < length (rrPaymentPercents r) \<and> length (rrPaymentPercents r) \<le> 100 \<and>
     list_all (\<lambda>p. ppcChainId p \<noteq> 0 \<and> length (addr_bytes (ppcAddress p)) = 20) (rrPaymentPercents r) \<and>
     (\<forall>c. percentSum (filter (\<lambda>p. ppcChainId p = c) (rrPaymentPercents r)) \<le> 100)"
  using checkPercents_ok [of "\<lambda>_. 0" "rrPaymentPercents r"]
  by (auto simp: RewardRecipients_CheckBasic_def Let_def capped_def AddressSize_def)

text \<open>An accepted certificate, taken apart.\<close>

lemma AggregateSignature_Check_full:
  assumes "AggregateSignature_Check maskOk verify msg vs x = Inr False"
  obtains keys pwr where "GetSigners maskOk (asBitmap x) vs = Inr (keys, pwr)"
    and "vsMinimumMaj23 vs \<le> pwr" and "verify vs (asBitmap x) msg (asSignature x)"
  using assms by (auto simp: AggregateSignature_Check_def linorder_not_less split: sum.splits if_splits)

lemma CheckHighQC_Inr:
  assumes "CheckHighQC c maskOk verify mbs vw lastRoot vs x = Inr ()"
  obtains qc h sig where "x = Some qc" "qcHeader qc = Some h" "qcSignature qc = Some sig"
    "vwNetworkId h = vwNetworkId vw" "vwChainId h = vwChainId vw" "vwHeight h = vwHeight vw"
    "vwPhase h = Phase_PROPOSE_VOTE" "lastRoot \<le> vwRootHeight h"
    "AggregateSignature_Check maskOk verify (SignBytes c qc) vs sig = Inr False"
proof -
  from assms have chk: "QuorumCertificate_Check c maskOk verify vs mbs vw False x = Inr False"
    and rest: "lastRoot \<le> vwRootHeight (the (qcHeader (the x)))" "vwHeight (the (qcHeader (the x))) = vwHeight vw"
      "vwPhase (the (qcHeader (the x))) = Phase_PROPOSE_VOTE"
    by (auto simp: CheckHighQC_def Let_def linorder_not_less split: sum.splits)
  from chk have basic: "QuorumCertificate_CheckBasic c x = Inr ()"
    and view: "View_Check vw False (qcHeader (the x)) = Inr ()"
    and sig: "AggregateSignature_Check maskOk verify (SignBytes c (the x)) vs (the (qcSignature (the x))) = Inr False"
    by (auto simp: QuorumCertificate_Check_def split: sum.splits if_splits)
  from basic obtain qc where qc: "x = Some qc" by (cases x) (simp_all add: QuorumCertificate_CheckBasic_def)
  from basic have "qcHeader qc \<noteq> None" "qcSignature qc \<noteq> None"
    by (simp_all add: qc QuorumCertificate_CheckBasic_def split: option.splits)
  then obtain h sg where hs: "qcHeader qc = Some h" "qcSignature qc = Some sg" by auto
  with view qc have "vwNetworkId h = vwNetworkId vw" "vwChainId h = vwChainId vw"
    by (auto simp: View_Check_def split: if_splits)
  with that [OF qc hs] rest sig qc hs show ?thesis by simp
qed


text \<open>A certificate of the four validator example set, locked at height 5.\<close>

definition exampleQC :: "bytes \<Rightarrow> quorumCertificate" where
  "exampleQC bitmap = \<lparr>qcHeader = Some \<lparr>vwHeight = 5, vwRootHeight = 7, vwRound = 0, vwPhase = 4,
       vwNetworkId = 1, vwChainId = 1\<rparr>, qcResults = None, qcResultsHash = Some (replicate 32 0),
     qcBlock = None, qcBlockHash = replicate 32 0, qcProposerKey = None,
     qcSignature = Some \<lparr>asSignature = replicate 96 0, asBitmap = bitmap\<rparr>\<rparr>"

definition exampleCodec :: codec where
  "exampleCodec = \<lparr>cHash = (\<lambda>_. replicate 32 0), cMarshalResults = (\<lambda>_. []), cMarshalQC = (\<lambda>_. []),
     cBytesToBlockHash = (\<lambda>_. Inr (replicate 32 0)), cTransactions = (\<lambda>_. Inr []), cMB = 1000000\<rparr>"


section \<open>What the equality tests decide\<close>

lemma list_all2_eqI: "(\<And>a b. P a b \<longleftrightarrow> a = b) \<Longrightarrow> list_all2 P xs ys \<longleftrightarrow> xs = ys"
proof -
  assume "\<And>a b. P a b \<longleftrightarrow> a = b"
  then have "P = (=)" by (intro ext) simp
  then show ?thesis by (simp add: list.rel_eq)
qed

lemma list_all2_mapI: "(\<And>a b. P a b \<longleftrightarrow> f a = f b) \<Longrightarrow> list_all2 P xs ys \<longleftrightarrow> map f xs = map f ys"
proof -
  assume "\<And>a b. P a b \<longleftrightarrow> f a = f b"
  then have "P = (\<lambda>a b. f a = f b)" by (intro ext) simp
  then have "list_all2 P xs ys \<longleftrightarrow> list_all2 (=) (map f xs) (map f ys)"
    by (simp add: list_all2_map1 list_all2_map2)
  then show ?thesis by (simp add: list.rel_eq)
qed

lemma RewardRecipients_Equals_iff: "RewardRecipients_Equals x y \<longleftrightarrow> x = y"
proof -
  have "list_all2 (\<lambda>a b. ppcChainId a = ppcChainId b \<and> ppcAddress a = ppcAddress b \<and> ppcPercent a = ppcPercent b) l k
      \<longleftrightarrow> l = k" for l k :: "paymentPercents list"
    by (rule list_all2_eqI) auto
  then show ?thesis by (auto simp: RewardRecipients_Equals_def split: option.splits)
qed

lemma Orders_Equals_iff: "Orders_Equals x y \<longleftrightarrow> x = y"
proof -
  have "list_all2 LockOrder_Equals l k \<longleftrightarrow> l = k" for l k
    by (rule list_all2_eqI) (auto simp: LockOrder_Equals_def)
  then show ?thesis by (auto simp: Orders_Equals_def split: option.splits)
qed

lemma Checkpoint_Equals_iff: "Checkpoint_Equals x y \<longleftrightarrow> x = y"
  by (auto simp: Checkpoint_Equals_def split: option.splits)

definition plainSigner :: "doubleSigner \<Rightarrow> bytes \<times> u64 list" where
  "plainSigner d = (optList (dsId d), optList (dsHeights d))"

lemma SlashRecipients_Equals_iff:
  "SlashRecipients_Equals x y \<longleftrightarrow> map_option (map plainSigner) x = map_option (map plainSigner) y"
proof -
  have "list_all2 (\<lambda>a b. optList (dsId a) = optList (dsId b) \<and> optList (dsHeights a) = optList (dsHeights b)) l k
      \<longleftrightarrow> map plainSigner l = map plainSigner k" for l k
    by (rule list_all2_mapI) (simp add: plainSigner_def)
  then show ?thesis by (auto simp: SlashRecipients_Equals_def split: option.splits)
qed

definition withoutReceiptHash :: "dexBatch \<Rightarrow> dexBatch" where
  "withoutReceiptHash b = b\<lparr>dbReceiptHash := []\<rparr>"

lemma withoutReceiptHash_eq:
  "withoutReceiptHash a = withoutReceiptHash b \<longleftrightarrow> dbCommittee a = dbCommittee b \<and> dbLockedHeight a = dbLockedHeight b \<and>
     dbTotalPoolPoints a = dbTotalPoolPoints b \<and> dbCounterPoolSize a = dbCounterPoolSize b \<and>
     dbPoolSize a = dbPoolSize b \<and> dbDeposits a = dbDeposits b \<and> dbWithdrawals a = dbWithdrawals b \<and>
     dbOrders a = dbOrders b \<and> dbReceipts a = dbReceipts b \<and> dbPoolPoints a = dbPoolPoints b \<and>
     dbLivenessFallback a = dbLivenessFallback b"
  by (cases a; cases b) (auto simp: withoutReceiptHash_def)

lemma DexBatch_Equals_iff:
  "DexBatch_Equals x y \<longleftrightarrow> map_option withoutReceiptHash x = map_option withoutReceiptHash y"
proof -
  have "list_all2 (\<lambda>a b. ddAmount a = ddAmount b \<and> ddAddress a = ddAddress b \<and> ddOrderId a = ddOrderId b) l k
      \<longleftrightarrow> l = k" for l k :: "dexLiquidityDeposit list"
    by (rule list_all2_eqI) auto
  moreover have "list_all2 (\<lambda>a b. dwPercent a = dwPercent b \<and> dwAddress a = dwAddress b \<and> dwOrderId a = dwOrderId b) l k
      \<longleftrightarrow> l = k" for l k :: "dexLiquidityWithdraw list"
    by (rule list_all2_eqI) auto
  moreover have "list_all2 (\<lambda>a b. dlAmountForSale a = dlAmountForSale b \<and> dlRequestedAmount a = dlRequestedAmount b \<and>
      dlAddress a = dlAddress b \<and> dlOrderId a = dlOrderId b) l k \<longleftrightarrow> l = k" for l k :: "dexLimitOrder list"
    by (rule list_all2_eqI) auto
  moreover have "list_all2 (\<lambda>a b. ppPoints a = ppPoints b \<and> ppAddress a = ppAddress b) l k \<longleftrightarrow> l = k"
    for l k :: "poolPoints list"
    by (rule list_all2_eqI) auto
  ultimately show ?thesis
    by (cases x; cases y) (simp_all add: DexBatch_Equals_def withoutReceiptHash_eq)
qed

text \<open>
  The equality test of certificate results decides equality of everything they contain
  except the receipt hash of the dex batches, which it never looks at; it does not tell an
  absent identifier of a double signer from an empty one.
\<close>

theorem certificate_results_equality:
  "CertificateResult_Equals (Some x) (Some y) \<longleftrightarrow>
     crRewardRecipients x = crRewardRecipients y \<and>
     map_option (map plainSigner) (crSlashRecipients x) = map_option (map plainSigner) (crSlashRecipients y) \<and>
     crOrders x = crOrders y \<and> crCheckpoint x = crCheckpoint y \<and> crRetired x = crRetired y \<and>
     map_option withoutReceiptHash (crDexBatch x) = map_option withoutReceiptHash (crDexBatch y) \<and>
     map_option withoutReceiptHash (crRootDexBatch x) = map_option withoutReceiptHash (crRootDexBatch y)"
  by (auto simp: CertificateResult_Equals_def RewardRecipients_Equals_iff SlashRecipients_Equals_iff
      Orders_Equals_iff Checkpoint_Equals_iff DexBatch_Equals_iff)

end
