(* ===== verification/Byzantine.thy ===== *)
theory Byzantine
  imports Validators Certificates
begin

text \<open>
  Byzantine participants (\<open>fsm/byzantine.go\<close>): non-signer counters, double sign evidence, slashing
  with the per block cap of a committee, and the automatic pause and unstake.

  \<open>pkOk\<close> says which bytes \<open>crypto.NewPublicKeyFromBytes\<close> accepts, \<open>addressOf\<close> is the address of
  a public key, \<open>maskOk\<close> and \<open>blsOk\<close> are the parameters of the aggregate signatures.
\<close>

section \<open>The slash tracker\<close>

definition GetTotalSlashPercent :: "address \<Rightarrow> u64 \<Rightarrow> u64 fsm" where
  "GetTotalSlashPercent address chainId =
     gets (\<lambda>s. case tget (slashTracker s) (address, chainId) of None \<Rightarrow> 0 | Some p \<Rightarrow> p)"

definition AddSlash :: "address \<Rightarrow> u64 \<Rightarrow> u64 \<Rightarrow> unit fsm" where
  "AddSlash address chainId percent = bnd (GetTotalSlashPercent address chainId) (\<lambda>p.
     modify (\<lambda>s. s\<lparr>slashTracker := tset (address, chainId) (p + percent) (slashTracker s)\<rparr>))"

section \<open>Slashing\<close>

definition stakeAfterSlash :: "u64 \<Rightarrow> u64 \<Rightarrow> u64" where
  "stakeAfterSlash percent stake =
     (if percent \<ge> 100 \<or> stake = 0 then 0
      else if percent = 0 then stake
      else SafeMulDiv stake (100 - percent) 100)"

text \<open>The second half of \<open>SlashValidator\<close>, once the percentage and the committees are settled.\<close>

definition burnStake :: "validator \<Rightarrow> u64 list \<Rightarrow> u64 \<Rightarrow> validatorParams \<Rightarrow> unit fsm" where
  "burnStake validator newCommittees percent p =
     (let addr = vAddress validator;
          after = stakeAfterSlash percent (vStakedAmount validator);
          slashAmount = vStakedAmount validator - after;
          validator' = validator\<lparr>vCommittees := newCommittees, vStakedAmount := after\<rparr> in
      bnd (SubFromTotalSupply slashAmount) (\<lambda>_.
      if after = 0 then seqm [EventSlash addr slashAmount, DeleteValidator validator]
      else bnd (SubFromStakedSupply slashAmount) (\<lambda>_.
        bnd (UpdateCommittees addr validator after newCommittees) (\<lambda>_.
        bnd (SetValidatorUnstakingIfBelowMinimum validator' p) (\<lambda>isSet.
        if isSet then ret ()
        else seqm [SetValidator validator', EventSlash addr slashAmount])))))"

definition SlashValidator :: "validator \<Rightarrow> u64 \<Rightarrow> u64 \<Rightarrow> validatorParams \<Rightarrow> unit fsm" where
  "SlashValidator validator chainId percent p =
     bnd (IsFeatureEnabled 2) (\<lambda>committeeScoped.
     if committeeScoped
     then if chainId \<notin> set (vCommittees validator) then ret ()
       else bnd (GetTotalSlashPercent (vAddress validator) chainId) (\<lambda>slashTotal.
         if slashTotal \<ge> vpMaxSlashPerCommittee p then ret ()
         else
           let (percent', newCommittees) =
             (if slashTotal + percent \<ge> vpMaxSlashPerCommittee p
              then (vpMaxSlashPerCommittee p - slashTotal, remove1 chainId (vCommittees validator))
              else (percent, vCommittees validator)) in
           seqm [AddSlash (vAddress validator) chainId percent',
                 burnStake validator newCommittees percent' p])
     else burnStake validator (vCommittees validator) percent p)"

definition SlashValidators :: "address list \<Rightarrow> u64 \<Rightarrow> u64 \<Rightarrow> validatorParams \<Rightarrow> unit fsm" where
  "SlashValidators addresses chainId percent p = for_each addresses (\<lambda>addr.
     catch (GetValidator addr) (\<lambda>_. ret ()) (\<lambda>validator. SlashValidator validator chainId percent p))"

definition SlashNonSigners :: "u64 \<Rightarrow> validatorParams \<Rightarrow> address list \<Rightarrow> unit fsm" where
  "SlashNonSigners chainId params nonSignerAddrs =
     SlashValidators nonSignerAddrs chainId (vpNonSignSlashPercentage params) params"

definition SlashDoubleSigners :: "u64 \<Rightarrow> validatorParams \<Rightarrow> address list \<Rightarrow> unit fsm" where
  "SlashDoubleSigners chainId params doubleSignerAddrs =
     SlashValidators doubleSignerAddrs chainId (vpDoubleSignSlashPercentage params) params"

section \<open>Automatic pause and unstake\<close>

definition HandleMessagePause :: "address \<Rightarrow> unit fsm" where
  "HandleMessagePause address =
     bnd (GetValidator address) (\<lambda>validator.
     if vMaxPausedHeight validator \<noteq> 0 then err ErrValidatorPaused
     else if vUnstakingHeight validator \<noteq> 0 then err ErrValidatorUnstaking
     else if vDelegate validator then err ErrValidatorIsADelegate
     else bnd GetParamsVal (\<lambda>params. bnd (gets height) (\<lambda>h.
       SetValidatorPaused address validator (h + vpMaxPauseBlocks params))))"

definition SetValidatorsPaused :: "u64 \<Rightarrow> address list \<Rightarrow> unit fsm" where
  "SetValidatorsPaused chainId addresses = for_each addresses (\<lambda>addr.
     catch (GetValidator addr) (\<lambda>_. ret ()) (\<lambda>val.
     bnd (IsFeatureEnabled 2) (\<lambda>v2.
     if v2 \<and> chainId \<notin> set (vCommittees val) then ret ()
     else catch (HandleMessagePause addr) (\<lambda>_. ret ()) (\<lambda>_. EventAutoPause addr))))"

definition ForceUnstakeValidator :: "address \<Rightarrow> unit fsm" where
  "ForceUnstakeValidator address =
     catch (GetValidator address) (\<lambda>_. ret ()) (\<lambda>validator.
     if vUnstakingHeight validator \<noteq> 0 then ret ()
     else bnd GetParamsVal (\<lambda>p. bnd (gets height) (\<lambda>h.
       seqm [SetValidatorUnstaking address validator (h + vpUnstakingBlocks p),
             EventAutoBeginUnstaking address])))"

section \<open>Non-signers\<close>

fun incrementNonSignerChainCounter :: "u64 \<Rightarrow> (u64 \<times> u64) list \<Rightarrow> (u64 \<times> u64) list" where
  "incrementNonSignerChainCounter chainId [] = [(chainId, 1)]"
| "incrementNonSignerChainCounter chainId ((c, n) # cs) =
     (if c = chainId then (c, n + 1) # cs else (c, n) # incrementNonSignerChainCounter chainId cs)"

fun nonSignerCounterForChain :: "u64 \<Rightarrow> (u64 \<times> u64) list \<Rightarrow> u64" where
  "nonSignerCounterForChain chainId [] = 0"
| "nonSignerCounterForChain chainId ((c, n) # cs) =
     (if c = chainId then n else nonSignerCounterForChain chainId cs)"

definition IncrementNonSigners ::
    "(bytes \<Rightarrow> bool) \<Rightarrow> (bytes \<Rightarrow> address) \<Rightarrow> u64 \<Rightarrow> bytes list \<Rightarrow> unit fsm" where
  "IncrementNonSigners pkOk addressOf chainId nonSignerPubKeys =
     bnd (IsFeatureEnabled 2) (\<lambda>trackByChain.
     for_each nonSignerPubKeys (\<lambda>pk.
       if \<not> pkOk pk then err ErrPubKeyFromBytes
       else modify (\<lambda>s.
         let n = (case tget (nonSigners s) (addressOf pk) of
                    None \<Rightarrow> \<lparr>nsCounter = 0, nsChainCounters = []\<rparr> | Some n \<Rightarrow> n);
             n1 = n\<lparr>nsCounter := nsCounter n + 1\<rparr>;
             n2 = (if trackByChain
                   then n1\<lparr>nsChainCounters := incrementNonSignerChainCounter chainId (nsChainCounters n1)\<rparr>
                   else n1)
         in s\<lparr>nonSigners := tset (addressOf pk) n2 (nonSigners s)\<rparr>)))"

definition exceeds :: "bool \<Rightarrow> u64 \<Rightarrow> validatorParams \<Rightarrow> nonSigner \<Rightarrow> bool" where
  "exceeds committeeScoped chainId params n \<longleftrightarrow>
     (if committeeScoped \<and> nsChainCounters n \<noteq> []
      then nonSignerCounterForChain chainId (nsChainCounters n) else nsCounter n) > vpMaxNonSign params"

definition SlashAndResetNonSigners :: "u64 \<Rightarrow> validatorParams \<Rightarrow> unit fsm" where
  "SlashAndResetNonSigners chainId params =
     bnd (IsFeatureEnabled 2) (\<lambda>committeeScoped.
     bnd (gets nonSigners) (\<lambda>entries.
     let keys = map fst entries;
         slashList = map fst (filter (\<lambda>(_, n). exceeds committeeScoped chainId params n) entries) in
     seqm [SetValidatorsPaused chainId slashList,
           SlashNonSigners chainId params slashList,
           for_each keys (\<lambda>k. modify (\<lambda>s. s\<lparr>nonSigners := tdel k (nonSigners s)\<rparr>))]))"

section \<open>Double signers\<close>

text \<open>The inner loop over the heights and the outer loop over the evidence collect the slash list.\<close>

definition indexHeights :: "address \<Rightarrow> u64 list \<Rightarrow> address list \<Rightarrow> address list fsm" where
  "indexHeights address heights slashList = fold_m (\<lambda>h l.
     bnd (gets doubleSigners) (\<lambda>ds.
     if tget ds (address, h) \<noteq> None then err ErrInvalidDoubleSigner
     else bnd (modify (\<lambda>s. s\<lparr>doubleSigners := tset (address, h) () (doubleSigners s)\<rparr>))
       (\<lambda>_. ret (l @ [address])))) heights slashList"

definition HandleDoubleSigners ::
    "(bytes \<Rightarrow> bool) \<Rightarrow> (bytes \<Rightarrow> address) \<Rightarrow> u64 \<Rightarrow> validatorParams \<Rightarrow> doubleSigner list \<Rightarrow> unit fsm" where
  "HandleDoubleSigners pkOk addressOf chainId params evidence =
     bnd (fold_m (\<lambda>d slashList. case dsId d of
         None \<Rightarrow> err ErrEmptyDoubleSigner
       | Some pk \<Rightarrow>
           if optList (dsHeights d) = [] then err ErrInvalidDoubleSignHeights
           else if \<not> pkOk pk then err ErrPubKeyFromBytes
           else indexHeights (addressOf pk) (optList (dsHeights d)) slashList) evidence [])
       (SlashDoubleSigners chainId params)"

section \<open>A certificate's byzantine actors\<close>

text \<open>A window of zero blocks divides by zero; a missing header or result is dereferenced.\<close>

definition headerChainId :: "quorumCertificate \<Rightarrow> u64 fsm" where
  "headerChainId qc = (case qcHeader qc of None \<Rightarrow> err ErrPanic | Some header \<Rightarrow> ret (vwChainId header))"

definition HandleByzantine ::
    "(bytes \<Rightarrow> bool) \<Rightarrow> (bytes \<Rightarrow> bool) \<Rightarrow> (nat \<Rightarrow> bytes \<Rightarrow> bool) \<Rightarrow> (bytes \<Rightarrow> address)
      \<Rightarrow> quorumCertificate \<Rightarrow> validatorSet option \<Rightarrow> u64 fsm" where
  "HandleByzantine pkOk blsOk maskOk addressOf qc vs = (case vs of
       None \<Rightarrow> ret 0
     | Some vs \<Rightarrow> bnd GetParamsVal (\<lambda>params. bnd (gets height) (\<lambda>h.
         bnd (if vpNonSignWindow params = 0 then err ErrPanic
              else when_m (h mod vpNonSignWindow params = 0)
                (bnd (headerChainId qc) (\<lambda>chainId. SlashAndResetNonSigners chainId params))) (\<lambda>_.
         case qcSignature qc of None \<Rightarrow> err (Error ''EmptyQuorumCertificate'') | Some sig \<Rightarrow>
         (case GetNonSigners blsOk maskOk (asBitmap sig) (vsValidators vs) of
            Inl e \<Rightarrow> err e
          | Inr r \<Rightarrow>
              bnd (headerChainId qc) (\<lambda>chainId.
              bnd (IncrementNonSigners pkOk addressOf chainId (fst r)) (\<lambda>_.
              case qcResults qc of None \<Rightarrow> err ErrPanic | Some results \<Rightarrow>
              (case crSlashRecipients results of
                 None \<Rightarrow> ret (snd r)
               | Some ds \<Rightarrow> bnd (HandleDoubleSigners pkOk addressOf chainId params ds)
                   (\<lambda>_. ret (snd r))))))))))"

section \<open>Slashing conserves tokens\<close>

text \<open>What replacing a validator record does to the rest of the state: nothing.\<close>

definition onlyValidator :: "state \<Rightarrow> state \<Rightarrow> validator \<Rightarrow> bool" where
  "onlyValidator s t w \<longleftrightarrow> validators t = tset (vAddress w) w (validators s) \<and>
     accounts t = accounts s \<and> pools t = pools s \<and> supplyTracker t = supplyTracker s \<and>
     slashTracker t = slashTracker s"

lemma Unstaking_run:
  assumes "SetValidatorUnstaking (vAddress v) v h s = (Inr r, t)"
  shows "onlyValidator s t (v\<lparr>vMaxPausedHeight := 0, vUnstakingHeight := h\<rparr>)"
  using assms by (auto simp: SetValidatorUnstaking_def SetValidatorUnpaused_def SetValidator_def go_simps
      onlyValidator_def tset_tset split: if_splits)

lemma UnstakingIfBelow_run:
  assumes "SetValidatorUnstakingIfBelowMinimum v p s = (Inr b, t)"
  shows "if b then \<exists>w. onlyValidator s t w \<and> vAddress w = vAddress v \<and> sameStake w v else t = s"
proof (cases b)
  case True
  then obtain h where "SetValidatorUnstaking (vAddress v) v h s = (Inr (), t)"
    using assms by (auto simp: SetValidatorUnstakingIfBelowMinimum_def bnd_Inr ret_run gets_run Let_def split: if_splits)
  from Unstaking_run [OF this] True show ?thesis by (force simp: sameStake_def)
next
  case False
  with assms show ?thesis
    by (auto simp: SetValidatorUnstakingIfBelowMinimum_def bnd_Inr ret_run gets_run Let_def split: if_splits)
qed

lemma onlyValidator_SetValidator:
  "SetValidator w s = (Inr r, t) \<Longrightarrow> onlyValidator s t w"
  by (auto simp: SetValidator_run onlyValidator_def)

lemma onlyValidator_events: "onlyValidator s t w \<Longrightarrow> eventsOnly t u \<Longrightarrow> onlyValidator s u w"
  by (auto simp: onlyValidator_def eventsOnly_def)

lemma burnStake_run:
  assumes "burnStake v cs pct p s = (Inr r, t)"
  defines "after \<equiv> stakeAfterSlash pct (vStakedAmount v)"
  obtains (out) s1 s2 where "after = 0" "SubFromTotalSupply (vStakedAmount v) s = (Inr (), s1)"
      "eventsOnly s1 s2" "DeleteValidator v s2 = (Inr (), t)"
    | (kept) s1 s2 s3 w where "after \<noteq> 0" "SubFromTotalSupply (vStakedAmount v - after) s = (Inr (), s1)"
      "SubFromStakedSupply (vStakedAmount v - after) s1 = (Inr (), s2)"
      "UpdateCommittees (vAddress v) v after cs s2 = (Inr (), s3)"
      "onlyValidator s3 t w" "vAddress w = vAddress v"
      "sameStake w (v\<lparr>vCommittees := cs, vStakedAmount := after\<rparr>)"
proof (cases "after = 0")
  case True
  with assms obtain s1 s2 where "SubFromTotalSupply (vStakedAmount v) s = (Inr (), s1)"
    "EventSlash (vAddress v) (vStakedAmount v) s1 = (Inr (), s2)" "DeleteValidator v s2 = (Inr (), t)"
    by (auto simp: burnStake_def Let_def bnd_Inr ret_run simp del: old.unit.exhaust)
  with addEvent_run have "eventsOnly s1 s2" by (simp add: EventSlash_def)
  show ?thesis by (rule out) fact+
next
  case False
  let ?v = "v\<lparr>vCommittees := cs, vStakedAmount := after\<rparr>"
  from False assms obtain s1 s2 s3 b u where
    k: "SubFromTotalSupply (vStakedAmount v - after) s = (Inr (), s1)"
      "SubFromStakedSupply (vStakedAmount v - after) s1 = (Inr (), s2)"
      "UpdateCommittees (vAddress v) v after cs s2 = (Inr (), s3)"
    and b: "SetValidatorUnstakingIfBelowMinimum ?v p s3 = (Inr b, u)"
    and rest: "(if b then ret () else seqm [SetValidator ?v, EventSlash (vAddress v) (vStakedAmount v - after)]) u = (Inr (), t)"
    by (simp add: burnStake_def Let_def bnd_Inr del: seqm.simps split del: if_split) blast
  have "\<exists>w. onlyValidator s3 t w \<and> vAddress w = vAddress v \<and> sameStake w ?v"
  proof (cases b)
    case True
    with UnstakingIfBelow_run [OF b] rest show ?thesis by (auto simp: ret_run)
  next
    case False
    with UnstakingIfBelow_run [OF b] have "u = s3" by simp
    with False rest obtain z where z: "SetValidator ?v s3 = (Inr (), z)"
      "EventSlash (vAddress v) (vStakedAmount v - after) z = (Inr (), t)"
      by (auto simp: bnd_Inr ret_run)
    from onlyValidator_SetValidator [OF z(1)] addEvent_run [OF z(2) [unfolded EventSlash_def]]
    have "onlyValidator s3 t ?v" by (rule onlyValidator_events)
    then show ?thesis by (intro exI [of _ ?v]) simp
  qed
  with k False kept show ?thesis by blast
qed

lemma SubFromTotalSupply_run:
  "SubFromTotalSupply x s = (Inr r, t) \<Longrightarrow>
     t = s\<lparr>supplyTracker := (supplyTracker s)\<lparr>sTotal := sTotal (supplyTracker s) - x\<rparr>\<rparr> \<and>
     unat (sTotal (supplyTracker s) - x) + unat x = unat (sTotal (supplyTracker s))"
  by (auto simp: supply_run_defs unat_sub_guarded unat_less_iff split: if_splits)

lemma onlyValidator_tokens:
  assumes "onlyValidator s t w" and "wf s"
  shows "tokens t + stakeAt s (vAddress w) = tokens s + unat (vStakedAmount w) \<and> wf t"
  using assms tsum_tset [of "validators s" "unat \<circ> vStakedAmount" "vAddress w" w]
  by (auto simp: onlyValidator_def wf_def token_defs stakeAt_def table_simps split: option.splits)

lemma stakeAfterSlash_exact:
  "unat (stakeAfterSlash pct x) = (if unat pct \<ge> 100 then 0 else unat x * (100 - unat pct) div 100)"
proof (cases "pct \<ge> 100 \<or> x = 0 \<or> pct = 0")
  case True
  then show ?thesis by (auto simp: stakeAfterSlash_def unat_le_iff)
next
  case False
  then have "unat (100 - pct) = 100 - unat pct" by (simp add: unat_sub linorder_not_le order.strict_implies_order)
  with False SafeMulDiv_le(1) [of "100 - pct" 100 x] show ?thesis
    by (auto simp: stakeAfterSlash_def unat_le_iff)
qed

lemma stakeAfterSlash_le: "stakeAfterSlash pct x \<le> x"
proof -
  have "unat x * (100 - unat pct) div 100 \<le> unat x * 100 div 100"
    by (intro div_le_mono mult_le_mono) simp_all
  then show ?thesis by (simp add: unat_le_iff stakeAfterSlash_exact)
qed

text \<open>The slashed tokens leave the stake and the tracked supply alike.\<close>

lemma burnStake_inflight:
  "hoare (\<lambda>s. inflight d s \<and> stakeAt s (vAddress v) = unat (vStakedAmount v))
     (burnStake v cs pct p) (\<lambda>_. inflight d)"
proof (rule hoareI)
  fix s r t
  let ?after = "stakeAfterSlash pct (vStakedAmount v)"
  assume pre: "inflight d s \<and> stakeAt s (vAddress v) = unat (vStakedAmount v)"
    and run: "burnStake v cs pct p s = (Inr r, t)"
  have slash: "unat (vStakedAmount v - ?after) + unat ?after = unat (vStakedAmount v)"
    using stakeAfterSlash_le [of pct "vStakedAmount v"] by (simp add: unat_sub unat_le_iff)
  from run show "inflight d t"
  proof (cases rule: burnStake_run)
    case (out s1 s2)
    note s1 = SubFromTotalSupply_run [OF out(2)]
    from out(3) s1 have s2: "tokens s2 = tokens s" "wf s2 = wf s" "stakeAt s2 = stakeAt s"
      "sTotal (supplyTracker s2) = sTotal (supplyTracker s1)"
      by (auto simp: eventsOnly_def token_defs wf_def stakeAt_def fun_eq_iff)
    from DeleteValidator_tokens [OF out(4)] pre s2 s1 show ?thesis
      by (auto simp: inflight_def)
  next
    case (kept s1 s2 s3 w)
    note s1 = SubFromTotalSupply_run [OF kept(2)]
    have same: "tokens s3 = tokens s1" "wf s1 \<longrightarrow> wf s3" "validators s3 = validators s1"
      "sTotal (supplyTracker s3) = sTotal (supplyTracker s1)"
      using neutral_run [OF neutral_supply(2) kept(3)] neutral_run [OF neutral_updates(1) kept(4)] by auto
    have s1': "tokens s1 = tokens s" "wf s1 = wf s" "validators s1 = validators s"
      using s1 by (auto simp: token_defs wf_def)
    have "wf s3" using pre same(2) s1'(2) by (simp add: inflight_def)
    note only = onlyValidator_tokens [OF kept(5) this]
    have "stakeAt s3 (vAddress w) = unat (vStakedAmount v)"
      using pre same(3) s1'(3) kept(6) by (simp add: stakeAt_def)
    moreover have "vStakedAmount w = ?after" using kept(7) by (simp add: sameStake_def)
    moreover have "supplyTracker t = supplyTracker s3" using kept(5) by (simp add: onlyValidator_def)
    ultimately show ?thesis
      using only pre same s1 s1' slash by (auto simp: inflight_def)
  qed
qed

lemma hoare_catch:
  assumes "\<And>s e t. P s \<Longrightarrow> m s = (Inl e, t) \<Longrightarrow> E t" and "hoare P m R"
    and "\<And>e. hoare E (h e) Q" and "\<And>x. hoare (R x) (g x) Q"
  shows "hoare P (catch m h g) Q"
  using assms unfolding hoare_def catch_def by (auto split: prod.splits sum.splits) metis+

lemma GetValidator_hoare:
  "hoare P (GetValidator a) (\<lambda>v s. P s \<and> vAddress v = a \<and> stakeAt s a = unat (vStakedAmount v))"
  by (auto simp: hoare_def GetValidator_Inr stakeAt_def)

lemma GetValidator_Inl: "GetValidator a s = (Inl e, t) \<Longrightarrow> t = s \<and> tget (validators s) a = None"
  by (auto simp: GetValidator_def go_simps split: option.splits)

lemma neutral_AddSlash: "token_neutral (AddSlash a c x)"
  by (auto simp: token_neutral_def AddSlash_def GetTotalSlashPercent_def go_simps)

lemma SlashValidator_inflight:
  "hoare (\<lambda>s. inflight d s \<and> stakeAt s (vAddress v) = unat (vStakedAmount v))
     (SlashValidator v c pct p) (\<lambda>_. inflight d)"
proof -
  let ?J = "\<lambda>s. inflight d s \<and> stakeAt s (vAddress v) = unat (vStakedAmount v)"
  have read: "hoare ?J (IsFeatureEnabled 2) (\<lambda>_. ?J)"
    by (auto simp: hoare_def IsFeatureEnabled_def go_simps split: if_splits)
  have tot: "hoare ?J (GetTotalSlashPercent (vAddress v) c) (\<lambda>_. ?J)"
    by (simp add: hoare_def GetTotalSlashPercent_def go_simps)
  have add: "hoare ?J (AddSlash (vAddress v) c x) (\<lambda>_. ?J)" for x
    using neutral_frame [OF neutral_AddSlash, of d "\<lambda>V. (case tget V (vAddress v) of None \<Rightarrow> 0
      | Some v \<Rightarrow> unat (vStakedAmount v)) = unat (vStakedAmount v)"] by (simp add: stakeAt_def)
  show ?thesis
    unfolding SlashValidator_def
    by (intro hoare_bnd [OF read] hoare_bnd [OF tot] hoare_if hoare_ret hoare_Let)
      (auto intro!: hoare_seqm_Cons [OF add] hoare_seqm_Cons hoare_seqm_Nil burnStake_inflight
        split: prod.splits if_splits simp del: seqm.simps)
qed

lemma SlashValidators_inflight: "hoare (inflight d) (SlashValidators as c pct p) (\<lambda>_. inflight d)"
  unfolding SlashValidators_def
  by (intro hoare_for_each hoare_catch [where E = "inflight d", OF _ GetValidator_hoare] hoare_ret
      hoare_pre [OF SlashValidator_inflight]) (auto dest: GetValidator_Inl)

lemma onlyValidator_inflight:
  "onlyValidator s t w \<Longrightarrow> stakeAt s (vAddress w) = unat (vStakedAmount w) \<Longrightarrow> inflight d s \<Longrightarrow> inflight d t"
  using onlyValidator_tokens [of s t w] by (auto simp: inflight_def onlyValidator_def)

lemma HandleMessagePause_run:
  assumes "HandleMessagePause a s = (r, t)"
  shows "case r of Inl e \<Rightarrow> t = s
    | Inr _ \<Rightarrow> \<exists>v. tget (validators s) a = Some v \<and> vMaxPausedHeight v = 0 \<and> vUnstakingHeight v = 0 \<and>
        \<not> vDelegate v \<and> onlyValidator s t (v\<lparr>vAddress := a,
          vMaxPausedHeight := height s + vpMaxPauseBlocks (paramsVal s)\<rparr>)"
  using assms
  by (auto simp: HandleMessagePause_def GetValidator_def GetParamsVal_def SetValidatorPaused_def
      SetValidator_def go_simps onlyValidator_def sameStake_def split: option.splits if_splits)

lemma HandleMessagePause_inflight: "hoare (inflight d) (HandleMessagePause a) (\<lambda>_. inflight d)"
proof (rule hoareI)
  fix s r t
  assume pre: "inflight d s" and run: "HandleMessagePause a s = (Inr r, t)"
  from HandleMessagePause_run [OF run] obtain v where v: "tget (validators s) a = Some v"
    and w: "onlyValidator s t (v\<lparr>vAddress := a, vMaxPausedHeight := height s + vpMaxPauseBlocks (paramsVal s)\<rparr>)"
    by auto
  from v pre show "inflight d t"
    by (intro onlyValidator_inflight [OF w]) (auto simp: stakeAt_def)
qed

lemma neutral_IsFeatureEnabled: "token_neutral (IsFeatureEnabled v)"
  by (auto simp: token_neutral_def IsFeatureEnabled_def go_simps split: if_splits)

lemma SetValidatorsPaused_inflight: "hoare (inflight d) (SetValidatorsPaused c as) (\<lambda>_. inflight d)"
  unfolding SetValidatorsPaused_def
proof (intro hoare_for_each hoare_catch [where E = "inflight d" and R = "\<lambda>_. inflight d"])
  show "hoare (inflight d) (GetValidator x) (\<lambda>_. inflight d)" for x
    by (auto simp: hoare_def GetValidator_Inr)
  show "hoare (inflight d) (bnd (IsFeatureEnabled 2) (\<lambda>v2. if v2 \<and> c \<notin> set (vCommittees v) then ret ()
     else catch (HandleMessagePause x) (\<lambda>_. ret ()) (\<lambda>_. EventAutoPause x))) (\<lambda>_. inflight d)" for x v
    by (intro hoare_bnd [OF neutral_inflight [OF neutral_IsFeatureEnabled]] hoare_if hoare_ret
        hoare_catch [where E = "inflight d", OF _ HandleMessagePause_inflight] neutral_inflight neutral_rules)
      (auto dest: HandleMessagePause_run)
qed (auto dest: GetValidator_Inl intro: hoare_ret)

lemma neutral_IncrementNonSigners: "token_neutral (IncrementNonSigners pkOk addressOf c pks)"
  unfolding IncrementNonSigners_def
  by (intro neutral_rules neutral_IsFeatureEnabled neutral_modify) (simp_all add: Let_def)

lemma SlashAndReset_inflight: "hoare (inflight d) (SlashAndResetNonSigners c p) (\<lambda>_. inflight d)"
proof -
  have reset: "hoare (inflight d) (for_each ks (\<lambda>k. modify (\<lambda>s. s\<lparr>nonSigners := tdel k (nonSigners s)\<rparr>) :: unit fsm))
      (\<lambda>_. inflight d)" for ks
    by (intro neutral_inflight neutral_rules neutral_modify) simp_all
  show ?thesis
    unfolding SlashAndResetNonSigners_def SlashNonSigners_def
    by (intro hoare_bnd [OF neutral_inflight [OF neutral_IsFeatureEnabled]] hoare_bnd [of _ _ "\<lambda>_. inflight d"]
        hoare_gets hoare_Let hoare_seqm_Cons [OF SetValidatorsPaused_inflight]
        hoare_seqm_Cons [OF SlashValidators_inflight] hoare_seqm_Cons [OF reset] hoare_seqm_Nil)
qed

lemma indexHeights_inflight: "hoare (inflight d) (indexHeights a hs l) (\<lambda>_. inflight d)"
  unfolding indexHeights_def
  by (rule hoare_fold_m [where I = "\<lambda>_. inflight d"])
    (intro neutral_inflight neutral_rules neutral_modify; simp)

lemma HandleDoubleSigners_inflight:
  "hoare (inflight d) (HandleDoubleSigners pkOk addressOf c p ev) (\<lambda>_. inflight d)"
proof -
  have "hoare (inflight d) (fold_m (\<lambda>e l. case dsId e of None \<Rightarrow> err ErrEmptyDoubleSigner
       | Some pk \<Rightarrow> if optList (dsHeights e) = [] then err ErrInvalidDoubleSignHeights
           else if \<not> pkOk pk then err ErrPubKeyFromBytes
           else indexHeights (addressOf pk) (optList (dsHeights e)) l) ev []) (\<lambda>_. inflight d)"
    by (rule hoare_fold_m [where I = "\<lambda>_. inflight d"])
      (intro hoare_option hoare_if hoare_err indexHeights_inflight)
  then show ?thesis
    unfolding HandleDoubleSigners_def SlashDoubleSigners_def
    by (rule hoare_bnd) (rule SlashValidators_inflight)
qed

lemma HandleByzantine_inflight:
  "hoare (inflight d) (HandleByzantine pkOk blsOk maskOk addressOf qc vs) (\<lambda>_. inflight d)"
proof -
  have hdr: "hoare (inflight d) (headerChainId qc) (\<lambda>_. inflight d)"
    unfolding headerChainId_def by (intro hoare_option hoare_err hoare_ret)
  have get: "hoare (inflight d) GetParamsVal (\<lambda>_. inflight d)"
    by (simp add: GetParamsVal_def hoare_gets)
  have step: "hoare (inflight d) (case x of Inl e \<Rightarrow> err e | Inr r \<Rightarrow> f r) (\<lambda>_. inflight d)"
    if "\<And>r. hoare (inflight d) (f r) (\<lambda>_. inflight d)" for x :: "error + 'a" and f :: "'a \<Rightarrow> u64 fsm"
    using that by (cases x) (simp_all add: hoare_err)
  note inc = neutral_inflight [OF neutral_IncrementNonSigners]
  show ?thesis
    unfolding HandleByzantine_def
    by (intro hoare_option hoare_ret hoare_bnd [OF get] hoare_bnd [of _ "gets height" "\<lambda>_. inflight d"] hoare_gets
        hoare_bnd [of _ "if _ then _ else _" "\<lambda>_. inflight d"] hoare_if hoare_when hoare_err
        hoare_bnd [OF hdr] SlashAndReset_inflight step hoare_bnd [OF inc] hoare_bnd [OF HandleDoubleSigners_inflight])
qed

section \<open>The cap on slashing\<close>

definition tracked :: "state \<Rightarrow> address \<Rightarrow> u64 \<Rightarrow> u64" where
  "tracked s a c = (case tget (slashTracker s) (a, c) of None \<Rightarrow> 0 | Some p \<Rightarrow> p)"

lemma keeps_supply:
  assumes "\<And>x s. f (s\<lparr>supplyTracker := x\<rparr>) = f s"
  shows "keeps f (SubFromStakedSupply x)" "keeps f (SubFromDelegateSupply x)" "keeps f (SubFromTotalSupply x)"
    "keeps f (AddToStakedSupply x)" "keeps f (AddToDelegateSupply x)"
  using assms by (simp_all add: keeps_def supply_run_defs)

lemma burnStake_effect:
  assumes run: "burnStake v cs pct p s = (Inr r, t)" and wf: "wf s"
    and st: "stakeAt s (vAddress v) = unat (vStakedAmount v)"
  shows "slashTracker t = slashTracker s \<and> stakeAt t (vAddress v) = unat (stakeAfterSlash pct (vStakedAmount v)) \<and>
    (\<forall>w. tget (validators t) (vAddress v) = Some w \<longrightarrow> vCommittees w = cs) \<and>
    (\<forall>b. b \<noteq> vAddress v \<longrightarrow> tget (validators t) b = tget (validators s) b)"
  using run
proof (cases rule: burnStake_run)
  case (out s1 s2)
  note s1 = SubFromTotalSupply_run [OF out(2)]
  from out(3) s1 have s2: "wf s2" "stakeAt s2 = stakeAt s" "validators s2 = validators s" "slashTracker s2 = slashTracker s"
    using wf by (auto simp: eventsOnly_def wf_def stakeAt_def fun_eq_iff)
  have "keeps slashTracker (DeleteValidator v)"
    unfolding DeleteValidator_def by (intro keeps_rules keeps_committees keeps_supply) simp_all
  from keepsD [OF this out(4)] DeleteValidator_tokens [OF out(4) s2(1)] st s2 out(1) show ?thesis
    by (simp add: stakeAt_def table_simps)
next
  case (kept s1 s2 s3 w)
  note s1 = SubFromTotalSupply_run [OF kept(2)]
  have "keeps slashTracker (SubFromStakedSupply (vStakedAmount v - stakeAfterSlash pct (vStakedAmount v)))"
    "keeps slashTracker (UpdateCommittees (vAddress v) v (stakeAfterSlash pct (vStakedAmount v)) cs)"
    by (intro keeps_rules keeps_committees keeps_supply; simp)+
  from keepsD [OF this(1) kept(3)] keepsD [OF this(2) kept(4)] s1 kept(5)
  have "slashTracker t = slashTracker s" by (simp add: onlyValidator_def)
  moreover have "validators s3 = validators s"
    using neutral_run [OF neutral_supply(2) kept(3)] neutral_run [OF neutral_updates(1) kept(4)] s1 by simp
  ultimately show ?thesis
    using kept(5-7) by (simp add: onlyValidator_def stakeAt_def table_simps sameStake_def)
qed

lemma AddSlash_run:
  assumes "AddSlash a c x s = (Inr r, t)"
  shows "t = s\<lparr>slashTracker := tset (a, c) (tracked s a c + x) (slashTracker s)\<rparr>"
    and "tracked t b e = (if (b, e) = (a, c) then tracked s a c + x else tracked s b e)"
  using assms by (auto simp: AddSlash_def GetTotalSlashPercent_def go_simps tracked_def table_simps)

lemma SlashValidator_cases:
  assumes v2: "IsFeatureEnabled 2 s = (Inr True, s)" and run: "SlashValidator v c pct p s = (Inr r, t)"
    and small: "pct \<le> 100" "vpMaxSlashPerCommittee p \<le> 100"
  obtains (none) "t = s"
    | (some) u used cs where "AddSlash (vAddress v) c used s = (Inr (), u)" "burnStake v cs used p u = (Inr (), t)"
      "unat (tracked s (vAddress v) c) + unat used \<le> unat (vpMaxSlashPerCommittee p)"
      "tracked s (vAddress v) c + used = vpMaxSlashPerCommittee p \<longrightarrow> cs = remove1 c (vCommittees v)"
proof -
  let ?m = "vpMaxSlashPerCommittee p" and ?k = "tracked s (vAddress v) c"
  consider "t = s" | "?k < ?m" "?m \<le> ?k + pct"
      "seqm [AddSlash (vAddress v) c (?m - ?k), burnStake v (remove1 c (vCommittees v)) (?m - ?k) p] s = (Inr (), t)"
    | "?k < ?m" "\<not> ?m \<le> ?k + pct" "seqm [AddSlash (vAddress v) c pct, burnStake v (vCommittees v) pct p] s = (Inr (), t)"
    using run v2
    by (simp add: SlashValidator_def bnd_Inr GetTotalSlashPercent_def gets_run ret_run tracked_def [symmetric] Let_def
        linorder_not_le del: seqm.simps split: if_splits) auto
  then show ?thesis
  proof cases
    case 1
    then show ?thesis by (rule none)
  next
    case 2
    have "unat (?m - ?k) = unat ?m - unat ?k" and "unat ?k \<le> unat ?m"
      using 2(1) by (simp_all add: unat_sub_guarded unat_less_iff)
    then have "unat ?k + unat (?m - ?k) \<le> unat ?m" by simp
    with 2 some [of "?m - ?k" _ "remove1 c (vCommittees v)"] show ?thesis by (auto simp: bnd_Inr ret_run)
  next
    case 3
    then have "unat (?k + pct) = unat ?k + unat pct"
      using small by (intro unat_add_exact) (simp add: unat_less_iff unat_le_iff)
    moreover have "?k + pct \<noteq> ?m" using 3(2) by auto
    ultimately show ?thesis
      using 3 some [of pct _ "vCommittees v"] by (auto simp: bnd_Inr ret_run unat_le_iff)
  qed
qed

text \<open>
  C28: From protocol version 2 on a committee slashes at most the governance cap from a validator in
  one block. Each slash adds what it took to the tracker, never beyond the cap, and burns exactly
  that percentage of the stake (rounded against the validator by less than one token). When
  the cap is reached the validator is ejected from the committee. Other validators and the
  trackers of other committees are not touched.
\<close>

theorem slash_capped:
  assumes v2: "IsFeatureEnabled 2 s = (Inr True, s)" and wf: "wf s"
    and get: "GetValidator a s = (Inr v, s)"
    and small: "pct \<le> 100" "vpMaxSlashPerCommittee p \<le> 100"
    and run: "SlashValidator v c pct p s = (Inr (), t)"
  shows "\<exists>used. tracked t a c = tracked s a c + used \<and>
    (used = 0 \<or> unat (tracked s a c) + unat used \<le> unat (vpMaxSlashPerCommittee p)) \<and>
    stakeAt t a = unat (vStakedAmount v) * (100 - unat used) div 100 \<and>
    (used \<noteq> 0 \<longrightarrow> tracked t a c = vpMaxSlashPerCommittee p \<longrightarrow>
       (\<forall>w. tget (validators t) a = Some w \<longrightarrow> vCommittees w = remove1 c (vCommittees v))) \<and>
    (\<forall>b e. (b, e) \<noteq> (a, c) \<longrightarrow> tracked t b e = tracked s b e) \<and>
    (\<forall>b. b \<noteq> a \<longrightarrow> tget (validators t) b = tget (validators s) b)"
proof -
  have a: "vAddress v = a" and st: "stakeAt s a = unat (vStakedAmount v)"
    using get by (auto simp: GetValidator_Inr stakeAt_def)
  from v2 run small show ?thesis
  proof (cases rule: SlashValidator_cases)
    case none
    then show ?thesis by (intro exI [of _ 0]) (simp add: st)
  next
    case (some u used cs)
    note u = AddSlash_run [OF some(1)]
    have "wf u" "stakeAt u a = unat (vStakedAmount v)" using wf st by (simp_all add: u wf_def stakeAt_def)
    with burnStake_effect [OF some(2)] a
    have e: "slashTracker t = slashTracker u" "stakeAt t a = unat (stakeAfterSlash used (vStakedAmount v))"
      "\<forall>w. tget (validators t) a = Some w \<longrightarrow> vCommittees w = cs"
      "\<forall>b. b \<noteq> a \<longrightarrow> tget (validators t) b = tget (validators s) b"
      by (auto simp: u)
    have tr: "tracked t b e = tracked u b e" for b e by (simp add: tracked_def e(1))
    have le: "unat used \<le> 100" using some(3) small(2) by (simp add: unat_le_iff)
    show ?thesis
      using some(3,4) e(2-4) le a
      by (intro exI [of _ used]) (auto simp: tr u(2) stakeAfterSlash_exact)
  qed
qed

section \<open>Evidence is used once\<close>

lemma unit_option_None: "x \<noteq> Some () \<longleftrightarrow> x = None"
  by (cases x) auto

lemma indexHeights_run:
  "indexHeights a hs l s = (Inr l', t) \<Longrightarrow>
     l' = l @ replicate (length hs) a \<and>
     (\<forall>h \<in> set hs. tget (doubleSigners s) (a, h) = None \<and> tget (doubleSigners t) (a, h) \<noteq> None) \<and>
     (\<forall>k. tget (doubleSigners s) k \<noteq> None \<longrightarrow> tget (doubleSigners t) k \<noteq> None)"
proof (induction hs arbitrary: l s)
  case Nil
  then show ?case by (simp add: indexHeights_def ret_run)
next
  case (Cons h hs)
  let ?u = "s\<lparr>doubleSigners := tset (a, h) () (doubleSigners s)\<rparr>"
  have h: "tget (doubleSigners s) (a, h) = None" and rest: "indexHeights a hs (l @ [a]) ?u = (Inr l', t)"
    using Cons.prems by (cases "tget (doubleSigners s) (a, h)";
        auto simp: indexHeights_def bnd_Inr gets_run modify_run ret_run err_run split: if_splits)+
  from Cons.IH [OF rest] h show ?case
    by (auto simp: table_simps unit_option_None split: if_splits)
qed

definition usesEvidence :: "(bytes \<Rightarrow> bool) \<Rightarrow> (bytes \<Rightarrow> address) \<Rightarrow> state \<Rightarrow> state \<Rightarrow> doubleSigner \<Rightarrow> bool" where
  "usesEvidence pkOk addressOf s t d \<longleftrightarrow> (\<exists>pk. dsId d = Some pk \<and> pkOk pk \<and> optList (dsHeights d) \<noteq> [] \<and>
     list_all (\<lambda>h. tget (doubleSigners s) (addressOf pk, h) = None \<and>
       tget (doubleSigners t) (addressOf pk, h) \<noteq> None) (optList (dsHeights d)))"

definition collectEvidence where
  "collectEvidence pkOk addressOf = (\<lambda>d slashList. case dsId d of
         None \<Rightarrow> err ErrEmptyDoubleSigner
       | Some pk \<Rightarrow>
           if optList (dsHeights d) = [] then err ErrInvalidDoubleSignHeights
           else if \<not> pkOk pk then err ErrPubKeyFromBytes
           else indexHeights (addressOf pk) (optList (dsHeights d)) slashList)"

lemma HandleDoubleSigners_alt:
  "HandleDoubleSigners pkOk addressOf c p ev =
     bnd (fold_m (collectEvidence pkOk addressOf) ev []) (SlashDoubleSigners c p)"
  by (simp add: HandleDoubleSigners_def collectEvidence_def)

lemma collectEvidence_run:
  assumes "collectEvidence pkOk addressOf d l s = (Inr l', t)"
  shows "usesEvidence pkOk addressOf s t d \<and>
    (\<forall>k. tget (doubleSigners s) k \<noteq> None \<longrightarrow> tget (doubleSigners t) k \<noteq> None)"
  using assms indexHeights_run [of _ "optList (dsHeights d)" l s l' t]
  by (auto simp: collectEvidence_def usesEvidence_def err_run list_all_iff split: option.splits if_splits)

lemma fold_evidence_run:
  "fold_m (collectEvidence pkOk addressOf) ev l s = (Inr l', t) \<Longrightarrow>
     list_all (usesEvidence pkOk addressOf s t) ev \<and>
     (\<forall>k. tget (doubleSigners s) k \<noteq> None \<longrightarrow> tget (doubleSigners t) k \<noteq> None)"
proof (induction ev arbitrary: l s)
  case Nil
  then show ?case by (simp add: ret_run)
next
  case (Cons d ev)
  then obtain l1 u where d: "collectEvidence pkOk addressOf d l s = (Inr l1, u)"
    and ev: "fold_m (collectEvidence pkOk addressOf) ev l1 u = (Inr l', t)"
    by (auto simp: bnd_Inr)
  note D = collectEvidence_run [OF d] and E = Cons.IH [OF ev]
  have "usesEvidence pkOk addressOf s t d"
    using D E by (fastforce simp: usesEvidence_def list_all_iff)
  moreover have "usesEvidence pkOk addressOf s t e" if "usesEvidence pkOk addressOf u t e" for e
    using that D unfolding usesEvidence_def list_all_iff by blast
  then have "list_all (usesEvidence pkOk addressOf s t) ev"
    using E by (auto simp: list_all_iff)
  ultimately show ?case using D E by auto
qed

lemma keeps_burnStake:
  assumes "\<And>x s. f (s\<lparr>supplyTracker := x\<rparr>) = f s" "\<And>x s. f (s\<lparr>events := x\<rparr>) = f s"
    "\<And>x s. f (s\<lparr>validators := x\<rparr>) = f s" "\<And>x s. f (s\<lparr>committeeIndex := x\<rparr>) = f s"
    "\<And>x s. f (s\<lparr>delegateIndex := x\<rparr>) = f s" "\<And>x s. f (s\<lparr>paused := x\<rparr>) = f s"
    "\<And>x s. f (s\<lparr>unstaking := x\<rparr>) = f s"
  shows "keeps f (burnStake v cs pct p)"
  unfolding burnStake_def EventSlash_def addEvent_def DeleteValidator_def SetValidator_def
    SetValidatorUnstakingIfBelowMinimum_def SetValidatorUnstaking_def SetValidatorUnpaused_def
  by (intro keeps_rules keeps_committees keeps_supply assms)

lemma keeps_SlashValidators: "keeps doubleSigners (SlashValidators as c pct p)"
  unfolding SlashValidators_def SlashValidator_def AddSlash_def GetTotalSlashPercent_def GetValidator_def
    IsFeatureEnabled_def
  by (intro keeps_rules keeps_burnStake) simp_all

text \<open>
  C32: Double sign evidence is used once. An accepted list names only validators by valid keys with
  heights that were not recorded before; afterwards they are recorded, and the same list is
  rejected without any effect.
\<close>

theorem double_sign_evidence_once:
  assumes run: "HandleDoubleSigners pkOk addressOf c p ev s = (Inr (), t)"
  shows "list_all (usesEvidence pkOk addressOf s t) ev \<and>
    (ev \<noteq> [] \<longrightarrow> HandleDoubleSigners pkOk addressOf c p ev t = (Inl ErrInvalidDoubleSigner, t))"
proof -
  obtain l u where f: "fold_m (collectEvidence pkOk addressOf) ev [] s = (Inr l, u)"
    and sl: "SlashDoubleSigners c p l u = (Inr (), t)"
    using run by (auto simp: HandleDoubleSigners_alt bnd_Inr)
  have "doubleSigners t = doubleSigners u"
    using keepsD [OF keeps_SlashValidators sl [unfolded SlashDoubleSigners_def]] .
  with fold_evidence_run [OF f] have used: "list_all (usesEvidence pkOk addressOf s t) ev"
    by (simp add: list_all_iff usesEvidence_def)
  have "HandleDoubleSigners pkOk addressOf c p (d # ds) t = (Inl ErrInvalidDoubleSigner, t)"
    if "usesEvidence pkOk addressOf s t d" for d ds
    using that by (cases "optList (dsHeights d)")
      (auto simp: usesEvidence_def HandleDoubleSigners_def indexHeights_def bnd_def gets_run err_run)
  with used show ?thesis by (cases ev) auto
qed

section \<open>Slashing and the stake ledger\<close>

lemma ledger_supplyTotal:
  "ledger (s\<lparr>supplyTracker := (supplyTracker s)\<lparr>sTotal := x\<rparr>\<rparr>) = ledger s"
proof -
  have "committeeStake ty (s\<lparr>supplyTracker := (supplyTracker s)\<lparr>sTotal := x\<rparr>\<rparr>) = committeeStake ty s" for ty
    by (cases ty; simp add: committeeStake_def supplyPools_def)
  then show ?thesis by (simp add: ledger_def)
qed

lemma burnStake_ledger:
  assumes led: "ledger s" and same: "tget (validators s) (vAddress v) = Some z" "sameStake v z"
    and del: "\<not> vDelegate v" and run: "burnStake v cs pct p s = (Inr r, t)"
  shows "ledger t"
  using run
proof (cases rule: burnStake_run)
  case (out s1 s2)
  note s1 = SubFromTotalSupply_run [OF out(2)]
  have "ledger s1" using led s1 by (simp add: ledger_supplyTotal)
  moreover obtain E where E: "s2 = s1\<lparr>events := E\<rparr>" using out(3) by (auto simp: eventsOnly_def)
  ultimately have "ledger s2" using ledger_cong [of s2 s1] by simp
  moreover have "tget (validators s2) (vAddress v) = Some z" using same(1) E s1 by simp
  ultimately show ?thesis using DeleteValidator_ledger [OF _ _ same(2) out(4)] by blast
next
  case (kept s1 s2 s3 w)
  let ?after = "stakeAfterSlash pct (vStakedAmount v)"
  note s1 = SubFromTotalSupply_run [OF kept(2)]
  have l1: "ledger s1" using led s1 by (simp add: ledger_supplyTotal)
  note s2 = SubFromStakedSupply_run [OF kept(3)]
  note m = UpdateCommittees_moved [OF kept(4)]
  have V: "validators s3 = validators s1" "validators s1 = validators s"
    using m s2 s1 by (simp_all add: supplyMoved_def)
  have x: "unat (vStakedAmount v - ?after) + unat ?after = unat (vStakedAmount v)"
    using stakeAfterSlash_le [of pct "vStakedAmount v"] by (simp add: unat_sub unat_le_iff)
  have at: "validatorAt s1 (vAddress v) = z" using same(1) V by (simp add: validatorAt_def)
  note w1 = sameStake_weights [OF same(2)] same(2) [unfolded sameStake_def]
  note w2 = kept(7) [unfolded sameStake_def]
  have tr: "supplyTracker t = supplyTracker s3" "committeeStake ty t = committeeStake ty s3" for ty
    using kept(5) by (auto simp: onlyValidator_def intro: committeeStake_cong)
  show ?thesis
    by (rule ledger_replace [OF l1, where a = "vAddress v" and new = w])
      (use kept(5,6) V m s2 x at w1 w2 del tr in
        \<open>auto simp: supplyMoved_def onlyValidator_def delegatedOnly_def delegateStake_def memberStake_def\<close>)
qed

lemma SlashValidator_run:
  assumes run: "SlashValidator v c pct p s = (Inr r, t)"
  obtains (none) "t = s"
    | (tracked) u x cs q where "AddSlash (vAddress v) c x s = (Inr (), u)" "burnStake v cs q p u = (Inr (), t)"
    | (plain) cs q where "burnStake v cs q p s = (Inr (), t)"
proof -
  obtain b where b: "IsFeatureEnabled 2 s = (Inr b, s)" by (auto simp: IsFeatureEnabled_def gets_run)
  show ?thesis
  proof (cases b)
    case True
    with b run have "t = s \<or> (\<exists>x cs. seqm [AddSlash (vAddress v) c x, burnStake v cs x p] s = (Inr (), t))"
      by (simp add: SlashValidator_def bnd_Inr GetTotalSlashPercent_def gets_run ret_run Let_def
          del: seqm.simps split: if_splits) blast+
    with none tracked show ?thesis by (auto simp: bnd_Inr ret_run)
  next
    case False
    with b run plain show ?thesis by (auto simp: SlashValidator_def bnd_Inr split: if_splits)
  qed
qed

text \<open>
  Slashing keeps the stake ledger. After a validator is slashed the tracked staked supply and the
  stake of every committee are still the sums over the validator records.
\<close>

theorem slash_keeps_ledger:
  assumes "ledger s" and get: "GetValidator a s = (Inr v, s)" and "\<not> vDelegate v"
    and run: "SlashValidator v c pct p s = (Inr (), t)"
  shows "ledger t"
proof -
  obtain z where z: "tget (validators s) (vAddress v) = Some z" "sameStake v z"
    using get by (auto simp: GetValidator_Inr sameStake_def)
  from run show ?thesis
  proof (cases rule: SlashValidator_run)
    case (tracked u x cs q)
    have "ledger u" "tget (validators u) (vAddress v) = Some z"
      using assms(1) z(1) AddSlash_run(1) [OF tracked(1)] ledger_cong [of u s] by simp_all
    with tracked z(2) assms(3) show ?thesis by (metis burnStake_ledger)
  qed (use assms(1,3) z burnStake_ledger in \<open>blast+\<close>)
qed

text \<open>The example validator, and the example chain upgraded to protocol version 2 with a cap of 15 percent.\<close>

definition exampleValidator :: validator where
  "exampleValidator = \<lparr>vAddress = Addr [7], vPublicKey = [7, 7], vNetAddress = ''tcp://a'', vStakedAmount = 30,
     vCommittees = [1], vMaxPausedHeight = 0, vUnstakingHeight = 0, vOutput = Addr [1], vDelegate = False,
     vCompound = False\<rparr>"

definition exampleV2 :: state where
  "exampleV2 = exampleState\<lparr>paramsCons := (paramsCons exampleState)\<lparr>cpProtocolVersion := ''2/0''\<rparr>,
     paramsVal := exampleValParams\<lparr>vpMaxSlashPerCommittee := 15\<rparr>\<rparr>"

lemma feature_of_version:
  "cpProtocolVersion (paramsCons s) = ''1/0'' \<Longrightarrow> IsFeatureEnabled v s = (Inr (v \<le> 1), s)"
  "cpProtocolVersion (paramsCons s) = ''2/0'' \<Longrightarrow> IsFeatureEnabled v s = (Inr (v \<le> 2), s)"
  by (simp_all add: IsFeatureEnabled_def gets_run ParseProtocolVersion_def checkProtocolVersion_def Delimiter_def
      ParseUint_def digitOf_def)

lemmas slash_eval = SlashValidator_def burnStake_def GetTotalSlashPercent_def AddSlash_def UpdateCommittees_def
  DeleteCommittees_def SetCommittees_def SetCommitteeMember_def DeleteCommitteeMember_def
  AddToCommitteeSupplyForChain_def SubFromCommitteeStakedSupplyForChain_def addToSupplyPool_def subFromSupplyPool_def
  executeOnSupplyPool_def getSupplyPools_def GetSupply_def SetSupply_def setSupplyPools_def FilterAndSortPool_def
  SetValidatorUnstakingIfBelowMinimum_def SetValidator_def EventSlash_def addEvent_def stakeAfterSlash_def
  SafeMulDiv_def supply_run_defs Let_def go_simps feature_of_version MaxUint64_def

lemmas example_eval = exampleV2_def exampleState_def exampleSupply_def exampleValParams_def exampleValidator_def

lemma exampleV2_slash:
  "SlashValidator exampleValidator 1 10 (paramsVal exampleV2) exampleV2 =
     (Inr (), snd (SlashValidator exampleValidator 1 10 (paramsVal exampleV2) exampleV2))"
proof -
  have "fst (SlashValidator exampleValidator 1 10 (paramsVal exampleV2) exampleV2) = Inr ()"
    by (simp add: slash_eval example_eval)
  then show ?thesis by (metis prod.collapse)
qed

lemma exampleV2_validator: "GetValidator (Addr [7]) exampleV2 = (Inr exampleValidator, exampleV2)"
  by (simp add: GetValidator_def go_simps example_eval)

lemma exampleV2_ok: "wf exampleV2" "ledger exampleV2" "IsFeatureEnabled 2 exampleV2 = (Inr True, exampleV2)"
proof -
  show "wf exampleV2" by (simp add: wf_def example_eval tok_def)
  show "ledger exampleV2"
    by (auto simp: ledger_def example_eval tok_def committeeStake_def supplyPools_def spAmount_def
        delegatedOnly_def memberStake_def delegateStake_def)
  show "IsFeatureEnabled 2 exampleV2 = (Inr True, exampleV2)"
    by (simp add: feature_of_version example_eval)
qed

theorem slash_capped_witness:
  "\<exists>t (used :: u64). SlashValidator exampleValidator 1 10 (paramsVal exampleV2) exampleV2 = (Inr (), t) \<and>
     (used = 0 \<or> unat used \<le> 15) \<and>
     stakeAt t (Addr [7]) = unat (vStakedAmount exampleValidator) * (100 - unat used) div 100"
proof -
  have e: "tracked exampleV2 (Addr [7]) 1 = 0" "vpMaxSlashPerCommittee (paramsVal exampleV2) = 15"
    by (simp_all add: tracked_def example_eval)
  then have "(10 :: u64) \<le> 100" "vpMaxSlashPerCommittee (paramsVal exampleV2) \<le> 100" by simp_all
  from slash_capped [OF exampleV2_ok(3,1) exampleV2_validator this exampleV2_slash]
  have "\<exists>used :: u64. (used = 0 \<or> unat (tracked exampleV2 (Addr [7]) 1) + unat used
      \<le> unat (vpMaxSlashPerCommittee (paramsVal exampleV2))) \<and>
    stakeAt (snd (SlashValidator exampleValidator 1 10 (paramsVal exampleV2) exampleV2)) (Addr [7]) =
       unat (vStakedAmount exampleValidator) * (100 - unat used) div 100"
    by blast
  then obtain used :: u64 where "used = 0 \<or> unat (tracked exampleV2 (Addr [7]) 1) + unat used
      \<le> unat (vpMaxSlashPerCommittee (paramsVal exampleV2))"
    and "stakeAt (snd (SlashValidator exampleValidator 1 10 (paramsVal exampleV2) exampleV2)) (Addr [7]) =
       unat (vStakedAmount exampleValidator) * (100 - unat used) div 100"
    by blast
  moreover from this(1) have "used = 0 \<or> unat used \<le> 15" by (simp add: e)
  ultimately show ?thesis using exampleV2_slash by blast
qed

theorem slash_keeps_ledger_witness:
  "\<exists>t. SlashValidator exampleValidator 1 10 (paramsVal exampleV2) exampleV2 = (Inr (), t) \<and> ledger t"
proof -
  have "\<not> vDelegate exampleValidator" by (simp add: exampleValidator_def)
  from slash_keeps_ledger [OF exampleV2_ok(2) exampleV2_validator this exampleV2_slash] exampleV2_slash
  show ?thesis by blast
qed

definition delegateState :: state where
  "delegateState = exampleState\<lparr>validators := [(Addr [7], exampleValidator\<lparr>vDelegate := True\<rparr>)],
     supplyTracker := exampleSupply\<lparr>sDelegatedOnly := 30,
       sCommitteeDelegatedOnly := [\<lparr>pId = 1, pAmount = 30, pPoints = [], pTotalPoolPoints = 0\<rparr>]\<rparr>\<rparr>"

text \<open>
  A slash of a delegate breaks the stake ledger: only the committee stake is updated, the delegated
  supply and the delegations of the committee keep the tokens that were burned.
\<close>

theorem delegate_slash_breaks_ledger:
  "ledger delegateState \<and>
   (\<exists>t. SlashValidator (exampleValidator\<lparr>vDelegate := True\<rparr>) 1 10 exampleValParams delegateState = (Inr (), t) \<and>
      \<not> ledger t)"
proof
  let ?m = "SlashValidator (exampleValidator\<lparr>vDelegate := True\<rparr>) 1 10 exampleValParams delegateState"
  show "ledger delegateState"
    by (auto simp: ledger_def example_eval delegateState_def tok_def committeeStake_def supplyPools_def spAmount_def
        delegatedOnly_def memberStake_def delegateStake_def)
  have r: "fst ?m = Inr ()" and st: "sDelegatedOnly (supplyTracker (snd ?m)) = 30"
    and V: "validators (snd ?m) = [(Addr [7], exampleValidator\<lparr>vDelegate := True, vStakedAmount := 27\<rparr>)]"
    by (simp_all add: slash_eval example_eval delegateState_def)
  have "tsum delegatedOnly (validators (snd ?m)) = 27" by (simp add: V delegatedOnly_def)
  with st have "\<not> ledger (snd ?m)" unfolding ledger_def by simp
  with r show "\<exists>t. ?m = (Inr (), t) \<and> \<not> ledger t" by (metis prod.collapse)
qed

text \<open>
  Handling the byzantine actors of a certificate conserves tokens: whatever is slashed from
  non-signers and double signers leaves the tracked total supply in the same amount.
\<close>

theorem byzantine_conserves_tokens:
  assumes "HandleByzantine pkOk blsOk maskOk addressOf qc vs s = (Inr n, t)" and "conserved s"
  shows "conserved t"
  using hoareD [OF HandleByzantine_inflight assms(2,1)] .

text \<open>Evidence against the example validator at height 3.\<close>

definition exampleEvidence :: "doubleSigner list" where
  "exampleEvidence = [\<lparr>dsId = Some [7, 7], dsHeights = Some [3]\<rparr>]"

lemma exampleEvidence_run:
  "fst (HandleDoubleSigners (\<lambda>_. True) (\<lambda>_. Addr [7]) 1 exampleValParams exampleEvidence exampleState) = Inr ()"
  by (simp add: HandleDoubleSigners_def exampleEvidence_def optList_def indexHeights_def SlashDoubleSigners_def
      SlashValidators_def GetValidator_def slash_eval example_eval)

theorem double_sign_evidence_once_witness:
  "\<exists>t. HandleDoubleSigners (\<lambda>_. True) (\<lambda>_. Addr [7]) 1 exampleValParams exampleEvidence exampleState = (Inr (), t) \<and>
     HandleDoubleSigners (\<lambda>_. True) (\<lambda>_. Addr [7]) 1 exampleValParams exampleEvidence t = (Inl ErrInvalidDoubleSigner, t)"
proof -
  let ?m = "HandleDoubleSigners (\<lambda>_. True) (\<lambda>_. Addr [7]) 1 exampleValParams exampleEvidence"
  have run: "?m exampleState = (Inr (), snd (?m exampleState))"
    using exampleEvidence_run by (metis prod.collapse)
  have "exampleEvidence \<noteq> []" by (simp add: exampleEvidence_def)
  with double_sign_evidence_once [OF run] run show ?thesis by blast
qed

definition slashingQC :: quorumCertificate where
  "slashingQC = (exampleQC [1])\<lparr>qcResults := Some \<lparr>crRewardRecipients = None,
     crSlashRecipients = Some exampleEvidence, crOrders = None, crCheckpoint = None, crRetired = False,
     crDexBatch = None, crRootDexBatch = None\<rparr>\<rparr>"

definition slashingSet :: validatorSet where
  "slashingSet = \<lparr>vsValidators = [\<lparr>cvPublicKey = [7, 7], cvVotingPower = 30, cvNetAddress = []\<rparr>],
     vsTotalPower = 30, vsMinimumMaj23 = 21, vsNumValidators = 1\<rparr>"

lemma slashingQC_run:
  "fst (HandleByzantine (\<lambda>_. True) (\<lambda>_. True) (\<lambda>_ _. True) (\<lambda>_. Addr [7]) slashingQC (Some slashingSet) exampleState) = Inr 0"
proof -
  have ns: "GetNonSigners (\<lambda>_. True) (\<lambda>_ _. True) [1] (vsValidators slashingSet) = Inr ([], 0)"
    by (simp add: GetNonSigners_def NewValidatorSet_def slashingSet_def getSigners_def SignerEnabledAt_def
        Uint64PercentageDiv_def)
  have inc: "IncrementNonSigners (\<lambda>_. True) (\<lambda>_. Addr [7]) 1 [] exampleState = (Inr (), exampleState)"
    by (simp add: IncrementNonSigners_def bnd_def IsFeatureEnabled_def gets_run ret_run)
  have p: "vpNonSignWindow exampleValParams = 10" "height exampleState = 5" "paramsVal exampleState = exampleValParams"
    by (simp_all add: example_eval)
  show ?thesis
    using exampleEvidence_run
    by (simp add: HandleByzantine_def bnd_run GetParamsVal_def gets_run p when_m_run slashingQC_def exampleQC_def ns
        headerChainId_def ret_run inc)
qed

theorem byzantine_conserves_tokens_witness:
  "\<exists>t. HandleByzantine (\<lambda>_. True) (\<lambda>_. True) (\<lambda>_ _. True) (\<lambda>_. Addr [7]) slashingQC (Some slashingSet) exampleState
       = (Inr 0, t) \<and> conserved t"
proof -
  let ?m = "HandleByzantine (\<lambda>_. True) (\<lambda>_. True) (\<lambda>_ _. True) (\<lambda>_. Addr [7]) slashingQC (Some slashingSet) exampleState"
  have run: "?m = (Inr 0, snd ?m)" using slashingQC_run by (metis prod.collapse)
  have "conserved exampleState"
    by (simp add: inflight_def wf_def token_defs example_eval tok_def emptyAccount_def)
  from byzantine_conserves_tokens [OF run this] run show ?thesis by blast
qed
section \<open>A slashed out validator that was unstaking\<close>

lemma for_each_stuck:
  assumes "\<And>x. hoare I (f x) (\<lambda>_. I)" and "\<And>s t r. I s \<Longrightarrow> f a s \<noteq> (Inr r, t)" and "a \<in> set xs" and "I s"
  shows "for_each xs f s \<noteq> (Inr r, t)"
  using assms(3,4)
proof (induction xs arbitrary: s)
  case (Cons x xs)
  show ?case
  proof
    assume "for_each (x # xs) f s = (Inr r, t)"
    then obtain u where x: "f x s = (Inr (), u)" and xs: "for_each xs f u = (Inr r, t)" by (auto simp: bnd_Inr)
    from x assms(2) Cons.prems have "a \<in> set xs" by auto
    with Cons.IH xs hoareD [OF assms(1) Cons.prems(2) x] show False by blast
  qed
qed simp

lemma keeps_validators_AccountAdd: "keeps validators (AccountAdd a x)"
  by (auto simp: keeps_def AccountAdd_run)

lemma DeleteValidator_absent:
  "hoare (\<lambda>s. tget (validators s) a = None) (DeleteValidator v) (\<lambda>_ s. tget (validators s) a = None)"
proof -
  let ?I = "\<lambda>s. tget (validators s) a = None"
  have keep: "hoare ?I m (\<lambda>_. ?I)" if "keeps validators m" for m :: "unit fsm"
    using that by (auto simp: hoare_def dest: keepsD)
  have del: "hoare ?I (modify (\<lambda>s. s\<lparr>validators := tdel b (validators s)\<rparr>) :: unit fsm) (\<lambda>_. ?I)" for b
    by (intro hoare_modify) (simp add: table_simps)
  show ?thesis
    unfolding DeleteValidator_def Let_def
    by (intro hoare_seqm_Cons [OF keep] hoare_seqm_Cons [OF del] hoare_seqm_Nil keeps_rules keeps_committees keeps_supply)
      simp_all
qed

lemma DeleteFinishedUnstaking_stuck:
  assumes "a \<in> set (unstakingAt (height s) s)" and "tget (validators s) a = None"
  shows "DeleteFinishedUnstaking s \<noteq> (Inr r, t)"
proof -
  let ?I = "\<lambda>s. tget (validators s) a = None"
  let ?f = "\<lambda>addr. bnd (GetValidator addr) (\<lambda>validator.
      seqm [AccountAdd (vOutput validator) (vStakedAmount validator), DeleteValidator validator, EventFinishUnstaking addr])"
  have keep: "hoare ?I m (\<lambda>_. ?I)" if "keeps validators m" for m :: "unit fsm"
    using that by (auto simp: hoare_def dest: keepsD)
  have get: "hoare ?I (GetValidator x) (\<lambda>_. ?I)" for x by (auto simp: hoare_def GetValidator_Inr)
  have ev: "keeps validators (EventFinishUnstaking x)" for x
    by (simp add: EventFinishUnstaking_def addEvent_def keeps_modify)
  have step: "hoare ?I (?f x) (\<lambda>_. ?I)" for x
    by (intro hoare_bnd [OF get] hoare_seqm_Cons [OF keep [OF keeps_validators_AccountAdd]]
        hoare_seqm_Cons [OF DeleteValidator_absent] hoare_seqm_Cons [OF keep [OF ev]] hoare_seqm_Nil)
  have stop: "?f a u \<noteq> (Inr r, w)" if "?I u" for u r w
    using that by (auto simp: bnd_Inr GetValidator_Inr simp del: seqm.simps)
  show ?thesis
    using for_each_stuck [of ?I ?f a "unstakingAt (height s) s" s, OF step stop assms]
    by (auto simp: DeleteFinishedUnstaking_def bnd_Inr gets_run)
qed

text \<open>
  C39: A validator that is slashed to zero while it unstakes loses its record but keeps its entry in the
  unstaking index. At its finish height the end of the block fails.
\<close>

theorem slashed_out_unstaker_fails_block:
  assumes get: "GetValidator a s = (Inr v, s)" and key: "tget (unstaking s) (h, a) \<noteq> None"
    and run: "SlashValidator v c pct p s = (Inr (), t)" and gone: "tget (validators t) a = None"
  shows "\<exists>e u. DeleteFinishedUnstaking (t\<lparr>height := h\<rparr>) = (Inl e, u)"
proof -
  have a: "vAddress v = a" "tget (validators s) a \<noteq> None" using get by (auto simp: GetValidator_Inr)
  have out: "unstaking t = unstaking s"
    if b: "burnStake v cs q p u = (Inr (), t)" and u: "unstaking u = unstaking s" for cs q u
    using b
  proof (cases rule: burnStake_run)
    case (out s1 s2)
    have "keeps unstaking (DeleteValidator v)"
      unfolding DeleteValidator_def by (intro keeps_rules keeps_committees keeps_supply) simp_all
    from keepsD [OF this out(4)] out(3) SubFromTotalSupply_run [OF out(2)] u show ?thesis
      by (auto simp: eventsOnly_def)
  next
    case (kept s1 s2 s3 w)
    then show ?thesis using gone a by (simp add: onlyValidator_def table_simps)
  qed
  from run have "unstaking t = unstaking s"
  proof (cases rule: SlashValidator_run)
    case none
    with gone a show ?thesis by simp
  next
    case (tracked u x cs q)
    with out AddSlash_run(1) [OF tracked(1)] show ?thesis by simp
  next
    case (plain cs q)
    with out show ?thesis by blast
  qed
  then have "((h, a), ()) \<in> set (unstaking t)" using key tget_in [of "unstaking s" "(h, a)"] by auto
  then have "a \<in> set (unstakingAt h (t\<lparr>height := h\<rparr>))" by (force simp: unstakingAt_def)
  with DeleteFinishedUnstaking_stuck [of a "t\<lparr>height := h\<rparr>"] gone
  have "DeleteFinishedUnstaking (t\<lparr>height := h\<rparr>) \<noteq> (Inr r, u)" for r u by simp
  then show ?thesis by (metis prod.exhaust sum.exhaust)
qed

definition unstakingState :: state where
  "unstakingState = exampleState\<lparr>validators := [(Addr [7], exampleValidator\<lparr>vUnstakingHeight := 9\<rparr>)],
     unstaking := [((9, Addr [7]), ())]\<rparr>"

theorem slashed_out_unstaker_fails_block_witness:
  "\<exists>t e u. SlashValidator (exampleValidator\<lparr>vUnstakingHeight := 9\<rparr>) 1 100 exampleValParams unstakingState = (Inr (), t) \<and>
     DeleteFinishedUnstaking (t\<lparr>height := 9\<rparr>) = (Inl e, u)"
proof -
  let ?v = "exampleValidator\<lparr>vUnstakingHeight := 9\<rparr>"
  let ?m = "SlashValidator ?v 1 100 exampleValParams unstakingState"
  have get: "GetValidator (Addr [7]) unstakingState = (Inr ?v, unstakingState)"
    by (simp add: GetValidator_def go_simps unstakingState_def example_eval)
  have "fst ?m = Inr ()" and gone: "tget (validators (snd ?m)) (Addr [7]) = None"
    by (simp_all add: slash_eval example_eval unstakingState_def DeleteValidator_def tdel_def)
  then have run: "?m = (Inr (), snd ?m)" by (metis prod.collapse)
  have "tget (unstaking unstakingState) (9, Addr [7]) \<noteq> None" by (simp add: unstakingState_def)
  from slashed_out_unstaker_fails_block [OF get this run gone] run show ?thesis by blast
qed

end
