(* ===== verification/Swap.thy ===== *)
theory Swap
  imports Certificates Validators
begin

text \<open>
  The order book (\<open>fsm/swap.go\<close>): sell orders whose tokens are held in the escrow pool of a
  committee, the lock, reset and close instructions of a certificate, and the witness side that
  reads them from the blocks of the buyer's chain.

  Decoding the JSON of a transaction memo is the standard library's: \<open>lockOf\<close> and \<open>closeOf\<close> stand
  for \<open>json.Unmarshal\<close> into the two order structures (\<open>None\<close> on an error), \<open>jsonValid\<close> for
  \<open>json.Valid\<close>. \<open>loadBlock\<close> is the block store.
\<close>

section \<open>Orders in the state\<close>

definition GetOrder :: "bytes \<Rightarrow> u64 \<Rightarrow> sellOrder fsm" where
  "GetOrder orderId chainId = bnd (gets (\<lambda>s. tget (orderBook s) (chainId, orderId))) (\<lambda>x. case x of
       None \<Rightarrow> err ErrOrderNotFound
     | Some order \<Rightarrow> ret order)"

definition SetOrder :: "sellOrder \<Rightarrow> u64 \<Rightarrow> unit fsm" where
  "SetOrder order chainId = modify (\<lambda>s. s\<lparr>orderBook := tset (chainId, oId order) order (orderBook s)\<rparr>)"

definition DeleteOrder :: "bytes \<Rightarrow> u64 \<Rightarrow> unit fsm" where
  "DeleteOrder orderId chainId = modify (\<lambda>s. s\<lparr>orderBook := tdel (chainId, orderId) (orderBook s)\<rparr>)"

record OrderBook =
  obChainId :: u64
  obOrders :: "sellOrder list"

definition GetOrderBook :: "u64 \<Rightarrow> OrderBook fsm" where
  "GetOrderBook chainId = gets (\<lambda>s. \<lparr>obChainId = chainId,
     obOrders = map snd (filter (\<lambda>((c, _), _). c = chainId) (orderBook s))\<rparr>)"

text \<open>The de-duplicated chain ids, then sorted.\<close>

definition GetOrderBooks :: "OrderBook list fsm" where
  "GetOrderBooks =
     bnd (gets (\<lambda>s. sort (remdups (map (fst \<circ> fst) (orderBook s))))) (\<lambda>ids.
     fold_m (\<lambda>i books. bnd (GetOrderBook i) (\<lambda>b. ret (books @ [b]))) ids [])"

definition GetTotalEscrowed :: "address option \<Rightarrow> u64 fsm" where
  "GetTotalEscrowed address = bnd GetOrderBooks (\<lambda>books.
     ret (sum_list (map oAmountForSale (filter (\<lambda>order. address = None \<or>
       oSellersSendAddress order = addr_bytes (the address)) (concat (map obOrders books))))))"

text \<open>Genesis: the supply object is the local variable genesis accumulates into.\<close>

definition SetOrderBooks :: "OrderBook list \<Rightarrow> Supply \<Rightarrow> Supply fsm" where
  "SetOrderBooks books supply = fold_m (\<lambda>book sp0. fold_m (\<lambda>order sp.
       if sTotal sp > MaxUint64 - oAmountForSale order then err ErrInvalidAmount
       else bnd (SetOrder order (obChainId book)) (\<lambda>_.
         bnd (PoolAdd (obChainId book + EscrowPoolAddend) (oAmountForSale order)) (\<lambda>_.
         ret (sp\<lparr>sTotal := sTotal sp + oAmountForSale order\<rparr>)))) (obOrders book) sp0) books supply"

section \<open>Lock, reset, close\<close>

definition LockOrder :: "lockOrder \<Rightarrow> u64 \<Rightarrow> unit fsm" where
  "LockOrder lock chainId =
     bnd (GetOrder (loOrderId lock) chainId) (\<lambda>order.
     if oBuyerReceiveAddress order \<noteq> [] then err ErrOrderLocked
     else let order' = order\<lparr>oBuyerReceiveAddress := loBuyerReceiveAddress lock,
            oBuyerSendAddress := loBuyerSendAddress lock,
            oBuyerChainDeadline := loBuyerChainDeadline lock\<rparr> in
       seqm [SetOrder order' chainId, EventOrderBookLock order'])"

definition ResetOrder :: "bytes \<Rightarrow> u64 \<Rightarrow> unit fsm" where
  "ResetOrder orderId chainId =
     bnd (GetOrder orderId chainId) (\<lambda>order.
     seqm [EventOrderBookReset order,
           SetOrder (order\<lparr>oBuyerReceiveAddress := [], oBuyerSendAddress := [], oBuyerChainDeadline := 0\<rparr>) chainId])"

definition CloseOrder :: "bytes \<Rightarrow> u64 \<Rightarrow> unit fsm" where
  "CloseOrder orderId chainId =
     bnd (GetOrder orderId chainId) (\<lambda>order.
     if oBuyerReceiveAddress order = [] then err ErrInvalidLockOrder
     else let buyerAddress = Addr (oBuyerReceiveAddress order) in
       bnd (GetAccount buyerAddress) (\<lambda>buyerAccount.
       if acAmount buyerAccount > MaxUint64 - oAmountForSale order then err ErrInvalidAmount
       else bnd (GetPool (chainId + EscrowPoolAddend)) (\<lambda>escrowPool.
         if pAmount escrowPool < oAmountForSale order then err ErrInsufficientFunds
         else seqm [PoolSub (chainId + EscrowPoolAddend) (oAmountForSale order),
                    AccountAdd buyerAddress (oAmountForSale order),
                    EventOrderBookSwap order,
                    DeleteOrder orderId chainId])))"

text \<open>Every error is logged and dropped; the state a failing call leaves behind stays.\<close>

definition HandleCommitteeSwaps :: "orders option \<Rightarrow> u64 \<Rightarrow> unit fsm" where
  "HandleCommitteeSwaps ords chainId = (case ords of
       None \<Rightarrow> ret ()
     | Some os \<Rightarrow> seqm
         [for_each (orLockOrders os) (\<lambda>lock. ignore_err (LockOrder lock chainId)),
          for_each (orResetOrders os) (\<lambda>i. if i \<in> set (orCloseOrders os) then ret ()
            else ignore_err (ResetOrder i chainId)),
          for_each (orCloseOrders os) (\<lambda>i. ignore_err (CloseOrder i chainId))])"

section \<open>Witnessing orders on the buyer's chain\<close>

record closeOrder =
  coOrderId :: bytes
  coChainId :: u64
  coCloseOrder :: bool

text \<open>A transaction of a block: \<open>btSend\<close> is its message when it decodes to a send.\<close>

record blockTx =
  btMessageType :: string
  btMemo :: string
  btFee :: u64
  btSend :: "messageSend option"

record memoCodec =
  mcLock :: "string \<Rightarrow> lockOrder option"
  mcClose :: "string \<Rightarrow> closeOrder option"
  mcValid :: "string \<Rightarrow> bool"

definition ParseLockOrder :: "memoCodec \<Rightarrow> state \<Rightarrow> string \<Rightarrow> bytes \<Rightarrow> u64 \<Rightarrow> lockOrder option" where
  "ParseLockOrder mc s memo buyerSendAddress deadlineBlocks = (case mcLock mc memo of
       None \<Rightarrow> None
     | Some bo \<Rightarrow>
         if deadlineBlocks > MaxUint64 - height s then None
         else if buyerSendAddress \<noteq> [] \<and> loBuyerReceiveAddress bo \<noteq> [] \<and> loChainId bo = cfgChainId (cfg s)
         then Some (bo\<lparr>loBuyerSendAddress := buyerSendAddress, loBuyerChainDeadline := height s + deadlineBlocks\<rparr>)
         else None)"

definition ParseCloseOrder :: "memoCodec \<Rightarrow> state \<Rightarrow> string \<Rightarrow> closeOrder option" where
  "ParseCloseOrder mc s memo = (case mcClose mc memo of
       None \<Rightarrow> None
     | Some co \<Rightarrow> if coChainId co = cfgChainId (cfg s) \<and> coCloseOrder co then Some co else None)"

text \<open>The three maps the parse fills: lock commands, close commands, the sends that came with a close.\<close>

record orderCommands =
  ocLocks :: "bytes \<Rightarrow> lockOrder option"
  ocCloses :: "bytes \<Rightarrow> closeOrder option"
  ocSends :: "bytes \<Rightarrow> messageSend list"

definition parseTx :: "memoCodec \<Rightarrow> state \<Rightarrow> blockTx \<Rightarrow> orderCommands \<Rightarrow> orderCommands" where
  "parseTx mc s tx cmds =
     (let minFee = fpSendFee (paramsFee s) * vpLockOrderFeeMultiplier (paramsVal s) in
      if btMessageType tx \<noteq> ''send'' \<or> btMemo tx = [] \<or> btFee tx < minFee \<or> \<not> mcValid mc (btMemo tx) then cmds
      else (case btSend tx of
          None \<Rightarrow> cmds
        | Some send \<Rightarrow>
            (case ParseLockOrder mc s (btMemo tx) (addr_bytes (msFromAddress send)) (vpBuyDeadlineBlocks (paramsVal s)) of
               Some lock \<Rightarrow>
                 if ocLocks cmds (loOrderId lock) = None
                 then cmds\<lparr>ocLocks := (ocLocks cmds)(loOrderId lock := Some lock)\<rparr> else cmds
             | None \<Rightarrow> (case ParseCloseOrder mc s (btMemo tx) of
                   None \<Rightarrow> cmds
                 | Some close \<Rightarrow>
                     let cmds1 = (if ocCloses cmds (coOrderId close) = None
                       then cmds\<lparr>ocCloses := (ocCloses cmds)(coOrderId close := Some close)\<rparr> else cmds) in
                     cmds1\<lparr>ocSends := (ocSends cmds1)(coOrderId close := ocSends cmds1 (coOrderId close) @ [send])\<rparr>))))"

definition ParseBlockForLockAndCloseOrders :: "memoCodec \<Rightarrow> state \<Rightarrow> blockTx list list \<Rightarrow> orderCommands" where
  "ParseBlockForLockAndCloseOrders mc s blocks =
     fold (parseTx mc s) (concat blocks) \<lparr>ocLocks = (\<lambda>_. None), ocCloses = (\<lambda>_. None), ocSends = (\<lambda>_. [])\<rparr>"

definition validClose :: "sellOrder \<Rightarrow> messageSend \<Rightarrow> bool" where
  "validClose order send \<longleftrightarrow> msAmount send = oRequestedAmount order \<and>
     addr_bytes (msFromAddress send) = oBuyerSendAddress order \<and>
     addr_bytes (msToAddress send) = oSellerReceiveAddress order"

text \<open>One order of the book: what it adds to the lock, close and reset lists.\<close>

definition processOrder ::
    "orderCommands \<Rightarrow> u64 \<Rightarrow> sellOrder \<Rightarrow> lockOrder list \<times> bytes list \<times> bytes list
      \<Rightarrow> lockOrder list \<times> bytes list \<times> bytes list" where
  "processOrder cmds h order res = (case res of (locks, closes, resets) \<Rightarrow>
     if oBuyerReceiveAddress order = []
     then (case ocLocks cmds (oId order) of
         None \<Rightarrow> res
       | Some lock \<Rightarrow> (locks @ [lock], closes, resets))
     else if h > oBuyerChainDeadline order then (locks, closes, resets @ [oId order])
     else (case ocCloses cmds (oId order) of
         None \<Rightarrow> res
       | Some close \<Rightarrow>
           if list_ex (validClose order) (ocSends cmds (oId order))
           then (locks, closes @ [coOrderId close], resets) else res))"

text \<open>The heights of the historical blocks: five of them, ten to fifteen blocks back.\<close>

definition historicalHeights :: "u64 \<Rightarrow> u64 list" where
  "historicalHeights h = (if h \<ge> 16 then map (\<lambda>i. h - 15 + of_nat i) [0..<5] else [])"

definition ProcessRootChainOrderBook ::
    "memoCodec \<Rightarrow> (u64 \<Rightarrow> blockTx list option) \<Rightarrow> state \<Rightarrow> OrderBook option \<Rightarrow> u64 \<Rightarrow> blockTx list
      \<Rightarrow> lockOrder list \<times> bytes list \<times> bytes list" where
  "ProcessRootChainOrderBook mc loadBlock s book proposalHeight proposalTxs = (case book of
       None \<Rightarrow> ([], [], [])
     | Some b \<Rightarrow>
         let blocks = proposalTxs # List.map_filter loadBlock (historicalHeights proposalHeight);
             cmds = ParseBlockForLockAndCloseOrders mc s blocks in
         fold (processOrder cmds (height s)) (obOrders b) ([], [], []))"

section \<open>Escrow solvency\<close>

text \<open>The sum of a measure of keys and values over a table.\<close>

definition ksum :: "('k \<Rightarrow> 'v \<Rightarrow> nat) \<Rightarrow> ('k, 'v) table \<Rightarrow> nat" where
  "ksum f t = sum_list (map (\<lambda>(k, v). f k v) t)"

lemma ksum_simps [simp]: "ksum f [] = 0" "ksum f ((k, v) # t) = f k v + ksum f t"
  by (simp_all add: ksum_def)

lemma ksum_tset:
  "tok t \<Longrightarrow> ksum f (tset k v t) + (case tget t k of None \<Rightarrow> 0 | Some w \<Rightarrow> f k w) = ksum f t + f k v"
proof (induction k v t rule: tset.induct)
  case (2 k v j w t)
  have "k < j \<Longrightarrow> tget t k = None"
    using 2 by (force simp: tget_None_iff tok_Cons)
  with 2 show ?case by (auto simp: tok_Cons)
qed simp

lemma ksum_tdel:
  "tok t \<Longrightarrow> ksum f (tdel k t) + (case tget t k of None \<Rightarrow> 0 | Some w \<Rightarrow> f k w) = ksum f t"
proof (induction t)
  case (Cons e t)
  obtain j w where e: "e = (j, w)" by (cases e)
  have "tget t j = None"
    using Cons.prems by (force simp: tget_None_iff tok_Cons e)
  then have "tdel j t = t" by (rule tdel_absent)
  with Cons e show ?case by (auto simp: tok_Cons tdel_def)
qed (simp add: tdel_def)

text \<open>What the orders of a committee ask of its escrow pool.\<close>

definition escrowed :: "state \<Rightarrow> u64 \<Rightarrow> nat" where
  "escrowed s c = ksum (\<lambda>(d, _) order. if d = c then unat (oAmountForSale order) else 0) (orderBook s)"

definition escrow :: "state \<Rightarrow> u64 \<Rightarrow> nat" where
  "escrow s c = unat (pAmount (poolAt s (c + EscrowPoolAddend)))"

definition solvent :: "state \<Rightarrow> bool" where
  "solvent s \<longleftrightarrow> tok (orderBook s) \<and> (\<forall>c. escrowed s c \<le> escrow s c) \<and>
     (\<forall>c i order. tget (orderBook s) (c, i) = Some order \<longrightarrow> oId order = i)"

definition orderAmount :: "state \<Rightarrow> u64 \<Rightarrow> bytes \<Rightarrow> nat" where
  "orderAmount s c i = (case tget (orderBook s) (c, i) of None \<Rightarrow> 0 | Some order \<Rightarrow> unat (oAmountForSale order))"

lemma escrowed_set:
  assumes "tok (orderBook s)" and "orderBook t = tset (c, i) order (orderBook s)"
  shows "escrowed t d + (if d = c then orderAmount s c i else 0) =
    escrowed s d + (if d = c then unat (oAmountForSale order) else 0)"
  using ksum_tset [OF assms(1), of "\<lambda>(d', _) order. if d' = d then unat (oAmountForSale order) else 0" "(c, i)" order]
  by (auto simp: escrowed_def orderAmount_def assms(2) split: option.splits)

lemma escrowed_del:
  assumes "tok (orderBook s)" and "orderBook t = tdel (c, i) (orderBook s)"
  shows "escrowed t d + (if d = c then orderAmount s c i else 0) = escrowed s d"
  using ksum_tdel [OF assms(1), of "\<lambda>(d', _) order. if d' = d then unat (oAmountForSale order) else 0" "(c, i)"]
  by (auto simp: escrowed_def orderAmount_def assms(2) split: option.splits)

text \<open>An order rewritten under its own key with its own amount.\<close>

lemma solvent_rewrite:
  assumes "solvent s" and "tget (orderBook s) (c, oId order) = Some old"
    and "oAmountForSale order = oAmountForSale old"
    and "orderBook t = tset (c, oId order) order (orderBook s)" and "pools t = pools s"
  shows "solvent t"
proof -
  have ok: "tok (orderBook s)" using assms(1) by (simp add: solvent_def)
  have "escrowed t d = escrowed s d" for d
    using escrowed_set [OF ok assms(4), of d] assms(2,3) by (simp add: orderAmount_def split: if_splits)
  moreover have "escrow t d = escrow s d" for d using assms(5) by (simp add: escrow_def poolAt_def)
  ultimately show ?thesis
    using assms(1,4) ok unfolding solvent_def by (auto simp: table_simps)
qed

lemma GetOrder_Inr: "GetOrder i c s = (Inr order, t) \<longleftrightarrow> t = s \<and> tget (orderBook s) (c, i) = Some order"
  by (auto simp: GetOrder_def go_simps split: option.splits)

lemma GetOrder_Inl: "GetOrder i c s = (Inl e, t) \<longleftrightarrow> t = s \<and> e = ErrOrderNotFound \<and> tget (orderBook s) (c, i) = None"
  by (auto simp: GetOrder_def go_simps split: option.splits)

lemma LockOrder_run:
  "LockOrder lock c s = (case tget (orderBook s) (c, loOrderId lock) of
     None \<Rightarrow> (Inl ErrOrderNotFound, s)
   | Some order \<Rightarrow> if oBuyerReceiveAddress order \<noteq> [] then (Inl ErrOrderLocked, s)
       else let order' = order\<lparr>oBuyerReceiveAddress := loBuyerReceiveAddress lock,
            oBuyerSendAddress := loBuyerSendAddress lock, oBuyerChainDeadline := loBuyerChainDeadline lock\<rparr> in
         (Inr (), snd (EventOrderBookLock order' (s\<lparr>orderBook := tset (c, oId order) order' (orderBook s)\<rparr>))))"
  by (auto simp: LockOrder_def GetOrder_def SetOrder_def EventOrderBookLock_def addEvent_def go_simps Let_def
      split: option.splits)

lemma ResetOrder_run:
  "ResetOrder i c s = (case tget (orderBook s) (c, i) of
     None \<Rightarrow> (Inl ErrOrderNotFound, s)
   | Some order \<Rightarrow> (Inr (), (snd (EventOrderBookReset order s))\<lparr>orderBook := tset (c, oId order)
       (order\<lparr>oBuyerReceiveAddress := [], oBuyerSendAddress := [], oBuyerChainDeadline := 0\<rparr>) (orderBook s)\<rparr>))"
  by (auto simp: ResetOrder_def GetOrder_def SetOrder_def EventOrderBookReset_def addEvent_def go_simps
      split: option.splits)

text \<open>A close either changes nothing or settles the whole order.\<close>

lemma CloseOrder_run:
  "CloseOrder i c s = (case tget (orderBook s) (c, i) of
     None \<Rightarrow> (Inl ErrOrderNotFound, s)
   | Some order \<Rightarrow>
       let a = Addr (oBuyerReceiveAddress order); x = oAmountForSale order in
       if oBuyerReceiveAddress order = [] then (Inl ErrInvalidLockOrder, s)
       else if 2 ^ 64 \<le> unat (acAmount (accountAt s a)) + unat x then (Inl ErrInvalidAmount, s)
       else if pAmount (poolAt s (c + EscrowPoolAddend)) < x then (Inl ErrInsufficientFunds, s)
       else (Inr (), (snd (EventOrderBookSwap order (snd (AccountAdd a x (snd (PoolSub (c + EscrowPoolAddend) x s))))))
         \<lparr>orderBook := tdel (c, i) (orderBook s)\<rparr>))"
proof (cases "tget (orderBook s) (c, i)")
  case None
  then show ?thesis by (simp add: CloseOrder_def GetOrder_def go_simps)
next
  case (Some order)
  let ?a = "Addr (oBuyerReceiveAddress order)" and ?x = "oAmountForSale order"
  have same: "acAmount (accountAt (s\<lparr>pools := P\<rparr>) ?a) = acAmount (accountAt s ?a)" for P
    by (simp add: accountAt_def)
  show ?thesis
    by (simp add: Some CloseOrder_def GetOrder_def GetAccount_def GetPool_def DeleteOrder_def EventOrderBookSwap_def
        addEvent_def Let_def go_simps add_guard_iff PoolSub_run AccountAdd_run same)
qed


text \<open>Closing an order moves its amount out of the escrow of its own committee only.\<close>

lemma CloseOrder_solvent:
  assumes "solvent s" and run: "CloseOrder i c s = (Inr r, t)"
  shows "solvent t"
proof -
  obtain order where o: "tget (orderBook s) (c, i) = Some order"
    and le: "\<not> pAmount (poolAt s (c + EscrowPoolAddend)) < oAmountForSale order"
    and t: "orderBook t = tdel (c, i) (orderBook s)"
      "pools t = pools (snd (PoolSub (c + EscrowPoolAddend) (oAmountForSale order) s))"
    using run by (auto simp: CloseOrder_run Let_def EventOrderBookSwap_def addEvent_def go_simps AccountAdd_run
        split: option.splits if_splits)
  have ok: "tok (orderBook s)" using assms(1) by (simp add: solvent_def)
  have p: "pools t = putPool ((poolAt s (c + EscrowPoolAddend))\<lparr>pAmount := pAmount (poolAt s (c + EscrowPoolAddend)) - oAmountForSale order\<rparr>) (pools s)"
    using le t(2) by (simp add: PoolSub_run)
  have esc: "escrow t d = (if d = c then escrow s c - unat (oAmountForSale order) else escrow s d)" for d
  proof -
    have "poolAt t j = poolAt (s\<lparr>pools := pools t\<rparr>) j" for j by (simp add: poolAt_def)
    then show ?thesis
      using le by (simp add: escrow_def p amount_putPool unat_sub_guarded)
  qed
  have "escrowed s d \<le> escrow s d" for d using assms(1) by (simp add: solvent_def)
  then have "escrowed t d \<le> escrow t d" for d
    using escrowed_del [OF ok t(1), of d] o
    by (simp add: esc orderAmount_def split: if_splits) (metis add_le_imp_le_diff)
  then show ?thesis
    using assms(1) ok unfolding solvent_def t(1) by (auto simp: table_simps)
qed

text \<open>Ignored errors are harmless: the failing calls leave the state as it was.\<close>

lemma orders_fail_clean:
  "LockOrder lock c s = (Inl e, t) \<Longrightarrow> t = s" "ResetOrder i c s = (Inl e, t) \<Longrightarrow> t = s"
  "CloseOrder i c s = (Inl e, t) \<Longrightarrow> t = s"
  by (auto simp: LockOrder_run ResetOrder_run CloseOrder_run Let_def split: option.splits if_splits)

lemma hoare_ignore_clean:
  assumes "hoare P m (\<lambda>_. Q)" and "\<And>s e t. m s = (Inl e, t) \<Longrightarrow> t = s" and "\<And>s. P s \<Longrightarrow> Q s"
  shows "hoare P (ignore_err m) (\<lambda>_. Q)"
proof (rule hoare_ignore_err)
  fix s assume "P s"
  show "Q (snd (m s))"
  proof (cases "m s")
    case (Pair r t)
    show ?thesis
    proof (cases r)
      case (Inl e)
      with Pair have "t = s" using assms(2) [of s e t] by simp
      with Pair \<open>P s\<close> assms(3) show ?thesis by simp
    next
      case (Inr x)
      with Pair hoareD [OF assms(1) \<open>P s\<close>] show ?thesis by simp
    qed
  qed
qed

lemma LockOrder_solvent: "hoare solvent (LockOrder lock c) (\<lambda>_. solvent)"
proof (rule hoareI)
  fix s r t
  assume s: "solvent s" and run: "LockOrder lock c s = (Inr r, t)"
  then obtain order where o: "tget (orderBook s) (c, loOrderId lock) = Some order"
    and t: "orderBook t = tset (c, oId order) (order\<lparr>oBuyerReceiveAddress := loBuyerReceiveAddress lock,
            oBuyerSendAddress := loBuyerSendAddress lock, oBuyerChainDeadline := loBuyerChainDeadline lock\<rparr>) (orderBook s)"
      "pools t = pools s"
    by (auto simp: LockOrder_run Let_def EventOrderBookLock_def addEvent_def go_simps split: option.splits if_splits)
  from s o have "oId order = loOrderId lock" by (simp add: solvent_def)
  with solvent_rewrite [OF s _ _ _ t(2), of c "order\<lparr>oBuyerReceiveAddress := loBuyerReceiveAddress lock,
            oBuyerSendAddress := loBuyerSendAddress lock, oBuyerChainDeadline := loBuyerChainDeadline lock\<rparr>" order] o t(1)
  show "solvent t" by simp
qed

lemma ResetOrder_solvent: "hoare solvent (ResetOrder i c) (\<lambda>_. solvent)"
proof (rule hoareI)
  fix s r t
  assume s: "solvent s" and run: "ResetOrder i c s = (Inr r, t)"
  then obtain order where o: "tget (orderBook s) (c, i) = Some order"
    and t: "orderBook t = tset (c, oId order) (order\<lparr>oBuyerReceiveAddress := [], oBuyerSendAddress := [],
      oBuyerChainDeadline := 0\<rparr>) (orderBook s)" "pools t = pools s"
    by (auto simp: ResetOrder_run EventOrderBookReset_def addEvent_def go_simps split: option.splits)
  from s o have "oId order = i" by (simp add: solvent_def)
  with solvent_rewrite [OF s _ _ _ t(2), of c "order\<lparr>oBuyerReceiveAddress := [], oBuyerSendAddress := [],
      oBuyerChainDeadline := 0\<rparr>" order] o t(1)
  show "solvent t" by simp
qed

lemma HandleCommitteeSwaps_solvent: "hoare solvent (HandleCommitteeSwaps ords c) (\<lambda>_. solvent)"
proof -
  have close: "hoare solvent (CloseOrder i c) (\<lambda>_. solvent)" for i
    by (rule hoareI) (rule CloseOrder_solvent)
  have l: "hoare solvent (ignore_err (LockOrder x c)) (\<lambda>_. solvent)" for x
    by (rule hoare_ignore_clean [OF LockOrder_solvent orders_fail_clean(1)])
  have r: "hoare solvent (ignore_err (ResetOrder x c)) (\<lambda>_. solvent)" for x
    by (rule hoare_ignore_clean [OF ResetOrder_solvent orders_fail_clean(2)])
  have k: "hoare solvent (ignore_err (CloseOrder x c)) (\<lambda>_. solvent)" for x
    by (rule hoare_ignore_clean [OF close orders_fail_clean(3)])
  show ?thesis
    unfolding HandleCommitteeSwaps_def
    by (intro hoare_option hoare_ret hoare_seqm_Cons [where R = solvent] hoare_seqm_Nil hoare_for_each hoare_if l r k)
qed

lemma CloseOrder_inflight: "hoare (inflight d) (CloseOrder i c) (\<lambda>_. inflight d)"
proof -
  have del: "hoare (inflight d) (DeleteOrder i c) (\<lambda>_. inflight d)"
    unfolding DeleteOrder_def by (intro neutral_inflight neutral_modify) simp
  have get: "hoare (inflight d) (GetOrder i c) (\<lambda>_. inflight d)" "hoare (inflight d) (GetAccount a) (\<lambda>_. inflight d)"
    "hoare (inflight d) (GetPool j) (\<lambda>_. inflight d)" for a j
    by (auto simp: hoare_def GetOrder_Inr GetAccount_def GetPool_def gets_run)
  show ?thesis
    unfolding CloseOrder_def
    by (intro hoare_bnd [OF get(1)] hoare_bnd [OF get(2)] hoare_bnd [OF get(3)] hoare_if hoare_err hoare_Let
        hoare_seqm_Cons [OF PoolSub_inflight] hoare_seqm_Cons [OF AccountAdd_inflight]
        hoare_seqm_Cons [OF neutral_inflight] hoare_seqm_Cons [OF del] hoare_seqm_Nil neutral_events)
qed

lemma HandleCommitteeSwaps_inflight: "hoare (inflight d) (HandleCommitteeSwaps ords c) (\<lambda>_. inflight d)"
proof -
  have "token_neutral (LockOrder x c)" "token_neutral (ResetOrder i c)" for x i
    unfolding LockOrder_def ResetOrder_def GetOrder_def SetOrder_def Let_def
    by (intro neutral_rules neutral_modify; simp add: neutral_simple neutral_events neutral_modify)+
  note n = neutral_inflight [OF this(1)] neutral_inflight [OF this(2)]
  have l: "hoare (inflight d) (ignore_err (LockOrder x c)) (\<lambda>_. inflight d)" for x
    by (rule hoare_ignore_clean [OF n(1) orders_fail_clean(1)])
  have r: "hoare (inflight d) (ignore_err (ResetOrder x c)) (\<lambda>_. inflight d)" for x
    by (rule hoare_ignore_clean [OF n(2) orders_fail_clean(2)])
  have k: "hoare (inflight d) (ignore_err (CloseOrder x c)) (\<lambda>_. inflight d)" for x
    by (rule hoare_ignore_clean [OF CloseOrder_inflight orders_fail_clean(3)])
  show ?thesis
    unfolding HandleCommitteeSwaps_def
    by (intro hoare_option hoare_ret hoare_seqm_Cons [where R = "inflight d"] hoare_seqm_Nil hoare_for_each hoare_if l r k)
qed


text \<open>
  C23: The orders of a certificate keep escrow sound. Errors of single instructions are only logged,
  yet after any set of lock, reset and close instructions the escrow pool of every committee still covers
  all its open orders, every order is stored under its own id, and tokens are conserved.
\<close>

theorem committee_swaps_keep_escrow:
  assumes "HandleCommitteeSwaps ords c s = (Inr (), t)" and "solvent s" and "conserved s"
  shows "solvent t \<and> conserved t"
  using hoareD [OF HandleCommitteeSwaps_solvent assms(2,1)] hoareD [OF HandleCommitteeSwaps_inflight assms(3,1)]
  by blast

definition exampleOrder :: sellOrder where
  "exampleOrder = \<lparr>oId = [9], oCommittee = 1, oData = [], oAmountForSale = 5, oRequestedAmount = 8,
     oSellerReceiveAddress = [4], oBuyerSendAddress = [5], oBuyerReceiveAddress = [6], oBuyerChainDeadline = 20,
     oSellersSendAddress = [1]\<rparr>"

text \<open>The example state with five tokens in escrow for a locked order.\<close>

definition swapState :: state where
  "swapState = exampleState\<lparr>orderBook := [((1, [9]), exampleOrder)],
     accounts := [(Addr [1], (emptyAccount (Addr [1]))\<lparr>acAmount := 55\<rparr>)],
     pools := [(1, \<lparr>pId = 1, pAmount = 10, pPoints = [], pTotalPoolPoints = 0\<rparr>),
       (65536, \<lparr>pId = 65536, pAmount = 5, pPoints = [], pTotalPoolPoints = 0\<rparr>)]\<rparr>"

lemma swapState_ok: "solvent swapState" "conserved swapState"
proof -
  show "solvent swapState"
    by (auto simp: solvent_def swapState_def exampleOrder_def tok_def escrowed_def escrow_def poolAt_def
        EscrowPoolAddend_def)
  show "conserved swapState"
    by (simp add: inflight_def wf_def token_defs swapState_def exampleState_def exampleSupply_def tok_def emptyAccount_def)
qed

theorem committee_swaps_keep_escrow_witness:
  "\<exists>t. HandleCommitteeSwaps (Some \<lparr>orLockOrders = [], orResetOrders = [[9]], orCloseOrders = [[9]]\<rparr>) 1 swapState = (Inr (), t) \<and>
     solvent t \<and> conserved t"
proof -
  let ?m = "HandleCommitteeSwaps (Some \<lparr>orLockOrders = [], orResetOrders = [[9]], orCloseOrders = [[9]]\<rparr>) 1 swapState"
  have "fst ?m = Inr ()" by (simp add: HandleCommitteeSwaps_def go_simps)
  then have run: "?m = (Inr (), snd ?m)" by (metis prod.collapse)
  from committee_swaps_keep_escrow [OF run swapState_ok] run show ?thesis by blast
qed

text \<open>
  Closing an order is all or nothing. On an error the state is untouched. On success the buyer
  that locked the order has the escrowed amount, the escrow pool has that much less, the order is gone,
  and a second close fails.
\<close>

theorem close_order_settles_once:
  "case CloseOrder i c s of
     (Inl e, t) \<Rightarrow> t = s
   | (Inr _, t) \<Rightarrow> \<exists>order. tget (orderBook s) (c, i) = Some order \<and> oBuyerReceiveAddress order \<noteq> [] \<and>
       unat (acAmount (accountAt t (Addr (oBuyerReceiveAddress order)))) =
         unat (acAmount (accountAt s (Addr (oBuyerReceiveAddress order)))) + unat (oAmountForSale order) \<and>
       escrow t c + unat (oAmountForSale order) = escrow s c \<and>
       CloseOrder i c t = (Inl ErrOrderNotFound, t)"
proof (cases "CloseOrder i c s")
  case (Pair r t)
  show ?thesis
  proof (cases r)
    case (Inl e)
    with Pair show ?thesis by (simp add: orders_fail_clean(3))
  next
    case (Inr u)
    then have run: "CloseOrder i c s = (Inr (), t)" using Pair by simp
    let ?P = "\<lambda>order. pAmount (poolAt s (c + EscrowPoolAddend)) - oAmountForSale order"
    obtain order where o: "tget (orderBook s) (c, i) = Some order" "oBuyerReceiveAddress order \<noteq> []"
      and small: "\<not> 2 ^ 64 \<le> unat (acAmount (accountAt s (Addr (oBuyerReceiveAddress order)))) + unat (oAmountForSale order)"
      and le: "\<not> pAmount (poolAt s (c + EscrowPoolAddend)) < oAmountForSale order"
      and t: "t = (snd (EventOrderBookSwap order (snd (AccountAdd (Addr (oBuyerReceiveAddress order)) (oAmountForSale order)
         (snd (PoolSub (c + EscrowPoolAddend) (oAmountForSale order) s))))))\<lparr>orderBook := tdel (c, i) (orderBook s)\<rparr>"
      using run by (auto simp: CloseOrder_run Let_def split: option.splits if_splits)
    let ?a = "Addr (oBuyerReceiveAddress order)" and ?x = "oAmountForSale order"
    let ?u = "snd (PoolSub (c + EscrowPoolAddend) ?x s)"
    have u: "?u = s\<lparr>pools := putPool ((poolAt s (c + EscrowPoolAddend))\<lparr>pAmount := ?P order\<rparr>) (pools s)\<rparr>"
      using le by (simp add: PoolSub_run)
    have at: "accountAt ?u ?a = accountAt s ?a" by (simp add: u accountAt_def)
    have acc: "accounts t = accounts (snd (AccountAdd ?a ?x ?u))" and pl: "pools t = pools ?u"
      and ob: "orderBook t = tdel (c, i) (orderBook s)" and h: "height t = height s"
      by (auto simp: t EventOrderBookSwap_def addEvent_def go_simps AccountAdd_run u)
    have "unat (acAmount (accountAt t ?a)) = unat (acAmount (accountAt s ?a)) + unat ?x"
    proof (cases "?x = 0")
      case True
      with acc have "accounts t = accounts s" by (simp add: AccountAdd_run PoolSub_run)
      with True show ?thesis by (simp add: accountAt_def)
    next
      case False
      let ?new = "(accountAt s ?a)\<lparr>acAmount := acAmount (accountAt s ?a) + ?x\<rparr>"
      have "accounts t = putAccount (height s) ?new (accounts s)"
        using False small at acc by (simp add: AccountAdd_run u)
      then have "accountAt t ?a = accountAt (s\<lparr>accounts := putAccount (height s) ?new (accounts s)\<rparr>) ?a"
        by (simp add: accountAt_def)
      with small show ?thesis by (simp add: amount_putAccount unat_add_exact)
    qed
    moreover have "escrow t c + unat ?x = escrow s c"
    proof -
      have "poolAt t j = poolAt ?u j" for j by (simp add: poolAt_def pl)
      then show ?thesis using le by (simp add: escrow_def u amount_putPool unat_sub_guarded unat_less_iff)
    qed
    moreover have "CloseOrder i c t = (Inl ErrOrderNotFound, t)"
      by (simp add: CloseOrder_run ob table_simps)
    ultimately show ?thesis using o by (auto simp: run)
  qed
qed


section \<open>Orders are witnessed, not invented\<close>

text \<open>A transaction that pays enough fee and whose memo is a close (or lock) order of this chain.\<close>

definition carriesClose :: "memoCodec \<Rightarrow> state \<Rightarrow> blockTx \<Rightarrow> bytes \<Rightarrow> messageSend \<Rightarrow> bool" where
  "carriesClose mc s tx i send \<longleftrightarrow> btMessageType tx = ''send'' \<and> btSend tx = Some send \<and>
     fpSendFee (paramsFee s) * vpLockOrderFeeMultiplier (paramsVal s) \<le> btFee tx \<and>
     (\<exists>co. ParseCloseOrder mc s (btMemo tx) = Some co \<and> coOrderId co = i)"

definition carriesLock :: "memoCodec \<Rightarrow> state \<Rightarrow> blockTx \<Rightarrow> lockOrder \<Rightarrow> bool" where
  "carriesLock mc s tx lock \<longleftrightarrow> btMessageType tx = ''send'' \<and>
     fpSendFee (paramsFee s) * vpLockOrderFeeMultiplier (paramsVal s) \<le> btFee tx \<and>
     (\<exists>send. btSend tx = Some send \<and> loBuyerSendAddress lock = addr_bytes (msFromAddress send)) \<and>
     loBuyerChainDeadline lock = height s + vpBuyDeadlineBlocks (paramsVal s)"

definition cmds_ok :: "memoCodec \<Rightarrow> state \<Rightarrow> blockTx set \<Rightarrow> orderCommands \<Rightarrow> bool" where
  "cmds_ok mc s T cmds \<longleftrightarrow>
     (\<forall>i co. ocCloses cmds i = Some co \<longrightarrow> coOrderId co = i) \<and>
     (\<forall>i send. send \<in> set (ocSends cmds i) \<longrightarrow> (\<exists>tx \<in> T. carriesClose mc s tx i send)) \<and>
     (\<forall>i lock. ocLocks cmds i = Some lock \<longrightarrow> loOrderId lock = i \<and> (\<exists>tx \<in> T. carriesLock mc s tx lock))"

lemma parseTx_ok:
  assumes "cmds_ok mc s T cmds" and "tx \<in> T"
  shows "cmds_ok mc s T (parseTx mc s tx cmds)"
proof (cases "btMessageType tx \<noteq> ''send'' \<or> btMemo tx = [] \<or>
    btFee tx < fpSendFee (paramsFee s) * vpLockOrderFeeMultiplier (paramsVal s) \<or> \<not> mcValid mc (btMemo tx) \<or> btSend tx = None")
  case True
  then have "parseTx mc s tx cmds = cmds" by (auto simp: parseTx_def Let_def)
  with assms(1) show ?thesis by simp
next
  case False
  then obtain send where tx: "btSend tx = Some send" "btMessageType tx = ''send''" "mcValid mc (btMemo tx)" "btMemo tx \<noteq> []"
    "\<not> btFee tx < fpSendFee (paramsFee s) * vpLockOrderFeeMultiplier (paramsVal s)" by auto
  show ?thesis
  proof (cases "ParseLockOrder mc s (btMemo tx) (addr_bytes (msFromAddress send)) (vpBuyDeadlineBlocks (paramsVal s))")
    case (Some lock)
    then have "carriesLock mc s tx lock"
      using tx by (auto simp: carriesLock_def ParseLockOrder_def split: option.splits if_splits)
    with Some tx assms show ?thesis
      by (auto simp: cmds_ok_def parseTx_def Let_def)
  next
    case None
    then show ?thesis
    proof (cases "ParseCloseOrder mc s (btMemo tx)")
      case (Some co)
      have "carriesClose mc s tx (coOrderId co) send"
        using tx Some by (auto simp: carriesClose_def)
      with Some None tx assms show ?thesis
        by (auto simp: cmds_ok_def parseTx_def Let_def split: if_splits)
    qed (use tx assms None in \<open>simp add: parseTx_def\<close>)
  qed
qed

lemma fold_parse_ok: "cmds_ok mc s T cmds \<Longrightarrow> set txs \<subseteq> T \<Longrightarrow> cmds_ok mc s T (fold (parseTx mc s) txs cmds)"
  by (induction txs arbitrary: cmds) (simp_all add: parseTx_ok)

lemma Parse_ok: "cmds_ok mc s (set (concat blocks)) (ParseBlockForLockAndCloseOrders mc s blocks)"
  unfolding ParseBlockForLockAndCloseOrders_def by (rule fold_parse_ok) (simp_all add: cmds_ok_def)

definition witnessed ::
    "memoCodec \<Rightarrow> state \<Rightarrow> blockTx set \<Rightarrow> sellOrder set \<Rightarrow> lockOrder list \<times> bytes list \<times> bytes list \<Rightarrow> bool" where
  "witnessed mc s T B res \<longleftrightarrow> (case res of (locks, closes, resets) \<Rightarrow>
     (\<forall>lock \<in> set locks. (\<exists>order \<in> B. oId order = loOrderId lock \<and> oBuyerReceiveAddress order = []) \<and>
        (\<exists>tx \<in> T. carriesLock mc s tx lock)) \<and>
     (\<forall>i \<in> set closes. \<exists>order \<in> B. oId order = i \<and> oBuyerReceiveAddress order \<noteq> [] \<and>
        height s \<le> oBuyerChainDeadline order \<and> (\<exists>tx \<in> T. \<exists>send. carriesClose mc s tx i send \<and> validClose order send)) \<and>
     (\<forall>i \<in> set resets. \<exists>order \<in> B. oId order = i \<and> oBuyerReceiveAddress order \<noteq> [] \<and>
        oBuyerChainDeadline order < height s))"

lemma processOrder_witnessed:
  assumes "cmds_ok mc s T cmds" and "witnessed mc s T B res" and "order \<in> B"
  shows "witnessed mc s T B (processOrder cmds (height s) order res)"
proof -
  obtain locks closes resets where res: "res = (locks, closes, resets)" by (cases res)
  consider "oBuyerReceiveAddress order = []" | "oBuyerReceiveAddress order \<noteq> []" "oBuyerChainDeadline order < height s"
    | "oBuyerReceiveAddress order \<noteq> []" "height s \<le> oBuyerChainDeadline order" by fastforce
  then show ?thesis
  proof cases
    case 1
    with assms res show ?thesis
      by (auto simp: processOrder_def witnessed_def cmds_ok_def split: option.splits)
  next
    case 2
    with assms res show ?thesis by (auto simp: processOrder_def witnessed_def)
  next
    case 3
    show ?thesis
    proof (cases "ocCloses cmds (oId order)")
      case None
      with 3 assms(2) res show ?thesis by (auto simp: processOrder_def)
    next
      case (Some co)
      then have co: "coOrderId co = oId order" using assms(1) by (simp add: cmds_ok_def)
      show ?thesis
      proof (cases "list_ex (validClose order) (ocSends cmds (oId order))")
        case False
        with Some 3 assms(2) res show ?thesis by (auto simp: processOrder_def)
      next
        case True
        then obtain send where "send \<in> set (ocSends cmds (oId order))" "validClose order send" by (auto simp: list_ex_iff)
        then have "\<exists>tx \<in> T. \<exists>send. carriesClose mc s tx (oId order) send \<and> validClose order send"
          using assms(1) unfolding cmds_ok_def by blast
        with True Some 3 co assms(2,3) res show ?thesis
          by (auto simp: processOrder_def witnessed_def)
      qed
    qed
  qed
qed

lemma fold_process_witnessed:
  "cmds_ok mc s T cmds \<Longrightarrow> witnessed mc s T B res \<Longrightarrow> set os \<subseteq> B \<Longrightarrow>
   witnessed mc s T B (fold (processOrder cmds (height s)) os res)"
  by (induction os arbitrary: res) (simp_all add: processOrder_witnessed)

text \<open>
  A committee reports only what it witnessed. Every reported close belongs to a locked order that has
  not expired and comes with a transaction, in the proposed block or the historical window, that sent exactly the
  requested amount from the locked buyer to the seller. Every reported lock comes from a transaction signed by
  the buyer on an open order, and only expired orders are reset.
\<close>

theorem orders_are_witnessed:
  "witnessed mc s (set (concat (proposalTxs # List.map_filter loadBlock (historicalHeights h)))) (set (obOrders b))
     (ProcessRootChainOrderBook mc loadBlock s (Some b) h proposalTxs)"
  unfolding ProcessRootChainOrderBook_def option.case Let_def
  by (rule fold_process_witnessed [OF Parse_ok]) (simp_all add: witnessed_def)

end
