(* ===== verification/Dex.thy ===== *)
theory Dex
  imports Keys Rewards Certificates "HOL-Library.Char_ord"
begin

text \<open>
  The cross-chain exchange (\<open>fsm/dex.go\<close>, \<open>lib/dex.go\<close>): two chains exchange batches of limit
  orders, deposits and withdrawals; each executes the other's locked batch against its liquidity
  pool with a constant product formula and settles its own by the receipts that come back.

  The Go operations share two pool sizes through the pointers \<open>x\<close> and \<open>y\<close>; here they are
  arguments and results. The protobuf codec and the hash functions are the fields of a record.
  Elements of a repeated message field are never \<open>nil\<close> after decoding.
\<close>

section \<open>Batches (\<open>lib/dex.go\<close>)\<close>

record dexCodec =
  dxHash :: "bytes \<Rightarrow> bytes"
  dxHashString :: "bytes \<Rightarrow> string"
  dxMarshalBatch :: "dexBatch \<Rightarrow> bytes"
  dxMarshalOrder :: "dexLimitOrder \<Rightarrow> bytes"

definition EmptyReceiptsHash :: bytes where
  "EmptyReceiptsHash = replicate HashSize 0x46"

text \<open>\<open>DexBatch.Copy\<close>: what the counter chain has no use for is left out.\<close>

definition DexBatch_Copy :: "dexBatch \<Rightarrow> dexBatch" where
  "DexBatch_Copy x = x\<lparr>dbCounterPoolSize := 0, dbPoolPoints := [], dbTotalPoolPoints := 0\<rparr>"

text \<open>\<open>DexLimitOrder.Copy\<close>: the order id is not copied.\<close>

definition DexLimitOrder_Copy :: "dexLimitOrder \<Rightarrow> dexLimitOrder" where
  "DexLimitOrder_Copy x = x\<lparr>dlOrderId := []\<rparr>"

definition DexBatch_IsEmpty :: "dexBatch \<Rightarrow> bool" where
  "DexBatch_IsEmpty x \<longleftrightarrow> dbReceiptHash x = [] \<and> dbReceipts x = [] \<and> dbOrders x = [] \<and>
     dbWithdrawals x = [] \<and> dbDeposits x = []"

definition DexBatch_Hash :: "dexCodec \<Rightarrow> dexBatch \<Rightarrow> bytes" where
  "DexBatch_Hash c x0 = (let x = (if DexBatch_IsEmpty x0 then x0\<lparr>dbReceiptHash := EmptyReceiptsHash\<rparr> else x0)
     in dxHash c (dxMarshalBatch c (DexBatch_Copy x)))"

record DexLimitOrderWithKey =
  okOrder :: dexLimitOrder
  okKey :: string

definition HashKey :: "dexCodec \<Rightarrow> dexLimitOrder \<Rightarrow> nat \<Rightarrow> bytes \<Rightarrow> string" where
  "HashKey c x index blockHash =
     dxHashString c (blockHash @ formatUint64 (of_nat index) @ dxMarshalOrder c x)"

text \<open>\<open>CopyOrders\<close> returns the same list twice: one copy is sorted, one keeps the order.\<close>

definition CopyOrders :: "dexCodec \<Rightarrow> dexBatch \<Rightarrow> bytes \<Rightarrow>
    DexLimitOrderWithKey list \<times> DexLimitOrderWithKey list" where
  "CopyOrders c x blockHash =
     (let cpy = map (\<lambda>(i, order). let o' = DexLimitOrder_Copy order in
            \<lparr>okOrder = o', okKey = HashKey c o' i blockHash\<rparr>) (enumerate 0 (dbOrders x))
      in (cpy, cpy))"

section \<open>Batches in the state\<close>

text \<open>A batch with every field unset encodes to the empty byte string and reads back as absent.\<close>

definition zeroBatch :: dexBatch where
  "zeroBatch = \<lparr>dbCommittee = 0, dbReceiptHash = [], dbOrders = [], dbDeposits = [],
     dbWithdrawals = [], dbPoolSize = 0, dbCounterPoolSize = 0, dbPoolPoints = [],
     dbTotalPoolPoints = 0, dbReceipts = [], dbLockedHeight = 0, dbLivenessFallback = False\<rparr>"

definition SetDexBatch :: "bool \<Rightarrow> u64 \<Rightarrow> dexBatch \<Rightarrow> unit fsm" where
  "SetDexBatch locked chainId b =
     (if locked then modify (\<lambda>s. s\<lparr>lockedBatches := tset chainId b (lockedBatches s)\<rparr>)
      else modify (\<lambda>s. s\<lparr>nextBatches := tset chainId b (nextBatches s)\<rparr>))"

definition DeleteDexBatch :: "bool \<Rightarrow> u64 \<Rightarrow> unit fsm" where
  "DeleteDexBatch locked chainId =
     (if locked then modify (\<lambda>s. s\<lparr>lockedBatches := tdel chainId (lockedBatches s)\<rparr>)
      else modify (\<lambda>s. s\<lparr>nextBatches := tdel chainId (nextBatches s)\<rparr>))"

definition storedBatch :: "state \<Rightarrow> bool \<Rightarrow> u64 \<Rightarrow> dexBatch option" where
  "storedBatch s locked chainId =
     (case tget (if locked then lockedBatches s else nextBatches s) chainId of
        None \<Rightarrow> None
      | Some b \<Rightarrow> if b = zeroBatch then None else Some b)"

definition batchAt :: "state \<Rightarrow> bool \<Rightarrow> u64 \<Rightarrow> dexBatch" where
  "batchAt s locked chainId = (case storedBatch s locked chainId of
       None \<Rightarrow> zeroBatch\<lparr>dbCommittee := chainId,
         dbPoolSize := pAmount (poolAt s (chainId + LiquidityPoolAddend))\<rparr>
     | Some b \<Rightarrow> b)"

definition GetDexBatch :: "u64 \<Rightarrow> bool \<Rightarrow> bool \<Rightarrow> dexBatch fsm" where
  "GetDexBatch chainId locked withPoints = gets (\<lambda>s.
     let b = batchAt s locked chainId; lPool = poolAt s (chainId + LiquidityPoolAddend) in
     if withPoints \<and> storedBatch s locked chainId \<noteq> None
     then b\<lparr>dbPoolPoints := pPoints lPool, dbTotalPoolPoints := pTotalPoolPoints lPool\<rparr>
     else b)"

definition GetDexBatches :: "bool \<Rightarrow> dexBatch list fsm" where
  "GetDexBatches lockedBatch = gets (\<lambda>s. map snd (if lockedBatch then lockedBatches s else nextBatches s))"

section \<open>Prices\<close>

record DexPrice =
  dpLocalChainId :: u64
  dpRemoteChainId :: u64
  dpLocalPool :: u64
  dpRemotePool :: u64
  dpE6ScaledPrice :: u64

definition getPrice :: "dexBatch \<Rightarrow> DexPrice fsm" where
  "getPrice batch =
     (if dbPoolSize batch = 0 \<or> dbCounterPoolSize batch = 0 then err ErrInvalidLiquidityPool
      else let price = unat (dbPoolSize batch) * 1000000 div unat (dbCounterPoolSize batch) in
        if price \<ge> 2 ^ 64 then err ErrInvalidLiquidityPool
        else gets (\<lambda>s. \<lparr>dpLocalChainId = cfgChainId (cfg s), dpRemoteChainId = dbCommittee batch,
               dpLocalPool = dbPoolSize batch, dpRemotePool = dbCounterPoolSize batch,
               dpE6ScaledPrice = of_nat price\<rparr>))"

definition GetDexPrice :: "u64 \<Rightarrow> DexPrice fsm" where
  "GetDexPrice chainId = bnd (GetDexBatch chainId True False) getPrice"

definition GetDexPrices :: "DexPrice list fsm" where
  "GetDexPrices = bnd (GetDexBatches True) (\<lambda>dexBatches.
     fold_m (\<lambda>batch p. catch (getPrice batch) (\<lambda>_. ret p) (\<lambda>price. ret (p @ [price]))) dexBatches [])"

text \<open>\<open>SafeComputeDY\<close>: \<open>big.Int\<close> division by zero panics.\<close>

definition SafeComputeDY :: "u64 \<Rightarrow> u64 \<Rightarrow> u64 \<Rightarrow> u64 option" where
  "SafeComputeDY x y dX =
     (let amountInWithFee = unat dX * 990;
          numerator = amountInWithFee * unat y;
          denominator = unat x * 1000 + amountInWithFee
      in if denominator = 0 then None else Some (of_nat (numerator div denominator)))"

definition deadAddr :: address where
  "deadAddr = Addr (concat (replicate 10 [0xDE, 0xAD]))"

section \<open>Executing and settling batches\<close>

text \<open>One of our orders and the receipt the counter chain gave for it.\<close>

definition settleOrder :: "u64 \<Rightarrow> u64 \<Rightarrow> u64 list \<Rightarrow> nat \<times> dexLimitOrder \<Rightarrow> u64 \<times> u64 \<Rightarrow> (u64 \<times> u64) fsm" where
  "settleOrder chainId committee receipts = (\<lambda>(i, order) (x, y).
     bnd (PoolSub (chainId + HoldingPoolAddend) (dlAmountForSale order)) (\<lambda>_.
     if i \<ge> length receipts then err ErrPanic else
     let dY = receipts ! i; success = (dY \<noteq> 0) in
     bnd (if success
          then (if y \<le> dY then err ErrRemotePoolSizeDebit
                else bnd (PoolAdd (chainId + LiquidityPoolAddend) (dlAmountForSale order)) (\<lambda>_.
                  ret (x + dlAmountForSale order, y - dY)))
          else bnd (AccountAdd (dlAddress order) (dlAmountForSale order)) (\<lambda>_. ret (x, y))) (\<lambda>xy.
     bnd (EventDexSwap (dlAddress order) (dlOrderId order) (dlAmountForSale order) dY
            committee True success) (\<lambda>_.
     ret xy))))"

definition HandleOrderReceipts ::
    "dexBatch \<Rightarrow> dexBatch \<Rightarrow> u64 \<Rightarrow> u64 \<Rightarrow> u64 \<Rightarrow> (u64 \<times> u64) fsm" where
  "HandleOrderReceipts localBatch remoteBatch chainId x y =
     fold_m (settleOrder chainId (dbCommittee localBatch) (dbReceipts remoteBatch))
       (enumerate 0 (dbOrders localBatch)) (x, y)"

text \<open>One order of the sorted batch against the two reserves; \<open>result\<close> is the map of receipts by key.\<close>

definition executeOrder :: "u64 \<Rightarrow> DexLimitOrderWithKey \<Rightarrow> u64 \<times> u64 \<times> (string \<Rightarrow> u64) \<Rightarrow>
    (u64 \<times> u64 \<times> (string \<Rightarrow> u64)) fsm" where
  "executeOrder chainId order = (\<lambda>(x, y, result).
     let dX = dlAmountForSale (okOrder order) in
     case SafeComputeDY x y dX of
       None \<Rightarrow> err ErrPanic
     | Some dY0 \<Rightarrow>
         let dY = (if dY0 < dlRequestedAmount (okOrder order) then 0 else dY0);
             result' = result(okKey order := dY);
             (xAfter, overflow) = AddUint64 x dX in
         if dY \<noteq> 0 \<and> overflow then err ErrInvalidLiquidityPool
         else bnd (EventDexSwap (dlAddress (okOrder order)) (dlOrderId (okOrder order)) dX dY chainId
                False (dY \<noteq> 0)) (\<lambda>_.
           ret (if dY \<noteq> 0 then (xAfter, y - dY, result') else (x, y, result'))))"

definition payReceipt :: "u64 \<Rightarrow> (string \<Rightarrow> u64) \<Rightarrow> DexLimitOrderWithKey \<Rightarrow> u64 list \<Rightarrow> u64 list fsm" where
  "payReceipt chainId result order receipts =
     (let out = result (okKey order) in
      if out \<noteq> 0
      then bnd (PoolSub (chainId + LiquidityPoolAddend) out) (\<lambda>_.
        bnd (AccountAdd (dlAddress (okOrder order)) out) (\<lambda>_. ret (receipts @ [out])))
      else ret (receipts @ [out]))"

definition HandleDexBatchOrders ::
    "dexCodec \<Rightarrow> dexBatch \<Rightarrow> u64 \<Rightarrow> u64 \<Rightarrow> u64 \<Rightarrow> (u64 list \<times> u64 \<times> u64) fsm" where
  "HandleDexBatchOrders c remoteBatch x0 y0 chainId =
     bnd (gets prevBlockHash) (\<lambda>prevBlk. case prevBlk of
       None \<Rightarrow> err ErrNilBlock
     | Some blockHash \<Rightarrow>
         let (sorted0, orders) = CopyOrders c remoteBatch blockHash;
             sorted = sort_key okKey sorted0 in
         if x0 = 0 \<or> y0 = 0 then err ErrInvalidLiquidityPool
         else bnd (fold_m (executeOrder chainId) sorted (x0, y0, \<lambda>_. 0)) (\<lambda>(x, y, result).
           bnd (fold_m (payReceipt chainId result) orders []) (\<lambda>receipts.
           ret (receipts, x, y))))"

text \<open>The first loop of \<open>HandleBatchWithdraw\<close>: the points all withdrawals together ask for.\<close>

fun pointsToRemove :: "pool \<Rightarrow> dexLiquidityWithdraw list \<Rightarrow> u64 \<Rightarrow> error + u64" where
  "pointsToRemove p [] sum0 = Inr sum0"
| "pointsToRemove p (w # ws) sum0 = (case GetPointsFor p (dwAddress w) of
       Inl _ \<Rightarrow> pointsToRemove p ws sum0
     | Inr initialPoints \<Rightarrow>
         let (sum', overflow) = AddUint64 sum0 (SafeMulDiv initialPoints (dwPercent w) 100) in
         if overflow then Inl ErrInvalidLiquidityPool else pointsToRemove p ws sum')"

text \<open>One iteration of its second loop; the pool object and the amounts paid are its local state.\<close>

definition payWithdrawal :: "u64 \<Rightarrow> bool \<Rightarrow> u64 \<Rightarrow> u64 \<Rightarrow> u64 \<Rightarrow> dexLiquidityWithdraw \<Rightarrow>
    pool \<times> u64 \<times> u64 \<Rightarrow> (pool \<times> u64 \<times> u64) fsm" where
  "payWithdrawal counterChainId islocal totalY totalX totalPoints w = (\<lambda>(p, paidY, paidX).
     case GetPointsFor p (dwAddress w) of
       Inl _ \<Rightarrow> ret (p, paidY, paidX)
     | Inr initialPoints \<Rightarrow>
         let points = SafeMulDiv initialPoints (dwPercent w) 100;
             yShare = SafeMulDiv totalY points totalPoints;
             xShare = SafeMulDiv totalX points totalPoints in
         case RemovePoints (dwAddress w) points p of
           (Inl e, _) \<Rightarrow> err e
         | (Inr _, p') \<Rightarrow>
             let (payout, counter) = (if islocal then (xShare, yShare) else (yShare, xShare)) in
             bnd (AccountAdd (dwAddress w) payout) (\<lambda>_.
             bnd (EventDexLiquidityWithdraw (dwAddress w) (dwOrderId w) payout counter points counterChainId) (\<lambda>_.
             ret (p', paidY + yShare, paidX + xShare))))"

definition HandleBatchWithdraw ::
    "dexBatch \<Rightarrow> u64 \<Rightarrow> u64 \<Rightarrow> u64 \<Rightarrow> bool \<Rightarrow> (u64 \<times> u64) fsm" where
  "HandleBatchWithdraw batch counterChainId x y islocal =
     (if dbWithdrawals batch = [] then ret (x, y)
      else bnd (GetPool (counterChainId + LiquidityPoolAddend)) (\<lambda>p0.
        case pointsToRemove p0 (dbWithdrawals batch) 0 of
          Inl e \<Rightarrow> err e
        | Inr totalPointsToRemove \<Rightarrow>
            if totalPointsToRemove = 0 \<or> pTotalPoolPoints p0 = 0 then ret (x, y)
            else let totalYWithdrawal = SafeMulDiv y totalPointsToRemove (pTotalPoolPoints p0);
                     totalXWithdraw = SafeMulDiv x totalPointsToRemove (pTotalPoolPoints p0) in
              bnd (fold_m (payWithdrawal counterChainId islocal totalYWithdrawal totalXWithdraw totalPointsToRemove)
                     (dbWithdrawals batch) (p0, 0, 0)) (\<lambda>(p, paidY, paidX).
              let y' = y - paidY; x' = x - paidX in
              bnd (SetPool (p\<lparr>pAmount := (if islocal then x' else y')\<rparr>)) (\<lambda>_.
              ret (x', y')))))"

fun sumDeposits :: "dexLiquidityDeposit list \<Rightarrow> u64 \<Rightarrow> error + u64" where
  "sumDeposits [] sum0 = Inr sum0"
| "sumDeposits (d # ds) sum0 =
     (let (sum', overflow) = AddUint64 sum0 (ddAmount d) in
      if overflow then Inl ErrInvalidLiquidityPool else sumDeposits ds sum')"

text \<open>One iteration of the loop that hands out points for deposits.\<close>

definition payDeposit :: "u64 \<Rightarrow> bool \<Rightarrow> u64 \<Rightarrow> u64 \<Rightarrow> dexLiquidityDeposit \<Rightarrow>
    pool \<times> u64 \<times> u64 \<Rightarrow> (pool \<times> u64 \<times> u64) fsm" where
  "payDeposit chainId islocal totalDL totalDeposit d = (\<lambda>(p, x, distributed).
     let share = SafeMulDiv totalDL (ddAmount d) totalDeposit in
     if share > 0 \<and> GetPointsFor p (ddAddress d) = Inl ErrPointHolderNotFound \<and>
        length (pPoints p) \<ge> MaxLiquidityProviders
     then err ErrInvalidLiquidityPool
     else case AddPoints (ddAddress d) share p of
       (Inl e, _) \<Rightarrow> err e
     | (Inr _, p') \<Rightarrow>
         bnd (if islocal
              then bnd (PoolSub (chainId + HoldingPoolAddend) (ddAmount d)) (\<lambda>_.
                let (a, overflow) = AddUint64 (pAmount p') (ddAmount d) in
                if overflow then err ErrInvalidLiquidityPool else ret (p'\<lparr>pAmount := a\<rparr>))
              else ret p') (\<lambda>q.
         let (x', overflow) = AddUint64 x (ddAmount d) in
         if overflow then err ErrInvalidLiquidityPool
         else bnd (EventDexLiquidityDeposit (ddAddress d) (ddOrderId d) (ddAmount d) share chainId islocal) (\<lambda>_.
           ret (q, x', distributed + share))))"

text \<open>The first deposit of a pool gives the existing reserves to the dead address.\<close>

definition initialPoints :: "u64 \<Rightarrow> u64 \<Rightarrow> pool \<Rightarrow> error + pool \<times> u64" where
  "initialPoints x y p =
     (if pTotalPoolPoints p = 0
      then (let L = SqrtProductUint64 x y in
            case AddPoints deadAddr L p of (Inl e, _) \<Rightarrow> Inl e | (Inr _, p') \<Rightarrow> Inr (p', L))
      else Inr (p, pTotalPoolPoints p))"

definition HandleBatchDeposit ::
    "dexBatch \<Rightarrow> u64 \<Rightarrow> u64 \<Rightarrow> u64 \<Rightarrow> bool \<Rightarrow> (u64 \<times> u64) fsm" where
  "HandleBatchDeposit batch chainId x y islocal =
     (if dbDeposits batch = [] then ret (x, y)
      else bnd (GetPool (chainId + LiquidityPoolAddend)) (\<lambda>p0.
        case sumDeposits (dbDeposits batch) 0 of
          Inl e \<Rightarrow> err e
        | Inr totalDeposit \<Rightarrow>
            if totalDeposit = 0 \<or> x = 0 \<or> y = 0 then ret (x, y)
            else case initialPoints x y p0 of
              Inl e \<Rightarrow> err e
            | Inr (p1, L) \<Rightarrow>
                let oldK = SqrtProductUint64 x y;
                    (xAfter, overflow) = AddUint64 x totalDeposit;
                    newK = SqrtProductUint64 xAfter y in
                if oldK = 0 \<or> overflow \<or> newK < oldK then err ErrInvalidLiquidityPool
                else let totalDL = SafeMulDiv L (newK - oldK) oldK in
                  bnd (fold_m (payDeposit chainId islocal totalDL totalDeposit) (dbDeposits batch) (p1, x, 0))
                    (\<lambda>(p, x', distributed).
                  case AddPoints deadAddr (totalDL - distributed) p of
                    (Inl e, _) \<Rightarrow> err e
                  | (Inr _, p') \<Rightarrow> bnd (SetPool p') (\<lambda>_. ret (x', y)))))"

text \<open>The result tells whether the local batch is still waiting for its receipts.\<close>

definition HandleReceiptsForOurLockedBatch ::
    "dexCodec \<Rightarrow> dexBatch \<Rightarrow> u64 \<Rightarrow> u64 \<Rightarrow> (bool \<times> u64) fsm" where
  "HandleReceiptsForOurLockedBatch c remoteBatch counterPoolSizeMirror counterChainId =
     bnd (GetDexBatch counterChainId True False) (\<lambda>localBatch.
     if DexBatch_IsEmpty localBatch then ret (False, counterPoolSizeMirror)
     else if dbReceiptHash remoteBatch \<noteq> DexBatch_Hash c localBatch \<or>
             length (dbOrders localBatch) \<noteq> length (dbReceipts remoteBatch)
     then ret (True, counterPoolSizeMirror)
     else bnd (GetPoolBalance (counterChainId + LiquidityPoolAddend)) (\<lambda>localPoolSize.
       bnd (HandleOrderReceipts localBatch remoteBatch counterChainId localPoolSize counterPoolSizeMirror) (\<lambda>(x, y).
       bnd (HandleBatchWithdraw localBatch counterChainId x y True) (\<lambda>(x, y).
       bnd (HandleBatchDeposit localBatch counterChainId x y True) (\<lambda>(x, y).
       bnd (DeleteDexBatch True counterChainId) (\<lambda>_.
       ret (False, y)))))))"

definition HandleRemoteChainLockedBatch ::
    "dexCodec \<Rightarrow> dexBatch \<Rightarrow> u64 \<Rightarrow> u64 \<Rightarrow> (u64 list \<times> u64) fsm" where
  "HandleRemoteChainLockedBatch c remoteBatch counterPoolSizeMirror chainId =
     bnd (GetPoolBalance (chainId + LiquidityPoolAddend)) (\<lambda>localPoolSize.
     bnd (HandleDexBatchOrders c remoteBatch counterPoolSizeMirror localPoolSize chainId) (\<lambda>(receipts, x, y).
     bnd (HandleBatchWithdraw remoteBatch chainId x y False) (\<lambda>(x, y).
     bnd (HandleBatchDeposit remoteBatch chainId x y False) (\<lambda>(x, y).
     ret (receipts, x)))))"

definition RotateDexBatches :: "bytes \<Rightarrow> u64 \<Rightarrow> u64 \<Rightarrow> u64 \<Rightarrow> u64 list \<Rightarrow> unit fsm" where
  "RotateDexBatches receiptsHash lPoolSize counterPoolSize chainId receipts =
     bnd (GetDexBatch chainId True False) (\<lambda>lockedBatch.
     if \<not> DexBatch_IsEmpty lockedBatch then ret ()
     else bnd (GetDexBatch chainId False False) (\<lambda>next0.
       bnd (gets height) (\<lambda>h.
       let next1 = next0\<lparr>dbPoolSize := lPoolSize, dbReceiptHash := receiptsHash,
             dbCounterPoolSize := counterPoolSize, dbLockedHeight := h\<rparr>;
           nextSellBatch = (if receipts \<noteq> [] then next1\<lparr>dbReceipts := receipts\<rparr> else next1) in
       seqm [DeleteDexBatch False chainId, SetDexBatch True chainId nextSellBatch])))"

definition HandleRemoteDexBatch :: "dexCodec \<Rightarrow> dexBatch \<Rightarrow> u64 \<Rightarrow> unit fsm" where
  "HandleRemoteDexBatch c remoteBatch chainId =
     (let remoteBatchCopy = DexBatch_Copy remoteBatch;
          receiptsHash = DexBatch_Hash c (remoteBatch\<lparr>dbLivenessFallback := False\<rparr>) in
      bnd (GetPoolBalance (chainId + LiquidityPoolAddend)) (\<lambda>midPoint0.
      if DexBatch_IsEmpty remoteBatch
      then RotateDexBatches receiptsHash midPoint0 (dbPoolSize remoteBatch) chainId []
      else bnd (HandleReceiptsForOurLockedBatch c remoteBatchCopy (dbPoolSize remoteBatch) chainId) (\<lambda>(locked, mirror).
        if locked then ret ()
        else bnd (GetPoolBalance (chainId + LiquidityPoolAddend)) (\<lambda>midPoint.
          bnd (HandleRemoteChainLockedBatch c remoteBatchCopy mirror chainId) (\<lambda>(receipts, mirror').
          RotateDexBatches receiptsHash midPoint mirror' chainId receipts)))))"

definition refund :: "u64 \<Rightarrow> address \<Rightarrow> u64 \<Rightarrow> unit fsm" where
  "refund rcId address amount = seqm [PoolSub (rcId + HoldingPoolAddend) amount, AccountAdd address amount]"

definition HandleLivenessFallback :: "u64 \<Rightarrow> dexBatch \<Rightarrow> dexBatch \<Rightarrow> unit fsm" where
  "HandleLivenessFallback rcId localBatch remoteBatch = seqm [
     for_each (dbOrders localBatch) (\<lambda>order. refund rcId (dlAddress order) (dlAmountForSale order)),
     for_each (dbDeposits localBatch) (\<lambda>d. refund rcId (ddAddress d) (ddAmount d)),
     SetPoolPoints (rcId + LiquidityPoolAddend) (dbPoolPoints remoteBatch) (dbTotalPoolPoints remoteBatch),
     SetDexBatch True rcId zeroBatch]"

definition HandleDexBatch :: "dexCodec \<Rightarrow> u64 \<Rightarrow> certificateResult \<Rightarrow> bool \<Rightarrow> unit fsm" where
  "HandleDexBatch c chainId0 results isNested =
     bnd (if isNested then GetRootChainId else ret chainId0) (\<lambda>chainId.
     bnd (if isNested
          then (case crRootDexBatch results of
                  None \<Rightarrow> ret None
                | Some b \<Rightarrow> if dbLivenessFallback b then ret (Some b) else gets rootDexBatch)
          else ret (crDexBatch results)) (\<lambda>remote.
     bnd (GetPoolBalance (chainId + LiquidityPoolAddend)) (\<lambda>liqPoolSize.
     case remote of
       None \<Rightarrow> ret ()
     | Some remoteBatch \<Rightarrow>
         if liqPoolSize = 0 then ret ()
         else bnd (GetDexBatch chainId True False) (\<lambda>localBatch. seqm [
           when_m (dbLivenessFallback remoteBatch) (HandleLivenessFallback chainId localBatch remoteBatch),
           HandleRemoteDexBatch c remoteBatch chainId]))))"

definition canMove :: "nat \<Rightarrow> nat \<Rightarrow> nat \<Rightarrow> nat" where
  "canMove lockedLen nextLen maxLen =
     (if nextLen = 0 \<or> lockedLen \<ge> maxLen then 0
      else let remaining = maxLen - lockedLen in if nextLen < remaining then nextLen else remaining)"

text \<open>The callback of \<open>IncludeSameBlockDex\<close> for one locked batch.\<close>

definition includeBatch :: "u64 \<times> dexBatch \<Rightarrow> unit fsm" where
  "includeBatch = (\<lambda>(k, dexBatch). bnd (gets height) (\<lambda>h.
     if dbLockedHeight dexBatch \<noteq> h then ret ()
     else bnd (GetDexBatch (dbCommittee dexBatch) False False) (\<lambda>nextBatch.
       let no = canMove (length (dbOrders dexBatch)) (length (dbOrders nextBatch)) MaxOrdersPerDexBatch;
           nd = canMove (length (dbDeposits dexBatch)) (length (dbDeposits nextBatch)) MaxDepositsPerDexBatch;
           nw = canMove (length (dbWithdrawals dexBatch)) (length (dbWithdrawals nextBatch)) MaxWithdrawsPerDexBatch;
           locked' = dexBatch\<lparr>dbOrders := dbOrders dexBatch @ take no (dbOrders nextBatch),
             dbDeposits := dbDeposits dexBatch @ take nd (dbDeposits nextBatch),
             dbWithdrawals := dbWithdrawals dexBatch @ take nw (dbWithdrawals nextBatch)\<rparr>;
           next' = nextBatch\<lparr>dbOrders := drop no (dbOrders nextBatch),
             dbDeposits := drop nd (dbDeposits nextBatch),
             dbWithdrawals := drop nw (dbWithdrawals nextBatch)\<rparr> in
       if no = 0 \<and> nd = 0 \<and> nw = 0 then ret ()
       else seqm [SetDexBatch True k locked',
         (if dbOrders next' = [] \<and> dbDeposits next' = [] \<and> dbWithdrawals next' = []
          then DeleteDexBatch False (dbCommittee dexBatch)
          else SetDexBatch False (dbCommittee dexBatch) next')])))"

definition IncludeSameBlockDex :: "unit fsm" where
  "IncludeSameBlockDex = bnd (gets lockedBatches) (\<lambda>bs. for_each bs includeBatch)"

section \<open>The constant product\<close>

lemma constant_product:
  fixes x y d q :: nat
  assumes "q * (1000 * x + 990 * d) \<le> 990 * d * y" and "q \<le> y"
  shows "x * y \<le> (x + d) * (y - q)"
proof -
  obtain z where y: "y = q + z" using assms(2) le_Suc_ex by blast
  have "1000 * (x * q) \<le> 990 * (d * z)"
    using assms(1) by (simp add: y algebra_simps)
  then have "x * q \<le> d * z" by linarith
  then show ?thesis by (simp add: y algebra_simps)
qed

lemma SafeComputeDY_spec:
  assumes "SafeComputeDY x y dX = Some dY" and x: "x \<noteq> 0"
  shows "unat dY = 990 * unat dX * unat y div (1000 * unat x + 990 * unat dX)"
    and "unat x * unat y \<le> (unat x + unat dX) * (unat y - unat dY)"
    and "y \<noteq> 0 \<Longrightarrow> unat dY < unat y"
proof -
  let ?den = "1000 * unat x + 990 * unat dX" and ?num = "990 * unat dX * unat y"
  let ?q = "?num div ?den"
  have den: "0 < ?den" using x unat_u64_eq_0 [of x] by linarith
  have dY: "dY = of_nat ?q"
    using assms den by (auto simp: SafeComputeDY_def Let_def mult.commute split: if_splits)
  have le: "?q \<le> unat y"
  proof -
    have "?num \<le> unat y * ?den" by (simp add: algebra_simps)
    then have "?q \<le> unat y * ?den div ?den" by (rule div_le_mono)
    with den show ?thesis by simp
  qed
  then show q: "unat dY = ?q"
    using u64_bound [of y] by (simp add: dY unat_of_nat_small)
  have mul: "?q * ?den \<le> ?num" by (simp add: div_times_less_eq_dividend)
  show "unat dY < unat y" if "y \<noteq> 0"
  proof -
    have "0 < unat x * unat y" using that x by (simp add: zero_less_iff_neq_zero)
    then have "?num < unat y * ?den" by (simp add: algebra_simps)
    with mul have "?q * ?den < unat y * ?den" by linarith
    then show ?thesis by (simp add: q)
  qed
  show "unat x * unat y \<le> (unat x + unat dX) * (unat y - unat dY)"
    unfolding q by (rule constant_product [OF mul le])
qed

text \<open>The reserves and the receipts of the orders executed so far.\<close>

definition filled :: "(string \<Rightarrow> u64) \<Rightarrow> DexLimitOrderWithKey list \<Rightarrow> nat" where
  "filled r os = sum_list (map (\<lambda>k. unat (r (okKey k))) os)"

definition sold :: "(string \<Rightarrow> u64) \<Rightarrow> DexLimitOrderWithKey list \<Rightarrow> nat" where
  "sold r os = sum_list (map (\<lambda>k. if r (okKey k) \<noteq> 0 then unat (dlAmountForSale (okOrder k)) else 0) os)"

definition honoured :: "(string \<Rightarrow> u64) \<Rightarrow> DexLimitOrderWithKey \<Rightarrow> bool" where
  "honoured r k \<longleftrightarrow> r (okKey k) = 0 \<or> dlRequestedAmount (okOrder k) \<le> r (okKey k)"

lemma executeOrder_run:
  assumes run: "executeOrder c k (x, y, r) s = (Inr (x', y', r'), t)" and "x \<noteq> 0" and "y \<noteq> 0"
  shows "\<exists>dY. eventsOnly s t \<and> r' = r(okKey k := dY) \<and>
    (dY = 0 \<or> dlRequestedAmount (okOrder k) \<le> dY) \<and>
    unat x' = unat x + (if dY \<noteq> 0 then unat (dlAmountForSale (okOrder k)) else 0) \<and>
    unat y' + unat dY = unat y \<and> y' \<noteq> 0 \<and>
    unat x * unat y \<le> unat x' * unat y'"
proof -
  let ?dX = "dlAmountForSale (okOrder k)"
  obtain d where d: "SafeComputeDY x y ?dX = Some d"
    using run by (auto simp: executeOrder_def Let_def go_simps split: option.splits)
  note spec = SafeComputeDY_spec [OF d \<open>x \<noteq> 0\<close>]
  define dY where "dY = (if d < dlRequestedAmount (okOrder k) then 0 else d)"
  have t: "eventsOnly s t" and r': "r' = r(okKey k := dY)"
    and x': "x' = (if dY \<noteq> 0 then x + ?dX else x)" and y': "y' = (if dY \<noteq> 0 then y - dY else y)"
    and no: "dY \<noteq> 0 \<Longrightarrow> unat x + unat ?dX < 2 ^ 64"
    using run by (auto simp: executeOrder_def d Let_def AddUint64_def event_defs addEvent_def go_simps
        eventsOnly_def dY_def [symmetric] split: if_splits)
  show ?thesis
  proof (cases "dY = 0")
    case True
    from t True r' x' y' \<open>y \<noteq> 0\<close> show ?thesis
      by (intro exI [of _ dY]) simp
  next
    case False
    then have dd: "dY = d" and req: "dlRequestedAmount (okOrder k) \<le> dY"
      by (auto simp: dY_def split: if_splits)
    have lt: "unat dY < unat y" using spec(3) \<open>y \<noteq> 0\<close> dd by simp
    then have y1: "unat y' = unat y - unat dY" using False y' by (simp add: unat_sub unat_le_iff)
    have x1: "unat x' = unat x + unat ?dX" using False x' no by (simp add: unat_add_exact)
    have "y' \<noteq> 0" using y1 lt by (metis unat_0 zero_less_diff less_numeral_extra(3))
    have "unat x * unat y \<le> unat x' * unat y'" using spec(2) by (simp add: x1 y1 dd)
    with \<open>y' \<noteq> 0\<close> t r' x1 y1 lt req False show ?thesis
      by (intro exI [of _ dY]) simp
  qed
qed

lemma execute_loop:
  assumes "fold_m (executeOrder c) os (x, y, r) s = (Inr (x', y', r'), t)"
    and "x \<noteq> 0" and "y \<noteq> 0" and "distinct (map okKey os)"
  shows "eventsOnly s t \<and> (\<forall>k. k \<notin> okKey ` set os \<longrightarrow> r' k = r k) \<and>
    (\<forall>k \<in> set os. honoured r' k) \<and> unat x' = unat x + sold r' os \<and>
    unat y' + filled r' os = unat y \<and> y' \<noteq> 0 \<and> unat x * unat y \<le> unat x' * unat y'"
  using assms
proof (induction os arbitrary: x y r s)
  case Nil
  then have "t = s" "x' = x" "y' = y" "r' = r" by (simp_all add: ret_run)
  then show ?case using Nil.prems by (simp add: sold_def filled_def eventsOnly_refl)
next
  case (Cons k os)
  obtain z u where step: "executeOrder c k (x, y, r) s = (Inr z, u)"
    and rest: "fold_m (executeOrder c) os z u = (Inr (x', y', r'), t)"
    using Cons.prems(1) by (auto simp: bnd_Inr)
  obtain x1 y1 r1 where z: "z = (x1, y1, r1)" by (cases z)
  obtain dY where one: "eventsOnly s u" "r1 = r(okKey k := dY)"
    "dY = 0 \<or> dlRequestedAmount (okOrder k) \<le> dY"
    "unat x1 = unat x + (if dY \<noteq> 0 then unat (dlAmountForSale (okOrder k)) else 0)"
    "unat y1 + unat dY = unat y" "y1 \<noteq> 0" "unat x * unat y \<le> unat x1 * unat y1"
    using executeOrder_run [OF step [unfolded z]] Cons.prems(2,3) by blast
  have "x1 \<noteq> 0" using one(4) Cons.prems(2) by (metis add_eq_0_iff_both_eq_0 unat_u64_eq_0)
  with one Cons.prems(4) have ih: "eventsOnly u t"
    "\<forall>k. k \<notin> okKey ` set os \<longrightarrow> r' k = r1 k" "\<forall>k \<in> set os. honoured r' k"
    "unat x' = unat x1 + sold r' os" "unat y' + filled r' os = unat y1" "y' \<noteq> 0"
    "unat x1 * unat y1 \<le> unat x' * unat y'"
    using Cons.IH [OF rest [unfolded z]] by auto
  have k: "r' (okKey k) = dY" using ih(2) one(2) Cons.prems(4) by simp
  have "unat x * unat y \<le> unat x' * unat y'" using one(7) ih(7) by linarith
  with one ih k Cons.prems(4) eventsOnly_trans [OF one(1) ih(1)] show ?case
    by (auto simp: sold_def filled_def honoured_def)
qed


section \<open>The ledger of a batch\<close>

text \<open>
  While the batches of chain \<open>c\<close> are processed: \<open>d\<close> tokens are in flight, the liquidity pool
  holds \<open>x\<close> and the holding pool at least \<open>h\<close>, the liquidity points of every pool are consistent,
  and the batches of the state and the hash of the previous block are \<open>F\<close>.
\<close>

type_synonym dexFrame = "(u64, dexBatch) table \<times> (u64, dexBatch) table \<times> bytes option"

definition frameOf :: "state \<Rightarrow> dexFrame" where
  "frameOf s = (lockedBatches s, nextBatches s, prevBlockHash s)"

definition dexInv :: "u64 \<Rightarrow> dexFrame \<Rightarrow> nat \<Rightarrow> u64 \<Rightarrow> int \<Rightarrow> state \<Rightarrow> bool" where
  "dexInv c F d x h s \<longleftrightarrow> inflight d s \<and> (\<forall>i. points_ok (poolAt s i)) \<and>
     pAmount (poolAt s (c + LiquidityPoolAddend)) = x \<and>
     h \<le> int (unat (pAmount (poolAt s (c + HoldingPoolAddend)))) \<and> frameOf s = F"

lemma points_ok_amount [simp]: "points_ok (p\<lparr>pAmount := x\<rparr>) = points_ok p"
  by (simp add: points_ok_def)

lemma points_ok_poolAt_put:
  assumes "\<forall>i. points_ok (poolAt s i)" and "points_ok p"
  shows "points_ok (poolAt (s\<lparr>pools := putPool p (pools s)\<rparr>) j)"
proof (cases "j = pId p")
  case True
  with assms show ?thesis by (simp add: poolAt_def tget_putPool points_ok_def points_sum_def)
next
  case False
  with assms(1) [rule_format, of j] show ?thesis by (simp add: poolAt_def tget_putPool)
qed

lemma pools_distinct: "LiquidityPoolAddend \<noteq> HoldingPoolAddend" "HoldingPoolAddend \<noteq> LiquidityPoolAddend"
  by (simp_all add: pool_ids)

lemma frameOf_pools [simp]: "frameOf (s\<lparr>pools := P\<rparr>) = frameOf s"
  "frameOf (s\<lparr>accounts := A\<rparr>) = frameOf s" "frameOf (s\<lparr>events := E\<rparr>) = frameOf s"
  by (simp_all add: frameOf_def)

lemma holding_debit:
  "hoare (dexInv c F d x h) (PoolSub (c + HoldingPoolAddend) a) (\<lambda>_. dexInv c F (d + unat a) x (h - int (unat a)))"
proof (rule hoareI)
  fix s r t
  assume pre: "dexInv c F d x h s" and run: "PoolSub (c + HoldingPoolAddend) a s = (Inr r, t)"
  have "inflight (d + unat a) t"
    using hoareD [OF PoolSub_inflight _ run] pre by (simp add: dexInv_def)
  moreover have "uint (y - a) = uint y - uint a" if "\<not> y < a" for y
    using that by (simp add: uint_sub_lem [symmetric] word_le_def linorder_not_less)
  ultimately show "dexInv c F (d + unat a) x (h - int (unat a)) t"
    using pre run
    by (auto simp: dexInv_def PoolSub_run amount_putPool points_ok_poolAt_put pools_distinct split: if_splits)
qed

lemma liquidity_debit:
  "hoare (dexInv c F d x h) (PoolSub (c + LiquidityPoolAddend) a)
     (\<lambda>_ s. unat a \<le> unat x \<and> dexInv c F (d + unat a) (x - a) h s)"
proof (rule hoareI)
  fix s r t
  assume pre: "dexInv c F d x h s" and run: "PoolSub (c + LiquidityPoolAddend) a s = (Inr r, t)"
  have "inflight (d + unat a) t"
    using hoareD [OF PoolSub_inflight _ run] pre by (simp add: dexInv_def)
  with pre run show "unat a \<le> unat x \<and> dexInv c F (d + unat a) (x - a) h t"
    by (auto simp: dexInv_def PoolSub_run amount_putPool points_ok_poolAt_put pools_distinct
        unat_le_iff unat_less_iff split: if_splits)
qed

lemma liquidity_credit:
  "hoare (dexInv c F (d + unat a) x h) (PoolAdd (c + LiquidityPoolAddend) a) (\<lambda>_. dexInv c F d (x + a) h)"
proof (rule hoareI)
  fix s r t
  assume pre: "dexInv c F (d + unat a) x h s" and run: "PoolAdd (c + LiquidityPoolAddend) a s = (Inr r, t)"
  have "inflight d t"
    using hoareD [OF PoolAdd_inflight _ run] pre by (simp add: dexInv_def)
  with pre run show "dexInv c F d (x + a) h t"
    by (auto simp: dexInv_def PoolAdd_run amount_putPool points_ok_poolAt_put pools_distinct)
qed

lemma dexInv_cong:
  assumes "dexInv c F d x h s" and "inflight e t" and "pools t = pools s" and "frameOf t = frameOf s"
  shows "dexInv c F e x h t"
  using assms by (simp add: dexInv_def poolAt_def)

lemma account_credit:
  "hoare (dexInv c F (d + unat a) x h) (AccountAdd b a) (\<lambda>_. dexInv c F d x h)"
proof (rule hoareI)
  fix s r t
  assume pre: "dexInv c F (d + unat a) x h s" and run: "AccountAdd b a s = (Inr r, t)"
  have "inflight d t"
    using hoareD [OF AccountAdd_inflight _ run] pre by (simp add: dexInv_def)
  moreover have "pools t = pools s \<and> frameOf t = frameOf s"
    using run by (auto simp: AccountAdd_run split: if_splits)
  ultimately show "dexInv c F d x h t" using dexInv_cong [OF pre] by blast
qed

lemma dexInv_events:
  assumes "dexInv c F d x h s" and "eventsOnly s t"
  shows "dexInv c F d x h t"
proof -
  obtain E where t: "t = s\<lparr>events := E\<rparr>" using assms(2) by (auto simp: eventsOnly_def)
  show ?thesis using assms(1)
    by (rule dexInv_cong) (use assms(1) in \<open>auto simp: t dexInv_def inflight_def wf_def token_defs\<close>)
qed

lemma event_keeps_dexInv: "hoare (dexInv c F d x h) (addEvent m a i) (\<lambda>_. dexInv c F d x h)"
  by (rule hoareI) (blast intro: dexInv_events addEvent_run)

definition orderEscrow :: "dexLimitOrder list \<Rightarrow> nat" where
  "orderEscrow os = sum_list (map (unat \<circ> dlAmountForSale) os)"

definition depositEscrow :: "dexLiquidityDeposit list \<Rightarrow> nat" where
  "depositEscrow ds = sum_list (map (unat \<circ> ddAmount) ds)"



text \<open>Settling our own orders takes exactly their tokens out of the holding pool.\<close>

lemma settle_order:
  "hoare (dexInv c F 0 x h) (settleOrder c k rs (i, order) (x, y))
    (\<lambda>(x', y'). dexInv c F 0 x' (h - int (unat (dlAmountForSale order))))"
proof -
  let ?a = "dlAmountForSale order"
  let ?R = "\<lambda>(x', y' :: u64). dexInv c F 0 x' (h - int (unat ?a))"
  have debit: "hoare (dexInv c F 0 x h) (PoolSub (c + HoldingPoolAddend) ?a)
      (\<lambda>_. dexInv c F (0 + unat ?a) x (h - int (unat ?a)))"
    using holding_debit [of c F 0 x h ?a] by simp
  have credit: "hoare (dexInv c F (0 + unat ?a) x (h - int (unat ?a)))
      (if success
       then (if y \<le> dY then err ErrRemotePoolSizeDebit
             else bnd (PoolAdd (c + LiquidityPoolAddend) ?a) (\<lambda>_. ret (x + ?a, y - dY)))
       else bnd (AccountAdd (dlAddress order) ?a) (\<lambda>_. ret (x, y))) ?R" for success dY
    by (intro hoare_rules, rule liquidity_credit, simp, rule account_credit, simp)
  have event: "hoare (?R xy) (bnd (EventDexSwap a o1 b dY k True success) (\<lambda>_. ret xy)) ?R" for xy a o1 b dY success
    unfolding EventDexSwap_def
    by (cases xy) (auto intro!: hoare_bnd hoare_ret intro: event_keeps_dexInv)
  show ?thesis
    unfolding settleOrder_def prod.case
    by (intro hoare_bnd [OF debit] hoare_if hoare_err hoare_Let hoare_bnd [OF credit] event)
qed

lemma settle_orders:
  "hoare (dexInv c F 0 x h) (fold_m (settleOrder c k rs) (enumerate n os) (x, y))
     (\<lambda>(x', y'). dexInv c F 0 x' (h - int (orderEscrow os)))"
proof (induction os arbitrary: n x y h)
  case Nil
  then show ?case by (auto simp: orderEscrow_def intro: hoare_ret)
next
  case (Cons order os)
  let ?a = "unat (dlAmountForSale order)"
  have eq: "h - int (orderEscrow (order # os)) = h - int ?a - int (orderEscrow os)"
    by (simp add: orderEscrow_def)
  show ?case
    unfolding enumerate_simps fold_m.simps eq
  proof (rule hoare_bnd [OF settle_order])
    fix xy :: "u64 \<times> u64"
    show "hoare (case xy of (x', y') \<Rightarrow> dexInv c F 0 x' (h - int ?a))
        (fold_m (settleOrder c k rs) (enumerate (Suc n) os) xy)
        (\<lambda>(x', y'). dexInv c F 0 x' (h - int ?a - int (orderEscrow os)))"
      using Cons.IH by (cases xy) (simp only: prod.case)
  qed
qed

text \<open>Paying the receipts of the counter chain's orders.\<close>

lemma pay_receipt:
  "hoare (dexInv c F 0 x h) (payReceipt c r k rs)
     (\<lambda>rs' s. rs' = rs @ [r (okKey k)] \<and> unat (r (okKey k)) \<le> unat x \<and> dexInv c F 0 (x - r (okKey k)) h s)"
proof -
  let ?o = "r (okKey k)"
  have "hoare (\<lambda>s. unat ?o \<le> unat x \<and> dexInv c F (0 + unat ?o) (x - ?o) h s) (AccountAdd a ?o)
      (\<lambda>_ s. unat ?o \<le> unat x \<and> dexInv c F 0 (x - ?o) h s)" for a
    using account_credit [of c F 0 ?o "x - ?o" h a] by (auto simp: hoare_def)
  then show ?thesis
    unfolding payReceipt_def Let_def
    by (intro hoare_if hoare_ret hoare_bnd [OF liquidity_debit] hoare_bnd) auto
qed

lemma pay_receipts:
  "hoare (dexInv c F 0 x h) (fold_m (payReceipt c r) os rs)
     (\<lambda>rs' s. rs' = rs @ map (r \<circ> okKey) os \<and> (\<exists>x'. unat x' + filled r os = unat x \<and> dexInv c F 0 x' h s))"
proof (induction os arbitrary: x rs)
  case Nil
  then show ?case by (auto simp: filled_def intro: hoare_ret)
next
  case (Cons k os)
  let ?o = "r (okKey k)"
  show ?case
    unfolding fold_m.simps
  proof (rule hoare_bnd [OF pay_receipt])
    fix rs1
    have "hoare (\<lambda>s. rs1 = rs @ [?o] \<and> unat ?o \<le> unat x \<and> dexInv c F 0 (x - ?o) h s) (fold_m (payReceipt c r) os rs1)
        (\<lambda>rs' s. rs1 = rs @ [?o] \<and> unat ?o \<le> unat x \<and> rs' = rs1 @ map (r \<circ> okKey) os \<and>
           (\<exists>x'. unat x' + filled r os = unat (x - ?o) \<and> dexInv c F 0 x' h s))"
      using Cons.IH [of "x - ?o" rs1] by (auto simp: hoare_def)
    then show "hoare (\<lambda>s. rs1 = rs @ [?o] \<and> unat ?o \<le> unat x \<and> dexInv c F 0 (x - ?o) h s) (fold_m (payReceipt c r) os rs1)
        (\<lambda>rs' s. rs' = rs @ map (r \<circ> okKey) (k # os) \<and>
           (\<exists>x'. unat x' + filled r (k # os) = unat x \<and> dexInv c F 0 x' h s))"
    proof (rule hoare_weaken)
      fix rs' s
      assume post: "rs1 = rs @ [?o] \<and> unat ?o \<le> unat x \<and> rs' = rs1 @ map (r \<circ> okKey) os \<and>
           (\<exists>x'. unat x' + filled r os = unat (x - ?o) \<and> dexInv c F 0 x' h s)"
      then obtain x' where x': "unat x' + filled r os = unat (x - ?o)" "dexInv c F 0 x' h s" by blast
      have le: "unat ?o \<le> unat x" using post by blast
      have "unat x' + filled r (k # os) = unat x"
        using x'(1) le by (simp add: filled_def unat_sub unat_le_iff)
      with post x'(2) show "rs' = rs @ map (r \<circ> okKey) (k # os) \<and>
           (\<exists>x'. unat x' + filled r (k # os) = unat x \<and> dexInv c F 0 x' h s)" by auto
    qed
  qed
qed

text \<open>Two orders of a batch never share a hash key: the index of the order is part of what is hashed.\<close>

definition keysDistinct :: "dexCodec \<Rightarrow> dexBatch \<Rightarrow> bytes option \<Rightarrow> bool" where
  "keysDistinct cd b prev = (case prev of None \<Rightarrow> True | Some bh \<Rightarrow> distinct (map okKey (fst (CopyOrders cd b bh))))"

lemma sum_list_sort_key: "sum_list (map f (sort_key g xs)) = sum_list (map (f :: _ \<Rightarrow> nat) xs)"
  by (metis mset_map mset_sort sum_mset_sum_list)

lemma distinct_sort_key: "distinct (map f (sort_key g xs)) = distinct (map f xs)"
  by (metis mset_eq_imp_distinct_iff mset_map mset_sort)

lemma HandleDexBatchOrders_run:
  assumes run: "HandleDexBatchOrders cd b x y c s = (Inr (rs, x', y'), t)" and keys: "keysDistinct cd b (prevBlockHash s)"
  obtains bh os r u where "prevBlockHash s = Some bh" "os = fst (CopyOrders cd b bh)"
    "eventsOnly s u" "fold_m (payReceipt c r) os [] u = (Inr rs, t)" "x \<noteq> 0" "y \<noteq> 0"
    "\<forall>k \<in> set os. honoured r k" "unat x' = unat x + sold r os" "unat y' + filled r os = unat y"
    "y' \<noteq> 0" "unat x * unat y \<le> unat x' * unat y'"
proof -
  obtain bh where bh: "prevBlockHash s = Some bh"
    using run by (auto simp: HandleDexBatchOrders_def go_simps split: option.splits)
  let ?os = "fst (CopyOrders cd b bh)"
  have same: "snd (CopyOrders cd b bh) = ?os" by (simp add: CopyOrders_def Let_def)
  obtain r u where ex: "fold_m (executeOrder c) (sort_key okKey ?os) (x, y, \<lambda>_. 0) s = (Inr (x', y', r), u)"
    and pay: "fold_m (payReceipt c r) ?os [] u = (Inr rs, t)" and nz: "x \<noteq> 0" "y \<noteq> 0"
    using run by (auto simp: HandleDexBatchOrders_def bnd_Inr gets_run ret_run err_run bh same case_prod_beta
        split: if_splits)
  have d: "distinct (map okKey (sort_key okKey ?os))"
    using keys by (simp add: keysDistinct_def bh distinct_sort_key)
  from execute_loop [OF ex nz d] show thesis
    by (intro that [OF bh refl _ pay nz]) (auto simp: sold_def filled_def sum_list_sort_key)
qed

lemma HandleDexBatchOrders_ledger:
  assumes "keysDistinct cd b (snd (snd F))"
  shows "hoare (dexInv c F 0 y h) (HandleDexBatchOrders cd b x y c) (\<lambda>(rs, x', y'). dexInv c F 0 y' h)"
proof (rule hoareI)
  fix s res t
  assume pre: "dexInv c F 0 y h s" and run: "HandleDexBatchOrders cd b x y c s = (Inr res, t)"
  obtain rs x' y' where res: "res = (rs, x', y')" by (cases res)
  have "keysDistinct cd b (prevBlockHash s)" using assms pre by (auto simp: dexInv_def frameOf_def)
  from HandleDexBatchOrders_run [OF run [unfolded res] this]
  obtain os r u where u: "eventsOnly s u" "fold_m (payReceipt c r) os [] u = (Inr rs, t)"
    "unat y' + filled r os = unat y" by metis
  from hoareD [OF pay_receipts dexInv_events [OF pre u(1)] u(2)]
  obtain z where "unat z + filled r os = unat y" "dexInv c F 0 z h t" by blast
  moreover from this u(3) have "z = y'" by (simp add: word_unat_eq_iff)
  ultimately show "(case res of (rs, x', y') \<Rightarrow> dexInv c F 0 y' h) t" by (simp add: res)
qed

section \<open>Withdrawals\<close>

lemma SafeMulDiv_upper: "unat (SafeMulDiv a b c) * unat c \<le> unat a * unat b"
proof (cases "c = 0")
  case False
  have "unat (of_nat n :: u64) \<le> n" for n by (simp add: unat_of_nat)
  then have "unat (SafeMulDiv a b c) \<le> unat a * unat b div unat c" using False by (simp add: SafeMulDiv_def)
  then have "unat (SafeMulDiv a b c) * unat c \<le> unat a * unat b div unat c * unat c" by (rule mult_le_mono1)
  also have "\<dots> \<le> unat a * unat b" by (rule div_times_less_eq_dividend)
  finally show ?thesis .
qed simp

text \<open>The pro rata share of a withdrawal, rounded twice, is at most the proportional part of the reserve.\<close>

lemma share_bound:
  "unat (SafeMulDiv (SafeMulDiv x tr tp) pts tr) * unat tp \<le> unat x * unat pts"
proof (cases "tr = 0")
  case True
  then show ?thesis by (simp add: SafeMulDiv_def)
next
  case False
  let ?q = "SafeMulDiv x tr tp"
  let ?r = "unat (SafeMulDiv ?q pts tr)"
  have "?r * unat tr * unat tp \<le> unat ?q * unat pts * unat tp"
    using SafeMulDiv_upper by (rule mult_le_mono1)
  also have "\<dots> = unat ?q * unat tp * unat pts" by (simp add: mult.commute mult.left_commute)
  also have "\<dots> \<le> unat x * unat tr * unat pts"
    using SafeMulDiv_upper by (rule mult_le_mono1)
  finally have "unat tr * (?r * unat tp) \<le> unat tr * (unat x * unat pts)"
    by (simp add: mult.commute mult.left_commute)
  moreover have "0 < unat tr" using False by (simp add: zero_less_iff_neq_zero)
  ultimately show ?thesis by simp
qed

text \<open>
  What one chain pays for withdrawals, as a function of the points burned: \<open>T\<close> points stood for the
  reserves \<open>x\<close> and \<open>y\<close>, and the pool object \<open>p\<close> still has some of them.
\<close>

definition withdrawn :: "u64 \<Rightarrow> u64 \<Rightarrow> u64 \<Rightarrow> u64 \<Rightarrow> pool \<times> u64 \<times> u64 \<Rightarrow> bool" where
  "withdrawn i T x y = (\<lambda>(p, paidY, paidX). points_ok p \<and> pId p = i \<and> pTotalPoolPoints p \<le> T \<and>
     unat paidX * unat T \<le> unat x * (unat T - unat (pTotalPoolPoints p)) \<and>
     unat paidY * unat T \<le> unat y * (unat T - unat (pTotalPoolPoints p)))"

lemma paid_step:
  fixes x px sh :: u64
  assumes "unat px * T \<le> unat x * (T - q)" and "n * T \<le> unat x * pts" and "pts \<le> q" and "q \<le> T" and "0 < T"
    and "n = unat sh"
  shows "unat (px + sh) = unat px + n \<and> unat (px + sh) * T \<le> unat x * (T - (q - pts))"
proof -
  have sum: "(unat px + n) * T \<le> unat x * (T - (q - pts))"
  proof -
    have "(unat px + n) * T \<le> unat x * (T - q) + unat x * pts"
      using assms(1,2) by (simp add: add_mult_distrib)
    also have "\<dots> = unat x * (T - (q - pts))"
      using assms(3,4) by (simp add: add_mult_distrib2 [symmetric])
    finally show ?thesis .
  qed
  also have "\<dots> \<le> unat x * T" by simp
  finally have "unat px + n \<le> unat x" using assms(5) by simp
  then have "unat px + unat sh < 2 ^ 64" using u64_bound [of x] assms(6) by linarith
  then have "unat (px + sh) = unat px + n" using assms(6) by (simp only: unat_add_exact)
  with sum show ?thesis by simp
qed

lemma RemovePoints_effect:
  assumes ok: "points_ok p" and pts: "GetPointsFor p a = Inr n" and le: "x \<le> n"
    and run: "RemovePoints a x p = (Inr r, q)"
  shows "points_ok q \<and> pId q = pId p \<and> pAmount q = pAmount p \<and> unat x \<le> unat (pTotalPoolPoints p) \<and>
    unat (pTotalPoolPoints q) = unat (pTotalPoolPoints p) - unat x"
proof -
  obtain i where i: "lpIndex (pPoints p) a = Some i" and n: "n = ppPoints (pPoints p ! i)"
    using pts by (auto simp: GetPointsFor_def split: option.splits)
  have "unat x \<le> unat (pTotalPoolPoints p)"
    using ok points_sum_ge [of i "pPoints p"] lpIndex_Some [OF i] le by (simp add: points_ok_def unat_le_iff n)
  moreover have "points_ok q" using RemovePoints_ok [OF ok pts le] run by simp
  moreover have "pTotalPoolPoints q = pTotalPoolPoints p - x \<and> pId q = pId p \<and> pAmount q = pAmount p"
    using run by (auto simp: RemovePoints_run [OF i] Let_def split: if_splits)
  ultimately show ?thesis by (simp add: unat_sub unat_le_iff)
qed

text \<open>The tokens a withdrawal hands out before the pool is debited.\<close>

definition credited :: "nat \<Rightarrow> state \<Rightarrow> state \<Rightarrow> bool" where
  "credited n s t \<longleftrightarrow> paid n s t \<and> frameOf t = frameOf s"

lemma credited_refl: "wf s \<Longrightarrow> credited 0 s s"
  by (simp add: credited_def paid_def)

lemma credited_trans: "credited m s t \<Longrightarrow> credited n t u \<Longrightarrow> credited (m + n) s u"
  using paid_trans by (auto simp: credited_def)

lemma credited_wf: "credited n s t \<Longrightarrow> wf t"
  by (simp add: credited_def paid_def)

lemma AccountAdd_credited: "AccountAdd a x s = (Inr r, t) \<Longrightarrow> wf s \<Longrightarrow> credited (unat x) s t"
  using AccountAdd_paid [of a x s r t] by (auto simp: credited_def AccountAdd_run split: if_splits)

lemma events_credited: "eventsOnly s t \<Longrightarrow> wf s \<Longrightarrow> credited 0 s t"
  by (auto simp: eventsOnly_def credited_def paid_def wf_def token_defs)

lemma payWithdrawal_run:
  assumes run: "payWithdrawal c islocal (SafeMulDiv y tr T) (SafeMulDiv x tr T) tr w (p, py, px) s = (Inr res, t)"
    and inv: "withdrawn i T x y (p, py, px)" and pct: "dwPercent w \<le> 100" and wf: "wf s" and T: "T \<noteq> 0"
  shows "\<exists>p' py' px'. res = (p', py', px') \<and> withdrawn i T x y (p', py', px') \<and> pAmount p' = pAmount p \<and>
    (\<exists>n. credited n s t \<and> (if islocal then unat px' = unat px + n else unat py' = unat py + n))"
proof (cases "GetPointsFor p (dwAddress w)")
  case (Inl e)
  with run have "res = (p, py, px)" "t = s" by (simp_all add: payWithdrawal_def ret_run)
  with inv wf show ?thesis by (auto intro!: exI [of _ 0] credited_refl)
next
  case (Inr n)
  define pts where "pts = SafeMulDiv n (dwPercent w) 100"
  define ys where "ys = SafeMulDiv (SafeMulDiv y tr T) pts tr"
  define xs where "xs = SafeMulDiv (SafeMulDiv x tr T) pts tr"
  obtain p' where rem: "RemovePoints (dwAddress w) pts p = (Inr (), p')"
    using run by (auto simp: payWithdrawal_def Inr Let_def pts_def [symmetric] err_run split: prod.splits sum.splits)
  let ?pay = "if islocal then xs else ys"
  obtain u where add: "AccountAdd (dwAddress w) ?pay s = (Inr (), u)" and ev: "eventsOnly u t"
    and res: "res = (p', py + ys, px + xs)"
    using run by (auto simp: payWithdrawal_def Inr Let_def pts_def [symmetric] ys_def [symmetric] xs_def [symmetric]
        rem bnd_Inr ret_run EventDexLiquidityWithdraw_def dest: addEvent_run split: if_splits)
  have le: "pts \<le> n" unfolding pts_def by (rule SafeMulDiv_le(2) [OF pct])
  have p: "points_ok p" using inv by (simp add: withdrawn_def)
  note rp = RemovePoints_effect [OF p Inr le rem]
  have Tpos: "0 < unat T" using T by (simp add: zero_less_iff_neq_zero)
  have qT: "unat (pTotalPoolPoints p) \<le> unat T" using inv by (simp add: withdrawn_def unat_le_iff)
  have X: "unat (px + xs) = unat px + unat xs \<and> unat (px + xs) * unat T \<le> unat x * (unat T - (unat (pTotalPoolPoints p) - unat pts))"
    by (rule paid_step [OF _ _ _ qT Tpos refl]) (use inv rp share_bound [of x tr T pts] in \<open>auto simp: withdrawn_def xs_def\<close>)
  have Y: "unat (py + ys) = unat py + unat ys \<and> unat (py + ys) * unat T \<le> unat y * (unat T - (unat (pTotalPoolPoints p) - unat pts))"
    by (rule paid_step [OF _ _ _ qT Tpos refl]) (use inv rp share_bound [of y tr T pts] in \<open>auto simp: withdrawn_def ys_def\<close>)
  have "withdrawn i T x y (p', py + ys, px + xs)"
    using inv rp X Y by (auto simp: withdrawn_def unat_le_iff)
  moreover have "credited (unat ?pay) s t"
    using credited_trans [OF AccountAdd_credited [OF add wf] events_credited [OF ev]]
      credited_wf [OF AccountAdd_credited [OF add wf]] by simp
  ultimately show ?thesis using X Y rp res by (auto intro!: exI [of _ "unat ?pay"])
qed

lemma withdraw_loop:
  assumes "fold_m (payWithdrawal c islocal (SafeMulDiv y tr T) (SafeMulDiv x tr T) tr) ws (p, py, px) s = (Inr (p', py', px'), t)"
    and "withdrawn i T x y (p, py, px)" and "\<forall>w \<in> set ws. dwPercent w \<le> 100" and "wf s" and "T \<noteq> 0"
  shows "withdrawn i T x y (p', py', px') \<and>
    (\<exists>n. credited n s t \<and> (if islocal then unat px' = unat px + n else unat py' = unat py + n))"
  using assms
proof (induction ws arbitrary: p py px s)
  case Nil
  then show ?case by (auto simp: ret_run intro!: exI [of _ 0] credited_refl)
next
  case (Cons w ws)
  obtain z u where step: "payWithdrawal c islocal (SafeMulDiv y tr T) (SafeMulDiv x tr T) tr w (p, py, px) s = (Inr z, u)"
    and rest: "fold_m (payWithdrawal c islocal (SafeMulDiv y tr T) (SafeMulDiv x tr T) tr) ws z u = (Inr (p', py', px'), t)"
    using Cons.prems(1) by (auto simp: bnd_Inr)
  have pct: "dwPercent w \<le> 100" using Cons.prems(3) by simp
  obtain p1 py1 px1 m where one: "z = (p1, py1, px1)" "withdrawn i T x y (p1, py1, px1)" "credited m s u"
    "if islocal then unat px1 = unat px + m else unat py1 = unat py + m"
    using payWithdrawal_run [OF step Cons.prems(2) pct Cons.prems(4,5)] by metis
  obtain n where two: "withdrawn i T x y (p', py', px')" "credited n u t"
    "if islocal then unat px' = unat px1 + n else unat py' = unat py1 + n"
    using Cons.IH [OF rest [unfolded one(1)] one(2) _ credited_wf [OF one(3)] Cons.prems(5)] Cons.prems(3) by auto
  have "credited (m + n) s t" by (rule credited_trans [OF one(3) two(2)])
  with one(4) two(1,3) show ?case by (intro conjI exI [of _ "m + n"]) (auto split: if_splits)
qed

lemma withdrawn_le:
  assumes "withdrawn i T x y (p, py, px)" and "T \<noteq> 0"
  shows "unat px \<le> unat x" and "unat py \<le> unat y"
proof -
  have T: "0 < unat T" using assms(2) by (simp add: zero_less_iff_neq_zero)
  have "m * (unat T - k) \<le> m * unat T" for m k by simp
  then have "unat px * unat T \<le> unat x * unat T" "unat py * unat T \<le> unat y * unat T"
    using assms(1) unfolding withdrawn_def prod.case by (blast intro: order_trans)+
  with T show "unat px \<le> unat x" "unat py \<le> unat y" by simp_all
qed

text \<open>Writing the liquidity pool settles what was credited or is still in flight.\<close>

lemma SetPool_settles:
  assumes wf: "wf s" and ok: "\<forall>i. points_ok (poolAt s i)" "points_ok p" and p: "pId p = c + LiquidityPoolAddend"
    and h: "h \<le> int (unat (pAmount (poolAt s (c + HoldingPoolAddend))))" and F: "frameOf s = F"
    and sum: "tokens s + unat (pAmount p) = unat (sTotal (supplyTracker s)) + unat (pAmount (poolAt s (c + LiquidityPoolAddend)))"
  shows "dexInv c F 0 (pAmount p) h (s\<lparr>pools := putPool p (pools s)\<rparr>)"
proof -
  let ?t = "s\<lparr>pools := putPool p (pools s)\<rparr>"
  have "tok (pools s)" using wf by (simp add: wf_def)
  from poolTokens_put [OF this, of p] have "tokens ?t = unat (sTotal (supplyTracker s))"
    using sum by (simp add: token_defs p)
  then have "inflight 0 ?t" using wf by (simp add: inflight_def wf_def)
  then show ?thesis using ok h F
    by (simp add: dexInv_def points_ok_poolAt_put amount_putPool p pools_distinct)
qed

lemma HandleBatchWithdraw_cases:
  assumes run: "HandleBatchWithdraw b c x y islocal s = (Inr res, t)"
  obtains "res = (x, y)" "t = s"
    | tr p py px u where "pTotalPoolPoints (poolAt s (c + LiquidityPoolAddend)) \<noteq> 0"
      "fold_m (payWithdrawal c islocal (SafeMulDiv y tr (pTotalPoolPoints (poolAt s (c + LiquidityPoolAddend))))
          (SafeMulDiv x tr (pTotalPoolPoints (poolAt s (c + LiquidityPoolAddend)))) tr) (dbWithdrawals b)
          (poolAt s (c + LiquidityPoolAddend), 0, 0) s = (Inr (p, py, px), u)"
      "t = u\<lparr>pools := putPool (p\<lparr>pAmount := if islocal then x - px else y - py\<rparr>) (pools u)\<rparr>"
      "res = (x - px, y - py)"
proof -
  let ?lp = "poolAt s (c + LiquidityPoolAddend)"
  show thesis
  proof (cases "dbWithdrawals b = []")
    case True
    with run show thesis by (intro that(1)) (simp_all add: HandleBatchWithdraw_def ret_run)
  next
    case ne: False
    obtain tr where tr: "pointsToRemove ?lp (dbWithdrawals b) 0 = Inr tr"
      using run ne by (cases "pointsToRemove ?lp (dbWithdrawals b) 0")
        (simp_all add: HandleBatchWithdraw_def GetPool_def bnd_def gets_run err_run)
    show thesis
    proof (cases "tr = 0 \<or> pTotalPoolPoints ?lp = 0")
      case True
      with run ne tr show thesis
        by (intro that(1)) (auto simp: HandleBatchWithdraw_def GetPool_def bnd_def gets_run ret_run)
    next
      case False
      with run ne tr obtain p py px u where
        loop: "fold_m (payWithdrawal c islocal (SafeMulDiv y tr (pTotalPoolPoints ?lp))
          (SafeMulDiv x tr (pTotalPoolPoints ?lp)) tr) (dbWithdrawals b) (?lp, 0, 0) s = (Inr (p, py, px), u)"
        and post: "t = u\<lparr>pools := putPool (p\<lparr>pAmount := if islocal then x - px else y - py\<rparr>) (pools u)\<rparr>"
          "res = (x - px, y - py)"
        unfolding HandleBatchWithdraw_def
        by (simp add: GetPool_def bnd_Inr gets_run ret_run SetPool_run Let_def) blast
      show thesis by (rule that(2) [OF _ loop post]) (use False in simp)
    qed
  qed
qed

lemma HandleBatchWithdraw_ledger:
  assumes pct: "\<forall>w \<in> set (dbWithdrawals b). dwPercent w \<le> 100"
  shows "hoare (dexInv c F 0 (if islocal then x else y) h) (HandleBatchWithdraw b c x y islocal)
     (\<lambda>(x', y'). dexInv c F 0 (if islocal then x' else y') h)"
proof (rule hoareI)
  fix s res t
  assume pre: "dexInv c F 0 (if islocal then x else y) h s"
    and run: "HandleBatchWithdraw b c x y islocal s = (Inr res, t)"
  let ?i = "c + LiquidityPoolAddend"
  let ?lp = "poolAt s ?i"
  let ?T = "pTotalPoolPoints ?lp"
  have wf: "wf s" using pre by (simp add: dexInv_def inflight_def)
  from run
  show "(case res of (x', y') \<Rightarrow> dexInv c F 0 (if islocal then x' else y') h) t"
  proof (cases rule: HandleBatchWithdraw_cases)
    case 1
    with pre show ?thesis by simp
  next
    case (2 tr p py px u)
    have "withdrawn ?i ?T x y (?lp, 0, 0)"
      using pre by (simp add: withdrawn_def dexInv_def)
    from withdraw_loop [OF 2(2) this pct wf 2(1)] obtain n where w: "withdrawn ?i ?T x y (p, py, px)"
      and n: "credited n s u" "if islocal then unat px = n else unat py = n" by auto
    note le = withdrawn_le [OF w 2(1)]
    let ?p = "p\<lparr>pAmount := if islocal then x - px else y - py\<rparr>"
    have u: "pools u = pools s" "tokens u = tokens s + n" "sTotal (supplyTracker u) = sTotal (supplyTracker s)"
      "wf u" "frameOf u = frameOf s"
      using n(1) by (simp_all add: credited_def paid_def)
    have at: "poolAt u j = poolAt s j" for j by (simp add: poolAt_def u)
    have sum: "tokens u + unat (pAmount ?p) = unat (sTotal (supplyTracker u)) + unat (pAmount (poolAt u ?i))"
    proof -
      have "tokens s = unat (sTotal (supplyTracker s))" "pAmount ?lp = (if islocal then x else y)"
        using pre by (simp_all add: dexInv_def inflight_def)
      with n(2) le show ?thesis by (cases islocal) (simp_all add: at u unat_sub unat_le_iff)
    qed
    have "dexInv c F 0 (pAmount ?p) h t"
      unfolding 2(3)
      by (rule SetPool_settles [OF u(4) _ _ _ _ _ sum])
        (use pre w in \<open>auto simp: dexInv_def at u withdrawn_def\<close>)
    then show ?thesis by (simp add: 2(4) split: if_splits)
  qed
qed

section \<open>Deposits\<close>

lemma AddPoints_effect:
  assumes "points_ok p" and "AddPoints a n p = (Inr r, q)"
  shows "points_ok q \<and> pId q = pId p \<and> pAmount q = pAmount p"
  using AddPoints_ok [OF assms] assms(2)
  by (auto simp: AddPoints_def go_simps Let_def split: if_splits option.splits)

lemma initialPoints_effect:
  assumes "points_ok p" and "initialPoints x y p = Inr (q, L)"
  shows "points_ok q \<and> pId q = pId p \<and> pAmount q = pAmount p"
  using assms AddPoints_effect [OF assms(1)]
  by (auto simp: initialPoints_def Let_def split: if_splits prod.splits sum.splits)

text \<open>
  The deposits credited so far, \<open>d\<close>, are in the pool object \<open>p\<close> and in the reserve \<open>x\<close>, while the
  state still shows the pool with \<open>X\<close>. Deposits on the counter chain move no tokens here.
\<close>

definition deposited :: "u64 \<Rightarrow> dexFrame \<Rightarrow> bool \<Rightarrow> u64 \<Rightarrow> u64 \<Rightarrow> int \<Rightarrow> nat \<Rightarrow> pool \<times> u64 \<times> u64 \<Rightarrow> state \<Rightarrow> bool" where
  "deposited c F islocal X x0 h d = (\<lambda>(p, x, dist) s.
     dexInv c F (if islocal then d else 0) X (h - (if islocal then int d else 0)) s \<and> points_ok p \<and> pId p = c + LiquidityPoolAddend \<and>
     unat (pAmount p) = unat X + (if islocal then d else 0) \<and> unat x = unat x0 + d)"

lemma payDeposit_run:
  assumes run: "payDeposit c islocal tdl td w (p, x, dist) s = (Inr res, t)"
    and inv: "deposited c F islocal X x0 h d (p, x, dist) s"
  shows "deposited c F islocal X x0 h (d + unat (ddAmount w)) res t"
proof -
  let ?a = "ddAmount w" and ?sh = "SafeMulDiv tdl (ddAmount w) td"
  obtain p' where add: "AddPoints (ddAddress w) ?sh p = (Inr (), p')"
    using run by (auto simp: payDeposit_def Let_def err_run split: if_splits prod.splits sum.splits)
  have p': "points_ok p' \<and> pId p' = pId p \<and> pAmount p' = pAmount p"
    using AddPoints_effect [OF _ add] inv by (simp add: deposited_def)
  obtain q u where mv: "(if islocal then bnd (PoolSub (c + HoldingPoolAddend) ?a) (\<lambda>_.
        if 2 ^ 64 \<le> unat (pAmount p') + unat ?a then err ErrInvalidLiquidityPool else ret (p'\<lparr>pAmount := pAmount p' + ?a\<rparr>))
      else ret p') s = (Inr q, u)"
    and small: "unat x + unat ?a < 2 ^ 64" and ev: "eventsOnly u t" and res: "res = (q, x + ?a, dist + ?sh)"
    using run by (auto simp: payDeposit_def Let_def add AddUint64_def bnd_Inr ret_run err_run
        EventDexLiquidityDeposit_def dest: addEvent_run split: if_splits)
  have x: "unat (x + ?a) = unat x + unat ?a" by (rule unat_add_exact [OF small])
  have "dexInv c F (if islocal then d + unat ?a else 0) X (h - (if islocal then int (d + unat ?a) else 0)) u \<and>
      points_ok q \<and> pId q = pId p \<and> unat (pAmount q) = unat (pAmount p) + (if islocal then unat ?a else 0)"
  proof (cases islocal)
    case True
    with mv have sub: "PoolSub (c + HoldingPoolAddend) ?a s = (Inr (), u)"
      and q: "q = p'\<lparr>pAmount := pAmount p' + ?a\<rparr>" and le: "unat (pAmount p') + unat ?a < 2 ^ 64"
      by (auto simp: bnd_Inr ret_run err_run split: if_splits)
    have "dexInv c F d X (h - int d) s" using inv True by (simp add: deposited_def)
    from hoareD [OF holding_debit this sub] show ?thesis
      using True p' unat_add_exact [OF le] by (simp add: q algebra_simps)
  next
    case False
    with mv have "u = s" "q = p'" by (simp_all add: ret_run)
    with inv False p' show ?thesis by (auto simp: deposited_def dexInv_def)
  qed
  with dexInv_events [OF _ ev] inv x show ?thesis by (auto simp: deposited_def res)
qed

lemma deposit_loop:
  assumes "fold_m (payDeposit c islocal tdl td) ds z s = (Inr res, t)"
    and "deposited c F islocal X x0 h d z s"
  shows "deposited c F islocal X x0 h (d + depositEscrow ds) res t"
  using assms
proof (induction ds arbitrary: z s d)
  case Nil
  then show ?case by (simp add: ret_run depositEscrow_def)
next
  case (Cons w ds)
  obtain z1 u where step: "payDeposit c islocal tdl td w z s = (Inr z1, u)"
    and rest: "fold_m (payDeposit c islocal tdl td) ds z1 u = (Inr res, t)"
    using Cons.prems(1) by (auto simp: bnd_Inr)
  have "deposited c F islocal X x0 h (d + unat (ddAmount w)) z1 u"
    using payDeposit_run step Cons.prems(2) by (cases z) blast
  from Cons.IH [OF rest this] show ?case by (simp add: depositEscrow_def add.assoc)
qed

lemma HandleBatchDeposit_cases:
  assumes run: "HandleBatchDeposit b c x y islocal s = (Inr res, t)"
  obtains "res = (x, y)" "t = s"
    | q L tdl td p x' dist p' u where "initialPoints x y (poolAt s (c + LiquidityPoolAddend)) = Inr (q, L)"
      "fold_m (payDeposit c islocal tdl td) (dbDeposits b) (q, x, 0) s = (Inr (p, x', dist), u)"
      "AddPoints deadAddr (tdl - dist) p = (Inr (), p')"
      "t = u\<lparr>pools := putPool p' (pools u)\<rparr>" "res = (x', y)"
proof -
  let ?lp = "poolAt s (c + LiquidityPoolAddend)"
  show thesis
  proof (cases "dbDeposits b = []")
    case True
    with run show thesis by (intro that(1)) (simp_all add: HandleBatchDeposit_def ret_run)
  next
    case ne: False
    obtain td where td: "sumDeposits (dbDeposits b) 0 = Inr td"
      using run ne by (cases "sumDeposits (dbDeposits b) 0")
        (simp_all add: HandleBatchDeposit_def GetPool_def bnd_def gets_run err_run)
    show thesis
    proof (cases "td = 0 \<or> x = 0 \<or> y = 0")
      case True
      with run ne td show thesis
        by (intro that(1)) (auto simp: HandleBatchDeposit_def GetPool_def bnd_def gets_run ret_run)
    next
      case False
      obtain q L where ip: "initialPoints x y ?lp = Inr (q, L)"
        using run ne td False by (cases "initialPoints x y ?lp")
          (auto simp: HandleBatchDeposit_def GetPool_def bnd_def gets_run err_run)
      let ?tdl = "SafeMulDiv L (SqrtProductUint64 (x + td) y - SqrtProductUint64 x y) (SqrtProductUint64 x y)"
      from run ne td False ip obtain p x' dist u where
        loop: "fold_m (payDeposit c islocal ?tdl td) (dbDeposits b) (q, x, 0) s = (Inr (p, x', dist), u)"
        and post: "(case AddPoints deadAddr (?tdl - dist) p of
                    (Inl e, _) \<Rightarrow> err e
                  | (Inr _, p') \<Rightarrow> bnd (SetPool p') (\<lambda>_. ret (x', y))) u = (Inr res, t)"
        unfolding HandleBatchDeposit_def
        by (auto simp: GetPool_def bnd_Inr gets_run AddUint64_def Let_def err_run split: if_splits)
      obtain p' where "AddPoints deadAddr (?tdl - dist) p = (Inr (), p')"
        using post by (auto simp: err_run split: prod.splits sum.splits)
      with post show thesis
        by (intro that(2) [OF ip loop]) (auto simp: bnd_def SetPool_run ret_run)
    qed
  qed
qed

lemma HandleBatchDeposit_ledger:
  "hoare (dexInv c F 0 (if islocal then x else y) h) (HandleBatchDeposit b c x y islocal)
     (\<lambda>(x', y'). dexInv c F 0 (if islocal then x' else y') (h - (if islocal then int (depositEscrow (dbDeposits b)) else 0)))"
proof (rule hoareI)
  fix s res t
  assume pre: "dexInv c F 0 (if islocal then x else y) h s"
    and run: "HandleBatchDeposit b c x y islocal s = (Inr res, t)"
  let ?D = "depositEscrow (dbDeposits b)" and ?X = "if islocal then x else y"
  from run show "(case res of (x', y') \<Rightarrow> dexInv c F 0 (if islocal then x' else y') (h - (if islocal then int ?D else 0))) t"
  proof (cases rule: HandleBatchDeposit_cases)
    case 1
    with pre show ?thesis by (auto simp: dexInv_def)
  next
    case (2 q L tdl td p x' dist p' u)
    have "points_ok q \<and> pId q = c + LiquidityPoolAddend \<and> pAmount q = ?X"
      using initialPoints_effect [OF _ 2(1)] pre by (simp add: dexInv_def)
    then have "deposited c F islocal ?X x h 0 (q, x, 0) s"
      using pre by (cases islocal) (simp_all add: deposited_def)
    from deposit_loop [OF 2(2) this] have d: "deposited c F islocal ?X x h ?D (p, x', dist) u" by simp
    have p': "points_ok p' \<and> pId p' = pId p \<and> pAmount p' = pAmount p"
      using AddPoints_effect [OF _ 2(3)] d by (simp add: deposited_def)
    have inv: "dexInv c F (if islocal then ?D else 0) ?X (h - (if islocal then int ?D else 0)) u"
      and amt: "unat (pAmount p') = unat ?X + (if islocal then ?D else 0)" "unat x' = unat x + ?D"
      and id: "pId p' = c + LiquidityPoolAddend"
      using d p' by (simp_all add: deposited_def)
    have sum: "tokens u + unat (pAmount p') = unat (sTotal (supplyTracker u)) + unat (pAmount (poolAt u (c + LiquidityPoolAddend)))"
      using inv amt(1) by (simp add: dexInv_def inflight_def)
    have "dexInv c F 0 (pAmount p') (h - (if islocal then int ?D else 0)) t"
      unfolding 2(4) by (rule SetPool_settles [OF _ _ _ id _ _ sum])
        (use inv p' in \<open>auto simp: dexInv_def inflight_def\<close>)
    moreover have "pAmount p' = (if islocal then x' else y)"
      using amt by (simp add: word_unat_eq_iff)
    ultimately show ?thesis by (simp add: 2(5))
  qed
qed

section \<open>The batch lifecycle\<close>

text \<open>The tokens the batches of chain \<open>c\<close> claim from its holding pool.\<close>

definition batchEscrow :: "dexBatch \<Rightarrow> nat" where
  "batchEscrow b = orderEscrow (dbOrders b) + depositEscrow (dbDeposits b)"

definition escrowIn :: "(u64, dexBatch) table \<Rightarrow> u64 \<Rightarrow> nat" where
  "escrowIn t c = (case tget t c of None \<Rightarrow> 0 | Some b \<Rightarrow> batchEscrow b)"

definition claims :: "u64 \<Rightarrow> dexFrame \<Rightarrow> int" where
  "claims c F = int (escrowIn (fst F) c) + int (escrowIn (fst (snd F)) c)"

lemma escrow_empty: "DexBatch_IsEmpty b \<Longrightarrow> batchEscrow b = 0"
  by (simp add: DexBatch_IsEmpty_def batchEscrow_def orderEscrow_def depositEscrow_def)

lemma escrow_zero: "batchEscrow zeroBatch = 0"
  by (rule escrow_empty) (simp add: DexBatch_IsEmpty_def zeroBatch_def)

lemma escrow_batchAt: "batchEscrow (batchAt s l c) = escrowIn (if l then lockedBatches s else nextBatches s) c"
  using escrow_zero
  by (auto simp: batchAt_def storedBatch_def escrowIn_def batchEscrow_def zeroBatch_def orderEscrow_def depositEscrow_def
      split: option.splits)

lemma claims_updates:
  "claims c (tset c b L, N, p) = int (batchEscrow b) + int (escrowIn N c)"
  "claims c (tdel c L, N, p) = int (escrowIn N c)"
  "claims c (L, tdel c N, p) = int (escrowIn L c)"
  by (simp_all add: claims_def escrowIn_def table_simps)

text \<open>The surplus of the holding pool over the claims of the batches.\<close>

definition dexLedger :: "u64 \<Rightarrow> int \<Rightarrow> bytes option \<Rightarrow> state \<Rightarrow> bool" where
  "dexLedger c e bh s \<longleftrightarrow> prevBlockHash s = bh \<and>
     dexInv c (frameOf s) 0 (pAmount (poolAt s (c + LiquidityPoolAddend))) (e + claims c (frameOf s)) s"

lemma dexLedgerI:
  assumes "dexInv c F 0 X h s" and "e + claims c F \<le> h" and "snd (snd F) = bh"
  shows "dexLedger c e bh s"
proof -
  have "frameOf s = F" using assms(1) by (simp add: dexInv_def)
  with assms show ?thesis by (auto simp: dexLedger_def dexInv_def frameOf_def)
qed

definition percentsOk :: "dexBatch \<Rightarrow> bool" where
  "percentsOk b = list_all (\<lambda>w. dwPercent w \<le> 100) (dbWithdrawals b)"

lemma GetPoolBalance_run: "GetPoolBalance i s = (Inr (pAmount (poolAt s i)), s)"
  by (simp add: GetPoolBalance_def GetPool_def go_simps)

lemma GetDexBatch_run: "GetDexBatch c l False s = (Inr (batchAt s l c), s)"
  by (simp add: GetDexBatch_def gets_run Let_def)

lemma settle_batch_ledger:
  assumes "percentsOk lb"
  shows "hoare (dexInv c F 0 x h)
     (bnd (HandleOrderReceipts lb rb c x y) (\<lambda>(x, y).
       bnd (HandleBatchWithdraw lb c x y True) (\<lambda>(x, y).
       bnd (HandleBatchDeposit lb c x y True) (\<lambda>(x, y).
       bnd (DeleteDexBatch True c) (\<lambda>_. ret (False, y))))))
     (\<lambda>r s. fst r = False \<and> (\<exists>X. dexInv c (tdel c (fst F), snd F) 0 X (h - int (batchEscrow lb)) s))"
proof -
  have del: "hoare (dexInv c F 0 X k) (DeleteDexBatch True c) (\<lambda>_. dexInv c (tdel c (fst F), snd F) 0 X k)" for X k
    by (auto simp: hoare_def DeleteDexBatch_def modify_run dexInv_def frameOf_def poolAt_def inflight_def wf_def token_defs)
  have rcpt: "hoare (dexInv c F 0 x h) (HandleOrderReceipts lb rb c x y)
      (\<lambda>(x', y'). dexInv c F 0 x' (h - int (orderEscrow (dbOrders lb))))"
    unfolding HandleOrderReceipts_def by (rule settle_orders)
  have wd: "hoare (dexInv c F 0 x h) (HandleBatchWithdraw lb c x y True) (\<lambda>(x', y'). dexInv c F 0 x' h)" for x y h
    using HandleBatchWithdraw_ledger [of lb c F True x y h] assms by (simp add: percentsOk_def list_all_iff)
  have dp: "hoare (dexInv c F 0 x h) (HandleBatchDeposit lb c x y True)
      (\<lambda>(x', y'). dexInv c F 0 x' (h - int (depositEscrow (dbDeposits lb))))" for x y h
    using HandleBatchDeposit_ledger [of c F True x y h lb] by simp
  show ?thesis
    apply (rule hoare_bnd [OF rcpt])
    apply (clarsimp split: prod.splits)
    apply (rule hoare_bnd [OF wd])
    apply (clarsimp split: prod.splits)
    apply (rule hoare_bnd [OF dp])
    apply (clarsimp split: prod.splits)
    apply (rule hoare_bnd [OF del])
    apply (rule hoare_ret)
    apply (auto simp: batchEscrow_def algebra_simps)
    done
qed

lemma HandleReceipts_ledger:
  assumes pre: "dexLedger c e bh s" and pct: "percentsOk (batchAt s True c)"
    and run: "HandleReceiptsForOurLockedBatch cd rb m c s = (Inr (locked, m'), t)"
  shows "dexLedger c e bh t"
proof -
  let ?lb = "batchAt s True c"
  consider "t = s" | "bnd (HandleOrderReceipts ?lb rb c (pAmount (poolAt s (c + LiquidityPoolAddend))) m) (\<lambda>(x, y).
       bnd (HandleBatchWithdraw ?lb c x y True) (\<lambda>(x, y).
       bnd (HandleBatchDeposit ?lb c x y True) (\<lambda>(x, y).
       bnd (DeleteDexBatch True c) (\<lambda>_. ret (False, y))))) s = (Inr (locked, m'), t)"
    using run unfolding HandleReceiptsForOurLockedBatch_def
    by (simp add: bnd_run [of "GetDexBatch _ _ _"] bnd_run [of "GetPoolBalance _"] GetDexBatch_run GetPoolBalance_run
        ret_run split: if_splits)
  then show ?thesis
  proof cases
    case 1
    with pre show ?thesis by simp
  next
    case 2
    let ?F = "frameOf s"
    have inv: "dexInv c ?F 0 (pAmount (poolAt s (c + LiquidityPoolAddend))) (e + claims c ?F) s"
      using pre by (simp add: dexLedger_def)
    from hoareD [OF settle_batch_ledger [OF pct] inv 2] obtain X where
      post: "dexInv c (tdel c (fst ?F), snd ?F) 0 X (e + claims c ?F - int (batchEscrow ?lb)) t" by blast
    have "claims c (tdel c (fst ?F), snd ?F) = claims c ?F - int (batchEscrow ?lb)"
      by (simp add: frameOf_def claims_updates escrow_batchAt) (simp add: claims_def)
    then show ?thesis using pre by (intro dexLedgerI [OF post]) (simp_all add: dexLedger_def frameOf_def)
  qed
qed

lemma HandleRemoteChain_ledger:
  assumes pct: "percentsOk rb" and keys: "keysDistinct cd rb bh"
  shows "hoare (dexLedger c e bh) (HandleRemoteChainLockedBatch cd rb m c) (\<lambda>_. dexLedger c e bh)"
proof (rule hoareI)
  fix s res t
  assume pre: "dexLedger c e bh s" and run: "HandleRemoteChainLockedBatch cd rb m c s = (Inr res, t)"
  let ?F = "frameOf s" and ?X = "pAmount (poolAt s (c + LiquidityPoolAddend))"
  let ?h = "e + claims c ?F"
  have k: "keysDistinct cd rb (snd (snd ?F))" using keys pre by (simp add: dexLedger_def frameOf_def)
  have wd: "hoare (dexInv c ?F 0 y h) (HandleBatchWithdraw rb c x y False) (\<lambda>(x', y'). dexInv c ?F 0 y' h)" for x y h
    using HandleBatchWithdraw_ledger [of rb c ?F False x y h] pct by (simp add: percentsOk_def list_all_iff)
  have dp: "hoare (dexInv c ?F 0 y h) (HandleBatchDeposit rb c x y False) (\<lambda>(x', y'). dexInv c ?F 0 y' h)" for x y h
    using HandleBatchDeposit_ledger [of c ?F False x y h rb] by simp
  obtain rs x y u x1 y1 v x2 y2 where steps:
    "HandleDexBatchOrders cd rb m ?X c s = (Inr (rs, x, y), u)"
    "HandleBatchWithdraw rb c x y False u = (Inr (x1, y1), v)"
    "HandleBatchDeposit rb c x1 y1 False v = (Inr (x2, y2), t)"
    using run unfolding HandleRemoteChainLockedBatch_def
    by (auto simp: bnd_Inr GetPoolBalance_run ret_run)
  have "dexInv c ?F 0 ?X ?h s" using pre by (simp add: dexLedger_def)
  then have "dexInv c ?F 0 y ?h u"
    using hoareD [OF HandleDexBatchOrders_ledger [OF k] _ steps(1)] by simp
  then have "dexInv c ?F 0 y1 ?h v" using hoareD [OF wd _ steps(2)] by simp
  then have post: "dexInv c ?F 0 y2 ?h t" using hoareD [OF dp _ steps(3)] by simp
  show "dexLedger c e bh t"
    using pre by (intro dexLedgerI [OF post]) (simp_all add: dexLedger_def frameOf_def)
qed

lemma dexInv_tables:
  assumes "dexInv c F d X h s"
  shows "dexInv c (L, N, snd (snd F)) d X h (s\<lparr>nextBatches := N, lockedBatches := L\<rparr>)"
  using assms by (auto simp: dexInv_def frameOf_def poolAt_def inflight_def wf_def token_defs)

lemma Rotate_ledger: "hoare (dexLedger c e bh) (RotateDexBatches rh l m c rs) (\<lambda>_. dexLedger c e bh)"
proof (rule hoareI)
  fix s r t
  assume pre: "dexLedger c e bh s" and run: "RotateDexBatches rh l m c rs s = (Inr r, t)"
  let ?F = "frameOf s"
  have inv: "dexInv c ?F 0 (pAmount (poolAt s (c + LiquidityPoolAddend))) (e + claims c ?F) s"
    using pre by (simp add: dexLedger_def)
  show "dexLedger c e bh t"
  proof (cases "DexBatch_IsEmpty (batchAt s True c)")
    case False
    with run pre show ?thesis by (simp add: RotateDexBatches_def bnd_def GetDexBatch_run ret_run)
  next
    case True
    define nb where "nb = (let n1 = (batchAt s False c)\<lparr>dbPoolSize := l, dbReceiptHash := rh,
             dbCounterPoolSize := m, dbLockedHeight := height s\<rparr> in if rs \<noteq> [] then n1\<lparr>dbReceipts := rs\<rparr> else n1)"
    have t: "t = s\<lparr>nextBatches := tdel c (nextBatches s), lockedBatches := tset c nb (lockedBatches s)\<rparr>"
      using run True
      by (simp add: RotateDexBatches_def bnd_def GetDexBatch_run gets_run Let_def nb_def [unfolded Let_def, symmetric]
          DeleteDexBatch_def SetDexBatch_def modify_run ret_run)
    have nb: "batchEscrow nb = escrowIn (nextBatches s) c"
      using escrow_batchAt [of s False c] by (simp add: nb_def Let_def batchEscrow_def)
    have "escrowIn (lockedBatches s) c = 0"
      using escrow_batchAt [of s True c] escrow_empty [OF True] by simp
    then have "claims c (tset c nb (lockedBatches s), tdel c (nextBatches s), prevBlockHash s) = claims c ?F"
      by (simp add: claims_def frameOf_def escrowIn_def [of "tset _ _ _"] escrowIn_def [of "tdel _ _"] table_simps nb)
    with dexInv_tables [OF inv, of "tset c nb (lockedBatches s)" "tdel c (nextBatches s)"] pre show ?thesis
      unfolding t by (intro dexLedgerI) (auto simp: frameOf_def dexLedger_def)
  qed
qed

lemma HandleRemoteDexBatch_ledger:
  assumes pre: "dexLedger c e bh s" and local: "percentsOk (batchAt s True c)"
    and remote: "percentsOk rb" "keysDistinct cd rb bh"
    and run: "HandleRemoteDexBatch cd rb c s = (Inr r, t)"
  shows "dexLedger c e bh t"
proof (cases "DexBatch_IsEmpty rb")
  case True
  with run hoareD [OF Rotate_ledger pre] show ?thesis
    by (auto simp: HandleRemoteDexBatch_def bnd_def GetPoolBalance_run Let_def)
next
  case False
  have copy: "percentsOk (DexBatch_Copy rb)" "keysDistinct cd (DexBatch_Copy rb) bh"
    using remote by (simp_all add: percentsOk_def keysDistinct_def DexBatch_Copy_def CopyOrders_def split: option.splits)
  obtain locked m u where rc: "HandleReceiptsForOurLockedBatch cd (DexBatch_Copy rb) (dbPoolSize rb) c s = (Inr (locked, m), u)"
    and rest: "(if locked then ret () else bnd (GetPoolBalance (c + LiquidityPoolAddend)) (\<lambda>midPoint.
          bnd (HandleRemoteChainLockedBatch cd (DexBatch_Copy rb) m c) (\<lambda>(receipts, mirror').
          RotateDexBatches (DexBatch_Hash cd (rb\<lparr>dbLivenessFallback := False\<rparr>)) midPoint mirror' c receipts))) u = (Inr r, t)"
    using run False unfolding HandleRemoteDexBatch_def by (auto simp: bnd_Inr GetPoolBalance_run Let_def)
  have u: "dexLedger c e bh u" by (rule HandleReceipts_ledger [OF pre local rc])
  have "hoare (dexLedger c e bh) (if locked then ret () else bnd (GetPoolBalance (c + LiquidityPoolAddend)) (\<lambda>midPoint.
          bnd (HandleRemoteChainLockedBatch cd (DexBatch_Copy rb) m c) (\<lambda>(receipts, mirror').
          RotateDexBatches (DexBatch_Hash cd (rb\<lparr>dbLivenessFallback := False\<rparr>)) midPoint mirror' c receipts)))
        (\<lambda>_. dexLedger c e bh)"
    by (intro hoare_if hoare_ret hoare_bnd [OF _ hoare_bnd [OF HandleRemoteChain_ledger [OF copy]]])
      (auto simp: hoare_def GetPoolBalance_run Rotate_ledger [unfolded hoare_def, rule_format])
  from hoareD [OF this u rest] show ?thesis .
qed

subsection \<open>The liveness fallback\<close>

text \<open>The liquidity points the fallback takes over from the root chain.\<close>

definition mirrorOk :: "dexBatch \<Rightarrow> bool" where
  "mirrorOk b = points_ok \<lparr>pId = 0, pAmount = 0, pPoints = dbPoolPoints b, pTotalPoolPoints = dbTotalPoolPoints b\<rparr>"

lemma refund_ledger: "hoare (dexInv c F 0 x h) (refund c a n) (\<lambda>_. dexInv c F 0 x (h - int (unat n)))"
  unfolding refund_def
  by (intro hoare_seqm_Cons hoare_seqm_Nil)
    (use holding_debit [of c F 0 x h n] account_credit [of c F 0 n x "h - int (unat n)" a] in auto)

lemma refunds_ledger:
  "hoare (dexInv c F 0 x h) (for_each os (\<lambda>k. refund c (f k) (g k)))
     (\<lambda>_. dexInv c F 0 x (h - int (sum_list (map (unat \<circ> g) os))))"
proof (induction os arbitrary: h)
  case Nil
  then show ?case by (auto intro: hoare_ret)
next
  case (Cons k os)
  show ?case
    unfolding for_each.simps
    by (rule hoare_bnd [OF refund_ledger])
      (use Cons.IH [of "h - int (unat (g k))"] in \<open>simp add: algebra_simps\<close>)
qed

lemma SetPoolPoints_ledger:
  assumes "mirrorOk b"
  shows "hoare (dexInv c F 0 x h) (SetPoolPoints (c + LiquidityPoolAddend) (dbPoolPoints b) (dbTotalPoolPoints b))
     (\<lambda>_. dexInv c F 0 x h)"
proof (rule hoareI)
  fix s r t
  assume pre: "dexInv c F 0 x h s"
    and run: "SetPoolPoints (c + LiquidityPoolAddend) (dbPoolPoints b) (dbTotalPoolPoints b) s = (Inr r, t)"
  let ?p = "(poolAt s (c + LiquidityPoolAddend))\<lparr>pPoints := dbPoolPoints b, pTotalPoolPoints := dbTotalPoolPoints b\<rparr>"
  have t: "t = s\<lparr>pools := putPool ?p (pools s)\<rparr>"
    using run by (simp add: SetPoolPoints_def GetPool_def bnd_def gets_run SetPool_run)
  have "dexInv c F 0 (pAmount ?p) h t"
    unfolding t
    by (rule SetPool_settles) (use pre assms in \<open>auto simp: dexInv_def inflight_def mirrorOk_def points_ok_def\<close>)
  then show "dexInv c F 0 x h t" using pre by (simp add: dexInv_def)
qed

lemma HandleLivenessFallback_ledger:
  assumes pre: "dexLedger c e bh s" and mirror: "mirrorOk rb"
    and run: "HandleLivenessFallback c (batchAt s True c) rb s = (Inr r, t)"
  shows "dexLedger c e bh t \<and> percentsOk (batchAt t True c)"
proof -
  let ?F = "frameOf s" and ?lb = "batchAt s True c"
  let ?h = "e + claims c ?F"
  have inv: "dexInv c ?F 0 (pAmount (poolAt s (c + LiquidityPoolAddend))) ?h s"
    using pre by (simp add: dexLedger_def)
  obtain u where u: "seqm [for_each (dbOrders ?lb) (\<lambda>order. refund c (dlAddress order) (dlAmountForSale order)),
       for_each (dbDeposits ?lb) (\<lambda>d. refund c (ddAddress d) (ddAmount d)),
       SetPoolPoints (c + LiquidityPoolAddend) (dbPoolPoints rb) (dbTotalPoolPoints rb)] s = (Inr (), u)"
    and t: "t = u\<lparr>lockedBatches := tset c zeroBatch (lockedBatches u)\<rparr>"
    using run unfolding HandleLivenessFallback_def
    by (auto simp: bnd_Inr SetDexBatch_def modify_run ret_run)
  have "hoare (dexInv c ?F 0 X ?h) (seqm [for_each (dbOrders ?lb) (\<lambda>order. refund c (dlAddress order) (dlAmountForSale order)),
       for_each (dbDeposits ?lb) (\<lambda>d. refund c (ddAddress d) (ddAmount d)),
       SetPoolPoints (c + LiquidityPoolAddend) (dbPoolPoints rb) (dbTotalPoolPoints rb)])
       (\<lambda>_. dexInv c ?F 0 X (?h - int (orderEscrow (dbOrders ?lb)) - int (depositEscrow (dbDeposits ?lb))))" for X
    unfolding orderEscrow_def depositEscrow_def
    by (intro hoare_seqm_Cons [OF refunds_ledger] hoare_seqm_Cons [OF SetPoolPoints_ledger [OF mirror]] hoare_seqm_Nil)
  from hoareD [OF this inv u] have fin: "dexInv c ?F 0 (pAmount (poolAt s (c + LiquidityPoolAddend))) (?h - int (batchEscrow ?lb)) u"
    by (simp add: batchEscrow_def algebra_simps)
  then have F: "frameOf u = ?F" by (simp add: dexInv_def)
  have cl: "claims c (tset c zeroBatch (lockedBatches s), nextBatches s, prevBlockHash s) = claims c ?F - int (batchEscrow ?lb)"
    by (simp add: claims_updates escrow_zero escrow_batchAt) (simp add: claims_def frameOf_def)
  have "dexInv c (tset c zeroBatch (lockedBatches s), nextBatches s, prevBlockHash s) 0
      (pAmount (poolAt s (c + LiquidityPoolAddend))) (?h - int (batchEscrow ?lb)) t"
    using dexInv_tables [OF fin, of "tset c zeroBatch (lockedBatches u)" "nextBatches u"] F
    by (simp add: t frameOf_def)
  then have "dexLedger c e bh t"
    by (rule dexLedgerI) (use cl pre in \<open>auto simp: dexLedger_def\<close>)
  moreover have "percentsOk (batchAt t True c)"
    by (simp add: t batchAt_def storedBatch_def table_simps percentsOk_def zeroBatch_def)
  ultimately show ?thesis by blast
qed

subsection \<open>The whole lifecycle\<close>

definition counterChain :: "u64 \<Rightarrow> bool \<Rightarrow> state \<Rightarrow> u64" where
  "counterChain chainId isNested s = (if isNested then cpRootChainId (paramsCons s) else chainId)"

definition remoteOf :: "certificateResult \<Rightarrow> bool \<Rightarrow> state \<Rightarrow> dexBatch option" where
  "remoteOf results isNested s = (if isNested
     then (case crRootDexBatch results of None \<Rightarrow> None
           | Some b \<Rightarrow> if dbLivenessFallback b then Some b else rootDexBatch s)
     else crDexBatch results)"

lemma HandleDexBatch_ledger:
  assumes pre: "dexLedger c e bh s" and c: "c = counterChain chainId isNested s"
    and local: "percentsOk (batchAt s True c)"
    and remote: "\<And>b. remoteOf results isNested s = Some b \<Longrightarrow> percentsOk b \<and> keysDistinct cd b bh \<and> (dbLivenessFallback b \<longrightarrow> mirrorOk b)"
    and run: "HandleDexBatch cd chainId results isNested s = (Inr r, t)"
  shows "dexLedger c e bh t"
proof -
  have run': "(case remoteOf results isNested s of
       None \<Rightarrow> ret ()
     | Some remoteBatch \<Rightarrow>
         if pAmount (poolAt s (c + LiquidityPoolAddend)) = 0 then ret ()
         else seqm [
           when_m (dbLivenessFallback remoteBatch) (HandleLivenessFallback c (batchAt s True c) remoteBatch),
           HandleRemoteDexBatch cd remoteBatch c]) s = (Inr r, t)"
    using run unfolding HandleDexBatch_def c
    by (cases isNested; cases "crRootDexBatch results"; cases "crDexBatch results"; cases "rootDexBatch s")
      (simp_all add: bnd_def counterChain_def remoteOf_def GetRootChainId_def GetParamsCons_def gets_run ret_run
        GetPoolBalance_run GetDexBatch_run split: if_splits)
  show ?thesis
  proof (cases "remoteOf results isNested s")
    case None
    with run' pre show ?thesis by (simp add: ret_run)
  next
    case (Some b)
    note rb = remote [OF Some]
    show ?thesis
    proof (cases "pAmount (poolAt s (c + LiquidityPoolAddend)) = 0")
      case True
      with run' Some pre show ?thesis by (simp add: ret_run)
    next
      case False
      with run' Some obtain u where u: "when_m (dbLivenessFallback b) (HandleLivenessFallback c (batchAt s True c) b) s = (Inr (), u)"
        and v: "HandleRemoteDexBatch cd b c u = (Inr (), t)"
        by (auto simp: bnd_Inr ret_run)
      have "dexLedger c e bh u \<and> percentsOk (batchAt u True c)"
        using u rb pre local HandleLivenessFallback_ledger [OF pre, of b "()" u]
        by (auto simp: when_m_run split: if_splits)
      then show ?thesis using HandleRemoteDexBatch_ledger [OF _ _ _ _ v] rb by blast
    qed
  qed
qed

section \<open>Properties\<close>

lemma payReceipts_result:
  "fold_m (payReceipt c r) os rs s = (Inr rs', t) \<Longrightarrow> rs' = rs @ map (r \<circ> okKey) os"
proof (induction os arbitrary: rs s)
  case Nil
  then show ?case by (simp add: ret_run)
next
  case (Cons k os)
  obtain rs1 u where step: "payReceipt c r k rs s = (Inr rs1, u)"
    and rest: "fold_m (payReceipt c r) os rs1 u = (Inr rs', t)"
    using Cons.prems by (auto simp: bnd_Inr)
  have "rs1 = rs @ [r (okKey k)]"
    using step by (auto simp: payReceipt_def Let_def bnd_Inr ret_run split: if_splits)
  with Cons.IH [OF rest] show ?case by simp
qed

lemma CopyOrders_orders: "map okOrder (fst (CopyOrders cd b bh)) = map DexLimitOrder_Copy (dbOrders b)"
  by (rule nth_equalityI) (simp_all add: CopyOrders_def Let_def nth_enumerate_eq)

text \<open>
  C22: Executing a batch of limit orders against the reserves keeps the constant product: the product of
  the reserves never falls, the local reserve never runs dry and goes down by exactly what the receipts
  pay, the counter reserve goes up by exactly what the filled orders sell, there is one receipt per order,
  and a receipt is either zero or at least what its order asked for.
\<close>

theorem dex_orders_constant_product:
  assumes keys: "keysDistinct cd b (prevBlockHash s)"
    and run: "HandleDexBatchOrders cd b x y c s = (Inr (rs, x', y'), t)"
  shows "unat x * unat y \<le> unat x' * unat y' \<and> y' \<noteq> 0 \<and>
    unat y' + sum_list (map unat rs) = unat y \<and>
    unat x' = unat x + sum_list (map (\<lambda>(k, r). if r \<noteq> 0 then unat (dlAmountForSale k) else 0) (zip (dbOrders b) rs)) \<and>
    list_all2 (\<lambda>k r. r = 0 \<or> dlRequestedAmount k \<le> r) (dbOrders b) rs"
proof -
  obtain bh os r u where "prevBlockHash s = Some bh" and os: "os = fst (CopyOrders cd b bh)" and "eventsOnly s u"
    and pay: "fold_m (payReceipt c r) os [] u = (Inr rs, t)" and "x \<noteq> 0" "y \<noteq> 0"
    and hon: "\<forall>k \<in> set os. honoured r k" and x': "unat x' = unat x + sold r os"
    and y': "unat y' + filled r os = unat y" "y' \<noteq> 0" and prod: "unat x * unat y \<le> unat x' * unat y'"
    by (rule HandleDexBatchOrders_run [OF run keys])
  have rs: "rs = map (r \<circ> okKey) os" using payReceipts_result [OF pay] by simp
  have len: "length os = length (dbOrders b)"
    using arg_cong [OF CopyOrders_orders, of length cd b bh] by (simp add: os)
  have at: "okOrder (os ! i) = DexLimitOrder_Copy (dbOrders b ! i)" if "i < length os" for i
    using arg_cong [OF CopyOrders_orders, of "\<lambda>l. l ! i" cd b bh] that len by (simp add: os)
  have "list_all2 (\<lambda>k r. r = 0 \<or> dlRequestedAmount k \<le> r) (dbOrders b) rs"
    unfolding list_all2_conv_all_nth rs using hon at len
    by (fastforce simp: honoured_def DexLimitOrder_Copy_def)
  moreover have "map (\<lambda>(k, r). if r \<noteq> 0 then unat (dlAmountForSale k) else 0) (zip (dbOrders b) rs)
      = map (\<lambda>k. if r (okKey k) \<noteq> 0 then unat (dlAmountForSale (okOrder k)) else 0) os"
    using at len by (intro nth_equalityI) (auto simp: rs DexLimitOrder_Copy_def)
  moreover have "map unat rs = map (\<lambda>k. unat (r (okKey k))) os" by (simp add: rs)
  ultimately show ?thesis using prod y' x' by (simp add: sold_def filled_def)
qed

text \<open>
  A state in the middle of the exchange with chain 2: 40 tokens of liquidity, 5 tokens of a locked order
  in the holding pool, and a remote batch that answers it and brings an order, a deposit and a withdrawal.
\<close>

definition dexCodecEx :: dexCodec where
  "dexCodecEx = \<lparr>dxHash = (\<lambda>b. b), dxHashString = map (char_of \<circ> unat), dxMarshalBatch = (\<lambda>b. [of_nat (length (dbOrders b))]),
     dxMarshalOrder = (\<lambda>k. [])\<rparr>"

definition dexLocal :: dexBatch where
  "dexLocal = zeroBatch\<lparr>dbCommittee := 2, dbReceiptHash := [3], dbOrders := [\<lparr>dlAmountForSale = 5, dlRequestedAmount = 1,
     dlAddress = Addr [1], dlOrderId = [8]\<rparr>]\<rparr>"

definition dexRemote :: dexBatch where
  "dexRemote = zeroBatch\<lparr>dbCommittee := 1, dbReceiptHash := [1], dbReceipts := [3], dbPoolSize := 50,
     dbOrders := [\<lparr>dlAmountForSale = 10, dlRequestedAmount = 1, dlAddress = Addr [4], dlOrderId = [6]\<rparr>],
     dbDeposits := [\<lparr>ddAddress = Addr [4], ddAmount = 4, ddOrderId = [7]\<rparr>],
     dbWithdrawals := [\<lparr>dwAddress = Addr [1], dwPercent = 50, dwOrderId = [5]\<rparr>]\<rparr>"

definition dexState :: state where
  "dexState = exampleState\<lparr>lockedBatches := [(2, dexLocal)],
     accounts := [(Addr [1], (emptyAccount (Addr [1]))\<lparr>acAmount := 15\<rparr>)],
     pools := [(1, \<lparr>pId = 1, pAmount = 10, pPoints = [], pTotalPoolPoints = 0\<rparr>),
       (16385, \<lparr>pId = 16385, pAmount = 5, pPoints = [], pTotalPoolPoints = 0\<rparr>),
       (32769, \<lparr>pId = 32769, pAmount = 40, pPoints = [\<lparr>ppAddress = Addr [1], ppPoints = 20\<rparr>],
          pTotalPoolPoints = 20\<rparr>)]\<rparr>"

definition dexResults :: certificateResult where
  "dexResults = \<lparr>crRewardRecipients = None, crSlashRecipients = None, crOrders = None, crCheckpoint = None,
     crRetired = False, crDexBatch = Some dexRemote, crRootDexBatch = None\<rparr>"

lemmas dex_example = dexState_def dexLocal_def dexRemote_def dexResults_def dexCodecEx_def zeroBatch_def
  exampleState_def exampleSupply_def emptyAccount_def

lemma bigSqrt_eval: "bigSqrt 0 = 0" "bigSqrt 1 = 1"
  "bigSqrt (numeral n) = (let r = 2 * bigSqrt (numeral n div 4) in if (r + 1) * (r + 1) \<le> numeral n then r + 1 else r)"
proof -
  show z: "bigSqrt 0 = 0" by (simp add: bigSqrt.simps [of 0])
  show "bigSqrt 1 = 1" by (subst bigSqrt.simps) (simp add: z)
  show "bigSqrt (numeral n) = (let r = 2 * bigSqrt (numeral n div 4) in if (r + 1) * (r + 1) \<le> numeral n then r + 1 else r)"
    by (subst bigSqrt.simps) simp
qed

lemmas dex_eval = HandleDexBatch_def HandleRemoteDexBatch_def HandleReceiptsForOurLockedBatch_def
  HandleOrderReceipts_def settleOrder_def HandleBatchWithdraw_def payWithdrawal_def HandleBatchDeposit_def payDeposit_def
  initialPoints_def HandleRemoteChainLockedBatch_def HandleDexBatchOrders_def executeOrder_def payReceipt_def
  CopyOrders_def DexLimitOrder_Copy_def DexBatch_Copy_def DexBatch_Hash_def DexBatch_IsEmpty_def HashKey_def
  SafeComputeDY_def AddUint64_def SafeMulDiv_def SqrtProductUint64_def bigSqrt_eval GetPointsFor_def AddPoints_def
  RemovePoints_def RotateDexBatches_def GetDexBatch_def batchAt_def storedBatch_def SetDexBatch_def DeleteDexBatch_def
  GetPoolBalance_def GetPool_def poolAt_def PoolSub_def PoolAdd_def SetPool_def AccountAdd_run accountAt_def putAccount_def
  clearAccountVestingIfFullyVested_def event_defs addEvent_def MaxUint64_def deadAddr_def MaxLiquidityProviders_def
  tset.simps tdel_def pool_ids Let_def go_simps

text \<open>The stages of the example run: a liquidity pool \<open>p\<close>, accounts \<open>A\<close> and no locked batch.\<close>

definition dexStage :: "u64 \<Rightarrow> u64 \<Rightarrow> (address \<times> u64) list \<Rightarrow> event list \<Rightarrow> state" where
  "dexStage amount points A E = exampleState\<lparr>
     accounts := map (\<lambda>(a, n). (a, (emptyAccount a)\<lparr>acAmount := n\<rparr>)) A,
     pools := [(1, \<lparr>pId = 1, pAmount = 10, pPoints = [], pTotalPoolPoints = 0\<rparr>),
       (32769, \<lparr>pId = 32769, pAmount = amount, pPoints = [\<lparr>ppAddress = Addr [1], ppPoints = points\<rparr>],
          pTotalPoolPoints = points\<rparr>)], events := E\<rparr>"

lemma dex_stage1: "\<exists>E. HandleReceiptsForOurLockedBatch dexCodecEx (DexBatch_Copy dexRemote) 50 2 dexState =
    (Inr (False, 47), dexStage 45 20 [(Addr [1], 15)] E)"
  by (simp add: dex_eval dex_example dexStage_def)

lemma dex_stage2: "\<exists>E'. HandleDexBatchOrders dexCodecEx (DexBatch_Copy dexRemote) 47 45 2 (dexStage 45 20 [(Addr [1], 15)] E) =
    (Inr ([7], 57, 38), dexStage 38 20 [(Addr [1], 15), (Addr [4], 7)] E')"
  by (simp add: dex_eval dex_example dexStage_def less_address_def)

lemma dex_stage3: "\<exists>E'. HandleBatchWithdraw (DexBatch_Copy dexRemote) 2 57 38 False (dexStage 38 20 [(Addr [1], 15), (Addr [4], 7)] E) =
    (Inr (29, 19), dexStage 19 10 [(Addr [1], 34), (Addr [4], 7)] E')"
  by (simp add: dex_eval dex_example dexStage_def less_address_def)

lemma dex_stage4: "\<exists>E'. HandleBatchDeposit (DexBatch_Copy dexRemote) 2 29 19 False (dexStage 19 10 [(Addr [1], 34), (Addr [4], 7)] E) =
    (Inr (33, 19), dexStage 19 10 [(Addr [1], 34), (Addr [4], 7)] E')"
  by (simp add: dex_eval dex_example dexStage_def less_address_def)

lemma dex_example_keys: "keysDistinct dexCodecEx dexRemote bh" "percentsOk dexRemote" "percentsOk (batchAt dexState True 2)"
proof -
  show "keysDistinct dexCodecEx dexRemote bh"
    by (simp add: keysDistinct_def CopyOrders_def Let_def dexRemote_def split: option.splits)
  show "percentsOk dexRemote" by (simp add: percentsOk_def dexRemote_def)
  show "percentsOk (batchAt dexState True 2)"
    by (simp add: percentsOk_def batchAt_def storedBatch_def dexState_def dexLocal_def zeroBatch_def)
qed

lemma dex_example_run: "\<exists>t. HandleDexBatch dexCodecEx 2 dexResults False dexState = (Inr (), t)"
proof -
  obtain E1 where s1: "HandleReceiptsForOurLockedBatch dexCodecEx (DexBatch_Copy dexRemote) 50 2 dexState =
      (Inr (False, 47), dexStage 45 20 [(Addr [1], 15)] E1)" using dex_stage1 by blast
  obtain E2 where s2: "HandleDexBatchOrders dexCodecEx (DexBatch_Copy dexRemote) 47 45 2 (dexStage 45 20 [(Addr [1], 15)] E1) =
    (Inr ([7], 57, 38), dexStage 38 20 [(Addr [1], 15), (Addr [4], 7)] E2)" using dex_stage2 by blast
  obtain E3 where s3: "HandleBatchWithdraw (DexBatch_Copy dexRemote) 2 57 38 False (dexStage 38 20 [(Addr [1], 15), (Addr [4], 7)] E2) =
    (Inr (29, 19), dexStage 19 10 [(Addr [1], 34), (Addr [4], 7)] E3)" using dex_stage3 by blast
  obtain E4 where s4: "HandleBatchDeposit (DexBatch_Copy dexRemote) 2 29 19 False (dexStage 19 10 [(Addr [1], 34), (Addr [4], 7)] E3) =
    (Inr (33, 19), dexStage 19 10 [(Addr [1], 34), (Addr [4], 7)] E4)" using dex_stage4 by blast
  have amt: "pAmount (poolAt (dexStage 45 20 [(Addr [1], 15)] E1) (2 + LiquidityPoolAddend)) = 45"
    "pAmount (poolAt dexState (2 + LiquidityPoolAddend)) = 40"
    by (simp_all add: poolAt_def dexStage_def dexState_def pool_ids)
  have rc: "HandleRemoteChainLockedBatch dexCodecEx (DexBatch_Copy dexRemote) 47 2 (dexStage 45 20 [(Addr [1], 15)] E1)
      = (Inr ([7], 33), dexStage 19 10 [(Addr [1], 34), (Addr [4], 7)] E4)"
    unfolding HandleRemoteChainLockedBatch_def
    by (simp add: bnd_run [of "GetPoolBalance _"] GetPoolBalance_run amt bnd_run s2 s3 s4 ret_run)
  have e: "\<not> DexBatch_IsEmpty dexRemote" "\<not> dbLivenessFallback dexRemote" "dbPoolSize dexRemote = 50"
    "crDexBatch dexResults = Some dexRemote"
    by (simp_all add: DexBatch_IsEmpty_def dexRemote_def dexResults_def zeroBatch_def)
  have rot: "\<exists>t. RotateDexBatches h m k 2 rs u = (Inr (), t)" for h m k rs u
    by (simp add: RotateDexBatches_def bnd_def GetDexBatch_run gets_run Let_def DeleteDexBatch_def SetDexBatch_def modify_run ret_run)
  show ?thesis
    using rot by (simp add: HandleDexBatch_def HandleRemoteDexBatch_def Let_def bnd_run GetPoolBalance_run GetDexBatch_run
        ret_run when_m_run e s1 rc amt split: sum.splits) (metis fst_conv sum.inject(2) sum.simps(4) old.sum.distinct(1) snd_conv)
qed

theorem dex_orders_constant_product_witness:
  "\<exists>t. HandleDexBatchOrders dexCodecEx (DexBatch_Copy dexRemote) 47 45 2 (dexStage 45 20 [(Addr [1], 15)] []) = (Inr ([7], 57, 38), t) \<and>
     unat (47 :: u64) * unat (45 :: u64) \<le> unat (57 :: u64) * unat (38 :: u64) \<and> unat (38 :: u64) + sum_list (map unat [7 :: u64]) = unat (45 :: u64)"
proof -
  obtain t where run: "HandleDexBatchOrders dexCodecEx (DexBatch_Copy dexRemote) 47 45 2 (dexStage 45 20 [(Addr [1], 15)] []) =
    (Inr ([7], 57, 38), t)" using dex_stage2 by blast
  have keys: "keysDistinct dexCodecEx (DexBatch_Copy dexRemote) bh" for bh
    by (simp add: keysDistinct_def CopyOrders_def Let_def dexRemote_def DexBatch_Copy_def split: option.splits)
  from dex_orders_constant_product [OF keys run] run show ?thesis by blast
qed

text \<open>What a certificate's checks and a collision free hash give for the batch that is processed.\<close>

definition dexReady :: "dexCodec \<Rightarrow> u64 \<Rightarrow> certificateResult \<Rightarrow> bool \<Rightarrow> state \<Rightarrow> bool" where
  "dexReady cd chainId results isNested s \<longleftrightarrow>
     percentsOk (batchAt s True (counterChain chainId isNested s)) \<and>
     (case remoteOf results isNested s of None \<Rightarrow> True
      | Some b \<Rightarrow> DexBatch_CheckBasic (Some b) = Inr () \<and> keysDistinct cd b (prevBlockHash s) \<and>
          (dbLivenessFallback b \<longrightarrow> mirrorOk b))"

definition pointsConsistent :: "state \<Rightarrow> bool" where
  "pointsConsistent s \<longleftrightarrow> (\<forall>i. points_ok (poolAt s i))"

text \<open>The tokens of a holding pool beyond what the batches in the state claim.\<close>

definition holdingSurplus :: "u64 \<Rightarrow> state \<Rightarrow> int" where
  "holdingSurplus c s = int (unat (pAmount (poolAt s (c + HoldingPoolAddend)))) -
     int (batchEscrow (batchAt s True c)) - int (batchEscrow (batchAt s False c))"

lemma percentsOk_checked: "DexBatch_CheckBasic (Some b) = Inr () \<Longrightarrow> percentsOk b"
  by (auto simp: DexBatch_CheckBasic_def percentsOk_def list_all_iff list_ex_iff linorder_not_less split: if_splits)

lemma surplus_claims: "holdingSurplus c s = int (unat (pAmount (poolAt s (c + HoldingPoolAddend)))) - claims c (frameOf s)"
  by (simp add: holdingSurplus_def claims_def frameOf_def escrow_batchAt)

lemma dexLedger_start:
  assumes "conserved s" and "pointsConsistent s"
  shows "dexLedger c (holdingSurplus c s) (prevBlockHash s) s"
  using assms by (simp add: dexLedger_def dexInv_def surplus_claims pointsConsistent_def)

lemma dexLedger_end:
  assumes "dexLedger c e bh t"
  shows "conserved t \<and> pointsConsistent t \<and> e \<le> holdingSurplus c t"
  using assms by (simp add: dexLedger_def dexInv_def surplus_claims pointsConsistent_def)

lemma HandleDexBatch_safe:
  assumes "conserved s" and "pointsConsistent s" and ready: "dexReady cd chainId results isNested s"
    and run: "HandleDexBatch cd chainId results isNested s = (Inr r, t)" and c: "c = counterChain chainId isNested s"
  shows "conserved t \<and> pointsConsistent t \<and> holdingSurplus c s \<le> holdingSurplus c t"
  by (rule dexLedger_end [OF HandleDexBatch_ledger [OF dexLedger_start [OF assms(1,2)] c _ _ run]])
    (use ready percentsOk_checked in \<open>auto simp: dexReady_def c\<close>)


text \<open>
  The holding pool always covers the batches: through settlement, refunds and the rotation from
  next to locked batch, the pool's balance beyond the escrowed orders and deposits never shrinks.
\<close>

theorem dex_holding_pool_covers_batches:
  assumes "conserved s" and "pointsConsistent s" and "dexReady cd chainId results isNested s"
    and "HandleDexBatch cd chainId results isNested s = (Inr r, t)"
  shows "holdingSurplus (counterChain chainId isNested s) s \<le> holdingSurplus (counterChain chainId isNested s) t"
  using HandleDexBatch_safe [OF assms refl] by blast

lemma dexState_ok: "conserved dexState" "pointsConsistent dexState" "dexReady dexCodecEx 2 dexResults False dexState"
proof -
  show "conserved dexState"
    by (simp add: inflight_def wf_def token_defs dex_example tok_def)
  show "pointsConsistent dexState"
    by (auto simp: pointsConsistent_def points_ok_def points_sum_def poolAt_def dex_example)
  show "dexReady dexCodecEx 2 dexResults False dexState"
    using dex_example_keys
    by (auto simp: dexReady_def counterChain_def remoteOf_def dexResults_def DexBatch_CheckBasic_def dexRemote_def zeroBatch_def
        MaxDepositsPerDexBatch_def MaxWithdrawsPerDexBatch_def MaxOrdersPerDexBatch_def MaxReceipts_def)
qed


theorem dex_holding_pool_covers_batches_witness:
  "\<exists>t. HandleDexBatch dexCodecEx 2 dexResults False dexState = (Inr (), t) \<and> 0 \<le> holdingSurplus 2 t"
proof -
  obtain t where run: "HandleDexBatch dexCodecEx 2 dexResults False dexState = (Inr (), t)" using dex_example_run by blast
  have "holdingSurplus 2 dexState = 0" "counterChain 2 False dexState = 2"
    by (simp_all add: holdingSurplus_def batchAt_def storedBatch_def batchEscrow_def orderEscrow_def depositEscrow_def
        poolAt_def dex_example pool_ids counterChain_def)
  with dex_holding_pool_covers_batches [OF dexState_ok run] run show ?thesis by auto
qed

subsection \<open>The fallback never gets stuck\<close>

lemma AccountAdd_total:
  assumes "inflight (unat n) s"
  shows "\<exists>t. AccountAdd a n s = (Inr (), t)"
proof -
  have "unat (acAmount (accountAt s a)) + unat n < 2 ^ 64"
    using inflight_bound [OF assms] account_le_tokens [of s a] by linarith
  then show ?thesis by (simp add: AccountAdd_run add_guard_iff linorder_not_le [symmetric])
qed

lemma refund_total:
  assumes "dexInv c F 0 x h s" and "int (unat n) \<le> h"
  shows "\<exists>t. refund c a n s = (Inr (), t) \<and> dexInv c F 0 x (h - int (unat n)) t"
proof -
  have "\<not> pAmount (poolAt s (c + HoldingPoolAddend)) < n"
    using assms by (simp add: dexInv_def word_less_def)
  then obtain u where u: "PoolSub (c + HoldingPoolAddend) n s = (Inr (), u)" by (simp add: PoolSub_run)
  then have "inflight (unat n) u" using hoareD [OF holding_debit assms(1) u] by (simp add: dexInv_def)
  then obtain t where t: "AccountAdd a n u = (Inr (), t)" using AccountAdd_total by blast
  have run: "refund c a n s = (Inr (), t)" using u t by (simp add: refund_def bnd_run ret_run)
  with hoareD [OF refund_ledger assms(1) run] show ?thesis by blast
qed

lemma refunds_total:
  "dexInv c F 0 x h s \<Longrightarrow> int (sum_list (map (unat \<circ> g) os)) \<le> h \<Longrightarrow>
   \<exists>t. for_each os (\<lambda>k. refund c (f k) (g k)) s = (Inr (), t) \<and>
     dexInv c F 0 x (h - int (sum_list (map (unat \<circ> g) os))) t"
proof (induction os arbitrary: s h)
  case Nil
  then show ?case by (simp add: ret_run)
next
  case (Cons k os)
  have k: "int (unat (g k)) \<le> h" and os: "int (sum_list (map (unat \<circ> g) os)) \<le> h - int (unat (g k))"
    using Cons.prems(2) by (simp_all add: comp_def)
  obtain u where u: "refund c (f k) (g k) s = (Inr (), u)" "dexInv c F 0 x (h - int (unat (g k))) u"
    using refund_total [OF Cons.prems(1) k] by blast
  from Cons.IH [OF u(2) os] u(1) show ?case by (auto simp: bnd_run algebra_simps)
qed



end
