(* ===== verification/Frame.thy ===== *)
theory Frame
  imports Byzantine Swap Dex
begin

text \<open>
  What every operation of the state machine leaves intact, whether it succeeds or fails: the block
  being applied, the key of a validator record and the percentages of the stored batches. The
  message handlers and the block need it to compose the invariants of the components.
\<close>

section \<open>Invariants of runs that may fail\<close>

named_theorems maintains_rules \<open>introduction rules for maintained predicates\<close>
named_theorems frame_simps \<open>updates that do not concern the frame\<close>

definition maintains :: "('s \<Rightarrow> bool) \<Rightarrow> ('s, 'e, 'a) sm \<Rightarrow> bool" where
  "maintains P m \<longleftrightarrow> (\<forall>s. P s \<longrightarrow> P (snd (m s)))"

lemma maintainsD: "maintains P m \<Longrightarrow> P s \<Longrightarrow> m s = (r, t) \<Longrightarrow> P t"
  by (metis maintains_def snd_conv)

lemma maintains_hoare: "maintains P m \<Longrightarrow> hoare P m (\<lambda>_. P)"
  by (auto simp: hoare_def dest: maintainsD)

lemma maintains_simple [maintains_rules]:
  "maintains P (ret x)" "maintains P (err e)" "maintains P (gets g)" "maintains P (fail_if c e)"
  by (simp_all add: maintains_def go_simps)

lemma maintains_modify [maintains_rules]: "(\<And>s. P s \<Longrightarrow> P (g s)) \<Longrightarrow> maintains P (modify g)"
  by (simp add: maintains_def go_simps)

lemma maintains_bnd [maintains_rules]: "maintains P m \<Longrightarrow> (\<And>x. maintains P (g x)) \<Longrightarrow> maintains P (bnd m g)"
  by (simp add: maintains_def go_simps split: sum.splits)

lemma maintains_catch [maintains_rules]:
  "maintains P m \<Longrightarrow> (\<And>e. maintains P (h e)) \<Longrightarrow> (\<And>x. maintains P (g x)) \<Longrightarrow> maintains P (catch m h g)"
  by (simp add: maintains_def go_simps split: sum.splits)

lemma maintains_ignore_err [maintains_rules]: "maintains P m \<Longrightarrow> maintains P (ignore_err m)"
  by (simp add: maintains_def go_simps)

lemma maintains_if [maintains_rules]: "maintains P m \<Longrightarrow> maintains P n \<Longrightarrow> maintains P (if c then m else n)"
  by simp

lemma maintains_when [maintains_rules]: "maintains P m \<Longrightarrow> maintains P (when_m c m)"
  by (simp add: when_m_def maintains_simple)

lemma maintains_option [maintains_rules]:
  "maintains P m \<Longrightarrow> (\<And>y. maintains P (g y)) \<Longrightarrow> maintains P (case x of None \<Rightarrow> m | Some y \<Rightarrow> g y)"
  by (cases x) auto

lemma maintains_option_eq:
  "(x = None \<Longrightarrow> maintains P m) \<Longrightarrow> (\<And>y. x = Some y \<Longrightarrow> maintains P (g y)) \<Longrightarrow> maintains P (case x of None \<Rightarrow> m | Some y \<Rightarrow> g y)"
  by (cases x) auto

lemma maintains_sum [maintains_rules]:
  "(\<And>e. maintains P (h e)) \<Longrightarrow> (\<And>y. maintains P (g y)) \<Longrightarrow> maintains P (case x of Inl e \<Rightarrow> h e | Inr y \<Rightarrow> g y)"
  by (cases x) auto

lemma maintains_prod [maintains_rules]:
  "(\<And>a b. maintains P (g a b)) \<Longrightarrow> maintains P (case p of (a, b) \<Rightarrow> g a b)"
  "(\<And>a b. maintains P (h a b c)) \<Longrightarrow> maintains P ((case p of (a, b) \<Rightarrow> h a b) c)"
  by (cases p; auto)+

lemma maintains_Let [maintains_rules]: "(\<And>x. maintains P (g x)) \<Longrightarrow> maintains P (Let v g)"
  by (simp add: Let_def)

lemma maintains_seqm_Nil [maintains_rules]: "maintains P (seqm [])"
  by (simp add: maintains_simple)

lemma maintains_seqm_Cons [maintains_rules]: "maintains P m \<Longrightarrow> maintains P (seqm ms) \<Longrightarrow> maintains P (seqm (m # ms))"
  by (simp add: maintains_bnd)

lemma maintains_for_each [maintains_rules]: "(\<And>x. x \<in> set xs \<Longrightarrow> maintains P (g x)) \<Longrightarrow> maintains P (for_each xs g)"
  by (induction xs) (simp_all add: maintains_simple maintains_bnd)

lemma maintains_fold_m [maintains_rules]: "(\<And>x a. x \<in> set xs \<Longrightarrow> maintains P (g x a)) \<Longrightarrow> maintains P (fold_m g xs a)"
  by (induction xs arbitrary: a) (simp_all add: maintains_simple maintains_bnd)

lemma maintains_conj: "maintains P m \<Longrightarrow> maintains Q m \<Longrightarrow> maintains (\<lambda>s. P s \<and> Q s) m"
  by (simp add: maintains_def)

lemma maintains_bnd_gets: "(\<And>s x. P s \<Longrightarrow> x = f s \<Longrightarrow> P (snd (g x s))) \<Longrightarrow> maintains P (bnd (gets f) g)"
  by (simp add: maintains_def go_simps)

section \<open>The frame of a block\<close>

text \<open>What is fixed while a block is applied.\<close>

type_synonym blockContext = "config \<times> u64 \<times> u64 \<times> bytes option \<times> dexBatch option \<times> string list"

definition contextOf :: "state \<Rightarrow> blockContext" where
  "contextOf s = (cfg s, NetworkID s, height s, prevBlockHash s, rootDexBatch s, indexedTxs s)"

definition keyed :: "state \<Rightarrow> bool" where
  "keyed s \<longleftrightarrow> list_all (\<lambda>(k, v). vAddress v = k) (validators s)"

definition batchesOk :: "state \<Rightarrow> bool" where
  "batchesOk s \<longleftrightarrow> list_all (percentsOk \<circ> snd) (lockedBatches s) \<and> list_all (percentsOk \<circ> snd) (nextBatches s)"

definition paymentsOk :: "state \<Rightarrow> bool" where
  "paymentsOk s \<longleftrightarrow> list_all percents_ok (committeesData s)"

text \<open>The flag says whether the payment percents are looked at too.\<close>

definition orderly :: "blockContext \<times> bool \<Rightarrow> state \<Rightarrow> bool" where
  "orderly x s \<longleftrightarrow> contextOf s = fst x \<and> keyed s \<and> batchesOk s \<and> (snd x \<longrightarrow> paymentsOk s)"

lemma set_tset: "set (tset k v t) \<subseteq> insert (k, v) (set t)"
  by (induction k v t rule: tset.induct) auto

lemma set_tdel: "set (tdel k t) \<subseteq> set t"
  by (auto simp: tdel_def)

lemma list_all_table:
  "list_all Q t \<Longrightarrow> Q (k, v) \<Longrightarrow> list_all Q (tset k v t)"
  "list_all Q t \<Longrightarrow> list_all Q (tdel k t)"
  using set_tset [of k v t] set_tdel [of k t] by (auto simp: list_all_iff)

lemma keyed_updates [frame_simps]:
  "keyed s \<Longrightarrow> keyed (s\<lparr>validators := tset (vAddress v) v (validators s)\<rparr>)"
  "keyed s \<Longrightarrow> keyed (s\<lparr>validators := tdel k (validators s)\<rparr>)"
  by (simp_all add: keyed_def list_all_table)

lemma orderly_updates [frame_simps]:
  "orderly x (s\<lparr>slashTracker := a1\<rparr>) = orderly x s"
  "orderly x (s\<lparr>accounts := a2\<rparr>) = orderly x s"
  "orderly x (s\<lparr>pools := a3\<rparr>) = orderly x s"
  "orderly x (s\<lparr>supplyTracker := a4\<rparr>) = orderly x s"
  "orderly x (s\<lparr>committeeIndex := a5\<rparr>) = orderly x s"
  "orderly x (s\<lparr>delegateIndex := a6\<rparr>) = orderly x s"
  "orderly x (s\<lparr>unstaking := a7\<rparr>) = orderly x s"
  "orderly x (s\<lparr>paused := a8\<rparr>) = orderly x s"
  "orderly x (s\<lparr>paramsCons := a9\<rparr>) = orderly x s"
  "orderly x (s\<lparr>paramsVal := b1\<rparr>) = orderly x s"
  "orderly x (s\<lparr>paramsFee := b2\<rparr>) = orderly x s"
  "orderly x (s\<lparr>daoRewardPercentage := b3\<rparr>) = orderly x s"
  "orderly x (s\<lparr>nonSigners := b4\<rparr>) = orderly x s"
  "orderly x (s\<lparr>lastProposers := b5\<rparr>) = orderly x s"
  "orderly x (s\<lparr>orderBook := b7\<rparr>) = orderly x s"
  "orderly x (s\<lparr>retiredCommittees := b8\<rparr>) = orderly x s"
  "orderly x (s\<lparr>doubleSigners := b9\<rparr>) = orderly x s"
  "orderly x (s\<lparr>checkpoints := c1\<rparr>) = orderly x s"
  "orderly x (s\<lparr>eventReference := c2\<rparr>) = orderly x s"
  "orderly x (s\<lparr>events := c3\<rparr>) = orderly x s"
  by (simp_all add: orderly_def contextOf_def keyed_def batchesOk_def paymentsOk_def)

lemma orderly_validators [frame_simps]:
  "orderly x s \<Longrightarrow> orderly x (s\<lparr>validators := tset (vAddress v) v (validators s)\<rparr>)"
  "orderly x s \<Longrightarrow> orderly x (s\<lparr>validators := tdel k (validators s)\<rparr>)"
  by (simp_all add: orderly_def contextOf_def keyed_def batchesOk_def paymentsOk_def list_all_table)

lemma orderly_batches [frame_simps]:
  "orderly x s \<Longrightarrow> orderly x (s\<lparr>lockedBatches := tdel c (lockedBatches s)\<rparr>)"
  "orderly x s \<Longrightarrow> orderly x (s\<lparr>nextBatches := tdel c (nextBatches s)\<rparr>)"
  "orderly x s \<Longrightarrow> percentsOk b \<Longrightarrow> orderly x (s\<lparr>lockedBatches := tset c b (lockedBatches s)\<rparr>)"
  "orderly x s \<Longrightarrow> percentsOk b \<Longrightarrow> orderly x (s\<lparr>nextBatches := tset c b (nextBatches s)\<rparr>)"
  by (simp_all add: orderly_def contextOf_def keyed_def batchesOk_def paymentsOk_def list_all_table)

text \<open>Reading a batch of an orderly state.\<close>

lemma orderly_batchAt: "orderly x s \<Longrightarrow> percentsOk (batchAt s l c)"
  by (auto simp: orderly_def batchesOk_def batchAt_def storedBatch_def list_all_iff percentsOk_def zeroBatch_def
      split: option.splits if_splits dest!: tget_in)

section \<open>The interface of a framed predicate\<close>

text \<open>
  A predicate that no operation outside the exchange can break: it does not look at the fields
  those operations write, except for the key of a validator record and the points of a pool.
\<close>

locale framed_core =
  fixes P :: "state \<Rightarrow> bool"
  assumes accounts: "P s \<Longrightarrow> P (s\<lparr>accounts := a1\<rparr>)"
    and amounts: "P s \<Longrightarrow> P (s\<lparr>pools := putPool ((poolAt s i)\<lparr>pAmount := n\<rparr>) (pools s)\<rparr>)"
    and tracker: "P s \<Longrightarrow> P (s\<lparr>supplyTracker := a2\<rparr>)"
    and records: "P s \<Longrightarrow> P (s\<lparr>validators := tset (vAddress v) v (validators s)\<rparr>)"
    and removals: "P s \<Longrightarrow> P (s\<lparr>validators := tdel k (validators s)\<rparr>)"
    and indexes: "P s \<Longrightarrow> P (s\<lparr>committeeIndex := a3\<rparr>)" "P s \<Longrightarrow> P (s\<lparr>delegateIndex := a4\<rparr>)"
      "P s \<Longrightarrow> P (s\<lparr>unstaking := a5\<rparr>)" "P s \<Longrightarrow> P (s\<lparr>paused := a6\<rparr>)"
    and actors: "P s \<Longrightarrow> P (s\<lparr>slashTracker := a7\<rparr>)" "P s \<Longrightarrow> P (s\<lparr>nonSigners := a8\<rparr>)"
      "P s \<Longrightarrow> P (s\<lparr>doubleSigners := a9\<rparr>)"
    and params: "P s \<Longrightarrow> P (s\<lparr>paramsCons := b1\<rparr>)" "P s \<Longrightarrow> P (s\<lparr>paramsVal := b2\<rparr>)"
      "P s \<Longrightarrow> P (s\<lparr>paramsFee := b3\<rparr>)" "P s \<Longrightarrow> P (s\<lparr>daoRewardPercentage := b4\<rparr>)"
    and chains: "P s \<Longrightarrow> P (s\<lparr>lastProposers := b5\<rparr>)"
      "P s \<Longrightarrow> P (s\<lparr>orderBook := b7\<rparr>)" "P s \<Longrightarrow> P (s\<lparr>retiredCommittees := b8\<rparr>)"
      "P s \<Longrightarrow> P (s\<lparr>checkpoints := b9\<rparr>)"
    and unlocks: "P s \<Longrightarrow> P (s\<lparr>lockedBatches := tdel c (lockedBatches s)\<rparr>)"
    and log: "P s \<Longrightarrow> P (s\<lparr>eventReference := c1\<rparr>)" "P s \<Longrightarrow> P (s\<lparr>events := c2\<rparr>)"
begin

lemmas framed_fields = accounts amounts tracker records removals indexes actors params chains unlocks log

text \<open>Accounts, pools and supply\<close>

lemma account_ops [maintains_rules]:
  "maintains P (AccountAdd a n)" "maintains P (AccountSub a n)"
  "maintains P (PoolAdd i n)" "maintains P (PoolSub i n)"
  by (simp_all add: maintains_def AccountAdd_run AccountSub_run PoolAdd_run PoolSub_run framed_fields)

lemma supply_ops [maintains_rules]:
  "maintains P (AddToTotalSupply n)" "maintains P (SubFromTotalSupply n)"
  "maintains P (AddToStakedSupply n)" "maintains P (SubFromStakedSupply n)"
  "maintains P (AddToDelegateSupply n)" "maintains P (SubFromDelegateSupply n)"
  by (simp_all add: maintains_def supply_run_defs framed_fields)

lemma reads [maintains_rules]:
  "maintains P (GetPool i)" "maintains P (GetPoolBalance i)"
  "maintains P (GetAccount a)" "maintains P GetParamsCons" "maintains P GetParamsVal"
  "maintains P GetParamsFee" "maintains P (IsFeatureEnabled n)"
  unfolding GetPool_def GetPoolBalance_def GetAccount_def GetParamsCons_def GetParamsVal_def GetParamsFee_def
    IsFeatureEnabled_def
  by (intro maintains_rules)+

lemma executeOnSupplyPool [maintains_rules]: "maintains P (executeOnSupplyPool c ty f)"
  by (auto simp: executeOnSupplyPool_def getSupplyPools_def SetSupply_def GetSupply_def maintains_def go_simps framed_fields
      split: sum.splits prod.splits)

lemma addEvent [maintains_rules]: "maintains P (addEvent m a c)"
  by (simp add: addEvent_def maintains_modify framed_fields)


lemma events [maintains_rules]:
  "maintains P (EventReward a n c)" "maintains P (EventSlash a n)"
  "maintains P (EventAutoPause a)" "maintains P (EventAutoBeginUnstaking a)"
  "maintains P (EventFinishUnstaking a)" "maintains P (EventOrderBookSwap o1)"
  "maintains P (EventOrderBookLock o1)" "maintains P (EventOrderBookReset o1)"
  "maintains P (EventDexSwap a i n m c l b)" "maintains P (EventDexLiquidityDeposit a i n m c l)"
  "maintains P (EventDexLiquidityWithdraw a i n m k c)"
  by (simp_all add: event_defs addEvent)

lemma mint [maintains_rules]:
  "maintains P (MintToPool i n)" "maintains P (MintToAccount a n)"
  "maintains P (AccountDeductFees a n)"
  unfolding MintToPool_def MintToAccount_def AccountDeductFees_def by (intro maintains_rules)+

text \<open>Validators and their committees\<close>

lemma committees [maintains_rules]:
  "maintains P (SetCommittees a n cs)" "maintains P (DeleteCommittees a n cs)"
  "maintains P (SetDelegations a n cs)" "maintains P (DeleteDelegations a n cs)"
  "maintains P (UpdateCommittees a v n cs)" "maintains P (UpdateDelegations a v n cs)"
  unfolding SetCommittees_def DeleteCommittees_def SetDelegations_def DeleteDelegations_def UpdateCommittees_def
    UpdateDelegations_def SetCommitteeMember_def DeleteCommitteeMember_def SetDelegate_def DeleteDelegate_def
    AddToCommitteeSupplyForChain_def AddToDelegateSupplyForChain_def SubFromCommitteeStakedSupplyForChain_def
    SubFromDelegateStakedSupplyForChain_def addToSupplyPool_def subFromSupplyPool_def
  by (intro maintains_rules; simp add: framed_fields)+

lemma SetValidator [maintains_rules]: "maintains P (SetValidator v)"
  by (simp add: SetValidator_def maintains_modify framed_fields)

lemma validators_ops [maintains_rules]:
  "maintains P (UpdateValidatorStake v cs n)" "maintains P (DeleteValidator v)"
  "maintains P (SetValidatorPaused a v h)" "maintains P (SetValidatorUnpaused a v)"
  unfolding UpdateValidatorStake_def DeleteValidator_def SetValidatorPaused_def SetValidatorUnpaused_def
  by (intro maintains_rules; simp add: framed_fields)+

lemma SetValidatorUnstaking [maintains_rules]: "maintains P (SetValidatorUnstaking a v h)"
  unfolding SetValidatorUnstaking_def by (intro maintains_rules; simp add: framed_fields)

lemma GetValidator [maintains_rules]:
  "maintains P (GetValidator a)" "maintains P (GetValidatorExists a)" "maintains P GetValidators"
  unfolding GetValidator_def GetValidatorExists_def GetValidators_def by (intro maintains_rules)+

lemma unstaking [maintains_rules]:
  "maintains P (SetValidatorUnstakingIfBelowMinimum v p)" "maintains P DeleteFinishedUnstaking"
  unfolding SetValidatorUnstakingIfBelowMinimum_def DeleteFinishedUnstaking_def
  by (intro maintains_rules; simp add: framed_fields)+

text \<open>Byzantine actors\<close>

lemma slash [maintains_rules]: "maintains P (SlashValidator v c n p)"
  unfolding SlashValidator_def burnStake_def AddSlash_def GetTotalSlashPercent_def
  by (intro maintains_rules; simp add: framed_fields)

lemma pause [maintains_rules]:
  "maintains P (HandleMessagePause a)" "maintains P (ForceUnstakeValidator a)"
  unfolding HandleMessagePause_def ForceUnstakeValidator_def by (intro maintains_rules)+

lemma byzantine_parts [maintains_rules]:
  "maintains P (SlashValidators as c n p)" "maintains P (SetValidatorsPaused c as)"
  "maintains P (IncrementNonSigners pkOk addressOf c pks)" "maintains P (indexHeights a hs l)"
  unfolding SlashValidators_def SetValidatorsPaused_def IncrementNonSigners_def indexHeights_def
  by (intro maintains_rules; simp add: framed_fields Let_def)+

lemma signers [maintains_rules]:
  "maintains P (SlashAndResetNonSigners c p)" "maintains P (HandleDoubleSigners pkOk addressOf c p ev)"
  unfolding SlashAndResetNonSigners_def HandleDoubleSigners_def SlashNonSigners_def SlashDoubleSigners_def
  by (intro maintains_rules; simp add: framed_fields)+

lemma HandleByzantine [maintains_rules]:
  "maintains P (HandleByzantine pkOk blsOk maskOk addressOf qc vs)"
  unfolding HandleByzantine_def headerChainId_def by (intro maintains_rules)

text \<open>The order book\<close>

lemma order_ops [maintains_rules]:
  "maintains P (GetOrder i c)" "maintains P (SetOrder ord c)" "maintains P (DeleteOrder i c)"
  unfolding GetOrder_def SetOrder_def DeleteOrder_def by (intro maintains_rules; simp add: framed_fields)+

lemma orders [maintains_rules]:
  "maintains P (LockOrder lock c)" "maintains P (ResetOrder i c)" "maintains P (CloseOrder i c)"
  unfolding LockOrder_def ResetOrder_def CloseOrder_def by (intro maintains_rules)+

lemma swaps [maintains_rules]: "maintains P (HandleCommitteeSwaps ords c)"
  unfolding HandleCommitteeSwaps_def by (intro maintains_rules)

text \<open>Committee data and rewards\<close>

lemma committee_data [maintains_rules]:
  "maintains P (GetCommitteesData)" "maintains P (getCommitteeDataAndList c)" "maintains P (GetCommitteeData c)"
  "maintains P (RetireCommittee c)" "maintains P (CommitteeIsRetired c)" "maintains P GetRootChainId"
  unfolding GetCommitteesData_def getCommitteeDataAndList_def GetCommitteeData_def RetireCommittee_def
    CommitteeIsRetired_def GetRootChainId_def
  by (intro maintains_rules; simp add: framed_fields)+

lemma emptied_pool: "maintains P (SetPool (p\<lparr>pAmount := 0\<rparr>))"
proof -
  have "P (s\<lparr>pools := tdel (pId p) (pools s)\<rparr>)" if "P s" for s
    using amounts [OF that, where i = "pId p" and n = 0] by (simp add: putPool_def)
  then show ?thesis by (simp add: maintains_def SetPool_run putPool_def)
qed

lemma rewards [maintains_rules]: "maintains P FundCommitteeRewardPools" "maintains P (distributeOne p d)"
  unfolding FundCommitteeRewardPools_def GetBlockMintStats_def GetSubsidizedCommittees_def GetParamsGov_def GetSupply_def
    distributeOne_def payStub_def DistributeCommitteeReward_def
  by (intro maintains_rules emptied_pool)+

end

text \<open>A predicate that does not look at the committee data either.\<close>

locale framed = framed_core +
  assumes committee_table: "P s \<Longrightarrow> P (s\<lparr>committeesData := b\<rparr>)"
begin

lemma committee_updates [maintains_rules]:
  "maintains P (SetCommitteesData l)" "maintains P (UpsertCommitteeData d)" "maintains P (OverwriteCommitteeData d)"
  "maintains P DistributeCommitteeRewards"
  unfolding UpsertCommitteeData_def OverwriteCommitteeData_def SetCommitteesData_def DistributeCommitteeRewards_def
  by (intro maintains_rules; simp add: committee_table)+

end

interpretation ord: framed_core "orderly x" for x
  by unfold_locales (simp_all add: frame_simps)

lemma pointsConsistent_amount:
  assumes "pointsConsistent s"
  shows "pointsConsistent (s\<lparr>pools := putPool ((poolAt s i)\<lparr>pAmount := n\<rparr>) (pools s)\<rparr>)"
  using assms by (auto simp: pointsConsistent_def poolAt_def tget_putPool points_ok_def points_sum_def split: option.splits)

interpretation pts: framed pointsConsistent
  by unfold_locales (simp_all add: pointsConsistent_amount, simp_all add: pointsConsistent_def poolAt_def)

section \<open>Payment percents\<close>

lemma findCommitteeData_ok:
  assumes "list_all Q l" and "Q (emptyCommitteeData c)"
  shows "case findCommitteeData c l of (l', d, i) \<Rightarrow> list_all Q l' \<and> Q d"
  using assms by (induction l) (auto split: prod.splits)

lemma list_all_update: "list_all Q l \<Longrightarrow> Q y \<Longrightarrow> list_all Q (l[i := y])"
  unfolding list_all_iff using set_update_subset_insert by fastforce

lemma orderly_committeesData:
  "orderly x s \<Longrightarrow> (snd x \<Longrightarrow> list_all percents_ok l) \<Longrightarrow> orderly x (s\<lparr>committeesData := l\<rparr>)"
  by (simp add: orderly_def contextOf_def keyed_def batchesOk_def paymentsOk_def)

lemma orderly_find:
  assumes "orderly x s" and "findCommitteeData c (committeesData s) = (l, d, i)" and "snd x"
  shows "list_all percents_ok l \<and> percents_ok d"
  using assms findCommitteeData_ok [of percents_ok "committeesData s" c]
  by (simp add: orderly_def paymentsOk_def percents_ok_def percentSum_def emptyCommitteeData_def)

lemma orderly_Overwrite:
  assumes "snd x \<Longrightarrow> percents_ok d"
  shows "maintains (orderly x) (OverwriteCommitteeData d)"
  unfolding maintains_def
proof (intro allI impI)
  fix s assume s: "orderly x s"
  obtain l e i where f: "findCommitteeData (cdChainId d) (committeesData s) = (l, e, i)" by (rule prod_cases3)
  have "orderly x (s\<lparr>committeesData := l[i := d]\<rparr>)"
    by (rule orderly_committeesData [OF s]) (use orderly_find [OF s f] assms in \<open>simp add: list_all_update\<close>)
  then show "orderly x (snd (OverwriteCommitteeData d s))"
    by (simp add: OverwriteCommitteeData_def getCommitteeDataAndList_def GetCommitteesData_def SetCommitteesData_def go_simps f)
qed

lemma orderly_Upsert:
  assumes "\<And>c. snd x \<Longrightarrow> percentSum (filter (\<lambda>p. ppcChainId p = c) (cdPaymentPercents d)) \<le> 100"
  shows "maintains (orderly x) (UpsertCommitteeData d)"
  unfolding maintains_def
proof (intro allI impI)
  fix s assume s: "orderly x s"
  obtain l e i where f: "findCommitteeData (cdChainId d) (committeesData s) = (l, e, i)" by (rule prod_cases3)
  have "orderly x (s\<lparr>committeesData := l[i := y]\<rparr>)" if "Combine d (cfgChainId (cfg s)) e = Inr y" for y
    by (rule orderly_committeesData [OF s])
      (use orderly_find [OF s f] Combine_ok [OF that] assms in \<open>simp add: list_all_update\<close>)
  with s show "orderly x (snd (UpsertCommitteeData d s))"
    by (simp add: UpsertCommitteeData_def getCommitteeDataAndList_def GetCommitteesData_def SetCommitteesData_def go_simps f
        split: sum.split)
qed

lemma distributed_percents:
  assumes "fold_m (\<lambda>data acc. bnd (distributeOne vp data) (\<lambda>d. ret (acc @ [d]))) l acc s = (Inr l', t)"
    and "list_all percents_ok l" and "list_all percents_ok acc"
  shows "list_all percents_ok l'"
  using assms
proof (induction l arbitrary: acc s)
  case Nil
  then show ?case by (simp add: ret_run)
next
  case (Cons d l)
  obtain e u where e: "distributeOne vp d s = (Inr e, u)"
    and rest: "fold_m (\<lambda>data acc. bnd (distributeOne vp data) (\<lambda>d. ret (acc @ [d]))) l (acc @ [e]) u = (Inr l', t)"
    using Cons.prems(1) unfolding fold_m.simps bnd_assoc bnd_ret bnd_Inr by blast
  have "percents_ok e"
    using e Cons.prems(2) by (auto simp: distributeOne_def bnd_Inr ret_run percents_ok_def percentSum_def split: if_splits)
  with Cons.IH [OF rest] Cons.prems(2,3) show ?case by simp
qed

lemma orderly_Distribute [maintains_rules]: "maintains (orderly x) DistributeCommitteeRewards"
  unfolding maintains_def
proof (intro allI impI)
  fix s assume s: "orderly x s"
  let ?m = "fold_m (\<lambda>data acc. bnd (distributeOne (paramsVal s) data) (\<lambda>d. ret (acc @ [d]))) (committeesData s) []"
  obtain q u where q: "?m s = (q, u)" by (rule prod.exhaust)
  have "maintains (orderly x) ?m" by (intro maintains_rules)
  then have u: "orderly x u" using s q by (rule maintainsD)
  have "snd x \<Longrightarrow> q = Inr l' \<Longrightarrow> list_all percents_ok l'" for l'
    using distributed_percents [of "paramsVal s" "committeesData s" "[]" s l' u] q s by (simp add: orderly_def paymentsOk_def)
  with u q show "orderly x (snd (DistributeCommitteeRewards s))"
    by (cases q) (simp_all add: DistributeCommitteeRewards_def GetParamsVal_def GetCommitteesData_def SetCommitteesData_def
        go_simps orderly_committeesData)
qed

section \<open>The exchange\<close>

lemma orderly_SetDexBatch: "percentsOk b \<Longrightarrow> maintains (orderly x) (SetDexBatch l c b)"
  unfolding SetDexBatch_def by (intro maintains_rules; simp add: frame_simps)

lemma orderly_dex_parts [maintains_rules]:
  "maintains (orderly x) (SetPool p)" "maintains (orderly x) (SetPoolPoints i ps n)"
  "maintains (orderly x) (DeleteDexBatch l c)" "maintains (orderly x) (GetDexBatch c l w)"
  unfolding SetPool_def SetPoolPoints_def DeleteDexBatch_def GetDexBatch_def
  by (intro maintains_rules; simp add: frame_simps)+

lemma orderly_dex_steps [maintains_rules]:
  "maintains (orderly x) (settleOrder c k rs io xy)" "maintains (orderly x) (executeOrder c ko xyr)"
  "maintains (orderly x) (payReceipt c r ko rs)" "maintains (orderly x) (payWithdrawal c l ty tx tp w ppp)"
  "maintains (orderly x) (payDeposit c l tp tx d pxd)" "maintains (orderly x) (refund c a n)"
  unfolding settleOrder_def executeOrder_def payReceipt_def payWithdrawal_def payDeposit_def refund_def
  by (intro maintains_rules)+

lemma orderly_dex_batches [maintains_rules]:
  "maintains (orderly x) (HandleOrderReceipts lb rb c n m)" "maintains (orderly x) (HandleDexBatchOrders cd rb n m c)"
  "maintains (orderly x) (HandleBatchWithdraw b c n m l)" "maintains (orderly x) (HandleBatchDeposit b c n m l)"
  unfolding HandleOrderReceipts_def HandleDexBatchOrders_def HandleBatchWithdraw_def HandleBatchDeposit_def
  by (intro maintains_rules)+

lemma orderly_receipts [maintains_rules]:
  "maintains (orderly x) (HandleReceiptsForOurLockedBatch cd rb n c)"
  "maintains (orderly x) (HandleRemoteChainLockedBatch cd rb n c)"
  unfolding HandleReceiptsForOurLockedBatch_def HandleRemoteChainLockedBatch_def by (intro maintains_rules)+

text \<open>Only the rotation stores a batch, and it takes its withdrawals from a stored one.\<close>

lemma orderly_Rotate [maintains_rules]: "maintains (orderly x) (RotateDexBatches rh n m c rs)"
proof -
  have "orderly x (snd (RotateDexBatches rh n m c rs s))" if "orderly x s" for s
    using orderly_batchAt [OF that, of False c] that
    by (auto simp: RotateDexBatches_def GetDexBatch_def DeleteDexBatch_def SetDexBatch_def go_simps Let_def
        frame_simps percentsOk_def list_all_table orderly_def contextOf_def keyed_def batchesOk_def paymentsOk_def)
  then show ?thesis by (simp add: maintains_def)
qed

lemma orderly_HandleDexBatch [maintains_rules]: "maintains (orderly x) (HandleDexBatch cd c results n)"
proof -
  have "percentsOk zeroBatch" by (simp add: percentsOk_def zeroBatch_def)
  then show ?thesis
    unfolding HandleDexBatch_def HandleRemoteDexBatch_def HandleLivenessFallback_def
    by (intro maintains_rules orderly_SetDexBatch)
qed

end
