(* ===== verification/Gov.thy ===== *)
theory Gov
  imports Frame
begin

text \<open>
  On-chain governance (\<open>fsm/gov.go\<close>): how a node votes on a proposal, the update of one parameter
  and the adjustment of the state to it.

  The validator and fee parameters are read through a cache, and their setters write into the
  cached object before they check it. A rejected update therefore shows in the state the machine
  sees until the caches are reset, which the transaction layer does with every failed transaction.
\<close>

section \<open>Proposals\<close>

record govProposal =
  gpStartHeight :: u64
  gpEndHeight :: u64
  gpProposalHash :: string

definition ApproveProposal :: "govProposal \<Rightarrow> unit fsm" where
  "ApproveProposal msg = bnd (gets id) (\<lambda>s.
     if height s < gpStartHeight msg \<or> height s > gpEndHeight msg then err ErrRejectProposal
     else (case proposeVoteConfig s of
         AcceptAllProposals \<Rightarrow> ret ()
       | RejectAllProposals \<Rightarrow> err ErrRejectProposal
       | ProposalApproveList \<Rightarrow> (case proposalsFile s of
             None \<Rightarrow> err (Error ''ReadFile'')
           | Some proposals \<Rightarrow> (case map_of proposals (gpProposalHash msg) of
                 Some True \<Rightarrow> ret ()
               | _ \<Rightarrow> err ErrRejectProposal))))"

section \<open>Updating a parameter\<close>

text \<open>The two wrappers a parameter value may be packed in; anything else is rejected.\<close>

datatype paramValue = UInt64Wrapper u64 | StringWrapper string | OtherValue

definition DeleteCheckpointsForChain :: "u64 \<Rightarrow> unit fsm" where
  "DeleteCheckpointsForChain chainId = modify (\<lambda>s. s\<lparr>checkpoints := tdel chainId (checkpoints s)\<rparr>)"

definition DeleteLockedBatch :: "u64 \<Rightarrow> unit fsm" where
  "DeleteLockedBatch chainId = modify (\<lambda>s. s\<lparr>lockedBatches := tdel chainId (lockedBatches s)\<rparr>)"

text \<open>The committees that stay when the maximum shrinks: a window of a circular queue.\<close>

definition shrinkCommittees :: "nat \<Rightarrow> nat \<Rightarrow> u64 list \<Rightarrow> u64 list" where
  "shrinkCommittees idx maxCommittees committees =
     (let n = length committees; startIndex = idx mod n in
      map (\<lambda>i. committees ! ((startIndex + i) mod n)) [0..<maxCommittees])"

definition enforceMaxCommittees :: "nat \<Rightarrow> validator \<Rightarrow> nat \<Rightarrow> nat fsm" where
  "enforceMaxCommittees maxCommittees v idx =
     (if length (vCommittees v) \<le> maxCommittees then ret idx
      else let newCommittees = shrinkCommittees idx maxCommittees (vCommittees v) in
        bnd (if \<not> vDelegate v then UpdateCommittees (vAddress v) v (vStakedAmount v) newCommittees
             else UpdateDelegations (vAddress v) v (vStakedAmount v) newCommittees) (\<lambda>_.
        bnd (SetValidator (v\<lparr>vCommittees := newCommittees\<rparr>)) (\<lambda>_.
        ret (idx + 1))))"

text \<open>The four adjustments of \<open>ConformStateToParamUpdate\<close>, in its order.\<close>

definition resetCommittee :: "consensusParams \<Rightarrow> unit fsm" where
  "resetCommittee cons = (let reset = cpResetCommittee cons in
     when_m (reset \<noteq> 0) (seqm [
       OverwriteCommitteeData (emptyCommitteeData reset),
       DeleteCheckpointsForChain reset,
       DeleteLockedBatch reset,
       SetParamsCons (cons\<lparr>cpResetCommittee := 0\<rparr>)]))"

definition resetRootHeight :: "consensusParams \<Rightarrow> consensusParams \<Rightarrow> unit fsm" where
  "resetRootHeight previous cons = when_m (cpRootChainId previous \<noteq> cpRootChainId cons)
     (bnd (gets (\<lambda>s. cfgChainId (cfg s))) (\<lambda>chainId.
      bnd (GetCommitteeData chainId) (\<lambda>selfCommittee.
      OverwriteCommitteeData (selfCommittee\<lparr>cdLastRootHeightUpdated := 0\<rparr>))))"

definition unstakeBelowMinimum :: "validatorParams \<Rightarrow> validatorParams \<Rightarrow> unit fsm" where
  "unstakeBelowMinimum previous val =
     when_m (vpMinimumStakeForValidators previous < vpMinimumStakeForValidators val \<or>
             vpMinimumStakeForDelegates previous < vpMinimumStakeForDelegates val)
       (bnd GetValidators (\<lambda>vs. for_each vs (\<lambda>v.
          bnd (SetValidatorUnstakingIfBelowMinimum v val) (\<lambda>_. ret ()))))"

definition shrinkAllCommittees :: "validatorParams \<Rightarrow> validatorParams \<Rightarrow> unit fsm" where
  "shrinkAllCommittees previous val =
     when_m (vpMaxCommittees val < vpMaxCommittees previous)
       (bnd GetValidators (\<lambda>vs.
          bnd (fold_m (enforceMaxCommittees (unat (vpMaxCommittees val))) vs 0) (\<lambda>_. ret ())))"

definition ConformStateToParamUpdate :: "params \<Rightarrow> unit fsm" where
  "ConformStateToParamUpdate previousParams =
     bnd GetParams (\<lambda>params. seqm [
       resetCommittee (pmConsensus params),
       resetRootHeight (pmConsensus previousParams) (pmConsensus params),
       unstakeBelowMinimum (pmValidator previousParams) (pmValidator params),
       shrinkAllCommittees (pmValidator previousParams) (pmValidator params)])"

text \<open>
  \<open>setSpace\<close>: the result of a setter is either written back or reported, and \<open>leak\<close> is what the
  cached object shows of a rejected value.
\<close>

definition setSpace :: "(error + unit) \<times> 'p \<Rightarrow> ('p \<Rightarrow> unit fsm) \<Rightarrow> ('p \<Rightarrow> unit fsm) \<Rightarrow> unit fsm" where
  "setSpace res setParams leak = (case res of
       (Inl e, p) \<Rightarrow> bnd (leak p) (\<lambda>_. err e)
     | (Inr _, p) \<Rightarrow> setParams p)"

definition setParam :: "params \<Rightarrow> string \<Rightarrow> string \<Rightarrow> paramValue \<Rightarrow> unit fsm" where
  "setParam previousParams paramSpace paramName value =
     (let cons = pmConsensus previousParams; val = pmValidator previousParams;
          fee = pmFee previousParams; gov = pmGovernance previousParams in
      if paramSpace \<noteq> ''cons'' \<and> paramSpace \<noteq> ''val'' \<and> paramSpace \<noteq> ''fee'' \<and> paramSpace \<noteq> ''gov''
      then err ErrUnknownParamSpace
      else case value of
        UInt64Wrapper v \<Rightarrow>
          if paramSpace = ''cons'' then setSpace (ConsensusParams_SetUint64 paramName v cons) SetParamsCons (\<lambda>_. ret ())
          else if paramSpace = ''val'' then setSpace (ValidatorParams_SetUint64 paramName v val) SetParamsVal SetParamsVal
          else if paramSpace = ''fee'' then setSpace (FeeParams_SetUint64 paramName v fee) SetParamsFee SetParamsFee
          else setSpace (GovernanceParams_SetUint64 paramName v gov) SetParamsGov (\<lambda>_. ret ())
      | StringWrapper v \<Rightarrow>
          if paramSpace = ''cons''
          then bnd (if paramName = ''protocolVersion''
                    then (case ParseProtocolVersion cons of
                        Inl e \<Rightarrow> err e
                      | Inr currentProtocol \<Rightarrow> bnd (gets height) (\<lambda>h.
                          fail_if (h < pvHeight currentProtocol) ErrInvalidProtocolVersion))
                    else ret ())
                 (\<lambda>_. setSpace (ConsensusParams_SetString paramName v cons) SetParamsCons (\<lambda>_. ret ()))
          else err ErrUnknownParam
      | OtherValue \<Rightarrow> err ErrUnknownParamType)"

definition UpdateParam :: "string \<Rightarrow> string \<Rightarrow> paramValue \<Rightarrow> unit fsm" where
  "UpdateParam paramSpace paramName value =
     bnd GetParams (\<lambda>previousParams. seqm [
       setParam previousParams paramSpace paramName value,
       ConformStateToParamUpdate previousParams])"

section \<open>Loops over the stored validators\<close>

text \<open>
  Both loops of a parameter update run over a snapshot of the validators and rewrite one record
  per iteration, so each iteration still finds the record it was given.
\<close>

definition snapshotOf :: "validator list \<Rightarrow> state \<Rightarrow> bool" where
  "snapshotOf vs s \<longleftrightarrow> distinct (map vAddress vs) \<and> (\<forall>v \<in> set vs. tget (validators s) (vAddress v) = Some v)"

definition onlyAt :: "address \<Rightarrow> state \<Rightarrow> state \<Rightarrow> bool" where
  "onlyAt a s t \<longleftrightarrow> (\<forall>k. k \<noteq> a \<longrightarrow> tget (validators t) k = tget (validators s) k)"

lemma for_each_fold: "for_each xs f = fold_m (\<lambda>x _. f x) xs ()"
  by (induction xs) simp_all

lemma fold_snapshot:
  assumes step: "\<And>v a s r t. I s \<Longrightarrow> tget (validators s) (vAddress v) = Some v \<Longrightarrow> f v a s = (Inr r, t) \<Longrightarrow>
      I t \<and> (\<exists>w. tget (validators t) (vAddress v) = Some w \<and> Q w) \<and> onlyAt (vAddress v) s t"
  shows "I s \<Longrightarrow> snapshotOf vs s \<Longrightarrow> fold_m f vs a s = (Inr r, t) \<Longrightarrow>
    I t \<and> (\<forall>v \<in> set vs. \<exists>w. tget (validators t) (vAddress v) = Some w \<and> Q w) \<and>
    (\<forall>k. k \<notin> vAddress ` set vs \<longrightarrow> tget (validators t) k = tget (validators s) k)"
proof (induction vs arbitrary: a s)
  case Nil
  then show ?case by (simp add: ret_run)
next
  case (Cons v vs)
  obtain b u where run: "f v a s = (Inr b, u)" and rest: "fold_m f vs b u = (Inr r, t)"
    using Cons.prems(3) by (auto simp: bnd_Inr)
  have "tget (validators s) (vAddress v) = Some v" using Cons.prems(2) by (simp add: snapshotOf_def)
  note one = step [OF Cons.prems(1) this run]
  have new: "vAddress v \<notin> vAddress ` set vs" using Cons.prems(2) by (auto simp: snapshotOf_def)
  then have "vAddress w \<noteq> vAddress v" if "w \<in> set vs" for w using that by (metis imageI)
  then have "snapshotOf vs u" using Cons.prems(2) one by (simp add: snapshotOf_def onlyAt_def)
  note two = Cons.IH [OF _ this rest]
  with one two new show ?case by (auto simp: onlyAt_def)
qed

lemma snapshot_validators:
  assumes "keyed s" and "tok (validators s)"
  shows "snapshotOf (map snd (validators s)) s"
proof -
  have "map (vAddress \<circ> snd) (validators s) = map fst (validators s)"
    using assms(1) by (auto simp: keyed_def list_all_iff)
  then have "distinct (map (vAddress \<circ> snd) (validators s))" using tok_distinct [OF assms(2)] by (rule ssubst)
  moreover have "tget (validators s) (vAddress v) = Some v" if "(k, v) \<in> set (validators s)" for k v
    using in_tget [OF assms(2) that] assms(1) that by (auto simp: keyed_def list_all_iff)
  ultimately show ?thesis by (force simp: snapshotOf_def)
qed

lemma snapshot_covers:
  assumes "keyed s" and "tget (validators s) k = Some v"
  shows "k \<in> vAddress ` set (map snd (validators s))"
  using tget_in [OF assms(2)] assms(1) by (force simp: keyed_def list_all_iff image_iff)

lemma validators_loop:
  assumes step: "\<And>v a s r t. I s \<Longrightarrow> tget (validators s) (vAddress v) = Some v \<Longrightarrow> f v a s = (Inr r, t) \<Longrightarrow>
      I t \<and> (\<exists>w. tget (validators t) (vAddress v) = Some w \<and> Q w) \<and> onlyAt (vAddress v) s t"
    and "I s" and s: "keyed s" "tok (validators s)"
    and run: "fold_m f (map snd (validators s)) a s = (Inr r, t)"
  shows "I t \<and> (\<forall>k w. tget (validators t) k = Some w \<longrightarrow> Q w)"
proof -
  have loop: "I t \<and> (\<forall>v \<in> set (map snd (validators s)). \<exists>w. tget (validators t) (vAddress v) = Some w \<and> Q w) \<and>
    (\<forall>k. k \<notin> vAddress ` set (map snd (validators s)) \<longrightarrow> tget (validators t) k = tget (validators s) k)"
    by (rule fold_snapshot [where f = f and a = a and r = r])
      (rule step, assumption+, fact, rule snapshot_validators [OF s], fact)
  have "Q w" if w: "tget (validators t) k = Some w" for k w
  proof (cases "k \<in> vAddress ` set (map snd (validators s))")
    case True
    then obtain v where "v \<in> set (map snd (validators s))" "k = vAddress v" by blast
    with loop w show ?thesis by (metis option.inject)
  next
    case False
    then have "tget (validators s) k = Some w" using loop w by auto
    with False snapshot_covers [OF s(1)] show ?thesis by blast
  qed
  with loop show ?thesis by blast
qed

section \<open>The state conforms to the new parameters\<close>

text \<open>
  What the update promises of a validator: it is leaving, or it has the minimum stake of its kind.
  \<open>adjusting\<close> is the invariant of the update: tokens, the stakes ledger if it was in order (\<open>l\<close>), the
  frame, and once the first loop has run (\<open>c\<close>) the promise for everybody.
\<close>

definition conforms :: "validatorParams \<Rightarrow> validator \<Rightarrow> bool" where
  "conforms p v \<longleftrightarrow> vUnstakingHeight v \<noteq> 0 \<or>
     (if vDelegate v then vpMinimumStakeForDelegates p else vpMinimumStakeForValidators p) \<le> vStakedAmount v"

definition heightsFit :: "validatorParams \<Rightarrow> u64 \<Rightarrow> bool" where
  "heightsFit p h \<longleftrightarrow> h + vpUnstakingBlocks p \<noteq> 0 \<and> h + vpDelegateUnstakingBlocks p \<noteq> 0"

definition adjusting :: "blockContext \<times> bool \<Rightarrow> bool \<Rightarrow> bool \<Rightarrow> validatorParams \<Rightarrow> state \<Rightarrow> bool" where
  "adjusting x l c p s \<longleftrightarrow> conserved s \<and> (l \<longrightarrow> ledger s) \<and> orderly x s \<and>
     (c \<longrightarrow> (\<forall>k v. tget (validators s) k = Some v \<longrightarrow> conforms p v))"

lemma adjustingD:
  "adjusting x l c p s \<Longrightarrow> keyed s" "adjusting x l c p s \<Longrightarrow> tok (validators s)"
  by (simp_all add: adjusting_def orderly_def inflight_def wf_def)

lemma BelowMinimum_cases:
  assumes "SetValidatorUnstakingIfBelowMinimum v p s = (Inr b, t)"
  obtains "t = s" "conforms p v"
  | h where "onlyValidator s t (v\<lparr>vMaxPausedHeight := 0, vUnstakingHeight := h\<rparr>)"
      "heightsFit p (height s) \<Longrightarrow> h \<noteq> 0"
proof (cases "conforms p v")
  case True
  with assms have "t = s"
    by (auto simp: SetValidatorUnstakingIfBelowMinimum_def conforms_def Let_def ret_run split: if_splits)
  with True that(1) show ?thesis by simp
next
  case False
  let ?h = "height s + (if vDelegate v then vpDelegateUnstakingBlocks p else vpUnstakingBlocks p)"
  have "SetValidatorUnstaking (vAddress v) v ?h s = (Inr (), t)"
    using False assms by (auto simp: SetValidatorUnstakingIfBelowMinimum_def conforms_def Let_def bnd_Inr
        gets_run ret_run linorder_not_le split: if_splits)
  from Unstaking_run [OF this] show ?thesis
    by (rule that(2)) (simp add: heightsFit_def)
qed

lemma adjusting_replace:
  assumes "adjusting x l False p s" and get: "tget (validators s) (vAddress w) = Some v"
    and "onlyValidator s t w" and "sameStake w v" and "orderly x t"
  shows "adjusting x l False p t"
proof -
  have at: "validatorAt s (vAddress w) = v" "stakeAt s (vAddress w) = unat (vStakedAmount w)"
    using get assms(4) by (simp_all add: validatorAt_def stakeAt_def sameStake_def)
  have "conserved t" using onlyValidator_inflight [OF assms(3) at(2)] assms(1) by (simp add: adjusting_def)
  moreover have "ledger (s\<lparr>validators := tset (vAddress w) w (validators s)\<rparr>)" if l
    using assms(1,4) at that by (intro SetValidator_ledger) (simp_all add: adjusting_def)
  then have "ledger t" if l using assms(3) that by (simp add: ledger_def onlyValidator_def committeeStake_def)
  ultimately show ?thesis using assms(5) by (simp add: adjusting_def)
qed

lemma orderly_height: "orderly x s \<Longrightarrow> height s = fst (snd (snd (fst x)))"
  unfolding orderly_def contextOf_def by (metis fst_conv snd_conv)

lemma below_step:
  assumes adj: "adjusting x l False p s" and get: "tget (validators s) (vAddress v) = Some v"
    and run: "bnd (SetValidatorUnstakingIfBelowMinimum v p) (\<lambda>_. ret ()) s = (Inr r, t)"
  shows "adjusting x l False p t \<and>
    (\<exists>w. tget (validators t) (vAddress v) = Some w \<and> (heightsFit p (fst (snd (snd (fst x)))) \<longrightarrow> conforms p w)) \<and>
    onlyAt (vAddress v) s t"
proof -
  have ord: "orderly x s" using adj by (simp add: adjusting_def)
  obtain b where b: "SetValidatorUnstakingIfBelowMinimum v p s = (Inr b, t)"
    using run by (auto simp: bnd_Inr ret_run)
  note h = orderly_height [OF ord]
  from b show ?thesis
  proof (cases rule: BelowMinimum_cases)
    case 1
    with assms get show ?thesis by (auto simp: onlyAt_def)
  next
    case (2 h)
    have "orderly x t" by (rule maintainsD [OF ord.unstaking(1) ord b])
    with adjusting_replace [OF adj _ 2(1)] get
    have "adjusting x l False p t" by (simp add: sameStake_def)
    with 2 h show ?thesis by (auto simp: onlyAt_def onlyValidator_def table_simps conforms_def)
  qed
qed

lemma below_loop:
  assumes "adjusting x l False p s"
    and "bnd GetValidators (\<lambda>vs. for_each vs (\<lambda>v.
            bnd (SetValidatorUnstakingIfBelowMinimum v p) (\<lambda>_. ret ()))) s = (Inr r, t)"
  shows "adjusting x l (heightsFit p (fst (snd (snd (fst x))))) p t"
proof -
  have "adjusting x l False p t \<and>
      (\<forall>k w. tget (validators t) k = Some w \<longrightarrow> heightsFit p (fst (snd (snd (fst x)))) \<longrightarrow> conforms p w)"
    by (rule validators_loop [where s = s and a = "()" and r = r])
      (rule below_step, assumption+, rule assms(1), rule adjustingD [OF assms(1)],
       rule adjustingD [OF assms(1)], use assms(2) in \<open>simp add: GetValidators_def bnd_Inr gets_run for_each_fold\<close>)
  then show ?thesis by (simp add: adjusting_def)
qed

lemma length_shrink [simp]: "length (shrinkCommittees i n cs) = n"
  by (simp add: shrinkCommittees_def Let_def)

lemma enforce_step:
  assumes adj: "adjusting x l c p s" and get: "tget (validators s) (vAddress v) = Some v"
    and run: "enforceMaxCommittees n v i s = (Inr r, t)"
  shows "adjusting x l c p t \<and> (\<exists>w. tget (validators t) (vAddress v) = Some w \<and> length (vCommittees w) \<le> n) \<and>
    onlyAt (vAddress v) s t"
proof (cases "length (vCommittees v) \<le> n")
  case True
  with assms show ?thesis by (auto simp: enforceMaxCommittees_def ret_run onlyAt_def)
next
  case False
  let ?cs = "shrinkCommittees i n (vCommittees v)" and ?a = "vAddress v"
  let ?new = "v\<lparr>vCommittees := ?cs\<rparr>"
  let ?m = "if \<not> vDelegate v then UpdateCommittees ?a v (vStakedAmount v) ?cs
            else UpdateDelegations ?a v (vStakedAmount v) ?cs"
  obtain u where u: "?m s = (Inr (), u)" and t: "t = u\<lparr>validators := tset ?a ?new (validators u)\<rparr>"
    using run False by (auto simp: enforceMaxCommittees_def Let_def bnd_Inr ret_run SetValidator_run)
  have neutral: "token_neutral ?m" by (simp add: neutral_updates)
  have "conserved s" using adj by (simp add: adjusting_def)
  with u neutral_inflight [OF neutral] have cu: "conserved u" by (metis hoareD)
  have vu: "validators u = validators s" using neutral_run [OF neutral u] by simp
  have at: "validatorAt s ?a = v" using get by (simp add: validatorAt_def)
  have "conserved t"
    unfolding t using SetValidator_same_stake [of u ?new v 0] vu cu get by simp
  moreover have "ledger t" if l
  proof (rule ledger_replace [where a = ?a and new = ?new and s = s])
    show "ledger s" using adj that by (simp add: adjusting_def)
  qed (use u at vu in \<open>auto simp: t supplyMoved_def delegatedOnly_def delegateStake_def memberStake_def
      split: if_splits dest!: UpdateCommittees_moved UpdateDelegations_moved\<close>)
  moreover have "orderly x t"
  proof -
    have "maintains (orderly x) ?m" by (intro maintains_rules)
    moreover have "orderly x s" using adj by (simp add: adjusting_def)
    ultimately have "orderly x u" using u by (rule maintainsD)
    from ord.records [OF this, of ?new] show ?thesis by (simp add: t)
  qed
  moreover have "conforms p ?new = conforms p v" by (simp add: conforms_def)
  then have "conforms p w" if "c" "tget (validators t) k = Some w" for k w
    using that adj vu get by (auto simp: t adjusting_def table_simps split: if_splits)
  ultimately show ?thesis using vu by (simp add: t adjusting_def onlyAt_def table_simps)
qed

lemma enforce_loop:
  assumes "adjusting x l c p s"
    and "bnd GetValidators (\<lambda>vs. bnd (fold_m (enforceMaxCommittees n) vs 0) (\<lambda>_. ret ())) s = (Inr r, t)"
  shows "adjusting x l c p t \<and> (\<forall>k w. tget (validators t) k = Some w \<longrightarrow> length (vCommittees w) \<le> n)"
proof -
  obtain i where "fold_m (enforceMaxCommittees n) (map snd (validators s)) 0 s = (Inr i, t)"
    using assms(2) by (auto simp: GetValidators_def bnd_Inr gets_run ret_run)
  then show ?thesis
    by (intro validators_loop [where I = "adjusting x l c p" and f = "enforceMaxCommittees n" and s = s and a = 0 and r = i])
      (rule enforce_step, assumption+, rule assms(1), rule adjustingD [OF assms(1)], rule adjustingD [OF assms(1)])
qed


definition conformed :: "validatorParams \<Rightarrow> validatorParams \<Rightarrow> state \<Rightarrow> bool" where
  "conformed old new t \<longleftrightarrow> (\<forall>k v. tget (validators t) k = Some v \<longrightarrow>
     (vpMinimumStakeForValidators old < vpMinimumStakeForValidators new \<or>
      vpMinimumStakeForDelegates old < vpMinimumStakeForDelegates new \<longrightarrow> conforms new v) \<and>
     (vpMaxCommittees new < vpMaxCommittees old \<longrightarrow> length (vCommittees v) \<le> unat (vpMaxCommittees new)))"

lemma adjusting_cong:
  "adjusting x l c p s \<Longrightarrow> accounts t = accounts s \<Longrightarrow> pools t = pools s \<Longrightarrow> validators t = validators s \<Longrightarrow>
   supplyTracker t = supplyTracker s \<Longrightarrow> orderly x t \<Longrightarrow> adjusting x l c p t"
  by (simp add: adjusting_def inflight_def wf_def token_defs ledger_def committeeStake_def)

lemma reset_frames:
  assumes f: "\<And>s x. f (s\<lparr>committeesData := x\<rparr>) = f s" "\<And>s x. f (s\<lparr>checkpoints := x\<rparr>) = f s"
    "\<And>s x. f (s\<lparr>lockedBatches := x\<rparr>) = f s" "\<And>s x. f (s\<lparr>paramsCons := x\<rparr>) = f s"
  shows "keeps f (resetCommittee c)" "keeps f (resetRootHeight c' c)"
  unfolding resetCommittee_def resetRootHeight_def OverwriteCommitteeData_def GetCommitteeData_def
    getCommitteeDataAndList_def GetCommitteesData_def SetCommitteesData_def DeleteCheckpointsForChain_def
    DeleteLockedBatch_def SetParamsCons_def
  by (intro keeps_rules; simp add: f)+

context framed_core
begin

lemma set_params [maintains_rules]:
  "maintains P (SetParamsCons c)" "maintains P (SetParamsVal v)" "maintains P (SetParamsFee f)" "maintains P (SetParamsGov g)"
  "maintains P (DeleteCheckpointsForChain i)" "maintains P (DeleteLockedBatch i)"
  unfolding SetParamsCons_def SetParamsVal_def SetParamsFee_def SetParamsGov_def DeleteCheckpointsForChain_def
    DeleteLockedBatch_def
  by (intro maintains_rules; simp add: framed_fields)+

lemma set_param [maintains_rules]: "maintains P (setParam prev sp n v)"
  by (cases v) (simp_all add: setParam_def setSpace_def Let_def, (intro maintains_rules impI conjI)+)

lemma adjustments [maintains_rules]:
  "maintains P (unstakeBelowMinimum p q)" "maintains P (shrinkAllCommittees p q)"
  unfolding unstakeBelowMinimum_def shrinkAllCommittees_def enforceMaxCommittees_def by (intro maintains_rules)+

lemma update_param:
  assumes "\<And>c. maintains P (resetCommittee c)" and "\<And>c c'. maintains P (resetRootHeight c' c)"
  shows "maintains P (UpdateParam sp n v)"
  unfolding UpdateParam_def ConformStateToParamUpdate_def GetParams_def by (intro maintains_rules assms)

end

context framed
begin

lemma resets [maintains_rules]:
  "maintains P (resetCommittee c)" "maintains P (resetRootHeight c' c)"
  unfolding resetCommittee_def resetRootHeight_def by (intro maintains_rules)+

lemmas update_any_param [maintains_rules] = update_param [OF resets]

end

lemma orderly_resets:
  "maintains (orderly x) (resetCommittee c)" "maintains (orderly x) (resetRootHeight c' c)"
proof -
  have empty: "percents_ok (emptyCommitteeData c)" for c by (simp add: percents_ok_def percentSum_def emptyCommitteeData_def)
  show "maintains (orderly x) (resetCommittee c)"
    unfolding resetCommittee_def by (intro maintains_rules orderly_Overwrite empty)
  have step: "orderly x (snd (bnd (GetCommitteeData i) (\<lambda>d. OverwriteCommitteeData (d\<lparr>cdLastRootHeightUpdated := 0\<rparr>)) s))"
    if s: "orderly x s" for i s
  proof -
    obtain l e j where f: "findCommitteeData i (committeesData s) = (l, e, j)" by (rule prod_cases3)
    have "snd x \<Longrightarrow> percents_ok (e\<lparr>cdLastRootHeightUpdated := 0\<rparr>)"
      using orderly_find [OF s f] by (simp add: percents_ok_def)
    then have "maintains (orderly x) (OverwriteCommitteeData (e\<lparr>cdLastRootHeightUpdated := 0\<rparr>))" by (rule orderly_Overwrite)
    with s f show ?thesis
      by (simp add: GetCommitteeData_def getCommitteeDataAndList_def GetCommitteesData_def go_simps maintains_def)
  qed
  have "maintains (orderly x) (bnd (GetCommitteeData i) (\<lambda>d. OverwriteCommitteeData (d\<lparr>cdLastRootHeightUpdated := 0\<rparr>)))" for i
    unfolding maintains_def using step by blast
  then show "maintains (orderly x) (resetRootHeight c' c)"
    unfolding resetRootHeight_def by (intro maintains_when maintains_bnd [OF maintains_simple(3)])
qed

lemmas orderly_update_param [maintains_rules] = ord.update_param [OF orderly_resets]

lemma frame_adjusts:
  assumes "adjusting x l c p s" and "m s = (Inr r, t)" and "maintains (orderly x) m"
    and k: "keeps (\<lambda>s. (accounts s, pools s, validators s, supplyTracker s, paramsVal s)) m"
  shows "adjusting x l c p t \<and> paramsVal t = paramsVal s"
proof -
  have "orderly x s" using assms(1) by (simp add: adjusting_def)
  with assms(3) have "orderly x t" using assms(2) by (rule maintainsD)
  with keepsD [OF k assms(2)] adjusting_cong [OF assms(1), of t] show ?thesis by simp
qed

lemma Conform_adjusts:
  assumes adj: "adjusting x l False (paramsVal s) s"
    and run: "ConformStateToParamUpdate prev s = (Inr r, t)"
  shows "adjusting x l False (paramsVal s) t \<and>
    (heightsFit (paramsVal s) (height s) \<longrightarrow> conformed (pmValidator prev) (paramsVal s) t)"
proof -
  let ?p = "paramsVal s" and ?q = "pmValidator prev"
  obtain u v w where u: "resetCommittee (paramsCons s) s = (Inr (), u)"
    and v: "resetRootHeight (pmConsensus prev) (paramsCons s) u = (Inr (), v)"
    and w: "unstakeBelowMinimum ?q ?p v = (Inr (), w)" and t: "shrinkAllCommittees ?q ?p w = (Inr (), t)"
    using run by (auto simp: ConformStateToParamUpdate_def GetParams_def bnd_Inr gets_run ret_run)
  let ?b = "vpMinimumStakeForValidators ?q < vpMinimumStakeForValidators ?p \<or>
             vpMinimumStakeForDelegates ?q < vpMinimumStakeForDelegates ?p"
  let ?c = "?b \<and> heightsFit ?p (height s)"
  have "adjusting x l False ?p u"
    using frame_adjusts [where m = "resetCommittee (paramsCons s)", OF adj u orderly_resets(1)]
    by (simp add: reset_frames)
  then have adj_v: "adjusting x l False ?p v"
    using frame_adjusts [where m = "resetRootHeight (pmConsensus prev) (paramsCons s)", OF _ v orderly_resets(2)]
    by (simp add: reset_frames)
  have "height s = fst (snd (snd (fst x)))" using adj by (auto simp: adjusting_def dest: orderly_height)
  then have adj_w: "adjusting x l ?c ?p w"
    using w below_loop [OF adj_v] adj_v by (cases ?b) (simp_all add: unstakeBelowMinimum_def when_m_def ret_run)
  show ?thesis
  proof (cases "vpMaxCommittees ?p < vpMaxCommittees ?q")
    case True
    with enforce_loop [OF adj_w] t show ?thesis
      by (auto simp: shrinkAllCommittees_def when_m_def adjusting_def conformed_def)
  next
    case False
    with t adj_w show ?thesis
      by (auto simp: shrinkAllCommittees_def when_m_def ret_run adjusting_def conformed_def)
  qed
qed

lemma setSpace_frames:
  assumes "\<And>q. keeps f (g q)" and "\<And>q. keeps f (l q)"
  shows "keeps f (setSpace res g l)"
  unfolding setSpace_def using assms by (intro keeps_rules)

lemma setParam_frames:
  assumes f: "\<And>s x. f (s\<lparr>paramsCons := x\<rparr>) = f s" "\<And>s x. f (s\<lparr>paramsVal := x\<rparr>) = f s"
      "\<And>s x. f (s\<lparr>paramsFee := x\<rparr>) = f s" "\<And>s x. f (s\<lparr>daoRewardPercentage := x\<rparr>) = f s"
  shows "keeps f (setParam prev sp n v)"
proof -
  have "keeps f (SetParamsCons c)" "keeps f (SetParamsVal y)" "keeps f (SetParamsFee z)" "keeps f (SetParamsGov g)" for c y z g
    unfolding SetParamsCons_def SetParamsVal_def SetParamsFee_def SetParamsGov_def by (intro keeps_rules; simp add: f)+
  note rules = keeps_rules setSpace_frames this
  show ?thesis by (cases v) (simp_all add: setParam_def Let_def, (intro rules impI conjI)+)
qed

lemma UpdateParam_run:
  assumes "UpdateParam sp n v s = (Inr r, t)"
  obtains prev u where "pmValidator prev = paramsVal s" "setParam prev sp n v s = (Inr (), u)"
    "ConformStateToParamUpdate prev u = (Inr (), t)"
  using assms by (auto simp: UpdateParam_def GetParams_def bnd_Inr gets_run ret_run intro!: that)

lemma Conform_params:
  assumes "ConformStateToParamUpdate prev s = (Inr r, t)"
  shows "paramsVal t = paramsVal s"
proof -
  have "keeps paramsVal (SetValidatorUnstakingIfBelowMinimum v p)" for v p
    unfolding SetValidatorUnstakingIfBelowMinimum_def SetValidatorUnstaking_def SetValidatorUnpaused_def SetValidator_def
    by (intro keeps_rules; simp)
  moreover have "keeps paramsVal (enforceMaxCommittees n v i)" for n v i
    unfolding enforceMaxCommittees_def SetValidator_def by (intro keeps_rules keeps_committees; simp)
  ultimately have "keeps paramsVal (ConformStateToParamUpdate prev)"
    unfolding ConformStateToParamUpdate_def unstakeBelowMinimum_def shrinkAllCommittees_def GetParams_def GetValidators_def
    by (intro keeps_rules reset_frames; simp)
  then show ?thesis using assms by (rule keepsD)
qed

lemma UpdateParam_adjusts:
  assumes "conserved s" and "l \<longrightarrow> ledger s" and "orderly x s"
    and run: "UpdateParam sp n v s = (Inr r, t)"
  shows "conserved t \<and> (l \<longrightarrow> ledger t) \<and> orderly x t \<and>
    (heightsFit (paramsVal t) (height s) \<longrightarrow> conformed (paramsVal s) (paramsVal t) t)"
proof -
  obtain prev u where prev: "pmValidator prev = paramsVal s" and u: "setParam prev sp n v s = (Inr (), u)"
    and t: "ConformStateToParamUpdate prev u = (Inr (), t)"
    using run by (rule UpdateParam_run)
  let ?f = "\<lambda>s. (accounts s, pools s, validators s, supplyTracker s, height s, contextOf s, lockedBatches s, nextBatches s, committeesData s)"
  have "keeps ?f (setParam prev sp n v)" by (rule setParam_frames) (simp_all add: contextOf_def)
  note same = keepsD [OF this u]
  have "adjusting x l False (paramsVal u) s" using assms(1-3) by (simp add: adjusting_def)
  then have "adjusting x l False (paramsVal u) u"
    by (rule adjusting_cong) (use same assms(3) in \<open>simp_all add: orderly_def keyed_def batchesOk_def paymentsOk_def\<close>)
  from Conform_adjusts [OF this t] same prev Conform_params [OF t] show ?thesis
    by (simp add: adjusting_def)
qed

text \<open>
  The index arithmetic that picks the committees a validator keeps is a rotation: the validator
  keeps a prefix of its committees rotated by the running index, so no committee is invented or
  doubled.
\<close>

theorem shrunk_committees_rotate:
  assumes "n \<le> length committees"
  shows "shrinkCommittees idx n committees = take n (rotate idx committees)"
proof (rule nth_equalityI)
  fix i assume i: "i < length (shrinkCommittees idx n committees)"
  then have "i < n" "i < length committees" using assms by (simp_all add: shrinkCommittees_def Let_def)
  then show "shrinkCommittees idx n committees ! i = take n (rotate idx committees) ! i"
    using nth_rotate [of i committees idx]
    by (simp add: shrinkCommittees_def Let_def mod_simps add.commute)
qed (use assms in \<open>simp add: shrinkCommittees_def Let_def\<close>)

theorem shrunk_committees_rotate_witness:
  "shrinkCommittees 4 2 [11, 12, 13] = take 2 (rotate 4 [11, 12, 13]) \<and>
   take 2 (rotate 4 [11, 12, 13 :: u64]) = [12, 13]"
  using shrunk_committees_rotate [of 2 "[11, 12, 13]" 4]
  by (simp add: numeral_eq_Suc)

text \<open>
  C24: An accepted parameter update leaves the token supply and the stakes ledger intact and adjusts the
  validators to it: when a minimum stake was raised, every validator below its minimum is unstaking;
  when the maximum number of committees shrank, no validator is left in more.
\<close>

theorem parameter_update_conforms:
  assumes "conserved s" and "ledger s" and "keyed s" and "batchesOk s"
    and "UpdateParam sp n v s = (Inr (), t)"
    and "heightsFit (paramsVal t) (height s)"
  shows "conserved t \<and> ledger t \<and> conformed (paramsVal s) (paramsVal t) t"
  using UpdateParam_adjusts [of s True "(contextOf s, False)" sp n v "()" t] assms by (simp add: orderly_def)

lemmas gov_eval = UpdateParam_def setParam_def setSpace_def ConformStateToParamUpdate_def resetCommittee_def
  resetRootHeight_def unstakeBelowMinimum_def shrinkAllCommittees_def GetParams_def GetValidators_def SetParamsVal_def
  SetValidatorUnstakingIfBelowMinimum_def SetValidatorUnstaking_def SetValidator_def when_m_def go_simps Let_def

lemma exampleState_ok:
  "conserved exampleState" "ledger exampleState" "keyed exampleState" "batchesOk exampleState"
  "pointsConsistent exampleState"
  by (auto simp: ledger_def example_eval tok_def committeeStake_def supplyPools_def spAmount_def inflight_def
      delegatedOnly_def memberStake_def delegateStake_def keyed_def batchesOk_def wf_def token_defs
      pointsConsistent_def poolAt_def points_ok_def points_sum_def split: option.splits)

theorem parameter_update_conforms_witness:
  "\<exists>t. UpdateParam ''val'' ''minimumStakeForValidators'' (UInt64Wrapper 40) exampleState = (Inr (), t) \<and>
     conserved t \<and> ledger t \<and> conformed (paramsVal exampleState) (paramsVal t) t"
proof -
  let ?m = "UpdateParam ''val'' ''minimumStakeForValidators'' (UInt64Wrapper 40) exampleState"
  have "fst ?m = Inr ()"
    by (simp add: gov_eval example_eval ValidatorParams_SetUint64_def ValidatorParams_Check_def checked_def)
  then have run: "?m = (Inr (), snd ?m)" by (metis prod.collapse)
  have fit: "heightsFit (paramsVal (snd ?m)) (height exampleState)"
    by (simp add: gov_eval example_eval ValidatorParams_SetUint64_def ValidatorParams_Check_def checked_def heightsFit_def)
  from parameter_update_conforms [OF exampleState_ok(1-4) run fit] run show ?thesis by blast
qed

end
