(* ===== verification/Messages.thy ===== *)
theory Messages
  imports Gov
begin

text \<open>
  Transaction payloads (\<open>fsm/message.go\<close>, \<open>fsm/message_helpers.go\<close>): the stateless checks of every
  message, its handler, its fee and who may sign it, and the handling of certificate results
  (\<open>fsm/automatic.go\<close>) that a message and the start of a block share.

  What the machine takes from outside the repository is the record \<open>env\<close>: which bytes are public
  keys and their addresses, the signature check of a certificate, the codecs; and from the node
  around it: the committed states by height, the indexed certificates by height and the
  validator sets cached by the controller. A \<open>bytes\<close> field that is absent decodes to an empty
  one, so the tests for \<open>nil\<close> are tests for the empty list.
\<close>

section \<open>What the machine is given\<close>

record env =
  enPkOk :: "bytes \<Rightarrow> bool"
  enBlsOk :: "bytes \<Rightarrow> bool"
  enAddressOf :: "bytes \<Rightarrow> address"
  enMaskOk :: "nat \<Rightarrow> bytes \<Rightarrow> bool"
  enVerify :: "validatorSet \<Rightarrow> bytes \<Rightarrow> bytes \<Rightarrow> bytes \<Rightarrow> bool"
  enCodec :: codec
  enDex :: dexCodec
  enHistory :: "u64 \<Rightarrow> state"
  enCertificate :: "u64 \<Rightarrow> error + quorumCertificate option"
  enLastValidatorSet :: "u64 \<Rightarrow> u64 \<Rightarrow> validatorSet option"

text \<open>\<open>TimeMachine\<close>: height zero and heights to come are the latest committed state.\<close>

definition TimeMachine :: "env \<Rightarrow> u64 \<Rightarrow> state fsm" where
  "TimeMachine e h = gets (\<lambda>s. enHistory e (if h = 0 \<or> h > height s then height s else h))"

definition LoadCommittee :: "env \<Rightarrow> u64 \<Rightarrow> u64 \<Rightarrow> validatorSet fsm" where
  "LoadCommittee e chainId h = bnd (TimeMachine e h) (\<lambda>historical.
     case fst (GetCommitteeMembers (\<lambda>delegate. if delegate then enPkOk e else enBlsOk e) chainId historical) of
       Inl x \<Rightarrow> err x
     | Inr vs \<Rightarrow> ret vs)"

definition LoadRootChainId :: "env \<Rightarrow> u64 \<Rightarrow> u64 fsm" where
  "LoadRootChainId e h = bnd (TimeMachine e h) (\<lambda>historical. ret (cpRootChainId (paramsCons historical)))"

definition LoadIsOwnRoot :: "env \<Rightarrow> bool fsm" where
  "LoadIsOwnRoot e = bnd (gets height) (\<lambda>h. bnd (LoadRootChainId e h) (\<lambda>rootId.
     gets (\<lambda>s. cfgChainId (cfg s) = rootId)))"

definition LoadCertificate :: "env \<Rightarrow> u64 \<Rightarrow> quorumCertificate option fsm" where
  "LoadCertificate e h = (case enCertificate e (if h \<le> 1 then 1 else h) of Inl x \<Rightarrow> err x | Inr qc \<Rightarrow> ret qc)"

section \<open>The messages\<close>

record messageStake =
  stPublicKey :: bytes
  stAmount :: u64
  stCommittees :: "u64 list"
  stNetAddress :: string
  stOutputAddress :: address
  stDelegate :: bool
  stCompound :: bool
  stSigner :: address

record messageEditStake =
  esAddress :: address
  esAmount :: u64
  esCommittees :: "u64 list"
  esNetAddress :: string
  esOutputAddress :: address
  esSigner :: address
  esCompound :: bool

record messageChangeParameter =
  chParameterSpace :: string
  chParameterKey :: string
  chParameterValue :: "paramValue option"
  chStartHeight :: u64
  chEndHeight :: u64
  chSigner :: address
  chProposalHash :: string

record messageDAOTransfer =
  daAddress :: address
  daAmount :: u64
  daStartHeight :: u64
  daEndHeight :: u64
  daProposalHash :: string
  daMint :: bool

record messageSubsidy =
  suAddress :: address
  suChainId :: u64
  suAmount :: u64
  suOpcode :: bytes

record messageCreateOrder =
  coChainId :: u64
  coData :: bytes
  coAmountForSale :: u64
  coRequestedAmount :: u64
  coSellerReceiveAddress :: bytes
  coSellersSendAddress :: address
  coOrderId :: bytes

record messageEditOrder =
  eoOrderId :: bytes
  eoChainId :: u64
  eoData :: bytes
  eoAmountForSale :: u64
  eoRequestedAmount :: u64
  eoSellerReceiveAddress :: bytes

record messageDexLimitOrder =
  mlChainId :: u64
  mlAmountForSale :: u64
  mlRequestedAmount :: u64
  mlAddress :: address
  mlOrderId :: bytes

record messageDexLiquidityDeposit =
  mdChainId :: u64
  mdAmount :: u64
  mdAddress :: address
  mdOrderId :: bytes

record messageDexLiquidityWithdraw =
  mwChainId :: u64
  mwPercent :: u64
  mwAddress :: address
  mwOrderId :: bytes

datatype message =
    MessageSend messageSend
  | MessageStake messageStake
  | MessageEditStake messageEditStake
  | MessageUnstake address
  | MessagePause address
  | MessageUnpause address
  | MessageChangeParameter messageChangeParameter
  | MessageDAOTransfer messageDAOTransfer
  | MessageCertificateResults "quorumCertificate option"
  | MessageSubsidy messageSubsidy
  | MessageCreateOrder messageCreateOrder
  | MessageEditOrder messageEditOrder
  | MessageDeleteOrder bytes u64
  | MessageDexLimitOrder messageDexLimitOrder
  | MessageDexLiquidityDeposit messageDexLiquidityDeposit
  | MessageDexLiquidityWithdraw messageDexLiquidityWithdraw

section \<open>Stateless checks (\<open>fsm/message_helpers.go\<close>)\<close>

definition checkAmount :: "u64 \<Rightarrow> error + unit" where
  "checkAmount amount = check (amount = 0) ErrInvalidAmount"

definition checkPercent :: "u64 \<Rightarrow> error + unit" where
  "checkPercent percent = checks [check (percent = 0) ErrInvalidPercentAllocation,
     check (percent > 100) ErrInvalidPercentAllocation]"

definition checkAddress :: "bytes \<Rightarrow> error + unit" where
  "checkAddress address = checks [check (address = []) (Error ''AddressEmpty''),
     check (length address \<noteq> AddressSize) ErrAddressSize]"

definition checkExternalAddress :: "bytes \<Rightarrow> error + unit" where
  "checkExternalAddress address = check (length address = 0 \<or> length address > 255) ErrAddressSize"

definition checkOutputAddress :: "bytes \<Rightarrow> error + unit" where
  "checkOutputAddress output = checks [check (output = []) (Error ''OutputAddressEmpty''),
     check (length output \<noteq> AddressSize) (Error ''OutputAddressSize'')]"

definition checkPubKey :: "bytes \<Rightarrow> bool \<Rightarrow> error + unit" where
  "checkPubKey publicKey delegate = checks [check (publicKey = []) (Error ''PublicKeyEmpty''),
     check (\<not> delegate \<and> length publicKey \<noteq> BLS12381PubKeySize) (Error ''PublicKeySize'')]"

definition ensureEmpty :: "bytes \<Rightarrow> error + unit" where
  "ensureEmpty b = check (length b \<noteq> 0) (Error ''NotEmpty'')"

definition ReservedIDs :: "u64 list" where
  "ReservedIDs = [0, DAOPoolID]"

definition checkChainId :: "u64 \<Rightarrow> error + unit" where
  "checkChainId i = checks [check (i \<in> set ReservedIDs) (Error ''InvalidChainId''),
     check (i > MaxChainId) (Error ''InvalidChainId'')]"

fun checkCommitteeList :: "u64 list \<Rightarrow> u64 list \<Rightarrow> error + unit" where
  "checkCommitteeList seen [] = Inr ()"
| "checkCommitteeList seen (committee # cs) =
     (if committee \<in> set seen then Inl (Error ''InvalidNumCommittees'')
      else case checkChainId committee of
        Inl e \<Rightarrow> Inl e
      | Inr _ \<Rightarrow> checkCommitteeList (committee # seen) cs)"

definition checkCommittees :: "u64 list \<Rightarrow> error + unit" where
  "checkCommittees committees = checks [
     check (length committees > 1000 \<or> length committees = 0) (Error ''InvalidNumCommittees''),
     checkCommitteeList [] committees]"

definition checkStartEndHeight :: "u64 \<Rightarrow> u64 \<Rightarrow> error + unit" where
  "checkStartEndHeight startHeight endHeight = checks [
     check (startHeight \<ge> endHeight) (Error ''InvalidBlockRange''),
     check (endHeight - startHeight > 10000) (Error ''InvalidBlockRange'')]"

fun checkLockOrders :: "bytes list \<Rightarrow> lockOrder list \<Rightarrow> error + unit" where
  "checkLockOrders seen [] = Inr ()"
| "checkLockOrders seen (lock # locks) =
     (if loOrderId lock \<in> set seen then Inl (Error ''DuplicateLockOrder'')
      else case checkAddress (loBuyerReceiveAddress lock) of
        Inl e \<Rightarrow> Inl e
      | Inr _ \<Rightarrow> if loBuyerChainDeadline lock = 0 then Inl (Error ''InvalidBuyerDeadline'')
                 else checkLockOrders (loOrderId lock # seen) locks)"

definition checkOrders :: "orders option \<Rightarrow> error + unit" where
  "checkOrders orders = (case orders of
       None \<Rightarrow> Inr ()
     | Some orders \<Rightarrow> checks [checkLockOrders [] (orLockOrders orders),
         check (\<not> distinct (orResetOrders orders)) (Error ''InvalidCloseOrder''),
         check (\<not> distinct (orCloseOrders orders)) (Error ''InvalidCloseOrder'')])"

text \<open>
  \<open>ValidNetURLInput\<close>: the regular expression of \<open>lib/util.go\<close> accepts an optional \<open>tcp://\<close>, a host of
  dot separated labels (which covers \<open>localhost\<close> and dotted quads) or a bracketed IPv6 address, and an
  optional port of one to five digits.
\<close>

definition isAlnum :: "char \<Rightarrow> bool" where
  "isAlnum c = (let n = of_char c :: nat in 48 \<le> n \<and> n \<le> 57 \<or> 65 \<le> n \<and> n \<le> 90 \<or> 97 \<le> n \<and> n \<le> 122)"

definition isHexColon :: "char \<Rightarrow> bool" where
  "isHexColon c = (let n = of_char c :: nat in 48 \<le> n \<and> n \<le> 58 \<or> 65 \<le> n \<and> n \<le> 70 \<or> 97 \<le> n \<and> n \<le> 102)"

definition validHost :: "string \<Rightarrow> bool" where
  "validHost h = (list_all (\<lambda>label. label \<noteq> [] \<and> list_all (\<lambda>c. isAlnum c \<or> c = CHR ''-'') label) (Split CHR ''.'' h) \<or>
     (length h > 2 \<and> hd h = CHR ''['' \<and> last h = CHR '']'' \<and> list_all isHexColon (butlast (tl h))))"

definition ValidNetURLInput :: "string \<Rightarrow> bool" where
  "ValidNetURLInput netURL =
     (let r = (if take 6 netURL = ''tcp://'' then drop 6 netURL else netURL);
          port = rev (takeWhile (\<lambda>c. c \<noteq> CHR '':'') (rev r));
          host = take (length r - length port - 1) r in
      validHost r \<or> (CHR '':'' \<in> set r \<and> 1 \<le> length port \<and> length port \<le> 5 \<and>
        list_all (\<lambda>c. digitOf c \<noteq> None) port \<and> validHost host))"

definition CheckNetAddress :: "string \<Rightarrow> bool \<Rightarrow> error + unit" where
  "CheckNetAddress netAddress isDelegate =
     (if isDelegate then check (length netAddress \<noteq> 0) (Error ''InvalidNetAddressLen'')
      else checks [check (length netAddress < 1 \<or> length netAddress > 255) (Error ''InvalidNetAddressLen''),
        check (\<not> ValidNetURLInput netAddress) (Error ''InvalidStateNetAddress'')])"

definition MessageSend_Check :: "messageSend \<Rightarrow> error + unit" where
  "MessageSend_Check x = checks [
     checkAddress (addr_bytes (msFromAddress x)),
     check (addr_bytes (msToAddress x) = []) (Error ''RecipientAddressEmpty''),
     check (length (addr_bytes (msToAddress x)) \<noteq> AddressSize) (Error ''RecipientAddressSize''),
     checkAmount (msAmount x),
     (if msVestingStartHeight x = 0 \<and> msVestingCliffHeight x = 0 \<and> msVestingEndHeight x = 0 then Inr ()
      else checks [
        check (msVestingEndHeight x \<le> msVestingStartHeight x) (Error ''InvalidVesting''),
        check (msVestingCliffHeight x < msVestingStartHeight x \<or> msVestingCliffHeight x > msVestingEndHeight x)
          (Error ''InvalidVesting'')])]"

definition MessageStake_Check :: "messageStake \<Rightarrow> error + unit" where
  "MessageStake_Check x = checks [
     checkOutputAddress (addr_bytes (stOutputAddress x)),
     checkPubKey (stPublicKey x) (stDelegate x),
     checkCommittees (stCommittees x),
     ensureEmpty (addr_bytes (stSigner x)),
     checkAmount (stAmount x)]"

definition MessageEditStake_Check :: "messageEditStake \<Rightarrow> error + unit" where
  "MessageEditStake_Check x = checks [
     checkAddress (addr_bytes (esAddress x)),
     checkOutputAddress (addr_bytes (esOutputAddress x)),
     checkCommittees (esCommittees x),
     ensureEmpty (addr_bytes (esSigner x)),
     checkAmount (esAmount x)]"

definition MessageChangeParameter_Check :: "messageChangeParameter \<Rightarrow> error + unit" where
  "MessageChangeParameter_Check x = checks [
     checkAddress (addr_bytes (chSigner x)),
     check (chParameterKey x = []) (Error ''ParamKeyEmpty''),
     check (chParameterValue x = None) (Error ''ParamValueEmpty''),
     checkStartEndHeight (chStartHeight x) (chEndHeight x),
     check (chProposalHash x \<noteq> []) (Error ''InvalidProposalHash'')]"

definition MessageDAOTransfer_Check :: "messageDAOTransfer \<Rightarrow> error + unit" where
  "MessageDAOTransfer_Check x = checks [
     checkAddress (addr_bytes (daAddress x)),
     checkStartEndHeight (daStartHeight x) (daEndHeight x),
     check (daProposalHash x \<noteq> []) (Error ''InvalidProposalHash''),
     checkAmount (daAmount x)]"

definition MessageCertificateResults_Check :: "env \<Rightarrow> quorumCertificate option \<Rightarrow> error + unit" where
  "MessageCertificateResults_Check e qc = (case QuorumCertificate_CheckBasic (enCodec e) qc of
       Inl x \<Rightarrow> Inl x
     | Inr _ \<Rightarrow> (case qcResults (the qc) of
         None \<Rightarrow> Inl (Error ''EmptyCertificateResults'')
       | Some results \<Rightarrow> checks [
           check (qcBlock (the qc) \<noteq> None) ErrNilBlock,
           checkChainId (vwChainId (the (qcHeader (the qc)))),
           RewardRecipients_CheckBasic (crRewardRecipients results),
           check (rrNumberOfSamples (the (crRewardRecipients results)) \<noteq> 0) (Error ''InvalidNumOfSamples''),
           (case crCheckpoint results of None \<Rightarrow> Inr ()
            | Some ck \<Rightarrow> check (length (ckBlockHash ck) > 100) (Error ''InvalidBlockHash'')),
           checkOrders (crOrders results)]))"

definition MessageSubsidy_Check :: "messageSubsidy \<Rightarrow> error + unit" where
  "MessageSubsidy_Check x = checks [checkAddress (addr_bytes (suAddress x)),
     check (length (suOpcode x) > 100) (Error ''InvalidOpcode'')]"

definition MessageCreateOrder_Check :: "messageCreateOrder \<Rightarrow> error + unit" where
  "MessageCreateOrder_Check x = checks [
     checkChainId (coChainId x),
     check (length (coData x) > 100) (Error ''InvalidOpcode''),
     check (coAmountForSale x = 0 \<or> coRequestedAmount x = 0) ErrInvalidAmount,
     ensureEmpty (coOrderId x),
     checkAddress (addr_bytes (coSellersSendAddress x)),
     checkExternalAddress (coSellerReceiveAddress x)]"

definition MessageEditOrder_Check :: "messageEditOrder \<Rightarrow> error + unit" where
  "MessageEditOrder_Check x = checks [
     checkChainId (eoChainId x),
     check (length (eoData x) > 100) (Error ''InvalidOpcode''),
     check (eoAmountForSale x = 0 \<or> eoRequestedAmount x = 0) ErrInvalidAmount,
     checkExternalAddress (eoSellerReceiveAddress x)]"

definition MessageDexLimitOrder_Check :: "messageDexLimitOrder \<Rightarrow> error + unit" where
  "MessageDexLimitOrder_Check x = checks [checkAddress (addr_bytes (mlAddress x)),
     checkAmount (mlAmountForSale x), checkAmount (mlRequestedAmount x), checkChainId (mlChainId x)]"

definition MessageDexLiquidityDeposit_Check :: "messageDexLiquidityDeposit \<Rightarrow> error + unit" where
  "MessageDexLiquidityDeposit_Check x = checks [checkAddress (addr_bytes (mdAddress x)),
     checkAmount (mdAmount x), checkChainId (mdChainId x)]"

definition MessageDexLiquidityWithdraw_Check :: "messageDexLiquidityWithdraw \<Rightarrow> error + unit" where
  "MessageDexLiquidityWithdraw_Check x = checks [checkAddress (addr_bytes (mwAddress x)),
     checkPercent (mwPercent x), checkChainId (mwChainId x)]"

text \<open>The \<open>Check\<close> method of the message interface.\<close>

definition Message_Check :: "env \<Rightarrow> message \<Rightarrow> error + unit" where
  "Message_Check e msg = (case msg of
       MessageSend x \<Rightarrow> MessageSend_Check x
     | MessageStake x \<Rightarrow> MessageStake_Check x
     | MessageEditStake x \<Rightarrow> MessageEditStake_Check x
     | MessageUnstake a \<Rightarrow> checkAddress (addr_bytes a)
     | MessagePause a \<Rightarrow> checkAddress (addr_bytes a)
     | MessageUnpause a \<Rightarrow> checkAddress (addr_bytes a)
     | MessageChangeParameter x \<Rightarrow> MessageChangeParameter_Check x
     | MessageDAOTransfer x \<Rightarrow> MessageDAOTransfer_Check x
     | MessageCertificateResults qc \<Rightarrow> MessageCertificateResults_Check e qc
     | MessageSubsidy x \<Rightarrow> MessageSubsidy_Check x
     | MessageCreateOrder x \<Rightarrow> MessageCreateOrder_Check x
     | MessageEditOrder x \<Rightarrow> MessageEditOrder_Check x
     | MessageDeleteOrder _ chainId \<Rightarrow> checkChainId chainId
     | MessageDexLimitOrder x \<Rightarrow> MessageDexLimitOrder_Check x
     | MessageDexLiquidityDeposit x \<Rightarrow> MessageDexLiquidityDeposit_Check x
     | MessageDexLiquidityWithdraw x \<Rightarrow> MessageDexLiquidityWithdraw_Check x)"

section \<open>Certificate results (\<open>fsm/automatic.go\<close>)\<close>

text \<open>The table keeps the most recent checkpoint of a chain, the only one the machine reads back.\<close>

definition HandleCheckpoint :: "u64 \<Rightarrow> certificateResult \<Rightarrow> unit fsm" where
  "HandleCheckpoint chainId results = (case crCheckpoint results of
       None \<Rightarrow> ret ()
     | Some ck \<Rightarrow>
         if ckBlockHash ck = [] then ret ()
         else bnd (gets (\<lambda>s. case tget (checkpoints s) chainId of None \<Rightarrow> 0 | Some (h, _) \<Rightarrow> h)) (\<lambda>mostRecent.
           if ckHeight ck \<le> mostRecent then err ErrInvalidCheckpoint
           else modify (\<lambda>s. s\<lparr>checkpoints := tset chainId (ckHeight ck, ckBlockHash ck) (checkpoints s)\<rparr>)))"

text \<open>What follows the exchange: order book, checkpoint, byzantine actors, retirement, rewards.\<close>

definition applyResults ::
    "env \<Rightarrow> quorumCertificate \<Rightarrow> certificateResult \<Rightarrow> view \<Rightarrow> rewardRecipients \<Rightarrow> validatorSet option \<Rightarrow> unit fsm" where
  "applyResults e qc results header recipients committee =
     (let chainId = vwChainId header in
      bnd (gets (\<lambda>s. cfgChainId (cfg s))) (\<lambda>self.
      bnd (HandleCommitteeSwaps (crOrders results) chainId) (\<lambda>_.
      bnd (HandleCheckpoint chainId results) (\<lambda>_.
      bnd (HandleByzantine (enPkOk e) (enBlsOk e) (enMaskOk e) (enAddressOf e) qc committee) (\<lambda>nonSignerPercent.
      bnd (when_m (crRetired results \<and> chainId \<noteq> self) (RetireCommittee chainId)) (\<lambda>_.
      UpsertCommitteeData \<lparr>cdChainId = chainId, cdLastRootHeightUpdated = vwRootHeight header,
        cdLastChainHeightUpdated = vwHeight header,
        cdPaymentPercents = map (\<lambda>p. p\<lparr>ppcPercent := Uint64ReducePercentage (ppcPercent p) nonSignerPercent\<rparr>)
          (rrPaymentPercents recipients),
        cdNumberOfSamples = 0\<rparr>))))))"

definition HandleCertificateResults ::
    "env \<Rightarrow> quorumCertificate option \<Rightarrow> validatorSet option \<Rightarrow> unit fsm" where
  "HandleCertificateResults e qc0 committee = (case qc0 of
       None \<Rightarrow> err ErrNilCertResults
     | Some qc \<Rightarrow> (case qcResults qc of
         None \<Rightarrow> err ErrNilCertResults
       | Some results \<Rightarrow> (case qcHeader qc of
           None \<Rightarrow> err ErrEmptyView
         | Some header \<Rightarrow> (case crRewardRecipients results of
             None \<Rightarrow> err ErrNilRewardRecipients
           | Some recipients \<Rightarrow>
               let chainId = vwChainId header; isNested = (committee = None) in
               bnd (CommitteeIsRetired chainId) (\<lambda>retired.
               if retired then err ErrNonSubsidizedCommittee
               else bnd (GetCommitteeData chainId) (\<lambda>data.
                 if vwRootHeight header < cdLastRootHeightUpdated data then err ErrInvalidQCRootChainHeight
                 else if vwHeight header \<le> cdLastChainHeightUpdated data then err ErrInvalidQCCommitteeHeight
                 else bnd (gets (\<lambda>s. cfgChainId (cfg s))) (\<lambda>self.
                   bnd (when_m (chainId \<noteq> self \<or> isNested) (HandleDexBatch (enDex e) chainId results isNested)) (\<lambda>_.
                   applyResults e qc results header recipients committee))))))))"

section \<open>Handlers (\<open>fsm/message.go\<close>)\<close>

definition HandleMessageSend :: "messageSend \<Rightarrow> unit fsm" where
  "HandleMessageSend msg =
     (let vesting = (msVestingStartHeight msg \<noteq> 0 \<or> msVestingEndHeight msg \<noteq> 0) in
      seqm [when_m vesting (ValidateAccountAddWithVesting msg),
            AccountSub (msFromAddress msg) (msAmount msg),
            (if vesting then AccountAddWithVesting msg else AccountAdd (msToAddress msg) (msAmount msg))])"

definition HandleMessageStake :: "env \<Rightarrow> messageStake \<Rightarrow> unit fsm" where
  "HandleMessageStake e msg =
     (if \<not> enPkOk e (stPublicKey msg) then err ErrInvalidPublicKey
      else if \<not> stDelegate msg \<and> \<not> enBlsOk e (stPublicKey msg) then err ErrInvalidPublicKey
      else case CheckNetAddress (stNetAddress msg) (stDelegate msg) of
        Inl x \<Rightarrow> err x
      | Inr _ \<Rightarrow>
          let address = enAddressOf e (stPublicKey msg) in
          bnd (GetValidatorExists address) (\<lambda>exists.
          if exists then err ErrValidatorExists
          else bnd GetParamsVal (\<lambda>params.
            if stAmount msg < (if stDelegate msg then vpMinimumStakeForDelegates params else vpMinimumStakeForValidators params)
            then err ErrStakeBelowMininum
            else seqm [
              AccountSub (stSigner msg) (stAmount msg),
              AddToStakedSupply (stAmount msg),
              (if stDelegate msg
               then seqm [AddToDelegateSupply (stAmount msg), SetDelegations address (stAmount msg) (stCommittees msg)]
               else SetCommittees address (stAmount msg) (stCommittees msg)),
              SetValidator \<lparr>vAddress = address, vPublicKey = stPublicKey msg, vNetAddress = stNetAddress msg,
                vStakedAmount = stAmount msg, vCommittees = stCommittees msg, vMaxPausedHeight = 0,
                vUnstakingHeight = 0, vOutput = stOutputAddress msg, vDelegate = stDelegate msg,
                vCompound = stCompound msg\<rparr>])))"

definition HandleMessageEditStake :: "messageEditStake \<Rightarrow> unit fsm" where
  "HandleMessageEditStake msg =
     bnd (GetValidator (esAddress msg)) (\<lambda>val.
     case CheckNetAddress (esNetAddress msg) (vDelegate val) of
       Inl x \<Rightarrow> err x
     | Inr _ \<Rightarrow>
         if vUnstakingHeight val \<noteq> 0 then err ErrValidatorUnstaking
         else if vOutput val \<noteq> esOutputAddress msg \<and> vOutput val \<noteq> esSigner msg then err ErrUnauthorizedTx
         else let amountToAdd = (if esAmount msg \<le> vStakedAmount val then 0 else esAmount msg - vStakedAmount val) in
           seqm [AccountSub (esSigner msg) amountToAdd,
             UpdateValidatorStake (val\<lparr>vNetAddress := esNetAddress msg, vOutput := esOutputAddress msg,
               vCompound := esCompound msg\<rparr>) (esCommittees msg) amountToAdd])"

definition HandleMessageUnstake :: "address \<Rightarrow> unit fsm" where
  "HandleMessageUnstake address =
     bnd (GetValidator address) (\<lambda>validator.
     if vUnstakingHeight validator \<noteq> 0 then err ErrValidatorUnstaking
     else bnd GetParamsVal (\<lambda>p. bnd (gets height) (\<lambda>h.
       let unstakingBlocks = (if \<not> vDelegate validator then vpUnstakingBlocks p else vpDelegateUnstakingBlocks p) in
       SetValidatorUnstaking address validator (h + unstakingBlocks))))"

definition HandleMessageUnpause :: "address \<Rightarrow> unit fsm" where
  "HandleMessageUnpause address =
     bnd (GetValidator address) (\<lambda>validator.
     if vMaxPausedHeight validator = 0 then err ErrValidatorNotPaused
     else if vUnstakingHeight validator \<noteq> 0 then err ErrValidatorUnstaking
     else if vDelegate validator then err ErrValidatorIsADelegate
     else SetValidatorUnpaused address validator)"

text \<open>Any error of \<open>ApproveProposal\<close> is reported as a rejection.\<close>

definition requireApproval :: "govProposal \<Rightarrow> unit fsm" where
  "requireApproval p = catch (ApproveProposal p) (\<lambda>_. err ErrRejectProposal) ret"

definition HandleMessageChangeParameter :: "messageChangeParameter \<Rightarrow> unit fsm" where
  "HandleMessageChangeParameter msg =
     bnd (requireApproval \<lparr>gpStartHeight = chStartHeight msg, gpEndHeight = chEndHeight msg,
            gpProposalHash = chProposalHash msg\<rparr>) (\<lambda>_.
     case chParameterValue msg of
       None \<Rightarrow> err (Error ''FromAny'')
     | Some v \<Rightarrow> UpdateParam (chParameterSpace msg) (chParameterKey msg) v)"

definition HandleMessageDAOTransfer :: "messageDAOTransfer \<Rightarrow> unit fsm" where
  "HandleMessageDAOTransfer msg = seqm [
     requireApproval \<lparr>gpStartHeight = daStartHeight msg, gpEndHeight = daEndHeight msg,
       gpProposalHash = daProposalHash msg\<rparr>,
     when_m (daMint msg) (MintToPool DAOPoolID (daAmount msg)),
     PoolSub DAOPoolID (daAmount msg),
     AccountAdd (daAddress msg) (daAmount msg)]"

definition HandleMessageCertificateResults :: "env \<Rightarrow> quorumCertificate option \<Rightarrow> unit fsm" where
  "HandleMessageCertificateResults e qc0 =
     bnd GetRootChainId (\<lambda>rootChainId. bnd (gets id) (\<lambda>s.
     case qc0 of None \<Rightarrow> err ErrPanic
     | Some qc \<Rightarrow> (case qcHeader qc of None \<Rightarrow> err ErrPanic
       | Some header \<Rightarrow>
           let chainId = vwChainId header in
           if chainId = rootChainId \<or> chainId = cfgChainId (cfg s) then err ErrInvalidCertificateResults
           else bnd (case enLastValidatorSet e (vwRootHeight header + 1) chainId of
                       Some vs \<Rightarrow> ret vs
                     | None \<Rightarrow> LoadCommittee e chainId (vwRootHeight header)) (\<lambda>committee.
             case QuorumCertificate_Check (enCodec e) (enMaskOk e) (enVerify e) committee 0
                    \<lparr>vwHeight = 0, vwRootHeight = 0, vwRound = 0, vwPhase = 0, vwNetworkId = NetworkID s,
                     vwChainId = chainId\<rparr> False qc0 of
               Inl x \<Rightarrow> err x
             | Inr isPartialQC \<Rightarrow>
                 if isPartialQC then err ErrNoMaj23
                 else HandleCertificateResults e qc0 (Some committee)))))"

definition HandleMessageSubsidy :: "messageSubsidy \<Rightarrow> unit fsm" where
  "HandleMessageSubsidy msg =
     bnd (CommitteeIsRetired (suChainId msg)) (\<lambda>retired.
     if retired then err ErrNonSubsidizedCommittee
     else seqm [AccountSub (suAddress msg) (suAmount msg), PoolAdd (suChainId msg) (suAmount msg)])"

definition HandleMessageCreateOrder :: "messageCreateOrder \<Rightarrow> unit fsm" where
  "HandleMessageCreateOrder msg =
     bnd GetParamsVal (\<lambda>valParams.
     if coAmountForSale msg < vpMinimumOrderSize valParams then err ErrMinimumOrderSize
     else seqm [
       AccountSub (coSellersSendAddress msg) (coAmountForSale msg),
       PoolAdd (coChainId msg + EscrowPoolAddend) (coAmountForSale msg),
       SetOrder \<lparr>oId = coOrderId msg, oCommittee = coChainId msg, oData = coData msg,
         oAmountForSale = coAmountForSale msg, oRequestedAmount = coRequestedAmount msg,
         oSellerReceiveAddress = coSellerReceiveAddress msg, oBuyerSendAddress = [],
         oBuyerReceiveAddress = [], oBuyerChainDeadline = 0,
         oSellersSendAddress = addr_bytes (coSellersSendAddress msg)\<rparr> (coChainId msg)])"

text \<open>The seller pays the difference into the escrow or takes it back.\<close>

definition moveDifference :: "address \<Rightarrow> u64 \<Rightarrow> u64 \<Rightarrow> u64 \<Rightarrow> unit fsm" where
  "moveDifference address pool new old =
     (if new > old then seqm [AccountSub address (new - old), PoolAdd pool (new - old)]
      else if new < old then seqm [PoolSub pool (old - new), AccountAdd address (old - new)]
      else ret ())"

definition HandleMessageEditOrder :: "messageEditOrder \<Rightarrow> unit fsm" where
  "HandleMessageEditOrder msg =
     bnd (GetOrder (eoOrderId msg) (eoChainId msg)) (\<lambda>order.
     if oBuyerReceiveAddress order \<noteq> [] then err ErrOrderLocked
     else bnd GetParamsVal (\<lambda>valParams.
       if eoAmountForSale msg < vpMinimumOrderSize valParams then err ErrMinimumOrderSize
       else let address = Addr (oSellersSendAddress order); pool = eoChainId msg + EscrowPoolAddend;
                new = eoAmountForSale msg; old = oAmountForSale order in
         seqm [
           moveDifference address pool new old,
           SetOrder \<lparr>oId = oId order, oCommittee = eoChainId msg, oData = eoData msg,
             oAmountForSale = new, oRequestedAmount = eoRequestedAmount msg,
             oSellerReceiveAddress = eoSellerReceiveAddress msg, oBuyerSendAddress = [],
             oBuyerReceiveAddress = [], oBuyerChainDeadline = 0,
             oSellersSendAddress = oSellersSendAddress order\<rparr> (eoChainId msg)]))"

definition HandleMessageDeleteOrder :: "bytes \<Rightarrow> u64 \<Rightarrow> unit fsm" where
  "HandleMessageDeleteOrder orderId chainId =
     bnd (GetOrder orderId chainId) (\<lambda>order.
     if oBuyerReceiveAddress order \<noteq> [] then err ErrOrderLocked
     else seqm [
       PoolSub (chainId + EscrowPoolAddend) (oAmountForSale order),
       AccountAdd (Addr (oSellersSendAddress order)) (oAmountForSale order),
       DeleteOrder orderId chainId])"

definition HandleMessageDexLimitOrder :: "messageDexLimitOrder \<Rightarrow> unit fsm" where
  "HandleMessageDexLimitOrder msg =
     bnd (GetDexBatch (mlChainId msg) False False) (\<lambda>batch. bnd (gets (\<lambda>s. cfgChainId (cfg s))) (\<lambda>self.
     if dbPoolSize batch = 0 \<or> self = mlChainId msg then err ErrInvalidLiquidityPool
     else if length (dbOrders batch) \<ge> MaxOrdersPerDexBatch then err ErrMaxDexBatchSize
     else seqm [
       AccountSub (mlAddress msg) (mlAmountForSale msg),
       PoolAdd (mlChainId msg + HoldingPoolAddend) (mlAmountForSale msg),
       SetDexBatch False (mlChainId msg) (batch\<lparr>dbOrders := dbOrders batch @
         [\<lparr>dlAmountForSale = mlAmountForSale msg, dlRequestedAmount = mlRequestedAmount msg,
           dlAddress = mlAddress msg, dlOrderId = mlOrderId msg\<rparr>]\<rparr>)]))"

definition HandleMessageDexLiquidityDeposit :: "messageDexLiquidityDeposit \<Rightarrow> unit fsm" where
  "HandleMessageDexLiquidityDeposit msg =
     bnd (GetDexBatch (mdChainId msg) False False) (\<lambda>batch.
     bnd (GetPool (mdChainId msg + LiquidityPoolAddend)) (\<lambda>lPool. bnd (gets (\<lambda>s. cfgChainId (cfg s))) (\<lambda>self.
     if pAmount lPool = 0 \<or> self = mdChainId msg \<or> length (pPoints lPool) \<ge> MaxLiquidityProviders
     then err ErrInvalidLiquidityPool
     else if length (dbDeposits batch) \<ge> MaxDepositsPerDexBatch then err ErrMaxDexBatchSize
     else seqm [
       AccountSub (mdAddress msg) (mdAmount msg),
       PoolAdd (mdChainId msg + HoldingPoolAddend) (mdAmount msg),
       SetDexBatch False (mdChainId msg) (batch\<lparr>dbDeposits := dbDeposits batch @
         [\<lparr>ddAddress = mdAddress msg, ddAmount = mdAmount msg, ddOrderId = mdOrderId msg\<rparr>]\<rparr>)])))"

definition HandleMessageDexLiquidityWithdraw :: "messageDexLiquidityWithdraw \<Rightarrow> unit fsm" where
  "HandleMessageDexLiquidityWithdraw msg =
     bnd (GetDexBatch (mwChainId msg) False False) (\<lambda>batch. bnd (gets (\<lambda>s. cfgChainId (cfg s))) (\<lambda>self.
     if dbPoolSize batch = 0 \<or> self = mwChainId msg then err ErrInvalidLiquidityPool
     else if length (dbWithdrawals batch) \<ge> MaxWithdrawsPerDexBatch then err ErrMaxDexBatchSize
     else bnd (GetPool (mwChainId msg + LiquidityPoolAddend)) (\<lambda>p.
       case GetPointsFor p (mwAddress msg) of
         Inl x \<Rightarrow> err x
       | Inr _ \<Rightarrow> SetDexBatch False (mwChainId msg) (batch\<lparr>dbWithdrawals := dbWithdrawals batch @
           [\<lparr>dwAddress = mwAddress msg, dwPercent = mwPercent msg, dwOrderId = mwOrderId msg\<rparr>]\<rparr>))))"

definition HandleMessage :: "env \<Rightarrow> message \<Rightarrow> unit fsm" where
  "HandleMessage e msg = (case msg of
       MessageSend x \<Rightarrow> HandleMessageSend x
     | MessageStake x \<Rightarrow> HandleMessageStake e x
     | MessageEditStake x \<Rightarrow> HandleMessageEditStake x
     | MessageUnstake a \<Rightarrow> HandleMessageUnstake a
     | MessagePause a \<Rightarrow> HandleMessagePause a
     | MessageUnpause a \<Rightarrow> HandleMessageUnpause a
     | MessageChangeParameter x \<Rightarrow> HandleMessageChangeParameter x
     | MessageDAOTransfer x \<Rightarrow> HandleMessageDAOTransfer x
     | MessageCertificateResults qc \<Rightarrow> HandleMessageCertificateResults e qc
     | MessageSubsidy x \<Rightarrow> HandleMessageSubsidy x
     | MessageCreateOrder x \<Rightarrow> HandleMessageCreateOrder x
     | MessageEditOrder x \<Rightarrow> HandleMessageEditOrder x
     | MessageDeleteOrder orderId chainId \<Rightarrow> HandleMessageDeleteOrder orderId chainId
     | MessageDexLimitOrder x \<Rightarrow> HandleMessageDexLimitOrder x
     | MessageDexLiquidityDeposit x \<Rightarrow> HandleMessageDexLiquidityDeposit x
     | MessageDexLiquidityWithdraw x \<Rightarrow> HandleMessageDexLiquidityWithdraw x)"

section \<open>Fees and signers\<close>

text \<open>\<open>GetFeeForMessageName\<close>, with the message in place of its name.\<close>

definition GetFeeForMessageName :: "message \<Rightarrow> u64 fsm" where
  "GetFeeForMessageName msg = bnd GetParamsFee (\<lambda>feeParams. ret (case msg of
       MessageSend _ \<Rightarrow> fpSendFee feeParams
     | MessageStake _ \<Rightarrow> fpStakeFee feeParams
     | MessageEditStake _ \<Rightarrow> fpEditStakeFee feeParams
     | MessageUnstake _ \<Rightarrow> fpUnstakeFee feeParams
     | MessagePause _ \<Rightarrow> fpPauseFee feeParams
     | MessageUnpause _ \<Rightarrow> fpUnpauseFee feeParams
     | MessageChangeParameter _ \<Rightarrow> fpChangeParameterFee feeParams
     | MessageDAOTransfer _ \<Rightarrow> fpDaoTransferFee feeParams
     | MessageCertificateResults _ \<Rightarrow> fpCertificateResultsFee feeParams
     | MessageSubsidy _ \<Rightarrow> fpSubsidyFee feeParams
     | MessageCreateOrder _ \<Rightarrow> fpCreateOrderFee feeParams
     | MessageEditOrder _ \<Rightarrow> fpEditOrderFee feeParams
     | MessageDeleteOrder _ _ \<Rightarrow> fpDeleteOrderFee feeParams
     | MessageDexLimitOrder _ \<Rightarrow> fpDexLimitOrderFee feeParams
     | MessageDexLiquidityDeposit _ \<Rightarrow> fpDexLiquidityDepositFee feeParams
     | MessageDexLiquidityWithdraw _ \<Rightarrow> fpDexLiquidityWithdrawFee feeParams))"

definition pubKeyBytesToAddress :: "env \<Rightarrow> bytes \<Rightarrow> address fsm" where
  "pubKeyBytesToAddress e pk = (if enPkOk e pk then ret (enAddressOf e pk) else err ErrInvalidPublicKey)"

definition GetAuthorizedSignersFor :: "env \<Rightarrow> message \<Rightarrow> address list fsm" where
  "GetAuthorizedSignersFor e msg = (case msg of
       MessageSend x \<Rightarrow> ret [msFromAddress x]
     | MessageStake x \<Rightarrow> bnd (pubKeyBytesToAddress e (stPublicKey x)) (\<lambda>address. ret [address, stOutputAddress x])
     | MessageEditStake x \<Rightarrow> GetAuthorizedSignersForValidator (esAddress x)
     | MessageUnstake a \<Rightarrow> GetAuthorizedSignersForValidator a
     | MessagePause a \<Rightarrow> GetAuthorizedSignersForValidator a
     | MessageUnpause a \<Rightarrow> GetAuthorizedSignersForValidator a
     | MessageChangeParameter x \<Rightarrow> ret [chSigner x]
     | MessageDAOTransfer x \<Rightarrow> ret [daAddress x]
     | MessageSubsidy x \<Rightarrow> ret [suAddress x]
     | MessageCertificateResults qc \<Rightarrow> (case qc of
           None \<Rightarrow> err ErrPanic
         | Some qc \<Rightarrow> bnd (pubKeyBytesToAddress e (case qcProposerKey qc of None \<Rightarrow> [] | Some pk \<Rightarrow> pk)) (\<lambda>address. ret [address]))
     | MessageCreateOrder x \<Rightarrow> ret [coSellersSendAddress x]
     | MessageEditOrder x \<Rightarrow> bnd (GetOrder (eoOrderId x) (eoChainId x)) (\<lambda>order. ret [Addr (oSellersSendAddress order)])
     | MessageDeleteOrder orderId chainId \<Rightarrow> bnd (GetOrder orderId chainId) (\<lambda>order. ret [Addr (oSellersSendAddress order)])
     | MessageDexLimitOrder x \<Rightarrow> ret [mlAddress x]
     | MessageDexLiquidityDeposit x \<Rightarrow> ret [mdAddress x]
     | MessageDexLiquidityWithdraw x \<Rightarrow> ret [mwAddress x])"

section \<open>Messages conserve tokens\<close>

named_theorems message_inflight \<open>token conservation per handler\<close>

lemma neutral_ValidateVesting: "token_neutral (ValidateAccountAddWithVesting msg)"
  unfolding ValidateAccountAddWithVesting_def GetAccount_def by (intro neutral_rules)

lemma AccountAddWithVesting_run:
  assumes "AccountAddWithVesting msg s = (Inr r, t)"
  obtains acc where "acAddress acc = msToAddress msg"
    "unat (acAmount acc) = unat (acAmount (accountAt s (msToAddress msg))) + unat (msAmount msg)"
    "t = s\<lparr>accounts := putAccount (height s) acc (accounts s)\<rparr>"
proof -
  let ?a = "accountAt s (msToAddress msg)"
  let ?acc = "?a\<lparr>acAmount := acAmount ?a + msAmount msg\<rparr>"
  obtain acc where set: "SetAccount acc s = (Inr r, t)" "acAddress acc = msToAddress msg" "acAmount acc = acAmount ?acc"
    and guard: "\<not> acAmount ?a > MaxUint64 - msAmount msg"
    using assms unfolding AccountAddWithVesting_def GetAccount_def ValidateAccountAddWithVesting_def Let_def bnd_Inr gets_run
    by (simp add: bnd_Inr gets_run err_run ret_run split: if_split_asm)
  have "unat (acAmount ?acc) = unat (acAmount ?a) + unat (msAmount msg)"
    using guard by (simp add: unat_add_exact add_guard_iff)
  then show ?thesis using that [of acc] set by (simp add: SetAccount_run)
qed

lemma AccountAddWithVesting_inflight:
  "hoare (inflight (d + unat (msAmount msg))) (AccountAddWithVesting msg) (\<lambda>_. inflight d)"
proof (rule hoareI)
  fix s r t
  assume pre: "inflight (d + unat (msAmount msg)) s" and run: "AccountAddWithVesting msg s = (Inr r, t)"
  obtain acc where acc: "acAddress acc = msToAddress msg"
    "unat (acAmount acc) = unat (acAmount (accountAt s (msToAddress msg))) + unat (msAmount msg)"
    "t = s\<lparr>accounts := putAccount (height s) acc (accounts s)\<rparr>"
    by (rule AccountAddWithVesting_run [OF run])
  have "tok (accounts s)" using pre by (simp add: inflight_def wf_def)
  from accTokens_put [OF this, of "height s" acc] acc have "tokens t = tokens s + unat (msAmount msg)"
    by (simp add: token_defs)
  with pre acc(3) show "inflight d t" by (simp add: inflight_def wf_def)
qed

lemma Send_inflight [message_inflight]: "hoare (inflight d) (HandleMessageSend msg) (\<lambda>_. inflight d)"
proof -
  let ?v = "msVestingStartHeight msg \<noteq> 0 \<or> msVestingEndHeight msg \<noteq> 0"
  have "hoare (inflight (d + unat (msAmount msg)))
     (if ?v then AccountAddWithVesting msg else AccountAdd (msToAddress msg) (msAmount msg)) (\<lambda>_. inflight d)"
    by (simp add: AccountAddWithVesting_inflight AccountAdd_inflight)
  from hoare_seqm_Cons [OF this hoare_seqm_Nil [of "inflight d"]] show ?thesis
    unfolding HandleMessageSend_def Let_def
    by (intro hoare_seqm_Cons [OF neutral_inflight [OF neutral_when [OF neutral_ValidateVesting]]]
        hoare_seqm_Cons [OF AccountSub_inflight])
qed

lemma keeps_AccountSub: "(\<And>s x. f (s\<lparr>accounts := x\<rparr>) = f s) \<Longrightarrow> keeps f (AccountSub a x)"
  by (simp add: keeps_def AccountSub_run)

text \<open>A debit leaves the validators alone.\<close>

lemma debit_frame:
  "hoare (\<lambda>s. inflight d s \<and> R (validators s)) (AccountSub a x) (\<lambda>_ s. inflight (d + unat x) s \<and> R (validators s))"
  by (rule hoare_frame [OF keeps_AccountSub AccountSub_inflight]) simp

lemma Stake_inflight [message_inflight]: "hoare (inflight d) (HandleMessageStake e msg) (\<lambda>_. inflight d)"
proof -
  let ?a = "enAddressOf e (stPublicKey msg)" and ?x = "stAmount msg"
  let ?R = "\<lambda>vs. tget vs ?a = None"
  let ?v = "\<lparr>vAddress = ?a, vPublicKey = stPublicKey msg, vNetAddress = stNetAddress msg,
                vStakedAmount = ?x, vCommittees = stCommittees msg, vMaxPausedHeight = 0,
                vUnstakingHeight = 0, vOutput = stOutputAddress msg, vDelegate = stDelegate msg,
                vCompound = stCompound msg\<rparr>"
  have index: "token_neutral (if stDelegate msg
               then seqm [AddToDelegateSupply ?x, SetDelegations ?a ?x (stCommittees msg)]
               else SetCommittees ?a ?x (stCommittees msg))"
    by (intro neutral_if neutral_seqm) (simp_all add: neutral_supply neutral_committees)
  have set: "hoare (\<lambda>s. inflight (d + unat ?x) s \<and> ?R (validators s)) (SetValidator ?v) (\<lambda>_. inflight d)"
    by (rule hoare_pre [OF SetValidator_inflight [of "d + unat ?x"]]) (simp add: stakeAt_def)
  have body: "hoare (\<lambda>s. inflight d s \<and> ?R (validators s)) (seqm [AccountSub (stSigner msg) ?x, AddToStakedSupply ?x,
      if stDelegate msg then seqm [AddToDelegateSupply ?x, SetDelegations ?a ?x (stCommittees msg)]
      else SetCommittees ?a ?x (stCommittees msg), SetValidator ?v]) (\<lambda>_. inflight d)"
    by (intro hoare_seqm_Cons [OF debit_frame] hoare_seqm_Cons [OF neutral_frame [OF neutral_supply(1)]]
        hoare_seqm_Cons [OF neutral_frame [OF index]] hoare_seqm_Cons [OF set] hoare_seqm_Nil)
  show ?thesis
  proof (rule hoareI)
    fix s r t
    assume "inflight d s" and "HandleMessageStake e msg s = (Inr r, t)"
    then show "inflight d t"
      by (intro hoareD [OF body, of s r])
        (auto simp: HandleMessageStake_def GetValidatorExists_def GetParamsVal_def Let_def bnd_Inr gets_run err_run
          split: if_splits sum.splits)
  qed
qed

lemma EditStake_inflight [message_inflight]: "hoare (inflight d) (HandleMessageEditStake msg) (\<lambda>_. inflight d)"
proof (rule hoareI)
  fix s r t
  assume pre: "inflight d s" and run: "HandleMessageEditStake msg s = (Inr r, t)"
  obtain v x where v: "tget (validators s) (esAddress msg) = Some v"
    and seq: "seqm [AccountSub (esSigner msg) x, UpdateValidatorStake (v\<lparr>vAddress := esAddress msg,
      vNetAddress := esNetAddress msg, vOutput := esOutputAddress msg, vCompound := esCompound msg\<rparr>)
      (esCommittees msg) x] s = (Inr r, t)"
    using run by (auto simp: HandleMessageEditStake_def GetValidator_def Let_def bnd_Inr gets_run err_run ret_run
        split: if_splits sum.splits option.splits)
  let ?w = "v\<lparr>vAddress := esAddress msg, vNetAddress := esNetAddress msg, vOutput := esOutputAddress msg,
     vCompound := esCompound msg\<rparr>"
  let ?R = "\<lambda>vs. tget vs (esAddress msg) = Some v"
  have update: "hoare (\<lambda>s. inflight (d + unat x) s \<and> ?R (validators s)) (UpdateValidatorStake ?w (esCommittees msg) x)
      (\<lambda>_. inflight d)"
    by (rule hoare_pre [OF UpdateValidatorStake_inflight]) (simp add: stakeAt_def)
  have "hoare (\<lambda>s. inflight d s \<and> ?R (validators s))
      (seqm [AccountSub (esSigner msg) x, UpdateValidatorStake ?w (esCommittees msg) x]) (\<lambda>_. inflight d)"
    by (intro hoare_seqm_Cons [OF debit_frame] hoare_seqm_Cons [OF update] hoare_seqm_Nil)
  with seq pre v show "inflight d t" by (auto dest: hoareD)
qed


lemma onlyValidator_of:
  "SetValidatorUnpaused a v s = (Inr r, t) \<Longrightarrow> onlyValidator s t (v\<lparr>vMaxPausedHeight := 0\<rparr>)"
  by (auto simp: SetValidatorUnpaused_def SetValidator_def go_simps onlyValidator_def)

lemma Unstake_inflight [message_inflight]: "hoare (inflight d) (HandleMessageUnstake a) (\<lambda>_. inflight d)"
proof (rule hoareI)
  fix s r t
  assume pre: "inflight d s" and run: "HandleMessageUnstake a s = (Inr r, t)"
  obtain v h where v: "tget (validators s) a = Some v"
    and "SetValidatorUnstaking a (v\<lparr>vAddress := a\<rparr>) h s = (Inr r, t)"
    using run by (auto simp: HandleMessageUnstake_def GetValidator_def GetParamsVal_def Let_def bnd_Inr gets_run err_run
        ret_run split: if_splits option.splits)
  then have "onlyValidator s t (v\<lparr>vAddress := a, vMaxPausedHeight := 0, vUnstakingHeight := h\<rparr>)"
    using Unstaking_run [of "v\<lparr>vAddress := a\<rparr>" h s r t] by simp
  from onlyValidator_inflight [OF this _ pre] v show "inflight d t" by (simp add: stakeAt_def)
qed

lemma Unpause_inflight [message_inflight]: "hoare (inflight d) (HandleMessageUnpause a) (\<lambda>_. inflight d)"
proof (rule hoareI)
  fix s r t
  assume pre: "inflight d s" and run: "HandleMessageUnpause a s = (Inr r, t)"
  obtain v where v: "tget (validators s) a = Some v"
    and "SetValidatorUnpaused a (v\<lparr>vAddress := a\<rparr>) s = (Inr r, t)"
    using run by (auto simp: HandleMessageUnpause_def GetValidator_def bnd_Inr gets_run err_run ret_run
        split: if_splits option.splits)
  from onlyValidator_inflight [OF onlyValidator_of [OF this(2)] _ pre] v show "inflight d t" by (simp add: stakeAt_def)
qed

lemma Approve_neutral: "token_neutral (requireApproval p)"
  by (auto simp: token_neutral_def requireApproval_def ApproveProposal_def go_simps
      split: GovProposalVoteConfig.splits option.splits bool.splits)

lemma Approve_frame: "requireApproval p s = (r, t) \<Longrightarrow> t = s"
  by (auto simp: requireApproval_def ApproveProposal_def go_simps
      split: GovProposalVoteConfig.splits option.splits bool.splits if_splits)

lemma ChangeParameter_run:
  assumes "HandleMessageChangeParameter msg s = (Inr r, t)"
  obtains v where "chParameterValue msg = Some v"
    "UpdateParam (chParameterSpace msg) (chParameterKey msg) v s = (Inr r, t)"
  using assms by (auto simp: HandleMessageChangeParameter_def bnd_Inr err_run split: option.splits dest!: Approve_frame)

lemma ChangeParameter_conserves:
  assumes "conserved s" and "orderly x s" and "HandleMessageChangeParameter msg s = (Inr r, t)"
  shows "conserved t"
  by (rule ChangeParameter_run [OF assms(3)]) (use UpdateParam_adjusts [of s False x] assms(1,2) in blast)

lemma DAOTransfer_inflight:
  "hoare (\<lambda>s. inflight d s \<and> (daMint msg \<longrightarrow> unat (sTotal (supplyTracker s)) + unat (daAmount msg) < 2 ^ 64))
     (HandleMessageDAOTransfer msg) (\<lambda>_. inflight d)"
proof -
  let ?P = "\<lambda>s. inflight d s \<and> (daMint msg \<longrightarrow> unat (sTotal (supplyTracker s)) + unat (daAmount msg) < 2 ^ 64)"
  have approve: "hoare ?P (requireApproval p) (\<lambda>_. ?P)" for p
    by (auto simp: hoare_def dest!: Approve_frame)
  have mint: "hoare ?P (when_m (daMint msg) (MintToPool DAOPoolID (daAmount msg))) (\<lambda>_. inflight d)"
    by (rule hoare_when [OF hoare_pre [OF MintToPool_inflight]]) simp_all
  show ?thesis
    unfolding HandleMessageDAOTransfer_def
    by (rule hoare_seqm_Cons [OF approve], rule hoare_seqm_Cons [OF mint], rule pool_acc.transfer)
qed

lemma hoare_read: "token_neutral m \<Longrightarrow> (\<And>x. hoare (inflight d) (f x) Q) \<Longrightarrow> hoare (inflight d) (bnd m f) Q"
  by (rule hoare_bnd [OF neutral_inflight])

lemma neutral_orders: "token_neutral (SetOrder ord c)" "token_neutral (DeleteOrder i c)" "token_neutral (GetOrder i c)"
  unfolding SetOrder_def DeleteOrder_def GetOrder_def
  by (intro neutral_rules neutral_modify neutral_option; simp)+

lemma neutral_SetDexBatch: "token_neutral (SetDexBatch l c b)"
  unfolding SetDexBatch_def by (intro neutral_rules neutral_modify) simp_all

lemma neutral_reads: "token_neutral GetParamsVal" "token_neutral (CommitteeIsRetired c)" "token_neutral (GetDexBatch c l w)"
    "token_neutral (GetPool i)" "token_neutral (gets f)"
  unfolding GetParamsVal_def CommitteeIsRetired_def GetDexBatch_def GetPool_def by (intro neutral_rules)+

lemma Subsidy_inflight [message_inflight]: "hoare (inflight d) (HandleMessageSubsidy msg) (\<lambda>_. inflight d)"
  unfolding HandleMessageSubsidy_def
  by (intro hoare_read hoare_if hoare_err acc_pool.transfer neutral_reads)

lemma Order_messages_inflight [message_inflight]:
  "hoare (inflight d) (HandleMessageCreateOrder m1) (\<lambda>_. inflight d)"
  "hoare (inflight d) (HandleMessageDeleteOrder i c) (\<lambda>_. inflight d)"
  unfolding HandleMessageCreateOrder_def HandleMessageDeleteOrder_def
  by (intro hoare_read hoare_if hoare_err neutral_reads neutral_orders acc_pool.transfer_then pool_acc.transfer_then)+

lemma moveDifference_inflight: "hoare (inflight d) (moveDifference a i n k) (\<lambda>_. inflight d)"
  unfolding moveDifference_def by (intro hoare_if acc_pool.transfer pool_acc.transfer hoare_ret)

lemma EditOrder_inflight [message_inflight]: "hoare (inflight d) (HandleMessageEditOrder m2) (\<lambda>_. inflight d)"
  unfolding HandleMessageEditOrder_def Let_def
  by (intro hoare_read hoare_if hoare_err neutral_reads neutral_orders hoare_seqm_Cons [OF moveDifference_inflight]
      hoare_seqm_Cons [OF neutral_inflight [OF neutral_orders(1)]] hoare_seqm_Nil)

lemma Dex_messages_inflight [message_inflight]:
  "hoare (inflight d) (HandleMessageDexLimitOrder m3) (\<lambda>_. inflight d)"
  "hoare (inflight d) (HandleMessageDexLiquidityDeposit m4) (\<lambda>_. inflight d)"
  unfolding HandleMessageDexLimitOrder_def HandleMessageDexLiquidityDeposit_def
  by (intro hoare_read hoare_if hoare_err neutral_reads neutral_SetDexBatch acc_pool.transfer_then)+

lemma Withdraw_inflight [message_inflight]:
  "hoare (inflight d) (HandleMessageDexLiquidityWithdraw m5) (\<lambda>_. inflight d)"
  unfolding HandleMessageDexLiquidityWithdraw_def
  by (intro neutral_inflight neutral_rules neutral_reads)
    (simp split: sum.split add: neutral_simple neutral_SetDexBatch)


section \<open>Certificate results\<close>

text \<open>
  What a certificate's exchange batch must satisfy: the order keys do not collide and a fallback
  carries consistent points. \<open>balanced\<close> is the invariant of tokens and liquidity points.
\<close>

definition balanced :: "state \<Rightarrow> bool" where
  "balanced s \<longleftrightarrow> conserved s \<and> pointsConsistent s"

definition resultsReady :: "env \<Rightarrow> quorumCertificate option \<Rightarrow> bool \<Rightarrow> state \<Rightarrow> bool" where
  "resultsReady e qc0 isNested s \<longleftrightarrow> (\<forall>qc results header. qc0 = Some qc \<longrightarrow> qcResults qc = Some results \<longrightarrow>
     qcHeader qc = Some header \<longrightarrow> dexReady (enDex e) (vwChainId header) results isNested s)"

lemma neutral_HandleCheckpoint: "token_neutral (HandleCheckpoint c results)"
  by (auto simp: token_neutral_def HandleCheckpoint_def go_simps split: option.splits)

lemma neutral_committee_data: "token_neutral (RetireCommittee c)" "token_neutral (UpsertCommitteeData d)"
  "token_neutral (GetCommitteeData c)"
  unfolding RetireCommittee_def UpsertCommitteeData_def GetCommitteeData_def getCommitteeDataAndList_def
    GetCommitteesData_def SetCommitteesData_def
  by (auto simp: token_neutral_def go_simps split: option.splits sum.splits prod.splits)

context framed_core
begin

lemma checkpoint [maintains_rules]: "maintains P (HandleCheckpoint c results)"
  by (auto simp: maintains_def HandleCheckpoint_def go_simps framed_fields split: option.splits)

lemma approval [maintains_rules]: "maintains P (requireApproval p)"
  by (auto simp: maintains_def) (metis Approve_frame prod.collapse)

end

lemma applyResults_inflight: "hoare (inflight d) (applyResults e qc results header recipients vs) (\<lambda>_. inflight d)"
  unfolding applyResults_def Let_def
  by (intro hoare_bnd [OF HandleCommitteeSwaps_inflight] hoare_bnd [OF HandleByzantine_inflight]
      hoare_read [OF neutral_HandleCheckpoint] hoare_read [OF neutral_when [OF neutral_committee_data(1)]]
      hoare_read [OF neutral_reads(5)] neutral_inflight neutral_committee_data)

context framed
begin

lemma apply_results [maintains_rules]: "maintains P (applyResults e qc results header recipients vs)"
  unfolding applyResults_def by (intro maintains_rules)

end

lemma HandleCertificateResults_run:
  assumes "HandleCertificateResults e qc0 vs s = (Inr r, t)"
  obtains qc results header recipients u where "qc0 = Some qc" "qcResults qc = Some results" "qcHeader qc = Some header"
    "u = s \<or> HandleDexBatch (enDex e) (vwChainId header) results (vs = None) s = (Inr (), u)"
    "applyResults e qc results header recipients vs u = (Inr r, t)"
proof -
  obtain qc results header recipients where some: "qc0 = Some qc" "qcResults qc = Some results" "qcHeader qc = Some header"
    "crRewardRecipients results = Some recipients"
    using assms by (auto simp: HandleCertificateResults_def err_run split: option.splits)
  obtain u where dex: "when_m (vwChainId header \<noteq> cfgChainId (cfg s) \<or> vs = None)
      (HandleDexBatch (enDex e) (vwChainId header) results (vs = None)) s = (Inr (), u)"
    "applyResults e qc results header recipients vs u = (Inr r, t)"
    using assms by (auto simp: HandleCertificateResults_def some Let_def bnd_Inr gets_run err_run ret_run
        CommitteeIsRetired_def GetCommitteeData_def getCommitteeDataAndList_def GetCommitteesData_def
        split: if_splits prod.splits)
  moreover have "u = s \<or> HandleDexBatch (enDex e) (vwChainId header) results (vs = None) s = (Inr (), u)"
    using dex by (auto simp: when_m_def ret_run split: if_splits)
  ultimately show ?thesis using that some by blast
qed

lemma HandleCertificateResults_balanced:
  assumes "balanced s" and "resultsReady e qc0 (vs = None) s" and run: "HandleCertificateResults e qc0 vs s = (Inr r, t)"
  shows "balanced t"
proof (rule HandleCertificateResults_run [OF run])
  fix qc results header recipients u
  assume some: "qc0 = Some qc" "qcResults qc = Some results" "qcHeader qc = Some header"
    and dex: "u = s \<or> HandleDexBatch (enDex e) (vwChainId header) results (vs = None) s = (Inr (), u)"
    and rest: "applyResults e qc results header recipients vs u = (Inr r, t)"
  have "dexReady (enDex e) (vwChainId header) results (vs = None) s"
    using assms(2) some by (simp add: resultsReady_def)
  with dex assms(1) have u: "conserved u" "pointsConsistent u"
    using HandleDexBatch_safe [of s "enDex e" "vwChainId header" results "vs = None" "()" u] by (auto simp: balanced_def)
  from hoareD [OF applyResults_inflight u(1) rest] maintainsD [OF pts.apply_results u(2) rest] show "balanced t"
    by (simp add: balanced_def)
qed


section \<open>Every message\<close>

text \<open>
  \<open>honestBatch\<close>: the keys of the orders do not collide under the hash, and a batch that triggers the
  liveness fallback carries consistent points. \<open>messageReady\<close>: a minting transfer does not overflow the
  supply, and a certificate's batch is honest.
\<close>

definition honestBatch :: "env \<Rightarrow> dexBatch \<Rightarrow> bytes option \<Rightarrow> bool" where
  "honestBatch e b bh \<longleftrightarrow> keysDistinct (enDex e) b bh \<and> (dbLivenessFallback b \<longrightarrow> mirrorOk b)"

definition messageReady :: "env \<Rightarrow> message \<Rightarrow> state \<Rightarrow> bool" where
  "messageReady e msg s = (case msg of
       MessageDAOTransfer x \<Rightarrow> daMint x \<longrightarrow> unat (sTotal (supplyTracker s)) + unat (daAmount x) < 2 ^ 64
     | MessageCertificateResults (Some qc) \<Rightarrow> (case qcResults qc of None \<Rightarrow> True | Some results \<Rightarrow>
         (case crDexBatch results of None \<Rightarrow> True | Some b \<Rightarrow> honestBatch e b (prevBlockHash s)))
     | _ \<Rightarrow> True)"

text \<open>What the handlers rely on of the stateless check; it survives the fields a transaction fills in.\<close>

definition vetted :: "env \<Rightarrow> message \<Rightarrow> bool" where
  "vetted e msg = (case msg of
       MessageCertificateResults qc \<Rightarrow> MessageCertificateResults_Check e qc = Inr ()
     | MessageDexLiquidityWithdraw m \<Rightarrow> mwPercent m \<le> 100
     | _ \<Rightarrow> True)"

lemma vetted_check: "Message_Check e msg = Inr () \<Longrightarrow> vetted e msg"
  by (cases msg) (auto simp: vetted_def Message_Check_def MessageDexLiquidityWithdraw_Check_def checkPercent_def check_def
      split: if_splits)

lemma checked_batch:
  assumes "QuorumCertificate_CheckBasic c (Some qc) = Inr ()" and "qcResults qc = Some results"
  shows "DexBatch_CheckBasic (crDexBatch results) = Inr ()"
  using assms by (auto simp: QuorumCertificate_CheckBasic_def CertificateResult_CheckBasic_def check_def
      split: option.splits if_splits)

lemma message_results_ready:
  assumes "orderly x s" and "messageReady e (MessageCertificateResults qc0) s"
    and "MessageCertificateResults_Check e qc0 = Inr ()"
  shows "resultsReady e qc0 False s"
  unfolding resultsReady_def
proof (intro allI impI)
  fix qc results header
  assume some: "qc0 = Some qc" "qcResults qc = Some results"
  have "MessageCertificateResults_Check e (Some qc) = Inr ()" using assms(3) some by simp
  then have "QuorumCertificate_CheckBasic (enCodec e) (Some qc) = Inr ()"
    by (cases "QuorumCertificate_CheckBasic (enCodec e) (Some qc)") (simp_all add: MessageCertificateResults_Check_def)
  note basic = checked_batch [OF this some(2)]
  have "percentsOk (batchAt s True (vwChainId header))" by (rule orderly_batchAt [OF assms(1)])
  then show "dexReady (enDex e) (vwChainId header) results False s"
    using assms(2) some basic
    by (cases "crDexBatch results") (simp_all add: dexReady_def remoteOf_def counterChain_def messageReady_def honestBatch_def)
qed

lemma LoadCommittee_frame: "LoadCommittee e c h s = (r, t) \<Longrightarrow> t = s"
  by (simp add: LoadCommittee_def TimeMachine_def bnd_def gets_run err_run ret_run split: sum.split_asm)

lemma HandleMessageCertificateResults_run:
  assumes "HandleMessageCertificateResults e qc0 s = (Inr r, t)"
  obtains vs where "HandleCertificateResults e qc0 (Some vs) s = (Inr r, t)"
proof -
  obtain qc header where some: "qc0 = Some qc" "qcHeader qc = Some header"
    using assms by (auto simp: HandleMessageCertificateResults_def bnd_Inr err_run split: option.splits)
  let ?m = "case enLastValidatorSet e (vwRootHeight header + 1) (vwChainId header) of
      Some vs \<Rightarrow> ret vs | None \<Rightarrow> LoadCommittee e (vwChainId header) (vwRootHeight header)"
  obtain vs u where m: "?m s = (Inr vs, u)" and "HandleCertificateResults e qc0 (Some vs) u = (Inr r, t)"
    using assms by (simp add: HandleMessageCertificateResults_def GetRootChainId_def GetParamsCons_def some Let_def bnd_Inr
        gets_run err_run ret_run split: if_split_asm)
      (elim exE conjE, simp add: err_run split: sum.split_asm if_split_asm)
  moreover have "u = s" using m by (auto simp: ret_run split: option.splits dest: LoadCommittee_frame)
  ultimately show ?thesis using that by simp
qed

lemma CertificateResults_balanced:
  assumes "balanced s" and "resultsReady e qc0 False s" and run: "HandleMessageCertificateResults e qc0 s = (Inr r, t)"
  shows "balanced t"
  by (rule HandleMessageCertificateResults_run [OF run])
    (use assms(1,2) HandleCertificateResults_balanced [of s e qc0 "Some vs" for vs] in simp)

context framed_core
begin

lemma account_vesting [maintains_rules]:
  "maintains P (ValidateAccountAddWithVesting msg)" "maintains P (AccountAddWithVesting msg)"
  unfolding ValidateAccountAddWithVesting_def AccountAddWithVesting_def SetAccount_def
  by (intro maintains_rules; simp add: framed_fields)+

lemma account_messages [maintains_rules]:
  "maintains P (HandleMessageSend m1)" "maintains P (HandleMessageStake e m2)" "maintains P (HandleMessageEditStake m3)"
  "maintains P (HandleMessageUnstake a)" "maintains P (HandleMessageUnpause a)"
  unfolding HandleMessageSend_def HandleMessageStake_def HandleMessageEditStake_def HandleMessageUnstake_def
    HandleMessageUnpause_def
  by (intro maintains_rules)+

lemma governance_messages [maintains_rules]:
  "maintains P (HandleMessageDAOTransfer m2)" "maintains P (HandleMessageSubsidy m3)"
  unfolding HandleMessageDAOTransfer_def HandleMessageSubsidy_def by (intro maintains_rules)+

lemma order_messages [maintains_rules]:
  "maintains P (HandleMessageCreateOrder m1)" "maintains P (HandleMessageEditOrder m2)"
  "maintains P (HandleMessageDeleteOrder i c)"
  unfolding HandleMessageCreateOrder_def HandleMessageEditOrder_def HandleMessageDeleteOrder_def moveDifference_def
  by (intro maintains_rules)+

end


lemma change_parameter [maintains_rules]:
  "maintains (orderly x) (HandleMessageChangeParameter m1)" "maintains pointsConsistent (HandleMessageChangeParameter m1)"
  unfolding HandleMessageChangeParameter_def by (intro maintains_rules)+

lemma frame_reads [maintains_rules]:
  "maintains P (TimeMachine e h)" "maintains P (LoadCommittee e c h)" "maintains P (gets f)"
  by (auto simp: maintains_def TimeMachine_def gets_run) (metis LoadCommittee_frame prod.collapse)

text \<open>A certificate hands out at most 100 percent per chain, non-signers only lower it.\<close>

definition recipientsOk :: "quorumCertificate option \<Rightarrow> bool" where
  "recipientsOk qc0 = (case qc0 of None \<Rightarrow> True | Some qc \<Rightarrow> (case qcResults qc of None \<Rightarrow> True | Some results \<Rightarrow>
     (case crRewardRecipients results of None \<Rightarrow> True | Some r \<Rightarrow>
       \<forall>c. percentSum (filter (\<lambda>p. ppcChainId p = c) (rrPaymentPercents r)) \<le> 100)))"

lemma checked_recipients:
  assumes "MessageCertificateResults_Check e qc0 = Inr ()"
  shows "recipientsOk qc0"
  using assms unfolding MessageCertificateResults_Check_def recipientsOk_def
  by (auto simp: check_def reward_recipients_capped split: option.splits sum.splits if_splits)

lemma reduced_percent: "unat p \<le> 100 \<Longrightarrow> unat (Uint64ReducePercentage p n) \<le> unat p"
proof -
  assume "unat p \<le> 100"
  then have "unat (Uint64ReducePercentage p n) = unat p * (100 - unat n) div 100" by (simp add: ReducePercentage_exact)
  also have "\<dots> \<le> unat p * 100 div 100" by (intro div_le_mono mult_le_mono2) simp
  finally show ?thesis by simp
qed

lemma reduced_percents:
  assumes "percentSum (filter (\<lambda>p. ppcChainId p = c) l) \<le> 100"
  shows "percentSum (filter (\<lambda>p. ppcChainId p = c)
    (map (\<lambda>p. p\<lparr>ppcPercent := Uint64ReducePercentage (ppcPercent p) n\<rparr>) l)) \<le> 100"
proof -
  have "percentSum (filter (\<lambda>p. ppcChainId p = c) (map (\<lambda>p. p\<lparr>ppcPercent := Uint64ReducePercentage (ppcPercent p) n\<rparr>) l))
      \<le> percentSum (filter (\<lambda>p. ppcChainId p = c) l)"
    using assms by (induction l) (auto simp: percentSum_def intro!: add_mono reduced_percent)
  with assms show ?thesis by simp
qed

lemma orderly_certificate_results:
  assumes "snd x \<Longrightarrow> recipientsOk qc0"
  shows "maintains (orderly x) (HandleCertificateResults e qc0 vs)"
    "maintains (orderly x) (HandleMessageCertificateResults e qc0)"
proof -
  have results: "maintains (orderly x) (applyResults e qc results header recipients vs)"
    if "qc0 = Some qc" "qcResults qc = Some results" "crRewardRecipients results = Some recipients"
    for qc results header recipients vs
    using assms that unfolding applyResults_def recipientsOk_def
    by (intro maintains_rules orderly_Upsert) (simp add: reduced_percents)
  show certificate: "maintains (orderly x) (HandleCertificateResults e qc0 vs)" for vs
    unfolding HandleCertificateResults_def
    by ((rule maintains_option_eq, rule maintains_simple)+, intro maintains_rules results)
  show "maintains (orderly x) (HandleMessageCertificateResults e qc0)"
    unfolding HandleMessageCertificateResults_def by (intro maintains_rules certificate)
qed

lemma points_dex_parts [maintains_rules]:
  "maintains pointsConsistent (SetDexBatch l c b)" "maintains pointsConsistent (GetDexBatch c l w)"
  unfolding SetDexBatch_def GetDexBatch_def by (intro maintains_rules; simp add: pointsConsistent_def poolAt_def)+

lemma points_dex_messages [maintains_rules]:
  "maintains pointsConsistent (HandleMessageDexLimitOrder m1)"
  "maintains pointsConsistent (HandleMessageDexLiquidityDeposit m2)"
  "maintains pointsConsistent (HandleMessageDexLiquidityWithdraw m3)"
  unfolding HandleMessageDexLimitOrder_def HandleMessageDexLiquidityDeposit_def HandleMessageDexLiquidityWithdraw_def
  by (intro maintains_rules)+

text \<open>The exchange messages store the batch they read, extended by one entry.\<close>

lemma maintains_GetDexBatch:
  assumes "\<And>b. percentsOk b \<Longrightarrow> maintains (orderly x) (f b)"
  shows "maintains (orderly x) (bnd (GetDexBatch c l False) f)"
  unfolding maintains_def
proof (intro allI impI)
  fix s assume "orderly x s"
  with assms [OF orderly_batchAt [OF this]] show "orderly x (snd (bnd (GetDexBatch c l False) f s))"
    by (simp add: GetDexBatch_def bnd_def gets_run Let_def maintains_def)
qed

lemma orderly_dex_messages [maintains_rules]:
  "maintains (orderly x) (HandleMessageDexLimitOrder m1)"
  "maintains (orderly x) (HandleMessageDexLiquidityDeposit m2)"
  "mwPercent m3 \<le> 100 \<Longrightarrow> maintains (orderly x) (HandleMessageDexLiquidityWithdraw m3)"
  unfolding HandleMessageDexLimitOrder_def HandleMessageDexLiquidityDeposit_def HandleMessageDexLiquidityWithdraw_def
  by (intro maintains_GetDexBatch maintains_rules orderly_SetDexBatch; simp add: percentsOk_def)+

lemma HandleMessage_orderly:
  assumes "vetted e msg"
  shows "maintains (orderly x) (HandleMessage e msg)"
proof (cases msg)
  case (MessageDexLiquidityWithdraw m)
  with assms show ?thesis by (simp add: HandleMessage_def orderly_dex_messages vetted_def)
next
  case (MessageCertificateResults qc)
  with assms show ?thesis
    by (simp add: HandleMessage_def vetted_def orderly_certificate_results(2) [OF checked_recipients])
qed (simp only: HandleMessage_def message.case, intro maintains_rules)+

lemma HandleMessage_points:
  assumes "\<And>qc. msg \<noteq> MessageCertificateResults qc"
  shows "maintains pointsConsistent (HandleMessage e msg)"
proof (cases msg)
  case (MessageCertificateResults qc)
  with assms show ?thesis by blast
qed (simp only: HandleMessage_def message.case, intro maintains_rules)+

lemma HandleMessage_conserves:
  assumes "conserved s" "orderly x s" "messageReady e msg s" and run: "HandleMessage e msg s = (Inr r, t)"
    and "\<And>qc. msg \<noteq> MessageCertificateResults qc"
  shows "conserved t"
proof (cases msg)
  case (MessageDAOTransfer m)
  then show ?thesis using assms hoareD [OF DAOTransfer_inflight [of 0 m]] by (simp add: HandleMessage_def messageReady_def)
next
  case (MessageChangeParameter m)
  then show ?thesis using assms ChangeParameter_conserves by (simp add: HandleMessage_def)
next
  case (MessagePause a)
  then show ?thesis using assms hoareD [OF HandleMessagePause_inflight [of 0 a]] by (simp add: HandleMessage_def)
next
  case (MessageCertificateResults qc)
  with assms show ?thesis by blast
qed (insert run, simp only: HandleMessage_def message.case, rule message_inflight [THEN hoareD, OF assms(1)], assumption)+

lemma HandleMessage_balanced:
  assumes s: "balanced s" "orderly x s" and ready: "messageReady e msg s" and chk: "vetted e msg"
    and run: "HandleMessage e msg s = (Inr r, t)"
  shows "balanced t"
proof (cases "\<exists>qc. msg = MessageCertificateResults qc")
  case True
  then obtain qc where msg: "msg = MessageCertificateResults qc" by blast
  have "resultsReady e qc False s"
    using message_results_ready [OF s(2)] ready chk by (simp add: msg vetted_def)
  from CertificateResults_balanced [OF s(1) this] run show ?thesis by (simp add: HandleMessage_def msg)
next
  case False
  then have other: "\<And>qc. msg \<noteq> MessageCertificateResults qc" by blast
  have "conserved s" "pointsConsistent s" using s(1) by (simp_all add: balanced_def)
  then have pts: "pointsConsistent t" using maintainsD [OF HandleMessage_points [OF other] _ run] by simp
  have "conserved t" by (rule HandleMessage_conserves [OF \<open>conserved s\<close> s(2) ready run other])
  with pts show ?thesis by (simp add: balanced_def)
qed



text \<open>An environment and a treasury transfer for the witnesses.\<close>

definition exampleEnv :: env where
  "exampleEnv = \<lparr>enPkOk = (\<lambda>_. True), enBlsOk = (\<lambda>_. True), enAddressOf = Addr, enMaskOk = (\<lambda>_ _. True),
     enVerify = (\<lambda>_ _ _ _. True), enCodec = exampleCodec, enDex = dexCodecEx, enHistory = (\<lambda>_. exampleState),
     enCertificate = (\<lambda>_. Inr None), enLastValidatorSet = (\<lambda>_ _. None)\<rparr>"

definition exampleGrant :: message where
  "exampleGrant = MessageDAOTransfer \<lparr>daAddress = Addr (replicate 20 2), daAmount = 7, daStartHeight = 0,
     daEndHeight = 9, daProposalHash = [], daMint = True\<rparr>"

lemma exampleGrant_ok:
  "messageReady exampleEnv exampleGrant exampleState" "Message_Check exampleEnv exampleGrant = Inr ()"
  by (simp_all add: messageReady_def exampleGrant_def example_eval Message_Check_def MessageDAOTransfer_Check_def
      checkAddress_def checkStartEndHeight_def checkAmount_def check_def AddressSize_def)

lemmas grant_eval = HandleMessage_def HandleMessageDAOTransfer_def requireApproval_def ApproveProposal_def
  MintToPool_def AddToTotalSupply_def PoolAdd_run PoolSub_run AccountAdd_run GetSupply_def SetSupply_def
  poolAt_def accountAt_def putPool_def putAccount_def DAOPoolID_def go_simps


section \<open>The output address of a validator\<close>

lemma UpdateValidatorStake_validators:
  assumes "UpdateValidatorStake val cs x s = (Inr r, t)"
  shows "validators t = tset (vAddress val) (val\<lparr>vCommittees := cs, vStakedAmount := vStakedAmount val + x\<rparr>) (validators s)"
proof -
  let ?m = "seqm [AddToStakedSupply x, if vDelegate val
      then seqm [AddToDelegateSupply x, UpdateDelegations (vAddress val) val (vStakedAmount val + x) cs]
      else UpdateCommittees (vAddress val) val (vStakedAmount val + x) cs]"
  have neutral: "token_neutral ?m"
    by (intro neutral_seqm) (simp add: neutral_supply neutral_updates neutral_bnd neutral_simple)
  let ?w = "val\<lparr>vCommittees := cs, vStakedAmount := vStakedAmount val + x\<rparr>"
  have "\<exists>u. ?m s = (Inr (), u) \<and> t = u\<lparr>validators := tset (vAddress val) ?w (validators u)\<rparr>"
    using assms unfolding UpdateValidatorStake_def Let_def seqm.simps bnd_Inr SetValidator_run ret_run by auto
  with neutral_run [OF neutral] show ?thesis by fastforce
qed

text \<open>
  Nobody but the current output address can redirect a validator's rewards and its stake. A successful
  edit leaves every other validator untouched, and it changes the output address only when the signer
  is the output address before the edit.
\<close>

theorem edit_stake_protects_output:
  assumes run: "HandleMessageEditStake msg s = (Inr (), t)" and v: "tget (validators s) a = Some v"
  shows "\<exists>w. tget (validators t) a = Some w \<and>
    (if a = esAddress msg
     then vStakedAmount w = max (vStakedAmount v) (esAmount msg) \<and> vCommittees w = esCommittees msg \<and>
       vOutput w = esOutputAddress msg \<and> (vOutput w \<noteq> vOutput v \<longrightarrow> esSigner msg = vOutput v)
     else w = v)"
proof -
  obtain z where z: "tget (validators s) (esAddress msg) = Some z"
    and auth: "vOutput z = esOutputAddress msg \<or> vOutput z = esSigner msg"
    and seq: "seqm [AccountSub (esSigner msg) (if esAmount msg \<le> vStakedAmount z then 0 else esAmount msg - vStakedAmount z),
      UpdateValidatorStake (z\<lparr>vAddress := esAddress msg, vNetAddress := esNetAddress msg,
        vOutput := esOutputAddress msg, vCompound := esCompound msg\<rparr>) (esCommittees msg)
        (if esAmount msg \<le> vStakedAmount z then 0 else esAmount msg - vStakedAmount z)] s = (Inr (), t)"
    using run by (auto simp: HandleMessageEditStake_def GetValidator_def Let_def bnd_Inr gets_run err_run ret_run
        split: if_splits sum.splits option.splits)
  obtain u where u: "AccountSub (esSigner msg) (if esAmount msg \<le> vStakedAmount z then 0 else esAmount msg - vStakedAmount z) s = (Inr (), u)"
    and t: "UpdateValidatorStake (z\<lparr>vAddress := esAddress msg, vNetAddress := esNetAddress msg,
        vOutput := esOutputAddress msg, vCompound := esCompound msg\<rparr>) (esCommittees msg)
        (if esAmount msg \<le> vStakedAmount z then 0 else esAmount msg - vStakedAmount z) u = (Inr (), t)"
    using seq by (auto simp: bnd_Inr ret_run)
  have "validators u = validators s" by (rule keepsD [OF keeps_AccountSub u]) simp
  with UpdateValidatorStake_validators [OF t] show ?thesis
    using v z auth by (auto simp: table_simps max_def)
qed

theorem edit_stake_protects_output_witness:
  "\<exists>t w. HandleMessageEditStake \<lparr>esAddress = Addr [7], esAmount = 40, esCommittees = [1], esNetAddress = ''tcp://a'',
       esOutputAddress = Addr [2], esSigner = Addr [1], esCompound = False\<rparr> exampleState = (Inr (), t) \<and>
     tget (validators t) (Addr [7]) = Some w \<and> vStakedAmount w = 40 \<and> vOutput w = Addr [2]"
proof -
  let ?msg = "\<lparr>esAddress = Addr [7], esAmount = 40, esCommittees = [1], esNetAddress = ''tcp://a'',
       esOutputAddress = Addr [2], esSigner = Addr [1], esCompound = False\<rparr>"
  let ?m = "HandleMessageEditStake ?msg exampleState"
  have "fst ?m = Inr ()"
    by (simp add: HandleMessageEditStake_def GetValidator_def UpdateValidatorStake_def slash_eval example_eval
        AccountSub_run accountAt_def AccountSpendableAmount_def AccountLockedAmount_def emptyAccount_def putAccount_def
        CheckNetAddress_def check_def checks.simps ValidNetURLInput_def validHost_def isAlnum_def)
  then have run: "?m = (Inr (), snd ?m)" by (metis prod.collapse)
  have "tget (validators exampleState) (Addr [7]) = Some exampleValidator" by (simp add: example_eval)
  from edit_stake_protects_output [OF run this] run show ?thesis
    by (auto simp: exampleValidator_def max_def intro!: exI)
qed

section \<open>The escrow of sell orders\<close>

lemma solvent_replace:
  assumes s: "solvent s" and book: "orderBook t = tset (c, oId order) order (orderBook s)"
    and own: "escrow s c + unat (oAmountForSale order) \<le> escrow t c + orderAmount s c (oId order)"
    and other: "\<And>d. d \<noteq> c \<Longrightarrow> escrow t d = escrow s d"
  shows "solvent t"
proof -
  have ok: "tok (orderBook s)" using s by (simp add: solvent_def)
  have "escrowed t d \<le> escrow t d" for d
  proof -
    have "escrowed s d \<le> escrow s d" using s by (simp add: solvent_def)
    then show ?thesis using escrowed_set [OF ok book, of d] own other [of d] by (cases "d = c") simp_all
  qed
  then show ?thesis using s ok unfolding solvent_def book by (auto simp: table_simps)
qed

text \<open>What a credit or a debit of an escrow pool does to the escrows.\<close>

lemma escrow_credit:
  assumes "inflight (unat x) s" and "PoolAdd (c + EscrowPoolAddend) x s = (Inr r, t)"
  shows "escrow t d = escrow s d + (if d = c then unat x else 0)" and "orderBook t = orderBook s"
  using assms(2) PoolAdd_exact [of 0 x s "c + EscrowPoolAddend"] assms(1)
  by (auto simp: PoolAdd_run escrow_def amount_putPool)

lemma escrow_debit:
  assumes "PoolSub (c + EscrowPoolAddend) x s = (Inr r, t)"
  shows "escrow t d + (if d = c then unat x else 0) = escrow s d" and "orderBook t = orderBook s"
  using assms by (auto simp: PoolSub_run escrow_def amount_putPool unat_sub_guarded unat_less_iff linorder_not_less
      word_le_nat_alt split: if_splits)

lemma account_escrow:
  "AccountAdd a x s = (Inr r, t) \<Longrightarrow> escrow t d = escrow s d \<and> orderBook t = orderBook s"
  "AccountSub a x s = (Inr r, t) \<Longrightarrow> escrow t d = escrow s d \<and> orderBook t = orderBook s"
  by (auto simp: AccountAdd_run AccountSub_run escrow_def poolAt_def split: if_splits)

lemma escrow_orderBook [simp]: "escrow (s\<lparr>orderBook := b\<rparr>) d = escrow s d"
  by (simp add: escrow_def poolAt_def)

lemma CreateOrder_solvent:
  assumes "conserved s" and "solvent s" and run: "HandleMessageCreateOrder msg s = (Inr r, t)"
  shows "solvent t"
proof -
  let ?x = "coAmountForSale msg" and ?c = "messageCreateOrder.coChainId msg"
  obtain u v order where u: "AccountSub (coSellersSendAddress msg) ?x s = (Inr (), u)"
    and v: "PoolAdd (?c + EscrowPoolAddend) ?x u = (Inr (), v)"
    and t: "SetOrder order ?c v = (Inr (), t)" and order: "oAmountForSale order = ?x"
    using run by (auto simp: HandleMessageCreateOrder_def GetParamsVal_def bnd_Inr gets_run err_run ret_run
        split: if_splits)
  have "inflight (unat ?x) u" using hoareD [OF AccountSub_inflight assms(1) u] by simp
  note v' = escrow_credit [OF this v] and u' = account_escrow(2) [OF u]
  show ?thesis
    by (rule solvent_replace [OF assms(2), where c = ?c and order = order])
      (use t u' v' order in \<open>auto simp: SetOrder_def go_simps\<close>)
qed

lemma order_move:
  assumes "conserved s"
    and "moveDifference a (c + EscrowPoolAddend) n k s = (Inr (), t)"
  shows "escrow t d + (if d = c then unat k else 0) = escrow s d + (if d = c then unat n else 0)"
    and "orderBook t = orderBook s"
proof -
  consider "n > k" | "n < k" | "n = k" by fastforce
  then have "escrow t d + (if d = c then unat k else 0) = escrow s d + (if d = c then unat n else 0) \<and>
      orderBook t = orderBook s"
  proof cases
    case 1
    then obtain u where u: "AccountSub a (n - k) s = (Inr (), u)"
      and t: "PoolAdd (c + EscrowPoolAddend) (n - k) u = (Inr (), t)"
      using assms(2) by (auto simp: moveDifference_def bnd_Inr ret_run split: if_splits)
    have "inflight (unat (n - k)) u" using hoareD [OF AccountSub_inflight assms(1) u] by simp
    moreover have "unat (n - k) + unat k = unat n" using 1 by (simp add: unat_sub_guarded word_less_nat_alt)
    ultimately show ?thesis
      using escrow_credit(1) [OF _ t, of d] escrow_credit(2) [OF _ t] account_escrow(2) [OF u, of d]
      by (cases "d = c") simp_all
  next
    case 2
    then obtain u where u: "PoolSub (c + EscrowPoolAddend) (k - n) s = (Inr (), u)"
      and t: "AccountAdd a (k - n) u = (Inr (), t)"
      using assms(2) by (auto simp: moveDifference_def bnd_Inr ret_run split: if_splits)
    have "unat (k - n) + unat n = unat k" using 2 by (simp add: unat_sub_guarded word_less_nat_alt)
    with escrow_debit(1) [OF u, of d] escrow_debit(2) [OF u] account_escrow(1) [OF t, of d] show ?thesis
      by (cases "d = c") simp_all
  next
    case 3
    with assms(2) show ?thesis by (simp add: moveDifference_def ret_run)
  qed
  then show "escrow t d + (if d = c then unat k else 0) = escrow s d + (if d = c then unat n else 0)"
    and "orderBook t = orderBook s" by simp_all
qed


lemma EditOrder_solvent:
  assumes "conserved s" and "solvent s" and run: "HandleMessageEditOrder msg s = (Inr r, t)"
  shows "solvent t"
proof -
  let ?c = "eoChainId msg" and ?n = "eoAmountForSale msg"
  obtain old u order where old: "tget (orderBook s) (?c, eoOrderId msg) = Some old"
    and u: "moveDifference (Addr (oSellersSendAddress old)) (?c + EscrowPoolAddend) ?n (oAmountForSale old) s = (Inr (), u)"
    and t: "SetOrder order ?c u = (Inr (), t)" and order: "oId order = oId old" "oAmountForSale order = ?n"
    using run unfolding HandleMessageEditOrder_def GetParamsVal_def Let_def bnd_Inr gets_run GetOrder_Inr
    by (auto simp: err_run bnd_Inr gets_run ret_run split: if_split_asm)
  have id: "oId old = eoOrderId msg" using assms(2) old by (auto simp: solvent_def)
  note u' = order_move [OF assms(1) u]
  have "escrow u d = escrow s d" if "d \<noteq> ?c" for d using u'(1) [of d] that by simp
  then show ?thesis
    by (intro solvent_replace [OF assms(2), where c = ?c and order = order])
      (use t u'(1) [of ?c] u'(2) order old id in \<open>auto simp: SetOrder_def go_simps orderAmount_def\<close>)
qed


lemma DeleteOrder_solvent:
  assumes "solvent s" and run: "HandleMessageDeleteOrder i c s = (Inr r, t)"
  shows "solvent t"
proof -
  obtain old u v where old: "tget (orderBook s) (c, i) = Some old"
    and u: "PoolSub (c + EscrowPoolAddend) (oAmountForSale old) s = (Inr (), u)"
    and v: "AccountAdd (Addr (oSellersSendAddress old)) (oAmountForSale old) u = (Inr (), v)"
    and t: "DeleteOrder i c v = (Inr (), t)"
    using run unfolding HandleMessageDeleteOrder_def bnd_Inr GetOrder_Inr
    by (auto simp: err_run bnd_Inr ret_run split: if_split_asm)
  have ok: "tok (orderBook s)" using assms(1) by (simp add: solvent_def)
  have book: "orderBook t = tdel (c, i) (orderBook s)" and esc: "\<And>d. escrow t d = escrow u d"
    using t account_escrow(1) [OF v] escrow_debit(2) [OF u] by (auto simp: DeleteOrder_def go_simps)
  have "escrowed t d \<le> escrow t d" for d
  proof -
    have "escrowed s d \<le> escrow s d" using assms(1) by (simp add: solvent_def)
    then show ?thesis
      using escrowed_del [OF ok book, of d] escrow_debit(1) [OF u, of d] esc [of d] old
      by (cases "d = c") (simp_all add: orderAmount_def)
  qed
  then show ?thesis using assms(1) ok unfolding solvent_def book by (auto simp: table_simps)
qed

text \<open>
  The escrow pool of every committee always covers its open sell orders: creating, editing and
  deleting an order moves exactly the difference of the amounts between the seller and the escrow.
\<close>

theorem order_messages_keep_escrow:
  assumes "conserved s" and "solvent s" and "HandleMessage e msg s = (Inr (), t)"
    and "msg = MessageCreateOrder m1 \<or> msg = MessageEditOrder m2 \<or> msg = MessageDeleteOrder i c"
  shows "solvent t"
  using assms(4)
proof (elim disjE)
  assume "msg = MessageCreateOrder m1"
  with assms show ?thesis using CreateOrder_solvent [of s m1 "()" t] by (simp add: HandleMessage_def)
next
  assume "msg = MessageEditOrder m2"
  with assms show ?thesis using EditOrder_solvent [of s m2 "()" t] by (simp add: HandleMessage_def)
next
  assume "msg = MessageDeleteOrder i c"
  with assms show ?thesis using DeleteOrder_solvent [of s i c "()" t] by (simp add: HandleMessage_def)
qed


definition exampleSale :: messageCreateOrder where
  "exampleSale = \<lparr>coChainId = 1, coData = [], coAmountForSale = 10, coRequestedAmount = 3,
     coSellerReceiveAddress = [8], coSellersSendAddress = Addr [1], coOrderId = [4]\<rparr>"

theorem order_messages_keep_escrow_witness:
  "\<exists>t. HandleMessage exampleEnv (MessageCreateOrder exampleSale) swapState = (Inr (), t) \<and> solvent t"
proof -
  let ?m = "HandleMessage exampleEnv (MessageCreateOrder exampleSale) swapState"
  have "fst ?m = Inr ()"
    by (simp add: HandleMessage_def HandleMessageCreateOrder_def exampleSale_def swapState_def example_eval GetParamsVal_def
        AccountSub_run PoolAdd_run SetOrder_def accountAt_def AccountSpendableAmount_def AccountLockedAmount_def emptyAccount_def go_simps)
  then have run: "?m = (Inr (), snd ?m)" by (metis prod.collapse)
  from order_messages_keep_escrow [OF swapState_ok(2,1) run disjI1 [OF refl]] run show ?thesis by blast
qed

end
