(* ===== verification/Blocks.thy ===== *)
theory Blocks
  imports Messages "HOL-Library.Multiset"
begin

text \<open>
  Transactions and blocks (\<open>fsm/transaction.go\<close>, \<open>fsm/state.go\<close>, \<open>fsm/automatic.go\<close>, \<open>lib/tx.go\<close>,
  \<open>lib/event.go\<close>): the checks of a transaction, its application with rollback on failure, the automatic
  steps at the start and at the end of a block, and the application of a whole block in the mode that
  validates it.

  The record \<open>node\<close> has what these take from outside: the codec and the hash of a transaction, the
  signature check of a key, the comparison with an Ethereum transaction, and the plugin, which runs in
  another process and reads and writes the state through its own calls. Signatures are checked one by
  one where the code collects them for a batch: a tuple that fails the batch is the tuple that fails alone,
  and its transaction is marked with the same error.
\<close>

section \<open>Transactions\<close>

text \<open>The payload is what its type URL and bytes decode to.\<close>

record transaction =
  txMessageType :: string
  txMsg :: "(error + message) option"
  txSignature :: "signature option"
  txCreatedHeight :: u64
  txTime :: u64
  txFee :: u64
  txMemo :: string
  txNetworkId :: u64
  txChainId :: u64

record txResult =
  trSender :: bytes
  trRecipient :: bytes
  trMessageType :: string
  trHeight :: u64
  trIndex :: u64
  trTransaction :: transaction
  trTxHash :: string

record checkTxResult =
  ctTx :: transaction
  ctMsg :: "message option"
  ctSender :: address
  ctRecipient :: bytes
  ctPlugin :: bool

record plugin =
  plSupportsTransaction :: "string \<Rightarrow> bool"
  plCheckTx :: "transaction \<Rightarrow> (bytes list \<times> bytes) fsm"
  plDeliverTx :: "transaction \<Rightarrow> event list fsm"
  plBeginBlock :: "u64 \<Rightarrow> event list fsm"
  plEndBlock :: "u64 \<Rightarrow> bytes \<Rightarrow> event list fsm"

record node =
  ndEnv :: env
  ndUnmarshal :: "bytes \<Rightarrow> error + transaction"
  ndHashString :: "bytes \<Rightarrow> string"
  ndGetHash :: "transaction \<Rightarrow> bytes"
  ndGetSignBytes :: "transaction \<Rightarrow> bytes"
  ndVerifyBytes :: "bytes \<Rightarrow> bytes \<Rightarrow> bytes \<Rightarrow> bool"
  ndIsEthKey :: "bytes \<Rightarrow> bool"
  ndRlpTransaction :: "bytes \<Rightarrow> error + transaction"
  ndPlugin :: "plugin option"

definition Transaction_CheckBasic :: "transaction \<Rightarrow> error + unit" where
  "Transaction_CheckBasic x = checks [
     check (txMsg x = None) (Error ''EmptyMessage''),
     check (txMessageType x = []) (Error ''UnknownMessageName''),
     check (case txSignature x of None \<Rightarrow> True | Some g \<Rightarrow> sgSignature g = [] \<or> sgPublicKey g = []) ErrEmptySignature,
     check (txCreatedHeight x = 0) ErrInvalidTxHeight,
     check (txTime x = 0) (Error ''InvalidTxTime''),
     check (length (txMemo x) > 200) (Error ''InvalidMemo''),
     check (txNetworkId x = 0) (Error ''NilNetworkID''),
     check (txChainId x = 0) (Error ''EmptyChainId'')]"

definition BlockAcceptanceRange :: u64 where
  "BlockAcceptanceRange = 4320"

definition CheckReplay :: "transaction \<Rightarrow> string \<Rightarrow> unit fsm" where
  "CheckReplay tx txHash = bnd (gets id) (\<lambda>s.
     if NetworkID s \<noteq> txNetworkId tx then err ErrWrongNetworkID
     else if cfgChainId (cfg s) \<noteq> txChainId tx then err ErrWrongChainId
     else if height s < 2 then ret ()
     else if txHash \<noteq> [] \<and> txHash \<in> set (indexedTxs s) then err ErrDuplicateTx
     else let maxHeight = height s + BlockAcceptanceRange;
              minHeight = (if height s > BlockAcceptanceRange then height s - BlockAcceptanceRange else 0) in
       if txCreatedHeight tx > maxHeight \<or> txCreatedHeight tx < minHeight then err ErrInvalidTxHeight
       else ret ())"

definition CheckMessage :: "env \<Rightarrow> (error + message) option \<Rightarrow> message fsm" where
  "CheckMessage e payload = (case payload of
       None \<Rightarrow> err (Error ''EmptyMessage'')
     | Some (Inl x) \<Rightarrow> err x
     | Some (Inr msg) \<Rightarrow> (case Message_Check e msg of Inl x \<Rightarrow> err x | Inr _ \<Rightarrow> ret msg))"

definition CheckFee :: "u64 \<Rightarrow> message \<Rightarrow> unit fsm" where
  "CheckFee fee msg = bnd (GetFeeForMessageName msg) (\<lambda>stateLimitFee.
     fail_if (fee < stateLimitFee) ErrTxFeeBelowStateLimit)"

text \<open>\<open>RLPIndicator\<close>: the memo of a transaction that was translated from an Ethereum one.\<close>

definition RLPIndicator :: string where
  "RLPIndicator = ''RLP''"

definition VerifyRLPBytes :: "node \<Rightarrow> transaction \<Rightarrow> bytes \<Rightarrow> error + unit" where
  "VerifyRLPBytes N tx raw = (case ndRlpTransaction N raw of
       Inl x \<Rightarrow> Inl x
     | Inr compare \<Rightarrow> if ndGetHash N compare \<noteq> ndGetHash N tx then Inl ErrInvalidSignature else Inr ())"

text \<open>The flag tells whether signatures are verified or were verified before (the \<open>noOp\<close> batch verifier).\<close>

definition CheckSignature :: "node \<Rightarrow> transaction \<Rightarrow> bytes list \<Rightarrow> bool \<Rightarrow> address fsm" where
  "CheckSignature N tx authorizedSigners verify = (case txSignature tx of
       None \<Rightarrow> err ErrEmptySignature
     | Some g \<Rightarrow>
         if sgSignature g = [] then err ErrEmptySignature
         else if \<not> enPkOk (ndEnv N) (sgPublicKey g) then err ErrInvalidPublicKey
         else case (if ndIsEthKey N (sgPublicKey g) \<and> txMemo tx = RLPIndicator then VerifyRLPBytes N tx (sgSignature g)
                    else check (verify \<and> \<not> ndVerifyBytes N (sgPublicKey g) (ndGetSignBytes N tx) (sgSignature g))
                      ErrInvalidSignature) of
           Inl x \<Rightarrow> err x
         | Inr _ \<Rightarrow> let address = enAddressOf (ndEnv N) (sgPublicKey g) in
             if address \<in> set (map Addr authorizedSigners) then ret address else err ErrUnauthorizedTx)"

text \<open>\<open>GetHash\<close> returns 32 bytes, of which an order takes the first 20 as its id.\<close>

definition PopulateSpecialMessageFields :: "node \<Rightarrow> transaction \<Rightarrow> address \<Rightarrow> message \<Rightarrow> message" where
  "PopulateSpecialMessageFields N tx signer msg = (let hash = ndGetHash N tx in case msg of
       MessageStake x \<Rightarrow> MessageStake (x\<lparr>stSigner := signer\<rparr>)
     | MessageEditStake x \<Rightarrow> MessageEditStake (x\<lparr>esSigner := signer\<rparr>)
     | MessageChangeParameter x \<Rightarrow> MessageChangeParameter (x\<lparr>chProposalHash := BytesToString hash\<rparr>)
     | MessageDAOTransfer x \<Rightarrow> MessageDAOTransfer (x\<lparr>daProposalHash := BytesToString hash\<rparr>)
     | MessageCreateOrder x \<Rightarrow> MessageCreateOrder (x\<lparr>coOrderId := take 20 hash\<rparr>)
     | MessageDexLimitOrder x \<Rightarrow> MessageDexLimitOrder (x\<lparr>mlOrderId := take 20 hash\<rparr>)
     | MessageDexLiquidityDeposit x \<Rightarrow> MessageDexLiquidityDeposit (x\<lparr>mdOrderId := take 20 hash\<rparr>)
     | MessageDexLiquidityWithdraw x \<Rightarrow> MessageDexLiquidityWithdraw (x\<lparr>mwOrderId := take 20 hash\<rparr>)
     | _ \<Rightarrow> msg)"

definition Message_Name :: "message \<Rightarrow> string" where
  "Message_Name msg = (case msg of
       MessageSend _ \<Rightarrow> ''send''
     | MessageStake _ \<Rightarrow> ''stake''
     | MessageEditStake _ \<Rightarrow> ''editStake''
     | MessageUnstake _ \<Rightarrow> ''unstake''
     | MessagePause _ \<Rightarrow> ''pause''
     | MessageUnpause _ \<Rightarrow> ''unpause''
     | MessageChangeParameter _ \<Rightarrow> ''changeParameter''
     | MessageDAOTransfer _ \<Rightarrow> ''daoTransfer''
     | MessageCertificateResults _ \<Rightarrow> ''certificateResults''
     | MessageSubsidy _ \<Rightarrow> ''subsidy''
     | MessageCreateOrder _ \<Rightarrow> ''createOrder''
     | MessageEditOrder _ \<Rightarrow> ''editOrder''
     | MessageDeleteOrder _ _ \<Rightarrow> ''deleteOrder''
     | MessageDexLimitOrder _ \<Rightarrow> ''dexLimitOrder''
     | MessageDexLiquidityDeposit _ \<Rightarrow> ''dexLiquidityDeposit''
     | MessageDexLiquidityWithdraw _ \<Rightarrow> ''dexLiquidityWithdraw'')"

definition Message_Recipient :: "message \<Rightarrow> bytes" where
  "Message_Recipient msg = (case msg of MessageSend x \<Rightarrow> addr_bytes (msToAddress x) | _ \<Rightarrow> [])"

text \<open>The two branches of \<open>CheckTx\<close> that find out who may sign, and the recipient.\<close>

definition checkPayload :: "node \<Rightarrow> transaction \<Rightarrow> (bytes list \<times> bytes \<times> message option) fsm" where
  "checkPayload N tx = (case ndPlugin N of
       Some p \<Rightarrow> if plSupportsTransaction p (txMessageType tx)
         then bnd (plCheckTx p tx) (\<lambda>(signers, recipient). ret (signers, recipient, None))
         else bnd (CheckMessage (ndEnv N) (txMsg tx)) (\<lambda>msg. bnd (CheckFee (txFee tx) msg) (\<lambda>_.
           bnd (GetAuthorizedSignersFor (ndEnv N) msg) (\<lambda>signers.
           ret (map addr_bytes signers, Message_Recipient msg, Some msg))))
     | None \<Rightarrow> bnd (CheckMessage (ndEnv N) (txMsg tx)) (\<lambda>msg. bnd (CheckFee (txFee tx) msg) (\<lambda>_.
           bnd (GetAuthorizedSignersFor (ndEnv N) msg) (\<lambda>signers.
           ret (map addr_bytes signers, Message_Recipient msg, Some msg)))))"

definition CheckTx :: "node \<Rightarrow> bytes \<Rightarrow> string \<Rightarrow> bool \<Rightarrow> checkTxResult fsm" where
  "CheckTx N transaction txHash verify = (case ndUnmarshal N transaction of
       Inl x \<Rightarrow> err x
     | Inr tx \<Rightarrow> (case Transaction_CheckBasic tx of
         Inl x \<Rightarrow> err x
       | Inr _ \<Rightarrow> bnd (CheckReplay tx txHash) (\<lambda>_. bnd (checkPayload N tx) (\<lambda>(signers, recipient, msg).
           bnd (CheckSignature N tx signers verify) (\<lambda>sender.
           ret \<lparr>ctTx = tx, ctMsg = map_option (PopulateSpecialMessageFields N tx sender) msg, ctSender = sender,
             ctRecipient = recipient, ctPlugin = (msg = None)\<rparr>)))))"

section \<open>Applying a transaction\<close>

definition Refer :: "string \<Rightarrow> unit fsm" where
  "Refer ref = modify (\<lambda>s. s\<lparr>eventReference := ref\<rparr>)"

definition Reset :: "event list fsm" where
  "Reset = bnd (gets events) (\<lambda>e. bnd (modify (\<lambda>s. s\<lparr>events := [], eventReference := []\<rparr>)) (\<lambda>_. ret e))"

text \<open>\<open>strings.TrimSpace\<close> and \<open>strings.ToLower\<close> on ASCII, and the hexadecimal codec.\<close>

definition isSpace :: "char \<Rightarrow> bool" where
  "isSpace c = (let n = of_char c :: nat in n = 32 \<or> 9 \<le> n \<and> n \<le> 13)"

definition TrimSpace :: "string \<Rightarrow> string" where
  "TrimSpace x = rev (dropWhile isSpace (rev (dropWhile isSpace x)))"

definition ToLower :: "string \<Rightarrow> string" where
  "ToLower x = map (\<lambda>c. let n = of_char c :: nat in if 65 \<le> n \<and> n \<le> 90 then char_of (n + 32) else c) x"

definition hexValue :: "char \<Rightarrow> nat option" where
  "hexValue c = (let n = of_char c :: nat in
     if 48 \<le> n \<and> n \<le> 57 then Some (n - 48) else if 97 \<le> n \<and> n \<le> 102 then Some (n - 87)
     else if 65 \<le> n \<and> n \<le> 70 then Some (n - 55) else None)"

fun StringToBytes :: "string \<Rightarrow> bytes option" where
  "StringToBytes [] = Some []"
| "StringToBytes [_] = None"
| "StringToBytes (c # d # cs) = (case (hexValue c, hexValue d, StringToBytes cs) of
     (Some h, Some l, Some bs) \<Rightarrow> Some (of_nat (16 * h + l) # bs) | _ \<Rightarrow> None)"

definition maybeFaucetTopUpForSendTx :: "address \<Rightarrow> u64 \<Rightarrow> unit fsm" where
  "maybeFaucetTopUpForSendTx sender required = bnd (gets (\<lambda>s. TrimSpace (cfgFaucetAddress (cfg s)))) (\<lambda>faucetStr.
     if faucetStr = [] then ret ()
     else let hex = ToLower faucetStr in
       case StringToBytes (if take 2 hex = ''0x'' then drop 2 hex else hex) of
         None \<Rightarrow> err ErrInvalidAddress
       | Some faucetAddr \<Rightarrow>
           if length faucetAddr \<noteq> AddressSize then err ErrAddressSize
           else if sender \<noteq> Addr faucetAddr then ret ()
           else bnd (GetAccountSpendableBalance sender) (\<lambda>bal.
             if bal \<ge> required then ret () else MintToAccount sender (required - bal)))"

text \<open>The part of \<open>ApplyTransaction\<close> that changes the state.\<close>

definition deliverTx :: "node \<Rightarrow> checkTxResult \<Rightarrow> unit fsm" where
  "deliverTx N result = (case (ctMsg result, ndPlugin N) of
       (None, Some p) \<Rightarrow> bnd (plDeliverTx p (ctTx result)) addPluginEvents
     | (None, None) \<Rightarrow> err ErrUnknownMessage
     | (Some msg, _) \<Rightarrow> seqm [
         (case msg of
            MessageSend send \<Rightarrow>
              if msAmount send > MaxUint64 - txFee (ctTx result) then err ErrInvalidAmount
              else maybeFaucetTopUpForSendTx (ctSender result) (msAmount send + txFee (ctTx result))
          | _ \<Rightarrow> ret ()),
         AccountDeductFees (ctSender result) (txFee (ctTx result)),
         HandleMessage (ndEnv N) msg])"

definition ApplyTransaction :: "node \<Rightarrow> u64 \<Rightarrow> bytes \<Rightarrow> string \<Rightarrow> (txResult \<times> event list) fsm" where
  "ApplyTransaction N index transaction txHash =
     bnd (Refer txHash) (\<lambda>_.
     bnd (CheckTx N transaction txHash False) (\<lambda>result.
     bnd (deliverTx N result) (\<lambda>_.
     bnd (gets height) (\<lambda>h.
     bnd Reset (\<lambda>events.
     ret (\<lparr>trSender = addr_bytes (ctSender result), trRecipient = ctRecipient result,
       trMessageType = (case ctMsg result of None \<Rightarrow> txMessageType (ctTx result) | Some msg \<Rightarrow> Message_Name msg),
       trHeight = h, trIndex = index, trTransaction = ctTx result, trTxHash = txHash\<rparr>, events))))))"

section \<open>The transactions of a block\<close>

record applyBlockResults =
  abTxs :: "bytes list"
  abResults :: "txResult list"
  abEvents :: "event list"
  abCount :: nat
  abBlockSize :: u64
  abLargestTx :: u64
  abFailed :: "(bytes \<times> error) list"

definition newResults :: applyBlockResults where
  "newResults = \<lparr>abTxs = [], abResults = [], abEvents = [], abCount = 0, abBlockSize = 0, abLargestTx = 0, abFailed = []\<rparr>"

definition Results_Add :: "bytes \<Rightarrow> txResult \<Rightarrow> event list \<Rightarrow> applyBlockResults \<Rightarrow> applyBlockResults" where
  "Results_Add tx result es a = (let txSize = of_nat (length tx) in
     a\<lparr>abResults := abResults a @ [result], abEvents := abEvents a @ es, abTxs := abTxs a @ [tx],
       abCount := abCount a + 1, abBlockSize := abBlockSize a + txSize,
       abLargestTx := (if txSize > abLargestTx a then txSize else abLargestTx a)\<rparr>)"

definition AddFailed :: "bytes \<Rightarrow> error \<Rightarrow> applyBlockResults \<Rightarrow> applyBlockResults" where
  "AddFailed tx e a = a\<lparr>abFailed := abFailed a @ [(tx, e)]\<rparr>"

definition AddEvent :: "event list \<Rightarrow> applyBlockResults \<Rightarrow> applyBlockResults" where
  "AddEvent es a = a\<lparr>abEvents := abEvents a @ es\<rparr>"

text \<open>
  The first pass of \<open>ApplyTransactions\<close>: every transaction is checked, signature included, against the
  state the block starts from, in a database transaction that is discarded.
\<close>

definition preCheck :: "node \<Rightarrow> state \<Rightarrow> bytes \<Rightarrow> error option" where
  "preCheck N s tx = (case fst (CheckTx N tx [] True s) of Inl e \<Rightarrow> Some e | Inr _ \<Rightarrow> None)"

text \<open>
  The rollback of a failed transaction: the database transaction is dropped, the slash tracker restored,
  the caches and the events cleared. Of the caches only the root chain's batch is not a copy of the store.
\<close>

definition rollback :: "state \<Rightarrow> state" where
  "rollback s = s\<lparr>rootDexBatch := None, events := [], eventReference := []\<rparr>"

text \<open>
  One iteration of the second pass: the deduplicator's hashes and the results are threaded through the loop.
\<close>

definition applyOne ::
    "node \<Rightarrow> u64 \<Rightarrow> (bytes \<times> error option) \<Rightarrow> (string list \<times> applyBlockResults) \<Rightarrow> (string list \<times> applyBlockResults) fsm" where
  "applyOne N maxBlockSize = (\<lambda>(tx, checked) (seen, r). (case checked of
       Some e \<Rightarrow> ret (seen, AddFailed tx e r)
     | None \<Rightarrow> let hashString = ndHashString N tx in
         if hashString \<in> set seen then err ErrDuplicateTx
         else if of_nat (length tx) + abBlockSize r > maxBlockSize then err ErrMaxBlockSize
         else (\<lambda>s. case ApplyTransaction N (of_nat (abCount r)) tx hashString s of
           (Inl e, _) \<Rightarrow> (Inr (hashString # seen, AddFailed tx e r), rollback s)
         | (Inr (result, es), t) \<Rightarrow> (Inr (hashString # seen, Results_Add tx result es r), t))))"

definition ApplyTransactions :: "node \<Rightarrow> bytes list \<Rightarrow> applyBlockResults \<Rightarrow> applyBlockResults fsm" where
  "ApplyTransactions N txs r = bnd GetMaxBlockSize (\<lambda>maxBlockSize.
     bnd (gets (\<lambda>s. map (\<lambda>tx. (tx, preCheck N s tx)) txs)) (\<lambda>checked.
     bnd (fold_m (applyOne N maxBlockSize) checked ([], r)) (\<lambda>(_, r'). ret r')))"

section \<open>The start and the end of a block (\<open>fsm/automatic.go\<close>)\<close>

definition CheckProtocolVersion :: "unit fsm" where
  "CheckProtocolVersion = bnd GetParamsCons (\<lambda>params. bnd (gets id) (\<lambda>s.
     case ParseProtocolVersion params of
       Inl x \<Rightarrow> err x
     | Inr version \<Rightarrow> fail_if (height s \<ge> pvHeight version \<and> ProtocolVersion s < pvVersion version) ErrInvalidProtocolVersion))"

text \<open>Without byzantine evidence on a chain that is not its own root.\<close>

definition handleLastCertificate :: "env \<Rightarrow> unit fsm" where
  "handleLastCertificate e = bnd (gets height) (\<lambda>h. bnd (LoadCertificate e (h - 1)) (\<lambda>lastCertificate.
     bnd (LoadRootChainId e (h - 1)) (\<lambda>rootChainId. bnd (gets (\<lambda>s. cfgChainId (cfg s))) (\<lambda>self.
     if self \<noteq> rootChainId then HandleCertificateResults e lastCertificate None
     else bnd (LoadCommittee e self (h - 1)) (\<lambda>lastValidatorSet.
       HandleCertificateResults e lastCertificate (Some lastValidatorSet))))))"

definition BeginBlock :: "node \<Rightarrow> event list fsm" where
  "BeginBlock N = bnd (Refer ''begin_block'') (\<lambda>_. bnd (gets height) (\<lambda>h.
     bnd (case ndPlugin N of None \<Rightarrow> ret () | Some p \<Rightarrow> bnd (plBeginBlock p h) addPluginEvents) (\<lambda>_.
     if h \<le> 1 then ret []
     else bnd CheckProtocolVersion (\<lambda>_. bnd FundCommitteeRewardPools (\<lambda>_.
       bnd (handleLastCertificate (ndEnv N)) (\<lambda>_. Reset))))))"

definition pausedAt :: "u64 \<Rightarrow> state \<Rightarrow> address list" where
  "pausedAt h s = map (snd \<circ> fst) (filter (\<lambda>((g, _), _). g = h) (paused s))"

text \<open>The keys of the iterator are those at its start, a validator that is unpaused on the way included.\<close>

definition ForceUnstakeMaxPaused :: "unit fsm" where
  "ForceUnstakeMaxPaused = bnd (gets height) (\<lambda>h. bnd (gets (pausedAt h)) (\<lambda>addrs. seqm [
     for_each addrs ForceUnstakeValidator,
     for_each addrs (\<lambda>addr. modify (\<lambda>s. s\<lparr>paused := tdel (h, addr) (paused s)\<rparr>))]))"

definition UpdateLastProposers :: "bytes \<Rightarrow> unit fsm" where
  "UpdateLastProposers address = bnd GetLastProposers (\<lambda>list. bnd (gets height) (\<lambda>h.
     let addresses = (if list = [] then [[], [], [], [], []] else list); index = unat (h mod 5) in
     if index \<ge> length addresses then err ErrPanic
     else modify (\<lambda>s. s\<lparr>lastProposers := addresses[index := address]\<rparr>)))"

definition EndBlock :: "node \<Rightarrow> bytes \<Rightarrow> event list fsm" where
  "EndBlock N proposerAddress = bnd (seqm [
     Refer ''end_block'',
     UpdateLastProposers proposerAddress,
     DistributeCommitteeRewards,
     ForceUnstakeMaxPaused,
     DeleteFinishedUnstaking,
     IncludeSameBlockDex,
     (case ndPlugin N of None \<Rightarrow> ret ()
      | Some p \<Rightarrow> bnd (gets height) (\<lambda>h. bnd (plEndBlock p h proposerAddress) addPluginEvents))]) (\<lambda>_. Reset)"

text \<open>\<open>ApplyBlock\<close> up to the block header, which is made of Merkle roots.\<close>

definition ApplyBlock :: "node \<Rightarrow> bytes list \<Rightarrow> bytes \<Rightarrow> applyBlockResults fsm" where
  "ApplyBlock N txs proposerAddress =
     bnd (BeginBlock N) (\<lambda>es. bnd (ApplyTransactions N txs (AddEvent es newResults)) (\<lambda>r.
     bnd (EndBlock N proposerAddress) (\<lambda>es'. ret (AddEvent es' r))))"

section \<open>Checking a transaction\<close>

lemma keeps_signers [keeps_rules]: "keeps f (GetAuthorizedSignersFor e msg)"
  unfolding GetAuthorizedSignersFor_def pubKeyBytesToAddress_def GetAuthorizedSignersForValidator_def GetValidator_def
    GetOrder_def
  by (cases msg; simp only: message.case; intro keeps_rules)

lemma keeps_checks [keeps_rules]:
  "keeps f (CheckReplay tx h)" "keeps f (CheckMessage e m)" "keeps f (CheckFee n msg)" "keeps f (CheckSignature N tx as v)"
  unfolding CheckReplay_def CheckMessage_def CheckFee_def CheckSignature_def GetFeeForMessageName_def GetParamsFee_def
  by (intro keeps_rules)+

lemma keeps_run: "keeps id m \<Longrightarrow> m s = (r, t) \<Longrightarrow> t = s"
  using keepsD [of id m s r t] by simp

lemma CheckSignature_run:
  assumes "CheckSignature N tx as v s = (Inr a, t)"
  obtains g where "txSignature tx = Some g" "enPkOk (ndEnv N) (sgPublicKey g)" "a = enAddressOf (ndEnv N) (sgPublicKey g)"
    "addr_bytes a \<in> set as"
    "if ndIsEthKey N (sgPublicKey g) \<and> txMemo tx = RLPIndicator then VerifyRLPBytes N tx (sgSignature g) = Inr ()
     else v \<longrightarrow> ndVerifyBytes N (sgPublicKey g) (ndGetSignBytes N tx) (sgSignature g)"
  using assms unfolding CheckSignature_def
  by (auto simp: err_run ret_run Let_def check_def split: option.splits if_splits sum.splits)

lemma checkPayload_run:
  assumes "ndPlugin N = None" and "checkPayload N tx s = (Inr (as, recipient, m), t)"
  obtains msg signers where "txMsg tx = Some (Inr msg)" "Message_Check (ndEnv N) msg = Inr ()" "m = Some msg"
    "CheckFee (txFee tx) msg s = (Inr (), s)" "GetAuthorizedSignersFor (ndEnv N) msg s = (Inr signers, s)"
    "as = map addr_bytes signers" "recipient = Message_Recipient msg" "t = s"
proof -
  obtain msg u v w signers where run: "CheckMessage (ndEnv N) (txMsg tx) s = (Inr msg, u)" "CheckFee (txFee tx) msg u = (Inr (), v)"
    "GetAuthorizedSignersFor (ndEnv N) msg v = (Inr signers, t)"
    "as = map addr_bytes signers" "recipient = Message_Recipient msg" "m = Some msg"
    using assms by (auto simp: checkPayload_def bnd_Inr ret_run)
  then have same: "u = s" "v = s" "t = s"
    by (metis keeps_run keeps_checks(2), metis keeps_run keeps_checks(2,3), metis keeps_run keeps_checks(2,3) keeps_signers)
  have "txMsg tx = Some (Inr msg)" "Message_Check (ndEnv N) msg = Inr ()"
    using run(1) by (auto simp: CheckMessage_def err_run ret_run split: option.splits sum.splits)
  then show ?thesis using that run same by blast
qed

text \<open>A transaction that passed all checks.\<close>

definition passed :: "node \<Rightarrow> state \<Rightarrow> string \<Rightarrow> bool \<Rightarrow> bytes \<Rightarrow> checkTxResult \<Rightarrow> transaction \<Rightarrow> message \<Rightarrow> signature \<Rightarrow> address list \<Rightarrow> bool" where
  "passed N s h v bz c tx msg g signers \<longleftrightarrow>
     ndUnmarshal N bz = Inr tx \<and> Transaction_CheckBasic tx = Inr () \<and> CheckReplay tx h s = (Inr (), s) \<and>
     txMsg tx = Some (Inr msg) \<and> Message_Check (ndEnv N) msg = Inr () \<and> CheckFee (txFee tx) msg s = (Inr (), s) \<and>
     GetAuthorizedSignersFor (ndEnv N) msg s = (Inr signers, s) \<and>
     txSignature tx = Some g \<and> enPkOk (ndEnv N) (sgPublicKey g) \<and> enAddressOf (ndEnv N) (sgPublicKey g) \<in> set signers \<and>
     (if ndIsEthKey N (sgPublicKey g) \<and> txMemo tx = RLPIndicator then VerifyRLPBytes N tx (sgSignature g) = Inr ()
      else v \<longrightarrow> ndVerifyBytes N (sgPublicKey g) (ndGetSignBytes N tx) (sgSignature g)) \<and>
     c = \<lparr>ctTx = tx, ctMsg = Some (PopulateSpecialMessageFields N tx (enAddressOf (ndEnv N) (sgPublicKey g)) msg),
       ctSender = enAddressOf (ndEnv N) (sgPublicKey g), ctRecipient = Message_Recipient msg, ctPlugin = False\<rparr>"

lemma CheckTx_run:
  assumes "ndPlugin N = None" and "CheckTx N bz h v s = (Inr c, t)"
  obtains tx msg g signers where "passed N s h v bz c tx msg g signers" "t = s"
proof -
  obtain tx u where tx: "ndUnmarshal N bz = Inr tx" "Transaction_CheckBasic tx = Inr ()" and rep: "CheckReplay tx h s = (Inr (), u)"
    and rest: "bnd (checkPayload N tx) (\<lambda>(signers, recipient, msg). bnd (CheckSignature N tx signers v) (\<lambda>sender.
           ret \<lparr>ctTx = tx, ctMsg = map_option (PopulateSpecialMessageFields N tx sender) msg, ctSender = sender,
             ctRecipient = recipient, ctPlugin = (msg = None)\<rparr>)) u = (Inr c, t)"
    using assms(2) unfolding CheckTx_def by (auto simp: bnd_Inr err_run split: sum.splits)
  from rep have u: "u = s" by (metis keeps_run keeps_checks(1))
  obtain as recipient m w where pay: "checkPayload N tx s = (Inr (as, recipient, m), w)"
    and sig: "bnd (CheckSignature N tx as v) (\<lambda>sender.
           ret \<lparr>ctTx = tx, ctMsg = map_option (PopulateSpecialMessageFields N tx sender) m, ctSender = sender,
             ctRecipient = recipient, ctPlugin = (m = None)\<rparr>) w = (Inr c, t)"
    using rest unfolding u bnd_Inr by (elim exE conjE) (auto simp: bnd_Inr)
  obtain msg signers where m: "txMsg tx = Some (Inr msg)" "Message_Check (ndEnv N) msg = Inr ()" "m = Some msg"
    "CheckFee (txFee tx) msg s = (Inr (), s)" "GetAuthorizedSignersFor (ndEnv N) msg s = (Inr signers, s)"
    "as = map addr_bytes signers" "recipient = Message_Recipient msg" "w = s"
    by (rule checkPayload_run [OF assms(1) pay]) blast
  obtain a z where cs: "CheckSignature N tx as v s = (Inr a, z)" and c: "c = \<lparr>ctTx = tx,
      ctMsg = Some (PopulateSpecialMessageFields N tx a msg), ctSender = a, ctRecipient = recipient, ctPlugin = False\<rparr>" "t = z"
    using sig m by (auto simp: bnd_Inr ret_run)
  obtain g where g: "txSignature tx = Some g" "enPkOk (ndEnv N) (sgPublicKey g)" "a = enAddressOf (ndEnv N) (sgPublicKey g)"
    "addr_bytes a \<in> set as"
    "if ndIsEthKey N (sgPublicKey g) \<and> txMemo tx = RLPIndicator then VerifyRLPBytes N tx (sgSignature g) = Inr ()
     else v \<longrightarrow> ndVerifyBytes N (sgPublicKey g) (ndGetSignBytes N tx) (sgSignature g)"
    by (rule CheckSignature_run [OF cs])
  have "a \<in> set signers" using g(4) m(6) by (metis (no_types, lifting) address.expand imageE list.set_map)
  moreover have "z = s" using cs by (metis keeps_run keeps_checks(4))
  ultimately have "passed N s h v bz c tx msg g signers" "t = s"
    using tx rep u m g c by (simp_all add: passed_def)
  then show ?thesis by (rule that)
qed

lemma vetted_populated: "Message_Check e msg = Inr () \<Longrightarrow> vetted e (PopulateSpecialMessageFields N tx a msg)"
  by (drule vetted_check) (cases msg; simp add: PopulateSpecialMessageFields_def vetted_def)

section \<open>Applying a transaction\<close>

text \<open>Between two transactions the event tracker is empty.\<close>

definition quiet :: "state \<Rightarrow> bool" where
  "quiet s \<longleftrightarrow> events s = [] \<and> eventReference s = []"

lemma Reset_run: "Reset s = (Inr e, t) \<longleftrightarrow> e = events s \<and> t = s\<lparr>events := [], eventReference := []\<rparr>"
  by (auto simp: Reset_def bnd_def gets_run modify_run ret_run)

lemma ApplyTransaction_run:
  assumes "ndPlugin N = None" and "ApplyTransaction N i bz h s = (Inr (result, es), t)"
  obtains c tx msg g signers u where "passed N (s\<lparr>eventReference := h\<rparr>) h False bz c tx msg g signers"
    "deliverTx N c (s\<lparr>eventReference := h\<rparr>) = (Inr (), u)" "t = u\<lparr>events := [], eventReference := []\<rparr>" "es = events u"
    "trTxHash result = h" "trIndex result = i" "trSender result = addr_bytes (ctSender c)" "trHeight result = height u"
proof -
  obtain c u v where run: "CheckTx N bz h False (s\<lparr>eventReference := h\<rparr>) = (Inr c, v)" "deliverTx N c v = (Inr (), u)"
    and res: "t = u\<lparr>events := [], eventReference := []\<rparr>" "es = events u"
    "trTxHash result = h" "trIndex result = i" "trSender result = addr_bytes (ctSender c)" "trHeight result = height u"
    using assms(2) unfolding ApplyTransaction_def Refer_def bnd_Inr modify_run gets_run ret_run Reset_run by auto
  from CheckTx_run [OF assms(1) run(1)] show ?thesis using that run(2) res by metis
qed

context framed_core
begin

lemma spendable [maintains_rules]: "maintains P (GetAccountSpendableBalance a)"
  unfolding GetAccountSpendableBalance_def by (intro maintains_rules)

lemma faucet [maintains_rules]: "maintains P (maybeFaucetTopUpForSendTx a n)"
  unfolding maybeFaucetTopUpForSendTx_def by (intro maintains_rules)

lemma begin_end [maintains_rules]:
  "maintains P (UpdateLastProposers a)" "maintains P ForceUnstakeMaxPaused" "maintains P CheckProtocolVersion"
  "maintains P (Refer ref)" "maintains P Reset"
  unfolding UpdateLastProposers_def GetLastProposers_def ForceUnstakeMaxPaused_def CheckProtocolVersion_def Refer_def Reset_def
  by (intro maintains_rules; simp add: framed_fields)+

end

lemma deliverTx_orderly:
  assumes "passed N s h v bz c tx msg g signers"
  shows "maintains (orderly x) (deliverTx N c)"
proof -
  let ?m = "PopulateSpecialMessageFields N tx (enAddressOf (ndEnv N) (sgPublicKey g)) msg"
  have c: "ctMsg c = Some ?m" and vet: "vetted (ndEnv N) ?m"
    using assms by (simp_all add: passed_def vetted_populated)
  have "maintains (orderly x) (case ?m of MessageSend send \<Rightarrow> if msAmount send > MaxUint64 - txFee (ctTx c) then err ErrInvalidAmount
      else maybeFaucetTopUpForSendTx (ctSender c) (msAmount send + txFee (ctTx c)) | _ \<Rightarrow> ret ())"
    by (cases ?m; simp only: message.case; intro maintains_rules)
  then show ?thesis
    unfolding deliverTx_def c prod.case option.case by (intro maintains_rules HandleMessage_orderly [OF vet])
qed

lemma ApplyTransaction_orderly:
  assumes "ndPlugin N = None" and "orderly x s" and "ApplyTransaction N i bz h s = (Inr (result, es), t)"
  shows "orderly x t \<and> quiet t"
proof (rule ApplyTransaction_run [OF assms(1,3)])
  fix c tx msg g signers u
  assume p: "passed N (s\<lparr>eventReference := h\<rparr>) h False bz c tx msg g signers"
    and d: "deliverTx N c (s\<lparr>eventReference := h\<rparr>) = (Inr (), u)" and t: "t = u\<lparr>events := [], eventReference := []\<rparr>"
  have "orderly x (s\<lparr>eventReference := h\<rparr>)" using assms(2) by (simp add: frame_simps)
  from maintainsD [OF deliverTx_orderly [OF p] this d] show ?thesis by (simp add: t quiet_def frame_simps)
qed

section \<open>The loop over the transactions\<close>

lemma applyOne_run:
  assumes "applyOne N mx (tx, c) (seen, r) s = (Inr (seen', r'), t)"
  obtains (failed) e where "r' = AddFailed tx e r" "t = s \<or> t = rollback s" "set seen \<subseteq> set seen'"
  | (included) result es where "c = None" "ndHashString N tx \<notin> set seen" "seen' = ndHashString N tx # seen"
      "of_nat (length tx) + abBlockSize r \<le> mx" "r' = Results_Add tx result es r"
      "ApplyTransaction N (of_nat (abCount r)) tx (ndHashString N tx) s = (Inr (result, es), t)"
proof (cases c)
  case (Some e)
  with assms failed show ?thesis by (auto simp: applyOne_def ret_run)
next
  case None
  with assms have fresh: "ndHashString N tx \<notin> set seen" "of_nat (length tx) + abBlockSize r \<le> mx"
    by (auto simp: applyOne_def err_run Let_def split: if_splits)
  then have small: "\<not> mx < of_nat (length tx) + abBlockSize r" by simp
  show ?thesis
  proof (cases "ApplyTransaction N (of_nat (abCount r)) tx (ndHashString N tx) s")
    case (Pair q u)
    with assms None fresh show ?thesis
      by (cases q) (auto simp: applyOne_def Let_def small intro: failed included)
  qed
qed

lemma applyOne_again:
  assumes "ndHashString N tx \<notin> set seen" "of_nat (length tx) + abBlockSize r \<le> mx"
    "ApplyTransaction N (of_nat (abCount r)) tx (ndHashString N tx) s = (Inr (result, es), t)"
  shows "applyOne N mx (tx, None) (seen, r\<lparr>abFailed := F\<rparr>) s =
    (Inr (ndHashString N tx # seen, (Results_Add tx result es r)\<lparr>abFailed := F\<rparr>), t)"
  using assms by (simp add: applyOne_def Let_def Results_Add_def leD)

lemma rollback_quiet: "quiet s \<Longrightarrow> rootDexBatch s = None \<Longrightarrow> rollback s = s"
  by (simp add: rollback_def quiet_def)

lemma orderly_rootDexBatch: "orderly x s \<Longrightarrow> orderly x t \<Longrightarrow> rootDexBatch t = rootDexBatch s"
  unfolding orderly_def contextOf_def by (metis prod.inject)

lemma replay_loop:
  assumes "ndPlugin N = None"
    and "fold_m (applyOne N mx) (map (\<lambda>tx. (tx, c tx)) txs) (seen, r) s = (Inr (seen', r'), t)"
    and "orderly x s" and "quiet s" and "rootDexBatch s = None" and "set seen0 \<subseteq> set seen"
  shows "\<exists>new seen0'. abTxs r' = abTxs r @ new \<and> (\<forall>tx \<in> set new. c tx = None) \<and> orderly x t \<and> quiet t \<and>
    fold_m (applyOne N mx) (map (\<lambda>tx. (tx, None)) new) (seen0, r\<lparr>abFailed := F\<rparr>) s = (Inr (seen0', r'\<lparr>abFailed := F\<rparr>), t)"
  using assms(2-)
proof (induction txs arbitrary: seen seen0 r s)
  case Nil
  then show ?case by (auto simp: ret_run)
next
  case (Cons tx txs)
  obtain seen1 r1 u where one: "applyOne N mx (tx, c tx) (seen, r) s = (Inr (seen1, r1), u)"
    and rest: "fold_m (applyOne N mx) (map (\<lambda>tx. (tx, c tx)) txs) (seen1, r1) u = (Inr (seen', r'), t)"
    using Cons.prems(1) by (auto simp: bnd_Inr)
  from one show ?case
  proof (cases rule: applyOne_run)
    case (failed e)
    then have u: "u = s" using rollback_quiet Cons.prems by auto
    have "set seen0 \<subseteq> set seen1" using failed Cons.prems by blast
    from Cons.IH [OF rest [unfolded u] Cons.prems(2-4) this] failed(1) show ?thesis
      by (simp add: u AddFailed_def)
  next
    case (included result es)
    have "orderly x u \<and> quiet u" by (rule ApplyTransaction_orderly [OF assms(1) Cons.prems(2) included(6)])
    then have u: "orderly x u" "quiet u" "rootDexBatch u = None"
      using orderly_rootDexBatch [OF Cons.prems(2)] Cons.prems(4) by auto
    have sub: "set (ndHashString N tx # seen0) \<subseteq> set seen1" using included(3) Cons.prems(5) by auto
    obtain new seen0' where new: "abTxs r' = abTxs r1 @ new" "\<forall>tx \<in> set new. c tx = None" "orderly x t" "quiet t"
      "fold_m (applyOne N mx) (map (\<lambda>tx. (tx, None)) new) (ndHashString N tx # seen0, r1\<lparr>abFailed := F\<rparr>) u =
         (Inr (seen0', r'\<lparr>abFailed := F\<rparr>), t)"
      using Cons.IH [OF rest u sub] by blast
    have "ndHashString N tx \<notin> set seen0" using included(2) Cons.prems(5) by blast
    note again = applyOne_again [OF this included(4,6), of F]
    have "fold_m (applyOne N mx) (map (\<lambda>tx. (tx, None)) (tx # new)) (seen0, r\<lparr>abFailed := F\<rparr>) s =
         (Inr (seen0', r'\<lparr>abFailed := F\<rparr>), t)"
      using again new(5) included(5) by (simp add: bnd_def)
    moreover have "abTxs r' = abTxs r @ tx # new" using new(1) included(5) by (simp add: Results_Add_def Let_def)
    ultimately show ?thesis using new included(1) by (intro exI [of _ "tx # new"] exI [of _ seen0']) simp
  qed
qed

lemma ApplyTransactions_run:
  "ApplyTransactions N txs r s = (Inr r', t) \<longleftrightarrow> (\<exists>mx seen'. GetMaxBlockSize s = (Inr mx, s) \<and>
     fold_m (applyOne N mx) (map (\<lambda>tx. (tx, preCheck N s tx)) txs) ([], r) s = (Inr (seen', r'), t))"
proof -
  have "GetMaxBlockSize s = (Inr mx, u) \<Longrightarrow> u = s" for mx u
    by (auto simp: GetMaxBlockSize_def GetParamsCons_def bnd_Inr gets_run ret_run err_run split: if_splits)
  then show ?thesis
    unfolding ApplyTransactions_def bnd_Inr gets_run by (auto simp: ret_run split: prod.splits)
qed

lemma ApplyTransactions_replay:
  assumes "ndPlugin N = None" and run: "ApplyTransactions N txs r s = (Inr r', t)"
    and "orderly x s" and "quiet s" and "rootDexBatch s = None" and "abTxs r = []"
  shows "ApplyTransactions N (abTxs r') r s = (Inr (r'\<lparr>abFailed := abFailed r\<rparr>), t) \<and> orderly x t \<and> quiet t"
proof -
  obtain mx seen' where mx: "GetMaxBlockSize s = (Inr mx, s)"
    and loop: "fold_m (applyOne N mx) (map (\<lambda>tx. (tx, preCheck N s tx)) txs) ([], r) s = (Inr (seen', r'), t)"
    using run unfolding ApplyTransactions_run by blast
  obtain new seen0' where new: "abTxs r' = new" "\<forall>tx \<in> set new. preCheck N s tx = None" "orderly x t" "quiet t"
    "fold_m (applyOne N mx) (map (\<lambda>tx. (tx, None)) new) ([], r\<lparr>abFailed := abFailed r\<rparr>) s =
       (Inr (seen0', r'\<lparr>abFailed := abFailed r\<rparr>), t)"
    using replay_loop [OF assms(1) loop assms(3-5), of "[]" "abFailed r"] assms(6) by auto
  have "map (\<lambda>tx. (tx, None)) new = map (\<lambda>tx. (tx, preCheck N s tx)) new" using new(2) by simp
  with new mx have "ApplyTransactions N (abTxs r') r s = (Inr (r'\<lparr>abFailed := abFailed r\<rparr>), t)"
    unfolding ApplyTransactions_run by fastforce
  with new show ?thesis by blast
qed

section \<open>A block\<close>

lemma keeps_LoadRootChainId: "keeps f (LoadRootChainId e h)" "keeps f (LoadCertificate e h)"
  unfolding LoadRootChainId_def TimeMachine_def LoadCertificate_def by (intro keeps_rules)+

lemma frame_certificate [maintains_rules]: "maintains P (LoadRootChainId e h)" "maintains P (LoadCertificate e h)"
  by (auto simp: maintains_def) (metis keeps_LoadRootChainId keeps_run prod.collapse)+

text \<open>The certificates the node indexed hand out at most 100 percent per chain.\<close>

definition certificatesOk :: "env \<Rightarrow> bool" where
  "certificatesOk e \<longleftrightarrow> (\<forall>h qc. enCertificate e h = Inr qc \<longrightarrow> recipientsOk qc)"

lemma handleLastCertificate_orderly:
  assumes "snd x \<Longrightarrow> certificatesOk e"
  shows "maintains (orderly x) (handleLastCertificate e)"
  unfolding handleLastCertificate_def LoadCertificate_def
proof (rule maintains_bnd [OF maintains_simple(3)])
  fix h :: u64
  let ?g = "\<lambda>qc. bnd (LoadRootChainId e (h - 1)) (\<lambda>rootChainId. bnd (gets (\<lambda>s. cfgChainId (cfg s))) (\<lambda>self.
     if self \<noteq> rootChainId then HandleCertificateResults e qc None
     else bnd (LoadCommittee e self (h - 1)) (\<lambda>vs. HandleCertificateResults e qc (Some vs))))"
  let ?c = "enCertificate e (if h - 1 \<le> 1 then 1 else h - 1)"
  show "maintains (orderly x) (bnd (case ?c of Inl x \<Rightarrow> err x | Inr qc \<Rightarrow> ret qc) ?g)"
  proof (cases ?c)
    case (Inr qc)
    have "maintains (orderly x) (?g qc)"
      by (intro maintains_rules orderly_certificate_results) (use assms Inr in \<open>auto simp: certificatesOk_def\<close>)
    then show ?thesis unfolding Inr by (simp add: bnd_ret)
  qed (simp add: bnd_def err_def maintains_def)
qed

lemma BeginBlock_orderly:
  assumes "ndPlugin N = None" and "snd x \<Longrightarrow> certificatesOk (ndEnv N)"
  shows "maintains (orderly x) (BeginBlock N)"
  unfolding BeginBlock_def assms(1) option.case by (intro maintains_rules handleLastCertificate_orderly [OF assms(2)])

lemma BeginBlock_run:
  assumes "ndPlugin N = None" and "1 < height s" and "BeginBlock N s = (Inr es, t)"
  obtains u v where "CheckProtocolVersion (s\<lparr>eventReference := ''begin_block''\<rparr>) = (Inr (), s\<lparr>eventReference := ''begin_block''\<rparr>)"
    "FundCommitteeRewardPools (s\<lparr>eventReference := ''begin_block''\<rparr>) = (Inr (), u)"
    "handleLastCertificate (ndEnv N) u = (Inr (), v)" "es = events v" "t = v\<lparr>events := [], eventReference := []\<rparr>"
proof -
  let ?s = "s\<lparr>eventReference := ''begin_block''\<rparr>"
  obtain w u v where run: "CheckProtocolVersion ?s = (Inr (), w)" "FundCommitteeRewardPools w = (Inr (), u)"
    "handleLastCertificate (ndEnv N) u = (Inr (), v)" "es = events v" "t = v\<lparr>events := [], eventReference := []\<rparr>"
    using assms(1,3) assms(2) [folded not_le] by (auto simp: BeginBlock_def Refer_def bnd_Inr modify_run gets_run ret_run Reset_run)
  have "keeps id CheckProtocolVersion"
    unfolding CheckProtocolVersion_def GetParamsCons_def by (intro keeps_rules)
  from keeps_run [OF this run(1)] show ?thesis using that run by simp
qed

lemma BeginBlock_quiet:
  assumes "ndPlugin N = None" and "1 < height s" and "BeginBlock N s = (Inr es, t)"
  shows "quiet t"
  by (rule BeginBlock_run [OF assms]) (simp add: quiet_def)

lemma ApplyBlock_run:
  "ApplyBlock N txs p s = (Inr r, t) \<longleftrightarrow> (\<exists>es u r' v es'. BeginBlock N s = (Inr es, u) \<and>
     ApplyTransactions N txs (AddEvent es newResults) u = (Inr r', v) \<and> EndBlock N p v = (Inr es', t) \<and> r = AddEvent es' r')"
  unfolding ApplyBlock_def bnd_Inr ret_run by auto


section \<open>What a block includes\<close>

text \<open>An invariant of the loop, for the transactions done so far, the hashes seen and the results.\<close>

lemma loop_rule:
  assumes "ndPlugin N = None"
    and failed: "\<And>tx e past seen seen1 r. I past seen r \<Longrightarrow> set seen \<subseteq> set seen1 \<Longrightarrow> I (past @ [tx]) seen1 (AddFailed tx e r)"
    and included: "\<And>tx result es past seen r u v. I past seen r \<Longrightarrow> orderly x u \<Longrightarrow> c tx = None \<Longrightarrow> tx \<in> S \<Longrightarrow>
      ndHashString N tx \<notin> set seen \<Longrightarrow> of_nat (length tx) + abBlockSize r \<le> mx \<Longrightarrow>
      ApplyTransaction N (of_nat (abCount r)) tx (ndHashString N tx) u = (Inr (result, es), v) \<Longrightarrow>
      I (past @ [tx]) (ndHashString N tx # seen) (Results_Add tx result es r)"
    and "fold_m (applyOne N mx) (map (\<lambda>tx. (tx, c tx)) txs) (seen, r) s = (Inr (seen', r'), t)"
    and "orderly x s" and "quiet s" and "rootDexBatch s = None" and "set txs \<subseteq> S" and "I past seen r"
  shows "I (past @ txs) seen' r'"
  using assms(4-)
proof (induction txs arbitrary: seen r s past)
  case Nil
  then show ?case by (simp add: ret_run)
next
  case (Cons tx txs)
  obtain seen1 r1 u where one: "applyOne N mx (tx, c tx) (seen, r) s = (Inr (seen1, r1), u)"
    and rest: "fold_m (applyOne N mx) (map (\<lambda>tx. (tx, c tx)) txs) (seen1, r1) u = (Inr (seen', r'), t)"
    using Cons.prems(1) by (auto simp: bnd_Inr)
  have sub: "set txs \<subseteq> S" "tx \<in> S" using Cons.prems(5) by auto
  from one show ?case
  proof (cases rule: applyOne_run)
    case (failed e)
    then have u: "u = s" using rollback_quiet Cons.prems by auto
    have "I (past @ [tx]) seen1 r1" unfolding failed(1) by (rule assms(2) [OF Cons.prems(6) failed(3)])
    from Cons.IH [OF rest [unfolded u] Cons.prems(2-4) sub(1) this] show ?thesis by simp
  next
    case (included result es)
    have "orderly x u \<and> quiet u" by (rule ApplyTransaction_orderly [OF assms(1) Cons.prems(2) included(6)])
    then have u: "orderly x u" "quiet u" "rootDexBatch u = None"
      using orderly_rootDexBatch [OF Cons.prems(2)] Cons.prems(4) by auto
    have "I (past @ [tx]) seen1 r1"
      unfolding included(3,5) by (rule assms(3) [OF Cons.prems(6,2) included(1) sub(2) included(2,4,6)])
    from Cons.IH [OF rest u sub(1) this] show ?thesis by simp
  qed
qed

text \<open>
  A transaction and its result as the chain may rely on them: signed by the key the sender's address is made
  of, for this network and chain, created within the acceptance range, and not indexed in an earlier block.
\<close>

definition genuine :: "node \<Rightarrow> state \<Rightarrow> bytes \<Rightarrow> txResult \<Rightarrow> bool" where
  "genuine N s bz result \<longleftrightarrow> (\<exists>tx g. ndUnmarshal N bz = Inr tx \<and> txSignature tx = Some g \<and>
     trSender result = addr_bytes (enAddressOf (ndEnv N) (sgPublicKey g)) \<and> trTxHash result = ndHashString N bz \<and>
     (if ndIsEthKey N (sgPublicKey g) \<and> txMemo tx = RLPIndicator then VerifyRLPBytes N tx (sgSignature g) = Inr ()
      else ndVerifyBytes N (sgPublicKey g) (ndGetSignBytes N tx) (sgSignature g)) \<and>
     txNetworkId tx = NetworkID s \<and> txChainId tx = cfgChainId (cfg s) \<and>
     (ndHashString N bz = [] \<or> ndHashString N bz \<notin> set (indexedTxs s)) \<and>
     unat (height s) \<le> unat (txCreatedHeight tx) + 4320 \<and> unat (txCreatedHeight tx) \<le> unat (height s) + 4320)"

lemma genuine_context: "contextOf s = contextOf u \<Longrightarrow> genuine N s = genuine N u"
  by (simp add: contextOf_def genuine_def fun_eq_iff)

lemma unat_add_le: "unat (a + b :: u64) \<le> unat a + unat b"
  by (simp add: unat_word_ariths)

lemma CheckReplay_run:
  assumes "CheckReplay tx h s = (Inr r, t)" and "1 < height s"
  shows "NetworkID s = txNetworkId tx" "cfgChainId (cfg s) = txChainId tx" "h = [] \<or> h \<notin> set (indexedTxs s)"
    "unat (height s) \<le> unat (txCreatedHeight tx) + 4320" "unat (txCreatedHeight tx) \<le> unat (height s) + 4320"
proof -
  have high: "\<not> height s < 2" using assms(2) by (simp add: unat_less_iff)
  have facts: "NetworkID s = txNetworkId tx \<and> cfgChainId (cfg s) = txChainId tx \<and> (h = [] \<or> h \<notin> set (indexedTxs s)) \<and>
     txCreatedHeight tx \<le> height s + BlockAcceptanceRange \<and>
     (height s > BlockAcceptanceRange \<longrightarrow> height s - BlockAcceptanceRange \<le> txCreatedHeight tx)"
    using assms(1) high unfolding CheckReplay_def bnd_def gets_run id_apply
    by (auto simp: err_run ret_run Let_def not_less split: if_split_asm)
  then show "NetworkID s = txNetworkId tx" "cfgChainId (cfg s) = txChainId tx" "h = [] \<or> h \<notin> set (indexedTxs s)" by simp_all
  have "unat (height s) \<le> unat (txCreatedHeight tx) + unat BlockAcceptanceRange"
    using facts unat_sub_guarded [of "height s" BlockAcceptanceRange]
    by (cases "height s > BlockAcceptanceRange") (auto simp: unat_le_iff unat_less_iff not_less)
  moreover have "unat (txCreatedHeight tx) \<le> unat (height s) + unat BlockAcceptanceRange"
    using facts unat_add_le [of "height s" BlockAcceptanceRange] by (simp add: unat_le_iff)
  ultimately show "unat (height s) \<le> unat (txCreatedHeight tx) + 4320" "unat (txCreatedHeight tx) \<le> unat (height s) + 4320"
    by (simp_all add: BlockAcceptanceRange_def)
qed

lemma included_genuine:
  assumes "ndPlugin N = None" and "preCheck N s bz = None" and "contextOf u = contextOf s" and "1 < height s"
    and "ApplyTransaction N i bz (ndHashString N bz) u = (Inr (result, es), v)"
  shows "genuine N s bz result \<and> trIndex result = i"
proof (rule ApplyTransaction_run [OF assms(1,5)])
  fix c tx msg g signers w
  let ?h = "ndHashString N bz" let ?u = "u\<lparr>eventReference := ?h\<rparr>"
  assume p: "passed N ?u ?h False bz c tx msg g signers"
    and res: "trTxHash result = ?h" "trIndex result = i" "trSender result = addr_bytes (ctSender c)"
  obtain c0 z where "CheckTx N bz [] True s = (Inr c0, z)"
    using assms(2) by (auto simp: preCheck_def split: sum.splits) (metis prod.collapse)
  then obtain tx0 msg0 g0 signers0 where p0: "passed N s [] True bz c0 tx0 msg0 g0 signers0"
    using CheckTx_run [OF assms(1)] by metis
  have same: "tx0 = tx" "g0 = g" using p p0 by (simp_all add: passed_def)
  have rep: "CheckReplay tx ?h ?u = (Inr (), ?u)" using p by (simp add: passed_def)
  have ctx: "NetworkID u = NetworkID s" "cfg u = cfg s" "height u = height s" "indexedTxs u = indexedTxs s"
    using assms(3) by (simp_all add: contextOf_def)
  have "1 < height ?u" using assms(4) ctx by simp
  note facts = CheckReplay_run [OF rep this]
  have "genuine N s bz result" unfolding genuine_def
    by (rule exI [of _ tx], rule exI [of _ g]) (use p p0 res facts ctx same in \<open>auto simp: passed_def\<close>)
  with res show ?thesis by simp
qed

lemma ApplyTransactions_genuine:
  assumes "ndPlugin N = None" and "orderly x s" and "quiet s" and "rootDexBatch s = None" and "1 < height s"
    and run: "ApplyTransactions N txs (AddEvent es newResults) s = (Inr r, t)"
  shows "distinct (map (ndHashString N) (abTxs r)) \<and> list_all2 (genuine N s) (abTxs r) (abResults r)"
proof -
  define I where "I = (\<lambda>(past :: bytes list) seen (r :: applyBlockResults). distinct (map (ndHashString N) (abTxs r)) \<and>
     ndHashString N ` set (abTxs r) \<subseteq> set seen \<and> list_all2 (genuine N s) (abTxs r) (abResults r))"
  obtain mx seen' where loop: "fold_m (applyOne N mx) (map (\<lambda>tx. (tx, preCheck N s tx)) txs) ([], AddEvent es newResults) s =
     (Inr (seen', r), t)"
    using run unfolding ApplyTransactions_run by blast
  have "I ([] @ txs) seen' r"
  proof (rule loop_rule [OF assms(1) _ _ loop assms(2-4) subset_refl])
    show "I [] [] (AddEvent es newResults)" by (simp add: I_def AddEvent_def newResults_def)
  next
    fix tx e past seen seen1 r
    assume "I past seen r" "set seen \<subseteq> set seen1"
    then show "I (past @ [tx]) seen1 (AddFailed tx e r)" by (auto simp: I_def AddFailed_def)
  next
    fix tx result es past seen r u v
    assume I: "I past seen r" and u: "orderly x u" "preCheck N s tx = None" "ndHashString N tx \<notin> set seen"
      "ApplyTransaction N (of_nat (abCount r)) tx (ndHashString N tx) u = (Inr (result, es), v)"
    have "contextOf u = contextOf s" using u(1) assms(2) by (simp add: orderly_def)
    from included_genuine [OF assms(1) u(2) this assms(5) u(4)] I u(3)
    show "I (past @ [tx]) (ndHashString N tx # seen) (Results_Add tx result es r)"
      by (auto simp: I_def Results_Add_def Let_def intro: list_all2_appendI)
  qed
  then show ?thesis by (simp add: I_def)
qed


lemma sum_list_submultiset: "mset xs + B = mset ys \<Longrightarrow> sum_list (map f xs) \<le> sum_list (map f ys :: nat list)"
  by (metis mset_map sum_mset_sum_list sum_mset.union image_mset_union le_add1)


section \<open>A block conserves tokens\<close>

text \<open>
  \<open>calm\<close>: a message that mints nothing and whose exchange batch is honest. \<open>honestCertificate\<close> says the same of the
  batches in a certificate.
\<close>

definition calm :: "env \<Rightarrow> bytes option \<Rightarrow> message \<Rightarrow> bool" where
  "calm e bh msg = (case msg of
       MessageDAOTransfer x \<Rightarrow> \<not> daMint x
     | MessageCertificateResults (Some qc) \<Rightarrow> (case qcResults qc of None \<Rightarrow> True | Some results \<Rightarrow>
         (case crDexBatch results of None \<Rightarrow> True | Some b \<Rightarrow> honestBatch e b bh))
     | _ \<Rightarrow> True)"

definition calmTx :: "node \<Rightarrow> bytes option \<Rightarrow> bytes \<Rightarrow> bool" where
  "calmTx N bh bz = (case ndUnmarshal N bz of
       Inr tx \<Rightarrow> (case txMsg tx of Some (Inr msg) \<Rightarrow> calm (ndEnv N) bh msg | _ \<Rightarrow> True) | _ \<Rightarrow> True)"

definition honestCertificate :: "env \<Rightarrow> bytes option \<Rightarrow> quorumCertificate option \<Rightarrow> bool" where
  "honestCertificate e bh qc0 = (case qc0 of None \<Rightarrow> True | Some qc \<Rightarrow> (case qcResults qc of None \<Rightarrow> True | Some results \<Rightarrow>
     (\<forall>b. crDexBatch results = Some b \<or> crRootDexBatch results = Some b \<longrightarrow>
        DexBatch_CheckBasic (Some b) = Inr () \<and> honestBatch e b bh)))"

definition certificatesHonest :: "env \<Rightarrow> bytes option \<Rightarrow> bool" where
  "certificatesHonest e bh \<longleftrightarrow> (\<forall>h qc. enCertificate e h = Inr qc \<longrightarrow> recipientsOk qc \<and> honestCertificate e bh qc)"

lemma calm_ready:
  assumes "calm e (prevBlockHash s) msg"
  shows "messageReady e (PopulateSpecialMessageFields N tx a msg) s"
  using assms by (cases msg) (auto simp: calm_def messageReady_def PopulateSpecialMessageFields_def split: option.splits)

lemma honest_ready:
  assumes "honestCertificate e (prevBlockHash s) qc0" and "orderly x s" and "rootDexBatch s = None"
  shows "resultsReady e qc0 nested s"
  unfolding resultsReady_def
proof (intro allI impI)
  fix qc results header
  assume some: "qc0 = Some qc" "qcResults qc = Some results"
  have pct: "percentsOk (batchAt s True c)" for c by (rule orderly_batchAt [OF assms(2)])
  have "DexBatch_CheckBasic (Some b) = Inr () \<and> honestBatch e b (prevBlockHash s)" if "remoteOf results nested s = Some b" for b
    using that assms(1,3) some by (auto simp: remoteOf_def honestCertificate_def split: if_splits option.splits)
  with pct show "dexReady (enDex e) (vwChainId header) results nested s"
    by (auto simp: dexReady_def honestBatch_def split: option.split)
qed

lemma balanced_log [simp]: "balanced (s\<lparr>eventReference := r\<rparr>) = balanced s" "balanced (s\<lparr>events := es\<rparr>) = balanced s"
    "balanced (s\<lparr>rootDexBatch := b\<rparr>) = balanced s" "balanced (s\<lparr>lastProposers := p\<rparr>) = balanced s"
  by (simp_all add: balanced_def inflight_def wf_def token_defs pointsConsistent_def poolAt_def)

lemma hoare_balanced:
  "hoare (inflight 0) m (\<lambda>_. inflight 0) \<Longrightarrow> maintains pointsConsistent m \<Longrightarrow> hoare balanced m (\<lambda>_. balanced)"
  by (auto simp: balanced_def hoare_def dest: maintainsD)

subsection \<open>The start of the block\<close>

lemma handleLastCertificate_run:
  assumes "handleLastCertificate e s = (Inr r, t)"
  obtains qc vs where "enCertificate e (if height s - 1 \<le> 1 then 1 else height s - 1) = Inr qc"
    "HandleCertificateResults e qc vs s = (Inr r, t)"
proof -
  let ?h = "height s"
  obtain qc u where qc: "LoadCertificate e (?h - 1) s = (Inr qc, u)"
    and rest: "bnd (LoadRootChainId e (?h - 1)) (\<lambda>rootChainId. bnd (gets (\<lambda>s. cfgChainId (cfg s))) (\<lambda>self.
     if self \<noteq> rootChainId then HandleCertificateResults e qc None
     else bnd (LoadCommittee e self (?h - 1)) (\<lambda>vs. HandleCertificateResults e qc (Some vs)))) u = (Inr r, t)"
    using assms unfolding handleLastCertificate_def bnd_Inr gets_run by auto
  have u: "u = s" using qc keeps_run [OF keeps_LoadRootChainId(2)] by blast
  obtain root w where w: "LoadRootChainId e (?h - 1) s = (Inr root, w)" and
    res: "(if cfgChainId (cfg w) \<noteq> root then HandleCertificateResults e qc None
     else bnd (LoadCommittee e (cfgChainId (cfg w)) (?h - 1)) (\<lambda>vs. HandleCertificateResults e qc (Some vs))) w = (Inr r, t)"
    using rest unfolding u bnd_Inr gets_run by auto
  have ws: "w = s" using w keeps_run [OF keeps_LoadRootChainId(1)] by blast
  have "\<exists>vs. HandleCertificateResults e qc vs s = (Inr r, t)"
    using res unfolding ws by (auto simp: bnd_Inr split: if_split_asm dest!: LoadCommittee_frame)
  moreover have "enCertificate e (if height s - 1 \<le> 1 then 1 else height s - 1) = Inr qc"
    using qc unfolding LoadCertificate_def u by (auto simp: err_run ret_run split: sum.splits)
  ultimately show ?thesis using that by blast
qed

lemma BeginBlock_balanced:
  assumes "ndPlugin N = None" and run: "BeginBlock N s = (Inr es, t)"
    and s: "balanced s" "orderly x s" "rootDexBatch s = None"
    and room: "unat (sTotal (supplyTracker s)) + unat (cfgInitialTokensPerBlock (cfg s)) < 2 ^ 64"
      "length (subsidized s) < 2 ^ 64"
    and certs: "certificatesHonest (ndEnv N) (prevBlockHash s)"
  shows "balanced t"
proof (cases "1 < height s")
  case False
  then have "t = s\<lparr>eventReference := ''begin_block''\<rparr>"
    using run assms(1) by (simp add: BeginBlock_def Refer_def go_simps linorder_not_less)
  with s(1) show ?thesis by simp
next
  case True
  show ?thesis
  proof (rule BeginBlock_run [OF assms(1) True run])
    let ?s = "s\<lparr>eventReference := ''begin_block''\<rparr>"
    fix u v
    assume fund: "FundCommitteeRewardPools ?s = (Inr (), u)" and last: "handleLastCertificate (ndEnv N) u = (Inr (), v)"
      and t: "t = v\<lparr>events := [], eventReference := []\<rparr>"
    have s': "balanced ?s" "orderly x ?s" using s by (simp_all add: frame_simps)
    have "qualifies ?s = qualifies s" by (simp add: fun_eq_iff qualifies_def)
    then have "subsidized ?s = subsidized s" by (simp add: subsidized_def Let_def)
    then have "conserved u" using FundCommitteeRewardPools_minted [OF fund] s' room by (simp add: balanced_def)
    moreover have "pointsConsistent u" using maintainsD [OF pts.rewards(1) _ fund] s' by (simp add: balanced_def)
    ultimately have u: "balanced u" by (simp add: balanced_def)
    have ou: "orderly x u" by (rule maintainsD [OF ord.rewards(1) s'(2) fund])
    then have ctx: "rootDexBatch u = None" "prevBlockHash u = prevBlockHash s"
      using s(2,3) unfolding orderly_def contextOf_def by (metis prod.inject)+
    obtain qc vs h where "enCertificate (ndEnv N) h = Inr qc" "HandleCertificateResults (ndEnv N) qc vs u = (Inr (), v)"
      using handleLastCertificate_run [OF last] by metis
    moreover from this have "resultsReady (ndEnv N) qc (vs = None) u"
      using certs honest_ready [OF _ ou ctx(1)] by (simp add: certificatesHonest_def ctx(2))
    ultimately have "balanced v" using HandleCertificateResults_balanced [OF u] by blast
    then show ?thesis by (simp add: t)
  qed
qed

subsection \<open>The transactions\<close>

lemma deliverTx_balanced:
  assumes "passed N s h v bz c tx msg g signers" and run: "deliverTx N c s = (Inr (), t)"
    and s: "balanced s" "orderly x s" and "TrimSpace (cfgFaucetAddress (cfg s)) = []"
    and "calm (ndEnv N) (prevBlockHash s) msg"
  shows "balanced t"
proof -
  let ?m = "PopulateSpecialMessageFields N tx (enAddressOf (ndEnv N) (sgPublicKey g)) msg"
  have c: "ctMsg c = Some ?m" and vet: "vetted (ndEnv N) ?m"
    using assms by (simp_all add: passed_def vetted_populated)
  let ?top = "case ?m of MessageSend send \<Rightarrow> if msAmount send > MaxUint64 - txFee (ctTx c) then err ErrInvalidAmount
      else maybeFaucetTopUpForSendTx (ctSender c) (msAmount send + txFee (ctTx c)) | _ \<Rightarrow> ret ()"
  obtain u w where top: "?top s = (Inr (), u)" and fee: "AccountDeductFees (ctSender c) (txFee (ctTx c)) u = (Inr (), w)"
    and msg: "HandleMessage (ndEnv N) ?m w = (Inr (), t)"
    using run unfolding deliverTx_def c by (auto simp: bnd_Inr ret_run)
  have "u = s" using top assms(5)
    by (cases ?m) (auto simp: ret_run err_run maybeFaucetTopUpForSendTx_def bnd_def gets_run split: if_splits)
  then have w: "balanced w" "orderly x w"
    using hoareD [OF hoare_balanced [OF AccountDeductFees_inflight pts.mint(3)] s(1)] maintainsD [OF ord.mint(3) s(2)] fee by auto
  have "prevBlockHash w = prevBlockHash s" using w(2) s(2) unfolding orderly_def contextOf_def by (metis prod.inject)
  then have "messageReady (ndEnv N) ?m w" using assms(6) calm_ready by simp
  from HandleMessage_balanced [OF w this vet msg] show ?thesis .
qed

lemma ApplyTransaction_balanced:
  assumes "ndPlugin N = None" and run: "ApplyTransaction N i bz h s = (Inr (result, es), t)"
    and s: "balanced s" "orderly x s" and "TrimSpace (cfgFaucetAddress (cfg s)) = []" and "calmTx N (prevBlockHash s) bz"
  shows "balanced t"
proof (rule ApplyTransaction_run [OF assms(1,2)])
  let ?s = "s\<lparr>eventReference := h\<rparr>"
  fix c tx msg g signers u
  assume p: "passed N ?s h False bz c tx msg g signers" and d: "deliverTx N c ?s = (Inr (), u)"
    and t: "t = u\<lparr>events := [], eventReference := []\<rparr>"
  have "calm (ndEnv N) (prevBlockHash ?s) msg" using assms(6) p by (simp add: calmTx_def passed_def)
  from deliverTx_balanced [OF p d _ _ _ this] s assms(5) have "balanced u" by (simp add: frame_simps)
  then show ?thesis by (simp add: t)
qed

lemma balanced_loop:
  assumes "ndPlugin N = None"
    and "fold_m (applyOne N mx) (map (\<lambda>tx. (tx, c tx)) txs) (seen, r) s = (Inr (seen', r'), t)"
    and "balanced s" and "orderly x s" and "rootDexBatch s = None" and "TrimSpace (cfgFaucetAddress (cfg s)) = []"
    and "\<forall>tx \<in> set txs. calmTx N (prevBlockHash s) tx"
  shows "balanced t \<and> orderly x t"
  using assms(2-)
proof (induction txs arbitrary: seen r s)
  case Nil
  then show ?case by (simp add: ret_run)
next
  case (Cons tx txs)
  obtain seen1 r1 u where one: "applyOne N mx (tx, c tx) (seen, r) s = (Inr (seen1, r1), u)"
    and rest: "fold_m (applyOne N mx) (map (\<lambda>tx. (tx, c tx)) txs) (seen1, r1) u = (Inr (seen', r'), t)"
    using Cons.prems(1) by (auto simp: bnd_Inr)
  have u: "balanced u \<and> orderly x u"
    using one
  proof (cases rule: applyOne_run)
    case (failed e)
    then show ?thesis using Cons.prems(2-4) by (auto simp: rollback_def frame_simps orderly_def contextOf_def keyed_def batchesOk_def paymentsOk_def)
  next
    case (included result es)
    have "balanced u" by (rule ApplyTransaction_balanced [OF assms(1) included(6) Cons.prems(2,3,5)]) (use Cons.prems(6) in simp)
    with ApplyTransaction_orderly [OF assms(1) Cons.prems(3) included(6)] show ?thesis by simp
  qed
  then have "contextOf u = contextOf s" using Cons.prems(3) by (simp add: orderly_def)
  then have ctx: "rootDexBatch u = None" "cfg u = cfg s" "prevBlockHash u = prevBlockHash s"
    using Cons.prems(4) by (simp_all add: contextOf_def)
  show ?case by (rule Cons.IH [OF rest]) (use u ctx Cons.prems in auto)
qed

subsection \<open>The end of the block\<close>

lemma ForceUnstakeValidator_inflight: "hoare (inflight d) (ForceUnstakeValidator a) (\<lambda>_. inflight d)"
proof (rule hoareI)
  fix s r t
  assume pre: "inflight d s" and run: "ForceUnstakeValidator a s = (Inr r, t)"
  show "inflight d t"
  proof (cases "tget (validators s) a")
    case None
    with run pre show ?thesis by (simp add: ForceUnstakeValidator_def GetValidator_def go_simps)
  next
    case (Some v)
    let ?v = "v\<lparr>vAddress := a\<rparr>"
    show ?thesis
    proof (cases "vUnstakingHeight v = 0")
      case True
      obtain u h where u: "SetValidatorUnstaking a ?v h s = (Inr (), u)" and e: "EventAutoBeginUnstaking a u = (Inr (), t)"
        using run Some True by (auto simp: ForceUnstakeValidator_def catch_run GetValidator_def GetParamsVal_def bnd_Inr bnd_def [of "gets f" for f] gets_run ret_run)
      have "onlyValidator s u (?v\<lparr>vMaxPausedHeight := 0, vUnstakingHeight := h\<rparr>)"
        using Unstaking_run [of ?v h s "()" u] u by simp
      from onlyValidator_inflight [OF this _ pre] Some have "inflight d u" by (simp add: stakeAt_def)
      with e show ?thesis by (auto simp: event_defs addEvent_def go_simps inflight_def wf_def token_defs)
    next
      case False
      with run pre Some show ?thesis by (simp add: ForceUnstakeValidator_def GetValidator_def go_simps)
    qed
  qed
qed

lemma ForceUnstakeMaxPaused_inflight: "hoare (inflight d) ForceUnstakeMaxPaused (\<lambda>_. inflight d)"
  unfolding ForceUnstakeMaxPaused_def
  by (intro hoare_read neutral_simple hoare_seqm_Cons [OF hoare_for_each [OF ForceUnstakeValidator_inflight]]
      hoare_seqm_Cons [OF neutral_inflight] hoare_seqm_Nil neutral_for_each neutral_modify) simp_all

lemma neutral_includeBatch: "token_neutral (includeBatch kb)"
proof -
  have del: "token_neutral (DeleteDexBatch l c)" for l c
    unfolding DeleteDexBatch_def by (intro neutral_if neutral_modify) simp_all
  have store: "token_neutral (seqm [SetDexBatch True k b, if p then DeleteDexBatch False c else SetDexBatch False c b'])" for k b p c b'
    by (intro neutral_seqm) (simp add: neutral_SetDexBatch del)
  show ?thesis
    unfolding includeBatch_def Let_def by (cases kb) (simp only: prod.case, intro neutral_bnd neutral_if neutral_simple neutral_reads store)
qed

lemma neutral_IncludeSameBlockDex: "token_neutral IncludeSameBlockDex"
  unfolding IncludeSameBlockDex_def by (intro neutral_bnd neutral_simple neutral_for_each neutral_includeBatch)

lemma points_IncludeSameBlockDex [maintains_rules]: "maintains pointsConsistent IncludeSameBlockDex"
  unfolding IncludeSameBlockDex_def includeBatch_def DeleteDexBatch_def
  by (intro maintains_rules; simp add: pointsConsistent_def poolAt_def)

lemma orderly_includeBatch:
  assumes "percentsOk (snd kb)"
  shows "maintains (orderly x) (includeBatch kb)"
proof -
  obtain k b where kb: "kb = (k, b)" by (rule prod.exhaust)
  have moved: "percentsOk (b\<lparr>dbOrders := os, dbDeposits := ds, dbWithdrawals := dbWithdrawals b @ take n (dbWithdrawals b')\<rparr>)"
      "percentsOk (b'\<lparr>dbOrders := os, dbDeposits := ds, dbWithdrawals := drop n (dbWithdrawals b')\<rparr>)"
    if "percentsOk b'" for b' os ds n
    using assms that by (auto simp: percentsOk_def kb list_all_iff dest: in_set_takeD in_set_dropD)
  show ?thesis
    unfolding kb includeBatch_def Let_def prod.case
    by (rule maintains_bnd [OF maintains_simple(3)], rule maintains_if [OF maintains_simple(1)], rule maintains_GetDexBatch)
      (intro maintains_rules orderly_SetDexBatch moved; assumption)
qed

lemma orderly_IncludeSameBlockDex [maintains_rules]: "maintains (orderly x) IncludeSameBlockDex"
  unfolding IncludeSameBlockDex_def
proof (rule maintains_bnd_gets)
  fix s bs assume "orderly x s" "bs = lockedBatches s"
  then have "maintains (orderly x) (for_each bs includeBatch)"
    by (intro maintains_for_each orderly_includeBatch) (auto simp: orderly_def batchesOk_def list_all_iff)
  with \<open>orderly x s\<close> show "orderly x (snd (for_each bs includeBatch s))" by (simp add: maintains_def)
qed

lemma EndBlock_run:
  assumes "ndPlugin N = None" and "EndBlock N p s = (Inr es, t)"
  obtains u where "seqm [Refer ''end_block'', UpdateLastProposers p, DistributeCommitteeRewards, ForceUnstakeMaxPaused,
      DeleteFinishedUnstaking, IncludeSameBlockDex] s = (Inr (), u)" "t = u\<lparr>events := [], eventReference := []\<rparr>"
  using assms by (auto simp: EndBlock_def bnd_Inr ret_run Reset_run)

lemma EndBlock_balanced:
  assumes "ndPlugin N = None" and run: "EndBlock N p s = (Inr es, t)" and s: "balanced s" "orderly (c, True) s"
  shows "balanced t \<and> orderly (c, True) t"
proof (rule EndBlock_run [OF assms(1,2)])
  let ?I = "\<lambda>s. balanced s \<and> orderly (c, True) s"
  fix u assume seq: "seqm [Refer ''end_block'', UpdateLastProposers p, DistributeCommitteeRewards, ForceUnstakeMaxPaused,
      DeleteFinishedUnstaking, IncludeSameBlockDex] s = (Inr (), u)" and t: "t = u\<lparr>events := [], eventReference := []\<rparr>"
  have step: "hoare ?I m (\<lambda>_. ?I)" if "hoare (inflight 0) m (\<lambda>_. inflight 0)" "maintains pointsConsistent m"
      "maintains (orderly (c, True)) m" for m :: "unit fsm"
    using hoare_conj [OF hoare_balanced [OF that(1,2)] maintains_hoare [OF that(3)]] .
  have first: "hoare ?I (Refer r) (\<lambda>_. ?I)" "hoare ?I (UpdateLastProposers p) (\<lambda>_. ?I)" for r
    by (rule step; (intro neutral_inflight maintains_rules)?;
        auto simp: token_neutral_def Refer_def UpdateLastProposers_def GetLastProposers_def go_simps Let_def)+
  have pay: "hoare ?I DistributeCommitteeRewards (\<lambda>_. ?I)"
  proof (rule hoareI)
    fix s r t assume s: "?I s" and run: "DistributeCommitteeRewards s = (Inr r, t)"
    have "\<forall>d \<in> set (committeesData s). percents_ok d" using s by (simp add: orderly_def paymentsOk_def list_all_iff)
    with DistributeCommitteeRewards_conserved [OF run] s have "conserved t" by (simp add: balanced_def)
    with s show "?I t"
      using maintainsD [OF pts.committee_updates(4) _ run] maintainsD [OF orderly_Distribute _ run] by (simp add: balanced_def)
  qed
  have rest: "hoare ?I ForceUnstakeMaxPaused (\<lambda>_. ?I)" "hoare ?I DeleteFinishedUnstaking (\<lambda>_. ?I)"
      "hoare ?I IncludeSameBlockDex (\<lambda>_. ?I)"
    by (intro step ForceUnstakeMaxPaused_inflight DeleteFinishedUnstaking_inflight neutral_inflight [OF neutral_IncludeSameBlockDex]
        maintains_rules)+
  have "hoare ?I (seqm [Refer ''end_block'', UpdateLastProposers p, DistributeCommitteeRewards, ForceUnstakeMaxPaused,
      DeleteFinishedUnstaking, IncludeSameBlockDex]) (\<lambda>_. ?I)"
    by (intro hoare_seqm_Cons [OF first(1)] hoare_seqm_Cons [OF first(2)] hoare_seqm_Cons [OF pay] hoare_seqm_Cons [OF rest(1)]
        hoare_seqm_Cons [OF rest(2)] hoare_seqm_Cons [OF rest(3)] hoare_seqm_Nil)
  from hoareD [OF this _ seq] s have "?I u" by simp
  then show ?thesis by (simp add: t frame_simps)
qed

lemma block_conserves:
  assumes "ndPlugin N = None" and "TrimSpace (cfgFaucetAddress (cfg s)) = []" and "rootDexBatch s = None"
    and s: "conserved s" "pointsConsistent s" "keyed s" "batchesOk s" "paymentsOk s"
    and room: "unat (sTotal (supplyTracker s)) + unat (cfgInitialTokensPerBlock (cfg s)) < 2 ^ 64"
      "length (subsidized s) < 2 ^ 64"
    and certs: "certificatesHonest (ndEnv N) (prevBlockHash s)"
    and calm: "\<forall>tx \<in> set txs. calmTx N (prevBlockHash s) tx"
    and run: "ApplyBlock N txs proposer s = (Inr r, t)"
  shows "conserved t \<and> pointsConsistent t \<and> keyed t \<and> batchesOk t \<and> paymentsOk t"
proof -
  let ?x = "(contextOf s, True)"
  have ord: "orderly ?x s" and bal: "balanced s" using s by (simp_all add: orderly_def balanced_def)
  obtain es u r' v es' where parts: "BeginBlock N s = (Inr es, u)" "ApplyTransactions N txs (AddEvent es newResults) u = (Inr r', v)"
    "EndBlock N proposer v = (Inr es', t)"
    using run unfolding ApplyBlock_run by blast
  have "certificatesOk (ndEnv N)" using certs by (simp add: certificatesHonest_def certificatesOk_def)
  then have u: "orderly ?x u" by (rule maintainsD [OF BeginBlock_orderly [OF assms(1)] ord parts(1)])
  have "balanced u" by (rule BeginBlock_balanced [OF assms(1) parts(1) bal ord assms(3) room certs])
  have "contextOf u = contextOf s" using u by (simp add: orderly_def)
  then have ctx: "rootDexBatch u = None" "cfg u = cfg s" "prevBlockHash u = prevBlockHash s"
    using assms(3) by (simp_all add: contextOf_def)
  obtain mx seen' where "fold_m (applyOne N mx) (map (\<lambda>tx. (tx, preCheck N u tx)) txs) ([], AddEvent es newResults) u =
      (Inr (seen', r'), v)"
    using parts(2) unfolding ApplyTransactions_run by blast
  from balanced_loop [OF assms(1) this \<open>balanced u\<close> u ctx(1)] have v: "balanced v" "orderly ?x v"
    using assms(2) calm ctx by simp_all
  from EndBlock_balanced [OF assms(1) parts(3) v] show ?thesis by (simp add: balanced_def orderly_def)
qed

text \<open>
  A block conserves tokens: after the whole block the balances, the pools and the stakes add up to
  the recorded total supply, and the records are as orderly as before, ready for the next block. This holds for blocks without a minting treasury transfer, with honest exchange batches, on a node without faucet
  and plugin and whose supply has room for the mint.
\<close>

theorem block_conserves_tokens:
  assumes "ndPlugin N = None" and "TrimSpace (cfgFaucetAddress (cfg s)) = []" and "rootDexBatch s = None"
    and s: "conserved s" "pointsConsistent s" "keyed s" "batchesOk s" "paymentsOk s"
    and room: "unat (sTotal (supplyTracker s)) + unat (cfgInitialTokensPerBlock (cfg s)) < 2 ^ 64"
      "length (subsidized s) < 2 ^ 64"
    and certs: "certificatesHonest (ndEnv N) (prevBlockHash s)"
    and calm: "\<forall>tx \<in> set txs. calmTx N (prevBlockHash s) tx"
    and run: "ApplyBlock N txs proposer s = (Inr r, t)"
  shows "conserved t \<and> pointsConsistent t \<and> keyed t \<and> batchesOk t \<and> paymentsOk t"
  using assms by (rule block_conserves)

section \<open>An example block\<close>

text \<open>
  A nested chain at height 5: the first transaction sends five tokens, the second more than the sender
  has, which its handler finds out. The last certificate pays 60 percent to one address.
\<close>

definition exampleSend :: "u64 \<Rightarrow> transaction" where
  "exampleSend amount = \<lparr>txMessageType = ''send'', txMsg = Some (Inr (MessageSend \<lparr>msFromAddress = Addr (replicate 20 1),
       msToAddress = Addr (replicate 20 2), msAmount = amount, msVestingStartHeight = 0, msVestingCliffHeight = 0,
       msVestingEndHeight = 0\<rparr>)),
     txSignature = Some \<lparr>sgPublicKey = replicate 20 1, sgSignature = [3]\<rparr>, txCreatedHeight = 4, txTime = 8, txFee = 2,
     txMemo = [], txNetworkId = 1, txChainId = 1\<rparr>"

definition blockQC :: quorumCertificate where
  "blockQC = (exampleQC [1])\<lparr>qcResults := Some \<lparr>crRewardRecipients = Some \<lparr>rrPaymentPercents =
       [\<lparr>ppcAddress = Addr (replicate 20 4), ppcPercent = 60, ppcChainId = 1\<rparr>], rrNumberOfSamples = 0\<rparr>,
     crSlashRecipients = None, crOrders = None, crCheckpoint = None, crRetired = False, crDexBatch = None,
     crRootDexBatch = None\<rparr>\<rparr>"

definition exampleNode :: node where
  "exampleNode = \<lparr>ndEnv = exampleEnv\<lparr>enHistory := (\<lambda>_. exampleState\<lparr>paramsCons := (paramsCons exampleState)\<lparr>cpRootChainId := 2\<rparr>\<rparr>),
       enCertificate := (\<lambda>_. Inr (Some blockQC))\<rparr>,
     ndUnmarshal = (\<lambda>bz. Inr (exampleSend (if bz = [1] then 5 else 1000))),
     ndHashString = (\<lambda>bz. if bz = [1] then ''a'' else ''b''), ndGetHash = (\<lambda>_. replicate 32 0), ndGetSignBytes = (\<lambda>_. []),
     ndVerifyBytes = (\<lambda>_ _ sig. sig = [3]), ndIsEthKey = (\<lambda>_. False), ndRlpTransaction = (\<lambda>_. Inl ErrInvalidSignature),
     ndPlugin = None\<rparr>"

definition blockState :: state where
  "blockState = exampleState\<lparr>accounts := [(Addr (replicate 20 1), (emptyAccount (Addr (replicate 20 1)))\<lparr>acAmount := 60\<rparr>)]\<rparr>"


lemmas block_example = exampleNode_def blockState_def exampleSend_def blockQC_def exampleQC_def exampleEnv_def example_eval
  exampleFeeParams_def emptyAccount_def

definition mintedState :: state where
  "mintedState = blockState\<lparr>eventReference := ''begin_block'',
     pools := [(1, \<lparr>pId = 1, pAmount = 57, pPoints = [], pTotalPoolPoints = 0\<rparr>),
       (DAOPoolID, \<lparr>pId = DAOPoolID, pAmount = 3, pPoints = [], pTotalPoolPoints = 0\<rparr>)],
     supplyTracker := exampleSupply\<lparr>sTotal := 150\<rparr>\<rparr>"

definition certifiedState :: state where
  "certifiedState = mintedState\<lparr>committeesData := [\<lparr>cdChainId = 1, cdLastRootHeightUpdated = 7, cdLastChainHeightUpdated = 5,
     cdPaymentPercents = [\<lparr>ppcAddress = Addr (replicate 20 4), ppcPercent = 60, ppcChainId = 1\<rparr>], cdNumberOfSamples = 1\<rparr>],
     eventReference := []\<rparr>"

lemma block_subsidized: "subsidized (blockState\<lparr>eventReference := r\<rparr>) = [1]" "subsidized blockState = [1]"
  by (simp_all add: subsidized_def qualifies_def block_example Uint64PercentageDiv_def)


lemmas go_eval = ret_def err_def gets_def modify_def bnd_def catch_def ignore_err_def fail_if_def when_m_def

lemma block_mint: "FundCommitteeRewardPools (blockState\<lparr>eventReference := ''begin_block''\<rparr>) = (Inr (), mintedState)"
proof -
  have "GetBlockMintStats (blockState\<lparr>eventReference := ''begin_block''\<rparr>) =
     (Inr ([1], 3, 50, 47), blockState\<lparr>eventReference := ''begin_block''\<rparr>)"
    by (simp add: GetBlockMintStats_def GetParamsGov_def go_eval GetSubsidizedCommittees_run block_subsidized Let_def)
      (simp add: block_example SafeMulDiv_def)
  then show ?thesis
    by (simp add: FundCommitteeRewardPools_def go_eval MintToPool_def supply_run_defs PoolAdd_run mintedState_def block_example
        poolAt_def putPool_def DAOPoolID_def tget_def)
qed

lemma block_certificate: "handleLastCertificate (ndEnv exampleNode) mintedState = (Inr (), certifiedState\<lparr>eventReference := ''begin_block''\<rparr>)"
  by (simp add: handleLastCertificate_def LoadCertificate_def LoadRootChainId_def TimeMachine_def go_eval block_example mintedState_def
     HandleCertificateResults_def CommitteeIsRetired_def GetCommitteeData_def getCommitteeDataAndList_def GetCommitteesData_def emptyCommitteeData_def
     HandleDexBatch_def GetRootChainId_def GetParamsCons_def GetPoolBalance_def GetPool_def applyResults_def HandleCommitteeSwaps_def HandleCheckpoint_def
     HandleByzantine_def GetParamsVal_def UpsertCommitteeData_def Combine_def addPercents_def MaxUint64_def SetCommitteesData_def Uint64ReducePercentage_def
     certifiedState_def Let_def)

lemma block_begin: "BeginBlock exampleNode blockState = (Inr [], certifiedState)"
proof -
  have h: "height blockState = 5" "events certifiedState = []" "eventReference certifiedState = []" "ndPlugin exampleNode = None"
      "\<not> (5 :: u64) \<le> 1"
    by (simp_all add: block_example certifiedState_def mintedState_def unat_le_iff)
  have v: "CheckProtocolVersion (blockState\<lparr>eventReference := ''begin_block''\<rparr>) = (Inr (), blockState\<lparr>eventReference := ''begin_block''\<rparr>)"
    by (simp add: CheckProtocolVersion_def GetParamsCons_def go_eval ParseProtocolVersion_def checkProtocolVersion_def block_example
      Delimiter_def ParseUint_def digitOf_def)
  have "Reset (certifiedState\<lparr>eventReference := ''begin_block''\<rparr>) = (Inr [], certifiedState)"
    by (simp add: Reset_run h)
  then show ?thesis
    by (simp add: BeginBlock_def bnd_def Refer_def modify_run gets_run ret_run h v block_mint block_certificate)
qed

lemma block_addresses: "Addr (replicate 20 1) < Addr (replicate 20 2)" "\<not> Addr (replicate 20 2) < Addr (replicate 20 1)"
    "Addr (replicate 20 2) < Addr (replicate 20 4)" "Addr (replicate 20 1) < Addr (replicate 20 4)"
proof -
  have "replicate 20 x = x # replicate 19 (x :: byte)" for x
    by (simp add: replicate_Suc [symmetric] del: replicate_Suc)
  then show "Addr (replicate 20 1) < Addr (replicate 20 2)" "\<not> Addr (replicate 20 2) < Addr (replicate 20 1)"
    "Addr (replicate 20 2) < Addr (replicate 20 4)" "Addr (replicate 20 1) < Addr (replicate 20 4)"
    by (simp_all add: less_address_def)
qed

definition exampleTransfer :: "u64 \<Rightarrow> messageSend" where
  "exampleTransfer amount = \<lparr>msFromAddress = Addr (replicate 20 1), msToAddress = Addr (replicate 20 2), msAmount = amount,
     msVestingStartHeight = 0, msVestingCliffHeight = 0, msVestingEndHeight = 0\<rparr>"

definition exampleChecked :: "u64 \<Rightarrow> checkTxResult" where
  "exampleChecked amount = \<lparr>ctTx = exampleSend amount, ctMsg = Some (MessageSend (exampleTransfer amount)),
     ctSender = Addr (replicate 20 1), ctRecipient = replicate 20 2, ctPlugin = False\<rparr>"

lemma node_fields:
  "ndUnmarshal exampleNode bz = Inr (exampleSend (if bz = [1] then 5 else 1000))"
  "enPkOk (ndEnv exampleNode) pk" "enAddressOf (ndEnv exampleNode) = Addr" "ndPlugin exampleNode = None"
  "ndVerifyBytes exampleNode pk m sig = (sig = [3])" "\<not> ndIsEthKey exampleNode pk"
  "ndHashString exampleNode bz = (if bz = [1] then ''a'' else ''b'')"
  by (simp_all add: exampleNode_def exampleEnv_def)

lemma example_basic:
  "Transaction_CheckBasic (exampleSend n) = Inr ()" "txMsg (exampleSend n) = Some (Inr (MessageSend (exampleTransfer n)))"
  "txSignature (exampleSend n) = Some \<lparr>sgPublicKey = replicate 20 1, sgSignature = [3]\<rparr>" "txFee (exampleSend n) = 2"
  by (simp_all add: Transaction_CheckBasic_def check_def exampleSend_def exampleTransfer_def)

lemma example_transfer: "msFromAddress (exampleTransfer n) = Addr (replicate 20 1)" "msToAddress (exampleTransfer n) = Addr (replicate 20 2)"
  "msAmount (exampleTransfer n) = n"
  by (simp_all add: exampleTransfer_def)

lemma example_message: "n \<noteq> 0 \<Longrightarrow> Message_Check e (MessageSend (exampleTransfer n)) = Inr ()"
  by (simp add: Message_Check_def MessageSend_Check_def checkAddress_def checkAmount_def AddressSize_def check_def exampleTransfer_def)

lemma block_check:
  assumes "NetworkID s = 1" "cfgChainId (cfg s) = 1" "height s = 5" "indexedTxs s = []" "paramsFee s = exampleFeeParams"
  shows "CheckTx exampleNode bz h v s = (Inr (exampleChecked (if bz = [1] then 5 else 1000)), s)"
proof -
  define n :: u64 where "n = (if bz = [1] then 5 else 1000)"
  then have n: "n \<noteq> 0" by simp
  have "\<not> (4 :: u64) > 5 + BlockAcceptanceRange" "\<not> (5 :: u64) > BlockAcceptanceRange"
    by (simp_all add: BlockAcceptanceRange_def unat_less_iff)
  then have replay: "CheckReplay (exampleSend n) h s = (Inr (), s)"
    using assms by (simp add: CheckReplay_def bnd_def gets_run ret_run exampleSend_def Let_def)
  have payload: "checkPayload exampleNode (exampleSend n) s =
      (Inr ([replicate 20 1], replicate 20 2, Some (MessageSend (exampleTransfer n))), s)"
    using assms(5) n by (simp add: checkPayload_def node_fields CheckMessage_def example_basic example_message bnd_def ret_run CheckFee_def
        GetFeeForMessageName_def GetParamsFee_def gets_run fail_if_def exampleFeeParams_def GetAuthorizedSignersFor_def
        Message_Recipient_def example_transfer)
  have sign: "CheckSignature exampleNode (exampleSend n) [replicate 20 1] v s = (Inr (Addr (replicate 20 1)), s)"
    by (simp add: CheckSignature_def example_basic node_fields check_def ret_run)
  show ?thesis
    unfolding CheckTx_def node_fields n_def [symmetric]
    by (simp add: example_basic bnd_def replay payload sign ret_run PopulateSpecialMessageFields_def exampleChecked_def)
qed

text \<open>Accounts without vesting.\<close>

definition plain :: "address \<Rightarrow> u64 \<Rightarrow> account" where
  "plain a n = (emptyAccount a)\<lparr>acAmount := n\<rparr>"

lemma plain_fields: "acAmount (plain a n) = n" "acAddress (plain a n) = a" "AccountSpendableAmount h (plain a n) = n"
    "clearAccountVestingIfFullyVested h (plain a n) = plain a n" "(plain a n)\<lparr>acAmount := m\<rparr> = plain a m"
  by (simp_all add: plain_def emptyAccount_def AccountSpendableAmount_def AccountLockedAmount_def clearAccountVestingIfFullyVested_def)

lemma plain_sub:
  "accountAt s a = plain a n \<Longrightarrow> x \<noteq> 0 \<Longrightarrow> AccountSub a x s = (if n < x then (Inl ErrInsufficientFunds, s) else
     (Inr (), s\<lparr>accounts := (if n - x = 0 then tdel a (accounts s) else tset a (plain a (n - x)) (accounts s))\<rparr>))"
  by (simp add: AccountSub_run plain_fields putAccount_def)

lemma plain_add:
  "accountAt s a = plain a n \<Longrightarrow> x \<noteq> 0 \<Longrightarrow> unat n + unat x < 2 ^ 64 \<Longrightarrow> n + x \<noteq> 0 \<Longrightarrow>
   AccountAdd a x s = (Inr (), s\<lparr>accounts := tset a (plain a (n + x)) (accounts s)\<rparr>)"
  by (simp add: AccountAdd_run plain_fields putAccount_def)

definition feeState :: state where
  "feeState = certifiedState\<lparr>accounts := [(Addr (replicate 20 1), plain (Addr (replicate 20 1)) 58)],
     pools := [(1, \<lparr>pId = 1, pAmount = 59, pPoints = [], pTotalPoolPoints = 0\<rparr>),
       (DAOPoolID, \<lparr>pId = DAOPoolID, pAmount = 3, pPoints = [], pTotalPoolPoints = 0\<rparr>)]\<rparr>"

lemma certified_fields: "accounts certifiedState = [(Addr (replicate 20 1), plain (Addr (replicate 20 1)) 60)]"
  "pools certifiedState = [(1, \<lparr>pId = 1, pAmount = 57, pPoints = [], pTotalPoolPoints = 0\<rparr>),
       (DAOPoolID, \<lparr>pId = DAOPoolID, pAmount = 3, pPoints = [], pTotalPoolPoints = 0\<rparr>)]"
  "cfg certifiedState = \<lparr>cfgChainId = 1, cfgBlocksPerHalvening = 100, cfgInitialTokensPerBlock = 50, cfgFaucetAddress = []\<rparr>"
  by (simp_all add: certifiedState_def mintedState_def blockState_def exampleState_def plain_def)

lemma block_fee: "AccountDeductFees (Addr (replicate 20 1)) 2 (certifiedState\<lparr>eventReference := r\<rparr>) = (Inr (), feeState\<lparr>eventReference := r\<rparr>)"
proof -
  have "accountAt (certifiedState\<lparr>eventReference := r\<rparr>) (Addr (replicate 20 1)) = plain (Addr (replicate 20 1)) 60"
    by (simp add: accountAt_def certified_fields plain_def emptyAccount_def)
  from plain_sub [OF this, of 2] show ?thesis
    by (simp add: AccountDeductFees_def bnd_def gets_run ret_run certified_fields PoolAdd_run poolAt_def putPool_def feeState_def)
qed

definition paidState :: state where
  "paidState = feeState\<lparr>accounts := [(Addr (replicate 20 1), plain (Addr (replicate 20 1)) 53),
     (Addr (replicate 20 2), plain (Addr (replicate 20 2)) 5)]\<rparr>"

lemma block_fields:
  assumes "s = certifiedState \<or> s = paidState"
  shows "NetworkID s = 1" "cfgChainId (cfg s) = 1" "height s = 5" "indexedTxs s = []" "paramsFee s = exampleFeeParams"
    "events s = []" "eventReference s = []" "rootDexBatch s = None" "cpBlockSize (paramsCons s) = 1000000"
  using assms by (auto simp: paidState_def feeState_def certifiedState_def mintedState_def block_example)


lemmas stage_fields = block_fields [OF disjI1 [OF refl]] block_fields [OF disjI2 [OF refl]]

lemma fee_fields: "accounts feeState = [(Addr (replicate 20 1), plain (Addr (replicate 20 1)) 58)]"
  by (simp add: feeState_def)

lemma block_transfer:
  "HandleMessageSend (exampleTransfer 5) (feeState\<lparr>eventReference := r\<rparr>) = (Inr (), paidState\<lparr>eventReference := r\<rparr>)"
proof -
  let ?a = "Addr (replicate 20 1)" and ?b = "Addr (replicate 20 2)"
  let ?s = "feeState\<lparr>eventReference := r\<rparr>" and ?t = "feeState\<lparr>eventReference := r, accounts := [(?a, plain ?a 53)]\<rparr>"
  have "accountAt ?s ?a = plain ?a 58" "accountAt ?t ?b = plain ?b 0"
    by (simp_all add: accountAt_def fee_fields plain_def emptyAccount_def)
  from plain_sub [OF this(1), of 5] plain_add [OF this(2), of 5] show ?thesis
    by (simp add: HandleMessageSend_def Let_def when_m_def bnd_def ret_run exampleTransfer_def fee_fields block_addresses paidState_def)
qed

lemma block_pay: "\<exists>result. ApplyTransaction exampleNode 0 [1] ''a'' certifiedState = (Inr (result, []), paidState)"
proof -
  have guard: "\<not> 5 > MaxUint64 - 2" by (simp add: MaxUint64_def unat_less_iff)
  have d: "deliverTx exampleNode (exampleChecked 5) (certifiedState\<lparr>eventReference := r\<rparr>) = (Inr (), paidState\<lparr>eventReference := r\<rparr>)" for r
    by (simp add: deliverTx_def exampleChecked_def example_transfer example_basic guard bnd_def ret_run gets_run block_fee HandleMessage_def
        block_transfer maybeFaucetTopUpForSendTx_def certified_fields TrimSpace_def)
  have "paidState\<lparr>eventReference := []\<rparr> = paidState" "paidState\<lparr>events := [], eventReference := []\<rparr> = paidState"
    by (simp_all add: stage_fields)
  with d show ?thesis
    by (simp add: ApplyTransaction_def bnd_def Refer_def modify_run gets_run ret_run block_check stage_fields Reset_def)
qed

lemma block_overdraw: "\<exists>e t. ApplyTransaction exampleNode i [2] h paidState = (Inl e, t)"
proof -
  let ?a = "Addr (replicate 20 1)" and ?s = "paidState\<lparr>eventReference := h\<rparr>"
  have acc: "accountAt ?s ?a = plain ?a 53" by (simp add: accountAt_def paidState_def plain_def emptyAccount_def)
  have cfg: "cfg paidState = cfg certifiedState" by (simp add: paidState_def feeState_def)
  have guard: "\<not> 1000 > MaxUint64 - 2" by (simp add: MaxUint64_def unat_less_iff)
  obtain u where fee: "AccountDeductFees ?a 2 ?s = (Inr (), u)" and u: "accountAt u ?a = plain ?a 51"
    using plain_sub [OF acc, of 2]
    by (simp add: AccountDeductFees_def bnd_def gets_run ret_run PoolAdd_run cfg certified_fields accountAt_def paidState_def plain_def emptyAccount_def)
  have "HandleMessageSend (exampleTransfer 1000) u = (Inl ErrInsufficientFunds, u)"
    using plain_sub [OF u, of 1000] by (simp add: HandleMessageSend_def Let_def when_m_def bnd_def ret_run exampleTransfer_def)
  then have "deliverTx exampleNode (exampleChecked 1000) ?s = (Inl ErrInsufficientFunds, u)"
    by (simp add: deliverTx_def exampleChecked_def example_transfer example_basic guard bnd_def ret_run gets_run fee HandleMessage_def
        maybeFaucetTopUpForSendTx_def cfg certified_fields TrimSpace_def)
  then show ?thesis
    by (simp add: ApplyTransaction_def bnd_def Refer_def modify_run gets_run ret_run block_check stage_fields)
qed

lemma block_transactions:
  "\<exists>r. ApplyTransactions exampleNode [[1], [2]] (AddEvent [] newResults) certifiedState = (Inr r, paidState) \<and>
     abTxs r = [[1]] \<and> map fst (abFailed r) = [[2]]"
proof -
  have pre: "preCheck exampleNode certifiedState bz = None" for bz
    by (simp add: preCheck_def block_check stage_fields)
  have mx: "GetMaxBlockSize certifiedState = (Inr 998348, certifiedState)"
    by (simp add: GetMaxBlockSize_def GetParamsCons_def bnd_def gets_run ret_run stage_fields MaxBlockHeaderSize_def)
  obtain result where one: "ApplyTransaction exampleNode 0 [1] ''a'' certifiedState = (Inr (result, []), paidState)"
    using block_pay by blast
  obtain e t where two: "ApplyTransaction exampleNode 1 [2] ''b'' paidState = (Inl e, t)"
    using block_overdraw by blast
  have small: "\<not> 998348 < (1 :: u64)" by (simp add: unat_less_iff)
  have "rollback paidState = paidState" by (rule rollback_quiet) (simp_all add: quiet_def stage_fields)
  then show ?thesis
    by (simp add: ApplyTransactions_def bnd_def mx gets_run ret_run pre applyOne_def node_fields one two small Let_def Results_Add_def AddFailed_def
        AddEvent_def newResults_def)
qed

lemma idle_end:
  assumes "paused s = []" "unstaking s = []" "lockedBatches s = []"
  shows "ForceUnstakeMaxPaused s = (Inr (), s)" "DeleteFinishedUnstaking s = (Inr (), s)" "IncludeSameBlockDex s = (Inr (), s)"
  using assms by (simp_all add: ForceUnstakeMaxPaused_def DeleteFinishedUnstaking_def IncludeSameBlockDex_def bnd_def gets_run ret_run
      pausedAt_def unstakingAt_def)

lemma paid_fields:
  "paused paidState = []" "unstaking paidState = []" "lockedBatches paidState = []" "validators paidState = validators exampleState"
  "paramsVal paidState = exampleValParams" "lastProposers paidState = []" "sTotal (supplyTracker paidState) = 150"
  "accounts paidState = [(Addr (replicate 20 1), plain (Addr (replicate 20 1)) 53), (Addr (replicate 20 2), plain (Addr (replicate 20 2)) 5)]"
  "pools paidState = [(1, \<lparr>pId = 1, pAmount = 59, pPoints = [], pTotalPoolPoints = 0\<rparr>),
       (DAOPoolID, \<lparr>pId = DAOPoolID, pAmount = 3, pPoints = [], pTotalPoolPoints = 0\<rparr>)]"
  "committeesData paidState = [\<lparr>cdChainId = 1, cdLastRootHeightUpdated = 7, cdLastChainHeightUpdated = 5,
     cdPaymentPercents = [\<lparr>ppcAddress = Addr (replicate 20 4), ppcPercent = 60, ppcChainId = 1\<rparr>], cdNumberOfSamples = 1\<rparr>]"
  by (simp_all add: paidState_def feeState_def certifiedState_def mintedState_def blockState_def exampleState_def exampleSupply_def)

lemma block_end: "\<exists>es t. EndBlock exampleNode [7] paidState = (Inr es, t)"
proof -
  let ?d = "Addr (replicate 20 4)"
  let ?s = "paidState\<lparr>eventReference := ''end_block'', lastProposers := [[7], [], [], [], []]\<rparr>"
  have first: "Refer ''end_block'' paidState = (Inr (), paidState\<lparr>eventReference := ''end_block''\<rparr>)"
    "UpdateLastProposers [7] (paidState\<lparr>eventReference := ''end_block''\<rparr>) = (Inr (), ?s)"
    by (simp_all add: Refer_def UpdateLastProposers_def GetLastProposers_def bnd_def gets_run modify_run ret_run paid_fields stage_fields Let_def)
  have none: "tget (validators exampleState) ?d = None"
  proof -
    have "[7] \<noteq> replicate 20 (4 :: byte)" by (rule notI, drule arg_cong [where f = length]) simp
    then show ?thesis by (simp add: exampleState_def tget_def)
  qed
  have acc: "accountAt ?s ?d = plain ?d 0" by (simp add: accountAt_def paid_fields plain_def emptyAccount_def)
  have "fullRewardOf 60 59 1 = 35" "earlyWithdrawalOf 20 35 = 28"
    by (simp_all add: fullRewardOf_def earlyWithdrawalOf_def SafeMulDiv_def)
  then have pay: "DistributeCommitteeReward \<lparr>ppcAddress = ?d, ppcPercent = 60, ppcChainId = 1\<rparr> 59 1 1 exampleValParams ?s =
      (Inr 28, ?s\<lparr>accounts := tset ?d (plain ?d 28) (accounts ?s)\<rparr>)"
    using plain_add [OF acc, of 28]
    by (simp add: DistributeCommitteeReward_def GetValidator_def catch_def bnd_def gets_run err_run ret_run paid_fields none exampleValParams_def Let_def del: tset.simps)
  obtain u where "DistributeCommitteeRewards ?s = (Inr (), u)" "paused u = []" "unstaking u = []" "lockedBatches u = []"
    by (simp add: DistributeCommitteeRewards_def GetParamsVal_def GetCommitteesData_def bnd_def gets_run paid_fields distributeOne_def GetPool_def poolAt_def
        payStub_def pay EventReward_def addEvent_def modify_run ret_run MaxUint64_def supply_run_defs SetPool_run SetCommitteesData_def del: tset.simps)
  then show ?thesis
    by (simp add: EndBlock_def node_fields bnd_def Reset_def gets_run modify_run ret_run first idle_end)
qed

lemma example_block:
  obtains r t where "ApplyBlock exampleNode [[1], [2]] [7] blockState = (Inr r, t)" "abTxs r = [[1]]" "map fst (abFailed r) = [[2]]"
proof -
  from block_transactions
  obtain r where r: "ApplyTransactions exampleNode [[1], [2]] (AddEvent [] newResults) certifiedState = (Inr r, paidState)"
    "abTxs r = [[1]]" "map fst (abFailed r) = [[2]]"
    by (elim exE conjE)
  obtain es t where "EndBlock exampleNode [7] paidState = (Inr es, t)" using block_end by blast
  then have "ApplyBlock exampleNode [[1], [2]] [7] blockState = (Inr (AddEvent es r), t)"
    using block_begin r(1) unfolding ApplyBlock_run by blast
  with r that show ?thesis by (simp add: AddEvent_def)
qed

lemma example_block_ready:
  "ndPlugin exampleNode = None" "TrimSpace (cfgFaucetAddress (cfg blockState)) = []" "rootDexBatch blockState = None"
  "1 < height blockState" "keyed blockState" "batchesOk blockState" "paymentsOk blockState" "pointsConsistent blockState"
  "conserved blockState"
  by (auto simp: node_fields blockState_def exampleState_def exampleSupply_def TrimSpace_def unat_less_iff keyed_def batchesOk_def paymentsOk_def
      pointsConsistent_def poolAt_def points_ok_def points_sum_def inflight_def wf_def token_defs tok_def emptyAccount_def split: option.splits)




theorem block_conserves_tokens_witness:
  "\<exists>r t. ApplyBlock exampleNode [[1], [2]] [7] blockState = (Inr r, t) \<and> conserved t \<and> paymentsOk t"
proof (rule example_block)
  fix r t assume run: "ApplyBlock exampleNode [[1], [2]] [7] blockState = (Inr r, t)"
  have certs: "certificatesHonest (ndEnv exampleNode) (prevBlockHash blockState)"
    by (auto simp: certificatesHonest_def exampleNode_def recipientsOk_def honestCertificate_def blockQC_def percentSum_def)
  have calm: "\<forall>tx \<in> set [[1], [2]]. calmTx exampleNode (prevBlockHash blockState) tx"
    by (simp add: calmTx_def node_fields example_basic calm_def)
  have room: "unat (sTotal (supplyTracker blockState)) + unat (cfgInitialTokensPerBlock (cfg blockState)) < 2 ^ 64"
      "length (subsidized blockState) < 2 ^ 64"
    by (simp_all add: block_subsidized) (simp add: blockState_def exampleState_def exampleSupply_def)
  from block_conserves_tokens [OF example_block_ready(1-3,9,8,5-7) room certs calm run] run show ?thesis by blast
qed

end
