(* ===== verification/Election.thy ===== *)
theory Election
  imports Complex_Main Quorum
begin

text \<open>
  Leader election of the consensus engine (\<open>bft/election.go\<close>): every validator signs the seed of
  the view and is a candidate when the hash of the signature, read as a fraction of the largest hash, is below a
  threshold that grows with its stake. Among the candidates the one with the smallest hash leads;
  without candidates the stake weighted lottery decides.

  The code computes with \<open>big.Float\<close> and \<open>float64\<close> values. They are modelled exactly: a float of
  \<open>p\<close> bits is a rational number, every operation rounds its exact result to \<open>p\<close> significant bits, ties to
  even. All values are zero or between \<open>2 ^ -256\<close> and \<open>2 ^ 68\<close>, where \<open>float64\<close> has neither subnormal numbers nor
  an overflow.
\<close>

section \<open>Floating point\<close>

fun bitLength :: "nat \<Rightarrow> nat" where
  "bitLength n = (if n = 0 then 0 else Suc (bitLength (n div 2)))"

declare bitLength.simps [simp del]

text \<open>Round to the nearest integer, ties to even.\<close>

definition nearestEven :: "rat \<Rightarrow> int" where
  "nearestEven y = (let f = \<lfloor>y\<rfloor>; r = y - of_int f in
     if r < 1 / 2 then f else if 1 / 2 < r then f + 1 else if even f then f else f + 1)"

text \<open>The exponent \<open>e\<close> with \<open>2 ^ e \<le> x < 2 ^ (e + 1)\<close>.\<close>

definition floatExp :: "rat \<Rightarrow> int" where
  "floatExp x = (let (n, d) = quotient_of x; k = int (bitLength (nat n)) - int (bitLength (nat d)) in
     if x < 2 powi k then k - 1 else k)"

definition roundTo :: "nat \<Rightarrow> rat \<Rightarrow> rat" where
  "roundTo p x = (if x \<le> 0 then 0
     else let s = 2 powi (int p - 1 - floatExp x) in of_int (nearestEven (x * s)) / s)"

text \<open>\<open>big.Int.SetBytes\<close>\<close>

definition setBytes :: "bytes \<Rightarrow> nat" where
  "setBytes b = foldl (\<lambda>a x. 256 * a + unat x) 0 b"

section \<open>Candidates\<close>

definition vrfFloatPrec :: nat where "vrfFloatPrec = 8 * (32 + 1)"
definition maxCandidates :: u64 where "maxCandidates = 10"
definition minCandidates :: u64 where "minCandidates = 1"
definition percentOfValidatorsAsCandidates :: u64 where "percentOfValidatorsAsCandidates = 10"

text \<open>\<open>crypto.MaxHash\<close>: 32 bytes of ones.\<close>

definition maxHashAsFloat :: rat where
  "maxHashAsFloat = roundTo vrfFloatPrec (of_nat (setBytes (replicate 32 255)))"

definition toFloatBetween0And1 :: "bytes \<Rightarrow> rat" where
  "toFloatBetween0And1 vrfOut =
     (if length vrfOut = 0 then 0
      else let f = roundTo vrfFloatPrec (of_nat (setBytes vrfOut))
        in roundTo 53 (roundTo vrfFloatPrec (f / maxHashAsFloat)))"

definition expectedCandidates :: "u64 \<Rightarrow> u64" where
  "expectedCandidates totalValidators =
     (let candidates = Uint64Percentage totalValidators percentOfValidatorsAsCandidates in
      if candidates < minCandidates then minCandidates
      else if candidates > maxCandidates then maxCandidates
      else candidates)"

definition IsCandidate :: "u64 \<Rightarrow> u64 \<Rightarrow> u64 \<Rightarrow> bytes \<Rightarrow> bool" where
  "IsCandidate votingPower totalVotingPower expected vrfOut =
     (if totalVotingPower = 0 \<or> expected = 0 then False
      else let vPower = of_nat (unat votingPower); totalVPower = of_nat (unat totalVotingPower);
               expCand = of_nat (unat expected);
               candidateCutoff = roundTo 53 (roundTo 64 (roundTo 64 (vPower * expCand) / totalVPower))
        in toFloatBetween0And1 vrfOut < candidateCutoff)"

section \<open>Sortition\<close>

record sortitionData =
  sdLastProposerAddresses :: "bytes list"
  sdRootHeight :: u64
  sdHeight :: u64
  sdRound :: u64
  sdTotalValidators :: u64
  sdTotalPower :: u64
  sdVotingPower :: u64

text \<open>The seed as bytes of a string; \<open>hash\<close> is \<open>crypto.Hash\<close>.\<close>

definition stringBytes :: "string \<Rightarrow> bytes" where
  "stringBytes s = map of_char s"

definition seedOf :: "(bytes \<Rightarrow> bytes) \<Rightarrow> sortitionData \<Rightarrow> bytes" where
  "seedOf hash p = FormatInputIntoSeed (hash \<circ> stringBytes) (sdLastProposerAddresses p)
     (sdRootHeight p) (sdHeight p) (sdRound p)"

text \<open>\<open>sign\<close> is the private key; \<open>publicKey\<close> its public key.\<close>

definition VRF :: "(bytes \<Rightarrow> bytes) \<Rightarrow> (bytes \<Rightarrow> bytes) \<Rightarrow> bytes \<Rightarrow> sortitionData \<Rightarrow> signature" where
  "VRF hash sign publicKey p = \<lparr>sgPublicKey = publicKey, sgSignature = sign (seedOf hash p)\<rparr>"

definition sortition :: "(bytes \<Rightarrow> bytes) \<Rightarrow> u64 \<Rightarrow> u64 \<Rightarrow> u64 \<Rightarrow> bytes \<Rightarrow> bytes \<times> bool" where
  "sortition hash votingPower totalPower totalValidators sig =
     (let out = hash sig in (out, IsCandidate votingPower totalPower (expectedCandidates totalValidators) out))"

definition Sortition ::
    "(bytes \<Rightarrow> bytes) \<Rightarrow> (bytes \<Rightarrow> bytes) \<Rightarrow> bytes \<Rightarrow> sortitionData \<Rightarrow> bytes \<times> signature \<times> bool" where
  "Sortition hash sign publicKey p =
     (let vrf = VRF hash sign publicKey p;
          (out, isCandidate) = sortition hash (sdVotingPower p) (sdTotalPower p) (sdTotalValidators p) (sgSignature vrf)
      in (out, vrf, isCandidate))"

text \<open>\<open>verifyBytes pk msg sig\<close> is \<open>PublicKey.VerifyBytes\<close>.\<close>

definition VerifyCandidate ::
    "(bytes \<Rightarrow> bytes) \<Rightarrow> (bytes \<Rightarrow> bytes \<Rightarrow> bytes \<Rightarrow> bool) \<Rightarrow> sortitionData \<Rightarrow> bytes \<Rightarrow> bytes
      \<Rightarrow> bytes option \<times> bool" where
  "VerifyCandidate hash verifyBytes p sig publicKey =
     (if \<not> verifyBytes publicKey (seedOf hash p) sig then (None, False)
      else let (out, isCandidate) = sortition hash (sdVotingPower p) (sdTotalPower p) (sdTotalValidators p) sig
        in (Some out, isCandidate))"

text \<open>\<open>VRFCandidate\<close>: a public key and the hash of its signature.\<close>

type_synonym VRFCandidate = "bytes \<times> bytes"

text \<open>The loop over the candidates; the result so far is the smallest number and its key.\<close>

fun smallestCandidate :: "(bytes \<Rightarrow> bytes) \<Rightarrow> (nat \<times> bytes) option \<Rightarrow> VRFCandidate list \<Rightarrow> (nat \<times> bytes) option" where
  "smallestCandidate hash best [] = best"
| "smallestCandidate hash best ((publicKey, out) # cs) =
     (let candidate = setBytes (hash out) in
      smallestCandidate hash
        (case best of
           None \<Rightarrow> Some (candidate, publicKey)
         | Some (smallest, proposer) \<Rightarrow>
             if candidate < smallest then Some (candidate, publicKey) else Some (smallest, proposer)) cs)"

text \<open>\<open>binary.BigEndian.Uint64\<close> of the first bytes of a seed.\<close>

definition bigEndian64 :: "bytes \<Rightarrow> u64" where
  "bigEndian64 b = of_nat (setBytes (take 8 b))"

text \<open>\<open>None\<close> is the panic of the lottery without sortition data, validators or power.\<close>

definition SelectProposerFromCandidates ::
    "(bytes \<Rightarrow> bytes) \<Rightarrow> VRFCandidate list \<Rightarrow> sortitionData option \<Rightarrow> consensusValidator list \<Rightarrow> bytes option" where
  "SelectProposerFromCandidates hash candidates sdata vals =
     (if length candidates = 0
      then (case sdata of
          None \<Rightarrow> None
        | Some p \<Rightarrow> WeightedPseudorandom (bigEndian64 (seedOf hash p)) (sdTotalPower p) vals)
      else map_option snd (smallestCandidate hash None candidates))"

section \<open>Rounding is monotone\<close>

lemma bitLength_bounds: "0 < n \<Longrightarrow> 2 ^ (bitLength n - 1) \<le> n \<and> n < 2 ^ bitLength n \<and> 0 < bitLength n"
proof (induction n rule: bitLength.induct)
  case (1 n)
  show ?case
  proof (cases "n div 2 = 0")
    case True
    with 1 have "n = 1" by auto
    then show ?thesis by (simp add: bitLength.simps)
  next
    case False
    with 1 have ih: "2 ^ (bitLength (n div 2) - 1) \<le> n div 2" "n div 2 < 2 ^ bitLength (n div 2)" "0 < bitLength (n div 2)"
      by auto
    have b: "bitLength n = Suc (bitLength (n div 2))" using 1 by (simp add: bitLength.simps [of n])
    obtain l where l: "bitLength (n div 2) = Suc l" using ih(3) gr0_implies_Suc by blast
    have "2 * 2 ^ l \<le> n" "n < 2 * (2 * 2 ^ l)" using ih by (simp_all add: l)
    then show ?thesis by (simp add: b l)
  qed
qed

lemma floatExp_bounds:
  assumes "0 < x"
  shows "2 powi floatExp x \<le> x" "x < 2 powi (floatExp x + 1)"
proof -
  obtain n d where q: "quotient_of x = (n, d)" by force
  have d: "0 < d" using quotient_of_denom_pos [OF q] .
  have x: "x = of_int n / of_int d" using quotient_of_div [OF q] .
  with assms d have n: "0 < n" by (simp add: zero_less_divide_iff)
  let ?a = "bitLength (nat n)" and ?b = "bitLength (nat d)"
  define k where "k = int ?a - int ?b"
  have N: "(2 :: rat) ^ (?a - 1) \<le> of_int n" "of_int n < (2 :: rat) ^ ?a" "0 < ?a"
    using bitLength_bounds [of "nat n"] n of_nat_le_iff [of "2 ^ (?a - 1)" "nat n", where 'a = rat]
      of_nat_less_iff [of "nat n" "2 ^ ?a", where 'a = rat] by (simp_all add: of_nat_nat)
  have D: "(2 :: rat) ^ (?b - 1) \<le> of_int d" "of_int d < (2 :: rat) ^ ?b" "0 < ?b"
    using bitLength_bounds [of "nat d"] d of_nat_le_iff [of "2 ^ (?b - 1)" "nat d", where 'a = rat]
      of_nat_less_iff [of "nat d" "2 ^ ?b", where 'a = rat] by (simp_all add: of_nat_nat)
  have d': "0 < (of_int d :: rat)" using d by simp
  have lo: "2 powi (k - 1) < x"
  proof -
    have "2 powi (k - 1) = (2 :: rat) ^ (?a - 1) / 2 ^ ?b"
    proof -
      have "k - 1 = int (?a - 1) - int ?b" using N(3) by (simp add: k_def)
      then show ?thesis by (simp add: power_int_diff)
    qed
    also have "\<dots> < of_int n / of_int d"
      using N(1) D(2) d' by (intro frac_less2) simp_all
    finally show ?thesis by (simp add: x)
  qed
  have hi: "x < 2 powi (k + 1)"
  proof -
    have "x < (2 :: rat) ^ ?a / 2 ^ (?b - 1)"
      using N(2) D(1) n by (simp add: x frac_less)
    also have "\<dots> = 2 powi (k + 1)"
    proof -
      have "k + 1 = int ?a - int (?b - 1)" using D(3) by (simp add: k_def)
      then show ?thesis by (simp add: power_int_diff)
    qed
    finally show ?thesis .
  qed
  have e: "floatExp x = (if x < 2 powi k then k - 1 else k)" by (simp add: floatExp_def q k_def Let_def)
  show "2 powi floatExp x \<le> x" "x < 2 powi (floatExp x + 1)" using lo hi by (simp_all add: e)
qed

lemma nearestEven_mono: "x \<le> y \<Longrightarrow> nearestEven x \<le> nearestEven y"
proof -
  assume le: "x \<le> y"
  have fl: "\<lfloor>x\<rfloor> \<le> \<lfloor>y\<rfloor>" using le by (rule floor_mono)
  have r: "\<lfloor>z\<rfloor> \<le> nearestEven z" "nearestEven z \<le> \<lfloor>z\<rfloor> + 1" for z by (auto simp: nearestEven_def Let_def)
  show ?thesis
  proof (cases "\<lfloor>x\<rfloor> = \<lfloor>y\<rfloor>")
    case True
    with le show ?thesis by (auto simp: nearestEven_def Let_def)
  next
    case False
    with fl have "\<lfloor>x\<rfloor> + 1 \<le> \<lfloor>y\<rfloor>" by simp
    with r [of x] r [of y] show ?thesis by linarith
  qed
qed

lemma nearestEven_int [simp]: "nearestEven (of_int n) = n"
  by (simp add: nearestEven_def)

lemma floatExp_mono: "0 < x \<Longrightarrow> x \<le> y \<Longrightarrow> floatExp x \<le> floatExp y"
proof (rule ccontr)
  assume a: "0 < x" "x \<le> y" "\<not> floatExp x \<le> floatExp y"
  then have "(2 :: rat) powi (floatExp y + 1) \<le> 2 powi floatExp x" by (intro power_int_increasing) auto
  with floatExp_bounds [of x] floatExp_bounds [of y] a show False by linarith
qed

text \<open>A result stays within its binade: between the powers of two around the argument.\<close>

lemma roundTo_binade:
  assumes "0 < x" "0 < p"
  shows "2 powi floatExp x \<le> roundTo p x" "roundTo p x \<le> 2 powi (floatExp x + 1)"
proof -
  let ?e = "floatExp x"
  define s :: rat where "s = 2 powi (int p - 1 - ?e)"
  have s: "0 < s" by (simp add: s_def)
  have r: "roundTo p x = of_int (nearestEven (x * s)) / s"
    using assms(1) by (simp add: roundTo_def s_def Let_def)
  have ints: "2 powi ?e * s = of_int (2 ^ (p - 1))" "2 powi (?e + 1) * s = of_int (2 ^ p)"
    using assms(2) by (simp_all add: s_def flip: power_int_add) (simp_all add: power_int_def nat_diff_distrib)
  have "of_int (2 ^ (p - 1)) \<le> x * s" "x * s \<le> of_int (2 ^ p)"
    using floatExp_bounds [OF assms(1)] s unfolding ints [symmetric] by (simp_all add: less_imp_le)
  from nearestEven_mono [OF this(1)] nearestEven_mono [OF this(2)]
  have "(2 ^ (p - 1) :: int) \<le> nearestEven (x * s)" "nearestEven (x * s) \<le> 2 ^ p" by (simp_all only: nearestEven_int)
  then have "of_int (2 ^ (p - 1)) \<le> (of_int (nearestEven (x * s)) :: rat)" "(of_int (nearestEven (x * s)) :: rat) \<le> of_int (2 ^ p)"
    by (simp_all only: of_int_le_iff)
  then show "2 powi ?e \<le> roundTo p x" "roundTo p x \<le> 2 powi (?e + 1)"
    unfolding r ints [symmetric] using s by (simp_all add: field_simps)
qed

lemma roundTo_mono:
  assumes "x \<le> y" "0 < p"
  shows "roundTo p x \<le> roundTo p y"
proof (cases "0 < x")
  case False
  have "0 \<le> roundTo p y"
  proof (cases "0 < y")
    case True
    have "(0 :: rat) \<le> 2 powi floatExp y" by simp
    also have "\<dots> \<le> roundTo p y" using True assms(2) by (rule roundTo_binade)
    finally show ?thesis .
  qed (simp add: roundTo_def)
  with False show ?thesis by (simp add: roundTo_def [of p x])
next
  case True
  with assms have y: "0 < y" by simp
  show ?thesis
  proof (cases "floatExp x = floatExp y")
    case True
    define s :: rat where "s = 2 powi (int p - 1 - floatExp y)"
    have s: "0 < s" by (simp add: s_def)
    have "of_int (nearestEven (x * s)) \<le> (of_int (nearestEven (y * s)) :: rat)"
      using assms(1) s by (simp add: nearestEven_mono)
    with s \<open>0 < x\<close> y show ?thesis by (simp add: roundTo_def Let_def True divide_right_mono flip: s_def)
  next
    case False
    with floatExp_mono [OF \<open>0 < x\<close> assms(1)] have "(2 :: rat) powi (floatExp x + 1) \<le> 2 powi floatExp y"
      by (intro power_int_increasing) auto
    with roundTo_binade(2) [OF \<open>0 < x\<close> assms(2)] roundTo_binade(1) [OF y assms(2)] show ?thesis by linarith
  qed
qed

lemma roundTo_pos: "0 < x \<Longrightarrow> 0 < p \<Longrightarrow> 0 < roundTo p x"
  by (rule less_le_trans [OF _ roundTo_binade(1)]) simp_all

lemma roundTo_nonneg: "0 < p \<Longrightarrow> 0 \<le> roundTo p x"
  using roundTo_pos [of x p] by (cases "0 < x") (auto simp: roundTo_def)

section \<open>Candidacy\<close>

lemma IsCandidate_mono:
  assumes "IsCandidate v tp expected out" "v \<le> v'"
  shows "IsCandidate v' tp expected out"
proof -
  have le: "(of_nat (unat v) :: rat) \<le> of_nat (unat v')" using assms(2) by (simp only: of_nat_le_iff unat_le_iff)
  have "roundTo 64 (of_nat (unat v) * of_nat (unat expected)) \<le> roundTo 64 (of_nat (unat v') * of_nat (unat expected))"
    by (intro roundTo_mono mult_right_mono le of_nat_0_le_iff) simp
  then have "roundTo 64 (of_nat (unat v) * of_nat (unat expected)) / of_nat (unat tp)
      \<le> roundTo 64 (of_nat (unat v') * of_nat (unat expected)) / of_nat (unat tp)"
    by (rule divide_right_mono) (rule of_nat_0_le_iff)
  from roundTo_mono [OF roundTo_mono [OF this, of 64], of 53]
  have "roundTo 53 (roundTo 64 (roundTo 64 (of_nat (unat v) * of_nat (unat expected)) / of_nat (unat tp)))
      \<le> roundTo 53 (roundTo 64 (roundTo 64 (of_nat (unat v') * of_nat (unat expected)) / of_nat (unat tp)))"
    by simp
  with assms(1) show ?thesis
    by (auto simp: IsCandidate_def Let_def split: if_splits)
qed

lemma toFloat_nonneg: "0 \<le> toFloatBetween0And1 out"
  by (simp add: toFloatBetween0And1_def Let_def roundTo_nonneg)

lemma IsCandidate_stake: "\<not> IsCandidate 0 tp expected out"
  using toFloat_nonneg [of out] by (simp add: IsCandidate_def roundTo_def [of 64] roundTo_def [of 53] linorder_not_less)

text \<open>
  C27: Sortition is fair and verifiable. The claim of a candidate is accepted by everyone who verifies it, the node would
  still be a candidate with more stake, and only a node with stake is one. (The key verifies what it signed.)
\<close>

theorem sortition_fair:
  assumes "Sortition hash sign pk p = (out, vrf, True)" and "\<And>msg. verifyBytes pk msg (sign msg)"
    and "sdVotingPower p \<le> more_power"
  shows "VerifyCandidate hash verifyBytes p (sgSignature vrf) pk = (Some out, True) \<and>
    VerifyCandidate hash verifyBytes (p\<lparr>sdVotingPower := more_power\<rparr>) (sgSignature vrf) pk = (Some out, True) \<and>
    0 < sdVotingPower p"
proof -
  have vrf: "vrf = VRF hash sign pk p" and out: "out = hash (sgSignature vrf)"
    and cand: "IsCandidate (sdVotingPower p) (sdTotalPower p) (expectedCandidates (sdTotalValidators p)) out"
    using assms(1) by (auto simp: Sortition_def sortition_def Let_def)
  have seed: "seedOf hash (p\<lparr>sdVotingPower := more_power\<rparr>) = seedOf hash p" by (simp add: seedOf_def)
  have sig: "verifyBytes pk (seedOf hash p) (sgSignature vrf)" using assms(2) by (simp add: vrf VRF_def)
  have "0 < sdVotingPower p" using cand IsCandidate_stake by (metis word_gt_0)
  with cand IsCandidate_mono [OF cand assms(3)] sig seed show ?thesis
    by (simp add: VerifyCandidate_def sortition_def out Let_def)
qed

section \<open>The leader\<close>

definition candidateNumber :: "(bytes \<Rightarrow> bytes) \<Rightarrow> VRFCandidate \<Rightarrow> nat" where
  "candidateNumber hash c = setBytes (hash (snd c))"

lemma smallestCandidate_min:
  "smallestCandidate hash (Some (n, k)) cs = Some (m, pk) \<Longrightarrow>
     (m = n \<and> pk = k \<or> (\<exists>c \<in> set cs. candidateNumber hash c = m \<and> fst c = pk)) \<and>
     m \<le> n \<and> (\<forall>c \<in> set cs. m \<le> candidateNumber hash c)"
proof (induction cs arbitrary: n k)
  case (Cons c cs)
  obtain q out where c: "c = (q, out)" by force
  show ?case
  proof (cases "candidateNumber hash c < n")
    case True
    with Cons.prems have "smallestCandidate hash (Some (candidateNumber hash c, q)) cs = Some (m, pk)"
      by (simp add: c candidateNumber_def Let_def)
    from Cons.IH [OF this] True show ?thesis by (force simp: c)
  next
    case False
    with Cons.prems have "smallestCandidate hash (Some (n, k)) cs = Some (m, pk)"
      by (simp add: c candidateNumber_def Let_def)
    from Cons.IH [OF this] False show ?thesis by force
  qed
qed simp

lemma smallestCandidate_total: "\<exists>m pk. smallestCandidate hash (Some (n, k)) cs = Some (m, pk)"
  by (induction cs arbitrary: n k) (auto simp: Let_def split: if_splits)

lemma leader_smallest:
  assumes "cs \<noteq> []"
  shows "\<exists>c \<in> set cs. SelectProposerFromCandidates hash cs d vals = Some (fst c) \<and>
    (\<forall>c' \<in> set cs. candidateNumber hash c \<le> candidateNumber hash c')"
proof -
  obtain q out cs' where cs: "cs = (q, out) # cs'" using assms by (metis list.exhaust surj_pair)
  obtain m pk where m: "smallestCandidate hash (Some (candidateNumber hash (q, out), q)) cs' = Some (m, pk)"
    using smallestCandidate_total by blast
  have "SelectProposerFromCandidates hash cs d vals = Some pk"
    using m by (simp add: SelectProposerFromCandidates_def cs candidateNumber_def Let_def)
  with smallestCandidate_min [OF m] show ?thesis by (force simp: cs)
qed

text \<open>
  C25: Replicas agree on the leader: two replicas that know the same candidates choose the same leader whatever
  order the candidates arrived in, and the leader is the candidate with the smallest hashed output (no two hashed outputs are equal).
\<close>

theorem leader_agreed:
  assumes "set cs = set cs'" and "inj_on (candidateNumber hash) (set cs)"
  shows "SelectProposerFromCandidates hash cs d vals = SelectProposerFromCandidates hash cs' d vals \<and>
    (cs \<noteq> [] \<longrightarrow> (\<exists>c \<in> set cs. SelectProposerFromCandidates hash cs d vals = Some (fst c) \<and>
      (\<forall>c' \<in> set cs. c' \<noteq> c \<longrightarrow> candidateNumber hash c < candidateNumber hash c')))"
proof (cases "cs = []")
  case True
  with assms(1) show ?thesis by simp
next
  case False
  then obtain c where c: "c \<in> set cs" "SelectProposerFromCandidates hash cs d vals = Some (fst c)"
    "\<forall>c' \<in> set cs. candidateNumber hash c \<le> candidateNumber hash c'" using leader_smallest by blast
  from False assms(1) have "cs' \<noteq> []" by auto
  then obtain c2 where c2: "c2 \<in> set cs'" "SelectProposerFromCandidates hash cs' d vals = Some (fst c2)"
    "\<forall>c' \<in> set cs'. candidateNumber hash c2 \<le> candidateNumber hash c'" using leader_smallest by blast
  have "c = c2" using assms c c2 by (metis inj_onD order_antisym)
  moreover have "candidateNumber hash c < candidateNumber hash c'" if "c' \<in> set cs" "c' \<noteq> c" for c'
    using that c assms(2) by (metis inj_onD order_less_le)
  ultimately show ?thesis using c c2(2) by auto
qed

section \<open>Examples\<close>

definition sortitionExample :: sortitionData where
  "sortitionExample = \<lparr>sdLastProposerAddresses = [], sdRootHeight = 1, sdHeight = 1, sdRound = 0, sdTotalValidators = 2,
     sdTotalPower = 4, sdVotingPower = 2\<rparr>"

theorem sortition_fair_witness:
  "VerifyCandidate (\<lambda>_. [0]) (\<lambda>k msg sig. sig = k @ msg) (sortitionExample\<lparr>sdVotingPower := 3\<rparr>)
     (sgSignature (VRF (\<lambda>_. [0]) (\<lambda>msg. [5] @ msg) [5] sortitionExample)) [5] = (Some [0], True)"
proof -
  have out: "toFloatBetween0And1 [0] = 0"
    by (simp add: toFloatBetween0And1_def setBytes_def roundTo_def Let_def)
  define e where "e = expectedCandidates 2"
  have "e \<noteq> 0" by (simp add: e_def expectedCandidates_def Let_def minCandidates_def maxCandidates_def)
  then have e: "0 < unat e" by (simp add: unat_gt_0)
  have cand: "IsCandidate 2 4 (expectedCandidates 2) [0]"
    unfolding IsCandidate_def out Let_def e_def [symmetric] using e \<open>e \<noteq> 0\<close>
    by (simp del: of_nat_unat add: roundTo_pos)
  have "Sortition (\<lambda>_. [0]) (\<lambda>msg. [5] @ msg) [5] sortitionExample =
      ([0], VRF (\<lambda>_. [0]) (\<lambda>msg. [5] @ msg) [5] sortitionExample, True)"
    using cand by (simp add: Sortition_def sortition_def sortitionExample_def)
  from sortition_fair [OF this, of "\<lambda>k msg sig. sig = k @ msg" 3] show ?thesis
    by (simp add: sortitionExample_def unat_le_iff)
qed

theorem leader_agreed_witness:
  "SelectProposerFromCandidates id [([1], [9]), ([2], [4])] None [] =
     SelectProposerFromCandidates id [([2], [4]), ([1], [9])] None []"
  using leader_agreed [of "[([1], [9]), ([2], [4])]" "[([2], [4]), ([1], [9])]" id None "[]"]
  by (auto simp: inj_on_def candidateNumber_def setBytes_def)

end
