(* ===== verification/Bft.thy ===== *)
theory Bft
  imports Certificates Election "HOL-Library.AList"
begin

text \<open>
  The consensus engine: its state and what it does with the messages of other validators
  (\<open>bft/bft.go\<close>, \<open>bft/msg.go\<close>, \<open>bft/vote.go\<close>, \<open>bft/prop.go\<close>, \<open>bft/evidence.go\<close>). The phases are in the theory
  \<open>Phases\<close>.

  The engine keeps pointers to certificates and changes them in place: the certificate of a stored proposal
  becomes the lock of the replica and the evidence of a double sign, and an update made through one of them
  is seen by the others. Certificates that are shared live in a heap, \<open>bQCs\<close>, and the stored proposals, the
  partial certificates and the lock hold addresses into it. Messages that arrive are decoded from bytes and
  share nothing.

  Keys, signatures, hashes and the protobuf codec are a record \<open>crypt\<close>; the interface \<open>Controller\<close> of
  \<open>bft.go\<close> is a record with one field per method, holding what the methods return at the moment. What the engine
  sends is appended to the list \<open>bSent\<close>. Logging and metrics are left out. A nil dereference or an index out
  of range is the error \<open>ErrPanic\<close>.
\<close>

section \<open>Phases\<close>

definition Phase_ELECTION :: u64 where "Phase_ELECTION = 1"
definition Phase_PROPOSE :: u64 where "Phase_PROPOSE = 3"
definition Phase_PRECOMMIT :: u64 where "Phase_PRECOMMIT = 5"
definition Phase_PRECOMMIT_VOTE :: u64 where "Phase_PRECOMMIT_VOTE = 6"
definition Phase_COMMIT :: u64 where "Phase_COMMIT = 7"
definition Phase_COMMIT_PROCESS :: u64 where "Phase_COMMIT_PROCESS = 8"
definition Phase_ROUND_INTERRUPT :: u64 where "Phase_ROUND_INTERRUPT = 9"
definition Phase_PACEMAKER :: u64 where "Phase_PACEMAKER = 10"

lemmas phase_defs = Phase_ELECTION_def Phase_ELECTION_VOTE_def Phase_PROPOSE_def Phase_PROPOSE_VOTE_def
  Phase_PRECOMMIT_def Phase_PRECOMMIT_VOTE_def Phase_COMMIT_def Phase_COMMIT_PROCESS_def
  Phase_ROUND_INTERRUPT_def Phase_PACEMAKER_def

section \<open>Messages\<close>

record doubleSignEvidence =
  deVoteA :: "quorumCertificate option"
  deVoteB :: "quorumCertificate option"

record vdf =
  vdProof :: bytes
  vdOutput :: bytes
  vdIterations :: u64

text \<open>The certificate of a stored message is an address, that of a message on the wire a value.\<close>

record 'q bftMessage =
  mHeader :: "view option"
  mVrf :: "signature option"
  mQc :: "'q option"
  mHighQc :: "quorumCertificate option"
  mLastDoubleSignEvidence :: "doubleSignEvidence list"
  mVdf :: "vdf option"
  mSignature :: "signature option"
  mTimestamp :: u64
  mRcBuildHeight :: u64

type_synonym wire = "quorumCertificate bftMessage"

text \<open>\<open>&Message{}\<close> and \<open>&QC{}\<close>\<close>

definition emptyMessage :: "'q bftMessage" where
  "emptyMessage = \<lparr>mHeader = None, mVrf = None, mQc = None, mHighQc = None, mLastDoubleSignEvidence = [],
     mVdf = None, mSignature = None, mTimestamp = 0, mRcBuildHeight = 0\<rparr>"

definition emptyQC :: quorumCertificate where
  "emptyQC = \<lparr>qcHeader = None, qcResults = None, qcResultsHash = None, qcBlock = None, qcBlockHash = [],
     qcProposerKey = None, qcSignature = None\<rparr>"

definition qcPhase :: "quorumCertificate option \<Rightarrow> u64 option" where
  "qcPhase qc = (case qc of None \<Rightarrow> None | Some q \<Rightarrow> map_option vwPhase (qcHeader q))"

definition IsReplicaMessage :: "wire \<Rightarrow> bool" where
  "IsReplicaMessage x \<longleftrightarrow> mHeader x = None \<and>
     (case qcPhase (mQc x) of
        None \<Rightarrow> False
      | Some p \<Rightarrow> p = Phase_ELECTION_VOTE \<or> p = Phase_PROPOSE_VOTE \<or> p = Phase_PRECOMMIT_VOTE)"

definition IsProposerMessage :: "wire \<Rightarrow> bool" where
  "IsProposerMessage x \<longleftrightarrow> (case mHeader x of
       None \<Rightarrow> False
     | Some h \<Rightarrow> vwPhase h = Phase_ELECTION \<or> vwPhase h = Phase_PROPOSE \<or> vwPhase h = Phase_PRECOMMIT
         \<or> vwPhase h = Phase_COMMIT)"

definition IsPacemakerMessage :: "wire \<Rightarrow> bool" where
  "IsPacemakerMessage x \<longleftrightarrow> qcPhase (mQc x) = Some Phase_ROUND_INTERRUPT"

text \<open>
  Keys and codecs: \<open>cyVerifyBytes pk msg sig\<close>, \<open>cySign\<close> with the node's own key, the aggregation of
  signatures under a bitmap, the marshalling of messages and evidence.
\<close>

record crypt =
  cyCodec :: codec
  cyPkOk :: "bytes \<Rightarrow> bool"
  cyAddressOf :: "bytes \<Rightarrow> bytes"
  cyMaskOk :: "nat \<Rightarrow> bytes \<Rightarrow> bool"
  cyVerify :: "validatorSet \<Rightarrow> bytes \<Rightarrow> bytes \<Rightarrow> bytes \<Rightarrow> bool"
  cyVerifyBytes :: "bytes \<Rightarrow> bytes \<Rightarrow> bytes \<Rightarrow> bool"
  cySign :: "bytes \<Rightarrow> bytes"
  cyAggregate :: "bytes list \<Rightarrow> bytes \<Rightarrow> error + bytes"
  cyVerifyVDF :: "bytes \<Rightarrow> vdf \<Rightarrow> bool"
  cyMarshalMessage :: "wire \<Rightarrow> bytes"
  cyMarshalEvidence :: "doubleSignEvidence \<Rightarrow> bytes"

definition Message_SignBytes :: "crypt \<Rightarrow> wire \<Rightarrow> bytes" where
  "Message_SignBytes C x =
     (if IsProposerMessage x
      then cyMarshalMessage C (emptyMessage\<lparr>mHeader := mHeader x, mVrf := mVrf x, mHighQc := mHighQc x,
             mLastDoubleSignEvidence := mLastDoubleSignEvidence x,
             mQc := map_option (\<lambda>q. q\<lparr>qcBlock := None, qcResults := None\<rparr>) (mQc x)\<rparr>)
      else if IsReplicaMessage x
      then (case mQc x of
          None \<Rightarrow> []
        | Some q \<Rightarrow> SignBytes (cyCodec C) (q\<lparr>qcBlock := None, qcResults := None, qcSignature := None\<rparr>))
      else if IsPacemakerMessage x then cyMarshalMessage C (emptyMessage\<lparr>mHeader := mHeader x\<rparr>)
      else [])"

section \<open>The state of the engine\<close>

text \<open>The multi key of a vote set: one place for a signature per validator and the bitmap of those who signed.\<close>

record multiKey =
  mkSignatures :: "bytes list"
  mkBitmap :: bytes

record voteSet =
  vtVote :: wire
  vtTotalVotedPower :: u64
  vtMultiKey :: multiKey

record evidences =
  evEvidence :: "doubleSignEvidence list"
  evDeDuplicator :: "bytes list"

text \<open>What the engine hands to the network, the block inbox, the state machine and the delay function.\<close>

datatype effect =
    ToReplicas wire
  | ToProposer "bytes option" wire
  | SelfBlock quorumCertificate u64
  | Gossip quorumCertificate u64
  | ResetState
  | StartVDF bytes

text \<open>\<open>Proposals[round][phase]\<close>: a missing round, a missing phase and an empty list are told apart.\<close>

record bft =
  bView :: view
  bVotes :: "u64 \<Rightarrow> u64 \<Rightarrow> (bytes \<times> voteSet) list"
  bProposals :: "u64 \<Rightarrow> (u64 \<Rightarrow> nat bftMessage list option) option"
  bProposerKey :: "bytes option"
  bValidatorSet :: validatorSet
  bCommitteeData :: "committeeData option"
  bHighQC :: "nat option"
  bRCBuildHeight :: u64
  bBlock :: "bytes option"
  bBlockHash :: "bytes option"
  bResults :: "certificateResult option"
  bBlockResult :: "bytes option"
  bSortitionData :: "sortitionData option"
  bHighVDF :: "vdf option"
  bVDFCache :: "wire list"
  bEvidence :: evidences
  bPartialQCs :: "(bytes \<times> nat) list"
  bPacemakerMessages :: "(bytes, wire) table"
  bRoundInterruptTimeoutMS :: u64
  bTimer :: "u64 option"
  bQCs :: "quorumCertificate list"
  bSent :: "effect list"

text \<open>\<open>lib.Config\<close>, the part the engine reads, with the node's key.\<close>

record bftConfig =
  cfNetworkID :: u64
  cfChainId :: u64
  cfRunVDF :: bool
  cfNewHeightTimeoutMs :: u64
  cfElectionTimeoutMS :: u64
  cfElectionVoteTimeoutMS :: u64
  cfProposeTimeoutMS :: u64
  cfProposeVoteTimeoutMS :: u64
  cfPrecommitTimeoutMS :: u64
  cfPrecommitVoteTimeoutMS :: u64
  cfCommitTimeoutMS :: u64
  cfPublicKey :: bytes

text \<open>
  The interface \<open>Controller\<close>. A block result is its header hash. \<open>cnFinish\<close> is what the delay
  function has produced, \<open>cnProcessTime\<close> the time a phase took and \<open>cnCommitTime\<close> the time stamp of a commit.
\<close>

record controller =
  cnChainHeight :: u64
  cnRootChainHeight :: u64
  cnSyncing :: bool
  cnProduceProposal :: "evidences \<Rightarrow> vdf option \<Rightarrow> (u64 \<times> bytes option \<times> certificateResult option) \<times> error option"
  cnValidateProposal :: "u64 \<Rightarrow> quorumCertificate \<Rightarrow> evidences \<Rightarrow> bytes option \<times> error option"
  cnLoadCertificate :: "u64 \<Rightarrow> error + quorumCertificate option"
  cnLoadRootChainId :: "u64 \<Rightarrow> u64"
  cnLoadCommittee :: "u64 \<Rightarrow> u64 \<Rightarrow> error + validatorSet"
  cnLoadCommitteeData :: "error + committeeData"
  cnLoadLastProposers :: "u64 \<Rightarrow> error + bytes list"
  cnLoadMinimumEvidenceHeight :: "u64 \<Rightarrow> u64 \<Rightarrow> error + u64"
  cnIsValidDoubleSigner :: "u64 \<Rightarrow> u64 \<Rightarrow> bytes \<Rightarrow> bool"
  cnLoadMaxBlockSize :: nat
  cnFinish :: "vdf option"
  cnProcessTime :: u64
  cnCommitTime :: u64

type_synonym 'a bm = "(bft, error, 'a) sm"

definition emptyValidatorSet :: validatorSet where
  "emptyValidatorSet = \<lparr>vsValidators = [], vsTotalPower = 0, vsMinimumMaj23 = 0, vsNumValidators = 0\<rparr>"

definition New_bft :: "bftConfig \<Rightarrow> u64 \<Rightarrow> u64 \<Rightarrow> bft" where
  "New_bft c rootHeight h = \<lparr>
     bView = \<lparr>vwHeight = h, vwRootHeight = rootHeight, vwRound = 0, vwPhase = 0,
              vwNetworkId = cfNetworkID c, vwChainId = cfChainId c\<rparr>,
     bVotes = (\<lambda>_ _. []), bProposals = (\<lambda>_. None), bProposerKey = None, bValidatorSet = emptyValidatorSet,
     bCommitteeData = None, bHighQC = None, bRCBuildHeight = 0, bBlock = None, bBlockHash = None,
     bResults = None, bBlockResult = None, bSortitionData = None,
     bHighVDF = Some \<lparr>vdProof = [], vdOutput = [], vdIterations = 0\<rparr>, bVDFCache = [],
     bEvidence = \<lparr>evEvidence = [], evDeDuplicator = []\<rparr>, bPartialQCs = [], bPacemakerMessages = [],
     bRoundInterruptTimeoutMS = 0, bTimer = None, bQCs = [], bSent = []\<rparr>"

section \<open>Helpers\<close>

definition ValidatorSet_GetValidator :: "validatorSet \<Rightarrow> bytes \<Rightarrow> consensusValidator option" where
  "ValidatorSet_GetValidator vs pk = map_option fst (GetValidatorAndIdx (vsValidators vs) pk)"

text \<open>A new certificate in the heap, and the certificate at an address.\<close>

definition newQC :: "quorumCertificate \<Rightarrow> nat bm" where
  "newQC q = (\<lambda>b. (Inr (length (bQCs b)), b\<lparr>bQCs := bQCs b @ [q]\<rparr>))"

definition qcAt :: "bft \<Rightarrow> nat \<Rightarrow> quorumCertificate" where
  "qcAt b a = bQCs b ! a"

definition setQC :: "nat \<Rightarrow> (quorumCertificate \<Rightarrow> quorumCertificate) \<Rightarrow> unit bm" where
  "setQC a f = modify (\<lambda>b. b\<lparr>bQCs := (bQCs b)[a := f (qcAt b a)]\<rparr>)"

definition send :: "effect \<Rightarrow> unit bm" where
  "send e = modify (\<lambda>b. b\<lparr>bSent := bSent b @ [e]\<rparr>)"

definition loadMessage :: "bft \<Rightarrow> nat bftMessage \<Rightarrow> wire" where
  "loadMessage b m = \<lparr>mHeader = mHeader m, mVrf = mVrf m, mQc = map_option (qcAt b) (mQc m),
     mHighQc = mHighQc m, mLastDoubleSignEvidence = mLastDoubleSignEvidence m, mVdf = mVdf m,
     mSignature = mSignature m, mTimestamp = mTimestamp m, mRcBuildHeight = mRcBuildHeight m\<rparr>"

definition storeMessage :: "wire \<Rightarrow> nat option \<Rightarrow> nat bftMessage" where
  "storeMessage m a = \<lparr>mHeader = mHeader m, mVrf = mVrf m, mQc = a,
     mHighQc = mHighQc m, mLastDoubleSignEvidence = mLastDoubleSignEvidence m, mVdf = mVdf m,
     mSignature = mSignature m, mTimestamp = mTimestamp m, mRcBuildHeight = mRcBuildHeight m\<rparr>"

text \<open>\<open>Results.Hash()\<close>, where no results marshal to no bytes, and the hash of a block.\<close>

definition resultsHash :: "crypt \<Rightarrow> certificateResult option \<Rightarrow> bytes" where
  "resultsHash C r = (case r of None \<Rightarrow> cHash (cyCodec C) [] | Some x \<Rightarrow> Hash_results (cyCodec C) x)"

definition BlockToHash :: "crypt \<Rightarrow> bytes option \<Rightarrow> bytes option" where
  "BlockToHash C blk = (case blk of
       None \<Rightarrow> None
     | Some bz \<Rightarrow> (case cBytesToBlockHash (cyCodec C) bz of Inl _ \<Rightarrow> None | Inr h \<Rightarrow> Some h))"

text \<open>The hash of the current block, computed once.\<close>

definition GetBlockHash :: "crypt \<Rightarrow> bytes option bm" where
  "GetBlockHash C = (\<lambda>b. case bBlockHash b of
       Some h \<Rightarrow> (Inr (Some h), b)
     | None \<Rightarrow> (Inr (BlockToHash C (bBlock b)), b\<lparr>bBlockHash := BlockToHash C (bBlock b)\<rparr>))"

definition IsProposer :: "bytes \<Rightarrow> bft \<Rightarrow> bool" where
  "IsProposer pk b \<longleftrightarrow> pk = optList (bProposerKey b)"

definition SelfIsProposer :: "bftConfig \<Rightarrow> bft \<Rightarrow> bool" where
  "SelfIsProposer c b = IsProposer (cfPublicKey c) b"

section \<open>Proposals\<close>

definition AddProposal :: "wire \<Rightarrow> unit bm" where
  "AddProposal m = (case mHeader m of
       None \<Rightarrow> err ErrPanic
     | Some h \<Rightarrow>
         bnd (case mQc m of None \<Rightarrow> ret None | Some q \<Rightarrow> bnd (newQC q) (\<lambda>a. ret (Some a))) (\<lambda>a.
         modify (\<lambda>b.
           let roundProposal = (case bProposals b (vwRound h) of None \<Rightarrow> (\<lambda>_. None) | Some f \<Rightarrow> f);
               phaseProposal = optList (roundProposal (vwPhase h));
               alreadyExists = list_ex (\<lambda>x. case (mQc x, a) of
                   (Some i, Some j) \<Rightarrow> optList (qcProposerKey (qcAt b j)) = optList (qcProposerKey (qcAt b i))
                 | _ \<Rightarrow> False) phaseProposal;
               new = storeMessage m a;
               roundProposal' =
                 (if vwPhase h = Phase_ELECTION
                  then if alreadyExists then roundProposal else roundProposal(vwPhase h \<mapsto> phaseProposal @ [new])
                  else roundProposal(vwPhase h \<mapsto> [new]))
           in b\<lparr>bProposals := (bProposals b)(vwRound h \<mapsto> roundProposal')\<rparr>)))"

text \<open>Reading a missing round yields a missing phase, which is stored as an empty list.\<close>

definition ProposalsResetForNewCommittee :: "unit bm" where
  "ProposalsResetForNewCommittee = modify (\<lambda>b.
     let election = (case bProposals b 0 of None \<Rightarrow> [] | Some f \<Rightarrow> optList (f Phase_ELECTION))
     in b\<lparr>bProposals := [0 \<mapsto> [Phase_ELECTION \<mapsto> election]]\<rparr>)"

definition getProposal :: "u64 \<Rightarrow> u64 \<Rightarrow> nat bftMessage option bm" where
  "getProposal rnd phase = (\<lambda>b. case bProposals b rnd of
       None \<Rightarrow> (Inr None, b)
     | Some f \<Rightarrow> (case f (phase - 1) of
           None \<Rightarrow> (Inr None, b)
         | Some [] \<Rightarrow> (Inl ErrPanic, b)
         | Some (m # _) \<Rightarrow> (Inr (Some m), b)))"

definition GetProposal :: "nat bftMessage option bm" where
  "GetProposal = (\<lambda>b. getProposal (vwRound (bView b)) (vwPhase (bView b)) b)"

text \<open>One election message; the voting power of the sender is left in the sortition data.\<close>

definition electionCandidate :: "crypt \<Rightarrow> nat bftMessage \<Rightarrow> VRFCandidate list \<Rightarrow> VRFCandidate list bm" where
  "electionCandidate C m candidates = (case mVrf m of
       None \<Rightarrow> err ErrPanic
     | Some vrf \<Rightarrow> bnd (gets bValidatorSet) (\<lambda>vs. case ValidatorSet_GetValidator vs (sgPublicKey vrf) of
         None \<Rightarrow> ret candidates
       | Some v \<Rightarrow> bnd (gets bSortitionData) (\<lambda>sd. case sd of
           None \<Rightarrow> err ErrPanic
         | Some p \<Rightarrow>
             let p' = p\<lparr>sdVotingPower := cvVotingPower v\<rparr> in
             bnd (modify (\<lambda>b. b\<lparr>bSortitionData := Some p'\<rparr>)) (\<lambda>_.
             ret (case VerifyCandidate (cHash (cyCodec C)) (cyVerifyBytes C) p' (sgSignature vrf) (cvPublicKey v) of
                 (Some out, True) \<Rightarrow> candidates @ [(cvPublicKey v, out)]
               | _ \<Rightarrow> candidates)))))"

definition GetElectionCandidates :: "crypt \<Rightarrow> VRFCandidate list bm" where
  "GetElectionCandidates C = bnd (gets (\<lambda>b. case bProposals b (vwRound (bView b)) of
       None \<Rightarrow> [] | Some f \<Rightarrow> optList (f Phase_ELECTION))) (\<lambda>ms. fold_m (electionCandidate C) ms [])"

section \<open>Double sign evidence\<close>

abbreviation ErrEmptyQuorumCertificate :: error where
  "ErrEmptyQuorumCertificate \<equiv> Error ''EmptyQuorumCertificate''"

definition NewDSE :: "doubleSignEvidence list \<Rightarrow> evidences" where
  "NewDSE ds = \<lparr>evEvidence = ds, evDeDuplicator = []\<rparr>"

definition evidenceHeader :: "quorumCertificate option \<Rightarrow> view option" where
  "evidenceHeader v = (case v of None \<Rightarrow> None | Some q \<Rightarrow> qcHeader q)"

definition DoubleSignEvidence_CheckBasic :: "doubleSignEvidence \<Rightarrow> error + unit" where
  "DoubleSignEvidence_CheckBasic x = checks
     [check (evidenceHeader (deVoteA x) = None \<or> evidenceHeader (deVoteB x) = None) ErrEmptyQuorumCertificate,
      check (\<not> View_Equals (evidenceHeader (deVoteA x)) (evidenceHeader (deVoteB x)))
        (Error ''MismatchEvidenceAndHeader'')]"

text \<open>\<open>VoteA.Check(vs, 0, view, false)\<close>, the flag of a partial certificate dropped.\<close>

definition checkVote :: "crypt \<Rightarrow> validatorSet \<Rightarrow> view \<Rightarrow> quorumCertificate option \<Rightarrow> error + unit" where
  "checkVote C vs vw v =
     (case QuorumCertificate_Check (cyCodec C) (cyMaskOk C) (cyVerify C) vs 0 vw False v of
        Inl e \<Rightarrow> Inl e | Inr _ \<Rightarrow> Inr ())"

definition DoubleSignEvidence_Check ::
    "crypt \<Rightarrow> validatorSet \<Rightarrow> view \<Rightarrow> u64 \<Rightarrow> doubleSignEvidence \<Rightarrow> error + unit" where
  "DoubleSignEvidence_Check C vs vw minimumEvidenceHeight x =
     (case (deVoteA x, deVoteB x) of
        (Some a, Some b) \<Rightarrow> (case qcHeader a of
          None \<Rightarrow> Inl ErrPanic
        | Some h \<Rightarrow> checks
           [check (vwRootHeight h < minimumEvidenceHeight) (Error ''EvidenceTooOld''),
            check (qcBlock a \<noteq> None \<or> qcBlock b \<noteq> None) (Error ''NonNilBlock''),
            check (qcResults a \<noteq> None \<or> qcResults b \<noteq> None) (Error ''NonNilCertResults''),
            checkVote C vs vw (Some a),
            checkVote C vs vw (Some b),
            check (\<not> View_Equals (qcHeader a) (qcHeader b)) (Error ''InvalidEvidenceHeights''),
            check (SignBytes (cyCodec C) b = SignBytes (cyCodec C) a) (Error ''NonEquivocatingVote''),
            check (vwPhase h \<le> Phase_PROPOSE) (Error ''WrongPhase'')])
      | _ \<Rightarrow> Inl ErrPanic)"

definition AddHeight :: "u64 \<Rightarrow> doubleSigner \<Rightarrow> doubleSigner" where
  "AddHeight h x =
     (if h \<in> set (optList (dsHeights x)) then x else x\<lparr>dsHeights := Some (optList (dsHeights x) @ [h])\<rparr>)"

text \<open>The height is added to the first entry of the signer, or a new entry is appended.\<close>

fun addSigner :: "bytes \<Rightarrow> u64 \<Rightarrow> doubleSigner list \<Rightarrow> doubleSigner list" where
  "addSigner pk h [] = [\<lparr>dsId = Some pk, dsHeights = Some [h]\<rparr>]"
| "addSigner pk h (d # ds) =
     (if optList (dsId d) = pk then AddHeight h d # ds else d # addSigner pk h ds)"

fun addSigners ::
    "crypt \<Rightarrow> controller \<Rightarrow> u64 \<Rightarrow> u64 \<Rightarrow> bytes list \<Rightarrow> doubleSigner list \<Rightarrow> error + doubleSigner list" where
  "addSigners C K rootChainId h [] results = Inr results"
| "addSigners C K rootChainId h (pk # pks) results =
     (if \<not> cyPkOk C pk then Inl ErrPubKeyFromBytes
      else addSigners C K rootChainId h pks
        (if cnIsValidDoubleSigner K rootChainId h (cyAddressOf C pk) then addSigner pk h results else results))"

text \<open>One piece of evidence; \<open>vw\<close> is the view of the node.\<close>

definition processOne ::
    "crypt \<Rightarrow> controller \<Rightarrow> view \<Rightarrow> doubleSignEvidence \<Rightarrow> doubleSigner list \<Rightarrow> error + doubleSigner list" where
  "processOne C K vw x results =
     (case DoubleSignEvidence_CheckBasic x of
        Inl e \<Rightarrow> Inl e
      | Inr _ \<Rightarrow>
          let committeeHeight = vwRootHeight (the (evidenceHeader (deVoteA x)));
              rootChainId = cnLoadRootChainId K (committeeHeight - 1)
          in case cnLoadCommittee K rootChainId committeeHeight of
            Inl e \<Rightarrow> Inl e
          | Inr vs \<Rightarrow> (case cnLoadMinimumEvidenceHeight K rootChainId committeeHeight of
              Inl e \<Rightarrow> Inl e
            | Inr minEvidenceHeight \<Rightarrow> (case DoubleSignEvidence_Check C vs vw minEvidenceHeight x of
                Inl e \<Rightarrow> Inl e
              | Inr _ \<Rightarrow>
                  if SignBytes (cyCodec C) (the (deVoteB x)) = SignBytes (cyCodec C) (the (deVoteA x))
                  then Inl (Error ''NonEquivocatingVote'')
                  else (case (qcSignature (the (deVoteA x)), qcSignature (the (deVoteB x))) of
                      (Some sig1, Some sig2) \<Rightarrow>
                        (case GetDoubleSigners (cyMaskOk C) (asBitmap sig1) (asBitmap sig2) vs of
                           Inl e \<Rightarrow> Inl e
                         | Inr signers \<Rightarrow> addSigners C K rootChainId committeeHeight signers results)
                    | _ \<Rightarrow> Inl ErrPanic))))"

fun ProcessDSE ::
    "crypt \<Rightarrow> controller \<Rightarrow> view \<Rightarrow> doubleSignEvidence list \<Rightarrow> doubleSigner list \<Rightarrow> error + doubleSigner list" where
  "ProcessDSE C K vw [] results = Inr results"
| "ProcessDSE C K vw (x # xs) results =
     (case processOne C K vw x results of Inl e \<Rightarrow> Inl e | Inr r \<Rightarrow> ProcessDSE C K vw xs r)"

definition bareVote :: "quorumCertificate \<Rightarrow> quorumCertificate" where
  "bareVote q = q\<lparr>qcBlock := None, qcResults := None\<rparr>"

definition AddDSE ::
    "crypt \<Rightarrow> controller \<Rightarrow> view \<Rightarrow> doubleSignEvidence \<Rightarrow> evidences \<Rightarrow> error + evidences" where
  "AddDSE C K vw ev0 e =
     (case DoubleSignEvidence_CheckBasic ev0 of
        Inl er \<Rightarrow> Inl er
      | Inr _ \<Rightarrow>
          let ev = \<lparr>deVoteA = map_option bareVote (deVoteA ev0), deVoteB = map_option bareVote (deVoteB ev0)\<rparr>
          in case ProcessDSE C K vw [ev] [] of
            Inl er \<Rightarrow> Inl er
          | Inr badSigners \<Rightarrow>
              if length badSigners = 0 then Inl (Error ''InvalidEvidence'')
              else let bz = cyMarshalEvidence C ev in
                if bz \<in> set (evDeDuplicator e) then Inr e
                else Inr \<lparr>evEvidence = evEvidence e @ [ev], evDeDuplicator = bz # evDeDuplicator e\<rparr>)"

text \<open>Every slash of a proposal has to be backed by the evidence that came with it.\<close>

definition ValidateByzantineEvidence ::
    "crypt \<Rightarrow> controller \<Rightarrow> view \<Rightarrow> doubleSigner list option \<Rightarrow> evidences \<Rightarrow> error + unit" where
  "ValidateByzantineEvidence C K vw slashRecipients be = (case slashRecipients of
       None \<Rightarrow> Inr ()
     | Some ds \<Rightarrow>
         if length ds = 0 then Inr ()
         else (case ProcessDSE C K vw (evEvidence be) [] of
           Inl e \<Rightarrow> Inl e
         | Inr signers \<Rightarrow>
             if list_all (\<lambda>d. list_ex (\<lambda>signer. optList (dsId d) = optList (dsId signer) \<and>
                  list_all (\<lambda>h. h \<in> set (optList (dsHeights signer))) (optList (dsHeights d))) signers) ds
             then Inr () else Inl (Error ''MismatchEvidenceAndHeader'')))"

definition AddPartialQC :: "crypt \<Rightarrow> wire \<Rightarrow> unit bm" where
  "AddPartialQC C m = (case mQc m of
       None \<Rightarrow> err ErrPanic
     | Some q \<Rightarrow> bnd (newQC q) (\<lambda>a. modify (\<lambda>b.
         b\<lparr>bPartialQCs := AList.update (cMarshalQC (cyCodec C) q) a (bPartialQCs b)\<rparr>)))"

text \<open>
  \<open>AddDSE\<close> on two certificates of the heap: past the basic check the blocks and results of both are
  erased in place, whatever happens afterwards. An error is logged and dropped.
\<close>

definition addSharedDSE ::
    "crypt \<Rightarrow> controller \<Rightarrow> nat option \<Rightarrow> nat \<Rightarrow> evidences \<Rightarrow> evidences bm" where
  "addSharedDSE C K voteA voteB dse = (\<lambda>b.
     let ev = \<lparr>deVoteA = map_option (qcAt b) voteA, deVoteB = Some (qcAt b voteB)\<rparr>;
         dse' = (case AddDSE C K (bView b) ev dse of Inl _ \<Rightarrow> dse | Inr d \<Rightarrow> d)
     in case DoubleSignEvidence_CheckBasic ev of
          Inl _ \<Rightarrow> (Inr dse', b)
        | Inr _ \<Rightarrow> bnd (setQC (the voteA) bareVote) (\<lambda>_. bnd (setQC voteB bareVote) (\<lambda>_. ret dse')) b)"

text \<open>One partial certificate. A certificate from the store is not shared.\<close>

definition addDSEByPartialQC ::
    "crypt \<Rightarrow> controller \<Rightarrow> nat \<Rightarrow> evidences \<Rightarrow> evidences bm" where
  "addDSEByPartialQC C K pQC dse = (\<lambda>b. case qcHeader (qcAt b pQC) of
       None \<Rightarrow> (Inl ErrPanic, b)
     | Some h \<Rightarrow>
         if vwHeight h = vwHeight (bView b)
         then (case bProposals b (vwRound h) of
             None \<Rightarrow> (Inr dse, b)
           | Some roundProposal \<Rightarrow> (case roundProposal (vwPhase h + 1) of
               None \<Rightarrow> (Inr dse, b)
             | Some [] \<Rightarrow> (Inl ErrPanic, b)
             | Some (m # _) \<Rightarrow> addSharedDSE C K (mQc m) pQC dse b))
         else if vwPhase h \<noteq> Phase_PRECOMMIT_VOTE then (Inr dse, b)
         else (case cnLoadCertificate K (vwHeight h) of
             Inl _ \<Rightarrow> (Inr dse, b)
           | Inr certificate \<Rightarrow>
               let ev = \<lparr>deVoteA = certificate, deVoteB = Some (qcAt b pQC)\<rparr>;
                   dse' = (case AddDSE C K (bView b) ev dse of Inl _ \<Rightarrow> dse | Inr d \<Rightarrow> d)
               in case DoubleSignEvidence_CheckBasic ev of
                    Inl _ \<Rightarrow> (Inr dse', b)
                  | Inr _ \<Rightarrow> bnd (setQC pQC bareVote) (\<lambda>_. ret dse') b))"

definition GetLocalDSE :: "crypt \<Rightarrow> controller \<Rightarrow> evidences bm" where
  "GetLocalDSE C K = bnd (gets (map snd \<circ> bPartialQCs)) (\<lambda>ps. fold_m (addDSEByPartialQC C K) ps (NewDSE []))"

section \<open>Votes\<close>

definition newMultiKey :: "validatorSet \<Rightarrow> multiKey" where
  "newMultiKey vs = (let n = length (vsValidators vs) in
     \<lparr>mkSignatures = replicate n [], mkBitmap = replicate ((n + 7) div 8) 0\<rparr>)"

definition setBit :: "bytes \<Rightarrow> nat \<Rightarrow> bytes" where
  "setBit bm i = bm[i div 8 := bm ! (i div 8) OR push_bit (i mod 8) 1]"

text \<open>\<open>AddSigner\<close>: an index past the keys is a panic.\<close>

definition AddSigner :: "bytes \<Rightarrow> nat \<Rightarrow> multiKey \<Rightarrow> error + multiKey" where
  "AddSigner sig i k =
     (if i \<ge> length (mkSignatures k) then Inl ErrPanic
      else Inr \<lparr>mkSignatures = (mkSignatures k)[i := sig], mkBitmap = setBit (mkBitmap k) i\<rparr>)"

definition AggregateSignatures :: "crypt \<Rightarrow> multiKey \<Rightarrow> error + bytes" where
  "AggregateSignatures C k = cyAggregate C (filter (\<lambda>s. length s \<noteq> 0) (mkSignatures k)) (mkBitmap k)"

text \<open>The vote sets of a round and phase, looked through in the order of the list.\<close>

fun majorityVote ::
    "crypt \<Rightarrow> u64 \<Rightarrow> (bytes \<times> voteSet) list \<Rightarrow> error + wire \<times> aggregateSignature" where
  "majorityVote C minimumMaj23 [] = Inl ErrNoMaj23"
| "majorityVote C minimumMaj23 ((_, voteSet) # vs) =
     (if vtTotalVotedPower voteSet \<ge> minimumMaj23
      then (case AggregateSignatures C (vtMultiKey voteSet) of
          Inl e \<Rightarrow> Inl (Error ''AggregateSignature'')
        | Inr sig \<Rightarrow> Inr (vtVote voteSet, \<lparr>asSignature = sig, asBitmap = mkBitmap (vtMultiKey voteSet)\<rparr>))
      else majorityVote C minimumMaj23 vs)"

definition GetMajorityVote :: "crypt \<Rightarrow> bft \<Rightarrow> error + wire \<times> aggregateSignature" where
  "GetMajorityVote C b = majorityVote C (vsMinimumMaj23 (bValidatorSet b))
     (bVotes b (vwRound (bView b)) (vwPhase (bView b) - 1))"

definition GetLeadingVote :: "bft \<Rightarrow> wire option \<times> u64 \<times> u64" where
  "GetLeadingVote b = foldl (\<lambda>(m, maxVotePercent, maxVotes) (_, voteSet).
       if vtTotalVotedPower voteSet \<ge> maxVotes
       then (Some (vtVote voteSet), Uint64PercentageDiv (vtTotalVotedPower voteSet) (vsTotalPower (bValidatorSet b)),
             vtTotalVotedPower voteSet)
       else (m, maxVotePercent, maxVotes))
     (None, 0, 0) (bVotes b (vwRound (bView b)) (vwPhase (bView b) - 1))"

text \<open>The round, phase and payload a vote is filed under; a vote has a certificate with a header.\<close>

definition voteKey :: "crypt \<Rightarrow> wire \<Rightarrow> u64 \<times> u64 \<times> bytes" where
  "voteKey C vote = (let h = the (qcHeader (the (mQc vote))) in
     (vwRound h, vwPhase h, cHash (cyCodec C) (Message_SignBytes C vote)))"

definition getVoteSet :: "crypt \<Rightarrow> wire \<Rightarrow> unit bm" where
  "getVoteSet C vote = modify (\<lambda>b. let (rnd, phase, payload) = voteKey C vote; l = bVotes b rnd phase in
     if map_of l payload \<noteq> None then b
     else b\<lparr>bVotes := (bVotes b)(rnd := (bVotes b rnd)(phase :=
       l @ [(payload, \<lparr>vtVote = vote, vtTotalVotedPower = 0, vtMultiKey = newMultiKey (bValidatorSet b)\<rparr>)]))\<rparr>)"

definition setVoteSet :: "crypt \<Rightarrow> wire \<Rightarrow> voteSet \<Rightarrow> unit bm" where
  "setVoteSet C vote vset = modify (\<lambda>b. let (rnd, phase, payload) = voteKey C vote in
     b\<lparr>bVotes := (bVotes b)(rnd := (bVotes b rnd)(phase := AList.update payload vset (bVotes b rnd phase)))\<rparr>)"

definition addSigToVoteSet :: "crypt \<Rightarrow> wire \<Rightarrow> unit bm" where
  "addSigToVoteSet C vote = (\<lambda>b.
     let (rnd, phase, payload) = voteKey C vote; sg = the (mSignature vote);
         voteSet = the (map_of (bVotes b rnd phase) payload)
     in case GetValidatorAndIdx (vsValidators (bValidatorSet b)) (sgPublicKey sg) of
          None \<Rightarrow> (Inl (Error ''ValidatorNotInSet''), b)
        | Some (val, idx) \<Rightarrow>
            let k = vtMultiKey voteSet in
            (case SignerEnabledAt (length (mkSignatures k)) (mkBitmap k) idx of
               Inl e \<Rightarrow> (Inl (if e = ErrPanic then ErrPanic else Error ''InvalidValidatorIndex''), b)
             | Inr True \<Rightarrow> (Inl (Error ''DuplicateVote''), b)
             | Inr False \<Rightarrow>
                 let counted = voteSet\<lparr>vtTotalVotedPower := vtTotalVotedPower voteSet + cvVotingPower val\<rparr> in
                 (case AddSigner (sgSignature sg) idx k of
                    Inl e \<Rightarrow> bnd (setVoteSet C vote counted) (\<lambda>_. err e) b
                  | Inr k' \<Rightarrow> setVoteSet C vote (counted\<lparr>vtMultiKey := k'\<rparr>) b)))"

text \<open>The lock a replica attached to its election vote: checked, then kept if it is higher than the own one.\<close>

definition handleHighQC :: "crypt \<Rightarrow> controller \<Rightarrow> wire \<Rightarrow> quorumCertificate \<Rightarrow> unit bm" where
  "handleHighQC C K vote highQc = bnd (gets id) (\<lambda>b.
     case View_Check \<lparr>vwHeight = 0, vwRootHeight = 0, vwRound = 0, vwPhase = Phase_PRECOMMIT_VOTE,
            vwNetworkId = vwNetworkId (bView b), vwChainId = vwChainId (bView b)\<rparr> False (qcHeader highQc) of
       Inl e \<Rightarrow> err e
     | Inr _ \<Rightarrow>
         let h = the (qcHeader highQc) in
         (case cnLoadCommittee K (cnLoadRootChainId K (vwHeight h)) (vwRootHeight h) of
            Inl e \<Rightarrow> err e
          | Inr vs \<Rightarrow> (case bCommitteeData b of
              None \<Rightarrow> err ErrPanic
            | Some cd \<Rightarrow> (case CheckHighQC (cyCodec C) (cyMaskOk C) (cyVerify C) (GlobalMaxBlockSize (cyCodec C))
                                (bView b) (cdLastRootHeightUpdated cd) vs (Some highQc) of
                Inl e \<Rightarrow> err e
              | Inr _ \<Rightarrow>
                  when_m (case bHighQC b of None \<Rightarrow> True | Some a \<Rightarrow> View_Less (qcHeader (qcAt b a)) (qcHeader highQc))
                    (bnd (newQC highQc) (\<lambda>a. modify (\<lambda>b. b\<lparr>bHighQC := Some a,
                       bBlock := qcBlock (the (mQc vote)), bResults := qcResults (the (mQc vote)),
                       bRCBuildHeight := mRcBuildHeight vote\<rparr>)))))))"

definition handleHighQCVDFAndEvidence :: "bftConfig \<Rightarrow> crypt \<Rightarrow> controller \<Rightarrow> wire \<Rightarrow> unit bm" where
  "handleHighQCVDFAndEvidence c C K vote =
     when_m (qcPhase (mQc vote) = Some Phase_ELECTION_VOTE)
       (seqm
         [(case mHighQc vote of None \<Rightarrow> ret () | Some q \<Rightarrow> handleHighQC C K vote q),
          when_m (cfRunVDF c \<and> (case mVdf vote of None \<Rightarrow> False | Some v \<Rightarrow> vdIterations v \<noteq> 0))
            (modify (\<lambda>b. b\<lparr>bVDFCache := bVDFCache b @ [vote]\<rparr>)),
          for_each (mLastDoubleSignEvidence vote) (\<lambda>ev. modify (\<lambda>b.
            case AddDSE C K (bView b) ev (bEvidence b) of
              Inl _ \<Rightarrow> b
            | Inr e \<Rightarrow> b\<lparr>bEvidence := e\<rparr>))])"

definition AddVote :: "bftConfig \<Rightarrow> crypt \<Rightarrow> controller \<Rightarrow> wire \<Rightarrow> unit bm" where
  "AddVote c C K vote = seqm
     [getVoteSet C vote, handleHighQCVDFAndEvidence c C K vote, addSigToVoteSet C vote]"

section \<open>Messages from other validators\<close>

definition checkSignatureBasic :: "signature option \<Rightarrow> error + unit" where
  "checkSignatureBasic x = (case x of
       None \<Rightarrow> Inl (Error ''PartialSignatureEmpty'')
     | Some s \<Rightarrow> checks
         [check (length (sgPublicKey s) = 0 \<or> length (sgSignature s) = 0) (Error ''PartialSignatureEmpty''),
          check (length (sgPublicKey s) \<noteq> BLS12381PubKeySize) (Error ''InvalidPublicKey''),
          check (length (sgSignature s) \<noteq> BLS12381SignatureSize) (Error ''InvalidSignatureLength'')])"

definition checkSignature :: "crypt \<Rightarrow> signature option \<Rightarrow> bytes \<Rightarrow> error + unit" where
  "checkSignature C x signBytes =
     (case checkSignatureBasic x of
        Inl e \<Rightarrow> Inl e
      | Inr _ \<Rightarrow> let s = the x in checks
          [check (\<not> cyPkOk C (sgPublicKey s)) ErrPubKeyFromBytes,
           check (\<not> cyVerifyBytes C (sgPublicKey s) signBytes (sgSignature s)) (Error ''InvalidPartialSignature'')])"

definition Message_checkBasic :: "crypt \<Rightarrow> view \<Rightarrow> wire \<Rightarrow> error + unit" where
  "Message_checkBasic C vw x = checks
     [View_Check vw False (mHeader x), checkSignature C (mSignature x) (Message_SignBytes C x)]"

record validateMessageParams =
  vmView :: view
  vmVals :: validatorSet
  vmRootHeight :: u64
  vmHeight :: u64
  vmCHeightUpdated :: u64
  vmBlockHash :: "bytes option"
  vmResultsHash :: "bytes option"

definition GetValidateMessageParams :: "crypt \<Rightarrow> wire \<Rightarrow> validateMessageParams bm" where
  "GetValidateMessageParams C msg = (case checkSignatureBasic (mSignature msg) of
       Inl e \<Rightarrow> err e
     | Inr _ \<Rightarrow>
         bnd (gets bValidatorSet) (\<lambda>vs. case ValidatorSet_GetValidator vs (sgPublicKey (the (mSignature msg))) of
           None \<Rightarrow> err (Error ''ValidatorNotInSet'')
         | Some _ \<Rightarrow>
             bnd (gets bBlock) (\<lambda>blk.
             bnd (case blk of None \<Rightarrow> ret None | Some _ \<Rightarrow> GetBlockHash C) (\<lambda>blockHash.
             bnd (gets id) (\<lambda>b. case bCommitteeData b of
               None \<Rightarrow> err ErrPanic
             | Some cd \<Rightarrow> ret \<lparr>vmView = bView b, vmVals = bValidatorSet b, vmRootHeight = vwRootHeight (bView b),
                 vmHeight = vwHeight (bView b), vmCHeightUpdated = cdLastChainHeightUpdated cd,
                 vmBlockHash = blockHash,
                 vmResultsHash = (case blk of None \<Rightarrow> None | Some _ \<Rightarrow> Some (resultsHash C (bResults b)))\<rparr>)))))"

text \<open>The checks after the certificate itself has been found valid for the node's root height.\<close>

definition checkJustified :: "validateMessageParams \<Rightarrow> wire \<Rightarrow> view \<Rightarrow> quorumCertificate \<Rightarrow> error + unit" where
  "checkJustified p x h qc = checks
     [check (vwHeight h \<noteq> vmHeight p) (Error ''WrongCertHeight''),
      check (vwHeight (the (qcHeader qc)) < vmCHeightUpdated p) (Error ''InvalidQCCommitteeHeight''),
      (if vwPhase h = Phase_PROPOSE
       then checks
         [check (optList (qcProposerKey qc) \<noteq> sgPublicKey (the (mSignature x))) (Error ''InvalidSigner''),
          check (qcBlock qc = None) (Error ''NilBlock''),
          check (qcResults qc = None) ErrNilCertResults]
       else checks
         [check (vmBlockHash p = None \<or> vmResultsHash p = None) (Error ''NoSavedBlockOrResults''),
          check (qcBlockHash qc \<noteq> optList (vmBlockHash p)) (Error ''MismatchConsBlockHash''),
          check (optList (qcResultsHash qc) \<noteq> optList (vmResultsHash p)) (Error ''MismatchResultsHash'')])]"

text \<open>The result says whether the certificate is partial.\<close>

definition CheckProposerMessage ::
    "crypt \<Rightarrow> controller \<Rightarrow> validateMessageParams \<Rightarrow> wire \<Rightarrow> error + bool" where
  "CheckProposerMessage C K p x =
     (case Message_checkBasic C (vmView p) x of
        Inl e \<Rightarrow> Inl e
      | Inr _ \<Rightarrow>
          let h = the (mHeader x) in
          if vwPhase h = Phase_ELECTION
          then (case checks
              [check (vwHeight h \<noteq> vmHeight p) (Error ''WrongCertHeight''),
               checkSignatureBasic (mVrf x),
               check (sgPublicKey (the (mSignature x)) \<noteq> sgPublicKey (the (mVrf x))) (Error ''MismatchPublicKeys'')] of
              Inl e \<Rightarrow> Inl e | Inr _ \<Rightarrow> Inr False)
          else (case QuorumCertificate_CheckBasic (cyCodec C) (mQc x) of
              Inl e \<Rightarrow> Inl e
            | Inr _ \<Rightarrow>
                let qc = the (mQc x); qh = the (qcHeader qc); sameRoot = (vwRootHeight qh = vmRootHeight p) in
                (case (if sameRoot then Inr (vmVals p)
                       else cnLoadCommittee K (cnLoadRootChainId K (vwHeight qh)) (vwRootHeight qh)) of
                   Inl e \<Rightarrow> Inl e
                 | Inr vals \<Rightarrow>
                     (case QuorumCertificate_Check (cyCodec C) (cyMaskOk C) (cyVerify C) vals
                             (cnLoadMaxBlockSize K) (vmView p) False (Some qc) of
                        Inl e \<Rightarrow> Inl e
                      | Inr isPartialQC \<Rightarrow>
                          if \<not> sameRoot then if isPartialQC then Inr True else Inl (Error ''WrongRootHeight'')
                          else if isPartialQC then Inr True
                          else (case checkJustified p x h qc of Inl e \<Rightarrow> Inl e | Inr _ \<Rightarrow> Inr False)))))"

definition CheckReplicaMessage :: "crypt \<Rightarrow> validateMessageParams \<Rightarrow> wire \<Rightarrow> error + unit" where
  "CheckReplicaMessage C p x = (case mQc x of
       None \<Rightarrow> Inl ErrEmptyQuorumCertificate
     | Some qc \<Rightarrow> checks
         [checkSignature C (mSignature x) (Message_SignBytes C x),
          View_Check (vmView p) True (qcHeader qc),
          (if IsPacemakerMessage x then Inr ()
           else if qcPhase (Some qc) = Some Phase_ELECTION_VOTE
           then check (optLen (qcProposerKey qc) \<noteq> BLS12381PubKeySize) (Error ''InvalidSigner'')
           else checks
             [(case vmBlockHash p of
                 None \<Rightarrow> check (qcBlockHash qc \<noteq> optList (BlockToHash C (qcBlock qc))) (Error ''MismatchQCBlockHash'')
               | Some h \<Rightarrow> check (qcBlockHash qc \<noteq> h) (Error ''MismatchConsBlockHash'')),
              check (optList (qcResultsHash qc) \<noteq> optList (vmResultsHash p)) (Error ''MismatchResultsHash'')])])"

definition AddPacemakerMessage :: "wire \<Rightarrow> unit bm" where
  "AddPacemakerMessage msg = modify (\<lambda>b.
     b\<lparr>bPacemakerMessages := tset (sgPublicKey (the (mSignature msg))) msg (bPacemakerMessages b)\<rparr>)"

text \<open>
  What follows the collection of the parameters. The lock of the controller is free between the two, so phases and
  resets of the engine may come in between.
\<close>

definition handleChecked ::
    "bftConfig \<Rightarrow> crypt \<Rightarrow> controller \<Rightarrow> validateMessageParams \<Rightarrow> wire \<Rightarrow> unit bm" where
  "handleChecked c C K p msg =
     (if IsReplicaMessage msg \<or> IsPacemakerMessage msg
      then (case CheckReplicaMessage C p msg of
          Inl e \<Rightarrow> err e
        | Inr _ \<Rightarrow> if IsPacemakerMessage msg then AddPacemakerMessage msg else AddVote c C K msg)
      else if IsProposerMessage msg
      then (case CheckProposerMessage C K p msg of
          Inl e \<Rightarrow> err e
        | Inr partialQC \<Rightarrow> if partialQC then AddPartialQC C msg else AddProposal msg)
      else err (Error ''UnknownConsensusMsg''))"

definition HandleMessage_bft :: "bftConfig \<Rightarrow> crypt \<Rightarrow> controller \<Rightarrow> wire \<Rightarrow> unit bm" where
  "HandleMessage_bft c C K msg =
     bnd (GetValidateMessageParams C msg) (\<lambda>p. handleChecked c C K p msg)"

end
