(* ===== verification/Phases.thy ===== *)
theory Phases
  imports Bft
begin

text \<open>
  The phases, rounds and timers of the consensus engine (\<open>bft/bft.go\<close>). A phase handler runs when the
  timer of the phase before it fires; it may send messages, and after it the timer for the next phase is set.
  A failed phase is a round interrupt, after which the pacemaker opens the next round. Committed blocks and updates
  of the root chain reset the engine.
\<close>

section \<open>Timers\<close>

text \<open>Durations are 64-bit signed numbers of nanoseconds. \<open>time.Millisecond\<close>; \<open>Duration.Milliseconds()\<close> truncates.\<close>

definition Millisecond :: u64 where "Millisecond = 1000000"

definition Milliseconds :: "u64 \<Rightarrow> u64" where
  "Milliseconds d = of_int (sgn (sint d) * (\<bar>sint d\<bar> div 1000000))"

definition waitTime :: "u64 \<Rightarrow> u64 \<Rightarrow> u64" where
  "waitTime sleepTimeMS rnd = sleepTimeMS * (2 * rnd + 1) * Millisecond"

definition WaitTime :: "bftConfig \<Rightarrow> bft \<Rightarrow> u64 \<Rightarrow> u64 \<Rightarrow> u64" where
  "WaitTime c b phase rnd =
     (if phase = Phase_ELECTION then waitTime (cfElectionTimeoutMS c) rnd
      else if phase = Phase_ELECTION_VOTE then waitTime (cfElectionVoteTimeoutMS c) rnd
      else if phase = Phase_PROPOSE then waitTime (cfProposeTimeoutMS c) rnd
      else if phase = Phase_PROPOSE_VOTE then waitTime (cfProposeVoteTimeoutMS c) rnd
      else if phase = Phase_PRECOMMIT then waitTime (cfPrecommitTimeoutMS c) rnd
      else if phase = Phase_PRECOMMIT_VOTE then waitTime (cfPrecommitVoteTimeoutMS c) rnd
      else if phase = Phase_COMMIT then waitTime (cfCommitTimeoutMS c) rnd
      else if phase = Phase_COMMIT_PROCESS then waitTime 60000 rnd
      else if phase = Phase_ROUND_INTERRUPT then bRoundInterruptTimeoutMS b * Millisecond
      else 0)"

definition msLeftInRound :: "bftConfig \<Rightarrow> bft \<Rightarrow> u64" where
  "msLeftInRound c b =
     (let rnd = vwRound (bView b); phase = vwPhase (bView b);
          electionMs = Milliseconds (WaitTime c b Phase_ELECTION rnd);
          electionVoteMs = Milliseconds (WaitTime c b Phase_ELECTION_VOTE rnd);
          proposeMs = Milliseconds (WaitTime c b Phase_PROPOSE rnd);
          proposeVoteMs = Milliseconds (WaitTime c b Phase_PROPOSE_VOTE rnd);
          precommitMs = Milliseconds (WaitTime c b Phase_PRECOMMIT rnd);
          precommitVoteMs = Milliseconds (WaitTime c b Phase_PRECOMMIT_VOTE rnd);
          commitMs = Milliseconds (WaitTime c b Phase_COMMIT rnd)
      in if phase = Phase_ELECTION then
           electionMs + electionVoteMs + proposeMs + proposeVoteMs + precommitMs + precommitVoteMs + commitMs
         else if phase = Phase_ELECTION_VOTE then
           electionVoteMs + proposeMs + proposeVoteMs + precommitMs + precommitVoteMs + commitMs
         else if phase = Phase_PROPOSE then proposeMs + proposeVoteMs + precommitMs + precommitVoteMs + commitMs
         else if phase = Phase_PROPOSE_VOTE then proposeVoteMs + precommitMs + precommitVoteMs + commitMs
         else if phase = Phase_PRECOMMIT then precommitMs + precommitVoteMs + commitMs
         else if phase = Phase_PRECOMMIT_VOTE then precommitVoteMs + commitMs
         else if phase = Phase_COMMIT then commitMs
         else 0)"

text \<open>The time spent processing is taken off the wait, unless it is more than a day.\<close>

definition subtractTime :: "u64 \<Rightarrow> u64 \<Rightarrow> u64" where
  "subtractTime wt pt =
     (if sint pt > 24 * 60 * 60 * 1000000000 then wt
      else if sint wt \<le> sint pt then 0
      else wt - pt)"

definition SetWaitTimers :: "u64 \<Rightarrow> u64 \<Rightarrow> unit bm" where
  "SetWaitTimers phaseWaitTime processTime =
     modify (\<lambda>b. b\<lparr>bTimer := Some (subtractTime phaseWaitTime processTime)\<rparr>)"

definition setPhase :: "u64 \<Rightarrow> unit bm" where
  "setPhase p = modify (\<lambda>b. b\<lparr>bView := (bView b)\<lparr>vwPhase := p\<rparr>\<rparr>)"

definition SetTimerForNextPhase :: "bftConfig \<Rightarrow> u64 \<Rightarrow> unit bm" where
  "SetTimerForNextPhase c processTime = bnd (gets id) (\<lambda>b.
     let phase = vwPhase (bView b); wait = WaitTime c b phase (vwRound (bView b)) in
     if phase = Phase_COMMIT_PROCESS then ret ()
     else bnd (setPhase (if phase = Phase_PACEMAKER then Phase_ELECTION else phase + 1)) (\<lambda>_.
       SetWaitTimers wait processTime))"

section \<open>Rounds and heights\<close>

definition RefreshRootChainInfo :: "controller \<Rightarrow> unit bm" where
  "RefreshRootChainInfo K = modify (\<lambda>b. b\<lparr>
     bView := (bView b)\<lparr>vwHeight := cnChainHeight K, vwRootHeight := cnRootChainHeight K\<rparr>,
     bValidatorSet := (case cnLoadCommittee K (cnLoadRootChainId K (cnChainHeight K)) (cnRootChainHeight K) of
         Inl _ \<Rightarrow> emptyValidatorSet | Inr vs \<Rightarrow> vs),
     bCommitteeData := (case cnLoadCommitteeData K of Inl _ \<Rightarrow> None | Inr cd \<Rightarrow> Some cd)\<rparr>)"

definition NewRound :: "controller \<Rightarrow> bool \<Rightarrow> unit bm" where
  "NewRound K newHeight = seqm
     [modify (\<lambda>b. if newHeight then b\<lparr>bView := (bView b)\<lparr>vwRound := 0\<rparr>\<rparr>
        else b\<lparr>bView := (bView b)\<lparr>vwRound := vwRound (bView b) + 1\<rparr>, bEvidence := NewDSE []\<rparr>),
      RefreshRootChainInfo K,
      modify (\<lambda>b. b\<lparr>bProposerKey := None, bBlock := None, bBlockHash := None, bResults := None,
        bSortitionData := None, bVDFCache := []\<rparr>)]"

definition NewHeight :: "controller \<Rightarrow> bool \<Rightarrow> unit bm" where
  "NewHeight K keepLocks = seqm
     [modify (\<lambda>b. b\<lparr>bVotes := (\<lambda>_ _. [])\<rparr>),
      ProposalsResetForNewCommittee,
      modify (\<lambda>b. b\<lparr>bPacemakerMessages := []\<rparr>),
      NewRound K True,
      setPhase Phase_ELECTION,
      when_m (\<not> keepLocks) (modify (\<lambda>b. b\<lparr>bProposals := (\<lambda>_. None), bPartialQCs := [], bHighQC := None,
        bRCBuildHeight := 0\<rparr>))]"

definition SelfIsValidator :: "bftConfig \<Rightarrow> controller \<Rightarrow> bool bm" where
  "SelfIsValidator c K = bnd (gets (\<lambda>b. ValidatorSet_GetValidator (bValidatorSet b) (cfPublicKey c))) (\<lambda>v. case v of
       Some _ \<Rightarrow> ret True
     | None \<Rightarrow> bnd (RefreshRootChainInfo K) (\<lambda>_.
         gets (\<lambda>b. ValidatorSet_GetValidator (bValidatorSet b) (cfPublicKey c) \<noteq> None)))"

definition RoundInterrupt :: "bftConfig \<Rightarrow> unit bm" where
  "RoundInterrupt c = seqm
     [modify (\<lambda>b. b\<lparr>bRoundInterruptTimeoutMS := msLeftInRound c b\<rparr>),
      setPhase Phase_ROUND_INTERRUPT,
      modify (\<lambda>b. b\<lparr>bBlockResult := None, bVDFCache := []\<rparr>),
      send ResetState,
      bnd (gets bView) (\<lambda>vw. send (ToReplicas (emptyMessage\<lparr>mQc := Some (emptyQC\<lparr>qcHeader := Some vw\<rparr>)\<rparr>)))]"

text \<open>The votes from the highest round down; the result is the round at which a third of the power is reached.\<close>

definition voteRound :: "wire \<Rightarrow> u64" where
  "voteRound m = (case mQc m of None \<Rightarrow> 0 | Some q \<Rightarrow> (case qcHeader q of None \<Rightarrow> 0 | Some h \<Rightarrow> vwRound h))"

fun pacemakerRound :: "validatorSet \<Rightarrow> u64 \<Rightarrow> wire list \<Rightarrow> u64" where
  "pacemakerRound vs totalVotedPower [] = 0"
| "pacemakerRound vs totalVotedPower (vote # votes) =
     (case ValidatorSet_GetValidator vs (sgPublicKey (the (mSignature vote))) of
        None \<Rightarrow> pacemakerRound vs totalVotedPower votes
      | Some v \<Rightarrow>
          let tot = totalVotedPower + cvVotingPower v in
          if tot \<ge> Uint64ReducePercentage (vsMinimumMaj23 vs) 50 then voteRound vote
          else pacemakerRound vs tot votes)"

definition Pacemaker :: "controller \<Rightarrow> unit bm" where
  "Pacemaker K = bnd (NewRound K False) (\<lambda>_. modify (\<lambda>b.
     let sortedVotes = rev (sort_key voteRound (map snd (bPacemakerMessages b)));
         r = pacemakerRound (bValidatorSet b) 0 sortedVotes
     in if r > vwRound (bView b) then b\<lparr>bView := (bView b)\<lparr>vwRound := r\<rparr>\<rparr> else b))"

section \<open>The delay function\<close>

definition VDFSeed :: "controller \<Rightarrow> view \<Rightarrow> error + bytes" where
  "VDFSeed K vw = (case cnLoadCertificate K (vwHeight vw - 1) of
       Inl e \<Rightarrow> Inl e
     | Inr None \<Rightarrow> Inl ErrEmptyQuorumCertificate
     | Inr (Some q) \<Rightarrow> Inr (qcBlockHash q))"

definition RunVDF :: "bftConfig \<Rightarrow> controller \<Rightarrow> bytes option \<Rightarrow> unit bm" where
  "RunVDF c K seed =
     (if \<not> cfRunVDF c then ret ()
      else case seed of
        Some s \<Rightarrow> send (StartVDF s)
      | None \<Rightarrow> bnd (gets bView) (\<lambda>vw. case VDFSeed K vw of Inl e \<Rightarrow> err e | Inr s \<Rightarrow> send (StartVDF s)))"

definition VerifyVDF :: "crypt \<Rightarrow> controller \<Rightarrow> view \<Rightarrow> wire \<Rightarrow> error + bool" where
  "VerifyVDF C K vw vote = (case VDFSeed K vw of
       Inl e \<Rightarrow> Inl e
     | Inr seed \<Rightarrow> Inr (cyVerifyVDF C seed (the (mVdf vote))))"

text \<open>The first valid one, from the most iterations down.\<close>

definition selectHighestVDF :: "crypt \<Rightarrow> controller \<Rightarrow> vdf option bm" where
  "selectHighestVDF C K = bnd (gets id) (\<lambda>b.
     let sorted = rev (sort_key (\<lambda>m. vdIterations (the (mVdf m))) (bVDFCache b)) in
     bnd (modify (\<lambda>b. b\<lparr>bVDFCache := []\<rparr>)) (\<lambda>_.
     ret (case find (\<lambda>vote. VerifyVDF C K (bView b) vote = Inr True) sorted of
            None \<Rightarrow> None | Some vote \<Rightarrow> mVdf vote)))"

section \<open>The phases\<close>

text \<open>The lock as a value.\<close>

definition highQC :: "bft \<Rightarrow> quorumCertificate option" where
  "highQC b = map_option (qcAt b) (bHighQC b)"

definition StartElectionPhase :: "bftConfig \<Rightarrow> crypt \<Rightarrow> controller \<Rightarrow> unit bm" where
  "StartElectionPhase c C K = bnd (gets id) (\<lambda>b.
     case ValidatorSet_GetValidator (bValidatorSet b) (cfPublicKey c) of
       None \<Rightarrow> ret ()
     | Some selfValidator \<Rightarrow> (case cnLoadLastProposers K (vwRootHeight (bView b)) of
         Inl _ \<Rightarrow> ret ()
       | Inr addresses \<Rightarrow>
           let sd = \<lparr>sdLastProposerAddresses = addresses, sdRootHeight = vwRootHeight (bView b),
                 sdHeight = vwHeight (bView b), sdRound = vwRound (bView b),
                 sdTotalValidators = vsNumValidators (bValidatorSet b), sdTotalPower = vsTotalPower (bValidatorSet b),
                 sdVotingPower = cvVotingPower selfValidator\<rparr>;
               (_, vrf, isCandidate) = Sortition (cHash (cyCodec C)) (cySign C) (cfPublicKey c) sd
           in bnd (modify (\<lambda>b. b\<lparr>bSortitionData := Some sd\<rparr>)) (\<lambda>_.
              when_m isCandidate
                (send (ToReplicas (emptyMessage\<lparr>mHeader := Some (bView b), mVrf := Some vrf\<rparr>))))))"

definition StartElectionVotePhase :: "crypt \<Rightarrow> controller \<Rightarrow> unit bm" where
  "StartElectionVotePhase C K = bnd (GetElectionCandidates C) (\<lambda>candidates.
     bnd (gets id) (\<lambda>b.
     case SelectProposerFromCandidates (cHash (cyCodec C)) candidates (bSortitionData b)
            (vsValidators (bValidatorSet b)) of
       None \<Rightarrow> err ErrPanic
     | Some pk \<Rightarrow> seqm
         [modify (\<lambda>b. b\<lparr>bProposerKey := Some pk, bHighVDF := cnFinish K\<rparr>),
          bnd (gets id) (\<lambda>b. send (ToProposer (Some pk) (emptyMessage\<lparr>
            mQc := Some (emptyQC\<lparr>qcHeader := Some (bView b), qcProposerKey := Some pk\<rparr>),
            mHighQc := highQC b, mLastDoubleSignEvidence := evEvidence (bEvidence b),
            mVdf := bHighVDF b, mRcBuildHeight := bRCBuildHeight b\<rparr>))),
          modify (\<lambda>b. b\<lparr>bProposerKey := None\<rparr>)]))"

text \<open>A new proposal, or the one the node is locked on; the flag says whether to go on.\<close>

definition chooseProposal :: "controller \<Rightarrow> bool bm" where
  "chooseProposal K = bnd (gets id) (\<lambda>b. case highQC b of
       None \<Rightarrow>
         let ((rcBuildHeight, blk, results), e) = cnProduceProposal K (bEvidence b) (bHighVDF b) in
         bnd (modify (\<lambda>b. b\<lparr>bRCBuildHeight := rcBuildHeight, bBlock := blk, bResults := results\<rparr>)) (\<lambda>_.
         ret (e = None))
     | Some q \<Rightarrow>
         bnd (modify (\<lambda>b. b\<lparr>bBlock := qcBlock q, bResults := qcResults q\<rparr>)) (\<lambda>_. ret True))"

definition StartProposePhase :: "bftConfig \<Rightarrow> crypt \<Rightarrow> controller \<Rightarrow> unit bm" where
  "StartProposePhase c C K = bnd (gets (GetMajorityVote C)) (\<lambda>mv. case mv of
       Inl _ \<Rightarrow> ret ()
     | Inr (vote, sig) \<Rightarrow>
         bnd (selectHighestVDF C K) (\<lambda>highVDF.
         bnd (modify (\<lambda>b. b\<lparr>bHighVDF := highVDF\<rparr>)) (\<lambda>_.
         bnd (chooseProposal K) (\<lambda>goOn.
         when_m goOn
           (bnd (GetBlockHash C) (\<lambda>h.
            bnd (gets id) (\<lambda>b. send (ToReplicas (emptyMessage\<lparr>mHeader := Some (bView b),
              mQc := Some \<lparr>qcHeader = qcHeader (the (mQc vote)), qcResults = bResults b,
                qcResultsHash = Some (resultsHash C (bResults b)), qcBlock = bBlock b, qcBlockHash = optList h,
                qcProposerKey = qcProposerKey (the (mQc vote)), qcSignature = Some sig\<rparr>,
              mHighQc := highQC b, mLastDoubleSignEvidence := evEvidence (bEvidence b),
              mRcBuildHeight := bRCBuildHeight b\<rparr>)))))))))"

text \<open>The hotstuff safe node predicate; \<open>lock\<close> is the certificate the replica is locked on.\<close>

definition SafeNode :: "crypt \<Rightarrow> quorumCertificate \<Rightarrow> wire \<Rightarrow> error + unit" where
  "SafeNode C lock msg = (case (mQc msg, mHighQc msg) of
       (Some qc, Some high) \<Rightarrow>
         if optList (BlockToHash C (qcBlock qc)) \<noteq> qcBlockHash high \<and>
            resultsHash C (qcResults qc) \<noteq> optList (qcResultsHash high)
         then Inl (Error ''MismatchedProposals'')
         else if qcBlockHash lock = qcBlockHash high \<and> optList (qcResultsHash lock) = optList (qcResultsHash high)
         then Inr ()
         else (case (qcHeader high, qcHeader lock) of
             (Some hh, Some lh) \<Rightarrow>
               if vwRound hh > vwRound lh then Inr () else Inl (Error ''FailedSafeNodePredicate'')
           | _ \<Rightarrow> Inl ErrPanic)
     | _ \<Rightarrow> Inl (Error ''NoSafeNodeJustification''))"

text \<open>The vote of a replica: signed and sent to the leader.\<close>

definition sendVote :: "crypt \<Rightarrow> unit bm" where
  "sendVote C = bnd (GetBlockHash C) (\<lambda>h. bnd (gets id) (\<lambda>b.
     send (ToProposer (bProposerKey b) (emptyMessage\<lparr>mQc := Some (emptyQC\<lparr>qcHeader := Some (bView b),
       qcBlockHash := optList h, qcResultsHash := Some (resultsHash C (bResults b)),
       qcProposerKey := bProposerKey b\<rparr>)\<rparr>))))"

definition StartProposeVotePhase :: "bftConfig \<Rightarrow> crypt \<Rightarrow> controller \<Rightarrow> unit bm" where
  "StartProposeVotePhase c C K = bnd GetProposal (\<lambda>m. case m of
       None \<Rightarrow> RoundInterrupt c
     | Some stored \<Rightarrow> bnd (gets (\<lambda>b. loadMessage b stored)) (\<lambda>msg.
         case (mSignature msg, mQc msg) of
           (Some sg, Some qc) \<Rightarrow>
             bnd (modify (\<lambda>b. b\<lparr>bProposerKey := Some (sgPublicKey sg)\<rparr>)) (\<lambda>_.
             bnd (gets id) (\<lambda>b.
             case (case highQC b of None \<Rightarrow> Inr () | Some lock \<Rightarrow> SafeNode C lock msg) of
               Inl e \<Rightarrow> if e = ErrPanic then err ErrPanic else RoundInterrupt c
             | Inr _ \<Rightarrow> (case bCommitteeData b of
                 None \<Rightarrow> err ErrPanic
               | Some cd \<Rightarrow>
                   if mRcBuildHeight msg < cdLastRootHeightUpdated cd then RoundInterrupt c
                   else let byzantineEvidence = NewDSE (mLastDoubleSignEvidence msg);
                            (blockResult, e) = cnValidateProposal K (mRcBuildHeight msg) qc byzantineEvidence
                     in bnd (modify (\<lambda>b. b\<lparr>bBlockResult := blockResult\<rparr>)) (\<lambda>_.
                       if e \<noteq> None then RoundInterrupt c
                       else seqm
                         [modify (\<lambda>b. b\<lparr>bBlock := qcBlock qc, bResults := qcResults qc,
                            bEvidence := byzantineEvidence\<rparr>),
                          bnd (GetBlockHash C) (\<lambda>h. ignore_err (RunVDF c K h)),
                          sendVote C]))))
         | _ \<Rightarrow> err ErrPanic))"

definition StartPrecommitPhase :: "bftConfig \<Rightarrow> crypt \<Rightarrow> unit bm" where
  "StartPrecommitPhase c C = bnd (gets id) (\<lambda>b.
     if \<not> SelfIsProposer c b then ret ()
     else case GetMajorityVote C b of
       Inl _ \<Rightarrow> RoundInterrupt c
     | Inr (vote, sig) \<Rightarrow> bnd (GetBlockHash C) (\<lambda>h.
         send (ToReplicas (emptyMessage\<lparr>mHeader := Some (bView b),
           mQc := Some (emptyQC\<lparr>qcHeader := qcHeader (the (mQc vote)), qcBlockHash := optList h,
             qcResultsHash := Some (resultsHash C (bResults b)), qcProposerKey := bProposerKey b,
             qcSignature := Some sig\<rparr>),
           mRcBuildHeight := bRCBuildHeight b\<rparr>))))"

text \<open>The message has to come from the expected leader and to be about the proposal of this round.\<close>

definition CheckProposerAndProposal :: "crypt \<Rightarrow> wire \<Rightarrow> bool bm" where
  "CheckProposerAndProposal C msg = (case (mSignature msg, mQc msg) of
       (Some sg, Some qc) \<Rightarrow> bnd (gets id) (\<lambda>b.
         if \<not> IsProposer (sgPublicKey sg) b then ret True
         else bnd (GetBlockHash C) (\<lambda>h.
           ret (optList h \<noteq> qcBlockHash qc \<or> resultsHash C (bResults b) \<noteq> optList (qcResultsHash qc))))
     | _ \<Rightarrow> err ErrPanic)"

text \<open>The certificate of the stored message becomes the lock: its address is shared.\<close>

definition StartPrecommitVotePhase :: "bftConfig \<Rightarrow> crypt \<Rightarrow> unit bm" where
  "StartPrecommitVotePhase c C = bnd GetProposal (\<lambda>m. case m of
       None \<Rightarrow> RoundInterrupt c
     | Some stored \<Rightarrow> bnd (gets (\<lambda>b. loadMessage b stored)) (\<lambda>msg.
         bnd (CheckProposerAndProposal C msg) (\<lambda>interrupt.
         if interrupt then RoundInterrupt c
         else case mQc stored of
           None \<Rightarrow> err ErrPanic
         | Some a \<Rightarrow> bnd (gets id) (\<lambda>b. seqm
             [modify (\<lambda>b. b\<lparr>bHighQC := Some a, bRCBuildHeight := mRcBuildHeight msg\<rparr>),
              setQC a (\<lambda>q. q\<lparr>qcBlock := bBlock b, qcResults := bResults b\<rparr>),
              sendVote C]))))"

definition StartCommitPhase :: "bftConfig \<Rightarrow> crypt \<Rightarrow> controller \<Rightarrow> unit bm" where
  "StartCommitPhase c C K = bnd (gets id) (\<lambda>b.
     if \<not> SelfIsProposer c b then ret ()
     else case GetMajorityVote C b of
       Inl _ \<Rightarrow> RoundInterrupt c
     | Inr (vote, sig) \<Rightarrow> bnd (GetBlockHash C) (\<lambda>h.
         send (ToReplicas (emptyMessage\<lparr>mHeader := Some (bView b),
           mQc := Some (emptyQC\<lparr>qcHeader := qcHeader (the (mQc vote)), qcBlockHash := optList h,
             qcResultsHash := Some (resultsHash C (bResults b)), qcProposerKey := bProposerKey b,
             qcSignature := Some sig\<rparr>),
           mTimestamp := cnCommitTime K\<rparr>))))"

text \<open>The block is sent to the node itself and gossiped; both read the shared certificate.\<close>

definition StartCommitProcessPhase :: "bftConfig \<Rightarrow> crypt \<Rightarrow> controller \<Rightarrow> unit bm" where
  "StartCommitProcessPhase c C K = bnd GetProposal (\<lambda>m. case m of
       None \<Rightarrow> RoundInterrupt c
     | Some stored \<Rightarrow> bnd (gets (\<lambda>b. loadMessage b stored)) (\<lambda>msg.
         bnd (CheckProposerAndProposal C msg) (\<lambda>interrupt.
         if interrupt then RoundInterrupt c
         else case mQc stored of
           None \<Rightarrow> err ErrPanic
         | Some a \<Rightarrow> bnd (gets id) (\<lambda>b. seqm
             [setQC a (\<lambda>q. q\<lparr>qcBlock := bBlock b, qcResults := bResults b\<rparr>),
              bnd (GetLocalDSE C K) (\<lambda>dse. modify (\<lambda>b. b\<lparr>bEvidence := dse\<rparr>)),
              bnd (gets (\<lambda>b. qcAt b a)) (\<lambda>q. send (SelfBlock q (mTimestamp msg))),
              bnd (gets (\<lambda>b. qcAt b a)) (\<lambda>q. send (Gossip q (mTimestamp msg)))]))))"

definition PhaseHas23Maj :: "crypt \<Rightarrow> bool bm" where
  "PhaseHas23Maj C = bnd (gets id) (\<lambda>b. let phase = vwPhase (bView b) in
     if phase = Phase_ELECTION_VOTE \<or> phase = Phase_PROPOSE_VOTE \<or> phase = Phase_PRECOMMIT_VOTE
        \<or> phase = Phase_COMMIT_PROCESS
     then bnd GetProposal (\<lambda>m. ret (m \<noteq> None))
     else if phase = Phase_PROPOSE \<or> phase = Phase_PRECOMMIT \<or> phase = Phase_COMMIT
     then ret (case GetMajorityVote C b of Inl _ \<Rightarrow> False | Inr _ \<Rightarrow> True)
     else ret False)"

section \<open>The loop\<close>

definition runPhase :: "bftConfig \<Rightarrow> crypt \<Rightarrow> controller \<Rightarrow> u64 \<Rightarrow> unit bm" where
  "runPhase c C K phase =
     (if phase = Phase_ELECTION then StartElectionPhase c C K
      else if phase = Phase_ELECTION_VOTE then StartElectionVotePhase C K
      else if phase = Phase_PROPOSE then StartProposePhase c C K
      else if phase = Phase_PROPOSE_VOTE then StartProposeVotePhase c C K
      else if phase = Phase_PRECOMMIT then StartPrecommitPhase c C
      else if phase = Phase_PRECOMMIT_VOTE then StartPrecommitVotePhase c C
      else if phase = Phase_COMMIT then StartCommitPhase c C K
      else if phase = Phase_COMMIT_PROCESS then StartCommitProcessPhase c C K
      else if phase = Phase_PACEMAKER then Pacemaker K
      else ret ())"

definition HandlePhase :: "bftConfig \<Rightarrow> crypt \<Rightarrow> controller \<Rightarrow> unit bm" where
  "HandlePhase c C K =
     (if cnSyncing K then modify (\<lambda>b. b\<lparr>bTimer := None\<rparr>)
      else bnd (SelfIsValidator c K) (\<lambda>isValidator.
        if \<not> isValidator then modify (\<lambda>b. b\<lparr>bTimer := None\<rparr>)
        else bnd (gets (vwPhase \<circ> bView)) (\<lambda>phase.
          bnd (runPhase c C K phase) (\<lambda>_. SetTimerForNextPhase c (cnProcessTime K)))))"

definition BlockTimeMS :: "bftConfig \<Rightarrow> u64" where
  "BlockTimeMS c = cfNewHeightTimeoutMs c + cfElectionTimeoutMS c + cfElectionVoteTimeoutMS c +
     cfProposeTimeoutMS c + cfProposeVoteTimeoutMS c + cfPrecommitTimeoutMS c + cfPrecommitVoteTimeoutMS c +
     cfCommitTimeoutMS c"

text \<open>A reset; \<open>since\<close> is the time since the start that comes with it.\<close>

definition HandleReset :: "bftConfig \<Rightarrow> controller \<Rightarrow> bool \<Rightarrow> u64 \<Rightarrow> unit bm" where
  "HandleReset c K isRootChainUpdate since =
     (let processTime = (if sint (Milliseconds since) < sint (BlockTimeMS c) then since else 0) in
      bnd (NewHeight K isRootChainUpdate) (\<lambda>_.
        SetWaitTimers (cfNewHeightTimeoutMs c * Millisecond) processTime))"

text \<open>What happens before the loop.\<close>

definition Start :: "controller \<Rightarrow> unit bm" where
  "Start K = modify (\<lambda>b. b\<lparr>
     bValidatorSet := (case cnLoadCommittee K (cnLoadRootChainId K (cnChainHeight K)) (cnRootChainHeight K) of
         Inl _ \<Rightarrow> emptyValidatorSet | Inr vs \<Rightarrow> vs),
     bCommitteeData := (case cnLoadCommitteeData K of Inl _ \<Rightarrow> None | Inr cd \<Rightarrow> Some cd)\<rparr>)"

text \<open>
  The steps of the engine: a phase when the timer fires, a reset, and the two halves of the handling of a message;
  messages are taken from the inbox one at a time. The controller record may be another one at every step.
  \<open>engine\<close> is the state with the message in work. A panic ends the process: no step follows it.
\<close>

type_synonym engine = "bft \<times> (wire \<times> validateMessageParams) option"

datatype bftEvent =
    PhaseTimeout
  | Reset bool u64
  | Receive wire
  | Process

inductive bft_step :: "bftConfig \<Rightarrow> crypt \<Rightarrow> controller \<Rightarrow> bftEvent \<Rightarrow> engine \<Rightarrow> engine \<Rightarrow> bool"
  for c C K where
  phase_timeout: "bTimer b \<noteq> None \<Longrightarrow> HandlePhase c C K (b\<lparr>bTimer := None\<rparr>) = (Inr (), b') \<Longrightarrow>
     bft_step c C K PhaseTimeout (b, w) (b', w)"
| reset: "HandleReset c K isRoot since b = (Inr (), b') \<Longrightarrow> bft_step c C K (Reset isRoot since) (b, w) (b', w)"
| receive: "GetValidateMessageParams C m b = (Inr p, b') \<Longrightarrow>
     bft_step c C K (Receive m) (b, None) (b', Some (m, p))"
| receive_bad: "GetValidateMessageParams C m b = (Inl e, b') \<Longrightarrow> e \<noteq> ErrPanic \<Longrightarrow>
     bft_step c C K (Receive m) (b, None) (b', None)"
| process: "handleChecked c C K p m b = (r, b') \<Longrightarrow> r \<noteq> Inl ErrPanic \<Longrightarrow>
     bft_step c C K Process (b, Some (m, p)) (b', None)"

text \<open>
  A run: the controller answers and events of its steps, newest first. \<open>E\<close> says what is known of the
  environment: which answers and events may come in a state.
\<close>

inductive bft_run ::
    "bftConfig \<Rightarrow> crypt \<Rightarrow> (controller \<Rightarrow> bftEvent \<Rightarrow> bft \<Rightarrow> bool) \<Rightarrow> engine \<Rightarrow> (controller \<times> bftEvent) list \<Rightarrow> engine \<Rightarrow> bool"
  for c C E s where
  run_Nil: "bft_run c C E s [] s"
| run_Cons: "bft_run c C E s es t \<Longrightarrow> E K e (fst t) \<Longrightarrow> bft_step c C K e t u \<Longrightarrow> bft_run c C E s ((K, e) # es) u"

section \<open>What operations leave alone\<close>

text \<open>
  A part of the state that does not depend on the proposals, the round's proposal, the lock, evidence, timers and the heap is
  left alone by every operation that reads messages and candidates.
\<close>

named_theorems quiet \<open>operations that leave a part of the state alone\<close>

locale engine_part =
  fixes f :: "bft \<Rightarrow> 'p"
  assumes parts [simp]: "f (b\<lparr>bProposals := x2\<rparr>) = f b" "f (b\<lparr>bProposerKey := x3\<rparr>) = f b"
    "f (b\<lparr>bCommitteeData := x5\<rparr>) = f b" "f (b\<lparr>bHighQC := x6\<rparr>) = f b"
    "f (b\<lparr>bRCBuildHeight := x7\<rparr>) = f b" "f (b\<lparr>bBlock := x8\<rparr>) = f b" "f (b\<lparr>bBlockHash := x9\<rparr>) = f b"
    "f (b\<lparr>bResults := y1\<rparr>) = f b" "f (b\<lparr>bBlockResult := y2\<rparr>) = f b" "f (b\<lparr>bSortitionData := y3\<rparr>) = f b"
    "f (b\<lparr>bHighVDF := y4\<rparr>) = f b" "f (b\<lparr>bVDFCache := y5\<rparr>) = f b" "f (b\<lparr>bEvidence := y6\<rparr>) = f b"
    "f (b\<lparr>bPartialQCs := y7\<rparr>) = f b" "f (b\<lparr>bPacemakerMessages := y8\<rparr>) = f b"
    "f (b\<lparr>bRoundInterruptTimeoutMS := y9\<rparr>) = f b" "f (b\<lparr>bTimer := z1\<rparr>) = f b" "f (b\<lparr>bQCs := z2\<rparr>) = f b"
begin

lemma quiet_modify [quiet]: "(\<And>b. f (g b) = f b) \<Longrightarrow> keeps f (modify g)"
  by (rule keeps_modify)

lemma quiet_heap [quiet]: "keeps f (newQC q)" "keeps f (setQC a g)"
  by (simp_all add: keeps_def newQC_def setQC_def go_simps)

lemma quiet_GetBlockHash [quiet]: "keeps f (GetBlockHash C)"
  by (simp add: keeps_def GetBlockHash_def split: option.splits)

lemma quiet_GetProposal [quiet]: "keeps f GetProposal"
  by (simp add: keeps_def GetProposal_def getProposal_def split: option.splits list.splits)

lemma quiet_candidates [quiet]: "keeps f (GetElectionCandidates C)"
  unfolding GetElectionCandidates_def electionCandidate_def by (intro keeps_rules) simp

lemma quiet_highestVDF [quiet]: "keeps f (selectHighestVDF C K)"
  unfolding selectHighestVDF_def Let_def by (intro keeps_rules) simp

lemma quiet_addSharedDSE: "keeps f (addSharedDSE C K x y d)"
  by (simp add: keeps_def addSharedDSE_def setQC_def go_simps Let_def split: sum.splits)

lemma quiet_addDSEByPartialQC: "keeps f (addDSEByPartialQC C K y d)"
  using quiet_addSharedDSE
  by (simp add: keeps_def addDSEByPartialQC_def setQC_def go_simps Let_def split: sum.splits option.splits list.splits)

lemma quiet_evidence [quiet]: "keeps f (GetLocalDSE C K)"
  unfolding GetLocalDSE_def by (intro keeps_rules quiet_addDSEByPartialQC)

lemma quiet_chooseProposal [quiet]: "keeps f (chooseProposal K)"
  unfolding chooseProposal_def Let_def by (auto intro!: keeps_rules split: prod.splits)

lemma quiet_CheckProposer [quiet]: "keeps f (CheckProposerAndProposal C m)"
  unfolding CheckProposerAndProposal_def by (intro keeps_rules quiet_GetBlockHash)

lemma quiet_params [quiet]: "keeps f (GetValidateMessageParams C m)"
  unfolding GetValidateMessageParams_def by (intro keeps_rules quiet_GetBlockHash)

lemma quiet_attachments [quiet]: "keeps f (handleHighQCVDFAndEvidence c C K v)"
  unfolding handleHighQCVDFAndEvidence_def handleHighQC_def Let_def
  by (intro keeps_rules quiet_heap) (auto split: sum.splits)

lemma quiet_stores [quiet]: "keeps f (AddProposal m)" "keeps f (AddPartialQC C m)" "keeps f (AddPacemakerMessage m)"
  unfolding AddProposal_def AddPartialQC_def AddPacemakerMessage_def
  by (intro keeps_rules quiet_heap; simp add: Let_def)+

end

text \<open>A part that does not depend on the votes either is left alone by the handling of a message.\<close>

locale tally_part = engine_part +
  assumes votes [simp]: "f (b\<lparr>bVotes := x1\<rparr>) = f b"
begin

lemma quiet_AddVote: "keeps f (AddVote c C K v)"
proof -
  have set: "keeps f (getVoteSet C v)" "keeps f (setVoteSet C v x)" for x
    by (simp_all add: keeps_def getVoteSet_def setVoteSet_def modify_run Let_def split: prod.splits)
  moreover have "keeps f (addSigToVoteSet C v)"
    using set(2)
    by (simp add: keeps_def addSigToVoteSet_def Let_def go_simps split: prod.splits option.splits sum.splits bool.splits)
  ultimately show ?thesis unfolding AddVote_def by (intro keeps_rules quiet_attachments)
qed

lemma quiet_handleChecked: "keeps f (handleChecked c C K p m)"
  unfolding handleChecked_def by (intro keeps_rules quiet_stores quiet_AddVote)

end

section \<open>A replica votes once per view\<close>

text \<open>The headers of the votes among what was sent.\<close>

definition voteHeader :: "effect \<Rightarrow> view list" where
  "voteHeader e = (case e of
       ToProposer _ m \<Rightarrow> (case mQc m of None \<Rightarrow> [] | Some q \<Rightarrow> (case qcHeader q of None \<Rightarrow> [] | Some h \<Rightarrow> [h]))
     | _ \<Rightarrow> [])"

definition votesOf :: "effect list \<Rightarrow> view list" where
  "votesOf es = concat (map voteHeader es)"

definition snap :: "bft \<Rightarrow> view list \<times> view" where
  "snap b = (votesOf (bSent b), bView b)"

interpretation snap: tally_part snap
  by unfold_locales (simp_all add: snap_def)

lemma snap_simps [simp]: "snap (b\<lparr>bValidatorSet := x4\<rparr>) = snap b"
  by (simp_all add: snap_def)

lemma votesOf_simps [simp]:
  "votesOf [] = []" "votesOf (xs @ ys) = votesOf xs @ votesOf ys" "votesOf (x # xs) = voteHeader x @ votesOf xs"
  by (simp_all add: votesOf_def)

lemma quiet_send [quiet]: "voteHeader e = [] \<Longrightarrow> keeps snap (send e)"
  unfolding send_def by (intro keeps_rules) (simp add: snap_def)

lemma voteHeader_simps [simp]:
  "voteHeader (ToReplicas m) = []" "voteHeader (SelfBlock q t) = []" "voteHeader (Gossip q t) = []"
  "voteHeader ResetState = []" "voteHeader (StartVDF s) = []"
  by (simp_all add: voteHeader_def)

lemma quiet_RunVDF [quiet]: "keeps snap (RunVDF c K s)"
  unfolding RunVDF_def by (intro keeps_rules quiet) simp_all

text \<open>Triples over the snapshot: \<open>z\<close> is the snapshot at the start, \<open>S\<close> the possible ones at the end.\<close>

definition moves :: "view list \<times> view \<Rightarrow> 'a bm \<Rightarrow> (view list \<times> view) set \<Rightarrow> bool" where
  "moves z m S \<longleftrightarrow> hoare (\<lambda>b. snap b = z) m (\<lambda>_ b. snap b \<in> S)"

named_theorems moves_rules \<open>introduction rules for triples over the snapshot\<close>

lemma moves_quiet: "keeps snap m \<Longrightarrow> z \<in> S \<Longrightarrow> moves z m S"
  by (auto simp: moves_def hoare_def dest: keepsD)

lemma moves_ret [moves_rules]: "z \<in> S \<Longrightarrow> moves z (ret x) S"
  by (auto simp: moves_def hoare_def go_simps)

lemma moves_err [moves_rules]: "moves z (err e) S"
  by (auto simp: moves_def hoare_def go_simps)

lemma moves_bnd: "keeps snap m \<Longrightarrow> (\<And>x. moves z (f x) S) \<Longrightarrow> moves z (bnd m f) S"
  unfolding moves_def hoare_def bnd_Inr by (metis keepsD)

lemma moves_gets [moves_rules]: "(\<And>b. snap b = z \<Longrightarrow> moves z (f (g b)) S) \<Longrightarrow> moves z (bnd (gets g) f) S"
  by (auto simp: moves_def hoare_def bnd_Inr gets_run)

lemma moves_if [moves_rules]: "(c \<Longrightarrow> moves z m S) \<Longrightarrow> (\<not> c \<Longrightarrow> moves z n S) \<Longrightarrow> moves z (if c then m else n) S"
  by simp

lemma moves_option [moves_rules]:
  "moves z m S \<Longrightarrow> (\<And>y. moves z (f y) S) \<Longrightarrow> moves z (case x of None \<Rightarrow> m | Some y \<Rightarrow> f y) S"
  by (cases x) auto

lemma moves_sum [moves_rules]:
  "(\<And>e. moves z (h e) S) \<Longrightarrow> (\<And>y. moves z (g y) S) \<Longrightarrow> moves z (case x of Inl e \<Rightarrow> h e | Inr y \<Rightarrow> g y) S"
  by (cases x) auto

lemma moves_prod [moves_rules]: "(\<And>a b. moves z (g a b) S) \<Longrightarrow> moves z (case p of (a, b) \<Rightarrow> g a b) S"
  by (cases p) auto

lemma moves_when [moves_rules]: "moves z m S \<Longrightarrow> z \<in> S \<Longrightarrow> moves z (when_m c m) S"
  by (simp add: when_m_def moves_ret)

lemma moves_seqm_one [moves_rules]: "moves z m S \<Longrightarrow> moves z (seqm [m]) S"
  by (auto simp: moves_def hoare_def bnd_Inr ret_run)

lemma moves_seqm_Cons: "keeps snap m \<Longrightarrow> moves z (seqm ms) S \<Longrightarrow> moves z (seqm (m # ms)) S"
  by (simp add: moves_bnd)

lemma moves_trans: "moves z m T \<Longrightarrow> (\<And>y x. y \<in> T \<Longrightarrow> moves y (f x) S) \<Longrightarrow> moves z (bnd m f) S"
  unfolding moves_def hoare_def bnd_Inr by blast

text \<open>What a phase may do: interrupt the round, and in a voting phase send one vote.\<close>

definition interrupted :: "view \<Rightarrow> view" where
  "interrupted vw = vw\<lparr>vwPhase := Phase_ROUND_INTERRUPT\<rparr>"

definition idle :: "view list \<times> view \<Rightarrow> (view list \<times> view) set" where
  "idle z = {z, (fst z, interrupted (snd z))}"

definition voting :: "view list \<times> view \<Rightarrow> (view list \<times> view) set" where
  "voting z = insert (fst z @ [snd z], snd z) (idle z)"

lemma stays [simp]: "z \<in> idle z" "z \<in> voting z"
  by (simp_all add: idle_def voting_def)

lemma moves_RoundInterrupt: "moves z (RoundInterrupt c) (idle z)"
  by (auto simp: moves_def hoare_def RoundInterrupt_def bnd_Inr modify_run setPhase_def send_def gets_run ret_run
    snap_def idle_def interrupted_def)

lemma moves_mono: "moves z m S \<Longrightarrow> S \<subseteq> T \<Longrightarrow> moves z m T"
  by (auto simp: moves_def hoare_def)

lemma RoundInterrupt_moves [moves_rules]: "moves z (RoundInterrupt c) (idle z)" "moves z (RoundInterrupt c) (voting z)"
  by (rule moves_RoundInterrupt, rule moves_mono [OF moves_RoundInterrupt]) (auto simp: voting_def)

lemma sendVote_moves [moves_rules]: "moves z (sendVote C) (voting z)"
proof -
  have header: "voteHeader (ToProposer k (emptyMessage\<lparr>mQc := Some (emptyQC\<lparr>qcHeader := Some vw,
       qcBlockHash := h, qcResultsHash := r, qcProposerKey := p\<rparr>)\<rparr>)) = [vw]" for k vw h r p
    by (simp add: voteHeader_def)
  show ?thesis
    unfolding sendVote_def
    by (intro moves_bnd quiet moves_gets)
       (auto simp: moves_def hoare_def send_def modify_run snap_def voting_def header)
qed


lemmas moves_then [moves_rules] = moves_bnd [OF snap.quiet_modify] moves_bnd [OF snap.quiet_GetBlockHash]
  moves_bnd [OF snap.quiet_GetProposal] moves_bnd [OF snap.quiet_CheckProposer] moves_bnd [OF snap.quiet_candidates]
  moves_bnd [OF snap.quiet_highestVDF] moves_bnd [OF snap.quiet_chooseProposal]

lemma idle_phases:
  "moves z (StartElectionPhase c C K) (idle z)" "moves z (StartProposePhase c C K) (idle z)"
  "moves z (StartPrecommitPhase c C) (idle z)" "moves z (StartCommitPhase c C K) (idle z)"
  "moves z (StartCommitProcessPhase c C K) (idle z)"
proof -
  show "moves z (StartElectionPhase c C K) (idle z)"
    unfolding StartElectionPhase_def Let_def
    by (intro moves_rules quiet) (auto intro!: moves_quiet quiet)
  show "moves z (StartProposePhase c C K) (idle z)"
    unfolding StartProposePhase_def
    by (intro moves_rules quiet) (auto intro!: moves_quiet quiet)
  show "moves z (StartPrecommitPhase c C) (idle z)"
    unfolding StartPrecommitPhase_def
    by (intro moves_rules quiet) (auto intro!: moves_quiet quiet)
  show "moves z (StartCommitPhase c C K) (idle z)"
    unfolding StartCommitPhase_def
    by (intro moves_rules quiet) (auto intro!: moves_quiet quiet)
  show "moves z (StartCommitProcessPhase c C K) (idle z)"
    unfolding StartCommitProcessPhase_def
    by (intro moves_rules quiet moves_seqm_Cons keeps_bnd) (auto intro!: moves_quiet quiet keeps_rules)
qed

lemma voting_phases:
  "moves z (StartElectionVotePhase C K) (voting z)" "moves z (StartProposeVotePhase c C K) (voting z)"
  "moves z (StartPrecommitVotePhase c C) (voting z)"
proof -
  show "moves z (StartProposeVotePhase c C K) (voting z)"
    unfolding StartProposeVotePhase_def Let_def
    by (intro moves_rules quiet moves_seqm_Cons keeps_bnd) (auto intro!: moves_quiet quiet keeps_rules)
  show "moves z (StartPrecommitVotePhase c C) (voting z)"
    unfolding StartPrecommitVotePhase_def
    by (intro moves_rules quiet moves_seqm_Cons keeps_bnd) (auto intro!: moves_quiet quiet keeps_rules)
  have after: "moves y (seqm [modify (\<lambda>b. b\<lparr>bProposerKey := None\<rparr>)]) (voting z)" if "y \<in> voting z" for y z
    using that by (intro moves_rules moves_quiet quiet) simp
  have cast: "moves y (bnd (gets id) (\<lambda>b. send (ToProposer (Some pk) (emptyMessage\<lparr>
            mQc := Some (emptyQC\<lparr>qcHeader := Some (bView b), qcProposerKey := Some pk\<rparr>),
            mHighQc := highQC b, mLastDoubleSignEvidence := evEvidence (bEvidence b),
            mVdf := bHighVDF b, mRcBuildHeight := bRCBuildHeight b\<rparr>)))) (voting y)" for y pk
    by (auto simp: moves_def hoare_def send_def modify_run gets_run bnd_Inr snap_def voting_def voteHeader_def)
  have tail: "moves y (seqm [bnd (gets id) (\<lambda>b. send (ToProposer (Some pk) (emptyMessage\<lparr>
            mQc := Some (emptyQC\<lparr>qcHeader := Some (bView b), qcProposerKey := Some pk\<rparr>),
            mHighQc := highQC b, mLastDoubleSignEvidence := evEvidence (bEvidence b),
            mVdf := bHighVDF b, mRcBuildHeight := bRCBuildHeight b\<rparr>))),
          modify (\<lambda>b. b\<lparr>bProposerKey := None\<rparr>)]) (voting y)" for y pk
    unfolding seqm.simps(2) [of "bnd x y" for x y] by (rule moves_trans [OF cast]) (rule after)
  show "moves z (StartElectionVotePhase C K) (voting z)"
    unfolding StartElectionVotePhase_def
    by (intro moves_rules quiet moves_seqm_Cons [OF _ tail]) simp_all
qed


section \<open>Votes are ordered\<close>

definition heightsOf :: "controller \<Rightarrow> u64 \<times> u64" where
  "heightsOf K = (cnChainHeight K, cnRootChainHeight K)"

definition viewHeights :: "view \<Rightarrow> u64 \<times> u64" where
  "viewHeights vw = (vwHeight vw, vwRootHeight vw)"

definition voteOrder :: "view list \<times> view \<Rightarrow> bool" where
  "voteOrder z \<longleftrightarrow> sorted_wrt (<) (map viewKey (fst z)) \<and> (\<forall>h \<in> set (fst z). viewKey h < viewKey (snd z)) \<and>
     vwPhase (snd z) \<le> Phase_PACEMAKER"

definition refreshed :: "controller \<Rightarrow> view \<Rightarrow> view" where
  "refreshed K vw = vw\<lparr>vwHeight := cnChainHeight K, vwRootHeight := cnRootChainHeight K\<rparr>"

lemma moves_SelfIsValidator: "moves z (SelfIsValidator c K) {z, (fst z, refreshed K (snd z))}"
  by (auto simp: moves_def hoare_def SelfIsValidator_def bnd_Inr gets_run ret_run RefreshRootChainInfo_def modify_run
    snap_def refreshed_def split: option.splits)

lemma voteOrder_refreshed: "voteOrder z \<Longrightarrow> viewHeights (snd z) \<le> heightsOf K \<Longrightarrow> voteOrder (fst z, refreshed K (snd z))"
  unfolding voteOrder_def
  by (auto simp: refreshed_def viewKey_def viewHeights_def heightsOf_def less_prod_def less_eq_prod_def)

lemma SetTimer_snap:
  assumes "SetTimerForNextPhase c t b = (Inr (), b')"
  shows "snap b' = (votesOf (bSent b), (bView b)\<lparr>vwPhase :=
     (if vwPhase (bView b) = Phase_COMMIT_PROCESS then Phase_COMMIT_PROCESS
      else if vwPhase (bView b) = Phase_PACEMAKER then Phase_ELECTION else vwPhase (bView b) + 1)\<rparr>)"
  using assms
  by (auto simp: SetTimerForNextPhase_def bnd_Inr gets_run Let_def setPhase_def SetWaitTimers_def modify_run ret_run
    snap_def split: if_splits)

lemma moves_Pacemaker:
  assumes "vwRound (snd z) < MaxUint64"
  shows "moves z (Pacemaker K) {(fst z, vw) |vw. viewHeights vw = heightsOf K \<and> vwPhase vw = vwPhase (snd z) \<and>
     vwRound (snd z) < vwRound vw}"
proof -
  have less: "r < r + 1" if "r < MaxUint64" for r :: u64
    using that unat_add_exact [of r 1] by (simp add: unat_less_iff)
  show ?thesis
    using less [OF assms]
    by (auto simp: moves_def hoare_def Pacemaker_def NewRound_def RefreshRootChainInfo_def bnd_Inr modify_run ret_run
      snap_def Let_def viewHeights_def heightsOf_def)
qed


definition advanced :: "view \<Rightarrow> view" where
  "advanced vw = vw\<lparr>vwPhase :=
     (if vwPhase vw = Phase_COMMIT_PROCESS then Phase_COMMIT_PROCESS
      else if vwPhase vw = Phase_PACEMAKER then Phase_ELECTION else vwPhase vw + 1)\<rparr>"

lemma phase_next: "p \<le> Phase_PACEMAKER \<Longrightarrow> p \<noteq> Phase_PACEMAKER \<Longrightarrow> p < p + 1 \<and> p + 1 \<le> (Phase_PACEMAKER :: u64)"
  using unat_add_exact [of p 1] by (auto simp: phase_defs unat_less_iff unat_le_iff word_unat_eq_iff)

lemma voteOrder_later:
  "voteOrder z \<Longrightarrow> viewKey (snd z) \<le> viewKey vw \<Longrightarrow> vwPhase vw \<le> Phase_PACEMAKER \<Longrightarrow> voteOrder (fst z, vw)"
  unfolding voteOrder_def by (auto intro: order.strict_trans2)

lemma advanced_later:
  assumes "vwPhase vw \<le> Phase_PACEMAKER" "vwPhase vw \<noteq> Phase_PACEMAKER"
  shows "viewKey vw \<le> viewKey (advanced vw)" "vwPhase (advanced vw) \<le> Phase_PACEMAKER"
  using phase_next [OF assms] assms by (auto simp: advanced_def viewKey_def)

lemma interrupted_later:
  assumes "vwPhase vw < Phase_ROUND_INTERRUPT"
  shows "viewKey vw \<le> viewKey (advanced (interrupted vw))" "vwPhase (advanced (interrupted vw)) \<le> Phase_PACEMAKER"
  using assms by (auto simp: advanced_def interrupted_def viewKey_def phase_defs unat_less_iff unat_le_iff)

lemma idle_order:
  assumes "voteOrder z" "y \<in> idle z" "vwPhase (snd z) < Phase_ROUND_INTERRUPT"
  shows "voteOrder (fst y, advanced (snd y))"
proof -
  have p: "vwPhase (snd z) \<le> Phase_PACEMAKER" "vwPhase (snd z) \<noteq> Phase_PACEMAKER"
    using assms(3) by (auto simp: phase_defs unat_less_iff unat_le_iff)
  from assms(2) consider "y = z" | "y = (fst z, interrupted (snd z))" by (auto simp: idle_def)
  then show ?thesis
    by cases (use voteOrder_later [OF assms(1)] advanced_later [OF p] interrupted_later [OF assms(3)] in auto)
qed

lemma voted_order:
  assumes "voteOrder z" "vwPhase (snd z) < Phase_COMMIT_PROCESS"
  shows "voteOrder (fst z @ [snd z], advanced (snd z))"
proof -
  have p: "vwPhase (snd z) \<le> Phase_PACEMAKER" "vwPhase (snd z) \<noteq> Phase_PACEMAKER" "vwPhase (snd z) \<noteq> Phase_COMMIT_PROCESS"
    using assms(2) by (auto simp: phase_defs unat_less_iff unat_le_iff)
  then have lt: "viewKey (snd z) < viewKey (advanced (snd z))"
    using phase_next [OF p(1,2)] by (simp add: advanced_def viewKey_def)
  with assms(1) advanced_later(2) [OF p(1,2)] show ?thesis
    by (auto simp: voteOrder_def sorted_wrt_append)
qed

lemma voting_order:
  assumes "voteOrder z" "y \<in> voting z" "vwPhase (snd z) < Phase_COMMIT_PROCESS"
  shows "voteOrder (fst y, advanced (snd y))"
proof -
  have "vwPhase (snd z) < Phase_ROUND_INTERRUPT"
    using assms(3) by (simp add: phase_defs unat_less_iff)
  then show ?thesis
    using assms idle_order [OF assms(1), of y] voted_order [OF assms(1,3)] by (auto simp: voting_def)
qed

lemma pacemaker_order:
  assumes "voteOrder z" "vwPhase (snd z) = Phase_PACEMAKER" "viewHeights (snd z) \<le> heightsOf K"
    "viewHeights vw = heightsOf K" "vwPhase vw = Phase_PACEMAKER" "vwRound (snd z) < vwRound vw"
  shows "voteOrder (fst z, advanced vw)"
proof (rule voteOrder_later [OF assms(1)])
  show "viewKey (snd z) \<le> viewKey (advanced vw)"
    using assms(3-6) by (auto simp: advanced_def viewKey_def viewHeights_def heightsOf_def phase_defs)
  show "vwPhase (advanced vw) \<le> Phase_PACEMAKER"
    using assms(5) by (simp add: advanced_def phase_defs unat_le_iff)
qed

lemma movesD: "moves z m S \<Longrightarrow> snap b = z \<Longrightarrow> m b = (Inr r, b') \<Longrightarrow> snap b' \<in> S"
  by (auto simp: moves_def hoare_def)

lemma phase_cases:
  assumes "p \<le> Phase_PACEMAKER"
  obtains "p = Phase_ELECTION \<or> p = Phase_PROPOSE \<or> p = Phase_PRECOMMIT \<or> p = Phase_COMMIT \<or> p = Phase_COMMIT_PROCESS"
    | "p = Phase_ELECTION_VOTE \<or> p = Phase_PROPOSE_VOTE \<or> p = Phase_PRECOMMIT_VOTE"
    | "p = Phase_PACEMAKER" | "p = 0 \<or> p = Phase_ROUND_INTERRUPT"
proof -
  obtain n where n: "p = of_nat n" "n \<le> 10"
    using assms by (intro that [of "unat p"]) (simp_all add: Phase_PACEMAKER_def unat_le_iff)
  then have "n \<in> {0, 1, 2, 3, 4, 5, 6, 7, 8, 9, 10}" by (simp, presburger)
  then have "p \<in> {0, 1, 2, 3, 4, 5, 6, 7, 8, 9, 10}" using n(1) by auto
  then show thesis using that by (auto simp: phase_defs)
qed

lemma runPhase_order:
  assumes ord: "voteOrder (snap b)" and h: "viewHeights (bView b) \<le> heightsOf K" and r: "vwRound (bView b) < MaxUint64"
    and run: "runPhase c C K (vwPhase (bView b)) b = (Inr (), b')"
  shows "voteOrder (fst (snap b'), advanced (snd (snap b')))"
proof -
  let ?p = "vwPhase (bView b)"
  have v: "snd (snap b) = bView b" by (simp add: snap_def)
  have le: "?p \<le> Phase_PACEMAKER" using ord by (simp add: voteOrder_def snap_def)
  from le show ?thesis
  proof (cases rule: phase_cases)
    case 1
    then have "snap b' \<in> idle (snap b)"
      using run by (auto simp: runPhase_def phase_defs intro: idle_phases [THEN movesD, OF refl])
    moreover have "?p < Phase_ROUND_INTERRUPT" using 1 by (auto simp: phase_defs unat_less_iff)
    ultimately show ?thesis using idle_order [OF ord] v by simp
  next
    case 2
    then have "snap b' \<in> voting (snap b)"
      using run by (auto simp: runPhase_def phase_defs intro: voting_phases [THEN movesD, OF refl])
    moreover have "?p < Phase_COMMIT_PROCESS" using 2 by (auto simp: phase_defs unat_less_iff)
    ultimately show ?thesis using voting_order [OF ord] v by simp
  next
    case 3
    then have "Pacemaker K b = (Inr (), b')" using run by (simp add: runPhase_def phase_defs)
    from movesD [OF moves_Pacemaker refl this] r 3 show ?thesis
      using pacemaker_order [OF ord] h by (auto simp: v)
  next
    case 4
    then have "b' = b" using run by (auto simp: runPhase_def phase_defs ret_run)
    moreover have "?p \<noteq> Phase_PACEMAKER" using 4 by (auto simp: phase_defs)
    ultimately show ?thesis
      using voteOrder_later [OF ord] advanced_later [OF le] v by auto
  qed
qed


lemma snapD: "keeps snap m \<Longrightarrow> m b = (r, b') \<Longrightarrow> snap b' = snap b"
  by (rule keepsD)

lemma HandlePhase_order:
  assumes ord: "voteOrder (snap b)" and h: "viewHeights (bView b) \<le> heightsOf K" and r: "vwRound (bView b) < MaxUint64"
    and run: "HandlePhase c C K b = (Inr (), b')"
  shows "voteOrder (snap b')"
proof (cases "cnSyncing K")
  case True
  with run ord show ?thesis by (auto simp: HandlePhase_def modify_run)
next
  case False
  with run obtain v b1 where v: "SelfIsValidator c K b = (Inr v, b1)"
    and rest: "(if \<not> v then modify (\<lambda>b. b\<lparr>bTimer := None\<rparr>)
        else bnd (gets (vwPhase \<circ> bView)) (\<lambda>phase.
          bnd (runPhase c C K phase) (\<lambda>_. SetTimerForNextPhase c (cnProcessTime K)))) b1 = (Inr (), b')"
    by (auto simp: HandlePhase_def bnd_Inr)
  have "snap b1 \<in> {snap b, (fst (snap b), refreshed K (snd (snap b)))}"
    by (rule movesD [OF moves_SelfIsValidator refl v])
  then have ord1: "voteOrder (snap b1)" and h1: "viewHeights (bView b1) \<le> heightsOf K" and r1: "vwRound (bView b1) < MaxUint64"
    using ord h r voteOrder_refreshed [OF ord, of K]
    by (auto simp: snap_def refreshed_def viewHeights_def heightsOf_def)
  show ?thesis
  proof (cases v)
    case False
    with rest ord1 show ?thesis by (auto simp: modify_run)
  next
    case True
    with rest obtain b2 where b2: "runPhase c C K (vwPhase (bView b1)) b1 = (Inr (), b2)"
      and t: "SetTimerForNextPhase c (cnProcessTime K) b2 = (Inr (), b')"
      by (auto simp: bnd_Inr gets_run)
    have "snap b' = (fst (snap b2), advanced (snd (snap b2)))"
      using SetTimer_snap [OF t] by (simp add: snap_def advanced_def)
    with runPhase_order [OF ord1 h1 r1 b2] show ?thesis by simp
  qed
qed

lemma reset_snap:
  assumes "HandleReset c K isRoot since b = (Inr (), b')"
  shows "snap b' = (fst (snap b), (bView b)\<lparr>vwHeight := cnChainHeight K, vwRootHeight := cnRootChainHeight K,
    vwRound := 0, vwPhase := Phase_ELECTION\<rparr>)"
  using assms
  by (auto simp: HandleReset_def NewHeight_def NewRound_def RefreshRootChainInfo_def ProposalsResetForNewCommittee_def
    setPhase_def SetWaitTimers_def Let_def bnd_Inr modify_run ret_run when_m_def snap_def split: if_splits)

text \<open>
  The environment: the heights the controller reports never fall, a reset comes with heights at which the
  replica has not voted yet (a new block or a new block of the root chain), and the 64-bit round counter is not used up.
\<close>

definition progressing :: "controller \<Rightarrow> bftEvent \<Rightarrow> bft \<Rightarrow> bool" where
  "progressing K e b \<longleftrightarrow> viewHeights (bView b) \<le> heightsOf K \<and> vwRound (bView b) < MaxUint64 \<and>
     (case e of Reset _ _ \<Rightarrow> list_all (\<lambda>h. viewHeights h < heightsOf K) (votesOf (bSent b)) | _ \<Rightarrow> True)"

lemma reset_order:
  assumes "voteOrder z" "\<And>h. h \<in> set (fst z) \<Longrightarrow> viewHeights h < heightsOf K"
  shows "voteOrder (fst z, vw\<lparr>vwHeight := cnChainHeight K, vwRootHeight := cnRootChainHeight K,
    vwRound := 0, vwPhase := Phase_ELECTION\<rparr>)"
proof -
  have "viewKey h < viewKey (vw\<lparr>vwHeight := cnChainHeight K, vwRootHeight := cnRootChainHeight K,
      vwRound := 0, vwPhase := Phase_ELECTION\<rparr>)" if "h \<in> set (fst z)" for h
    using assms(2) [OF that] by (auto simp: viewHeights_def heightsOf_def viewKey_def)
  moreover have "(Phase_ELECTION :: u64) \<le> Phase_PACEMAKER" by (simp add: phase_defs unat_le_iff)
  ultimately show ?thesis using assms(1) by (simp add: voteOrder_def)
qed

lemma step_order:
  assumes "bft_step c C K e s t" "progressing K e (fst s)" "voteOrder (snap (fst s))"
  shows "voteOrder (snap (fst t))"
  using assms
proof (cases rule: bft_step.cases)
  case (phase_timeout b b' w)
  then show ?thesis
    using assms(2,3) HandlePhase_order [of "b\<lparr>bTimer := None\<rparr>" K] by (simp add: progressing_def)
next
  case (reset isRoot since b b' w)
  have "\<And>h. h \<in> set (votesOf (bSent b)) \<Longrightarrow> viewHeights h < heightsOf K"
    using assms(2) reset by (simp add: progressing_def list_all_iff)
  then have "\<And>h. h \<in> set (fst (snap b)) \<Longrightarrow> viewHeights h < heightsOf K" by (simp add: snap_def)
  from reset_order [OF _ this] assms(3) reset_snap [OF reset(4)] reset(2,3) show ?thesis by simp
qed (use assms(3) snapD [OF snap.quiet_params] snapD [OF snap.quiet_handleChecked] in auto)

lemma run_order:
  assumes "bft_run c C progressing s es t" "voteOrder (snap (fst s))"
  shows "voteOrder (snap (fst t))"
  using assms by (induction rule: bft_run.induct) (auto intro: step_order)

text \<open>
  C3: A replica never signs two votes for the same view: whatever messages arrive and however message handling
  interleaves with phases and resets, the views of the votes it sends are strictly increasing in height, root
  height, round and phase. So no correct replica can be slashed for double signing.
\<close>

theorem replica_never_double_signs:
  assumes "bft_run c C progressing (snd (Start K (New_bft c rootHeight h)), None) es (b, w)"
  shows "sorted_wrt (\<lambda>x y. View_Less (Some x) (Some y) \<and> \<not> View_Equals (Some x) (Some y)) (votesOf (bSent b))"
proof -
  have "voteOrder (snap (snd (Start K (New_bft c rootHeight h))))"
    by (simp add: Start_def New_bft_def modify_run snap_def voteOrder_def)
  with run_order [OF assms] have "sorted_wrt (\<lambda>x y. viewKey x < viewKey y) (votesOf (bSent b))"
    by (simp add: voteOrder_def snap_def sorted_wrt_map)
  then show ?thesis
    by (rule sorted_wrt_mono_rel [rotated]) (auto simp: View_Less_def View_Equals_def viewKey_def less_prod_def split: if_splits)
qed

section \<open>An example run\<close>

text \<open>A node that is a validator without stake beside one with stake, at height 2.\<close>

definition exampleConfig :: bftConfig where
  "exampleConfig = \<lparr>cfNetworkID = 1, cfChainId = 1, cfRunVDF = False, cfNewHeightTimeoutMs = 4500,
     cfElectionTimeoutMS = 1500, cfElectionVoteTimeoutMS = 1500, cfProposeTimeoutMS = 2500,
     cfProposeVoteTimeoutMS = 4000, cfPrecommitTimeoutMS = 2000, cfPrecommitVoteTimeoutMS = 2000,
     cfCommitTimeoutMS = 2000, cfPublicKey = [7]\<rparr>"

definition exampleCrypt :: crypt where
  "exampleCrypt = \<lparr>cyCodec = \<lparr>cHash = (\<lambda>_. []), cMarshalResults = (\<lambda>_. []), cMarshalQC = (\<lambda>_. []),
       cBytesToBlockHash = Inr, cTransactions = (\<lambda>_. Inr []), cMB = 1000000\<rparr>,
     cyPkOk = (\<lambda>_. True), cyAddressOf = id, cyMaskOk = (\<lambda>n bm. length bm = (n + 7) div 8), cyVerify = (\<lambda>_ _ _ _. True),
     cyVerifyBytes = (\<lambda>_ _ _. True), cySign = (\<lambda>_. []), cyAggregate = (\<lambda>_ _. Inr (replicate 96 0)),
     cyVerifyVDF = (\<lambda>_ _. False), cyMarshalMessage = (\<lambda>_. []), cyMarshalEvidence = (\<lambda>_. [])\<rparr>"

definition exampleKey :: bytes where
  "exampleKey = replicate 48 8"

definition exampleSet :: validatorSet where
  "exampleSet = \<lparr>vsValidators = [\<lparr>cvPublicKey = [7], cvVotingPower = 0, cvNetAddress = []\<rparr>,
       \<lparr>cvPublicKey = exampleKey, cvVotingPower = 4, cvNetAddress = []\<rparr>],
     vsTotalPower = 4, vsMinimumMaj23 = 3, vsNumValidators = 2\<rparr>"

definition exampleCommittee :: committeeData where
  "exampleCommittee = \<lparr>cdChainId = 1, cdLastRootHeightUpdated = 1, cdLastChainHeightUpdated = 1,
     cdPaymentPercents = [], cdNumberOfSamples = 0\<rparr>"

definition exampleController :: controller where
  "exampleController = \<lparr>cnChainHeight = 2, cnRootChainHeight = 2, cnSyncing = False,
     cnProduceProposal = (\<lambda>_ _. ((0, None, None), Some ErrPanic)),
     cnValidateProposal = (\<lambda>_ _ _. (None, Some ErrPanic)),
     cnLoadCertificate = (\<lambda>_. Inr None), cnLoadRootChainId = (\<lambda>_. 1), cnLoadCommittee = (\<lambda>_ _. Inr exampleSet),
     cnLoadCommitteeData = Inr exampleCommittee,
     cnLoadLastProposers = (\<lambda>_. Inr []), cnLoadMinimumEvidenceHeight = (\<lambda>_ _. Inr 0),
     cnIsValidDoubleSigner = (\<lambda>_ _ _. True), cnLoadMaxBlockSize = 1000, cnFinish = None, cnProcessTime = 0,
     cnCommitTime = 0\<rparr>"

definition exampleStart :: bft where
  "exampleStart = snd (Start exampleController (New_bft exampleConfig 1 1))"

definition exampleReset :: bft where
  "exampleReset = snd (HandleReset exampleConfig exampleController False 0 exampleStart)"

definition exampleElected :: bft where
  "exampleElected = snd (HandlePhase exampleConfig exampleCrypt exampleController (exampleReset\<lparr>bTimer := None\<rparr>))"

definition exampleVoted :: bft where
  "exampleVoted = snd (HandlePhase exampleConfig exampleCrypt exampleController (exampleElected\<lparr>bTimer := None\<rparr>))"

lemmas example_records = exampleConfig_def exampleCrypt_def exampleController_def exampleSet_def

lemma exampleStart_fields:
  "bView exampleStart = \<lparr>vwHeight = 1, vwRootHeight = 1, vwRound = 0, vwPhase = 0, vwNetworkId = 1, vwChainId = 1\<rparr>"
  "bSent exampleStart = []" "bValidatorSet exampleStart = exampleSet" "bProposals exampleStart = (\<lambda>_. None)"
  by (simp_all add: exampleStart_def Start_def New_bft_def modify_run example_records)

lemma exampleReset_run:
  "HandleReset exampleConfig exampleController False 0 exampleStart = (Inr (), exampleReset)"
  by (simp add: exampleReset_def HandleReset_def NewHeight_def NewRound_def RefreshRootChainInfo_def Let_def
    ProposalsResetForNewCommittee_def setPhase_def SetWaitTimers_def bnd_def modify_run ret_run when_m_def)

lemma exampleReset_fields:
  "bView exampleReset = \<lparr>vwHeight = 2, vwRootHeight = 2, vwRound = 0, vwPhase = 1, vwNetworkId = 1, vwChainId = 1\<rparr>"
  "bSent exampleReset = []" "bValidatorSet exampleReset = exampleSet" "bProposals exampleReset = (\<lambda>_. None)"
  "bTimer exampleReset \<noteq> None" "bVotes exampleReset = (\<lambda>_ _. [])" "bBlock exampleReset = None"
  "bCommitteeData exampleReset = Some exampleCommittee"
  by (simp_all add: exampleReset_def HandleReset_def NewHeight_def NewRound_def RefreshRootChainInfo_def Let_def
    ProposalsResetForNewCommittee_def setPhase_def SetWaitTimers_def bnd_def modify_run ret_run when_m_def
    exampleStart_fields phase_defs) (simp_all add: example_records)

text \<open>Without stake the node is no candidate.\<close>

lemma exampleSortition: "sdVotingPower p = 0 \<Longrightarrow>
    Sortition (\<lambda>_. []) (\<lambda>_. []) k p = ([], \<lparr>sgPublicKey = k, sgSignature = []\<rparr>, False)"
  by (simp add: Sortition_def VRF_def sortition_def IsCandidate_def toFloatBetween0And1_def roundTo_def Let_def)

definition exampleData :: "view \<Rightarrow> sortitionData" where
  "exampleData vw = \<lparr>sdLastProposerAddresses = [], sdRootHeight = vwRootHeight vw, sdHeight = vwHeight vw,
     sdRound = vwRound vw, sdTotalValidators = 2, sdTotalPower = 4, sdVotingPower = 0\<rparr>"

lemma exampleElection:
  assumes "bValidatorSet b = exampleSet"
  shows "StartElectionPhase exampleConfig exampleCrypt exampleController b =
      (Inr (), b\<lparr>bSortitionData := Some (exampleData (bView b))\<rparr>)"
proof -
  have "ValidatorSet_GetValidator (bValidatorSet b) [7] = Some \<lparr>cvPublicKey = [7], cvVotingPower = 0, cvNetAddress = []\<rparr>"
    "vsNumValidators (bValidatorSet b) = 2" "vsTotalPower (bValidatorSet b) = 4"
    by (simp_all add: assms ValidatorSet_GetValidator_def exampleSet_def)
  then show ?thesis
    by (simp add: StartElectionPhase_def bnd_def gets_run modify_run ret_run when_m_def Let_def exampleConfig_def
      exampleCrypt_def exampleController_def exampleSortition exampleData_def)
qed

lemma exampleSelf:
  assumes "bValidatorSet b = exampleSet"
  shows "SelfIsValidator exampleConfig exampleController b = (Inr True, b)"
  using assms by (simp add: SelfIsValidator_def bnd_def gets_run ret_run ValidatorSet_GetValidator_def exampleSet_def exampleConfig_def)

lemma exampleElected_eq:
  "HandlePhase exampleConfig exampleCrypt exampleController (exampleReset\<lparr>bTimer := None\<rparr>) = (Inr (), exampleElected)"
  "exampleElected = exampleReset\<lparr>bSortitionData := Some (exampleData (bView exampleReset)),
     bView := (bView exampleReset)\<lparr>vwPhase := 2\<rparr>, bTimer := bTimer exampleElected\<rparr>"
  "bTimer exampleElected \<noteq> None"
proof -
  have run: "runPhase exampleConfig exampleCrypt exampleController 1 b = (Inr (), b\<lparr>bSortitionData := Some (exampleData (bView b))\<rparr>)"
    if "bValidatorSet b = exampleSet" for b
    using exampleElection [OF that] by (simp add: runPhase_def Phase_ELECTION_def)
  have sync: "\<not> cnSyncing exampleController" by (simp add: exampleController_def)
  note eval = HandlePhase_def sync exampleSelf run bnd_def gets_run exampleReset_fields
    SetTimerForNextPhase_def setPhase_def SetWaitTimers_def modify_run ret_run Let_def
  show 1: "HandlePhase exampleConfig exampleCrypt exampleController (exampleReset\<lparr>bTimer := None\<rparr>) = (Inr (), exampleElected)"
    unfolding exampleElected_def by (simp add: eval phase_defs)
  show "exampleElected = exampleReset\<lparr>bSortitionData := Some (exampleData (bView exampleReset)),
     bView := (bView exampleReset)\<lparr>vwPhase := 2\<rparr>, bTimer := bTimer exampleElected\<rparr>"
    unfolding exampleElected_def by (simp add: eval phase_defs)
  show "bTimer exampleElected \<noteq> None"
    unfolding exampleElected_def by (simp add: eval phase_defs)
qed


lemma exampleElected_fields:
  "bView exampleElected = \<lparr>vwHeight = 2, vwRootHeight = 2, vwRound = 0, vwPhase = 2, vwNetworkId = 1, vwChainId = 1\<rparr>"
  "bSent exampleElected = []" "bValidatorSet exampleElected = exampleSet" "bProposals exampleElected = (\<lambda>_. None)"
  "bSortitionData exampleElected = Some (exampleData (bView exampleReset))"
  "bVotes exampleElected = (\<lambda>_ _. [])" "bBlock exampleElected = None"
  "bCommitteeData exampleElected = Some exampleCommittee"
  by (subst exampleElected_eq(2), simp add: exampleReset_fields)+

lemma exampleLeader:
  "SelectProposerFromCandidates (\<lambda>_. []) [] (Some (exampleData vw)) (vsValidators exampleSet) = Some exampleKey"
  by (simp add: SelectProposerFromCandidates_def seedOf_def FormatInputIntoSeed_def bigEndian64_def setBytes_def
    exampleData_def WeightedPseudorandom_def exampleSet_def)

lemma exampleVote:
  assumes "bValidatorSet b = exampleSet" "bProposals b = (\<lambda>_. None)" "bSortitionData b = Some (exampleData vw)"
  shows "\<exists>m b'. StartElectionVotePhase exampleCrypt exampleController b = (Inr (), b') \<and>
    bSent b' = bSent b @ [ToProposer (Some exampleKey) m] \<and> mQc m = Some (emptyQC\<lparr>qcHeader := Some (bView b), qcProposerKey := Some exampleKey\<rparr>) \<and>
    bView b' = bView b \<and> bVotes b' = bVotes b \<and> bBlock b' = bBlock b \<and> bCommitteeData b' = bCommitteeData b \<and>
    bValidatorSet b' = bValidatorSet b"
proof -
  have "GetElectionCandidates exampleCrypt b = (Inr [], b)"
    using assms(2) by (simp add: GetElectionCandidates_def bnd_def gets_run ret_run)
  then show ?thesis
    using assms exampleLeader [of vw]
    by (simp add: StartElectionVotePhase_def bnd_def gets_run modify_run send_def ret_run exampleCrypt_def)
qed

lemma exampleVoted_run:
  "HandlePhase exampleConfig exampleCrypt exampleController (exampleElected\<lparr>bTimer := None\<rparr>) = (Inr (), exampleVoted)"
  "votesOf (bSent exampleVoted) = [bView exampleElected]"
  "bView exampleVoted = (bView exampleElected)\<lparr>vwPhase := 3\<rparr>" "bVotes exampleVoted = (\<lambda>_ _. [])" "bBlock exampleVoted = None"
  "bCommitteeData exampleVoted = Some exampleCommittee" "bValidatorSet exampleVoted = exampleSet"
proof -
  let ?b = "exampleElected\<lparr>bTimer := None\<rparr>"
  obtain m b' where b': "StartElectionVotePhase exampleCrypt exampleController ?b = (Inr (), b')"
    "bSent b' = [ToProposer (Some exampleKey) m]" "mQc m = Some (emptyQC\<lparr>qcHeader := Some (bView exampleElected), qcProposerKey := Some exampleKey\<rparr>)"
    "bView b' = bView exampleElected" "bVotes b' = (\<lambda>_ _. [])" "bBlock b' = None" "bCommitteeData b' = Some exampleCommittee"
    "bValidatorSet b' = exampleSet"
    using exampleVote [of ?b "bView exampleReset"] by (auto simp: exampleElected_fields)
  have run: "runPhase exampleConfig exampleCrypt exampleController 2 ?b = (Inr (), b')"
    using b'(1) by (simp add: runPhase_def phase_defs)
  have sync: "\<not> cnSyncing exampleController" by (simp add: exampleController_def)
  note eval = HandlePhase_def sync exampleSelf run bnd_def gets_run exampleElected_fields b'(2,4)
    SetTimerForNextPhase_def setPhase_def SetWaitTimers_def modify_run ret_run Let_def
  show "HandlePhase exampleConfig exampleCrypt exampleController ?b = (Inr (), exampleVoted)"
    unfolding exampleVoted_def by (simp add: eval phase_defs)
  show "votesOf (bSent exampleVoted) = [bView exampleElected]"
    unfolding exampleVoted_def by (simp add: eval phase_defs voteHeader_def b'(3))
  show "bView exampleVoted = (bView exampleElected)\<lparr>vwPhase := 3\<rparr>" "bVotes exampleVoted = (\<lambda>_ _. [])" "bBlock exampleVoted = None"
    "bCommitteeData exampleVoted = Some exampleCommittee" "bValidatorSet exampleVoted = exampleSet"
    unfolding exampleVoted_def by (simp_all add: eval phase_defs b')
qed

lemma exampleRun:
  "bft_run exampleConfig exampleCrypt progressing (exampleStart, None)
     [(exampleController, PhaseTimeout), (exampleController, PhaseTimeout), (exampleController, Reset False 0)]
     (exampleVoted, None)"
proof -
  have h: "heightsOf exampleController = (2, 2)" by (simp add: heightsOf_def exampleController_def)
  have "progressing exampleController (Reset False 0) exampleStart"
    "progressing exampleController PhaseTimeout exampleReset" "progressing exampleController PhaseTimeout exampleElected"
    by (simp_all add: progressing_def h viewHeights_def exampleStart_fields exampleReset_fields exampleElected_fields
      less_eq_prod_def unat_less_iff)
  then show ?thesis
    using exampleReset_run exampleElected_eq(1) exampleVoted_run(1) exampleReset_fields(5) exampleElected_eq(3)
    by (auto intro!: bft_run.intros bft_step.intros)
qed

theorem replica_never_double_signs_witness:
  "votesOf (bSent exampleVoted) = [bView exampleElected] \<and>
   sorted_wrt (\<lambda>x y. View_Less (Some x) (Some y) \<and> \<not> View_Equals (Some x) (Some y)) (votesOf (bSent exampleVoted))"
  using replica_never_double_signs [OF exampleRun [unfolded exampleStart_def]] exampleVoted_run(2) by simp

end
