(* ===== verification/Votes.thy ===== *)
theory Votes
  imports Phases
begin

text \<open>
  What a leader collects and what it may conclude: every vote set counts exactly the power of the validators
  whose signatures it holds, so the certificate of a majority is backed by two thirds of the power and is accepted by
  the replicas. Further the evidence of double signs and the pacemaker.
\<close>


unbundle bit_operations_syntax

section \<open>Bitmaps and their power\<close>

lemma length_setBit [simp]: "length (setBit bm i) = length bm"
  by (simp add: setBit_def)

lemma signedAt_bit: "signedAt bm i \<longleftrightarrow> bit (bm ! (i div 8)) (i mod 8)"
  by (simp add: signedAt_def and_exp_eq_0_iff_not_bit)

lemma signedAt_setBit:
  assumes "i div 8 < length bm"
  shows "signedAt (setBit bm i) j \<longleftrightarrow> j = i \<or> signedAt bm j"
proof (cases "j div 8 = i div 8")
  case True
  have "i mod 8 = j mod 8 \<longleftrightarrow> i = j" using True by (metis div_mult_mod_eq)
  then show ?thesis using assms True by (auto simp: signedAt_bit setBit_def bit_simps)
next
  case False
  then have "j \<noteq> i" by auto
  with False show ?thesis by (simp add: signedAt_bit setBit_def)
qed

lemma membersAt_skip: "(\<And>j. i \<le> j \<Longrightarrow> P j = Q j) \<Longrightarrow> membersAt P i vs = membersAt Q i vs"
  by (induction vs arbitrary: i) auto

lemma membersAt_insert:
  assumes "\<not> P (i + k)" "k < length vs"
  shows "sum_list (map cvVotingPower (membersAt (\<lambda>j. j = i + k \<or> P j) i vs)) =
    sum_list (map cvVotingPower (membersAt P i vs)) + cvVotingPower (vs ! k)"
  using assms
proof (induction vs arbitrary: i k)
  case Nil
  then show ?case by simp
next
  case (Cons v vs)
  show ?case
  proof (cases k)
    case 0
    have "membersAt (\<lambda>j. j = i \<or> P j) (Suc i) vs = membersAt P (Suc i) vs" by (rule membersAt_skip) simp
    with 0 Cons.prems show ?thesis by (simp add: add.commute)
  next
    case (Suc l)
    have "sum_list (map cvVotingPower (membersAt (\<lambda>j. j = Suc i + l \<or> P j) (Suc i) vs)) =
      sum_list (map cvVotingPower (membersAt P (Suc i) vs)) + cvVotingPower (vs ! l)"
      using Cons.IH [of "Suc i" l] Cons.prems Suc by simp
    with Suc show ?thesis by (simp add: add.assoc)
  qed
qed

lemma membersAt_none: "(\<And>j. i \<le> j \<Longrightarrow> j < i + length vs \<Longrightarrow> \<not> P j) \<Longrightarrow> membersAt P i vs = []"
  by (induction vs arbitrary: i) auto

lemma signedAt_empty: "i div 8 < n \<Longrightarrow> \<not> signedAt (replicate n 0) i"
  by (simp add: signedAt_def)

lemma GetValidatorAndIdx_Some:
  "GetValidatorAndIdx vs pk = Some (v, i) \<Longrightarrow> i < length vs \<and> vs ! i = v \<and> cvPublicKey v = pk"
  by (induction vs arbitrary: i) (auto split: if_splits)

section \<open>The vote sets of a leader\<close>

text \<open>The \<open>i\<close>-th validator has signed the payload filed under \<open>key\<close>.\<close>

definition signedVote :: "crypt \<Rightarrow> u64 \<times> u64 \<times> bytes \<Rightarrow> bytes \<Rightarrow> bytes \<Rightarrow> bool" where
  "signedVote C key pk sig \<longleftrightarrow> (\<exists>m. voteKey C m = key \<and> IsReplicaMessage m \<and>
     mSignature m = Some \<lparr>sgPublicKey = pk, sgSignature = sig\<rparr> \<and> sig \<noteq> [] \<and> cyVerifyBytes C pk (Message_SignBytes C m) sig)"

definition wellCounted :: "crypt \<Rightarrow> validatorSet \<Rightarrow> u64 \<times> u64 \<times> bytes \<Rightarrow> voteSet \<Rightarrow> bool" where
  "wellCounted C vs key v \<longleftrightarrow>
     (let k = vtMultiKey v; vals = vsValidators vs; n = length vals in
      length (mkSignatures k) = n \<and> length (mkBitmap k) = (n + 7) div 8 \<and>
      vtTotalVotedPower v = sum_list (map cvVotingPower (membersAt (signedAt (mkBitmap k)) 0 vals)) \<and>
      voteKey C (vtVote v) = key \<and> IsReplicaMessage (vtVote v) \<and>
      (\<forall>i < n. if signedAt (mkBitmap k) i then signedVote C key (cvPublicKey (vals ! i)) (mkSignatures k ! i)
               else mkSignatures k ! i = []))"

definition ballots :: "bft \<Rightarrow> (u64 \<Rightarrow> u64 \<Rightarrow> (bytes \<times> voteSet) list) \<times> validatorSet" where
  "ballots b = (bVotes b, bValidatorSet b)"

definition ballotsOk :: "crypt \<Rightarrow> validatorSet \<Rightarrow> bft \<Rightarrow> bool" where
  "ballotsOk C vs b \<longleftrightarrow> bValidatorSet b = vs \<and>
     (\<forall>rnd ph payload v. (payload, v) \<in> set (bVotes b rnd ph) \<longrightarrow> wellCounted C vs (rnd, ph, payload) v)"

lemma set_update: "set (AList.update k v l) \<subseteq> insert (k, v) (set l)"
  by (induction l) auto

lemma byte_index: "i < n \<Longrightarrow> i div 8 < (n + 7) div (8 :: nat)"
  by auto

lemma wellCounted_new:
  assumes "IsReplicaMessage m"
  shows "wellCounted C vs (voteKey C m) \<lparr>vtVote = m, vtTotalVotedPower = 0, vtMultiKey = newMultiKey vs\<rparr>"
proof -
  let ?n = "length (vsValidators vs)"
  have bit: "\<not> signedAt (replicate ((?n + 7) div 8) 0) j" if "j < ?n" for j
    using byte_index [OF that] by (rule signedAt_empty)
  then have "membersAt (signedAt (replicate ((?n + 7) div 8) 0)) 0 (vsValidators vs) = []"
    by (intro membersAt_none) simp
  with bit show ?thesis using assms by (simp add: wellCounted_def newMultiKey_def Let_def)
qed


lemma wellCounted_add:
  assumes v: "wellCounted C vs key v" and i: "i < length (vsValidators vs)"
    and new: "\<not> signedAt (mkBitmap (vtMultiKey v)) i"
    and sig: "signedVote C key (cvPublicKey (vsValidators vs ! i)) sig"
    and k: "AddSigner sig i (vtMultiKey v) = Inr k"
  shows "wellCounted C vs key (v\<lparr>vtTotalVotedPower := vtTotalVotedPower v + cvVotingPower (vsValidators vs ! i), vtMultiKey := k\<rparr>)"
proof -
  let ?vals = "vsValidators vs" and ?bm = "mkBitmap (vtMultiKey v)" and ?sigs = "mkSignatures (vtMultiKey v)"
  have k': "k = \<lparr>mkSignatures = ?sigs[i := sig], mkBitmap = setBit ?bm i\<rparr>"
    using k by (simp add: AddSigner_def split: if_splits)
  have len: "length ?sigs = length ?vals" "length ?bm = (length ?vals + 7) div 8"
    using v by (simp_all add: wellCounted_def Let_def)
  have bit: "signedAt (setBit ?bm i) = (\<lambda>j. j = i \<or> signedAt ?bm j)"
    using signedAt_setBit [of i ?bm] byte_index [OF i] len(2) by (simp add: fun_eq_iff)
  have "sum_list (map cvVotingPower (membersAt (\<lambda>j. j = i \<or> signedAt ?bm j) 0 ?vals)) =
      sum_list (map cvVotingPower (membersAt (signedAt ?bm) 0 ?vals)) + cvVotingPower (?vals ! i)"
    using membersAt_insert [of "signedAt ?bm" 0 i ?vals] new i by simp
  with v len sig i show ?thesis
    by (auto simp: wellCounted_def Let_def k' bit nth_list_update)
qed

text \<open>A message that passed the checks of a replica message is signed by its sender.\<close>

lemma checks_Inr: "checks cs = Inr u \<longleftrightarrow> list_all (\<lambda>c. \<exists>u. c = Inr u) cs"
  by (induction cs) (auto split: sum.splits)

lemma checked_signature:
  assumes "CheckReplicaMessage C p m = Inr u" "IsReplicaMessage m"
  obtains sg where "mSignature m = Some sg" "signedVote C (voteKey C m) (sgPublicKey sg) (sgSignature sg)"
proof -
  have "checkSignature C (mSignature m) (Message_SignBytes C m) = Inr ()"
    using assms(1) by (auto simp: CheckReplicaMessage_def checks_Inr split: option.splits)
  then obtain sg where sg: "mSignature m = Some sg" "cyVerifyBytes C (sgPublicKey sg) (Message_SignBytes C m) (sgSignature sg)"
    "sgSignature sg \<noteq> []"
    by (auto simp: checkSignature_def checkSignatureBasic_def Let_def check_def split: option.splits sum.splits if_splits)
  then have "signedVote C (voteKey C m) (sgPublicKey sg) (sgSignature sg)"
    using assms(2) by (auto simp: signedVote_def intro!: exI [of _ m])
  then show thesis using that sg(1) by simp
qed

lemma ballots_getVoteSet:
  assumes "ballotsOk C vs b" "IsReplicaMessage m" "getVoteSet C m b = (r, b')"
  shows "ballotsOk C vs b'" "\<And>rnd ph payload. voteKey C m = (rnd, ph, payload) \<Longrightarrow> map_of (bVotes b' rnd ph) payload \<noteq> None"
proof -
  obtain rnd ph payload where key: "voteKey C m = (rnd, ph, payload)" by (metis prod_cases3)
  have new: "wellCounted C vs (rnd, ph, payload) \<lparr>vtVote = m, vtTotalVotedPower = 0, vtMultiKey = newMultiKey vs\<rparr>"
    using wellCounted_new [OF assms(2)] key by metis
  have b': "b' = snd (getVoteSet C m b)" using assms(3) by simp
  show "ballotsOk C vs b'"
    using assms(1) new
    by (auto simp: b' ballotsOk_def getVoteSet_def modify_run key Let_def)
  show "\<And>rnd ph payload. voteKey C m = (rnd, ph, payload) \<Longrightarrow> map_of (bVotes b' rnd ph) payload \<noteq> None"
    using key by (auto simp: b' getVoteSet_def modify_run Let_def map_add_def)
qed

lemma ballots_addSig:
  assumes ok: "ballotsOk C vs b" and m: "mSignature m = Some sg" "signedVote C (voteKey C m) (sgPublicKey sg) (sgSignature sg)"
    and found: "\<And>rnd ph payload. voteKey C m = (rnd, ph, payload) \<Longrightarrow> map_of (bVotes b rnd ph) payload \<noteq> None"
    and run: "addSigToVoteSet C m b = (r, b')"
  shows "ballotsOk C vs b'"
proof -
  obtain rnd ph payload where key: "voteKey C m = (rnd, ph, payload)" by (metis prod_cases3)
  obtain v where v: "map_of (bVotes b rnd ph) payload = Some v" using found [OF key] by auto
  let ?vals = "vsValidators vs" and ?k = "vtMultiKey v"
  have vs: "bValidatorSet b = vs" and wc: "wellCounted C vs (rnd, ph, payload) v"
    using ok map_of_SomeD [OF v] by (auto simp: ballotsOk_def)
  have len: "length (mkSignatures ?k) = length ?vals" using wc by (simp add: wellCounted_def Let_def)
  show ?thesis
  proof (cases "b' = b")
    case True
    with ok show ?thesis by simp
  next
    case False
    obtain val i where i: "GetValidatorAndIdx ?vals (sgPublicKey sg) = Some (val, i)"
      using run False by (auto simp: addSigToVoteSet_def key v vs m(1) Let_def split: option.splits)
    from GetValidatorAndIdx_Some [OF this] have idx: "i < length ?vals" "?vals ! i = val" "cvPublicKey val = sgPublicKey sg" by auto
    have off: "SignerEnabledAt (length (mkSignatures ?k)) (mkBitmap ?k) i = Inr False"
      using run False by (auto simp: addSigToVoteSet_def key v vs m(1) i Let_def split: sum.splits bool.splits)
    obtain k where k: "AddSigner (sgSignature sg) i ?k = Inr k"
      using idx(1) len by (simp add: AddSigner_def)
    have b': "b' = snd (setVoteSet C m (v\<lparr>vtTotalVotedPower := vtTotalVotedPower v + cvVotingPower val, vtMultiKey := k\<rparr>) b)"
      using run off k by (simp add: addSigToVoteSet_def key v vs m(1) i Let_def)
    have "wellCounted C vs (rnd, ph, payload) (v\<lparr>vtTotalVotedPower := vtTotalVotedPower v + cvVotingPower val, vtMultiKey := k\<rparr>)"
      using wellCounted_add [OF wc idx(1) _ _ k] SignerEnabledAt_Inr [OF off] m(2) idx key by simp
    with ok set_update show ?thesis
      by (fastforce simp: b' ballotsOk_def setVoteSet_def modify_run key Let_def)
  qed
qed


interpretation bal: engine_part ballots
  by unfold_locales (simp_all add: ballots_def)

lemma ballots_simps [simp]: "ballots (b\<lparr>bView := x\<rparr>) = ballots b" "ballots (b\<lparr>bSent := y\<rparr>) = ballots b"
  by (simp_all add: ballots_def)

lemma ballotsOk_cong: "ballots b' = ballots b \<Longrightarrow> ballotsOk C vs b' = ballotsOk C vs b"
  by (simp add: ballotsOk_def ballots_def)

lemma bal_send [quiet]: "keeps ballots (send e)" "keeps ballots (setPhase p)" "keeps ballots (SetWaitTimers x y)"
  unfolding send_def setPhase_def SetWaitTimers_def by (intro keeps_rules; simp)+

lemma bal_RunVDF [quiet]: "keeps ballots (RunVDF c K s)"
  unfolding RunVDF_def by (intro keeps_rules quiet)

lemma bal_RoundInterrupt [quiet]: "keeps ballots (RoundInterrupt c)"
  unfolding RoundInterrupt_def by (intro keeps_rules quiet) simp_all

lemma bal_sendVote [quiet]: "keeps ballots (sendVote C)"
  unfolding sendVote_def by (intro keeps_rules quiet)

lemma bal_timer [quiet]: "keeps ballots (SetTimerForNextPhase c t)"
  unfolding SetTimerForNextPhase_def Let_def by (intro keeps_rules quiet)

lemma bal_phases [quiet]:
  "keeps ballots (StartElectionPhase c C K)" "keeps ballots (StartElectionVotePhase C K)"
  "keeps ballots (StartProposePhase c C K)" "keeps ballots (StartProposeVotePhase c C K)"
  "keeps ballots (StartPrecommitPhase c C)" "keeps ballots (StartPrecommitVotePhase c C)"
  "keeps ballots (StartCommitPhase c C K)" "keeps ballots (StartCommitProcessPhase c C K)"
  unfolding StartElectionPhase_def StartElectionVotePhase_def StartProposePhase_def StartProposeVotePhase_def
    StartPrecommitPhase_def StartPrecommitVotePhase_def StartCommitPhase_def StartCommitProcessPhase_def Let_def
  by (intro keeps_rules quiet; simp)+

text \<open>The environment: the committee does not change during the run.\<close>

definition sameCommittee :: "validatorSet \<Rightarrow> controller \<Rightarrow> bftEvent \<Rightarrow> bft \<Rightarrow> bool" where
  "sameCommittee vs K e b \<longleftrightarrow>
     cnLoadCommittee K (cnLoadRootChainId K (cnChainHeight K)) (cnRootChainHeight K) = Inr vs"

definition preserves :: "(bft \<Rightarrow> bool) \<Rightarrow> 'a bm \<Rightarrow> bool" where
  "preserves P m \<longleftrightarrow> (\<forall>b. P b \<longrightarrow> P (snd (m b)))"

lemma preserves_keeps: "keeps ballots m \<Longrightarrow> preserves (ballotsOk C vs) m"
  unfolding preserves_def keeps_def by (metis ballotsOk_cong)

lemma preserves_bnd: "preserves P m \<Longrightarrow> (\<And>x. preserves P (f x)) \<Longrightarrow> preserves P (bnd m f)"
  by (auto simp: preserves_def bnd_run split: sum.splits)

lemma preserves_if: "(c \<Longrightarrow> preserves P m) \<Longrightarrow> (\<not> c \<Longrightarrow> preserves P n) \<Longrightarrow> preserves P (if c then m else n)"
  by simp

lemma preserves_seqm: "list_all (preserves P) ms \<Longrightarrow> preserves P (seqm ms)"
  by (induction ms) (simp_all add: preserves_bnd preserves_def [of P "ret ()"] ret_run)

lemma preserves_refresh:
  assumes "sameCommittee vs K e b0"
  shows "preserves (ballotsOk C vs) (RefreshRootChainInfo K)"
  using assms by (simp add: preserves_def RefreshRootChainInfo_def modify_run ballotsOk_def sameCommittee_def)

lemma preserves_rounds:
  assumes "sameCommittee vs K e b0"
  shows "preserves (ballotsOk C vs) (NewRound K n)" "preserves (ballotsOk C vs) (Pacemaker K)"
    "preserves (ballotsOk C vs) (NewHeight K k)"
proof -
  show r: "preserves (ballotsOk C vs) (NewRound K n)" for n
    unfolding NewRound_def using preserves_refresh [OF assms]
    by (intro preserves_seqm) (auto intro!: preserves_keeps keeps_rules)
  show "preserves (ballotsOk C vs) (Pacemaker K)"
    unfolding Pacemaker_def by (rule preserves_bnd [OF r]) (intro preserves_keeps keeps_rules, simp add: Let_def)
  have "preserves (ballotsOk C vs) (modify (\<lambda>b. b\<lparr>bVotes := (\<lambda>_ _. [])\<rparr>))"
    by (simp add: preserves_def modify_run ballotsOk_def)
  with r show "preserves (ballotsOk C vs) (NewHeight K k)"
    unfolding NewHeight_def
    by (intro preserves_seqm) (auto intro!: preserves_keeps keeps_rules quiet simp: ProposalsResetForNewCommittee_def Let_def)
qed

lemma preserves_HandlePhase:
  assumes "sameCommittee vs K e b0"
  shows "preserves (ballotsOk C' vs) (HandlePhase c C K)"
proof -
  have v: "preserves (ballotsOk C' vs) (SelfIsValidator c K)"
    using preserves_refresh [OF assms]
    by (auto simp: SelfIsValidator_def preserves_def bnd_run gets_run ret_run split: option.splits sum.splits)
  have "preserves (ballotsOk C' vs) (runPhase c C K p)" for p
    unfolding runPhase_def using preserves_rounds(2) [OF assms]
    by (intro preserves_if) (auto intro!: preserves_keeps quiet keeps_rules)
  with v show ?thesis
    unfolding HandlePhase_def
    by (intro preserves_if preserves_bnd preserves_keeps [OF keeps_simple(3)] preserves_keeps [OF bal_timer]
      preserves_keeps [OF bal.quiet_modify]) simp_all
qed


lemma preserves_AddVote:
  assumes "CheckReplicaMessage C p m = Inr u" "IsReplicaMessage m"
  shows "preserves (ballotsOk C vs) (AddVote c C K m)"
  unfolding preserves_def
proof (intro allI impI)
  fix b assume ok: "ballotsOk C vs b"
  obtain sg where sg: "mSignature m = Some sg" "signedVote C (voteKey C m) (sgPublicKey sg) (sgSignature sg)"
    using checked_signature [OF assms] .
  obtain r1 b1 where b1: "getVoteSet C m b = (r1, b1)" by force
  obtain r2 b2 where b2: "handleHighQCVDFAndEvidence c C K m b1 = (r2, b2)" by force
  obtain r3 b3 where b3: "addSigToVoteSet C m b2 = (r3, b3)" by force
  have r1: "r1 = Inr ()" using b1 by (simp add: getVoteSet_def modify_run)
  have same: "ballots b2 = ballots b1" by (rule keepsD [OF bal.quiet_attachments b2])
  then have votes: "bVotes b2 = bVotes b1" by (simp add: ballots_def)
  have ok2: "ballotsOk C vs b2" using ballots_getVoteSet(1) [OF ok assms(2) b1] ballotsOk_cong [OF same] by simp
  have "ballotsOk C vs b3"
    by (rule ballots_addSig [OF ok2 sg _ b3]) (use ballots_getVoteSet(2) [OF ok assms(2) b1] votes in simp)
  with ok2 show "ballotsOk C vs (snd (AddVote c C K m b))"
    by (cases r2) (simp_all add: AddVote_def bnd_run b1 b2 b3 r1 ret_run split: sum.splits)
qed

lemma preserves_handleChecked: "preserves (ballotsOk C vs) (handleChecked c C K p m)"
proof -
  have k: "preserves (ballotsOk C vs) (AddPacemakerMessage m)" "preserves (ballotsOk C vs) (AddPartialQC C m)"
    "preserves (ballotsOk C vs) (AddProposal m)" "preserves (ballotsOk C vs) (err e :: unit bm)" for e
    by (intro preserves_keeps quiet keeps_rules)+
  show ?thesis
    unfolding handleChecked_def by (auto intro: k preserves_AddVote split: sum.splits)
qed

lemma step_ballots:
  assumes "bft_step c C K e s t" "sameCommittee vs K e (fst s)" "ballotsOk C vs (fst s)"
  shows "ballotsOk C vs (fst t)"
  using assms
proof (cases rule: bft_step.cases)
  case (phase_timeout b b' w)
  have "ballotsOk C vs (b\<lparr>bTimer := None\<rparr>)"
    using assms(3) phase_timeout(2) ballotsOk_cong [of "b\<lparr>bTimer := None\<rparr>" b] by simp
  then have "ballotsOk C vs (snd (HandlePhase c C K (b\<lparr>bTimer := None\<rparr>)))"
    using preserves_HandlePhase [OF assms(2), of C c C] by (simp add: preserves_def)
  with phase_timeout show ?thesis by simp
next
  case (reset isRoot since b b' w)
  have "preserves (ballotsOk C vs) (HandleReset c K isRoot since)"
    unfolding HandleReset_def Let_def
    by (intro preserves_bnd preserves_rounds(3) [OF assms(2)] preserves_keeps quiet)
  then have "ballotsOk C vs (snd (HandleReset c K isRoot since b))"
    using assms(3) reset(2) by (simp add: preserves_def)
  with reset show ?thesis by simp
next
  case (process p m b r b')
  have "ballotsOk C vs (snd (handleChecked c C K p m b))"
    using preserves_handleChecked assms(3) process(2) by (simp add: preserves_def)
  with process show ?thesis by simp
next
  case (receive m b p b')
  then show ?thesis using assms(3) ballotsOk_cong [OF keepsD [OF bal.quiet_params receive(4)]] by simp
next
  case (receive_bad m b e b')
  then show ?thesis using assms(3) ballotsOk_cong [OF keepsD [OF bal.quiet_params receive_bad(4)]] by simp
qed

lemma run_ballots:
  assumes "bft_run c C (sameCommittee vs) s es t" "ballotsOk C vs (fst s)"
  shows "ballotsOk C vs (fst t)"
  using assms by (induction rule: bft_run.induct) (auto intro: step_ballots)

lemma majorityVote_Inr:
  assumes "majorityVote C m l = Inr (vote, sig)"
  obtains payload v where "(payload, v) \<in> set l" "vtTotalVotedPower v \<ge> m" "vtVote v = vote"
    "AggregateSignatures C (vtMultiKey v) = Inr (asSignature sig)" "asBitmap sig = mkBitmap (vtMultiKey v)"
proof -
  have "\<exists>payload v. (payload, v) \<in> set l \<and> vtTotalVotedPower v \<ge> m \<and> vtVote v = vote \<and>
      AggregateSignatures C (vtMultiKey v) = Inr (asSignature sig) \<and> asBitmap sig = mkBitmap (vtMultiKey v)"
    using assms
  proof (induction C m l rule: majorityVote.induct)
    case (2 C m p v vs)
    then show ?case by (cases "m \<le> vtTotalVotedPower v") (auto split: sum.splits, blast)
  qed simp
  then show thesis using that by blast
qed


section \<open>Certificates of a leader\<close>

lemma getSigners_loop_total:
  "i + length vs \<le> n \<Longrightarrow> length bm = (n + 7) div 8 \<Longrightarrow> \<exists>r. getSigners_loop n bm False i vs = Inr r"
proof (induction vs arbitrary: i)
  case Nil
  then show ?case by simp
next
  case (Cons v vs)
  have "SignerEnabledAt n bm i = Inr (signedAt bm i)"
    using Cons.prems byte_index [of i n] by (simp add: SignerEnabledAt_def signedAt_def)
  moreover obtain r where "getSigners_loop n bm False (Suc i) vs = Inr r" using Cons by fastforce
  ultimately show ?case by (cases r) auto
qed

lemma membersAt_index: "v \<in> set (membersAt P i vs) \<Longrightarrow> \<exists>j < length vs. P (i + j) \<and> vs ! j = v"
proof (induction vs arbitrary: i)
  case (Cons w vs)
  then consider "P i" "v = w" | "v \<in> set (membersAt P (Suc i) vs)" by (auto split: if_splits)
  then show ?case
  proof cases
    case 1
    then show ?thesis by (intro exI [of _ 0]) simp
  next
    case 2
    then obtain j where "j < length vs" "P (Suc i + j)" "vs ! j = v" using Cons.IH by blast
    then show ?thesis by (intro exI [of _ "Suc j"]) simp
  qed
qed simp

text \<open>
  C6: Certificates formed by a leader are genuine. As long as the committee does not change, whenever GetMajorityVote
  returns a vote and an aggregate signature, the signers of its bitmap hold the two thirds majority, each of them
  has signed the payload of the vote, and the aggregate signature passes the check of the replicas as a full
  certificate. (The mask accepts bitmaps of the right length, aggregation of valid signatures verifies,
  payload hashes do not collide.)
\<close>

theorem leader_certificates_genuine:
  assumes run: "bft_run c C (sameCommittee vs) (snd (Start K (New_bft c rootHeight h)), None) es (b, w)"
    and start: "sameCommittee vs K e b0" and set: "NewValidatorSet pkOk vals = Inr vs"
    and maj: "GetMajorityVote C b = Inr (vote, sig)"
    and mask: "\<And>bm. cyMaskOk C (length vals) bm = (length bm = (length vals + 7) div 8)"
    and hash: "\<And>m m'. voteKey C m = voteKey C m' \<Longrightarrow> Message_SignBytes C m = Message_SignBytes C m'"
    and agg: "\<And>sigs bm msg a. length sigs = length vals \<Longrightarrow>
      (\<And>i. i < length vals \<Longrightarrow> if signedAt bm i then sigs ! i \<noteq> [] \<and> cyVerifyBytes C (cvPublicKey (vals ! i)) msg (sigs ! i) else sigs ! i = []) \<Longrightarrow>
      cyAggregate C (filter (\<lambda>s. length s \<noteq> 0) sigs) bm = Inr a \<Longrightarrow>
      cyVerify C vs bm msg a \<and> length a = BLS12381SignatureSize"
  shows "(\<exists>keys pwr. GetSigners (cyMaskOk C) (asBitmap sig) vs = Inr (keys, pwr) \<and> vsMinimumMaj23 vs \<le> pwr \<and>
      (\<forall>pk \<in> set keys. \<exists>s. signedVote C (voteKey C vote) pk s)) \<and>
    AggregateSignature_Check (cyMaskOk C) (cyVerify C) (Message_SignBytes C vote) vs sig = Inr False"
proof -
  have vals: "vsValidators vs = vals" and n: "vals \<noteq> []"
    using set by (auto simp: NewValidatorSet_def Let_def split: if_splits)
  have "ballotsOk C vs (snd (Start K (New_bft c rootHeight h)))"
    using start by (simp add: Start_def New_bft_def modify_run ballotsOk_def sameCommittee_def)
  with run_ballots [OF run] have ok: "ballotsOk C vs b" by simp
  then have vs: "bValidatorSet b = vs" by (simp add: ballotsOk_def)
  obtain payload v where v: "(payload, v) \<in> set (bVotes b (vwRound (bView b)) (vwPhase (bView b) - 1))"
    "vsMinimumMaj23 vs \<le> vtTotalVotedPower v" "vtVote v = vote"
    "AggregateSignatures C (vtMultiKey v) = Inr (asSignature sig)" "asBitmap sig = mkBitmap (vtMultiKey v)"
    using majorityVote_Inr [OF maj [unfolded GetMajorityVote_def]] vs by metis
  from ok v(1) have "wellCounted C vs (voteKey C vote) v"
    by (auto simp: ballotsOk_def wellCounted_def Let_def v(3) [symmetric])
  then have len: "length (mkSignatures (vtMultiKey v)) = length vals" "length (asBitmap sig) = (length vals + 7) div 8"
    and power: "vtTotalVotedPower v = sum_list (map cvVotingPower (membersAt (signedAt (asBitmap sig)) 0 vals))"
    and signed: "\<And>i. i < length vals \<Longrightarrow> if signedAt (asBitmap sig) i
      then signedVote C (voteKey C vote) (cvPublicKey (vals ! i)) (mkSignatures (vtMultiKey v) ! i)
      else mkSignatures (vtMultiKey v) ! i = []"
    by (auto simp: wellCounted_def Let_def vals v(5))
  obtain keys pwr where loop: "getSigners_loop (length vals) (asBitmap sig) False 0 vals = Inr (keys, pwr)"
    using getSigners_loop_total [of 0 vals "length vals" "asBitmap sig"] len(2) by auto
  from getSigners_loop_spec [OF loop] have keys: "keys = map cvPublicKey (membersAt (signedAt (asBitmap sig)) 0 vals)"
    "pwr = vtTotalVotedPower v" using power by auto
  have get: "GetSigners (cyMaskOk C) (asBitmap sig) vs = Inr (keys, pwr)"
    using loop len(2) by (simp add: GetSigners_def getSigners_def vals mask Let_def)
  have "\<exists>s. signedVote C (voteKey C vote) pk s" if "pk \<in> set keys" for pk
    using that signed membersAt_index [of _ "signedAt (asBitmap sig)" 0 vals] keys(1) by force
  with get v(2) keys(2) have "\<exists>keys pwr. GetSigners (cyMaskOk C) (asBitmap sig) vs = Inr (keys, pwr) \<and>
      vsMinimumMaj23 vs \<le> pwr \<and> (\<forall>pk \<in> set keys. \<exists>s. signedVote C (voteKey C vote) pk s)" by auto
  moreover have "cyVerify C vs (asBitmap sig) (Message_SignBytes C vote) (asSignature sig) \<and> length (asSignature sig) = BLS12381SignatureSize"
  proof (rule agg [OF len(1)])
    show "cyAggregate C (filter (\<lambda>s. length s \<noteq> 0) (mkSignatures (vtMultiKey v))) (asBitmap sig) = Inr (asSignature sig)"
      using v(4,5) by (simp add: AggregateSignatures_def)
    fix i assume "i < length vals"
    have bytes: "cyVerifyBytes C pk (Message_SignBytes C vote) s \<and> s \<noteq> []" if "signedVote C (voteKey C vote) pk s" for pk s
      using that hash [of _ vote] unfolding signedVote_def by metis
    from signed [OF \<open>i < length vals\<close>] show "if signedAt (asBitmap sig) i then mkSignatures (vtMultiKey v) ! i \<noteq> [] \<and>
        cyVerifyBytes C (cvPublicKey (vals ! i)) (Message_SignBytes C vote) (mkSignatures (vtMultiKey v) ! i)
      else mkSignatures (vtMultiKey v) ! i = []"
      using bytes by (simp split: if_splits)
  qed
  then have "AggregateSignature_Check (cyMaskOk C) (cyVerify C) (Message_SignBytes C vote) vs sig = Inr False"
    using get v(2) keys(2) len(2) byte_index [of 0 "length vals"] n
    by (auto simp: AggregateSignature_Check_def AggregateSignature_CheckBasic_def mask vals)
  ultimately show ?thesis by blast
qed


text \<open>The vote of the other validator reaches the node of the example.\<close>

definition exampleBallot :: wire where
  "exampleBallot = emptyMessage\<lparr>
     mQc := Some (emptyQC\<lparr>qcHeader := Some (bView exampleElected), qcProposerKey := Some exampleKey\<rparr>),
     mSignature := Some \<lparr>sgPublicKey = exampleKey, sgSignature = replicate 96 1\<rparr>\<rparr>"

definition exampleParams :: validateMessageParams where
  "exampleParams = \<lparr>vmView = bView exampleVoted, vmVals = exampleSet, vmRootHeight = 2, vmHeight = 2,
     vmCHeightUpdated = 1, vmBlockHash = None, vmResultsHash = None\<rparr>"

definition exampleCounted :: voteSet where
  "exampleCounted = \<lparr>vtVote = exampleBallot, vtTotalVotedPower = 4,
     vtMultiKey = \<lparr>mkSignatures = [[], replicate 96 1], mkBitmap = [2]\<rparr>\<rparr>"

definition exampleMajority :: bft where
  "exampleMajority = exampleVoted\<lparr>bVotes := (\<lambda>_ _. [])(0 := (\<lambda>_. [])(2 := [([], exampleCounted)]))\<rparr>"

lemma exampleBallot_kind: "IsReplicaMessage exampleBallot" "\<not> IsPacemakerMessage exampleBallot"
  "voteKey exampleCrypt exampleBallot = (0, 2, [])"
  by (simp_all add: exampleBallot_def emptyMessage_def emptyQC_def IsReplicaMessage_def IsPacemakerMessage_def qcPhase_def
    voteKey_def exampleElected_fields exampleCrypt_def phase_defs)

lemma exampleBallot_fields: "mSignature exampleBallot = Some \<lparr>sgPublicKey = exampleKey, sgSignature = replicate 96 1\<rparr>"
  "mQc exampleBallot = Some (emptyQC\<lparr>qcHeader := Some (bView exampleElected), qcProposerKey := Some exampleKey\<rparr>)"
  "mHighQc exampleBallot = None" "mVdf exampleBallot = None" "mLastDoubleSignEvidence exampleBallot = []"
  by (simp_all add: exampleBallot_def emptyMessage_def)

lemma exampleKey_facts: "length exampleKey = 48" "[7] \<noteq> exampleKey"
proof -
  show l: "length exampleKey = 48" by (simp add: exampleKey_def)
  then show "[7] \<noteq> exampleKey" by (metis One_nat_def length_Cons list.size(3) numeral_eq_one_iff semiring_norm(85))
qed

lemma exampleSender: "GetValidatorAndIdx (vsValidators exampleSet) exampleKey =
    Some (\<lparr>cvPublicKey = exampleKey, cvVotingPower = 4, cvNetAddress = []\<rparr>, 1)"
  using exampleKey_facts(2) by (simp add: exampleSet_def)

lemma exampleSignature: "checkSignatureBasic (mSignature exampleBallot) = Inr ()"
  "checkSignature exampleCrypt (mSignature exampleBallot) x = Inr ()"
proof -
  show s: "checkSignatureBasic (mSignature exampleBallot) = Inr ()"
    using exampleKey_facts
    by (auto simp: checkSignatureBasic_def exampleBallot_fields check_def BLS12381PubKeySize_def BLS12381SignatureSize_def)
  then show "checkSignature exampleCrypt (mSignature exampleBallot) x = Inr ()"
    by (simp add: checkSignature_def check_def Let_def exampleCrypt_def)
qed

lemmas exampleSigned = exampleSignature [unfolded exampleBallot_fields(1)] exampleBallot_fields(1)

lemma exampleReceive:
  "GetValidateMessageParams exampleCrypt exampleBallot exampleVoted = (Inr exampleParams, exampleVoted)"
proof -
  have "ValidatorSet_GetValidator exampleSet exampleKey \<noteq> None" by (simp add: ValidatorSet_GetValidator_def exampleSender)
  then show ?thesis
    by (auto simp: GetValidateMessageParams_def exampleSigned bnd_def gets_run ret_run exampleVoted_run(3-7)
      exampleParams_def exampleElected_fields exampleCommittee_def)
qed

lemma exampleChecked: "CheckReplicaMessage exampleCrypt exampleParams exampleBallot = Inr ()"
proof -
  have "View_Check (vmView exampleParams) True (Some (bView exampleElected)) = Inr ()"
    by (simp add: View_Check_def exampleParams_def exampleVoted_run(3))
  moreover have "qcPhase (mQc exampleBallot) = Some Phase_ELECTION_VOTE"
    by (simp add: exampleBallot_fields qcPhase_def exampleElected_fields Phase_ELECTION_VOTE_def)
  ultimately show ?thesis
    by (simp add: CheckReplicaMessage_def exampleBallot_fields(2) exampleBallot_kind exampleSigned optLen_def
      exampleKey_facts BLS12381PubKeySize_def check_def)
qed

lemma exampleProcess:
  "handleChecked exampleConfig exampleCrypt exampleController exampleParams exampleBallot exampleVoted = (Inr (), exampleMajority)"
proof -
  let ?new = "\<lparr>vtVote = exampleBallot, vtTotalVotedPower = 0, vtMultiKey = newMultiKey exampleSet\<rparr>"
  let ?b = "exampleVoted\<lparr>bVotes := (\<lambda>_ _. [])(0 := (\<lambda>_. [])(2 := [([], ?new)]))\<rparr>"
  have key: "newMultiKey exampleSet = \<lparr>mkSignatures = [[], []], mkBitmap = [0]\<rparr>"
    by (simp add: newMultiKey_def exampleSet_def numeral_2_eq_2)
  have get: "getVoteSet exampleCrypt exampleBallot exampleVoted = (Inr (), ?b)"
    by (simp add: getVoteSet_def modify_run exampleBallot_kind exampleVoted_run(4,7))
  have attach: "handleHighQCVDFAndEvidence exampleConfig exampleCrypt exampleController exampleBallot ?b = (Inr (), ?b)"
    by (simp add: handleHighQCVDFAndEvidence_def exampleBallot_fields(3-5) when_m_def bnd_def ret_run)
  have vs: "bValidatorSet ?b = exampleSet" by (simp add: exampleVoted_run(7))
  have off: "SignerEnabledAt (Suc (Suc 0)) [0] (Suc 0) = Inr False" by (simp add: SignerEnabledAt_def)
  have on: "AddSigner (replicate 96 1) (Suc 0) \<lparr>mkSignatures = [[], []], mkBitmap = [0]\<rparr> =
      Inr \<lparr>mkSignatures = [[], replicate 96 1], mkBitmap = [2]\<rparr>"
    by (simp add: AddSigner_def setBit_def)
  have "addSigToVoteSet exampleCrypt exampleBallot ?b = (Inr (), exampleMajority)"
    unfolding addSigToVoteSet_def vs exampleBallot_fields(1) Let_def
    by (simp add: exampleBallot_kind exampleSender [unfolded One_nat_def] key off on setVoteSet_def modify_run exampleMajority_def exampleCounted_def)
  with get attach show ?thesis
    by (simp add: handleChecked_def exampleBallot_kind exampleChecked AddVote_def bnd_def ret_run)
qed


lemma exampleMajorityRun:
  "bft_run exampleConfig exampleCrypt (sameCommittee exampleSet) (exampleStart, None)
     [(exampleController, Process), (exampleController, Receive exampleBallot), (exampleController, PhaseTimeout),
      (exampleController, PhaseTimeout), (exampleController, Reset False 0)]
     (exampleMajority, None)"
proof -
  have "sameCommittee exampleSet exampleController e b" for e b
    by (simp add: sameCommittee_def exampleController_def)
  then show ?thesis
    using exampleReset_run exampleElected_eq(1) exampleVoted_run(1) exampleReset_fields(5) exampleElected_eq(3)
      exampleReceive exampleProcess
    by (auto intro!: bft_run.intros bft_step.intros)
qed

lemma exampleMajority_vote:
  "GetMajorityVote exampleCrypt exampleMajority = Inr (exampleBallot, \<lparr>asSignature = replicate 96 0, asBitmap = [2]\<rparr>)"
proof -
  have "vsMinimumMaj23 (bValidatorSet exampleMajority) = 3" "vwRound (bView exampleMajority) = 0" "vwPhase (bView exampleMajority) = 3"
    by (simp_all add: exampleMajority_def exampleVoted_run(3,7) exampleElected_fields exampleSet_def)
  moreover have "bVotes exampleMajority 0 2 = [([], exampleCounted)]" by (simp add: exampleMajority_def)
  ultimately show ?thesis
    by (simp add: GetMajorityVote_def exampleCounted_def AggregateSignatures_def unat_le_iff) (simp add: exampleCrypt_def)
qed

theorem leader_certificates_genuine_witness:
  "GetMajorityVote exampleCrypt exampleMajority = Inr (exampleBallot, \<lparr>asSignature = replicate 96 0, asBitmap = [2]\<rparr>) \<and>
   (\<exists>keys pwr. GetSigners (cyMaskOk exampleCrypt) [2] exampleSet = Inr (keys, pwr) \<and> vsMinimumMaj23 exampleSet \<le> pwr \<and>
      (\<forall>pk \<in> set keys. \<exists>s. signedVote exampleCrypt (voteKey exampleCrypt exampleBallot) pk s)) \<and>
   AggregateSignature_Check (cyMaskOk exampleCrypt) (cyVerify exampleCrypt) (Message_SignBytes exampleCrypt exampleBallot)
     exampleSet \<lparr>asSignature = replicate 96 0, asBitmap = [2]\<rparr> = Inr False"
proof -
  have start: "sameCommittee exampleSet exampleController PhaseTimeout exampleStart"
    by (simp add: sameCommittee_def exampleController_def)
  have set: "NewValidatorSet (\<lambda>_. True) (vsValidators exampleSet) = Inr exampleSet"
    by (simp add: NewValidatorSet_def exampleSet_def)
  have bytes: "Message_SignBytes exampleCrypt m = []" for m
    by (simp add: Message_SignBytes_def SignBytes_def exampleCrypt_def split: option.splits)
  note fields = exampleCrypt_def [THEN arg_cong, of cyMaskOk, simplified] exampleCrypt_def [THEN arg_cong, of cyAggregate, simplified]
    exampleCrypt_def [THEN arg_cong, of cyVerify, simplified]
  have "(\<exists>keys pwr. GetSigners (cyMaskOk exampleCrypt) (asBitmap \<lparr>asSignature = replicate 96 0, asBitmap = [2]\<rparr>) exampleSet = Inr (keys, pwr) \<and>
      vsMinimumMaj23 exampleSet \<le> pwr \<and> (\<forall>pk \<in> set keys. \<exists>s. signedVote exampleCrypt (voteKey exampleCrypt exampleBallot) pk s)) \<and>
   AggregateSignature_Check (cyMaskOk exampleCrypt) (cyVerify exampleCrypt) (Message_SignBytes exampleCrypt exampleBallot)
     exampleSet \<lparr>asSignature = replicate 96 0, asBitmap = [2]\<rparr> = Inr False"
    by (rule leader_certificates_genuine [OF exampleMajorityRun [unfolded exampleStart_def] start set exampleMajority_vote])
       (auto simp: bytes fields BLS12381SignatureSize_def)
  with exampleMajority_vote show ?thesis by simp
qed

end
