(* ===== verification/Locking.thy ===== *)
theory Locking
  imports Phases
begin

text \<open>
  Locks and votes of a replica: what a vote says about the proposal, when a replica locks and what its lock does
  not protect, and what happens to shared certificates when a block is committed.
\<close>

section \<open>The safe node predicate\<close>

text \<open>
  C16: What the safe node predicate does not protect. A proposal with any block at all is accepted by a locked
  replica if its results hash to the results of the lock; for any proposal a certificate without any signature
  unlocks the replica; and the check of proposer messages does not look at that certificate.
\<close>

theorem safe_node_gaps:
  assumes "mQc msg = Some qc" "qcHeader lock = Some lh" "vwRound lh < MaxUint64"
  shows "(resultsHash C (qcResults qc) = optList (qcResultsHash lock) \<longrightarrow> SafeNode C lock (msg\<lparr>mHighQc := Some lock\<rparr>) = Inr ()) \<and>
    (\<exists>forged. qcSignature forged = None \<and> SafeNode C lock (msg\<lparr>mHighQc := Some forged\<rparr>) = Inr ()) \<and>
    (checkSignature C (mSignature msg) (Message_SignBytes C (msg\<lparr>mHighQc := q\<rparr>)) = checkSignature C (mSignature msg) (Message_SignBytes C msg)
      \<longrightarrow> CheckProposerMessage C K p (msg\<lparr>mHighQc := q\<rparr>) = CheckProposerMessage C K p msg)"
proof (intro conjI impI)
  assume "resultsHash C (qcResults qc) = optList (qcResultsHash lock)"
  then show "SafeNode C lock (msg\<lparr>mHighQc := Some lock\<rparr>) = Inr ()"
    using assms(1) by (simp add: SafeNode_def)
next
  have "vwRound lh < vwRound lh + 1"
    using assms(3) unat_add_exact [of "vwRound lh" 1] by (simp add: unat_less_iff)
  then show "\<exists>forged. qcSignature forged = None \<and> SafeNode C lock (msg\<lparr>mHighQc := Some forged\<rparr>) = Inr ()"
    using assms(1,2)
    by (intro exI [of _ "emptyQC\<lparr>qcHeader := Some (lh\<lparr>vwRound := vwRound lh + 1\<rparr>),
      qcBlockHash := optList (BlockToHash C (qcBlock qc))\<rparr>"]) (simp add: SafeNode_def emptyQC_def)
next
  assume "checkSignature C (mSignature msg) (Message_SignBytes C (msg\<lparr>mHighQc := q\<rparr>)) = checkSignature C (mSignature msg) (Message_SignBytes C msg)"
  then have "Message_checkBasic C v (msg\<lparr>mHighQc := q\<rparr>) = Message_checkBasic C v msg" for v
    by (simp add: Message_checkBasic_def)
  moreover have "mHeader (msg\<lparr>mHighQc := q\<rparr>) = mHeader msg" "mVrf (msg\<lparr>mHighQc := q\<rparr>) = mVrf msg"
    "mQc (msg\<lparr>mHighQc := q\<rparr>) = mQc msg" "mSignature (msg\<lparr>mHighQc := q\<rparr>) = mSignature msg" by simp_all
  moreover have "checkJustified p (msg\<lparr>mHighQc := q\<rparr>) = checkJustified p msg"
    by (simp add: fun_eq_iff checkJustified_def)
  ultimately show "CheckProposerMessage C K p (msg\<lparr>mHighQc := q\<rparr>) = CheckProposerMessage C K p msg"
    by (simp only: CheckProposerMessage_def)
qed


section \<open>Votes follow from checks\<close>

lemma GetBlockHash_run:
  assumes "GetBlockHash C b = (r, b')"
  shows "r = Inr (if bBlockHash b = None then BlockToHash C (bBlock b) else bBlockHash b)"
    "b' = b\<lparr>bBlockHash := if bBlockHash b = None then BlockToHash C (bBlock b) else bBlockHash b\<rparr>"
  using assms by (auto simp: GetBlockHash_def split: option.splits)


lemma RoundInterrupt_votes: "RoundInterrupt c b = (Inr (), b') \<Longrightarrow> votesOf (bSent b') = votesOf (bSent b)"
  using movesD [OF moves_RoundInterrupt refl, of c b "()" b'] by (auto simp: idle_def snap_def)

lemma GetProposal_run: "GetProposal b = (r, b') \<Longrightarrow> b' = b"
  by (auto simp: GetProposal_def getProposal_def split: option.splits list.splits)

text \<open>The vote a replica sends, in the state it sends it.\<close>

definition theVote :: "crypt \<Rightarrow> bft \<Rightarrow> effect" where
  "theVote C b = ToProposer (bProposerKey b) (emptyMessage\<lparr>mQc := Some (emptyQC\<lparr>qcHeader := Some (bView b),
     qcBlockHash := optList (if bBlockHash b = None then BlockToHash C (bBlock b) else bBlockHash b),
     qcResultsHash := Some (resultsHash C (bResults b)), qcProposerKey := bProposerKey b\<rparr>)\<rparr>)"

lemma sendVote_run: "sendVote C b = (r, b') \<Longrightarrow> bSent b' = bSent b @ [theVote C b] \<and> bHighQC b' = bHighQC b \<and> bQCs b' = bQCs b"
  by (auto simp: sendVote_def bnd_def gets_run send_def modify_run GetBlockHash_def theVote_def split: option.splits)

lemma RunVDF_sent: "\<exists>l. snd (RunVDF c K h x) = x\<lparr>bSent := l\<rparr>"
proof -
  have "snd (RunVDF c K h x) = x \<or> (\<exists>s. snd (RunVDF c K h x) = x\<lparr>bSent := bSent x @ [StartVDF s]\<rparr>)"
    by (auto simp: RunVDF_def ret_run send_def modify_run bnd_def gets_run err_run split: option.splits sum.splits)
  moreover have "x = x\<lparr>bSent := bSent x\<rparr>" by simp
  ultimately show ?thesis by metis
qed



lemma CheckProposer_ok:
  assumes "CheckProposerAndProposal C msg b = (Inr False, b1)" "mSignature msg = Some sg" "mQc msg = Some qc"
  defines "h \<equiv> if bBlockHash b = None then BlockToHash C (bBlock b) else bBlockHash b"
  shows "sgPublicKey sg = optList (bProposerKey b)" "b1 = b\<lparr>bBlockHash := h\<rparr>" "optList h = qcBlockHash qc"
    "resultsHash C (bResults b) = optList (qcResultsHash qc)"
proof -
  obtain x where x: "GetBlockHash C b = (Inr x, b1)" "sgPublicKey sg = optList (bProposerKey b)"
    "optList x = qcBlockHash qc" "resultsHash C (bResults b) = optList (qcResultsHash qc)"
    using assms(1) by (auto simp: CheckProposerAndProposal_def assms(2,3) bnd_Inr gets_run ret_run IsProposer_def split: if_splits)
  from GetBlockHash_run [OF x(1)] x(2-4)
  show "sgPublicKey sg = optList (bProposerKey b)" "b1 = b\<lparr>bBlockHash := h\<rparr>" "optList h = qcBlockHash qc"
    "resultsHash C (bResults b) = optList (qcResultsHash qc)"
    by (simp_all add: h_def)
qed

text \<open>
  C14: A replica that sends a precommit vote is locked from then on: the lock is the certificate of the leader's
  message with the block and results of the round, the message came from the leader of the round, and the vote names the
  hashes of that certificate.
\<close>

theorem precommit_votes_lock:
  assumes "StartPrecommitVotePhase c C b = (Inr (), b')" "votesOf (bSent b') \<noteq> votesOf (bSent b)"
    "\<And>m a. GetProposal b = (Inr (Some m), b) \<Longrightarrow> mQc m = Some a \<Longrightarrow> a < length (bQCs b)"
  shows "\<exists>stored a sg. GetProposal b = (Inr (Some stored), b) \<and> mQc stored = Some a \<and> mSignature stored = Some sg \<and>
    sgPublicKey sg = optList (bProposerKey b) \<and>
    highQC b' = Some ((qcAt b a)\<lparr>qcBlock := bBlock b, qcResults := bResults b\<rparr>) \<and>
    (\<exists>k m v. last (bSent b') = ToProposer k m \<and> mQc m = Some v \<and> qcHeader v = Some (bView b) \<and>
       qcBlockHash v = qcBlockHash (qcAt b a) \<and> optList (qcResultsHash v) = optList (qcResultsHash (qcAt b a)))"
proof -
  obtain m where m: "GetProposal b = (Inr m, b)"
    using assms(1) GetProposal_run by (auto simp: StartPrecommitVotePhase_def bnd_Inr)
  have no: "\<not> RoundInterrupt c b1 = (Inr (), b')" if "bSent b1 = bSent b" for b1
    using RoundInterrupt_votes [of c b1 b'] assms(2) that by auto
  obtain stored where stored: "m = Some stored"
    using assms(1) no [of b] by (auto simp: StartPrecommitVotePhase_def bnd_Inr m split: option.splits)
  obtain sg qc where sg: "mSignature (loadMessage b stored) = Some sg" "mQc (loadMessage b stored) = Some qc"
    using assms(1) by (auto simp: StartPrecommitVotePhase_def CheckProposerAndProposal_def bnd_Inr m stored gets_run err_run split: option.splits)
  then obtain a where a: "mQc stored = Some a" "qc = qcAt b a" and sg': "mSignature stored = Some sg"
    by (auto simp: loadMessage_def)
  obtain i b1 where i: "CheckProposerAndProposal C (loadMessage b stored) b = (Inr i, b1)"
    and rest: "(if i then RoundInterrupt c else bnd (gets id) (\<lambda>b'. seqm
             [modify (\<lambda>x. x\<lparr>bHighQC := Some a, bRCBuildHeight := mRcBuildHeight (loadMessage b stored)\<rparr>),
              setQC a (\<lambda>q. q\<lparr>qcBlock := bBlock b', qcResults := bResults b'\<rparr>), sendVote C])) b1 = (Inr (), b')"
    using assms(1) by (auto simp: StartPrecommitVotePhase_def bnd_Inr m stored gets_run a(1) simp del: seqm.simps cong: if_cong)
  have "snap b1 = snap b" using keepsD [OF snap.quiet_CheckProposer i] .
  then have "\<not> i"
    using rest RoundInterrupt_votes [of c b1 b'] assms(2) by (auto simp: snap_def)
  with i have ok: "CheckProposerAndProposal C (loadMessage b stored) b = (Inr False, b1)" by simp
  note checked = CheckProposer_ok [OF ok sg]
  obtain b2 where b2: "b2 = b1\<lparr>bHighQC := Some a, bRCBuildHeight := mRcBuildHeight (loadMessage b stored),
      bQCs := (bQCs b)[a := (qcAt b a)\<lparr>qcBlock := bBlock b, qcResults := bResults b\<rparr>]\<rparr>" "sendVote C b2 = (Inr (), b')"
    using rest \<open>\<not> i\<close> checked(2) by (auto simp: bnd_Inr gets_run modify_run ret_run setQC_def qcAt_def)
  have len: "a < length (bQCs b)" using assms(3) m stored a(1) by simp
  have "highQC b' = Some ((qcAt b a)\<lparr>qcBlock := bBlock b, qcResults := bResults b\<rparr>)"
    using sendVote_run [OF b2(2)] b2(1) len by (simp add: highQC_def qcAt_def)
  moreover have "last (bSent b') = theVote C b2" using sendVote_run [OF b2(2)] by simp
  moreover have "bView b2 = bView b" "bResults b2 = bResults b" "bBlock b2 = bBlock b"
    "bBlockHash b2 = (if bBlockHash b = None then BlockToHash C (bBlock b) else bBlockHash b)"
    using b2(1) checked(2) by simp_all
  ultimately show ?thesis
    using m stored a sg' checked(1,3,4) by (auto simp: theVote_def optList_def split: if_splits)
qed


section \<open>A commit with a partial certificate at hand\<close>

lemma CheckBasic_same:
  assumes "qcHeader x = Some h" "qcHeader y = Some h"
  shows "DoubleSignEvidence_CheckBasic \<lparr>deVoteA = Some x, deVoteB = Some y\<rparr> = Inr ()"
  using assms by (simp add: DoubleSignEvidence_CheckBasic_def evidenceHeader_def check_def View_Equals_def)

lemma shared_certificate_erased:
  assumes header: "qcHeader (qcAt s a) = Some h" "qcHeader (qcAt s p) = Some h" "vwHeight h = vwHeight (bView s)"
    and props: "bProposals s (vwRound h) = Some f" "f (vwPhase h + 1) = Some (m # ms)" "mQc m = Some a"
    and a: "a < length (bQCs s)" "p \<noteq> a"
  shows "\<exists>dse s'. addDSEByPartialQC C K p d s = (Inr dse, s') \<and> qcAt s' a = bareVote (qcAt s a) \<and> bSent s' = bSent s"
proof -
  have "\<exists>dse. addDSEByPartialQC C K p d s = bnd (setQC a bareVote) (\<lambda>_. bnd (setQC p bareVote) (\<lambda>_. ret dse)) s"
    using header props CheckBasic_same [OF header(1,2)]
    by (simp add: addDSEByPartialQC_def addSharedDSE_def Let_def split: sum.split) blast
  then show ?thesis
    using a by (auto simp: bnd_def setQC_def modify_run ret_run qcAt_def)
qed

text \<open>
  If the node holds a partial certificate for the view of the certificate it is about to commit, the search for
  double signs erases the block of the committed certificate, because both are the same object: the block the node
  sends to itself for committing is empty, whatever block was agreed on.
\<close>

theorem partial_certificate_erases_commit:
  assumes props: "bProposals b (vwRound (bView b)) = Some f" "f Phase_COMMIT = Some (stored # ms)"
    and phase: "vwPhase (bView b) = Phase_COMMIT_PROCESS"
    and a: "mQc stored = Some a" "a < length (bQCs b)"
    and check: "CheckProposerAndProposal C (loadMessage b stored) b = (Inr False, b1)"
    and partial: "bPartialQCs b = [(key, p)]" "p \<noteq> a"
    and header: "qcHeader (qcAt b a) = Some h" "qcHeader (qcAt b p) = Some h" "vwPhase h = Phase_PRECOMMIT_VOTE"
      "vwHeight h = vwHeight (bView b)" "vwRound h = vwRound (bView b)"
  shows "\<exists>b' q. StartCommitProcessPhase c C K b = (Inr (), b') \<and> SelfBlock q (mTimestamp stored) \<in> set (bSent b') \<and>
    qcBlockHash q = qcBlockHash (qcAt b a) \<and> qcBlock q = None"
proof -
  have get: "GetProposal b = (Inr (Some stored), b)"
    using props phase by (simp add: GetProposal_def getProposal_def phase_defs)
  obtain sg qc where sg: "mSignature (loadMessage b stored) = Some sg" "mQc (loadMessage b stored) = Some qc"
    using check by (auto simp: CheckProposerAndProposal_def err_run split: option.splits)
  note b1 = CheckProposer_ok(2) [OF check sg]
  let ?q = "(qcAt b a)\<lparr>qcBlock := bBlock b, qcResults := bResults b\<rparr>"
  let ?b2 = "b1\<lparr>bQCs := (bQCs b)[a := ?q]\<rparr>"
  have at: "qcAt ?b2 a = ?q" "qcAt ?b2 p = qcAt b p" "length (bQCs ?b2) = length (bQCs b)" "bPartialQCs ?b2 = [(key, p)]"
    "bProposals ?b2 = bProposals b" "bView ?b2 = bView b"
    using a partial b1 by (simp_all add: qcAt_def)
  obtain dse b3 where b3: "GetLocalDSE C K ?b2 = (Inr dse, b3)" "qcAt b3 a = bareVote ?q" "bSent b3 = bSent b"
  proof -
    have "qcHeader (qcAt ?b2 a) = Some h" "qcHeader (qcAt ?b2 p) = Some h" "vwHeight h = vwHeight (bView ?b2)"
      "bProposals ?b2 (vwRound h) = Some f" "f (vwPhase h + 1) = Some (stored # ms)" "a < length (bQCs ?b2)"
      unfolding at using header props a by (simp_all add: phase_defs)
    from shared_certificate_erased [OF this(1-5) a(1) this(6) partial(2)]
    obtain dse b3 where "addDSEByPartialQC C K p (NewDSE []) ?b2 = (Inr dse, b3)" "qcAt b3 a = bareVote ?q"
      "bSent b3 = bSent ?b2" unfolding at(1) by blast
    moreover have "bSent ?b2 = bSent b" using b1 by simp
    ultimately show thesis
      using that by (simp add: GetLocalDSE_def bnd_def gets_run at(4) ret_run)
  qed
  have "StartCommitProcessPhase c C K b = (Inr (), b3\<lparr>bEvidence := dse,
      bSent := bSent b @ [SelfBlock (bareVote ?q) (mTimestamp stored), Gossip (bareVote ?q) (mTimestamp stored)]\<rparr>)"
  proof -
    have set: "setQC a (\<lambda>q. q\<lparr>qcBlock := bBlock b1, qcResults := bResults b1\<rparr>) b1 = (Inr (), ?b2)"
      using b1 by (simp add: setQC_def modify_run qcAt_def)
    have time: "mTimestamp (loadMessage b stored) = mTimestamp stored" by (simp add: loadMessage_def)
    show ?thesis
      using b3 by (simp add: StartCommitProcessPhase_def bnd_def get gets_run check a(1) set modify_run send_def ret_run time qcAt_def)
  qed
  then show ?thesis by (auto simp: bareVote_def)
qed

section \<open>Examples\<close>

text \<open>A node in height 2, round 0; a proposal of the other validator and its certificates.\<close>

definition roundView :: "u64 \<Rightarrow> view" where
  "roundView p = \<lparr>vwHeight = 2, vwRootHeight = 2, vwRound = 0, vwPhase = p, vwNetworkId = 1, vwChainId = 1\<rparr>"

definition roundQC :: "u64 \<Rightarrow> quorumCertificate" where
  "roundQC p = emptyQC\<lparr>qcHeader := Some (roundView p), qcBlockHash := [1], qcResultsHash := Some [],
     qcProposerKey := Some exampleKey\<rparr>"

definition roundStored :: "u64 \<Rightarrow> nat bftMessage" where
  "roundStored p = emptyMessage\<lparr>mHeader := Some (roundView p), mQc := Some 0,
     mSignature := Some \<lparr>sgPublicKey = exampleKey, sgSignature = replicate 96 1\<rparr>, mRcBuildHeight := 1\<rparr>"

definition roundNode :: "u64 \<Rightarrow> bft" where
  "roundNode p = (New_bft exampleConfig 2 2)\<lparr>bView := roundView p, bValidatorSet := exampleSet,
     bCommitteeData := Some exampleCommittee, bProposals := [0 \<mapsto> [p - 1 \<mapsto> [roundStored (p - 1)]]]\<rparr>"

definition exampleValidating :: controller where
  "exampleValidating = exampleController\<lparr>cnValidateProposal := (\<lambda>_ _ _. (Some [], None))\<rparr>"

lemma exampleBlockHash: "BlockToHash exampleCrypt (Some x) = Some x"
  by (simp add: BlockToHash_def exampleCrypt_def)

theorem safe_node_gaps_witness:
  "BlockToHash exampleCrypt (Some [9]) \<noteq> Some (qcBlockHash (roundQC 4)) \<and>
   SafeNode exampleCrypt (roundQC 4) (emptyMessage\<lparr>mQc := Some (emptyQC\<lparr>qcBlock := Some [9]\<rparr>), mHighQc := Some (roundQC 4)\<rparr>) = Inr ()"
proof -
  have *: "BlockToHash exampleCrypt (Some [9]) = Some [9]" "qcBlockHash (roundQC 4) = [1]"
    by (simp_all add: BlockToHash_def exampleCrypt_def roundQC_def)
  have "resultsHash exampleCrypt None = optList (qcResultsHash (roundQC 4))"
    by (simp add: resultsHash_def exampleCrypt_def roundQC_def optList_def)
  with * safe_node_gaps [of "emptyMessage\<lparr>mQc := Some (emptyQC\<lparr>qcBlock := Some [9]\<rparr>)\<rparr>" "emptyQC\<lparr>qcBlock := Some [9]\<rparr>"
      "roundQC 4" "roundView 4" exampleCrypt None exampleController undefined]
  show ?thesis by (simp add: roundQC_def roundView_def emptyQC_def unat_less_iff)
qed

definition examplePace :: wire where
  "examplePace = emptyMessage\<lparr>mQc := Some (emptyQC\<lparr>qcHeader := Some (roundView 9)\<rparr>),
     mSignature := Some \<lparr>sgPublicKey = exampleKey, sgSignature = replicate 96 1\<rparr>\<rparr>"


lemma exampleVoteRun:
  defines "b \<equiv> (roundNode 4)\<lparr>bQCs := [(roundQC 2)\<lparr>qcBlock := Some [1]\<rparr>]\<rparr>"
  shows "\<exists>b'. StartProposeVotePhase exampleConfig exampleCrypt exampleValidating b = (Inr (), b') \<and>
    votesOf (bSent b') \<noteq> votesOf (bSent b)"
proof -
  have "GetProposal b = (Inr (Some (roundStored 3)), b)"
    by (simp add: GetProposal_def getProposal_def b_def roundNode_def roundView_def)
  moreover have "loadMessage b (roundStored 3) = emptyMessage\<lparr>mHeader := Some (roundView 3),
      mQc := Some ((roundQC 2)\<lparr>qcBlock := Some [1]\<rparr>),
      mSignature := Some \<lparr>sgPublicKey = exampleKey, sgSignature = replicate 96 1\<rparr>, mRcBuildHeight := 1\<rparr>"
    by (simp add: loadMessage_def roundStored_def emptyMessage_def b_def qcAt_def)
  moreover have "bCommitteeData b = Some exampleCommittee" "bHighQC b = None" "bSent b = []" "bBlockHash b = None" "\<not> cfRunVDF exampleConfig"
    "cnValidateProposal exampleValidating = (\<lambda>_ _ _. (Some [], None))" "cdLastRootHeightUpdated exampleCommittee = 1"
    by (simp_all add: b_def roundNode_def New_bft_def exampleConfig_def exampleValidating_def exampleCommittee_def)
  ultimately show ?thesis
    by (simp add: StartProposeVotePhase_def bnd_def gets_run modify_run highQC_def sendVote_def GetBlockHash_def send_def
      ret_run ignore_err_run RunVDF_def voteHeader_def emptyMessage_def Let_def exampleBlockHash)
qed



lemma examplePrecommitRun:
  defines "b \<equiv> (roundNode 6)\<lparr>bQCs := [roundQC 4], bProposerKey := Some exampleKey, bBlock := Some [1]\<rparr>"
  shows "GetProposal b = (Inr (Some (roundStored 5)), b)"
    "\<exists>b'. StartPrecommitVotePhase exampleConfig exampleCrypt b = (Inr (), b') \<and> votesOf (bSent b') \<noteq> votesOf (bSent b)"
proof -
  show get: "GetProposal b = (Inr (Some (roundStored 5)), b)"
    by (simp add: GetProposal_def getProposal_def b_def roundNode_def roundView_def)
  have load: "loadMessage b (roundStored 5) = emptyMessage\<lparr>mHeader := Some (roundView 5), mQc := Some (roundQC 4),
      mSignature := Some \<lparr>sgPublicKey = exampleKey, sgSignature = replicate 96 1\<rparr>, mRcBuildHeight := 1\<rparr>"
    by (simp add: loadMessage_def roundStored_def emptyMessage_def b_def qcAt_def)
  have fields: "bProposerKey b = Some exampleKey" "bBlock b = Some [1]" "bBlockHash b = None" "bResults b = None" "bSent b = []"
    "mQc (roundStored 5) = Some 0" "qcBlockHash (roundQC 4) = [1]" "qcResultsHash (roundQC 4) = Some []"
    "resultsHash exampleCrypt None = []"
    by (simp_all add: b_def roundNode_def New_bft_def roundStored_def roundQC_def resultsHash_def exampleCrypt_def)
  have "CheckProposerAndProposal exampleCrypt (loadMessage b (roundStored 5)) b = (Inr False, b\<lparr>bBlockHash := Some [1]\<rparr>)"
    by (simp add: CheckProposerAndProposal_def load bnd_def gets_run ret_run IsProposer_def fields GetBlockHash_def
      exampleBlockHash optList_def)
  then show "\<exists>b'. StartPrecommitVotePhase exampleConfig exampleCrypt b = (Inr (), b') \<and> votesOf (bSent b') \<noteq> votesOf (bSent b)"
    by (simp add: StartPrecommitVotePhase_def bnd_def get gets_run modify_run fields setQC_def sendVote_def GetBlockHash_def
      send_def ret_run voteHeader_def emptyMessage_def)
qed

theorem precommit_votes_lock_witness:
  "\<exists>b' a. highQC b' = Some ((qcAt ((roundNode 6)\<lparr>bQCs := [roundQC 4], bProposerKey := Some exampleKey, bBlock := Some [1]\<rparr>) a)
     \<lparr>qcBlock := Some [1], qcResults := None\<rparr>)"
proof -
  let ?b = "(roundNode 6)\<lparr>bQCs := [roundQC 4], bProposerKey := Some exampleKey, bBlock := Some [1]\<rparr>"
  obtain b' where run: "StartPrecommitVotePhase exampleConfig exampleCrypt ?b = (Inr (), b')" "votesOf (bSent b') \<noteq> votesOf (bSent ?b)"
    using examplePrecommitRun(2) by blast
  have len: "\<And>m a. GetProposal ?b = (Inr (Some m), ?b) \<Longrightarrow> mQc m = Some a \<Longrightarrow> a < length (bQCs ?b)"
    using examplePrecommitRun(1) by (auto simp: roundStored_def)
  have
    "\<exists>a. highQC b' = Some ((qcAt ?b a)\<lparr>qcBlock := bBlock ?b, qcResults := bResults ?b\<rparr>)"
    using precommit_votes_lock [OF run] len by meson
  moreover have "bBlock ?b = Some [1]" "bResults ?b = None" by (simp_all add: roundNode_def New_bft_def)
  ultimately show ?thesis by auto
qed

theorem partial_certificate_erases_commit_witness:
  "\<exists>b' q. StartCommitProcessPhase exampleConfig exampleCrypt exampleController
      ((roundNode 8)\<lparr>bQCs := [roundQC 6, (roundQC 6)\<lparr>qcBlockHash := [2]\<rparr>], bPartialQCs := [([], 1)],
        bProposerKey := Some exampleKey, bBlock := Some [1]\<rparr>) = (Inr (), b') \<and>
    SelfBlock q 0 \<in> set (bSent b') \<and> qcBlockHash q = [1] \<and> qcBlock q = None"
proof -
  let ?b = "(roundNode 8)\<lparr>bQCs := [roundQC 6, (roundQC 6)\<lparr>qcBlockHash := [2]\<rparr>], bPartialQCs := [([], 1)],
        bProposerKey := Some exampleKey, bBlock := Some [1]\<rparr>"
  have load: "loadMessage ?b (roundStored 7) = emptyMessage\<lparr>mHeader := Some (roundView 7), mQc := Some (roundQC 6),
      mSignature := Some \<lparr>sgPublicKey = exampleKey, sgSignature = replicate 96 1\<rparr>, mRcBuildHeight := 1\<rparr>"
    by (simp add: loadMessage_def roundStored_def emptyMessage_def qcAt_def)
  have fields: "bBlockHash ?b = None" "bResults ?b = None" "qcBlockHash (roundQC 6) = [1]" "qcResultsHash (roundQC 6) = Some []"
    "resultsHash exampleCrypt None = []" "qcHeader (roundQC 6) = Some (roundView 6)"
    by (simp_all add: roundNode_def New_bft_def roundQC_def resultsHash_def exampleCrypt_def)
  have check: "CheckProposerAndProposal exampleCrypt (loadMessage ?b (roundStored 7)) ?b = (Inr False, ?b\<lparr>bBlockHash := Some [1]\<rparr>)"
    unfolding load using fields
    by (simp add: CheckProposerAndProposal_def bnd_def gets_run ret_run IsProposer_def GetBlockHash_def exampleBlockHash optList_def)
  have view: "bView (roundNode 8) = roundView 8" "bProposals (roundNode 8) = [0 \<mapsto> [7 \<mapsto> [roundStored 7]]]" "mQc (roundStored 7) = Some 0"
    "mTimestamp (roundStored 7) = 0"
    by (simp_all add: roundNode_def roundStored_def emptyMessage_def)
  have "\<exists>b' q. StartCommitProcessPhase exampleConfig exampleCrypt exampleController ?b = (Inr (), b') \<and>
      SelfBlock q (mTimestamp (roundStored 7)) \<in> set (bSent b') \<and> qcBlockHash q = qcBlockHash (qcAt ?b 0) \<and> qcBlock q = None"
    by (rule partial_certificate_erases_commit [OF _ _ _ view(3) _ check, where f = "[7 \<mapsto> [roundStored 7]]" and ms = "[]" and
        h = "roundView 6" and p = 1 and key = "[]"])
       (simp_all add: view roundView_def phase_defs qcAt_def fields(6))
  with view(4) fields(3) show ?thesis by (simp add: qcAt_def)
qed

end
