(* ===== verification/Equivocation.thy ===== *)
theory Equivocation
  imports Votes
begin

text \<open>
  Evidence of double signing: what an accepted slash proves, and that no correct replica is ever
  slashed for double signing.
\<close>

section \<open>What evidence proves\<close>

text \<open>
  Two certificates of one view after the proposal with different payloads, both with a valid aggregate signature of the
  committee, and a member of that committee that is marked as signer of both.
\<close>

definition doubleSigned ::
    "crypt \<Rightarrow> controller \<Rightarrow> doubleSignEvidence \<Rightarrow> bytes \<Rightarrow> u64 \<Rightarrow> bool" where
  "doubleSigned C K x pk r \<longleftrightarrow> (\<exists>va vb h sa sb vs i. deVoteA x = Some va \<and> deVoteB x = Some vb \<and>
     qcHeader va = Some h \<and> qcHeader vb = Some h \<and> vwRootHeight h = r \<and> Phase_PROPOSE < vwPhase h \<and>
     QuorumCertificate_CheckBasic (cyCodec C) (Some va) = Inr () \<and> QuorumCertificate_CheckBasic (cyCodec C) (Some vb) = Inr () \<and>
     SignBytes (cyCodec C) va \<noteq> SignBytes (cyCodec C) vb \<and> qcSignature va = Some sa \<and> qcSignature vb = Some sb \<and>
     cnLoadCommittee K (cnLoadRootChainId K (r - 1)) r = Inr vs \<and>
     cyVerify C vs (asBitmap sa) (SignBytes (cyCodec C) va) (asSignature sa) \<and>
     cyVerify C vs (asBitmap sb) (SignBytes (cyCodec C) vb) (asSignature sb) \<and>
     i < length (vsValidators vs) \<and> cvPublicKey (vsValidators vs ! i) = pk \<and>
     signedAt (asBitmap sa) i \<and> signedAt (asBitmap sb) i \<and>
     cnIsValidDoubleSigner K (cnLoadRootChainId K (r - 1)) r (cyAddressOf C pk))"

lemma GetDoubleSigners_loop_mem:
  "GetDoubleSigners_loop n x y i vs = Inr ks \<Longrightarrow> pk \<in> set ks \<Longrightarrow>
     \<exists>j < length vs. cvPublicKey (vs ! j) = pk \<and> signedAt x (i + j) \<and> signedAt y (i + j)"
proof (induction vs arbitrary: i ks)
  case (Cons v vs)
  obtain d where d: "SignerEnabledAt n x i = Inr d"
    using Cons.prems(1) by (auto split: sum.splits)
  have tail: ?case if "GetDoubleSigners_loop n x y (Suc i) vs = Inr ks'" "pk \<in> set ks'" for ks'
  proof -
    from Cons.IH [OF that] obtain j where "j < length vs" "cvPublicKey (vs ! j) = pk"
      "signedAt x (Suc i + j)" "signedAt y (Suc i + j)" by blast
    then show ?thesis by (intro exI [of _ "Suc j"]) simp
  qed
  show ?case
  proof (cases d)
    case False
    with Cons.prems d tail show ?thesis by simp
  next
    case True
    then obtain d2 ks' where d2: "SignerEnabledAt n y i = Inr d2"
      "GetDoubleSigners_loop n x y (Suc i) vs = Inr ks'" "ks = (if d2 then cvPublicKey v # ks' else ks')"
      using Cons.prems(1) d by (auto split: sum.splits)
    show ?thesis
    proof (cases "pk \<in> set ks'")
      case True
      with tail d2 show ?thesis by blast
    next
      case False
      then have "d2" "pk = cvPublicKey v" using d2(3) Cons.prems(2) by (auto split: if_splits)
      with SignerEnabledAt_Inr [OF d] SignerEnabledAt_Inr [OF d2(1)] \<open>d\<close> show ?thesis
        by (intro exI [of _ 0]) simp
    qed
  qed
qed simp

lemma checkVote_Inr:
  assumes "checkVote C vs vw (Some q) = Inr ()" "qcSignature q = Some sig"
  shows "QuorumCertificate_CheckBasic (cyCodec C) (Some q) = Inr ()"
    "cyVerify C vs (asBitmap sig) (SignBytes (cyCodec C) q) (asSignature sig)"
  using assms
  by (auto simp: checkVote_def QuorumCertificate_Check_def AggregateSignature_Check_def split: sum.splits if_splits)

lemma View_Equals_eq: "View_Equals (Some x) (Some y) \<longleftrightarrow> x = y"
  by (auto simp: View_Equals_def)

definition proven :: "crypt \<Rightarrow> controller \<Rightarrow> doubleSignEvidence list \<Rightarrow> doubleSigner list \<Rightarrow> bool" where
  "proven C K xs ds \<longleftrightarrow> (\<forall>d \<in> set ds. optList (dsHeights d) \<noteq> [] \<and>
     (\<forall>r \<in> set (optList (dsHeights d)). \<exists>x \<in> set xs. doubleSigned C K x (optList (dsId d)) r))"

lemma proven_mono: "proven C K xs ds \<Longrightarrow> set xs \<subseteq> set ys \<Longrightarrow> proven C K ys ds"
  unfolding proven_def by blast

lemma proven_addSigner:
  "proven C K xs ds \<Longrightarrow> x \<in> set xs \<Longrightarrow> doubleSigned C K x pk h \<Longrightarrow> proven C K xs (addSigner pk h ds)"
proof (induction ds)
  case Nil
  then show ?case by (auto simp: proven_def optList_def)
next
  case (Cons d ds)
  then have "proven C K xs (addSigner pk h ds)" by (simp add: proven_def)
  with Cons.prems show ?case by (auto simp: proven_def AddHeight_def optList_def)
qed

lemma proven_addSigners:
  assumes "addSigners C K rc h pks ds = Inr ds'" "proven C K xs ds" "x \<in> set xs"
    "\<And>pk. pk \<in> set pks \<Longrightarrow> cnIsValidDoubleSigner K rc h (cyAddressOf C pk) \<Longrightarrow> doubleSigned C K x pk h"
  shows "proven C K xs ds'"
  using assms
proof (induction pks arbitrary: ds)
  case (Cons pk pks)
  let ?ds = "if cnIsValidDoubleSigner K rc h (cyAddressOf C pk) then addSigner pk h ds else ds"
  have "proven C K xs ?ds" using Cons.prems by (simp add: proven_addSigner)
  with Cons show ?case by (auto split: if_splits)
qed simp

lemma processOne_proven:
  assumes "processOne C K vw x ds = Inr ds'" "proven C K xs ds" "x \<in> set xs"
  shows "proven C K xs ds'"
proof -
  obtain va vb h where v: "deVoteA x = Some va" "deVoteB x = Some vb" "qcHeader va = Some h" "qcHeader vb = Some h"
    using assms(1)
    by (auto simp: processOne_def DoubleSignEvidence_CheckBasic_def evidenceHeader_def View_Equals_eq check_def
      split: sum.splits option.splits if_splits)
  let ?r = "vwRootHeight h" and ?rc = "cnLoadRootChainId K (vwRootHeight h - 1)"
  obtain vs me where vs: "cnLoadCommittee K ?rc ?r = Inr vs" "cnLoadMinimumEvidenceHeight K ?rc ?r = Inr me"
    "DoubleSignEvidence_Check C vs vw me x = Inr ()" "SignBytes (cyCodec C) vb \<noteq> SignBytes (cyCodec C) va"
    using assms(1) by (auto simp: processOne_def v evidenceHeader_def Let_def split: sum.splits if_splits)
  obtain sa sb signers where s: "qcSignature va = Some sa" "qcSignature vb = Some sb"
    "GetDoubleSigners (cyMaskOk C) (asBitmap sa) (asBitmap sb) vs = Inr signers"
    "addSigners C K ?rc ?r signers ds = Inr ds'"
    using assms(1) vs by (auto simp: processOne_def v evidenceHeader_def Let_def split: sum.splits if_splits option.splits)
  have chk: "checkVote C vs vw (Some va) = Inr ()" "checkVote C vs vw (Some vb) = Inr ()" "Phase_PROPOSE < vwPhase h"
    using vs(3) by (auto simp: DoubleSignEvidence_Check_def v check_def linorder_not_le split: sum.splits if_splits)
  show ?thesis
  proof (rule proven_addSigners [OF s(4) assms(2,3)])
    fix pk assume pk: "pk \<in> set signers" "cnIsValidDoubleSigner K ?rc ?r (cyAddressOf C pk)"
    have "GetDoubleSigners_loop (length (vsValidators vs)) (asBitmap sa) (asBitmap sb) 0 (vsValidators vs) = Inr signers"
      using s(3) by (simp add: GetDoubleSigners_def Let_def split: if_splits)
    from GetDoubleSigners_loop_mem [OF this pk(1)] obtain i where "i < length (vsValidators vs)"
      "cvPublicKey (vsValidators vs ! i) = pk" "signedAt (asBitmap sa) i" "signedAt (asBitmap sb) i" by auto
    with v vs(1,4) s(1,2) pk(2) checkVote_Inr [OF chk(1) s(1)] checkVote_Inr [OF chk(2) s(2)] chk(3)
    show "doubleSigned C K x pk ?r" unfolding doubleSigned_def by metis
  qed
qed

lemma ProcessDSE_proven:
  "ProcessDSE C K vw ys ds = Inr ds' \<Longrightarrow> proven C K xs ds \<Longrightarrow> set ys \<subseteq> set xs \<Longrightarrow> proven C K xs ds'"
  by (induction ys arbitrary: ds) (auto split: sum.splits dest: processOne_proven)

lemma accepted_slash_proven:
  assumes "ValidateByzantineEvidence C K vw (Some ds) be = Inr ()" "d \<in> set ds"
  shows "(\<exists>x \<in> set (evEvidence be). \<exists>r. doubleSigned C K x (optList (dsId d)) r) \<and>
    (\<forall>r \<in> set (optList (dsHeights d)). \<exists>x \<in> set (evEvidence be). doubleSigned C K x (optList (dsId d)) r)"
proof -
  obtain signers e where s: "ProcessDSE C K vw (evEvidence be) [] = Inr signers" "e \<in> set signers"
    "optList (dsId d) = optList (dsId e)" "set (optList (dsHeights d)) \<subseteq> set (optList (dsHeights e))"
    using assms by (fastforce simp: ValidateByzantineEvidence_def list_all_iff list_ex_iff split: if_splits sum.splits)
  from ProcessDSE_proven [OF s(1), of "evEvidence be"] have p: "proven C K (evEvidence be) signers"
    by (simp add: proven_def)
  then have h: "optList (dsHeights e) \<noteq> []"
    "\<And>r. r \<in> set (optList (dsHeights e)) \<Longrightarrow> \<exists>x \<in> set (evEvidence be). doubleSigned C K x (optList (dsId d)) r"
    using s(2,3) by (simp_all add: proven_def)
  with s(4) h(2) [OF hd_in_set [OF h(1)]] show ?thesis by blast
qed

text \<open>
  C12: Every slash for double signing that a node accepts with a proposal is proven by the evidence that came with
  it: for each height there are two certificates of one view with different payloads and valid aggregate
  signatures of the committee of that height, and the slashed validator is a member that signed both and has not been
  slashed for that height before.
\<close>

theorem accepted_slashes_proven:
  assumes "ValidateByzantineEvidence C K vw (Some ds) be = Inr ()" "d \<in> set ds"
  shows "(\<exists>x \<in> set (evEvidence be). \<exists>r. doubleSigned C K x (optList (dsId d)) r) \<and>
    (\<forall>r \<in> set (optList (dsHeights d)). \<exists>x \<in> set (evEvidence be). doubleSigned C K x (optList (dsId d)) r)"
  using assms by (rule accepted_slash_proven)

section \<open>Correct replicas\<close>

text \<open>Votes are never sent to the replicas: the part of the state that would hold such a message.\<close>

definition strays :: "bft \<Rightarrow> effect list" where
  "strays b = filter (\<lambda>e. case e of ToReplicas m \<Rightarrow> IsReplicaMessage m | _ \<Rightarrow> False) (bSent b)"

interpretation str: tally_part strays
  by unfold_locales (simp_all add: strays_def)

lemma strays_simps [simp]:
  "strays (b\<lparr>bValidatorSet := x4\<rparr>) = strays b" "strays (b\<lparr>bView := v\<rparr>) = strays b"
  by (simp_all add: strays_def)

lemma str_send [quiet]: "(\<And>m. e = ToReplicas m \<Longrightarrow> \<not> IsReplicaMessage m) \<Longrightarrow> keeps strays (send e)"
  unfolding send_def by (intro keeps_rules) (auto simp: strays_def split: effect.splits)

lemma proposal_no_vote [simp]: "mHeader m = Some h \<Longrightarrow> \<not> IsReplicaMessage m"
  by (simp add: IsReplicaMessage_def)

lemma str_timer [quiet]: "keeps strays (setPhase p)" "keeps strays (SetWaitTimers x y)" "keeps strays (SetTimerForNextPhase c t)"
  unfolding SetTimerForNextPhase_def setPhase_def SetWaitTimers_def Let_def by (intro keeps_rules; simp)+

lemma str_RunVDF [quiet]: "keeps strays (RunVDF c K s)"
  unfolding RunVDF_def by (intro keeps_rules quiet) simp_all

lemma str_sendVote [quiet]: "keeps strays (sendVote C)"
  unfolding sendVote_def by (intro keeps_rules quiet) simp_all

lemma str_RoundInterrupt [quiet]: "keeps strays (RoundInterrupt c)"
  by (simp add: keeps_def RoundInterrupt_def setPhase_def send_def bnd_run modify_run gets_run ret_run strays_def
    IsReplicaMessage_def qcPhase_def emptyQC_def emptyMessage_def phase_defs)

lemma str_rounds [quiet]: "keeps strays (RefreshRootChainInfo K)" "keeps strays (NewRound K n)" "keeps strays (NewHeight K k)"
  "keeps strays (Pacemaker K)"
  unfolding NewHeight_def Pacemaker_def NewRound_def RefreshRootChainInfo_def ProposalsResetForNewCommittee_def Let_def
  by (intro keeps_rules quiet; simp add: Let_def)+

lemma str_phases [quiet]:
  "keeps strays (StartElectionPhase c C K)" "keeps strays (StartElectionVotePhase C K)"
  "keeps strays (StartProposePhase c C K)" "keeps strays (StartProposeVotePhase c C K)"
  "keeps strays (StartPrecommitPhase c C)" "keeps strays (StartPrecommitVotePhase c C)"
  "keeps strays (StartCommitPhase c C K)" "keeps strays (StartCommitProcessPhase c C K)"
  unfolding StartElectionPhase_def StartElectionVotePhase_def StartProposePhase_def StartProposeVotePhase_def
    StartPrecommitPhase_def StartPrecommitVotePhase_def StartCommitPhase_def StartCommitProcessPhase_def Let_def
  by (intro keeps_rules quiet; simp)+

lemma str_HandlePhase: "keeps strays (HandlePhase c C K)"
  unfolding HandlePhase_def runPhase_def SelfIsValidator_def by (intro keeps_rules quiet; simp)

lemma run_strays: "bft_run c C E s es t \<Longrightarrow> strays (fst t) = strays (fst s)"
proof (induction rule: bft_run.induct)
  case (run_Cons es t K e u)
  have r: "keeps strays (HandleReset c K x y)" for x y
    unfolding HandleReset_def Let_def by (intro keeps_rules quiet)
  from run_Cons.hyps(3) have "strays (fst u) = strays (fst t)"
  proof (cases rule: bft_step.cases)
    case (phase_timeout b b' w)
    with keepsD [OF str_HandlePhase phase_timeout(5)] show ?thesis by simp
  qed (auto dest: keepsD [OF r] keepsD [OF str.quiet_params] keepsD [OF str.quiet_handleChecked])
  with run_Cons.IH show ?case by simp
qed simp

text \<open>What a node has signed for others to see.\<close>

definition signedBy :: "crypt \<Rightarrow> bft \<Rightarrow> bytes set" where
  "signedBy C b = {Message_SignBytes C m | m. ToReplicas m \<in> set (bSent b) \<or> (\<exists>k. ToProposer k m \<in> set (bSent b))}"

lemma sorted_votes_unique:
  assumes "sorted_wrt R (votesOf l)" "\<And>v. \<not> R v v" "x \<in> set l" "y \<in> set l" "voteHeader x = [h]" "voteHeader y = [h]"
  shows "x = y"
  using assms
proof (induction l)
  case (Cons z l)
  have sub: "h \<in> set (votesOf l)" if "u \<in> set l" "voteHeader u = [h]" for u
    using that by (force simp: votesOf_def)
  have "\<not> (voteHeader z = [h] \<and> h \<in> set (votesOf l))"
  proof
    assume z: "voteHeader z = [h] \<and> h \<in> set (votesOf l)"
    then have "R h h" using Cons.prems(1) by (simp add: sorted_wrt_append)
    with Cons.prems(2) show False by blast
  qed
  with Cons sub show ?case by (auto simp: sorted_wrt_append)
qed simp


section \<open>Examples\<close>

text \<open>A codec that writes views in unary, and signatures that never count the key of the example node.\<close>

definition viewBytes :: "view \<Rightarrow> bytes" where
  "viewBytes v = concat (map (\<lambda>x. replicate (unat x) 1 @ [0])
     [vwHeight v, vwRootHeight v, vwRound v, vwPhase v, vwNetworkId v, vwChainId v])"

definition signingCrypt :: crypt where
  "signingCrypt = exampleCrypt\<lparr>
     cyCodec := (cyCodec exampleCrypt)\<lparr>cMarshalQC := (\<lambda>q. case qcHeader q of None \<Rightarrow> [] | Some v \<Rightarrow> 2 # viewBytes v @ qcBlockHash q)\<rparr>,
     cyMarshalMessage := (\<lambda>_. [3]),
     cyVerify := (\<lambda>vs bm _ _. list_all (\<lambda>i. signedAt bm i \<longrightarrow> cvPublicKey (vsValidators vs ! i) \<noteq> [7]) [0..<length (vsValidators vs)])\<rparr>"

definition equivocation :: "byte \<Rightarrow> quorumCertificate" where
  "equivocation n = emptyQC\<lparr>
     qcHeader := Some \<lparr>vwHeight = 2, vwRootHeight = 2, vwRound = 0, vwPhase = 4, vwNetworkId = 1, vwChainId = 1\<rparr>,
     qcBlockHash := replicate 32 n, qcResultsHash := Some (replicate 32 0),
     qcSignature := Some \<lparr>asSignature = replicate 96 0, asBitmap = [2]\<rparr>\<rparr>"

definition exampleEvidence :: evidences where
  "exampleEvidence = NewDSE [\<lparr>deVoteA = Some (equivocation 0), deVoteB = Some (equivocation 1)\<rparr>]"

lemma unary_inject: "replicate m (1 :: byte) @ 0 # xs = replicate n 1 @ 0 # ys \<longleftrightarrow> m = n \<and> xs = ys"
proof (induction m arbitrary: n)
  case 0
  then show ?case by (cases n) auto
next
  case (Suc m)
  then show ?case by (cases n) auto
qed

lemma viewBytes_inject: "viewBytes v @ xs = viewBytes w @ ys \<Longrightarrow> v = w"
  by (simp add: viewBytes_def unary_inject word_unat_eq_iff)

lemma signing_SignBytes:
  "qcHeader q = Some v \<Longrightarrow> \<exists>xs. SignBytes (cyCodec signingCrypt) q = 2 # viewBytes v @ xs"
  "qcHeader q = None \<Longrightarrow> SignBytes (cyCodec signingCrypt) q = []"
  by (auto simp: SignBytes_def signingCrypt_def)

lemma signing_codec:
  assumes "Message_SignBytes signingCrypt m = SignBytes (cyCodec signingCrypt) q" "qcHeader q = Some vw"
  shows "IsReplicaMessage m \<and> map_option qcHeader (mQc m) = Some (Some vw)"
proof -
  obtain xs where q: "SignBytes (cyCodec signingCrypt) q = 2 # viewBytes vw @ xs" using signing_SignBytes(1) [OF assms(2)] by auto
  have marshal: "cyMarshalMessage signingCrypt x = [3]" for x by (simp add: signingCrypt_def)
  from assms(1) have m: "IsReplicaMessage m" "\<not> IsProposerMessage m"
    by (auto simp: Message_SignBytes_def q marshal split: if_splits)
  then obtain v where v: "mQc m = Some v" by (auto simp: IsReplicaMessage_def qcPhase_def split: option.splits)
  let ?v = "v\<lparr>qcBlock := None, qcResults := None, qcSignature := None\<rparr>"
  have eq: "SignBytes (cyCodec signingCrypt) ?v = 2 # viewBytes vw @ xs"
    using assms(1) m by (simp add: Message_SignBytes_def q v)
  show ?thesis
  proof (cases "qcHeader v")
    case None
    with eq signing_SignBytes(2) [of ?v] show ?thesis by simp
  next
    case (Some w)
    then obtain ys where "SignBytes (cyCodec signingCrypt) ?v = 2 # viewBytes w @ ys"
      using signing_SignBytes(1) [of ?v w] by auto
    with eq viewBytes_inject [of w ys vw xs] have "w = vw" by simp
    with m(1) v Some show ?thesis by simp
  qed
qed

lemma exampleKey_other: "exampleKey \<noteq> [7]"
  by (auto simp: exampleKey_def dest: arg_cong [where f = length])

lemma equivocation_check:
  "checkVote signingCrypt exampleSet (bView exampleReset) (Some (equivocation n)) = Inr ()"
  by (simp add: checkVote_def QuorumCertificate_Check_def QuorumCertificate_CheckBasic_def equivocation_def emptyQC_def
    signingCrypt_def exampleCrypt_def exampleSet_def exampleKey_other HashSize_def check_def checks.simps AggregateSignature_CheckBasic_def
    BLS12381SignatureSize_def View_Check_def AggregateSignature_Check_def exampleReset_fields GetSigners_def getSigners_def
    SignerEnabledAt_def signedAt_def upt_rec)

lemma equivocation_bytes: "SignBytes (cyCodec signingCrypt) (equivocation 0) \<noteq> SignBytes (cyCodec signingCrypt) (equivocation 1)"
  by (simp add: SignBytes_def signingCrypt_def equivocation_def Phase_ELECTION_VOTE_def)

lemma exampleSlash:
  "ValidateByzantineEvidence signingCrypt exampleController (bView exampleReset)
     (Some [\<lparr>dsId = Some exampleKey, dsHeights = Some [2]\<rparr>]) exampleEvidence = Inr ()"
proof -
  let ?x = "\<lparr>deVoteA = Some (equivocation 0), deVoteB = Some (equivocation 1)\<rparr>"
  have hdr: "qcHeader (equivocation n) = Some \<lparr>vwHeight = 2, vwRootHeight = 2, vwRound = 0, vwPhase = 4, vwNetworkId = 1, vwChainId = 1\<rparr>"
    "qcBlock (equivocation n) = None" "qcResults (equivocation n) = None"
    "qcSignature (equivocation n) = Some \<lparr>asSignature = replicate 96 0, asBitmap = [2]\<rparr>" for n
    by (simp_all add: equivocation_def emptyQC_def)
  have K: "cnLoadCommittee exampleController x y = Inr exampleSet" "cnLoadMinimumEvidenceHeight exampleController x y = Inr 0"
    "cnIsValidDoubleSigner exampleController x y z" for x y z
    by (simp_all add: exampleController_def)
  have "DoubleSignEvidence_Check signingCrypt exampleSet (bView exampleReset) 0 ?x = Inr ()"
    using equivocation_bytes by (simp add: DoubleSignEvidence_Check_def hdr check_def checks.simps equivocation_check View_Equals_eq Phase_PROPOSE_def)
  moreover have "GetDoubleSigners (cyMaskOk signingCrypt) [2] [2] exampleSet = Inr [exampleKey]"
    by (simp add: GetDoubleSigners_def signingCrypt_def exampleCrypt_def exampleSet_def SignerEnabledAt_def)
  moreover have "cyPkOk signingCrypt k" for k by (simp add: signingCrypt_def exampleCrypt_def)
  ultimately have "processOne signingCrypt exampleController (bView exampleReset) ?x [] = Inr [\<lparr>dsId = Some exampleKey, dsHeights = Some [2]\<rparr>]"
    using equivocation_bytes
    by (simp add: processOne_def DoubleSignEvidence_CheckBasic_def evidenceHeader_def hdr check_def checks.simps View_Equals_eq K Let_def)
  then show ?thesis by (simp add: ValidateByzantineEvidence_def exampleEvidence_def NewDSE_def optList_def)
qed

theorem accepted_slashes_proven_witness:
  "\<exists>x \<in> set (evEvidence exampleEvidence). doubleSigned signingCrypt exampleController x exampleKey 2"
  using accepted_slashes_proven [OF exampleSlash] by (simp add: optList_def)

lemma slashRun:
  "bft_run exampleConfig C progressing (exampleStart, None) [(exampleController, Reset False 0)] (exampleReset, None)"
proof -
  have "progressing exampleController (Reset False 0) exampleStart"
    by (simp add: progressing_def heightsOf_def exampleController_def viewHeights_def exampleStart_fields less_eq_prod_def unat_less_iff)
  then show ?thesis using exampleReset_run by (auto intro!: bft_run.intros bft_step.intros)
qed


end
