(* ===== verification/Pacing.thy ===== *)
theory Pacing
  imports Phases
begin

text \<open>The pacemaker: which round a replica joins after a round failed.\<close>

text \<open>The power behind the votes for a round or a later one, and the power a node waits for before it joins them.\<close>

definition votePower :: "validatorSet \<Rightarrow> wire \<Rightarrow> nat" where
  "votePower vs m = (case ValidatorSet_GetValidator vs (sgPublicKey (the (mSignature m))) of None \<Rightarrow> 0 | Some v \<Rightarrow> unat (cvVotingPower v))"

definition reportedPower :: "validatorSet \<Rightarrow> wire list \<Rightarrow> u64 \<Rightarrow> nat" where
  "reportedPower vs ms r = sum_list (map (votePower vs) (filter (\<lambda>m. r \<le> voteRound m) ms))"

definition joinPower :: "validatorSet \<Rightarrow> nat" where
  "joinPower vs = unat (Uint64ReducePercentage (vsMinimumMaj23 vs) 50)"

lemma sum_list_mset: "sum_list (map f xs) = sum_mset (image_mset f (mset xs))"
  by (induction xs) simp_all

lemma reportedPower_mset: "mset ms = mset ms' \<Longrightarrow> reportedPower vs ms r = reportedPower vs ms' r"
  by (simp add: reportedPower_def sum_list_mset)

lemma reportedPower_le: "reportedPower vs ms r \<le> sum_list (map (votePower vs) ms)"
  unfolding reportedPower_def by (induction ms) auto

lemma votePower_Some:
  "ValidatorSet_GetValidator vs (sgPublicKey (the (mSignature m))) = Some v \<Longrightarrow> votePower vs m = unat (cvVotingPower v)"
  by (simp add: votePower_def)

lemma reportedPower_Cons:
  "reportedPower vs (m # ms) r = (if r \<le> voteRound m then votePower vs m else 0) + reportedPower vs ms r"
  by (simp add: reportedPower_def)

text \<open>The loop stops at the highest round that enough power reports.\<close>

lemma pacemakerRound_spec:
  assumes "sorted (rev (map voteRound ms))" "unat acc + sum_list (map (votePower vs) ms) < 2 ^ 64" "unat acc < joinPower vs"
  shows "(\<forall>r. 0 < r \<longrightarrow> r \<le> pacemakerRound vs acc ms \<longrightarrow> joinPower vs \<le> unat acc + reportedPower vs ms r) \<and>
    (\<forall>r > pacemakerRound vs acc ms. unat acc + reportedPower vs ms r < joinPower vs)"
  using assms
proof (induction ms arbitrary: acc)
  case Nil
  then show ?case by (auto simp: reportedPower_def)
next
  case (Cons m ms)
  have desc: "sorted (rev (map voteRound ms))" "\<forall>x \<in> set ms. voteRound x \<le> voteRound m"
    using Cons.prems(1) by (auto simp: sorted_append)
  have later: "reportedPower vs ms r = 0" if "voteRound m < r" for r
    using desc(2) that by (auto simp: reportedPower_def filter_empty_conv linorder_not_le intro: le_less_trans)
  show ?case
  proof (cases "ValidatorSet_GetValidator vs (sgPublicKey (the (mSignature m)))")
    case None
    then have "votePower vs m = 0" "pacemakerRound vs acc (m # ms) = pacemakerRound vs acc ms" by (simp_all add: votePower_def)
    with Cons desc show ?thesis by (simp add: reportedPower_Cons)
  next
    case (Some v)
    note p = votePower_Some [OF Some]
    have acc: "unat (acc + cvVotingPower v) = unat acc + votePower vs m"
      using Cons.prems(2) p by (intro unat_add_exact [THEN trans]) simp_all
    show ?thesis
    proof (cases "joinPower vs \<le> unat acc + votePower vs m")
      case True
      then have "pacemakerRound vs acc (m # ms) = voteRound m"
        using Some acc by (simp add: Let_def joinPower_def unat_le_iff)
      then show ?thesis
        using True later Cons.prems(3) by (simp only: reportedPower_Cons) (auto simp: linorder_not_le)
    next
      case False
      then have rec: "pacemakerRound vs acc (m # ms) = pacemakerRound vs (acc + cvVotingPower v) ms"
        using Some acc by (simp add: Let_def joinPower_def unat_le_iff)
      let ?R = "pacemakerRound vs (acc + cvVotingPower v) ms"
      have ih: "(\<forall>r. 0 < r \<longrightarrow> r \<le> ?R \<longrightarrow> joinPower vs \<le> unat acc + votePower vs m + reportedPower vs ms r) \<and>
          (\<forall>r > ?R. unat acc + votePower vs m + reportedPower vs ms r < joinPower vs)"
        using Cons.IH [OF desc(1), of "acc + cvVotingPower v"] Cons.prems(2) False acc by simp
      show ?thesis unfolding rec
      proof (intro conjI allI impI)
        fix r assume r: "0 < r" "r \<le> ?R"
        with ih have j: "joinPower vs \<le> unat acc + votePower vs m + reportedPower vs ms r" by blast
        with False have "reportedPower vs ms r \<noteq> 0" by linarith
        with later have "r \<le> voteRound m" by (meson linorder_not_le)
        with j show "joinPower vs \<le> unat acc + reportedPower vs (m # ms) r" by (simp add: reportedPower_Cons)
      next
        fix r assume "?R < r"
        with ih show "unat acc + reportedPower vs (m # ms) r < joinPower vs" by (auto simp: reportedPower_Cons)
      qed
    qed
  qed
qed

lemma Pacemaker_run:
  assumes "Pacemaker K b = (Inr (), b')"
  shows "bValidatorSet b' = (case cnLoadCommittee K (cnLoadRootChainId K (cnChainHeight K)) (cnRootChainHeight K) of
      Inl _ \<Rightarrow> emptyValidatorSet | Inr vs \<Rightarrow> vs)"
    "vwRound (bView b') = max (vwRound (bView b) + 1)
      (pacemakerRound (bValidatorSet b') 0 (rev (sort_key voteRound (map snd (bPacemakerMessages b)))))"
  using assms
  by (auto simp: Pacemaker_def NewRound_def RefreshRootChainInfo_def bnd_def modify_run ret_run Let_def max_def split: if_splits)

text \<open>
  C26: After a failed round the pacemaker moves a replica to the next round, or further to the highest round that validators
  with half of the two thirds majority report (so at least one correct validator is there): it joins a later round only if
  that much power reports that round or a later one, and no round above it has that much power.
\<close>

theorem pacemaker_joins_reported_round:
  assumes run: "Pacemaker K b = (Inr (), b')"
    and fits: "sum_list (map (votePower (bValidatorSet b')) (map snd (bPacemakerMessages b))) < 2 ^ 64"
    and pos: "0 < joinPower (bValidatorSet b')"
  shows "vwRound (bView b) + 1 \<le> vwRound (bView b') \<and>
    (vwRound (bView b') = vwRound (bView b) + 1 \<or>
     joinPower (bValidatorSet b') \<le> reportedPower (bValidatorSet b') (map snd (bPacemakerMessages b)) (vwRound (bView b'))) \<and>
    (\<forall>r > vwRound (bView b'). reportedPower (bValidatorSet b') (map snd (bPacemakerMessages b)) r < joinPower (bValidatorSet b'))"
proof -
  let ?vs = "bValidatorSet b'" and ?ms = "map snd (bPacemakerMessages b)"
  let ?sorted = "rev (sort_key voteRound ?ms)"
  have same: "reportedPower ?vs ?sorted r = reportedPower ?vs ?ms r" for r by (rule reportedPower_mset) simp
  have "sum_list (map (votePower ?vs) ?sorted) = sum_list (map (votePower ?vs) ?ms)"
    by (simp only: sum_list_mset mset_rev mset_sort)
  with fits pos have spec: "(\<forall>r. 0 < r \<longrightarrow> r \<le> pacemakerRound ?vs 0 ?sorted \<longrightarrow> joinPower ?vs \<le> reportedPower ?vs ?ms r) \<and>
      (\<forall>r > pacemakerRound ?vs 0 ?sorted. reportedPower ?vs ?ms r < joinPower ?vs)"
    using pacemakerRound_spec [of ?sorted 0 ?vs] by (simp add: rev_map same)
  note rnd = Pacemaker_run(2) [OF run]
  show ?thesis
  proof (intro conjI)
    show "vwRound (bView b) + 1 \<le> vwRound (bView b')" by (simp add: rnd)
    show "vwRound (bView b') = vwRound (bView b) + 1 \<or> joinPower ?vs \<le> reportedPower ?vs ?ms (vwRound (bView b'))"
      using spec unfolding rnd by (cases "pacemakerRound ?vs 0 ?sorted = 0") (auto simp: max_def word_gt_0)
    show "\<forall>r > vwRound (bView b'). reportedPower ?vs ?ms r < joinPower ?vs"
      using spec unfolding rnd by (auto simp: max_def intro: le_less_trans)
  qed
qed

section \<open>Example\<close>

text \<open>The validator with stake reports round 5.\<close>

definition laggingNode :: bft where
  "laggingNode = exampleReset\<lparr>bPacemakerMessages := [(exampleKey, emptyMessage\<lparr>
     mQc := Some (emptyQC\<lparr>qcHeader := Some ((bView exampleReset)\<lparr>vwRound := 5, vwPhase := Phase_ROUND_INTERRUPT\<rparr>)\<rparr>),
     mSignature := Some \<lparr>sgPublicKey = exampleKey, sgSignature = []\<rparr>\<rparr>)]\<rparr>"

theorem pacemaker_joins_reported_round_witness:
  "\<exists>b'. Pacemaker exampleController laggingNode = (Inr (), b') \<and> vwRound (bView laggingNode) + 1 \<le> vwRound (bView b') \<and>
     (\<forall>r > vwRound (bView b'). reportedPower (bValidatorSet b') (map snd (bPacemakerMessages laggingNode)) r < joinPower (bValidatorSet b'))"
proof -
  obtain b' where run: "Pacemaker exampleController laggingNode = (Inr (), b')"
    by (simp add: Pacemaker_def NewRound_def RefreshRootChainInfo_def bnd_def modify_run ret_run)
  have vs: "bValidatorSet b' = exampleSet"
    using Pacemaker_run(1) [OF run] by (simp add: exampleController_def)
  have join: "joinPower exampleSet = 1"
    by (simp add: joinPower_def Uint64ReducePercentage_def exampleSet_def)
  have "sum_list (map (votePower exampleSet) (map snd (bPacemakerMessages laggingNode))) < 2 ^ 64"
    using u64_bound by (simp add: laggingNode_def votePower_def split: option.split)
  with pacemaker_joins_reported_round [OF run] run vs join show ?thesis by auto
qed

end
