(* ===== verification/Genesis.thy ===== *)
theory Genesis
  imports Blocks
begin

text \<open>
  Genesis (\<open>fsm/genesis.go\<close>): the state at height zero from the genesis object, its validation and the export of a
  state. Reading the JSON file is not modelled; the object is the argument.
\<close>

section \<open>The genesis object\<close>

record genesisState =
  gnPools :: "pool list"
  gnAccounts :: "account list"
  gnValidators :: "validator list"
  gnNonSigners :: "(address \<times> u64) list"
  gnDoubleSigners :: "(address \<times> u64 list) list"
  gnOrderBooks :: "OrderBook list option"
  gnParams :: params
  gnSupply :: Supply
  gnCommittees :: "committeeData list"
  gnRetiredCommittees :: "u64 list"

definition emptySupply :: Supply where
  "emptySupply = \<lparr>sTotal = 0, sStaked = 0, sDelegatedOnly = 0, sCommitteeStaked = [], sCommitteeDelegatedOnly = []\<rparr>"

text \<open>A nil list of order books is skipped, the books themselves are never nil in a decoded object.\<close>

definition NewStateFromGenesis :: "genesisState \<Rightarrow> unit fsm" where
  "NewStateFromGenesis genesis =
     bnd (SetParams (gnParams genesis)) (\<lambda>_.
     bnd (SetAccounts (gnAccounts genesis) emptySupply) (\<lambda>supply1.
     bnd (SetPools (gnPools genesis) supply1) (\<lambda>supply2.
     bnd (SetValidators (gnValidators genesis) supply2) (\<lambda>supply3.
     bnd (case gnOrderBooks genesis of None \<Rightarrow> ret supply3 | Some books \<Rightarrow> SetOrderBooks books supply3) (\<lambda>supply4.
     bnd (SetSupply supply4) (\<lambda>_.
     SetRetiredCommittees (gnRetiredCommittees genesis)))))))"

text \<open>The first error of a list of checks.\<close>

fun checkEach :: "('a \<Rightarrow> error + unit) \<Rightarrow> 'a list \<Rightarrow> error + unit" where
  "checkEach f [] = Inr ()"
| "checkEach f (x # xs) = (case f x of Inl e \<Rightarrow> Inl e | Inr _ \<Rightarrow> checkEach f xs)"

definition checkGenesisValidator :: "validator \<Rightarrow> error + unit" where
  "checkGenesisValidator val = checks
     [check (length (addr_bytes (vAddress val)) \<noteq> AddressSize) ErrAddressSize,
      check (\<not> vDelegate val \<and> length (vPublicKey val) \<noteq> BLS12381PubKeySize) (Error ''PublicKeySize''),
      check (length (addr_bytes (vOutput val)) \<noteq> AddressSize) ErrAddressSize]"

definition checkGenesisAccount :: "account \<Rightarrow> error + unit" where
  "checkGenesisAccount account = check (length (addr_bytes (acAddress account)) \<noteq> AddressSize) ErrAddressSize"

text \<open>The loops with a de-duplicator; ids are compared as hexadecimal strings, which is the same.\<close>

fun checkOrderIds :: "bytes list \<Rightarrow> sellOrder list \<Rightarrow> error + unit" where
  "checkOrderIds seen [] = Inr ()"
| "checkOrderIds seen (order # orders) =
     (if oId order \<in> set seen then Inl (Error ''InvalidSellOrder'') else checkOrderIds (oId order # seen) orders)"

fun checkOrderBooks :: "u64 list \<Rightarrow> OrderBook list \<Rightarrow> error + unit" where
  "checkOrderBooks seen [] = Inr ()"
| "checkOrderBooks seen (book # books) =
     (if obChainId book \<in> set seen then Inl (Error ''InvalidSellOrder'')
      else if length (obOrders book) = 0 then Inl (Error ''InvalidSellOrder'')
      else (case checkOrderIds [] (obOrders book) of
          Inl e \<Rightarrow> Inl e
        | Inr _ \<Rightarrow> checkOrderBooks (obChainId book # seen) books))"

definition ValidateGenesisState :: "genesisState \<Rightarrow> error + unit" where
  "ValidateGenesisState genesis = checks
     [Params_Check (gnParams genesis),
      checkEach checkGenesisValidator (gnValidators genesis),
      checkEach checkGenesisAccount (gnAccounts genesis),
      (case gnOrderBooks genesis of None \<Rightarrow> Inr () | Some books \<Rightarrow> checkOrderBooks [] books)]"

text \<open>\<open>NewFromGenesisFile\<close> without the reading of the file and the commit; \<open>plugin\<close> is the genesis call of the plugin.\<close>

definition NewFromGenesis :: "unit fsm option \<Rightarrow> genesisState \<Rightarrow> unit fsm" where
  "NewFromGenesis plugin genesis =
     (case ValidateGenesisState genesis of
        Inl e \<Rightarrow> err e
      | Inr _ \<Rightarrow> seqm [NewStateFromGenesis genesis,
          (case plugin of None \<Rightarrow> ret () | Some g \<Rightarrow> g),
          modify (\<lambda>s. s\<lparr>height := height s + 1\<rparr>)])"

text \<open>The counters of the non-signers as \<open>GetNonSigners\<close> lists them; the heights of the double signers by address.\<close>

definition exportNonSigners :: "(address \<times> u64) list fsm" where
  "exportNonSigners = gets (\<lambda>s. map (\<lambda>(a, ns). (a, nsCounter ns)) (nonSigners s))"

definition exportDoubleSigners :: "(address \<times> u64 list) list fsm" where
  "exportDoubleSigners = gets (\<lambda>s. map (\<lambda>a. (a, map (snd \<circ> fst) (filter (\<lambda>((b, _), _). b = a) (doubleSigners s))))
     (remdups (map (fst \<circ> fst) (doubleSigners s))))"

definition ExportState :: "genesisState fsm" where
  "ExportState =
     bnd GetAccounts (\<lambda>accs. bnd GetPools (\<lambda>ps. bnd GetValidators (\<lambda>vals. bnd GetParams (\<lambda>pars.
     bnd exportNonSigners (\<lambda>ns. bnd exportDoubleSigners (\<lambda>ds. bnd GetOrderBooks (\<lambda>books. bnd GetSupply (\<lambda>supply.
     bnd GetRetiredCommittees (\<lambda>retired. bnd GetCommitteesData (\<lambda>cds.
     ret \<lparr>gnPools = ps, gnAccounts = accs, gnValidators = vals, gnNonSigners = ns, gnDoubleSigners = ds,
       gnOrderBooks = Some books, gnParams = pars, gnSupply = supply, gnCommittees = cds,
       gnRetiredCommittees = retired\<rparr>))))))))))"

section \<open>Counting the supply\<close>

text \<open>The tokens of the state are those the local supply object has counted.\<close>

definition counted :: "Supply \<Rightarrow> state \<Rightarrow> bool" where
  "counted sp s \<longleftrightarrow> wf s \<and> tokens s = unat (sTotal sp)"

lemma guarded_total: "\<not> MaxUint64 - x < (n :: u64) \<Longrightarrow> unat (n + x) = unat n + unat x"
  by (simp add: unat_add_guarded)

lemma SetAccounts_counted:
  "SetAccounts accs sp s = (Inr sp', t) \<Longrightarrow> counted sp s \<Longrightarrow> distinct (map acAddress accs) \<Longrightarrow>
     (\<forall>a \<in> set accs. tget (accounts s) (acAddress a) = None) \<Longrightarrow>
     counted sp' t \<and> (\<exists>tbl n. t = s\<lparr>accounts := tbl\<rparr> \<and> sp' = sp\<lparr>sTotal := n\<rparr>)"
proof (induction accs arbitrary: sp s)
  case Nil
  then have "t = s" "sp' = sp" by (simp_all add: SetAccounts_def ret_run)
  moreover have "s = s\<lparr>accounts := accounts s\<rparr> \<and> sp = sp\<lparr>sTotal := sTotal sp\<rparr>" by simp
  ultimately show ?case using Nil.prems by blast
next
  case (Cons a accs)
  let ?u = "s\<lparr>accounts := putAccount (height s) a (accounts s)\<rparr>" and ?sp = "sp\<lparr>sTotal := sTotal sp + acAmount a\<rparr>"
  have guard: "\<not> MaxUint64 - acAmount a < sTotal sp" and rest: "SetAccounts accs ?sp ?u = (Inr sp', t)"
    using Cons.prems(1) by (auto simp: SetAccounts_def bnd_Inr SetAccount_run ret_run err_run split: if_splits)
  have "tok (accounts s)" using Cons.prems(2) by (simp add: counted_def wf_def)
  from accTokens_put [OF this, of "height s" a] Cons.prems(2,4) guarded_total [OF guard]
  have "counted ?sp ?u"
    by (simp add: counted_def wf_def token_defs accountAt_def emptyAccount_def)
  moreover have "\<forall>x \<in> set accs. tget (accounts ?u) (acAddress x) = None"
    using Cons.prems(3,4) by (auto simp: tget_putAccount image_iff)
  ultimately have "counted sp' t \<and> (\<exists>tbl n. t = ?u\<lparr>accounts := tbl\<rparr> \<and> sp' = ?sp\<lparr>sTotal := n\<rparr>)"
    using Cons.IH [OF rest] Cons.prems(3) by simp
  then show ?case by auto
qed

lemma SetPools_counted:
  "SetPools ps sp s = (Inr sp', t) \<Longrightarrow> counted sp s \<Longrightarrow> distinct (map pId ps) \<Longrightarrow>
     (\<forall>p \<in> set ps. tget (pools s) (pId p) = None \<and> points_ok p) \<Longrightarrow> pointsConsistent s \<Longrightarrow>
     counted sp' t \<and> pointsConsistent t \<and> (\<exists>tbl n. t = s\<lparr>pools := tbl\<rparr> \<and> sp' = sp\<lparr>sTotal := n\<rparr>)"
proof (induction ps arbitrary: sp s)
  case Nil
  then have "t = s" "sp' = sp" by (simp_all add: SetPools_def ret_run)
  moreover have "s = s\<lparr>pools := pools s\<rparr> \<and> sp = sp\<lparr>sTotal := sTotal sp\<rparr>" by simp
  ultimately show ?case using Nil.prems by blast
next
  case (Cons p ps)
  let ?u = "s\<lparr>pools := putPool p (pools s)\<rparr>" and ?sp = "sp\<lparr>sTotal := sTotal sp + pAmount p\<rparr>"
  have guard: "\<not> MaxUint64 - pAmount p < sTotal sp" and rest: "SetPools ps ?sp ?u = (Inr sp', t)"
    using Cons.prems(1) by (auto simp: SetPools_def bnd_Inr SetPool_run ret_run err_run split: if_splits)
  have "tok (pools s)" using Cons.prems(2) by (simp add: counted_def wf_def)
  from poolTokens_put [OF this, of p] Cons.prems(2,4) guarded_total [OF guard]
  have "counted ?sp ?u" by (simp add: counted_def wf_def token_defs poolAt_def)
  moreover have "\<forall>x \<in> set ps. tget (pools ?u) (pId x) = None \<and> points_ok x"
    using Cons.prems(3,4) by (auto simp: tget_putPool image_iff)
  moreover have "pointsConsistent ?u"
    using Cons.prems(4,5) by (auto simp: pointsConsistent_def poolAt_def tget_putPool points_ok_def points_sum_def split: option.split)
  ultimately have "counted sp' t \<and> pointsConsistent t \<and> (\<exists>tbl n. t = ?u\<lparr>pools := tbl\<rparr> \<and> sp' = ?sp\<lparr>sTotal := n\<rparr>)"
    using Cons.IH [OF rest] Cons.prems(3) by simp
  then show ?case by auto
qed

section \<open>The validators\<close>

text \<open>The supply tracker as genesis will store it.\<close>

definition trackedAs :: "Supply \<Rightarrow> state \<Rightarrow> state" where
  "trackedAs sp s = s\<lparr>supplyTracker := (supplyTracker s)\<lparr>sStaked := sStaked sp, sDelegatedOnly := sDelegatedOnly sp\<rparr>\<rparr>"

lemma genesisValidator_run:
  assumes run: "setGenesisValidator val sp s = (Inr sp', t)"
  obtains v val' where "v = tset (vAddress val) val' (validators s)" "vAddress val' = vAddress val" "sameStake val' val"
    "accounts t = accounts s" "pools t = pools s" "orderBook t = orderBook s" "validators t = v"
    "sTotal sp' = sTotal sp + vStakedAmount val" "sStaked sp' = sStaked sp + vStakedAmount val"
    "sDelegatedOnly sp' = (if vDelegate val then sDelegatedOnly sp + vStakedAmount val else sDelegatedOnly sp)"
    "\<not> MaxUint64 - vStakedAmount val < sTotal sp" "\<not> MaxUint64 - vStakedAmount val < sStaked sp"
    "vDelegate val \<longrightarrow> \<not> MaxUint64 - vStakedAmount val < sDelegatedOnly sp"
    "supplyMoved (s\<lparr>validators := v\<rparr>) t (\<lambda>_. 0) (\<lambda>_. 0) (\<lambda>c. memberStake c val) (\<lambda>c. delegateStake c val)"
proof -
  let ?a = "vAddress val"
  define val' where "val' = (if vUnstakingHeight val \<noteq> 0 then val\<lparr>vMaxPausedHeight := 0\<rparr> else val)"
  have guards: "\<not> MaxUint64 - vStakedAmount val < sTotal sp" "\<not> MaxUint64 - vStakedAmount val < sStaked sp"
    "vDelegate val \<longrightarrow> \<not> MaxUint64 - vStakedAmount val < sDelegatedOnly sp"
    using run by (auto simp: setGenesisValidator_def err_run split: if_splits)
  obtain u where u: "(if vUnstakingHeight val \<noteq> 0 then SetValidatorUnstaking ?a val (vUnstakingHeight val)
      else if vMaxPausedHeight val \<noteq> 0 then SetValidatorPaused ?a val (vMaxPausedHeight val) else ret ()) s = (Inr (), u)"
    and rest: "(if vDelegate val
        then bnd (SetDelegations ?a (vStakedAmount val) (vCommittees val))
          (\<lambda>_. ret (sp\<lparr>sTotal := sTotal sp + vStakedAmount val, sStaked := sStaked sp + vStakedAmount val,
                       sDelegatedOnly := sDelegatedOnly sp + vStakedAmount val\<rparr>))
        else bnd (SetCommittees ?a (vStakedAmount val) (vCommittees val))
          (\<lambda>_. ret (sp\<lparr>sTotal := sTotal sp + vStakedAmount val, sStaked := sStaked sp + vStakedAmount val\<rparr>)))
        (u\<lparr>validators := tset ?a val' (validators u)\<rparr>) = (Inr sp', t)"
    using run guards by (auto simp: setGenesisValidator_def Let_def bnd_Inr SetValidator_run val'_def split: if_splits)
  let ?v = "tset ?a val' (validators s)"
  have u': "accounts u = accounts s" "pools u = pools s" "orderBook u = orderBook s" "supplyTracker u = supplyTracker s"
    "tset ?a val' (validators u) = ?v"
    using u by (auto simp: SetValidatorUnstaking_def SetValidatorUnpaused_def SetValidatorPaused_def SetValidator_run bnd_Inr
      modify_run ret_run tset_tset val'_def split: if_splits)
  obtain m where m: "m = (if vDelegate val then SetDelegations else SetCommittees) ?a (vStakedAmount val) (vCommittees val)"
    "m (u\<lparr>validators := ?v\<rparr>) = (Inr (), t)"
    and sp': "sp' = sp\<lparr>sTotal := sTotal sp + vStakedAmount val, sStaked := sStaked sp + vStakedAmount val,
      sDelegatedOnly := (if vDelegate val then sDelegatedOnly sp + vStakedAmount val else sDelegatedOnly sp)\<rparr>"
    using rest u'(5) by (auto simp: bnd_Inr ret_run split: if_splits)
  have "token_neutral m" "keeps orderBook m" unfolding m(1) by (auto simp: neutral_committees intro: keeps_committees)
  then have same: "accounts t = accounts s" "pools t = pools s" "orderBook t = orderBook s" "validators t = ?v"
    using m(2) u' keepsD [of orderBook m _ "Inr ()" t] by (auto simp: token_neutral_def dest!: spec [of _ "u\<lparr>validators := ?v\<rparr>"])
  have "supplyMoved (u\<lparr>validators := ?v\<rparr>) t (\<lambda>_. 0) (\<lambda>_. 0) (\<lambda>c. memberStake c val) (\<lambda>c. delegateStake c val)"
  proof (cases "vDelegate val")
    case True
    then show ?thesis using m SetDelegations_moved [of ?a "vStakedAmount val" "vCommittees val"] by (simp add: memberStake_def delegateStake_def)
  next
    case False
    then show ?thesis using m SetCommittees_moved [of ?a "vStakedAmount val" "vCommittees val"] by (simp add: memberStake_def delegateStake_def)
  qed
  then have "supplyMoved (s\<lparr>validators := ?v\<rparr>) t (\<lambda>_. 0) (\<lambda>_. 0) (\<lambda>c. memberStake c val) (\<lambda>c. delegateStake c val)"
    by (rule supplyMoved_start [rotated]) (simp add: u'(4))
  moreover have "vAddress val' = ?a" "sameStake val' val" by (simp_all add: val'_def sameStake_def)
  ultimately show thesis using that [of ?v val'] same guards sp' by simp
qed

lemma genesisValidator_step:
  assumes run: "setGenesisValidator val sp s = (Inr sp', t)" and s: "counted sp s" "ledger (trackedAs sp s)"
    and new: "tget (validators s) (vAddress val) = None"
  shows "counted sp' t \<and> ledger (trackedAs sp' t) \<and> accounts t = accounts s \<and> pools t = pools s \<and> orderBook t = orderBook s \<and>
    (\<exists>val'. validators t = tset (vAddress val) val' (validators s) \<and> vAddress val' = vAddress val)"
  using run
proof (rule genesisValidator_run, goal_cases)
  case (1 v val')
  let ?x = "vStakedAmount val"
  note exact = guarded_total [OF 1(11)] guarded_total [OF 1(12)]
  have stake: "vStakedAmount val' = ?x" using 1(3) by (simp add: sameStake_def)
  have old: "validatorAt (trackedAs sp s) (vAddress val) = noValidator (vAddress val)" using new by (simp add: validatorAt_def trackedAs_def)
  have "wf s" using s(1) by (simp add: counted_def)
  then have "stakeTokens t = stakeTokens s + unat ?x"
    using tsum_tset [of "validators s" "unat \<circ> vStakedAmount" "vAddress val" val'] new stake by (simp add: wf_def stakeTokens_def 1)
  then have "counted sp' t" using s(1) exact 1 by (simp add: counted_def wf_def token_defs tok_tset)
  moreover have "ledger (trackedAs sp' t)"
    by (rule ledger_replace [OF s(2), where a = "vAddress val" and new = val'])
      (use 1 exact old stake sameStake_weights [OF 1(3)] guarded_total [of ?x "sDelegatedOnly sp"] in
        \<open>auto simp: trackedAs_def noValidator_def delegatedOnly_def memberStake_def delegateStake_def sameStake_def supplyMoved_def
          committeeStake_def supplyPools_def\<close>)
  ultimately show ?case using 1 by blast
qed

lemma genesisValidators_loop:
  "fold_m setGenesisValidator vals sp s = (Inr sp', t) \<Longrightarrow> counted sp s \<Longrightarrow> ledger (trackedAs sp s) \<Longrightarrow>
     distinct (map vAddress vals) \<Longrightarrow> (\<forall>v \<in> set vals. tget (validators s) (vAddress v) = None) \<Longrightarrow>
     counted sp' t \<and> ledger (trackedAs sp' t) \<and> pools t = pools s \<and> orderBook t = orderBook s"
proof (induction vals arbitrary: sp s)
  case (Cons val vals)
  then obtain sp1 u where u: "setGenesisValidator val sp s = (Inr sp1, u)" "fold_m setGenesisValidator vals sp1 u = (Inr sp', t)"
    by (auto simp: bnd_Inr)
  from genesisValidator_step [OF u(1) Cons.prems(2,3)] Cons.prems(5) obtain val' where
    step: "counted sp1 u" "ledger (trackedAs sp1 u)" "pools u = pools s" "orderBook u = orderBook s"
      "validators u = tset (vAddress val) val' (validators s)"
    by auto
  have "\<forall>v \<in> set vals. tget (validators u) (vAddress v) = None"
    using Cons.prems(4,5) step(5) by (auto simp: table_simps image_iff)
  with Cons.IH [OF u(2) step(1,2)] Cons.prems(4) step(3,4) show ?case by simp
qed (simp add: ret_run)

context framed_core
begin

lemma setGenesisValidator [maintains_rules]: "maintains P (setGenesisValidator val sp)"
  unfolding setGenesisValidator_def Let_def by (intro maintains_rules; simp)

lemma SetValidators [maintains_rules]: "maintains P (SetValidators vals sp)"
  unfolding SetValidators_def GetSupply_def by (intro maintains_rules; simp add: framed_fields)

lemma SetOrderBooks [maintains_rules]: "maintains P (SetOrderBooks books sp)"
  unfolding SetOrderBooks_def SetOrder_def by (intro maintains_rules; simp add: framed_fields)

end

section \<open>The order books\<close>

lemma genesisOrder_step:
  assumes s: "counted sp s" "solvent s" and guard: "\<not> MaxUint64 - oAmountForSale order < sTotal sp"
    and run: "bnd (SetOrder order c) (\<lambda>_. PoolAdd (c + EscrowPoolAddend) (oAmountForSale order)) s = (Inr (), t)"
  shows "counted (sp\<lparr>sTotal := sTotal sp + oAmountForSale order\<rparr>) t \<and> solvent t"
proof -
  let ?x = "oAmountForSale order" and ?b = "tset (c, oId order) order (orderBook s)"
  let ?u = "s\<lparr>orderBook := ?b, supplyTracker := (supplyTracker s)\<lparr>sTotal := sTotal sp + oAmountForSale order\<rparr>\<rparr>"
  note exact = guarded_total [OF guard]
  have pre: "inflight (unat ?x) ?u" using s(1) exact by (simp add: inflight_def counted_def wf_def token_defs)
  define q where "q = putPool ((poolAt s (c + EscrowPoolAddend))\<lparr>pAmount := pAmount (poolAt s (c + EscrowPoolAddend)) + ?x\<rparr>) (pools s)"
  have t: "t = s\<lparr>orderBook := ?b, pools := q\<rparr>"
    using run by (auto simp: SetOrder_def bnd_Inr modify_run PoolAdd_run poolAt_def q_def)
  have v: "PoolAdd (c + EscrowPoolAddend) ?x ?u = (Inr (), ?u\<lparr>pools := q\<rparr>)" by (simp add: PoolAdd_run poolAt_def q_def)
  have "inflight 0 (?u\<lparr>pools := q\<rparr>)" using hoareD [OF PoolAdd_inflight [of 0 ?x] _ v] pre by simp
  then have "counted (sp\<lparr>sTotal := sTotal sp + ?x\<rparr>) t" by (simp add: t counted_def inflight_def wf_def token_defs)
  moreover have esc: "escrow t d = escrow s d + (if d = c then unat ?x else 0)" for d
    using escrow_credit(1) [OF pre v, of d] by (simp add: t escrow_def poolAt_def)
  have "solvent t"
    by (rule solvent_replace [OF s(2), of t c order]) (use esc in \<open>simp_all add: t\<close>)
  ultimately show ?thesis by simp
qed

lemma SetOrderBooks_counted:
  assumes run: "SetOrderBooks books sp s = (Inr sp', t)" and s: "counted sp s" "solvent s"
  shows "counted sp' t \<and> solvent t \<and> validators t = validators s \<and> sp'\<lparr>sTotal := 0\<rparr> = sp\<lparr>sTotal := 0\<rparr>"
proof -
  let ?I = "\<lambda>sp1 s1. (counted sp1 s1 \<and> solvent s1) \<and> validators s1 = validators s \<and> sp1\<lparr>sTotal := 0\<rparr> = sp\<lparr>sTotal := 0\<rparr>"
  have keep: "PoolAdd i x u = (r, v) \<Longrightarrow> validators v = validators u" for i x u r v by (auto simp: PoolAdd_run)
  have one: "hoare (?I sp1) (if sTotal sp1 > MaxUint64 - oAmountForSale order then err ErrInvalidAmount
       else bnd (SetOrder order c) (\<lambda>_. bnd (PoolAdd (c + EscrowPoolAddend) (oAmountForSale order)) (\<lambda>_.
         ret (sp1\<lparr>sTotal := sTotal sp1 + oAmountForSale order\<rparr>)))) ?I" for order c sp1
  proof (rule hoareI, goal_cases)
    case (1 s1 sp2 s2)
    then have guard: "\<not> MaxUint64 - oAmountForSale order < sTotal sp1" by (auto simp: err_run split: if_splits)
    with 1(2) have run: "bnd (SetOrder order c) (\<lambda>_. PoolAdd (c + EscrowPoolAddend) (oAmountForSale order)) s1 = (Inr (), s2)"
      and sp2: "sp2 = sp1\<lparr>sTotal := sTotal sp1 + oAmountForSale order\<rparr>"
      by (auto simp: bnd_Inr ret_run)
    then have "validators s2 = validators s1" by (auto simp: bnd_Inr SetOrder_def modify_run dest!: keep)
    with 1(1) genesisOrder_step [OF _ _ guard run] sp2 show ?case by simp
  qed
  have "hoare (?I sp) (SetOrderBooks books sp) ?I"
    unfolding SetOrderBooks_def by (intro hoare_fold_m one)
  from hoareD [OF this _ run] s show ?thesis by simp
qed

section \<open>A sound first state\<close>

text \<open>The store before genesis: nothing in it.\<close>

definition freshState :: "state \<Rightarrow> bool" where
  "freshState s \<longleftrightarrow> accounts s = [] \<and> pools s = [] \<and> validators s = [] \<and> orderBook s = [] \<and> lockedBatches s = [] \<and>
     nextBatches s = [] \<and> committeesData s = [] \<and> supplyTracker s = emptySupply"

text \<open>What the code leaves to the author of the file: no key twice, and the points of a pool add up.\<close>

definition genesisOk :: "genesisState \<Rightarrow> bool" where
  "genesisOk g \<longleftrightarrow> distinct (map acAddress (gnAccounts g)) \<and> distinct (map pId (gnPools g)) \<and>
     distinct (map vAddress (gnValidators g)) \<and> list_all points_ok (gnPools g)"

definition soundState :: "state \<Rightarrow> bool" where
  "soundState s \<longleftrightarrow> conserved s \<and> pointsConsistent s \<and> keyed s \<and> batchesOk s \<and> paymentsOk s"

lemma SetParams_run:
  "SetParams p s = (Inr (), t) \<Longrightarrow> (\<exists>a b c d. t = s\<lparr>paramsCons := a, paramsVal := b, paramsFee := c, daoRewardPercentage := d\<rparr>)"
  by (auto simp: SetParams_def SetParamsCons_def SetParamsVal_def SetParamsFee_def SetParamsGov_def bnd_Inr modify_run ret_run)

lemma SetRetiredCommittees_run:
  "SetRetiredCommittees ids s = (Inr (), t) \<Longrightarrow> (\<exists>r. t = s\<lparr>retiredCommittees := r\<rparr>)"
proof (induction ids arbitrary: s)
  case Nil
  then have "t = s\<lparr>retiredCommittees := retiredCommittees s\<rparr>" by (simp add: SetRetiredCommittees_def ret_run)
  then show ?case by blast
next
  case (Cons i ids)
  then have "SetRetiredCommittees ids (s\<lparr>retiredCommittees := tset i () (retiredCommittees s)\<rparr>) = (Inr (), t)"
    by (simp add: SetRetiredCommittees_def RetireCommittee_def bnd_Inr modify_run)
  from Cons.IH [OF this] show ?case by auto
qed

lemma sameButTotal:
  fixes a b :: Supply
  assumes "a\<lparr>sTotal := 0\<rparr> = b\<lparr>sTotal := 0\<rparr>"
  shows "sStaked a = sStaked b \<and> sDelegatedOnly a = sDelegatedOnly b \<and> sCommitteeStaked a = sCommitteeStaked b \<and>
    sCommitteeDelegatedOnly a = sCommitteeDelegatedOnly b"
  using assms by (cases a; cases b) simp

lemma genesis_sound:
  assumes fresh: "freshState s" and g: "genesisOk g" and run: "NewStateFromGenesis g s = (Inr (), t)"
  shows "soundState t \<and> ledger t \<and> solvent t"
proof -
  obtain s1 s2 s3 s4 s5 sp1 sp2 sp3 sp4 where
    s1: "SetParams (gnParams g) s = (Inr (), s1)" and s2: "SetAccounts (gnAccounts g) emptySupply s1 = (Inr sp1, s2)"
    and s3: "SetPools (gnPools g) sp1 s2 = (Inr sp2, s3)" and s4: "SetValidators (gnValidators g) sp2 s3 = (Inr sp3, s4)"
    and s5: "(case gnOrderBooks g of None \<Rightarrow> ret sp3 | Some books \<Rightarrow> SetOrderBooks books sp3) s4 = (Inr sp4, s5)"
    and t: "SetRetiredCommittees (gnRetiredCommittees g) (s5\<lparr>supplyTracker := sp4\<rparr>) = (Inr (), t)"
    using run by (auto simp: NewStateFromGenesis_def bnd_Inr SetSupply_def modify_run)
  note fresh = fresh [unfolded freshState_def] and g = g [unfolded genesisOk_def list_all_iff]
  from SetParams_run [OF s1] fresh have s1': "counted emptySupply s1" "accounts s1 = []" "pools s1 = []" "validators s1 = []"
      "orderBook s1 = []" "supplyTracker s1 = emptySupply" "orderly (contextOf s1, True) s1"
    by (auto simp: counted_def wf_def token_defs emptySupply_def tok_def orderly_def keyed_def batchesOk_def paymentsOk_def)
  from SetAccounts_counted [OF s2 s1'(1)] s1' g obtain a n where s2': "counted sp1 s2" "s2 = s1\<lparr>accounts := a\<rparr>"
      "sp1 = emptySupply\<lparr>sTotal := n\<rparr>" by auto
  have "pointsConsistent s2" using s2' s1' by (simp add: pointsConsistent_def poolAt_def points_ok_def points_sum_def)
  with SetPools_counted [OF s3 s2'(1)] s2' s1' g obtain q m where s3': "counted sp2 s3" "pointsConsistent s3" "s3 = s2\<lparr>pools := q\<rparr>"
      "sp2 = sp1\<lparr>sTotal := m\<rparr>" by auto
  obtain sp where v: "fold_m setGenesisValidator (gnValidators g) sp2 s3 = (Inr sp, s4)"
    and sp3: "sp3 = sp\<lparr>sCommitteeStaked := sCommitteeStaked (supplyTracker s4), sCommitteeDelegatedOnly := sCommitteeDelegatedOnly (supplyTracker s4)\<rparr>"
    using s4 by (auto simp: SetValidators_def GetSupply_def bnd_Inr gets_run ret_run)
  have "ledger (trackedAs sp2 s3)" using s1' s2' s3'
    by (simp add: ledger_def trackedAs_def emptySupply_def committeeStake_def supplyPools_def spAmount_def tok_def)
  with genesisValidators_loop [OF v s3'(1)] s1' s2' s3' g
  have s4': "counted sp s4" "ledger (trackedAs sp s4)" "orderBook s4 = []" by auto
  then have "solvent s4" by (simp add: solvent_def escrowed_def tok_def)
  moreover have "counted sp3 s4" using s4' by (simp add: counted_def sp3)
  ultimately have s5': "counted sp4 s5" "solvent s5" "validators s5 = validators s4" "sp4\<lparr>sTotal := 0\<rparr> = sp3\<lparr>sTotal := 0\<rparr>"
    using s5 SetOrderBooks_counted [of _ sp3 s4 sp4 s5] by (auto simp: ret_run split: option.splits)
  have books: "maintains pointsConsistent (case gnOrderBooks g of None \<Rightarrow> ret sp3 | Some books \<Rightarrow> SetOrderBooks books sp3)"
    "maintains (orderly x) (case gnOrderBooks g of None \<Rightarrow> ret sp3 | Some books \<Rightarrow> SetOrderBooks books sp3)" for x
    by (auto simp: maintains_simple pts.SetOrderBooks ord.SetOrderBooks split: option.split)
  have "pointsConsistent s5"
    by (rule maintainsD [OF books(1) maintainsD [OF pts.SetValidators s3'(2) s4] s5])
  moreover have "orderly (contextOf s1, True) s3" using s1'(7) by (simp add: s2'(2) s3'(3) frame_simps)
  then have "orderly (contextOf s1, True) s5"
    by (rule maintainsD [OF books(2) maintainsD [OF ord.SetValidators _ s4] s5])
  moreover obtain r where "t = s5\<lparr>supplyTracker := sp4, retiredCommittees := r\<rparr>" using SetRetiredCommittees_run [OF t] by auto
  moreover have "ledger (s5\<lparr>supplyTracker := sp4\<rparr>)"
  proof -
    have "sStaked sp4 = sStaked sp" "sDelegatedOnly sp4 = sDelegatedOnly sp"
        "sCommitteeStaked sp4 = sCommitteeStaked (supplyTracker s4)"
        "sCommitteeDelegatedOnly sp4 = sCommitteeDelegatedOnly (supplyTracker s4)"
      using sameButTotal [OF s5'(4)] by (simp_all add: sp3)
    then show ?thesis using s4'(2) s5'(3) by (simp add: ledger_def trackedAs_def committeeStake_def supplyPools_def)
  qed
  ultimately show ?thesis using s5'(1,2)
    by (simp add: soundState_def orderly_def keyed_def batchesOk_def paymentsOk_def pointsConsistent_def poolAt_def ledger_def
        committeeStake_def counted_def inflight_def wf_def token_defs solvent_def escrowed_def escrow_def)
qed

text \<open>
  C17: Genesis makes a sound first state. If the file names no account, pool or validator twice, the state it builds
  has a total supply equal to the balances, pools and stakes, a stake ledger equal to the validator records, and escrow
  pools that cover the order books.
\<close>

theorem genesis_state_sound:
  assumes "freshState s" and "genesisOk g" and "NewStateFromGenesis g s = (Inr (), t)"
  shows "conserved t \<and> ledger t \<and> solvent t \<and> pointsConsistent t \<and> keyed t"
  using genesis_sound [OF assms] by (simp add: soundState_def)

section \<open>The chain\<close>

text \<open>A machine opened on a stored state: everything that is not in the store is new.\<close>

definition reopened :: "state \<Rightarrow> state \<Rightarrow> bool" where
  "reopened t u \<longleftrightarrow> u = t\<lparr>cfg := cfg u, ProtocolVersion := ProtocolVersion u, NetworkID := NetworkID u, height := height u,
     proposeVoteConfig := proposeVoteConfig u, proposalsFile := proposalsFile u, prevBlockHash := prevBlockHash u,
     indexedTxs := indexedTxs u, rootDexBatch := rootDexBatch u, slashTracker := slashTracker u,
     eventReference := eventReference u, events := events u\<rparr>"

definition plainBlock :: "node \<Rightarrow> bytes list \<Rightarrow> state \<Rightarrow> bool" where
  "plainBlock N txs s \<longleftrightarrow> ndPlugin N = None \<and> TrimSpace (cfgFaucetAddress (cfg s)) = [] \<and> rootDexBatch s = None \<and>
     unat (sTotal (supplyTracker s)) + unat (cfgInitialTokensPerBlock (cfg s)) < 2 ^ 64 \<and> length (subsidized s) < 2 ^ 64 \<and>
     certificatesHonest (ndEnv N) (prevBlockHash s) \<and> (\<forall>tx \<in> set txs. calmTx N (prevBlockHash s) tx)"

inductive onChain :: "state \<Rightarrow> bool" where
  genesis: "freshState s \<Longrightarrow> genesisOk g \<Longrightarrow> NewFromGenesis None g s = (Inr (), t) \<Longrightarrow> reopened t u \<Longrightarrow> onChain u"
| block: "onChain s \<Longrightarrow> plainBlock N txs s \<Longrightarrow> ApplyBlock N txs proposer s = (Inr r, t) \<Longrightarrow> reopened t u \<Longrightarrow>
    height u = height s + 1 \<Longrightarrow> onChain u"

lemma reopened_sound:
  assumes "reopened t u" and "soundState t"
  shows "soundState u"
proof -
  obtain c p n h v f b i d k e l where "u = t\<lparr>cfg := c, ProtocolVersion := p, NetworkID := n, height := h, proposeVoteConfig := v,
      proposalsFile := f, prevBlockHash := b, indexedTxs := i, rootDexBatch := d, slashTracker := k, eventReference := e, events := l\<rparr>"
    using assms(1) unfolding reopened_def by blast
  with assms(2) show ?thesis
    by (simp add: soundState_def inflight_def wf_def token_defs pointsConsistent_def poolAt_def keyed_def batchesOk_def paymentsOk_def)
qed

lemma NewFromGenesis_run:
  assumes "NewFromGenesis None g s = (Inr (), t)"
  obtains u where "ValidateGenesisState g = Inr ()" "NewStateFromGenesis g s = (Inr (), u)" "t = u\<lparr>height := height u + 1\<rparr>"
  using assms by (auto simp: NewFromGenesis_def bnd_Inr modify_run ret_run err_run split: sum.splits)


section \<open>An example genesis\<close>

definition emptyState :: state where
  "emptyState = exampleState\<lparr>height := 0, accounts := [], pools := [], supplyTracker := emptySupply, validators := [], committeeIndex := []\<rparr>"

definition genesisDelegate :: validator where
  "genesisDelegate = exampleValidator\<lparr>vAddress := Addr (replicate 20 7), vOutput := Addr (replicate 20 1), vDelegate := True\<rparr>"

definition genesisOrder :: sellOrder where
  "genesisOrder = \<lparr>oId = [1], oCommittee = 1, oData = [], oAmountForSale = 9, oRequestedAmount = 4, oSellerReceiveAddress = [2],
     oBuyerSendAddress = [], oBuyerReceiveAddress = [], oBuyerChainDeadline = 0, oSellersSendAddress = [3]\<rparr>"

definition exampleGenesis :: genesisState where
  "exampleGenesis = \<lparr>gnPools = [\<lparr>pId = 1, pAmount = 10, pPoints = [], pTotalPoolPoints = 0\<rparr>], gnAccounts = [plain (Addr (replicate 20 1)) 60],
     gnValidators = [genesisDelegate], gnNonSigners = [], gnDoubleSigners = [],
     gnOrderBooks = Some [\<lparr>obChainId = 1, obOrders = [genesisOrder]\<rparr>],
     gnParams = \<lparr>pmConsensus = paramsCons exampleState, pmValidator = exampleValParams, pmFee = exampleFeeParams, pmGovernance = 5\<rparr>,
     gnSupply = emptySupply, gnCommittees = [], gnRetiredCommittees = [3]\<rparr>"

definition firstState :: state where
  "firstState = emptyState\<lparr>accounts := [(Addr (replicate 20 1), plain (Addr (replicate 20 1)) 60)],
     pools := [(1, \<lparr>pId = 1, pAmount = 10, pPoints = [], pTotalPoolPoints = 0\<rparr>),
       (1 + EscrowPoolAddend, \<lparr>pId = 1 + EscrowPoolAddend, pAmount = 9, pPoints = [], pTotalPoolPoints = 0\<rparr>)],
     validators := [(Addr (replicate 20 7), genesisDelegate)], delegateIndex := [((1, 30, Addr (replicate 20 7)), ())],
     orderBook := [((1, [1]), genesisOrder)], retiredCommittees := [(3, ())],
     supplyTracker := \<lparr>sTotal = 109, sStaked = 30, sDelegatedOnly = 30, sCommitteeStaked = [\<lparr>pId = 1, pAmount = 30, pPoints = [], pTotalPoolPoints = 0\<rparr>],
       sCommitteeDelegatedOnly = [\<lparr>pId = 1, pAmount = 30, pPoints = [], pTotalPoolPoints = 0\<rparr>]\<rparr>\<rparr>"

lemma example_fresh: "freshState emptyState" "genesisOk exampleGenesis"
  by (simp_all add: freshState_def emptyState_def exampleState_def genesisOk_def exampleGenesis_def points_ok_def points_sum_def)

lemmas genesis_example = exampleGenesis_def emptyState_def emptySupply_def genesisDelegate_def genesisOrder_def example_eval

lemma example_params: "SetParams (gnParams exampleGenesis) emptyState = (Inr (), emptyState)"
  by (simp add: SetParams_def SetParamsCons_def SetParamsVal_def SetParamsFee_def SetParamsGov_def go_eval genesis_example)

definition genesisPools :: "(u64, pool) table" where
  "genesisPools = [(1, \<lparr>pId = 1, pAmount = 10, pPoints = [], pTotalPoolPoints = 0\<rparr>)]"

abbreviation genesisSupply :: "u64 \<Rightarrow> Supply" where
  "genesisSupply n \<equiv> emptySupply\<lparr>sTotal := n\<rparr>"

lemma example_accounts:
  "SetAccounts (gnAccounts exampleGenesis) emptySupply emptyState =
     (Inr (genesisSupply 60), emptyState\<lparr>accounts := accounts firstState\<rparr>)"
  by (simp add: SetAccounts_def go_eval SetAccount_run putAccount_def plain_fields firstState_def exampleGenesis_def emptyState_def emptySupply_def
      unat_less_iff)

lemma example_pools:
  "SetPools (gnPools exampleGenesis) (genesisSupply 60) (emptyState\<lparr>accounts := accounts firstState\<rparr>) =
     (Inr (genesisSupply 70), emptyState\<lparr>accounts := accounts firstState, pools := genesisPools\<rparr>)"
  by (simp add: SetPools_def go_eval SetPool_run putPool_def exampleGenesis_def emptySupply_def MaxUint64_def firstState_def emptyState_def
      genesisPools_def unat_less_iff)

lemma example_validators:
  "SetValidators (gnValidators exampleGenesis) (genesisSupply 70)
      (emptyState\<lparr>accounts := accounts firstState, pools := genesisPools\<rparr>) =
     (Inr ((supplyTracker firstState)\<lparr>sTotal := 100\<rparr>),
      firstState\<lparr>pools := genesisPools, orderBook := [], retiredCommittees := [],
        supplyTracker := (supplyTracker firstState)\<lparr>sTotal := 0, sStaked := 0, sDelegatedOnly := 0\<rparr>\<rparr>)"
  by (simp add: genesisPools_def SetValidators_def setGenesisValidator_def go_eval genesis_example SetValidator_def SetDelegations_def SetDelegate_def firstState_def
     AddToCommitteeSupplyForChain_def AddToDelegateSupplyForChain_def addToSupplyPool_def executeOnSupplyPool_def getSupplyPools_def GetSupply_def
     SetSupply_def MaxUint64_def feature_of_version unat_less_iff unat_le_iff setSupplyPools_def FilterAndSortPool_def)

lemma example_orders:
  "SetOrderBooks [\<lparr>obChainId = 1, obOrders = [genesisOrder]\<rparr>] ((supplyTracker firstState)\<lparr>sTotal := 100\<rparr>)
      (firstState\<lparr>pools := genesisPools, orderBook := [], retiredCommittees := [],
        supplyTracker := sp\<rparr>) =
     (Inr (supplyTracker firstState), firstState\<lparr>retiredCommittees := [], supplyTracker := sp\<rparr>)"
proof -
  have "\<not> MaxUint64 - 9 < (100 :: u64)" "(1 :: u64) + EscrowPoolAddend \<noteq> 1" "1 < (1 :: u64) + EscrowPoolAddend" "\<not> 1 + EscrowPoolAddend < (1 :: u64)"
    by (simp_all add: MaxUint64_def EscrowPoolAddend_def unat_less_iff)
  then show ?thesis
    by (simp add: genesisPools_def SetOrderBooks_def go_eval SetOrder_def PoolAdd_run poolAt_def putPool_def firstState_def genesisOrder_def)
qed

lemma example_genesis: "NewStateFromGenesis exampleGenesis emptyState = (Inr (), firstState)"
proof -
  have "gnOrderBooks exampleGenesis = Some [\<lparr>obChainId = 1, obOrders = [genesisOrder]\<rparr>]" "gnRetiredCommittees exampleGenesis = [3]"
    by (simp_all add: exampleGenesis_def)
  then show ?thesis
    by (simp add: NewStateFromGenesis_def bnd_def example_params example_accounts example_pools example_validators example_orders
        SetSupply_def modify_run ret_run SetRetiredCommittees_def RetireCommittee_def)
      (simp add: firstState_def emptyState_def exampleState_def)
qed

lemma example_valid: "ValidateGenesisState exampleGenesis = Inr ()"
proof -
  have "ConsensusParams_Check (paramsCons exampleState) = Inr ()"
    by (simp add: ConsensusParams_Check_def exampleState_def MaxBlockHeaderSize_def ParseProtocolVersion_def checkProtocolVersion_def
        Delimiter_def ParseUint_def digitOf_def unat_less_iff)
  moreover have "ValidatorParams_Check exampleValParams = Inr ()"
    by (simp add: ValidatorParams_Check_def exampleValParams_def unat_less_iff)
  ultimately have "Params_Check (gnParams exampleGenesis) = Inr ()"
    by (simp add: Params_Check_def FeeParams_Check_def GovernanceParams_Check_def exampleGenesis_def unat_less_iff)
  then show ?thesis
    by (simp add: ValidateGenesisState_def checks.simps)
      (simp add: exampleGenesis_def checkGenesisValidator_def checkGenesisAccount_def check_def checks.simps genesisDelegate_def AddressSize_def
        plain_fields exampleValidator_def)
qed

theorem genesis_state_sound_witness:
  "\<exists>t. NewStateFromGenesis exampleGenesis emptyState = (Inr (), t) \<and> sTotal (supplyTracker t) = 109 \<and> conserved t \<and> ledger t \<and> solvent t"
proof -
  have "sTotal (supplyTracker firstState) = 109" by (simp add: firstState_def)
  with genesis_state_sound [OF example_fresh example_genesis] example_genesis show ?thesis by blast
qed

text \<open>The first block of the example has no transactions.\<close>

definition openedState :: state where
  "openedState = firstState\<lparr>height := 1\<rparr>"

lemma example_onChain: "onChain openedState"
proof (rule onChain.genesis [OF example_fresh])
  have "height firstState = 0" by (simp add: firstState_def emptyState_def)
  then show "NewFromGenesis None exampleGenesis emptyState = (Inr (), openedState)"
    by (simp add: NewFromGenesis_def example_valid bnd_def example_genesis ret_run modify_run openedState_def)
  show "reopened openedState openedState" by (simp add: reopened_def)
qed

definition closedState :: state where
  "closedState = openedState\<lparr>lastProposers := [[], [7], [], [], []], events := [], eventReference := []\<rparr>"

lemma opened_fields:
  "height openedState = 1" "rootDexBatch openedState = None" "TrimSpace (cfgFaucetAddress (cfg openedState)) = []"
  "paramsCons openedState = paramsCons exampleState" "committeesData openedState = []" "paused openedState = []" "unstaking openedState = []"
  "lockedBatches openedState = []" "lastProposers openedState = []" "sTotal (supplyTracker openedState) = 109"
  "unat (cfgInitialTokensPerBlock (cfg openedState)) = 50" "events openedState = []"
  by (simp_all add: openedState_def firstState_def emptyState_def exampleState_def TrimSpace_def)

lemma example_first_block: "\<exists>r. ApplyBlock exampleNode [] [7] openedState = (Inr r, closedState)"
proof -
  have begin': "BeginBlock exampleNode openedState = (Inr [], openedState\<lparr>eventReference := ''begin_block''\<rparr>)"
    by (simp add: BeginBlock_def bnd_def Refer_def modify_run gets_run ret_run node_fields opened_fields)
  have mx: "GetMaxBlockSize (openedState\<lparr>eventReference := e\<rparr>) = (Inr 998348, openedState\<lparr>eventReference := e\<rparr>)" for e
    by (simp add: GetMaxBlockSize_def GetParamsCons_def bnd_def gets_run ret_run opened_fields MaxBlockHeaderSize_def exampleState_def)
  have "EndBlock exampleNode [7] (openedState\<lparr>eventReference := e\<rparr>) = (Inr [], closedState)" for e
    by (simp add: EndBlock_def bnd_def Refer_def modify_run gets_run ret_run node_fields UpdateLastProposers_def GetLastProposers_def Let_def
        DistributeCommitteeRewards_def GetParamsVal_def GetCommitteesData_def SetCommitteesData_def opened_fields idle_end Reset_run closedState_def)
  with begin' mx show ?thesis
    by (simp add: ApplyBlock_def bnd_def ApplyTransactions_def gets_run ret_run)
qed


end
