(* ===== verification/Contract.thy ===== *)
theory Contract
  imports Certificates Keys
begin

text \<open>
  The plugin contract (\<open>plugin/go/contract\<close>): the code that a node runs in another process, which reads and writes the
  byte store of the state machine by messages (\<open>fsm/state.go\<close>, \<open>StateRead\<close> and \<open>StateWrite\<close>).

  The protobuf codec of the contract and the socket are parameters, collected in \<open>contractEnv\<close>; the query ids are random
  numbers, so they are arguments. A byte string of a message is \<open>nil\<close> when it is empty, as the codec decodes it.
\<close>

section \<open>The byte store seen by the plugin\<close>

type_synonym kv = "bytes \<rightharpoonup> bytes"

definition valueAt :: "kv \<Rightarrow> bytes \<Rightarrow> bytes" where
  "valueAt m k = (case m k of None \<Rightarrow> [] | Some v \<Rightarrow> v)"

text \<open>Reads by key; an entry is there for a missing key too, with no value.\<close>

definition StateRead :: "(u64 \<times> bytes) list \<Rightarrow> kv \<Rightarrow> (u64 \<times> bytes list) list" where
  "StateRead keys m = map (\<lambda>(queryId, key). (queryId, [valueAt m key])) keys"

definition StateWrite :: "(bytes \<times> bytes) list \<Rightarrow> bytes list \<Rightarrow> kv \<Rightarrow> kv" where
  "StateWrite sets deletes m = fold (\<lambda>key m. m(key := None)) deletes (fold (\<lambda>(key, value) m. m(key \<mapsto> value)) sets m)"

section \<open>Messages and records\<close>

record pluginAccount =
  paAddress :: bytes
  paAmount :: u64
  paUnknown :: bytes

record pluginPool =
  ppoolId :: u64
  ppoolAmount :: u64
  ppoolUnknown :: bytes

record nft =
  nftTokenId :: bytes
  nftCreator :: bytes
  nftName :: bytes
  nftImage :: bytes
  nftMetadata :: bytes
  nftCreatedHeight :: u64
  nftStaked :: bool

record pluginSend =
  psFromAddress :: bytes
  psToAddress :: bytes
  psAmount :: u64

record pluginMintNFT =
  pmCreator :: bytes
  pmTokenId :: bytes
  pmName :: bytes
  pmImage :: bytes
  pmMetadata :: bytes

record pluginSetStake =
  pkOwner :: bytes
  pkTokenId :: bytes
  pkStake :: bool

record pluginSendToken =
  ptFrom :: bytes
  ptTo :: bytes
  ptTokenId :: bytes
  ptAmount :: u64

record pluginLikePost =
  plLiker :: bytes
  plOwner :: bytes
  plPostId :: u64
  plLiked :: bool

datatype pluginMessage =
    PluginSend pluginSend
  | PluginMintNFT pluginMintNFT
  | PluginSetStake pluginSetStake
  | PluginSendToken pluginSendToken
  | PluginLikePost pluginLikePost
  | PluginOther

text \<open>The payload is what \<open>FromAny\<close> makes of it.\<close>

record pluginTx =
  pxMsg :: "error + pluginMessage"
  pxFee :: u64

record contractEnv =
  ceAccount :: "bytes \<Rightarrow> error + pluginAccount"
  cePool :: "bytes \<Rightarrow> error + pluginPool"
  ceNFT :: "bytes \<Rightarrow> error + nft"
  ceSendFee :: "bytes \<Rightarrow> error + u64"
  ceMarshalAccount :: "pluginAccount \<Rightarrow> error + bytes"
  ceMarshalPool :: "pluginPool \<Rightarrow> error + bytes"
  ceMarshalNFT :: "nft \<Rightarrow> error + bytes"
  ceReadFails :: "error option"
  ceWriteFails :: "error option"

record contract =
  coChainId :: u64
  coCurrentHeight :: u64

type_synonym 'a cm = "(kv, error, 'a) sm"

text \<open>\<open>Unmarshal\<close> into a new object: nothing to do for no bytes.\<close>

definition Unmarshal :: "(bytes \<Rightarrow> error + 'a) \<Rightarrow> 'a \<Rightarrow> bytes \<Rightarrow> error + 'a" where
  "Unmarshal decode new protoBytes = (if protoBytes = [] then Inr new else decode protoBytes)"

definition newAccount :: pluginAccount where "newAccount = \<lparr>paAddress = [], paAmount = 0, paUnknown = []\<rparr>"
definition newPool :: pluginPool where "newPool = \<lparr>ppoolId = 0, ppoolAmount = 0, ppoolUnknown = []\<rparr>"
definition newNFT :: nft where
  "newNFT = \<lparr>nftTokenId = [], nftCreator = [], nftName = [], nftImage = [], nftMetadata = [], nftCreatedHeight = 0, nftStaked = False\<rparr>"

definition lift :: "error + 'a \<Rightarrow> 'a cm" where
  "lift r = (case r of Inl e \<Rightarrow> err e | Inr x \<Rightarrow> ret x)"

section \<open>Keys\<close>

definition nilable :: "bytes \<Rightarrow> bytes option" where
  "nilable b = (if b = [] then None else Some b)"

definition KeyForAccount :: "bytes \<Rightarrow> bytes" where
  "KeyForAccount addr = JoinLenPrefix [Some [1], nilable addr]"

definition KeyForNFT :: "bytes \<Rightarrow> bytes" where
  "KeyForNFT tokenId = JoinLenPrefix [Some [8], Some tokenId]"

definition KeyForFeeParams :: bytes where
  "KeyForFeeParams = JoinLenPrefix [Some [7], Some [47, 102, 47]]"

definition KeyForFeePool :: "u64 \<Rightarrow> bytes" where
  "KeyForFeePool chainId = JoinLenPrefix [Some [2], Some (formatUint64 chainId)]"

lemmas contract_keys = KeyForAccount_def KeyForNFT_def KeyForFeeParams_def KeyForFeePool_def JoinLenPrefix_def nilable_def

section \<open>Checking a transaction\<close>

text \<open>The recipient and the authorized signers, or the error of the response.\<close>

type_synonym checkResponse = "error + bytes \<times> bytes list"

definition CheckMessageSend :: "pluginSend \<Rightarrow> checkResponse" where
  "CheckMessageSend msg =
     (if length (psFromAddress msg) \<noteq> 20 then Inl ErrInvalidAddress
      else if length (psToAddress msg) \<noteq> 20 then Inl ErrInvalidAddress
      else if psAmount msg = 0 then Inl ErrInvalidAmount
      else Inr (psToAddress msg, [psFromAddress msg]))"

definition CheckMessageMintNFT :: "pluginMintNFT \<Rightarrow> checkResponse" where
  "CheckMessageMintNFT msg =
     (if length (pmCreator msg) \<noteq> 20 then Inl ErrInvalidAddress
      else if pmTokenId msg = [] then Inl ErrInvalidAmount
      else if pmName msg = [] then Inl ErrInvalidAmount
      else if pmMetadata msg = [] then Inl ErrInvalidAmount
      else Inr ([], [pmCreator msg]))"

definition CheckMessageSetStake :: "pluginSetStake \<Rightarrow> checkResponse" where
  "CheckMessageSetStake msg =
     (if length (pkOwner msg) \<noteq> 20 then Inl ErrInvalidAddress
      else if pkTokenId msg = [] then Inl ErrInvalidAmount
      else Inr ([], [pkOwner msg]))"

definition CheckMessageSendToken :: "pluginSendToken \<Rightarrow> checkResponse" where
  "CheckMessageSendToken msg =
     (if length (ptFrom msg) \<noteq> 20 then Inl ErrInvalidAddress
      else if length (ptTo msg) \<noteq> 20 then Inl ErrInvalidAddress
      else if ptTokenId msg = [] then Inl ErrInvalidAmount
      else if ptAmount msg = 0 then Inl ErrInvalidAmount
      else Inr (ptTo msg, [ptFrom msg]))"

definition CheckMessageLikePost :: "pluginLikePost \<Rightarrow> checkResponse" where
  "CheckMessageLikePost msg =
     (if length (plLiker msg) \<noteq> 20 then Inl ErrInvalidAddress
      else if length (plOwner msg) \<noteq> 20 then Inl ErrInvalidAddress
      else if plPostId msg = 0 then Inl ErrInvalidAmount
      else Inr (plOwner msg, [plLiker msg]))"

text \<open>A read through the socket: the request may fail.\<close>

definition plugin_StateRead :: "contractEnv \<Rightarrow> (u64 \<times> bytes) list \<Rightarrow> (u64 \<times> bytes list) list cm" where
  "plugin_StateRead E keys = (case ceReadFails E of Some e \<Rightarrow> err e | None \<Rightarrow> gets (StateRead keys))"

definition plugin_StateWrite :: "contractEnv \<Rightarrow> (bytes \<times> bytes) list \<Rightarrow> bytes list \<Rightarrow> unit cm" where
  "plugin_StateWrite E sets deletes = (case ceWriteFails E of Some e \<Rightarrow> err e | None \<Rightarrow> modify (StateWrite sets deletes))"

definition Contract_CheckTx :: "contractEnv \<Rightarrow> u64 \<Rightarrow> pluginTx \<Rightarrow> (bytes \<times> bytes list) cm" where
  "Contract_CheckTx E queryId tx =
     bnd (plugin_StateRead E [(queryId, KeyForFeeParams)]) (\<lambda>results.
     case results of
       (_, value # _) # _ \<Rightarrow>
         bnd (lift (Unmarshal (ceSendFee E) 0 value)) (\<lambda>sendFee.
         if pxFee tx < sendFee then err (Error ''TxFeeBelowStateLimit'')
         else bnd (lift (pxMsg tx)) (\<lambda>msg. lift (case msg of
             PluginSend x \<Rightarrow> CheckMessageSend x
           | PluginMintNFT x \<Rightarrow> CheckMessageMintNFT x
           | PluginSetStake x \<Rightarrow> CheckMessageSetStake x
           | PluginSendToken x \<Rightarrow> CheckMessageSendToken x
           | PluginLikePost x \<Rightarrow> CheckMessageLikePost x
           | PluginOther \<Rightarrow> Inl ErrInvalidAmount)))
     | _ \<Rightarrow> err ErrPanic)"

section \<open>Delivering a transaction\<close>

text \<open>The loop over the results of a read with three query ids: the first case that matches is taken.\<close>

definition takeResult :: "u64 \<Rightarrow> u64 \<Rightarrow> u64 \<Rightarrow> u64 \<times> bytes list \<Rightarrow> bytes \<times> bytes \<times> bytes \<Rightarrow> bytes \<times> bytes \<times> bytes" where
  "takeResult q1 q2 q3 = (\<lambda>(queryId, entries) (b1, b2, b3).
     case entries of [] \<Rightarrow> (b1, b2, b3)
     | value # _ \<Rightarrow> if queryId = q1 then (value, b2, b3) else if queryId = q2 then (b1, value, b3)
         else if queryId = q3 then (b1, b2, value) else (b1, b2, b3))"

definition readThree :: "contractEnv \<Rightarrow> u64 \<times> bytes \<Rightarrow> u64 \<times> bytes \<Rightarrow> u64 \<times> bytes \<Rightarrow> (u64 \<times> bytes) list \<Rightarrow> (bytes \<times> bytes \<times> bytes) cm" where
  "readThree E k1 k2 k3 request =
     bnd (plugin_StateRead E request) (\<lambda>results. ret (fold (takeResult (fst k1) (fst k2) (fst k3)) results ([], [], [])))"

text \<open>
  \<open>to = from\<close> makes both names the same object: the amount sent is added to what is left of it, and
  the test for an empty sender sees that.
\<close>

definition settleSend :: "contractEnv \<Rightarrow> bytes \<Rightarrow> bytes \<Rightarrow> bytes \<Rightarrow> u64 \<Rightarrow> u64 \<Rightarrow> pluginAccount \<Rightarrow> pluginAccount \<Rightarrow> pluginPool \<Rightarrow> unit cm" where
  "settleSend E fromKey toKey feePoolKey amount fee from0 to0 pool0 =
     (let amountToDeduct = amount + fee;
          debited = from0\<lparr>paAmount := paAmount from0 - amountToDeduct\<rparr>;
          feePool = pool0\<lparr>ppoolAmount := ppoolAmount pool0 + fee\<rparr>;
          to = (if fromKey = toKey then debited else to0);
          credited = to\<lparr>paAmount := paAmount to + amount\<rparr>;
          from' = (if fromKey = toKey then credited else debited) in
      if paAmount from0 < amountToDeduct then err ErrInsufficientFunds
      else
        bnd (lift (ceMarshalAccount E from')) (\<lambda>fromBytes.
        bnd (lift (ceMarshalAccount E credited)) (\<lambda>toBytes.
        bnd (lift (ceMarshalPool E feePool)) (\<lambda>feePoolBytes.
        if paAmount from' = 0 then plugin_StateWrite E [(feePoolKey, feePoolBytes), (toKey, toBytes)] [fromKey]
        else plugin_StateWrite E [(feePoolKey, feePoolBytes), (toKey, toBytes), (fromKey, fromBytes)] []))))"

definition DeliverMessageSend :: "contractEnv \<Rightarrow> contract \<Rightarrow> u64 \<times> u64 \<times> u64 \<Rightarrow> pluginSend \<Rightarrow> u64 \<Rightarrow> unit cm" where
  "DeliverMessageSend E c = (\<lambda>(fromQueryId, toQueryId, feeQueryId) msg fee.
     let fromKey = KeyForAccount (psFromAddress msg); toKey = KeyForAccount (psToAddress msg); feePoolKey = KeyForFeePool (coChainId c) in
     bnd (readThree E (fromQueryId, fromKey) (toQueryId, toKey) (feeQueryId, feePoolKey)
       [(feeQueryId, feePoolKey), (fromQueryId, fromKey), (toQueryId, toKey)]) (\<lambda>(fromBytes, toBytes, feePoolBytes).
     bnd (lift (Unmarshal (ceAccount E) newAccount fromBytes)) (\<lambda>from0.
     bnd (lift (Unmarshal (ceAccount E) newAccount toBytes)) (\<lambda>to0.
     bnd (lift (Unmarshal (cePool E) newPool feePoolBytes)) (\<lambda>pool0.
     settleSend E fromKey toKey feePoolKey (psAmount msg) fee from0 to0 pool0)))))"

definition DeliverMessageMintNFT :: "contractEnv \<Rightarrow> contract \<Rightarrow> u64 \<times> u64 \<times> u64 \<Rightarrow> pluginMintNFT \<Rightarrow> u64 \<Rightarrow> unit cm" where
  "DeliverMessageMintNFT E c = (\<lambda>(nftQueryId, creatorQueryId, feeQId) msg fee.
     let nftKey = KeyForNFT (pmTokenId msg); creatorKey = KeyForAccount (pmCreator msg); feePoolKey = KeyForFeePool (coChainId c) in
     bnd (readThree E (nftQueryId, nftKey) (creatorQueryId, creatorKey) (feeQId, feePoolKey)
       [(nftQueryId, nftKey), (creatorQueryId, creatorKey), (feeQId, feePoolKey)]) (\<lambda>(_, creatorBytes, feePoolBytes).
     bnd (lift (Unmarshal (ceAccount E) newAccount creatorBytes)) (\<lambda>creator.
     bnd (lift (Unmarshal (cePool E) newPool feePoolBytes)) (\<lambda>feePool.
     if paAmount creator < fee then err ErrInsufficientFunds
     else
       bnd (lift (ceMarshalNFT E \<lparr>nftTokenId = pmTokenId msg, nftCreator = pmCreator msg, nftName = pmName msg, nftImage = pmImage msg,
         nftMetadata = pmMetadata msg, nftCreatedHeight = coCurrentHeight c, nftStaked = False\<rparr>)) (\<lambda>nftBytes.
       bnd (lift (ceMarshalAccount E (creator\<lparr>paAmount := paAmount creator - fee\<rparr>))) (\<lambda>creatorBytes'.
       bnd (lift (ceMarshalPool E (feePool\<lparr>ppoolAmount := ppoolAmount feePool + fee\<rparr>))) (\<lambda>feePoolBytes'.
       plugin_StateWrite E [(nftKey, nftBytes), (creatorKey, creatorBytes'), (feePoolKey, feePoolBytes')] [])))))))"

text \<open>A failed encoding of the NFT is not looked at: no bytes are written then.\<close>

definition DeliverMessageSetStake :: "contractEnv \<Rightarrow> pluginSetStake \<Rightarrow> u64 \<Rightarrow> unit cm" where
  "DeliverMessageSetStake E msg fee =
     (let nftKey = KeyForNFT (pkTokenId msg) in
      bnd (plugin_StateRead E [(1, nftKey)]) (\<lambda>results.
      case results of [] \<Rightarrow> err ErrPanic
      | (_, []) # _ \<Rightarrow> err ErrInvalidAmount
      | (_, value # _) # _ \<Rightarrow>
        bnd (lift (Unmarshal (ceNFT E) newNFT value)) (\<lambda>nft.
        if nftCreator nft \<noteq> pkOwner msg then err (Error ''Unauthorized'')
        else plugin_StateWrite E [(nftKey, case ceMarshalNFT E (nft\<lparr>nftStaked := pkStake msg\<rparr>) of Inl _ \<Rightarrow> [] | Inr b \<Rightarrow> b)] [])))"

text \<open>Only a log line, so far.\<close>

definition DeliverMessageSendToken :: "pluginSendToken \<Rightarrow> unit cm" where
  "DeliverMessageSendToken msg = ret ()"

definition DeliverMessageLikePost :: "pluginLikePost \<Rightarrow> unit cm" where
  "DeliverMessageLikePost msg = ret ()"

definition Contract_DeliverTx :: "contractEnv \<Rightarrow> contract \<Rightarrow> u64 \<times> u64 \<times> u64 \<Rightarrow> pluginTx \<Rightarrow> unit cm" where
  "Contract_DeliverTx E c ids tx = bnd (lift (pxMsg tx)) (\<lambda>msg. case msg of
       PluginSend x \<Rightarrow> DeliverMessageSend E c ids x (pxFee tx)
     | PluginMintNFT x \<Rightarrow> DeliverMessageMintNFT E c ids x (pxFee tx)
     | PluginSetStake x \<Rightarrow> DeliverMessageSetStake E x (pxFee tx)
     | PluginSendToken x \<Rightarrow> DeliverMessageSendToken x
     | PluginLikePost x \<Rightarrow> DeliverMessageLikePost x
     | PluginOther \<Rightarrow> err ErrInvalidAmount)"

section \<open>Requests\<close>

text \<open>\<open>Genesis\<close> and \<open>EndBlock\<close> do nothing; \<open>BeginBlock\<close> notes the height in its receiver.\<close>

datatype pluginRequest =
    ReqGenesis
  | ReqBegin u64
  | ReqCheck u64 pluginTx
  | ReqDeliver "u64 \<times> u64 \<times> u64" pluginTx
  | ReqEnd

definition Contract_BeginBlock :: "u64 \<Rightarrow> contract \<Rightarrow> contract" where
  "Contract_BeginBlock h c = c\<lparr>coCurrentHeight := h\<rparr>"

text \<open>\<open>ListenForInbound\<close>: every request has a contract of its own, which is gone when it is answered.\<close>

definition handleInbound :: "contractEnv \<Rightarrow> u64 \<Rightarrow> pluginRequest \<Rightarrow> unit cm" where
  "handleInbound E chainId request =
     (let c = \<lparr>coChainId = chainId, coCurrentHeight = 0\<rparr> in
      case request of
        ReqGenesis \<Rightarrow> ret ()
      | ReqBegin h \<Rightarrow> (let c' = Contract_BeginBlock h c in ret ())
      | ReqCheck queryId tx \<Rightarrow> bnd (Contract_CheckTx E queryId tx) (\<lambda>_. ret ())
      | ReqDeliver ids tx \<Rightarrow> Contract_DeliverTx E c ids tx
      | ReqEnd \<Rightarrow> ret ())"

section \<open>What a successful request did\<close>

lemma lift_run: "lift r m = (Inr x, m') \<longleftrightarrow> r = Inr x \<and> m' = m"
  by (auto simp: lift_def err_run ret_run split: sum.splits)

lemma readThree_run:
  assumes "distinct [q1, q2, q3]" and "set request = {(q1, k1), (q2, k2), (q3, k3)}" and "distinct request"
    and "readThree E (q1, k1) (q2, k2) (q3, k3) request m = (Inr bs, m')"
  shows "bs = (valueAt m k1, valueAt m k2, valueAt m k3) \<and> m' = m"
proof -
  let ?t = "takeResult q1 q2 q3"
  have step: "fold ?t (StateRead ks m) bs0 = (if (q1, k1) \<in> set ks then valueAt m k1 else fst bs0,
      if (q2, k2) \<in> set ks then valueAt m k2 else fst (snd bs0), if (q3, k3) \<in> set ks then valueAt m k3 else snd (snd bs0))"
    if "set ks \<subseteq> {(q1, k1), (q2, k2), (q3, k3)}" for ks bs0
    using that assms(1)
  proof (induction ks arbitrary: bs0)
    case (Cons k ks)
    then show ?case by (cases bs0) (auto simp: StateRead_def takeResult_def)
  qed (simp add: StateRead_def)
  from assms(4) have "bs = fold ?t (StateRead request m) ([], [], [])" "m' = m"
    by (auto simp: readThree_def plugin_StateRead_def bnd_Inr gets_run ret_run err_run split: option.splits)
  with step [of request "([], [], [])"] assms(2) show ?thesis by simp
qed

lemma write_run:
  "plugin_StateWrite E sets deletes m = (Inr (), m') \<Longrightarrow> m' = StateWrite sets deletes m"
  by (auto simp: plugin_StateWrite_def err_run modify_run split: option.splits)

text \<open>The codec reads back what it wrote.\<close>

definition codecOk :: "contractEnv \<Rightarrow> bool" where
  "codecOk E \<longleftrightarrow> (\<forall>x b. ceMarshalAccount E x = Inr b \<longrightarrow> Unmarshal (ceAccount E) newAccount b = Inr x) \<and>
     (\<forall>x b. ceMarshalPool E x = Inr b \<longrightarrow> Unmarshal (cePool E) newPool b = Inr x) \<and>
     (\<forall>x b. ceMarshalNFT E x = Inr b \<longrightarrow> Unmarshal (ceNFT E) newNFT b = Inr x)"

definition accountOf :: "contractEnv \<Rightarrow> kv \<Rightarrow> bytes \<Rightarrow> nat" where
  "accountOf E m a = (case Unmarshal (ceAccount E) newAccount (valueAt m (KeyForAccount a)) of Inl _ \<Rightarrow> 0 | Inr x \<Rightarrow> unat (paAmount x))"

definition feePoolOf :: "contractEnv \<Rightarrow> kv \<Rightarrow> u64 \<Rightarrow> nat" where
  "feePoolOf E m c = (case Unmarshal (cePool E) newPool (valueAt m (KeyForFeePool c)) of Inl _ \<Rightarrow> 0 | Inr x \<Rightarrow> unat (ppoolAmount x))"

definition nftOf :: "contractEnv \<Rightarrow> kv \<Rightarrow> bytes \<Rightarrow> nft" where
  "nftOf E m i = (case Unmarshal (ceNFT E) newNFT (valueAt m (KeyForNFT i)) of Inl _ \<Rightarrow> newNFT | Inr x \<Rightarrow> x)"

lemma keys_differ:
  "KeyForAccount a \<noteq> KeyForFeePool c" "KeyForNFT i \<noteq> KeyForAccount a" "KeyForNFT i \<noteq> KeyForFeePool c"
  "KeyForFeePool c \<noteq> KeyForAccount a" "KeyForAccount a \<noteq> KeyForNFT i" "KeyForFeePool c \<noteq> KeyForNFT i"
  "KeyForAccount a = KeyForAccount b \<longleftrightarrow> a = b" "KeyForNFT i = KeyForNFT j \<longleftrightarrow> i = j"
  by (auto simp: contract_keys split: if_splits)

lemma valueAt_upd: "valueAt (m(k \<mapsto> v)) j = (if j = k then v else valueAt m j)" "valueAt (m(k := None)) j = (if j = k then [] else valueAt m j)"
  by (simp_all add: valueAt_def)

lemma send_effect:
  assumes run: "DeliverMessageSend E c (q1, q2, q3) msg fee m = (Inr (), m')" and ids: "distinct [q1, q2, q3]" and E: "codecOk E"
  obtains A B P where "accountOf E m (psFromAddress msg) = unat A" "accountOf E m (psToAddress msg) = unat B"
    "feePoolOf E m (coChainId c) = unat P" "\<not> A < psAmount msg + fee" "psFromAddress msg = psToAddress msg \<Longrightarrow> A = B"
    "accountOf E m' (psToAddress msg) =
       unat ((if psFromAddress msg = psToAddress msg then A - (psAmount msg + fee) else B) + psAmount msg)"
    "psFromAddress msg \<noteq> psToAddress msg \<Longrightarrow> accountOf E m' (psFromAddress msg) = unat (A - (psAmount msg + fee))"
    "feePoolOf E m' (coChainId c) = unat (P + fee)"
    "\<And>k. k \<notin> {KeyForAccount (psFromAddress msg), KeyForAccount (psToAddress msg), KeyForFeePool (coChainId c)} \<Longrightarrow> m' k = m k"
proof -
  let ?f = "KeyForAccount (psFromAddress msg)" and ?t = "KeyForAccount (psToAddress msg)" and ?p = "KeyForFeePool (coChainId c)"
  let ?d = "psAmount msg + fee"
  obtain bs n where read: "readThree E (q1, ?f) (q2, ?t) (q3, ?p) [(q3, ?p), (q1, ?f), (q2, ?t)] m = (Inr bs, n)"
    using run by (auto simp: DeliverMessageSend_def Let_def bnd_Inr)
  have bs: "bs = (valueAt m ?f, valueAt m ?t, valueAt m ?p)" "n = m"
    using readThree_run [OF ids _ _ read] ids by auto
  obtain from0 to0 pool0 where
    old: "Unmarshal (ceAccount E) newAccount (valueAt m ?f) = Inr from0" "Unmarshal (ceAccount E) newAccount (valueAt m ?t) = Inr to0"
      "Unmarshal (cePool E) newPool (valueAt m ?p) = Inr pool0"
    and settle: "settleSend E ?f ?t ?p (psAmount msg) fee from0 to0 pool0 m = (Inr (), m')"
    using run read bs by (auto simp: DeliverMessageSend_def Let_def bnd_Inr lift_run)
  define debited where "debited = from0\<lparr>paAmount := paAmount from0 - ?d\<rparr>"
  define to' where "to' = (if ?f = ?t then debited else to0)"
  define credited where "credited = to'\<lparr>paAmount := paAmount to' + psAmount msg\<rparr>"
  define from' where "from' = (if ?f = ?t then credited else debited)"
  define pool' where "pool' = pool0\<lparr>ppoolAmount := ppoolAmount pool0 + fee\<rparr>"
  have enough: "\<not> paAmount from0 < ?d" using settle by (auto simp: settleSend_def err_run split: if_splits)
  obtain fb tb pb where enc: "ceMarshalAccount E from' = Inr fb" "ceMarshalAccount E credited = Inr tb" "ceMarshalPool E pool' = Inr pb"
    and m': "m' = (if paAmount from' = 0 then StateWrite [(?p, pb), (?t, tb)] [?f] m else StateWrite [(?p, pb), (?t, tb), (?f, fb)] [] m)"
    using settle enough unfolding settleSend_def Let_def debited_def [symmetric] to'_def [symmetric] credited_def [symmetric] from'_def [symmetric]
      pool'_def [symmetric]
    by (auto simp: bnd_Inr lift_run dest!: write_run split: if_splits)
  have dec: "Unmarshal (ceAccount E) newAccount fb = Inr from'" "Unmarshal (ceAccount E) newAccount tb = Inr credited"
      "Unmarshal (cePool E) newPool pb = Inr pool'"
    using E enc by (simp_all add: codecOk_def)
  have same: "psFromAddress msg = psToAddress msg \<Longrightarrow> from0 = to0" using old by simp
  note eval = m' StateWrite_def accountOf_def feePoolOf_def valueAt_upd keys_differ Unmarshal_def [of _ _ "[]"] newAccount_def
  show thesis
  proof (rule that [of "paAmount from0" "paAmount to0" "ppoolAmount pool0"])
    show "accountOf E m' (psToAddress msg) =
       unat ((if psFromAddress msg = psToAddress msg then paAmount from0 - ?d else paAmount to0) + psAmount msg)"
      using dec by (auto simp: eval from'_def credited_def to'_def debited_def)
    show "accountOf E m' (psFromAddress msg) = unat (paAmount from0 - ?d)" if "psFromAddress msg \<noteq> psToAddress msg"
      using dec that by (auto simp: eval from'_def credited_def to'_def debited_def)
    show "feePoolOf E m' (coChainId c) = unat (ppoolAmount pool0 + fee)" using dec by (auto simp: eval pool'_def)
    show "m' k = m k" if "k \<notin> {?f, ?t, ?p}" for k using that by (simp add: m' StateWrite_def)
  qed (use old same enough in \<open>simp_all add: accountOf_def feePoolOf_def\<close>)
qed

lemma send_frame:
  assumes "DeliverMessageSend E c ids msg fee m = (Inr (), m')"
    and "k \<notin> {KeyForAccount (psFromAddress msg), KeyForAccount (psToAddress msg), KeyForFeePool (coChainId c)}"
  shows "m' k = m k"
proof -
  obtain q1 q2 q3 where ids: "ids = (q1, q2, q3)" by (cases ids) auto
  obtain from0 to0 pool0 n where "settleSend E (KeyForAccount (psFromAddress msg)) (KeyForAccount (psToAddress msg)) (KeyForFeePool (coChainId c))
      (psAmount msg) fee from0 to0 pool0 n = (Inr (), m')" "n = m"
    using assms(1) by (auto simp: ids DeliverMessageSend_def Let_def bnd_Inr lift_run readThree_def plugin_StateRead_def gets_run ret_run err_run
        split: option.splits)
  with assms(2) show ?thesis
    by (auto simp: settleSend_def Let_def bnd_Inr lift_run err_run StateWrite_def split: if_splits dest!: write_run)
qed

lemma mint_effect:
  assumes run: "DeliverMessageMintNFT E c (q1, q2, q3) msg fee m = (Inr (), m')" and E: "codecOk E"
  shows "nftOf E m' (pmTokenId msg) = \<lparr>nftTokenId = pmTokenId msg, nftCreator = pmCreator msg, nftName = pmName msg, nftImage = pmImage msg,
      nftMetadata = pmMetadata msg, nftCreatedHeight = coCurrentHeight c, nftStaked = False\<rparr>"
    and "distinct [q1, q2, q3] \<Longrightarrow> accountOf E m' (pmCreator msg) + unat fee = accountOf E m (pmCreator msg)"
    and "k \<notin> {KeyForNFT (pmTokenId msg), KeyForAccount (pmCreator msg), KeyForFeePool (coChainId c)} \<Longrightarrow> m' k = m k"
proof -
  let ?n = "KeyForNFT (pmTokenId msg)" and ?a = "KeyForAccount (pmCreator msg)" and ?p = "KeyForFeePool (coChainId c)"
  let ?new = "\<lparr>nftTokenId = pmTokenId msg, nftCreator = pmCreator msg, nftName = pmName msg, nftImage = pmImage msg,
      nftMetadata = pmMetadata msg, nftCreatedHeight = coCurrentHeight c, nftStaked = False\<rparr>"
  obtain bs n creator pool nb cb pb where
    read: "readThree E (q1, ?n) (q2, ?a) (q3, ?p) [(q1, ?n), (q2, ?a), (q3, ?p)] m = (Inr bs, n)"
    and dec: "Unmarshal (ceAccount E) newAccount (fst (snd bs)) = Inr creator" "Unmarshal (cePool E) newPool (snd (snd bs)) = Inr pool"
    and enough: "\<not> paAmount creator < fee"
    and enc: "ceMarshalNFT E ?new = Inr nb" "ceMarshalAccount E (creator\<lparr>paAmount := paAmount creator - fee\<rparr>) = Inr cb"
      "ceMarshalPool E (pool\<lparr>ppoolAmount := ppoolAmount pool + fee\<rparr>) = Inr pb"
    and m': "m' = StateWrite [(?n, nb), (?a, cb), (?p, pb)] [] n"
    using run by (auto simp: DeliverMessageMintNFT_def Let_def bnd_Inr lift_run err_run split: if_splits dest!: write_run)
  have n: "n = m" using read
    by (auto simp: readThree_def plugin_StateRead_def bnd_Inr gets_run ret_run err_run split: option.splits)
  have again: "Unmarshal (ceNFT E) newNFT nb = Inr ?new" "Unmarshal (ceAccount E) newAccount cb = Inr (creator\<lparr>paAmount := paAmount creator - fee\<rparr>)"
    using E enc unfolding codecOk_def by blast+
  note eval = m' n StateWrite_def nftOf_def accountOf_def valueAt_upd keys_differ
  show "nftOf E m' (pmTokenId msg) = ?new" using again by (simp add: eval)
  show "accountOf E m' (pmCreator msg) + unat fee = accountOf E m (pmCreator msg)" if ids: "distinct [q1, q2, q3]"
  proof -
    have "bs = (valueAt m ?n, valueAt m ?a, valueAt m ?p)" using readThree_run [OF ids _ _ read] ids by auto
    with dec(1) have "accountOf E m (pmCreator msg) = unat (paAmount creator)" by (simp add: accountOf_def)
    moreover have "accountOf E m' (pmCreator msg) = unat (paAmount creator - fee)" using again by (simp add: eval)
    ultimately show ?thesis using enough by (simp add: unat_sub_guarded linorder_not_less unat_le_iff)
  qed
  show "m' k = m k" if "k \<notin> {?n, ?a, ?p}" using that by (simp add: m' n StateWrite_def)
qed

lemma stake_effect:
  assumes run: "DeliverMessageSetStake E msg fee m = (Inr (), m')"
  shows "nftCreator (nftOf E m (pkTokenId msg)) = pkOwner msg" and "k \<noteq> KeyForNFT (pkTokenId msg) \<Longrightarrow> m' k = m k"
proof -
  obtain nft b where "Unmarshal (ceNFT E) newNFT (valueAt m (KeyForNFT (pkTokenId msg))) = Inr nft" "nftCreator nft = pkOwner msg"
    "m' = StateWrite [(KeyForNFT (pkTokenId msg), b)] [] m"
    using run by (auto simp: DeliverMessageSetStake_def Let_def plugin_StateRead_def StateRead_def bnd_Inr gets_run lift_run err_run
        split: option.splits if_splits dest!: write_run)
  then show "nftCreator (nftOf E m (pkTokenId msg)) = pkOwner msg" "k \<noteq> KeyForNFT (pkTokenId msg) \<Longrightarrow> m' k = m k"
    by (simp_all add: nftOf_def StateWrite_def)
qed

lemma check_keeps: "Contract_CheckTx E q tx m = (r, m') \<Longrightarrow> m' = m"
  by (auto simp: Contract_CheckTx_def plugin_StateRead_def bnd_def lift_def gets_def err_def ret_def split: option.splits list.splits sum.splits prod.splits if_splits)

section \<open>Properties\<close>

lemma deliver_run:
  assumes "handleInbound E chainId (ReqDeliver ids tx) m = (Inr (), m')"
  obtains msg where "pxMsg tx = Inr msg" "(case msg of
       PluginSend x \<Rightarrow> DeliverMessageSend E \<lparr>coChainId = chainId, coCurrentHeight = 0\<rparr> ids x (pxFee tx)
     | PluginMintNFT x \<Rightarrow> DeliverMessageMintNFT E \<lparr>coChainId = chainId, coCurrentHeight = 0\<rparr> ids x (pxFee tx)
     | PluginSetStake x \<Rightarrow> DeliverMessageSetStake E x (pxFee tx)
     | PluginSendToken x \<Rightarrow> DeliverMessageSendToken x
     | PluginLikePost x \<Rightarrow> DeliverMessageLikePost x
     | PluginOther \<Rightarrow> err ErrInvalidAmount) m = (Inr (), m')"
  using assms by (auto simp: handleInbound_def Contract_DeliverTx_def Let_def bnd_Inr lift_run)


text \<open>
  C34: Minting pays its fee and takes the token id, whoever held it: after a successful mint the record under the id names
  the minter as its creator, unstaked, with height zero, also where another creator's record was there before. The
  height is zero because the contract that saw the height of the block is not the one that mints.
\<close>

theorem plugin_mint_replaces:
  assumes "codecOk E" and "distinct [q1, q2, q3]"
    and "handleInbound E chainId (ReqDeliver (q1, q2, q3) \<lparr>pxMsg = Inr (PluginMintNFT msg), pxFee = fee\<rparr>) m = (Inr (), m')"
  shows "nftOf E m' (pmTokenId msg) = \<lparr>nftTokenId = pmTokenId msg, nftCreator = pmCreator msg, nftName = pmName msg, nftImage = pmImage msg,
      nftMetadata = pmMetadata msg, nftCreatedHeight = 0, nftStaked = False\<rparr> \<and>
    accountOf E m' (pmCreator msg) + unat fee = accountOf E m (pmCreator msg)"
proof -
  have run: "DeliverMessageMintNFT E \<lparr>coChainId = chainId, coCurrentHeight = 0\<rparr> (q1, q2, q3) msg fee m = (Inr (), m')"
    using assms(3) by (rule deliver_run) auto
  from mint_effect(1,2) [OF this assms(1)] assms(2) show ?thesis by simp
qed

text \<open>
  Only its creator stakes or unstakes an NFT: if a request changes the stake of a token id, it delivers a stake message
  of the recorded creator for that id, or a mint of that id.
\<close>

theorem plugin_stake_authorized:
  assumes "codecOk E" and "handleInbound E chainId request m = (Inr (), m')"
    and "nftStaked (nftOf E m' i) \<noteq> nftStaked (nftOf E m i)"
  shows "\<exists>ids tx. request = ReqDeliver ids tx \<and>
    ((\<exists>msg. pxMsg tx = Inr (PluginSetStake msg) \<and> pkTokenId msg = i \<and> pkOwner msg = nftCreator (nftOf E m i)) \<or>
     (\<exists>msg. pxMsg tx = Inr (PluginMintNFT msg) \<and> pmTokenId msg = i))"
proof -
  have changed: "m' (KeyForNFT i) \<noteq> m (KeyForNFT i)" using assms(3) by (auto simp: nftOf_def valueAt_def)
  show ?thesis
  proof (cases request)
    case (ReqDeliver ids tx)
    obtain q1 q2 q3 where ids: "ids = (q1, q2, q3)" by (cases ids) auto
    let ?c = "\<lparr>coChainId = chainId, coCurrentHeight = 0\<rparr>"
    show ?thesis
    proof (rule deliver_run [OF assms(2) [unfolded ReqDeliver]])
      fix msg
      assume msg: "pxMsg tx = Inr msg" and run: "(case msg of
         PluginSend x \<Rightarrow> DeliverMessageSend E ?c ids x (pxFee tx)
       | PluginMintNFT x \<Rightarrow> DeliverMessageMintNFT E ?c ids x (pxFee tx)
       | PluginSetStake x \<Rightarrow> DeliverMessageSetStake E x (pxFee tx)
       | PluginSendToken x \<Rightarrow> DeliverMessageSendToken x
       | PluginLikePost x \<Rightarrow> DeliverMessageLikePost x
       | PluginOther \<Rightarrow> err ErrInvalidAmount) m = (Inr (), m')"
      show ?thesis
      proof (cases msg)
        case (PluginSend x)
        with run changed send_frame [of E ?c ids x "pxFee tx" m m' "KeyForNFT i"] show ?thesis by (simp add: keys_differ)
      next
        case (PluginMintNFT x)
        have "KeyForNFT i = KeyForNFT (pmTokenId x)"
        proof (rule ccontr)
          assume "KeyForNFT i \<noteq> KeyForNFT (pmTokenId x)"
          with mint_effect(3) [of E ?c q1 q2 q3 x "pxFee tx" m m' "KeyForNFT i"] run assms(1) PluginMintNFT ids changed show False
            by (simp add: keys_differ)
        qed
        then show ?thesis using ReqDeliver msg PluginMintNFT ids by (simp add: keys_differ)
      next
        case (PluginSetStake x)
        then have "DeliverMessageSetStake E x (pxFee tx) m = (Inr (), m')" using run by simp
        note stake = stake_effect [OF this]
        have "pkTokenId x = i" using stake(2) [of "KeyForNFT i"] changed by (metis keys_differ(8))
        with stake(1) have "nftCreator (nftOf E m (pkTokenId x)) = pkOwner x" "pkTokenId x = i" by simp_all
        then show ?thesis using ReqDeliver msg PluginSetStake ids by simp
      qed (use run changed in \<open>simp_all add: DeliverMessageSendToken_def DeliverMessageLikePost_def ret_run err_run\<close>)
    qed
  next
    case (ReqCheck q tx)
    then obtain r where "Contract_CheckTx E q tx m = (Inr r, m')" using assms(2) by (auto simp: handleInbound_def bnd_Inr ret_run)
    with changed show ?thesis by (auto dest: check_keeps)
  qed (use assms(2) changed in \<open>simp_all add: handleInbound_def ret_run\<close>)
qed

section \<open>An example store\<close>

text \<open>A codec for accounts and pools that are only an amount, and for NFTs with one-byte fields.\<close>

definition amountCodec :: contractEnv where
  "amountCodec = \<lparr>
     ceAccount = (\<lambda>b. Inr \<lparr>paAddress = [], paAmount = Uint64 b, paUnknown = []\<rparr>),
     cePool = (\<lambda>b. Inr \<lparr>ppoolId = 0, ppoolAmount = Uint64 b, ppoolUnknown = []\<rparr>),
     ceNFT = (\<lambda>b. case b of [t, c, n, i, d, s] \<Rightarrow> Inr \<lparr>nftTokenId = [t], nftCreator = replicate 20 c, nftName = [n], nftImage = [i],
        nftMetadata = [d], nftCreatedHeight = 0, nftStaked = (s = 1)\<rparr> | _ \<Rightarrow> Inl ErrInvalidAmount),
     ceSendFee = (\<lambda>b. Inr (Uint64 b)),
     ceMarshalAccount = (\<lambda>x. if paAddress x = [] \<and> paUnknown x = [] then Inr (formatUint64 (paAmount x)) else Inl ErrInvalidAmount),
     ceMarshalPool = (\<lambda>x. if ppoolId x = 0 \<and> ppoolUnknown x = [] then Inr (formatUint64 (ppoolAmount x)) else Inl ErrInvalidAmount),
     ceMarshalNFT = (\<lambda>x. case (nftTokenId x, nftCreator x, nftName x, nftImage x, nftMetadata x) of
        ([t], c # cs, [n], [i], [d]) \<Rightarrow> if nftCreatedHeight x = 0 \<and> c # cs = replicate 20 c then Inr [t, c, n, i, d, if nftStaked x then 1 else 0]
          else Inl ErrInvalidAmount
        | _ \<Rightarrow> Inl ErrInvalidAmount),
     ceReadFails = None, ceWriteFails = None\<rparr>"

lemma format_nonempty: "formatUint64 u \<noteq> []"
  using length_formatUint64 [of u] by (metis list.size(3) zero_neq_numeral)

lemma amountCodec_ok: "codecOk amountCodec"
  unfolding codecOk_def
proof (intro conjI allI impI)
  fix x b assume "ceMarshalAccount amountCodec x = Inr b"
  then show "Unmarshal (ceAccount amountCodec) newAccount b = Inr x"
    by (cases x) (auto simp: amountCodec_def Unmarshal_def format_nonempty Uint64_formatUint64 split: if_splits)
next
  fix x b assume "ceMarshalPool amountCodec x = Inr b"
  then show "Unmarshal (cePool amountCodec) newPool b = Inr x"
    by (cases x) (auto simp: amountCodec_def Unmarshal_def format_nonempty Uint64_formatUint64 split: if_splits)
next
  fix x b assume "ceMarshalNFT amountCodec x = Inr b"
  then show "Unmarshal (ceNFT amountCodec) newNFT b = Inr x"
    by (cases x) (auto simp: amountCodec_def Unmarshal_def split: if_splits list.splits)
qed

abbreviation exampleOwner :: bytes where "exampleOwner \<equiv> replicate 20 1"
abbreviation exampleOther :: bytes where "exampleOther \<equiv> replicate 20 2"

definition exampleStore :: kv where
  "exampleStore = [KeyForAccount exampleOwner \<mapsto> formatUint64 5, KeyForAccount exampleOther \<mapsto> formatUint64 9, KeyForNFT [3] \<mapsto> [3, 1, 4, 5, 6, 1]]"

lemma example_addresses: "exampleOwner \<noteq> exampleOther" "exampleOther \<noteq> exampleOwner"
  by (simp_all add: replicate_eq_replicate)

lemmas example_store = exampleStore_def valueAt_upd keys_differ example_addresses

lemma example_values:
  "valueAt exampleStore (KeyForAccount exampleOwner) = formatUint64 5" "valueAt exampleStore (KeyForAccount exampleOther) = formatUint64 9"
  "valueAt exampleStore (KeyForFeePool c) = []" "valueAt exampleStore (KeyForNFT [3]) = [3, 1, 4, 5, 6, 1]"
  by (simp_all add: valueAt_def exampleStore_def keys_differ example_addresses)

lemma amount_fields:
  "ceAccount amountCodec b = Inr \<lparr>paAddress = [], paAmount = Uint64 b, paUnknown = []\<rparr>"
  "cePool amountCodec b = Inr \<lparr>ppoolId = 0, ppoolAmount = Uint64 b, ppoolUnknown = []\<rparr>"
  "ceMarshalAccount amountCodec x = (if paAddress x = [] \<and> paUnknown x = [] then Inr (formatUint64 (paAmount x)) else Inl ErrInvalidAmount)"
  "ceMarshalPool amountCodec y = (if ppoolId y = 0 \<and> ppoolUnknown y = [] then Inr (formatUint64 (ppoolAmount y)) else Inl ErrInvalidAmount)"
  "ceReadFails amountCodec = None" "ceWriteFails amountCodec = None"
  by (simp_all add: amountCodec_def)

lemmas amount_eval = Unmarshal_def format_nonempty amount_fields Uint64_formatUint64 newAccount_def newPool_def

lemma example_balances:
  "accountOf amountCodec exampleStore exampleOwner = 5" "accountOf amountCodec exampleStore exampleOther = 9"
  "feePoolOf amountCodec exampleStore 1 = 0"
  by (simp_all add: accountOf_def feePoolOf_def example_values amount_eval)

definition exampleTransferTx :: "u64 \<Rightarrow> pluginSend" where
  "exampleTransferTx n = \<lparr>psFromAddress = exampleOwner, psToAddress = exampleOther, psAmount = n\<rparr>"

lemma example_send_runs:
  assumes "\<not> (5 :: u64) < n + fee"
  shows "\<exists>m'. handleInbound amountCodec 1 (ReqDeliver (1, 2, 3) \<lparr>pxMsg = Inr (PluginSend (exampleTransferTx n)), pxFee = fee\<rparr>) exampleStore = (Inr (), m')"
proof -
  have "readThree amountCodec (1, KeyForAccount exampleOwner) (2, KeyForAccount exampleOther) (3, KeyForFeePool 1)
      [(3, KeyForFeePool 1), (1, KeyForAccount exampleOwner), (2, KeyForAccount exampleOther)] exampleStore =
      (Inr (formatUint64 5, formatUint64 9, []), exampleStore)"
    by (simp add: readThree_def plugin_StateRead_def amount_fields bnd_def gets_run ret_run StateRead_def takeResult_def example_values)
  then show ?thesis
    using assms
    by (simp add: handleInbound_def Contract_DeliverTx_def lift_def bnd_def ret_run DeliverMessageSend_def Let_def exampleTransferTx_def)
      (simp add: amount_eval settleSend_def Let_def keys_differ example_addresses lift_def bnd_def ret_run plugin_StateWrite_def modify_run)
qed


text \<open>The token with id 3 belongs to the first address; the second mints it again, after the first has unstaked it.\<close>

definition exampleMint :: pluginMintNFT where
  "exampleMint = \<lparr>pmCreator = exampleOther, pmTokenId = [3], pmName = [7], pmImage = [8], pmMetadata = [9]\<rparr>"

definition exampleUnstake :: pluginSetStake where
  "exampleUnstake = \<lparr>pkOwner = exampleOwner, pkTokenId = [3], pkStake = False\<rparr>"

lemma twenty: "replicate 20 x = x # replicate 19 x"
  by (simp add: numeral_eq_Suc)

lemma example_nft: "nftCreator (nftOf amountCodec exampleStore [3]) = exampleOwner" "nftStaked (nftOf amountCodec exampleStore [3])"
  by (simp_all add: nftOf_def example_values Unmarshal_def amountCodec_def)

theorem plugin_mint_replaces_witness:
  "\<exists>m'. handleInbound amountCodec 1 (ReqDeliver (1, 2, 3) \<lparr>pxMsg = Inr (PluginMintNFT exampleMint), pxFee = 4\<rparr>) exampleStore = (Inr (), m') \<and>
     nftCreator (nftOf amountCodec exampleStore [3]) = exampleOwner \<and> nftCreator (nftOf amountCodec m' [3]) = exampleOther \<and>
     accountOf amountCodec m' exampleOther = 5"
proof -
  have read: "readThree amountCodec (1, KeyForNFT [3]) (2, KeyForAccount exampleOther) (3, KeyForFeePool 1)
      [(1, KeyForNFT [3]), (2, KeyForAccount exampleOther), (3, KeyForFeePool 1)] exampleStore =
      (Inr ([3, 1, 4, 5, 6, 1], formatUint64 9, []), exampleStore)"
    by (simp add: readThree_def plugin_StateRead_def amount_fields bnd_def gets_run ret_run StateRead_def takeResult_def example_values)
  have nft: "ceMarshalNFT amountCodec \<lparr>nftTokenId = [3], nftCreator = exampleOther, nftName = [7], nftImage = [8],
      nftMetadata = [9], nftCreatedHeight = 0, nftStaked = False\<rparr> = Inr [3, 2, 7, 8, 9, 0]"
    by (simp add: amountCodec_def twenty)
  let ?r = "handleInbound amountCodec 1 (ReqDeliver (1, 2, 3) \<lparr>pxMsg = Inr (PluginMintNFT exampleMint), pxFee = 4\<rparr>) exampleStore"
  have "fst ?r = Inr ()"
    using read nft
    by (simp add: handleInbound_def Contract_DeliverTx_def lift_def bnd_def ret_run DeliverMessageMintNFT_def Let_def exampleMint_def
        amount_eval unat_less_iff plugin_StateWrite_def modify_run)
  then obtain m' where run: "?r = (Inr (), m')" by (metis prod.collapse)
  from plugin_mint_replaces [OF amountCodec_ok _ run] have "nftCreator (nftOf amountCodec m' [3]) = exampleOther \<and>
      accountOf amountCodec m' exampleOther = 5"
    by (simp add: exampleMint_def example_balances)
  with run example_nft(1) show ?thesis by blast
qed

theorem plugin_stake_authorized_witness:
  "\<exists>m'. handleInbound amountCodec 1 (ReqDeliver (1, 2, 3) \<lparr>pxMsg = Inr (PluginSetStake exampleUnstake), pxFee = 4\<rparr>) exampleStore = (Inr (), m') \<and>
     \<not> nftStaked (nftOf amountCodec m' [3]) \<and> pkOwner exampleUnstake = nftCreator (nftOf amountCodec exampleStore [3])"
proof -
  let ?m = "exampleStore(KeyForNFT [3] \<mapsto> [3, 1, 4, 5, 6, 0])"
  have run: "handleInbound amountCodec 1 (ReqDeliver (1, 2, 3) \<lparr>pxMsg = Inr (PluginSetStake exampleUnstake), pxFee = 4\<rparr>) exampleStore = (Inr (), ?m)"
    by (simp add: handleInbound_def Contract_DeliverTx_def lift_def bnd_def ret_run DeliverMessageSetStake_def Let_def exampleUnstake_def
        plugin_StateRead_def gets_run StateRead_def example_values Unmarshal_def plugin_StateWrite_def modify_run StateWrite_def amountCodec_def)
      (simp add: twenty)
  moreover have free: "\<not> nftStaked (nftOf amountCodec ?m [3])" by (simp add: nftOf_def valueAt_def Unmarshal_def amountCodec_def)
  moreover from plugin_stake_authorized [OF amountCodec_ok run, of "[3]"] free example_nft(2)
  have "pkOwner exampleUnstake = nftCreator (nftOf amountCodec exampleStore [3])" by simp
  ultimately show ?thesis by blast
qed

end
