(* ===== verification/Mempool.thy ===== *)
theory Mempool
  imports Blocks "HOL-Library.Sublist"
begin

text \<open>
  The mempool (\<open>lib/mempool.go\<close>): the pending transactions ordered by fee, within limits of count and bytes, and the
  cache of failed transactions.

  \<open>sort.Slice\<close> does not say how it orders equal fees, so the sort is an argument with its contract as a locale. Sizes are
  Go's \<open>int\<close> and are converted where the code converts them. Reading and checking the bytes of a transaction is that of
  \<open>Blocks\<close>. The first statements of \<open>AddTransactions\<close> (five lines of a deletion that names a variable which does not exist
  there) do not compile and are left out. The locks and the clock of the cleaning service are not modelled: the
  time is an argument.
\<close>

section \<open>The pool\<close>

record mempoolTx =
  mtTx :: bytes
  mtFee :: u64

record mempoolTxs =
  mpM :: "string set"
  mpS :: "mempoolTx list"

record mempoolConfig =
  mcMaxTotalBytes :: u64
  mcMaxTransactionCount :: "32 word"
  mcIndividualMaxTxSize :: "32 word"
  mcDropPercentage :: int

record feeMempool =
  fmPool :: mempoolTxs
  fmTxsBytes :: int
  fmConfig :: mempoolConfig

definition NewMempool :: "mempoolConfig \<Rightarrow> feeMempool" where
  "NewMempool config = \<lparr>fmPool = \<lparr>mpM = {}, mpS = []\<rparr>, fmTxsBytes = 0,
     fmConfig = (if mcDropPercentage config = 0 then config\<lparr>mcDropPercentage := 35\<rparr> else config)\<rparr>"

text \<open>The loop that skips the transactions whose hash is in the new map.\<close>

fun dedup :: "(bytes \<Rightarrow> string) \<Rightarrow> string set \<Rightarrow> mempoolTx list \<Rightarrow> mempoolTx list" where
  "dedup hash newMap [] = []"
| "dedup hash newMap (tx # combined) =
     (if hash (mtTx tx) \<in> newMap then dedup hash newMap combined
      else tx # dedup hash (insert (hash (mtTx tx)) newMap) combined)"

definition pool_insert :: "(mempoolTx list \<Rightarrow> mempoolTx list) \<Rightarrow> (bytes \<Rightarrow> string) \<Rightarrow> mempoolTx list \<Rightarrow> mempoolTxs \<Rightarrow> mempoolTxs" where
  "pool_insert srt hash txs t =
     (let newList = dedup hash {} (srt (mpS t @ txs)) in \<lparr>mpM = (\<lambda>tx. hash (mtTx tx)) ` set newList, mpS = newList\<rparr>)"

definition pool_delete :: "(bytes \<Rightarrow> string) \<Rightarrow> bytes list \<Rightarrow> mempoolTxs \<Rightarrow> mempoolTxs \<times> mempoolTx list \<times> int" where
  "pool_delete hash txs t =
     (if txs = [] \<or> mpS t = [] then (t, [], 0)
      else let toDelete = hash ` set txs;
               deleted = filter (\<lambda>tx. hash (mtTx tx) \<in> toDelete) (mpS t);
               newList = filter (\<lambda>tx. hash (mtTx tx) \<notin> toDelete) (mpS t) in
        (\<lparr>mpM = (\<lambda>tx. hash (mtTx tx)) ` set newList, mpS = newList\<rparr>, deleted, int (sum_list (map (length \<circ> mtTx) deleted))))"

text \<open>Go's division drops the fraction. A negative number to drop is a slice out of range.\<close>

definition goDiv :: "int \<Rightarrow> int \<Rightarrow> int" where
  "goDiv a b = (if (a < 0) = (b < 0) then \<bar>a\<bar> div \<bar>b\<bar> else - (\<bar>a\<bar> div \<bar>b\<bar>))"

definition pool_drop :: "(bytes \<Rightarrow> string) \<Rightarrow> int \<Rightarrow> mempoolTxs \<Rightarrow> error + mempoolTxs \<times> mempoolTx list" where
  "pool_drop hash percent t =
     (let n = int (length (mpS t));
          numDrop0 = goDiv (n * percent) 100 + 1;
          numDrop = (if numDrop0 \<ge> n then n else numDrop0) in
      if numDrop < 0 then Inl ErrPanic
      else let keep = nat (n - numDrop); s' = take keep (mpS t) in
        Inr (\<lparr>mpM = (\<lambda>tx. hash (mtTx tx)) ` set s', mpS = s'\<rparr>, drop keep (mpS t)))"

section \<open>Adding transactions\<close>

text \<open>The loop over the batch: the error leaves the bytes counted so far.\<close>

fun readBatch :: "node \<Rightarrow> feeMempool \<Rightarrow> bytes list \<Rightarrow> mempoolTx list \<Rightarrow> (error + mempoolTx list) \<times> feeMempool" where
  "readBatch N f [] acc = (Inr acc, f)"
| "readBatch N f (tx # txs) acc =
     (if word_of_nat (length tx) > mcIndividualMaxTxSize (fmConfig f) then (Inl (Error ''MaxTxSize''), f)
      else if ndHashString N tx \<in> mpM (fmPool f) then readBatch N f txs acc
      else (case ndUnmarshal N tx of
          Inl e \<Rightarrow> (Inl e, f)
        | Inr transaction \<Rightarrow> (case Transaction_CheckBasic transaction of
            Inl e \<Rightarrow> (Inl e, f)
          | Inr _ \<Rightarrow> let fee = (if txMessageType transaction = ''certificateResults'' then 4294967295 else txFee transaction) in
              readBatch N (f\<lparr>fmTxsBytes := fmTxsBytes f + int (length tx)\<rparr>) txs (acc @ [\<lparr>mtTx = tx, mtFee = fee\<rparr>]))))"

definition overLimit :: "feeMempool \<Rightarrow> bool" where
  "overLimit f \<longleftrightarrow> word_of_nat (length (mpS (fmPool f))) \<ge> mcMaxTransactionCount (fmConfig f) \<or>
     (word_of_int (fmTxsBytes f) :: u64) > mcMaxTotalBytes (fmConfig f)"

text \<open>The loop that drops until the limits hold: no result when it does not end.\<close>

partial_function (option) dropLoop :: "(bytes \<Rightarrow> string) \<Rightarrow> feeMempool \<Rightarrow> ((error + unit) \<times> feeMempool) option" where
  "dropLoop hash f =
     (if overLimit f then (case pool_drop hash (mcDropPercentage (fmConfig f)) (fmPool f) of
         Inl e \<Rightarrow> Some (Inl e, f)
       | Inr (pool, dropped) \<Rightarrow>
           dropLoop hash (f\<lparr>fmPool := pool, fmTxsBytes := fmTxsBytes f - int (sum_list (map (length \<circ> mtTx) dropped))\<rparr>))
      else Some (Inr (), f))"

definition AddTransactions ::
    "(mempoolTx list \<Rightarrow> mempoolTx list) \<Rightarrow> node \<Rightarrow> bytes list \<Rightarrow> feeMempool \<Rightarrow> ((error + unit) \<times> feeMempool) option" where
  "AddTransactions srt N txs f = (case readBatch N f txs [] of
       (Inl e, f1) \<Rightarrow> Some (Inl e, f1)
     | (Inr mempoolTxs, f1) \<Rightarrow>
         let f2 = f1\<lparr>fmPool := pool_insert srt (ndHashString N) mempoolTxs (fmPool f1)\<rparr>;
             f3 = (if mcMaxTransactionCount (fmConfig f2) = 0 then f2\<lparr>fmConfig := (fmConfig f2)\<lparr>mcMaxTransactionCount := 1\<rparr>\<rparr> else f2) in
         dropLoop (ndHashString N) f3)"

section \<open>The other operations\<close>

fun getTransactions :: "u64 \<Rightarrow> u64 \<Rightarrow> mempoolTx list \<Rightarrow> bytes list" where
  "getTransactions maxBytes totalBytes [] = []"
| "getTransactions maxBytes totalBytes (tx # s) =
     (let totalBytes' = totalBytes + word_of_nat (length (mtTx tx)) in
      if totalBytes' > maxBytes then [] else mtTx tx # getTransactions maxBytes totalBytes' s)"

definition GetTransactions :: "u64 \<Rightarrow> feeMempool \<Rightarrow> bytes list" where
  "GetTransactions maxBytes f = getTransactions maxBytes 0 (mpS (fmPool f))"

definition Contains :: "string \<Rightarrow> feeMempool \<Rightarrow> bool" where
  "Contains txHash f \<longleftrightarrow> txHash \<in> mpM (fmPool f)"

definition DeleteTransaction :: "(bytes \<Rightarrow> string) \<Rightarrow> bytes list \<Rightarrow> feeMempool \<Rightarrow> feeMempool" where
  "DeleteTransaction hash txs f = (let (pool, _, deletedBz) = pool_delete hash txs (fmPool f) in
     f\<lparr>fmPool := pool, fmTxsBytes := fmTxsBytes f - deletedBz\<rparr>)"

definition Clear :: "feeMempool \<Rightarrow> feeMempool" where
  "Clear f = f\<lparr>fmPool := \<lparr>mpM = {}, mpS = []\<rparr>, fmTxsBytes := 0\<rparr>"

definition TxCount :: "feeMempool \<Rightarrow> nat" where "TxCount f = length (mpS (fmPool f))"
definition TxsBytes :: "feeMempool \<Rightarrow> int" where "TxsBytes f = fmTxsBytes f"

section \<open>What the pool keeps\<close>

abbreviation byFee :: "mempoolTx list \<Rightarrow> bool" where
  "byFee \<equiv> sorted_wrt (\<lambda>a b. mtFee b \<le> mtFee a)"

abbreviation sizes :: "mempoolTx list \<Rightarrow> nat" where
  "sizes l \<equiv> sum_list (map (length \<circ> mtTx) l)"

abbreviation hashes :: "(bytes \<Rightarrow> string) \<Rightarrow> mempoolTx list \<Rightarrow> string list" where
  "hashes hash \<equiv> map (hash \<circ> mtTx)"

definition mempoolOk :: "(bytes \<Rightarrow> string) \<Rightarrow> feeMempool \<Rightarrow> bool" where
  "mempoolOk hash f \<longleftrightarrow> mpM (fmPool f) = set (hashes hash (mpS (fmPool f))) \<and> distinct (hashes hash (mpS (fmPool f))) \<and>
     byFee (mpS (fmPool f)) \<and> fmTxsBytes f = int (sizes (mpS (fmPool f)))"

text \<open>The contract of \<open>sort.Slice\<close> with the order of the pool.\<close>

locale fee_sort =
  fixes srt :: "mempoolTx list \<Rightarrow> mempoolTx list"
  assumes permutes: "mset (srt l) = mset l" and sorts: "byFee (srt l)"
begin

lemma hashes_srt: "mset (hashes hash (srt l)) = mset (hashes hash l)"
  by (metis mset_map permutes)

lemma distinct_srt: "distinct (hashes hash (srt l)) \<longleftrightarrow> distinct (hashes hash l)"
  using hashes_srt [of hash l] by (metis distinct_count_atmost_1 set_mset_mset)

lemma sizes_srt: "sizes (srt l) = sizes l"
  by (metis mset_map permutes sum_mset_sum_list)

lemma set_srt: "set (srt l) = set l"
  by (metis permutes set_mset_mset)

end

definition feeSort :: "mempoolTx list \<Rightarrow> mempoolTx list" where
  "feeSort = sort_key (\<lambda>tx. 2 ^ 64 - unat (mtFee tx))"

interpretation stable: fee_sort feeSort
proof
  fix l
  show "mset (feeSort l) = mset l" by (simp add: feeSort_def)
  have "sorted (map (\<lambda>tx. 2 ^ 64 - unat (mtFee tx)) (feeSort l))" by (simp add: feeSort_def)
  then have "sorted_wrt (\<lambda>a b. 2 ^ 64 - unat (mtFee a) \<le> 2 ^ 64 - unat (mtFee b)) (feeSort l)" by (simp add: sorted_map)
  then show "byFee (feeSort l)"
  proof (rule sorted_wrt_mono_rel [rotated])
    fix x y assume "2 ^ 64 - unat (mtFee x) \<le> 2 ^ 64 - unat (mtFee y)"
    then show "mtFee y \<le> mtFee x" using u64_bound [of "mtFee x"] u64_bound [of "mtFee y"] by (simp add: unat_le_iff)
  qed
qed

lemma dedup_distinct:
  "distinct (hashes hash l) \<Longrightarrow> set (hashes hash l) \<inter> seen = {} \<Longrightarrow> dedup hash seen l = l"
  by (induction hash seen l rule: dedup.induct) auto

lemma dedup_props: "distinct (hashes hash (dedup hash seen l)) \<and> set (hashes hash (dedup hash seen l)) \<inter> seen = {} \<and>
    set (hashes hash (dedup hash seen l)) \<union> seen = set (hashes hash l) \<union> seen \<and> subseq (dedup hash seen l) l"
  by (induction hash seen l rule: dedup.induct) auto

lemma readBatch_ok:
  "readBatch N f txs acc = (Inr out, g) \<Longrightarrow> distinct (hashes (ndHashString N) acc) \<Longrightarrow> distinct (map (ndHashString N) txs) \<Longrightarrow>
   set (hashes (ndHashString N) acc) \<inter> (mpM (fmPool f) \<union> ndHashString N ` set txs) = {} \<Longrightarrow>
     g = f\<lparr>fmTxsBytes := fmTxsBytes f + int (sizes out) - int (sizes acc)\<rparr> \<and> distinct (hashes (ndHashString N) out) \<and>
     set (hashes (ndHashString N) out) \<inter> mpM (fmPool f) = {} \<and> length out \<le> length acc + length txs \<and>
     sizes out \<le> sizes acc + sum_list (map length txs) \<and>
     map mtTx out = map mtTx acc @ filter (\<lambda>tx. ndHashString N tx \<notin> mpM (fmPool f)) txs"
proof (induction N f txs acc rule: readBatch.induct)
  case (2 N f tx txs acc)
  show ?case
  proof (cases "ndHashString N tx \<in> mpM (fmPool f)")
    case True
    with 2(3) have "readBatch N f txs acc = (Inr out, g)" by (auto split: if_splits)
    from 2(1) [OF _ True this] 2(3-6) True show ?thesis by (auto split: if_splits)
  next
    case False
    with 2(3) obtain t u where ok: "\<not> word_of_nat (length tx) > mcIndividualMaxTxSize (fmConfig f)" "ndUnmarshal N tx = Inr t" "Transaction_CheckBasic t = Inr u"
      by (auto split: if_splits sum.splits)
    define fee :: u64 where "fee = (if txMessageType t = ''certificateResults'' then 4294967295 else txFee t)"
    let ?f = "f\<lparr>fmTxsBytes := fmTxsBytes f + int (length tx)\<rparr>" and ?acc = "acc @ [\<lparr>mtTx = tx, mtFee = fee\<rparr>]"
    have run: "readBatch N ?f txs ?acc = (Inr out, g)" using 2(3) ok False by (simp add: fee_def Let_def)
    have "distinct (hashes (ndHashString N) ?acc)" "set (hashes (ndHashString N) ?acc) \<inter> (mpM (fmPool ?f) \<union> ndHashString N ` set txs) = {}"
      using 2(4-6) False by (auto simp: comp_def)
    from 2(2) [OF ok(1) False ok(2,3) fee_def run this(1) _ this(2)] 2(5) False show ?thesis by auto
  qed
qed simp

lemma int_of_size: "0 \<le> i \<Longrightarrow> i < 2 ^ 64 \<Longrightarrow> int (unat (word_of_int i :: u64)) = i"
  by (simp add: unsigned_of_int take_bit_int_eq_self)

lemma readBatch_pool: "readBatch N f txs acc = (r, g) \<Longrightarrow> fmPool g = fmPool f"
  by (induction N f txs acc rule: readBatch.induct) (auto simp: Let_def split: if_splits sum.splits)

context fee_sort
begin

lemma insert_ok:
  assumes ok: "mempoolOk hash f" and new: "distinct (hashes hash out)" "set (hashes hash out) \<inter> mpM (fmPool f) = {}"
  shows "pool_insert srt hash out (fmPool f) = \<lparr>mpM = set (hashes hash (mpS (fmPool f) @ out)), mpS = srt (mpS (fmPool f) @ out)\<rparr>"
proof -
  let ?l = "mpS (fmPool f) @ out"
  have "distinct (hashes hash ?l)" using ok new by (auto simp: mempoolOk_def)
  then have "dedup hash {} (srt ?l) = srt ?l" by (intro dedup_distinct) (simp_all add: distinct_srt del: map_append)
  then show ?thesis by (simp add: pool_insert_def set_srt image_Un comp_def)
qed

lemma inserted_ok:
  assumes ok: "mempoolOk hash f" and new: "distinct (hashes hash out)" "set (hashes hash out) \<inter> mpM (fmPool f) = {}"
    and g: "fmPool g = pool_insert srt hash out (fmPool f)" "fmTxsBytes g = fmTxsBytes f + int (sizes out)"
  shows "mempoolOk hash g" and "mpS (fmPool g) = srt (mpS (fmPool f) @ out)"
proof -
  have "distinct (hashes hash (mpS (fmPool f) @ out))" using ok new by (auto simp: mempoolOk_def)
  then have "distinct (hashes hash (srt (mpS (fmPool f) @ out)))" by (simp only: distinct_srt)
  moreover have "set (hashes hash (srt l)) = set (hashes hash l)" for l by (simp add: set_srt)
  ultimately show "mempoolOk hash g"
    using g insert_ok [OF ok new] ok sizes_srt [of "mpS (fmPool f) @ out"] by (simp add: mempoolOk_def sorts image_Un)
  show "mpS (fmPool g) = srt (mpS (fmPool f) @ out)" using g insert_ok [OF ok new] by simp
qed

end

section \<open>Dropping ends\<close>

lemma mempoolOk_take:
  assumes "mempoolOk hash f" and "g = f\<lparr>fmPool := \<lparr>mpM = (\<lambda>tx. hash (mtTx tx)) ` set (take n (mpS (fmPool f))), mpS = take n (mpS (fmPool f))\<rparr>,
      fmTxsBytes := fmTxsBytes f - int (sizes (drop n (mpS (fmPool f))))\<rparr>"
  shows "mempoolOk hash g"
proof -
  let ?l = "mpS (fmPool f)"
  have "sizes ?l = sizes (take n ?l) + sizes (drop n ?l)" by (metis append_take_drop_id map_append sum_list.append)
  moreover have "distinct (hashes hash (take n ?l))" "byFee (take n ?l)"
    using assms(1) by (auto simp: mempoolOk_def take_map [symmetric] sorted_wrt_take)
  ultimately show ?thesis using assms by (simp add: mempoolOk_def comp_def)
qed

lemma goDiv_nonneg: "0 \<le> a \<Longrightarrow> 0 \<le> b \<Longrightarrow> 0 \<le> goDiv (a * b) 100"
  by (simp add: goDiv_def not_less pos_imp_zdiv_nonneg_iff)

lemma pool_drop_some:
  assumes "0 \<le> percent" and "mpS t \<noteq> []"
  obtains n where "n < length (mpS t)"
    "pool_drop hash percent t = Inr (\<lparr>mpM = (\<lambda>tx. hash (mtTx tx)) ` set (take n (mpS t)), mpS = take n (mpS t)\<rparr>, drop n (mpS t))"
proof -
  let ?n = "int (length (mpS t))"
  define d where "d = (if goDiv (?n * percent) 100 + 1 \<ge> ?n then ?n else goDiv (?n * percent) 100 + 1)"
  have d: "0 < d" "d \<le> ?n" using goDiv_nonneg [of ?n percent] assms by (auto simp: d_def)
  have "pool_drop hash percent t =
      Inr (\<lparr>mpM = (\<lambda>tx. hash (mtTx tx)) ` set (take (nat (?n - d)) (mpS t)), mpS = take (nat (?n - d)) (mpS t)\<rparr>, drop (nat (?n - d)) (mpS t))"
    using d unfolding pool_drop_def Let_def d_def [symmetric] by simp
  moreover have "nat (?n - d) < length (mpS t)" using d by linarith
  ultimately show thesis using that by blast
qed

lemma dropLoop_ends:
  assumes "mempoolOk hash f" and "0 \<le> mcDropPercentage (fmConfig f)" and "mcMaxTransactionCount (fmConfig f) \<noteq> 0"
  shows "\<exists>n g. dropLoop hash f = Some (Inr (), g) \<and> mpS (fmPool g) = take n (mpS (fmPool f)) \<and> mempoolOk hash g \<and> \<not> overLimit g \<and>
    fmConfig g = fmConfig f \<and> (\<not> overLimit f \<longrightarrow> g = f)"
  using assms
proof (induction "length (mpS (fmPool f))" arbitrary: f rule: less_induct)
  case less
  show ?case
  proof (cases "overLimit f")
    case False
    then have "dropLoop hash f = Some (Inr (), f)" by (simp add: dropLoop.simps)
    moreover have "mpS (fmPool f) = take (length (mpS (fmPool f))) (mpS (fmPool f))" by simp
    ultimately show ?thesis using False less.prems(1) by blast
  next
    case True
    have "mpS (fmPool f) \<noteq> []"
    proof
      assume "mpS (fmPool f) = []"
      then show False using True less.prems(1,3) by (simp add: overLimit_def mempoolOk_def)
    qed
    then obtain n where n: "n < length (mpS (fmPool f))" and drop: "pool_drop hash (mcDropPercentage (fmConfig f)) (fmPool f) =
        Inr (\<lparr>mpM = (\<lambda>tx. hash (mtTx tx)) ` set (take n (mpS (fmPool f))), mpS = take n (mpS (fmPool f))\<rparr>, drop n (mpS (fmPool f)))"
      using pool_drop_some [OF less.prems(2)] by metis
    define g where "g = f\<lparr>fmPool := \<lparr>mpM = (\<lambda>tx. hash (mtTx tx)) ` set (take n (mpS (fmPool f))), mpS = take n (mpS (fmPool f))\<rparr>,
      fmTxsBytes := fmTxsBytes f - int (sizes (drop n (mpS (fmPool f))))\<rparr>"
    have "dropLoop hash f = dropLoop hash g" using True drop by (subst dropLoop.simps) (simp add: g_def)
    moreover have "mpS (fmPool g) = take n (mpS (fmPool f))" "fmConfig g = fmConfig f" by (simp_all add: g_def)
    moreover have "mempoolOk hash g" using less.prems(1) g_def by (rule mempoolOk_take)
    ultimately show ?thesis using less.hyps [of g] less.prems(2,3) n True by (auto simp: take_take)
  qed
qed

section \<open>Properties\<close>


text \<open>Bytes counted for transactions that are not in the pool.\<close>

definition phantom :: "feeMempool \<Rightarrow> int" where
  "phantom f = fmTxsBytes f - int (sizes (mpS (fmPool f)))"

definition stuck :: "feeMempool \<Rightarrow> bool" where
  "stuck f \<longleftrightarrow> int (unat (mcMaxTotalBytes (fmConfig f))) < phantom f \<and> fmTxsBytes f < 2 ^ 64 \<and> 0 \<le> mcDropPercentage (fmConfig f)"

lemma stuck_step:
  assumes s: "stuck f"
  obtains g pool dropped where "overLimit f" "pool_drop hash (mcDropPercentage (fmConfig f)) (fmPool f) = Inr (pool, dropped)"
    "g = f\<lparr>fmPool := pool, fmTxsBytes := fmTxsBytes f - int (sizes dropped)\<rparr>" "stuck g"
proof -
  have "0 \<le> fmTxsBytes f" using s unfolding stuck_def phantom_def by linarith
  with s have "int (unat (word_of_int (fmTxsBytes f) :: u64)) = fmTxsBytes f" by (intro int_of_size) (simp_all add: stuck_def)
  with s have over: "overLimit f" by (simp add: overLimit_def stuck_def phantom_def word_less_def)
  obtain n where drop: "pool_drop hash (mcDropPercentage (fmConfig f)) (fmPool f) =
      Inr (\<lparr>mpM = (\<lambda>tx. hash (mtTx tx)) ` set (take n (mpS (fmPool f))), mpS = take n (mpS (fmPool f))\<rparr>, drop n (mpS (fmPool f)))"
  proof (cases "mpS (fmPool f) = []")
    case True
    then show thesis using that [of 0] by (simp add: pool_drop_def goDiv_def)
  next
    case False
    then show thesis using pool_drop_some [of "mcDropPercentage (fmConfig f)" "fmPool f"] s that unfolding stuck_def by metis
  qed
  define g where "g = f\<lparr>fmPool := \<lparr>mpM = (\<lambda>tx. hash (mtTx tx)) ` set (take n (mpS (fmPool f))), mpS = take n (mpS (fmPool f))\<rparr>,
    fmTxsBytes := fmTxsBytes f - int (sizes (drop n (mpS (fmPool f))))\<rparr>"
  have "sizes (mpS (fmPool f)) = sizes (take n (mpS (fmPool f))) + sizes (drop n (mpS (fmPool f)))"
    by (metis append_take_drop_id map_append sum_list.append)
  then have "stuck g" using s by (simp add: stuck_def phantom_def g_def)
  with over drop show thesis using that g_def by blast
qed

lemma dropLoop_hangs:
  assumes "stuck f"
  shows "dropLoop hash f = None"
proof -
  have "\<not> stuck f" if "dropLoop hash f = Some r" for r
    using that
  proof (rule dropLoop.raw_induct [where P = "\<lambda>_ f _. \<not> stuck f", rotated])
    fix loop :: "(bytes \<Rightarrow> string) \<Rightarrow> feeMempool \<Rightarrow> ((error + unit) \<times> feeMempool) option" and hash f r
    assume later: "\<And>h b y. loop h b = Some y \<Longrightarrow> \<not> stuck b"
      and body: "(if overLimit f then (case pool_drop hash (mcDropPercentage (fmConfig f)) (fmPool f) of
         Inl e \<Rightarrow> Some (Inl e, f)
       | Inr (pool, dropped) \<Rightarrow> loop hash (f\<lparr>fmPool := pool, fmTxsBytes := fmTxsBytes f - int (sizes dropped)\<rparr>))
      else Some (Inr (), f)) = Some r"
    show "\<not> stuck f"
    proof
      assume "stuck f"
      then show False by (rule stuck_step [of f hash]) (use body later in auto)
    qed
  qed
  with assms show ?thesis by (cases "dropLoop hash f") blast+
qed

lemma new_fields:
  "fmPool (NewMempool c) = \<lparr>mpM = {}, mpS = []\<rparr>" "fmTxsBytes (NewMempool c) = 0"
  "mcMaxTotalBytes (fmConfig (NewMempool c)) = mcMaxTotalBytes c" "mcIndividualMaxTxSize (fmConfig (NewMempool c)) = mcIndividualMaxTxSize c"
  "mcMaxTransactionCount (fmConfig (NewMempool c)) = mcMaxTransactionCount c"
  "0 \<le> mcDropPercentage (fmConfig (NewMempool c)) \<longleftrightarrow> 0 \<le> mcDropPercentage c"
  by (simp_all add: NewMempool_def)

lemma readBatch_copies:
  assumes "\<not> word_of_nat (length tx) > mcIndividualMaxTxSize (fmConfig f)" and "ndHashString N tx \<notin> mpM (fmPool f)"
    and "ndUnmarshal N tx = Inr t" and "Transaction_CheckBasic t = Inr ()"
  shows "\<exists>fee. readBatch N f (replicate k tx) acc =
    (Inr (acc @ replicate k \<lparr>mtTx = tx, mtFee = fee\<rparr>), f\<lparr>fmTxsBytes := fmTxsBytes f + int (k * length tx)\<rparr>)"
proof -
  define fee :: u64 where "fee = (if txMessageType t = ''certificateResults'' then 4294967295 else txFee t)"
  have "readBatch N f (replicate k tx) acc =
    (Inr (acc @ replicate k \<lparr>mtTx = tx, mtFee = fee\<rparr>), f\<lparr>fmTxsBytes := fmTxsBytes f + int (k * length tx)\<rparr>)"
    using assms
  proof (induction k arbitrary: f acc)
    case (Suc k)
    let ?f = "f\<lparr>fmTxsBytes := fmTxsBytes f + int (length tx)\<rparr>"
    have "readBatch N f (replicate (Suc k) tx) acc = readBatch N ?f (replicate k tx) (acc @ [\<lparr>mtTx = tx, mtFee = fee\<rparr>])"
      using Suc.prems by (simp add: fee_def Let_def)
    with Suc.IH [of ?f] Suc.prems show ?case by (simp add: algebra_simps)
  qed simp
  then show ?thesis by blast
qed

text \<open>
  C30: Copies in a batch make the node hang. The bytes of every copy are counted but the pool keeps one of them; if
  the surplus is more than the byte limit, the loop that drops transactions does not end: it empties the pool and
  goes on.
\<close>

theorem mempool_duplicates_hang:
  assumes srt: "fee_sort srt" and tx: "ndUnmarshal N tx = Inr t" "Transaction_CheckBasic t = Inr ()"
    and fits: "word_of_nat (length tx) \<le> mcIndividualMaxTxSize config" and percent: "0 \<le> mcDropPercentage config"
    and over: "unat (mcMaxTotalBytes config) < (k - 1) * length tx" "k * length tx < 2 ^ 64"
  shows "AddTransactions srt N (replicate k tx) (NewMempool config) = None"
proof -
  let ?f = "NewMempool config" and ?h = "ndHashString N"
  obtain fee where read: "readBatch N ?f (replicate k tx) [] =
      (Inr (replicate k \<lparr>mtTx = tx, mtFee = fee\<rparr>), ?f\<lparr>fmTxsBytes := int (k * length tx)\<rparr>)"
    using readBatch_copies [of ?f tx N t k "[]"] fits tx by (auto simp: new_fields not_less)
  let ?t = "\<lparr>mtTx = tx, mtFee = fee\<rparr>"
  obtain j where k: "k = Suc j" using over(1) by (cases k) auto
  have perm: "mset (srt (replicate k ?t)) = mset (replicate k ?t)" by (rule fee_sort.permutes [OF srt])
  have "srt (replicate k ?t) = replicate k ?t"
  proof (rule replicate_eqI)
    show "length (srt (replicate k ?t)) = k" using mset_eq_length [OF perm] by simp
    show "y = ?t" if "y \<in> set (srt (replicate k ?t))" for y using that mset_eq_setD [OF perm] by (auto simp: k)
  qed
  moreover have "dedup ?h {?h tx} (replicate m ?t) = []" for m by (induction m) simp_all
  ultimately have "dedup ?h {} (srt (replicate k ?t)) = [?t]" by (simp add: k)
  then have pool: "mpS (pool_insert srt ?h (replicate k ?t) (fmPool ?f)) = [?t]" by (simp add: pool_insert_def new_fields)
  have more: "int (unat (mcMaxTotalBytes config)) < int (k * length tx) - int (length tx)"
    using over(1) [unfolded of_nat_less_iff [symmetric, where ?'a = int]] unfolding k by (simp add: algebra_simps)
  have "stuck g" if "mpS (fmPool g) = [?t]" "fmTxsBytes g = int (k * length tx)" "mcMaxTotalBytes (fmConfig g) = mcMaxTotalBytes config"
      "0 \<le> mcDropPercentage (fmConfig g)" for g
    using that more over(2) unfolding stuck_def phantom_def by (simp del: of_nat_mult)
  then show ?thesis using percent pool by (simp add: AddTransactions_def read Let_def new_fields dropLoop_hangs)
qed

lemma getTransactions_prefix:
  assumes "unat acc + sizes s < 2 ^ 64" and "acc \<le> m"
  shows "\<exists>n \<le> length s. getTransactions m acc s = map mtTx (take n s) \<and> unat acc + sizes (take n s) \<le> unat m \<and>
    (n < length s \<longrightarrow> unat m < unat acc + sizes (take (Suc n) s))"
  using assms
proof (induction s arbitrary: acc)
  case (Cons tx s)
  let ?acc = "acc + word_of_nat (length (mtTx tx))"
  have small: "length (mtTx tx) < 2 ^ 64" using Cons.prems(1) by simp
  have acc: "unat ?acc = unat acc + length (mtTx tx)"
    using Cons.prems(1) small by (subst unat_add_exact) (simp_all add: unat_of_nat_small)
  show ?case
  proof (cases "?acc > m")
    case True
    then show ?thesis using Cons.prems(2) acc by (intro exI [of _ 0]) (auto simp: unat_less_iff unat_le_iff)
  next
    case False
    then obtain n where "n \<le> length s" "getTransactions m ?acc s = map mtTx (take n s)" "unat ?acc + sizes (take n s) \<le> unat m"
      "n < length s \<longrightarrow> unat m < unat ?acc + sizes (take (Suc n) s)"
      using Cons.IH [of ?acc] Cons.prems(1) acc False by (auto simp: not_less comp_def)
    then show ?thesis using False acc by (intro exI [of _ "Suc n"]) (auto simp: not_less comp_def Let_def)
  qed
qed (simp add: unat_le_iff)

text \<open>
  \<open>GetTransactions\<close> gives the longest initial part of the pool whose bytes fit the limit: in fee order, not over the
  limit, and the next transaction would exceed it.
\<close>

theorem get_transactions_longest_prefix:
  assumes "mempoolOk hash f" and "TxsBytes f < 2 ^ 64"
  shows "\<exists>n \<le> TxCount f. GetTransactions m f = map mtTx (take n (mpS (fmPool f))) \<and>
    sum_list (map length (GetTransactions m f)) \<le> unat m \<and>
    (n < TxCount f \<longrightarrow> unat m < sum_list (map (length \<circ> mtTx) (take (Suc n) (mpS (fmPool f)))))"
proof -
  have "unat (0 :: u64) + sizes (mpS (fmPool f)) < 2 ^ 64" using assms by (simp add: mempoolOk_def TxsBytes_def)
  from getTransactions_prefix [OF this, of m] show ?thesis by (auto simp: GetTransactions_def TxCount_def)
qed

section \<open>Deleting\<close>

lemma sizes_partition: "sizes (filter p l) + sizes (filter (\<lambda>x. \<not> p x) l) = sizes l"
  by (induction l) auto

text \<open>Deleting and clearing keep the pool in order, and a deleted transaction is gone.\<close>

lemma DeleteTransaction_ok:
  assumes "mempoolOk hash f"
  shows "mempoolOk hash (DeleteTransaction hash txs f)" and "tx \<in> set txs \<Longrightarrow> \<not> Contains (hash tx) (DeleteTransaction hash txs f)"
    and "hash tx \<notin> hash ` set txs \<Longrightarrow> Contains (hash tx) (DeleteTransaction hash txs f) = Contains (hash tx) f"
proof -
  show "mempoolOk hash (DeleteTransaction hash txs f)"
  proof (cases "txs = [] \<or> mpS (fmPool f) = []")
    case True
    then show ?thesis using assms by (simp add: DeleteTransaction_def pool_delete_def)
  next
    case False
    let ?keep = "filter (\<lambda>tx. hash (mtTx tx) \<notin> hash ` set txs) (mpS (fmPool f))"
    have "distinct (hashes hash ?keep)" "byFee ?keep"
      using assms by (auto simp: mempoolOk_def distinct_map inj_on_def sorted_wrt_filter)
    with False show ?thesis using assms sizes_partition [of "\<lambda>tx. hash (mtTx tx) \<in> hash ` set txs" "mpS (fmPool f)"]
      by (simp add: DeleteTransaction_def pool_delete_def Let_def mempoolOk_def comp_def)
  qed
  show "tx \<in> set txs \<Longrightarrow> \<not> Contains (hash tx) (DeleteTransaction hash txs f)"
    "hash tx \<notin> hash ` set txs \<Longrightarrow> Contains (hash tx) (DeleteTransaction hash txs f) = Contains (hash tx) f"
    using assms by (auto simp: DeleteTransaction_def pool_delete_def Let_def Contains_def mempoolOk_def split: if_splits)
      (metis image_eqI)+
qed

lemma Clear_ok: "mempoolOk hash (Clear f)" "mempoolOk hash (NewMempool c)"
  by (simp_all add: mempoolOk_def Clear_def new_fields)

section \<open>The cache of failed transactions\<close>

text \<open>\<open>addressOf\<close> is the address of a public key as a string, if the bytes are one. The time is in seconds.\<close>

record failedTx =
  ftTransaction :: "transaction option"
  ftHash :: string
  ftAddress :: string
  ftError :: error
  ftTimestamp :: nat
  ftBytes :: bytes

type_synonym failedTxCache = "string \<rightharpoonup> failedTx"

definition NewFailedTx :: "node \<Rightarrow> (bytes \<Rightarrow> string option) \<Rightarrow> nat \<Rightarrow> bytes \<Rightarrow> error \<Rightarrow> failedTx" where
  "NewFailedTx N addressOf now txBytes txErr =
     (let tx = (case ndUnmarshal N txBytes of Inl _ \<Rightarrow> None | Inr t \<Rightarrow> Some t) in
      \<lparr>ftTransaction = tx, ftHash = ndHashString N txBytes,
       ftAddress = (case tx of None \<Rightarrow> ''unknown'' | Some t \<Rightarrow> (case txSignature t of None \<Rightarrow> ''unknown''
         | Some sig \<Rightarrow> (case addressOf (sgPublicKey sig) of None \<Rightarrow> ''unknown'' | Some a \<Rightarrow> a))),
       ftError = txErr, ftTimestamp = now, ftBytes = txBytes\<rparr>)"

definition cache_Add :: "failedTx \<Rightarrow> failedTxCache \<Rightarrow> failedTxCache" where
  "cache_Add failed cache = cache(ftHash failed \<mapsto> failed)"

definition cache_Get :: "string \<Rightarrow> failedTxCache \<Rightarrow> failedTx option" where
  "cache_Get txHash cache = cache txHash"

text \<open>A map is ranged over in no order, so the list is a set here.\<close>

definition GetFailedForAddress :: "string \<Rightarrow> failedTxCache \<Rightarrow> failedTx set" where
  "GetFailedForAddress address cache = {failed \<in> ran cache. ftAddress failed = address}"

definition cache_Remove :: "string list \<Rightarrow> failedTxCache \<Rightarrow> failedTxCache" where
  "cache_Remove txHashes cache = fold (\<lambda>hash c. c(hash := None)) txHashes cache"

definition cleanCache :: "nat \<Rightarrow> failedTxCache \<Rightarrow> failedTxCache" where
  "cleanCache now cache = (\<lambda>hash. case cache hash of None \<Rightarrow> None
     | Some tx \<Rightarrow> if now - ftTimestamp tx \<ge> 5 * 60 then None else Some tx)"

lemma cache_Remove_get: "cache_Get h (cache_Remove hs cache) = (if h \<in> set hs then None else cache_Get h cache)"
  by (induction hs arbitrary: cache) (auto simp: cache_Remove_def cache_Get_def)

lemma cache_clean_get: "cache_Get h (cleanCache now (cache_Add failed cache)) = Some failed" if "ftHash failed = h" "now < ftTimestamp failed + 300"
  using that by (auto simp: cache_Get_def cleanCache_def cache_Add_def)

section \<open>An example pool\<close>

definition exampleLimits :: mempoolConfig where
  "exampleLimits = \<lparr>mcMaxTotalBytes = 5, mcMaxTransactionCount = 10, mcIndividualMaxTxSize = 100, mcDropPercentage = 35\<rparr>"

definition examplePool :: feeMempool where
  "examplePool = \<lparr>fmPool = \<lparr>mpM = {''a'', ''b''}, mpS = [\<lparr>mtTx = [1], mtFee = 2\<rparr>, \<lparr>mtTx = [2], mtFee = 2\<rparr>]\<rparr>, fmTxsBytes = 2,
     fmConfig = exampleLimits\<rparr>"

lemma example_limits: "fmConfig (NewMempool exampleLimits) = exampleLimits"
  by (simp add: NewMempool_def exampleLimits_def)

lemma example_add: "AddTransactions feeSort exampleNode [[1], [2]] (NewMempool exampleLimits) = Some (Inr (), examplePool)"
proof -
  have "txMessageType (exampleSend n) = ''send''" for n by (simp add: exampleSend_def)
  then have "readBatch exampleNode (NewMempool exampleLimits) [[1], [2]] [] =
      (Inr [\<lparr>mtTx = [1], mtFee = 2\<rparr>, \<lparr>mtTx = [2], mtFee = 2\<rparr>], (NewMempool exampleLimits)\<lparr>fmTxsBytes := 2\<rparr>)"
    by (simp add: example_limits new_fields node_fields example_basic exampleLimits_def word_less_nat_alt)
  moreover have "pool_insert feeSort (ndHashString exampleNode) [\<lparr>mtTx = [1], mtFee = 2\<rparr>, \<lparr>mtTx = [2], mtFee = 2\<rparr>] \<lparr>mpM = {}, mpS = []\<rparr> = fmPool examplePool"
    by (simp add: pool_insert_def feeSort_def node_fields examplePool_def insert_commute)
  moreover have "\<not> overLimit examplePool"
    by (simp add: overLimit_def examplePool_def exampleLimits_def word_le_nat_alt word_less_nat_alt)
  ultimately show ?thesis
    by (simp add: AddTransactions_def new_fields example_limits Let_def)
      (subst dropLoop.simps, simp add: examplePool_def exampleLimits_def NewMempool_def)
qed


theorem mempool_duplicates_hang_witness:
  "AddTransactions feeSort exampleNode (replicate 7 [1]) (NewMempool exampleLimits) = None"
  using mempool_duplicates_hang [OF stable.fee_sort_axioms, of exampleNode "[1]" "exampleSend 5" exampleLimits 7]
  by (simp add: node_fields example_basic exampleLimits_def word_le_nat_alt)

theorem get_transactions_longest_prefix_witness:
  "mempoolOk (ndHashString exampleNode) examplePool \<and> GetTransactions 1 examplePool = [[1]] \<and>
     (\<exists>n \<le> TxCount examplePool. GetTransactions 1 examplePool = map mtTx (take n (mpS (fmPool examplePool))))"
proof -
  have ok: "mempoolOk (ndHashString exampleNode) examplePool"
    by (simp add: mempoolOk_def examplePool_def node_fields)
  moreover have "GetTransactions 1 examplePool = [[1]]" by (simp add: GetTransactions_def examplePool_def)
  ultimately show ?thesis using get_transactions_longest_prefix [OF ok, of 1] by (auto simp: TxsBytes_def examplePool_def)
qed

end
