(* ===== verification/Txn.thy ===== *)
theory Txn
  imports Keys "HOL-Library.Multiset"
begin

text \<open>
  The store transaction (\<open>store/txn.go\<close>): write operations kept in memory over a parent store, and the iterator that
  merges them with the parent. The state machine reads and writes through it; a block or a transaction that fails is
  discarded with it.

  The operations are keyed by a hash of the key made by the Go runtime, here an argument \<open>memHash\<close>. The B-tree of
  \<open>google/btree\<close> is what its documentation promises: its items in order. The parent iterator is the list of
  entries it has still to visit. Locks and the copies made for other threads are not modelled.
\<close>

section \<open>The operations in memory\<close>

datatype txnOp = opDelete | opSet

record valueOp =
  voKey :: bytes
  voValue :: bytes
  voVersion :: u64
  voOp :: txnOp

record cacheItem =
  ciHashedKey :: u64
  ciKey :: bytes

record txn =
  tnOps :: "(u64, valueOp) table"
  tnSorted :: "cacheItem list"
  tnPrefix :: bytes
  tnState :: bool
  tnSort :: bool
  tnWriteVersion :: u64

text \<open>What the parent has under a key; \<open>None\<close> is \<open>nil\<close>.\<close>

type_synonym parentStore = "bytes \<rightharpoonup> bytes"

definition NewTxn :: "bytes \<Rightarrow> bool \<Rightarrow> bool \<Rightarrow> u64 \<Rightarrow> txn" where
  "NewTxn pre st srt version = \<lparr>tnOps = [], tnSorted = [], tnPrefix = pre, tnState = st, tnSort = srt, tnWriteVersion = version\<rparr>"

definition Txn_Get :: "(bytes \<Rightarrow> u64) \<Rightarrow> parentStore \<Rightarrow> txn \<Rightarrow> bytes \<Rightarrow> bytes option" where
  "Txn_Get memHash reader t key = (case tget (tnOps t) (memHash key) of
       Some v \<Rightarrow> (if voOp v = opDelete then None else Some (voValue v))
     | None \<Rightarrow> reader (tnPrefix t @ key))"

text \<open>\<open>ReplaceOrInsert\<close>\<close>

fun replaceOrInsert :: "cacheItem \<Rightarrow> cacheItem list \<Rightarrow> cacheItem list" where
  "replaceOrInsert x [] = [x]"
| "replaceOrInsert x (y # ys) = (if ciKey x < ciKey y then x # y # ys
     else if ciKey x = ciKey y then x # ys else y # replaceOrInsert x ys)"

definition addToSorted :: "bytes \<Rightarrow> u64 \<Rightarrow> txn \<Rightarrow> txn" where
  "addToSorted key hashedKey t = t\<lparr>tnSorted := replaceOrInsert \<lparr>ciHashedKey = hashedKey, ciKey = key\<rparr> (tnSorted t)\<rparr>"

definition txn_update :: "(bytes \<Rightarrow> u64) \<Rightarrow> bytes \<Rightarrow> bytes \<Rightarrow> u64 \<Rightarrow> txnOp \<Rightarrow> txn \<Rightarrow> txn" where
  "txn_update memHash key val version opAction t =
     (let hashedKey = memHash key;
          t1 = (if tget (tnOps t) hashedKey = None \<and> tnSort t then addToSorted key hashedKey t else t) in
      t1\<lparr>tnOps := tset hashedKey \<lparr>voKey = key, voValue = val, voVersion = version, voOp = opAction\<rparr> (tnOps t1)\<rparr>)"

definition Txn_Set :: "(bytes \<Rightarrow> u64) \<Rightarrow> bytes \<Rightarrow> bytes \<Rightarrow> txn \<Rightarrow> txn" where
  "Txn_Set memHash key value t = txn_update memHash key value (tnWriteVersion t) opSet t"

definition Txn_Delete :: "(bytes \<Rightarrow> u64) \<Rightarrow> bytes \<Rightarrow> txn \<Rightarrow> txn" where
  "Txn_Delete memHash key t = txn_update memHash key [] (tnWriteVersion t) opDelete t"

definition Txn_SetAt :: "(bytes \<Rightarrow> u64) \<Rightarrow> bytes \<Rightarrow> bytes \<Rightarrow> u64 \<Rightarrow> txn \<Rightarrow> txn" where
  "Txn_SetAt memHash key value version t = txn_update memHash key value version opSet t"

definition Txn_DeleteAt :: "(bytes \<Rightarrow> u64) \<Rightarrow> bytes \<Rightarrow> u64 \<Rightarrow> txn \<Rightarrow> txn" where
  "Txn_DeleteAt memHash key version t = txn_update memHash key [] version opDelete t"

definition Discard :: "txn \<Rightarrow> txn" where
  "Discard t = t\<lparr>tnOps := [], tnSorted := []\<rparr>"

section \<open>Committing\<close>

text \<open>A write to the batch: a key, a value or a deletion, and the version.\<close>

type_synonym batchWrite = "bytes \<times> bytes option \<times> u64"

definition txn_write :: "bytes \<Rightarrow> u64 \<Rightarrow> valueOp \<Rightarrow> batchWrite" where
  "txn_write pre writeVersion v = (pre @ voKey v, (case voOp v of opSet \<Rightarrow> Some (voValue v) | opDelete \<Rightarrow> None), writeVersion)"

text \<open>Go ranges over the operations in any order: \<open>order\<close> is the one of this run.\<close>

definition txn_flush :: "(valueOp list \<Rightarrow> valueOp list) \<Rightarrow> bytes \<Rightarrow> u64 \<Rightarrow> txn \<Rightarrow> batchWrite list" where
  "txn_flush order pre writeVersion t = map (txn_write pre writeVersion) (order (map snd (tnOps t)))"

definition lssVersion :: u64 where "lssVersion = MaxUint64"
definition latestStatePrefix :: bytes where "latestStatePrefix = JoinLenPrefix [Some [115, 47]]"
definition historicStatePrefix :: bytes where "historicStatePrefix = JoinLenPrefix [Some [104, 47]]"

text \<open>A map from versions to prefixes: with the version of the latest state as write version one of the two is lost.\<close>

definition flushTo :: "txn \<Rightarrow> (u64 \<times> bytes) list" where
  "flushTo t = (if tnState t
     then (if tnWriteVersion t = lssVersion then [(lssVersion, historicStatePrefix)]
           else [(lssVersion, latestStatePrefix), (tnWriteVersion t, historicStatePrefix)])
     else [(tnWriteVersion t, tnPrefix t)])"

definition Txn_Commit :: "(valueOp list \<Rightarrow> valueOp list) \<Rightarrow> ((u64 \<times> bytes) list \<Rightarrow> (u64 \<times> bytes) list) \<Rightarrow> txn \<Rightarrow> batchWrite list \<times> txn" where
  "Txn_Commit order order' t =
     (concat (map (\<lambda>(version, pre). txn_flush order pre version t) (order' (flushTo t))), Discard t)"

section \<open>The merged iterator\<close>

definition before :: "bool \<Rightarrow> bytes \<Rightarrow> bytes \<Rightarrow> bool" where
  "before reverse a b \<longleftrightarrow> (if reverse then b < a else a < b)"

text \<open>The tree in the order of the iteration. \<open>next\<close> and \<open>prev\<close> find the item after the current one in that order.\<close>

record txnIterator =
  tiParent :: "(bytes \<times> bytes) list"
  tiTree :: "cacheItem list"
  tiCurrent :: "cacheItem option"
  tiOps :: "(u64, valueOp) table"
  tiPrefix :: bytes
  tiParentPrefix :: bytes
  tiReverse :: bool
  tiInvalid :: bool
  tiUseTxn :: bool

definition tree_next :: "bool \<Rightarrow> cacheItem list \<Rightarrow> bytes \<Rightarrow> cacheItem option" where
  "tree_next reverse tree key = find (\<lambda>x. before reverse key (ciKey x)) tree"

definition endBytes :: bytes where
  "endBytes = replicate 257 255"

definition tree_Move :: "bool \<Rightarrow> cacheItem list \<Rightarrow> bytes \<Rightarrow> cacheItem option" where
  "tree_Move reverse tree key = (case find (\<lambda>x. ciKey x = key) tree of
       Some exactMatch \<Rightarrow> Some exactMatch
     | None \<Rightarrow> tree_next reverse tree (if reverse then key @ endBytes else key))"

definition prefixEnd :: "bytes \<Rightarrow> bytes" where
  "prefixEnd pre = pre @ endBytes"

text \<open>The position of \<open>NewBTreeIterator\<close> is overwritten by \<open>First\<close>.\<close>

definition newTxnIterator :: "(bytes \<times> bytes) list \<Rightarrow> txn \<Rightarrow> bytes \<Rightarrow> bytes \<Rightarrow> bool \<Rightarrow> txnIterator" where
  "newTxnIterator parent t pre parentPrefix reverse =
     (let tree = (if reverse then rev (tnSorted t) else tnSorted t) in
      \<lparr>tiParent = parent, tiTree = tree, tiCurrent = tree_Move reverse tree (if reverse then prefixEnd pre else pre), tiOps = tnOps t,
       tiPrefix = pre, tiParentPrefix = parentPrefix, tiReverse = reverse, tiInvalid = False, tiUseTxn = False\<rparr>)"

definition txnKey :: "txnIterator \<Rightarrow> bytes" where
  "txnKey ti = (case tiCurrent ti of None \<Rightarrow> [] | Some x \<Rightarrow> ciKey x)"

text \<open>The zero operation of a missing hash is a deletion.\<close>

definition txnValue :: "txnIterator \<Rightarrow> valueOp" where
  "txnValue ti = (case tget (tiOps ti) (case tiCurrent ti of None \<Rightarrow> 0 | Some x \<Rightarrow> ciHashedKey x) of
       Some v \<Rightarrow> v | None \<Rightarrow> \<lparr>voKey = [], voValue = [], voVersion = 0, voOp = opDelete\<rparr>)"

definition removePrefix :: "bytes \<Rightarrow> bytes \<Rightarrow> bytes" where
  "removePrefix b pre = drop (length pre) b"

definition parentKey :: "txnIterator \<Rightarrow> bytes" where
  "parentKey ti = removePrefix (fst (hd (tiParent ti))) (tiParentPrefix ti)"

text \<open>\<open>txnInvalid\<close> remembers its answer once it is true.\<close>

definition txnInvalid :: "txnIterator \<Rightarrow> bool" where
  "txnInvalid ti \<longleftrightarrow> tiInvalid ti \<or> txnKey ti = [] \<or> take (length (tiPrefix ti)) (txnKey ti) \<noteq> tiPrefix ti"

definition noteInvalid :: "txnIterator \<Rightarrow> txnIterator" where
  "noteInvalid ti = ti\<lparr>tiInvalid := txnInvalid ti\<rparr>"

definition txnNext :: "txnIterator \<Rightarrow> txnIterator" where
  "txnNext ti = ti\<lparr>tiCurrent := (case tiCurrent ti of None \<Rightarrow> None | Some x \<Rightarrow> tree_next (tiReverse ti) (tiTree ti) (ciKey x))\<rparr>"

definition parentNext :: "txnIterator \<Rightarrow> txnIterator" where
  "parentNext ti = ti\<lparr>tiParent := tl (tiParent ti)\<rparr>"

definition txnIterator_Next :: "txnIterator \<Rightarrow> txnIterator" where
  "txnIterator_Next ti =
     (if tiParent ti = [] then txnNext ti
      else if txnInvalid ti then parentNext (noteInvalid ti)
      else if before (tiReverse ti) (parentKey ti) (txnKey ti) then parentNext ti
      else if txnKey ti = parentKey ti then txnNext (parentNext ti)
      else txnNext ti)"

definition txnIterator_Key :: "txnIterator \<Rightarrow> bytes" where
  "txnIterator_Key ti = (if tiUseTxn ti then txnKey ti else parentKey ti)"

definition txnIterator_Value :: "txnIterator \<Rightarrow> bytes" where
  "txnIterator_Value ti = (if tiUseTxn ti then voValue (txnValue ti) else snd (hd (tiParent ti)))"

text \<open>How many items are left in the tree.\<close>

definition treeLeft :: "txnIterator \<Rightarrow> nat" where
  "treeLeft ti = (case tiCurrent ti of None \<Rightarrow> 0 | Some x \<Rightarrow> Suc (length (filter (\<lambda>y. before (tiReverse ti) (ciKey x) (ciKey y)) (tiTree ti))))"

lemma before_order: "\<not> before r a a" "before r a b \<Longrightarrow> before r b c \<Longrightarrow> before r a c" "before r a b \<or> a = b \<or> before r b a"
  by (auto simp: before_def)

lemma before_antisym: "before r a b \<Longrightarrow> \<not> before r b a"
  using before_order by blast

lemma find_left:
  assumes "find p l = Some y" and "\<And>z. q z \<Longrightarrow> p z" and "\<not> q y"
  shows "length (filter q l) < length (filter p l)"
proof -
  have y: "y \<in> set l" "p y" using assms(1) by (auto simp: find_Some_iff)
  have "filter q l = filter q (filter p l)" using assms(2) by (simp add: filter_filter) (metis (mono_tags, lifting) filter_cong)
  moreover have "length (filter q (filter p l)) < length (filter p l)"
    by (rule length_filter_less [of y]) (use y assms(3) in auto)
  ultimately show ?thesis by simp
qed

lemma treeLeft_next:
  assumes "tiCurrent ti \<noteq> None"
  shows "treeLeft (txnNext ti) < treeLeft ti"
proof -
  obtain x where x: "tiCurrent ti = Some x" using assms by blast
  show ?thesis
  proof (cases "tree_next (tiReverse ti) (tiTree ti) (ciKey x)")
    case None
    then show ?thesis by (simp add: treeLeft_def txnNext_def x)
  next
    case (Some y)
    then have "before (tiReverse ti) (ciKey x) (ciKey y)" by (auto simp: tree_next_def find_Some_iff)
    with find_left [OF Some [unfolded tree_next_def], of "\<lambda>z. before (tiReverse ti) (ciKey y) (ciKey z)"] Some show ?thesis
      using before_order by (simp add: treeLeft_def txnNext_def x)
  qed
qed

lemma valid_current: "\<not> txnInvalid ti \<Longrightarrow> tiCurrent ti \<noteq> None"
  by (auto simp: txnInvalid_def txnKey_def split: option.splits)

function txnFastForward :: "txnIterator \<Rightarrow> txnIterator" where
  "txnFastForward ti = (if txnInvalid ti \<or> voOp (txnValue ti) \<noteq> opDelete then noteInvalid ti else txnFastForward (txnNext ti))"
  by auto
termination
  by (relation "measure treeLeft") (simp_all add: treeLeft_next valid_current)

text \<open>The loop of \<open>Valid\<close>; the answer is read off the iterator it leaves.\<close>

function txnIterator_settle :: "txnIterator \<Rightarrow> txnIterator" where
  "txnIterator_settle ti =
     (if tiParent ti = [] then (txnFastForward ti)\<lparr>tiUseTxn := True\<rparr>
      else if txnInvalid ti then (noteInvalid ti)\<lparr>tiUseTxn := False\<rparr>
      else if before (tiReverse ti) (parentKey ti) (txnKey ti) then ti\<lparr>tiUseTxn := False\<rparr>
      else if txnKey ti = parentKey ti then
        (if voOp (txnValue ti) = opDelete then txnIterator_settle (txnNext (parentNext ti)) else ti\<lparr>tiUseTxn := True\<rparr>)
      else if voOp (txnValue ti) = opDelete then txnIterator_settle (txnNext ti)
      else ti\<lparr>tiUseTxn := True\<rparr>)"
  by auto
termination
proof (relation "measure (\<lambda>ti. length (tiParent ti) + treeLeft ti)", goal_cases)
  case (2 ti)
  have "treeLeft (txnNext (parentNext ti)) = treeLeft (txnNext ti)" "tiParent (txnNext (parentNext ti)) = tl (tiParent ti)"
    by (simp_all add: treeLeft_def txnNext_def parentNext_def split: option.split)
  moreover have "length (tl (tiParent ti)) \<le> length (tiParent ti)" by simp
  ultimately show ?case using treeLeft_next [OF valid_current [OF 2(2)]] by (simp del: length_tl)
next
  case (3 ti)
  have "tiParent (txnNext ti) = tiParent ti" by (simp add: txnNext_def)
  then show ?case using treeLeft_next [OF valid_current [OF 3(2)]] by simp
qed simp

declare txnFastForward.simps [simp del] txnIterator_settle.simps [simp del]

definition txnIterator_Valid :: "txnIterator \<Rightarrow> bool \<times> txnIterator" where
  "txnIterator_Valid ti = (let ti' = txnIterator_settle ti in (\<not> txnInvalid ti' \<or> tiParent ti' \<noteq> [], ti'))"

section \<open>Iterating\<close>

text \<open>The items from the current one on, and those of them the iterator will visit.\<close>

definition itemsFrom :: "txnIterator \<Rightarrow> cacheItem list" where
  "itemsFrom ti = (case tiCurrent ti of None \<Rightarrow> [] | Some x \<Rightarrow> x # filter (\<lambda>y. before (tiReverse ti) (ciKey x) (ciKey y)) (tiTree ti))"

definition itemsLeft :: "txnIterator \<Rightarrow> cacheItem list" where
  "itemsLeft ti = (if tiInvalid ti then [] else takeWhile (\<lambda>x. ciKey x \<noteq> [] \<and> take (length (tiPrefix ti)) (ciKey x) = tiPrefix ti) (itemsFrom ti))"

definition iteratorOk :: "txnIterator \<Rightarrow> bool" where
  "iteratorOk ti \<longleftrightarrow> sorted_wrt (before (tiReverse ti)) (map ciKey (tiTree ti)) \<and> (\<forall>x. tiCurrent ti = Some x \<longrightarrow> x \<in> set (tiTree ti))"

lemma find_filter: "find p l = (case filter p l of [] \<Rightarrow> None | y # _ \<Rightarrow> Some y)"
  by (induction l) auto

lemma filter_after:
  assumes "sorted_wrt (before r) (map ciKey l)" and "filter (\<lambda>y. before r k (ciKey y)) l = y # ys"
  shows "filter (\<lambda>z. before r (ciKey y) (ciKey z)) l = ys"
  using assms
proof (induction l)
  case (Cons a l)
  show ?case
  proof (cases "before r k (ciKey a)")
    case True
    then have a: "y = a" "ys = filter (\<lambda>z. before r k (ciKey z)) l" using Cons.prems(2) by simp_all
    have "\<forall>z \<in> set l. before r (ciKey a) (ciKey z)" using Cons.prems(1) by simp
    then have "filter (\<lambda>z. before r (ciKey a) (ciKey z)) l = l" "filter (\<lambda>z. before r k (ciKey z)) l = l"
      using True before_order(2) by (auto simp: filter_id_conv)
    then show ?thesis using a before_order(1) by simp
  next
    case False
    then have l: "filter (\<lambda>y. before r k (ciKey y)) l = y # ys" using Cons.prems(2) by simp
    then have "before r k (ciKey y)" by (auto dest: filter_eq_ConsD)
    then have "\<not> before r (ciKey y) (ciKey a)" using False before_order(2) by blast
    with Cons.IH [OF _ l] Cons.prems(1) show ?thesis by simp
  qed
qed simp

lemma itemsFrom_next:
  assumes "iteratorOk ti" and "itemsFrom ti = x # xs"
  shows "itemsFrom (txnNext ti) = xs" and "iteratorOk (txnNext ti)"
proof -
  have x: "tiCurrent ti = Some x" "xs = filter (\<lambda>y. before (tiReverse ti) (ciKey x) (ciKey y)) (tiTree ti)"
    using assms(2) by (auto simp: itemsFrom_def split: option.splits)
  have next': "tiCurrent (txnNext ti) = (case xs of [] \<Rightarrow> None | y # _ \<Rightarrow> Some y)" "tiTree (txnNext ti) = tiTree ti" "tiReverse (txnNext ti) = tiReverse ti"
    by (simp_all add: txnNext_def x tree_next_def find_filter)
  have srt: "sorted_wrt (before (tiReverse ti)) (map ciKey (tiTree ti))" using assms(1) by (simp add: iteratorOk_def)
  show "itemsFrom (txnNext ti) = xs"
  proof (cases xs)
    case (Cons y ys)
    then have cur: "tiCurrent (txnNext ti) = Some y" by (simp add: next'(1))
    have "filter (\<lambda>z. before (tiReverse ti) (ciKey y) (ciKey z)) (tiTree ti) = ys" by (rule filter_after [OF srt]) (use x(2) Cons in simp)
    then show ?thesis by (simp add: itemsFrom_def cur next'(2,3) Cons)
  qed (simp add: itemsFrom_def next')
  have "set xs \<subseteq> set (tiTree ti)" by (simp add: x(2))
  then show "iteratorOk (txnNext ti)" using srt by (auto simp: iteratorOk_def next' split: list.splits)
qed

lemma itemsLeft_invalid: "txnInvalid ti \<longleftrightarrow> itemsLeft ti = []"
  by (auto simp: txnInvalid_def itemsLeft_def itemsFrom_def txnKey_def split: option.split)

lemma itemsLeft_valid:
  assumes "iteratorOk ti" and "\<not> txnInvalid ti"
  shows "itemsLeft ti = the (tiCurrent ti) # itemsLeft (txnNext ti)" and "txnKey ti = ciKey (the (tiCurrent ti))"
proof -
  obtain x where x: "tiCurrent ti = Some x" using valid_current [OF assms(2)] by blast
  then obtain xs where xs: "itemsFrom ti = x # xs" by (simp add: itemsFrom_def)
  show "itemsLeft ti = the (tiCurrent ti) # itemsLeft (txnNext ti)"
    using itemsFrom_next(1) [OF assms(1) xs] assms(2) x xs by (simp add: itemsLeft_def txnInvalid_def txnKey_def txnNext_def)
  show "txnKey ti = ciKey (the (tiCurrent ti))" by (simp add: txnKey_def x)
qed

text \<open>The reference: two ordered lists merged, an operation shadows an entry with its key, deletions are left out.\<close>

fun mergeOps :: "bool \<Rightarrow> (bytes \<times> bytes) list \<Rightarrow> (bytes \<times> valueOp) list \<Rightarrow> (bytes \<times> bytes) list" where
  "mergeOps r [] [] = []"
| "mergeOps r [] ((k, v) # T) = (if voOp v = opDelete then mergeOps r [] T else (k, voValue v) # mergeOps r [] T)"
| "mergeOps r (p # P) [] = p # P"
| "mergeOps r ((pk, pv) # P) ((k, v) # T) =
     (if before r pk k then (pk, pv) # mergeOps r P ((k, v) # T)
      else if k = pk then (if voOp v = opDelete then mergeOps r P T else (k, voValue v) # mergeOps r P T)
      else if voOp v = opDelete then mergeOps r ((pk, pv) # P) T else (k, voValue v) # mergeOps r ((pk, pv) # P) T)"

definition opOf :: "(u64, valueOp) table \<Rightarrow> cacheItem \<Rightarrow> valueOp" where
  "opOf ops x = (case tget ops (ciHashedKey x) of Some v \<Rightarrow> v | None \<Rightarrow> \<lparr>voKey = [], voValue = [], voVersion = 0, voOp = opDelete\<rparr>)"

definition treeEntries :: "txnIterator \<Rightarrow> (bytes \<times> valueOp) list" where
  "treeEntries ti = map (\<lambda>x. (ciKey x, opOf (tiOps ti) x)) (itemsLeft ti)"

definition parentEntries :: "txnIterator \<Rightarrow> (bytes \<times> bytes) list" where
  "parentEntries ti = map (\<lambda>(k, v). (removePrefix k (tiParentPrefix ti), v)) (tiParent ti)"

definition merged :: "txnIterator \<Rightarrow> (bytes \<times> bytes) list" where
  "merged ti = mergeOps (tiReverse ti) (parentEntries ti) (treeEntries ti)"

lemma treeEntries_valid:
  assumes "iteratorOk ti" and "\<not> txnInvalid ti"
  shows "treeEntries ti = (txnKey ti, txnValue ti) # treeEntries (txnNext ti)"
proof -
  have "tiOps (txnNext ti) = tiOps ti" by (simp add: txnNext_def)
  moreover have "txnValue ti = opOf (tiOps ti) (the (tiCurrent ti))" using valid_current [OF assms(2)] by (auto simp: txnValue_def opOf_def)
  ultimately show ?thesis using itemsLeft_valid [OF assms] by (simp add: treeEntries_def)
qed

lemma treeEntries_invalid: "txnInvalid ti \<Longrightarrow> treeEntries ti = []"
  by (simp add: treeEntries_def itemsLeft_invalid)

lemma parentEntries_Cons:
  "tiParent ti \<noteq> [] \<Longrightarrow> parentEntries ti = (parentKey ti, snd (hd (tiParent ti))) # parentEntries (parentNext ti)"
  by (cases "tiParent ti") (auto simp: parentEntries_def parentKey_def parentNext_def)

lemma itemsFrom_cong:
  "tiCurrent ti' = tiCurrent ti \<Longrightarrow> tiReverse ti' = tiReverse ti \<Longrightarrow> tiTree ti' = tiTree ti \<Longrightarrow> itemsFrom ti' = itemsFrom ti"
  by (simp add: itemsFrom_def cong: option.case_cong)

lemma step_fields:
  "parentEntries (txnNext ti) = parentEntries ti" "treeEntries (parentNext ti) = treeEntries ti" "tiReverse (txnNext ti) = tiReverse ti"
  "tiReverse (parentNext ti) = tiReverse ti" "iteratorOk (parentNext ti) = iteratorOk ti" "txnNext (parentNext ti) = parentNext (txnNext ti)"
  "tiParent (txnNext ti) = tiParent ti" "txnInvalid (parentNext ti) = txnInvalid ti"
  "parentEntries (parentNext (txnNext ti)) = parentEntries (parentNext ti)"
  using itemsFrom_cong [of "parentNext ti" ti]
  by (simp_all add: parentEntries_def treeEntries_def itemsLeft_def txnNext_def parentNext_def iteratorOk_def txnInvalid_def txnKey_def cong: option.case_cong)

lemma note_fields:
  "parentEntries (noteInvalid ti) = parentEntries ti" "iteratorOk (noteInvalid ti) = iteratorOk ti"
  "tiReverse (noteInvalid ti) = tiReverse ti" "txnInvalid (noteInvalid ti) = txnInvalid ti" "tiParent (noteInvalid ti) = tiParent ti"
  "txnKey (noteInvalid ti) = txnKey ti" "txnValue (noteInvalid ti) = txnValue ti" "parentKey (noteInvalid ti) = parentKey ti"
  by (auto simp: parentEntries_def iteratorOk_def noteInvalid_def txnInvalid_def txnKey_def txnValue_def parentKey_def cong: option.case_cong)

lemma treeEntries_note: "treeEntries (noteInvalid ti) = treeEntries ti"
proof (cases "txnInvalid ti")
  case True
  then show ?thesis by (simp add: treeEntries_invalid note_fields)
next
  case False
  then have "noteInvalid ti = ti" by (simp add: noteInvalid_def txnInvalid_def)
  then show ?thesis by simp
qed

lemma use_fields:
  "parentEntries (ti\<lparr>tiUseTxn := b\<rparr>) = parentEntries ti" "treeEntries (ti\<lparr>tiUseTxn := b\<rparr>) = treeEntries ti"
  "iteratorOk (ti\<lparr>tiUseTxn := b\<rparr>) = iteratorOk ti" "txnInvalid (ti\<lparr>tiUseTxn := b\<rparr>) = txnInvalid ti" "txnKey (ti\<lparr>tiUseTxn := b\<rparr>) = txnKey ti"
  "txnValue (ti\<lparr>tiUseTxn := b\<rparr>) = txnValue ti" "parentKey (ti\<lparr>tiUseTxn := b\<rparr>) = parentKey ti"
  using itemsFrom_cong [of "ti\<lparr>tiUseTxn := b\<rparr>" ti]
  by (simp_all add: parentEntries_def treeEntries_def itemsLeft_def iteratorOk_def txnInvalid_def txnKey_def txnValue_def parentKey_def cong: option.case_cong)

lemma next_ok: "iteratorOk ti \<Longrightarrow> \<not> txnInvalid ti \<Longrightarrow> iteratorOk (txnNext ti)"
  using itemsFrom_next(2) [of ti] valid_current [of ti] by (auto simp: itemsFrom_def)

lemma fastForward_merged:
  assumes "iteratorOk ti" and "tiParent ti = []"
  defines "tf \<equiv> txnFastForward ti"
  shows "merged tf = merged ti \<and> iteratorOk tf \<and> tiParent tf = [] \<and> (txnInvalid tf \<or> voOp (txnValue tf) \<noteq> opDelete) \<and> treeLeft tf \<le> treeLeft ti"
  unfolding tf_def using assms(1,2)
proof (induction ti rule: txnFastForward.induct)
  case (1 ti)
  show ?case
  proof (cases "txnInvalid ti \<or> voOp (txnValue ti) \<noteq> opDelete")
    case True
    have "treeLeft (noteInvalid ti) = treeLeft ti" by (simp add: treeLeft_def noteInvalid_def cong: option.case_cong)
    with True 1(2,3) show ?thesis
      by (subst (1 2 3 4 5 6) txnFastForward.simps) (simp add: note_fields treeEntries_note merged_def)
  next
    case False
    have "merged (txnNext ti) = merged ti"
      using treeEntries_valid [OF 1(2)] False 1(3) by (simp add: merged_def step_fields parentEntries_def)
    with 1(1) [OF False next_ok] False 1(2,3) treeLeft_next [OF valid_current, of ti] show ?thesis
      by (subst (1 2 3 4 5 6) txnFastForward.simps) (simp add: step_fields)
  qed
qed

lemma settle_merged:
  assumes "iteratorOk ti"
  defines "ts \<equiv> txnIterator_settle ti"
  shows "merged ts = merged ti \<and> iteratorOk ts \<and> length (tiParent ts) + treeLeft ts \<le> length (tiParent ti) + treeLeft ti \<and>
    (if tiParent ts = [] then tiUseTxn ts \<and> (txnInvalid ts \<or> voOp (txnValue ts) \<noteq> opDelete)
     else if txnInvalid ts \<or> before (tiReverse ts) (parentKey ts) (txnKey ts) then \<not> tiUseTxn ts
     else tiUseTxn ts \<and> voOp (txnValue ts) \<noteq> opDelete)"
  unfolding ts_def using assms(1)
proof (induction ti rule: txnIterator_settle.induct)
  case (1 ti)
  have left: "treeLeft (noteInvalid ti) = treeLeft ti" "treeLeft (t\<lparr>tiUseTxn := b\<rparr>) = treeLeft t" "merged (t\<lparr>tiUseTxn := b\<rparr>) = merged t"
      "merged (noteInvalid ti) = merged ti" for t b
    by (simp_all add: treeLeft_def noteInvalid_def merged_def use_fields note_fields treeEntries_note [unfolded noteInvalid_def] cong: option.case_cong)
      (simp add: parentEntries_def)
  show ?case
  proof (cases "tiParent ti = []")
    case True
    then have "txnIterator_settle ti = (txnFastForward ti)\<lparr>tiUseTxn := True\<rparr>" by (simp add: txnIterator_settle.simps)
    with fastForward_merged [OF 1(3) True] True show ?thesis by (simp add: use_fields left)
  next
    case parent: False
    show ?thesis
    proof (cases "txnInvalid ti")
      case True
      then have "txnIterator_settle ti = (noteInvalid ti)\<lparr>tiUseTxn := False\<rparr>" using parent by (simp add: txnIterator_settle.simps)
      with True parent 1(3) show ?thesis by (simp add: use_fields note_fields left)
    next
      case valid: False
      note less = treeLeft_next [OF valid_current [OF valid]] and entries = treeEntries_valid [OF 1(3) valid] parentEntries_Cons [OF parent]
      consider (parent) "before (tiReverse ti) (parentKey ti) (txnKey ti)" | (same) "txnKey ti = parentKey ti" "voOp (txnValue ti) = opDelete"
        | (del) "\<not> before (tiReverse ti) (parentKey ti) (txnKey ti)" "txnKey ti \<noteq> parentKey ti" "voOp (txnValue ti) = opDelete"
        | (set) "\<not> before (tiReverse ti) (parentKey ti) (txnKey ti)" "voOp (txnValue ti) \<noteq> opDelete"
        by blast
      then show ?thesis
      proof cases
        case parent
        then have "txnIterator_settle ti = ti\<lparr>tiUseTxn := False\<rparr>" using \<open>tiParent ti \<noteq> []\<close> valid by (simp add: txnIterator_settle.simps)
        then show ?thesis using parent \<open>tiParent ti \<noteq> []\<close> 1(3) by (simp add: use_fields left)
      next
        case same
        have eq: "txnIterator_settle ti = txnIterator_settle (txnNext (parentNext ti))"
          using same parent valid before_order(1) by (subst txnIterator_settle.simps) simp
        have "merged (txnNext (parentNext ti)) = merged ti"
          using entries same before_order(1) by (simp add: merged_def step_fields)
        moreover have "treeLeft (txnNext (parentNext ti)) = treeLeft (txnNext ti)"
          by (simp add: treeLeft_def txnNext_def parentNext_def cong: option.case_cong)
        moreover have "iteratorOk (txnNext (parentNext ti))" using next_ok [OF 1(3) valid] by (simp add: step_fields)
        moreover have "length (tiParent (txnNext (parentNext ti))) \<le> length (tiParent ti)" by (simp add: step_fields parentNext_def)
        ultimately show ?thesis using 1(1) [OF parent valid _ same] same before_order(1) less eq by simp
      next
        case del
        have eq: "txnIterator_settle ti = txnIterator_settle (txnNext ti)" using del parent valid by (subst txnIterator_settle.simps) simp
        have "merged (txnNext ti) = merged ti" using entries del by (simp add: merged_def step_fields)
        then show ?thesis using 1(2) [OF parent valid del] next_ok [OF 1(3) valid] less eq by (simp add: step_fields)
      next
        case set
        then have "txnIterator_settle ti = ti\<lparr>tiUseTxn := True\<rparr>" using parent valid by (simp add: txnIterator_settle.simps)
        then show ?thesis using set parent valid 1(3) by (simp add: use_fields left)
      qed
    qed
  qed
qed

lemma Next_merged:
  assumes "iteratorOk ti" and valid: "\<not> txnInvalid ti \<or> tiParent ti \<noteq> []"
    and settled: "if tiParent ti = [] then tiUseTxn ti \<and> (txnInvalid ti \<or> voOp (txnValue ti) \<noteq> opDelete)
     else if txnInvalid ti \<or> before (tiReverse ti) (parentKey ti) (txnKey ti) then \<not> tiUseTxn ti
     else tiUseTxn ti \<and> voOp (txnValue ti) \<noteq> opDelete"
  shows "merged ti = (txnIterator_Key ti, txnIterator_Value ti) # merged (txnIterator_Next ti)" and "iteratorOk (txnIterator_Next ti)"
    and "length (tiParent (txnIterator_Next ti)) + treeLeft (txnIterator_Next ti) < length (tiParent ti) + treeLeft ti"
proof -
  have left: "treeLeft (parentNext t) = treeLeft t" "treeLeft (noteInvalid t) = treeLeft t" "length (tiParent (parentNext t)) = length (tiParent t) - 1"
      "treeLeft (txnNext (parentNext t)) = treeLeft (txnNext t)" for t
    by (simp_all add: treeLeft_def noteInvalid_def parentNext_def txnNext_def cong: option.case_cong)
  note entries = treeEntries_valid [OF assms(1)] parentEntries_Cons [of ti] treeEntries_invalid [of ti]
  note next' = next_ok [OF assms(1)] treeLeft_next [OF valid_current, of ti]
  have kv: "txnIterator_Key ti = (if tiUseTxn ti then txnKey ti else parentKey ti)"
    "txnIterator_Value ti = (if tiUseTxn ti then voValue (txnValue ti) else snd (hd (tiParent ti)))"
    by (simp_all add: txnIterator_Key_def txnIterator_Value_def)
  have noted: "parentEntries (parentNext (noteInvalid ti)) = parentEntries (parentNext ti)" by (simp add: parentEntries_def parentNext_def noteInvalid_def)
  consider (txn) "tiParent ti = []" "\<not> txnInvalid ti" | (parent) "tiParent ti \<noteq> []" "txnInvalid ti"
    | (smaller) "tiParent ti \<noteq> []" "\<not> txnInvalid ti" "before (tiReverse ti) (parentKey ti) (txnKey ti)"
    | (same) "tiParent ti \<noteq> []" "\<not> txnInvalid ti" "txnKey ti = parentKey ti"
    | (larger) "tiParent ti \<noteq> []" "\<not> txnInvalid ti" "\<not> before (tiReverse ti) (parentKey ti) (txnKey ti)" "txnKey ti \<noteq> parentKey ti"
    using valid by blast
  then have "merged ti = (txnIterator_Key ti, txnIterator_Value ti) # merged (txnIterator_Next ti) \<and> iteratorOk (txnIterator_Next ti) \<and>
      length (tiParent (txnIterator_Next ti)) + treeLeft (txnIterator_Next ti) < length (tiParent ti) + treeLeft ti"
  proof cases
    case txn
    then have "parentEntries ti = []" by (simp add: parentEntries_def)
    then show ?thesis using txn settled entries next' by (simp add: txnIterator_Next_def merged_def kv step_fields)
  next
    case parent
    moreover have "mergeOps r P [] = P" for r P by (cases P) simp_all
    ultimately show ?thesis using settled entries assms(1) noted
      by (simp add: txnIterator_Next_def merged_def kv step_fields note_fields left treeEntries_note)
  next
    case smaller
    then show ?thesis using settled entries assms(1) by (simp add: txnIterator_Next_def merged_def kv step_fields left)
  next
    case same
    then show ?thesis using settled entries next' before_order(1) by (simp add: txnIterator_Next_def merged_def kv step_fields left)
  next
    case larger
    then show ?thesis using settled entries next' by (simp add: txnIterator_Next_def merged_def kv step_fields left)
  qed
  then show "merged ti = (txnIterator_Key ti, txnIterator_Value ti) # merged (txnIterator_Next ti)" "iteratorOk (txnIterator_Next ti)"
    "length (tiParent (txnIterator_Next ti)) + treeLeft (txnIterator_Next ti) < length (tiParent ti) + treeLeft ti"
    by blast+
qed

text \<open>
  \<open>for ; it.Valid(); it.Next() { ... }\<close>: the keys and values a caller sees, with a bound on the rounds. The parent's
  entries and the items of the tree are enough.
\<close>

fun collect :: "nat \<Rightarrow> txnIterator \<Rightarrow> (bytes \<times> bytes) list option" where
  "collect 0 ti = None"
| "collect (Suc fuel) ti = (case txnIterator_Valid ti of
       (False, _) \<Rightarrow> Some []
     | (True, ti') \<Rightarrow> map_option ((#) (txnIterator_Key ti', txnIterator_Value ti')) (collect fuel (txnIterator_Next ti')))"

lemma collect_merged:
  "iteratorOk ti \<Longrightarrow> length (tiParent ti) + treeLeft ti < fuel \<Longrightarrow> collect fuel ti = Some (merged ti)"
proof (induction fuel arbitrary: ti)
  case (Suc fuel)
  let ?s = "txnIterator_settle ti"
  note s = settle_merged [OF Suc.prems(1)]
  show ?case
  proof (cases "\<not> txnInvalid ?s \<or> tiParent ?s \<noteq> []")
    case True
    note n = Next_merged [OF _ True]
    have "collect fuel (txnIterator_Next ?s) = Some (merged (txnIterator_Next ?s))"
      using s n Suc.prems(2) by (intro Suc.IH) (blast, linarith)
    with True s n show ?thesis by (simp add: txnIterator_Valid_def)
  next
    case False
    then have "merged ?s = []" by (simp add: merged_def treeEntries_invalid parentEntries_def)
    with False s show ?thesis by (simp add: txnIterator_Valid_def)
  qed
qed simp

section \<open>Prefixes in the order of keys\<close>

lemma lex_prefix:
  fixes pre :: bytes
  shows "pre \<le> a \<Longrightarrow> a < pre @ x \<Longrightarrow> take (length pre) a = pre"
proof (induction pre arbitrary: a)
  case (Cons b pre)
  then show ?case by (cases a) auto
qed simp

lemma prefix_le:
  fixes pre :: bytes
  shows "take (length pre) a = pre \<Longrightarrow> pre \<le> a"
proof (induction pre arbitrary: a)
  case (Cons b pre)
  then show ?case by (cases a) auto
qed simp

lemma below_ends:
  fixes s :: bytes
  shows "length s < n \<Longrightarrow> s < replicate n 255"
proof (induction s arbitrary: n)
  case Nil
  then show ?case by (cases n) auto
next
  case (Cons b s)
  then obtain m where n: "n = Suc m" by (cases n) auto
  have "unat b < 256" using unsigned_less [of b, where ?'a = nat] by simp
  then have "b \<le> 255" by (simp add: word_le_nat_alt)
  with Cons n show ?case by (auto simp: order_le_less)
qed

lemma append_less: "(pre @ s < pre @ t) = (s < (t :: bytes))"
  by (induction pre) auto

lemma takeWhile_filter:
  "sorted_wrt R l \<Longrightarrow> (\<And>a b. a \<in> set l \<Longrightarrow> b \<in> set l \<Longrightarrow> R a b \<Longrightarrow> Q b \<Longrightarrow> Q a) \<Longrightarrow> takeWhile Q l = filter Q l"
proof (induction l)
  case (Cons a l)
  show ?case
  proof (cases "Q a")
    case False
    then have "\<forall>b \<in> set l. \<not> Q b" using Cons.prems by auto
    with False show ?thesis by simp
  qed (use Cons in auto)
qed simp

section \<open>Merging is what the map says\<close>

definition overlay :: "(bytes \<times> bytes) list \<Rightarrow> (bytes \<times> valueOp) list \<Rightarrow> (bytes \<times> bytes) set" where
  "overlay P T = {(k, v). case map_of T k of Some w \<Rightarrow> voOp w \<noteq> opDelete \<and> v = voValue w | None \<Rightarrow> (k, v) \<in> set P}"

lemma overlay_keys: "(k, v) \<in> overlay P T \<Longrightarrow> k \<in> fst ` set P \<union> fst ` set T"
  by (auto simp: overlay_def image_iff split: option.splits dest!: map_of_SomeD) force+

lemma overlay_simps:
  "overlay [] [] = {}"
  "k \<notin> fst ` set T \<Longrightarrow> overlay P ((k, w) # T) = (if voOp w = opDelete then overlay (filter (\<lambda>e. fst e \<noteq> k) P) T
     else insert (k, voValue w) (overlay (filter (\<lambda>e. fst e \<noteq> k) P) T))"
  "k \<notin> fst ` set T \<Longrightarrow> overlay ((k, v) # P) T = insert (k, v) (overlay P T)"
  "overlay P [] = set P"
  by (auto simp: overlay_def image_iff split: option.splits if_splits) (force dest!: map_of_SomeD)+

lemma mergeOps_spec:
  assumes "sorted_wrt (before r) (map fst P)" and "sorted_wrt (before r) (map fst T)"
  shows "sorted_wrt (before r) (map fst (mergeOps r P T)) \<and> set (mergeOps r P T) = overlay P T"
  using assms
proof (induction r P T rule: mergeOps.induct)
  case (2 r k v T)
  have new: "k \<notin> fst ` set T" using 2(4) before_order(1) by auto
  have "\<forall>e \<in> overlay [] T. before r k (fst e)" using 2(4) overlay_keys [of _ _ "[]" T] by fastforce
  with 2 new show ?case by (auto simp: overlay_simps)
next
  case (4 r pk pv P k v T)
  have after: "\<forall>e \<in> set T. before r k (fst e)" "\<forall>e \<in> set P. before r pk (fst e)" using 4(6,7) by auto
  then have new: "k \<notin> fst ` set T" "pk \<notin> fst ` set P" using before_order(1) by auto
  have all: "\<forall>e \<in> overlay P' T'. before r j (fst e)" if "\<forall>e \<in> set P'. before r j (fst e)" "\<forall>e \<in> set T'. before r j (fst e)" for j and P' :: "(bytes \<times> bytes) list" and T' :: "(bytes \<times> valueOp) list"
    using that overlay_keys [of _ _ P' T'] by fastforce
  consider (smaller) "before r pk k" | (same) "k = pk" | (larger) "\<not> before r pk k" "k \<noteq> pk" "before r k pk" using before_order(3) by blast
  then show ?case
  proof cases
    case smaller
    then have far: "\<forall>e \<in> set ((k, v) # T). before r pk (fst e)" using after before_order(2) by auto
    then have "pk \<notin> fst ` set ((k, v) # T)" using before_order(1) by auto
    then have "overlay ((pk, pv) # P) ((k, v) # T) = insert (pk, pv) (overlay P ((k, v) # T))" by (rule overlay_simps(3))
    moreover have "\<forall>e \<in> overlay P ((k, v) # T). before r pk (fst e)" using far after by (intro all) auto
    ultimately show ?thesis using smaller 4(1,6,7) by auto
  next
    case same
    have "filter (\<lambda>e. fst e \<noteq> k) ((pk, pv) # P) = P" using same new(2) by (auto simp: filter_id_conv)
    moreover have "\<forall>e \<in> overlay P T. before r k (fst e)" using same after by (intro all) auto
    ultimately show ?thesis using same new(1) before_order(1) 4(2,3,6,7) by (auto simp: overlay_simps(2))
  next
    case larger
    then have far: "\<forall>e \<in> set ((pk, pv) # P). before r k (fst e)" using after before_order(2) by auto
    then have "filter (\<lambda>e. fst e \<noteq> k) ((pk, pv) # P) = (pk, pv) # P" using before_order(1) by (auto simp: filter_id_conv)
    moreover have "\<forall>e \<in> overlay ((pk, pv) # P) T. before r k (fst e)" using far after by (intro all) auto
    ultimately show ?thesis using larger new(1) 4(4,5,6,7) by (auto simp: overlay_simps(2))
  qed
qed (auto simp: overlay_simps)

section \<open>Where the iterator starts\<close>

definition hasPrefix :: "bytes \<Rightarrow> bytes \<Rightarrow> bool" where
  "hasPrefix pre key \<longleftrightarrow> take (length pre) key = pre"

lemma filter_from:
  assumes "sorted_wrt (before r) (map ciKey l)"
  shows "(case tree_next r l start of None \<Rightarrow> [] | Some x \<Rightarrow> x # filter (\<lambda>y. before r (ciKey x) (ciKey y)) l) =
    filter (\<lambda>y. before r start (ciKey y)) l"
proof (cases "filter (\<lambda>y. before r start (ciKey y)) l")
  case (Cons y ys)
  with filter_after [OF assms Cons] show ?thesis by (simp add: tree_next_def find_filter)
qed (simp add: tree_next_def find_filter)

lemma filter_exact:
  assumes "sorted_wrt (before r) (map ciKey l)" and "x \<in> set l"
  shows "x # filter (\<lambda>y. before r (ciKey x) (ciKey y)) l = filter (\<lambda>y. \<not> before r (ciKey y) (ciKey x)) l"
  using assms
proof (induction l)
  case (Cons a l)
  have after: "\<forall>z \<in> set l. before r (ciKey a) (ciKey z)" using Cons.prems(1) by simp
  show ?case
  proof (cases "x = a")
    case True
    have "filter (\<lambda>z. before r (ciKey a) (ciKey z)) l = l" "filter (\<lambda>z. \<not> before r (ciKey z) (ciKey a)) l = l"
      using after before_antisym by (auto simp: filter_id_conv)
    then show ?thesis using True before_order(1) by simp
  next
    case False
    then have x: "x \<in> set l" using Cons.prems(2) by simp
    then have "before r (ciKey a) (ciKey x)" "\<not> before r (ciKey x) (ciKey a)" using after before_order by blast+
    with Cons.IH [OF _ x] Cons.prems(1) show ?thesis by simp
  qed
qed simp

lemma find_member: "find p l = Some x \<Longrightarrow> x \<in> set l"
  by (auto simp: find_Some_iff)

lemma itemsLeft_new:
  assumes srt: "sorted_wrt (<) (map ciKey (tnSorted t))" and keys: "\<forall>x \<in> set (tnSorted t). ciKey x \<noteq> [] \<and> length (ciKey x) \<le> 256"
    and ti: "ti = newTxnIterator parent t pre pp r"
  shows "itemsLeft ti = filter (\<lambda>x. hasPrefix pre (ciKey x)) (if r then rev (tnSorted t) else tnSorted t)" and "iteratorOk ti"
proof -
  let ?l = "if r then rev (tnSorted t) else tnSorted t"
  have sorted: "sorted_wrt (before r) (map ciKey ?l)" using srt by (simp add: before_def sorted_wrt_map sorted_wrt_rev)
  have fields: "tiTree ti = ?l" "tiReverse ti = r" "tiPrefix ti = pre" "\<not> tiInvalid ti"
      "tiCurrent ti = tree_Move r ?l (if r then prefixEnd pre else pre)"
    by (simp_all add: ti newTxnIterator_def Let_def)
  have member: "tree_Move r ?l k = Some x \<Longrightarrow> x \<in> set ?l" for k x
    unfolding tree_Move_def tree_next_def by (auto split: option.splits dest: find_member simp del: set_rev)
  show "iteratorOk ti" using sorted member by (simp add: iteratorOk_def fields)
  define keep where "keep = (\<lambda>y :: cacheItem. if r then ciKey y < pre @ endBytes @ endBytes else pre \<le> ciKey y)"
  have from': "itemsFrom ti = filter keep ?l"
  proof (cases r)
    case False
    show ?thesis
    proof (cases "find (\<lambda>x. ciKey x = pre) (tnSorted t)")
      case None
      then have "\<forall>y \<in> set (tnSorted t). ciKey y \<noteq> pre" by (simp add: find_None_iff)
      then have "filter keep (tnSorted t) = filter (\<lambda>y. before False pre (ciKey y)) (tnSorted t)"
        by (intro filter_cong) (auto simp: keep_def before_def False)
      then show ?thesis using filter_from [OF sorted, of pre] False None by (simp add: itemsFrom_def fields tree_Move_def cong: option.case_cong)
    next
      case (Some x)
      then have x: "x \<in> set (tnSorted t)" "ciKey x = pre" by (auto simp: find_Some_iff)
      have "filter keep (tnSorted t) = filter (\<lambda>y. \<not> before False (ciKey y) (ciKey x)) (tnSorted t)"
        by (intro filter_cong) (auto simp: keep_def before_def False x(2) not_less)
      then show ?thesis using filter_exact [OF sorted, of x] False Some x(1) by (simp add: itemsFrom_def fields tree_Move_def cong: option.case_cong)
    qed
  next
    case True
    have "find (\<lambda>x. ciKey x = prefixEnd pre) (rev (tnSorted t)) = None"
      using keys by (auto simp: find_None_iff prefixEnd_def endBytes_def)
    moreover have "filter keep (rev (tnSorted t)) = filter (\<lambda>y. before True (prefixEnd pre @ endBytes) (ciKey y)) (rev (tnSorted t))"
      by (intro filter_cong) (auto simp: keep_def before_def True prefixEnd_def)
    ultimately show ?thesis using filter_from [OF sorted, of "prefixEnd pre @ endBytes"] True by (simp add: itemsFrom_def fields tree_Move_def cong: option.case_cong)
  qed
  have "takeWhile (\<lambda>x. ciKey x \<noteq> [] \<and> take (length pre) (ciKey x) = pre) (filter keep ?l) =
      filter (\<lambda>x. ciKey x \<noteq> [] \<and> take (length pre) (ciKey x) = pre) (filter keep ?l)"
  proof (rule takeWhile_filter [of "\<lambda>a b. before r (ciKey a) (ciKey b)"])
    show "sorted_wrt (\<lambda>a b. before r (ciKey a) (ciKey b)) (filter keep ?l)" using sorted by (simp add: sorted_wrt_map sorted_wrt_filter)
    fix a b
    assume ab: "a \<in> set (filter keep ?l)" "b \<in> set (filter keep ?l)" "before r (ciKey a) (ciKey b)" "ciKey b \<noteq> [] \<and> take (length pre) (ciKey b) = pre"
    have "pre \<le> ciKey a \<and> (\<exists>x. ciKey a < pre @ x)"
    proof (cases r)
      case True
      then show ?thesis using ab prefix_le [of pre "ciKey b"] by (auto simp: keep_def before_def)
    next
      case False
      have "ciKey b = pre @ drop (length pre) (ciKey b)" using ab(4) by (metis append_take_drop_id)
      then have "ciKey a < pre @ drop (length pre) (ciKey b)" using ab(3) False by (simp add: before_def)
      moreover have "pre \<le> ciKey a" using ab(1) False by (simp add: keep_def)
      ultimately show ?thesis by blast
    qed
    then show "ciKey a \<noteq> [] \<and> take (length pre) (ciKey a) = pre" using lex_prefix [of pre "ciKey a"] ab(1) keys by (auto split: if_splits)
  qed
  moreover have "filter (\<lambda>x. ciKey x \<noteq> [] \<and> take (length pre) (ciKey x) = pre) (filter keep ?l) = filter (\<lambda>x. hasPrefix pre (ciKey x)) ?l"
  proof -
    have "keep x \<and> ciKey x \<noteq> []" if "x \<in> set (tnSorted t)" "take (length pre) (ciKey x) = pre" for x
    proof -
      have x: "ciKey x = pre @ drop (length pre) (ciKey x)" using that(2) by (metis append_take_drop_id)
      have "drop (length pre) (ciKey x) < endBytes @ endBytes"
        using below_ends [of "drop (length pre) (ciKey x)" 514] keys that(1) by (force simp: endBytes_def replicate_add [symmetric])
      then have "ciKey x < pre @ endBytes @ endBytes" by (subst x) (simp only: append_less)
      then show ?thesis using prefix_le [OF that(2)] keys that(1) by (simp add: keep_def)
    qed
    then show ?thesis by (auto simp: hasPrefix_def filter_filter intro!: filter_cong)
  qed
  ultimately show "itemsLeft ti = filter (\<lambda>x. hasPrefix pre (ciKey x)) ?l" by (simp add: itemsLeft_def fields from')
qed

section \<open>Scripts of writes\<close>

datatype txnCall = CallSet bytes bytes | CallDelete bytes

fun callKey :: "txnCall \<Rightarrow> bytes" where
  "callKey (CallSet k v) = k"
| "callKey (CallDelete k) = k"

fun runCall :: "(bytes \<Rightarrow> u64) \<Rightarrow> txnCall \<Rightarrow> txn \<Rightarrow> txn" where
  "runCall H (CallSet k v) t = Txn_Set H k v t"
| "runCall H (CallDelete k) t = Txn_Delete H k t"

text \<open>The specification: a map with the same writes.\<close>

fun specCall :: "txnCall \<Rightarrow> (bytes \<rightharpoonup> bytes) \<Rightarrow> (bytes \<rightharpoonup> bytes)" where
  "specCall (CallSet k v) m = m(k \<mapsto> v)"
| "specCall (CallDelete k) m = m(k := None)"

definition txnOk :: "(bytes \<Rightarrow> u64) \<Rightarrow> bytes set \<Rightarrow> txn \<Rightarrow> bool" where
  "txnOk H K t \<longleftrightarrow> tok (tnOps t) \<and> (\<forall>h v. tget (tnOps t) h = Some v \<longrightarrow> h = H (voKey v) \<and> voKey v \<in> K) \<and>
     (tnSort t \<longrightarrow> sorted_wrt (<) (map ciKey (tnSorted t)) \<and>
       (\<forall>x. x \<in> set (tnSorted t) \<longleftrightarrow> ciHashedKey x = H (ciKey x) \<and> (\<exists>v. tget (tnOps t) (ciHashedKey x) = Some v \<and> voKey v = ciKey x)))"

lemma replaceOrInsert_spec:
  assumes "sorted_wrt (<) (map ciKey l)"
  shows "sorted_wrt (<) (map ciKey (replaceOrInsert x l)) \<and> set (replaceOrInsert x l) = insert x {y \<in> set l. ciKey y \<noteq> ciKey x}"
  using assms
proof (induction x l rule: replaceOrInsert.induct)
  case (2 x y ys)
  consider "ciKey x < ciKey y" | "ciKey x = ciKey y" | "ciKey y < ciKey x" by fastforce
  then show ?case using 2 by cases auto
qed simp

lemma update_fields:
  "tnOps (txn_update H k val ver act t) = tset (H k) \<lparr>voKey = k, voValue = val, voVersion = ver, voOp = act\<rparr> (tnOps t)"
  "tnPrefix (txn_update H k val ver act t) = tnPrefix t" "tnSort (txn_update H k val ver act t) = tnSort t"
  "tnState (txn_update H k val ver act t) = tnState t" "tnWriteVersion (txn_update H k val ver act t) = tnWriteVersion t"
  "tnSorted (txn_update H k val ver act t) = (if tget (tnOps t) (H k) = None \<and> tnSort t
     then replaceOrInsert \<lparr>ciHashedKey = H k, ciKey = k\<rparr> (tnSorted t) else tnSorted t)"
  by (simp_all add: txn_update_def Let_def addToSorted_def)

lemma txnOk_update:
  assumes ok: "txnOk H K t" and inj: "inj_on H K" and k: "k \<in> K"
  shows "txnOk H K (txn_update H k val ver act t)"
proof -
  let ?v = "\<lparr>voKey = k, voValue = val, voVersion = ver, voOp = act\<rparr>" and ?x = "\<lparr>ciHashedKey = H k, ciKey = k\<rparr>"
  let ?t = "txn_update H k val ver act t"
  note ops = update_fields(1,3) [of H k val ver act t]
  have known: "voKey v = k" if "tget (tnOps t) (H k) = Some v" for v
    using ok that inj k unfolding txnOk_def by (metis inj_onD)
  have tree: "sorted_wrt (<) (map ciKey (tnSorted ?t)) \<and> (\<forall>x. x \<in> set (tnSorted ?t) \<longleftrightarrow>
      ciHashedKey x = H (ciKey x) \<and> (\<exists>v. tget (tnOps ?t) (ciHashedKey x) = Some v \<and> voKey v = ciKey x))" if s: "tnSort t"
  proof -
    have old: "sorted_wrt (<) (map ciKey (tnSorted t))"
      "x \<in> set (tnSorted t) \<longleftrightarrow> ciHashedKey x = H (ciKey x) \<and> (\<exists>v. tget (tnOps t) (ciHashedKey x) = Some v \<and> voKey v = ciKey x)" for x
      using ok s by (auto simp: txnOk_def)
    show ?thesis
    proof (cases "tget (tnOps t) (H k)")
      case None
      then have "tnSorted ?t = replaceOrInsert ?x (tnSorted t)" using s by (simp add: update_fields)
      moreover have "ciKey y \<noteq> k" if "y \<in> set (tnSorted t)" for y using old(2) [of y] that None by auto
      ultimately have "sorted_wrt (<) (map ciKey (tnSorted ?t))" "set (tnSorted ?t) = insert ?x (set (tnSorted t))"
        using replaceOrInsert_spec [OF old(1), of ?x] by auto
      moreover have "x = ?x \<or> x \<in> set (tnSorted t) \<longleftrightarrow> ciHashedKey x = H (ciKey x) \<and> (\<exists>v. tget (tnOps ?t) (ciHashedKey x) = Some v \<and> voKey v = ciKey x)" for x
        using old(2) [of x] None by (cases x) (auto simp: ops table_simps)
      ultimately show ?thesis by auto
    next
      case (Some w)
      then have "tnSorted ?t = tnSorted t" by (simp add: update_fields)
      moreover have "(\<exists>v. tget (tnOps ?t) h = Some v \<and> voKey v = j) \<longleftrightarrow> (\<exists>v. tget (tnOps t) h = Some v \<and> voKey v = j)" for h j
        using known [OF Some] Some by (auto simp: ops table_simps)
      ultimately show ?thesis using old by auto
    qed
  qed
  moreover have "tok (tnOps ?t)" "\<forall>h v. tget (tnOps ?t) h = Some v \<longrightarrow> h = H (voKey v) \<and> voKey v \<in> K"
    using ok k by (auto simp: txnOk_def ops table_simps tok_tset)
  ultimately show ?thesis by (simp add: txnOk_def ops)
qed

lemma Txn_Get_update:
  assumes "inj_on H K" and "k \<in> K" "j \<in> K"
  shows "Txn_Get H reader (txn_update H k val ver act t) j = (if j = k then (if act = opDelete then None else Some val) else Txn_Get H reader t j)"
proof -
  have "H j = H k \<longleftrightarrow> j = k" using assms by (auto dest: inj_onD)
  then show ?thesis by (simp add: Txn_Get_def update_fields table_simps cong: option.case_cong)
qed

definition runCalls :: "(bytes \<Rightarrow> u64) \<Rightarrow> txnCall list \<Rightarrow> txn \<Rightarrow> txn" where
  "runCalls H calls t = fold (runCall H) calls t"

definition specCalls :: "txnCall list \<Rightarrow> (bytes \<rightharpoonup> bytes) \<Rightarrow> (bytes \<rightharpoonup> bytes)" where
  "specCalls calls m = fold specCall calls m"

lemma runCall_ok:
  assumes "inj_on H K" and "callKey c \<in> K" and "txnOk H K t"
  shows "txnOk H K (runCall H c t) \<and> tnPrefix (runCall H c t) = tnPrefix t \<and> tnSort (runCall H c t) = tnSort t \<and> tnState (runCall H c t) = tnState t \<and>
    tnWriteVersion (runCall H c t) = tnWriteVersion t \<and>
    (\<forall>k \<in> K. Txn_Get H reader (runCall H c t) k = specCall c (Txn_Get H reader t) k)"
  using assms by (cases c)
    (auto simp: Txn_Set_def Txn_Delete_def txnOk_update Txn_Get_update update_fields)

lemma runCalls_ok:
  assumes inj: "inj_on H K"
  shows "callKey ` set calls \<subseteq> K \<Longrightarrow> txnOk H K t \<Longrightarrow> (\<forall>k \<in> K. Txn_Get H reader t k = m k) \<Longrightarrow>
    txnOk H K (runCalls H calls t) \<and> tnPrefix (runCalls H calls t) = tnPrefix t \<and> tnSort (runCalls H calls t) = tnSort t \<and>
    tnState (runCalls H calls t) = tnState t \<and> tnWriteVersion (runCalls H calls t) = tnWriteVersion t \<and>
    (\<forall>k \<in> K. Txn_Get H reader (runCalls H calls t) k = specCalls calls m k)"
proof (induction calls arbitrary: t m)
  case (Cons c calls)
  let ?t = "runCall H c t"
  have c: "callKey c \<in> K" using Cons.prems(1) by simp
  note step = runCall_ok [OF inj c Cons.prems(2), of reader]
  have "\<forall>k \<in> K. specCall c (Txn_Get H reader t) k = specCall c m k" using Cons.prems(3) by (cases c) auto
  then have "\<forall>k \<in> K. Txn_Get H reader ?t k = specCall c m k" using step by simp
  with Cons.IH [of ?t "specCall c m"] step Cons.prems(1) show ?case by (simp add: runCalls_def specCalls_def)
qed (simp add: runCalls_def specCalls_def)

text \<open>The entries of the parent under a prefix, in the order of the iteration.\<close>

definition parentLists :: "bool \<Rightarrow> bytes \<Rightarrow> bytes \<Rightarrow> parentStore \<Rightarrow> (bytes \<times> bytes) list \<Rightarrow> bool" where
  "parentLists r pp pre reader parent \<longleftrightarrow> sorted_wrt (before r) (map fst parent) \<and>
     set parent = {(pp @ k, v) | k v. hasPrefix pre k \<and> reader (pp @ k) = Some v}"

lemma option_when: "(\<And>w. a = Some w \<longleftrightarrow> c \<and> d \<and> b = Some w) \<Longrightarrow> a = (if c \<and> d then b else None)"
  by (metis not_None_eq)

lemma before_distinct: "sorted_wrt (before r) l \<Longrightarrow> distinct l"
  by (induction l) (use before_order(1) in auto)

lemma iterate_view:
  assumes ok: "txnOk H K t" and inj: "inj_on H K" and sort: "tnSort t" and keys: "\<forall>k \<in> K. k \<noteq> [] \<and> length k \<le> 256"
    and parent: "parentLists r (tnPrefix t) pre reader parent" and inK: "\<forall>k v. reader (tnPrefix t @ k) = Some v \<longrightarrow> k \<in> K"
    and fuel: "length parent + length (tnSorted t) < fuel"
  shows "\<exists>l. collect fuel (newTxnIterator parent t pre (tnPrefix t) r) = Some l \<and> sorted_wrt (before r) (map fst l) \<and>
    set l = {(k, v). k \<in> K \<and> hasPrefix pre k \<and> Txn_Get H reader t k = Some v}"
proof -
  let ?ti = "newTxnIterator parent t pre (tnPrefix t) r" and ?pp = "tnPrefix t"
  let ?T = "filter (\<lambda>x. hasPrefix pre (ciKey x)) (if r then rev (tnSorted t) else tnSorted t)"
  have tree: "sorted_wrt (<) (map ciKey (tnSorted t))"
    "x \<in> set (tnSorted t) \<longleftrightarrow> ciHashedKey x = H (ciKey x) \<and> (\<exists>v. tget (tnOps t) (ciHashedKey x) = Some v \<and> voKey v = ciKey x)" for x
    using ok sort by (auto simp: txnOk_def)
  then have small: "\<forall>x \<in> set (tnSorted t). ciKey x \<noteq> [] \<and> length (ciKey x) \<le> 256" using ok keys unfolding txnOk_def by metis
  note new = itemsLeft_new [OF tree(1) small refl, of parent pre ?pp r]
  have fields: "tiParent ?ti = parent" "tiOps ?ti = tnOps t" "tiReverse ?ti = r" "tiParentPrefix ?ti = ?pp"
      "tiTree ?ti = (if r then rev (tnSorted t) else tnSorted t)"
    by (simp_all add: newTxnIterator_def Let_def)
  have "treeLeft ?ti \<le> length (tnSorted t)"
  proof (cases "tiCurrent ?ti")
    case (Some x)
    then have "x \<in> set (tiTree ?ti)" using new(2) by (simp add: iteratorOk_def)
    then have "length (filter (\<lambda>y. before (tiReverse ?ti) (ciKey x) (ciKey y)) (tiTree ?ti)) < length (tiTree ?ti)"
      using before_order(1) by (intro length_filter_less [of x]) auto
    then show ?thesis using Some fields(5) by (simp add: treeLeft_def split: if_splits)
  qed (simp add: treeLeft_def)
  then have run: "collect fuel ?ti = Some (merged ?ti)" using new(2) fuel by (intro collect_merged) (simp_all add: fields)
  define T where "T = map (\<lambda>x. (ciKey x, opOf (tnOps t) x)) ?T"
  define P where "P = map (\<lambda>(k, v). (removePrefix k ?pp, v)) parent"
  have merge: "merged ?ti = mergeOps r P T" by (simp add: merged_def parentEntries_def treeEntries_def new(1) fields P_def T_def)
  have "sorted_wrt (before r) (map ciKey (if r then rev (tnSorted t) else tnSorted t))"
    using tree(1) by (simp add: before_def sorted_wrt_map sorted_wrt_rev)
  then have sT: "sorted_wrt (before r) (map fst T)" by (simp add: T_def comp_def sorted_wrt_map sorted_wrt_filter)
  have keyed: "\<exists>k. fst e = ?pp @ k" if "e \<in> set parent" for e using parent that by (auto simp: parentLists_def)
  have strip: "before r (removePrefix (fst a) ?pp) (removePrefix (fst b) ?pp)" if "a \<in> set parent" "b \<in> set parent" "before r (fst a) (fst b)" for a b
    using keyed [OF that(1)] keyed [OF that(2)] that(3) by (auto simp: before_def removePrefix_def append_less)
  have "sorted_wrt (\<lambda>a b. before r (fst a) (fst b)) parent" using parent by (simp add: parentLists_def sorted_wrt_map)
  then have "sorted_wrt (\<lambda>a b. before r (removePrefix (fst a) ?pp) (removePrefix (fst b) ?pp)) parent"
    using strip by (rule sorted_wrt_mono_rel [rotated])
  moreover have "map fst P = map (\<lambda>e. removePrefix (fst e) ?pp) parent" by (simp add: P_def case_prod_beta comp_def)
  ultimately have sP: "sorted_wrt (before r) (map fst P)" by (simp add: sorted_wrt_map)
  have setP: "(k, v) \<in> set P \<longleftrightarrow> hasPrefix pre k \<and> reader (?pp @ k) = Some v" for k v
  proof -
    have "set P = (\<lambda>(k, v). (removePrefix k ?pp, v)) ` {(?pp @ k, v) | k v. hasPrefix pre k \<and> reader (?pp @ k) = Some v}"
      using parent by (simp add: P_def parentLists_def)
    also have "\<dots> = {(k, v). hasPrefix pre k \<and> reader (?pp @ k) = Some v}" by (force simp: removePrefix_def image_iff)
    finally show ?thesis by simp
  qed
  have distinct: "distinct (map fst T)" using sT by (rule before_distinct)
  have found: "voKey w \<in> K \<and> (k \<in> K \<longrightarrow> voKey w = k)" if "tget (tnOps t) (H k) = Some w" for k w
  proof -
    have "H k = H (voKey w)" "voKey w \<in> K" using ok that unfolding txnOk_def by blast+
    then show ?thesis using inj by (auto dest: inj_onD)
  qed
  have mapT: "map_of T k = (if hasPrefix pre k \<and> k \<in> K then tget (tnOps t) (H k) else None)" for k
  proof -
    have "map_of T k = Some w \<longleftrightarrow> hasPrefix pre k \<and> k \<in> K \<and> tget (tnOps t) (H k) = Some w" for w
    proof -
      have "map_of T k = Some w \<longleftrightarrow> (\<exists>x \<in> set (tnSorted t). hasPrefix pre (ciKey x) \<and> ciKey x = k \<and> opOf (tnOps t) x = w)"
        by (subst map_of_eq_Some_iff [OF distinct]) (auto simp: T_def split: if_splits)
      also have "\<dots> \<longleftrightarrow> hasPrefix pre k \<and> (\<exists>v. tget (tnOps t) (H k) = Some v \<and> voKey v = k \<and> v = w)"
      proof
        assume "\<exists>x \<in> set (tnSorted t). hasPrefix pre (ciKey x) \<and> ciKey x = k \<and> opOf (tnOps t) x = w"
        then show "hasPrefix pre k \<and> (\<exists>v. tget (tnOps t) (H k) = Some v \<and> voKey v = k \<and> v = w)" using tree(2) by (auto simp: opOf_def)
      next
        assume *: "hasPrefix pre k \<and> (\<exists>v. tget (tnOps t) (H k) = Some v \<and> voKey v = k \<and> v = w)"
        then have "\<lparr>ciHashedKey = H k, ciKey = k\<rparr> \<in> set (tnSorted t)" using tree(2) [of "\<lparr>ciHashedKey = H k, ciKey = k\<rparr>"] by auto
        with * show "\<exists>x \<in> set (tnSorted t). hasPrefix pre (ciKey x) \<and> ciKey x = k \<and> opOf (tnOps t) x = w" by (force simp: opOf_def)
      qed
      also have "\<dots> \<longleftrightarrow> hasPrefix pre k \<and> k \<in> K \<and> tget (tnOps t) (H k) = Some w" using found [of k w] by auto
      finally show ?thesis .
    qed
    then show ?thesis by (rule option_when)
  qed
  have "overlay P T = {(k, v). k \<in> K \<and> hasPrefix pre k \<and> Txn_Get H reader t k = Some v}"
    using inK by (auto simp: overlay_def mapT setP Txn_Get_def split: option.splits if_splits)
  with mergeOps_spec [OF sP sT] run merge show ?thesis by auto
qed

section \<open>The batch of a commit\<close>

definition applyBatch :: "batchWrite list \<Rightarrow> parentStore \<Rightarrow> parentStore" where
  "applyBatch ws m = fold (\<lambda>(k, v, _) m. m(k := v)) ws m"

definition written :: "valueOp \<Rightarrow> bytes option" where
  "written v = (if voOp v = opDelete then None else Some (voValue v))"

lemma txn_write_written: "txn_write pre ver v = (pre @ voKey v, written v, ver)"
  by (simp add: txn_write_def written_def split: txnOp.split)

lemma applyBatch_append: "applyBatch (xs @ ys) m = applyBatch ys (applyBatch xs m)"
  by (simp add: applyBatch_def)

lemma applyBatch_other:
  "(\<And>v. v \<in> set l \<Longrightarrow> q \<noteq> pre @ voKey v) \<Longrightarrow> applyBatch (map (txn_write pre ver) l) m q = m q"
  by (induction l arbitrary: m) (auto simp: applyBatch_def txn_write_written)

lemma applyBatch_same:
  "distinct (map voKey l) \<Longrightarrow> v \<in> set l \<Longrightarrow> applyBatch (map (txn_write pre ver) l) m (pre @ voKey v) = written v"
proof (induction l arbitrary: m)
  case (Cons a l)
  show ?case
  proof (cases "v = a")
    case True
    have "applyBatch (map (txn_write pre ver) l) m' (pre @ voKey a) = m' (pre @ voKey a)" for m'
      by (rule applyBatch_other) (use Cons.prems(1) in \<open>auto simp: image_iff\<close>)
    moreover have "applyBatch (map (txn_write pre ver) (a # l)) m = applyBatch (map (txn_write pre ver) l) (m(pre @ voKey a := written a))"
      by (simp add: applyBatch_def txn_write_written)
    ultimately show ?thesis using True by simp
  qed (use Cons in \<open>auto simp: applyBatch_def txn_write_written\<close>)
qed simp

lemma ops_distinct:
  assumes "txnOk H K t" and "mset l = mset (map snd (tnOps t))"
  shows "distinct (map voKey l)" and "set l = snd ` set (tnOps t)"
proof -
  have tok: "tok (tnOps t)" using assms(1) by (simp add: txnOk_def)
  have h: "fst e = H (voKey (snd e))" if "e \<in> set (tnOps t)" for e
    using assms(1) that in_tget [OF tok, of "fst e" "snd e"] by (simp add: txnOk_def)
  have "distinct (map fst (tnOps t))" using tok by (simp add: tok_distinct)
  then have "distinct (map (voKey \<circ> snd) (tnOps t))" using h by (auto simp: distinct_map inj_on_def)
  moreover have "mset (map voKey l) = mset (map (voKey \<circ> snd) (tnOps t))" using assms(2) by (metis map_map mset_map)
  ultimately show "distinct (map voKey l)" by (metis distinct_count_atmost_1 set_mset_mset)
  show "set l = snd ` set (tnOps t)" using mset_eq_setD [OF assms(2)] by simp
qed

lemma state_prefixes: "latestStatePrefix @ a \<noteq> historicStatePrefix @ b"
  by (simp add: latestStatePrefix_def historicStatePrefix_def JoinLenPrefix_def)

lemma two_orders:
  assumes "mset l = mset [a, b]"
  shows "l = [a, b] \<or> l = rev [a, b]"
proof -
  have "length l = 2" using assms by (metis length_Cons list.size(3) mset_eq_length numeral_2_eq_2)
  then obtain x y where "l = [x, y]" by (auto simp: numeral_2_eq_2 length_Suc_conv)
  with assms show ?thesis by (auto simp: add_eq_conv_ex)
qed

lemma commit_view:
  fixes order :: "valueOp list \<Rightarrow> valueOp list" and order' :: "(u64 \<times> bytes) list \<Rightarrow> (u64 \<times> bytes) list"
  assumes ok: "txnOk H K t" and inj: "inj_on H K" and st: "tnState t" "tnPrefix t = latestStatePrefix" "tnWriteVersion t \<noteq> lssVersion"
    and order: "\<And>l. mset (order l) = mset l" "\<And>vs. mset (order' vs) = mset vs" and k: "k \<in> K"
  defines "b \<equiv> fst (Txn_Commit order order' t)"
  shows "applyBatch b reader (latestStatePrefix @ k) = Txn_Get H reader t k"
    and "Txn_Get H (applyBatch b reader) (snd (Txn_Commit order order' t)) k = Txn_Get H reader t k"
proof -
  let ?l = "order (map snd (tnOps t))"
  note ops = ops_distinct [OF ok order(1)]
  have historic: "applyBatch (txn_flush order historicStatePrefix ver t) m (latestStatePrefix @ k) = m (latestStatePrefix @ k)" for ver m
    unfolding txn_flush_def by (rule applyBatch_other) (rule state_prefixes)
  have latest: "applyBatch (txn_flush order latestStatePrefix ver t) m (latestStatePrefix @ k) =
      (case tget (tnOps t) (H k) of Some v \<Rightarrow> written v | None \<Rightarrow> m (latestStatePrefix @ k))" for ver m
  proof (cases "tget (tnOps t) (H k)")
    case (Some v)
    then have "voKey v = k" "v \<in> set ?l" using ok inj k tget_in [OF Some] ops(2) by (auto simp: txnOk_def dest: inj_onD intro: rev_image_eqI)
    with applyBatch_same [OF ops(1), of v latestStatePrefix ver m] Some show ?thesis by (simp add: txn_flush_def)
  next
    case None
    have "latestStatePrefix @ k \<noteq> latestStatePrefix @ voKey v" if v: "v \<in> set ?l" for v
    proof
      assume "latestStatePrefix @ k = latestStatePrefix @ voKey v"
      moreover obtain h where "(h, v) \<in> set (tnOps t)" using v ops(2) by auto
      then have "tget (tnOps t) h = Some v" using ok in_tget by (auto simp: txnOk_def)
      ultimately show False using ok None by (auto simp: txnOk_def)
    qed
    then show ?thesis using None applyBatch_other [of ?l "latestStatePrefix @ k" latestStatePrefix] by (simp add: txn_flush_def)
  qed
  let ?two = "[(lssVersion, latestStatePrefix), (tnWriteVersion t, historicStatePrefix)]"
  have "flushTo t = ?two" using st by (simp add: flushTo_def)
  moreover have "order' ?two = ?two \<or> order' ?two = rev ?two"
    using order(2) [of ?two] by (intro two_orders) simp
  ultimately show view: "applyBatch b reader (latestStatePrefix @ k) = Txn_Get H reader t k"
    unfolding b_def Txn_Commit_def
    by (auto simp: applyBatch_append historic latest Txn_Get_def st(2) written_def split: option.split)
  show "Txn_Get H (applyBatch b reader) (snd (Txn_Commit order order' t)) k = Txn_Get H reader t k"
    using view by (simp add: Txn_Commit_def Discard_def Txn_Get_def [of H "applyBatch b reader"] st(2) tget_def)
qed

section \<open>Properties\<close>

lemma NewTxn_view:
  "txnOk H K (NewTxn pp st srt ver)" "Txn_Get H reader (NewTxn pp st srt ver) k = reader (pp @ k)"
  "tnPrefix (NewTxn pp st srt ver) = pp" "tnSort (NewTxn pp st srt ver) = srt" "tnState (NewTxn pp st srt ver) = st"
  "tnWriteVersion (NewTxn pp st srt ver) = ver"
  by (simp_all add: NewTxn_def txnOk_def Txn_Get_def tget_def)

text \<open>
  C7: A store transaction behaves as a map. After any sequence of writes, reading a key gives what a map over the parent
  would give, and iterating a prefix, in either direction, visits exactly the entries of that map with the prefix, once each and in
  order, the parent's entries and the writes merged and the deletions left out. The hash must not collide on the
  keys in use, and keys have at most 256 bytes.
\<close>

theorem txn_refines_map:
  assumes inj: "inj_on H K" and keys: "\<forall>k \<in> K. k \<noteq> [] \<and> length k \<le> 256" and calls: "callKey ` set calls \<subseteq> K"
    and reader: "\<forall>k v. reader (pp @ k) = Some v \<longrightarrow> k \<in> K" and parent: "parentLists r pp pre reader parent"
    and t: "t = runCalls H calls (NewTxn pp st True ver)" and m: "m = specCalls calls (\<lambda>k. reader (pp @ k))"
  shows "(\<forall>k \<in> K. Txn_Get H reader t k = m k) \<and>
    (\<exists>l. collect (Suc (length parent + length (tnSorted t))) (newTxnIterator parent t pre pp r) = Some l \<and> sorted_wrt (before r) (map fst l) \<and>
      set l = {(k, v). k \<in> K \<and> hasPrefix pre k \<and> m k = Some v})"
proof -
  have ok: "txnOk H K t" "tnPrefix t = pp" "tnSort t" "\<forall>k \<in> K. Txn_Get H reader t k = m k"
    using runCalls_ok [OF inj calls NewTxn_view(1), of reader pp st True ver "\<lambda>k. reader (pp @ k)"] by (simp_all add: t m NewTxn_view)
  from iterate_view [OF ok(1) inj ok(3) keys, of r pre reader parent "Suc (length parent + length (tnSorted t))"] parent reader ok(2)
  obtain l where "collect (Suc (length parent + length (tnSorted t))) (newTxnIterator parent t pre pp r) = Some l" "sorted_wrt (before r) (map fst l)"
    "set l = {(k, v). k \<in> K \<and> hasPrefix pre k \<and> Txn_Get H reader t k = Some v}" by auto
  moreover have "{(k, v). k \<in> K \<and> hasPrefix pre k \<and> Txn_Get H reader t k = Some v} = {(k, v). k \<in> K \<and> hasPrefix pre k \<and> m k = Some v}"
    using ok(4) by auto
  ultimately show ?thesis using ok(4) by auto
qed

text \<open>
  C19: Committing writes the map. In whatever order Go ranges over the operations and the two state prefixes, applying the
  batch of a state transaction to the store leaves under the latest-state prefix what the map says, and the
  emptied transaction reads the same as before; a discarded one reads the old store.
\<close>

theorem txn_commit_writes_map:
  fixes order :: "valueOp list \<Rightarrow> valueOp list" and order' :: "(u64 \<times> bytes) list \<Rightarrow> (u64 \<times> bytes) list"
  assumes inj: "inj_on H K" and calls: "callKey ` set calls \<subseteq> K" and k: "k \<in> K" and ver: "ver \<noteq> lssVersion"
    and order: "\<And>l. mset (order l) = mset l" "\<And>l. mset (order' l) = mset l"
    and t: "t = runCalls H calls (NewTxn latestStatePrefix True srt ver)"
    and commit: "Txn_Commit order order' t = (batch, t')"
  shows "applyBatch batch reader (latestStatePrefix @ k) = specCalls calls (\<lambda>k. reader (latestStatePrefix @ k)) k \<and>
    Txn_Get H (applyBatch batch reader) t' k = specCalls calls (\<lambda>k. reader (latestStatePrefix @ k)) k \<and>
    Txn_Get H reader (Discard t) k = reader (latestStatePrefix @ k)"
proof -
  have ok: "txnOk H K t" "tnPrefix t = latestStatePrefix" "tnState t" "tnWriteVersion t = ver"
    "Txn_Get H reader t k = specCalls calls (\<lambda>k. reader (latestStatePrefix @ k)) k"
    using runCalls_ok [OF inj calls NewTxn_view(1), of reader latestStatePrefix True srt ver "\<lambda>k. reader (latestStatePrefix @ k)"] k
    by (simp_all add: t NewTxn_view)
  have "Txn_Get H reader (Discard t) k = reader (latestStatePrefix @ k)" by (simp add: Discard_def Txn_Get_def ok(2) tget_def)
  with commit_view [OF ok(1) inj ok(3,2) _ order k, of reader] ok(4,5) ver commit show ?thesis by simp
qed

section \<open>An example transaction\<close>

definition exampleHash :: "bytes \<Rightarrow> u64" where
  "exampleHash k = (case k of [] \<Rightarrow> 0 | b # _ \<Rightarrow> ucast b)"

definition exampleParent :: parentStore where
  "exampleParent = [latestStatePrefix @ [1] \<mapsto> [10], latestStatePrefix @ [3] \<mapsto> [30]]"

definition exampleCalls :: "txnCall list" where
  "exampleCalls = [CallSet [2] [20], CallDelete [3], CallSet [4] [40], CallSet [2] [21]]"

definition exampleKeys :: "bytes set" where
  "exampleKeys = {[1], [2], [3], [4]}"

definition exampleView :: "bytes \<rightharpoonup> bytes" where
  "exampleView = specCalls exampleCalls (\<lambda>k. exampleParent (latestStatePrefix @ k))"

lemma example_hash: "inj_on exampleHash exampleKeys"
  by (simp add: exampleKeys_def exampleHash_def)

lemma example_parent: "exampleParent (latestStatePrefix @ k) = (if k = [3] then Some [30] else if k = [1] then Some [10] else None)"
  by (simp add: exampleParent_def)

lemma example_view: "exampleView k = (if k = [2] then Some [21] else if k = [4] then Some [40] else if k = [1] then Some [10] else None)"
  by (simp add: exampleView_def specCalls_def exampleCalls_def example_parent)

lemma example_lists: "parentLists True latestStatePrefix [] exampleParent [(latestStatePrefix @ [3], [30]), (latestStatePrefix @ [1], [10])]"
proof -
  have "exampleParent (latestStatePrefix @ k) = Some v \<longleftrightarrow> (k, v) \<in> {([3], [30]), ([1], [10])}" for k v
    unfolding example_parent by simp blast
  then have "{(latestStatePrefix @ k, v) | k v. hasPrefix [] k \<and> exampleParent (latestStatePrefix @ k) = Some v} =
      (\<lambda>(k, v). (latestStatePrefix @ k, v)) ` {([3], [30]), ([1], [10])}"
    by (simp only: hasPrefix_def) fastforce
  then show ?thesis by (simp add: parentLists_def before_def append_less)
qed

theorem txn_refines_map_witness:
  "\<exists>l. collect 6 (newTxnIterator [(latestStatePrefix @ [3], [30]), (latestStatePrefix @ [1], [10])]
      (runCalls exampleHash exampleCalls (NewTxn latestStatePrefix True True 7)) [] latestStatePrefix True) = Some l \<and>
     sorted_wrt (before True) (map fst l) \<and> set l = {([1], [10]), ([2], [21]), ([4], [40])}"
proof -
  let ?t = "runCalls exampleHash exampleCalls (NewTxn latestStatePrefix True True 7)"
  have keys: "\<forall>k \<in> exampleKeys. k \<noteq> [] \<and> length k \<le> 256" "callKey ` set exampleCalls \<subseteq> exampleKeys"
      "\<forall>k v. exampleParent (latestStatePrefix @ k) = Some v \<longrightarrow> k \<in> exampleKeys"
    by (auto simp: exampleKeys_def exampleCalls_def example_parent split: if_splits)
  have sorted: "length (tnSorted ?t) = 3"
    by (simp add: runCalls_def exampleCalls_def Txn_Set_def Txn_Delete_def NewTxn_def txn_update_def addToSorted_def exampleHash_def tget_def)
  have "{(k, v). k \<in> exampleKeys \<and> hasPrefix [] k \<and> exampleView k = Some v} = {([1], [10]), ([2], [21]), ([4], [40])}"
    by (auto simp: exampleKeys_def hasPrefix_def example_view split: if_splits)
  with txn_refines_map [OF example_hash keys example_lists refl exampleView_def, of True 7] sorted show ?thesis
    by (simp add: numeral_eq_Suc)
qed

theorem txn_commit_writes_map_witness:
  "\<exists>batch t'. Txn_Commit rev rev (runCalls exampleHash exampleCalls (NewTxn latestStatePrefix True True 7)) = (batch, t') \<and>
     applyBatch batch exampleParent (latestStatePrefix @ [2]) = Some [21] \<and> Txn_Get exampleHash (applyBatch batch exampleParent) t' [2] = Some [21]"
proof -
  let ?t = "runCalls exampleHash exampleCalls (NewTxn latestStatePrefix True True 7)"
  obtain batch t' where commit: "Txn_Commit rev rev ?t = (batch, t')" by (cases "Txn_Commit rev rev ?t")
  have keys: "callKey ` set exampleCalls \<subseteq> exampleKeys" "[2] \<in> exampleKeys" "(7 :: u64) \<noteq> lssVersion"
    by (auto simp: exampleKeys_def exampleCalls_def lssVersion_def MaxUint64_def)
  from txn_commit_writes_map [OF example_hash keys(1,2,3) _ _ refl commit, of exampleParent] commit show ?thesis
    using example_view [of "[2]"] by (simp add: exampleView_def)
qed

end
