(* ===== verification/NodeKeys.thy ===== *)
theory NodeKeys
  imports Keys "HOL-Library.Sublist"
begin

unbundle bit_operations_syntax

text \<open>
  The keys of the sparse Merkle tree (\<open>store/smt.go\<close>, part NODE KEY): bit strings of any length as bytes. The last data
  byte holds the remaining bits aligned to the right, and a further byte holds the number of zeros before its first
  one. The fields \<open>bitCount\<close> and \<open>length\<close> of the Go structure cache what \<open>totalBits\<close> and \<open>size\<close> compute from the
  bytes, so a key is its bytes; the key without bytes is the empty prefix.
\<close>

section \<open>Operations on keys\<close>

definition Len8 :: "byte \<Rightarrow> nat" where
  "Len8 b = length (dropWhile Not (map (bit b) (rev [0..<8])))"

definition LeadingZeros8 :: "byte \<Rightarrow> nat" where
  "LeadingZeros8 b = 8 - Len8 b"

definition newNodeKey :: "bytes \<Rightarrow> nat \<Rightarrow> bytes" where
  "newNodeKey data bitCount =
     (let numBytes = (bitCount + 7) div 8;
          k = take numBytes (data @ replicate numBytes 0);
          lastByteBits = (if bitCount mod 8 = 0 \<and> 0 < bitCount then 8 else bitCount mod 8);
          b = drop_bit (8 - lastByteBits) (k ! (numBytes - 1));
          leftPadding = LeadingZeros8 b - (8 - lastByteBits)
      in k[numBytes - 1 := b] @ [word_of_nat (if b = 0 then leftPadding - 1 else leftPadding)])"

definition totalBits :: "bytes \<Rightarrow> nat" where
  "totalBits k = (if k = [] then 0
     else (length k - 2) * 8 + unat (last k) + max 1 (Len8 (k ! (length k - 2))))"

text \<open>The bit at a position within the key, \<open>True\<close> for one.\<close>

definition bitAt :: "bytes \<Rightarrow> nat \<Rightarrow> bool" where
  "bitAt k bitPos =
     (let byteIndex = bitPos div 8; byt = k ! byteIndex; pos = bitPos mod 8 in
      if byteIndex \<noteq> length k - 2 then bit byt (7 - pos)
      else let leftPadding = unat (last k) in
        if leftPadding = 0 \<and> byt = 0 \<or> pos < leftPadding then False
        else let lastByteBitsCount = (totalBits k - 1) mod 8 + 1 in bit byt (lastByteBitsCount - pos - 1))"

definition addBit :: "bool \<Rightarrow> bytes \<Rightarrow> bytes" where
  "addBit b k =
     (let bitCount = totalBits k; k0 = (if k = [] then [0, 0] else k); size = length k0;
          bitPos = (if bitCount mod 8 = 0 \<and> bitCount \<noteq> 0 then 8 else bitCount mod 8);
          lastByte = k0 ! (size - 2); padding = unat (last k0);
          leftPadding = (if bitCount \<noteq> 0 \<and> lastByte = 0 then padding + 1 else padding)
      in if bitPos = 8 then butlast k0 @ [of_bool b, 0]
         else k0[size - 2 := push_bit 1 lastByte OR of_bool b, size - 1 := word_of_nat leftPadding])"

function greatestCommonPrefix :: "bytes \<Rightarrow> bytes \<Rightarrow> nat \<times> bytes \<Rightarrow> nat \<times> bytes" where
  "greatestCommonPrefix k current (bitPos, gcp) =
     (if bitPos < totalBits current \<and> bitAt k bitPos = bitAt current bitPos
      then greatestCommonPrefix k current (bitPos + 1, addBit (bitAt k bitPos) gcp)
      else (bitPos, gcp))"
  by pat_completeness auto
termination by (relation "measure (\<lambda>(k, current, bitPos, gcp). totalBits current - bitPos)") auto

declare greatestCommonPrefix.simps [simp del]

fun cmpBits :: "bytes \<Rightarrow> bytes \<Rightarrow> nat list \<Rightarrow> int" where
  "cmpBits k k2 [] = 0"
| "cmpBits k k2 (i # is) =
     (if \<not> bitAt k i \<and> bitAt k2 i then - 1 else if bitAt k i \<and> \<not> bitAt k2 i then 1 else cmpBits k k2 is)"

definition key_cmp :: "bytes \<Rightarrow> bytes \<Rightarrow> int" where
  "key_cmp k k2 =
     (let fullBytes = totalBits k2 div 8; a = take fullBytes k; b = take fullBytes k2 in
      if 0 < fullBytes \<and> a \<noteq> b then (if a < b then - 1 else 1)
      else cmpBits k k2 [fullBytes * 8..<totalBits k2])"

section \<open>Bit strings\<close>

declare dropWhile_eq_Nil_conv [simp del]

definition val :: "bool list \<Rightarrow> byte" where
  "val b = horner_sum of_bool 2 (rev b)"

definition pad :: "bool list \<Rightarrow> byte" where
  "pad b = word_of_nat (length b - max 1 (length (dropWhile Not b)))"

fun enc :: "bool list \<Rightarrow> bytes" where
  "enc b = (if length b \<le> 8 then [val b, pad b] else val (take 8 b) # enc (drop 8 b))"

declare enc.simps [simp del]

definition byteBits :: "byte \<Rightarrow> bool list" where
  "byteBits w = map (bit w) (rev [0..<8])"

lemma bit_val: "length b \<le> 8 \<Longrightarrow> bit (val b) i \<longleftrightarrow> i < length b \<and> b ! (length b - 1 - i)"
  by (auto simp: val_def bit_horner_sum_bit_word_iff rev_nth)

lemma byteBits_val:
  assumes "length b \<le> 8"
  shows "byteBits (val b) = replicate (8 - length b) False @ b"
proof (rule nth_equalityI)
  show "length (byteBits (val b)) = length (replicate (8 - length b) False @ b)" using assms by (simp add: byteBits_def)
  fix i assume "i < length (byteBits (val b))"
  then have i: "i < 8" by (simp add: byteBits_def)
  have "length b - 1 - (7 - i) = i - (8 - length b)" using i assms by arith
  then show "byteBits (val b) ! i = (replicate (8 - length b) False @ b) ! i"
    using i assms by (auto simp: byteBits_def bit_val rev_nth nth_append)
qed

lemma val_byteBits: "val (byteBits w) = w"
  by (rule bit_word_eqI) (simp add: bit_val byteBits_def rev_nth)

lemma dropWhile_zeros: "dropWhile Not (replicate n False @ b) = dropWhile Not b"
  by (induction n) auto

lemma Len8_val: "length b \<le> 8 \<Longrightarrow> Len8 (val b) = length (dropWhile Not b)"
  unfolding Len8_def byteBits_def [symmetric] by (simp add: byteBits_val dropWhile_zeros)

lemma dropWhile_pos: "i < length b \<Longrightarrow> i < length b - length (dropWhile Not b) \<Longrightarrow> \<not> b ! i"
  by (induction b arbitrary: i) (auto simp: nth_Cons split: nat.splits if_splits)

lemma val_eq_0:
  assumes "length b \<le> 8"
  shows "val b = 0 \<longleftrightarrow> dropWhile Not b = []"
proof
  assume "val b = 0"
  then have "byteBits (val b) = replicate 8 False" by (simp add: byteBits_def upt_rec eval_nat_numeral)
  then have "dropWhile Not (replicate (8 - length b) False @ b) = []" using assms by (simp add: byteBits_val)
  then show "dropWhile Not b = []" by (simp add: dropWhile_zeros)
next
  assume "dropWhile Not b = []"
  then have zero: "\<not> b ! i" if "i < length b" for i using that dropWhile_pos [of i b] by simp
  have "\<not> b ! (length b - 1 - n)" if "n < length b" for n using that by (intro zero) arith
  then have "\<not> bit (val b) n" for n unfolding bit_val [OF assms] by blast
  then show "val b = 0" by (intro bit_word_eqI) simp
qed

lemma val_append: "length b < 8 \<Longrightarrow> val (b @ [x]) = push_bit 1 (val b) OR of_bool x"
  by (rule bit_word_eqI, unfold bit_or_iff bit_push_bit_iff) (auto simp: bit_val nth_append bit_1_iff)

lemma unat_pad: "length b \<le> 8 \<Longrightarrow> unat (pad b) = length b - max 1 (length (dropWhile Not b))"
  by (simp add: pad_def unat_of_nat take_bit_eq_mod)

lemma enc_short: "length b \<le> 8 \<Longrightarrow> enc b = [val b, pad b]"
  by (subst enc.simps) simp

lemma enc_long: "8 < length b \<Longrightarrow> enc b = val (take 8 b) # enc (drop 8 b)"
  by (subst enc.simps) simp

lemma enc_induct [consumes 1, case_names short long]:
  assumes "b \<noteq> []" and "\<And>b. b \<noteq> [] \<Longrightarrow> length b \<le> 8 \<Longrightarrow> P b" and "\<And>b. 8 < length b \<Longrightarrow> P (drop 8 b) \<Longrightarrow> P b"
  shows "P b"
  using assms(1)
proof (induction b rule: length_induct)
  case (1 b)
  show ?case
  proof (cases "length b \<le> 8")
    case False
    with 1 have "P (drop 8 b)" by (simp add: not_le)
    with False show ?thesis by (simp add: assms(3))
  qed (use 1 in \<open>simp add: assms(2)\<close>)
qed

lemma length_enc: "b \<noteq> [] \<Longrightarrow> length (enc b) = Suc ((length b + 7) div 8)"
proof (induction b rule: enc_induct)
  case (short b)
  then have "(length b + 7) div 8 = 1" by (cases b) auto
  with short show ?case by (simp add: enc_short)
next
  case (long b)
  then have len: "length b + 7 = (length (drop 8 b) + 7) + 8" by simp
  have "(length b + 7) div 8 = Suc ((length (drop 8 b) + 7) div 8)" unfolding len by simp
  moreover have "length (enc b) = Suc (length (enc (drop 8 b)))" using long(1) by (simp add: enc_long)
  ultimately show ?case using long(2) by (simp only:)
qed

lemma enc_nonempty [simp]: "enc b \<noteq> []"
  by (subst enc.simps) simp

lemma enc_tail: "8 < length b \<Longrightarrow> \<exists>n. length (enc (drop 8 b)) = Suc (Suc n)"
proof -
  assume "8 < length b"
  then have "0 < (length (drop 8 b) + 7) div 8" "drop 8 b \<noteq> []" by auto
  then show ?thesis using length_enc [of "drop 8 b"] by (metis gr0_conv_Suc)
qed

lemma totalBits_Cons: "length k = Suc (Suc n) \<Longrightarrow> totalBits (w # k) = totalBits k + 8"
  by (auto simp: totalBits_def)

lemma totalBits_enc: "b \<noteq> [] \<Longrightarrow> totalBits (enc b) = length b"
proof (induction b rule: enc_induct)
  case (short b)
  have "length (dropWhile Not b) \<le> length b" by (rule length_dropWhile_le)
  moreover have "1 \<le> length b" using short by (cases b) auto
  ultimately show ?case using short by (simp add: totalBits_def enc_short Len8_val unat_pad)
next
  case (long b)
  obtain n where "length (enc (drop 8 b)) = Suc (Suc n)" using enc_tail long(1) by blast
  then show ?case using long totalBits_Cons by (simp add: enc_long)
qed

lemma bitAt_Cons:
  assumes "length k = Suc (Suc n)" and "0 < totalBits k"
  shows "bitAt (w # k) i = (if i < 8 then bit w (7 - i) else bitAt k (i - 8))"
proof (cases "i < 8")
  case False
  then obtain j where i: "i = j + 8" by (metis add.commute le_add_diff_inverse not_less)
  have "(totalBits k + 8 - 1) mod 8 = (totalBits k - 1) mod 8" using assms(2) by (cases "totalBits k") auto
  moreover have "k \<noteq> []" "(j + 8) div 8 = Suc (j div 8)" using assms(1) by auto
  ultimately show ?thesis using totalBits_Cons [OF assms(1), of w] by (simp add: bitAt_def i assms(1) Let_def)
qed (simp add: bitAt_def assms(1))

lemma bitAt_enc: "b \<noteq> [] \<Longrightarrow> i < length b \<Longrightarrow> bitAt (enc b) i = b ! i"
proof (induction b arbitrary: i rule: enc_induct)
  case (short b)
  let ?d = "length (dropWhile Not b)"
  have d: "?d \<le> length b" by (rule length_dropWhile_le)
  have one: "1 \<le> length b" using short by (cases b) auto
  have pos: "i div 8 = 0" "i mod 8 = i" "(length b - Suc 0) mod 8 = length b - 1" using short by auto
  consider "?d = 0" "length b = 1" | "i < length b - max 1 ?d" | "\<not> (?d = 0 \<and> length b = 1)" "length b - max 1 ?d \<le> i" by linarith
  then show ?case
  proof cases
    case 1
    then have "unat (pad b) = 0" "val b = 0" using short by (simp_all add: unat_pad val_eq_0)
    moreover have "\<not> b ! i" using 1 short by (intro dropWhile_pos) auto
    ultimately show ?thesis using short pos by (simp add: bitAt_def enc_short)
  next
    case 2
    then have "\<not> b ! i" using short d by (intro dropWhile_pos) auto
    with 2 short pos show ?thesis by (simp add: bitAt_def enc_short unat_pad)
  next
    case 3
    have "\<not> (unat (pad b) = 0 \<and> val b = 0)"
    proof
      assume "unat (pad b) = 0 \<and> val b = 0"
      then have zero: "unat (pad b) = 0" "?d = 0" using short(2) by (simp_all add: val_eq_0)
      then have "length b \<le> 1" using unat_pad [OF short(2)] by linarith
      with one 3(1) zero(2) show False by linarith
    qed
    then show ?thesis using 3 short pos totalBits_enc [of b]
      by (auto simp: bitAt_def Let_def enc_short unat_pad bit_val)
  qed
next
  case (long b)
  obtain n where n: "length (enc (drop 8 b)) = Suc (Suc n)" using enc_tail long(1) by blast
  have "0 < totalBits (enc (drop 8 b))" using long(1) by (simp add: totalBits_enc)
  with n have "bitAt (enc b) i = (if i < 8 then bit (val (take 8 b)) (7 - i) else bitAt (enc (drop 8 b)) (i - 8))"
    using long(1) by (simp add: enc_long bitAt_Cons)
  then show ?case using long by (auto simp: bit_val)
qed

lemma pad_append:
  assumes "length b < 8" and "b \<noteq> []"
  shows "pad (b @ [x]) = word_of_nat (if val b = 0 then unat (pad b) + 1 else unat (pad b))"
proof -
  have d: "length (dropWhile Not b) \<le> length b" by (rule length_dropWhile_le)
  show ?thesis
  proof (cases "dropWhile Not b = []")
    case True
    then have "\<forall>y \<in> set b. \<not> y" by (simp only: dropWhile_eq_Nil_conv)
    then have "dropWhile Not (b @ [x]) = (if x then [x] else [])" by (induction b) auto
    moreover obtain n where "length b = Suc n" using assms(2) by (cases b) auto
    ultimately show ?thesis using True assms by (simp add: pad_def unat_pad val_eq_0)
  next
    case False
    then have "dropWhile Not (b @ [x]) = dropWhile Not b @ [x]" by (induction b) (auto split: if_splits)
    moreover have "1 \<le> length (dropWhile Not b)" using False by (cases "dropWhile Not b") auto
    ultimately show ?thesis using False assms d by (simp add: pad_def unat_pad val_eq_0)
  qed
qed

lemma addBit_Cons:
  assumes "length k = Suc (Suc n)" and "0 < totalBits k"
  shows "addBit x (w # k) = w # addBit x k"
proof -
  have "k \<noteq> []" using assms(1) by auto
  then show ?thesis using assms by (simp add: addBit_def Let_def totalBits_Cons list_update_append)
qed

lemma addBit_enc: "b \<noteq> [] \<Longrightarrow> addBit x (enc b) = enc (b @ [x])"
proof (induction b rule: enc_induct)
  case (short b)
  show ?case
  proof (cases "length b = 8")
    case True
    have "val [x] = of_bool x" "pad [x] = 0" by (simp_all add: val_def pad_def)
    with True short show ?thesis using totalBits_enc [of b]
      by (simp add: addBit_def Let_def enc_short enc_long [of "b @ [x]"])
  next
    case False
    then have "length b < 8" using short by simp
    with short show ?thesis using totalBits_enc [of b]
      by (simp add: addBit_def Let_def enc_short val_append pad_append)
  qed
next
  case (long b)
  obtain n where n: "length (enc (drop 8 b)) = Suc (Suc n)" using enc_tail long(1) by blast
  moreover have "0 < totalBits (enc (drop 8 b))" using long(1) by (simp add: totalBits_enc)
  ultimately show ?case using long addBit_Cons [OF n] by (simp add: enc_long)
qed

lemma addBit_Nil: "addBit x [] = enc [x]"
  by (simp add: addBit_def totalBits_def enc_short val_def pad_def)

text \<open>The empty key stands for the empty prefix.\<close>

definition prefixKey :: "bool list \<Rightarrow> bytes" where
  "prefixKey b = (if b = [] then [] else enc b)"

lemma addBit_prefixKey: "addBit x (prefixKey b) = prefixKey (b @ [x])"
  by (simp add: prefixKey_def addBit_Nil addBit_enc)

lemma enc_inject:
  assumes "b \<noteq> []" and "c \<noteq> []"
  shows "enc b = enc c \<longleftrightarrow> b = c"
proof
  assume eq: "enc b = enc c"
  then have "length b = length c" using assms totalBits_enc by metis
  moreover have "b ! i = c ! i" if "i < length b" for i using that eq assms calculation bitAt_enc by metis
  ultimately show "b = c" by (rule nth_equalityI)
qed simp

section \<open>Keys made from data\<close>

definition dataBits :: "bytes \<Rightarrow> bool list" where
  "dataBits data = concat (map byteBits data)"

lemma dataBits_Cons: "dataBits (w # ds) = byteBits w @ dataBits ds" "length (byteBits w) = 8"
  by (simp_all add: dataBits_def byteBits_def)

lemma val_take_byte:
  assumes "n \<le> 8"
  shows "val (take n (byteBits w)) = drop_bit (8 - n) w"
proof (rule bit_word_eqI)
  fix i assume i: "i < LENGTH(8)"
  show "bit (val (take n (byteBits w))) i = bit (drop_bit (8 - n) w) i"
  proof (cases "i < n")
    case True
    then have "8 + i - n < 8" "8 - Suc (n - Suc i) = 8 + i - n" using assms by arith+
    with True assms show ?thesis by (simp add: bit_val byteBits_def bit_drop_bit_eq rev_nth)
  next
    case False
    then have "\<not> bit w (8 - n + i)" using assms bit_imp_le_length [of w "8 - n + i"] by auto
    with False assms show ?thesis by (simp add: bit_val byteBits_def bit_drop_bit_eq)
  qed
qed

lemma newNodeKey_short:
  assumes "0 < n" "n \<le> 8"
  shows "newNodeKey (w # ds) n = enc (take n (byteBits w))"
proof -
  let ?b = "take n (byteBits w)"
  have len: "length ?b = n" using assms by (simp add: dataBits_Cons)
  have one: "(n + 7) div 8 = 1" using assms by simp
  have bits: "(if n mod 8 = 0 \<and> 0 < n then 8 else n mod 8) = n" using assms by (cases "n = 8") auto
  let ?d = "length (dropWhile Not ?b)"
  have v: "drop_bit (8 - n) w = val ?b" using assms by (simp add: val_take_byte)
  have zeros: "LeadingZeros8 (val ?b) - (8 - n) = n - ?d" using assms len by (simp add: LeadingZeros8_def Len8_val)
  have "word_of_nat (if val ?b = 0 then n - ?d - 1 else n - ?d) = pad ?b"
    using assms len by (cases "?d") (auto simp: pad_def val_eq_0)
  moreover have "take 1 ((w # ds) @ replicate 1 0) = [w]" by simp
  ultimately show ?thesis unfolding newNodeKey_def Let_def bits one using assms len
    by (simp only: diff_self_eq_0 nth_Cons_0 v zeros) (simp add: enc_short)
qed

lemma newNodeKey_Cons:
  assumes "8 < n" and "n \<le> 8 * Suc (length ds)"
  shows "newNodeKey (w # ds) n = w # newNodeKey ds (n - 8)"
proof -
  obtain m where n: "n = m + 8" "0 < m" using assms(1) by (metis add.commute less_imp_add_positive)
  have "(n + 7) div 8 = Suc ((m + 7) div 8)" "n mod 8 = m mod 8" unfolding n by simp_all
  moreover obtain j where "(m + 7) div 8 = Suc j" using n(2) by (cases "(m + 7) div 8") auto
  moreover have "(m + 7) div 8 \<le> length ds" using assms(2) n by simp
  ultimately show ?thesis using n by (simp add: newNodeKey_def Let_def)
qed

lemma newNodeKey_enc: "0 < n \<Longrightarrow> n \<le> 8 * length data \<Longrightarrow> newNodeKey data n = enc (take n (dataBits data))"
proof (induction data arbitrary: n)
  case (Cons w ds)
  show ?case
  proof (cases "n \<le> 8")
    case True
    with Cons.prems show ?thesis by (simp add: newNodeKey_short dataBits_Cons)
  next
    case False
    have "newNodeKey ds (n - 8) = enc (take (n - 8) (dataBits ds))" using Cons False by auto
    moreover have "length (dataBits ds) = 8 * length ds" by (induction ds) (simp_all add: dataBits_Cons, simp add: dataBits_def)
    ultimately show ?thesis using Cons.prems False by (simp add: newNodeKey_Cons dataBits_Cons enc_long val_byteBits)
  qed
qed simp

section \<open>Common prefixes and order\<close>

abbreviation lcp :: "bool list \<Rightarrow> bool list \<Rightarrow> bool list" where
  "lcp \<equiv> longest_common_prefix"

lemma lcp_stop: "take i t = take i c \<Longrightarrow> i < length t \<Longrightarrow> i < length c \<Longrightarrow> t ! i \<noteq> c ! i \<Longrightarrow> lcp t c = take i t"
proof (induction t c arbitrary: i rule: longest_common_prefix.induct)
  case (1 x xs y ys)
  then show ?case by (cases i) auto
qed auto

lemma lcp_whole: "take (length c) t = c \<Longrightarrow> lcp t c = c"
  by (induction t c rule: longest_common_prefix.induct) auto

lemma greatestCommonPrefix_enc:
  assumes "t \<noteq> []" "c \<noteq> []" "length c \<le> length t"
  shows "i \<le> length c \<Longrightarrow> take i t = take i c \<Longrightarrow>
    greatestCommonPrefix (enc t) (enc c) (i, prefixKey (take i t)) = (length (lcp t c), prefixKey (lcp t c))"
proof (induction "length c - i" arbitrary: i)
  case 0
  then show ?case using assms lcp_whole [of c t] by (subst greatestCommonPrefix.simps) (simp add: totalBits_enc)
next
  case (Suc n)
  then have i: "i < length c" by simp
  have bits: "bitAt (enc t) i = t ! i" "bitAt (enc c) i = c ! i" using assms i by (simp_all add: bitAt_enc)
  show ?case
  proof (cases "t ! i = c ! i")
    case True
    then have "take (Suc i) t = take (Suc i) c" using Suc.prems i assms(3) by (simp add: take_Suc_conv_app_nth)
    then have "greatestCommonPrefix (enc t) (enc c) (Suc i, prefixKey (take (Suc i) t)) = (length (lcp t c), prefixKey (lcp t c))"
      using Suc i by simp
    with True i bits assms show ?thesis
      by (subst greatestCommonPrefix.simps) (simp add: totalBits_enc addBit_prefixKey take_Suc_conv_app_nth)
  next
    case False
    then have "lcp t c = take i t" using Suc.prems i assms(3) by (intro lcp_stop) auto
    with False i bits assms show ?thesis by (subst greatestCommonPrefix.simps) (simp add: totalBits_enc)
  qed
qed

lemma unat_power_byte: "l < 8 \<Longrightarrow> unat (2 ^ l :: byte) = 2 ^ l"
proof -
  assume "l < 8"
  then have "(2 :: nat) ^ l < 2 ^ 8" by (intro power_strict_increasing) auto
  moreover have "(2 ^ l :: byte) = word_of_nat (2 ^ l)" by simp
  ultimately show ?thesis by (simp only: unat_of_nat take_bit_eq_mod) simp
qed

lemma val_Cons: "val (x # b) = val b + 2 ^ length b * of_bool x"
  by (simp add: val_def horner_sum_append)

lemma val_bound: "length b \<le> 8 \<Longrightarrow> unat (val b) < 2 ^ length b"
proof (induction b)
  case (Cons x b)
  have "(2 :: nat) ^ length (x # b) \<le> 2 ^ 8" using Cons.prems by (intro power_increasing) auto
  with Cons show ?case by (auto simp: val_Cons unat_word_ariths unat_power_byte)
qed (simp add: val_def)

lemma unat_val_Cons: "length b < 8 \<Longrightarrow> unat (val (x # b)) = of_bool x * 2 ^ length b + unat (val b)"
proof -
  assume "length b < 8"
  then have "(2 :: nat) ^ length b \<le> 2 ^ 7" "unat (val b) < 2 ^ length b" by (intro power_increasing val_bound; simp)+
  then show ?thesis using \<open>length b < 8\<close> by (auto simp: val_Cons unat_word_ariths unat_power_byte)
qed

lemma val_less: "length a = length b \<Longrightarrow> length b \<le> 8 \<Longrightarrow> val a < val b \<longleftrightarrow> a < b"
proof (induction a b rule: list_induct2)
  case (Cons x xs y ys)
  have "unat (val xs) < 2 ^ length xs" "unat (val ys) < 2 ^ length ys" using Cons val_bound [of xs] val_bound [of ys] by simp_all
  with Cons show ?case by (auto simp: word_less_nat_alt unat_val_Cons)
qed (simp add: val_def)

lemma val_inject: "length a = length b \<Longrightarrow> length b \<le> 8 \<Longrightarrow> val a = val b \<longleftrightarrow> a = b"
  using byteBits_val [of a] byteBits_val [of b] by (metis append_eq_append_conv)

lemma less_append: "length a = length b \<Longrightarrow> a @ x < b @ y \<longleftrightarrow> a < b \<or> a = b \<and> x < (y :: bool list)"
  by (induction a b rule: list_induct2) auto

lemma cmpBits_shift:
  assumes "length e = Suc (Suc n)" "0 < totalBits e" "length f = Suc (Suc m)" "0 < totalBits f"
  shows "cmpBits (w # e) (v # f) (map ((+) 8) l) = cmpBits e f l"
  by (induction l) (simp_all add: bitAt_Cons [OF assms(1,2)] bitAt_Cons [OF assms(3,4)])

lemma cmpBits_enc:
  assumes "t \<noteq> []" "c \<noteq> []" "length c \<le> length t"
  shows "i \<le> length c \<Longrightarrow> cmpBits (enc t) (enc c) [i..<length c] =
    (let a = take (length c - i) (drop i t); b = drop i c in if a < b then - 1 else if a = b then 0 else 1)"
proof (induction "length c - i" arbitrary: i)
  case 0
  then show ?case by simp
next
  case (Suc n)
  then have i: "i < length c" by simp
  have d: "drop i t = t ! i # drop (Suc i) t" "drop i c = c ! i # drop (Suc i) c" "length c - i = Suc (length c - Suc i)"
    using i assms(3) by (simp_all add: Cons_nth_drop_Suc Suc_diff_Suc)
  have "cmpBits (enc t) (enc c) [Suc i..<length c] = (let a = take (length c - Suc i) (drop (Suc i) t); b = drop (Suc i) c in
      if a < b then - 1 else if a = b then 0 else 1)" using Suc i by simp
  with i assms d show ?case by (simp add: upt_conv_Cons bitAt_enc Let_def)
qed

lemma upt_shift: "map ((+) 8) [a..<b] = [8 + a..<b + 8]"
  by (rule nth_equalityI) auto

lemma key_cmp_Cons:
  assumes "length e = Suc (Suc n)" "0 < totalBits e" "length f = Suc (Suc m)" "0 < totalBits f"
  shows "key_cmp (w # e) (v # f) = (if w \<noteq> v then (if w < v then - 1 else 1) else key_cmp e f)"
proof -
  let ?f = "totalBits f div 8"
  have "totalBits (v # f) = totalBits f + 8" by (rule totalBits_Cons [OF assms(3)])
  then have "totalBits (v # f) div 8 = Suc ?f" "[Suc ?f * 8..<totalBits (v # f)] = map ((+) 8) [?f * 8..<totalBits f]"
    unfolding upt_shift by simp_all
  then show ?thesis using cmpBits_shift [OF assms] by (cases "w = v"; cases "?f = 0") (simp_all add: key_cmp_def Let_def)
qed

text \<open>The comparison is that of the bit strings, the first one cut to the length of the second.\<close>

lemma key_cmp_enc:
  "c \<noteq> [] \<Longrightarrow> length c \<le> length t \<Longrightarrow>
    key_cmp (enc t) (enc c) = (let a = take (length c) t in if a < c then - 1 else if a = c then 0 else 1)"
proof (induction c arbitrary: t rule: enc_induct)
  case (short c)
  have t: "t \<noteq> []" using short by auto
  have full: "totalBits (enc c) = length c" using short by (simp add: totalBits_enc)
  show ?case
  proof (cases "length c = 8")
    case True
    have "take 1 (enc t) = [val (take 8 t)]" using short True by (cases "length t = 8") (simp_all add: enc_short enc_long)
    moreover have "take 1 (enc c) = [val c]" using short by (simp add: enc_short)
    moreover have "length (take 8 t) = length c" using True short by simp
    ultimately show ?thesis using True short val_less [of "take 8 t" c] val_inject [of "take 8 t" c]
      by (auto simp: key_cmp_def full Let_def)
  next
    case False
    then have "length c div 8 = 0" using short by simp
    then show ?thesis using cmpBits_enc [OF t short(1,3), of 0] by (simp add: key_cmp_def full)
  qed
next
  case (long c)
  let ?c = "drop 8 c" and ?t = "drop 8 t"
  have t: "8 < length t" using long by simp
  obtain n m where n: "length (enc ?c) = Suc (Suc n)" "length (enc ?t) = Suc (Suc m)" using enc_tail long(1) t by metis
  have pos: "0 < totalBits (enc ?c)" "0 < totalBits (enc ?t)" using long(1) t by (simp_all add: totalBits_enc)
  let ?w = "val (take 8 t)" and ?v = "val (take 8 c)"
  have step: "key_cmp (enc t) (enc c) = (if ?w \<noteq> ?v then (if ?w < ?v then - 1 else 1) else key_cmp (enc ?t) (enc ?c))"
    using key_cmp_Cons [OF n(2) pos(2) n(1) pos(1)] long(1) t by (simp only: enc_long)
  have cut: "take (length c) t = take 8 t @ take (length ?c) ?t" using long(1,3) by (simp flip: take_add)
  have "take (length c) t < c \<longleftrightarrow> take 8 t @ take (length ?c) ?t < take 8 c @ ?c" unfolding cut by simp
  also have "\<dots> \<longleftrightarrow> ?w < ?v \<or> ?w = ?v \<and> take (length ?c) ?t < ?c"
    using long(1) t by (subst less_append) (simp_all add: val_less val_inject)
  finally have less: "take (length c) t < c \<longleftrightarrow> \<dots>" .
  have "take (length c) t = c \<longleftrightarrow> take 8 t @ take (length ?c) ?t = take 8 c @ ?c" unfolding cut by simp
  also have "\<dots> \<longleftrightarrow> ?w = ?v \<and> take (length ?c) ?t = ?c"
    using long(1) t by (subst append_eq_append_conv) (simp_all add: val_inject)
  finally have eq: "take (length c) t = c \<longleftrightarrow> \<dots>" .
  show ?case unfolding step Let_def less eq using long(2) [of ?t] long(3) by (auto simp: Let_def)
qed

end
