(* ===== verification/Merkle.thy ===== *)
theory Merkle
  imports NodeKeys Txn
begin

text \<open>
  The sparse Merkle tree that commits to the state (\<open>store/smt.go\<close>). Nodes are kept in a store under their keys: leaves under
  the first bits of the hashed key, inner nodes under the prefix that is common to the leaves below them, the root
  under a reserved key. \<open>Commit\<close>, which \<open>Store.Root\<close> calls for every block, executes the sorted operations of a block
  in one pass: it keeps the path to the current node, changes its nodes in memory and hashes and writes a node only
  when the next operation lies to the right of it.

  The hash is an argument \<open>H\<close>. The store is a map from node keys to nodes, since \<open>JoinLenPrefix\<close> is injective and
  the node cache holds what the store holds. \<open>copy\<close> of a node is \<open>&(*x)\<close>, the same pointer, so a node in the path
  may also be in the cache; it is written again before it is read from there, and nodes are values here.
\<close>

section \<open>Nodes and the tree\<close>

record smtNode =
  snKey :: bytes
  snValue :: bytes
  snLeft :: bytes
  snRight :: bytes
  snDelete :: bool

record smt =
  smStore :: "bytes \<rightharpoonup> smtNode"
  smRoot :: smtNode
  smKeyBitLength :: nat
  smOperations :: "smtNode list"
  smGcp :: bytes
  smBitPos :: nat
  smTarget :: smtNode
  smCurrent :: smtNode
  smTraversed :: "smtNode list"

definition newNode :: smtNode where
  "newNode = \<lparr>snKey = [], snValue = [], snLeft = [], snRight = [], snDelete = False\<rparr>"

definition replaceChild :: "bytes \<Rightarrow> bytes \<Rightarrow> smtNode \<Rightarrow> error + smtNode" where
  "replaceChild oldKey newKey x =
     (if snLeft x = oldKey then Inr (x\<lparr>snLeft := newKey\<rparr>)
      else if snRight x = oldKey then Inr (x\<lparr>snRight := newKey\<rparr>) else Inl ErrPanic)"

definition getOtherChild :: "bytes \<Rightarrow> smtNode \<Rightarrow> error + bytes \<times> nat" where
  "getOtherChild childKey x =
     (if snLeft x = childKey then Inr (snRight x, 1)
      else if snRight x = childKey then Inr (snLeft x, 0) else Inl ErrPanic)"

definition setChildren :: "bytes \<Rightarrow> bytes \<Rightarrow> smtNode \<Rightarrow> smtNode" where
  "setChildren leftKey rightKey x = x\<lparr>snLeft := leftKey, snRight := rightKey\<rparr>"

definition setNode :: "smtNode \<Rightarrow> smt \<Rightarrow> smt" where
  "setNode n s = s\<lparr>smStore := (smStore s)(snKey n \<mapsto> n)\<rparr>"

definition delNode :: "bytes \<Rightarrow> smt \<Rightarrow> smt" where
  "delNode k s = s\<lparr>smStore := (smStore s)(k := None)\<rparr>"

text \<open>Only value and children are in the encoding of a node; the key is set for convenience.\<close>

definition getNode :: "bytes \<Rightarrow> smt \<Rightarrow> smtNode" where
  "getNode k s = (case smStore s k of None \<Rightarrow> newNode | Some n \<Rightarrow> n\<lparr>snKey := k, snDelete := False\<rparr>)"

definition resetGCP :: "smt \<Rightarrow> smt" where
  "resetGCP s = s\<lparr>smGcp := [], smBitPos := 0\<rparr>"

definition reset :: "smt \<Rightarrow> smt" where
  "reset s = resetGCP (s\<lparr>smCurrent := smRoot s, smTraversed := []\<rparr>)"

section \<open>Hashing upwards\<close>

definition hashInput :: "smtNode \<Rightarrow> smt \<Rightarrow> bytes" where
  "hashInput parent s = (let lChild = getNode (snLeft parent) s; rChild = getNode (snRight parent) s in
     snKey lChild @ snValue lChild @ snKey rChild @ snValue rChild)"

definition updateParentValue :: "(bytes \<Rightarrow> bytes) \<Rightarrow> smtNode \<Rightarrow> smt \<Rightarrow> smtNode \<times> smt" where
  "updateParentValue H parent s =
     (let p = parent\<lparr>snValue := H (hashInput parent s)\<rparr> in
      (p, if snKey p = snKey (smRoot s) then s\<lparr>smRoot := p\<rparr> else s))"

function rehash :: "(bytes \<Rightarrow> bytes) \<Rightarrow> smt \<Rightarrow> smt" where
  "rehash H s =
     (if smTraversed s = [] then s
      else let parent = last (smTraversed s); s1 = s\<lparr>smCurrent := parent, smTraversed := butlast (smTraversed s)\<rparr> in
        if smOperations s1 \<noteq> [] \<and> key_cmp (snKey (hd (smOperations s1))) (snRight parent) \<le> 0 then s1
        else let (p, s2) = updateParentValue H parent s1 in rehash H (setNode p (s2\<lparr>smCurrent := p\<rparr>)))"
  by pat_completeness auto
termination
  by (relation "measure (\<lambda>(H, s). length (smTraversed s))") (auto simp: updateParentValue_def setNode_def Let_def split: if_splits)

declare rehash.simps [simp del]

section \<open>Walking down\<close>

text \<open>
  \<open>totalBits\<close> turns an empty key into \<open>[0, 0]\<close>. A child without a key is met only in a tree that was rebuilt from a proof.
\<close>

partial_function (option) traverse :: "smt \<Rightarrow> smt option" where
  "traverse s =
     (let s1 = s\<lparr>smTraversed := smTraversed s @ [smCurrent s]\<rparr>;
          target = snKey (smTarget s);
          currentKey = (if bitAt target (smBitPos s) then snRight (smCurrent s) else snLeft (smCurrent s));
          gcp = greatestCommonPrefix target currentKey (smBitPos s, smGcp s);
          loadedKey = (if currentKey = [] then [0, 0] else currentKey);
          s2 = s1\<lparr>smCurrent := (getNode currentKey s1)\<lparr>snKey := loadedKey\<rparr>, smBitPos := fst gcp, smGcp := snd gcp\<rparr>
      in if loadedKey \<noteq> snd gcp \<or> target = snd gcp then Some s2 else traverse s2)"

section \<open>Executing an operation\<close>

text \<open>The index expressions of \<open>Parent\<close> and \<open>GrandParent\<close> panic on a path that is too short.\<close>

definition smt_set :: "smt \<Rightarrow> (error + unit) \<times> smt" where
  "smt_set s =
     (if snKey (smTarget s) = smGcp s then (Inr (), setNode (smTarget s) s)
      else if smTraversed s = [] then (Inl ErrPanic, s)
      else case replaceChild (snKey (smCurrent s)) (smGcp s) (last (smTraversed s)) of
        Inl e \<Rightarrow> (Inl e, s)
      | Inr oldParent \<Rightarrow>
          let targetBytes = snKey (smTarget s); currentBytes = snKey (smCurrent s);
              newParent = (if bitAt targetBytes (smBitPos s) then setChildren currentBytes targetBytes else setChildren targetBytes currentBytes)
                (newNode\<lparr>snKey := smGcp s\<rparr>)
          in (Inr (), setNode (smTarget s) (s\<lparr>smTraversed := butlast (smTraversed s) @ [oldParent, newParent]\<rparr>)))"

definition smt_delete :: "smt \<Rightarrow> (error + unit) \<times> smt" where
  "smt_delete s =
     (let targetBytes = snKey (smTarget s); n = length (smTraversed s) in
      if targetBytes \<noteq> smGcp s then (Inr (), s)
      else if n < 2 then (Inl ErrPanic, s)
      else let parent = smTraversed s ! (n - 1); grandparent = smTraversed s ! (n - 2) in
        case getOtherChild targetBytes parent of
          Inl e \<Rightarrow> (Inl e, s)
        | Inr (sibling, _) \<Rightarrow>
            (case replaceChild (snKey parent) sibling grandparent of
               Inl e \<Rightarrow> (Inl e, s)
             | Inr g \<Rightarrow> (Inr (), delNode targetBytes (delNode (snKey parent) (s\<lparr>smTraversed := take (n - 2) (smTraversed s) @ [g]\<rparr>)))))"

definition startOperation :: "bool \<Rightarrow> smt \<Rightarrow> smt" where
  "startOperation subTree s =
     (let s1 = resetGCP (s\<lparr>smTarget := hd (smOperations s), smOperations := tl (smOperations s)\<rparr>) in
      if subTree \<or> smTraversed s1 \<noteq> []
      then let g = greatestCommonPrefix (snKey (smTarget s1)) (snKey (smCurrent s1)) (smBitPos s1, smGcp s1)
        in s1\<lparr>smBitPos := fst g, smGcp := snd g\<rparr>
      else s1)"

partial_function (option) commit :: "(bytes \<Rightarrow> bytes) \<Rightarrow> bool \<Rightarrow> smt \<Rightarrow> ((error + unit) \<times> smt) option" where
  "commit H subTree s =
     (if smOperations s = [] \<and> smTraversed s = [] then Some (Inr (), s)
      else if smOperations s = [] then Some (Inl ErrPanic, s)
      else Option.bind (traverse (startOperation subTree s)) (\<lambda>s1.
        case (if snDelete (smTarget s1) then smt_delete s1 else smt_set s1) of
          (Inl e, s2) \<Rightarrow> Some (Inl e, s2)
        | (Inr _, s2) \<Rightarrow> commit H subTree (rehash H s2)))"

declare traverse.simps [code] commit.simps [code]

section \<open>Opening and committing\<close>

definition minKey :: "nat \<Rightarrow> bytes" where
  "minKey keyBitLen = newNodeKey (replicate 20 0) keyBitLen"

definition maxKey :: "nat \<Rightarrow> bytes" where
  "maxKey keyBitLen = newNodeKey (replicate 20 255) keyBitLen"

definition initializeTree :: "(bytes \<Rightarrow> bytes) \<Rightarrow> bytes \<Rightarrow> smt \<Rightarrow> smt" where
  "initializeTree H rootKey s =
     (let minNode = newNode\<lparr>snKey := minKey (smKeyBitLength s), snValue := replicate 20 0\<rparr>;
          maxNode = newNode\<lparr>snKey := maxKey (smKeyBitLength s), snValue := replicate 20 255\<rparr>;
          s1 = setNode maxNode (setNode minNode s);
          root = newNode\<lparr>snKey := rootKey, snLeft := snKey minNode, snRight := snKey maxNode\<rparr>;
          (p, s2) = updateParentValue H root (s1\<lparr>smRoot := root\<rparr>)
      in setNode p s2)"

definition RootKey :: bytes where
  "RootKey = 127 # replicate 31 255"

definition NewSMT :: "(bytes \<Rightarrow> bytes) \<Rightarrow> bytes \<Rightarrow> nat \<Rightarrow> (bytes \<rightharpoonup> smtNode) \<Rightarrow> smt" where
  "NewSMT H rootKey keyBitLen store =
     (let rKey = newNodeKey rootKey keyBitLen;
          s = \<lparr>smStore = store, smRoot = newNode, smKeyBitLength = keyBitLen, smOperations = [], smGcp = [], smBitPos = 0,
            smTarget = newNode, smCurrent = newNode, smTraversed = []\<rparr>;
          s1 = s\<lparr>smRoot := getNode rKey s\<rparr>
      in reset (if snLeft (smRoot s1) = [] then initializeTree H rKey s1 else s1))"

definition Root :: "smt \<Rightarrow> bytes" where
  "Root s = snValue (smRoot s)"

definition valueOpToSMTNode :: "(bytes \<Rightarrow> bytes) \<Rightarrow> smt \<Rightarrow> valueOp \<Rightarrow> smtNode" where
  "valueOpToSMTNode H s operation =
     (let n = newNode\<lparr>snKey := newNodeKey (H (voKey operation)) (smKeyBitLength s), snDelete := True\<rparr> in
      if voOp operation = opDelete then n else n\<lparr>snValue := H (voValue operation), snDelete := False\<rparr>)"

fun insertOp :: "smtNode \<Rightarrow> smtNode list \<Rightarrow> smtNode list" where
  "insertOp n [] = [n]"
| "insertOp n (m # ms) = (if key_cmp (snKey n) (snKey m) < 0 then n # m # ms else m # insertOp n ms)"

text \<open>The operations in the order in which Go ranges over the map, then sorted by key.\<close>

definition smt_Commit :: "(bytes \<Rightarrow> bytes) \<Rightarrow> valueOp list \<Rightarrow> smt \<Rightarrow> ((error + unit) \<times> smt) option" where
  "smt_Commit H unsortedOps s =
     commit H False (s\<lparr>smOperations := foldr insertOp (map (valueOpToSMTNode H s) unsortedOps) []\<rparr>)"

section \<open>Proofs of membership\<close>

record proofNode =
  pfKey :: bytes
  pfValue :: bytes
  pfBitmask :: nat

definition validateTarget :: "smt \<Rightarrow> smtNode \<Rightarrow> error + unit" where
  "validateTarget s n =
     (if snKey n = snKey (smRoot s) \<or> snKey n = minKey (smKeyBitLength s) \<or> snKey n = maxKey (smKeyBitLength s)
      then Inl (Error ''ReserveKeyWrite'') else Inr ())"

text \<open>The siblings from the last node of the path up to the root.\<close>

fun siblings :: "smt \<Rightarrow> smtNode list \<Rightarrow> error + proofNode list" where
  "siblings s (node # parent # upper) =
     (case getOtherChild (snKey node) parent of
        Inl e \<Rightarrow> Inl e
      | Inr (siblingKey, order) \<Rightarrow>
          (case siblings s (parent # upper) of
             Inl e \<Rightarrow> Inl e
           | Inr ps \<Rightarrow> Inr (\<lparr>pfKey = siblingKey, pfValue = snValue (getNode siblingKey s), pfBitmask = order\<rparr> # ps)))"
| "siblings s _ = Inr []"

definition searchFor :: "(bytes \<Rightarrow> bytes) \<Rightarrow> bytes \<Rightarrow> smt \<Rightarrow> smt" where
  "searchFor H k s = s\<lparr>smTarget := newNode\<lparr>snKey := newNodeKey (H k) (smKeyBitLength s)\<rparr>\<rparr>"

definition GetMerkleProof :: "(bytes \<Rightarrow> bytes) \<Rightarrow> bytes \<Rightarrow> smt \<Rightarrow> ((error + proofNode list) \<times> smt) option" where
  "GetMerkleProof H k s =
     (let s1 = searchFor H k s in
      case validateTarget s1 (smTarget s1) of
        Inl e \<Rightarrow> Some (Inl e, s1)
      | Inr _ \<Rightarrow> Option.bind (traverse (reset s1)) (\<lambda>s2.
          let s3 = s2\<lparr>smTraversed := smTraversed s2 @ [smCurrent s2]\<rparr> in
          Some (case siblings s3 (rev (smTraversed s3)) of
              Inl e \<Rightarrow> Inl e
            | Inr ps \<Rightarrow> Inr (\<lparr>pfKey = snKey (smCurrent s2), pfValue = snValue (smCurrent s2), pfBitmask = 0\<rparr> # ps), s3)))"

text \<open>
  One step up: the parent of the current node and a sibling. The bits of the two keys are compared up to the length of
  the current key: the code compares that length with itself. A sibling that is shorter and does not differ
  before its end makes Go index beyond its bytes.
\<close>

definition combineProof :: "(bytes \<Rightarrow> bytes) \<Rightarrow> proofNode \<Rightarrow> bytes \<times> bytes \<Rightarrow> smtNode" where
  "combineProof H sibling = (\<lambda>(currentKey, hash).
     (if pfBitmask sibling = 0
      then newNode\<lparr>snKey := snd (greatestCommonPrefix (pfKey sibling) currentKey (0, [])),
        snValue := H (pfKey sibling @ pfValue sibling @ currentKey @ hash), snLeft := pfKey sibling, snRight := currentKey\<rparr>
      else newNode\<lparr>snKey := snd (greatestCommonPrefix (pfKey sibling) currentKey (0, [])),
        snValue := H (currentKey @ hash @ pfKey sibling @ pfValue sibling), snLeft := currentKey, snRight := pfKey sibling\<rparr>))"

fun rebuild :: "(bytes \<Rightarrow> bytes) \<Rightarrow> proofNode list \<Rightarrow> bytes \<times> bytes \<Rightarrow> smt \<Rightarrow> bytes \<times> smt" where
  "rebuild H [] (currentKey, hash) s = (hash, s)"
| "rebuild H (sibling # ps) (currentKey, hash) s =
     (let parent = combineProof H sibling (currentKey, hash); s1 = setNode parent s in
      rebuild H ps (snKey parent, snValue parent) (if ps = [] then s1\<lparr>smRoot := parent\<rparr> else s1))"

definition VerifyProof :: "(bytes \<Rightarrow> bytes) \<Rightarrow> nat \<Rightarrow> bytes \<Rightarrow> bytes \<Rightarrow> bool \<Rightarrow> bytes \<Rightarrow> proofNode list \<Rightarrow> (error + bool) option" where
  "VerifyProof H n k v validateMembership root proof =
     (if length proof < 2 then Some (Inl (Error ''InvalidMerkleTreeProof''))
      else let leaf = hd proof;
        s0 = setNode (newNode\<lparr>snKey := pfKey leaf, snValue := pfValue leaf\<rparr>) (NewSMT H RootKey n Map.empty);
        (hash, s1) = rebuild H (tl proof) (pfKey leaf, pfValue leaf) s0;
        s2 = searchFor H k s1
      in if hash \<noteq> root then Some (Inr False)
         else case validateTarget s2 (smTarget s2) of
           Inl e \<Rightarrow> Some (Inl e)
         | Inr _ \<Rightarrow> Option.bind (traverse (reset s2)) (\<lambda>s3.
             let nodeExists = (snKey (smTarget s3) = smGcp s3) in
             Some (Inr (if nodeExists \<noteq> validateMembership then False
               else if \<not> nodeExists then True else pfValue leaf = H v))))"

end
