(* ===== verification/Patricia.thy ===== *)
theory Patricia
  imports NodeKeys
begin

text \<open>
  The shape of a tree over a set of bit strings of one length: the inner nodes are the prefixes after which the strings
  branch, and below a prefix hangs the longest prefix common to all strings with it. The shape follows from
  the set alone; these lemmas say how it changes when a string is added or removed.
\<close>

section \<open>Shape\<close>

definition flat :: "nat \<Rightarrow> bool list set \<Rightarrow> bool" where
  "flat n L \<longleftrightarrow> (\<forall>l \<in> L. length l = n)"

definition branching :: "bool list set \<Rightarrow> bool list \<Rightarrow> bool" where
  "branching L p \<longleftrightarrow> (\<forall>b. \<exists>l \<in> L. prefix (p @ [b]) l)"

definition isTop :: "bool list set \<Rightarrow> bool list \<Rightarrow> bool list \<Rightarrow> bool" where
  "isTop L p q \<longleftrightarrow> prefix p q \<and> (\<forall>l \<in> L. prefix p l \<longrightarrow> prefix q l) \<and> (q \<in> L \<or> branching L q)"

lemma flat_insert: "flat n L \<Longrightarrow> length x = n \<Longrightarrow> flat n (insert x L)"
  by (simp add: flat_def)

lemma flat_diff: "flat n L \<Longrightarrow> flat n (L - X)"
  by (simp add: flat_def)

lemma flat_prefix: "flat n L \<Longrightarrow> a \<in> L \<Longrightarrow> b \<in> L \<Longrightarrow> prefix a b \<longleftrightarrow> a = b"
  by (auto simp: flat_def prefix_def) (metis append_self_conv length_append add_cancel_left_right length_0_conv)

lemma branching_length: "flat n L \<Longrightarrow> branching L p \<Longrightarrow> length p < n"
  unfolding branching_def flat_def by (metis length_append_singleton less_eq_Suc_le prefix_length_le)

lemma branching_below: "branching L p \<Longrightarrow> \<exists>l \<in> L. prefix (p @ [b]) l"
  by (simp add: branching_def)

lemma leaf_or_branching: "flat n L \<Longrightarrow> q \<in> L \<Longrightarrow> \<not> branching L q"
  using branching_length [of n L q] by (auto simp: flat_def)

lemma top_below: "isTop L p q \<Longrightarrow> \<exists>l \<in> L. prefix q l"
  unfolding isTop_def using branching_below [of L q True] by (auto dest: append_prefixD)

lemma prefix_bit: "prefix (p @ [b]) l \<longleftrightarrow> prefix p l \<and> length p < length l \<and> l ! length p = b"
  using append_one_prefix [of p l] by (auto simp: prefix_def nth_append)

lemma top_length: "flat n L \<Longrightarrow> isTop L p q \<Longrightarrow> length q \<le> n"
  using top_below [of L p q] by (auto simp: flat_def dest: prefix_length_le)

lemma strict_bit: "prefix p q \<Longrightarrow> p \<noteq> q \<Longrightarrow> prefix (p @ [q ! length p]) q"
  using append_one_prefix [of p q] prefix_length_less [of p q] by (simp add: strict_prefix_def)

text \<open>A string below an inner node that leaves every other prefix.\<close>

lemma branching_leaves: 
  assumes "branching L p" "prefix p q" "p \<noteq> q"
  shows "\<exists>l \<in> L. prefix p l \<and> \<not> prefix q l"
proof -
  obtain l where l: "l \<in> L" "prefix (p @ [\<not> q ! length p]) l" using branching_below [OF assms(1)] by blast
  have "\<not> prefix q l"
  proof
    assume "prefix q l"
    with strict_bit [OF assms(2,3)] have "prefix (p @ [q ! length p]) l" by (rule prefix_order.trans)
    with l(2) show False by (simp add: prefix_bit)
  qed
  with l show ?thesis by (auto dest: append_prefixD)
qed

lemma isTop_shorter:
  assumes "flat n L" "isTop L p q" "isTop L p' q'" "prefix p q'" "prefix q q'" "q' \<noteq> q" "prefix p' q"
  shows False
proof -
  obtain l' where l': "l' \<in> L" "prefix q' l'" using top_below [OF assms(3)] by blast
  have "q \<notin> L"
  proof
    assume "q \<in> L"
    then have "q = l'" using flat_prefix [OF assms(1)] l' assms(5) by (metis prefix_order.trans)
    then show False using l'(2) assms(5,6) by (auto simp: prefix_order.eq_iff)
  qed
  then have "branching L q" using assms(2) by (simp add: isTop_def)
  then obtain l where l: "l \<in> L" "prefix q l" "\<not> prefix q' l" using branching_leaves assms(5,6) by blast
  have "prefix p' l" using assms(7) l(2) by (rule prefix_order.trans)
  then show False using assms(3) l by (auto simp: isTop_def)
qed

lemma isTop_unique:
  assumes "flat n L" "isTop L p q" "isTop L p q'"
  shows "q = q'"
proof -
  have pq: "prefix p q" "prefix p q'" using assms by (simp_all add: isTop_def)
  obtain l where l: "l \<in> L" "prefix q l" using top_below [OF assms(2)] by blast
  then have "prefix p l" using pq(1) by (blast intro: prefix_order.trans)
  then have "prefix q' l" using l assms(3) by (auto simp: isTop_def)
  with l(2) consider "prefix q q'" | "prefix q' q" using prefix_same_cases by blast
  then show ?thesis using isTop_shorter [OF assms(1,2,3)] isTop_shorter [OF assms(1,3,2)] pq by cases blast+
qed

text \<open>A node hangs below one inner node only.\<close>

lemma parent_unique:
  assumes "branching L p" "branching L r" "isTop L (p @ [b]) q" "isTop L (r @ [c]) q"
  shows "p = r \<and> b = c"
proof -
  have no: False if *: "branching L r" "isTop L (p @ [b]) q" "isTop L (r @ [c]) q" "prefix p r" "p \<noteq> r" for p r b c
  proof -
    have q: "prefix (r @ [c]) q" "prefix (p @ [b]) q" using * by (simp_all add: isTop_def)
    have "prefix (p @ [r ! length p]) q" using strict_bit [OF *(4,5)] q(1) by (metis append_prefixD prefix_order.trans)
    with q(2) have b: "r ! length p = b" by (simp add: prefix_bit)
    obtain l where l: "l \<in> L" "prefix (r @ [\<not> c]) l" using branching_below [OF *(1)] by blast
    have "prefix (p @ [b]) r" "prefix r l" using strict_bit [OF *(4,5)] b l(2) by (auto dest: append_prefixD)
    then have "prefix (p @ [b]) l" by (rule prefix_order.trans)
    then have "prefix q l" using l *(2) by (auto simp: isTop_def)
    with q(1) have "prefix (r @ [c]) l" by (rule prefix_order.trans)
    with l(2) show False by (simp add: prefix_bit)
  qed
  have q: "prefix (p @ [b]) q" "prefix (r @ [c]) q" using assms by (simp_all add: isTop_def)
  then have "prefix p q" "prefix r q" by (auto dest: append_prefixD)
  then consider "prefix p r" | "prefix r p" using prefix_same_cases by blast
  then have "p = r" using no [OF assms(2,3,4)] no [OF assms(1,4,3)] by cases blast+
  with q show ?thesis by (simp add: prefix_bit)
qed

text \<open>What is common to all strings below an inner node is a prefix of it.\<close>

lemma branch_common:
  assumes "branching L p" "\<And>l. l \<in> L \<Longrightarrow> prefix p l \<Longrightarrow> prefix s l"
  shows "prefix s p"
proof -
  obtain l where l: "l \<in> L" "prefix p l" using branching_below [OF assms(1), of True] by (auto dest: append_prefixD)
  with assms(2) have "prefix s l" by simp
  with l(2) consider "prefix s p" | "prefix p s" using prefix_same_cases by blast
  then show ?thesis
  proof cases
    case 2
    with branching_leaves [OF assms(1)] assms(2) show ?thesis by fastforce
  qed
qed

lemma branching_mono: "branching L p \<Longrightarrow> L \<subseteq> L' \<Longrightarrow> branching L' p"
  unfolding branching_def by blast

section \<open>Adding a string\<close>

definition insertion :: "nat \<Rightarrow> bool list set \<Rightarrow> bool list \<Rightarrow> bool \<Rightarrow> bool list \<Rightarrow> bool list \<Rightarrow> bool" where
  "insertion n L p b q x \<longleftrightarrow> flat n L \<and> branching L p \<and> isTop L (p @ [b]) q \<and> length x = n \<and> prefix (p @ [b]) x \<and> \<not> prefix q x"

lemma insertion_point:
  assumes "insertion n L p b q x"
  shows "prefix (p @ [b]) (lcp x q)" "prefix (lcp x q) x" "prefix (lcp x q) q" "lcp x q \<noteq> q" "lcp x q \<noteq> x"
    "prefix (lcp x q @ [x ! length (lcp x q)]) x" "prefix (lcp x q @ [\<not> x ! length (lcp x q)]) q"
proof -
  let ?g = "lcp x q"
  have a: "flat n L" "isTop L (p @ [b]) q" "length x = n" "prefix (p @ [b]) x" "\<not> prefix q x" using assms by (simp_all add: insertion_def)
  show "prefix (p @ [b]) ?g" using a by (intro longest_common_prefix_max_prefix) (simp_all add: isTop_def)
  show gx: "prefix ?g x" and gq: "prefix ?g q" by (rule longest_common_prefix_prefix1, rule longest_common_prefix_prefix2)
  then show nq: "?g \<noteq> q" using a(5) by metis
  show nx: "?g \<noteq> x"
  proof
    assume "?g = x"
    then have "prefix x q" using gq by simp
    moreover have "length q \<le> length x" using top_length [OF a(1,2)] a(3) by simp
    ultimately have "q = x" by (auto simp: prefix_def)
    with a(5) show False by simp
  qed
  show x: "prefix (?g @ [x ! length ?g]) x" using gx nx by (rule strict_bit)
  have q: "prefix (?g @ [q ! length ?g]) q" using gq nq by (rule strict_bit)
  have "q ! length ?g = (\<not> x ! length ?g)"
  proof (rule ccontr)
    assume "q ! length ?g \<noteq> (\<not> x ! length ?g)"
    then have "prefix (?g @ [x ! length ?g]) ?g" using x q by (intro longest_common_prefix_max_prefix) simp_all
    then show False using prefix_length_le by fastforce
  qed
  with q show "prefix (?g @ [\<not> x ! length ?g]) q" by simp
qed

lemma branching_insert:
  assumes ins: "insertion n L p b q x"
  shows "branching (insert x L) r \<longleftrightarrow> branching L r \<or> r = lcp x q"
proof -
  let ?g = "lcp x q"
  note g = insertion_point [OF ins]
  have a: "branching L p" "isTop L (p @ [b]) q" "prefix (p @ [b]) x" "\<not> prefix q x" using ins by (simp_all add: insertion_def)
  have "branching (insert x L) ?g"
    unfolding branching_def
  proof
    fix c show "\<exists>l \<in> insert x L. prefix (?g @ [c]) l"
    proof (cases "c = x ! length ?g")
      case False
      obtain l where "l \<in> L" "prefix q l" using top_below [OF a(2)] by blast
      moreover have "prefix (?g @ [c]) q" using g(7) False by (cases c) auto
      ultimately show ?thesis by (blast intro: prefix_order.trans)
    qed (use g(6) in blast)
  qed
  moreover have "r = ?g" if new: "branching (insert x L) r" "\<not> branching L r"
  proof -
    obtain c where c: "\<not> (\<exists>l \<in> L. prefix (r @ [c]) l)" using new(2) by (auto simp: branching_def)
    then have rx: "prefix (r @ [c]) x" using branching_below [OF new(1), of c] by auto
    obtain l where l: "l \<in> insert x L" "prefix (r @ [\<not> c]) l" using branching_below [OF new(1)] by blast
    then have "l \<in> L" using rx by (auto simp: prefix_bit)
    have not_below: "\<not> prefix (r @ [c]) p"
      using branching_below [OF a(1), of True] c by (meson append_prefixD prefix_order.trans)
    have px: "prefix p x" "prefix r x" using a(3) rx by (auto dest: append_prefixD)
    have "r \<noteq> p" using a(1) new(2) by auto
    moreover have "\<not> prefix r p" if "r \<noteq> p"
    proof
      assume "prefix r p"
      from strict_bit [OF this that] have "prefix (r @ [p ! length r]) p" .
      moreover from this px(1) have "prefix (r @ [p ! length r]) x" by (blast intro: prefix_order.trans)
      ultimately show False using not_below rx by (simp add: prefix_bit)
    qed
    ultimately have "prefix p r" "p \<noteq> r" using px prefix_same_cases by blast+
    from strict_bit [OF this] have "prefix (p @ [r ! length p]) r" .
    moreover from this px(2) have "prefix (p @ [r ! length p]) x" by (blast intro: prefix_order.trans)
    ultimately have pr: "prefix (p @ [b]) r" using a(3) by (simp add: prefix_bit)
    have rl: "prefix r l" using l(2) by (rule append_prefixD)
    then have "prefix q l" using pr a(2) \<open>l \<in> L\<close> by (auto simp: isTop_def dest: prefix_order.trans)
    then have rq: "prefix r q" using rl a(4) px(2) prefix_same_cases [of r l q] by (blast intro: prefix_order.trans)
    have "r \<noteq> q" using px(2) a(4) by auto
    with rq have "prefix (r @ [q ! length r]) q" by (intro strict_bit)
    moreover from this \<open>prefix q l\<close> have "prefix (r @ [q ! length r]) l" by (blast intro: prefix_order.trans)
    ultimately have q: "prefix (r @ [\<not> c]) q" using l(2) by (simp add: prefix_bit)
    have "prefix r ?g" using rq px(2) by (intro longest_common_prefix_max_prefix)
    moreover have "r = ?g" if "prefix r ?g"
    proof (rule ccontr)
      assume "r \<noteq> ?g"
      from strict_bit [OF that this] have "prefix (r @ [?g ! length r]) ?g" .
      with g(2,3) have "prefix (r @ [?g ! length r]) x" "prefix (r @ [?g ! length r]) q" by (blast intro: prefix_order.trans)+
      with rx q show False by (simp add: prefix_bit)
    qed
    ultimately show ?thesis by blast
  qed
  ultimately show ?thesis using branching_mono [of L r "insert x L"] by blast
qed

lemma below_insertion:
  assumes "insertion n L p b q x" "l \<in> L" "prefix (lcp x q) l"
  shows "prefix q l"
proof -
  have "prefix (p @ [b]) l" using insertion_point(1) [OF assms(1)] assms(3) by (rule prefix_order.trans)
  then show ?thesis using assms(1,2) by (simp add: insertion_def isTop_def)
qed

lemma isTop_insert:
  assumes ins: "insertion n L p b q x"
  shows "isTop (insert x L) (p @ [b]) (lcp x q)"
    and "isTop (insert x L) (lcp x q @ [x ! length (lcp x q)]) x"
    and "isTop (insert x L) (lcp x q @ [\<not> x ! length (lcp x q)]) q"
proof -
  let ?g = "lcp x q"
  note g = insertion_point [OF ins]
  have top: "isTop L (p @ [b]) q" using ins by (simp add: insertion_def)
  have other: "prefix (?g @ [\<not> x ! length ?g]) l" if "l \<in> L" "prefix ?g l" for l
    using g(7) below_insertion [OF ins that] by (rule prefix_order.trans)
  show "isTop (insert x L) (p @ [b]) ?g"
    using g(1,2,3) top by (auto simp: isTop_def branching_insert [OF ins] intro: prefix_order.trans)
  show "isTop (insert x L) (?g @ [x ! length ?g]) x"
    using g(6) other by (auto simp: isTop_def prefix_bit)
  show "isTop (insert x L) (?g @ [\<not> x ! length ?g]) q"
    using g(7) below_insertion [OF ins] top by (auto simp: isTop_def prefix_bit branching_insert [OF ins])
qed

lemma isTop_insert_other:
  assumes ins: "insertion n L p b q x" and r: "branching L r" "isTop L (r @ [c]) s" "(r, c) \<noteq> (p, b)"
  shows "isTop (insert x L) (r @ [c]) s"
proof -
  have a: "branching L p" "isTop L (p @ [b]) q" "prefix (p @ [b]) x" "\<not> prefix q x" using ins by (simp_all add: insertion_def)
  have "prefix s x" if rx: "prefix (r @ [c]) x"
  proof -
    have px: "prefix p x" "prefix r x" using a(3) rx by (auto dest: append_prefixD)
    have "r \<noteq> p" using a(3) rx r(3) by (auto simp: prefix_bit)
    from px consider "prefix r p" | "prefix p r" using prefix_same_cases by blast
    then show ?thesis
    proof cases
      case 1
      from strict_bit [OF this \<open>r \<noteq> p\<close>] have "prefix (r @ [p ! length r]) p" .
      moreover from this px(1) have "prefix (r @ [p ! length r]) x" by (blast intro: prefix_order.trans)
      ultimately have "prefix (r @ [c]) p" using rx by (simp add: prefix_bit)
      then have "prefix s p" using r(2) by (intro branch_common [OF a(1)]) (auto simp: isTop_def dest: prefix_order.trans)
      with px(1) show ?thesis by (blast intro: prefix_order.trans)
    next
      case 2
      from strict_bit [OF this] \<open>r \<noteq> p\<close> have "prefix (p @ [r ! length p]) r" by simp
      moreover from this px(2) have "prefix (p @ [r ! length p]) x" by (blast intro: prefix_order.trans)
      ultimately have "prefix (p @ [b]) r" using a(3) by (simp add: prefix_bit)
      then have "prefix q r" using a(2) by (intro branch_common [OF r(1)]) (auto simp: isTop_def dest: prefix_order.trans)
      then show ?thesis using px(2) a(4) by (blast intro: prefix_order.trans)
    qed
  qed
  then show ?thesis using r(2) by (auto simp: isTop_def branching_insert [OF ins])
qed

section \<open>Removing a string\<close>

definition removal :: "nat \<Rightarrow> bool list set \<Rightarrow> bool list \<Rightarrow> bool \<Rightarrow> bool list \<Rightarrow> bool \<Rightarrow> bool list \<Rightarrow> bool list \<Rightarrow> bool" where
  "removal n L r d p b q x \<longleftrightarrow> flat n L \<and> x \<in> L \<and> branching L r \<and> isTop L (r @ [d]) p \<and>
     branching L p \<and> isTop L (p @ [b]) x \<and> isTop L (p @ [\<not> b]) q"

lemma only_string:
  assumes "removal n L r d p b q x" "l \<in> L" "prefix (p @ [b]) l"
  shows "l = x"
  using assms flat_prefix [of n L x l] by (auto simp: removal_def isTop_def)

lemma branching_delete:
  assumes del: "removal n L r d p b q x"
  shows "branching (L - {x}) s \<longleftrightarrow> branching L s \<and> s \<noteq> p"
proof -
  have a: "x \<in> L" "branching L p" "prefix (p @ [b]) x" using del by (auto simp: removal_def isTop_def)
  have "\<not> branching (L - {x}) p" using only_string [OF del] branching_below [of "L - {x}" p b] by auto
  moreover have "branching (L - {x}) s" if s: "branching L s" "s \<noteq> p"
    unfolding branching_def
  proof
    fix c
    obtain l where l: "l \<in> L" "prefix (s @ [c]) l" using branching_below [OF s(1)] by blast
    show "\<exists>l \<in> L - {x}. prefix (s @ [c]) l"
    proof (cases "l = x")
      case True
      have sx: "prefix s x" "prefix p x" using l True a(3) by (auto dest: append_prefixD)
      then consider "prefix s p" | "prefix p s" using prefix_same_cases by blast
      then show ?thesis
      proof cases
        case 1
        obtain m where m: "m \<in> L" "prefix (p @ [\<not> b]) m" using branching_below [OF a(2)] by blast
        have "prefix (s @ [p ! length s]) p" using strict_bit [OF 1 s(2)] .
        moreover from this sx(2) have "prefix (s @ [p ! length s]) x" by (blast intro: prefix_order.trans)
        ultimately have "prefix (s @ [c]) p" using l True by (simp add: prefix_bit)
        then have "prefix (s @ [c]) m" using m(2) by (meson append_prefixD prefix_order.trans)
        moreover have "m \<noteq> x" using m(2) a(3) by (auto simp: prefix_bit)
        ultimately show ?thesis using m(1) by blast
      next
        case 2
        obtain m where m: "m \<in> L" "prefix (s @ [\<not> c]) m" using branching_below [OF s(1)] by blast
        have "prefix (p @ [s ! length p]) s" using strict_bit [OF 2] s(2) by auto
        moreover from this sx(1) have "prefix (p @ [s ! length p]) x" by (blast intro: prefix_order.trans)
        ultimately have "prefix (p @ [b]) s" using a(3) by (simp add: prefix_bit)
        then have "prefix (p @ [b]) m" using m(2) by (meson append_prefixD prefix_order.trans)
        then have "m = x" using only_string [OF del] m(1) by blast
        with m(2) l True show ?thesis by (simp add: prefix_bit)
      qed
    qed (use l in blast)
  qed
  ultimately show ?thesis using branching_mono [of "L - {x}" s L] by blast
qed

lemma isTop_delete:
  assumes del: "removal n L r d p b q x"
  shows "isTop (L - {x}) (r @ [d]) q"
proof -
  have a: "flat n L" "isTop L (r @ [d]) p" "branching L p" "isTop L (p @ [b]) x" "isTop L (p @ [\<not> b]) q" using del by (auto simp: removal_def)
  have q: "prefix (p @ [\<not> b]) q" "prefix (p @ [b]) x" using a by (simp_all add: isTop_def)
  then have "q \<noteq> x" "q \<noteq> p" by (auto simp: prefix_bit)
  then have "q \<in> L - {x} \<or> branching (L - {x}) q" using a(5) by (auto simp: isTop_def branching_delete [OF del])
  moreover have "prefix (r @ [d]) q" using a(2) q(1) by (meson append_prefixD isTop_def prefix_order.trans)
  moreover have "prefix q l" if l: "l \<in> L - {x}" "prefix (r @ [d]) l" for l
  proof -
    have "prefix p l" using l a(2) by (auto simp: isTop_def)
    moreover have "length p < length l" using branching_length [OF a(1,3)] l a(1) by (auto simp: flat_def)
    ultimately have bit: "prefix (p @ [l ! length p]) l" by (simp add: prefix_bit)
    moreover have "\<not> prefix (p @ [b]) l" using only_string [OF del, of l] l(1) by blast
    ultimately have "l ! length p \<noteq> b" by (simp add: prefix_bit)
    then have "prefix (p @ [\<not> b]) l" using bit by (simp add: prefix_bit)
    then show ?thesis using l a(5) by (auto simp: isTop_def)
  qed
  ultimately show ?thesis by (simp add: isTop_def)
qed

lemma isTop_delete_other:
  assumes del: "removal n L r d p b q x" and s: "branching (L - {x}) s" "isTop L (s @ [c]) t" "(s, c) \<noteq> (r, d)"
  shows "isTop (L - {x}) (s @ [c]) t"
proof -
  have a: "branching L r" "isTop L (r @ [d]) p" "branching L p" "isTop L (p @ [b]) x" using del by (auto simp: removal_def)
  have s': "branching L s" "s \<noteq> p" using s(1) by (simp_all add: branching_delete [OF del])
  have "t \<noteq> x" using parent_unique [OF s'(1) a(3) s(2)] a(4) s'(2) by auto
  moreover have "t \<noteq> p" using parent_unique [OF s'(1) a(1) s(2)] a(2) s(3) by auto
  ultimately show ?thesis using s(2) by (auto simp: isTop_def branching_delete [OF del])
qed

end
