(* ===== verification/StateRoot.thy ===== *)
theory StateRoot
  imports Merkle Patricia
begin

text \<open>
  The tree in the store follows from its leaves: inner nodes are where the keys of the leaves branch, their children are the
  next nodes below, and their values are the hashes of the children. During a commit this holds off the path to
  the current node, whose nodes are right in memory.
\<close>

section \<open>What the store holds\<close>

definition nodeName :: "bool list \<Rightarrow> bool list \<Rightarrow> bytes" where
  "nodeName rb p = (if p = [] then enc rb else enc p)"

abbreviation child :: "bool \<Rightarrow> smtNode \<Rightarrow> bytes" where
  "child b nd \<equiv> (if b then snRight nd else snLeft nd)"

definition kids :: "bool list set \<Rightarrow> bool list \<Rightarrow> smtNode \<Rightarrow> bool" where
  "kids L p nd \<longleftrightarrow> (\<forall>b. \<exists>q. isTop L (p @ [b]) q \<and> child b nd = enc q)"

definition hashed :: "(bytes \<Rightarrow> bytes) \<Rightarrow> smtNode \<Rightarrow> smt \<Rightarrow> bool" where
  "hashed H nd s \<longleftrightarrow> snValue nd = H (hashInput nd s)"

text \<open>The keys of the leaves: the smallest and the largest key are always there, the key of the root never.\<close>

definition sound :: "nat \<Rightarrow> bool list \<Rightarrow> (bool list \<rightharpoonup> bytes) \<Rightarrow> bool" where
  "sound n rb M \<longleftrightarrow> 0 < n \<and> flat n (dom M) \<and> replicate n False \<in> dom M \<and> replicate n True \<in> dom M \<and> length rb = n \<and> rb \<notin> dom M"

definition stored :: "(bool list \<rightharpoonup> bytes) \<Rightarrow> smt \<Rightarrow> bool" where
  "stored M s \<longleftrightarrow> (\<forall>l v. M l = Some v \<longrightarrow> (\<exists>nd. smStore s (enc l) = Some nd \<and> snValue nd = v))"

definition settled :: "(bytes \<Rightarrow> bytes) \<Rightarrow> bool list \<Rightarrow> bool list set \<Rightarrow> bool list set \<Rightarrow> smt \<Rightarrow> bool" where
  "settled H rb L P s \<longleftrightarrow> (\<forall>p. branching L p \<longrightarrow> p \<notin> P \<longrightarrow>
     (\<exists>nd. smStore s (nodeName rb p) = Some nd \<and> kids L p nd \<and> hashed H nd s))"

definition treeOk :: "(bytes \<Rightarrow> bytes) \<Rightarrow> nat \<Rightarrow> bool list \<Rightarrow> (bool list \<rightharpoonup> bytes) \<Rightarrow> bool list set \<Rightarrow> smt \<Rightarrow> bool" where
  "treeOk H n rb M P s \<longleftrightarrow> sound n rb M \<and> stored M s \<and> settled H rb (dom M) P s \<and> snKey (smRoot s) = enc rb"

definition rooted :: "bool list \<Rightarrow> smt \<Rightarrow> bool" where
  "rooted rb s \<longleftrightarrow> (\<exists>nd. smStore s (enc rb) = Some nd \<and> snValue nd = Root s \<and> snLeft nd = snLeft (smRoot s) \<and> snRight nd = snRight (smRoot s))"

lemma sound_flat: "sound n rb M \<Longrightarrow> flat n (dom M)"
  by (simp add: sound_def)

lemma root_branching: "sound n rb M \<Longrightarrow> branching (dom M) []"
  unfolding branching_def sound_def
proof (intro allI, elim conjE)
  fix b :: bool assume "0 < n" "replicate n False \<in> dom M" "replicate n True \<in> dom M"
  moreover have "prefix [b] (replicate n b)" using \<open>0 < n\<close> by (cases n) auto
  ultimately show "\<exists>l \<in> dom M. prefix ([] @ [b]) l" by (cases b) auto
qed

lemma nodeName_inject:
  assumes "sound n rb M" "p \<in> dom M \<or> branching (dom M) p" "q \<in> dom M \<or> branching (dom M) q"
  shows "nodeName rb p = nodeName rb q \<longleftrightarrow> p = q"
proof -
  have len: "p \<noteq> rb" if "p \<in> dom M \<or> branching (dom M) p" for p
    using that assms(1) branching_length [of n "dom M" p] by (auto simp: sound_def)
  have "rb \<noteq> []" using assms(1) by (auto simp: sound_def)
  then show ?thesis using len [OF assms(2)] len [OF assms(3)] by (auto simp: nodeName_def enc_inject)
qed

lemma nodeName_below: "p \<noteq> [] \<Longrightarrow> nodeName rb p = enc p"
  by (simp add: nodeName_def)

lemma leaf_nonempty: "sound n rb M \<Longrightarrow> l \<in> dom M \<Longrightarrow> l \<noteq> []"
  unfolding sound_def flat_def by (metis list.size(3) less_irrefl)

lemma top_nonempty: "isTop L (p @ [b]) q \<Longrightarrow> q \<noteq> []"
  by (auto simp: isTop_def)

lemma kids_child: "flat n L \<Longrightarrow> kids L p nd \<Longrightarrow> isTop L (p @ [b]) q \<Longrightarrow> child b nd = enc q"
  unfolding kids_def using isTop_unique by metis

lemma kids_fields: "snLeft nd = snLeft m \<Longrightarrow> snRight nd = snRight m \<Longrightarrow> kids L p nd = kids L p m"
  by (simp add: kids_def)

lemma hashInput_value: "hashInput (nd\<lparr>snValue := v\<rparr>) s = hashInput nd s"
  by (simp add: hashInput_def)

lemma hashInput_cong:
  assumes "\<And>b. smStore s (child b nd) = smStore t (child b nd)"
  shows "hashInput nd s = hashInput nd t"
  using assms [of True] assms [of False] by (simp add: hashInput_def getNode_def)

lemma hashInput_store: "smStore s = smStore t \<Longrightarrow> hashInput nd s = hashInput nd t"
  by (rule hashInput_cong) simp

section \<open>The path\<close>

text \<open>The inner nodes above a key, from the root down.\<close>

definition chain :: "bool list set \<Rightarrow> bool list \<Rightarrow> bool list list \<Rightarrow> bool" where
  "chain L x ps \<longleftrightarrow> (\<forall>i. Suc i < length ps \<longrightarrow> isTop L (ps ! i @ [x ! length (ps ! i)]) (ps ! Suc i)) \<and>
     (ps \<noteq> [] \<longrightarrow> hd ps = []) \<and> (\<forall>p \<in> set ps. branching L p \<and> prefix p x)"

definition onPath :: "bool list \<Rightarrow> bool list set \<Rightarrow> bool list \<Rightarrow> bool list list \<Rightarrow> smtNode list \<Rightarrow> bool" where
  "onPath rb L x ps nds \<longleftrightarrow> chain L x ps \<and> list_all2 (\<lambda>p nd. snKey nd = nodeName rb p \<and> kids L p nd) ps nds"

lemma chain_butlast: "chain L x (ps @ [p]) \<Longrightarrow> chain L x ps"
  unfolding chain_def by (auto simp: nth_append hd_append split: if_splits)

lemma onPath_last:
  assumes "onPath rb L x (ps @ [p]) (nds @ [nd])"
  shows "snKey nd = nodeName rb p" "kids L p nd" "onPath rb L x ps nds" "chain L x (ps @ [p])"
proof -
  have all: "list_all2 (\<lambda>p nd. snKey nd = nodeName rb p \<and> kids L p nd) (ps @ [p]) (nds @ [nd])" using assms by (simp add: onPath_def)
  then have "length ps = length nds" by (auto dest: list_all2_lengthD)
  then show "snKey nd = nodeName rb p" "kids L p nd" "onPath rb L x ps nds" "chain L x (ps @ [p])"
    using all assms by (auto simp: onPath_def list_all2_append dest: chain_butlast)
qed

lemma chain_snoc:
  assumes "chain L x ps" "ps \<noteq> []" "isTop L (last ps @ [x ! length (last ps)]) q" "branching L q" "prefix q x"
  shows "chain L x (ps @ [q])"
  unfolding chain_def
proof (intro conjI allI impI)
  fix i assume "Suc i < length (ps @ [q])"
  then consider "Suc i < length ps" | "Suc i = length ps" by fastforce
  then show "isTop L ((ps @ [q]) ! i @ [x ! length ((ps @ [q]) ! i)]) ((ps @ [q]) ! Suc i)"
  proof cases
    case 1
    with assms(1) show ?thesis by (simp add: chain_def nth_append)
  next
    case 2
    then have "ps ! i = last ps" using assms(2) by (simp add: last_conv_nth flip: 2)
    with 2 assms(3) show ?thesis by (simp add: nth_append)
  qed
qed (use assms in \<open>auto simp: chain_def\<close>)

lemma chain_parent:
  assumes "chain L x (ps @ [p])" "branching L r" "isTop L (r @ [c]) p"
  shows "r \<in> set ps"
proof (cases "ps = []")
  case True
  then show ?thesis using assms(1) top_nonempty [OF assms(3)] by (simp add: chain_def)
next
  case False
  let ?q = "last ps" and ?i = "length ps - 1"
  have "Suc ?i < length (ps @ [p])" "(ps @ [p]) ! ?i = ?q" "(ps @ [p]) ! Suc ?i = p" using False by (simp_all add: nth_append last_conv_nth)
  then have "isTop L (?q @ [x ! length ?q]) p" using assms(1) unfolding chain_def by metis
  moreover have "branching L ?q" using assms(1) False by (simp add: chain_def)
  ultimately have "r = ?q" using parent_unique assms(2,3) by blast
  with False show ?thesis by simp
qed

text \<open>The path to a node is the same for all keys below it.\<close>

lemma chain_below:
  assumes "chain L x ps" "p \<in> set ps"
  shows "prefix p (last ps)"
proof -
  have "prefix (ps ! i) (last ps)" if "i < length ps" for i
    using that
  proof (induction "length ps - Suc i" arbitrary: i)
    case 0
    then have "i = length ps - 1" "ps \<noteq> []" by auto
    then show ?case by (simp add: last_conv_nth)
  next
    case (Suc k)
    then have i: "Suc i < length ps" by simp
    have "prefix (ps ! Suc i) (last ps)" using Suc i by (intro Suc.hyps) auto
    moreover have "prefix (ps ! i) (ps ! Suc i)" using assms(1) i by (auto simp: chain_def isTop_def dest: append_prefixD)
    ultimately show ?case by (blast intro: prefix_order.trans)
  qed
  with assms(2) show ?thesis by (auto simp: in_set_conv_nth)
qed

lemma chain_last_new:
  assumes "chain L x (ps @ [p])"
  shows "p \<notin> set ps"
proof
  assume "p \<in> set ps"
  then obtain i where i: "i < length ps" "ps ! i = p" by (auto simp: in_set_conv_nth)
  let ?q = "(ps @ [p]) ! Suc i"
  have "Suc i < length (ps @ [p])" "(ps @ [p]) ! i = p" using i by (simp_all add: nth_append)
  then have "isTop L (p @ [x ! length p]) ?q" "?q \<in> set (ps @ [p])" using assms unfolding chain_def by (metis, intro nth_mem)
  moreover have "prefix ?q p" using chain_below [OF assms calculation(2)] by simp
  ultimately have "prefix (p @ [x ! length p]) p" unfolding isTop_def by (meson prefix_order.trans)
  from prefix_length_le [OF this] show False by simp
qed

lemma chain_target:
  assumes "chain L x ps" "ps \<noteq> []" "prefix (last ps) y"
  shows "chain L y ps"
proof -
  have "isTop L (ps ! i @ [y ! length (ps ! i)]) (ps ! Suc i)" if i: "Suc i < length ps" for i
  proof -
    have top: "isTop L (ps ! i @ [x ! length (ps ! i)]) (ps ! Suc i)" using i assms(1) by (simp add: chain_def)
    then have "prefix (ps ! i @ [x ! length (ps ! i)]) (ps ! Suc i)" by (simp add: isTop_def)
    then have "prefix (ps ! i @ [x ! length (ps ! i)]) y"
      using chain_below [OF assms(1), of "ps ! Suc i"] i assms(3) by (blast intro: prefix_order.trans nth_mem)
    then have "y ! length (ps ! i) = x ! length (ps ! i)" by (simp add: prefix_bit)
    with top show ?thesis by simp
  qed
  moreover have "prefix p y" if "p \<in> set ps" for p
    using chain_below [OF assms(1) that] assms(3) by (rule prefix_order.trans)
  ultimately show ?thesis using assms(1) by (auto simp: chain_def)
qed

lemma between_prefix:
  assumes "prefix p x" "x < y" "length x = length y" "prefix p q" "length q \<le> length y" "take (length q) y \<le> q"
  shows "prefix p (y :: bool list)"
proof -
  have len: "length (take (length p) y) = length p" using assms(1,3) by (auto dest: prefix_length_le)
  obtain xr qr where xr: "x = p @ xr" and qr: "q = p @ qr" using assms(1,4) by (auto simp: prefix_def)
  have "p @ xr < take (length p) y @ drop (length p) y" using assms(2) xr by simp
  then have up: "p < take (length p) y \<or> p = take (length p) y" using less_append [of p "take (length p) y"] len by metis
  have "take (length q) y = take (length p) y @ take (length qr) (drop (length p) y)" unfolding qr by (simp add: take_add)
  then have "\<not> p @ qr < take (length p) y @ take (length qr) (drop (length p) y)" using assms(6) qr by (simp add: not_less)
  then have "\<not> p < take (length p) y" using less_append [of p "take (length p) y"] len by metis
  with up show ?thesis by (metis take_is_prefix)
qed

section \<open>Hashing\<close>

lemma key_cmp_le:
  assumes "q \<noteq> []" "length q \<le> length y"
  shows "key_cmp (enc y) (enc q) \<le> 0 \<longleftrightarrow> take (length q) y \<le> q"
  using key_cmp_enc [OF assms] by (auto simp: Let_def)

text \<open>Writing the last node of the path: it is settled then, and the others are as settled as before.\<close>

lemma settle_last:
  assumes tree: "treeOk H n rb M (set (ps @ [p])) s" and chain: "chain (dom M) x (ps @ [p])"
    and nd: "snKey nd = nodeName rb p" "kids (dom M) p nd" "hashed H nd s"
    and t: "smStore t = (smStore s)(nodeName rb p \<mapsto> nd)" "snKey (smRoot t) = enc rb"
  shows "treeOk H n rb M (set ps) t"
proof -
  let ?L = "dom M"
  have sound: "sound n rb M" and st: "stored M s" and se: "settled H rb ?L (set (ps @ [p])) s" using tree by (simp_all add: treeOk_def)
  have p: "branching ?L p" using chain by (simp add: chain_def)
  have same: "hashInput m t = hashInput m s" if m: "branching ?L r" "kids ?L r m" "r \<notin> set ps" for r m
  proof (rule hashInput_cong)
    fix b
    obtain q where q: "isTop ?L (r @ [b]) q" "child b m = enc q" using m(2) by (auto simp: kids_def)
    have "q \<noteq> p" using chain_parent [OF chain m(1)] q(1) m(3) by auto
    moreover have "q \<in> ?L \<or> branching ?L q" using q(1) by (simp add: isTop_def)
    ultimately have "nodeName rb q \<noteq> nodeName rb p" using nodeName_inject [OF sound, of q p] p by auto
    then show "smStore t (child b m) = smStore s (child b m)"
      using q(2) top_nonempty [OF q(1)] by (simp add: t nodeName_def)
  qed
  have "stored M t"
    unfolding stored_def
  proof (intro allI impI)
    fix l v assume l: "M l = Some v"
    then have dom: "l \<in> ?L" by auto
    then have "l \<noteq> p" using leaf_or_branching [OF sound_flat [OF sound]] p by auto
    then have "nodeName rb l \<noteq> nodeName rb p" using nodeName_inject [OF sound, of l p] p dom by auto
    then have "enc l \<noteq> nodeName rb p" using leaf_nonempty [OF sound dom] by (simp add: nodeName_def)
    then show "\<exists>nd. smStore t (enc l) = Some nd \<and> snValue nd = v" using st l by (auto simp: stored_def t)
  qed
  moreover have "settled H rb ?L (set ps) t"
    unfolding settled_def
  proof (intro allI impI)
    fix r assume r: "branching ?L r" "r \<notin> set ps"
    show "\<exists>nd. smStore t (nodeName rb r) = Some nd \<and> kids ?L r nd \<and> hashed H nd t"
    proof (cases "r = p")
      case True
      then show ?thesis using nd r same by (simp add: t hashed_def)
    next
      case False
      obtain m where m: "smStore s (nodeName rb r) = Some m" "kids ?L r m" "hashed H m s"
        using se r False by (auto simp: settled_def)
      have "nodeName rb r \<noteq> nodeName rb p" using nodeName_inject [OF sound, of r p] r p False by auto
      then show ?thesis using m same [OF r(1) m(2) r(2)] by (simp add: t hashed_def)
    qed
  qed
  ultimately show ?thesis using sound t(2) by (simp add: treeOk_def)
qed

definition opsOk :: "nat \<Rightarrow> bool list list \<Rightarrow> smt \<Rightarrow> bool" where
  "opsOk n ys s \<longleftrightarrow> map snKey (smOperations s) = map enc ys \<and> (\<forall>y \<in> set ys. length y = n)"

text \<open>Where the walk stands between two operations.\<close>

definition between :: "(bytes \<Rightarrow> bytes) \<Rightarrow> nat \<Rightarrow> bool list \<Rightarrow> (bool list \<rightharpoonup> bytes) \<Rightarrow> bool list list \<Rightarrow> smt \<Rightarrow> bool" where
  "between H n rb M ys s \<longleftrightarrow> (\<exists>ps x. ps \<noteq> [] \<and> treeOk H n rb M (set ps) s \<and>
     onPath rb (dom M) x ps (smTraversed s @ [smCurrent s]) \<and> (ys \<noteq> [] \<longrightarrow> prefix (last ps) (hd ys))) \<and>
     (ys = [] \<longrightarrow> smTraversed s = [] \<and> treeOk H n rb M {} s \<and> rooted rb s)"

lemma treeOk_mono: "treeOk H n rb M P s \<Longrightarrow> P \<subseteq> Q \<Longrightarrow> treeOk H n rb M Q s"
  by (auto simp: treeOk_def settled_def)

lemma treeOk_cong: "treeOk H n rb M P s \<Longrightarrow> smStore t = smStore s \<Longrightarrow> snKey (smRoot t) = snKey (smRoot s) \<Longrightarrow> treeOk H n rb M P t"
  using hashInput_store [of t s] by (simp add: treeOk_def settled_def stored_def hashed_def)

lemma rehash_between:
  assumes "treeOk H n rb M (set ps) s" "onPath rb (dom M) x ps (smTraversed s)" "opsOk n ys s" "length x = n"
    and "ys \<noteq> [] \<Longrightarrow> x < hd ys"
    and "ps = [] \<Longrightarrow> snKey (smCurrent s) = enc rb \<and> kids (dom M) [] (smCurrent s) \<and> rooted rb s"
  shows "between H n rb M ys (rehash H s) \<and> smOperations (rehash H s) = smOperations s"
  using assms
proof (induction ps arbitrary: s rule: rev_induct)
  case Nil
  have "chain (dom M) x [[]]" using root_branching Nil.prems(1) by (auto simp: chain_def treeOk_def)
  then have "onPath rb (dom M) x [[]] (smTraversed s @ [smCurrent s])" using Nil.prems(2,6) by (simp add: onPath_def nodeName_def)
  moreover have "smTraversed s = []" using Nil.prems(2) by (simp add: onPath_def)
  moreover have "treeOk H n rb M (set [[]]) s" "treeOk H n rb M {} s" using Nil.prems(1) by (auto intro: treeOk_mono)
  moreover have "rehash H s = s" using calculation(2) by (subst rehash.simps) simp
  ultimately show ?case using Nil.prems(6) unfolding between_def by (auto intro!: exI [of _ "[[]]"] exI [of _ x])
next
  case (snoc p ps)
  let ?L = "dom M"
  obtain nds parent where T: "smTraversed s = nds @ [parent]" and nds: "onPath rb ?L x ps nds"
    and parent: "snKey parent = nodeName rb p" "kids ?L p parent"
    using snoc.prems(2) by (auto simp: onPath_def list_all2_append1 list_all2_Cons1 dest: chain_butlast)
  have sound: "sound n rb M" using snoc.prems(1) by (simp add: treeOk_def)
  have chain: "chain ?L x (ps @ [p])" using snoc.prems(2) by (simp add: onPath_def)
  let ?s = "s\<lparr>smCurrent := parent, smTraversed := nds\<rparr>"
  show ?case
  proof (cases "smOperations s \<noteq> [] \<and> key_cmp (snKey (hd (smOperations s))) (snRight parent) \<le> 0")
    case True
    then have run: "rehash H s = ?s" by (subst rehash.simps) (simp add: T)
    obtain y ys' where ys: "ys = y # ys'" "snKey (hd (smOperations s)) = enc y" "length y = n"
      using snoc.prems(3) True by (cases ys; cases "smOperations s") (auto simp: opsOk_def)
    obtain q where q: "isTop ?L (p @ [True]) q" "snRight parent = enc q" using parent(2) by (auto simp: kids_def dest: spec [of _ True])
    have len: "length q \<le> n" using top_length [OF sound_flat [OF sound] q(1)] .
    have "take (length q) y \<le> q" using True ys q key_cmp_le [OF top_nonempty [OF q(1)], of y] len by simp
    moreover have "prefix p x" "prefix p q" using chain q(1) by (auto simp: chain_def isTop_def dest: append_prefixD)
    ultimately have "prefix p y" using snoc.prems(4,5) ys len by (intro between_prefix [of p x y q]) auto
    moreover have "treeOk H n rb M (set (ps @ [p])) ?s" using snoc.prems(1) by (rule treeOk_cong) simp_all
    moreover have "onPath rb ?L x (ps @ [p]) (smTraversed ?s @ [smCurrent ?s])" using snoc.prems(2) T by simp
    ultimately show ?thesis unfolding run between_def using ys(1) by (auto intro!: exI [of _ "ps @ [p]"] exI [of _ x])
  next
    case False
    define nd where "nd = parent\<lparr>snValue := H (hashInput parent ?s)\<rparr>"
    define u where "u = setNode nd ((snd (updateParentValue H parent ?s))\<lparr>smCurrent := nd\<rparr>)"
    have run: "rehash H s = rehash H u"
      using False by (subst rehash.simps) (auto simp: T updateParentValue_def Let_def u_def nd_def)
    have fields: "smStore u = (smStore s)(nodeName rb p \<mapsto> nd)" "smTraversed u = nds" "smOperations u = smOperations s"
      "smCurrent u = nd" "smRoot u = (if snKey parent = snKey (smRoot s) then nd else smRoot s)"
      using parent(1) by (simp_all add: setNode_def updateParentValue_def Let_def u_def nd_def)
    have root: "snKey (smRoot s) = enc rb" using snoc.prems(1) by (simp add: treeOk_def)
    have "hashInput parent ?s = hashInput parent s" by (rule hashInput_store) simp
    then have nd: "snKey nd = nodeName rb p" "kids ?L p nd" "hashed H nd s"
      using parent by (simp_all add: nd_def hashed_def hashInput_value kids_fields [of "parent\<lparr>snValue := v\<rparr>" parent for v])
    have p: "p = []" if "ps = []" using chain that by (simp add: chain_def)
    have "snKey (smRoot u) = enc rb" using fields(5) nd(1) parent(1) root by simp
    then have "treeOk H n rb M (set ps) u" by (rule settle_last [OF snoc.prems(1) chain nd fields(1)])
    moreover have "onPath rb ?L x ps (smTraversed u)" "opsOk n ys u" using nds snoc.prems(3) by (simp_all add: fields opsOk_def)
    moreover have "snKey (smCurrent u) = enc rb \<and> kids ?L [] (smCurrent u) \<and> rooted rb u" if "ps = []"
      using p [OF that] nd parent(1) root by (simp add: fields nodeName_def rooted_def Root_def)
    ultimately have "between H n rb M ys (rehash H u) \<and> smOperations (rehash H u) = smOperations u"
      using snoc.prems(4,5) by (intro snoc.IH)
    then show ?thesis unfolding run fields(3) .
  qed
qed

section \<open>Walking down to a key\<close>

definition reached :: "bool list \<Rightarrow> bool list set \<Rightarrow> bool list \<Rightarrow> bool list list \<Rightarrow> bool list \<Rightarrow> smt \<Rightarrow> bool" where
  "reached rb L x ps q s \<longleftrightarrow> ps \<noteq> [] \<and> onPath rb L x ps (smTraversed s) \<and> isTop L (last ps @ [x ! length (last ps)]) q \<and>
     snKey (smCurrent s) = enc q \<and> snValue (smCurrent s) = snValue (getNode (enc q) s) \<and> smGcp s = prefixKey (lcp x q) \<and> smBitPos s = length (lcp x q) \<and> (prefix q x \<longrightarrow> q = x)"

lemma onPath_snoc:
  assumes "onPath rb L x ps nds" "ps \<noteq> []" "isTop L (last ps @ [x ! length (last ps)]) q" "branching L q" "prefix q x"
    and "snKey nd = enc q" "kids L q nd"
  shows "onPath rb L x (ps @ [q]) (nds @ [nd])"
  using assms chain_snoc [of L x ps q] top_nonempty [OF assms(3)] by (simp add: onPath_def nodeName_def list_all2_appendI)

lemma gcp_keys:
  assumes "prefix (p @ [b]) x" "prefix (p @ [b]) q"
  shows "enc q = prefixKey (lcp x q) \<longleftrightarrow> prefix q x" "enc x = prefixKey (lcp x q) \<longleftrightarrow> prefix x q"
proof -
  have ne: "lcp x q \<noteq> []" "x \<noteq> []" "q \<noteq> []" using longest_common_prefix_max_prefix [OF assms] assms by auto
  moreover have "q = lcp x q \<longleftrightarrow> prefix q x" "x = lcp x q \<longleftrightarrow> prefix x q"
    using longest_common_prefix_prefix1 [of x q] longest_common_prefix_prefix2 [of x q]
      longest_common_prefix_max_prefix [of q x q] longest_common_prefix_max_prefix [of x x q] by (auto simp: prefix_order.eq_iff)
  ultimately show "enc q = prefixKey (lcp x q) \<longleftrightarrow> prefix q x" "enc x = prefixKey (lcp x q) \<longleftrightarrow> prefix x q"
    by (simp_all add: prefixKey_def enc_inject)
qed

lemma traverse_reaches:
  assumes "treeOk H n rb M (set ps) s" "onPath rb (dom M) x ps (smTraversed s @ [smCurrent s])" "ps \<noteq> []" "length x = n"
    and "snKey (smTarget s) = enc x" "smBitPos s = length (last ps)" "smGcp s = prefixKey (last ps)"
  shows "\<exists>t qs q. traverse s = Some t \<and> reached rb (dom M) x qs q t \<and> set ps \<subseteq> set qs \<and>
    t = s\<lparr>smTraversed := smTraversed t, smCurrent := smCurrent t, smGcp := smGcp t, smBitPos := smBitPos t\<rparr>"
  using assms
proof (induction "n - length (last ps)" arbitrary: ps s rule: less_induct)
  case less
  let ?L = "dom M" and ?p = "last ps"
  have sound: "sound n rb M" using less.prems(1) by (simp add: treeOk_def)
  note flat = sound_flat [OF sound]
  have p: "branching ?L ?p" "prefix ?p x" using less.prems(2,3) by (auto simp: onPath_def chain_def)
  have lenp: "length ?p < n" using branching_length [OF flat p(1)] .
  have cur: "kids ?L ?p (smCurrent s)" using onPath_last(2) [of rb ?L x "butlast ps" ?p "smTraversed s" "smCurrent s"] less.prems(2,3) by simp
  define b where "b = x ! length ?p"
  obtain q where q: "isTop ?L (?p @ [b]) q" "child b (smCurrent s) = enc q" using cur by (auto simp: kids_def)
  have qn: "q \<noteq> []" "length q \<le> n" using top_nonempty [OF q(1)] top_length [OF flat q(1)] by auto
  have xn: "x \<noteq> []" using less.prems(4) sound by (auto simp: sound_def)
  have px: "prefix (?p @ [b]) x" using p(2) lenp less.prems(4) by (simp add: prefix_bit b_def)
  have pq: "prefix ?p q" using q(1) by (auto simp: isTop_def dest: append_prefixD)
  have gcp: "greatestCommonPrefix (enc x) (enc q) (length ?p, prefixKey ?p) = (length (lcp x q), prefixKey (lcp x q))"
  proof -
    have "take (length ?p) x = ?p" "take (length ?p) q = ?p" "length ?p \<le> length q" using p(2) pq by (auto simp: prefix_def)
    then show ?thesis using greatestCommonPrefix_enc [OF xn qn(1), of "length ?p"] qn(2) less.prems(4) by simp
  qed
  have bit: "bitAt (snKey (smTarget s)) (smBitPos s) = b" using less.prems(4,5,6) xn lenp by (simp add: bitAt_enc b_def)
  define nd where "nd = (getNode (enc q) (s\<lparr>smTraversed := smTraversed s @ [smCurrent s]\<rparr>))\<lparr>snKey := enc q\<rparr>"
  define u where "u = s\<lparr>smTraversed := smTraversed s @ [smCurrent s], smCurrent := nd, smBitPos := length (lcp x q), smGcp := prefixKey (lcp x q)\<rparr>"
  have step: "traverse s = (if enc q \<noteq> prefixKey (lcp x q) \<or> enc x = prefixKey (lcp x q) then Some u else traverse u)"
    by (subst traverse.simps) (use bit q(2) gcp less.prems(5,6,7) in \<open>auto simp: Let_def u_def nd_def\<close>)
  have lcp: "enc q = prefixKey (lcp x q) \<longleftrightarrow> prefix q x" "enc x = prefixKey (lcp x q) \<longleftrightarrow> prefix x q"
    using gcp_keys [OF px, of q] q(1) by (simp_all add: isTop_def)
  have xq: "prefix x q \<longleftrightarrow> q = x" using qn less.prems(4) by (auto simp: prefix_def)
  show ?case
  proof (cases "prefix q x \<and> q \<noteq> x")
    case False
    then have "traverse s = Some u" using step lcp xq by auto
    moreover have "reached rb ?L x ps q u" using False less.prems(2,3) q(1)
      by (auto simp: reached_def u_def nd_def b_def getNode_def)
    ultimately show ?thesis using u_def by (intro exI [of _ u] exI [of _ ps] exI [of _ q]) simp
  next
    case True
    then have "traverse s = traverse u" using step lcp xq by auto
    have "length q < n" using True less.prems(4) prefix_length_less [of q x] by (simp add: strict_prefix_def)
    then have "q \<notin> ?L" using flat unfolding flat_def by (metis less_irrefl)
    then have qb: "branching ?L q" using q(1) by (auto simp: isTop_def)
    have "length ?p < length q" using q(1) by (auto simp: isTop_def dest: prefix_length_le)
    moreover have "prefix r ?p" if "r \<in> set ps" for r using chain_below [OF _ that] less.prems(2) by (auto simp: onPath_def)
    ultimately have "q \<notin> set ps" by (meson leD prefix_length_le)
    then obtain m where m: "smStore s (enc q) = Some m" "kids ?L q m"
      using less.prems(1) qb qn by (auto simp: treeOk_def settled_def nodeName_def)
    then have nd: "snKey nd = enc q" "kids ?L q nd"
      using kids_fields [of nd m ?L q] by (simp_all add: nd_def getNode_def)
    have "onPath rb ?L x (ps @ [q]) (smTraversed u @ [smCurrent u])"
      using onPath_snoc [OF less.prems(2,3) _ qb _ nd] q(1) True by (simp add: u_def b_def)
    moreover have "treeOk H n rb M (set (ps @ [q])) u"
      by (rule treeOk_cong [OF treeOk_mono [OF less.prems(1)]]) (auto simp: u_def)
    moreover have "lcp x q = q" using True by (metis longest_common_prefix_max_prefix longest_common_prefix_prefix2 prefix_order.eq_iff)
    ultimately have "\<exists>t qs r. traverse u = Some t \<and> reached rb ?L x qs r t \<and> set (ps @ [q]) \<subseteq> set qs \<and>
        t = u\<lparr>smTraversed := smTraversed t, smCurrent := smCurrent t, smGcp := smGcp t, smBitPos := smBitPos t\<rparr>"
      using less.prems(4,5) lenp \<open>length ?p < length q\<close> by (intro less.hyps) (simp_all add: u_def)
    then obtain t qs r where t: "traverse u = Some t" "reached rb ?L x qs r t" "set (ps @ [q]) \<subseteq> set qs"
      "t = u\<lparr>smTraversed := smTraversed t, smCurrent := smCurrent t, smGcp := smGcp t, smBitPos := smBitPos t\<rparr>" by blast
    have "t = s\<lparr>smTraversed := smTraversed t, smCurrent := smCurrent t, smGcp := smGcp t, smBitPos := smBitPos t\<rparr>"
      using t(4) by (simp add: u_def)
    with t \<open>traverse s = traverse u\<close> show ?thesis by auto
  qed
qed

section \<open>Executing an operation\<close>

text \<open>A change of the store at names that no settled node uses.\<close>

lemma settled_frame:
  assumes se: "settled H rb L P s" and r: "branching L' r" "branching L r" "r \<notin> P"
    and kids: "\<And>nd. kids L r nd \<Longrightarrow> kids L' r nd"
    and name: "smStore t (nodeName rb r) = smStore s (nodeName rb r)"
    and below: "\<And>b q. isTop L (r @ [b]) q \<Longrightarrow> smStore t (enc q) = smStore s (enc q)"
  shows "\<exists>nd. smStore t (nodeName rb r) = Some nd \<and> kids L' r nd \<and> hashed H nd t"
proof -
  obtain nd where nd: "smStore s (nodeName rb r) = Some nd" "kids L r nd" "hashed H nd s" using se r by (auto simp: settled_def)
  have "hashInput nd t = hashInput nd s"
  proof (rule hashInput_cong)
    fix b
    obtain q where "isTop L (r @ [b]) q" "child b nd = enc q" using nd(2) by (auto simp: kids_def)
    then show "smStore t (child b nd) = smStore s (child b nd)" using below by metis
  qed
  with nd kids name show ?thesis by (auto simp: hashed_def)
qed

lemma stored_update:
  assumes "sound n rb M" "stored M s" "smStore t = (smStore s)(enc x \<mapsto> nd)" "snValue nd = v" "length x = n"
  shows "stored (M(x \<mapsto> v)) t"
  unfolding stored_def
proof (intro allI impI)
  fix l w assume l: "(M(x \<mapsto> v)) l = Some w"
  show "\<exists>nd. smStore t (enc l) = Some nd \<and> snValue nd = w"
  proof (cases "l = x")
    case False
    then have "M l = Some w" using l by simp
    moreover have "x \<noteq> []" using assms(1,5) by (auto simp: sound_def)
    ultimately have "enc l \<noteq> enc x" using False leaf_nonempty [OF assms(1), of l] enc_inject [of l x] by blast
    with \<open>M l = Some w\<close> assms(2,3) show ?thesis by (auto simp: stored_def)
  qed (use l assms in auto)
qed

lemma sound_update: "sound n rb M \<Longrightarrow> length x = n \<Longrightarrow> x \<noteq> rb \<Longrightarrow> sound n rb (M(x \<mapsto> v))"
  by (auto simp: sound_def flat_def)

text \<open>Setting a leaf that is there.\<close>

lemma set_present:
  assumes tree: "treeOk H n rb M (set ps) s" and re: "reached rb (dom M) x ps x s"
    and x: "x \<in> dom M" "snKey (smTarget s) = enc x" "snValue (smTarget s) = v"
  shows "\<exists>t. smt_set s = (Inr (), t) \<and> treeOk H n rb (M(x \<mapsto> v)) (set ps) t \<and> onPath rb (dom (M(x \<mapsto> v))) x ps (smTraversed t) \<and>
    smOperations t = smOperations s"
proof -
  let ?L = "dom M" and ?t = "setNode (smTarget s) s"
  have sound: "sound n rb M" and root: "snKey (smRoot s) = enc rb" and st: "stored M s" and se: "settled H rb ?L (set ps) s"
    using tree by (simp_all add: treeOk_def)
  have len: "length x = n" using sound x(1) by (auto simp: sound_def flat_def)
  have dom: "dom (M(x \<mapsto> v)) = ?L" using x(1) by auto
  have xn: "x \<noteq> []" using leaf_nonempty [OF sound x(1)] .
  have "lcp x x = x" by (rule lcp_whole) simp
  then have run: "smt_set s = (Inr (), ?t)" using re x(2) xn by (simp add: smt_set_def reached_def prefixKey_def)
  have store: "smStore ?t = (smStore s)(enc x \<mapsto> smTarget s)" using x(2) by (simp add: setNode_def)
  have last: "branching ?L (last ps)" "isTop ?L (last ps @ [x ! length (last ps)]) x" "last ps \<in> set ps"
    using re by (auto simp: reached_def onPath_def chain_def)
  have "settled H rb ?L (set ps) ?t"
    unfolding settled_def
  proof (intro allI impI)
    fix r assume r: "branching ?L r" "r \<notin> set ps"
    have "nodeName rb r \<noteq> nodeName rb x" using nodeName_inject [OF sound, of r x] leaf_or_branching [OF sound_flat [OF sound], of x] r(1) x(1) by auto
    then have "nodeName rb r \<noteq> enc x" using xn by (simp add: nodeName_def)
    moreover have "enc q \<noteq> enc x" if "isTop ?L (r @ [b]) q" for b q
      using that parent_unique [OF r(1) last(1) _ last(2)] r(2) last(3) top_nonempty xn by (auto simp: enc_inject)
    ultimately show "\<exists>nd. smStore ?t (nodeName rb r) = Some nd \<and> kids ?L r nd \<and> hashed H nd ?t"
      by (intro settled_frame [OF se r(1) r(1) r(2)]) (simp_all add: store)
  qed
  moreover have "stored (M(x \<mapsto> v)) ?t" using stored_update [OF sound st store x(3) len] .
  moreover have "sound n rb (M(x \<mapsto> v))" using sound_update [OF sound len] sound x(1) by (auto simp: sound_def)
  ultimately have "treeOk H n rb (M(x \<mapsto> v)) (set ps) ?t" using root dom by (simp add: treeOk_def setNode_def)
  then show ?thesis using run re dom by (auto simp: reached_def setNode_def)
qed

text \<open>Replacing a child that is there.\<close>

lemma replace_kid:
  assumes "flat n L" "kids L p nd" "isTop L (p @ [b]) q"
  shows "\<exists>nd'. replaceChild (enc q) k nd = Inr nd' \<and> snKey nd' = snKey nd \<and> child b nd' = k \<and> child (\<not> b) nd' = child (\<not> b) nd"
proof -
  obtain r where r: "isTop L (p @ [\<not> b]) r" "child (\<not> b) nd = enc r" using assms(2) by (auto simp: kids_def)
  have b: "child b nd = enc q" using kids_child [OF assms] .
  have "prefix (p @ [b]) q" "prefix (p @ [\<not> b]) r" using assms(3) r(1) by (simp_all add: isTop_def)
  then have "q \<noteq> r" by (auto simp: prefix_bit)
  then have "enc r \<noteq> enc q" using enc_inject top_nonempty [OF assms(3)] top_nonempty [OF r(1)] by blast
  with b r(2) show ?thesis by (cases b) (auto simp: replaceChild_def)
qed

lemma kids_insert: "insertion n L p b q x \<Longrightarrow> branching L r \<Longrightarrow> r \<noteq> p \<Longrightarrow> kids L r nd \<Longrightarrow> kids (insert x L) r nd"
  unfolding kids_def using isTop_insert_other by (metis prod.inject)

lemma reached_absent:
  assumes "sound n rb M" "length x = n" "reached rb (dom M) x ps q s" "x \<notin> dom M"
  shows "insertion n (dom M) (last ps) (x ! length (last ps)) q x"
proof -
  let ?p = "last ps"
  note flat = sound_flat [OF assms(1)]
  have p: "branching (dom M) ?p" "prefix ?p x" and q: "isTop (dom M) (?p @ [x ! length ?p]) q" "prefix q x \<longrightarrow> q = x"
    using assms(3) by (auto simp: reached_def onPath_def chain_def)
  have "q \<noteq> x" using q(1) assms(2,4) branching_length [OF flat, of x] by (auto simp: isTop_def)
  moreover have "prefix (?p @ [x ! length ?p]) x" using p(2) branching_length [OF flat p(1)] assms(2) by (simp add: prefix_bit)
  ultimately show ?thesis using flat p q assms(2) by (auto simp: insertion_def)
qed

lemma onPath_insert:
  assumes ins: "insertion n L p (x ! length p) q x" and path: "onPath rb L x (ps @ [p]) (nds @ [old])"
    and old: "snKey nd = snKey old" "child (x ! length p) nd = enc (lcp x q)" "child (\<not> x ! length p) nd = child (\<not> x ! length p) old"
    and new: "snKey g = enc (lcp x q)" "child (x ! length (lcp x q)) g = enc x" "child (\<not> x ! length (lcp x q)) g = enc q"
  shows "onPath rb (insert x L) x (ps @ [p, lcp x q]) (nds @ [nd, g])"
proof -
  let ?L = "insert x L" and ?g = "lcp x q" and ?b = "x ! length p"
  note op = onPath_last [OF path] and ip = insertion_point [OF ins]
  have a: "flat n L" "branching L p" "isTop L (p @ [?b]) q" "\<not> prefix q x" using ins by (auto simp: insertion_def)
  have br: "branching ?L r" if "branching L r" for r using that by (rule branching_mono) auto
  have "isTop ?L ((ps @ [p]) ! i @ [x ! length ((ps @ [p]) ! i)]) ((ps @ [p]) ! Suc i)" if i: "Suc i < length (ps @ [p])" for i
  proof -
    have top: "isTop L ((ps @ [p]) ! i @ [x ! length ((ps @ [p]) ! i)]) ((ps @ [p]) ! Suc i)" using op(4) i by (simp add: chain_def)
    have "(ps @ [p]) ! i \<in> set ps" "(ps @ [p]) ! i \<in> set (ps @ [p])" using i by (simp_all add: nth_append)
    then have "branching L ((ps @ [p]) ! i)" "(ps @ [p]) ! i \<noteq> p" using op(4) chain_last_new [OF op(4)] by (auto simp: chain_def)
    with top show ?thesis by (intro isTop_insert_other [OF ins]) auto
  qed
  then have "chain ?L x (ps @ [p])" using op(4) br unfolding chain_def by (auto simp: hd_append split: if_splits)
  then have chain: "chain ?L x (ps @ [p, ?g])"
    using chain_snoc [of ?L x "ps @ [p]" ?g] isTop_insert(1) [OF ins] branching_insert [OF ins] ip(2) by simp
  have "kids ?L p nd"
    unfolding kids_def
  proof
    fix c
    obtain r where r: "isTop L (p @ [c]) r" "child c old = enc r" using op(2) by (auto simp: kids_def)
    show "\<exists>q. isTop ?L (p @ [c]) q \<and> child c nd = enc q"
    proof (cases "c = ?b")
      case False
      then have "isTop ?L (p @ [c]) r" using isTop_insert_other [OF ins a(2) r(1)] by auto
      moreover have "child c nd = enc r" using old(3) r(2) False by (cases c; cases ?b) auto
      ultimately show ?thesis by blast
    qed (use isTop_insert(1) [OF ins] old(2) in blast)
  qed
  moreover have "kids ?L ?g g"
    unfolding kids_def
  proof
    fix c show "\<exists>q. isTop ?L (?g @ [c]) q \<and> child c g = enc q"
    proof (cases "c = x ! length ?g")
      case False
      then have "c = (\<not> x ! length ?g)" by auto
      then show ?thesis using isTop_insert(3) [OF ins] new(3) by blast
    qed (use isTop_insert(2) [OF ins] new(2) in blast)
  qed
  moreover have "list_all2 (\<lambda>p nd. snKey nd = nodeName rb p \<and> kids ?L p nd) ps nds"
  proof (rule list_all2_mono)
    show "list_all2 (\<lambda>r nd. r \<in> set ps \<and> snKey nd = nodeName rb r \<and> kids L r nd) ps nds"
      using op(3) by (auto simp: onPath_def list_all2_conv_all_nth)
    fix r m assume "r \<in> set ps \<and> snKey m = nodeName rb r \<and> kids L r m"
    moreover from this have "branching L r" "r \<noteq> p" using op(4) chain_last_new [OF op(4)] by (auto simp: chain_def)
    ultimately show "snKey m = nodeName rb r \<and> kids ?L r m" using kids_insert [OF ins] by blast
  qed
  moreover have "?g \<noteq> []" using ip(1) by auto
  ultimately show ?thesis using chain op(1) old(1) new(1)
    by (simp add: onPath_def nodeName_def list_all2_appendI)
qed

text \<open>Setting a leaf that is not there: a new inner node takes the place of the node that was reached.\<close>

lemma set_absent:
  assumes tree: "treeOk H n rb M (set ps) s" and re: "reached rb (dom M) x ps q s"
    and x: "x \<notin> dom M" "length x = n" "x \<noteq> rb" "snKey (smTarget s) = enc x" "snValue (smTarget s) = v"
  shows "\<exists>t. smt_set s = (Inr (), t) \<and> treeOk H n rb (M(x \<mapsto> v)) (set (ps @ [lcp x q])) t \<and>
    onPath rb (dom (M(x \<mapsto> v))) x (ps @ [lcp x q]) (smTraversed t) \<and> smOperations t = smOperations s"
proof -
  let ?L = "dom M" and ?p = "last ps" and ?g = "lcp x q"
  have sound: "sound n rb M" and root: "snKey (smRoot s) = enc rb" and st: "stored M s" and se: "settled H rb ?L (set ps) s"
    using tree by (simp_all add: treeOk_def)
  have ins: "insertion n ?L ?p (x ! length ?p) q x" using reached_absent [OF sound x(2) re x(1)] .
  note ip = insertion_point [OF ins] and flat = sound_flat [OF sound]
  have top: "isTop ?L (?p @ [x ! length ?p]) q" and pn: "ps \<noteq> []" and gcp: "smGcp s = enc ?g" "smBitPos s = length ?g" "snKey (smCurrent s) = enc q"
    using re ip(1) by (auto simp: reached_def prefixKey_def)
  have xn: "x \<noteq> []" "?g \<noteq> []" using ip(1,2) by auto
  obtain nds old where T: "smTraversed s = nds @ [old]" using re pn by (cases "smTraversed s" rule: rev_cases) (auto simp: reached_def onPath_def)
  have path: "onPath rb ?L x (butlast ps @ [?p]) (nds @ [old])" using re pn T by (simp add: reached_def)
  obtain nd where nd: "replaceChild (enc q) (enc ?g) old = Inr nd" "snKey nd = snKey old" "child (x ! length ?p) nd = enc ?g"
    "child (\<not> x ! length ?p) nd = child (\<not> x ! length ?p) old"
    using replace_kid [OF flat onPath_last(2) [OF path] top] by blast
  define g where "g = (if x ! length ?g then setChildren (enc q) (enc x) else setChildren (enc x) (enc q)) (newNode\<lparr>snKey := enc ?g\<rparr>)"
  define t where "t = setNode (smTarget s) (s\<lparr>smTraversed := nds @ [nd, g]\<rparr>)"
  have "length ?g < length x" using ip(2,5) prefix_length_less [of ?g x] by (simp add: strict_prefix_def)
  then have run: "smt_set s = (Inr (), t)" using nd(1) gcp x(4) xn ip(5)
    by (simp add: smt_set_def T enc_inject bitAt_enc Let_def t_def g_def)
  have fields: "smStore t = (smStore s)(enc x \<mapsto> smTarget s)" "smTraversed t = nds @ [nd, g]" "smOperations t = smOperations s" "smRoot t = smRoot s"
    using x(4) by (simp_all add: t_def setNode_def)
  have g: "snKey g = enc ?g" "child (x ! length ?g) g = enc x" "child (\<not> x ! length ?g) g = enc q"
    by (simp_all add: g_def setChildren_def)
  have "onPath rb (insert x ?L) x (butlast ps @ [?p, ?g]) (nds @ [nd, g])" using onPath_insert [OF ins path nd(2,3,4) g] .
  then have path': "onPath rb (insert x ?L) x (ps @ [?g]) (smTraversed t)" using pn fields(2) append_butlast_last_id [OF pn] by (metis append.assoc append_Cons append_Nil)
  have "settled H rb (insert x ?L) (set (ps @ [?g])) t"
    unfolding settled_def
  proof (intro allI impI)
    fix r assume r: "branching (insert x ?L) r" "r \<notin> set (ps @ [?g])"
    then have r': "branching ?L r" "r \<notin> set ps" "r \<noteq> ?p" using branching_insert [OF ins] pn by auto
    have "r \<noteq> x" "r \<noteq> rb" using branching_length [OF flat r'(1)] x(2) sound by (auto simp: sound_def)
    then have "nodeName rb r \<noteq> enc x" using xn x(3) sound by (auto simp: nodeName_def enc_inject sound_def)
    moreover have "enc c \<noteq> enc x" if c: "isTop ?L (r @ [b]) c" for b c
    proof -
      have "c \<noteq> x" using c x(1,2) branching_length [OF flat, of x] by (auto simp: isTop_def)
      then show ?thesis using top_nonempty [OF c] xn by (simp add: enc_inject)
    qed
    ultimately show "\<exists>nd. smStore t (nodeName rb r) = Some nd \<and> kids (insert x ?L) r nd \<and> hashed H nd t"
      using kids_insert [OF ins r'(1,3)] by (intro settled_frame [OF se r(1) r'(1,2)]) (simp_all add: fields)
  qed
  moreover have "stored (M(x \<mapsto> v)) t" using stored_update [OF sound st fields(1) x(5,2)] .
  ultimately have "treeOk H n rb (M(x \<mapsto> v)) (set (ps @ [?g])) t" using root sound_update [OF sound x(2,3)] fields(4) by (simp add: treeOk_def)
  then show ?thesis using run path' fields(3) by auto
qed

lemma reached_present:
  assumes "sound n rb M" "reached rb (dom M) x ps q s" "x \<in> dom M"
  shows "q = x"
proof -
  let ?p = "last ps"
  have p: "branching (dom M) ?p" "prefix ?p x" and q: "isTop (dom M) (?p @ [x ! length ?p]) q" "prefix q x \<longrightarrow> q = x"
    using assms(2) by (auto simp: reached_def onPath_def chain_def)
  have "length x = n" using assms(1,3) by (auto simp: sound_def flat_def)
  then have "prefix (?p @ [x ! length ?p]) x" using p branching_length [OF sound_flat [OF assms(1)] p(1)] by (simp add: prefix_bit)
  then show ?thesis using q assms(3) by (simp add: isTop_def)
qed

text \<open>A leaf that is not a border has a grandparent.\<close>

lemma has_grandparent:
  assumes "sound n rb M" "reached rb (dom M) x ps x s" "x \<noteq> replicate n False" "x \<noteq> replicate n True" "x \<in> dom M"
  shows "\<exists>qs r p. ps = qs @ [r, p]"
proof (rule ccontr)
  assume no: "\<not> ?thesis"
  obtain rs p where "ps = rs @ [p]" using assms(2) by (cases ps rule: rev_cases) (auto simp: reached_def)
  then have ps: "ps = [p]" using no by (cases rs rule: rev_cases) auto
  have "p = []" and top: "isTop (dom M) [x ! 0] x" using assms(2) ps by (auto simp: reached_def onPath_def chain_def)
  have n: "0 < n" and flat: "flat n (dom M)" using assms(1) by (simp_all add: sound_def)
  have l: "replicate n (x ! 0) \<in> dom M" using assms(1) by (cases "x ! 0") (auto simp: sound_def)
  have "prefix [x ! 0] (replicate n (x ! 0))" using n by (cases n) auto
  then have "prefix x (replicate n (x ! 0))" using top l unfolding isTop_def by blast
  then have "x = replicate n (x ! 0)" using flat_prefix [OF flat assms(5) l] by blast
  then show False using assms(3,4) by (cases "x ! 0") auto
qed

lemma kids_delete: "removal n L r d p b q x \<Longrightarrow> branching (L - {x}) u \<Longrightarrow> u \<noteq> r \<Longrightarrow> kids L u nd \<Longrightarrow> kids (L - {x}) u nd"
  unfolding kids_def using isTop_delete_other by (metis prod.inject)

lemma onPath_delete:
  assumes del: "removal n L r (x ! length r) p b q x" and path: "onPath rb L x (ps @ [r]) (nds @ [old])"
    and new: "snKey nd = snKey old" "child (x ! length r) nd = enc q" "child (\<not> x ! length r) nd = child (\<not> x ! length r) old"
    and p: "p \<notin> set (ps @ [r])"
  shows "onPath rb (L - {x}) x (ps @ [r]) (nds @ [nd])"
proof -
  let ?L = "L - {x}" and ?d = "x ! length r"
  note op = onPath_last [OF path]
  have br: "branching ?L u" if "u \<in> set (ps @ [r])" for u using that op(4) p by (auto simp: branching_delete [OF del] chain_def)
  have other: "u \<noteq> r" if "u \<in> set ps" for u using that chain_last_new [OF op(4)] by auto
  have "isTop ?L ((ps @ [r]) ! i @ [x ! length ((ps @ [r]) ! i)]) ((ps @ [r]) ! Suc i)" if i: "Suc i < length (ps @ [r])" for i
  proof -
    have "(ps @ [r]) ! i \<in> set ps" using i by (simp add: nth_append)
    then have "(ps @ [r]) ! i \<noteq> r" "branching ?L ((ps @ [r]) ! i)" using other br by auto
    then show ?thesis using op(4) i by (intro isTop_delete_other [OF del]) (auto simp: chain_def)
  qed
  then have chain: "chain ?L x (ps @ [r])" using op(4) br unfolding chain_def by auto
  have "kids ?L r nd"
    unfolding kids_def
  proof
    fix c
    obtain u where u: "isTop L (r @ [c]) u" "child c old = enc u" using op(2) by (auto simp: kids_def)
    show "\<exists>q. isTop ?L (r @ [c]) q \<and> child c nd = enc q"
    proof (cases "c = ?d")
      case False
      then have "isTop ?L (r @ [c]) u" using isTop_delete_other [OF del _ u(1)] br by auto
      moreover have "child c nd = enc u" using new(3) u(2) False by (cases c; cases ?d) auto
      ultimately show ?thesis by blast
    qed (use isTop_delete [OF del] new(2) in blast)
  qed
  moreover have "list_all2 (\<lambda>p nd. snKey nd = nodeName rb p \<and> kids ?L p nd) ps nds"
  proof (rule list_all2_mono)
    show "list_all2 (\<lambda>u nd. u \<in> set ps \<and> snKey nd = nodeName rb u \<and> kids L u nd) ps nds"
      using op(3) by (auto simp: onPath_def list_all2_conv_all_nth)
    fix u m assume "u \<in> set ps \<and> snKey m = nodeName rb u \<and> kids L u m"
    then show "snKey m = nodeName rb u \<and> kids ?L u m" using kids_delete [OF del br other] by auto
  qed
  ultimately show ?thesis using chain op(1) new(1) by (simp add: onPath_def list_all2_appendI)
qed

lemma settled_delete:
  assumes sound: "sound n rb M" and del: "removal n (dom M) r d p b q x" and se: "settled H rb (dom M) (insert p P) s"
    and t: "smStore t = (smStore s)(enc p := None, enc x := None)" and r: "r \<in> P"
  shows "settled H rb (dom M - {x}) P t"
  unfolding settled_def
proof (intro allI impI)
  let ?L = "dom M"
  fix u assume u: "branching (?L - {x}) u" "u \<notin> P"
  then have u': "branching ?L u" "u \<noteq> p" "u \<notin> insert p P" "u \<noteq> r" using r by (auto simp: branching_delete [OF del])
  have a: "flat n ?L" "x \<in> ?L" "branching ?L r" "isTop ?L (r @ [d]) p" "branching ?L p" "isTop ?L (p @ [b]) x" using del by (simp_all add: removal_def)
  have ne: "p \<noteq> []" "x \<noteq> []" using top_nonempty a(4,6) by blast+
  have "nodeName rb u \<noteq> nodeName rb p" "nodeName rb u \<noteq> nodeName rb x"
    using nodeName_inject [OF sound] u'(1,2) a(2,5) leaf_or_branching [OF a(1,2)] by blast+
  moreover have "enc c \<noteq> enc x \<and> enc c \<noteq> enc p" if c: "isTop ?L (u @ [e]) c" for e c
  proof -
    have "c \<noteq> x" using parent_unique [OF u'(1) a(5) c] a(6) u'(2) by auto
    moreover have "c \<noteq> p" using parent_unique [OF u'(1) a(3) c] a(4) u'(4) by auto
    ultimately show ?thesis using top_nonempty [OF c] ne by (simp add: enc_inject)
  qed
  ultimately show "\<exists>nd. smStore t (nodeName rb u) = Some nd \<and> kids (?L - {x}) u nd \<and> hashed H nd t"
    using kids_delete [OF del u(1) u'(4)] ne by (intro settled_frame [OF se u(1) u'(1,3)]) (simp_all add: t nodeName_below)
qed

lemma stored_delete:
  assumes "sound n rb M" "stored M s" "smStore t = (smStore s)(enc p := None, enc x := None)" "branching (dom M) p" "p \<noteq> []" "x \<noteq> []"
  shows "stored (M(x := None)) t"
  unfolding stored_def
proof (intro allI impI)
  fix l v assume l: "(M(x := None)) l = Some v"
  then have l': "M l = Some v" "l \<noteq> x" by (auto split: if_splits)
  then have "l \<noteq> p" "l \<noteq> []" using leaf_or_branching [OF sound_flat [OF assms(1)], of l] assms(4) leaf_nonempty [OF assms(1), of l] by auto
  then show "\<exists>nd. smStore t (enc l) = Some nd \<and> snValue nd = v" using assms(2,3,5,6) l' by (auto simp: stored_def enc_inject)
qed

text \<open>Deleting a leaf: its sibling takes the place of their parent.\<close>

lemma delete_present:
  assumes tree: "treeOk H n rb M (set ps) s" and re: "reached rb (dom M) x ps x s"
    and x: "x \<in> dom M" "x \<noteq> replicate n False" "x \<noteq> replicate n True" "snKey (smTarget s) = enc x"
  shows "\<exists>t. smt_delete s = (Inr (), t) \<and> treeOk H n rb (M(x := None)) (set (butlast ps)) t \<and>
    onPath rb (dom (M(x := None))) x (butlast ps) (smTraversed t) \<and> smOperations t = smOperations s"
proof -
  let ?L = "dom M"
  have sound: "sound n rb M" and root: "snKey (smRoot s) = enc rb" and st: "stored M s" and se: "settled H rb ?L (set ps) s"
    using tree by (simp_all add: treeOk_def)
  note flat = sound_flat [OF sound]
  obtain qs r p where ps: "ps = (qs @ [r]) @ [p]" using has_grandparent [OF sound re x(2,3,1)] by auto
  obtain nds old parent where T: "smTraversed s = (nds @ [old]) @ [parent]"
    using re ps by (cases "smTraversed s" rule: rev_cases; cases "butlast (smTraversed s)" rule: rev_cases)
      (auto simp: reached_def onPath_def dest: list_all2_lengthD)
  have path: "onPath rb ?L x ((qs @ [r]) @ [p]) ((nds @ [old]) @ [parent])" using re ps T by (simp add: reached_def)
  note op = onPath_last [OF path] and op2 = onPath_last [OF onPath_last(3) [OF path]]
  define b d where "b = x ! length p" and "d = x ! length r"
  have top: "isTop ?L (p @ [b]) x" using re ps by (simp add: reached_def b_def)
  have rtop: "isTop ?L (r @ [d]) p"
    using op(4) unfolding chain_def d_def by (auto simp: nth_append dest!: spec [of _ "length qs"])
  have br: "branching ?L r" "branching ?L p" using op(4) by (auto simp: chain_def)
  obtain q where q: "isTop ?L (p @ [\<not> b]) q" "child (\<not> b) parent = enc q" using op(2) by (auto simp: kids_def)
  have del: "removal n ?L r d p b q x" using flat x(1) br rtop top q(1) by (simp add: removal_def)
  have pn: "p \<noteq> []" "x \<noteq> []" "q \<noteq> []" using top_nonempty rtop top q(1) by blast+
  obtain nd where nd: "replaceChild (enc p) (enc q) old = Inr nd" "snKey nd = snKey old" "child d nd = enc q" "child (\<not> d) nd = child (\<not> d) old"
    using replace_kid [OF flat op2(2) rtop] by blast
  have bx: "child b parent = enc x" using kids_child [OF flat op(2) top] .
  have "q \<noteq> x" using q(1) top by (auto simp: isTop_def prefix_bit)
  then have other: "\<exists>i. getOtherChild (enc x) parent = Inr (enc q, i)"
    using bx q(2) pn by (cases b) (auto simp: getOtherChild_def enc_inject)
  define t where "t = delNode (enc x) (delNode (enc p) (s\<lparr>smTraversed := nds @ [nd]\<rparr>))"
  have "lcp x x = x" by (rule lcp_whole) simp
  then have "smGcp s = enc x" using re pn by (simp add: reached_def prefixKey_def)
  then have run: "smt_delete s = (Inr (), t)" using other x(4) nd(1) op(1) pn
    by (auto simp: smt_delete_def T nth_append Let_def t_def nodeName_def)
  have fields: "smStore t = (smStore s)(enc p := None, enc x := None)" "smTraversed t = nds @ [nd]" "smOperations t = smOperations s" "smRoot t = smRoot s"
    by (simp_all add: t_def delNode_def)
  have dom: "dom (M(x := None)) = ?L - {x}" by auto
  have "onPath rb (?L - {x}) x (qs @ [r]) (nds @ [nd])"
    using onPath_delete [OF del [unfolded d_def] op(3) nd(2) nd(3,4) [unfolded d_def]] chain_last_new [OF op(4)] by simp
  moreover have "settled H rb ?L (insert p (set (qs @ [r]))) s" using se ps by (simp add: insert_commute)
  then have "settled H rb (?L - {x}) (set (qs @ [r])) t" by (rule settled_delete [OF sound del _ fields(1)]) simp
  moreover have "stored (M(x := None)) t" using stored_delete [OF sound st fields(1) br(2)] pn by blast
  moreover have "sound n rb (M(x := None))" using sound x(2,3) by (auto simp: sound_def flat_def)
  ultimately have "treeOk H n rb (M(x := None)) (set (qs @ [r])) t" "onPath rb (dom (M(x := None))) x (qs @ [r]) (smTraversed t)"
    using root fields(2,4) unfolding treeOk_def dom by simp_all
  then show ?thesis using run ps fields(3) by (auto simp: butlast_append)
qed

section \<open>A batch of operations\<close>

definition applyOp :: "bool list \<times> smtNode \<Rightarrow> (bool list \<rightharpoonup> bytes) \<Rightarrow> (bool list \<rightharpoonup> bytes)" where
  "applyOp = (\<lambda>(y, nd) M. if snDelete nd then M(y := None) else M(y \<mapsto> snValue nd))"

text \<open>Keys that are neither that of the root nor those of the borders.\<close>

definition plainKey :: "nat \<Rightarrow> bool list \<Rightarrow> bool list \<Rightarrow> bool" where
  "plainKey n rb y \<longleftrightarrow> length y = n \<and> y \<noteq> rb \<and> y \<noteq> replicate n False \<and> y \<noteq> replicate n True"

lemma operation_executes:
  assumes tree: "treeOk H n rb M (set ps) s" and re: "reached rb (dom M) y ps q s" and y: "plainKey n rb y"
    and target: "snKey (smTarget s) = enc y"
  shows "\<exists>t qs. (if snDelete (smTarget s) then smt_delete s else smt_set s) = (Inr (), t) \<and> qs \<noteq> [] \<and>
    treeOk H n rb (applyOp (y, smTarget s) M) (set qs) t \<and> onPath rb (dom (applyOp (y, smTarget s) M)) y qs (smTraversed t) \<and>
    smOperations t = smOperations s"
proof -
  have sound: "sound n rb M" using tree by (simp add: treeOk_def)
  have pn: "ps \<noteq> []" and gcp: "smGcp s = prefixKey (lcp y q)" and path: "onPath rb (dom M) y ps (smTraversed s)" using re by (simp_all add: reached_def)
  have yn: "length y = n" "y \<noteq> []" using y sound by (auto simp: plainKey_def sound_def)
  consider (del) "snDelete (smTarget s)" "y \<in> dom M" | (none) "snDelete (smTarget s)" "y \<notin> dom M"
    | (upd) "\<not> snDelete (smTarget s)" "y \<in> dom M" | (ins) "\<not> snDelete (smTarget s)" "y \<notin> dom M" by blast
  then show ?thesis
  proof cases
    case del
    have re': "reached rb (dom M) y ps y s" using re reached_present [OF sound re del(2)] by simp
    then obtain qs r p where "ps = qs @ [r, p]" using has_grandparent [OF sound re'] y del(2) by (auto simp: plainKey_def)
    then have "butlast ps \<noteq> []" by (simp add: butlast_append)
    with delete_present [OF tree re' del(2) _ _ target] y del(1) show ?thesis by (auto simp: plainKey_def applyOp_def)
  next
    case none
    have "insertion n (dom M) (last ps) (y ! length (last ps)) q y" using reached_absent [OF sound yn(1) re none(2)] .
    note ip = insertion_point [OF this]
    have "enc y \<noteq> smGcp s" using ip(1,5) gcp yn(2) by (auto simp: prefixKey_def enc_inject)
    then have "smt_delete s = (Inr (), s)" using target by (simp add: smt_delete_def)
    moreover have "applyOp (y, smTarget s) M = M" using none by (auto simp: applyOp_def)
    ultimately show ?thesis using tree path pn none(1) by auto
  next
    case upd
    have "reached rb (dom M) y ps y s" using re reached_present [OF sound re upd(2)] by simp
    from set_present [OF tree this upd(2) target refl] show ?thesis using upd(1) pn by (auto simp: applyOp_def)
  next
    case ins
    have "y \<noteq> rb" using y by (simp add: plainKey_def)
    from set_absent [OF tree re ins(2) yn(1) this target refl] obtain t where "smt_set s = (Inr (), t)"
      "treeOk H n rb (applyOp (y, smTarget s) M) (set (ps @ [lcp y q])) t"
      "onPath rb (dom (applyOp (y, smTarget s) M)) y (ps @ [lcp y q]) (smTraversed t)" "smOperations t = smOperations s"
      using ins(1) by (auto simp: applyOp_def)
    then show ?thesis using ins(1) by (intro exI [of _ t] exI [of _ "ps @ [lcp y q]"]) simp
  qed
qed

lemma start_reaches:
  assumes bt: "between H n rb M (y # ys) s" and ops: "opsOk n (y # ys) s"
  shows "\<exists>t ps q. traverse (startOperation False s) = Some t \<and> treeOk H n rb M (set ps) t \<and> reached rb (dom M) y ps q t \<and>
    smTarget t = hd (smOperations s) \<and> smOperations t = tl (smOperations s)"
proof -
  obtain ps x where ps: "ps \<noteq> []" "treeOk H n rb M (set ps) s" "onPath rb (dom M) x ps (smTraversed s @ [smCurrent s])" "prefix (last ps) y"
    using bt by (auto simp: between_def)
  have path: "onPath rb (dom M) y ps (smTraversed s @ [smCurrent s])" using ps(3) chain_target [OF _ ps(1,4)] by (auto simp: onPath_def)
  have len: "length ps = Suc (length (smTraversed s))" using path by (auto simp: onPath_def dest: list_all2_lengthD)
  obtain rs p where rs: "ps = rs @ [p]" using ps(1) by (cases ps rule: rev_cases) auto
  have key: "snKey (smCurrent s) = nodeName rb p" using onPath_last(1) path rs by blast
  have target: "snKey (hd (smOperations s)) = enc y" and yl: "length y = n" using ops by (cases "smOperations s"; auto simp: opsOk_def)+
  have yn: "y \<noteq> []" using yl ps(2) by (auto simp: treeOk_def sound_def)
  let ?u = "startOperation False s"
  have fields: "smTarget ?u = hd (smOperations s)" "smOperations ?u = tl (smOperations s)" "smTraversed ?u = smTraversed s"
    "smCurrent ?u = smCurrent s" "smStore ?u = smStore s" "smRoot ?u = smRoot s"
    by (simp_all add: startOperation_def resetGCP_def Let_def)
  have "smBitPos ?u = length p \<and> smGcp ?u = prefixKey p"
  proof (cases "smTraversed s = []")
    case True
    then have "p = []" using len rs path by (auto simp: onPath_def chain_def)
    with True show ?thesis by (simp add: startOperation_def resetGCP_def prefixKey_def Let_def)
  next
    case False
    then obtain r qs where qs: "rs = qs @ [r]" using len rs by (cases rs rule: rev_cases) auto
    have "chain (dom M) y (rs @ [p])" using path rs by (simp add: onPath_def)
    then have "isTop (dom M) (r @ [y ! length r]) p" unfolding chain_def qs by (auto simp: nth_append dest!: spec [of _ "length qs"])
    then have pn: "p \<noteq> []" by (rule top_nonempty)
    have py: "prefix p y" using ps(4) rs by simp
    then have "lcp y p = p" "length p \<le> length y" by (auto intro: lcp_whole simp: prefix_def)
    then have "greatestCommonPrefix (enc y) (enc p) (0, []) = (length p, prefixKey p)"
      using greatestCommonPrefix_enc [OF yn pn, of 0] by (simp add: prefixKey_def)
    then show ?thesis using False key pn target by (simp add: startOperation_def resetGCP_def nodeName_def Let_def)
  qed
  moreover have "treeOk H n rb M (set ps) ?u" using ps(2) by (rule treeOk_cong) (simp_all add: fields)
  ultimately have "\<exists>t qs q. traverse ?u = Some t \<and> reached rb (dom M) y qs q t \<and> set ps \<subseteq> set qs \<and>
      t = ?u\<lparr>smTraversed := smTraversed t, smCurrent := smCurrent t, smGcp := smGcp t, smBitPos := smBitPos t\<rparr>"
    using path ps(1) yl target rs by (intro traverse_reaches) (simp_all add: fields)
  then obtain t qs q where t: "traverse ?u = Some t" "reached rb (dom M) y qs q t" "set ps \<subseteq> set qs"
    "t = ?u\<lparr>smTraversed := smTraversed t, smCurrent := smCurrent t, smGcp := smGcp t, smBitPos := smBitPos t\<rparr>" by blast
  have same: "smTarget t = smTarget ?u" "smOperations t = smOperations ?u" "smStore t = smStore ?u" "smRoot t = smRoot ?u"
    by (subst t(4), simp)+
  have "treeOk H n rb M (set qs) t" by (rule treeOk_cong [OF treeOk_mono [OF ps(2) t(3)]]) (simp_all add: same fields)
  with t same fields show ?thesis by auto
qed

theorem commit_settles:
  assumes "between H n rb M ys s" "opsOk n ys s" "sorted_wrt (<) ys" "\<And>y. y \<in> set ys \<Longrightarrow> plainKey n rb y"
  shows "\<exists>t. commit H False s = Some (Inr (), t) \<and> treeOk H n rb (fold applyOp (zip ys (smOperations s)) M) {} t \<and>
    rooted rb t"
  using assms
proof (induction ys arbitrary: s M)
  case Nil
  then have "smOperations s = []" "smTraversed s = []" "treeOk H n rb M {} s" "rooted rb s" by (auto simp: opsOk_def between_def)
  then show ?case by (subst commit.simps) simp
next
  case (Cons y ys)
  obtain nd nds where ops: "smOperations s = nd # nds" "snKey nd = enc y" "map snKey nds = map enc ys"
    using Cons.prems(2) by (cases "smOperations s") (auto simp: opsOk_def)
  have y: "plainKey n rb y" "length y = n" using Cons.prems(4) by (auto simp: plainKey_def)
  obtain t ps q where t: "traverse (startOperation False s) = Some t" "treeOk H n rb M (set ps) t" "reached rb (dom M) y ps q t"
    "smTarget t = nd" "smOperations t = nds" using start_reaches [OF Cons.prems(1,2)] ops(1) by auto
  let ?M = "applyOp (y, nd) M"
  obtain u qs where u: "(if snDelete nd then smt_delete t else smt_set t) = (Inr (), u)" "qs \<noteq> []" "treeOk H n rb ?M (set qs) u"
    "onPath rb (dom ?M) y qs (smTraversed u)" "smOperations u = nds"
    using operation_executes [OF t(2,3) y(1)] t(4,5) ops(2) by auto
  have tail: "opsOk n ys u" using ops(3) u(5) Cons.prems(2) by (simp add: opsOk_def)
  have less: "y < hd ys" if "ys \<noteq> []" using Cons.prems(3) that by (cases ys) auto
  have re: "between H n rb ?M ys (rehash H u)" "smOperations (rehash H u) = nds"
    using rehash_between [OF u(3,4) tail y(2) less] u(2,5) by auto
  have "opsOk n ys (rehash H u)" using tail re(2) u(5) by (simp add: opsOk_def)
  then obtain v where v: "commit H False (rehash H u) = Some (Inr (), v)" "treeOk H n rb (fold applyOp (zip ys nds) ?M) {} v"
    "rooted rb v"
    using Cons.IH [OF re(1)] Cons.prems(3,4) re(2) by auto
  have "commit H False s = commit H False (rehash H u)"
    by (subst commit.simps) (use t(1,4) u(1) ops(1) in simp)
  then show ?case using v ops(1) by simp
qed

section \<open>The digest of a map\<close>

inductive digest :: "(bytes \<Rightarrow> bytes) \<Rightarrow> (bool list \<rightharpoonup> bytes) \<Rightarrow> bool list \<Rightarrow> bytes \<Rightarrow> bool"
  for H :: "bytes \<Rightarrow> bytes" and M :: "bool list \<rightharpoonup> bytes" where
  leaf: "M q = Some v \<Longrightarrow> digest H M q v"
| inner: "branching (dom M) q \<Longrightarrow> isTop (dom M) (q @ [False]) l \<Longrightarrow> isTop (dom M) (q @ [True]) r \<Longrightarrow>
    digest H M l a \<Longrightarrow> digest H M r b \<Longrightarrow> digest H M q (H (enc l @ a @ enc r @ b))"

inductive_cases digest_cases: "digest H M q v"

lemma digest_unique:
  assumes flat: "flat n (dom M)"
  shows "digest H M q v \<Longrightarrow> digest H M q w \<Longrightarrow> v = w"
proof (induction arbitrary: w rule: digest.induct)
  case (leaf q v)
  have "\<not> branching (dom M) q" using leaf.hyps leaf_or_branching [OF flat, of q] by auto
  with leaf show ?case by (auto elim: digest_cases)
next
  case (inner q l r a b)
  have "q \<notin> dom M" using leaf_or_branching [OF flat, of q] inner.hyps(1) by auto
  then have none: "M q = None" by auto
  note hyps = inner.hyps and IH = inner.IH
  from inner.prems show ?case
  proof cases
    case (inner l' r' a' b')
    then have "l' = l" "r' = r" using isTop_unique [OF flat] hyps by blast+
    with inner IH show ?thesis by simp
  qed (simp add: none)
qed

lemma digest_stored:
  assumes tree: "treeOk H n rb M {} s"
  shows "q \<in> dom M \<or> branching (dom M) q \<Longrightarrow> \<exists>nd. smStore s (nodeName rb q) = Some nd \<and> digest H M q (snValue nd)"
proof (induction "n - length q" arbitrary: q rule: less_induct)
  case less
  have sound: "sound n rb M" using tree by (simp add: treeOk_def)
  note flat = sound_flat [OF sound]
  show ?case
  proof (cases "q \<in> dom M")
    case True
    then obtain v where "M q = Some v" by auto
    then show ?thesis using tree leaf_nonempty [OF sound True] by (fastforce simp: treeOk_def stored_def nodeName_def intro: digest.leaf)
  next
    case False
    then have br: "branching (dom M) q" using less.prems by simp
    then obtain nd where nd: "smStore s (nodeName rb q) = Some nd" "kids (dom M) q nd" "hashed H nd s"
      using tree by (auto simp: treeOk_def settled_def)
    have below: "\<exists>c m. isTop (dom M) (q @ [b]) c \<and> child b nd = enc c \<and> smStore s (enc c) = Some m \<and> digest H M c (snValue m)" for b
    proof -
      obtain c where c: "isTop (dom M) (q @ [b]) c" "child b nd = enc c" using nd(2) by (auto simp: kids_def)
      have "length q < length c" using c(1) by (auto simp: isTop_def dest: prefix_length_le)
      then have "\<exists>m. smStore s (nodeName rb c) = Some m \<and> digest H M c (snValue m)"
        using branching_length [OF flat br] c(1) by (intro less.hyps) (auto simp: isTop_def)
      then show ?thesis using c top_nonempty [OF c(1)] by (auto simp: nodeName_def)
    qed
    obtain l m where l: "isTop (dom M) (q @ [False]) l" "snLeft nd = enc l" "smStore s (enc l) = Some m" "digest H M l (snValue m)" using below [of False] by auto
    obtain r k where r: "isTop (dom M) (q @ [True]) r" "snRight nd = enc r" "smStore s (enc r) = Some k" "digest H M r (snValue k)" using below [of True] by auto
    have "hashInput nd s = enc l @ snValue m @ enc r @ snValue k" by (simp add: hashInput_def getNode_def l r)
    then have "digest H M q (snValue nd)" using digest.inner [OF br l(1) r(1) l(4) r(4)] nd(3) by (simp add: hashed_def)
    with nd(1) show ?thesis by blast
  qed
qed

lemma digest_root:
  assumes "treeOk H n rb M {} s" "rooted rb s"
  shows "digest H M [] (Root s)"
  using digest_stored [OF assms(1), of "[]"] assms root_branching [of n rb M] by (auto simp: treeOk_def rooted_def nodeName_def)

section \<open>Opening the tree\<close>

lemma dataBits_replicate: "dataBits (replicate k (0 :: byte)) = replicate (8 * k) False" "dataBits (replicate k (255 :: byte)) = replicate (8 * k) True"
proof -
  have "byteBits 0 = replicate 8 False" "byteBits 255 = replicate 8 True" by (simp_all add: byteBits_def upt_rec eval_nat_numeral)
  then show "dataBits (replicate k (0 :: byte)) = replicate (8 * k) False" "dataBits (replicate k (255 :: byte)) = replicate (8 * k) True"
    by (induction k) (simp_all add: dataBits_def replicate_add)
qed

lemma length_dataBits: "length (dataBits ds) = 8 * length ds"
  by (induction ds) (simp_all add: dataBits_Cons, simp add: dataBits_def)

definition rootBits :: "nat \<Rightarrow> bool list" where
  "rootBits n = take n (dataBits RootKey)"

lemma reserved_keys:
  assumes "0 < n" "n \<le> 160"
  shows "minKey n = enc (replicate n False)" "maxKey n = enc (replicate n True)" "newNodeKey RootKey n = enc (rootBits n)"
    "length (rootBits n) = n"
  using assms by (simp_all add: minKey_def maxKey_def newNodeKey_enc dataBits_replicate rootBits_def RootKey_def length_dataBits min_def)

definition emptyLeaves :: "nat \<Rightarrow> bool list \<rightharpoonup> bytes" where
  "emptyLeaves n = [replicate n False \<mapsto> replicate 20 0, replicate n True \<mapsto> replicate 20 255]"

lemma emptyLeaves_shape:
  assumes "0 < n"
  shows "dom (emptyLeaves n) = {replicate n False, replicate n True}" "branching (dom (emptyLeaves n)) p \<longleftrightarrow> p = []"
    "isTop (dom (emptyLeaves n)) [b] (replicate n b)"
proof -
  let ?L = "{replicate n False, replicate n True}"
  show dom: "dom (emptyLeaves n) = ?L" by (auto simp: emptyLeaves_def)
  obtain m where n: "n = Suc m" using assms by (cases n) auto
  have "p = []" if br: "branching ?L p"
  proof (rule ccontr)
    assume "p \<noteq> []"
    then obtain c p' where p: "p = c # p'" by (cases p) auto
    obtain l where "l \<in> ?L" "prefix (p @ [c]) l" using branching_below [OF br] by blast
    then have l: "prefix (p @ [c]) (replicate n c)" by (auto simp: p n)
    obtain l' where "l' \<in> ?L" "prefix (p @ [\<not> c]) l'" using branching_below [OF br] by blast
    then have l': "prefix (p @ [\<not> c]) (replicate n c)" by (auto simp: p n)
    from l l' show False by (simp add: prefix_bit)
  qed
  moreover have "branching ?L []" by (auto simp: branching_def n)
  ultimately show "branching (dom (emptyLeaves n)) p \<longleftrightarrow> p = []" unfolding dom by blast
  show "isTop (dom (emptyLeaves n)) [b] (replicate n b)" unfolding dom by (cases b) (auto simp: isTop_def n)
qed

lemma sound_empty:
  assumes "1 < n" "n \<le> 160"
  shows "sound n (rootBits n) (emptyLeaves n)"
proof -
  have "rootBits n ! 0 = False" "rootBits n ! 1 = True"
    using assms by (simp_all add: rootBits_def RootKey_def dataBits_Cons byteBits_def nth_append rev_nth)
  then have "rootBits n \<noteq> replicate n False" "rootBits n \<noteq> replicate n True" using assms by (metis nth_replicate less_trans zero_less_one)+
  then show ?thesis using assms emptyLeaves_shape(1) [of n] reserved_keys(4) [of n] by (auto simp: sound_def flat_def)
qed

definition opened :: "(bytes \<Rightarrow> bytes) \<Rightarrow> nat \<Rightarrow> (bool list \<rightharpoonup> bytes) \<Rightarrow> smt \<Rightarrow> bool" where
  "opened H n M s \<longleftrightarrow> treeOk H n (rootBits n) M {} s \<and> rooted (rootBits n) s \<and> kids (dom M) [] (smRoot s) \<and>
     smCurrent s = smRoot s \<and> smTraversed s = [] \<and> smKeyBitLength s = n"

lemma reset_fields: "smStore (reset s) = smStore s" "smRoot (reset s) = smRoot s" "smCurrent (reset s) = smRoot s" "smTraversed (reset s) = []"
  "smKeyBitLength (reset s) = smKeyBitLength s"
  by (simp_all add: reset_def resetGCP_def)

lemma opened_new:
  assumes "1 < n" "n \<le> 160"
  shows "opened H n (emptyLeaves n) (NewSMT H RootKey n Map.empty)"
proof -
  let ?rb = "rootBits n" and ?L = "dom (emptyLeaves n)" and ?s = "NewSMT H RootKey n Map.empty"
  let ?min = "replicate n False" and ?max = "replicate n True"
  have n: "0 < n" using assms by simp
  note keys = reserved_keys [OF n assms(2)] and shape = emptyLeaves_shape [OF n]
  have sound: "sound n ?rb (emptyLeaves n)" using sound_empty [OF assms] .
  then have rb: "?rb \<noteq> ?min" "?rb \<noteq> ?max" using shape(1) by (auto simp: sound_def)
  have ne: "?min \<noteq> ?max" "?min \<noteq> []" "?max \<noteq> []" "?rb \<noteq> []" using n keys(4) by (cases n; auto)+
  have enc: "enc ?min \<noteq> enc ?max" "enc ?rb \<noteq> enc ?min" "enc ?rb \<noteq> enc ?max" using ne rb by (simp_all add: enc_inject)
  define root where "root = \<lparr>snKey = enc ?rb, snValue = H (enc ?min @ replicate 20 0 @ enc ?max @ replicate 20 255), snLeft = enc ?min,
    snRight = enc ?max, snDelete = False\<rparr>"
  define low where "low = newNode\<lparr>snKey := enc ?min, snValue := replicate 20 0\<rparr>"
  define high where "high = newNode\<lparr>snKey := enc ?max, snValue := replicate 20 255\<rparr>"
  have fields: "smStore ?s = Map.empty(enc ?min \<mapsto> low, enc ?max \<mapsto> high, enc ?rb \<mapsto> root)" "smRoot ?s = root" "smKeyBitLength ?s = n"
    using enc by (simp_all add: root_def low_def high_def NewSMT_def Let_def initializeTree_def updateParentValue_def setNode_def getNode_def
      newNode_def keys reset_fields hashInput_def)
  have "kids ?L [] root" unfolding kids_def using shape(3) by (auto simp: root_def)
  moreover have "hashed H root ?s" using enc fields(1) by (simp add: hashed_def hashInput_def getNode_def root_def low_def high_def)
  ultimately have "settled H ?rb ?L {} ?s" using fields(1) by (simp add: settled_def shape(2) nodeName_def)
  moreover have "stored (emptyLeaves n) ?s" using enc ne(1) fields(1) by (auto simp: stored_def emptyLeaves_def low_def high_def split: if_splits)
  moreover have "rooted ?rb ?s" using fields(1,2) by (simp add: rooted_def Root_def)
  moreover have "smCurrent ?s = smRoot ?s" "smTraversed ?s = []" by (simp_all add: NewSMT_def Let_def reset_fields)
  ultimately show ?thesis using sound fields(2,3) \<open>kids ?L [] root\<close> by (simp add: opened_def treeOk_def root_def)
qed

lemma opened_again:
  assumes n: "0 < n" "n \<le> 160" and tree: "treeOk H n (rootBits n) M {} t"
  shows "opened H n M (NewSMT H RootKey n (smStore t))"
proof -
  let ?rb = "rootBits n" and ?s = "NewSMT H RootKey n (smStore t)"
  have sound: "sound n ?rb M" using tree by (simp add: treeOk_def)
  obtain nd where nd: "smStore t (enc ?rb) = Some nd" "kids (dom M) [] nd"
    using tree root_branching [OF sound] by (auto simp: treeOk_def settled_def nodeName_def)
  have "snLeft nd \<noteq> []" using nd(2) unfolding kids_def by (metis enc_nonempty)
  then have fields: "smStore ?s = smStore t" "smRoot ?s = nd\<lparr>snKey := enc ?rb, snDelete := False\<rparr>" "smCurrent ?s = smRoot ?s"
    "smTraversed ?s = []" "smKeyBitLength ?s = n"
    using nd(1) by (simp_all add: NewSMT_def Let_def reset_fields reserved_keys [OF n] getNode_def)
  have "treeOk H n ?rb M {} ?s" using tree by (rule treeOk_cong) (use tree fields in \<open>simp_all add: treeOk_def\<close>)
  moreover have "kids (dom M) [] (smRoot ?s)" using nd(2) kids_fields [of "smRoot ?s" nd] fields(2) by simp
  moreover have "rooted ?rb ?s" using nd(1) fields(1,2) by (simp add: rooted_def Root_def)
  ultimately show ?thesis using fields by (simp add: opened_def)
qed

lemma opened_between:
  assumes "opened H n M s"
  shows "between H n (rootBits n) M ys (s\<lparr>smOperations := ops\<rparr>)"
proof -
  let ?rb = "rootBits n" and ?s = "s\<lparr>smOperations := ops\<rparr>"
  have tree: "treeOk H n ?rb M {} ?s" using assms treeOk_cong [of H n ?rb M "{}" s ?s] by (simp add: opened_def)
  have "chain (dom M) [] [[]]" using root_branching tree by (auto simp: chain_def treeOk_def)
  then have "onPath ?rb (dom M) [] [[]] (smTraversed ?s @ [smCurrent ?s])"
    using assms by (simp add: onPath_def opened_def treeOk_def nodeName_def)
  moreover have "treeOk H n ?rb M (set [[]]) ?s" using tree by (rule treeOk_mono) simp
  moreover have "rooted ?rb ?s" using assms by (simp add: opened_def rooted_def Root_def)
  ultimately have "\<exists>ps x. ps \<noteq> [] \<and> treeOk H n ?rb M (set ps) ?s \<and> onPath ?rb (dom M) x ps (smTraversed ?s @ [smCurrent ?s]) \<and>
      (ys \<noteq> [] \<longrightarrow> prefix (last ps) (hd ys))" by (intro exI [of _ "[[]]"] exI [of _ "[]"]) simp
  then show ?thesis using tree assms \<open>rooted ?rb ?s\<close> by (simp add: between_def opened_def)
qed

section \<open>Sorting the operations\<close>

lemma insertOp_sorted:
  assumes "map snKey l = map enc ys" "sorted_wrt (<) ys" "\<forall>z \<in> set ys. length z = n" "snKey nd = enc y" "length y = n" "0 < n" "y \<notin> set ys"
  shows "\<exists>zs. map snKey (insertOp nd l) = map enc zs \<and> sorted_wrt (<) zs \<and> mset (zip zs (insertOp nd l)) = add_mset (y, nd) (mset (zip ys l)) \<and>
    set zs = insert y (set ys)"
  using assms
proof (induction l arbitrary: ys)
  case Nil
  then show ?case by (intro exI [of _ "[y]"]) simp
next
  case (Cons m ms)
  obtain z zs where ys: "ys = z # zs" "snKey m = enc z" "map snKey ms = map enc zs" using Cons.prems(1) by (cases ys) auto
  have z: "length z = n" "z \<noteq> []" using Cons.prems(3,6) ys(1) by auto
  have cmp: "key_cmp (snKey nd) (snKey m) < 0 \<longleftrightarrow> y < z"
    using key_cmp_enc [OF z(2), of y] z(1) Cons.prems(4,5) ys(2) by (auto simp: Let_def)
  show ?case
  proof (cases "y < z")
    case True
    then have "sorted_wrt (<) (y # ys)" using Cons.prems(2) ys(1) by (auto intro: order.strict_trans)
    with True cmp ys Cons.prems(1,4) show ?thesis by (intro exI [of _ "y # ys"]) simp
  next
    case False
    then have "z < y" using Cons.prems(7) ys(1) by auto
    obtain us where us: "map snKey (insertOp nd ms) = map enc us" "sorted_wrt (<) us" "mset (zip us (insertOp nd ms)) = add_mset (y, nd) (mset (zip zs ms))"
      "set us = insert y (set zs)"
      using Cons.IH [OF ys(3)] Cons.prems ys(1) by auto
    have "sorted_wrt (<) (z # us)" using us(2,4) \<open>z < y\<close> Cons.prems(2) ys(1) by auto
    with us False cmp ys show ?thesis by (intro exI [of _ "z # us"]) auto
  qed
qed

lemma sortOps:
  assumes "\<And>nd y. (y, nd) \<in> set l \<Longrightarrow> snKey nd = enc y \<and> length y = n" "0 < n" "distinct (map fst l)"
  shows "\<exists>ys. map snKey (foldr insertOp (map snd l) []) = map enc ys \<and> sorted_wrt (<) ys \<and>
    mset (zip ys (foldr insertOp (map snd l) [])) = mset l \<and> set ys = set (map fst l)"
  using assms
proof (induction l)
  case (Cons a l)
  obtain y nd where a: "a = (y, nd)" by (cases a)
  obtain ys where ys: "map snKey (foldr insertOp (map snd l) []) = map enc ys" "sorted_wrt (<) ys"
    "mset (zip ys (foldr insertOp (map snd l) [])) = mset l" "set ys = set (map fst l)"
    using Cons by auto
  have y: "snKey nd = enc y" "length y = n" "y \<notin> set ys" using Cons.prems(1,3) a ys(4) by auto
  have "\<forall>z \<in> set ys. length z = n" using ys(4) Cons.prems(1) by fastforce
  then obtain zs where "map snKey (insertOp nd (foldr insertOp (map snd l) [])) = map enc zs" "sorted_wrt (<) zs"
    "mset (zip zs (insertOp nd (foldr insertOp (map snd l) []))) = add_mset (y, nd) (mset (zip ys (foldr insertOp (map snd l) [])))"
    "set zs = insert y (set ys)"
    using insertOp_sorted [OF ys(1,2) _ y(1,2) Cons.prems(2) y(3)] by blast
  then show ?case using ys a by (intro exI [of _ zs]) simp
qed simp

lemma fold_applyOp:
  "distinct (map fst l) \<Longrightarrow> fold applyOp l M y = (case map_of l y of None \<Rightarrow> M y | Some nd \<Rightarrow> if snDelete nd then None else Some (snValue nd))"
proof (induction l arbitrary: M)
  case (Cons a l)
  have "map_of l (fst a) = None" using Cons.prems by (simp add: map_of_eq_None_iff)
  with Cons show ?case by (cases a) (auto simp: applyOp_def split: option.splits)
qed simp

lemma fold_applyOp_perm:
  assumes "mset l = mset k" "distinct (map fst k)"
  shows "fold applyOp l M = fold applyOp k M"
proof
  fix y
  have "mset (map fst l) = mset (map fst k)" using assms(1) by simp
  then have "distinct (map fst l)" using assms(2) mset_eq_imp_distinct_iff by blast
  moreover have "map_of l = map_of k" using map_of_inject_set [OF calculation assms(2)] mset_eq_setD [OF assms(1)] by simp
  ultimately show "fold applyOp l M y = fold applyOp k M y" using assms(2) by (simp add: fold_applyOp)
qed

section \<open>Blocks\<close>

definition keyBits :: "(bytes \<Rightarrow> bytes) \<Rightarrow> nat \<Rightarrow> bytes \<Rightarrow> bool list" where
  "keyBits H n k = take n (dataBits (H k))"

text \<open>What \<open>Store.Root\<close> does for a block: open the tree on the store and commit the operations.\<close>

definition commitBlock :: "(bytes \<Rightarrow> bytes) \<Rightarrow> nat \<Rightarrow> valueOp list \<Rightarrow> smt \<Rightarrow> smt option" where
  "commitBlock H n ops s = (case smt_Commit H ops (NewSMT H RootKey n (smStore s)) of Some (Inr _, t) \<Rightarrow> Some t | _ \<Rightarrow> None)"

definition commitBlocks :: "(bytes \<Rightarrow> bytes) \<Rightarrow> nat \<Rightarrow> valueOp list list \<Rightarrow> smt option" where
  "commitBlocks H n blocks = foldl (\<lambda>r ops. Option.bind r (commitBlock H n ops)) (Some (NewSMT H RootKey n Map.empty)) blocks"

definition writeOp :: "valueOp \<Rightarrow> (bytes \<rightharpoonup> bytes) \<Rightarrow> (bytes \<rightharpoonup> bytes)" where
  "writeOp op m = m(voKey op := (if voOp op = opDelete then None else Some (voValue op)))"

definition stateAfter :: "valueOp list list \<Rightarrow> bytes \<rightharpoonup> bytes" where
  "stateAfter blocks = fold writeOp (concat blocks) Map.empty"

text \<open>The leaves of a state with keys in a set: the borders, and the hashed values under the bits of the hashed keys.\<close>

definition leavesOf :: "(bytes \<Rightarrow> bytes) \<Rightarrow> nat \<Rightarrow> bytes set \<Rightarrow> (bytes \<rightharpoonup> bytes) \<Rightarrow> (bool list \<rightharpoonup> bytes) \<Rightarrow> bool" where
  "leavesOf H n K m M \<longleftrightarrow> (\<forall>k \<in> K. M (keyBits H n k) = map_option H (m k)) \<and> (\<forall>y. y \<notin> keyBits H n ` K \<longrightarrow> M y = emptyLeaves n y)"

definition usableKeys :: "(bytes \<Rightarrow> bytes) \<Rightarrow> nat \<Rightarrow> bytes set \<Rightarrow> bool" where
  "usableKeys H n K \<longleftrightarrow> inj_on (keyBits H n) K \<and> (\<forall>k \<in> K. n \<le> 8 * length (H k) \<and> plainKey n (rootBits n) (keyBits H n k))"

definition blocksOver :: "bytes set \<Rightarrow> valueOp list list \<Rightarrow> bool" where
  "blocksOver K blocks \<longleftrightarrow> (\<forall>ops \<in> set blocks. distinct (map voKey ops) \<and> voKey ` set ops \<subseteq> K)"

lemma commitBlock_ok:
  assumes n: "0 < n" "n \<le> 160" and keys: "usableKeys H n K" and ops: "distinct (map voKey ops)" "voKey ` set ops \<subseteq> K"
    and op: "opened H n M (NewSMT H RootKey n (smStore s))"
  shows "\<exists>t. commitBlock H n ops s = Some t \<and> rooted (rootBits n) t \<and>
    treeOk H n (rootBits n) (fold applyOp (map (\<lambda>op. (keyBits H n (voKey op), valueOpToSMTNode H (NewSMT H RootKey n (smStore s)) op)) ops) M) {} t"
proof -
  let ?s = "NewSMT H RootKey n (smStore s)" and ?rb = "rootBits n"
  let ?l = "map (\<lambda>op. (keyBits H n (voKey op), valueOpToSMTNode H ?s op)) ops"
  let ?nodes = "foldr insertOp (map snd ?l) []"
  have len: "smKeyBitLength ?s = n" using op by (simp add: opened_def)
  have key: "snKey (valueOpToSMTNode H ?s op) = enc (keyBits H n (voKey op)) \<and> plainKey n ?rb (keyBits H n (voKey op))" if "op \<in> set ops" for op
  proof -
    have "voKey op \<in> K" using that ops(2) by auto
    then show ?thesis using keys n newNodeKey_enc [of n "H (voKey op)"] by (simp add: usableKeys_def valueOpToSMTNode_def len Let_def keyBits_def)
  qed
  have "inj_on (keyBits H n) (voKey ` set ops)" using keys ops(2) by (auto simp: usableKeys_def intro: inj_on_subset)
  then have dist: "distinct (map fst ?l)" using ops(1) by (simp add: comp_def distinct_map inj_on_def)
  obtain ys where ys: "map snKey ?nodes = map enc ys" "sorted_wrt (<) ys" "mset (zip ys ?nodes) = mset ?l" "set ys = set (map fst ?l)"
    using sortOps [of ?l n] n(1) dist key by (auto simp: plainKey_def)
  let ?u = "?s\<lparr>smOperations := ?nodes\<rparr>"
  have plain: "plainKey n ?rb y" if "y \<in> set ys" for y using that ys(4) key by auto
  have "opsOk n ys ?u" using ys(1) plain by (auto simp: opsOk_def plainKey_def)
  then obtain t where "commit H False ?u = Some (Inr (), t)" "treeOk H n ?rb (fold applyOp (zip ys ?nodes) M) {} t" "rooted ?rb t"
    using commit_settles [OF opened_between [OF op] _ ys(2) plain] by auto
  moreover have "map snd ?l = map (valueOpToSMTNode H ?s) ops" by simp
  moreover have "fold applyOp (zip ys ?nodes) M = fold applyOp ?l M" using fold_applyOp_perm [OF ys(3) dist] .
  ultimately show ?thesis by (simp add: commitBlock_def smt_Commit_def comp_def)
qed

lemma leavesOf_step:
  assumes keys: "usableKeys H n K" and leaves: "leavesOf H n K m M" and k: "k \<in> K"
    and nd: "snDelete nd \<longleftrightarrow> v = None" "\<And>w. v = Some w \<Longrightarrow> snValue nd = H w"
  shows "leavesOf H n K (m(k := v)) (applyOp (keyBits H n k, nd) M)"
proof -
  have "keyBits H n j = keyBits H n k \<longleftrightarrow> j = k" if "j \<in> K" for j
    using that keys k by (auto simp: usableKeys_def dest: inj_onD)
  then show ?thesis using leaves k nd by (cases v) (auto simp: leavesOf_def applyOp_def)
qed

lemma leavesOf_block:
  assumes "usableKeys H n K" "voKey ` set ops \<subseteq> K"
  shows "leavesOf H n K m M \<Longrightarrow>
    leavesOf H n K (fold writeOp ops m)
      (fold applyOp (map (\<lambda>op. (keyBits H n (voKey op), valueOpToSMTNode H s op)) ops) M)"
  using assms(2)
proof (induction ops arbitrary: m M)
  case (Cons op ops)
  have "leavesOf H n K (writeOp op m) (applyOp (keyBits H n (voKey op), valueOpToSMTNode H s op) M)"
    unfolding writeOp_def using Cons.prems by (intro leavesOf_step [OF assms(1)]) (auto simp: valueOpToSMTNode_def Let_def split: if_splits)
  with Cons show ?case by simp
qed simp

lemma commitBlocks_ok:
  assumes n: "1 < n" "n \<le> 160" and keys: "usableKeys H n K" and blocks: "blocksOver K blocks"
  shows "\<exists>s M. commitBlocks H n blocks = Some s \<and> treeOk H n (rootBits n) M {} s \<and> rooted (rootBits n) s \<and> leavesOf H n K (stateAfter blocks) M"
  using blocks
proof (induction blocks rule: rev_induct)
  case Nil
  let ?s = "NewSMT H RootKey n Map.empty"
  have "opened H n (emptyLeaves n) ?s" using opened_new [OF n] .
  moreover have "leavesOf H n K Map.empty (emptyLeaves n)"
  proof -
    have "emptyLeaves n (keyBits H n k) = None" if "k \<in> K" for k
      using that keys emptyLeaves_shape(1) [of n] n(1) by (auto simp: usableKeys_def plainKey_def)
    then show ?thesis by (simp add: leavesOf_def)
  qed
  ultimately show ?case unfolding opened_def commitBlocks_def stateAfter_def by auto
next
  case (snoc ops blocks)
  then obtain s M where s: "commitBlocks H n blocks = Some s" "treeOk H n (rootBits n) M {} s" "leavesOf H n K (stateAfter blocks) M"
    by (auto simp: blocksOver_def)
  let ?s = "NewSMT H RootKey n (smStore s)"
  let ?M = "fold applyOp (map (\<lambda>op. (keyBits H n (voKey op), valueOpToSMTNode H ?s op)) ops) M"
  have ops: "distinct (map voKey ops)" "voKey ` set ops \<subseteq> K" using snoc.prems by (auto simp: blocksOver_def)
  have n0: "0 < n" using n by simp
  obtain t where t: "commitBlock H n ops s = Some t" "rooted (rootBits n) t" "treeOk H n (rootBits n) ?M {} t"
    using commitBlock_ok [OF n0 n(2) keys ops opened_again [OF n0 n(2) s(2)]] by blast
  moreover have "leavesOf H n K (stateAfter (blocks @ [ops])) ?M" using leavesOf_block [OF keys ops(2) s(3)] by (simp add: stateAfter_def)
  moreover have "commitBlocks H n (blocks @ [ops]) = Some t" using s(1) t(1) by (simp add: commitBlocks_def)
  ultimately show ?case by blast
qed

lemma leavesOf_unique: "leavesOf H n K m M \<Longrightarrow> leavesOf H n K m M' \<Longrightarrow> M = M'"
  unfolding leavesOf_def by (intro ext) (metis imageE)

text \<open>
  C8: The state root is a function of the state alone. However the keys and values of a state were written, in whatever
  blocks and in whatever order Go ranges over the operations of a block, every commit ends without an error and the root of the
  tree is the digest of the leaves of the state: the hashed values under the bits of the hashed keys and the two
  borders. Two histories that lead to the same state have the same root. The bits of the hashed keys must not
  collide with each other or with the three reserved keys.
\<close>

theorem state_root_determined:
  assumes "1 < n" "n \<le> 160" and "usableKeys H n K" and "blocksOver K blocks" "blocksOver K blocks'"
    and "stateAfter blocks = stateAfter blocks'"
  shows "\<exists>s s' M. commitBlocks H n blocks = Some s \<and> commitBlocks H n blocks' = Some s' \<and> Root s = Root s' \<and>
    leavesOf H n K (stateAfter blocks) M \<and> digest H M [] (Root s)"
proof -
  obtain s M where s: "commitBlocks H n blocks = Some s" "treeOk H n (rootBits n) M {} s" "rooted (rootBits n) s" "leavesOf H n K (stateAfter blocks) M"
    using commitBlocks_ok [OF assms(1,2,3,4)] by blast
  obtain s' M' where s': "commitBlocks H n blocks' = Some s'" "treeOk H n (rootBits n) M' {} s'" "rooted (rootBits n) s'" "leavesOf H n K (stateAfter blocks') M'"
    using commitBlocks_ok [OF assms(1,2,3,5)] by blast
  have "M' = M" using leavesOf_unique s(4) s'(4) assms(6) by metis
  then have "digest H M [] (Root s)" "digest H M [] (Root s')" using digest_root s(2,3) s'(2,3) by blast+
  moreover have "flat n (dom M)" using s(2) by (simp add: treeOk_def sound_def)
  ultimately show ?thesis using s(1,4) s'(1) digest_unique by blast
qed

text \<open>Two histories of the state with one entry, in a tree of three bits with the identity for the hash.\<close>

definition exampleWrite :: "byte \<Rightarrow> byte \<Rightarrow> valueOp" where
  "exampleWrite k v = \<lparr>voKey = [k], voValue = [v], voVersion = 1, voOp = opSet\<rparr>"

definition exampleErase :: "byte \<Rightarrow> valueOp" where
  "exampleErase k = \<lparr>voKey = [k], voValue = [], voVersion = 2, voOp = opDelete\<rparr>"

lemma example_keys: "usableKeys id 3 {[32], [64]}"
proof -
  have "keyBits id 3 [32] = [False, False, True]" "keyBits id 3 [64] = [False, True, False]" "rootBits 3 = [False, True, True]"
    by (simp_all add: keyBits_def rootBits_def RootKey_def dataBits_def byteBits_def upt_rec)
  moreover have "replicate 3 b = [b, b, b]" for b :: bool by (simp add: eval_nat_numeral)
  ultimately show ?thesis by (simp add: usableKeys_def plainKey_def)
qed

theorem state_root_determined_witness:
  "\<exists>s s' M. commitBlocks id 3 [[exampleWrite 64 1, exampleWrite 32 7], [exampleErase 64]] = Some s \<and>
    commitBlocks id 3 [[exampleWrite 32 5], [exampleWrite 32 7]] = Some s' \<and> Root s = Root s' \<and>
    leavesOf id 3 {[32], [64]} [[32] \<mapsto> [7]] M \<and> digest id M [] (Root s)"
proof -
  let ?a = "[[exampleWrite 64 1, exampleWrite 32 7], [exampleErase 64]]" and ?b = "[[exampleWrite 32 5], [exampleWrite 32 7]]"
  have "stateAfter ?a = [[32] \<mapsto> [7]]" "stateAfter ?b = [[32] \<mapsto> [7]]"
    by (auto simp: stateAfter_def writeOp_def exampleWrite_def exampleErase_def)
  moreover have "blocksOver {[32], [64]} ?a" "blocksOver {[32], [64]} ?b" by (auto simp: blocksOver_def exampleWrite_def exampleErase_def)
  ultimately show ?thesis using state_root_determined [OF _ _ example_keys, of ?a ?b] by simp
qed

end
