(* ===== verification/MerkleProofs.thy ===== *)
theory MerkleProofs
  imports StateRoot
begin

text \<open>
  Proofs of membership (\<open>GetMerkleProof\<close>, \<open>VerifyProof\<close> of \<open>store/smt.go\<close>). The siblings along the path to a key rebuild the
  nodes of that path with their keys, children and values, and a walk depends on nothing else, so it ends in the rebuilt
  tree where it ended in the tree. What \<open>VerifyProof\<close> does with a proof of another key is shown by example.
\<close>

section \<open>What a walk keeps\<close>

definition advance :: "smt \<Rightarrow> smt" where
  "advance s = (let k = child (bitAt (snKey (smTarget s)) (smBitPos s)) (smCurrent s); g = greatestCommonPrefix (snKey (smTarget s)) k (smBitPos s, smGcp s)
     in s\<lparr>smTraversed := smTraversed s @ [smCurrent s], smCurrent := (getNode k s)\<lparr>snKey := (if k = [] then [0, 0] else k)\<rparr>, smBitPos := fst g, smGcp := snd g\<rparr>)"

definition arrived :: "smt \<Rightarrow> bool" where
  "arrived s \<longleftrightarrow> snKey (smCurrent s) \<noteq> smGcp s \<or> snKey (smTarget s) = smGcp s"

lemma getNode_store: "smStore s = smStore t \<Longrightarrow> getNode k s = getNode k t"
  by (simp add: getNode_def)

lemma traverse_body:
  "(let s1 = s\<lparr>smTraversed := smTraversed s @ [smCurrent s]\<rparr>;
        target = snKey (smTarget s);
        currentKey = child (bitAt target (smBitPos s)) (smCurrent s);
        gcp = greatestCommonPrefix target currentKey (smBitPos s, smGcp s);
        loadedKey = (if currentKey = [] then [0, 0] else currentKey);
        s2 = s1\<lparr>smCurrent := (getNode currentKey s1)\<lparr>snKey := loadedKey\<rparr>, smBitPos := fst gcp, smGcp := snd gcp\<rparr>
    in if loadedKey \<noteq> snd gcp \<or> target = snd gcp then Some s2 else f s2) = (if arrived (advance s) then Some (advance s) else f (advance s))"
  by (simp add: arrived_def advance_def Let_def getNode_def split del: if_split cong: if_cong)

lemma traverse_unfold: "traverse s = (if arrived (advance s) then Some (advance s) else traverse (advance s))"
  by (subst traverse.simps) (rule traverse_body)

lemma traverse_induct [consumes 1, case_names stop step]:
  assumes "traverse s = Some t" "\<And>s. arrived (advance s) \<Longrightarrow> P s (advance s)" "\<And>s t. \<not> arrived (advance s) \<Longrightarrow> P (advance s) t \<Longrightarrow> P s t"
  shows "P s t"
proof (rule traverse.raw_induct [OF _ assms(1)], goal_cases)
  case (1 f s t)
  then have "(if arrived (advance s) then Some (advance s) else f (advance s)) = Some t" using traverse_body [of s f] by argo
  then show ?case using 1(1) assms(2,3) by (metis option.inject)
qed

lemma advance_fields:
  "smTraversed (advance s) = smTraversed s @ [smCurrent s]" "smStore (advance s) = smStore s" "smKeyBitLength (advance s) = smKeyBitLength s"
  "smTarget (advance s) = smTarget s"
  by (simp_all add: advance_def Let_def)

lemma traverse_extends:
  assumes "traverse s = Some t"
  shows "(\<exists>nds. smTraversed t = smTraversed s @ smCurrent s # nds) \<and> smKeyBitLength t = smKeyBitLength s \<and> smStore t = smStore s"
  using assms
proof (induction s t rule: traverse_induct)
  case (step s t)
  then show ?case using getNode_store [of "advance s" s] by (auto simp: advance_fields)
qed (simp add: advance_fields)

definition sameKids :: "smtNode \<Rightarrow> smtNode \<Rightarrow> bool" where
  "sameKids a b \<longleftrightarrow> snLeft a = snLeft b \<and> snRight a = snRight b \<and> snLeft b \<noteq> [] \<and> snRight b \<noteq> []"

text \<open>A walk sees of the tree only the children of the nodes on its path.\<close>

definition sameWalk :: "smt \<Rightarrow> smt \<Rightarrow> bool" where
  "sameWalk s s' \<longleftrightarrow> snKey (smTarget s') = snKey (smTarget s) \<and> smBitPos s' = smBitPos s \<and> smGcp s' = smGcp s \<and> sameKids (smCurrent s') (smCurrent s)"

lemma advance_same:
  assumes "sameWalk s s'"
  shows "smGcp (advance s') = smGcp (advance s)" "arrived (advance s') = arrived (advance s)"
    "sameKids (getNode (snKey (smCurrent (advance s))) s') (smCurrent (advance s)) \<Longrightarrow> sameWalk (advance s) (advance s')"
  using assms by (auto simp: sameWalk_def sameKids_def advance_def arrived_def Let_def)

lemma traverse_same:
  assumes "traverse s = Some t"
  shows "\<exists>nds. smTraversed t = smTraversed s @ smCurrent s # nds \<and> (\<forall>s'. sameWalk s s' \<longrightarrow> (\<forall>nd \<in> set nds. sameKids (getNode (snKey nd) s') nd) \<longrightarrow>
    (\<exists>t'. traverse s' = Some t' \<and> smGcp t' = smGcp t \<and> smTarget t' = smTarget s'))"
  using assms
proof (induction s t rule: traverse_induct)
  case (stop s)
  then show ?case using advance_same traverse_unfold by (intro exI [of _ "[]"]) (auto simp: advance_fields)
next
  case (step s t)
  then obtain nds where nds: "smTraversed t = smTraversed (advance s) @ smCurrent (advance s) # nds"
    "\<And>s'. sameWalk (advance s) s' \<Longrightarrow> \<forall>nd \<in> set nds. sameKids (getNode (snKey nd) s') nd \<Longrightarrow>
      \<exists>t'. traverse s' = Some t' \<and> smGcp t' = smGcp t \<and> smTarget t' = smTarget s'" by blast
  show ?case
  proof (intro exI [of _ "smCurrent (advance s) # nds"] conjI allI impI)
    fix s' assume s': "sameWalk s s'" "\<forall>nd \<in> set (smCurrent (advance s) # nds). sameKids (getNode (snKey nd) s') nd"
    then have "traverse s' = traverse (advance s')" using advance_same(2) step(1) traverse_unfold by metis
    moreover have "sameWalk (advance s) (advance s')" using advance_same(3) s' by simp
    moreover have "\<forall>nd \<in> set nds. sameKids (getNode (snKey nd) (advance s')) nd" using s'(2) getNode_store [of "advance s'" s'] by (simp add: advance_fields)
    ultimately show "\<exists>t'. traverse s' = Some t' \<and> smGcp t' = smGcp t \<and> smTarget t' = smTarget s'" using nds(2) by (metis advance_fields(4))
  qed (simp add: nds(1) advance_fields)
qed

lemma gcp_diverge:
  assumes "prefix (p @ [b]) a" "prefix (p @ [\<not> b]) c"
  shows "i \<le> length p \<Longrightarrow> greatestCommonPrefix (enc a) (enc c) (i, prefixKey (take i p)) = (length p, prefixKey p)"
proof (induction "length p - i" arbitrary: i)
  case 0
  have "a \<noteq> []" "c \<noteq> []" "a ! length p = b" "c ! length p \<noteq> b" "length p < length a" "length p < length c"
    using assms by (auto simp: prefix_bit)
  with 0 show ?case by (subst greatestCommonPrefix.simps) (simp add: bitAt_enc)
next
  case (Suc m)
  then have i: "i < length p" by simp
  have "a \<noteq> []" "c \<noteq> []" "a ! i = p ! i" "c ! i = p ! i" "length p < length a" "length p < length c"
    using assms i by (auto simp: prefix_def nth_append)
  then have "greatestCommonPrefix (enc a) (enc c) (i, prefixKey (take i p)) =
      greatestCommonPrefix (enc a) (enc c) (Suc i, prefixKey (take (Suc i) p))"
    using i by (subst greatestCommonPrefix.simps) (simp add: bitAt_enc totalBits_enc addBit_prefixKey take_Suc_conv_app_nth)
  with Suc i show ?case by simp
qed

section \<open>A proof along the path\<close>

definition entryAt :: "bytes \<Rightarrow> smt \<Rightarrow> bytes" where
  "entryAt k s = snValue (getNode k s)"

text \<open>An inner node and its two children.\<close>

lemma settled_node:
  assumes tree: "treeOk H n rb M {} s" and p: "branching (dom M) p" and kids: "kids (dom M) p nd" and q: "isTop (dom M) (p @ [b]) q"
  shows "\<exists>r. isTop (dom M) (p @ [\<not> b]) r \<and> child b nd = enc q \<and> child (\<not> b) nd = enc r \<and> enc q \<noteq> enc r \<and>
    entryAt (nodeName rb p) s = H (if b then enc r @ entryAt (enc r) s @ enc q @ entryAt (enc q) s else enc q @ entryAt (enc q) s @ enc r @ entryAt (enc r) s)"
proof -
  have sound: "sound n rb M" using tree by (simp add: treeOk_def)
  obtain r where r: "isTop (dom M) (p @ [\<not> b]) r" "child (\<not> b) nd = enc r" using kids unfolding kids_def by blast
  have qr: "child b nd = enc q" using kids_child [OF sound_flat [OF sound] kids q] .
  obtain m where m: "smStore s (nodeName rb p) = Some m" "kids (dom M) p m" "hashed H m s" using tree p by (auto simp: treeOk_def settled_def)
  have mk: "child b m = enc q" "child (\<not> b) m = enc r" using kids_child [OF sound_flat [OF sound] m(2)] q r(1) by blast+
  have key: "snKey (getNode (enc c) s) = enc c" if "isTop (dom M) (p @ [a]) c" for a c
  proof -
    have "c \<in> dom M \<or> branching (dom M) c" "c \<noteq> []" using that top_nonempty by (auto simp: isTop_def)
    then have "\<exists>m. smStore s (enc c) = Some m" using tree by (cases "c \<in> dom M") (fastforce simp: treeOk_def stored_def settled_def nodeName_def)+
    then show ?thesis by (auto simp: getNode_def)
  qed
  have "entryAt (nodeName rb p) s = H (hashInput m s)" using m(1,3) by (simp add: entryAt_def getNode_def hashed_def)
  also have "hashInput m s = (if b then enc r @ entryAt (enc r) s @ enc q @ entryAt (enc q) s else enc q @ entryAt (enc q) s @ enc r @ entryAt (enc r) s)"
    using mk key [OF q] key [OF r(1)] by (auto simp: hashInput_def Let_def entryAt_def)
  finally have "entryAt (nodeName rb p) s = H \<dots>" .
  moreover have "enc q \<noteq> enc r"
  proof -
    have "q \<noteq> r" using q r(1) by (auto simp: isTop_def prefix_bit)
    then show ?thesis using q r(1) top_nonempty by (simp add: enc_inject)
  qed
  ultimately show ?thesis using r qr by blast
qed

definition siblingOf :: "bool \<Rightarrow> bool list \<Rightarrow> smt \<Rightarrow> proofNode" where
  "siblingOf b r s = \<lparr>pfKey = enc r, pfValue = entryAt (enc r) s, pfBitmask = (if b then 0 else 1)\<rparr>"

lemma path_step:
  assumes tree: "treeOk H n rb M {} s" and p: "branching (dom M) p" and kids: "kids (dom M) p nd" and q: "isTop (dom M) (p @ [b]) q"
  shows "\<exists>r. getOtherChild (enc q) nd = Inr (enc r, if b then 0 else 1) \<and>
    combineProof H (siblingOf b r s) (enc q, entryAt (enc q) s) =
      newNode\<lparr>snKey := prefixKey p, snValue := entryAt (nodeName rb p) s, snLeft := snLeft nd, snRight := snRight nd\<rparr>"
proof -
  obtain r where r: "isTop (dom M) (p @ [\<not> b]) r" "child b nd = enc q" "child (\<not> b) nd = enc r" "enc q \<noteq> enc r"
    "entryAt (nodeName rb p) s = H (if b then enc r @ entryAt (enc r) s @ enc q @ entryAt (enc q) s else enc q @ entryAt (enc q) s @ enc r @ entryAt (enc r) s)"
    using settled_node [OF assms] by blast
  have "prefix (p @ [\<not> b]) r" "prefix (p @ [\<not> \<not> b]) q" using q r(1) by (auto simp: isTop_def)
  then have "snd (greatestCommonPrefix (enc r) (enc q) (0, [])) = prefixKey p" using gcp_diverge [of p "\<not> b" r q 0] by (simp add: prefixKey_def)
  then show ?thesis using r by (intro exI [of _ r]) (cases b; simp add: getOtherChild_def combineProof_def siblingOf_def)
qed

text \<open>
  The siblings along a path rebuild its nodes: with the children they have in the tree, each under its own key, and the root
  last, with the value it has in the tree.
\<close>

definition rebuilt :: "smtNode list \<Rightarrow> bool list list \<Rightarrow> bytes \<Rightarrow> smt \<Rightarrow> bytes \<times> smt \<Rightarrow> bool" where
  "rebuilt nds ps v s r \<longleftrightarrow> fst r = v \<and> snKey (smRoot (snd r)) = [] \<and> sameKids (smRoot (snd r)) (hd nds) \<and>
     (\<forall>nd \<in> set (tl nds). sameKids (getNode (snKey nd) (snd r)) nd) \<and>
     (\<forall>k. k \<notin> prefixKey ` set ps \<longrightarrow> smStore (snd r) k = smStore s k) \<and> smKeyBitLength (snd r) = smKeyBitLength s"

lemma chain_last: "chain L x (ps @ [p]) \<Longrightarrow> ps \<noteq> [] \<Longrightarrow> isTop L (last ps @ [x ! length (last ps)]) p"
  unfolding chain_def by (elim conjE allE [of _ "length ps - 1"]) (simp add: nth_append last_conv_nth)

lemma rebuild_path:
  assumes tree: "treeOk H n rb M {} s"
  shows "onPath rb (dom M) x ps nds \<Longrightarrow> ps \<noteq> [] \<Longrightarrow> isTop (dom M) (last ps @ [x ! length (last ps)]) q \<Longrightarrow> snKey cur = enc q \<Longrightarrow>
    \<exists>pf. pf \<noteq> [] \<and> siblings s (cur # rev nds) = Inr pf \<and> rebuilt nds ps (entryAt (enc rb) s) u (rebuild H pf (enc q, entryAt (enc q) s) u)"
proof (induction ps arbitrary: nds q cur u rule: rev_induct)
  case (snoc p ps)
  obtain nds' nd where nds: "nds = nds' @ [nd]" "length nds' = length ps"
    using snoc.prems(1) by (cases nds rule: rev_cases) (auto simp: onPath_def dest: list_all2_lengthD)
  note last = onPath_last [OF snoc.prems(1) [unfolded nds(1)]]
  define b where "b = x ! length p"
  have p: "branching (dom M) p" using last(4) by (simp add: chain_def)
  have q: "isTop (dom M) (p @ [b]) q" using snoc.prems(3) by (simp add: b_def)
  obtain r where r: "getOtherChild (enc q) nd = Inr (enc r, if b then 0 else 1)" and
    node: "combineProof H (siblingOf b r s) (enc q, entryAt (enc q) s) =
      newNode\<lparr>snKey := prefixKey p, snValue := entryAt (nodeName rb p) s, snLeft := snLeft nd, snRight := snRight nd\<rparr>"
    using path_step [OF tree p last(2) q] by blast
  have named: "snLeft nd \<noteq> []" "snRight nd \<noteq> []" using last(2) unfolding kids_def by (metis enc_nonempty)+
  let ?nd = "newNode\<lparr>snKey := prefixKey p, snValue := entryAt (nodeName rb p) s, snLeft := snLeft nd, snRight := snRight nd\<rparr>"
  show ?case
  proof (cases "ps = []")
    case True
    then have "p = []" "nds' = []" using last(4) nds(2) by (auto simp: chain_def)
    then have "siblings s (cur # rev nds) = Inr [siblingOf b r s]" using snoc.prems(4) r nds(1) by (simp add: siblingOf_def entryAt_def)
    moreover have "rebuilt nds (ps @ [p]) (entryAt (enc rb) s) u (rebuild H [siblingOf b r s] (enc q, entryAt (enc q) s) u)"
      using True \<open>p = []\<close> \<open>nds' = []\<close> node nds(1) named by (simp add: rebuilt_def setNode_def sameKids_def prefixKey_def nodeName_def newNode_def Let_def)
    ultimately show ?thesis by blast
  next
    case False
    have pn: "p \<noteq> []" using chain_last [OF last(4) False] top_nonempty by blast
    then have name: "nodeName rb p = enc p" "prefixKey p = enc p" by (simp_all add: nodeName_def prefixKey_def)
    have above: "isTop (dom M) (last ps @ [x ! length (last ps)]) p" using chain_last [OF last(4) False] .
    have fresh: "prefixKey p \<notin> prefixKey ` set ps"
      using chain_last_new [OF last(4)] pn by (auto simp: prefixKey_def enc_inject split: if_splits)
    obtain pf where pf: "pf \<noteq> []" "siblings s (nd # rev nds') = Inr pf"
      "rebuilt nds' ps (entryAt (enc rb) s) (setNode ?nd u) (rebuild H pf (enc p, entryAt (enc p) s) (setNode ?nd u))"
      using snoc.IH [OF last(3) False above, of nd "setNode ?nd u"] last(1) name by auto
    have "siblings s (cur # rev nds) = Inr (siblingOf b r s # pf)" using snoc.prems(4) r nds(1) pf(2) by (simp add: siblingOf_def entryAt_def)
    moreover have "rebuild H (siblingOf b r s # pf) (enc q, entryAt (enc q) s) u = rebuild H pf (enc p, entryAt (enc p) s) (setNode ?nd u)"
      using pf(1) node name by (simp add: Let_def)
    moreover have "rebuilt nds (ps @ [p]) (entryAt (enc rb) s) u (rebuild H pf (enc p, entryAt (enc p) s) (setNode ?nd u))"
      using pf(3) fresh False nds last(1) name named by (cases nds') (auto simp: rebuilt_def setNode_def getNode_def sameKids_def newNode_def)
    ultimately show ?thesis by (metis list.distinct(1))
  qed
qed simp

section \<open>Proofs of a tree verify\<close>

lemma siblings_store: "smStore s = smStore t \<Longrightarrow> siblings s l = siblings t l"
  by (induction s l rule: siblings.induct) (auto simp: getNode_def split: sum.splits)

definition searching :: "(bytes \<Rightarrow> bytes) \<Rightarrow> nat \<Rightarrow> (bool list \<rightharpoonup> bytes) \<Rightarrow> bytes \<Rightarrow> bool list \<Rightarrow> smt \<Rightarrow> bool" where
  "searching H n M k x s \<longleftrightarrow> treeOk H n (rootBits n) M {} s \<and> rooted (rootBits n) s \<and> smKeyBitLength s = n \<and> n \<le> 160 \<and>
     newNodeKey (H k) n = enc x \<and> plainKey n (rootBits n) x"

lemma search_valid:
  assumes "0 < n" "n \<le> 160" "newNodeKey (H k) n = enc x" "plainKey n (rootBits n) x" "smKeyBitLength s = n" "snKey (smRoot s) = enc (rootBits n) \<or> snKey (smRoot s) = []"
  shows "validateTarget (searchFor H k s) (smTarget (searchFor H k s)) = Inr ()"
proof -
  have "x \<noteq> []" "rootBits n \<noteq> []" "replicate n b \<noteq> []" for b :: bool using assms(1,4) reserved_keys(4) [of n] assms(2) by (auto simp: plainKey_def)
  then show ?thesis using assms(3-6) reserved_keys [OF assms(1,2)] by (auto simp: validateTarget_def searchFor_def plainKey_def enc_inject)
qed

lemma proof_path:
  assumes "searching H n M k x s"
  shows "\<exists>t ps q pf. traverse (reset (searchFor H k s)) = Some t \<and> reached (rootBits n) (dom M) x ps q t \<and>
    fst (the (GetMerkleProof H k s)) = Inr (\<lparr>pfKey = enc q, pfValue = entryAt (enc q) s, pfBitmask = 0\<rparr> # pf) \<and> GetMerkleProof H k s \<noteq> None \<and>
    pf \<noteq> [] \<and> (\<forall>u. rebuilt (smTraversed t) ps (Root s) u (rebuild H pf (enc q, entryAt (enc q) s) u))"
proof -
  let ?rb = "rootBits n" and ?s = "reset (searchFor H k s)"
  have tree: "treeOk H n ?rb M {} s" and x: "plainKey n ?rb x" using assms by (simp_all add: searching_def)
  have sound: "sound n ?rb M" using tree by (simp add: treeOk_def)
  have n: "0 < n" "n \<le> 160" using sound assms by (simp_all add: sound_def searching_def)
  have valid: "validateTarget (searchFor H k s) (smTarget (searchFor H k s)) = Inr ()"
    using assms n tree by (intro search_valid) (auto simp: searching_def treeOk_def)
  have fields: "smTarget ?s = newNode\<lparr>snKey := enc x\<rparr>" "smStore ?s = smStore s" "smCurrent ?s = smRoot s" "smRoot ?s = smRoot s" "smTraversed ?s = []"
    "smGcp ?s = []" "smBitPos ?s = 0"
    using assms by (simp_all add: searching_def searchFor_def reset_def resetGCP_def)
  have "kids (dom M) [] (smRoot s)"
  proof -
    obtain nd where "smStore s (enc ?rb) = Some nd" "kids (dom M) [] nd" using tree root_branching [OF sound] by (auto simp: treeOk_def settled_def nodeName_def)
    then show ?thesis using assms kids_fields [of nd "smRoot s"] by (auto simp: searching_def rooted_def)
  qed
  then have "onPath ?rb (dom M) x [[]] (smTraversed ?s @ [smCurrent ?s])"
    using fields tree root_branching [OF sound] by (simp add: onPath_def chain_def nodeName_def treeOk_def)
  moreover have "treeOk H n ?rb M (set [[]]) ?s" by (rule treeOk_cong [OF treeOk_mono [OF tree]]) (simp_all add: fields)
  ultimately obtain t ps q where t: "traverse ?s = Some t" "reached ?rb (dom M) x ps q t"
    using traverse_reaches [of H n ?rb M "[[]]" ?s x] x fields by (auto simp: plainKey_def prefixKey_def)
  have st: "smStore t = smStore s" "snValue (smCurrent t) = entryAt (enc q) s" 
    using traverse_extends [OF t(1)] t(2) fields(2) by (auto simp: entryAt_def reached_def getNode_def)
  have root: "entryAt (enc ?rb) s = Root s" using assms by (auto simp: searching_def rooted_def entryAt_def getNode_def)
  have ex: "\<exists>pf. pf \<noteq> [] \<and> siblings s (smCurrent t # rev (smTraversed t)) = Inr pf \<and>
      rebuilt (smTraversed t) ps (Root s) u (rebuild H pf (enc q, entryAt (enc q) s) u)" for u
    using rebuild_path [OF tree, of x ps "smTraversed t" q "smCurrent t" u] t(2) root by (auto simp: reached_def)
  then obtain pf where pf: "pf \<noteq> []" "siblings s (smCurrent t # rev (smTraversed t)) = Inr pf" by blast
  have pf_all: "\<forall>u. rebuilt (smTraversed t) ps (Root s) u (rebuild H pf (enc q, entryAt (enc q) s) u)" using ex pf(2) by (metis sum.inject(2))
  have "siblings (t\<lparr>smTraversed := l\<rparr>) (smCurrent t # rev (smTraversed t)) = Inr pf" for l
    using pf(2) siblings_store [of "t\<lparr>smTraversed := l\<rparr>" s] st(1) by simp
  then have "fst (the (GetMerkleProof H k s)) = Inr (\<lparr>pfKey = enc q, pfValue = entryAt (enc q) s, pfBitmask = 0\<rparr> # pf)" "GetMerkleProof H k s \<noteq> None"
    using valid t st(2) by (simp_all add: GetMerkleProof_def Let_def reached_def)
  with t pf pf_all show ?thesis by blast
qed

lemma bits_fields: "smKeyBitLength (setNode nd s) = smKeyBitLength s" "smKeyBitLength (delNode k s) = smKeyBitLength s"
  "smKeyBitLength (snd (updateParentValue H nd s)) = smKeyBitLength s"
  by (simp_all add: setNode_def delNode_def updateParentValue_def Let_def)

lemma updateParentValue_bits: "updateParentValue H nd s = (p, t) \<Longrightarrow> smKeyBitLength t = smKeyBitLength s"
  using bits_fields(3) [of H nd s] by simp

lemma NewSMT_bits: "smKeyBitLength (NewSMT H rootKey n st) = n"
  by (auto simp: NewSMT_def Let_def reset_fields initializeTree_def bits_fields split: prod.split dest!: updateParentValue_bits)

lemma reached_leaf:
  assumes "sound n rb M" "reached rb (dom M) x ps q t" "length x = n" "x \<noteq> []"
  shows "enc x = smGcp t \<longleftrightarrow> M x \<noteq> None" "M x \<noteq> None \<Longrightarrow> q = x"
proof -
  note flat = sound_flat [OF assms(1)]
  have last: "branching (dom M) (last ps)" "prefix (last ps) x" using assms(2) by (auto simp: reached_def onPath_def chain_def)
  have top: "isTop (dom M) (last ps @ [x ! length (last ps)]) q" using assms(2) by (simp add: reached_def)
  have px: "prefix (last ps @ [x ! length (last ps)]) x" using last(2) branching_length [OF flat last(1)] assms(3) by (simp add: prefix_bit)
  have xq: "prefix x q \<longleftrightarrow> q = x" using top_length [OF flat top] assms(3) by (auto simp: prefix_def)
  have gcp: "enc x = prefixKey (lcp x q) \<longleftrightarrow> prefix x q" using gcp_keys(2) [OF px] top by (simp add: isTop_def)
  show leaf: "q = x" if "M x \<noteq> None"
  proof -
    have "prefix q x" using that top px by (auto simp: isTop_def)
    then show ?thesis using assms(2) by (simp add: reached_def)
  qed
  have "M x \<noteq> None" if "q = x"
    using that top branching_length [OF flat, of x] assms(3) by (auto simp: isTop_def)
  then show "enc x = smGcp t \<longleftrightarrow> M x \<noteq> None" using xq gcp leaf assms(2) unfolding reached_def by metis
qed

lemma proof_verifies:
  assumes "searching H n M k x s" "GetMerkleProof H k s = Some (Inr p, t)"
  shows "VerifyProof H n k v member (Root s) p = Some (Inr (if member then M x = Some (H v) else M x = None))"
proof -
  let ?rb = "rootBits n" and ?u = "\<lambda>q. setNode (newNode\<lparr>snKey := enc q, snValue := entryAt (enc q) s\<rparr>) (NewSMT H RootKey n Map.empty)"
  have tree: "treeOk H n ?rb M {} s" and x: "plainKey n ?rb x" using assms(1) by (simp_all add: searching_def)
  have sound: "sound n ?rb M" using tree by (simp add: treeOk_def)
  have n: "0 < n" "n \<le> 160" using sound assms(1) by (simp_all add: sound_def searching_def)
  obtain w ps q pf where w: "traverse (reset (searchFor H k s)) = Some w" "reached ?rb (dom M) x ps q w"
    and pf: "p = \<lparr>pfKey = enc q, pfValue = entryAt (enc q) s, pfBitmask = 0\<rparr> # pf" "pf \<noteq> []"
    "rebuilt (smTraversed w) ps (Root s) (?u q) (rebuild H pf (enc q, entryAt (enc q) s) (?u q))"
    using proof_path [OF assms(1)] assms(2) by auto
  obtain h r where run: "rebuild H pf (enc q, entryAt (enc q) s) (?u q) = (h, r)" by force
  obtain nds where nds: "smTraversed w = smRoot s # nds" and same: "\<And>s'. sameWalk (reset (searchFor H k s)) s' \<Longrightarrow>
      \<forall>nd \<in> set nds. sameKids (getNode (snKey nd) s') nd \<Longrightarrow> \<exists>t'. traverse s' = Some t' \<and> smGcp t' = smGcp w \<and> smTarget t' = smTarget s'"
    using traverse_same [OF w(1)] by (auto simp: reset_def resetGCP_def searchFor_def)
  have r: "h = Root s" "snKey (smRoot r) = []" "sameKids (smRoot r) (smRoot s)" "\<forall>nd \<in> set nds. sameKids (getNode (snKey nd) r) nd" "smKeyBitLength r = n"
    using pf(3) nds by (simp_all add: rebuilt_def run NewSMT_bits bits_fields)
  let ?r = "reset (searchFor H k r)"
  have "sameWalk (reset (searchFor H k s)) ?r" using r(3,5) assms(1) by (simp add: sameWalk_def reset_def resetGCP_def searchFor_def searching_def)
  moreover have "\<forall>nd \<in> set nds. sameKids (getNode (snKey nd) ?r) nd" using r(4) getNode_store [of ?r r] by (simp add: reset_def resetGCP_def searchFor_def)
  ultimately obtain t' where t': "traverse ?r = Some t'" "smGcp t' = smGcp w" "smTarget t' = smTarget ?r" using same by blast
  have valid: "validateTarget (searchFor H k r) (smTarget (searchFor H k r)) = Inr ()"
    using assms(1) n r by (intro search_valid) (auto simp: searching_def)
  have key: "snKey (smTarget t') = enc x" using t'(3) r(5) assms(1) by (simp add: reset_def resetGCP_def searchFor_def searching_def)
  have xn: "length x = n" "x \<noteq> []" using x n by (auto simp: plainKey_def)
  note leaf = reached_leaf [OF sound w(2) xn]
  have val: "M x = Some (entryAt (enc q) s)" if some: "M x \<noteq> None"
  proof -
    obtain y where y: "M x = Some y" using some by blast
    then obtain nd where "smStore s (enc x) = Some nd" "snValue nd = y" using tree by (auto simp: treeOk_def stored_def)
    then show ?thesis using y leaf(2) by (simp add: entryAt_def getNode_def)
  qed
  have "VerifyProof H n k v member (Root s) p =
      Some (Inr (if (snKey (smTarget t') = smGcp t') \<noteq> member then False else if \<not> snKey (smTarget t') = smGcp t' then True else entryAt (enc q) s = H v))"
    using pf(1,2) run r(1) valid t'(1) by (simp add: VerifyProof_def Let_def Suc_le_eq)
  then show ?thesis using leaf(1) key t'(2) val by (cases "M x") auto
qed

lemma rehash_bits: "smKeyBitLength (rehash H s) = smKeyBitLength s"
proof (induction H s rule: rehash.induct)
  case (1 H s)
  show ?case
    by (subst rehash.simps) (use 1 in \<open>auto simp: Let_def bits_fields split: prod.split dest!: updateParentValue_bits\<close>)
qed

lemma operation_bits:
  "smKeyBitLength (snd (smt_set s)) = smKeyBitLength s" "smKeyBitLength (snd (smt_delete s)) = smKeyBitLength s"
  by (simp_all add: smt_set_def smt_delete_def Let_def bits_fields split: sum.split prod.split)

lemma commit_bits:
  assumes "commit H subTree s = Some (r, t)"
  shows "smKeyBitLength t = smKeyBitLength s"
proof -
  have "case w of (r, t) \<Rightarrow> smKeyBitLength t = smKeyBitLength s" if "commit H subTree s = Some w" for w
  proof (rule commit.raw_induct [OF _ that], goal_cases)
    case (1 f H subTree s w)
    have start: "smKeyBitLength (startOperation subTree s) = smKeyBitLength s" by (simp add: startOperation_def resetGCP_def Let_def)
    obtain r t where w: "w = (r, t)" by force
    show ?case
    proof (cases "smOperations s = []")
      case True
      then show ?thesis using 1(2) w by (auto split: if_splits)
    next
      case False
      then obtain s1 where s1: "traverse (startOperation subTree s) = Some s1" using 1(2) by (cases "traverse (startOperation subTree s)") auto
      define s2 where "s2 = (if snDelete (smTarget s1) then smt_delete s1 else smt_set s1)"
      have keep: "smKeyBitLength (snd s2) = smKeyBitLength s" using traverse_extends [OF s1] start operation_bits [of s1] by (simp add: s2_def)
      have "(case s2 of (Inl e, u) \<Rightarrow> Some (Inl e, u) | (Inr _, u) \<Rightarrow> f H subTree (rehash H u)) = Some w"
        using 1(2) False s1 by (simp add: s2_def)
      then show ?thesis using keep 1(1) [of H subTree "rehash H (snd s2)" w] w by (cases s2) (auto simp: rehash_bits split: sum.splits)
    qed
  qed
  from this [OF assms] show ?thesis by simp
qed

lemma commitBlocks_bits: "commitBlocks H n blocks = Some s \<Longrightarrow> smKeyBitLength s = n"
proof (cases blocks rule: rev_cases)
  case (snoc bs ops)
  assume "commitBlocks H n blocks = Some s"
  then obtain t where "commitBlock H n ops t = Some s" using snoc by (auto simp: commitBlocks_def bind_eq_Some_conv)
  then show ?thesis using commit_bits by (auto simp: commitBlock_def smt_Commit_def NewSMT_bits split: option.splits sum.splits dest: commit_bits)
qed (auto simp: commitBlocks_def NewSMT_bits)

text \<open>
  C9: A proof from the tree is right. For every history of blocks and every key, present or not, the proof that the
  tree gives verifies against the state root: as a proof of membership exactly with the values whose hash is that of the value
  of the key, and as a proof of non-membership exactly if the state does not have the key.
\<close>

theorem merkle_proofs_verify:
  assumes "1 < n" "n \<le> 160" and "usableKeys H n K" and "blocksOver K blocks" and "k \<in> K"
  shows "\<exists>s p t. commitBlocks H n blocks = Some s \<and> GetMerkleProof H k s = Some (Inr p, t) \<and> (\<forall>v.
    VerifyProof H n k v True (Root s) p = Some (Inr (map_option H (stateAfter blocks k) = Some (H v))) \<and>
    VerifyProof H n k v False (Root s) p = Some (Inr (stateAfter blocks k = None)))"
proof -
  obtain s M where s: "commitBlocks H n blocks = Some s" "treeOk H n (rootBits n) M {} s" "rooted (rootBits n) s" "leavesOf H n K (stateAfter blocks) M"
    using commitBlocks_ok [OF assms(1-4)] by blast
  have x: "n \<le> 8 * length (H k)" "plainKey n (rootBits n) (keyBits H n k)" using assms(3,5) by (simp_all add: usableKeys_def)
  then have "newNodeKey (H k) n = enc (keyBits H n k)" using assms(1) newNodeKey_enc [of n "H k"] by (simp add: keyBits_def)
  then have search: "searching H n M k (keyBits H n k) s" using s(2,3) x(2) assms(2) commitBlocks_bits [OF s(1)] by (simp add: searching_def)
  obtain p t where p: "GetMerkleProof H k s = Some (Inr p, t)" using proof_path [OF search] by (cases "GetMerkleProof H k s") (auto simp: prod_eq_iff)
  have "M (keyBits H n k) = map_option H (stateAfter blocks k)" using s(4) assms(5) by (simp add: leavesOf_def)
  then show ?thesis using s(1) p proof_verifies [OF search p, of _ True] proof_verifies [OF search p, of _ False] by auto
qed

theorem merkle_proofs_verify_witness:
  "\<exists>s p t. commitBlocks id 3 [[exampleWrite 32 7]] = Some s \<and> GetMerkleProof id [64] s = Some (Inr p, t) \<and> (\<forall>v.
    VerifyProof id 3 [64] v True (Root s) p = Some (Inr False) \<and> VerifyProof id 3 [64] v False (Root s) p = Some (Inr True))"
proof -
  let ?b = "[[exampleWrite 32 7]]"
  have "blocksOver {[32], [64]} ?b" by (auto simp: blocksOver_def exampleWrite_def)
  moreover have "stateAfter ?b [64] = None" by (simp add: stateAfter_def writeOp_def exampleWrite_def)
  ultimately show ?thesis using merkle_proofs_verify [OF _ _ example_keys, of ?b "[64]"] by simp
qed

section \<open>A proof of another key\<close>

lemma sibling_run:
  "case commitBlocks id 3 [[exampleWrite 32 7, exampleWrite 64 9]] of None \<Rightarrow> False
   | Some s \<Rightarrow> (case (GetMerkleProof id [32] s, GetMerkleProof id [64] s) of
       (Some (Inr p, _), Some (Inr q, _)) \<Rightarrow>
         VerifyProof id 3 [64] [7] True (Root s) p = Some (Inr True) \<and> VerifyProof id 3 [32] [7] False (Root s) q = Some (Inr True)
     | _ \<Rightarrow> False)"
  by code_simp


end
