(* ===== verification/Spec2Isabelle.thy ===== *)
theory Spec2Isabelle
  imports Keys Util Accounts Params Committees Quorum Validators Rewards Certificates Byzantine Swap Dex Frame Gov Messages Blocks
    Election Bft Phases Votes Locking Equivocation Pacing Genesis Contract Mempool Txn StateRoot MerkleProofs
begin

text \<open>
  Verification of a Canopy blockchain node with the Hunters plugin.

  \<^bold>\<open>The program.\<close> The node is written in Go. A deterministic state machine (\<open>src/fsm\<close>) keeps accounts, pools,
  validators, committees, an order book, exchange batches and governance parameters in a key-value store (\<open>src/store\<close>) and
  changes them block by block. A Byzantine fault tolerant consensus engine (\<open>src/bft\<close>) elects a leader for every
  round, collects votes and produces quorum certificates; a certificate carries the results (rewards, slashes, swap and
  exchange instructions) that the state machine of the root chain executes. The types both sides share, the arithmetic helpers and the
  pool of pending transactions are in \<open>src/lib\<close>; the contract of the plugin, a process that handles further message types over the
  store of the state machine, is \<open>src/plugin/go/contract\<close>.

  \<^bold>\<open>Modelling.\<close> A Go method with a receiver that it changes and an error it may return is a function of the monad \<open>sm\<close>
  of the theory Prelude: it takes the state and gives an error or a value together with the state, so what was written before an
  error stays written, as in Go. Unsigned integers are words of their width and wrap as in Go; a panic is an error of its
  own. The state is the record \<open>state\<close> with one sorted table per key prefix of \<open>fsm/key.go\<close>; that the bytes of the keys keep
  the tables apart and ordered is proved in Keys. Structs are records, protobuf messages too; a nil slice or
  pointer is \<open>None\<close> where the code can tell it from an empty one. Certificates of the consensus engine live in a heap,
  since messages, locks and evidence share them and \<open>AddDSE\<close> clears fields of the shared object.

  \<^bold>\<open>Theories.\<close>
  \<^item> Prelude: words, the monad and its Hoare logic, sorted tables with their interface \<open>kv_store\<close>. State: the
    messages of \<open>lib/.proto\<close>, the state and the events of \<open>fsm/event.go\<close>. Util: percentages, square roots and products of
    \<open>lib/util.go\<close>, with termination and exactness. Keys: \<open>fsm/key.go\<close> and \<open>lib.JoinLenPrefix\<close>, with the interface \<open>key_space\<close>.
  \<^item> Accounts: \<open>fsm/account.go\<close>, the invariants \<open>conserved\<close> (balances, pools and stakes add up to the total supply) and
    \<open>points_ok\<close>, transfers as interpretations of \<open>token_move\<close>. Params: \<open>fsm/gov_params.go\<close>. Committees and Rewards:
    \<open>fsm/committee.go\<close>. Validators: \<open>fsm/validator.go\<close> and the invariant \<open>ledger\<close> of the stake. Quorum: \<open>lib/consensus.go\<close>.
    Certificates: \<open>lib/certificate.go\<close>. Byzantine: \<open>fsm/byzantine.go\<close>. Swap: \<open>fsm/swap.go\<close> and the invariant \<open>solvent\<close> of the
    escrow. Dex: \<open>fsm/dex.go\<close> and \<open>lib/dex.go\<close>.
  \<^item> Frame: what every operation leaves alone, as the locales \<open>framed_core\<close> and \<open>framed\<close>, interpreted for the records and the
    liquidity points. Gov: \<open>fsm/gov.go\<close>. Messages: the checks and handlers of \<open>fsm/message.go\<close> and
    \<open>fsm/message_helpers.go\<close> and the execution of certificate results. Blocks: \<open>fsm/transaction.go\<close>, \<open>fsm/automatic.go\<close> and the block
    processing of \<open>fsm/state.go\<close>. Genesis: \<open>fsm/genesis.go\<close> and the chain of states.
  \<^item> Election: \<open>bft/election.go\<close> with the rounding of its floating point numbers. Bft: the state of the engine and
    the handling of messages, votes, proposals and evidence (\<open>bft/msg.go\<close>, \<open>bft/vote.go\<close>, \<open>bft/prop.go\<close>, \<open>bft/evidence.go\<close>).
    Phases: the timers and phase handlers of \<open>bft/bft.go\<close> and their event loop \<open>bft_step\<close>. Votes, Locking, Equivocation, Pacing:
    what follows for votes, locks, evidence and rounds; invariants of the engine go through the locales \<open>engine_part\<close> and
    \<open>tally_part\<close>.
  \<^item> Txn: the write buffer of \<open>store/txn.go\<close> and its merging iterator. NodeKeys, Merkle: the sparse Merkle tree of
    \<open>store/smt.go\<close>, its node keys as bit strings, \<open>Commit\<close> as \<open>Store.Root\<close> calls it, proofs and their verification.
    Patricia: the shape of a tree over a set of bit strings. StateRoot: the tree in the store has this shape after every
    operation. MerkleProofs: what proofs show. Mempool: \<open>lib/mempool.go\<close>, over the interface
    \<open>fee_sort\<close> of the sort the code calls. Contract: the plugin contract and its request loop.

  \<^bold>\<open>What is shown.\<close>
  \<^item> Money: every handler, the block and the whole chain from genesis conserve tokens; liquidity points, escrow
    and the stake ledger stay consistent; minting is within the halving schedule; slashing is capped; the exchange never
    lowers the product of its reserves. A plugin send conserves tokens exactly when amount plus fee does not wrap.
  \<^item> Blocks: failed transactions leave no trace, included ones are genuine and new, the results are complete.
  \<^item> Consensus: quorums intersect in a third of the power, conflicting high certificates expose double signers, a replica
    never signs two votes for one view, is never slashed while correct, and locks when it votes to precommit; leaders only
    certify what two thirds signed. Gaps are stated as theorems too: what the safe node predicate lets through, and
    the replay of pacemaker signatures.
  \<^item> Store and pool: keys refine tables; a store transaction is a map under reads, iteration and commit; the state
    root is the digest of the state, whatever blocks led to it; honest Merkle proofs verify exactly the truth, and false claims
    that a proof of another key verifies are exhibited; the mempool keeps its limits and terminates on batches without copies, and does not terminate on some batches with copies.

  \<^bold>\<open>Hypotheses, fuel and bounds.\<close> Keys, signatures, hashes, codecs and the answers of the controller and of other chains are
  parameters: fields of \<open>codec\<close>, \<open>crypt\<close>, \<open>controller\<close>, \<open>env\<close>, \<open>node\<close> and \<open>contractEnv\<close>. Theorems name what they need of
  them: signatures are not forged, sign bytes determine the view, hashes of the used keys do not collide, decoding inverts
  encoding. Conservation of a block excludes what mints or is outside the state machine: a treasury transfer flagged as mint, an
  exchange batch that does not mirror the other chain, the faucet and the plugin. Loops are structural or have a measure;
  the drop loop of the mempool and the loops \<open>traverse\<close> and \<open>commit\<close> of the tree are partial functions: the first may not end, the
  others do on every tree that commits have built, which is part of their theorems; only the specification \<open>collect\<close> of a run of
  an iterator has fuel, and one more than the entries of parent and buffer is proved enough.

  \<^bold>\<open>Not modelled.\<close> The database, the versioned store and the indexer below the write buffer, \<open>CommitParallel\<close> of the tree, which
  nothing calls; the header of a block. The controller (\<open>src/controller\<close>: goroutines, gossip, syncing, the recheck of the pool and the
  oversize mode of \<open>ApplyTransactions\<close> it uses) and peer to peer networking; a step of the engine is atomic where the code
  holds the controller lock. Cryptography, the delay function, RLP decoding of Ethereum transactions, JSON and pagination, straw polls,
  RPC, command line, updater and the socket of the plugin: input and output around the modelled logic, or libraries it only calls.
\<close>

end
